(* ===== verification/Pwr_Prelude.thy ===== *)
theory Pwr_Prelude
  imports
    Complex_Main
    "HOL-Library.Word"
    "HOL-Library.Monad_Syntax"
begin

unbundle bit_operations_syntax

text \<open>
  Shared vocabulary of the development: the scalar types and constants of
  \<^verbatim>\<open>include/cray-powerapi/types.h\<close>, the fact collections that the
  component theories fill, and generic lemmas on options, maps, words and strictly
  sorted lists.

  Conventions used everywhere below.
  \<^item> A C \<^verbatim>\<open>int\<close> or \<^verbatim>\<open>enum\<close> that crosses the public interface is an
    \<^typ>\<open>int\<close>: callers can pass values outside the enumerators and the code checks for that.
  \<^item> \<^verbatim>\<open>uint64_t\<close> and \<^verbatim>\<open>void *\<close> handles are \<^typ>\<open>64 word\<close>.
  \<^item> The address of a heap structure is a natural number (only its order and identity
    matter to the code); a pointer that may be NULL is an \<open>option\<close>.
  \<^item> A function whose C counterpart mutates the library state takes the state and returns
    it. Where the C code can fail to return or can have undefined behaviour (a read or
    write of a structure that is not allocated), the result is an \<open>option\<close> and
    \<open>None\<close> stands for that outcome; error \<^emph>\<open>codes\<close> are ordinary results.
\<close>

subsection \<open>Scalar types\<close>

type_synonym addr = nat
type_synonym key = "64 word"
type_synonym PWR_Time = "64 word"

subsection \<open>Return codes (types.h)\<close>

abbreviation PWR_RET_WARN_TRUNC :: int where "PWR_RET_WARN_TRUNC \<equiv> 5"
abbreviation PWR_RET_WARN_NO_GRP_BY_NAME :: int where "PWR_RET_WARN_NO_GRP_BY_NAME \<equiv> 4"
abbreviation PWR_RET_WARN_NO_OBJ_BY_NAME :: int where "PWR_RET_WARN_NO_OBJ_BY_NAME \<equiv> 3"
abbreviation PWR_RET_WARN_NO_CHILDREN :: int where "PWR_RET_WARN_NO_CHILDREN \<equiv> 2"
abbreviation PWR_RET_WARN_NO_PARENT :: int where "PWR_RET_WARN_NO_PARENT \<equiv> 1"
abbreviation PWR_RET_SUCCESS :: int where "PWR_RET_SUCCESS \<equiv> 0"
abbreviation PWR_RET_FAILURE :: int where "PWR_RET_FAILURE \<equiv> - 1"
abbreviation PWR_RET_NOT_IMPLEMENTED :: int where "PWR_RET_NOT_IMPLEMENTED \<equiv> - 2"
abbreviation PWR_RET_EMPTY :: int where "PWR_RET_EMPTY \<equiv> - 3"
abbreviation PWR_RET_INVALID :: int where "PWR_RET_INVALID \<equiv> - 4"
abbreviation PWR_RET_LENGTH :: int where "PWR_RET_LENGTH \<equiv> - 5"
abbreviation PWR_RET_NO_ATTRIB :: int where "PWR_RET_NO_ATTRIB \<equiv> - 6"
abbreviation PWR_RET_NO_META :: int where "PWR_RET_NO_META \<equiv> - 7"
abbreviation PWR_RET_READ_ONLY :: int where "PWR_RET_READ_ONLY \<equiv> - 8"
abbreviation PWR_RET_BAD_VALUE :: int where "PWR_RET_BAD_VALUE \<equiv> - 9"
abbreviation PWR_RET_BAD_INDEX :: int where "PWR_RET_BAD_INDEX \<equiv> - 10"
abbreviation PWR_RET_OP_NOT_ATTEMPTED :: int where "PWR_RET_OP_NOT_ATTEMPTED \<equiv> - 11"
abbreviation PWR_RET_OP_NO_PERM :: int where "PWR_RET_OP_NO_PERM \<equiv> - 12"
abbreviation PWR_RET_OUT_OF_RANGE :: int where "PWR_RET_OUT_OF_RANGE \<equiv> - 13"
abbreviation PWR_RET_NO_OBJ_AT_INDEX :: int where "PWR_RET_NO_OBJ_AT_INDEX \<equiv> - 14"

subsection \<open>Object types, attributes, statistics (types.h)\<close>

abbreviation PWR_OBJ_PLATFORM :: int where "PWR_OBJ_PLATFORM \<equiv> 0"
abbreviation PWR_OBJ_CABINET :: int where "PWR_OBJ_CABINET \<equiv> 1"
abbreviation PWR_OBJ_CHASSIS :: int where "PWR_OBJ_CHASSIS \<equiv> 2"
abbreviation PWR_OBJ_BOARD :: int where "PWR_OBJ_BOARD \<equiv> 3"
abbreviation PWR_OBJ_NODE :: int where "PWR_OBJ_NODE \<equiv> 4"
abbreviation PWR_OBJ_SOCKET :: int where "PWR_OBJ_SOCKET \<equiv> 5"
abbreviation PWR_OBJ_CORE :: int where "PWR_OBJ_CORE \<equiv> 6"
abbreviation PWR_OBJ_POWER_PLANE :: int where "PWR_OBJ_POWER_PLANE \<equiv> 7"
abbreviation PWR_OBJ_MEM :: int where "PWR_OBJ_MEM \<equiv> 8"
abbreviation PWR_OBJ_NIC :: int where "PWR_OBJ_NIC \<equiv> 9"
abbreviation PWR_OBJ_HT :: int where "PWR_OBJ_HT \<equiv> 10"
abbreviation PWR_NUM_OBJ_TYPES :: int where "PWR_NUM_OBJ_TYPES \<equiv> 11"
abbreviation PWR_OBJ_INVALID :: int where "PWR_OBJ_INVALID \<equiv> - 1"
abbreviation PWR_OBJ_NOT_SPECIFIED :: int where "PWR_OBJ_NOT_SPECIFIED \<equiv> - 2"

abbreviation PWR_ATTR_PSTATE :: int where "PWR_ATTR_PSTATE \<equiv> 0"
abbreviation PWR_ATTR_CSTATE :: int where "PWR_ATTR_CSTATE \<equiv> 1"
abbreviation PWR_ATTR_CSTATE_LIMIT :: int where "PWR_ATTR_CSTATE_LIMIT \<equiv> 2"
abbreviation PWR_ATTR_SSTATE :: int where "PWR_ATTR_SSTATE \<equiv> 3"
abbreviation PWR_ATTR_CURRENT :: int where "PWR_ATTR_CURRENT \<equiv> 4"
abbreviation PWR_ATTR_VOLTAGE :: int where "PWR_ATTR_VOLTAGE \<equiv> 5"
abbreviation PWR_ATTR_POWER :: int where "PWR_ATTR_POWER \<equiv> 6"
abbreviation PWR_ATTR_POWER_LIMIT_MIN :: int where "PWR_ATTR_POWER_LIMIT_MIN \<equiv> 7"
abbreviation PWR_ATTR_POWER_LIMIT_MAX :: int where "PWR_ATTR_POWER_LIMIT_MAX \<equiv> 8"
abbreviation PWR_ATTR_FREQ :: int where "PWR_ATTR_FREQ \<equiv> 9"
abbreviation PWR_ATTR_FREQ_REQ :: int where "PWR_ATTR_FREQ_REQ \<equiv> 10"
abbreviation PWR_ATTR_FREQ_LIMIT_MIN :: int where "PWR_ATTR_FREQ_LIMIT_MIN \<equiv> 11"
abbreviation PWR_ATTR_FREQ_LIMIT_MAX :: int where "PWR_ATTR_FREQ_LIMIT_MAX \<equiv> 12"
abbreviation PWR_ATTR_ENERGY :: int where "PWR_ATTR_ENERGY \<equiv> 13"
abbreviation PWR_ATTR_TEMP :: int where "PWR_ATTR_TEMP \<equiv> 14"
abbreviation PWR_ATTR_OS_ID :: int where "PWR_ATTR_OS_ID \<equiv> 15"
abbreviation PWR_ATTR_THROTTLED_TIME :: int where "PWR_ATTR_THROTTLED_TIME \<equiv> 16"
abbreviation PWR_ATTR_THROTTLED_COUNT :: int where "PWR_ATTR_THROTTLED_COUNT \<equiv> 17"
abbreviation PWR_ATTR_GOV :: int where "PWR_ATTR_GOV \<equiv> 18"
abbreviation PWR_NUM_ATTR_NAMES :: int where "PWR_NUM_ATTR_NAMES \<equiv> 19"
abbreviation PWR_ATTR_INVALID :: int where "PWR_ATTR_INVALID \<equiv> - 1"
abbreviation PWR_ATTR_NOT_SPECIFIED :: int where "PWR_ATTR_NOT_SPECIFIED \<equiv> - 2"

abbreviation PWR_ATTR_STAT_MIN :: int where "PWR_ATTR_STAT_MIN \<equiv> 0"
abbreviation PWR_ATTR_STAT_MAX :: int where "PWR_ATTR_STAT_MAX \<equiv> 1"
abbreviation PWR_ATTR_STAT_AVG :: int where "PWR_ATTR_STAT_AVG \<equiv> 2"
abbreviation PWR_ATTR_STAT_STDEV :: int where "PWR_ATTR_STAT_STDEV \<equiv> 3"
abbreviation PWR_ATTR_STAT_CV :: int where "PWR_ATTR_STAT_CV \<equiv> 4"
abbreviation PWR_ATTR_STAT_SUM :: int where "PWR_ATTR_STAT_SUM \<equiv> 5"
abbreviation PWR_NUM_ATTR_STATS :: int where "PWR_NUM_ATTR_STATS \<equiv> 6"
abbreviation PWR_ATTR_STAT_INVALID :: int where "PWR_ATTR_STAT_INVALID \<equiv> - 1"
abbreviation PWR_ATTR_STAT_NOT_SPECIFIED :: int where "PWR_ATTR_STAT_NOT_SPECIFIED \<equiv> - 2"

subsection \<open>Metadata names (types.h)\<close>

abbreviation PWR_MD_NUM :: int where "PWR_MD_NUM \<equiv> 0"
abbreviation PWR_MD_MIN :: int where "PWR_MD_MIN \<equiv> 1"
abbreviation PWR_MD_MAX :: int where "PWR_MD_MAX \<equiv> 2"
abbreviation PWR_MD_PRECISION :: int where "PWR_MD_PRECISION \<equiv> 3"
abbreviation PWR_MD_ACCURACY :: int where "PWR_MD_ACCURACY \<equiv> 4"
abbreviation PWR_MD_UPDATE_RATE :: int where "PWR_MD_UPDATE_RATE \<equiv> 5"
abbreviation PWR_MD_SAMPLE_RATE :: int where "PWR_MD_SAMPLE_RATE \<equiv> 6"
abbreviation PWR_MD_TIME_WINDOW :: int where "PWR_MD_TIME_WINDOW \<equiv> 7"
abbreviation PWR_MD_TS_LATENCY :: int where "PWR_MD_TS_LATENCY \<equiv> 8"
abbreviation PWR_MD_TS_ACCURACY :: int where "PWR_MD_TS_ACCURACY \<equiv> 9"
abbreviation PWR_MD_MAX_LEN :: int where "PWR_MD_MAX_LEN \<equiv> 10"
abbreviation PWR_MD_NAME_LEN :: int where "PWR_MD_NAME_LEN \<equiv> 11"
abbreviation PWR_MD_NAME :: int where "PWR_MD_NAME \<equiv> 12"
abbreviation PWR_MD_DESC_LEN :: int where "PWR_MD_DESC_LEN \<equiv> 13"
abbreviation PWR_MD_DESC :: int where "PWR_MD_DESC \<equiv> 14"
abbreviation PWR_MD_VALUE_LEN :: int where "PWR_MD_VALUE_LEN \<equiv> 15"
abbreviation PWR_MD_VENDOR_INFO_LEN :: int where "PWR_MD_VENDOR_INFO_LEN \<equiv> 16"
abbreviation PWR_MD_VENDOR_INFO :: int where "PWR_MD_VENDOR_INFO \<equiv> 17"
abbreviation PWR_MD_MEASURE_METHOD :: int where "PWR_MD_MEASURE_METHOD \<equiv> 18"
abbreviation PWR_NUM_META_NAMES :: int where "PWR_NUM_META_NAMES \<equiv> 19"

subsection \<open>Fact collections\<close>

named_theorems key_simps \<open>equations of the handle macros of opaque.h\<close>
named_theorems sorted_simps \<open>strictly sorted lists, the representation of a group\<close>

subsection \<open>Generic lemmas\<close>

lemma bind_Some_iff [simp]:
  "(Option.bind m f = Some y) \<longleftrightarrow> (\<exists>x. m = Some x \<and> f x = Some y)"
  by (cases m) auto

text \<open>A list of addresses in strictly increasing order is determined by its set.\<close>

abbreviation strict_sorted_list :: "'a::linorder list \<Rightarrow> bool" where
  "strict_sorted_list \<equiv> sorted_wrt (<)"

lemma strict_sorted_distinct [sorted_simps]: "strict_sorted_list xs \<Longrightarrow> distinct xs"
  by (simp add: strict_sorted_iff)

lemma strict_sorted_sorted [sorted_simps]: "strict_sorted_list xs \<Longrightarrow> sorted xs"
  by (simp add: strict_sorted_iff)

lemma strict_sorted_set_unique:
  fixes xs ys :: "'a::linorder list"
  assumes "strict_sorted_list xs" and "strict_sorted_list ys" and "set xs = set ys"
  shows "xs = ys"
  using assms by (simp add: strict_sorted_equal)

lemma length_eq_card:
  fixes xs :: "'a::linorder list"
  shows "strict_sorted_list xs \<Longrightarrow> length xs = card (set xs)"
  by (simp add: sorted_simps distinct_card)

end
