(* ===== verification/Opaque.thy ===== *)
theory Opaque
  imports Pwr_Prelude
begin

text \<open>
  \<^verbatim>\<open>lib/opaque.h\<close> and \<^verbatim>\<open>lib/opaque.c\<close>: the handles that the
  public interface hands out and the global map from handle keys to structures.

  A handle packs a 32-bit context key and a 32-bit data key into one pointer-sized word.
  The map is a hash table from data keys to the address of a structure whose first member
  is an \<^verbatim>\<open>opaque_ref_t\<close>; the map writes the type and the key into that member
  when the structure is inserted and clears both when the entry is removed. GLib's hash
  table is a finite map here, and GLib's random number generator is the infinite sequence
  of 32-bit numbers that it is going to produce (field \<open>rand_seq\<close>), which no definition
  constrains.
\<close>

subsection \<open>Handles\<close>

definition OPAQUE_UPPER :: key where
  "OPAQUE_UPPER = 0xffffffff00000000"

definition OPAQUE_LOWER :: key where
  "OPAQUE_LOWER = 0x00000000ffffffff"

definition OPAQUE_GENERATE :: "key \<Rightarrow> key \<Rightarrow> key" where
  "OPAQUE_GENERATE context_key data_key = push_bit 32 context_key OR (data_key AND OPAQUE_LOWER)"

definition OPAQUE_GET_CONTEXT_KEY :: "key \<Rightarrow> key" where
  "OPAQUE_GET_CONTEXT_KEY opaque = drop_bit 32 opaque"

definition OPAQUE_GET_DATA_KEY :: "key \<Rightarrow> key" where
  "OPAQUE_GET_DATA_KEY opaque = OPAQUE_LOWER AND opaque"

text \<open>The keys that the map hands out fit in 32 bits (\<^verbatim>\<open>GUINT_TO_POINTER\<close> of a 32-bit number).\<close>

definition key32 :: "key \<Rightarrow> bool" where
  "key32 k \<longleftrightarrow> k AND OPAQUE_LOWER = k"

definition GUINT_TO_POINTER :: "32 word \<Rightarrow> key" where
  "GUINT_TO_POINTER n = ucast n"

lemma OPAQUE_LOWER_mask: "OPAQUE_LOWER = mask 32"
  by (simp add: OPAQUE_LOWER_def mask_eq_exp_minus_1)

lemma key32_iff_bits: "key32 k \<longleftrightarrow> (\<forall>n. bit k n \<longrightarrow> n < 32)"
  using bit_imp_le_length [of k]
  by (auto simp: key32_def OPAQUE_LOWER_mask bit_eq_iff bit_and_iff bit_mask_iff)

lemma key32_zero [simp]: "key32 0"
  by (simp add: key32_def)

lemma key32_GUINT_TO_POINTER [simp]: "key32 (GUINT_TO_POINTER n)"
proof -
  have "m < 32" if "bit n m" for m
    using bit_imp_le_length [OF that] by simp
  then show ?thesis
    by (simp add: key32_iff_bits GUINT_TO_POINTER_def bit_simps)
qed

lemma GUINT_TO_POINTER_0_iff: "GUINT_TO_POINTER n = 0 \<longleftrightarrow> n = 0"
proof
  assume "GUINT_TO_POINTER n = 0"
  then have "(ucast (ucast n :: 64 word) :: 32 word) = 0"
    by (simp add: GUINT_TO_POINTER_def)
  moreover have "(ucast (ucast n :: 64 word) :: 32 word) = n"
    by (intro bit_word_eqI) (simp add: bit_simps)
  ultimately show "n = 0" by simp
qed (simp add: GUINT_TO_POINTER_def)

lemma key32_data_key [key_simps, simp]: "key32 (OPAQUE_GET_DATA_KEY h)"
  by (simp add: key32_def OPAQUE_GET_DATA_KEY_def ac_simps)

lemma key32_context_key [key_simps, simp]: "key32 (OPAQUE_GET_CONTEXT_KEY h)"
proof -
  have "n < 32" if "bit h (32 + n)" for n
    using bit_imp_le_length [OF that] by simp
  then show ?thesis
    by (auto simp: key32_iff_bits OPAQUE_GET_CONTEXT_KEY_def bit_simps)
qed

lemma data_key_generate [key_simps]:
  "key32 d \<Longrightarrow> OPAQUE_GET_DATA_KEY (OPAQUE_GENERATE c d) = d"
  by (intro bit_word_eqI)
    (auto simp: key32_iff_bits OPAQUE_GET_DATA_KEY_def OPAQUE_GENERATE_def OPAQUE_LOWER_mask bit_simps)

lemma context_key_generate [key_simps]:
  assumes "key32 c"
  shows "OPAQUE_GET_CONTEXT_KEY (OPAQUE_GENERATE c d) = c"
proof (intro bit_word_eqI)
  fix n
  have "n < 32" if "bit c n" using assms that by (simp add: key32_iff_bits)
  then show "bit (OPAQUE_GET_CONTEXT_KEY (OPAQUE_GENERATE c d)) n = bit c n"
    by (auto simp: OPAQUE_GET_CONTEXT_KEY_def OPAQUE_GENERATE_def OPAQUE_LOWER_mask bit_simps)
qed

lemma generate_keys [key_simps]:
  "OPAQUE_GENERATE (OPAQUE_GET_CONTEXT_KEY h) (OPAQUE_GET_DATA_KEY h) = h"
proof (intro bit_word_eqI)
  fix n assume "n < LENGTH(64)"
  have "n < 32 \<or> 32 + (n - 32) = n" by arith
  then show "bit (OPAQUE_GENERATE (OPAQUE_GET_CONTEXT_KEY h) (OPAQUE_GET_DATA_KEY h)) n = bit h n"
    by (auto simp: OPAQUE_GET_CONTEXT_KEY_def OPAQUE_GET_DATA_KEY_def OPAQUE_GENERATE_def
        OPAQUE_LOWER_mask bit_simps dest: bit_imp_le_length)
qed

lemma generate_eq_iff [key_simps]:
  assumes "key32 c" "key32 d" "key32 c'" "key32 d'"
  shows "OPAQUE_GENERATE c d = OPAQUE_GENERATE c' d' \<longleftrightarrow> c = c' \<and> d = d'"
  by (metis assms context_key_generate data_key_generate)

subsection \<open>The map\<close>

datatype opaque_type_t =
    OPAQUE_INVALID | OPAQUE_CONTEXT | OPAQUE_GROUP | OPAQUE_OBJECT
  | OPAQUE_STATUS | OPAQUE_STAT | OPAQUE_HINT | OPAQUE_MAX

record opaque_ref_t =
  ref_type :: opaque_type_t
  ref_key :: key

record opaque_map_t =
  rand_seq :: "nat \<Rightarrow> 32 word"
  table :: "key \<rightharpoonup> addr"

text \<open>
  The part of the library state that this file touches: the global \<^verbatim>\<open>opaque_map\<close>
  (NULL before \<^verbatim>\<open>global_init\<close>) and the \<^verbatim>\<open>opaque_ref_t\<close> at the start of every
  allocated structure. Later theories extend the record with the rest of the structures.
\<close>

record opq =
  opaque_map :: "opaque_map_t option"
  refs :: "addr \<rightharpoonup> opaque_ref_t"

definition zero_ref :: opaque_ref_t where
  "zero_ref = \<lparr>ref_type = OPAQUE_INVALID, ref_key = 0\<rparr>"

text \<open>Called by the hash table on the value of an entry that it drops.\<close>

definition opaque_map_clean_entry :: "addr \<Rightarrow> (addr \<rightharpoonup> opaque_ref_t) \<rightharpoonup> (addr \<rightharpoonup> opaque_ref_t)" where
  "opaque_map_clean_entry a rs =
     (case rs a of
        None \<Rightarrow> None
      | Some r \<Rightarrow> Some (rs(a \<mapsto> r\<lparr>ref_type := OPAQUE_INVALID, ref_key := 0\<rparr>)))"

text \<open>
  \<open>rnd\<close> and \<open>tbl\<close> are what \<^verbatim>\<open>g_rand_new\<close> and
  \<^verbatim>\<open>g_hash_table_new_full\<close> return (\<open>None\<close> and \<open>False\<close> for NULL).
\<close>

definition opaque_map_new :: "(nat \<Rightarrow> 32 word) option \<Rightarrow> bool \<Rightarrow> opaque_map_t option" where
  "opaque_map_new rnd tbl =
     (case rnd of
        None \<Rightarrow> None
      | Some seq \<Rightarrow> if tbl then Some \<lparr>rand_seq = seq, table = Map.empty\<rparr> else None)"

definition opaque_map_lookup :: "'a opq_scheme \<Rightarrow> key \<Rightarrow> addr option" where
  "opaque_map_lookup s k = (case opaque_map s of None \<Rightarrow> None | Some m \<Rightarrow> table m k)"

text \<open>
  The C function dereferences the address that it found. An address whose structure has
  been released makes that undefined: the outer \<open>None\<close>.
\<close>

definition opaque_map_lookup_type ::
  "'a opq_scheme \<Rightarrow> key \<Rightarrow> opaque_type_t \<Rightarrow> addr option option" where
  "opaque_map_lookup_type s k t =
     (case opaque_map_lookup s k of
        None \<Rightarrow> Some None
      | Some a \<Rightarrow>
          (case refs s a of
             None \<Rightarrow> None
           | Some r \<Rightarrow> Some (if ref_type r \<noteq> t then None else Some a)))"

text \<open>
  The loop of \<^verbatim>\<open>opaque_map_insert\<close>. It draws keys until it has stored the structure
  under a non-zero one. The code tests whether the key is free before it tests whether the
  key is zero, so a draw of zero stores the structure under key zero and draws again.
\<close>

partial_function (option) opaque_map_insert_loop ::
  "(nat \<Rightarrow> 32 word) \<Rightarrow> (key \<rightharpoonup> addr) \<Rightarrow> opaque_ref_t \<Rightarrow> opaque_type_t \<Rightarrow> addr
    \<Rightarrow> (key \<times> (nat \<Rightarrow> 32 word) \<times> (key \<rightharpoonup> addr) \<times> opaque_ref_t) option" where
  "opaque_map_insert_loop seq tbl r t a =
     (let k = GUINT_TO_POINTER (seq 0); seq' = (\<lambda>n. seq (Suc n)) in
      if tbl k \<noteq> None then opaque_map_insert_loop seq' tbl r t a
      else
        let r' = r\<lparr>ref_type := t, ref_key := k\<rparr>; tbl' = tbl(k \<mapsto> a) in
        if k = 0 then opaque_map_insert_loop seq' tbl' r' t a
        else Some (k, seq', tbl', r'))"

text \<open>Key zero is the C function's NULL: there is no map.\<close>

definition opaque_map_insert ::
  "opaque_type_t \<Rightarrow> addr \<Rightarrow> 'a opq_scheme \<Rightarrow> (key \<times> 'a opq_scheme) option" where
  "opaque_map_insert t a s =
     (case opaque_map s of
        None \<Rightarrow> Some (0, s)
      | Some m \<Rightarrow>
          do {
            r \<leftarrow> refs s a;
            (k, seq', tbl', r') \<leftarrow> opaque_map_insert_loop (rand_seq m) (table m) r t a;
            Some (k, s\<lparr>opaque_map := Some \<lparr>rand_seq = seq', table = tbl'\<rparr>,
                       refs := (refs s)(a \<mapsto> r')\<rparr>)
          })"

definition opaque_map_remove :: "key \<Rightarrow> 'a opq_scheme \<Rightarrow> (bool \<times> 'a opq_scheme) option" where
  "opaque_map_remove k s =
     (case opaque_map s of
        None \<Rightarrow> Some (False, s)
      | Some m \<Rightarrow>
          (case table m k of
             None \<Rightarrow> Some (False, s)
           | Some a \<Rightarrow>
               do {
                 rs \<leftarrow> opaque_map_clean_entry a (refs s);
                 Some (True, s\<lparr>opaque_map := Some (m\<lparr>table := (table m)(k := None)\<rparr>), refs := rs\<rparr>)
               }))"

definition opaque_map_free :: "'a opq_scheme \<Rightarrow> 'a opq_scheme" where
  "opaque_map_free s =
     (case opaque_map s of
        None \<Rightarrow> s
      | Some m \<Rightarrow>
          s\<lparr>opaque_map := None,
            refs := (\<lambda>a. if a \<in> ran (table m)
                         then map_option (\<lambda>r. r\<lparr>ref_type := OPAQUE_INVALID, ref_key := 0\<rparr>) (refs s a)
                         else refs s a)\<rparr>)"

declare opaque_map_insert_loop.simps [code]

subsection \<open>The insertion loop\<close>

text \<open>\<open>fresh_draw seq tbl n\<close>: the \<open>n\<close>-th draw is a usable key.\<close>

definition fresh_draw :: "(nat \<Rightarrow> 32 word) \<Rightarrow> (key \<rightharpoonup> addr) \<Rightarrow> nat \<Rightarrow> bool" where
  "fresh_draw seq tbl n \<longleftrightarrow> seq n \<noteq> 0 \<and> tbl (GUINT_TO_POINTER (seq n)) = None"

text \<open>The loop ends as soon as the generator produces a usable key.\<close>

lemma insert_loop_returns:
  "fresh_draw seq tbl n \<Longrightarrow> \<exists>res. opaque_map_insert_loop seq tbl r t a = Some res"
proof (induction n arbitrary: seq tbl r)
  case 0
  then show ?case
    by (subst opaque_map_insert_loop.simps) (simp add: fresh_draw_def GUINT_TO_POINTER_0_iff Let_def)
next
  case (Suc n)
  let ?seq = "\<lambda>i. seq (Suc i)"
  have old: "fresh_draw ?seq tbl n"
    using Suc.prems by (simp add: fresh_draw_def)
  have zero: "fresh_draw ?seq (tbl(0 \<mapsto> a)) n"
    using Suc.prems by (simp add: fresh_draw_def GUINT_TO_POINTER_0_iff)
  show ?case
    using Suc.IH [OF old, of r] Suc.IH [OF zero, of "r\<lparr>ref_type := t, ref_key := 0\<rparr>"]
    by (subst opaque_map_insert_loop.simps) (auto simp: Let_def simp del: fun_upd_apply)
qed

text \<open>
  What a completed loop has done: with \<open>n\<close> unusable draws before the usable one, the
  structure is stored under the usable key, and also under key zero if a zero was among
  the unusable draws and key zero was free.
\<close>

definition insert_loop_post ::
  "(nat \<Rightarrow> 32 word) \<Rightarrow> (key \<rightharpoonup> addr) \<Rightarrow> opaque_ref_t \<Rightarrow> opaque_type_t \<Rightarrow> addr \<Rightarrow> nat
    \<Rightarrow> key \<times> (nat \<Rightarrow> 32 word) \<times> (key \<rightharpoonup> addr) \<times> opaque_ref_t \<Rightarrow> bool" where
  "insert_loop_post seq tbl r t a n =
     (\<lambda>(k, seq', tbl', r').
        k = GUINT_TO_POINTER (seq n) \<and> fresh_draw seq tbl n \<and>
        (\<forall>i<n. \<not> fresh_draw seq tbl i) \<and>
        seq' = (\<lambda>i. seq (Suc n + i)) \<and>
        tbl' = (if tbl 0 = None \<and> (\<exists>i<n. seq i = 0) then tbl(0 \<mapsto> a) else tbl)(k \<mapsto> a) \<and>
        r' = r\<lparr>ref_type := t, ref_key := k\<rparr>)"

lemma ex_less_Suc_shift: "(\<exists>i<Suc n. P i) \<longleftrightarrow> P 0 \<or> (\<exists>i<n. P (Suc i))"
  by (metis less_Suc_eq_0_disj)

lemma all_less_Suc_shift: "(\<forall>i<Suc n. P i) \<longleftrightarrow> P 0 \<and> (\<forall>i<n. P (Suc i))"
  by (metis less_Suc_eq_0_disj)

lemma insert_loop_post_skip:
  assumes "insert_loop_post (\<lambda>i. seq (Suc i)) tbl r t a n res" and "\<not> fresh_draw seq tbl 0"
    and "seq 0 \<noteq> 0 \<or> tbl 0 \<noteq> None"
  shows "insert_loop_post seq tbl r t a (Suc n) res"
  using assms
  by (auto simp: insert_loop_post_def all_less_Suc_shift ex_less_Suc_shift fresh_draw_def
      split: prod.splits if_splits)

lemma insert_loop_post_zero:
  assumes "insert_loop_post (\<lambda>i. seq (Suc i)) (tbl(0 \<mapsto> a)) (r\<lparr>ref_type := t, ref_key := 0\<rparr>) t a n res"
    and "seq 0 = 0" and "tbl 0 = None"
  shows "insert_loop_post seq tbl r t a (Suc n) res"
  using assms
  by (auto simp: insert_loop_post_def all_less_Suc_shift ex_less_Suc_shift fresh_draw_def
      GUINT_TO_POINTER_0_iff split: prod.splits if_splits)

lemma insert_loop_sound:
  assumes "opaque_map_insert_loop seq tbl r t a = Some res"
  shows "\<exists>n. insert_loop_post seq tbl r t a n res"
proof (rule opaque_map_insert_loop.raw_induct
    [where P = "\<lambda>seq tbl r t a res. \<exists>n. insert_loop_post seq tbl r t a n res", OF _ assms])
  fix f seq tbl r t a res
  let ?k = "GUINT_TO_POINTER (seq 0)" and ?seq = "\<lambda>i. seq (Suc i)"
  assume IH: "\<And>seq tbl r t a res. f seq tbl r t a = Some res \<Longrightarrow> \<exists>n. insert_loop_post seq tbl r t a n res"
    and eq: "(let k = ?k; seq' = ?seq in
      if tbl k \<noteq> None then f seq' tbl r t a
      else let r' = r\<lparr>ref_type := t, ref_key := k\<rparr>; tbl' = tbl(k \<mapsto> a) in
        if k = 0 then f seq' tbl' r' t a else Some (k, seq', tbl', r')) = Some res"
  consider (taken) "tbl ?k \<noteq> None" | (zero) "tbl ?k = None" "?k = 0"
    | (fresh) "tbl ?k = None" "?k \<noteq> 0" by blast
  then show "\<exists>n. insert_loop_post seq tbl r t a n res"
  proof cases
    case taken
    with eq have "f ?seq tbl r t a = Some res" by (simp add: Let_def)
    then obtain n where "insert_loop_post ?seq tbl r t a n res" using IH by blast
    moreover have "seq 0 \<noteq> 0 \<or> tbl 0 \<noteq> None" using taken by (auto simp: GUINT_TO_POINTER_def)
    moreover have "\<not> fresh_draw seq tbl 0" using taken by (simp add: fresh_draw_def)
    ultimately show ?thesis using insert_loop_post_skip by blast
  next
    case zero
    with eq have "f ?seq (tbl(0 \<mapsto> a)) (r\<lparr>ref_type := t, ref_key := 0\<rparr>) t a = Some res"
      by (simp add: Let_def)
    then obtain n where
      "insert_loop_post ?seq (tbl(0 \<mapsto> a)) (r\<lparr>ref_type := t, ref_key := 0\<rparr>) t a n res"
      using IH by blast
    moreover have "seq 0 = 0" "tbl 0 = None" using zero by (simp_all add: GUINT_TO_POINTER_0_iff)
    ultimately show ?thesis using insert_loop_post_zero by blast
  next
    case fresh
    with eq have "insert_loop_post seq tbl r t a 0 res"
      by (auto simp: insert_loop_post_def fresh_draw_def Let_def GUINT_TO_POINTER_0_iff)
    then show ?thesis ..
  qed
qed

subsection \<open>The map and the structures agree\<close>

text \<open>
  The invariant that the rest of the library relies on: every entry of the map under a
  non-zero key points to an allocated structure that carries exactly that key and a valid
  type, and every structure that carries a non-zero key is in the map under it. Nothing is
  said of key zero: a draw of zero leaves an entry there, and that entry stays behind when
  its structure is released.
\<close>

definition entry_ok :: "'a opq_scheme \<Rightarrow> key \<Rightarrow> addr \<Rightarrow> bool" where
  "entry_ok s k a \<longleftrightarrow> k \<noteq> 0 \<and> key32 k \<and>
     (\<exists>r. refs s a = Some r \<and> ref_key r = k \<and> ref_type r \<noteq> OPAQUE_INVALID)"

definition keyed_ok :: "'a opq_scheme \<Rightarrow> addr \<Rightarrow> opaque_ref_t \<Rightarrow> bool" where
  "keyed_ok s a r \<longleftrightarrow> (ref_key r \<noteq> 0 \<longrightarrow> opaque_map_lookup s (ref_key r) = Some a)"

definition opaque_inv :: "'a opq_scheme \<Rightarrow> bool" where
  "opaque_inv s \<longleftrightarrow>
     (\<forall>k a. k \<noteq> 0 \<longrightarrow> opaque_map_lookup s k = Some a \<longrightarrow> entry_ok s k a) \<and>
     (\<forall>a r. refs s a = Some r \<longrightarrow> keyed_ok s a r)"

text \<open>
  The keys that can be looked up safely: every non-zero key, and key zero as long as no
  draw of zero has left an entry under it.
\<close>

definition key_ok :: "'a opq_scheme \<Rightarrow> key \<Rightarrow> bool" where
  "key_ok s k \<longleftrightarrow> k \<noteq> 0 \<or> opaque_map_lookup s 0 = None"

lemma key_ok_nonzero [intro, simp]: "k \<noteq> 0 \<Longrightarrow> key_ok s k"
  by (simp add: key_ok_def)

lemma key_ok_lookup: "key_ok s k \<Longrightarrow> opaque_map_lookup s k = Some a \<Longrightarrow> k \<noteq> 0"
  by (auto simp: key_ok_def)

text \<open>A structure that \<^verbatim>\<open>g_new0\<close> has just made: allocated, no key yet.\<close>

definition unkeyed :: "'a opq_scheme \<Rightarrow> addr \<Rightarrow> bool" where
  "unkeyed s a \<longleftrightarrow> (\<exists>r. refs s a = Some r \<and> ref_key r = 0)"

lemma opaque_invD:
  assumes "opaque_inv s" "opaque_map_lookup s k = Some a" "key_ok s k"
  obtains r where "refs s a = Some r" "ref_key r = k" "ref_type r \<noteq> OPAQUE_INVALID" "k \<noteq> 0" "key32 k"
proof -
  from assms key_ok_lookup have "entry_ok s k a" unfolding opaque_inv_def by blast
  then show thesis using that unfolding entry_ok_def by blast
qed

lemma opaque_inv_keyed:
  assumes "opaque_inv s" "refs s a = Some r" "ref_key r \<noteq> 0"
  shows "opaque_map_lookup s (ref_key r) = Some a"
  using assms unfolding opaque_inv_def keyed_ok_def by blast

lemma opaque_invI:
  assumes "\<And>k a. opaque_map_lookup s k = Some a \<Longrightarrow> k \<noteq> 0 \<Longrightarrow> entry_ok s k a"
    and "\<And>a r. refs s a = Some r \<Longrightarrow> keyed_ok s a r"
  shows "opaque_inv s"
  using assms unfolding opaque_inv_def by blast

lemma opaque_map_insert_sound:
  assumes "opaque_map_insert t a s = Some (k, s')" "k \<noteq> 0"
  obtains m n r where "opaque_map s = Some m" "refs s a = Some r"
    "k = GUINT_TO_POINTER (rand_seq m n)" "fresh_draw (rand_seq m) (table m) n"
    "s' = s\<lparr>opaque_map := Some \<lparr>rand_seq = (\<lambda>i. rand_seq m (Suc n + i)),
              table = (if table m 0 = None \<and> (\<exists>i<n. rand_seq m i = 0)
                       then (table m)(0 \<mapsto> a) else table m)(k \<mapsto> a)\<rparr>,
            refs := (refs s)(a \<mapsto> r\<lparr>ref_type := t, ref_key := k\<rparr>)\<rparr>"
proof (cases "opaque_map s")
  case None
  with assms show ?thesis by (simp add: opaque_map_insert_def)
next
  case (Some m)
  with assms(1) obtain r seq' tbl' r' where r: "refs s a = Some r"
    and loop: "opaque_map_insert_loop (rand_seq m) (table m) r t a = Some (k, seq', tbl', r')"
    and s': "s' = s\<lparr>opaque_map := Some \<lparr>rand_seq = seq', table = tbl'\<rparr>, refs := (refs s)(a \<mapsto> r')\<rparr>"
    by (auto simp: opaque_map_insert_def split: prod.splits)
  from insert_loop_sound [OF loop] obtain n where
    "insert_loop_post (rand_seq m) (table m) r t a n (k, seq', tbl', r')" ..
  with Some r s' show ?thesis
    by (intro that [of m r n]) (simp_all add: insert_loop_post_def)
qed

lemma lookup_after_insert:
  assumes "opaque_map_insert t a s = Some (k, s')" "k \<noteq> 0" "k' \<noteq> 0"
  shows "opaque_map_lookup s' k' = (if k' = k then Some a else opaque_map_lookup s k')"
  using assms(1,2)
proof (rule opaque_map_insert_sound)
  fix m n r
  assume "opaque_map s = Some m"
    and "s' = s\<lparr>opaque_map := Some \<lparr>rand_seq = (\<lambda>i. rand_seq m (Suc n + i)),
              table = (if table m 0 = None \<and> (\<exists>i<n. rand_seq m i = 0)
                       then (table m)(0 \<mapsto> a) else table m)(k \<mapsto> a)\<rparr>,
            refs := (refs s)(a \<mapsto> r\<lparr>ref_type := t, ref_key := k\<rparr>)\<rparr>"
  with assms(3) show ?thesis by (auto simp: opaque_map_lookup_def)
qed

lemma insert_key_fresh:
  assumes "opaque_map_insert t a s = Some (k, s')" "k \<noteq> 0"
  shows "key32 k" and "opaque_map_lookup s k = None"
  using assms by (auto elim!: opaque_map_insert_sound simp: opaque_map_lookup_def fresh_draw_def)

lemma insert_refs:
  assumes "opaque_map_insert t a s = Some (k, s')" "k \<noteq> 0"
  obtains r where "refs s a = Some r" "refs s' = (refs s)(a \<mapsto> r\<lparr>ref_type := t, ref_key := k\<rparr>)"
  using assms by (auto elim!: opaque_map_insert_sound)

lemma insert_inv:
  assumes ins: "opaque_map_insert t a s = Some (k, s')" "k \<noteq> 0"
    and inv: "opaque_inv s" and fresh: "unkeyed s a"
    and t: "t \<noteq> OPAQUE_INVALID"
  shows "opaque_inv s'"
proof (rule opaque_invI)
  from ins obtain r where r: "refs s a = Some r"
    and refs': "refs s' = (refs s)(a \<mapsto> r\<lparr>ref_type := t, ref_key := k\<rparr>)"
    by (rule insert_refs)
  fix k' b assume b: "opaque_map_lookup s' k' = Some b" and k': "k' \<noteq> 0"
  note look = lookup_after_insert [OF ins k']
  show "entry_ok s' k' b"
  proof (cases "k' = k")
    case True
    with b look have "b = a" by simp
    with True ins(2) insert_key_fresh(1) [OF ins] refs' t show ?thesis
      by (simp add: entry_ok_def)
  next
    case False
    with b look have old: "opaque_map_lookup s k' = Some b" by simp
    from inv old key_ok_nonzero [OF k'] obtain r' where "refs s b = Some r'" "ref_key r' = k'"
      "ref_type r' \<noteq> OPAQUE_INVALID" "k' \<noteq> 0" "key32 k'" by (rule opaque_invD)
    moreover from this fresh have "b \<noteq> a" by (auto simp: unkeyed_def)
    ultimately show ?thesis by (simp add: entry_ok_def refs')
  qed
next
  from ins obtain r where r: "refs s a = Some r"
    and refs': "refs s' = (refs s)(a \<mapsto> r\<lparr>ref_type := t, ref_key := k\<rparr>)"
    by (rule insert_refs)
  note look = lookup_after_insert [OF ins]
  fix b r' assume b: "refs s' b = Some r'"
  show "keyed_ok s' b r'"
  proof (cases "b = a")
    case True
    with b refs' ins(2) look [of k] show ?thesis by (auto simp: keyed_ok_def)
  next
    case False
    with b refs' have "refs s b = Some r'" by simp
    then have "ref_key r' \<noteq> 0 \<Longrightarrow> opaque_map_lookup s (ref_key r') = Some b"
      using opaque_inv_keyed [OF inv] by blast
    with insert_key_fresh(2) [OF ins] look [of "ref_key r'"] show ?thesis
      by (auto simp: keyed_ok_def)
  qed
qed

text \<open>With a live map and a usable draw, inserting an allocated structure returns a key.\<close>

lemma insert_returns:
  assumes "opaque_map s = Some m" "fresh_draw (rand_seq m) (table m) n" "refs s a = Some r"
  shows "\<exists>k s'. opaque_map_insert t a s = Some (k, s') \<and> k \<noteq> 0"
proof -
  obtain k seq' tbl' r' where
    loop: "opaque_map_insert_loop (rand_seq m) (table m) r t a = Some (k, seq', tbl', r')"
    using insert_loop_returns [OF assms(2)] by fastforce
  have "k \<noteq> 0"
    using insert_loop_sound [OF loop]
    by (auto simp: insert_loop_post_def fresh_draw_def GUINT_TO_POINTER_0_iff)
  with loop assms show ?thesis by (simp add: opaque_map_insert_def)
qed

subsection \<open>Removal\<close>

lemma remove_returns:
  assumes "opaque_inv s" "k \<noteq> 0"
  shows "\<exists>s'. opaque_map_remove k s = Some (opaque_map_lookup s k \<noteq> None, s')"
proof (cases "opaque_map_lookup s k")
  case None
  then show ?thesis by (auto simp: opaque_map_remove_def opaque_map_lookup_def split: option.splits)
next
  case (Some a)
  from assms(1) Some key_ok_nonzero [OF assms(2)] obtain r where "refs s a = Some r"
    by (rule opaque_invD)
  with Some show ?thesis
    by (auto simp: opaque_map_remove_def opaque_map_lookup_def opaque_map_clean_entry_def
        split: option.splits)
qed

lemma lookup_after_remove:
  assumes "opaque_map_remove k s = Some (b, s')"
  shows "opaque_map_lookup s' k' = (if k' = k then None else opaque_map_lookup s k')"
  using assms by (auto simp: opaque_map_remove_def opaque_map_lookup_def split: option.splits)

lemma remove_refs:
  assumes "opaque_map_remove k s = Some (b, s')"
  shows "refs s' = (case opaque_map_lookup s k of None \<Rightarrow> refs s
           | Some a \<Rightarrow> (refs s)(a := map_option (\<lambda>r. r\<lparr>ref_type := OPAQUE_INVALID, ref_key := 0\<rparr>) (refs s a)))"
  using assms
  by (auto simp: opaque_map_remove_def opaque_map_lookup_def opaque_map_clean_entry_def
      split: option.splits)

lemma remove_inv:
  assumes rem: "opaque_map_remove k s = Some (b, s')" and inv: "opaque_inv s" and k: "k \<noteq> 0"
  shows "opaque_inv s'"
proof (cases "opaque_map_lookup s k")
  case None
  with rem have "s' = s"
    by (auto simp: opaque_map_remove_def opaque_map_lookup_def split: option.splits)
  with inv show ?thesis by simp
next
  case (Some a)
  from inv Some key_ok_nonzero [OF k] obtain r where r: "refs s a = Some r" "ref_key r = k"
    by (rule opaque_invD)
  have refs': "refs s' = (refs s)(a \<mapsto> r\<lparr>ref_type := OPAQUE_INVALID, ref_key := 0\<rparr>)"
    using remove_refs [OF rem] Some r by simp
  note look = lookup_after_remove [OF rem]
  show ?thesis
  proof (rule opaque_invI)
    fix k' c assume c: "opaque_map_lookup s' k' = Some c" and nz: "k' \<noteq> 0"
    with look have k': "k' \<noteq> k" and old: "opaque_map_lookup s k' = Some c" by (auto split: if_splits)
    from inv old key_ok_nonzero [OF nz] obtain r' where r': "refs s c = Some r'" "ref_key r' = k'"
      "ref_type r' \<noteq> OPAQUE_INVALID" "k' \<noteq> 0" "key32 k'" by (rule opaque_invD)
    with k' r have "c \<noteq> a" by auto
    with r' refs' show "entry_ok s' k' c" by (simp add: entry_ok_def)
  next
    fix c r' assume c: "refs s' c = Some r'"
    show "keyed_ok s' c r'"
    proof (cases "c = a")
      case True
      with c refs' show ?thesis by (auto simp: keyed_ok_def)
    next
      case False
      with c refs' have "refs s c = Some r'" by simp
      then have "ref_key r' = 0 \<or> opaque_map_lookup s (ref_key r') = Some c"
        using opaque_inv_keyed [OF inv] by blast
      with Some False look show ?thesis by (auto simp: keyed_ok_def)
    qed
  qed
qed

subsection \<open>Allocating and releasing structures\<close>

lemma opaque_inv_cong:
  fixes s :: "'a opq_scheme" and s' :: "'b opq_scheme"
  assumes "opaque_map s' = opaque_map s" "refs s' = refs s"
  shows "opaque_inv s' = opaque_inv s" "key_ok s' k = key_ok s k"
    "opaque_map_lookup s' k = opaque_map_lookup s k"
  using assms
  by (simp_all add: opaque_inv_def entry_ok_def keyed_ok_def opaque_map_lookup_def key_ok_def)

lemma lookup_type_cong:
  fixes s :: "'a opq_scheme" and s' :: "'b opq_scheme"
  assumes "opaque_map_lookup s' k = opaque_map_lookup s k" "\<And>a. opaque_map_lookup s k = Some a \<Longrightarrow> refs s' a = refs s a"
  shows "opaque_map_lookup_type s' k t = opaque_map_lookup_type s k t"
  using assms by (simp add: opaque_map_lookup_type_def split: option.split)

lemma opaque_inv_alloc:
  fixes s :: "'a opq_scheme" and s' :: "'b opq_scheme"
  assumes inv: "opaque_inv s" and a: "refs s a = None"
    and s': "opaque_map s' = opaque_map s" "refs s' = (refs s)(a \<mapsto> zero_ref)"
  shows "opaque_inv s'"
proof (rule opaque_invI)
  have look: "opaque_map_lookup s' k = opaque_map_lookup s k" for k
    using s' by (simp add: opaque_map_lookup_def)
  fix k b assume "opaque_map_lookup s' k = Some b" and nz: "k \<noteq> 0"
  then have "opaque_map_lookup s k = Some b" using look by simp
  with inv key_ok_nonzero [OF nz, of s] obtain r where "refs s b = Some r" "ref_key r = k" "ref_type r \<noteq> OPAQUE_INVALID" "k \<noteq> 0" "key32 k"
    using opaque_invD by blast
  moreover from this a have "b \<noteq> a" by auto
  ultimately show "entry_ok s' k b" by (simp add: entry_ok_def s')
next
  fix b r assume "refs s' b = Some r"
  then show "keyed_ok s' b r"
    using opaque_inv_keyed [OF inv, of b r] s'
    by (auto simp: keyed_ok_def zero_ref_def opaque_map_lookup_def split: if_splits)
qed

lemma opaque_inv_free:
  fixes s :: "'a opq_scheme" and s' :: "'b opq_scheme"
  assumes inv: "opaque_inv s" and a: "unkeyed s a"
    and s': "opaque_map s' = opaque_map s" "refs s' = (refs s)(a := None)"
  shows "opaque_inv s'"
proof (rule opaque_invI)
  have look: "opaque_map_lookup s' k = opaque_map_lookup s k" for k
    using s' by (simp add: opaque_map_lookup_def)
  fix k b assume "opaque_map_lookup s' k = Some b" and nz: "k \<noteq> 0"
  then have "opaque_map_lookup s k = Some b" using look by simp
  with inv key_ok_nonzero [OF nz, of s] obtain r where "refs s b = Some r" "ref_key r = k" "ref_type r \<noteq> OPAQUE_INVALID" "k \<noteq> 0" "key32 k"
    using opaque_invD by blast
  moreover from this a have "b \<noteq> a" by (auto simp: unkeyed_def)
  ultimately show "entry_ok s' k b" by (simp add: entry_ok_def s')
next
  fix b r assume "refs s' b = Some r"
  then show "keyed_ok s' b r"
    using opaque_inv_keyed [OF inv, of b r] s'
    by (auto simp: keyed_ok_def opaque_map_lookup_def split: if_splits)
qed

subsection \<open>The contract of the map\<close>

text \<open>
  What the rest of the library relies on, stated once for any map from handle keys to
  addresses: insertion returns an unused 32-bit key and changes no other non-zero key,
  removal of a non-zero key returns, reports whether the key was present and changes that
  key only, and both keep the provider's invariant. Key zero is left out of the contract,
  because the loop of \<^verbatim>\<open>opaque_map_insert\<close> may write an entry there.
\<close>

locale handle_map =
  fixes inv :: "'s \<Rightarrow> bool"
    and insertable :: "'s \<Rightarrow> addr \<Rightarrow> bool"
    and look :: "'s \<Rightarrow> key \<Rightarrow> addr option"
    and ins :: "addr \<Rightarrow> 's \<Rightarrow> (key \<times> 's) option"
    and del :: "key \<Rightarrow> 's \<Rightarrow> (bool \<times> 's) option"
  assumes ins_inv: "inv s \<Longrightarrow> insertable s a \<Longrightarrow> ins a s = Some (k, s') \<Longrightarrow> k \<noteq> 0 \<Longrightarrow> inv s'"
    and ins_fresh: "inv s \<Longrightarrow> ins a s = Some (k, s') \<Longrightarrow> k \<noteq> 0 \<Longrightarrow> key32 k \<and> look s k = None"
    and ins_look: "inv s \<Longrightarrow> ins a s = Some (k, s') \<Longrightarrow> k \<noteq> 0 \<Longrightarrow>
      k' \<noteq> 0 \<Longrightarrow>
      look s' k' = (if k' = k then Some a else look s k')"
    and del_total: "inv s \<Longrightarrow> k \<noteq> 0 \<Longrightarrow> \<exists>s'. del k s = Some (look s k \<noteq> None, s')"
    and del_inv: "inv s \<Longrightarrow> k \<noteq> 0 \<Longrightarrow> del k s = Some (b, s') \<Longrightarrow> inv s'"
    and del_look: "inv s \<Longrightarrow> del k s = Some (b, s') \<Longrightarrow>
      look s' k' = (if k' = k then None else look s k')"
begin

lemma live_keys_differ:
  assumes "inv s" "ins a s = Some (k, s')" "k \<noteq> 0" "look s k0 = Some b"
  shows "k \<noteq> k0"
  using ins_fresh [OF assms(1-3)] assms(4) by auto

lemma insert_then_remove:
  assumes s: "inv s" and a: "insertable s a" and ins: "ins a s = Some (k, s')" and k: "k \<noteq> 0"
  shows "\<exists>s''. del k s' = Some (True, s'') \<and> inv s'' \<and> (\<forall>k'. k' \<noteq> 0 \<longrightarrow> look s'' k' = look s k')"
proof -
  from ins_inv [OF s a ins k] have s': "inv s'" .
  have "look s' k = Some a" using ins_look [OF s ins k k] by simp
  then obtain s'' where del: "del k s' = Some (True, s'')" using del_total [OF s' k] by auto
  moreover have "\<forall>k'. k' \<noteq> 0 \<longrightarrow> look s'' k' = look s k'"
    using del_look [OF s' del] ins_look [OF s ins k] ins_fresh [OF s ins k] by auto
  ultimately show ?thesis using del_inv [OF s' k del] by blast
qed

lemma remove_twice:
  assumes s: "inv s" and k: "k \<noteq> 0" and del: "del k s = Some (b, s')"
  shows "\<exists>s''. del k s' = Some (False, s'')"
  using del_total [OF del_inv [OF s k del] k] del_look [OF s del, of k] by simp

end

interpretation om: handle_map
  "opaque_inv :: 'a opq_scheme \<Rightarrow> bool"
  "\<lambda>s a. unkeyed s a \<and> t \<noteq> OPAQUE_INVALID" opaque_map_lookup "opaque_map_insert t" opaque_map_remove
  for t
proof (unfold_locales, goal_cases)
  case (1 s a k s')
  then show ?case using insert_inv by blast
next
  case (2 s a k s')
  then show ?case using insert_key_fresh by blast
next
  case (3 s a k s' k')
  then show ?case using lookup_after_insert by blast
next
  case (4 s k)
  then show ?case using remove_returns by blast
next
  case (5 s k b s')
  then show ?case using remove_inv by blast
next
  case (6 s k b s' k')
  then show ?case using lookup_after_remove by blast
qed

end
