(* ===== verification/Pwr_Double.thy ===== *)
theory Pwr_Double
  imports Pwr_Prelude
begin

text \<open>
  C doubles, as far as the statistics code depends on them: the finite values, the two
  infinities and NaN, with the IEEE rules for how these combine. Every operation rounds
  its exact result once, to nearest with ties to even, as the x86-64 compilers have it
  (no extended precision and no fused operations); a result that is too large becomes an
  infinity. The sign of zero and the payload of a NaN are not modelled.
\<close>

datatype fp = NaN | PInf | MInf | Fin real

subsection \<open>Rounding\<close>

definition round_even :: "real \<Rightarrow> int" where
  "round_even y =
     (let q = \<lfloor>y\<rfloor>; r = y - of_int q in if r > 1 / 2 \<or> (r = 1 / 2 \<and> odd q) then q + 1 else q)"

text \<open>The exponent of the last place: 53 significant bits, and none below \<open>2 ^ (- 1074)\<close>.\<close>

definition last_place :: "real \<Rightarrow> int" where
  "last_place x = max (\<lfloor>log 2 \<bar>x\<bar>\<rfloor> - 52) (- 1074)"

definition rounded :: "real \<Rightarrow> real" where
  "rounded x = (if x = 0 then 0 else of_int (round_even (x / 2 powr last_place x)) * 2 powr last_place x)"

definition fp_round :: "real \<Rightarrow> fp" where
  "fp_round x =
     (if rounded x \<ge> 2 ^ 1024 then PInf else if rounded x \<le> - (2 ^ 1024) then MInf else Fin (rounded x))"

subsection \<open>Operations\<close>

instantiation fp :: "{zero, one, plus, uminus, minus, times, inverse, ord}"
begin

definition zero_fp :: fp where "zero_fp = Fin 0"

definition one_fp :: fp where "one_fp = Fin 1"

fun plus_fp :: "fp \<Rightarrow> fp \<Rightarrow> fp" where
  "plus_fp (Fin a) (Fin b) = fp_round (a + b)"
| "plus_fp NaN y = NaN"
| "plus_fp x NaN = NaN"
| "plus_fp PInf MInf = NaN"
| "plus_fp MInf PInf = NaN"
| "plus_fp PInf y = PInf"
| "plus_fp MInf y = MInf"
| "plus_fp x PInf = PInf"
| "plus_fp x MInf = MInf"

fun uminus_fp :: "fp \<Rightarrow> fp" where
  "uminus_fp (Fin a) = Fin (- a)"
| "uminus_fp PInf = MInf"
| "uminus_fp MInf = PInf"
| "uminus_fp NaN = NaN"

definition minus_fp :: "fp \<Rightarrow> fp \<Rightarrow> fp" where "minus_fp x y = x + (- y)"

definition signed_inf :: "real \<Rightarrow> fp" where
  "signed_inf a = (if a = 0 then NaN else if 0 < a then PInf else MInf)"

fun times_fp :: "fp \<Rightarrow> fp \<Rightarrow> fp" where
  "times_fp (Fin a) (Fin b) = fp_round (a * b)"
| "times_fp NaN y = NaN"
| "times_fp x NaN = NaN"
| "times_fp PInf PInf = PInf"
| "times_fp MInf MInf = PInf"
| "times_fp PInf MInf = MInf"
| "times_fp MInf PInf = MInf"
| "times_fp PInf (Fin b) = signed_inf b"
| "times_fp MInf (Fin b) = - signed_inf b"
| "times_fp (Fin a) PInf = signed_inf a"
| "times_fp (Fin a) MInf = - signed_inf a"

fun divide_fp :: "fp \<Rightarrow> fp \<Rightarrow> fp" where
  "divide_fp (Fin a) (Fin b) = (if b = 0 then signed_inf a else fp_round (a / b))"
| "divide_fp NaN y = NaN"
| "divide_fp x NaN = NaN"
| "divide_fp (Fin a) PInf = Fin 0"
| "divide_fp (Fin a) MInf = Fin 0"
| "divide_fp PInf (Fin b) = (if b < 0 then MInf else PInf)"
| "divide_fp MInf (Fin b) = (if b < 0 then PInf else MInf)"
| "divide_fp x y = NaN"

definition inverse_fp :: "fp \<Rightarrow> fp" where "inverse_fp x = Fin 1 div x"

fun less_fp :: "fp \<Rightarrow> fp \<Rightarrow> bool" where
  "less_fp (Fin a) (Fin b) = (a < b)"
| "less_fp NaN y = False"
| "less_fp x NaN = False"
| "less_fp MInf y = (y \<noteq> MInf)"
| "less_fp x PInf = (x \<noteq> PInf)"
| "less_fp x y = False"

definition less_eq_fp :: "fp \<Rightarrow> fp \<Rightarrow> bool" where
  "less_eq_fp x y \<longleftrightarrow> x < y \<or> (x = y \<and> x \<noteq> NaN)"

instance ..

end

fun fp_sqrt :: "fp \<Rightarrow> fp" where
  "fp_sqrt (Fin a) = (if a < 0 then NaN else fp_round (sqrt a))"
| "fp_sqrt PInf = PInf"
| "fp_sqrt MInf = NaN"
| "fp_sqrt NaN = NaN"

lemmas fp_const = zero_fp_def one_fp_def

lemma fp_minus_Fin [simp]: "Fin a - Fin b = fp_round (a - b)"
  by (simp add: minus_fp_def)

lemma fp_less_asym: "x < y \<Longrightarrow> \<not> y < x" for x y :: fp
  by (cases x; cases y) auto

lemma fp_less_trans: "x < y \<Longrightarrow> y < z \<Longrightarrow> x < z" for x y z :: fp
  by (cases x; cases y; cases z) auto

lemma fp_less_Fin_PInf [simp]: "Fin a < PInf" and fp_MInf_less_Fin [simp]: "MInf < Fin a"
  by simp_all

subsection \<open>Doubles in memory\<close>

text \<open>A double in memory is 8 bytes; this is the IEEE 754 interpretation of them.\<close>

definition double_of_bits :: "64 word \<Rightarrow> fp" where
  "double_of_bits b =
     (let e = unat (take_bit 11 (drop_bit 52 b)); m = real (unat (take_bit 52 b)); sg = (if bit b 63 then - 1 else 1) in
      if e = 2047 then if m = 0 then if bit b 63 then MInf else PInf else NaN
      else if e = 0 then Fin (sg * m * 2 / 2 ^ 1075)
      else Fin (sg * (2 ^ 52 + m) * 2 ^ e / 2 ^ 1075))"

end
