(* ===== verification/Lib_State.thy ===== *)
theory Lib_State
  imports Opaque Pwr_Double
begin

text \<open>
  The structures of the library and its state. Every structure that a handle can refer to
  (context, group, object, status, statistic) lives at an address and starts with an
  \<^verbatim>\<open>opaque_ref_t\<close>; the state \<open>lib\<close> extends the handle state of \<open>Opaque\<close> with
  one partial map per structure type, keyed by that address. The remaining members of the
  structure are the fields of the records below.

  A GLib list is its sequence of nodes, each with the address of its data; the code keeps
  pointers to single nodes (the \<^verbatim>\<open>link\<close> members) and releases whole lists, so a
  list is only meaningful while its nodes are allocated (field \<open>links\<close>, from a node to
  its data). The operations
  below return \<open>None\<close> when the C code would touch a released node or structure.

  Allocation never fails (GLib aborts the process instead) and returns an address that has
  not been used before.
\<close>

type_synonym link = nat
type_synonym glist = "(link \<times> addr) list"

text \<open>\<^verbatim>\<open>GNode\<close>: the tree node of an object in a context's hierarchy.\<close>

record gnode_t =
  gn_data :: addr
  gn_parent :: "addr option"
  gn_children :: "addr list"

text \<open>\<^verbatim>\<open>struct hierarchy_s\<close>\<close>

record hierarchy_t =
  h_tree :: "addr option"
  h_map :: "string \<rightharpoonup> addr"

text \<open>\<^verbatim>\<open>struct obj_s\<close>\<close>

record obj_t =
  obj_type :: int
  obj_os_id :: "64 word"
  obj_name :: string
  obj_gnode :: "addr option"

text \<open>\<^verbatim>\<open>struct group_s\<close>\<close>

record group_t =
  grp_context_key :: key
  grp_link :: "link option"
  grp_list :: "addr list"
  grp_stat_list :: glist

text \<open>\<^verbatim>\<open>PWR_AttrAccessError\<close> and \<^verbatim>\<open>struct status_s\<close>\<close>

record PWR_AttrAccessError =
  err_obj :: key
  err_name :: int
  err_index :: int
  err_error :: int

record status_t =
  sts_context_key :: key
  sts_link :: "link option"
  sts_list :: "PWR_AttrAccessError list"

text \<open>\<^verbatim>\<open>struct stat_s\<close>; \<open>stat_thread\<close> is whether the sampling thread exists.\<close>

record stat_t =
  stat_context_key :: key
  stat_link :: "link option"
  stat_ctx_link :: "link option"
  stat_obj :: key
  stat_grp :: key
  stat_attr :: int
  stat_stat :: int
  stat_sample_rate :: fp
  stat_objcount :: nat
  stat_start :: PWR_Time
  stat_stop :: PWR_Time
  stat_values :: "fp list"
  stat_instants :: "PWR_Time list"
  stat_thread :: bool
  stat_die :: bool

text \<open>\<^verbatim>\<open>struct context_s\<close>\<close>

record context_t =
  ctx_type :: int
  ctx_role :: int
  ctx_name :: string
  ctx_entry_point :: "addr option"
  ctx_hierarchy :: hierarchy_t
  ctx_group_list :: glist
  ctx_status_list :: glist
  ctx_stat_list :: glist

record lib = opq +
  next_addr :: nat
  links :: "link \<rightharpoonup> addr"
  ctxs :: "addr \<rightharpoonup> context_t"
  grps :: "addr \<rightharpoonup> group_t"
  objs :: "addr \<rightharpoonup> obj_t"
  statuses :: "addr \<rightharpoonup> status_t"
  stats :: "addr \<rightharpoonup> stat_t"
  gnodes :: "addr \<rightharpoonup> gnode_t"

subsection \<open>Zeroed structures and allocation\<close>

definition zero_group :: group_t where
  "zero_group = \<lparr>grp_context_key = 0, grp_link = None, grp_list = [], grp_stat_list = []\<rparr>"

definition zero_status :: status_t where
  "zero_status = \<lparr>sts_context_key = 0, sts_link = None, sts_list = []\<rparr>"

definition zero_stat :: stat_t where
  "zero_stat = \<lparr>stat_context_key = 0, stat_link = None, stat_ctx_link = None, stat_obj = 0,
     stat_grp = 0, stat_attr = 0, stat_stat = 0, stat_sample_rate = Fin 0, stat_objcount = 0,
     stat_start = 0, stat_stop = 0, stat_values = [], stat_instants = [], stat_thread = False,
     stat_die = False\<rparr>"

text \<open>\<^verbatim>\<open>g_new0\<close>: a new address whose opaque reference is zeroed.\<close>

definition alloc_ref :: "lib \<Rightarrow> addr \<times> lib" where
  "alloc_ref s = (next_addr s,
     s\<lparr>next_addr := Suc (next_addr s), refs := (refs s)(next_addr s \<mapsto> zero_ref)\<rparr>)"

definition alloc_group :: "lib \<Rightarrow> addr \<times> lib" where
  "alloc_group s = (let (a, s) = alloc_ref s in (a, s\<lparr>grps := (grps s)(a \<mapsto> zero_group)\<rparr>))"

definition alloc_status :: "lib \<Rightarrow> addr \<times> lib" where
  "alloc_status s = (let (a, s) = alloc_ref s in (a, s\<lparr>statuses := (statuses s)(a \<mapsto> zero_status)\<rparr>))"

definition alloc_stat :: "lib \<Rightarrow> addr \<times> lib" where
  "alloc_stat s = (let (a, s) = alloc_ref s in (a, s\<lparr>stats := (stats s)(a \<mapsto> zero_stat)\<rparr>))"

subsection \<open>GLib lists\<close>

definition glist_live :: "lib \<Rightarrow> glist \<Rightarrow> bool" where
  "glist_live s l \<longleftrightarrow> (\<forall>(n, d) \<in> set l. links s n = Some d)"

definition g_list_prepend :: "glist \<Rightarrow> addr \<Rightarrow> lib \<Rightarrow> (glist \<times> lib) option" where
  "g_list_prepend l d s =
     (if glist_live s l then
        Some ((next_addr s, d) # l, s\<lparr>next_addr := Suc (next_addr s), links := (links s)(next_addr s \<mapsto> d)\<rparr>)
      else None)"

definition g_list_delete_link :: "glist \<Rightarrow> link \<Rightarrow> lib \<Rightarrow> (glist \<times> lib) option" where
  "g_list_delete_link l n s =
     (if glist_live s l \<and> n \<in> fst ` set l then
        Some (filter (\<lambda>e. fst e \<noteq> n) l, s\<lparr>links := (links s)(n := None)\<rparr>)
      else None)"

fun g_list_foreach :: "(addr \<Rightarrow> lib \<Rightarrow> lib option) \<Rightarrow> glist \<Rightarrow> lib \<Rightarrow> lib option" where
  "g_list_foreach f [] s = Some s"
| "g_list_foreach f ((n, d) # l) s = do { s \<leftarrow> f d s; g_list_foreach f l s }"

definition g_list_free_full :: "(addr \<Rightarrow> lib \<Rightarrow> lib option) \<Rightarrow> glist \<Rightarrow> lib \<Rightarrow> lib option" where
  "g_list_free_full f l s =
     (if glist_live s l then
        do { s \<leftarrow> g_list_foreach f l s; Some (s\<lparr>links := links s |` (- fst ` set l)\<rparr>) }
      else None)"

end
