(* ===== verification/Group_Set.thy ===== *)
theory Group_Set
  imports Pwr_Prelude
begin

text \<open>
  The object lists of groups, \<^verbatim>\<open>lib/group.c\<close>. A group keeps its objects in a GLib
  sequence sorted by address. This theory models the comparison functions, the sequence
  operations the file uses, and the four walks that combine two sequences; the operations
  on whole groups are in \<open>Lifecycle\<close> and \<open>Group_API\<close>.

  A sequence is the list of its items. An iterator is the rest of the list from its
  position on, so \<^verbatim>\<open>g_sequence_iter_is_end\<close> is emptiness,
  \<^verbatim>\<open>g_sequence_get\<close> the head and \<^verbatim>\<open>g_sequence_iter_next\<close> the tail.
\<close>

definition group_compare_obj :: "addr \<Rightarrow> addr \<Rightarrow> int" where
  "group_compare_obj obj1 obj2 = (if obj1 < obj2 then - 1 else if obj1 > obj2 then 1 else 0)"

text \<open>The arguments are what the two iterators refer to; a NULL iterator compares as address 0.\<close>

definition group_compare_obj_iter :: "addr option \<Rightarrow> addr option \<Rightarrow> int" where
  "group_compare_obj_iter data1 data2 =
     group_compare_obj (case data1 of None \<Rightarrow> 0 | Some o1 \<Rightarrow> o1) (case data2 of None \<Rightarrow> 0 | Some o2 \<Rightarrow> o2)"

lemma compare_cases [simp]:
  "group_compare_obj a b = - 1 \<longleftrightarrow> a < b"
  "group_compare_obj a b = 0 \<longleftrightarrow> a = b"
  "group_compare_obj a b = 1 \<longleftrightarrow> b < a"
  by (auto simp: group_compare_obj_def)

lemma compare_iter_Some [simp]:
  "group_compare_obj_iter (Some a) (Some b) = group_compare_obj a b"
  by (simp add: group_compare_obj_iter_def)

subsection \<open>Sequence operations\<close>

fun g_sequence_lookup :: "addr list \<Rightarrow> addr \<Rightarrow> nat option" where
  "g_sequence_lookup [] x = None"
| "g_sequence_lookup (y # ys) x =
     (if group_compare_obj y x = 0 then Some 0 else map_option Suc (g_sequence_lookup ys x))"

fun g_sequence_insert_sorted :: "addr list \<Rightarrow> addr \<Rightarrow> addr list" where
  "g_sequence_insert_sorted [] x = [x]"
| "g_sequence_insert_sorted (y # ys) x =
     (if group_compare_obj y x = 1 then x # y # ys else y # g_sequence_insert_sorted ys x)"

definition g_sequence_remove :: "addr list \<Rightarrow> nat \<Rightarrow> addr list" where
  "g_sequence_remove xs i = take i xs @ drop (Suc i) xs"

text \<open>
  What GLib documents of these operations for a sequence sorted by the comparison function
  that is passed to them. The facts about group membership below use nothing else.
\<close>

locale sorted_sequence =
  fixes lookup :: "addr list \<Rightarrow> addr \<Rightarrow> nat option"
    and insert_sorted :: "addr list \<Rightarrow> addr \<Rightarrow> addr list"
    and remove :: "addr list \<Rightarrow> nat \<Rightarrow> addr list"
  assumes lookup_Some: "sorted xs \<Longrightarrow> lookup xs x = Some i \<Longrightarrow> i < length xs \<and> xs ! i = x"
    and lookup_None: "sorted xs \<Longrightarrow> lookup xs x = None \<Longrightarrow> x \<notin> set xs"
    and insert_sorted: "sorted xs \<Longrightarrow> sorted (insert_sorted xs x)"
    and insert_parts: "sorted xs \<Longrightarrow> \<exists>ys zs. xs = ys @ zs \<and> insert_sorted xs x = ys @ x # zs"
    and remove_at: "i < length xs \<Longrightarrow> remove xs i = take i xs @ drop (Suc i) xs"
begin

lemma lookup_iff: "sorted xs \<Longrightarrow> lookup xs x \<noteq> None \<longleftrightarrow> x \<in> set xs"
  using lookup_Some lookup_None by (metis not_Some_eq nth_mem)

lemma insert_new:
  assumes "strict_sorted_list xs" "x \<notin> set xs"
  shows "strict_sorted_list (insert_sorted xs x)" "set (insert_sorted xs x) = insert x (set xs)"
proof -
  from assms(1) have xs: "sorted xs" "distinct xs" by (simp_all add: sorted_simps)
  from insert_parts [OF xs(1), of x] obtain ys zs where
    parts: "xs = ys @ zs" "insert_sorted xs x = ys @ x # zs" by blast
  show "set (insert_sorted xs x) = insert x (set xs)" using parts by auto
  have "distinct (insert_sorted xs x)" using parts xs(2) assms(2) by auto
  with insert_sorted [OF xs(1)] show "strict_sorted_list (insert_sorted xs x)"
    by (simp add: strict_sorted_iff)
qed

lemma remove_found:
  assumes "strict_sorted_list xs" "lookup xs x = Some i"
  shows "strict_sorted_list (remove xs i)" "set (remove xs i) = set xs - {x}"
proof -
  from assms have i: "i < length xs" "xs ! i = x"
    using lookup_Some by (simp_all add: sorted_simps)
  then have xs: "xs = take i xs @ x # drop (Suc i) xs" by (metis id_take_nth_drop)
  have rem: "remove xs i = take i xs @ drop (Suc i) xs" using i by (simp add: remove_at)
  have "strict_sorted_list (take i xs @ x # drop (Suc i) xs)" using assms(1) xs by simp
  then show "strict_sorted_list (remove xs i)" unfolding rem by (simp add: sorted_wrt_append)
  have "distinct (take i xs @ x # drop (Suc i) xs)" using assms(1) xs by (simp add: sorted_simps)
  then have "set (take i xs @ drop (Suc i) xs) = set (take i xs @ x # drop (Suc i) xs) - {x}" by auto
  then show "set (remove xs i) = set xs - {x}" using rem xs by simp
qed

end

lemma g_sequence_lookup_Some:
  "g_sequence_lookup xs x = Some i \<Longrightarrow> i < length xs \<and> xs ! i = x"
  by (induction xs arbitrary: i) (auto split: if_splits)

lemma g_sequence_lookup_None: "g_sequence_lookup xs x = None \<longleftrightarrow> x \<notin> set xs"
  by (induction xs) auto

lemma g_sequence_insert_parts:
  "\<exists>ys zs. xs = ys @ zs \<and> g_sequence_insert_sorted xs x = ys @ x # zs"
proof (induction xs)
  case (Cons a xs)
  then obtain ys zs where "xs = ys @ zs" "g_sequence_insert_sorted xs x = ys @ x # zs" by blast
  then have "x < a \<or> (a # xs = (a # ys) @ zs \<and> g_sequence_insert_sorted (a # xs) x = (a # ys) @ x # zs)"
    by auto
  then show ?case by (metis append_Nil compare_cases(3) g_sequence_insert_sorted.simps(2))
qed simp

lemma set_g_sequence_insert: "set (g_sequence_insert_sorted xs x) = insert x (set xs)"
  using g_sequence_insert_parts [of xs x] by auto

lemma sorted_g_sequence_insert: "sorted xs \<Longrightarrow> sorted (g_sequence_insert_sorted xs x)"
  by (induction xs) (auto simp: set_g_sequence_insert)

interpretation gs: sorted_sequence g_sequence_lookup g_sequence_insert_sorted g_sequence_remove
  by unfold_locales
    (simp_all add: g_sequence_lookup_Some g_sequence_lookup_None sorted_g_sequence_insert
      g_sequence_insert_parts g_sequence_remove_def)

subsection \<open>The walks over two sequences\<close>

text \<open>
  Each walk appends to the sequence of the result group, the last argument. The code
  compares the heads, appends and advances, and then appends what is left of the first,
  the second or both sequences.
\<close>

fun append_rest :: "addr list \<Rightarrow> addr list \<Rightarrow> addr list" where
  "append_rest [] acc = acc"
| "append_rest (obj # iter) acc = append_rest iter (acc @ [obj])"

fun union_walk :: "addr list \<Rightarrow> addr list \<Rightarrow> addr list \<Rightarrow> addr list" where
  "union_walk (obj1 # iter1) (obj2 # iter2) acc =
     (if group_compare_obj obj1 obj2 = - 1 then union_walk iter1 (obj2 # iter2) (acc @ [obj1])
      else if group_compare_obj obj1 obj2 = 0 then union_walk iter1 iter2 (acc @ [obj1])
      else union_walk (obj1 # iter1) iter2 (acc @ [obj2]))"
| "union_walk iter1 iter2 acc = append_rest iter2 (append_rest iter1 acc)"

fun intersection_walk :: "addr list \<Rightarrow> addr list \<Rightarrow> addr list \<Rightarrow> addr list" where
  "intersection_walk (obj1 # iter1) (obj2 # iter2) acc =
     (if group_compare_obj_iter (Some obj1) (Some obj2) = - 1
      then intersection_walk iter1 (obj2 # iter2) acc
      else if group_compare_obj_iter (Some obj1) (Some obj2) = 0
      then intersection_walk iter1 iter2 (acc @ [obj1])
      else intersection_walk (obj1 # iter1) iter2 acc)"
| "intersection_walk iter1 iter2 acc = acc"

fun difference_walk :: "addr list \<Rightarrow> addr list \<Rightarrow> addr list \<Rightarrow> addr list" where
  "difference_walk (obj1 # iter1) (obj2 # iter2) acc =
     (if group_compare_obj obj1 obj2 = - 1 then difference_walk iter1 (obj2 # iter2) (acc @ [obj1])
      else if group_compare_obj obj1 obj2 = 0 then difference_walk iter1 iter2 acc
      else difference_walk (obj1 # iter1) iter2 acc)"
| "difference_walk iter1 iter2 acc = append_rest iter1 acc"

fun sym_difference_walk :: "addr list \<Rightarrow> addr list \<Rightarrow> addr list \<Rightarrow> addr list" where
  "sym_difference_walk (obj1 # iter1) (obj2 # iter2) acc =
     (if group_compare_obj obj1 obj2 = - 1 then sym_difference_walk iter1 (obj2 # iter2) (acc @ [obj1])
      else if group_compare_obj obj1 obj2 = 0 then sym_difference_walk iter1 iter2 acc
      else sym_difference_walk (obj1 # iter1) iter2 (acc @ [obj2]))"
| "sym_difference_walk iter1 iter2 acc = append_rest iter2 (append_rest iter1 acc)"

subsection \<open>The walks compute set operations\<close>

lemma append_rest_eq [simp]: "append_rest xs acc = acc @ xs"
  by (induction xs arbitrary: acc) auto

text \<open>
  What a walk over two strictly sorted sequences promises: what it appends is strictly
  sorted and has exactly the members that the set operation gives.
\<close>

definition appends_op ::
  "(addr set \<Rightarrow> addr set \<Rightarrow> addr set) \<Rightarrow> addr list \<Rightarrow> addr list \<Rightarrow> addr list \<Rightarrow> addr list \<Rightarrow> bool" where
  "appends_op f xs ys acc res \<longleftrightarrow>
     (\<exists>zs. res = acc @ zs \<and> strict_sorted_list zs \<and> set zs = f (set xs) (set ys))"

locale sequence_walk =
  fixes walk :: "addr list \<Rightarrow> addr list \<Rightarrow> addr list \<Rightarrow> addr list"
    and f :: "addr set \<Rightarrow> addr set \<Rightarrow> addr set"
  assumes walk_appends: "strict_sorted_list xs \<Longrightarrow> strict_sorted_list ys \<Longrightarrow>
    appends_op f xs ys acc (walk xs ys acc)"
begin

lemma walk_into_empty:
  assumes "strict_sorted_list xs" "strict_sorted_list ys"
  shows "strict_sorted_list (walk xs ys [])" "set (walk xs ys []) = f (set xs) (set ys)"
  using walk_appends [OF assms, of "[]"] by (auto simp: appends_op_def)

lemma walk_canonical:
  assumes "strict_sorted_list xs" "strict_sorted_list ys"
  shows "walk xs ys [] = sorted_list_of_set (f (set xs) (set ys))"
  using walk_into_empty [OF assms] strict_sorted_set_unique
  by (metis List.finite_set strict_sorted_list_of_set set_sorted_list_of_set)

lemma walk_length:
  assumes "strict_sorted_list xs" "strict_sorted_list ys"
  shows "length (walk xs ys []) = card (f (set xs) (set ys))"
  using walk_into_empty [OF assms] length_eq_card by metis

end

lemma appends_op_push:
  assumes "appends_op f xs' ys' (acc @ [x]) res"
    and "f (set xs) (set ys) = insert x (f (set xs') (set ys'))"
    and "\<forall>z \<in> f (set xs') (set ys'). x < z"
  shows "appends_op f xs ys acc res"
proof -
  from assms(1) obtain zs where "res = acc @ x # zs" "strict_sorted_list zs" "set zs = f (set xs') (set ys')"
    by (auto simp: appends_op_def)
  with assms(2,3) show ?thesis by (auto simp: appends_op_def)
qed

lemma appends_op_skip:
  assumes "appends_op f xs' ys' acc res" and "f (set xs) (set ys) = f (set xs') (set ys')"
  shows "appends_op f xs ys acc res"
  using assms by (simp add: appends_op_def)

lemma union_walk_appends:
  "strict_sorted_list xs \<Longrightarrow> strict_sorted_list ys \<Longrightarrow> appends_op (\<union>) xs ys acc (union_walk xs ys acc)"
proof (induction xs ys acc rule: union_walk.induct)
  case (1 x xs y ys acc)
  consider "x < y" | "x = y" | "y < x" by arith
  then show ?case
  proof cases
    case 1
    have "appends_op (\<union>) xs (y # ys) (acc @ [x]) (union_walk xs (y # ys) (acc @ [x]))"
      using 1 "1.IH"(1) "1.prems" by simp
    then have "appends_op (\<union>) (x # xs) (y # ys) acc (union_walk xs (y # ys) (acc @ [x]))"
      by (rule appends_op_push) (use 1 "1.prems" in \<open>auto\<close>)
    with 1 show ?thesis by simp
  next
    case 2
    have "appends_op (\<union>) xs ys (acc @ [x]) (union_walk xs ys (acc @ [x]))"
      using 2 "1.IH"(2) "1.prems" by simp
    then have "appends_op (\<union>) (x # xs) (y # ys) acc (union_walk xs ys (acc @ [x]))"
      by (rule appends_op_push) (use 2 "1.prems" in \<open>auto\<close>)
    with 2 show ?thesis by simp
  next
    case 3
    have "appends_op (\<union>) (x # xs) ys (acc @ [y]) (union_walk (x # xs) ys (acc @ [y]))"
      using 3 "1.IH"(3) "1.prems" by simp
    then have "appends_op (\<union>) (x # xs) (y # ys) acc (union_walk (x # xs) ys (acc @ [y]))"
      by (rule appends_op_push) (use 3 "1.prems" in \<open>auto\<close>)
    with 3 show ?thesis by simp
  qed
qed (auto simp: appends_op_def)

lemma intersection_walk_appends:
  "strict_sorted_list xs \<Longrightarrow> strict_sorted_list ys \<Longrightarrow>
    appends_op (\<inter>) xs ys acc (intersection_walk xs ys acc)"
proof (induction xs ys acc rule: intersection_walk.induct)
  case (1 x xs y ys acc)
  consider "x < y" | "x = y" | "y < x" by arith
  then show ?case
  proof cases
    case 1
    have "appends_op (\<inter>) xs (y # ys) acc (intersection_walk xs (y # ys) acc)"
      using 1 "1.IH"(1) "1.prems" by simp
    then have "appends_op (\<inter>) (x # xs) (y # ys) acc (intersection_walk xs (y # ys) acc)"
      by (rule appends_op_skip) (use 1 "1.prems" in \<open>auto\<close>)
    with 1 show ?thesis by simp
  next
    case 2
    have "appends_op (\<inter>) xs ys (acc @ [x]) (intersection_walk xs ys (acc @ [x]))"
      using 2 "1.IH"(2) "1.prems" by simp
    then have "appends_op (\<inter>) (x # xs) (y # ys) acc (intersection_walk xs ys (acc @ [x]))"
      by (rule appends_op_push) (use 2 "1.prems" in \<open>auto\<close>)
    with 2 show ?thesis by simp
  next
    case 3
    have "appends_op (\<inter>) (x # xs) ys acc (intersection_walk (x # xs) ys acc)"
      using 3 "1.IH"(3) "1.prems" by simp
    then have "appends_op (\<inter>) (x # xs) (y # ys) acc (intersection_walk (x # xs) ys acc)"
      by (rule appends_op_skip) (use 3 "1.prems" in \<open>auto\<close>)
    with 3 show ?thesis by simp
  qed
qed (auto simp: appends_op_def)

lemma difference_walk_appends:
  "strict_sorted_list xs \<Longrightarrow> strict_sorted_list ys \<Longrightarrow> appends_op (-) xs ys acc (difference_walk xs ys acc)"
proof (induction xs ys acc rule: difference_walk.induct)
  case (1 x xs y ys acc)
  consider "x < y" | "x = y" | "y < x" by arith
  then show ?case
  proof cases
    case 1
    have "appends_op (-) xs (y # ys) (acc @ [x]) (difference_walk xs (y # ys) (acc @ [x]))"
      using 1 "1.IH"(1) "1.prems" by simp
    then have "appends_op (-) (x # xs) (y # ys) acc (difference_walk xs (y # ys) (acc @ [x]))"
      by (rule appends_op_push) (use 1 "1.prems" in \<open>auto\<close>)
    with 1 show ?thesis by simp
  next
    case 2
    have "appends_op (-) xs ys acc (difference_walk xs ys acc)"
      using 2 "1.IH"(2) "1.prems" by simp
    then have "appends_op (-) (x # xs) (y # ys) acc (difference_walk xs ys acc)"
      by (rule appends_op_skip) (use 2 "1.prems" in \<open>auto\<close>)
    with 2 show ?thesis by simp
  next
    case 3
    have "appends_op (-) (x # xs) ys acc (difference_walk (x # xs) ys acc)"
      using 3 "1.IH"(3) "1.prems" by simp
    then have "appends_op (-) (x # xs) (y # ys) acc (difference_walk (x # xs) ys acc)"
      by (rule appends_op_skip) (use 3 "1.prems" in \<open>auto\<close>)
    with 3 show ?thesis by simp
  qed
qed (auto simp: appends_op_def)

definition set_sym_diff :: "addr set \<Rightarrow> addr set \<Rightarrow> addr set" where
  "set_sym_diff A B = (A - B) \<union> (B - A)"

lemma sym_difference_walk_appends:
  "strict_sorted_list xs \<Longrightarrow> strict_sorted_list ys \<Longrightarrow>
    appends_op set_sym_diff xs ys acc (sym_difference_walk xs ys acc)"
proof (induction xs ys acc rule: sym_difference_walk.induct)
  case (1 x xs y ys acc)
  consider "x < y" | "x = y" | "y < x" by arith
  then show ?case
  proof cases
    case 1
    have "appends_op set_sym_diff xs (y # ys) (acc @ [x]) (sym_difference_walk xs (y # ys) (acc @ [x]))"
      using 1 "1.IH"(1) "1.prems" by simp
    then have "appends_op set_sym_diff (x # xs) (y # ys) acc (sym_difference_walk xs (y # ys) (acc @ [x]))"
      by (rule appends_op_push) (use 1 "1.prems" in \<open>auto simp: set_sym_diff_def\<close>)
    with 1 show ?thesis by simp
  next
    case 2
    have "appends_op set_sym_diff xs ys acc (sym_difference_walk xs ys acc)"
      using 2 "1.IH"(2) "1.prems" by simp
    then have "appends_op set_sym_diff (x # xs) (y # ys) acc (sym_difference_walk xs ys acc)"
      by (rule appends_op_skip) (use 2 "1.prems" in \<open>auto simp: set_sym_diff_def\<close>)
    with 2 show ?thesis by simp
  next
    case 3
    have "appends_op set_sym_diff (x # xs) ys (acc @ [y]) (sym_difference_walk (x # xs) ys (acc @ [y]))"
      using 3 "1.IH"(3) "1.prems" by simp
    then have "appends_op set_sym_diff (x # xs) (y # ys) acc (sym_difference_walk (x # xs) ys (acc @ [y]))"
      by (rule appends_op_push) (use 3 "1.prems" in \<open>auto simp: set_sym_diff_def\<close>)
    with 3 show ?thesis by simp
  qed
qed (auto simp: appends_op_def set_sym_diff_def)

interpretation union: sequence_walk union_walk "(\<union>)"
  by unfold_locales (rule union_walk_appends)

interpretation inter: sequence_walk intersection_walk "(\<inter>)"
  by unfold_locales (rule intersection_walk_appends)

interpretation diff: sequence_walk difference_walk "(-)"
  by unfold_locales (rule difference_walk_appends)

interpretation symdiff: sequence_walk sym_difference_walk set_sym_diff
  by unfold_locales (rule sym_difference_walk_appends)

end
