(* ===== verification/Lifecycle.thy ===== *)
theory Lifecycle
  imports Lib_State Group_Set
begin

text \<open>
  Creation and destruction of statistics, status objects and groups, and their bookkeeping
  in the owning context: the constructors and destructors of
  \<^verbatim>\<open>lib/statistics.c\<close>, \<^verbatim>\<open>lib/attributes.c\<close> and
  \<^verbatim>\<open>lib/group.c\<close> and the list management of \<^verbatim>\<open>lib/context.c\<close>.
  The destructors take the address of the structure; the NULL argument that they tolerate
  only arises inside the constructors and is covered there.
\<close>

subsection \<open>Statistics\<close>

text \<open>
  \<^verbatim>\<open>stop_thread\<close>: sets the flag, joins the sampling thread (which reads the flag in
  every round) and resets both members. Its status is always success.
\<close>

definition stop_thread :: "addr \<Rightarrow> lib \<Rightarrow> lib option" where
  "stop_thread a s =
     do {
       st \<leftarrow> stats s a;
       Some (if stat_thread st
             then s\<lparr>stats := (stats s)(a \<mapsto> st\<lparr>stat_thread := False, stat_die := False\<rparr>)\<rparr> else s)
     }"

definition del_stat :: "addr \<Rightarrow> lib \<Rightarrow> lib option" where
  "del_stat a s =
     do {
       st \<leftarrow> stats s a;
       s \<leftarrow> (if stat_thread st then stop_thread a s else Some s);
       r \<leftarrow> refs s a;
       s \<leftarrow> (if ref_key r \<noteq> 0 then map_option snd (opaque_map_remove (ref_key r) s) else Some s);
       Some (s\<lparr>refs := (refs s)(a := None), stats := (stats s)(a := None)\<rparr>)
     }"

definition new_stat :: "lib \<Rightarrow> (addr option \<times> lib) option" where
  "new_stat s =
     (let (a, s) = alloc_stat s in
      do {
        (k, s) \<leftarrow> opaque_map_insert OPAQUE_STAT a s;
        if k = 0 then do { s \<leftarrow> del_stat a s; Some (None, s) } else Some (Some a, s)
      })"

definition stat_destroy_callback :: "addr \<Rightarrow> lib \<Rightarrow> lib option" where
  "stat_destroy_callback a s = del_stat a s"

definition stat_invalidate_callback :: "addr \<Rightarrow> lib \<Rightarrow> lib option" where
  "stat_invalidate_callback a s =
     do {
       st \<leftarrow> stats s a;
       s \<leftarrow> (if stat_thread st then stop_thread a s else Some s);
       st \<leftarrow> stats s a;
       Some (s\<lparr>stats := (stats s)(a \<mapsto> st\<lparr>stat_obj := 0, stat_grp := 0\<rparr>)\<rparr>)
     }"

subsection \<open>Status objects\<close>

definition del_status :: "addr \<Rightarrow> lib \<Rightarrow> lib option" where
  "del_status a s =
     do {
       _ \<leftarrow> statuses s a;
       r \<leftarrow> refs s a;
       s \<leftarrow> (if ref_key r \<noteq> 0 then map_option snd (opaque_map_remove (ref_key r) s) else Some s);
       Some (s\<lparr>refs := (refs s)(a := None), statuses := (statuses s)(a := None)\<rparr>)
     }"

definition new_status :: "lib \<Rightarrow> (addr option \<times> lib) option" where
  "new_status s =
     (let (a, s) = alloc_status s in
      do {
        (k, s) \<leftarrow> opaque_map_insert OPAQUE_STATUS a s;
        if k = 0 then do { s \<leftarrow> del_status a s; Some (None, s) } else Some (Some a, s)
      })"

definition status_destroy_callback :: "addr \<Rightarrow> lib \<Rightarrow> lib option" where
  "status_destroy_callback a s = del_status a s"

subsection \<open>Groups\<close>

text \<open>
  The C function releases the list of statistics and leaves the member
  \<^verbatim>\<open>stat_list\<close> as it is, pointing to the released nodes.
\<close>

definition group_invalidate_statistics :: "addr \<Rightarrow> lib \<Rightarrow> lib option" where
  "group_invalidate_statistics a s =
     do {
       g \<leftarrow> grps s a;
       if grp_stat_list g \<noteq> [] then g_list_free_full stat_invalidate_callback (grp_stat_list g) s
       else Some s
     }"

definition del_group :: "addr \<Rightarrow> lib \<Rightarrow> lib option" where
  "del_group a s =
     do {
       s \<leftarrow> group_invalidate_statistics a s;
       r \<leftarrow> refs s a;
       s \<leftarrow> (if ref_key r \<noteq> 0 then map_option snd (opaque_map_remove (ref_key r) s) else Some s);
       Some (s\<lparr>refs := (refs s)(a := None), grps := (grps s)(a := None)\<rparr>)
     }"

definition new_group :: "lib \<Rightarrow> (addr option \<times> lib) option" where
  "new_group s =
     (let (a, s) = alloc_group s in
      do {
        (k, s) \<leftarrow> opaque_map_insert OPAQUE_GROUP a s;
        if k = 0 then do { s \<leftarrow> del_group a s; Some (None, s) } else Some (Some a, s)
      })"

definition group_destroy_callback :: "addr \<Rightarrow> lib \<Rightarrow> lib option" where
  "group_destroy_callback a s = del_group a s"

definition group_copy :: "addr \<Rightarrow> addr \<Rightarrow> lib \<Rightarrow> (int \<times> lib) option" where
  "group_copy from to s =
     do {
       g1 \<leftarrow> grps s from;
       g2 \<leftarrow> grps s to;
       Some (0, s\<lparr>grps := (grps s)(to \<mapsto> g2\<lparr>grp_list := append_rest (grp_list g1) (grp_list g2)\<rparr>)\<rparr>)
     }"

definition group_insert_obj :: "addr \<Rightarrow> addr \<Rightarrow> lib \<Rightarrow> (bool \<times> lib) option" where
  "group_insert_obj a obj s =
     do {
       g \<leftarrow> grps s a;
       if g_sequence_lookup (grp_list g) obj \<noteq> None then Some (True, s)
       else do {
         s \<leftarrow> group_invalidate_statistics a s;
         g \<leftarrow> grps s a;
         Some (True, s\<lparr>grps := (grps s)(a \<mapsto> g\<lparr>grp_list := g_sequence_insert_sorted (grp_list g) obj\<rparr>)\<rparr>)
       }
     }"

definition group_remove_obj :: "addr \<Rightarrow> addr \<Rightarrow> lib \<Rightarrow> (bool \<times> lib) option" where
  "group_remove_obj a obj s =
     do {
       g \<leftarrow> grps s a;
       case g_sequence_lookup (grp_list g) obj of
         None \<Rightarrow> Some (True, s)
       | Some i \<Rightarrow>
           do {
             s \<leftarrow> group_invalidate_statistics a s;
             g \<leftarrow> grps s a;
             Some (True, s\<lparr>grps := (grps s)(a \<mapsto> g\<lparr>grp_list := g_sequence_remove (grp_list g) i\<rparr>)\<rparr>)
           }
     }"

definition group_get_length :: "addr \<Rightarrow> lib \<Rightarrow> int option" where
  "group_get_length a s = map_option (\<lambda>g. int (length (grp_list g))) (grps s a)"

text \<open>The common body of the four functions that combine two groups into a third.\<close>

definition group_combine ::
  "(addr list \<Rightarrow> addr list \<Rightarrow> addr list \<Rightarrow> addr list) \<Rightarrow> addr \<Rightarrow> addr \<Rightarrow> addr \<Rightarrow> lib \<Rightarrow> (int \<times> lib) option" where
  "group_combine walk group1 group2 group3 s =
     do {
       g1 \<leftarrow> grps s group1;
       g2 \<leftarrow> grps s group2;
       g3 \<leftarrow> grps s group3;
       Some (0, s\<lparr>grps := (grps s)(group3 \<mapsto>
                  g3\<lparr>grp_list := walk (grp_list g1) (grp_list g2) (grp_list g3)\<rparr>)\<rparr>)
     }"

definition group_union :: "addr \<Rightarrow> addr \<Rightarrow> addr \<Rightarrow> lib \<Rightarrow> (int \<times> lib) option" where
  "group_union = group_combine union_walk"

definition group_intersection :: "addr \<Rightarrow> addr \<Rightarrow> addr \<Rightarrow> lib \<Rightarrow> (int \<times> lib) option" where
  "group_intersection = group_combine intersection_walk"

definition group_difference :: "addr \<Rightarrow> addr \<Rightarrow> addr \<Rightarrow> lib \<Rightarrow> (int \<times> lib) option" where
  "group_difference = group_combine difference_walk"

definition group_sym_difference :: "addr \<Rightarrow> addr \<Rightarrow> addr \<Rightarrow> lib \<Rightarrow> (int \<times> lib) option" where
  "group_sym_difference = group_combine sym_difference_walk"

subsection \<open>Bookkeeping in the context\<close>

definition context_new_group :: "addr \<Rightarrow> lib \<Rightarrow> (addr option \<times> lib) option" where
  "context_new_group c s =
     do {
       (ga, s) \<leftarrow> new_group s;
       case ga of
         None \<Rightarrow> Some (None, s)
       | Some a \<Rightarrow>
           do {
             ctx \<leftarrow> ctxs s c;
             (l, s) \<leftarrow> g_list_prepend (ctx_group_list ctx) a s;
             g \<leftarrow> grps s a;
             r \<leftarrow> refs s c;
             Some (Some a, s\<lparr>ctxs := (ctxs s)(c \<mapsto> ctx\<lparr>ctx_group_list := l\<rparr>),
                              grps := (grps s)(a \<mapsto> g\<lparr>grp_link := Some (fst (hd l)), grp_context_key := ref_key r\<rparr>)\<rparr>)
           }
     }"

definition context_del_group :: "addr \<Rightarrow> addr \<Rightarrow> lib \<Rightarrow> lib option" where
  "context_del_group c a s =
     do {
       g \<leftarrow> grps s a;
       s \<leftarrow> (case grp_link g of
               None \<Rightarrow> Some s
             | Some n \<Rightarrow>
                 do {
                   ctx \<leftarrow> ctxs s c;
                   (l, s) \<leftarrow> g_list_delete_link (ctx_group_list ctx) n s;
                   Some (s\<lparr>ctxs := (ctxs s)(c \<mapsto> ctx\<lparr>ctx_group_list := l\<rparr>)\<rparr>)
                 });
       del_group a s
     }"

definition context_new_status :: "addr \<Rightarrow> lib \<Rightarrow> (addr option \<times> lib) option" where
  "context_new_status c s =
     do {
       (sa, s) \<leftarrow> new_status s;
       case sa of
         None \<Rightarrow> Some (None, s)
       | Some a \<Rightarrow>
           do {
             ctx \<leftarrow> ctxs s c;
             (l, s) \<leftarrow> g_list_prepend (ctx_status_list ctx) a s;
             st \<leftarrow> statuses s a;
             r \<leftarrow> refs s c;
             Some (Some a, s\<lparr>ctxs := (ctxs s)(c \<mapsto> ctx\<lparr>ctx_status_list := l\<rparr>),
                              statuses := (statuses s)(a \<mapsto> st\<lparr>sts_link := Some (fst (hd l)), sts_context_key := ref_key r\<rparr>)\<rparr>)
           }
     }"

definition context_del_status :: "addr \<Rightarrow> addr \<Rightarrow> lib \<Rightarrow> lib option" where
  "context_del_status c a s =
     do {
       st \<leftarrow> statuses s a;
       s \<leftarrow> (case sts_link st of
               None \<Rightarrow> Some s
             | Some n \<Rightarrow>
                 do {
                   ctx \<leftarrow> ctxs s c;
                   (l, s) \<leftarrow> g_list_delete_link (ctx_status_list ctx) n s;
                   Some (s\<lparr>ctxs := (ctxs s)(c \<mapsto> ctx\<lparr>ctx_status_list := l\<rparr>)\<rparr>)
                 });
       del_status a s
     }"

definition context_new_statistic :: "addr \<Rightarrow> lib \<Rightarrow> (addr option \<times> lib) option" where
  "context_new_statistic c s =
     do {
       (sa, s) \<leftarrow> new_stat s;
       case sa of
         None \<Rightarrow> Some (None, s)
       | Some a \<Rightarrow>
           do {
             ctx \<leftarrow> ctxs s c;
             (l, s) \<leftarrow> g_list_prepend (ctx_stat_list ctx) a s;
             st \<leftarrow> stats s a;
             r \<leftarrow> refs s c;
             Some (Some a, s\<lparr>ctxs := (ctxs s)(c \<mapsto> ctx\<lparr>ctx_stat_list := l\<rparr>),
                              stats := (stats s)(a \<mapsto> st\<lparr>stat_ctx_link := Some (fst (hd l)), stat_context_key := ref_key r\<rparr>)\<rparr>)
           }
     }"

definition context_del_statistic :: "addr \<Rightarrow> addr \<Rightarrow> lib \<Rightarrow> lib option" where
  "context_del_statistic c a s =
     do {
       st \<leftarrow> stats s a;
       s \<leftarrow> (case stat_ctx_link st of
               None \<Rightarrow> Some s
             | Some n \<Rightarrow>
                 do {
                   ctx \<leftarrow> ctxs s c;
                   (l, s) \<leftarrow> g_list_delete_link (ctx_stat_list ctx) n s;
                   Some (s\<lparr>ctxs := (ctxs s)(c \<mapsto> ctx\<lparr>ctx_stat_list := l\<rparr>)\<rparr>)
                 });
       del_stat a s
     }"

definition lookup_context :: "lib \<Rightarrow> key \<Rightarrow> addr option option" where
  "lookup_context s k = opaque_map_lookup_type s k OPAQUE_CONTEXT"

definition lookup_group :: "lib \<Rightarrow> key \<Rightarrow> addr option option" where
  "lookup_group s k = opaque_map_lookup_type s k OPAQUE_GROUP"

definition lookup_object :: "lib \<Rightarrow> key \<Rightarrow> addr option option" where
  "lookup_object s k = opaque_map_lookup_type s k OPAQUE_OBJECT"

definition lookup_status :: "lib \<Rightarrow> key \<Rightarrow> addr option option" where
  "lookup_status s k = opaque_map_lookup_type s k OPAQUE_STATUS"

definition lookup_stat :: "lib \<Rightarrow> key \<Rightarrow> addr option option" where
  "lookup_stat s k = opaque_map_lookup_type s k OPAQUE_STAT"

definition group_new_statistic :: "addr \<Rightarrow> lib \<Rightarrow> (addr option \<times> lib) option" where
  "group_new_statistic ga s =
     do {
       g \<leftarrow> grps s ga;
       ctx \<leftarrow> lookup_context s (grp_context_key g);
       case ctx of
         None \<Rightarrow> Some (None, s)
       | Some c \<Rightarrow>
           do {
             (sa, s) \<leftarrow> context_new_statistic c s;
             case sa of
               None \<Rightarrow> Some (None, s)
             | Some a \<Rightarrow>
                 do {
                   g \<leftarrow> grps s ga;
                   (l, s) \<leftarrow> g_list_prepend (grp_stat_list g) a s;
                   st \<leftarrow> stats s a;
                   Some (Some a, s\<lparr>grps := (grps s)(ga \<mapsto> g\<lparr>grp_stat_list := l\<rparr>),
                                    stats := (stats s)(a \<mapsto> st\<lparr>stat_link := Some (fst (hd l))\<rparr>)\<rparr>)
                 }
           }
     }"

definition group_del_statistic :: "addr \<Rightarrow> addr \<Rightarrow> lib \<Rightarrow> lib option" where
  "group_del_statistic ga a s =
     do {
       st \<leftarrow> stats s a;
       g \<leftarrow> grps s ga;
       s \<leftarrow> (case stat_link st of
               None \<Rightarrow> Some s
             | Some n \<Rightarrow>
                 do {
                   (l, s) \<leftarrow> g_list_delete_link (grp_stat_list g) n s;
                   Some (s\<lparr>grps := (grps s)(ga \<mapsto> g\<lparr>grp_stat_list := l\<rparr>)\<rparr>)
                 });
       ctx \<leftarrow> lookup_context s (grp_context_key g);
       case ctx of None \<Rightarrow> Some s | Some c \<Rightarrow> context_del_statistic c a s
     }"

end
