(* ===== verification/Group_API.thy ===== *)
theory Group_API
  imports Lifecycle
begin

text \<open>
  The public group interface, the second half of \<^verbatim>\<open>lib/group.c\<close>. Every
  function takes handles, resolves them through the map and returns a status; a function
  with an output parameter returns the stored value too, \<open>None\<close> if the C code leaves
  the caller's variable alone.
\<close>

subsection \<open>Resolving handles\<close>

definition find_group_by_opaque :: "key \<Rightarrow> lib \<Rightarrow> addr option option" where
  "find_group_by_opaque gh s =
     (let ctx_key = OPAQUE_GET_CONTEXT_KEY gh; grp_key = OPAQUE_GET_DATA_KEY gh in
      do {
        grp \<leftarrow> lookup_group s grp_key;
        case grp of
          None \<Rightarrow> Some None
        | Some a \<Rightarrow>
            do {
              g \<leftarrow> grps s a;
              Some (if ctx_key \<noteq> grp_context_key g then None else Some a)
            }
      })"

definition find_context_by_opaque :: "key \<Rightarrow> lib \<Rightarrow> addr option option" where
  "find_context_by_opaque opaque s =
     (let ctx_key = OPAQUE_GET_CONTEXT_KEY opaque in
      do {
        ctx \<leftarrow> lookup_context s ctx_key;
        case ctx of
          None \<Rightarrow> Some None
        | Some c \<Rightarrow>
            do {
              r \<leftarrow> refs s c;
              Some (if ctx_key \<noteq> OPAQUE_GET_DATA_KEY (ref_key r) then None else Some c)
            }
      })"

subsection \<open>Creating, destroying, copying\<close>

definition PWR_GrpCreate :: "key \<Rightarrow> lib \<Rightarrow> (int \<times> key option \<times> lib) option" where
  "PWR_GrpCreate context s =
     (let ctx_key = OPAQUE_GET_CONTEXT_KEY context in
      if ctx_key \<noteq> OPAQUE_GET_DATA_KEY context then Some (PWR_RET_FAILURE, None, s)
      else do {
        ctx \<leftarrow> lookup_context s ctx_key;
        case ctx of
          None \<Rightarrow> Some (PWR_RET_FAILURE, None, s)
        | Some c \<Rightarrow>
            do {
              (grp, s) \<leftarrow> context_new_group c s;
              case grp of
                None \<Rightarrow> Some (PWR_RET_FAILURE, None, s)
              | Some a \<Rightarrow>
                  do {
                    rc \<leftarrow> refs s c;
                    ra \<leftarrow> refs s a;
                    Some (PWR_RET_SUCCESS, Some (OPAQUE_GENERATE (ref_key rc) (ref_key ra)), s)
                  }
            }
      })"

definition PWR_GrpDestroy :: "key \<Rightarrow> lib \<Rightarrow> (int \<times> lib) option" where
  "PWR_GrpDestroy gh s =
     do {
       grp \<leftarrow> find_group_by_opaque gh s;
       case grp of
         None \<Rightarrow> Some (PWR_RET_FAILURE, s)
       | Some a \<Rightarrow>
           do {
             ctx \<leftarrow> find_context_by_opaque gh s;
             case ctx of
               None \<Rightarrow> Some (PWR_RET_FAILURE, s)
             | Some c \<Rightarrow> do { s \<leftarrow> context_del_group c a s; Some (PWR_RET_SUCCESS, s) }
           }
     }"

text \<open>
  The common end of the functions that make a new group in a context, fill it with
  \<open>fill\<close> (a status of zero is success) and return its handle; on failure they delete
  the new group again.
\<close>

definition make_group ::
  "(addr \<Rightarrow> lib \<Rightarrow> (int \<times> lib) option) \<Rightarrow> key \<Rightarrow> addr \<Rightarrow> lib \<Rightarrow> (int \<times> key option \<times> lib) option" where
  "make_group fill ctx_key c s =
     do {
       (grp, s) \<leftarrow> context_new_group c s;
       case grp of
         None \<Rightarrow> Some (PWR_RET_FAILURE, None, s)
       | Some a \<Rightarrow>
           do {
             (ret, s) \<leftarrow> fill a s;
             if ret \<noteq> 0 then do { s \<leftarrow> context_del_group c a s; Some (PWR_RET_FAILURE, None, s) }
             else do {
               r \<leftarrow> refs s a;
               Some (PWR_RET_SUCCESS, Some (OPAQUE_GENERATE ctx_key (ref_key r)), s)
             }
           }
     }"

definition PWR_GrpDuplicate :: "key \<Rightarrow> lib \<Rightarrow> (int \<times> key option \<times> lib) option" where
  "PWR_GrpDuplicate group1 s =
     do {
       grp1 \<leftarrow> find_group_by_opaque group1 s;
       case grp1 of
         None \<Rightarrow> Some (PWR_RET_FAILURE, None, s)
       | Some a1 \<Rightarrow>
           do {
             ctx \<leftarrow> find_context_by_opaque group1 s;
             case ctx of
               None \<Rightarrow> Some (PWR_RET_FAILURE, None, s)
             | Some c \<Rightarrow> make_group (group_copy a1) (OPAQUE_GET_CONTEXT_KEY group1) c s
           }
     }"

subsection \<open>Members\<close>

definition grp_member_op ::
  "(addr \<Rightarrow> addr \<Rightarrow> lib \<Rightarrow> (bool \<times> lib) option) \<Rightarrow> key \<Rightarrow> key \<Rightarrow> lib \<Rightarrow> (int \<times> lib) option" where
  "grp_member_op f gh object s =
     (let obj_key = OPAQUE_GET_DATA_KEY object; octx_key = OPAQUE_GET_CONTEXT_KEY object;
          gctx_key = OPAQUE_GET_CONTEXT_KEY gh in
      if octx_key \<noteq> gctx_key then Some (PWR_RET_FAILURE, s)
      else do {
        grp \<leftarrow> find_group_by_opaque gh s;
        case grp of
          None \<Rightarrow> Some (PWR_RET_FAILURE, s)
        | Some a \<Rightarrow>
            do {
              obj \<leftarrow> lookup_object s obj_key;
              case obj of
                None \<Rightarrow> Some (PWR_RET_FAILURE, s)
              | Some ob \<Rightarrow>
                  do {
                    (ok, s) \<leftarrow> f a ob s;
                    Some (if ok then PWR_RET_SUCCESS else PWR_RET_FAILURE, s)
                  }
            }
      })"

definition PWR_GrpAddObj :: "key \<Rightarrow> key \<Rightarrow> lib \<Rightarrow> (int \<times> lib) option" where
  "PWR_GrpAddObj = grp_member_op group_insert_obj"

definition PWR_GrpRemoveObj :: "key \<Rightarrow> key \<Rightarrow> lib \<Rightarrow> (int \<times> lib) option" where
  "PWR_GrpRemoveObj = grp_member_op group_remove_obj"

definition PWR_GrpGetNumObjs :: "key \<Rightarrow> lib \<Rightarrow> int option" where
  "PWR_GrpGetNumObjs gh s =
     do {
       grp \<leftarrow> find_group_by_opaque gh s;
       case grp of
         None \<Rightarrow> Some PWR_RET_FAILURE
       | Some a \<Rightarrow> group_get_length a s
     }"

definition PWR_GrpGetObjByIndx :: "key \<Rightarrow> int \<Rightarrow> lib \<Rightarrow> (int \<times> key option) option" where
  "PWR_GrpGetObjByIndx gh index s =
     (let ctx_key = OPAQUE_GET_CONTEXT_KEY gh in
      if index < 0 then Some (PWR_RET_BAD_INDEX, None)
      else do {
        grp \<leftarrow> find_group_by_opaque gh s;
        case grp of
          None \<Rightarrow> Some (PWR_RET_FAILURE, None)
        | Some a \<Rightarrow>
            do {
              g \<leftarrow> grps s a;
              if nat index \<ge> length (grp_list g) then Some (PWR_RET_NO_OBJ_AT_INDEX, None)
              else do {
                r \<leftarrow> refs s (grp_list g ! nat index);
                Some (PWR_RET_SUCCESS, Some (OPAQUE_GENERATE ctx_key (ref_key r)))
              }
            }
      })"

subsection \<open>Combining groups\<close>

definition grp_binary_op ::
  "(addr \<Rightarrow> addr \<Rightarrow> addr \<Rightarrow> lib \<Rightarrow> (int \<times> lib) option) \<Rightarrow> key \<Rightarrow> key \<Rightarrow> lib \<Rightarrow> (int \<times> key option \<times> lib) option" where
  "grp_binary_op f group1 group2 s =
     (let ctx1_key = OPAQUE_GET_CONTEXT_KEY group1; ctx2_key = OPAQUE_GET_CONTEXT_KEY group2 in
      if ctx1_key \<noteq> ctx2_key then Some (PWR_RET_FAILURE, None, s)
      else do {
        grp1 \<leftarrow> find_group_by_opaque group1 s;
        case grp1 of
          None \<Rightarrow> Some (PWR_RET_FAILURE, None, s)
        | Some a1 \<Rightarrow>
            do {
              grp2 \<leftarrow> find_group_by_opaque group2 s;
              case grp2 of
                None \<Rightarrow> Some (PWR_RET_FAILURE, None, s)
              | Some a2 \<Rightarrow>
                  do {
                    ctx \<leftarrow> find_context_by_opaque group1 s;
                    case ctx of
                      None \<Rightarrow> Some (PWR_RET_FAILURE, None, s)
                    | Some c \<Rightarrow> make_group (f a1 a2) ctx1_key c s
                  }
            }
      })"

definition PWR_GrpUnion :: "key \<Rightarrow> key \<Rightarrow> lib \<Rightarrow> (int \<times> key option \<times> lib) option" where
  "PWR_GrpUnion = grp_binary_op group_union"

definition PWR_GrpIntersection :: "key \<Rightarrow> key \<Rightarrow> lib \<Rightarrow> (int \<times> key option \<times> lib) option" where
  "PWR_GrpIntersection = grp_binary_op group_intersection"

definition PWR_GrpDifference :: "key \<Rightarrow> key \<Rightarrow> lib \<Rightarrow> (int \<times> key option \<times> lib) option" where
  "PWR_GrpDifference = grp_binary_op group_difference"

definition PWR_GrpSymDifference :: "key \<Rightarrow> key \<Rightarrow> lib \<Rightarrow> (int \<times> key option \<times> lib) option" where
  "PWR_GrpSymDifference = grp_binary_op group_sym_difference"

end
