(* ===== verification/Group_Inv.thy ===== *)
theory Group_Inv
  imports Group_API
begin

text \<open>
  The invariant of the group interface and its preservation. The invariant ties together
  the handle map, the group lists of the contexts and the back pointers that groups keep,
  and says that every group is a strictly sorted list of live objects. It covers states in
  which no group carries statistics; \<open>Stale_Statistics\<close> shows what happens otherwise.
\<close>

definition key_at :: "'a opq_scheme \<Rightarrow> addr \<Rightarrow> key" where
  "key_at s a = (case refs s a of None \<Rightarrow> 0 | Some r \<Rightarrow> ref_key r)"

definition has_type :: "'a opq_scheme \<Rightarrow> addr \<Rightarrow> opaque_type_t \<Rightarrow> bool" where
  "has_type s a t \<longleftrightarrow> (\<exists>r. refs s a = Some r \<and> ref_type r = t \<and> ref_key r \<noteq> 0)"

definition fresh_ok :: "lib \<Rightarrow> bool" where
  "fresh_ok s \<longleftrightarrow> (\<forall>a\<ge>next_addr s. refs s a = None \<and> links s a = None)"

definition ctx_ok :: "lib \<Rightarrow> addr \<Rightarrow> context_t \<Rightarrow> bool" where
  "ctx_ok s c ctx \<longleftrightarrow> has_type s c OPAQUE_CONTEXT \<and>
     (\<forall>(n, a) \<in> set (ctx_group_list ctx). links s n = Some a \<and>
        (\<exists>g. grps s a = Some g \<and> grp_link g = Some n \<and> grp_context_key g = key_at s c))"

definition grp_ok :: "lib \<Rightarrow> addr \<Rightarrow> group_t \<Rightarrow> bool" where
  "grp_ok s a g \<longleftrightarrow> has_type s a OPAQUE_GROUP \<and> strict_sorted_list (grp_list g) \<and>
     grp_stat_list g = [] \<and> (\<forall>x \<in> set (grp_list g). has_type s x OPAQUE_OBJECT) \<and>
     (\<exists>c ctx n. ctxs s c = Some ctx \<and> key_at s c = grp_context_key g \<and> grp_link g = Some n \<and>
        (n, a) \<in> set (ctx_group_list ctx))"

definition typed_ok :: "lib \<Rightarrow> bool" where
  "typed_ok s \<longleftrightarrow> (\<forall>a. (has_type s a OPAQUE_CONTEXT \<longrightarrow> ctxs s a \<noteq> None) \<and>
                       (has_type s a OPAQUE_GROUP \<longrightarrow> grps s a \<noteq> None))"

definition group_inv :: "lib \<Rightarrow> bool" where
  "group_inv s \<longleftrightarrow> opaque_inv s \<and> opaque_map s \<noteq> None \<and> fresh_ok s \<and> typed_ok s \<and>
     (\<forall>c ctx. ctxs s c = Some ctx \<longrightarrow> ctx_ok s c ctx) \<and>
     (\<forall>a g. grps s a = Some g \<longrightarrow> grp_ok s a g)"

text \<open>
  The random generator will some time produce a key that is neither zero nor in use; draws
  of zero or of used keys may come before it.
\<close>

definition has_draw :: "'a opq_scheme \<Rightarrow> bool" where
  "has_draw s \<longleftrightarrow> (\<exists>m n. opaque_map s = Some m \<and> fresh_draw (rand_seq m) (table m) n)"

subsection \<open>Consequences\<close>

lemma group_invD:
  assumes "group_inv s"
  shows "opaque_inv s" "opaque_map s \<noteq> None" "fresh_ok s" "typed_ok s"
    "\<And>c ctx. ctxs s c = Some ctx \<Longrightarrow> ctx_ok s c ctx" "\<And>a g. grps s a = Some g \<Longrightarrow> grp_ok s a g"
  using assms unfolding group_inv_def by blast+

lemma ctx_ok_entry:
  assumes "ctx_ok s c ctx" "(n, a) \<in> set (ctx_group_list ctx)"
  obtains g where "links s n = Some a" "grps s a = Some g" "grp_link g = Some n" "grp_context_key g = key_at s c"
  using assms unfolding ctx_ok_def by fastforce

lemma has_type_fun: "has_type s a t \<Longrightarrow> has_type s a t' \<Longrightarrow> t = t'"
  by (auto simp: has_type_def)

lemma has_type_lookup:
  assumes "opaque_inv s" "has_type s a t"
  shows "opaque_map_lookup_type s (key_at s a) t = Some (Some a)"
proof -
  from assms(2) obtain r where r: "refs s a = Some r" "ref_type r = t" "ref_key r \<noteq> 0"
    by (auto simp: has_type_def)
  with opaque_inv_keyed [OF assms(1) r(1,3)] show ?thesis
    by (simp add: opaque_map_lookup_type_def key_at_def)
qed

lemma lookup_has_type:
  assumes "opaque_inv s" "opaque_map_lookup_type s k t = Some (Some a)" "key_ok s k"
  shows "has_type s a t" "key_at s a = k"
proof -
  from assms(2) have a: "opaque_map_lookup s k = Some a"
    by (auto simp: opaque_map_lookup_type_def split: option.splits if_splits)
  with assms(1,3) obtain r where r: "refs s a = Some r" "ref_key r = k" "k \<noteq> 0" by (metis opaque_invD)
  with a assms(2) show "has_type s a t" "key_at s a = k"
    by (auto simp: opaque_map_lookup_type_def has_type_def key_at_def split: if_splits)
qed

lemma lookup_total:
  assumes "opaque_inv s" "key_ok s k"
  shows "\<exists>res. opaque_map_lookup_type s k t = Some res"
proof (cases "opaque_map_lookup s k")
  case None
  then show ?thesis by (simp add: opaque_map_lookup_type_def)
next
  case (Some a)
  from assms(1) Some assms(2) obtain r where "refs s a = Some r" by (rule opaque_invD)
  with Some show ?thesis by (simp add: opaque_map_lookup_type_def)
qed

lemma key_at_inj:
  assumes "opaque_inv s" "has_type s a t" "has_type s b t'" "key_at s a = key_at s b"
  shows "a = b"
  using has_type_lookup [OF assms(1,2)] has_type_lookup [OF assms(1,3)] assms(4)
  by (auto simp: opaque_map_lookup_type_def split: option.splits if_splits)

lemma key32_key_at:
  assumes "opaque_inv s" shows "key32 (key_at s a)"
proof (cases "refs s a")
  case (Some r)
  then show ?thesis
    using opaque_inv_keyed [OF assms Some] opaque_invD [OF assms] key32_zero key_ok_nonzero
    by (metis key_at_def option.simps(5))
qed (simp add: key_at_def)

text \<open>
  No handle with a safe key, valid or not, makes the resolution functions touch released
  memory.
\<close>

definition dkey_ok :: "'a opq_scheme \<Rightarrow> key \<Rightarrow> bool" where
  "dkey_ok s h \<longleftrightarrow> key_ok s (OPAQUE_GET_DATA_KEY h)"

definition ckey_ok :: "'a opq_scheme \<Rightarrow> key \<Rightarrow> bool" where
  "ckey_ok s h \<longleftrightarrow> key_ok s (OPAQUE_GET_CONTEXT_KEY h)"

lemma find_group_total:
  assumes "group_inv s" "dkey_ok s h"
  shows "\<exists>res. find_group_by_opaque h s = Some res"
proof -
  note inv = group_invD [OF assms(1)] and h = assms(2) [unfolded dkey_ok_def]
  from lookup_total [OF inv(1) h] obtain res where
    res: "lookup_group s (OPAQUE_GET_DATA_KEY h) = Some res" by (auto simp: lookup_group_def)
  show ?thesis
  proof (cases res)
    case (Some a)
    with res lookup_has_type [OF inv(1) _ h] have "has_type s a OPAQUE_GROUP" by (auto simp: lookup_group_def)
    then obtain g where "grps s a = Some g" using inv(4) by (auto simp: typed_ok_def)
    with res Some show ?thesis by (simp add: find_group_by_opaque_def Let_def)
  qed (simp add: res find_group_by_opaque_def Let_def)
qed

lemma find_groupD:
  assumes "group_inv s" "find_group_by_opaque h s = Some (Some a)" "dkey_ok s h"
  obtains g where "grps s a = Some g" "grp_context_key g = OPAQUE_GET_CONTEXT_KEY h"
    "has_type s a OPAQUE_GROUP" "key_at s a = OPAQUE_GET_DATA_KEY h"
proof -
  note inv = group_invD [OF assms(1)]
  from assms(2) obtain g where "lookup_group s (OPAQUE_GET_DATA_KEY h) = Some (Some a)" "grps s a = Some g"
    "grp_context_key g = OPAQUE_GET_CONTEXT_KEY h"
    by (auto simp: find_group_by_opaque_def Let_def split: option.splits if_splits)
  with lookup_has_type [OF inv(1) _ assms(3) [unfolded dkey_ok_def]] that show ?thesis
    by (auto simp: lookup_group_def)
qed

lemma find_groupI:
  assumes "group_inv s" "grps s a = Some g"
  shows "find_group_by_opaque (OPAQUE_GENERATE (grp_context_key g) (key_at s a)) s = Some (Some a)"
proof -
  note inv = group_invD [OF assms(1)]
  from inv(6) [OF assms(2)] obtain c where c: "key_at s c = grp_context_key g" and t: "has_type s a OPAQUE_GROUP"
    by (auto simp: grp_ok_def)
  have "key32 (grp_context_key g)" "key32 (key_at s a)"
    using key32_key_at [OF inv(1)] c by metis+
  with has_type_lookup [OF inv(1) t] assms(2) show ?thesis
    by (simp add: find_group_by_opaque_def Let_def lookup_group_def key_simps)
qed

lemma find_group_cong:
  assumes look: "lookup_group s' (OPAQUE_GET_DATA_KEY h) = lookup_group s (OPAQUE_GET_DATA_KEY h)"
    and grp: "\<And>a. lookup_group s (OPAQUE_GET_DATA_KEY h) = Some (Some a) \<Longrightarrow>
      map_option grp_context_key (grps s' a) = map_option grp_context_key (grps s a)"
  shows "find_group_by_opaque h s' = find_group_by_opaque h s"
proof (cases "lookup_group s (OPAQUE_GET_DATA_KEY h)")
  case None
  with look show ?thesis by (simp add: find_group_by_opaque_def Let_def)
next
  case (Some res)
  show ?thesis
  proof (cases res)
    case None
    with Some look show ?thesis by (simp add: find_group_by_opaque_def Let_def)
  next
    fix a assume a: "res = Some a"
    with grp Some have "map_option grp_context_key (grps s' a) = map_option grp_context_key (grps s a)" by simp
    with a Some look show ?thesis
      by (cases "grps s a"; cases "grps s' a") (simp_all add: find_group_by_opaque_def Let_def)
  qed
qed

lemma find_context_total:
  assumes "group_inv s" "ckey_ok s h"
  shows "\<exists>res. find_context_by_opaque h s = Some res"
proof -
  note inv = group_invD [OF assms(1)] and h = assms(2) [unfolded ckey_ok_def]
  from lookup_total [OF inv(1) h] obtain res where
    res: "lookup_context s (OPAQUE_GET_CONTEXT_KEY h) = Some res" by (auto simp: lookup_context_def)
  show ?thesis
  proof (cases res)
    case (Some c)
    with res lookup_has_type [OF inv(1) _ h] have "has_type s c OPAQUE_CONTEXT" by (auto simp: lookup_context_def)
    with res Some show ?thesis by (auto simp: find_context_by_opaque_def Let_def has_type_def)
  qed (simp add: res find_context_by_opaque_def Let_def)
qed

lemma lookup_contextD:
  assumes "group_inv s" "lookup_context s k = Some (Some c)" "key_ok s k"
  obtains ctx where "ctxs s c = Some ctx" "key_at s c = k" "has_type s c OPAQUE_CONTEXT"
  using assms lookup_has_type group_invD unfolding lookup_context_def typed_ok_def by (metis option.exhaust)

lemma find_contextD:
  assumes "group_inv s" "find_context_by_opaque h s = Some (Some c)" "ckey_ok s h"
  obtains ctx where "ctxs s c = Some ctx" "key_at s c = OPAQUE_GET_CONTEXT_KEY h" "has_type s c OPAQUE_CONTEXT"
proof -
  from assms(2) have "lookup_context s (OPAQUE_GET_CONTEXT_KEY h) = Some (Some c)"
    by (auto simp: find_context_by_opaque_def Let_def split: option.splits if_splits)
  with assms(1,3) that show ?thesis unfolding ckey_ok_def by (metis lookup_contextD)
qed

subsection \<open>Creating a group\<close>

text \<open>The state after \<^verbatim>\<open>context_new_group\<close> has succeeded.\<close>

definition after_new_group :: "addr \<Rightarrow> context_t \<Rightarrow> key \<Rightarrow> lib \<Rightarrow> lib \<Rightarrow> bool" where
  "after_new_group c ctx k s s' \<longleftrightarrow>
     (let a = next_addr s; n = Suc a in
      refs s' = (refs s)(a \<mapsto> \<lparr>ref_type = OPAQUE_GROUP, ref_key = k\<rparr>) \<and>
      next_addr s' = Suc n \<and> links s' = (links s)(n \<mapsto> a) \<and>
      ctxs s' = (ctxs s)(c \<mapsto> ctx\<lparr>ctx_group_list := (n, a) # ctx_group_list ctx\<rparr>) \<and>
      grps s' = (grps s)(a \<mapsto> \<lparr>grp_context_key = key_at s c, grp_link = Some n, grp_list = [],
                               grp_stat_list = []\<rparr>) \<and>
      k \<noteq> 0 \<and> opaque_inv s' \<and> opaque_map s' \<noteq> None \<and> opaque_map_lookup s k = None \<and>
      (\<forall>k'. k' \<noteq> 0 \<longrightarrow> opaque_map_lookup s' k' = (if k' = k then Some a else opaque_map_lookup s k')))"

lemma context_new_group_result:
  assumes inv: "group_inv s" and ctx: "ctxs s c = Some ctx" and draw: "has_draw s"
  shows "\<exists>k s'. context_new_group c s = Some (Some (next_addr s), s') \<and> after_new_group c ctx k s s'"
proof -
  let ?a = "next_addr s"
  define s1 where "s1 = snd (alloc_group s)"
  have s1: "s1 = s\<lparr>next_addr := Suc ?a, refs := (refs s)(?a \<mapsto> zero_ref), grps := (grps s)(?a \<mapsto> zero_group)\<rparr>"
    by (simp add: s1_def alloc_group_def alloc_ref_def Let_def)
  have alloc: "alloc_group s = (?a, s1)" by (simp add: s1_def alloc_group_def alloc_ref_def Let_def)
  note i = group_invD [OF inv]
  have free: "refs s ?a = None" using i(3) by (simp add: fresh_ok_def)
  have h1: "opaque_inv s1"
    using opaque_inv_alloc [OF i(1) free, of s1] by (simp add: s1)
  from draw obtain m n where m: "opaque_map s1 = Some m" "fresh_draw (rand_seq m) (table m) n"
    by (auto simp: has_draw_def s1)
  have r1: "refs s1 ?a = Some zero_ref" by (simp add: s1)
  from insert_returns [OF m r1, of OPAQUE_GROUP] obtain k s2 where
    ins: "opaque_map_insert OPAQUE_GROUP ?a s1 = Some (k, s2)" and k: "k \<noteq> 0" by blast
  have h2: "opaque_inv s2"
    using insert_inv [OF ins k] h1 r1 by (auto simp: unkeyed_def zero_ref_def)
  obtain m2 where s2: "s2 = s1\<lparr>opaque_map := Some m2, refs := (refs s1)(?a \<mapsto> \<lparr>ref_type = OPAQUE_GROUP, ref_key = k\<rparr>)\<rparr>"
    using ins k r1 by (auto elim!: opaque_map_insert_sound simp: zero_ref_def)
  from i(5) [OF ctx] have c: "has_type s c OPAQUE_CONTEXT" and live: "glist_live s (ctx_group_list ctx)"
    by (auto simp: ctx_ok_def glist_live_def)
  then have ca: "c \<noteq> ?a" using free by (auto simp: has_type_def)
  from c ca obtain r where r: "refs s c = Some r" "refs s2 c = Some r" by (auto simp: has_type_def s1 s2)
  have ng: "new_group s = Some (Some ?a, s2)"
    using ins k by (simp add: new_group_def alloc)
  have pre: "g_list_prepend (ctx_group_list ctx) ?a s2 =
      Some ((Suc ?a, ?a) # ctx_group_list ctx, s2\<lparr>next_addr := Suc (Suc ?a), links := (links s)(Suc ?a \<mapsto> ?a)\<rparr>)"
    using live by (simp add: g_list_prepend_def glist_live_def s1 s2)
  define s' where "s' = s2\<lparr>next_addr := Suc (Suc ?a), links := (links s)(Suc ?a \<mapsto> ?a),
      ctxs := (ctxs s)(c \<mapsto> ctx\<lparr>ctx_group_list := (Suc ?a, ?a) # ctx_group_list ctx\<rparr>),
      grps := (grps s)(?a \<mapsto> \<lparr>grp_context_key = key_at s c, grp_link = Some (Suc ?a), grp_list = [], grp_stat_list = []\<rparr>)\<rparr>"
  have "context_new_group c s = Some (Some ?a, s')"
    using ng pre r ctx by (simp add: context_new_group_def s'_def s2 s1 zero_group_def key_at_def)
  moreover have "opaque_inv s'"
    using h2 opaque_inv_cong [of s' s2] by (simp add: s'_def)
  moreover have "opaque_map_lookup s' k' = (if k' = k then Some ?a else opaque_map_lookup s k')" if "k' \<noteq> 0" for k'
    using lookup_after_insert [OF ins k that] by (simp add: s'_def opaque_map_lookup_def s1)
  moreover have "opaque_map_lookup s k = None"
    using insert_key_fresh(2) [OF ins k] by (simp add: opaque_map_lookup_def s1)
  ultimately have "context_new_group c s = Some (Some ?a, s')" "after_new_group c ctx k s s'"
    using k by (simp_all add: after_new_group_def Let_def s'_def s2 s1)
  then show ?thesis by blast
qed

lemma has_type_other: "refs s' b = refs s b \<Longrightarrow> has_type s' b t = has_type s b t"
  and key_at_other: "refs s' b = refs s b \<Longrightarrow> key_at s' b = key_at s b"
  by (simp_all add: has_type_def key_at_def)

lemma group_inv_new_group:
  assumes inv: "group_inv s" and ctx: "ctxs s c = Some ctx" and post: "after_new_group c ctx k s s'"
  shows "group_inv s'"
proof -
  let ?a = "next_addr s"
  note i = group_invD [OF inv]
  from post have refs': "refs s' = (refs s)(?a \<mapsto> \<lparr>ref_type = OPAQUE_GROUP, ref_key = k\<rparr>)"
    and next': "next_addr s' = Suc (Suc ?a)" and links': "links s' = (links s)(Suc ?a \<mapsto> ?a)"
    and ctxs': "ctxs s' = (ctxs s)(c \<mapsto> ctx\<lparr>ctx_group_list := (Suc ?a, ?a) # ctx_group_list ctx\<rparr>)"
    and grps': "grps s' = (grps s)(?a \<mapsto> \<lparr>grp_context_key = key_at s c, grp_link = Some (Suc ?a),
      grp_list = [], grp_stat_list = []\<rparr>)"
    and k: "k \<noteq> 0" and h: "opaque_inv s'" "opaque_map s' \<noteq> None"
    by (simp_all add: after_new_group_def Let_def)
  have free: "refs s ?a = None" "links s (Suc ?a) = None" using i(3) by (auto simp: fresh_ok_def)
  have old: "has_type s b t \<Longrightarrow> has_type s' b t" and old_key: "has_type s b t \<Longrightarrow> key_at s' b = key_at s b" for b t
    using free by (auto simp: has_type_def key_at_def refs')
  have new: "has_type s' ?a OPAQUE_GROUP" using k by (simp add: has_type_def refs')
  have type': "has_type s' b t \<longleftrightarrow> (b = ?a \<and> t = OPAQUE_GROUP) \<or> has_type s b t" for b t
    using free k by (auto simp: has_type_def refs')
  have c: "has_type s c OPAQUE_CONTEXT" using i(5) [OF ctx] by (simp add: ctx_ok_def)
  have link_old: "links s n = Some b \<Longrightarrow> links s' n = Some b" for n b using free by (auto simp: links')
  have "ctx_ok s' d dctx" if d: "ctxs s' d = Some dctx" for d dctx
  proof -
    obtain dctx0 where d0: "ctxs s d = Some dctx0" "ctx_group_list dctx = (if d = c then (Suc ?a, ?a) # ctx_group_list dctx0 else ctx_group_list dctx0)"
      using d ctx by (auto simp: ctxs' split: if_splits)
    have ok: "ctx_ok s d dctx0" using i(5) d0 by blast
    have entry: "links s' n = Some b \<and> (\<exists>g. grps s' b = Some g \<and> grp_link g = Some n \<and> grp_context_key g = key_at s' d)"
      if nb: "(n, b) \<in> set (ctx_group_list dctx0)" for n b
    proof -
      from ok nb obtain g where g: "links s n = Some b" "grps s b = Some g" "grp_link g = Some n" "grp_context_key g = key_at s d"
        by (auto simp: ctx_ok_def)
      have "has_type s b OPAQUE_GROUP" using i(6) g(2) by (simp add: grp_ok_def)
      then have "b \<noteq> ?a" using free by (auto simp: has_type_def)
      moreover have "key_at s' d = key_at s d" using ok old_key by (auto simp: ctx_ok_def)
      ultimately show ?thesis using g link_old by (simp add: grps')
    qed
    have "has_type s' d OPAQUE_CONTEXT" using ok old by (simp add: ctx_ok_def)
    moreover have "links s' (Suc ?a) = Some ?a \<and> grps s' ?a = Some \<lparr>grp_context_key = key_at s' c, grp_link = Some (Suc ?a),
      grp_list = [], grp_stat_list = []\<rparr>" using old_key c by (simp add: links' grps')
    ultimately show ?thesis using entry d0(2) by (auto simp: ctx_ok_def split: if_splits)
  qed
  moreover have "grp_ok s' b g" if b: "grps s' b = Some g" for b g
  proof (cases "b = ?a")
    case True
    with b new ctxs' old_key [OF c] show ?thesis by (auto simp: grp_ok_def grps')
  next
    case False
    with b have g: "grps s b = Some g" by (simp add: grps')
    from i(6) [OF g] have ok: "grp_ok s b g" .
    then obtain d dctx n where d: "ctxs s d = Some dctx" "key_at s d = grp_context_key g" "grp_link g = Some n"
      "(n, b) \<in> set (ctx_group_list dctx)" by (auto simp: grp_ok_def)
    have "has_type s d OPAQUE_CONTEXT" using i(5) d(1) by (simp add: ctx_ok_def)
    then have "key_at s' d = grp_context_key g" using old_key d(2) by simp
    moreover obtain dctx' where "ctxs s' d = Some dctx'" "(n, b) \<in> set (ctx_group_list dctx')"
      using d ctx by (cases "d = c") (auto simp: ctxs')
    ultimately show ?thesis using ok old d(3) by (auto simp: grp_ok_def)
  qed
  moreover have "fresh_ok s'" using i(3) by (auto simp: fresh_ok_def refs' links' next')
  moreover have "typed_ok s'" using i(4) type' by (auto simp: typed_ok_def ctxs' grps')
  ultimately show ?thesis using h by (auto simp: group_inv_def)
qed

subsection \<open>Deleting a group\<close>

definition after_del_group :: "addr \<Rightarrow> context_t \<Rightarrow> addr \<Rightarrow> link \<Rightarrow> lib \<Rightarrow> lib \<Rightarrow> bool" where
  "after_del_group c ctx a n s s' \<longleftrightarrow>
     refs s' = (refs s)(a := None) \<and> next_addr s' = next_addr s \<and> links s' = (links s)(n := None) \<and>
     ctxs s' = (ctxs s)(c \<mapsto> ctx\<lparr>ctx_group_list := filter (\<lambda>e. fst e \<noteq> n) (ctx_group_list ctx)\<rparr>) \<and>
     grps s' = (grps s)(a := None) \<and> opaque_inv s' \<and> opaque_map s' \<noteq> None \<and>
     (\<forall>k. opaque_map_lookup s' k = (if k = key_at s a then None else opaque_map_lookup s k))"

lemma context_del_group_result:
  assumes inv: "group_inv s" and ctx: "ctxs s c = Some ctx" and g: "grps s a = Some g"
    and n: "grp_link g = Some n" and member: "(n, a) \<in> set (ctx_group_list ctx)"
  shows "\<exists>s'. context_del_group c a s = Some s' \<and> after_del_group c ctx a n s s'"
proof -
  note i = group_invD [OF inv]
  from i(5) [OF ctx] have c: "has_type s c OPAQUE_CONTEXT" and live: "glist_live s (ctx_group_list ctx)"
    by (auto simp: ctx_ok_def glist_live_def)
  from i(6) [OF g] have a: "has_type s a OPAQUE_GROUP" and nostat: "grp_stat_list g = []"
    by (auto simp: grp_ok_def)
  from a obtain r where r: "refs s a = Some r" "ref_key r \<noteq> 0" by (auto simp: has_type_def)
  define l where "l = filter (\<lambda>e. fst e \<noteq> n) (ctx_group_list ctx)"
  define s1 where "s1 = s\<lparr>links := (links s)(n := None), ctxs := (ctxs s)(c \<mapsto> ctx\<lparr>ctx_group_list := l\<rparr>)\<rparr>"
  have del: "g_list_delete_link (ctx_group_list ctx) n s = Some (l, s\<lparr>links := (links s)(n := None)\<rparr>)"
    using live member by (force simp: g_list_delete_link_def l_def)
  have h1: "opaque_inv s1" "opaque_map_lookup s1 = opaque_map_lookup s"
    using i(1) opaque_inv_cong [of s1 s] by (simp_all add: s1_def fun_eq_iff)
  have look: "opaque_map_lookup s1 (ref_key r) = Some a"
    using opaque_inv_keyed [OF i(1) r] h1(2) by simp
  obtain s2 where rem: "opaque_map_remove (ref_key r) s1 = Some (True, s2)"
    using remove_returns [OF h1(1) r(2)] look by auto
  have h2: "opaque_inv s2" using remove_inv [OF rem h1(1) r(2)] .
  have refs2: "refs s2 = (refs s)(a \<mapsto> r\<lparr>ref_type := OPAQUE_INVALID, ref_key := 0\<rparr>)"
    using remove_refs [OF rem] look r by (simp add: s1_def)
  have look2: "opaque_map_lookup s2 k = (if k = ref_key r then None else opaque_map_lookup s k)" for k
    using lookup_after_remove [OF rem] h1(2) by simp
  obtain m2 rs2 where s2: "s2 = s1\<lparr>opaque_map := Some m2, refs := rs2\<rparr>"
    using rem by (auto simp: opaque_map_remove_def split: option.splits)
  define s' where "s' = s2\<lparr>refs := (refs s2)(a := None), grps := (grps s2)(a := None)\<rparr>"
  have step: "opaque_map s' = opaque_map s2" "refs s' = (refs s2)(a := None)" "grps s1 = grps s"
    "refs s1 = refs s" by (simp_all add: s'_def s1_def)
  have "del_group a s1 = Some s'"
    using g nostat r rem by (simp add: del_group_def group_invalidate_statistics_def s'_def step)
  then have "context_del_group c a s = Some s'"
    using g n ctx del by (simp add: context_del_group_def s1_def)
  moreover have "opaque_inv s'"
    by (rule opaque_inv_free [OF h2 _ step(1,2)]) (simp add: unkeyed_def refs2)
  moreover have "opaque_map_lookup s' k = opaque_map_lookup s2 k" for k
    using step(1) by (simp add: opaque_map_lookup_def)
  moreover have "refs s' = (refs s)(a := None)" by (simp add: step refs2)
  moreover have "next_addr s' = next_addr s \<and> links s' = (links s)(n := None) \<and> opaque_map s' \<noteq> None \<and>
     ctxs s' = (ctxs s)(c \<mapsto> ctx\<lparr>ctx_group_list := l\<rparr>) \<and> grps s' = (grps s)(a := None)"
    by (simp add: s'_def s2 s1_def)
  ultimately show ?thesis
    using look2 r by (auto simp: after_del_group_def l_def key_at_def)
qed

lemma group_inv_del_group:
  assumes inv: "group_inv s" and ctx: "ctxs s c = Some ctx" and g: "grps s a = Some g"
    and n: "grp_link g = Some n" and member: "(n, a) \<in> set (ctx_group_list ctx)"
    and post: "after_del_group c ctx a n s s'"
  shows "group_inv s'"
proof -
  note i = group_invD [OF inv]
  from post have refs': "refs s' = (refs s)(a := None)" and next': "next_addr s' = next_addr s"
    and links': "links s' = (links s)(n := None)"
    and ctxs': "ctxs s' = (ctxs s)(c \<mapsto> ctx\<lparr>ctx_group_list := filter (\<lambda>e. fst e \<noteq> n) (ctx_group_list ctx)\<rparr>)"
    and grps': "grps s' = (grps s)(a := None)" and h: "opaque_inv s'" "opaque_map s' \<noteq> None"
    by (simp_all add: after_del_group_def)
  from i(5) [OF ctx] member have na: "links s n = Some a" by (auto simp: ctx_ok_def)
  from i(6) [OF g] have a: "has_type s a OPAQUE_GROUP" by (simp add: grp_ok_def)
  have type': "has_type s' b t \<longleftrightarrow> b \<noteq> a \<and> has_type s b t" for b t by (simp add: has_type_def refs')
  have ctx_a: "has_type s b OPAQUE_CONTEXT \<Longrightarrow> b \<noteq> a" for b using a has_type_fun by fastforce
  have key': "b \<noteq> a \<Longrightarrow> key_at s' b = key_at s b" for b by (simp add: key_at_def refs')
  have ca: "key_at s c = grp_context_key g" using i(5) [OF ctx] member g by (auto simp: ctx_ok_def)
  have "ctx_ok s' d dctx" if d: "ctxs s' d = Some dctx" for d dctx
  proof -
    have "\<exists>dctx0. ctxs s d = Some dctx0 \<and> set (ctx_group_list dctx) \<subseteq> set (ctx_group_list dctx0) \<and>
      (\<forall>e \<in> set (ctx_group_list dctx). d = c \<longrightarrow> fst e \<noteq> n)"
    proof (cases "d = c")
      case True
      with d ctx show ?thesis by (auto simp: ctxs')
    next
      case False
      with d show ?thesis by (simp add: ctxs')
    qed
    then obtain dctx0 where d0: "ctxs s d = Some dctx0" "set (ctx_group_list dctx) \<subseteq> set (ctx_group_list dctx0)"
      "\<forall>e \<in> set (ctx_group_list dctx). d = c \<longrightarrow> fst e \<noteq> n" by blast
    have ok: "ctx_ok s d dctx0" using i(5) d0 by blast
    then have dt: "has_type s d OPAQUE_CONTEXT" by (simp add: ctx_ok_def)
    have entry: "links s' m = Some b \<and> (\<exists>g. grps s' b = Some g \<and> grp_link g = Some m \<and> grp_context_key g = key_at s' d)"
      if mb: "(m, b) \<in> set (ctx_group_list dctx)" for m b
    proof -
      from mb d0(2) have "(m, b) \<in> set (ctx_group_list dctx0)" by blast
      with ok obtain gb where gb: "links s m = Some b" "grps s b = Some gb" "grp_link gb = Some m" "grp_context_key gb = key_at s d"
        by (rule ctx_ok_entry)
      have "b \<noteq> a"
      proof
        assume "b = a"
        with gb g n have "m = n" "key_at s d = grp_context_key g" by auto
        moreover from this ca have "d = c"
          using key_at_inj [OF i(1) dt, of c OPAQUE_CONTEXT] i(5) [OF ctx] by (simp add: ctx_ok_def)
        ultimately show False using d0(3) mb by force
      qed
      moreover from this gb na have "m \<noteq> n" by auto
      ultimately show ?thesis using gb key' ctx_a [OF dt] by (simp add: links' grps')
    qed
    with dt ctx_a type' show ?thesis by (auto simp: ctx_ok_def)
  qed
  moreover have "grp_ok s' b gb" if b: "grps s' b = Some gb" for b gb
  proof -
    from b have ba: "b \<noteq> a" and gb: "grps s b = Some gb" by (auto simp: grps' split: if_splits)
    from i(6) [OF gb] have ok: "grp_ok s b gb" .
    then obtain d dctx m where d: "ctxs s d = Some dctx" "key_at s d = grp_context_key gb" "grp_link gb = Some m"
      "(m, b) \<in> set (ctx_group_list dctx)" by (auto simp: grp_ok_def)
    have dok: "ctx_ok s d dctx" using i(5) d(1) by blast
    with d(4) have "links s m = Some b" by (auto simp: ctx_ok_def)
    with na ba have "m \<noteq> n" by auto
    then obtain dctx' where "ctxs s' d = Some dctx'" "(m, b) \<in> set (ctx_group_list dctx')"
      using d ctx by (cases "d = c") (auto simp: ctxs')
    moreover have "key_at s' d = grp_context_key gb" using dok ctx_a key' d(2) by (simp add: ctx_ok_def)
    moreover have "has_type s' x OPAQUE_OBJECT" if "has_type s x OPAQUE_OBJECT" for x
      using that a has_type_fun type' by fastforce
    ultimately show ?thesis using ok ba type' d(3) by (auto simp: grp_ok_def)
  qed
  moreover have "fresh_ok s'" using i(3) by (auto simp: fresh_ok_def refs' links' next')
  moreover have "typed_ok s'" using i(4) type' by (auto simp: typed_ok_def ctxs' grps')
  ultimately show ?thesis using h by (auto simp: group_inv_def)
qed

subsection \<open>Changing the members of a group\<close>

lemma group_inv_set_list:
  assumes inv: "group_inv s" and g: "grps s a = Some g" and xs: "strict_sorted_list xs"
    and objs: "\<forall>x \<in> set xs. has_type s x OPAQUE_OBJECT"
  shows "group_inv (s\<lparr>grps := (grps s)(a \<mapsto> g\<lparr>grp_list := xs\<rparr>)\<rparr>)"
proof -
  let ?s = "s\<lparr>grps := (grps s)(a \<mapsto> g\<lparr>grp_list := xs\<rparr>)\<rparr>"
  note i = group_invD [OF inv]
  have refs': "has_type ?s b t = has_type s b t" "key_at ?s b = key_at s b" for b t
    by (simp_all add: has_type_def key_at_def)
  have "ctx_ok ?s d dctx" if d: "ctxs ?s d = Some dctx" for d dctx
    using i(5) [of d dctx] d g by (fastforce simp: ctx_ok_def refs')
  moreover have "grp_ok ?s b gb" if b: "grps ?s b = Some gb" for b gb
  proof (cases "b = a")
    case True
    with b i(6) [OF g] xs objs show ?thesis by (auto simp: grp_ok_def refs') blast
  next
    case False
    with b have "grps s b = Some gb" by simp
    from i(6) [OF this] show ?thesis by (auto simp: grp_ok_def refs')
  qed
  moreover have "fresh_ok ?s" "typed_ok ?s" using i(3,4) by (auto simp: fresh_ok_def typed_ok_def refs')
  moreover have "opaque_inv ?s" "opaque_map ?s \<noteq> None"
    using i(1,2) opaque_inv_cong [of ?s s] inv by (auto simp: group_inv_def)
  ultimately show ?thesis unfolding group_inv_def by blast
qed

lemma group_insert_obj_ok:
  assumes inv: "group_inv s" and g: "grps s a = Some g" and ob: "has_type s ob OPAQUE_OBJECT"
  obtains xs where "group_insert_obj a ob s = Some (True, s\<lparr>grps := (grps s)(a \<mapsto> g\<lparr>grp_list := xs\<rparr>)\<rparr>)"
    "strict_sorted_list xs" "set xs = insert ob (set (grp_list g))"
    "group_inv (s\<lparr>grps := (grps s)(a \<mapsto> g\<lparr>grp_list := xs\<rparr>)\<rparr>)"
proof (cases "g_sequence_lookup (grp_list g) ob")
  case None
  note i = group_invD [OF inv]
  from i(6) [OF g] have ok: "strict_sorted_list (grp_list g)" "grp_stat_list g = []"
    "\<forall>x \<in> set (grp_list g). has_type s x OPAQUE_OBJECT" by (auto simp: grp_ok_def)
  let ?xs = "g_sequence_insert_sorted (grp_list g) ob"
  from None have new: "ob \<notin> set (grp_list g)" by (simp add: g_sequence_lookup_None)
  note ins = gs.insert_new [OF ok(1) new]
  moreover have "group_insert_obj a ob s = Some (True, s\<lparr>grps := (grps s)(a \<mapsto> g\<lparr>grp_list := ?xs\<rparr>)\<rparr>)"
    using None g ok(2) by (simp add: group_insert_obj_def group_invalidate_statistics_def)
  ultimately show ?thesis
    using that group_inv_set_list [OF inv g] ok(3) ob by simp
next
  case (Some j)
  note i = group_invD [OF inv]
  have mem: "ob \<in> set (grp_list g)"
    using Some g_sequence_lookup_Some [OF Some] nth_mem by auto
  have same: "s\<lparr>grps := (grps s)(a \<mapsto> g\<lparr>grp_list := grp_list g\<rparr>)\<rparr> = s"
    using g by (simp add: map_upd_triv)
  have "strict_sorted_list (grp_list g)" using i(6) [OF g] by (simp add: grp_ok_def)
  moreover have "group_insert_obj a ob s = Some (True, s)"
    using Some g by (simp add: group_insert_obj_def)
  ultimately show ?thesis
    using that [of "grp_list g"] mem inv unfolding same by (simp add: insert_absorb)
qed

lemma group_remove_obj_ok:
  assumes inv: "group_inv s" and g: "grps s a = Some g"
  obtains xs where "group_remove_obj a ob s = Some (True, s\<lparr>grps := (grps s)(a \<mapsto> g\<lparr>grp_list := xs\<rparr>)\<rparr>)"
    "strict_sorted_list xs" "set xs = set (grp_list g) - {ob}"
    "group_inv (s\<lparr>grps := (grps s)(a \<mapsto> g\<lparr>grp_list := xs\<rparr>)\<rparr>)"
proof (cases "g_sequence_lookup (grp_list g) ob")
  case (Some j)
  note i = group_invD [OF inv]
  from i(6) [OF g] have ok: "strict_sorted_list (grp_list g)" "grp_stat_list g = []"
    "\<forall>x \<in> set (grp_list g). has_type s x OPAQUE_OBJECT" by (auto simp: grp_ok_def)
  let ?xs = "g_sequence_remove (grp_list g) j"
  note rem = gs.remove_found [OF ok(1) Some]
  moreover have "group_remove_obj a ob s = Some (True, s\<lparr>grps := (grps s)(a \<mapsto> g\<lparr>grp_list := ?xs\<rparr>)\<rparr>)"
    using Some g ok(2) by (simp add: group_remove_obj_def group_invalidate_statistics_def)
  ultimately show ?thesis
    using that group_inv_set_list [OF inv g] ok(3) by simp
next
  case None
  note i = group_invD [OF inv]
  have same: "s\<lparr>grps := (grps s)(a \<mapsto> g\<lparr>grp_list := grp_list g\<rparr>)\<rparr> = s"
    using g by (simp add: map_upd_triv)
  have "strict_sorted_list (grp_list g)" using i(6) [OF g] by (simp add: grp_ok_def)
  moreover have "group_remove_obj a ob s = Some (True, s)"
    using None g by (simp add: group_remove_obj_def)
  moreover have "ob \<notin> set (grp_list g)" using None by (simp add: g_sequence_lookup_None)
  ultimately show ?thesis
    using that [of "grp_list g"] inv unfolding same by simp
qed

end
