(* ===== verification/Group_Spec.thy ===== *)
theory Group_Spec
  imports Group_Inv
begin

text \<open>
  The abstract specification of the group interface and the refinement theorem. Seen from
  outside, the library is a map from group handles to sets of objects. \<open>grp_spec\<close> says
  what each call may answer and how it changes that map; the refinement theorem at the end
  says that in every state that satisfies the invariant, every call with usable handles
  returns, keeps the invariant and behaves as the specification says. A handle is usable
  unless one of its keys is zero and a draw of zero has left an entry under that key.
\<close>

subsection \<open>Abstract state and calls\<close>

record spec =
  sp_groups :: "key \<rightharpoonup> addr set"
  sp_objs :: "key \<rightharpoonup> addr"
  sp_ctxs :: "key set"

datatype binop = Union | Intersection | Difference | SymDifference

datatype grp_call =
    GrpCreate key
  | GrpDestroy key
  | GrpDuplicate key
  | GrpAddObj key key
  | GrpRemoveObj key key
  | GrpGetNumObjs key
  | GrpGetObjByIndx key int
  | GrpCombine binop key key

fun binop_set :: "binop \<Rightarrow> addr set \<Rightarrow> addr set \<Rightarrow> addr set" where
  "binop_set Union = (\<union>)"
| "binop_set Intersection = (\<inter>)"
| "binop_set Difference = (-)"
| "binop_set SymDifference = set_sym_diff"

abbreviation "ck \<equiv> OPAQUE_GET_CONTEXT_KEY"
abbreviation "dk \<equiv> OPAQUE_GET_DATA_KEY"

text \<open>A new handle in the context of an existing one, with the given members.\<close>

definition adds_group :: "key \<Rightarrow> addr set \<Rightarrow> spec \<Rightarrow> key \<Rightarrow> spec \<Rightarrow> bool" where
  "adds_group h A S h' S' \<longleftrightarrow>
     sp_groups S h' = None \<and> ck h' = ck h \<and> S' = S\<lparr>sp_groups := (sp_groups S)(h' \<mapsto> A)\<rparr>"

inductive grp_spec :: "spec \<Rightarrow> grp_call \<Rightarrow> int \<Rightarrow> key option \<Rightarrow> spec \<Rightarrow> bool" where
  create: "ck h = dk h \<Longrightarrow> ck h \<in> sp_ctxs S \<Longrightarrow> adds_group h {} S h' S' \<Longrightarrow>
    grp_spec S (GrpCreate h) PWR_RET_SUCCESS (Some h') S'"
| create_bad: "ck h \<noteq> dk h \<or> ck h \<notin> sp_ctxs S \<Longrightarrow>
    grp_spec S (GrpCreate h) PWR_RET_FAILURE None S"
| destroy: "sp_groups S h \<noteq> None \<Longrightarrow>
    grp_spec S (GrpDestroy h) PWR_RET_SUCCESS None (S\<lparr>sp_groups := (sp_groups S)(h := None)\<rparr>)"
| destroy_bad: "sp_groups S h = None \<Longrightarrow> grp_spec S (GrpDestroy h) PWR_RET_FAILURE None S"
| duplicate: "sp_groups S h = Some A \<Longrightarrow> adds_group h A S h' S' \<Longrightarrow>
    grp_spec S (GrpDuplicate h) PWR_RET_SUCCESS (Some h') S'"
| duplicate_bad: "sp_groups S h = None \<Longrightarrow> grp_spec S (GrpDuplicate h) PWR_RET_FAILURE None S"
| add: "ck ob = ck h \<Longrightarrow> sp_groups S h = Some A \<Longrightarrow> sp_objs S (dk ob) = Some x \<Longrightarrow>
    grp_spec S (GrpAddObj h ob) PWR_RET_SUCCESS None (S\<lparr>sp_groups := (sp_groups S)(h \<mapsto> insert x A)\<rparr>)"
| add_bad: "ck ob \<noteq> ck h \<or> sp_groups S h = None \<or> sp_objs S (dk ob) = None \<Longrightarrow>
    grp_spec S (GrpAddObj h ob) PWR_RET_FAILURE None S"
| remove: "ck ob = ck h \<Longrightarrow> sp_groups S h = Some A \<Longrightarrow> sp_objs S (dk ob) = Some x \<Longrightarrow>
    grp_spec S (GrpRemoveObj h ob) PWR_RET_SUCCESS None (S\<lparr>sp_groups := (sp_groups S)(h \<mapsto> A - {x})\<rparr>)"
| remove_bad: "ck ob \<noteq> ck h \<or> sp_groups S h = None \<or> sp_objs S (dk ob) = None \<Longrightarrow>
    grp_spec S (GrpRemoveObj h ob) PWR_RET_FAILURE None S"
| num: "sp_groups S h = Some A \<Longrightarrow> grp_spec S (GrpGetNumObjs h) (int (card A)) None S"
| num_bad: "sp_groups S h = None \<Longrightarrow> grp_spec S (GrpGetNumObjs h) PWR_RET_FAILURE None S"
| indx: "sp_groups S h = Some A \<Longrightarrow> 0 \<le> i \<Longrightarrow> nat i < card A \<Longrightarrow> ck ob = ck h \<Longrightarrow>
    sp_objs S (dk ob) = Some (sorted_list_of_set A ! nat i) \<Longrightarrow>
    grp_spec S (GrpGetObjByIndx h i) PWR_RET_SUCCESS (Some ob) S"
| indx_negative: "i < 0 \<Longrightarrow> grp_spec S (GrpGetObjByIndx h i) PWR_RET_BAD_INDEX None S"
| indx_past_end: "sp_groups S h = Some A \<Longrightarrow> 0 \<le> i \<Longrightarrow> card A \<le> nat i \<Longrightarrow>
    grp_spec S (GrpGetObjByIndx h i) PWR_RET_NO_OBJ_AT_INDEX None S"
| indx_bad: "0 \<le> i \<Longrightarrow> sp_groups S h = None \<Longrightarrow>
    grp_spec S (GrpGetObjByIndx h i) PWR_RET_FAILURE None S"
| combine: "ck h1 = ck h2 \<Longrightarrow> sp_groups S h1 = Some A \<Longrightarrow> sp_groups S h2 = Some B \<Longrightarrow>
    adds_group h1 (binop_set b A B) S h' S' \<Longrightarrow>
    grp_spec S (GrpCombine b h1 h2) PWR_RET_SUCCESS (Some h') S'"
| combine_bad: "ck h1 \<noteq> ck h2 \<or> sp_groups S h1 = None \<or> sp_groups S h2 = None \<Longrightarrow>
    grp_spec S (GrpCombine b h1 h2) PWR_RET_FAILURE None S"

fun call_handles :: "grp_call \<Rightarrow> key list" where
  "call_handles (GrpCreate h) = [h]"
| "call_handles (GrpDestroy h) = [h]"
| "call_handles (GrpDuplicate h) = [h]"
| "call_handles (GrpAddObj h ob) = [h, ob]"
| "call_handles (GrpRemoveObj h ob) = [h, ob]"
| "call_handles (GrpGetNumObjs h) = [h]"
| "call_handles (GrpGetObjByIndx h i) = [h]"
| "call_handles (GrpCombine b h1 h2) = [h1, h2]"

definition call_ok :: "lib \<Rightarrow> grp_call \<Rightarrow> bool" where
  "call_ok s c \<longleftrightarrow> (\<forall>h \<in> set (call_handles c). dkey_ok s h \<and> ckey_ok s h)"

subsection \<open>The library as the specification sees it\<close>

text \<open>No structure is known under key zero, even where a draw of zero has left an entry.\<close>

definition group_at :: "lib \<Rightarrow> key \<Rightarrow> addr option" where
  "group_at s h =
     (if dk h = 0 then None else case find_group_by_opaque h s of None \<Rightarrow> None | Some res \<Rightarrow> res)"

definition group_view :: "lib \<Rightarrow> key \<Rightarrow> addr set option" where
  "group_view s h = (case group_at s h of None \<Rightarrow> None
     | Some a \<Rightarrow> map_option (\<lambda>g. set (grp_list g)) (grps s a))"

definition object_view :: "lib \<Rightarrow> key \<Rightarrow> addr option" where
  "object_view s k = (if k = 0 then None else case lookup_object s k of None \<Rightarrow> None | Some res \<Rightarrow> res)"

definition context_view :: "lib \<Rightarrow> key set" where
  "context_view s = {k. k \<noteq> 0 \<and> (\<exists>c. lookup_context s k = Some (Some c))}"

definition abs_lib :: "lib \<Rightarrow> spec" where
  "abs_lib s = \<lparr>sp_groups = group_view s, sp_objs = object_view s, sp_ctxs = context_view s\<rparr>"

definition no_handle :: "int \<times> lib \<Rightarrow> int \<times> key option \<times> lib" where
  "no_handle = (\<lambda>(ret, s). (ret, None, s))"

definition with_state :: "lib \<Rightarrow> int \<times> key option \<Rightarrow> int \<times> key option \<times> lib" where
  "with_state s = (\<lambda>(ret, h). (ret, h, s))"

fun binop_call :: "binop \<Rightarrow> key \<Rightarrow> key \<Rightarrow> lib \<Rightarrow> (int \<times> key option \<times> lib) option" where
  "binop_call Union = PWR_GrpUnion"
| "binop_call Intersection = PWR_GrpIntersection"
| "binop_call Difference = PWR_GrpDifference"
| "binop_call SymDifference = PWR_GrpSymDifference"

fun exec_call :: "grp_call \<Rightarrow> lib \<Rightarrow> (int \<times> key option \<times> lib) option" where
  "exec_call (GrpCreate h) s = PWR_GrpCreate h s"
| "exec_call (GrpDestroy h) s = map_option no_handle (PWR_GrpDestroy h s)"
| "exec_call (GrpDuplicate h) s = PWR_GrpDuplicate h s"
| "exec_call (GrpAddObj h ob) s = map_option no_handle (PWR_GrpAddObj h ob s)"
| "exec_call (GrpRemoveObj h ob) s = map_option no_handle (PWR_GrpRemoveObj h ob s)"
| "exec_call (GrpGetNumObjs h) s = map_option (\<lambda>n. (n, None, s)) (PWR_GrpGetNumObjs h s)"
| "exec_call (GrpGetObjByIndx h i) s = map_option (with_state s) (PWR_GrpGetObjByIndx h i s)"
| "exec_call (GrpCombine b h1 h2) s = binop_call b h1 h2 s"

subsection \<open>How the view changes\<close>

lemma group_viewD:
  assumes "group_inv s" "group_view s h = Some A"
  obtains a g where "find_group_by_opaque h s = Some (Some a)" "grps s a = Some g" "A = set (grp_list g)"
    "grp_context_key g = ck h" "key_at s a = dk h" "has_type s a OPAQUE_GROUP" "dkey_ok s h"
proof -
  from assms(2) obtain a g where a: "find_group_by_opaque h s = Some (Some a)" "grps s a = Some g" "A = set (grp_list g)"
    and "dk h \<noteq> 0"
    by (auto simp: group_view_def group_at_def split: option.splits if_splits)
  then have "dkey_ok s h" by (simp add: dkey_ok_def)
  from find_groupD [OF assms(1) a(1) this] this a that show ?thesis by (metis option.inject)
qed

lemma find_group_nonzero:
  assumes "group_inv s" "find_group_by_opaque h s = Some (Some a)" "dkey_ok s h"
  shows "dk h \<noteq> 0"
  using find_groupD [OF assms] by (metis has_type_def key_at_def option.simps(5))

lemma group_view_None:
  assumes "group_inv s" "group_view s h = None" "dkey_ok s h"
  shows "find_group_by_opaque h s = Some None"
proof -
  obtain res where res: "find_group_by_opaque h s = Some res" using find_group_total [OF assms(1,3)] by blast
  have "dk h \<noteq> 0" if "res = Some a" for a
    using find_group_nonzero [OF assms(1)] res that assms(3) by metis
  with res assms show ?thesis
    by (cases res) (auto simp: group_view_def group_at_def elim!: find_groupD)
qed

lemma group_view_eq:
  assumes "find_group_by_opaque h s = Some (Some a)" "grps s a = Some g" "dk h \<noteq> 0"
  shows "group_view s h = Some (set (grp_list g))"
  using assms by (simp add: group_view_def group_at_def)

lemma handle_of_group:
  assumes "grp_context_key g = ck h" "key_at s a = dk h"
  shows "OPAQUE_GENERATE (grp_context_key g) (key_at s a) = h"
  using assms by (simp add: key_simps)

text \<open>Two handles resolve to the same group only if they are equal.\<close>

lemma group_handle_unique:
  assumes inv: "group_inv s" and "find_group_by_opaque h s = Some (Some a)"
    "find_group_by_opaque h' s = Some (Some a)" "dkey_ok s h" "dkey_ok s h'"
  shows "h = h'"
proof -
  from find_groupD [OF inv assms(2,4)] obtain g where "grps s a = Some g" "grp_context_key g = ck h" "key_at s a = dk h" by metis
  moreover from find_groupD [OF inv assms(3,5)] obtain g' where "grps s a = Some g'" "grp_context_key g' = ck h'" "key_at s a = dk h'" by metis
  ultimately show ?thesis by (metis generate_keys option.inject)
qed

lemma abs_set_list:
  assumes inv: "group_inv s" and h: "find_group_by_opaque h s = Some (Some a)" "dkey_ok s h" and g: "grps s a = Some g"
  shows "abs_lib (s\<lparr>grps := (grps s)(a \<mapsto> g\<lparr>grp_list := xs\<rparr>)\<rparr>) =
    (abs_lib s)\<lparr>sp_groups := (group_view s)(h \<mapsto> set xs)\<rparr>"
proof -
  let ?s = "s\<lparr>grps := (grps s)(a \<mapsto> g\<lparr>grp_list := xs\<rparr>)\<rparr>"
  have look: "opaque_map_lookup_type ?s k t = opaque_map_lookup_type s k t" for k t
    by (rule lookup_type_cong) (simp_all add: opaque_map_lookup_def)
  have find: "find_group_by_opaque h' ?s = find_group_by_opaque h' s" for h'
    by (rule find_group_cong) (use g in \<open>simp_all add: lookup_group_def look\<close>)
  have "group_view ?s h' = ((group_view s)(h \<mapsto> set xs)) h'" for h'
  proof (cases "h' = h")
    case True
    with h find find_group_nonzero [OF inv h] show ?thesis by (simp add: group_view_def group_at_def)
  next
    case False
    then have "dk h' \<noteq> 0 \<Longrightarrow> find_group_by_opaque h' s \<noteq> Some (Some a)"
      using group_handle_unique [OF inv h(1) _ h(2), of h'] by (auto simp: dkey_ok_def)
    with False find show ?thesis by (auto simp: group_view_def group_at_def split: option.splits)
  qed
  then show ?thesis
    by (simp add: abs_lib_def fun_eq_iff object_view_def context_view_def lookup_object_def lookup_context_def look)
qed

text \<open>What the creation of a group changes in the handle map.\<close>

lemma new_group_lookups:
  assumes inv: "group_inv s" and ctx: "ctxs s c = Some ctx" and post: "after_new_group c ctx k s s'"
  shows "key32 k" "refs s (next_addr s) = None"
    "\<And>k' t. k' \<noteq> 0 \<Longrightarrow> k' \<noteq> k \<or> t \<noteq> OPAQUE_GROUP \<Longrightarrow> opaque_map_lookup_type s' k' t = opaque_map_lookup_type s k' t"
    "opaque_map_lookup_type s' k OPAQUE_GROUP = Some (Some (next_addr s))"
    "opaque_map_lookup_type s k OPAQUE_GROUP = Some None"
proof -
  let ?a = "next_addr s"
  note i = group_invD [OF inv]
  from post have refs': "refs s' = (refs s)(?a \<mapsto> \<lparr>ref_type = OPAQUE_GROUP, ref_key = k\<rparr>)"
    and look: "\<And>k'. k' \<noteq> 0 \<Longrightarrow> opaque_map_lookup s' k' = (if k' = k then Some ?a else opaque_map_lookup s k')"
    and new: "opaque_map_lookup s k = None" and inv': "opaque_inv s'" and k: "k \<noteq> 0"
    by (simp_all add: after_new_group_def Let_def)
  show free: "refs s ?a = None" using i(3) by (simp add: fresh_ok_def)
  have old: "opaque_map_lookup s k' = Some b \<Longrightarrow> k' \<noteq> 0 \<Longrightarrow> b \<noteq> ?a" for k' b
    using opaque_invD [OF i(1), of k' b] free by (metis option.distinct(1) key_ok_nonzero)
  have "opaque_map_lookup_type s' k' t = opaque_map_lookup_type s k' t" if "k' \<noteq> k" "k' \<noteq> 0" for k' t
    by (rule lookup_type_cong) (use that look old refs' in simp_all)
  moreover have at_k: "opaque_map_lookup_type s' k t = Some (if t = OPAQUE_GROUP then Some ?a else None)"
    "opaque_map_lookup_type s k t = Some None" for t
    using look [OF k] new refs' by (simp_all add: opaque_map_lookup_type_def)
  ultimately show "opaque_map_lookup_type s' k' t = opaque_map_lookup_type s k' t"
    if "k' \<noteq> 0" "k' \<noteq> k \<or> t \<noteq> OPAQUE_GROUP" for k' t
    using that by (cases "k' = k") simp_all
  show "opaque_map_lookup_type s' k OPAQUE_GROUP = Some (Some ?a)"
    "opaque_map_lookup_type s k OPAQUE_GROUP = Some None" using at_k by simp_all
  show "key32 k" using opaque_invD [OF inv', of k ?a] look [OF k] k by auto
qed

lemma abs_new_group:
  assumes inv: "group_inv s" and ctx: "ctxs s c = Some ctx" and post: "after_new_group c ctx k s s'"
  defines "h \<equiv> OPAQUE_GENERATE (key_at s c) k"
  shows "abs_lib s' = (abs_lib s)\<lparr>sp_groups := (group_view s)(h \<mapsto> {})\<rparr>" and "group_view s h = None"
    and "find_group_by_opaque h s' = Some (Some (next_addr s))" and "ck h = key_at s c" and "dk h \<noteq> 0"
proof -
  let ?a = "next_addr s"
  note look = new_group_lookups [OF inv ctx post]
  from post have grps': "grps s' = (grps s)(?a \<mapsto> \<lparr>grp_context_key = key_at s c, grp_link = Some (Suc ?a),
      grp_list = [], grp_stat_list = []\<rparr>)" by (simp add: after_new_group_def Let_def)
  have hk: "ck h = key_at s c" "dk h = k"
    using look(1) key32_key_at [OF group_invD(1) [OF inv], of c] by (simp_all add: h_def key_simps)
  then show "ck h = key_at s c" by simp
  have k: "k \<noteq> 0" using post by (simp add: after_new_group_def Let_def)
  with hk show nz: "dk h \<noteq> 0" by simp
  show fh: "find_group_by_opaque h s' = Some (Some ?a)"
    using look(4) grps' hk by (simp add: find_group_by_opaque_def lookup_group_def Let_def)
  show "group_view s h = None"
    using look(5) hk by (simp add: group_view_def group_at_def find_group_by_opaque_def lookup_group_def Let_def)
  have not_new: "b \<noteq> ?a" if "has_type s b t" for b t using that look(2) by (auto simp: has_type_def)
  have other: "group_view s' h' = group_view s h'" if "dk h' \<noteq> k" for h'
  proof (cases "dk h' = 0")
    case False
    have "find_group_by_opaque h' s' = find_group_by_opaque h' s"
    proof (rule find_group_cong)
      show "lookup_group s' (dk h') = lookup_group s (dk h')" using look(3) [OF False] that by (simp add: lookup_group_def)
      fix b assume "lookup_group s (dk h') = Some (Some b)"
      then have "b \<noteq> ?a"
        using lookup_has_type [OF group_invD(1) [OF inv]] not_new key_ok_nonzero [OF False] by (metis lookup_group_def)
      then show "map_option grp_context_key (grps s' b) = map_option grp_context_key (grps s b)" by (simp add: grps')
    qed
    moreover have "b \<noteq> ?a" if "find_group_by_opaque h' s = Some (Some b)" for b
      using find_groupD [OF inv that] not_new False by (metis dkey_ok_def key_ok_nonzero)
    ultimately show ?thesis using grps' by (auto simp: group_view_def group_at_def split: option.splits)
  qed (simp add: group_view_def group_at_def)
  have "group_view s' h' = ((group_view s)(h \<mapsto> {})) h'" for h'
  proof -
    consider "h' = h" | "h' \<noteq> h" "dk h' = k" | "h' \<noteq> h" "dk h' \<noteq> k" by blast
    then show ?thesis
    proof cases
      case 1
      with fh grps' nz show ?thesis by (simp add: group_view_eq)
    next
      case 2
      with hk have "ck h' \<noteq> key_at s c" by (metis generate_keys)
      with 2 look(4,5) grps' show ?thesis
        by (simp add: group_view_def group_at_def find_group_by_opaque_def lookup_group_def Let_def)
    qed (simp add: other)
  qed
  moreover have "object_view s' = object_view s" "context_view s' = context_view s"
    using look(3) by (auto simp: object_view_def lookup_object_def context_view_def lookup_context_def fun_eq_iff)
  ultimately show "abs_lib s' = (abs_lib s)\<lparr>sp_groups := (group_view s)(h \<mapsto> {})\<rparr>"
    by (simp add: abs_lib_def fun_eq_iff)
qed

lemma del_group_lookups:
  assumes inv: "group_inv s" and a: "has_type s a OPAQUE_GROUP" and post: "after_del_group c ctx a n s s'"
  shows "\<And>k t. k \<noteq> 0 \<Longrightarrow> k \<noteq> key_at s a \<or> t \<noteq> OPAQUE_GROUP \<Longrightarrow> opaque_map_lookup_type s' k t = opaque_map_lookup_type s k t"
    "opaque_map_lookup_type s' (key_at s a) OPAQUE_GROUP = Some None"
proof -
  note i = group_invD [OF inv]
  from post have refs': "refs s' = (refs s)(a := None)"
    and look: "\<And>k. opaque_map_lookup s' k = (if k = key_at s a then None else opaque_map_lookup s k)"
    by (simp_all add: after_del_group_def)
  have other: "b \<noteq> a" if "opaque_map_lookup s k = Some b" "k \<noteq> key_at s a" "k \<noteq> 0" for b k
    using opaque_invD [OF i(1) that(1) key_ok_nonzero [OF that(3)]] that(2) by (metis key_at_def option.simps(5))
  have "opaque_map_lookup_type s' k t = opaque_map_lookup_type s k t" if "k \<noteq> key_at s a" "k \<noteq> 0" for k t
    by (rule lookup_type_cong) (use that look other refs' in auto)
  moreover have "opaque_map_lookup_type s (key_at s a) t = Some None" if "t \<noteq> OPAQUE_GROUP" for t
    using has_type_lookup [OF i(1) a] that
    by (auto simp: opaque_map_lookup_type_def split: option.splits if_splits)
  moreover have gone: "opaque_map_lookup_type s' (key_at s a) t = Some None" for t
    using look by (simp add: opaque_map_lookup_type_def)
  ultimately show "opaque_map_lookup_type s' k t = opaque_map_lookup_type s k t"
    if "k \<noteq> 0" "k \<noteq> key_at s a \<or> t \<noteq> OPAQUE_GROUP" for k t
    using that by (cases "k = key_at s a") simp_all
  show "opaque_map_lookup_type s' (key_at s a) OPAQUE_GROUP = Some None" by (rule gone)
qed

lemma abs_del_group:
  assumes inv: "group_inv s" and h: "find_group_by_opaque h s = Some (Some a)" "dkey_ok s h"
    and post: "after_del_group c ctx a n s s'"
  shows "abs_lib s' = (abs_lib s)\<lparr>sp_groups := (group_view s)(h := None)\<rparr>"
proof -
  note i = group_invD [OF inv]
  from find_groupD [OF inv h] obtain g where g: "grps s a = Some g" "grp_context_key g = ck h"
    "has_type s a OPAQUE_GROUP" "key_at s a = dk h" by metis
  note look = del_group_lookups [OF inv g(3) post]
  from post have grps': "grps s' = (grps s)(a := None)" by (simp add: after_del_group_def)
  have not_a: "b \<noteq> a" if "lookup_group s k = Some (Some b)" "k \<noteq> key_at s a" "k \<noteq> 0" for b k
    using lookup_has_type(2) [OF i(1) _ key_ok_nonzero [OF that(3)]] that by (metis lookup_group_def)
  have "group_view s' h' = ((group_view s)(h := None)) h'" for h'
  proof (cases "dk h' = 0 \<or> dk h' = dk h")
    case True
    then have True: "dk h' = dk h \<or> group_view s' h' = None \<and> group_view s h' = None"
      by (auto simp: group_view_def group_at_def)
    show ?thesis
    proof (cases "dk h' = dk h")
      case False
      with True show ?thesis by auto
    next
      case True
    then have gone: "group_view s' h' = None"
      using look(2) g(4) by (simp add: group_view_def group_at_def find_group_by_opaque_def lookup_group_def Let_def)
    have "group_view s h' = None" if "h' \<noteq> h"
    proof -
      have "ck h' \<noteq> ck h" using True that by (metis generate_keys)
      then show ?thesis using True g has_type_lookup [OF i(1) g(3)]
        by (simp add: group_view_def group_at_def find_group_by_opaque_def lookup_group_def Let_def)
    qed
    with gone show ?thesis by simp
    qed
  next
    case False
    with g(4) have k: "dk h' \<noteq> key_at s a" "dk h' \<noteq> 0" by simp_all
    have "find_group_by_opaque h' s' = find_group_by_opaque h' s"
      by (rule find_group_cong) (use look(1) [OF k(2)] k not_a grps' in \<open>auto simp: lookup_group_def\<close>)
    moreover have "b \<noteq> a" if "find_group_by_opaque h' s = Some (Some b)" for b
      using find_groupD [OF inv that] k by (metis dkey_ok_def key_ok_nonzero)
    ultimately show ?thesis using False grps' by (auto simp: group_view_def group_at_def split: option.splits)
  qed
  moreover have "object_view s' = object_view s" "context_view s' = context_view s"
    using look(1) by (auto simp: object_view_def lookup_object_def context_view_def lookup_context_def fun_eq_iff)
  ultimately show ?thesis by (simp add: abs_lib_def fun_eq_iff)
qed

subsection \<open>Making a group\<close>

text \<open>
  A fill function that stores a strictly sorted list of live objects in the new group makes
  \<^verbatim>\<open>make_group\<close> return a new handle with exactly those members.
\<close>

lemma make_group_refines:
  assumes inv: "group_inv s" and ctx: "ctxs s c = Some ctx" and key: "key_at s c = ck h" and draw: "has_draw s"
    and fill: "\<And>s1 g. grps s1 (next_addr s) = Some g \<Longrightarrow> grp_list g = [] \<Longrightarrow>
      (\<And>b. b \<noteq> next_addr s \<Longrightarrow> grps s1 b = grps s b) \<Longrightarrow>
      fill (next_addr s) s1 = Some (0, s1\<lparr>grps := (grps s1)(next_addr s \<mapsto> g\<lparr>grp_list := xs\<rparr>)\<rparr>)"
    and xs: "strict_sorted_list xs" "\<forall>x \<in> set xs. has_type s x OPAQUE_OBJECT"
  shows "\<exists>h' s'. make_group fill (ck h) c s = Some (PWR_RET_SUCCESS, Some h', s') \<and> group_inv s' \<and>
    adds_group h (set xs) (abs_lib s) h' (abs_lib s')"
proof -
  let ?a = "next_addr s"
  obtain k s1 where new: "context_new_group c s = Some (Some ?a, s1)" and post: "after_new_group c ctx k s s1"
    using context_new_group_result [OF inv ctx draw] by blast
  have inv1: "group_inv s1" by (rule group_inv_new_group [OF inv ctx post])
  note view = abs_new_group [OF inv ctx post]
  let ?h = "OPAQUE_GENERATE (key_at s c) k"
  from post have refs1: "refs s1 = (refs s)(?a \<mapsto> \<lparr>ref_type = OPAQUE_GROUP, ref_key = k\<rparr>)"
    and grps1: "grps s1 = (grps s)(?a \<mapsto> \<lparr>grp_context_key = key_at s c, grp_link = Some (Suc ?a),
      grp_list = [], grp_stat_list = []\<rparr>)" by (simp_all add: after_new_group_def Let_def)
  define g where "g = \<lparr>grp_context_key = key_at s c, grp_link = Some (Suc ?a), grp_list = [], grp_stat_list = []\<rparr>"
  have g: "grps s1 ?a = Some g" by (simp add: grps1 g_def)
  let ?s' = "s1\<lparr>grps := (grps s1)(?a \<mapsto> g\<lparr>grp_list := xs\<rparr>)\<rparr>"
  have "fill ?a s1 = Some (0, ?s')" by (rule fill [OF g]) (simp_all add: g_def grps1)
  then have "make_group fill (ck h) c s = Some (PWR_RET_SUCCESS, Some ?h, ?s')"
    using new refs1 key by (simp add: make_group_def)
  moreover have "\<forall>x \<in> set xs. has_type s1 x OPAQUE_OBJECT"
    using xs(2) new_group_lookups(2) [OF inv ctx post] by (auto simp: has_type_def refs1)
  then have "group_inv ?s'" by (rule group_inv_set_list [OF inv1 g xs(1)])
  moreover have "abs_lib ?s' = (abs_lib s1)\<lparr>sp_groups := (group_view s1)(?h \<mapsto> set xs)\<rparr>"
    by (rule abs_set_list [OF inv1 view(3) _ g]) (simp add: dkey_ok_def view(5))
  then have "abs_lib ?s' = (abs_lib s)\<lparr>sp_groups := (group_view s)(?h \<mapsto> set xs)\<rparr>"
    using view(1) by (simp add: abs_lib_def)
  then have "adds_group h (set xs) (abs_lib s) ?h (abs_lib ?s')"
    using view(2,4) key by (simp add: adds_group_def abs_lib_def)
  ultimately show ?thesis by blast
qed

subsection \<open>Each call refines the specification\<close>

text \<open>A valid group handle also resolves to the context that owns the group.\<close>

lemma group_contextE:
  assumes inv: "group_inv s" and h: "find_group_by_opaque h s = Some (Some a)" "dkey_ok s h"
  obtains c ctx g n where "find_context_by_opaque h s = Some (Some c)" "ctxs s c = Some ctx" "key_at s c = ck h"
    "grps s a = Some g" "grp_link g = Some n" "(n, a) \<in> set (ctx_group_list ctx)" "grp_ok s a g"
proof -
  note i = group_invD [OF inv]
  from find_groupD [OF inv h] obtain g where g: "grps s a = Some g" "grp_context_key g = ck h" by metis
  from i(6) [OF g(1)] obtain c ctx n where c: "ctxs s c = Some ctx" "key_at s c = ck h" "grp_link g = Some n"
    "(n, a) \<in> set (ctx_group_list ctx)" using g(2) by (auto simp: grp_ok_def)
  from i(5) [OF c(1)] have t: "has_type s c OPAQUE_CONTEXT" by (simp add: ctx_ok_def)
  then obtain r where r: "refs s c = Some r" "ref_key r = ck h" using c(2) by (auto simp: has_type_def key_at_def)
  have "dk (ck h) = ck h" using key32_context_key [of h] by (simp add: OPAQUE_GET_DATA_KEY_def key32_def ac_simps)
  then have "find_context_by_opaque h s = Some (Some c)"
    using has_type_lookup [OF i(1) t] c(2) r by (simp add: find_context_by_opaque_def lookup_context_def Let_def)
  then show ?thesis using that c g i(6) by blast
qed

definition refines :: "lib \<Rightarrow> grp_call \<Rightarrow> bool" where
  "refines s c \<longleftrightarrow> (\<exists>r h s'. exec_call c s = Some (r, h, s') \<and> group_inv s' \<and>
     grp_spec (abs_lib s) c r h (abs_lib s'))"

lemma refinesI:
  "exec_call c s = Some (r, h, s') \<Longrightarrow> group_inv s' \<Longrightarrow> grp_spec (abs_lib s) c r h (abs_lib s') \<Longrightarrow> refines s c"
  unfolding refines_def by blast

lemma abs_lib_sel [simp]:
  "sp_groups (abs_lib s) = group_view s" "sp_objs (abs_lib s) = object_view s" "sp_ctxs (abs_lib s) = context_view s"
  by (simp_all add: abs_lib_def)

text \<open>A call that makes a group returns only if the generator produces a usable key.\<close>

lemma new_group_needs_draw:
  assumes inv: "group_inv s" and ret: "context_new_group c s \<noteq> None"
  shows "has_draw s"
proof -
  let ?a = "next_addr s"
  let ?s1 = "s\<lparr>next_addr := Suc ?a, refs := (refs s)(?a \<mapsto> zero_ref), grps := (grps s)(?a \<mapsto> zero_group)\<rparr>"
  have m: "opaque_map s \<noteq> None" using inv by (simp add: group_inv_def)
  from ret obtain k s2 where ins: "opaque_map_insert OPAQUE_GROUP ?a ?s1 = Some (k, s2)"
    by (auto simp: context_new_group_def new_group_def alloc_group_def alloc_ref_def Let_def)
  then obtain m r res where "opaque_map s = Some m" "opaque_map_insert_loop (rand_seq m) (table m) r OPAQUE_GROUP ?a = Some res"
    using m by (auto simp: opaque_map_insert_def split: option.splits)
  with insert_loop_sound show ?thesis unfolding has_draw_def by (fastforce simp: insert_loop_post_def)
qed

lemma make_group_needs_draw:
  "group_inv s \<Longrightarrow> make_group fill k c s \<noteq> None \<Longrightarrow> has_draw s"
  using new_group_needs_draw by (fastforce simp: make_group_def)

lemma create_refines:
  assumes inv: "group_inv s" and draw: "has_draw s \<or> exec_call (GrpCreate h) s \<noteq> None" and h: "ckey_ok s h"
  shows "refines s (GrpCreate h)"
proof -
  note h = h [unfolded ckey_ok_def]
  obtain res where res: "lookup_context s (ck h) = Some res"
    using lookup_total [OF group_invD(1) [OF inv] h] by (auto simp: lookup_context_def)
  have nz: "res \<noteq> None \<Longrightarrow> ck h \<noteq> 0"
    using res h by (auto simp: lookup_context_def opaque_map_lookup_type_def key_ok_def split: option.splits)
  show ?thesis
  proof (cases "ck h = dk h \<and> res \<noteq> None")
    case False
    then have "exec_call (GrpCreate h) s = Some (PWR_RET_FAILURE, None, s)"
      using res by (auto simp: PWR_GrpCreate_def Let_def)
    moreover have "ck h \<noteq> dk h \<or> ck h \<notin> context_view s" using False res by (auto simp: context_view_def)
    ultimately show ?thesis using inv by (auto intro!: refinesI grp_spec.create_bad)
  next
    case True
    then obtain c where c: "res = Some c" "ck h = dk h" by blast
    with res inv h obtain ctx where ctx: "ctxs s c = Some ctx" "key_at s c = ck h" "has_type s c OPAQUE_CONTEXT"
      by (metis lookup_contextD)
    have "has_draw s" using draw new_group_needs_draw [OF inv, of c] res c by (fastforce simp: PWR_GrpCreate_def Let_def)
    then obtain k s1 where new: "context_new_group c s = Some (Some (next_addr s), s1)" and post: "after_new_group c ctx k s s1"
      using context_new_group_result [OF inv ctx(1)] by blast
    note view = abs_new_group [OF inv ctx(1) post]
    have "c \<noteq> next_addr s" using ctx(3) new_group_lookups(2) [OF inv ctx(1) post] by (auto simp: has_type_def)
    then obtain rc where "refs s1 c = Some rc" "ref_key rc = key_at s c"
      "refs s1 (next_addr s) = Some \<lparr>ref_type = OPAQUE_GROUP, ref_key = k\<rparr>"
      using ctx(3) post by (auto simp: has_type_def key_at_def after_new_group_def Let_def)
    then have "exec_call (GrpCreate h) s = Some (PWR_RET_SUCCESS, Some (OPAQUE_GENERATE (key_at s c) k), s1)"
      using res c new by (simp add: PWR_GrpCreate_def Let_def)
    moreover have "group_inv s1" by (rule group_inv_new_group [OF inv ctx(1) post])
    moreover have "ck h \<in> context_view s" using res c nz by (auto simp: context_view_def)
    moreover have "adds_group h {} (abs_lib s) (OPAQUE_GENERATE (key_at s c) k) (abs_lib s1)"
      using view ctx(2) by (simp add: adds_group_def)
    ultimately show ?thesis using c(2) by (auto intro!: refinesI grp_spec.create)
  qed
qed

lemma destroy_refines:
  assumes inv: "group_inv s" and hk: "dkey_ok s h"
  shows "refines s (GrpDestroy h)"
proof (cases "group_view s h")
  case None
  with group_view_None [OF inv _ hk] inv show ?thesis
    by (auto simp: PWR_GrpDestroy_def no_handle_def intro!: refinesI grp_spec.destroy_bad)
next
  case (Some A)
  with inv obtain a where h: "find_group_by_opaque h s = Some (Some a)" by (rule group_viewD)
  from inv h hk obtain c ctx g n where c: "find_context_by_opaque h s = Some (Some c)" "ctxs s c = Some ctx"
    "grps s a = Some g" "grp_link g = Some n" "(n, a) \<in> set (ctx_group_list ctx)" by (rule group_contextE)
  obtain s' where del: "context_del_group c a s = Some s'" and post: "after_del_group c ctx a n s s'"
    using context_del_group_result [OF inv c(2-5)] by blast
  have "exec_call (GrpDestroy h) s = Some (PWR_RET_SUCCESS, None, s')"
    using h c(1) del by (simp add: PWR_GrpDestroy_def no_handle_def)
  moreover have "grp_spec (abs_lib s) (GrpDestroy h) PWR_RET_SUCCESS None (abs_lib s')"
    using grp_spec.destroy [of "abs_lib s" h] Some abs_del_group [OF inv h hk post] by simp
  ultimately show ?thesis using group_inv_del_group [OF inv c(2-5) post] refinesI by blast
qed

lemma duplicate_refines:
  assumes inv: "group_inv s" and draw: "has_draw s \<or> exec_call (GrpDuplicate h) s \<noteq> None" and hk: "dkey_ok s h"
  shows "refines s (GrpDuplicate h)"
proof (cases "group_view s h")
  case None
  with group_view_None [OF inv _ hk] inv show ?thesis
    by (auto simp: PWR_GrpDuplicate_def intro!: refinesI grp_spec.duplicate_bad)
next
  case (Some A)
  with inv obtain a g where h: "find_group_by_opaque h s = Some (Some a)" "grps s a = Some g" "A = set (grp_list g)"
    by (rule group_viewD)
  from inv h(1) hk obtain c ctx where c: "find_context_by_opaque h s = Some (Some c)" "ctxs s c = Some ctx" "key_at s c = ck h"
    and ok: "grp_ok s a g" by (rule group_contextE) (use h(2) in auto)
  have ne: "a \<noteq> next_addr s" using ok group_invD(3) [OF inv] by (auto simp: grp_ok_def has_type_def fresh_ok_def)
  have "has_draw s" using draw make_group_needs_draw [OF inv, of "group_copy a" "ck h" c] h(1) c(1)
    by (auto simp: PWR_GrpDuplicate_def)
  then obtain h' s' where "make_group (group_copy a) (ck h) c s = Some (PWR_RET_SUCCESS, Some h', s')" "group_inv s'"
    "adds_group h (set (grp_list g)) (abs_lib s) h' (abs_lib s')"
    using make_group_refines [OF inv c(2,3), of "group_copy a" "grp_list g"] ok ne h(2)
    by (auto simp: group_copy_def grp_ok_def)
  then show ?thesis using h c Some
    by (auto simp: PWR_GrpDuplicate_def intro!: refinesI grp_spec.duplicate)
qed

text \<open>Adding and removing share the checks; only the member operation differs.\<close>

lemma member_op_refines:
  assumes inv: "group_inv s"
    and call: "exec_call c s = map_option no_handle (grp_member_op f h ob s)"
    and bad: "\<And>S. ck ob \<noteq> ck h \<or> sp_groups S h = None \<or> sp_objs S (dk ob) = None \<Longrightarrow> grp_spec S c PWR_RET_FAILURE None S"
    and good: "\<And>S A x. ck ob = ck h \<Longrightarrow> sp_groups S h = Some A \<Longrightarrow> sp_objs S (dk ob) = Some x \<Longrightarrow>
      grp_spec S c PWR_RET_SUCCESS None (S\<lparr>sp_groups := (sp_groups S)(h \<mapsto> F x A)\<rparr>)"
    and f: "\<And>a g x. grps s a = Some g \<Longrightarrow> has_type s x OPAQUE_OBJECT \<Longrightarrow>
      \<exists>xs. f a x s = Some (True, s\<lparr>grps := (grps s)(a \<mapsto> g\<lparr>grp_list := xs\<rparr>)\<rparr>) \<and> set xs = F x (set (grp_list g)) \<and>
        group_inv (s\<lparr>grps := (grps s)(a \<mapsto> g\<lparr>grp_list := xs\<rparr>)\<rparr>)"
    and hk: "dkey_ok s h" and obk: "dkey_ok s ob"
  shows "refines s c"
proof -
  note obk = obk [unfolded dkey_ok_def]
  obtain res where res: "lookup_object s (dk ob) = Some res"
    using lookup_total [OF group_invD(1) [OF inv] obk] by (auto simp: lookup_object_def)
  then have ov: "object_view s (dk ob) = res"
    using obk by (auto simp: object_view_def key_ok_def lookup_object_def opaque_map_lookup_type_def)
  show ?thesis
  proof (cases "ck ob \<noteq> ck h \<or> group_view s h = None \<or> res = None")
    case True
    then have "exec_call c s = Some (PWR_RET_FAILURE, None, s)"
      using res group_view_None [OF inv _ hk] find_group_total [OF inv hk]
      by (auto simp: call grp_member_op_def Let_def no_handle_def split: option.splits)
    with True bad ov inv show ?thesis by (auto intro!: refinesI)
  next
    case False
    then obtain A x where A: "group_view s h = Some A" "res = Some x" "ck ob = ck h" by auto
    with inv obtain a g where h: "find_group_by_opaque h s = Some (Some a)" "grps s a = Some g" "A = set (grp_list g)"
      by (metis group_viewD)
    have "has_type s x OPAQUE_OBJECT"
      using res A(2) lookup_has_type(1) [OF group_invD(1) [OF inv] _ obk] by (auto simp: lookup_object_def)
    with f [OF h(2)] obtain xs where xs: "f a x s = Some (True, s\<lparr>grps := (grps s)(a \<mapsto> g\<lparr>grp_list := xs\<rparr>)\<rparr>)"
      "set xs = F x A" "group_inv (s\<lparr>grps := (grps s)(a \<mapsto> g\<lparr>grp_list := xs\<rparr>)\<rparr>)" using h(3) by blast
    then have "exec_call c s = Some (PWR_RET_SUCCESS, None, s\<lparr>grps := (grps s)(a \<mapsto> g\<lparr>grp_list := xs\<rparr>)\<rparr>)"
      using A res h by (simp add: call grp_member_op_def Let_def no_handle_def)
    moreover have "grp_spec (abs_lib s) c PWR_RET_SUCCESS None (abs_lib (s\<lparr>grps := (grps s)(a \<mapsto> g\<lparr>grp_list := xs\<rparr>)\<rparr>))"
      using good [of "abs_lib s" A x] A ov xs(2) by (simp add: abs_set_list [OF inv h(1) hk h(2)])
    ultimately show ?thesis using xs(3) refinesI by blast
  qed
qed

lemma add_refines:
  assumes "group_inv s" "dkey_ok s h" "dkey_ok s ob" shows "refines s (GrpAddObj h ob)"
  by (rule member_op_refines [where f = group_insert_obj and F = insert, OF assms(1) _ _ _ _ assms(2,3)])
    (auto simp: PWR_GrpAddObj_def intro!: grp_spec.add grp_spec.add_bad elim!: group_insert_obj_ok [OF assms(1)])

lemma remove_refines:
  assumes "group_inv s" "dkey_ok s h" "dkey_ok s ob" shows "refines s (GrpRemoveObj h ob)"
  by (rule member_op_refines [where f = group_remove_obj and F = "\<lambda>x A. A - {x}", OF assms(1) _ _ _ _ assms(2,3)])
    (auto simp: PWR_GrpRemoveObj_def intro!: grp_spec.remove grp_spec.remove_bad elim!: group_remove_obj_ok [OF assms(1)])

lemma num_refines:
  assumes inv: "group_inv s" and hk: "dkey_ok s h" shows "refines s (GrpGetNumObjs h)"
proof (cases "group_view s h")
  case None
  with group_view_None [OF inv _ hk] inv show ?thesis
    by (auto simp: PWR_GrpGetNumObjs_def intro!: refinesI grp_spec.num_bad)
next
  case (Some A)
  with inv obtain a g where h: "find_group_by_opaque h s = Some (Some a)" "grps s a = Some g" "A = set (grp_list g)"
    by (rule group_viewD)
  have "length (grp_list g) = card A"
    using group_invD(6) [OF inv h(2)] h(3) length_eq_card by (auto simp: grp_ok_def)
  with h Some inv grp_spec.num [of "abs_lib s" h A] show ?thesis
    by (auto simp: PWR_GrpGetNumObjs_def group_get_length_def intro!: refinesI)
qed

lemma indx_refines:
  assumes inv: "group_inv s" and hk: "dkey_ok s h" shows "refines s (GrpGetObjByIndx h i)"
proof -
  note iv = group_invD [OF inv]
  consider "i < 0" | "0 \<le> i" "group_view s h = None" | A where "0 \<le> i" "group_view s h = Some A" by fastforce
  then show ?thesis
  proof cases
    case 1
    with inv show ?thesis
      by (auto simp: PWR_GrpGetObjByIndx_def Let_def with_state_def intro!: refinesI grp_spec.indx_negative)
  next
    case 2
    with group_view_None [OF inv _ hk] inv show ?thesis
      by (auto simp: PWR_GrpGetObjByIndx_def Let_def with_state_def intro!: refinesI grp_spec.indx_bad)
  next
    case 3
    with inv obtain a g where h: "find_group_by_opaque h s = Some (Some a)" "grps s a = Some g" "A = set (grp_list g)"
      by (metis group_viewD)
    from iv(6) [OF h(2)] have g: "strict_sorted_list (grp_list g)" "\<forall>x \<in> set (grp_list g). has_type s x OPAQUE_OBJECT"
      by (auto simp: grp_ok_def)
    have len: "length (grp_list g) = card A" using g(1) h(3) length_eq_card by simp
    have sl: "sorted_list_of_set A = grp_list g"
      using g(1) h(3) by (metis List.finite_set strict_sorted_list_of_set set_sorted_list_of_set strict_sorted_set_unique)
    show ?thesis
    proof (cases "nat i < card A")
      case False
      with 3 h len inv grp_spec.indx_past_end [of "abs_lib s" h A i] show ?thesis
        by (auto simp: PWR_GrpGetObjByIndx_def Let_def with_state_def intro!: refinesI)
    next
      case True
      let ?x = "grp_list g ! nat i"
      have t: "has_type s ?x OPAQUE_OBJECT" using g(2) True len by simp
      then obtain r where r: "refs s ?x = Some r" "ref_key r = key_at s ?x" by (auto simp: has_type_def key_at_def)
      let ?ob = "OPAQUE_GENERATE (ck h) (key_at s ?x)"
      have "dk ?ob = key_at s ?x" "ck ?ob = ck h" using key32_key_at [OF iv(1)] by (simp_all add: key_simps)
      moreover have "object_view s (key_at s ?x) = Some ?x"
        using has_type_lookup [OF iv(1) t] t by (auto simp: object_view_def lookup_object_def has_type_def key_at_def)
      ultimately have "grp_spec (abs_lib s) (GrpGetObjByIndx h i) PWR_RET_SUCCESS (Some ?ob) (abs_lib s)"
        using 3 True sl by (auto intro!: grp_spec.indx)
      moreover have "exec_call (GrpGetObjByIndx h i) s = Some (PWR_RET_SUCCESS, Some ?ob, s)"
        using 3 h True len r by (simp add: PWR_GrpGetObjByIndx_def Let_def with_state_def)
      ultimately show ?thesis using inv refinesI by blast
    qed
  qed
qed

lemma combine_fills:
  assumes inv: "group_inv s" and a: "grps s a = Some g1" and b: "grps s b = Some g2"
    and s1: "grps s1 (next_addr s) = Some g" "grp_list g = []" "\<And>d. d \<noteq> next_addr s \<Longrightarrow> grps s1 d = grps s d"
  shows "group_combine walk a b (next_addr s) s1 =
    Some (0, s1\<lparr>grps := (grps s1)(next_addr s \<mapsto> g\<lparr>grp_list := walk (grp_list g1) (grp_list g2) []\<rparr>)\<rparr>)"
proof -
  have "d \<noteq> next_addr s" if "grps s d = Some gd" for d gd
    using group_invD(3) [OF inv] group_invD(6) [OF inv that] by (auto simp: grp_ok_def has_type_def fresh_ok_def)
  with a b s1 show ?thesis by (simp add: group_combine_def)
qed

text \<open>The walk behind each of the four operations, and that it computes the set operation.\<close>

fun binop_walk :: "binop \<Rightarrow> addr list \<Rightarrow> addr list \<Rightarrow> addr list \<Rightarrow> addr list" where
  "binop_walk Union = union_walk"
| "binop_walk Intersection = intersection_walk"
| "binop_walk Difference = difference_walk"
| "binop_walk SymDifference = sym_difference_walk"

lemma binop_walk_correct:
  assumes "strict_sorted_list xs" "strict_sorted_list ys"
  shows "strict_sorted_list (binop_walk b xs ys [])" "set (binop_walk b xs ys []) = binop_set b (set xs) (set ys)"
  using assms
  by (cases b; simp add: union.walk_into_empty inter.walk_into_empty diff.walk_into_empty symdiff.walk_into_empty)+

lemma binop_set_subset: "binop_set b A B \<subseteq> A \<union> B"
  by (cases b) (auto simp: set_sym_diff_def)

lemma binop_call_eq: "binop_call b = grp_binary_op (group_combine (binop_walk b))"
  by (cases b)
    (simp_all add: PWR_GrpUnion_def PWR_GrpIntersection_def PWR_GrpDifference_def PWR_GrpSymDifference_def
      group_union_def group_intersection_def group_difference_def group_sym_difference_def)

lemma combine_refines:
  assumes inv: "group_inv s" and draw: "has_draw s \<or> exec_call (GrpCombine b h1 h2) s \<noteq> None"
    and hk: "dkey_ok s h1" "dkey_ok s h2"
  shows "refines s (GrpCombine b h1 h2)"
proof (cases "ck h1 \<noteq> ck h2 \<or> group_view s h1 = None \<or> group_view s h2 = None")
  case True
  then have "exec_call (GrpCombine b h1 h2) s = Some (PWR_RET_FAILURE, None, s)"
    using group_view_None [OF inv _ hk(1)] group_view_None [OF inv _ hk(2)] find_group_total [OF inv hk(1)]
    by (auto simp: binop_call_eq grp_binary_op_def Let_def split: option.splits)
  with True inv show ?thesis by (auto intro!: refinesI grp_spec.combine_bad)
next
  case False
  then obtain A B where AB: "group_view s h1 = Some A" "group_view s h2 = Some B" "ck h1 = ck h2" by auto
  with inv obtain a1 g1 where h1: "find_group_by_opaque h1 s = Some (Some a1)" "grps s a1 = Some g1" "A = set (grp_list g1)"
    by (metis group_viewD)
  from AB inv obtain a2 g2 where h2: "find_group_by_opaque h2 s = Some (Some a2)" "grps s a2 = Some g2" "B = set (grp_list g2)"
    by (metis group_viewD)
  from inv h1(1) hk(1) obtain c ctx where c: "find_context_by_opaque h1 s = Some (Some c)" "ctxs s c = Some ctx" "key_at s c = ck h1"
    by (rule group_contextE)
  have ok: "grp_ok s a1 g1" "grp_ok s a2 g2" using group_invD(6) [OF inv] h1 h2 by blast+
  have has: "has_draw s"
    using draw make_group_needs_draw [OF inv, of "group_combine (binop_walk b) a1 a2" "ck h1" c] h1(1) h2(1) c(1) AB(3)
    by (auto simp: binop_call_eq grp_binary_op_def Let_def)
  let ?xs = "binop_walk b (grp_list g1) (grp_list g2) []"
  have xs: "strict_sorted_list ?xs" "set ?xs = binop_set b A B"
    using ok binop_walk_correct h1 h2 by (simp_all add: grp_ok_def)
  moreover from xs(2) binop_set_subset [of b A B] h1(3) h2(3) ok
  have "\<forall>x \<in> set ?xs. has_type s x OPAQUE_OBJECT" by (auto simp: grp_ok_def)
  ultimately have "\<exists>h' s'. make_group (group_combine (binop_walk b) a1 a2) (ck h1) c s = Some (PWR_RET_SUCCESS, Some h', s') \<and>
    group_inv s' \<and> adds_group h1 (set ?xs) (abs_lib s) h' (abs_lib s')"
    by (intro make_group_refines [OF inv c(2,3) has] combine_fills [OF inv h1(2) h2(2)])
  then obtain h' s' where
    "make_group (group_combine (binop_walk b) a1 a2) (ck h1) c s = Some (PWR_RET_SUCCESS, Some h', s')" "group_inv s'"
    "adds_group h1 (binop_set b A B) (abs_lib s) h' (abs_lib s')" unfolding xs(2) by blast
  with AB h1 h2 c grp_spec.combine [of h1 h2 "abs_lib s" A B b] show ?thesis
    by (auto simp: binop_call_eq grp_binary_op_def Let_def intro!: refinesI)
qed

lemma every_call_refines:
  assumes "group_inv s" "has_draw s \<or> exec_call c s \<noteq> None" "call_ok s c"
  shows "refines s c"
  using assms
  by (cases c)
    (simp_all add: call_ok_def create_refines destroy_refines duplicate_refines add_refines remove_refines num_refines
      indx_refines combine_refines del: exec_call.simps)

subsection \<open>Whole runs\<close>

text \<open>
  A run of the library is a sequence of calls with usable handles, with their answers. The simulation below says
  that the answers are always those that the specification allows.
\<close>

inductive run :: "lib \<Rightarrow> (grp_call \<times> int \<times> key option) list \<Rightarrow> lib \<Rightarrow> bool" where
  run_start: "run s [] s"
| run_call: "run s tr s' \<Longrightarrow> call_ok s' c \<Longrightarrow> exec_call c s' = Some (r, h, s'') \<Longrightarrow> run s (tr @ [(c, r, h)]) s''"

inductive spec_run :: "spec \<Rightarrow> (grp_call \<times> int \<times> key option) list \<Rightarrow> spec \<Rightarrow> bool" where
  spec_start: "spec_run S [] S"
| spec_call: "spec_run S tr S' \<Longrightarrow> grp_spec S' c r h S'' \<Longrightarrow> spec_run S (tr @ [(c, r, h)]) S''"

inductive_cases run_snocE: "run s (tr @ [e]) s'"

lemma call_sound:
  assumes "group_inv s" "call_ok s c" "exec_call c s = Some (r, h, s')"
  shows "group_inv s' \<and> grp_spec (abs_lib s) c r h (abs_lib s')"
  using every_call_refines [of s c] assms by (auto simp: refines_def)

lemma run_sound:
  assumes "run s tr s'" "group_inv s"
  shows "group_inv s' \<and> spec_run (abs_lib s) tr (abs_lib s')"
  using assms by (induction rule: run.induct) (auto intro: spec_run.intros dest: call_sound)

end
