(* ===== verification/Example_Lib.thy ===== *)
theory Example_Lib
  imports Group_Spec
begin

text \<open>
  A small concrete library state: one context with two objects, a generator that runs
  through a few keys, no groups yet. It satisfies the invariant, so the theorems of the
  development apply to it, and short runs from it can be evaluated.
\<close>

definition example_seq :: "nat \<Rightarrow> 32 word" where
  "example_seq n = (if n mod 3 = 0 then 4 else if n mod 3 = 1 then 5 else 6)"

definition example_lib :: lib where
  "example_lib =
     \<lparr>opaque_map = Some \<lparr>rand_seq = example_seq, table = [1 \<mapsto> 1, 2 \<mapsto> 2, 3 \<mapsto> 3]\<rparr>,
      refs = [1 \<mapsto> \<lparr>ref_type = OPAQUE_CONTEXT, ref_key = 1\<rparr>,
              2 \<mapsto> \<lparr>ref_type = OPAQUE_OBJECT, ref_key = 2\<rparr>,
              3 \<mapsto> \<lparr>ref_type = OPAQUE_OBJECT, ref_key = 3\<rparr>],
      next_addr = 8, links = Map.empty,
      ctxs = [1 \<mapsto> \<lparr>ctx_type = 0, ctx_role = 0, ctx_name = ''app'', ctx_entry_point = Some 6,
                    ctx_hierarchy = \<lparr>h_tree = Some 6, h_map = [''node'' \<mapsto> 2, ''socket.0'' \<mapsto> 3]\<rparr>,
                    ctx_group_list = [], ctx_status_list = [], ctx_stat_list = []\<rparr>],
      grps = Map.empty,
      objs = [2 \<mapsto> \<lparr>obj_type = PWR_OBJ_NODE, obj_os_id = 0, obj_name = ''node'', obj_gnode = Some 6\<rparr>,
              3 \<mapsto> \<lparr>obj_type = PWR_OBJ_SOCKET, obj_os_id = 0, obj_name = ''socket.0'', obj_gnode = Some 7\<rparr>],
      statuses = Map.empty, stats = Map.empty,
      gnodes = [6 \<mapsto> \<lparr>gn_data = 2, gn_parent = None, gn_children = [7]\<rparr>,
                7 \<mapsto> \<lparr>gn_data = 3, gn_parent = Some 6, gn_children = []\<rparr>]\<rparr>"

lemma example_handles: "opaque_inv example_lib" "has_draw example_lib"
proof -
  show "opaque_inv example_lib"
    by (auto simp: opaque_inv_def entry_ok_def keyed_ok_def opaque_map_lookup_def example_lib_def
        key32_def OPAQUE_LOWER_def split: if_splits)
  show "has_draw example_lib"
    unfolding has_draw_def fresh_draw_def
    by (rule exI [of _ "the (opaque_map example_lib)"], rule exI [of _ 0])
      (auto simp: example_lib_def example_seq_def GUINT_TO_POINTER_def)
qed

lemma example_inv: "group_inv example_lib"
  unfolding group_inv_def using example_handles
  by (auto simp: fresh_ok_def typed_ok_def ctx_ok_def has_type_def example_lib_def split: if_splits)

text \<open>No zero was drawn, so any handle is usable.\<close>

lemma example_keys [simp]: "key_ok example_lib k" "dkey_ok example_lib h" "ckey_ok example_lib h" "call_ok example_lib c"
  by (simp_all add: call_ok_def dkey_ok_def ckey_ok_def key_ok_def opaque_map_lookup_def example_lib_def)

text \<open>The handle of the example's context and of its two objects.\<close>

definition example_ctx :: key where "example_ctx = OPAQUE_GENERATE 1 1"
definition example_node :: key where "example_node = OPAQUE_GENERATE 1 2"
definition example_socket :: key where "example_socket = OPAQUE_GENERATE 1 3"

lemma example_create:
  "map_option (\<lambda>(r, h, s). (r, h)) (exec_call (GrpCreate example_ctx) example_lib) =
    Some (PWR_RET_SUCCESS, Some (OPAQUE_GENERATE 1 4))"
  by code_simp

end
