(* ===== verification/Bitmask.thy ===== *)
theory Bitmask
  imports Pwr_Prelude
begin

text \<open>
  \<^verbatim>\<open>lib/bitmask.h\<close> and \<^verbatim>\<open>lib/bitmask.c\<close>: sets of small numbers packed
  into 64-bit blocks. A mask is the number of bits in use and its list of blocks. The
  macros index the blocks without a check, so the operations here return \<open>None\<close> for
  an access past the last block. The main result is that on well-formed masks the
  operations are those of finite sets (the locale \<open>bit_set\<close> and its interpretation).
\<close>

type_synonym bitblock_t = "64 word"

record bitmask_t =
  used :: nat
  bitblock :: "bitblock_t list"

definition BITBLOCK_WIDTH :: nat where
  "BITBLOCK_WIDTH = 64"

definition BITBLOCK_INDEX :: "nat \<Rightarrow> nat" where
  "BITBLOCK_INDEX b = b div BITBLOCK_WIDTH"

definition BITBLOCK_NUM :: "nat \<Rightarrow> nat" where
  "BITBLOCK_NUM bits = BITBLOCK_INDEX bits + 1"

definition BITBLOCK_MASK :: "nat \<Rightarrow> bitblock_t" where
  "BITBLOCK_MASK b = push_bit (b mod BITBLOCK_WIDTH) 1"

definition BITMASK_SET :: "bitmask_t \<Rightarrow> nat \<Rightarrow> bitmask_t option" where
  "BITMASK_SET m b =
     (let i = BITBLOCK_INDEX b in
      if i < length (bitblock m)
      then Some (m\<lparr>bitblock := (bitblock m)[i := bitblock m ! i OR BITBLOCK_MASK b]\<rparr>) else None)"

definition BITMASK_CLEAR :: "bitmask_t \<Rightarrow> nat \<Rightarrow> bitmask_t option" where
  "BITMASK_CLEAR m b =
     (let i = BITBLOCK_INDEX b in
      if i < length (bitblock m)
      then Some (m\<lparr>bitblock := (bitblock m)[i := bitblock m ! i AND NOT (BITBLOCK_MASK b)]\<rparr>) else None)"

text \<open>The C macro yields the masked block; its callers only use whether that is zero.\<close>

definition BITMASK_TEST :: "bitmask_t \<Rightarrow> nat \<Rightarrow> bool option" where
  "BITMASK_TEST m b =
     (let i = BITBLOCK_INDEX b in
      if i < length (bitblock m) then Some (bitblock m ! i AND BITBLOCK_MASK b \<noteq> 0) else None)"

text \<open>The loop shared by \<^verbatim>\<open>BITMASK_CLEARALL\<close> and \<^verbatim>\<open>BITMASK_SETALL\<close>.\<close>

function fill_blocks :: "bitblock_t \<Rightarrow> nat \<Rightarrow> nat \<Rightarrow> bitblock_t list \<Rightarrow> bitblock_t list option" where
  "fill_blocks v i n bs =
     (if i < n then if i < length bs then fill_blocks v (Suc i) n (bs[i := v]) else None
      else Some bs)"
  by pat_completeness auto
termination
  by (relation "measure (\<lambda>(v, i, n, bs). n - i)") auto

declare fill_blocks.simps [simp del]

definition BITMASK_CLEARALL :: "bitmask_t \<Rightarrow> bitmask_t option" where
  "BITMASK_CLEARALL m =
     map_option (\<lambda>bs. m\<lparr>bitblock := bs\<rparr>) (fill_blocks 0 0 (BITBLOCK_NUM (used m)) (bitblock m))"

definition BITMASK_SETALL :: "bitmask_t \<Rightarrow> bitmask_t option" where
  "BITMASK_SETALL m =
     map_option (\<lambda>bs. m\<lparr>bitblock := bs\<rparr>) (fill_blocks (- 1) 0 (BITBLOCK_NUM (used m)) (bitblock m))"

function num_set_loop :: "bitmask_t \<Rightarrow> nat \<Rightarrow> nat \<Rightarrow> nat option" where
  "num_set_loop m i num =
     (if i < used m then
        case BITMASK_TEST m i of
          None \<Rightarrow> None
        | Some b \<Rightarrow> num_set_loop m (Suc i) (if b then Suc num else num)
      else Some num)"
  by pat_completeness auto
termination
  by (relation "measure (\<lambda>(m, i, num). used m - i)") auto

declare num_set_loop.simps [simp del]

definition bitmask_num_set :: "bitmask_t \<Rightarrow> nat option" where
  "bitmask_num_set m = num_set_loop m 0 0"

definition BITMASK_NUM_BITS_CLEAR :: "bitmask_t \<Rightarrow> nat option" where
  "BITMASK_NUM_BITS_CLEAR m = map_option (\<lambda>n. used m - n) (bitmask_num_set m)"

text \<open>\<open>None\<close> here is the NULL that the function returns for an illegal size.\<close>

definition new_bitmask :: "nat \<Rightarrow> bitmask_t option" where
  "new_bitmask bits =
     (if bits < 1 then None else Some \<lparr>used = bits, bitblock = replicate (BITBLOCK_NUM bits) 0\<rparr>)"

definition DECLARE_BITMASK_AUTO :: "nat \<Rightarrow> bitblock_t \<Rightarrow> bitmask_t" where
  "DECLARE_BITMASK_AUTO bits v = \<lparr>used = bits, bitblock = [v]\<rparr>"

subsection \<open>Masks as sets\<close>

definition bits_of :: "bitmask_t \<Rightarrow> nat set" where
  "bits_of m = {b. b < used m \<and> BITMASK_TEST m b = Some True}"

text \<open>Enough blocks are allocated for every bit in use, which is all the macros need.\<close>

definition bitmask_wf :: "bitmask_t \<Rightarrow> bool" where
  "bitmask_wf m \<longleftrightarrow> (\<forall>b<used m. BITBLOCK_INDEX b < length (bitblock m))"

text \<open>As many blocks as \<^verbatim>\<open>new_bitmask\<close> allocates, which the two fill loops need.\<close>

definition bitmask_full :: "bitmask_t \<Rightarrow> bool" where
  "bitmask_full m \<longleftrightarrow> length (bitblock m) = BITBLOCK_NUM (used m)"

lemmas block_defs = BITBLOCK_INDEX_def BITBLOCK_WIDTH_def BITBLOCK_NUM_def

lemma bitmask_full_wf: "bitmask_full m \<Longrightarrow> bitmask_wf m"
  by (auto simp: bitmask_full_def bitmask_wf_def block_defs)

lemma block_test: "w AND BITBLOCK_MASK b \<noteq> 0 \<longleftrightarrow> bit w (b mod 64)" for w :: bitblock_t
proof
  assume "w AND BITBLOCK_MASK b \<noteq> 0"
  then obtain n where "bit (w AND BITBLOCK_MASK b) n" by (auto simp: bit_eq_iff)
  then show "bit w (b mod 64)"
    by (auto simp: BITBLOCK_MASK_def BITBLOCK_WIDTH_def bit_simps)
next
  assume "bit w (b mod 64)"
  then have "bit (w AND BITBLOCK_MASK b) (b mod 64)"
    by (simp add: BITBLOCK_MASK_def BITBLOCK_WIDTH_def bit_simps)
  then show "w AND BITBLOCK_MASK b \<noteq> 0" by auto
qed

lemma BITMASK_TEST_bit:
  "BITMASK_TEST m b = (if b div 64 < length (bitblock m) then Some (bit (bitblock m ! (b div 64)) (b mod 64)) else None)"
  by (simp add: BITMASK_TEST_def Let_def block_test block_defs)

lemma same_bit_iff: "b div 64 = c div 64 \<and> b mod 64 = c mod 64 \<longleftrightarrow> b = c" for b c :: nat
  by (metis div_mult_mod_eq)

lemma TEST_after_SET:
  assumes "BITMASK_SET m b = Some m'"
  shows "BITMASK_TEST m' c = (if c = b then Some True else BITMASK_TEST m c)"
  using assms same_bit_iff [of b c]
  by (auto simp: BITMASK_SET_def Let_def block_defs BITMASK_TEST_bit BITBLOCK_MASK_def
      nth_list_update bit_simps split: if_splits)

lemma TEST_after_CLEAR:
  assumes "BITMASK_CLEAR m b = Some m'"
  shows "BITMASK_TEST m' c = (if c = b then Some False else BITMASK_TEST m c)"
  using assms same_bit_iff [of b c]
  by (auto simp: BITMASK_CLEAR_def Let_def block_defs BITMASK_TEST_bit BITBLOCK_MASK_def
      nth_list_update bit_simps split: if_splits)

lemma SET_shape:
  assumes "bitmask_wf m" "b < used m"
  obtains m' where "BITMASK_SET m b = Some m'" "used m' = used m"
    "length (bitblock m') = length (bitblock m)"
  using assms by (auto simp: BITMASK_SET_def Let_def bitmask_wf_def)

lemma CLEAR_shape:
  assumes "bitmask_wf m" "b < used m"
  obtains m' where "BITMASK_CLEAR m b = Some m'" "used m' = used m"
    "length (bitblock m') = length (bitblock m)"
  using assms by (auto simp: BITMASK_CLEAR_def Let_def bitmask_wf_def)

lemma num_set_loop_count:
  assumes "bitmask_wf m" "i \<le> used m"
  shows "num_set_loop m i num = Some (num + card {b \<in> bits_of m. i \<le> b})"
  using assms
proof (induction "used m - i" arbitrary: i num)
  case 0
  then have none: "{b \<in> bits_of m. i \<le> b} = {}" by (auto simp: bits_of_def)
  show ?case unfolding none using 0 by (simp add: num_set_loop.simps)
next
  case (Suc n)
  then have i: "i < used m" by simp
  then obtain v where v: "BITMASK_TEST m i = Some v"
    using Suc.prems by (auto simp: BITMASK_TEST_def bitmask_wf_def Let_def)
  have split: "{b \<in> bits_of m. i \<le> b} = (if v then {i} else {}) \<union> {b \<in> bits_of m. Suc i \<le> b}"
    using v i by (auto simp: bits_of_def Suc_le_eq le_less)
  have "finite {b \<in> bits_of m. Suc i \<le> b}" by (simp add: bits_of_def)
  then have "card {b \<in> bits_of m. i \<le> b} = (if v then 1 else 0) + card {b \<in> bits_of m. Suc i \<le> b}"
    unfolding split by simp
  moreover have "num_set_loop m (Suc i) k = Some (k + card {b \<in> bits_of m. Suc i \<le> b})" for k
    using Suc i by simp
  ultimately show ?case
    using i v by (subst num_set_loop.simps) simp
qed

lemma fill_blocks_result:
  assumes "n \<le> length bs" "i \<le> n"
  shows "fill_blocks v i n bs = Some (take i bs @ replicate (n - i) v @ drop n bs)"
  using assms
proof (induction "n - i" arbitrary: i bs)
  case 0
  then show ?case by (simp add: fill_blocks.simps)
next
  case (Suc k)
  then have "fill_blocks v (Suc i) n (bs[i := v]) =
    Some (take (Suc i) (bs[i := v]) @ replicate (n - Suc i) v @ drop n (bs[i := v]))"
    by simp
  moreover have "replicate (n - i) v = v # replicate (n - Suc i) v"
    using Suc.hyps(2) by (metis Suc_diff_Suc replicate_Suc zero_less_Suc zero_less_diff)
  ultimately show ?case
    using Suc by (subst fill_blocks.simps) (simp add: take_Suc_conv_app_nth)
qed

lemma bits_of_new: "new_bitmask n = Some m \<Longrightarrow> bitmask_full m \<and> used m = n \<and> bits_of m = {}"
  by (auto simp: new_bitmask_def bitmask_full_def bits_of_def BITMASK_TEST_bit block_defs
      simp del: replicate_Suc split: if_splits)

lemma bits_of_SET: "BITMASK_SET m b = Some m' \<Longrightarrow> b < used m \<Longrightarrow> bits_of m' = insert b (bits_of m)"
  by (auto simp: bits_of_def TEST_after_SET) (auto simp: BITMASK_SET_def Let_def split: if_splits)

lemma bits_of_CLEAR: "BITMASK_CLEAR m b = Some m' \<Longrightarrow> bits_of m' = bits_of m - {b}"
  by (auto simp: bits_of_def TEST_after_CLEAR) (auto simp: BITMASK_CLEAR_def Let_def split: if_splits)

lemma bits_of_SETALL: "bitmask_full m \<Longrightarrow> \<exists>m'. BITMASK_SETALL m = Some m' \<and> bitmask_full m' \<and>
    used m' = used m \<and> bits_of m' = {..<used m}"
  by (auto simp: BITMASK_SETALL_def fill_blocks_result bitmask_full_def bits_of_def
      BITMASK_TEST_bit block_defs div_le_mono less_Suc_eq_le simp del: replicate_Suc)

lemma bits_of_CLEARALL: "bitmask_full m \<Longrightarrow> \<exists>m'. BITMASK_CLEARALL m = Some m' \<and> bitmask_full m' \<and>
    used m' = used m \<and> bits_of m' = {}"
  by (auto simp: BITMASK_CLEARALL_def fill_blocks_result bitmask_full_def bits_of_def
      BITMASK_TEST_bit block_defs simp del: replicate_Suc)

lemma bitmask_num_set_card: "bitmask_wf m \<Longrightarrow> bitmask_num_set m = Some (card (bits_of m))"
  by (simp add: bitmask_num_set_def num_set_loop_count)

lemma TEST_bits_of: "bitmask_wf m \<Longrightarrow> b < used m \<Longrightarrow> BITMASK_TEST m b = Some (b \<in> bits_of m)"
  by (auto simp: bits_of_def BITMASK_TEST_def bitmask_wf_def Let_def)

lemma finite_bits_of [simp]: "finite (bits_of m)"
  by (simp add: bits_of_def)

lemma card_bits_of_le: "card (bits_of m) \<le> used m"
proof -
  have "bits_of m \<subseteq> {..<used m}" by (auto simp: bits_of_def)
  then have "card (bits_of m) \<le> card {..<used m}" by (intro card_mono) auto
  then show ?thesis by simp
qed

subsection \<open>The contract of a bit set\<close>

locale bit_set =
  fixes wf :: "'m \<Rightarrow> bool" and size_of :: "'m \<Rightarrow> nat" and elems :: "'m \<Rightarrow> nat set"
    and add :: "'m \<Rightarrow> nat \<Rightarrow> 'm option" and rem :: "'m \<Rightarrow> nat \<Rightarrow> 'm option"
    and test :: "'m \<Rightarrow> nat \<Rightarrow> bool option" and count :: "'m \<Rightarrow> nat option"
  assumes elems_range: "wf m \<Longrightarrow> elems m \<subseteq> {..<size_of m}"
    and test_elems: "wf m \<Longrightarrow> b < size_of m \<Longrightarrow> test m b = Some (b \<in> elems m)"
    and add_ok: "wf m \<Longrightarrow> b < size_of m \<Longrightarrow>
      \<exists>m'. add m b = Some m' \<and> wf m' \<and> size_of m' = size_of m \<and> elems m' = insert b (elems m)"
    and rem_ok: "wf m \<Longrightarrow> b < size_of m \<Longrightarrow>
      \<exists>m'. rem m b = Some m' \<and> wf m' \<and> size_of m' = size_of m \<and> elems m' = elems m - {b}"
    and count_ok: "wf m \<Longrightarrow> count m = Some (card (elems m))"
begin

lemma finite_elems: "wf m \<Longrightarrow> finite (elems m)"
  using elems_range finite_subset by blast

lemma count_after_add:
  assumes "wf m" "b < size_of m" "test m b = Some False"
  shows "\<exists>m' n. add m b = Some m' \<and> count m = Some n \<and> count m' = Some (Suc n)"
proof -
  from add_ok [OF assms(1,2)] obtain m' where
    m': "add m b = Some m'" "wf m'" "elems m' = insert b (elems m)" by blast
  moreover have "b \<notin> elems m" using test_elems [OF assms(1,2)] assms(3) by simp
  ultimately show ?thesis using count_ok assms(1) finite_elems [OF assms(1)] by simp
qed

lemma add_then_remove:
  assumes "wf m" "b < size_of m" "test m b = Some False"
  shows "\<exists>m' m''. add m b = Some m' \<and> rem m' b = Some m'' \<and> elems m'' = elems m"
proof -
  from add_ok [OF assms(1,2)] obtain m' where
    m': "add m b = Some m'" "wf m'" "size_of m' = size_of m" "elems m' = insert b (elems m)" by blast
  with rem_ok [of m' b] assms(2) obtain m'' where
    "rem m' b = Some m''" "elems m'' = elems m' - {b}" by auto
  moreover have "b \<notin> elems m" using test_elems [OF assms(1,2)] assms(3) by simp
  ultimately show ?thesis using m' by auto
qed

end

interpretation bm: bit_set bitmask_wf used bits_of BITMASK_SET BITMASK_CLEAR BITMASK_TEST bitmask_num_set
proof (unfold_locales, goal_cases)
  case (1 m)
  then show ?case by (auto simp: bits_of_def)
next
  case (2 m b)
  then show ?case by (rule TEST_bits_of)
next
  case (3 m b)
  then obtain m' where "BITMASK_SET m b = Some m'" "used m' = used m"
    "length (bitblock m') = length (bitblock m)" by (rule SET_shape)
  with 3 show ?case by (auto simp: bitmask_wf_def bits_of_SET)
next
  case (4 m b)
  then obtain m' where "BITMASK_CLEAR m b = Some m'" "used m' = used m"
    "length (bitblock m') = length (bitblock m)" by (rule CLEAR_shape)
  with 4 show ?case by (auto simp: bitmask_wf_def bits_of_CLEAR)
next
  case (5 m)
  then show ?case by (rule bitmask_num_set_card)
qed

end
