(* ===== verification/Group_Properties.thy ===== *)
theory Group_Properties
  imports Example_Lib Bitmask
begin

text \<open>
  The properties of the handle map, of the attribute bit masks and of the group interface,
  each with an instance on concrete data where it has hypotheses.
\<close>

subsection \<open>The group interface\<close>

text \<open>
  C1. Every run of group calls, with any valid or invalid handles and any indices, from a
  state that satisfies the invariant ends in such a state, and every answer along the run is
  one that the specification of groups as sets of objects allows. The invariant says that no
  group has a statistic attached; \<open>Stale_Statistics\<close> shows that calls on a group with one
  can read released memory. The generator may draw zero. A call whose handle has a zero key is
  part of a run only as long as no draw of zero has left an entry under key zero.
\<close>

theorem group_runs_refine:
  assumes "group_inv s" "run s tr s'"
  shows "group_inv s' \<and> spec_run (abs_lib s) tr (abs_lib s')"
  using run_sound [OF assms(2,1)] .

theorem group_runs_refine_witness:
  "\<exists>s'. run example_lib [(GrpCreate example_ctx, PWR_RET_SUCCESS, Some (OPAQUE_GENERATE 1 4))] s' \<and>
     group_inv s' \<and>
     spec_run (abs_lib example_lib) [(GrpCreate example_ctx, PWR_RET_SUCCESS, Some (OPAQUE_GENERATE 1 4))] (abs_lib s')"
proof -
  obtain s' where "exec_call (GrpCreate example_ctx) example_lib = Some (PWR_RET_SUCCESS, Some (OPAQUE_GENERATE 1 4), s')"
    using example_create by auto
  then have "run example_lib ([] @ [(GrpCreate example_ctx, PWR_RET_SUCCESS, Some (OPAQUE_GENERATE 1 4))]) s'"
    by (rule run_call [OF run_start example_keys(4)])
  with group_runs_refine [OF example_inv] show ?thesis by fastforce
qed



text \<open>
  C15. Each of the four walks over two strictly sorted member sequences produces the sorted
  enumeration of the corresponding set operation: union, intersection, difference or
  symmetric difference.
\<close>

theorem walks_compute_set_operations:
  assumes "strict_sorted_list xs" "strict_sorted_list ys"
  shows "union_walk xs ys [] = sorted_list_of_set (set xs \<union> set ys) \<and>
    intersection_walk xs ys [] = sorted_list_of_set (set xs \<inter> set ys) \<and>
    difference_walk xs ys [] = sorted_list_of_set (set xs - set ys) \<and>
    sym_difference_walk xs ys [] = sorted_list_of_set ((set xs - set ys) \<union> (set ys - set xs))"
  using union.walk_canonical [OF assms] inter.walk_canonical [OF assms] diff.walk_canonical [OF assms]
    symdiff.walk_canonical [OF assms] by (simp add: set_sym_diff_def)

theorem walks_compute_set_operations_witness:
  "union_walk [2, 5] [4, 5] [] = sorted_list_of_set (set [2, 5] \<union> set [4, 5]) \<and>
    sym_difference_walk [2, 5] [4, 5] [] = sorted_list_of_set ((set [2, 5] - set [4, 5]) \<union> (set [4, 5] - set [2, 5]))"
proof -
  have "strict_sorted_list [2, 5 :: addr]" "strict_sorted_list [4, 5 :: addr]" by simp_all
  from walks_compute_set_operations [OF this] show ?thesis by blast
qed

subsection \<open>Handles\<close>

text \<open>
  Packing the keys of a context and of a structure into a handle loses nothing: the two
  macros that unpack it give back the two 32-bit keys, and every 64-bit handle is the one
  generated from its two halves.
\<close>

theorem handle_roundtrip:
  "OPAQUE_GET_CONTEXT_KEY (OPAQUE_GENERATE (GUINT_TO_POINTER c) (GUINT_TO_POINTER d)) = GUINT_TO_POINTER c \<and>
   OPAQUE_GET_DATA_KEY (OPAQUE_GENERATE (GUINT_TO_POINTER c) (GUINT_TO_POINTER d)) = GUINT_TO_POINTER d \<and>
   OPAQUE_GENERATE (OPAQUE_GET_CONTEXT_KEY h) (OPAQUE_GET_DATA_KEY h) = h"
  by (simp add: key_simps)


text \<open>A map whose generator draws a zero before the first usable key.\<close>

definition zero_map :: opq where
  "zero_map = \<lparr>opaque_map = Some \<lparr>rand_seq = (\<lambda>n. if n = 0 then 0 else 7), table = Map.empty\<rparr>, refs = [1 \<mapsto> zero_ref]\<rparr>"


text \<open>
  The key drawing loop ends exactly if the generator sooner or later produces a key that
  is neither zero nor in use; while all 32-bit keys are taken it runs forever.
\<close>

theorem insert_returns_iff_draw:
  assumes "opaque_map s = Some m" "refs s a = Some r"
  shows "opaque_map_insert t a s \<noteq> None \<longleftrightarrow> (\<exists>n. fresh_draw (rand_seq m) (table m) n)"
proof
  assume "opaque_map_insert t a s \<noteq> None"
  then obtain res where "opaque_map_insert_loop (rand_seq m) (table m) r t a = Some res"
    using assms by (auto simp: opaque_map_insert_def)
  from insert_loop_sound [OF this] show "\<exists>n. fresh_draw (rand_seq m) (table m) n"
    by (cases res) (auto simp: insert_loop_post_def)
next
  assume "\<exists>n. fresh_draw (rand_seq m) (table m) n"
  then obtain n where "fresh_draw (rand_seq m) (table m) n" ..
  from insert_returns [OF assms(1) this assms(2), of t] show "opaque_map_insert t a s \<noteq> None" by auto
qed

definition full_map :: opq where
  "full_map = \<lparr>opaque_map = Some \<lparr>rand_seq = (\<lambda>n. 1), table = [1 \<mapsto> 1]\<rparr>, refs = [1 \<mapsto> \<lparr>ref_type = OPAQUE_STAT, ref_key = 1\<rparr>,
     2 \<mapsto> zero_ref]\<rparr>"

theorem insert_returns_iff_draw_witness:
  "opaque_map_insert OPAQUE_STAT 2 full_map = None"
proof -
  let ?m = "\<lparr>rand_seq = (\<lambda>n. 1), table = [1 \<mapsto> 1]\<rparr> :: opaque_map_t"
  have "\<not> fresh_draw (rand_seq ?m) (table ?m) n" for n by (simp add: fresh_draw_def GUINT_TO_POINTER_def)
  moreover have "opaque_map full_map = Some ?m" "refs full_map 2 = Some zero_ref" by (simp_all add: full_map_def)
  ultimately show ?thesis using insert_returns_iff_draw [of full_map ?m 2 zero_ref OPAQUE_STAT] by blast
qed

text \<open>
  If the generator produces a zero before the usable key, the structure is also entered
  under key zero, the key that the rest of the library takes for no structure; removing the
  structure's key leaves that entry behind.
\<close>

theorem zero_draw_leaves_entry:
  assumes "opaque_map s = Some m" "table m 0 = None" "rand_seq m 0 = 0"
    and "opaque_map_insert t a s = Some (k, s')" "k \<noteq> 0" "opaque_map_remove k s' = Some (b, s'')"
  shows "opaque_map_lookup s' 0 = Some a \<and> opaque_map_lookup s'' 0 = Some a"
proof -
  have "opaque_map_lookup s' 0 = Some a"
    using assms(4,5)
  proof (rule opaque_map_insert_sound)
    fix m' n r
    assume m: "opaque_map s = Some m'" "k = GUINT_TO_POINTER (rand_seq m' n)" "fresh_draw (rand_seq m') (table m') n"
      "s' = s\<lparr>opaque_map := Some \<lparr>rand_seq = (\<lambda>i. rand_seq m' (Suc n + i)),
              table = (if table m' 0 = None \<and> (\<exists>i<n. rand_seq m' i = 0)
                       then (table m')(0 \<mapsto> a) else table m')(k \<mapsto> a)\<rparr>,
            refs := (refs s)(a \<mapsto> r\<lparr>ref_type := t, ref_key := k\<rparr>)\<rparr>"
    have "0 < n" using m assms(1,3) by (metis fresh_draw_def not_gr_zero option.inject)
    then show ?thesis using m assms by (auto simp: opaque_map_lookup_def)
  qed
  moreover from this have "opaque_map_lookup s'' 0 = Some a"
    using lookup_after_remove [OF assms(6), of 0] assms(5) by auto
  ultimately show ?thesis ..
qed

definition zero_map_run :: "(key \<times> opq \<times> bool \<times> opq) option" where
  "zero_map_run = do { (k, s') \<leftarrow> opaque_map_insert OPAQUE_GROUP 1 zero_map;
     (b, s'') \<leftarrow> opaque_map_remove k s'; Some (k, s', b, s'') }"

theorem zero_draw_leaves_entry_witness:
  "\<exists>k s' b s''. zero_map_run = Some (k, s', b, s'') \<and> opaque_map_lookup s'' 0 = Some 1"
proof -
  have "map_option (\<lambda>(k, _). k) zero_map_run = Some 7" by code_simp
  then obtain s' b s'' where run: "zero_map_run = Some (7, s', b, s'')" by auto
  then have "opaque_map_insert OPAQUE_GROUP 1 zero_map = Some (7, s')" "opaque_map_remove 7 s' = Some (b, s'')"
    by (auto simp: zero_map_run_def)
  from zero_draw_leaves_entry [OF _ _ _ this(1) _ this(2)] have "opaque_map_lookup s'' 0 = Some 1"
    by (simp add: zero_map_def)
  with run show ?thesis by blast
qed

subsection \<open>Bit masks\<close>

text \<open>
  C32. On a mask with enough blocks the macros are the operations of a finite set of bit
  numbers: they stay within the allocated blocks for every bit in use, setting and clearing
  a bit adds or removes exactly that number, and the counting loop returns the cardinality.
\<close>

theorem bitmask_is_set:
  assumes "bitmask_wf m" "b < used m"
  shows "\<exists>m1 m2. BITMASK_SET m b = Some m1 \<and> BITMASK_CLEAR m b = Some m2 \<and> bitmask_wf m1 \<and> bitmask_wf m2 \<and>
    bits_of m1 = insert b (bits_of m) \<and> bits_of m2 = bits_of m - {b} \<and>
    BITMASK_TEST m b = Some (b \<in> bits_of m) \<and>
    bitmask_num_set m = Some (card (bits_of m)) \<and> BITMASK_NUM_BITS_CLEAR m = Some (used m - card (bits_of m))"
  using bm.add_ok [OF assms] bm.rem_ok [OF assms] bm.test_elems [OF assms] bm.count_ok [OF assms(1)]
  by (auto simp: BITMASK_NUM_BITS_CLEAR_def)

theorem bitmask_is_set_witness:
  "\<exists>m1 m2. BITMASK_SET (DECLARE_BITMASK_AUTO 20 5) 3 = Some m1 \<and> BITMASK_CLEAR (DECLARE_BITMASK_AUTO 20 5) 3 = Some m2 \<and>
     bits_of m1 = insert 3 (bits_of (DECLARE_BITMASK_AUTO 20 5))"
proof -
  have "bitmask_wf (DECLARE_BITMASK_AUTO 20 5)" by (simp add: bitmask_wf_def DECLARE_BITMASK_AUTO_def block_defs)
  from bitmask_is_set [OF this, of 3] show ?thesis by (force simp: DECLARE_BITMASK_AUTO_def)
qed

end
