(* ===== verification/Stale_Statistics.thy ===== *)
theory Stale_Statistics
  imports Example_Lib
begin

text \<open>
  Groups that carry statistics. Changing the members of such a group releases the list of
  its statistics, but the group keeps the pointer to it. The next operation that walks the
  list reads released memory: another change of the members, the creation of a statistic,
  the deletion of a statistic of the group, or the destruction of the group.
\<close>

lemma stop_thread_frame:
  "stop_thread a s = Some s' \<Longrightarrow> grps s' = grps s \<and> links s' = links s"
  by (auto simp: stop_thread_def split: if_splits)

lemma stat_invalidate_frame:
  "stat_invalidate_callback a s = Some s' \<Longrightarrow> grps s' = grps s \<and> links s' = links s"
  by (auto simp: stat_invalidate_callback_def dest: stop_thread_frame split: if_splits)

lemma foreach_frame:
  assumes "\<And>d s s'. f d s = Some s' \<Longrightarrow> grps s' = grps s \<and> links s' = links s"
  shows "g_list_foreach f l s = Some s' \<Longrightarrow> grps s' = grps s \<and> links s' = links s"
proof (induction l arbitrary: s)
  case (Cons e l)
  then show ?case by (cases e) (auto dest: assms Cons.IH)
qed simp

lemma invalidate_dangles:
  assumes "grps s a = Some g" "grp_stat_list g \<noteq> []" "group_invalidate_statistics a s = Some s'"
  shows "grps s' = grps s" "\<not> glist_live s' (grp_stat_list g)"
proof -
  let ?l = "grp_stat_list g"
  from assms obtain s1 where s1: "g_list_foreach stat_invalidate_callback ?l s = Some s1"
    "s' = s1\<lparr>links := links s1 |` (- fst ` set ?l)\<rparr>"
    by (auto simp: group_invalidate_statistics_def g_list_free_full_def split: if_splits)
  from foreach_frame [OF stat_invalidate_frame s1(1)] s1(2) show "grps s' = grps s" by simp
  from assms(2) obtain n d where "(n, d) \<in> set ?l" by (metis list.set_sel(1) surj_pair)
  then have "(n, d) \<in> set ?l" "links s' n = None" using s1(2) by (force simp: restrict_map_def)+
  then show "\<not> glist_live s' ?l" by (force simp: glist_live_def)
qed

text \<open>A group whose list of statistics has been released.\<close>

definition stale_stats :: "addr \<Rightarrow> lib \<Rightarrow> bool" where
  "stale_stats a s \<longleftrightarrow> (\<exists>g. grps s a = Some g \<and> grp_stat_list g \<noteq> [] \<and> \<not> glist_live s (grp_stat_list g))"

lemma stale_invalidate: "stale_stats a s \<Longrightarrow> group_invalidate_statistics a s = None"
  by (auto simp: stale_stats_def group_invalidate_statistics_def g_list_free_full_def)

lemma stale_after_insert:
  assumes g: "grps s a = Some g" "grp_stat_list g \<noteq> []" and new: "x \<notin> set (grp_list g)"
    and ins: "group_insert_obj a x s = Some (r, s')"
  shows "stale_stats a s'"
proof -
  from ins g new obtain s1 g1 where inv: "group_invalidate_statistics a s = Some s1" "grps s1 a = Some g1"
    "s' = s1\<lparr>grps := (grps s1)(a \<mapsto> g1\<lparr>grp_list := g_sequence_insert_sorted (grp_list g1) x\<rparr>)\<rparr>"
    by (auto simp: group_insert_obj_def g_sequence_lookup_None split: if_splits)
  with invalidate_dangles [OF g inv(1)] g show ?thesis by (auto simp: stale_stats_def glist_live_def)
qed

lemma stale_after_remove:
  assumes g: "grps s a = Some g" "grp_stat_list g \<noteq> []" and mem: "x \<in> set (grp_list g)"
    and rem: "group_remove_obj a x s = Some (r, s')"
  shows "stale_stats a s'"
proof -
  from mem have "g_sequence_lookup (grp_list g) x \<noteq> None" by (simp add: g_sequence_lookup_None)
  with rem g obtain i s1 g1 where inv: "group_invalidate_statistics a s = Some s1" "grps s1 a = Some g1"
    "s' = s1\<lparr>grps := (grps s1)(a \<mapsto> g1\<lparr>grp_list := g_sequence_remove (grp_list g1) i\<rparr>)\<rparr>"
    by (auto simp: group_remove_obj_def)
  with invalidate_dangles [OF g inv(1)] g show ?thesis by (auto simp: stale_stats_def glist_live_def)
qed

lemma stale_insert:
  assumes "stale_stats a s" "grps s a = Some g" "y \<notin> set (grp_list g)"
  shows "group_insert_obj a y s = None"
  using assms stale_invalidate [OF assms(1)] by (auto simp: group_insert_obj_def g_sequence_lookup_None)

lemma stale_del_group: "stale_stats a s \<Longrightarrow> del_group a s = None"
  using stale_invalidate by (simp add: del_group_def)

lemma stale_remove:
  assumes "stale_stats a s" "grps s a = Some g" "y \<in> set (grp_list g)"
  shows "group_remove_obj a y s = None"
  using assms stale_invalidate [OF assms(1)] g_sequence_lookup_None [of "grp_list g" y]
  by (auto simp: group_remove_obj_def split: option.splits)

text \<open>
  C37. Adding an object to a group that carries statistics makes the group unusable: whatever
  object is added or removed next, and when the group is destroyed, the library reads the
  list of statistics that the first addition released.
\<close>

theorem insert_leaves_stale_statistics:
  assumes "grps s a = Some g" "grp_stat_list g \<noteq> []" "x \<notin> set (grp_list g)"
    and "group_insert_obj a x s = Some (r, s')" "grps s' a = Some g'"
  shows "del_group a s' = None \<and>
    (if y \<in> set (grp_list g') then group_remove_obj a y s' else group_insert_obj a y s') = None"
  using stale_after_insert [OF assms(1-4)] assms(5)
  by (simp add: stale_del_group stale_insert stale_remove)

text \<open>
  The example state with one group that has one statistic (of no particular attribute) and
  no members; \<open>None\<close> if one of the steps failed.
\<close>

definition example_stats :: "lib option" where
  "example_stats =
     do {
       (_, _, s) \<leftarrow> exec_call (GrpCreate example_ctx) example_lib;
       (_, s) \<leftarrow> group_new_statistic 8 s;
       Some s
     }"

lemma example_stats_shape:
  "map_option (\<lambda>s. map_option (\<lambda>g. (grp_list g, grp_stat_list g)) (grps s 8)) example_stats = Some (Some ([], [(12, 10)]))"
  by code_simp

lemma example_stats_insert:
  "map_option (\<lambda>s. map_option (\<lambda>(r, s'). (r, map_option grp_list (grps s' 8))) (group_insert_obj 8 2 s)) example_stats =
    Some (Some (True, Some [2]))"
  by code_simp

theorem insert_leaves_stale_statistics_witness:
  "\<exists>s s'. example_stats = Some s \<and> group_insert_obj 8 2 s = Some (True, s') \<and>
     del_group 8 s' = None \<and> group_insert_obj 8 3 s' = None"
proof -
  obtain s g where s: "example_stats = Some s" "grps s 8 = Some g" "grp_list g = []" "grp_stat_list g \<noteq> []"
    using example_stats_shape by auto
  moreover obtain s' g' where "group_insert_obj 8 2 s = Some (True, s')" "grps s' 8 = Some g'" "grp_list g' = [2]"
    using example_stats_insert unfolding s(1) by auto
  ultimately show ?thesis using insert_leaves_stale_statistics [of s 8 g 2 True s' g' 3]
    by (intro exI [of _ s] exI [of _ s']) simp
qed

end
