(* ===== verification/Attr_Tables.thy ===== *)
theory Attr_Tables
  imports Bitmask
begin

text \<open>
  The static tables of \<^verbatim>\<open>lib/object.c\<close>: the names and descriptions of object types
  and attributes, the masks that say which attributes an object type supports, and the
  functions that only read these tables. A table is a list indexed by the enumerator; an
  index outside the table is undefined behaviour in C and \<open>None\<close> here.
\<close>

subsection \<open>Names and descriptions\<close>

abbreviation CRAY_PWR_MAX_STRING_SIZE :: nat where "CRAY_PWR_MAX_STRING_SIZE \<equiv> 64"

definition table_at :: "'a list \<Rightarrow> int \<Rightarrow> 'a option" where
  "table_at t i = (if 0 \<le> i \<and> nat i < length t then Some (t ! nat i) else None)"

definition obj_names :: "string list" where
  "obj_names =
     [''PWR_OBJ_PLATFORM'', ''PWR_OBJ_CABINET'', ''PWR_OBJ_CHASSIS'', ''PWR_OBJ_BOARD'', ''PWR_OBJ_NODE'',
      ''PWR_OBJ_SOCKET'', ''PWR_OBJ_CORE'', ''PWR_OBJ_POWER_PLANE'', ''PWR_OBJ_MEM'', ''PWR_OBJ_NIC'',
      ''PWR_OBJ_HT'']"

definition obj_desc :: "string list" where
  "obj_desc =
     [''Unsupported by implementation'', ''Unsupported by implementation'',
      ''Unsupported by implementation'', ''Unsupported by implementation'', ''Compute node'',
      ''Integrated ciruit package installed in socket'',
      ''Processor core in an integrated circuit package'',
      ''A collection of components with the same power source'',
      ''Memory attached to a socket'', ''Unsupported by implementation'',
      ''Hardware thread in a processor core'']"

definition attr_name :: "string list" where
  "attr_name =
     [''PWR_ATTR_PSTATE'', ''PWR_ATTR_CSTATE'', ''PWR_ATTR_CSTATE_LIMIT'', ''PWR_ATTR_SSTATE'',
      ''PWR_ATTR_CURRENT'', ''PWR_ATTR_VOLTAGE'', ''PWR_ATTR_POWER'', ''PWR_ATTR_POWER_LIMIT_MIN'',
      ''PWR_ATTR_POWER_LIMIT_MAX'', ''PWR_ATTR_FREQ'', ''PWR_ATTR_FREQ_REQ'', ''PWR_ATTR_FREQ_LIMIT_MIN'',
      ''PWR_ATTR_FREQ_LIMIT_MAX'', ''PWR_ATTR_ENERGY'', ''PWR_ATTR_TEMP'', ''PWR_ATTR_OS_ID'',
      ''PWR_ATTR_THROTTLED_TIME'', ''PWR_ATTR_THROTTLED_COUNT'', ''PWR_ATTR_GOV'']"

definition attr_desc :: "string list" where
  "attr_desc =
     [''Current P-state for the %s object'',
      ''current C-state for the %s object'',
      ''Lowest C-state allowed for the %s object'',
      ''Current S-state for the %s object'',
      ''Discrete current value in amps for the %s object'',
      ''Discrete voltage value in volts for the %s object'',
      ''Discrete power value in watts for the %s object'',
      ''Minimum power limit, lower bound, in watts for the %s object'',
      ''Maximum power limit, upper bound, in watts for the %s object'',
      ''Current operating frequency value, in Hz, for the %s object'',
      ''Requested operating frequency value, in Hz, for the %s object'',
      ''Minimum operating frequency limit, in Hz, for the %s object'',
      ''Maximum operating frequency limit, in Hz, for the %s object'',
      ''Cumulative energy used, in joules, for the %s object'',
      ''Current temperature, in degrees Celsius, for the %s object'',
      ''Operating system identifier for the %s object'',
      ''The cumulative time, in nanoseconds, that performance of the'' @
      '' %s object was purposefully slowed in order to meet'' @
      '' some constraint, such as a power limit'',
      ''The cumulative count of the number of times that performance'' @
      '' of the %s object was purposefully slowed in order to'' @
      '' meet some constraint, such as a power limit'',
      ''Power related frequency governer capability exposed through'' @
      '' the operating system interface for the %s object.'']"

text \<open>
  \<^verbatim>\<open>sprintf\<close> with one string argument: \<open>None\<close> for a format with any other
  conversion, or with more than one.
\<close>

fun sprintf_s :: "string \<Rightarrow> string option \<Rightarrow> string option" where
  "sprintf_s [] arg = Some []"
| "sprintf_s (c # fmt) arg =
     (if c = CHR ''%'' then
        case (fmt, arg) of
          (d # rest, Some a) \<Rightarrow> if d = CHR ''s'' then map_option (\<lambda>r. a @ r) (sprintf_s rest None) else None
        | _ \<Rightarrow> None
      else map_option (\<lambda>r. c # r) (sprintf_s fmt arg))"

text \<open>
  \<^verbatim>\<open>g_strlcpy\<close> and \<^verbatim>\<open>snprintf\<close> with \<^verbatim>\<open>"%s"\<close> store at most
  \<open>len - 1\<close> characters and the terminating null (nothing if \<open>len\<close> is zero); the
  stored string is the prefix, \<open>None\<close> if nothing was stored.
\<close>

definition copy_bounded :: "string \<Rightarrow> nat \<Rightarrow> string option" where
  "copy_bounded src len = (if len = 0 then None else Some (take (len - 1) src))"

subsection \<open>Which attributes an object type supports\<close>

definition attr_mask :: "int list \<Rightarrow> bitmask_t" where
  "attr_mask attrs =
     DECLARE_BITMASK_AUTO (nat PWR_NUM_ATTR_NAMES) (fold (\<lambda>a m. m OR BITBLOCK_MASK (nat a)) attrs 0)"

definition node_attr_bitmask :: bitmask_t where
  "node_attr_bitmask = attr_mask [PWR_ATTR_POWER, PWR_ATTR_POWER_LIMIT_MAX, PWR_ATTR_ENERGY, PWR_ATTR_OS_ID]"

definition socket_attr_bitmask :: bitmask_t where
  "socket_attr_bitmask = attr_mask [PWR_ATTR_POWER, PWR_ATTR_POWER_LIMIT_MAX, PWR_ATTR_ENERGY, PWR_ATTR_TEMP,
     PWR_ATTR_OS_ID, PWR_ATTR_THROTTLED_TIME]"

definition mem_attr_bitmask :: bitmask_t where
  "mem_attr_bitmask = attr_mask [PWR_ATTR_POWER, PWR_ATTR_POWER_LIMIT_MAX, PWR_ATTR_ENERGY, PWR_ATTR_OS_ID,
     PWR_ATTR_THROTTLED_TIME]"

definition pplane_attr_bitmask :: bitmask_t where
  "pplane_attr_bitmask = attr_mask [PWR_ATTR_POWER, PWR_ATTR_ENERGY, PWR_ATTR_OS_ID]"

definition core_attr_bitmask :: bitmask_t where
  "core_attr_bitmask = attr_mask [PWR_ATTR_TEMP, PWR_ATTR_OS_ID]"

definition ht_attr_bitmask :: bitmask_t where
  "ht_attr_bitmask = attr_mask [PWR_ATTR_CSTATE_LIMIT, PWR_ATTR_FREQ, PWR_ATTR_FREQ_REQ, PWR_ATTR_FREQ_LIMIT_MIN,
     PWR_ATTR_FREQ_LIMIT_MAX, PWR_ATTR_OS_ID, PWR_ATTR_GOV]"

definition supported_attr_bitmask :: bitmask_t where
  "supported_attr_bitmask = attr_mask [PWR_ATTR_POWER, PWR_ATTR_POWER_LIMIT_MAX, PWR_ATTR_CSTATE_LIMIT,
     PWR_ATTR_FREQ, PWR_ATTR_FREQ_REQ, PWR_ATTR_FREQ_LIMIT_MIN, PWR_ATTR_FREQ_LIMIT_MAX, PWR_ATTR_ENERGY,
     PWR_ATTR_TEMP, PWR_ATTR_OS_ID, PWR_ATTR_THROTTLED_TIME, PWR_ATTR_GOV]"

definition TEST_OBJ_ATTR :: "bitmask_t \<Rightarrow> int \<Rightarrow> int option" where
  "TEST_OBJ_ATTR m attr =
     map_option (\<lambda>b. if b then PWR_RET_SUCCESS else PWR_RET_NO_ATTRIB) (BITMASK_TEST m (nat attr))"

text \<open>The mask of an object type, as the three \<^verbatim>\<open>switch\<close> statements below select it.\<close>

definition type_mask :: "int \<Rightarrow> bitmask_t option" where
  "type_mask t =
     (if t = PWR_OBJ_NODE then Some node_attr_bitmask
      else if t = PWR_OBJ_SOCKET then Some socket_attr_bitmask
      else if t = PWR_OBJ_CORE then Some core_attr_bitmask
      else if t = PWR_OBJ_POWER_PLANE then Some pplane_attr_bitmask
      else if t = PWR_OBJ_MEM then Some mem_attr_bitmask
      else if t = PWR_OBJ_HT then Some ht_attr_bitmask
      else None)"

text \<open>\<open>validate_attr\<close> only reads the type of the object.\<close>

definition validate_attr :: "int \<Rightarrow> int \<Rightarrow> int option" where
  "validate_attr obj_type attr =
     (if attr < 0 \<or> attr \<ge> PWR_NUM_ATTR_NAMES then Some PWR_RET_OUT_OF_RANGE
      else case type_mask obj_type of
             Some m \<Rightarrow> TEST_OBJ_ATTR m attr
           | None \<Rightarrow> Some PWR_RET_INVALID)"

subsection \<open>Listing the attributes\<close>

definition CRAYPWR_AttrGetCount :: "int \<Rightarrow> (int \<times> nat option) option" where
  "CRAYPWR_AttrGetCount obj =
     (if obj \<ge> PWR_NUM_OBJ_TYPES then Some (PWR_RET_OUT_OF_RANGE, None)
      else if obj < 0 then map_option (\<lambda>n. (PWR_RET_SUCCESS, Some n)) (bitmask_num_set supported_attr_bitmask)
      else case type_mask obj of
             Some m \<Rightarrow> map_option (\<lambda>n. (PWR_RET_SUCCESS, Some n)) (bitmask_num_set m)
           | None \<Rightarrow> Some (PWR_RET_NO_ATTRIB, None))"

text \<open>
  The loop of \<open>get_attr_list\<close>: the values stored so far are \<open>acc\<close>, their number is
  the variable \<^verbatim>\<open>set\<close>. It returns the final bit and the list.
\<close>

function attr_list_loop :: "bitmask_t \<Rightarrow> nat \<Rightarrow> nat \<Rightarrow> nat list \<Rightarrow> (nat \<times> nat list) option" where
  "attr_list_loop m len b acc =
     (if b < used m \<and> length acc < len then
        case BITMASK_TEST m b of
          None \<Rightarrow> None
        | Some t \<Rightarrow> attr_list_loop m len (Suc b) (if t then acc @ [b] else acc)
      else Some (b, acc))"
  by pat_completeness auto
termination
  by (relation "measure (\<lambda>(m, len, b, acc). used m - b)") auto

declare attr_list_loop.simps [simp del]

text \<open>The values and the names that the function stores in the caller's two arrays.\<close>

definition get_attr_list :: "bitmask_t \<Rightarrow> nat \<Rightarrow> (int \<times> nat list \<times> string list) option" where
  "get_attr_list m len =
     do {
       (b, vals) \<leftarrow> attr_list_loop m len 0 [];
       names \<leftarrow> those (map (\<lambda>v. table_at attr_name (int v)) vals);
       Some (if b < used m then PWR_RET_WARN_TRUNC else PWR_RET_SUCCESS, vals, names)
     }"

definition CRAYPWR_AttrGetList :: "int \<Rightarrow> nat \<Rightarrow> (int \<times> nat list \<times> string list) option" where
  "CRAYPWR_AttrGetList obj len =
     (if obj \<ge> PWR_NUM_OBJ_TYPES then Some (PWR_RET_OUT_OF_RANGE, [], [])
      else if obj < 0 then get_attr_list supported_attr_bitmask len
      else case type_mask obj of
             Some m \<Rightarrow> get_attr_list m len
           | None \<Rightarrow> Some (PWR_RET_NO_ATTRIB, [], []))"

text \<open>\<open>buf\<close> is whether the caller passed a buffer.\<close>

definition CRAYPWR_AttrGetName :: "int \<Rightarrow> bool \<Rightarrow> nat \<Rightarrow> (int \<times> string option) option" where
  "CRAYPWR_AttrGetName attr buf max_len =
     (if buf \<and> 0 < max_len \<and> 0 \<le> attr \<and> attr < PWR_NUM_ATTR_NAMES
      then do { nm \<leftarrow> table_at attr_name attr; Some (PWR_RET_SUCCESS, copy_bounded nm max_len) }
      else Some (PWR_RET_FAILURE, None))"

fun attr_enum_loop :: "string \<Rightarrow> string list \<Rightarrow> int \<Rightarrow> int" where
  "attr_enum_loop nm [] index = PWR_ATTR_INVALID"
| "attr_enum_loop nm (x # xs) index = (if nm = x then index else attr_enum_loop nm xs (index + 1))"

definition CRAYPWR_AttrGetEnum :: "string \<Rightarrow> int" where
  "CRAYPWR_AttrGetEnum attrname = attr_enum_loop attrname attr_name 0"

subsection \<open>The masks as sets of attributes\<close>

definition attrs_of :: "bitmask_t \<Rightarrow> int set" where
  "attrs_of m = int ` bits_of m"

lemma attr_mask_wf [simp]: "bitmask_wf (attr_mask attrs)" "used (attr_mask attrs) = 19"
  by (simp_all add: attr_mask_def DECLARE_BITMASK_AUTO_def bitmask_wf_def block_defs)

lemma bit_fold_mask:
  "\<forall>a \<in> set attrs. 0 \<le> a \<and> a < 64 \<Longrightarrow> n < 64 \<Longrightarrow>
   bit (fold (\<lambda>a m. m OR BITBLOCK_MASK (nat a)) attrs v) n \<longleftrightarrow> bit v n \<or> int n \<in> set attrs"
proof (induction attrs arbitrary: v)
  case (Cons a attrs)
  then have "nat a mod 64 = nat a" "n = nat a \<longleftrightarrow> int n = a" by auto
  with Cons show ?case by (auto simp: BITBLOCK_MASK_def BITBLOCK_WIDTH_def bit_simps)
qed simp

lemma bits_of_attr_mask:
  assumes "\<forall>a \<in> set attrs. 0 \<le> a \<and> a < PWR_NUM_ATTR_NAMES"
  shows "attrs_of (attr_mask attrs) = set attrs"
proof -
  have "b \<in> bits_of (attr_mask attrs) \<longleftrightarrow> int b \<in> set attrs" for b
  proof (cases "b < 19")
    case True
    moreover have "\<forall>a \<in> set attrs. 0 \<le> a \<and> a < 64" using assms by force
    ultimately show ?thesis
      using bit_fold_mask [of attrs b 0]
      by (simp add: bits_of_def attr_mask_def DECLARE_BITMASK_AUTO_def BITMASK_TEST_bit)
  next
    case False
    then show ?thesis using assms by (auto simp: bits_of_def)
  qed
  then have "attrs_of (attr_mask attrs) = {int b |b. int b \<in> set attrs}" by (auto simp: attrs_of_def)
  also have "\<dots> = set attrs" using assms by (auto, metis nonneg_int_cases)
  finally show ?thesis .
qed

lemmas mask_defs = node_attr_bitmask_def socket_attr_bitmask_def mem_attr_bitmask_def pplane_attr_bitmask_def
  core_attr_bitmask_def ht_attr_bitmask_def supported_attr_bitmask_def

lemma type_mask_wf: "type_mask t = Some m \<Longrightarrow> bitmask_wf m \<and> used m = 19"
  by (auto simp: type_mask_def mask_defs split: if_splits)

lemma supported_wf: "bitmask_wf supported_attr_bitmask" "used supported_attr_bitmask = 19"
  by (simp_all add: mask_defs)

lemma validate_attr_total: "\<exists>r. validate_attr t attr = Some r"
  using type_mask_wf [of t]
  by (cases "type_mask t") (auto simp: validate_attr_def TEST_OBJ_ATTR_def TEST_bits_of)

lemma validate_attr_iff:
  assumes "type_mask t = Some m"
  shows "validate_attr t attr = Some PWR_RET_SUCCESS \<longleftrightarrow> attr \<in> attrs_of m"
proof -
  note wf = type_mask_wf [OF assms]
  show ?thesis
  proof (cases "attr < 0 \<or> attr \<ge> PWR_NUM_ATTR_NAMES")
    case True
    then have "attr \<notin> attrs_of m" using wf by (auto simp: attrs_of_def bits_of_def)
    with True show ?thesis by (simp add: validate_attr_def)
  next
    case False
    then have "attr \<in> attrs_of m \<longleftrightarrow> nat attr \<in> bits_of m" by (force simp: attrs_of_def)
    moreover have "nat attr < used m" using False wf by auto
    ultimately show ?thesis using False wf assms
      by (simp add: validate_attr_def TEST_OBJ_ATTR_def TEST_bits_of)
  qed
qed

lemma card_attrs_of: "card (attrs_of m) = card (bits_of m)"
  by (simp add: attrs_of_def card_image)

subsection \<open>The lists\<close>

lemma bits_of_filter: "{b \<in> bits_of m. i \<le> b} = set (filter (\<lambda>b. b \<in> bits_of m) [i..<used m])"
  by (auto simp: bits_of_def)

lemma attr_list_loop_result:
  assumes "bitmask_wf m" "b \<le> used m"
  shows "\<exists>b'. attr_list_loop m len b acc = Some (b', acc @ take (len - length acc) (filter (\<lambda>b. b \<in> bits_of m) [b..<used m])) \<and>
    b' \<le> used m"
  using assms
proof (induction "used m - b" arbitrary: b acc)
  case 0
  then show ?case by (simp add: attr_list_loop.simps)
next
  case (Suc n)
  then have b: "b < used m" by simp
  then have t: "BITMASK_TEST m b = Some (b \<in> bits_of m)" using Suc.prems TEST_bits_of by blast
  have up: "[b..<used m] = b # [Suc b..<used m]" using b by (simp add: upt_conv_Cons)
  show ?case
  proof (cases "length acc < len")
    case True
    let ?acc = "if b \<in> bits_of m then acc @ [b] else acc"
    have "\<exists>b'. attr_list_loop m len (Suc b) ?acc = Some (b', ?acc @ take (len - length ?acc)
        (filter (\<lambda>b. b \<in> bits_of m) [Suc b..<used m])) \<and> b' \<le> used m"
      by (rule Suc.hyps(1)) (use Suc b in auto)
    moreover have "len - length acc = Suc (len - Suc (length acc))" using True by simp
    ultimately show ?thesis
      using True b t by (subst attr_list_loop.simps) (auto simp: up)
  next
    case False
    then show ?thesis using b by (subst attr_list_loop.simps) simp
  qed
qed

lemma table_at_attr_name: "v < 19 \<Longrightarrow> table_at attr_name (int v) = Some (attr_name ! v)"
  by (simp add: table_at_def attr_name_def)

lemma those_map_Some: "\<forall>x \<in> set xs. f x = Some (g x) \<Longrightarrow> those (map f xs) = Some (map g xs)"
  by (induction xs) auto

lemma get_attr_list_result:
  assumes "bitmask_wf m" "used m = 19"
  shows "\<exists>ret. get_attr_list m len = Some (ret, take len (sorted_list_of_set (bits_of m)),
    map (\<lambda>v. attr_name ! v) (take len (sorted_list_of_set (bits_of m))))"
proof -
  let ?l = "filter (\<lambda>b. b \<in> bits_of m) [0..<used m]"
  have set: "set ?l = bits_of m" using bits_of_filter [of m 0] by simp
  have "sorted_list_of_set (set ?l) = ?l"
    by (rule sorted_list_of_set.idem_if_sorted_distinct) (simp_all add: sorted_wrt_filter)
  then have l: "?l = sorted_list_of_set (bits_of m)" using set by simp
  obtain b where loop: "attr_list_loop m len 0 [] = Some (b, take len ?l)"
    using attr_list_loop_result [OF assms(1), of 0 len "[]"] by auto
  have "\<forall>v \<in> set (take len ?l). table_at attr_name (int v) = Some (attr_name ! v)"
    using assms(2) set_take_subset table_at_attr_name by (fastforce simp: table_at_attr_name)
  from those_map_Some [OF this] loop show ?thesis
    unfolding l by (simp add: get_attr_list_def)
qed

end
