(* ===== verification/Timer.thy ===== *)
theory Timer
  imports Pwr_Prelude
begin

text \<open>
  \<^verbatim>\<open>lib/timer.h\<close>: arithmetic on \<^verbatim>\<open>struct timespec\<close> and conversion to
  \<^verbatim>\<open>PWR_Time\<close>, nanoseconds in an unsigned 64-bit integer. The two members are signed;
  \<^verbatim>\<open>NSEC_PER_SEC\<close> is unsigned, so an expression that combines it with a member is
  computed modulo \<open>2 ^ 64\<close> and converted back when it is stored. Sums and differences of
  the members themselves are taken not to overflow.
\<close>

abbreviation NSEC_PER_USEC :: int where "NSEC_PER_USEC \<equiv> 1000"
abbreviation USEC_PER_SEC :: int where "USEC_PER_SEC \<equiv> 1000000"
abbreviation NSEC_PER_SEC :: int where "NSEC_PER_SEC \<equiv> NSEC_PER_USEC * USEC_PER_SEC"

record timespec =
  tv_sec :: int
  tv_nsec :: int

text \<open>The value of a signed 64-bit integer as unsigned, and back.\<close>

definition to_unsigned :: "int \<Rightarrow> int" where
  "to_unsigned x = take_bit 64 x"

definition to_signed :: "int \<Rightarrow> int" where
  "to_signed x = signed_take_bit 63 x"

definition pwr_tspec_add :: "timespec \<Rightarrow> timespec \<Rightarrow> timespec" where
  "pwr_tspec_add a b =
     (let res = \<lparr>tv_sec = tv_sec a + tv_sec b, tv_nsec = tv_nsec a + tv_nsec b\<rparr> in
      if to_unsigned (tv_nsec res) > NSEC_PER_SEC
      then \<lparr>tv_sec = tv_sec res + 1, tv_nsec = to_signed (to_unsigned (tv_nsec res) - NSEC_PER_SEC)\<rparr>
      else res)"

definition pwr_tspec_sub :: "timespec \<Rightarrow> timespec \<Rightarrow> timespec" where
  "pwr_tspec_sub a b =
     (let res = \<lparr>tv_sec = tv_sec a - tv_sec b, tv_nsec = tv_nsec a - tv_nsec b\<rparr> in
      if tv_nsec a < tv_nsec b
      then \<lparr>tv_sec = tv_sec res - 1, tv_nsec = to_signed (to_unsigned (tv_nsec res) + NSEC_PER_SEC)\<rparr>
      else res)"

definition pwr_tspec_to_nsec :: "timespec \<Rightarrow> PWR_Time" where
  "pwr_tspec_to_nsec ts = word_of_int (tv_sec ts * NSEC_PER_SEC) + word_of_int (tv_nsec ts)"

definition pwr_usec_to_nsec :: "64 word \<Rightarrow> PWR_Time" where
  "pwr_usec_to_nsec usec = usec * word_of_int NSEC_PER_USEC"

definition pwr_nsec_to_usec :: "PWR_Time \<Rightarrow> 64 word" where
  "pwr_nsec_to_usec nsec = nsec div word_of_int NSEC_PER_USEC"

subsection \<open>Normal form and value\<close>

definition tspec_normal :: "timespec \<Rightarrow> bool" where
  "tspec_normal ts \<longleftrightarrow> 0 \<le> tv_nsec ts \<and> tv_nsec ts < NSEC_PER_SEC"

definition tspec_nsec :: "timespec \<Rightarrow> int" where
  "tspec_nsec ts = tv_sec ts * NSEC_PER_SEC + tv_nsec ts"

lemma to_unsigned_small: "0 \<le> x \<Longrightarrow> x < 2 ^ 64 \<Longrightarrow> to_unsigned x = x"
  by (simp add: to_unsigned_def take_bit_int_eq_self)

lemma to_signed_small: "- (2 ^ 63) \<le> x \<Longrightarrow> x < 2 ^ 63 \<Longrightarrow> to_signed x = x"
  by (simp add: to_signed_def signed_take_bit_int_eq_self)

lemma to_unsigned_negative:
  assumes "- (2 ^ 64) \<le> x" "x < 0"
  shows "to_unsigned x = x + 2 ^ 64"
proof -
  have "to_unsigned x = (x + 2 ^ 64) mod 2 ^ 64" by (simp add: to_unsigned_def take_bit_eq_mod)
  also have "\<dots> = x + 2 ^ 64" using assms by (intro mod_pos_pos_trivial) simp_all
  finally show ?thesis .
qed

lemma to_signed_add: "to_signed (x + 2 ^ 64) = to_signed x"
  by (simp add: to_signed_def signed_take_bit_eq_iff_take_bit_eq take_bit_eq_mod)

lemma tspec_add_cases:
  assumes "tspec_normal a" "tspec_normal b"
  shows "pwr_tspec_add a b =
    (if tv_nsec a + tv_nsec b > NSEC_PER_SEC
     then \<lparr>tv_sec = tv_sec a + tv_sec b + 1, tv_nsec = tv_nsec a + tv_nsec b - NSEC_PER_SEC\<rparr>
     else \<lparr>tv_sec = tv_sec a + tv_sec b, tv_nsec = tv_nsec a + tv_nsec b\<rparr>)"
  using assms by (simp add: pwr_tspec_add_def Let_def tspec_normal_def to_unsigned_small to_signed_small)

lemma tspec_sub_cases:
  assumes "tspec_normal a" "tspec_normal b"
  shows "pwr_tspec_sub a b =
    (if tv_nsec a < tv_nsec b
     then \<lparr>tv_sec = tv_sec a - tv_sec b - 1, tv_nsec = tv_nsec a - tv_nsec b + NSEC_PER_SEC\<rparr>
     else \<lparr>tv_sec = tv_sec a - tv_sec b, tv_nsec = tv_nsec a - tv_nsec b\<rparr>)"
proof (cases "tv_nsec a < tv_nsec b")
  case True
  let ?d = "tv_nsec a - tv_nsec b"
  have "to_signed (to_unsigned ?d + NSEC_PER_SEC) = to_signed ((?d + NSEC_PER_SEC) + 2 ^ 64)"
    using assms True by (subst to_unsigned_negative) (simp_all add: tspec_normal_def algebra_simps)
  also have "\<dots> = ?d + NSEC_PER_SEC"
    using assms True unfolding to_signed_add by (intro to_signed_small) (simp_all add: tspec_normal_def)
  finally show ?thesis using True by (simp add: pwr_tspec_sub_def Let_def)
qed (simp add: pwr_tspec_sub_def)

lemma tspec_to_nsec_value: "pwr_tspec_to_nsec ts = word_of_int (tspec_nsec ts)"
  by (simp add: pwr_tspec_to_nsec_def tspec_nsec_def)

text \<open>
  Adding and subtracting two normalised time stamps is exact, and a difference is again
  normalised; a sum is normalised except in one case, when the nanoseconds add up to exactly
  one second: then they are stored as they are, because the carry test is strict.
\<close>

theorem tspec_arithmetic:
  assumes "tspec_normal a" "tspec_normal b"
  shows "tspec_nsec (pwr_tspec_add a b) = tspec_nsec a + tspec_nsec b \<and>
    tspec_nsec (pwr_tspec_sub a b) = tspec_nsec a - tspec_nsec b \<and>
    tspec_normal (pwr_tspec_sub a b) \<and>
    (tspec_normal (pwr_tspec_add a b) \<longleftrightarrow> tv_nsec a + tv_nsec b \<noteq> NSEC_PER_SEC)"
  unfolding tspec_add_cases [OF assms] tspec_sub_cases [OF assms]
  using assms by (auto simp: tspec_nsec_def tspec_normal_def)

definition half_second :: timespec where
  "half_second = \<lparr>tv_sec = 1, tv_nsec = 500000000\<rparr>"

theorem tspec_arithmetic_witness:
  "tspec_nsec (pwr_tspec_add half_second half_second) = 2 * tspec_nsec half_second \<and>
   \<not> tspec_normal (pwr_tspec_add half_second half_second)"
  using tspec_arithmetic [of half_second half_second] by (simp add: half_second_def tspec_normal_def)

end
