(* ===== verification/Objects.thy ===== *)
theory Objects
  imports Attr_Tables Timer Group_API
begin

text \<open>
  \<^verbatim>\<open>lib/object.c\<close>: reading and setting attributes of hierarchy objects. The values come
  from a hardware plugin that is loaded at run time through tables of function pointers; it
  is the parameter \<open>P\<close> here, together with the system clock. Its functions act on a state
  of their own (type \<open>'w\<close>) and may or may not store a value in the caller's buffer. An
  attribute value is the 8 bytes of that buffer.
\<close>

subsection \<open>The plugin interface (object.h)\<close>

datatype get_op =
    get_power | get_power_limit_max | get_energy | get_throttled_time | get_temp
  | get_cstate_limit | get_freq | get_freq_req | get_freq_limit_min | get_freq_limit_max | get_governor

datatype set_op =
    set_power_limit_max | set_cstate_limit | set_freq_req | set_freq_limit_min | set_freq_limit_max | set_governor

datatype meta_value = MetaWord "64 word" | MetaString string

type_synonym 'w get_result = "int \<times> 64 word option \<times> timespec option \<times> 'w"

text \<open>
  The functions take the object's address (every object has its own table of functions) and,
  where they change something, the address of the context, whose connection to the daemon
  (\<^verbatim>\<open>context->ipc\<close>) they use.
\<close>

record 'w plugin =
  p_get :: "get_op \<Rightarrow> addr \<Rightarrow> 'w \<Rightarrow> 'w get_result"
  p_set :: "set_op \<Rightarrow> addr \<Rightarrow> addr \<Rightarrow> 64 word \<Rightarrow> 'w \<Rightarrow> int \<times> 'w"
  p_get_meta :: "addr \<Rightarrow> int \<Rightarrow> int \<Rightarrow> 'w \<Rightarrow> int \<times> meta_value option \<times> 'w"
  p_set_meta :: "addr \<Rightarrow> addr \<Rightarrow> int \<Rightarrow> int \<Rightarrow> 64 word \<Rightarrow> 'w \<Rightarrow> int \<times> 'w"
  p_get_meta_at_index :: "addr \<Rightarrow> int \<Rightarrow> nat \<Rightarrow> 'w \<Rightarrow> int \<times> 64 word option \<times> string option \<times> 'w"
  p_clock :: "'w \<Rightarrow> timespec option \<times> 'w"

subsection \<open>Reading an attribute\<close>

definition get_os_id :: "'w plugin \<Rightarrow> 64 word \<Rightarrow> 'w \<Rightarrow> 'w get_result" where
  "get_os_id P os_id w =
     (case p_clock P w of
        (None, w) \<Rightarrow> (PWR_RET_FAILURE, None, None, w)
      | (Some ts, w) \<Rightarrow> (PWR_RET_SUCCESS, Some os_id, Some ts, w))"

definition node_attr_get_value :: "'w plugin \<Rightarrow> addr \<Rightarrow> obj_t \<Rightarrow> int \<Rightarrow> 'w \<Rightarrow> 'w get_result" where
  "node_attr_get_value P a ob attr w =
     (if attr = PWR_ATTR_OS_ID then get_os_id P (obj_os_id ob) w
      else if attr = PWR_ATTR_POWER then p_get P get_power a w
      else if attr = PWR_ATTR_POWER_LIMIT_MAX then p_get P get_power_limit_max a w
      else if attr = PWR_ATTR_ENERGY then p_get P get_energy a w
      else (PWR_RET_NOT_IMPLEMENTED, None, None, w))"

definition socket_attr_get_value :: "'w plugin \<Rightarrow> addr \<Rightarrow> obj_t \<Rightarrow> int \<Rightarrow> 'w \<Rightarrow> 'w get_result" where
  "socket_attr_get_value P a ob attr w =
     (if attr = PWR_ATTR_OS_ID then get_os_id P (obj_os_id ob) w
      else if attr = PWR_ATTR_POWER then p_get P get_power a w
      else if attr = PWR_ATTR_POWER_LIMIT_MAX then p_get P get_power_limit_max a w
      else if attr = PWR_ATTR_ENERGY then p_get P get_energy a w
      else if attr = PWR_ATTR_THROTTLED_TIME then p_get P get_throttled_time a w
      else if attr = PWR_ATTR_TEMP then p_get P get_temp a w
      else (PWR_RET_NOT_IMPLEMENTED, None, None, w))"

definition core_attr_get_value :: "'w plugin \<Rightarrow> addr \<Rightarrow> obj_t \<Rightarrow> int \<Rightarrow> 'w \<Rightarrow> 'w get_result" where
  "core_attr_get_value P a ob attr w =
     (if attr = PWR_ATTR_OS_ID then get_os_id P (obj_os_id ob) w
      else if attr = PWR_ATTR_TEMP then p_get P get_temp a w
      else (PWR_RET_NOT_IMPLEMENTED, None, None, w))"

definition pplane_attr_get_value :: "'w plugin \<Rightarrow> addr \<Rightarrow> obj_t \<Rightarrow> int \<Rightarrow> 'w \<Rightarrow> 'w get_result" where
  "pplane_attr_get_value P a ob attr w =
     (if attr = PWR_ATTR_OS_ID then get_os_id P (obj_os_id ob) w
      else if attr = PWR_ATTR_POWER then p_get P get_power a w
      else if attr = PWR_ATTR_ENERGY then p_get P get_energy a w
      else (PWR_RET_NOT_IMPLEMENTED, None, None, w))"

definition mem_attr_get_value :: "'w plugin \<Rightarrow> addr \<Rightarrow> obj_t \<Rightarrow> int \<Rightarrow> 'w \<Rightarrow> 'w get_result" where
  "mem_attr_get_value P a ob attr w =
     (if attr = PWR_ATTR_OS_ID then get_os_id P (obj_os_id ob) w
      else if attr = PWR_ATTR_POWER then p_get P get_power a w
      else if attr = PWR_ATTR_POWER_LIMIT_MAX then p_get P get_power_limit_max a w
      else if attr = PWR_ATTR_ENERGY then p_get P get_energy a w
      else if attr = PWR_ATTR_THROTTLED_TIME then p_get P get_throttled_time a w
      else (PWR_RET_NOT_IMPLEMENTED, None, None, w))"

definition ht_attr_get_value :: "'w plugin \<Rightarrow> addr \<Rightarrow> obj_t \<Rightarrow> int \<Rightarrow> 'w \<Rightarrow> 'w get_result" where
  "ht_attr_get_value P a ob attr w =
     (if attr = PWR_ATTR_OS_ID then get_os_id P (obj_os_id ob) w
      else if attr = PWR_ATTR_CSTATE_LIMIT then p_get P get_cstate_limit a w
      else if attr = PWR_ATTR_FREQ then p_get P get_freq a w
      else if attr = PWR_ATTR_FREQ_REQ then p_get P get_freq_req a w
      else if attr = PWR_ATTR_FREQ_LIMIT_MIN then p_get P get_freq_limit_min a w
      else if attr = PWR_ATTR_FREQ_LIMIT_MAX then p_get P get_freq_limit_max a w
      else if attr = PWR_ATTR_GOV then p_get P get_governor a w
      else (PWR_RET_NOT_IMPLEMENTED, None, None, w))"

text \<open>The \<^verbatim>\<open>switch\<close> on the object type in \<^verbatim>\<open>PWR_ObjAttrGetValue\<close>.\<close>

definition obj_attr_get_value :: "'w plugin \<Rightarrow> addr \<Rightarrow> obj_t \<Rightarrow> int \<Rightarrow> 'w \<Rightarrow> 'w get_result" where
  "obj_attr_get_value P a ob attr w =
     (if obj_type ob = PWR_OBJ_NODE then node_attr_get_value P a ob attr w
      else if obj_type ob = PWR_OBJ_SOCKET then socket_attr_get_value P a ob attr w
      else if obj_type ob = PWR_OBJ_CORE then core_attr_get_value P a ob attr w
      else if obj_type ob = PWR_OBJ_POWER_PLANE then pplane_attr_get_value P a ob attr w
      else if obj_type ob = PWR_OBJ_MEM then mem_attr_get_value P a ob attr w
      else if obj_type ob = PWR_OBJ_HT then ht_attr_get_value P a ob attr w
      else (PWR_RET_FAILURE, None, None, w))"

subsection \<open>Setting an attribute\<close>

text \<open>
  The six functions and \<open>forward_attr_set_value\<close> call each other. Each of the six takes the
  forwarding function as the argument \<open>fwd\<close>; the recursion is tied below. \<open>c\<close> is the
  context, \<open>v\<close> the value.
\<close>

type_synonym 'w forwarder = "addr \<Rightarrow> 'w \<Rightarrow> (int \<times> 'w) option"

definition node_attr_set_value ::
  "'w forwarder \<Rightarrow> 'w plugin \<Rightarrow> addr \<Rightarrow> int \<Rightarrow> 64 word \<Rightarrow> addr \<Rightarrow> 'w \<Rightarrow> (int \<times> 'w) option" where
  "node_attr_set_value fwd P c attr v a w =
     (if attr = PWR_ATTR_OS_ID \<or> attr = PWR_ATTR_POWER \<or> attr = PWR_ATTR_ENERGY then Some (PWR_RET_READ_ONLY, w)
      else fwd a w)"

definition socket_attr_set_value ::
  "'w forwarder \<Rightarrow> 'w plugin \<Rightarrow> addr \<Rightarrow> int \<Rightarrow> 64 word \<Rightarrow> addr \<Rightarrow> 'w \<Rightarrow> (int \<times> 'w) option" where
  "socket_attr_set_value fwd P c attr v a w =
     (if attr = PWR_ATTR_OS_ID \<or> attr = PWR_ATTR_POWER \<or> attr = PWR_ATTR_ENERGY \<or>
         attr = PWR_ATTR_THROTTLED_TIME \<or> attr = PWR_ATTR_TEMP then Some (PWR_RET_READ_ONLY, w)
      else if attr = PWR_ATTR_POWER_LIMIT_MAX then Some (p_set P set_power_limit_max a c v w)
      else fwd a w)"

definition core_attr_set_value ::
  "'w forwarder \<Rightarrow> 'w plugin \<Rightarrow> addr \<Rightarrow> int \<Rightarrow> 64 word \<Rightarrow> addr \<Rightarrow> 'w \<Rightarrow> (int \<times> 'w) option" where
  "core_attr_set_value fwd P c attr v a w =
     (if attr = PWR_ATTR_OS_ID \<or> attr = PWR_ATTR_TEMP then Some (PWR_RET_READ_ONLY, w) else fwd a w)"

definition pplane_attr_set_value ::
  "'w forwarder \<Rightarrow> 'w plugin \<Rightarrow> addr \<Rightarrow> int \<Rightarrow> 64 word \<Rightarrow> addr \<Rightarrow> 'w \<Rightarrow> (int \<times> 'w) option" where
  "pplane_attr_set_value fwd P c attr v a w =
     (if attr = PWR_ATTR_OS_ID \<or> attr = PWR_ATTR_POWER \<or> attr = PWR_ATTR_ENERGY then Some (PWR_RET_READ_ONLY, w)
      else fwd a w)"

definition mem_attr_set_value ::
  "'w forwarder \<Rightarrow> 'w plugin \<Rightarrow> addr \<Rightarrow> int \<Rightarrow> 64 word \<Rightarrow> addr \<Rightarrow> 'w \<Rightarrow> (int \<times> 'w) option" where
  "mem_attr_set_value fwd P c attr v a w =
     (if attr = PWR_ATTR_OS_ID \<or> attr = PWR_ATTR_POWER \<or> attr = PWR_ATTR_ENERGY \<or>
         attr = PWR_ATTR_THROTTLED_TIME then Some (PWR_RET_READ_ONLY, w)
      else if attr = PWR_ATTR_POWER_LIMIT_MAX then Some (p_set P set_power_limit_max a c v w)
      else fwd a w)"

definition ht_attr_set_value ::
  "'w forwarder \<Rightarrow> 'w plugin \<Rightarrow> addr \<Rightarrow> int \<Rightarrow> 64 word \<Rightarrow> addr \<Rightarrow> 'w \<Rightarrow> (int \<times> 'w) option" where
  "ht_attr_set_value fwd P c attr v a w =
     (if attr = PWR_ATTR_OS_ID \<or> attr = PWR_ATTR_FREQ then Some (PWR_RET_READ_ONLY, w)
      else if attr = PWR_ATTR_CSTATE_LIMIT then Some (p_set P set_cstate_limit a c v w)
      else if attr = PWR_ATTR_FREQ_REQ then Some (p_set P set_freq_req a c v w)
      else if attr = PWR_ATTR_FREQ_LIMIT_MIN then Some (p_set P set_freq_limit_min a c v w)
      else if attr = PWR_ATTR_FREQ_LIMIT_MAX then Some (p_set P set_freq_limit_max a c v w)
      else if attr = PWR_ATTR_GOV then Some (p_set P set_governor a c v w)
      else fwd a w)"

text \<open>The \<^verbatim>\<open>switch\<close> on the object type; \<open>dflt\<close> is the status of its default case.\<close>

definition set_switch ::
  "int \<Rightarrow> 'w forwarder \<Rightarrow> 'w plugin \<Rightarrow> addr \<Rightarrow> int \<Rightarrow> 64 word \<Rightarrow> addr \<Rightarrow> obj_t \<Rightarrow> 'w \<Rightarrow> (int \<times> 'w) option" where
  "set_switch dflt fwd P c attr v a ob w =
     (if obj_type ob = PWR_OBJ_NODE then node_attr_set_value fwd P c attr v a w
      else if obj_type ob = PWR_OBJ_SOCKET then socket_attr_set_value fwd P c attr v a w
      else if obj_type ob = PWR_OBJ_CORE then core_attr_set_value fwd P c attr v a w
      else if obj_type ob = PWR_OBJ_POWER_PLANE then pplane_attr_set_value fwd P c attr v a w
      else if obj_type ob = PWR_OBJ_MEM then mem_attr_set_value fwd P c attr v a w
      else if obj_type ob = PWR_OBJ_HT then ht_attr_set_value fwd P c attr v a w
      else Some (dflt, w))"

text \<open>What one child's status does to the collected status.\<close>

definition merge_status :: "int \<Rightarrow> int \<Rightarrow> int" where
  "merge_status retval status =
     (let retval = (if retval = PWR_RET_SUCCESS then status else retval) in
      if status \<noteq> retval \<and> status < PWR_RET_SUCCESS then PWR_RET_FAILURE else retval)"

fun forward_loop ::
  "(addr \<Rightarrow> 'w \<Rightarrow> (int \<times> 'w) option) \<Rightarrow> addr list \<Rightarrow> nat \<Rightarrow> int \<Rightarrow> 'w \<Rightarrow> (nat \<times> int \<times> 'w) option" where
  "forward_loop child [] implemented retval w = Some (implemented, retval, w)"
| "forward_loop child (gn # rest) implemented retval w =
     do {
       (status, w) \<leftarrow> child gn w;
       if status = PWR_RET_NOT_IMPLEMENTED then forward_loop child rest implemented retval w
       else forward_loop child rest (Suc implemented) (merge_status retval status) w
     }"

text \<open>The child objects of an object, by the tree nodes. \<^verbatim>\<open>g_node_first_child\<close> accepts NULL.\<close>

definition node_children :: "lib \<Rightarrow> obj_t \<Rightarrow> addr list option" where
  "node_children s ob =
     (case obj_gnode ob of None \<Rightarrow> Some [] | Some gn \<Rightarrow> map_option gn_children (gnodes s gn))"

definition node_obj :: "lib \<Rightarrow> addr \<Rightarrow> (addr \<times> obj_t) option" where
  "node_obj s gn = do { node \<leftarrow> gnodes s gn; ob \<leftarrow> objs s (gn_data node); Some (gn_data node, ob) }"

fun forward_attr_set_value ::
  "nat \<Rightarrow> 'w plugin \<Rightarrow> lib \<Rightarrow> addr \<Rightarrow> int \<Rightarrow> 64 word \<Rightarrow> addr \<Rightarrow> 'w \<Rightarrow> (int \<times> 'w) option" where
  "forward_attr_set_value 0 P s c attr v a w = None"
| "forward_attr_set_value (Suc n) P s c attr v a w =
     do {
       ob \<leftarrow> objs s a;
       children \<leftarrow> node_children s ob;
       (implemented, retval, w) \<leftarrow>
         forward_loop
           (\<lambda>gn w. do {
              (b, child) \<leftarrow> node_obj s gn;
              set_switch PWR_RET_NOT_IMPLEMENTED (forward_attr_set_value n P s c attr v) P c attr v b child w
            }) children 0 PWR_RET_SUCCESS w;
       Some (if implemented = 0 then PWR_RET_NOT_IMPLEMENTED else retval, w)
     }"

text \<open>
  The recursion depth is the depth of the object in the tree. Tree nodes are allocated after
  their parents, so the number of addresses in use bounds it.
\<close>

definition attr_set_fuel :: "lib \<Rightarrow> nat" where
  "attr_set_fuel s = Suc (next_addr s)"

definition obj_attr_set_value ::
  "'w plugin \<Rightarrow> lib \<Rightarrow> addr \<Rightarrow> int \<Rightarrow> 64 word \<Rightarrow> addr \<Rightarrow> obj_t \<Rightarrow> 'w \<Rightarrow> (int \<times> 'w) option" where
  "obj_attr_set_value P s c attr v a ob w =
     set_switch PWR_RET_FAILURE (forward_attr_set_value (attr_set_fuel s) P s c attr v) P c attr v a ob w"

subsection \<open>The masks and the dispatch agree\<close>

lemmas get_value_defs = obj_attr_get_value_def node_attr_get_value_def socket_attr_get_value_def
  core_attr_get_value_def pplane_attr_get_value_def mem_attr_get_value_def ht_attr_get_value_def

lemmas set_value_defs = set_switch_def node_attr_set_value_def socket_attr_set_value_def
  core_attr_set_value_def pplane_attr_set_value_def mem_attr_set_value_def ht_attr_set_value_def

lemma type_mask_cases:
  assumes "type_mask t = Some m"
  obtains "t = PWR_OBJ_NODE" "m = node_attr_bitmask" | "t = PWR_OBJ_SOCKET" "m = socket_attr_bitmask"
    | "t = PWR_OBJ_CORE" "m = core_attr_bitmask" | "t = PWR_OBJ_POWER_PLANE" "m = pplane_attr_bitmask"
    | "t = PWR_OBJ_MEM" "m = mem_attr_bitmask" | "t = PWR_OBJ_HT" "m = ht_attr_bitmask"
  using assms by (auto simp: type_mask_def split: if_splits)

lemma attrs_of_masks:
  "attrs_of node_attr_bitmask = {6, 8, 13, 15}" "attrs_of socket_attr_bitmask = {6, 8, 13, 14, 15, 16}"
  "attrs_of mem_attr_bitmask = {6, 8, 13, 15, 16}" "attrs_of pplane_attr_bitmask = {6, 13, 15}"
  "attrs_of core_attr_bitmask = {14, 15}" "attrs_of ht_attr_bitmask = {2, 9, 10, 11, 12, 15, 18}"
  by (simp_all add: mask_defs bits_of_attr_mask insert_commute)

definition served :: "'w plugin \<Rightarrow> addr \<Rightarrow> obj_t \<Rightarrow> int \<Rightarrow> 'w \<Rightarrow> bool" where
  "served P a ob attr w \<longleftrightarrow>
     (attr = PWR_ATTR_OS_ID \<and> obj_attr_get_value P a ob attr w = get_os_id P (obj_os_id ob) w) \<or>
     (\<exists>op. obj_attr_get_value P a ob attr w = p_get P op a w)"

lemma supported_served:
  assumes "type_mask (obj_type ob) = Some m" "attr \<in> attrs_of m"
  shows "served P a ob attr w"
  using assms(1) by (cases rule: type_mask_cases) (use assms(2) in \<open>auto simp: served_def get_value_defs attrs_of_masks\<close>)

lemma unsupported_rejected:
  assumes "type_mask (obj_type ob) = Some m" "attr \<notin> attrs_of m"
  shows "obj_attr_get_value P a ob attr w = (PWR_RET_NOT_IMPLEMENTED, None, None, w)"
  using assms(1) by (cases rule: type_mask_cases) (use assms(2) in \<open>auto simp: get_value_defs attrs_of_masks\<close>)

subsection \<open>The collected status\<close>

text \<open>
  The status of a forwarded request as a function of the statuses of the children that
  implement the attribute.
\<close>

definition merged :: "int list \<Rightarrow> int" where
  "merged sts =
     (case dropWhile (\<lambda>x. x = PWR_RET_SUCCESS) sts of
        [] \<Rightarrow> PWR_RET_SUCCESS
      | x # rest \<Rightarrow> if list_all (\<lambda>y. 0 \<le> y \<or> y = x) rest then x else PWR_RET_FAILURE)"

lemma merge_status_eq:
  "merge_status 0 y = y" "x \<noteq> 0 \<Longrightarrow> merge_status x y = (if y < 0 \<and> y \<noteq> x then PWR_RET_FAILURE else x)"
  by (auto simp: merge_status_def)

lemma merge_status_nonzero:
  "x \<noteq> 0 \<Longrightarrow> fold (\<lambda>st r. merge_status r st) sts x = (if list_all (\<lambda>y. 0 \<le> y \<or> y = x) sts then x else PWR_RET_FAILURE)"
proof (induction sts arbitrary: x)
  case (Cons y sts)
  show ?case
  proof (cases "y < 0 \<and> y \<noteq> x")
    case True
    then have "fold (\<lambda>st r. merge_status r st) (y # sts) x = PWR_RET_FAILURE"
      using Cons.IH [of "PWR_RET_FAILURE"] Cons.prems by (simp add: merge_status_eq)
    with True show ?thesis by auto
  next
    case False
    with Cons show ?thesis by (auto simp: merge_status_eq)
  qed
qed simp

lemma merge_status_fold: "fold (\<lambda>st r. merge_status r st) sts PWR_RET_SUCCESS = merged sts"
proof (induction sts)
  case (Cons y sts)
  then show ?case by (cases "y = 0") (simp_all add: merge_status_eq merged_def merge_status_nonzero)
qed (simp add: merged_def)

text \<open>The loop, in terms of the statuses that the children answered in turn.\<close>

fun child_run :: "(addr \<Rightarrow> 'w \<Rightarrow> (int \<times> 'w) option) \<Rightarrow> addr list \<Rightarrow> 'w \<Rightarrow> (int list \<times> 'w) option" where
  "child_run child [] w = Some ([], w)"
| "child_run child (gn # rest) w =
     do { (st, w) \<leftarrow> child gn w; (sts, w) \<leftarrow> child_run child rest w; Some (st # sts, w) }"

definition implemented_only :: "int list \<Rightarrow> int list" where
  "implemented_only = filter (\<lambda>st. st \<noteq> PWR_RET_NOT_IMPLEMENTED)"

lemma forward_loop_run:
  "forward_loop child gns i r w =
     map_option (\<lambda>(sts, w). (i + length (implemented_only sts), fold (\<lambda>st r. merge_status r st) (implemented_only sts) r, w))
       (child_run child gns w)"
proof (induction gns arbitrary: i r w)
  case (Cons gn gns)
  show ?case
  proof (cases "child gn w")
    case (Some res)
    obtain st w' where res: "res = (st, w')" by (cases res)
    with Some Cons show ?thesis
      by (cases "child_run child gns w'") (auto simp: implemented_only_def split: prod.splits)
  qed simp
qed (simp add: implemented_only_def)

definition forwarded_status :: "int list \<Rightarrow> int" where
  "forwarded_status sts =
     (if implemented_only sts = [] then PWR_RET_NOT_IMPLEMENTED else merged (implemented_only sts))"

definition child_set ::
  "nat \<Rightarrow> 'w plugin \<Rightarrow> lib \<Rightarrow> addr \<Rightarrow> int \<Rightarrow> 64 word \<Rightarrow> addr \<Rightarrow> 'w \<Rightarrow> (int \<times> 'w) option" where
  "child_set n P s c attr v gn w =
     do {
       (b, child) \<leftarrow> node_obj s gn;
       set_switch PWR_RET_NOT_IMPLEMENTED (forward_attr_set_value n P s c attr v) P c attr v b child w
     }"

lemma forward_Suc:
  "forward_attr_set_value (Suc n) P s c attr v a w =
     do {
       ob \<leftarrow> objs s a;
       children \<leftarrow> node_children s ob;
       (sts, w) \<leftarrow> child_run (child_set n P s c attr v) children w;
       Some (forwarded_status sts, w)
     }"
proof -
  have "forward_loop (\<lambda>gn w. do { (b, child) \<leftarrow> node_obj s gn;
      set_switch PWR_RET_NOT_IMPLEMENTED (forward_attr_set_value n P s c attr v) P c attr v b child w }) = forward_loop (child_set n P s c attr v)"
    by (simp add: child_set_def [abs_def])
  then show ?thesis
    by (cases "objs s a"; simp; cases "node_children s (the (objs s a))"; simp;
        cases "child_run (child_set n P s c attr v) (the (node_children s (the (objs s a)))) w")
      (auto simp: forward_loop_run merge_status_fold forwarded_status_def)
qed

declare forward_attr_set_value.simps(2) [simp del]

subsection \<open>Forwarding ends\<close>

text \<open>
  Every object points to its tree node and back, and a child's node was allocated after its
  parent's.
\<close>

definition tree_ok :: "lib \<Rightarrow> bool" where
  "tree_ok s \<longleftrightarrow>
     (\<forall>a ob gn. objs s a = Some ob \<and> obj_gnode ob = Some gn \<longrightarrow> gnodes s gn \<noteq> None \<and> gn < next_addr s) \<and>
     (\<forall>gn node. gnodes s gn = Some node \<longrightarrow>
        (\<forall>d \<in> set (gn_children node). gn < d \<and>
           (\<exists>b child. node_obj s d = Some (b, child) \<and> objs s b = Some child \<and> obj_gnode child = Some d)))"

definition height_bound :: "lib \<Rightarrow> obj_t \<Rightarrow> nat" where
  "height_bound s ob = (case obj_gnode ob of None \<Rightarrow> 0 | Some gn \<Rightarrow> next_addr s - gn)"

lemma tree_ok_children:
  assumes "tree_ok s" "objs s a = Some ob"
  obtains gns where "node_children s ob = Some gns"
    "\<And>d. d \<in> set gns \<Longrightarrow> \<exists>b child. node_obj s d = Some (b, child) \<and> objs s b = Some child \<and> obj_gnode child = Some d \<and>
       height_bound s child < height_bound s ob"
proof (cases "obj_gnode ob")
  case None
  then show ?thesis using that by (simp add: node_children_def)
next
  case (Some gn)
  with assms obtain node where node: "gnodes s gn = Some node" "gn < next_addr s"
    unfolding tree_ok_def by blast
  have "\<exists>b child. node_obj s d = Some (b, child) \<and> objs s b = Some child \<and> obj_gnode child = Some d \<and>
       height_bound s child < height_bound s ob" if d: "d \<in> set (gn_children node)" for d
  proof -
    from assms(1) node(1) d obtain b child where bc: "gn < d" "node_obj s d = Some (b, child)" "objs s b = Some child"
      "obj_gnode child = Some d" unfolding tree_ok_def by blast
    with assms(1) have "d < next_addr s" unfolding tree_ok_def by blast
    with bc Some show ?thesis by (auto simp: height_bound_def)
  qed
  with that Some node(1) show ?thesis by (simp add: node_children_def)
qed

lemma child_run_total:
  assumes "\<And>gn w. gn \<in> set gns \<Longrightarrow> child gn w \<noteq> None"
  shows "child_run child gns w \<noteq> None"
  using assms
proof (induction gns arbitrary: w)
  case (Cons gn gns)
  obtain st w' where "child gn w = Some (st, w')" using Cons.prems [of gn w] by auto
  moreover have "child_run child gns w' \<noteq> None" using Cons by simp
  ultimately show ?case by auto
qed simp

lemma set_switch_total: "fwd a w \<noteq> None \<Longrightarrow> set_switch dflt fwd P c attr v a ob w \<noteq> None"
  by (simp add: set_value_defs)

lemma forward_returns:
  assumes "tree_ok s" "objs s a = Some ob" "height_bound s ob < n"
  shows "forward_attr_set_value n P s c attr v a w \<noteq> None"
  using assms(2,3)
proof (induction n arbitrary: a ob w)
  case (Suc n)
  obtain gns where gns: "node_children s ob = Some gns"
    "\<And>d. d \<in> set gns \<Longrightarrow> \<exists>b child. node_obj s d = Some (b, child) \<and> objs s b = Some child \<and> obj_gnode child = Some d \<and>
       height_bound s child < height_bound s ob"
    using tree_ok_children [OF assms(1) Suc.prems(1)] by metis
  have "child_set n P s c attr v d w' \<noteq> None" if d: "d \<in> set gns" for d w'
  proof -
    from gns(2) [OF d] obtain b child where b: "node_obj s d = Some (b, child)" "objs s b = Some child"
      "height_bound s child < n" using Suc.prems(2) by (metis Suc_leI less_Suc_eq_le order_less_le_trans)
    have "set_switch PWR_RET_NOT_IMPLEMENTED (forward_attr_set_value n P s c attr v) P c attr v b child w' \<noteq> None"
      by (rule set_switch_total) (rule Suc.IH [OF b(2,3)])
    with b(1) show ?thesis by (simp add: child_set_def)
  qed
  then have "child_run (child_set n P s c attr v) gns w \<noteq> None" by (rule child_run_total)
  with Suc.prems(1) gns(1) show ?case by (auto simp: forward_Suc)
qed simp

lemma obj_attr_set_value_returns:
  assumes "tree_ok s" "objs s a = Some ob"
  shows "obj_attr_set_value P s c attr v a ob w \<noteq> None"
proof -
  have "height_bound s ob < attr_set_fuel s" by (simp add: height_bound_def attr_set_fuel_def less_Suc_eq_le split: option.splits)
  then show ?thesis
    unfolding obj_attr_set_value_def by (intro set_switch_total forward_returns [OF assms])
qed

subsection \<open>What a request reaches\<close>

datatype set_action = ReadOnly | Call set_op | Forward | Unknown

definition set_action_of :: "int \<Rightarrow> int \<Rightarrow> set_action" where
  "set_action_of t attr =
     (if t = PWR_OBJ_NODE then if attr \<in> {PWR_ATTR_OS_ID, PWR_ATTR_POWER, PWR_ATTR_ENERGY} then ReadOnly else Forward
      else if t = PWR_OBJ_SOCKET then
        if attr \<in> {PWR_ATTR_OS_ID, PWR_ATTR_POWER, PWR_ATTR_ENERGY, PWR_ATTR_THROTTLED_TIME, PWR_ATTR_TEMP} then ReadOnly
        else if attr = PWR_ATTR_POWER_LIMIT_MAX then Call set_power_limit_max else Forward
      else if t = PWR_OBJ_CORE then if attr \<in> {PWR_ATTR_OS_ID, PWR_ATTR_TEMP} then ReadOnly else Forward
      else if t = PWR_OBJ_POWER_PLANE then
        if attr \<in> {PWR_ATTR_OS_ID, PWR_ATTR_POWER, PWR_ATTR_ENERGY} then ReadOnly else Forward
      else if t = PWR_OBJ_MEM then
        if attr \<in> {PWR_ATTR_OS_ID, PWR_ATTR_POWER, PWR_ATTR_ENERGY, PWR_ATTR_THROTTLED_TIME} then ReadOnly
        else if attr = PWR_ATTR_POWER_LIMIT_MAX then Call set_power_limit_max else Forward
      else if t = PWR_OBJ_HT then
        if attr \<in> {PWR_ATTR_OS_ID, PWR_ATTR_FREQ} then ReadOnly
        else if attr = PWR_ATTR_CSTATE_LIMIT then Call set_cstate_limit
        else if attr = PWR_ATTR_FREQ_REQ then Call set_freq_req
        else if attr = PWR_ATTR_FREQ_LIMIT_MIN then Call set_freq_limit_min
        else if attr = PWR_ATTR_FREQ_LIMIT_MAX then Call set_freq_limit_max
        else if attr = PWR_ATTR_GOV then Call set_governor else Forward
      else Unknown)"

lemma set_switch_action:
  "set_switch dflt fwd P c attr v a ob w =
     (case set_action_of (obj_type ob) attr of
        ReadOnly \<Rightarrow> Some (PWR_RET_READ_ONLY, w)
      | Call op \<Rightarrow> Some (p_set P op a c v w)
      | Forward \<Rightarrow> fwd a w
      | Unknown \<Rightarrow> Some (dflt, w))"
  by (simp add: set_value_defs set_action_of_def)

text \<open>
  The plugin calls that a request leads to, in order: below an object that forwards the
  attribute, the first object on each path that has a function for it.
\<close>

fun set_calls :: "nat \<Rightarrow> lib \<Rightarrow> int \<Rightarrow> addr \<Rightarrow> obj_t \<Rightarrow> (set_op \<times> addr) list" where
  "set_calls 0 s attr a ob = []"
| "set_calls (Suc n) s attr a ob =
     (case set_action_of (obj_type ob) attr of
        Call op \<Rightarrow> [(op, a)]
      | Forward \<Rightarrow>
          (case node_children s ob of
             None \<Rightarrow> []
           | Some gns \<Rightarrow> concat (map (\<lambda>gn. case node_obj s gn of None \<Rightarrow> [] | Some (b, child) \<Rightarrow> set_calls n s attr b child) gns))
      | _ \<Rightarrow> [])"

definition run_calls :: "'w plugin \<Rightarrow> addr \<Rightarrow> 64 word \<Rightarrow> (set_op \<times> addr) list \<Rightarrow> 'w \<Rightarrow> 'w" where
  "run_calls P c v = fold (\<lambda>(op, a) w. snd (p_set P op a c v w))"

lemma child_run_calls:
  assumes "child_run child gns w = Some (sts, w')"
    and "\<And>gn w st w'. gn \<in> set gns \<Longrightarrow> child gn w = Some (st, w') \<Longrightarrow> w' = run_calls P c v (calls gn) w"
  shows "w' = run_calls P c v (concat (map calls gns)) w"
  using assms
proof (induction gns arbitrary: w sts)
  case (Cons gn gns)
  then obtain st w1 sts' where "child gn w = Some (st, w1)" "child_run child gns w1 = Some (sts', w')" by auto
  with Cons show ?case by (simp add: run_calls_def)
qed (simp add: run_calls_def)

lemma set_switch_calls:
  assumes "set_switch dflt (forward_attr_set_value n P s c attr v) P c attr v a ob w = Some (r, w')" "objs s a = Some ob"
  shows "w' = run_calls P c v (set_calls (Suc n) s attr a ob) w"
  using assms
proof (induction n arbitrary: dflt a ob w r w')
  case (Suc n)
  show ?case
  proof (cases "set_action_of (obj_type ob) attr")
    case Forward
    with Suc.prems obtain gns sts where gns: "node_children s ob = Some gns"
      "child_run (child_set n P s c attr v) gns w = Some (sts, w')"
      by (auto simp: set_switch_action forward_Suc)
    let ?calls = "\<lambda>gn. case node_obj s gn of None \<Rightarrow> [] | Some (b, child) \<Rightarrow> set_calls (Suc n) s attr b child"
    have "w' = run_calls P c v (concat (map ?calls gns)) w"
    proof (rule child_run_calls [OF gns(2)])
      fix gn w st w'
      assume "child_set n P s c attr v gn w = Some (st, w')"
      then obtain b child where b: "node_obj s gn = Some (b, child)"
        "set_switch PWR_RET_NOT_IMPLEMENTED (forward_attr_set_value n P s c attr v) P c attr v b child w = Some (st, w')"
        by (auto simp: child_set_def)
      then have "objs s b = Some child" by (auto simp: node_obj_def)
      with Suc.IH b show "w' = run_calls P c v (?calls gn) w" by auto
    qed
    with Forward gns(1) show ?thesis by (subst set_calls.simps(2)) (simp del: set_calls.simps)
  qed (use Suc.prems in \<open>auto simp: set_switch_action run_calls_def\<close>)
qed (auto simp: set_switch_action run_calls_def split: set_action.splits)

end
