(* ===== verification/Attr_API.thy ===== *)
theory Attr_API
  imports Objects
begin

text \<open>
  \<^verbatim>\<open>lib/attributes.c\<close>: the public functions that read and set attributes of objects
  and groups, and the status objects that collect their errors.

  An array of values that the caller provides is the list of what the call stores at each
  index: the 8 bytes of the value and the time stamp, each \<open>None\<close> if the call leaves that
  location alone. \<open>attrs\<close> is \<open>None\<close> for a NULL pointer, \<open>values\<close> and \<open>ts\<close> say
  whether the caller passed a buffer. \<^verbatim>\<open>malloc\<close> is taken to succeed.
\<close>

subsection \<open>Status objects\<close>

definition find_status_by_opaque :: "key \<Rightarrow> lib \<Rightarrow> addr option option" where
  "find_status_by_opaque status s = lookup_status s (OPAQUE_GET_DATA_KEY status)"

definition check_status_context :: "key \<Rightarrow> key \<Rightarrow> bool" where
  "check_status_context status obj_or_grp \<longleftrightarrow>
     OPAQUE_GET_CONTEXT_KEY status = OPAQUE_GET_CONTEXT_KEY obj_or_grp"

definition push_status_error :: "addr option \<Rightarrow> key \<Rightarrow> int \<Rightarrow> int \<Rightarrow> int \<Rightarrow> lib \<Rightarrow> lib option" where
  "push_status_error stat obj name index errcode s =
     (case stat of
        None \<Rightarrow> Some s
      | Some a \<Rightarrow>
          do {
            st \<leftarrow> statuses s a;
            Some (s\<lparr>statuses := (statuses s)(a \<mapsto> st\<lparr>sts_list := sts_list st @
              [\<lparr>err_obj = obj, err_name = name, err_index = index, err_error = errcode\<rparr>]\<rparr>)\<rparr>)
          })"

definition clear_status :: "addr option \<Rightarrow> lib \<Rightarrow> lib option" where
  "clear_status stat s =
     (case stat of
        None \<Rightarrow> Some s
      | Some a \<Rightarrow> do { st \<leftarrow> statuses s a; Some (s\<lparr>statuses := (statuses s)(a \<mapsto> st\<lparr>sts_list := []\<rparr>)\<rparr>) })"

definition PWR_StatusCreate :: "key \<Rightarrow> bool \<Rightarrow> lib \<Rightarrow> (int \<times> key option \<times> lib) option" where
  "PWR_StatusCreate context status s =
     (let ctx_key = OPAQUE_GET_CONTEXT_KEY context in
      if \<not> status then Some (PWR_RET_FAILURE, None, s)
      else if ctx_key \<noteq> OPAQUE_GET_DATA_KEY context then Some (PWR_RET_FAILURE, None, s)
      else do {
        ctx \<leftarrow> lookup_context s ctx_key;
        case ctx of
          None \<Rightarrow> Some (PWR_RET_FAILURE, None, s)
        | Some c \<Rightarrow>
            do {
              (sta, s) \<leftarrow> context_new_status c s;
              case sta of
                None \<Rightarrow> Some (PWR_RET_FAILURE, None, s)
              | Some a \<Rightarrow>
                  do {
                    rc \<leftarrow> refs s c;
                    ra \<leftarrow> refs s a;
                    Some (PWR_RET_SUCCESS, Some (OPAQUE_GENERATE (ref_key rc) (ref_key ra)), s)
                  }
            }
      })"

definition PWR_StatusDestroy :: "key \<Rightarrow> lib \<Rightarrow> (int \<times> lib) option" where
  "PWR_StatusDestroy status s =
     do {
       sta \<leftarrow> find_status_by_opaque status s;
       case sta of
         None \<Rightarrow> Some (PWR_RET_FAILURE, s)
       | Some a \<Rightarrow>
           do {
             ctx \<leftarrow> lookup_context s (OPAQUE_GET_CONTEXT_KEY status);
             case ctx of
               None \<Rightarrow> Some (PWR_RET_FAILURE, s)
             | Some c \<Rightarrow> do { s \<leftarrow> context_del_status c a s; Some (PWR_RET_SUCCESS, s) }
           }
     }"

definition PWR_StatusPopError :: "key \<Rightarrow> lib \<Rightarrow> (int \<times> PWR_AttrAccessError option \<times> lib) option" where
  "PWR_StatusPopError status s =
     do {
       sta \<leftarrow> find_status_by_opaque status s;
       case sta of
         None \<Rightarrow> Some (PWR_RET_FAILURE, None, s)
       | Some a \<Rightarrow>
           do {
             st \<leftarrow> statuses s a;
             case sts_list st of
               [] \<Rightarrow> Some (PWR_RET_EMPTY, None, s)
             | e # rest \<Rightarrow> Some (PWR_RET_SUCCESS, Some e, s\<lparr>statuses := (statuses s)(a \<mapsto> st\<lparr>sts_list := rest\<rparr>)\<rparr>)
           }
     }"

subsection \<open>One attribute of one object\<close>

definition PWR_ObjAttrGetValue ::
  "'w plugin \<Rightarrow> key \<Rightarrow> int \<Rightarrow> bool \<Rightarrow> lib \<Rightarrow> 'w \<Rightarrow> (int \<times> 64 word option \<times> PWR_Time option \<times> 'w) option" where
  "PWR_ObjAttrGetValue P object attr ts s w =
     do {
       obj \<leftarrow> lookup_object s (OPAQUE_GET_DATA_KEY object);
       case obj of
         None \<Rightarrow> Some (PWR_RET_FAILURE, None, None, w)
       | Some a \<Rightarrow>
           do {
             ob \<leftarrow> objs s a;
             case obj_attr_get_value P a ob attr w of
               (retval, v, tspec, w) \<Rightarrow>
                 if retval \<noteq> PWR_RET_SUCCESS then Some (retval, v, None, w)
                 else if ts then do { t \<leftarrow> tspec; Some (retval, v, Some (pwr_tspec_to_nsec t), w) }
                 else Some (retval, v, None, w)
           }
     }"

definition PWR_ObjAttrSetValue :: "'w plugin \<Rightarrow> key \<Rightarrow> int \<Rightarrow> 64 word \<Rightarrow> lib \<Rightarrow> 'w \<Rightarrow> (int \<times> 'w) option" where
  "PWR_ObjAttrSetValue P object attr v s w =
     do {
       ctx \<leftarrow> lookup_context s (OPAQUE_GET_CONTEXT_KEY object);
       case ctx of
         None \<Rightarrow> Some (PWR_RET_FAILURE, w)
       | Some c \<Rightarrow>
           do {
             obj \<leftarrow> lookup_object s (OPAQUE_GET_DATA_KEY object);
             case obj of
               None \<Rightarrow> Some (PWR_RET_FAILURE, w)
             | Some a \<Rightarrow> do { ob \<leftarrow> objs s a; obj_attr_set_value P s c attr v a ob w }
           }
     }"

subsection \<open>Several attributes of one object\<close>

type_synonym stored = "64 word option \<times> PWR_Time option"

text \<open>The first \<open>count\<close> elements of the caller's array; \<open>None\<close> if it is shorter.\<close>

definition array_prefix :: "int \<Rightarrow> 'a list \<Rightarrow> 'a list option" where
  "array_prefix count xs = (if nat count \<le> length xs then Some (take (nat count) xs) else None)"

text \<open>The check of the status object that all the functions below start with.\<close>

definition with_status ::
  "key \<Rightarrow> key \<Rightarrow> lib \<Rightarrow> (addr option \<Rightarrow> lib \<Rightarrow> (int \<times> 'r) option) \<Rightarrow> (int \<times> 'r) option \<Rightarrow> (int \<times> 'r) option" where
  "with_status status target s body failed =
     do {
       stat \<leftarrow> find_status_by_opaque status s;
       if stat \<noteq> None \<and> \<not> check_status_context status target then failed
       else do { s \<leftarrow> clear_status stat s; body stat s }
     }"

fun obj_get_values_loop ::
  "'w plugin \<Rightarrow> key \<Rightarrow> bool \<Rightarrow> addr option \<Rightarrow> int list \<Rightarrow> int \<Rightarrow> int \<Rightarrow> lib \<Rightarrow> 'w
    \<Rightarrow> (int \<times> stored list \<times> lib \<times> 'w) option" where
  "obj_get_values_loop P object ts stat [] i retval s w = Some (retval, [], s, w)"
| "obj_get_values_loop P object ts stat (attr # attrs) i retval s w =
     do {
       (errcode, v, t, w) \<leftarrow> PWR_ObjAttrGetValue P object attr ts s w;
       (retval, s) \<leftarrow> (if errcode \<noteq> PWR_RET_SUCCESS
                       then do { s \<leftarrow> push_status_error stat object attr i errcode s; Some (PWR_RET_FAILURE, s) }
                       else Some (retval, s));
       (retval, out, s, w) \<leftarrow> obj_get_values_loop P object ts stat attrs (i + 1) retval s w;
       Some (retval, (v, t) # out, s, w)
     }"

definition PWR_ObjAttrGetValues ::
  "'w plugin \<Rightarrow> key \<Rightarrow> int \<Rightarrow> int list option \<Rightarrow> bool \<Rightarrow> bool \<Rightarrow> key \<Rightarrow> lib \<Rightarrow> 'w
    \<Rightarrow> (int \<times> stored list \<times> lib \<times> 'w) option" where
  "PWR_ObjAttrGetValues P object count attrs values ts status s w =
     (if count < 0 \<or> attrs = None \<or> \<not> values then Some (PWR_RET_FAILURE, [], s, w)
      else with_status status object s
        (\<lambda>stat s. do {
           xs \<leftarrow> array_prefix count (the attrs);
           obj_get_values_loop P object ts stat xs 0 PWR_RET_SUCCESS s w
         }) (Some (PWR_RET_FAILURE, [], s, w)))"

text \<open>The index that the C code pushes here is always zero.\<close>

fun obj_set_values_loop ::
  "'w plugin \<Rightarrow> key \<Rightarrow> addr option \<Rightarrow> (int \<times> 64 word) list \<Rightarrow> int \<Rightarrow> lib \<Rightarrow> 'w \<Rightarrow> (int \<times> lib \<times> 'w) option" where
  "obj_set_values_loop P object stat [] retval s w = Some (retval, s, w)"
| "obj_set_values_loop P object stat ((attr, v) # rest) retval s w =
     do {
       (errcode, w) \<leftarrow> PWR_ObjAttrSetValue P object attr v s w;
       (retval, s) \<leftarrow> (if errcode \<noteq> PWR_RET_SUCCESS
                       then do { s \<leftarrow> push_status_error stat object attr 0 errcode s; Some (PWR_RET_FAILURE, s) }
                       else Some (retval, s));
       obj_set_values_loop P object stat rest retval s w
     }"

definition PWR_ObjAttrSetValues ::
  "'w plugin \<Rightarrow> key \<Rightarrow> int \<Rightarrow> int list option \<Rightarrow> 64 word list option \<Rightarrow> key \<Rightarrow> lib \<Rightarrow> 'w \<Rightarrow> (int \<times> lib \<times> 'w) option" where
  "PWR_ObjAttrSetValues P object count attrs values status s w =
     (if count < 0 \<or> attrs = None \<or> values = None then Some (PWR_RET_FAILURE, s, w)
      else with_status status object s
        (\<lambda>stat s. do {
           xs \<leftarrow> array_prefix count (the attrs);
           vs \<leftarrow> array_prefix count (the values);
           obj_set_values_loop P object stat (zip xs vs) PWR_RET_SUCCESS s w
         }) (Some (PWR_RET_FAILURE, s, w)))"

subsection \<open>Groups\<close>

text \<open>
  The loops over the objects of a group look the group up again for every index. Where the
  C code uses the variable for the object's handle without having set it, the result is
  \<open>None\<close>. \<open>is\<close> is the list of the remaining indices.
\<close>

fun grp_get_value_loop ::
  "'w plugin \<Rightarrow> key \<Rightarrow> int \<Rightarrow> bool \<Rightarrow> addr option \<Rightarrow> int list \<Rightarrow> int \<Rightarrow> lib \<Rightarrow> 'w
    \<Rightarrow> (int \<times> stored list \<times> lib \<times> 'w) option" where
  "grp_get_value_loop P gh attr ts stat [] retval s w = Some (retval, [], s, w)"
| "grp_get_value_loop P gh attr ts stat (i # is) retval s w =
     do {
       (errcode, obj) \<leftarrow> PWR_GrpGetObjByIndx gh i s;
       object \<leftarrow> obj;
       if errcode \<noteq> PWR_RET_SUCCESS
       then do {
         s \<leftarrow> push_status_error stat object attr i errcode s;
         (retval, out, s, w) \<leftarrow> grp_get_value_loop P gh attr ts stat is PWR_RET_FAILURE s w;
         Some (retval, (None, None) # out, s, w)
       }
       else do {
         (errcode, v, t, w) \<leftarrow> PWR_ObjAttrGetValue P object attr ts s w;
         (retval, s) \<leftarrow> (if errcode \<noteq> PWR_RET_SUCCESS
                         then do { s \<leftarrow> push_status_error stat object attr i errcode s; Some (PWR_RET_FAILURE, s) }
                         else Some (retval, s));
         (retval, out, s, w) \<leftarrow> grp_get_value_loop P gh attr ts stat is retval s w;
         Some (retval, (v, t) # out, s, w)
       }
     }"

definition PWR_GrpAttrGetValue ::
  "'w plugin \<Rightarrow> key \<Rightarrow> int \<Rightarrow> bool \<Rightarrow> bool \<Rightarrow> key \<Rightarrow> lib \<Rightarrow> 'w \<Rightarrow> (int \<times> stored list \<times> lib \<times> 'w) option" where
  "PWR_GrpAttrGetValue P gh attr values ts status s w =
     (if \<not> values then Some (PWR_RET_FAILURE, [], s, w)
      else with_status status gh s
        (\<lambda>stat s. do {
           num_objs \<leftarrow> PWR_GrpGetNumObjs gh s;
           if num_objs < 0 then Some (PWR_RET_INVALID, [], s, w)
           else grp_get_value_loop P gh attr ts stat [0..num_objs - 1] PWR_RET_SUCCESS s w
         }) (Some (PWR_RET_FAILURE, [], s, w)))"

fun grp_set_value_loop ::
  "'w plugin \<Rightarrow> key \<Rightarrow> int \<Rightarrow> 64 word \<Rightarrow> addr option \<Rightarrow> int list \<Rightarrow> int \<Rightarrow> lib \<Rightarrow> 'w \<Rightarrow> (int \<times> lib \<times> 'w) option" where
  "grp_set_value_loop P gh attr v stat [] retval s w = Some (retval, s, w)"
| "grp_set_value_loop P gh attr v stat (i # is) retval s w =
     do {
       (errcode, obj) \<leftarrow> PWR_GrpGetObjByIndx gh i s;
       object \<leftarrow> obj;
       (errcode, w) \<leftarrow> (if errcode \<noteq> PWR_RET_SUCCESS then Some (errcode, w)
                        else PWR_ObjAttrSetValue P object attr v s w);
       (retval, s) \<leftarrow> (if errcode \<noteq> PWR_RET_SUCCESS
                       then do { s \<leftarrow> push_status_error stat object attr 0 errcode s; Some (PWR_RET_FAILURE, s) }
                       else Some (retval, s));
       grp_set_value_loop P gh attr v stat is retval s w
     }"

definition PWR_GrpAttrSetValue ::
  "'w plugin \<Rightarrow> key \<Rightarrow> int \<Rightarrow> 64 word option \<Rightarrow> key \<Rightarrow> lib \<Rightarrow> 'w \<Rightarrow> (int \<times> lib \<times> 'w) option" where
  "PWR_GrpAttrSetValue P gh attr value status s w =
     (case value of
        None \<Rightarrow> Some (PWR_RET_FAILURE, s, w)
      | Some v \<Rightarrow>
          with_status status gh s
            (\<lambda>stat s. do {
               num_objs \<leftarrow> PWR_GrpGetNumObjs gh s;
               if num_objs < 0 then Some (PWR_RET_INVALID, s, w)
               else grp_set_value_loop P gh attr v stat [0..num_objs - 1] PWR_RET_SUCCESS s w
             }) (Some (PWR_RET_FAILURE, s, w)))"

text \<open>
  The inner loop over the attributes, for an object handle (\<open>Some\<close>) or for an index
  that gave an error; \<open>offset\<close> counts through both loops.
\<close>

fun grp_get_values_inner ::
  "'w plugin \<Rightarrow> int \<Rightarrow> key option \<Rightarrow> bool \<Rightarrow> addr option \<Rightarrow> int list \<Rightarrow> int \<Rightarrow> int \<Rightarrow> lib \<Rightarrow> 'w
    \<Rightarrow> (int \<times> stored list \<times> lib \<times> 'w) option" where
  "grp_get_values_inner P grperrcode obj ts stat [] offset retval s w = Some (retval, [], s, w)"
| "grp_get_values_inner P grperrcode obj ts stat (attr # attrs) offset retval s w =
     (if grperrcode \<noteq> PWR_RET_SUCCESS
      then do {
        s \<leftarrow> push_status_error stat 0 attr offset grperrcode s;
        (retval, out, s, w) \<leftarrow> grp_get_values_inner P grperrcode obj ts stat attrs (offset + 1) PWR_RET_FAILURE s w;
        Some (retval, (None, None) # out, s, w)
      }
      else do {
        object \<leftarrow> obj;
        (errcode, v, t, w) \<leftarrow> PWR_ObjAttrGetValue P object attr ts s w;
        (retval, s) \<leftarrow> (if errcode \<noteq> PWR_RET_SUCCESS
                        then do { s \<leftarrow> push_status_error stat object attr offset errcode s; Some (PWR_RET_FAILURE, s) }
                        else Some (retval, s));
        (retval, out, s, w) \<leftarrow> grp_get_values_inner P grperrcode obj ts stat attrs (offset + 1) retval s w;
        Some (retval, (v, t) # out, s, w)
      })"

fun grp_get_values_loop ::
  "'w plugin \<Rightarrow> key \<Rightarrow> int list \<Rightarrow> bool \<Rightarrow> addr option \<Rightarrow> int list \<Rightarrow> int \<Rightarrow> int \<Rightarrow> lib \<Rightarrow> 'w
    \<Rightarrow> (int \<times> stored list \<times> lib \<times> 'w) option" where
  "grp_get_values_loop P gh attrs ts stat [] offset retval s w = Some (retval, [], s, w)"
| "grp_get_values_loop P gh attrs ts stat (i # is) offset retval s w =
     do {
       (grperrcode, obj) \<leftarrow> PWR_GrpGetObjByIndx gh i s;
       (retval, out, s, w) \<leftarrow> grp_get_values_inner P grperrcode obj ts stat attrs offset retval s w;
       (retval, out', s, w) \<leftarrow> grp_get_values_loop P gh attrs ts stat is (offset + int (length attrs)) retval s w;
       Some (retval, out @ out', s, w)
     }"

definition PWR_GrpAttrGetValues ::
  "'w plugin \<Rightarrow> key \<Rightarrow> int \<Rightarrow> int list option \<Rightarrow> bool \<Rightarrow> bool \<Rightarrow> key \<Rightarrow> lib \<Rightarrow> 'w
    \<Rightarrow> (int \<times> stored list \<times> lib \<times> 'w) option" where
  "PWR_GrpAttrGetValues P gh count attrs values ts status s w =
     (if count < 0 \<or> attrs = None \<or> \<not> values then Some (PWR_RET_FAILURE, [], s, w)
      else with_status status gh s
        (\<lambda>stat s. do {
           num_objs \<leftarrow> PWR_GrpGetNumObjs gh s;
           if num_objs < 0 then Some (PWR_RET_INVALID, [], s, w)
           else do {
             xs \<leftarrow> (if num_objs = 0 then Some [] else array_prefix count (the attrs));
             grp_get_values_loop P gh xs ts stat [0..num_objs - 1] 0 PWR_RET_SUCCESS s w
           }
         }) (Some (PWR_RET_FAILURE, [], s, w)))"

fun grp_set_values_inner ::
  "'w plugin \<Rightarrow> int \<Rightarrow> key option \<Rightarrow> addr option \<Rightarrow> (int \<times> 64 word) list \<Rightarrow> int \<Rightarrow> int \<Rightarrow> lib \<Rightarrow> 'w
    \<Rightarrow> (int \<times> lib \<times> 'w) option" where
  "grp_set_values_inner P grperrcode obj stat [] j retval s w = Some (retval, s, w)"
| "grp_set_values_inner P grperrcode obj stat ((attr, v) # rest) j retval s w =
     (if grperrcode \<noteq> PWR_RET_SUCCESS
      then do {
        s \<leftarrow> push_status_error stat 0 attr j grperrcode s;
        grp_set_values_inner P grperrcode obj stat rest (j + 1) PWR_RET_FAILURE s w
      }
      else do {
        object \<leftarrow> obj;
        (errcode, w) \<leftarrow> PWR_ObjAttrSetValue P object attr v s w;
        (retval, s) \<leftarrow> (if errcode \<noteq> PWR_RET_SUCCESS
                        then do { s \<leftarrow> push_status_error stat object attr j errcode s; Some (PWR_RET_FAILURE, s) }
                        else Some (retval, s));
        grp_set_values_inner P grperrcode obj stat rest (j + 1) retval s w
      })"

fun grp_set_values_loop ::
  "'w plugin \<Rightarrow> key \<Rightarrow> (int \<times> 64 word) list \<Rightarrow> addr option \<Rightarrow> int list \<Rightarrow> int \<Rightarrow> lib \<Rightarrow> 'w
    \<Rightarrow> (int \<times> lib \<times> 'w) option" where
  "grp_set_values_loop P gh avs stat [] retval s w = Some (retval, s, w)"
| "grp_set_values_loop P gh avs stat (i # is) retval s w =
     do {
       (grperrcode, obj) \<leftarrow> PWR_GrpGetObjByIndx gh i s;
       (retval, s, w) \<leftarrow> grp_set_values_inner P grperrcode obj stat avs 0 retval s w;
       grp_set_values_loop P gh avs stat is retval s w
     }"

definition PWR_GrpAttrSetValues ::
  "'w plugin \<Rightarrow> key \<Rightarrow> int \<Rightarrow> int list option \<Rightarrow> 64 word list option \<Rightarrow> key \<Rightarrow> lib \<Rightarrow> 'w \<Rightarrow> (int \<times> lib \<times> 'w) option" where
  "PWR_GrpAttrSetValues P gh count attrs values status s w =
     (if count < 0 \<or> attrs = None \<or> values = None then Some (PWR_RET_FAILURE, s, w)
      else with_status status gh s
        (\<lambda>stat s. do {
           num_objs \<leftarrow> PWR_GrpGetNumObjs gh s;
           if num_objs < 0 then Some (PWR_RET_INVALID, s, w)
           else do {
             xs \<leftarrow> (if num_objs = 0 then Some [] else array_prefix count (the attrs));
             vs \<leftarrow> (if num_objs = 0 then Some [] else array_prefix count (the values));
             grp_set_values_loop P gh (zip xs vs) stat [0..num_objs - 1] PWR_RET_SUCCESS s w
           }
         }) (Some (PWR_RET_FAILURE, s, w)))"

end
