(* ===== verification/Object_API.thy ===== *)
theory Object_API
  imports Objects Group_Inv
begin

text \<open>
  The rest of \<^verbatim>\<open>lib/object.c\<close>: metadata of objects and attributes, and the public
  functions that describe an object and its place in the hierarchy.
\<close>

subsection \<open>Metadata\<close>

text \<open>
  The \<^verbatim>\<open>switch\<close> statements on the object type that select the plugin's function; an
  object of another type is an error.
\<close>

definition has_ops :: "obj_t \<Rightarrow> bool" where
  "has_ops ob \<longleftrightarrow> obj_type ob \<in> {PWR_OBJ_NODE, PWR_OBJ_SOCKET, PWR_OBJ_CORE, PWR_OBJ_POWER_PLANE, PWR_OBJ_MEM, PWR_OBJ_HT}"

type_synonym 'w meta_result = "int \<times> meta_value option \<times> 'w"

definition obj_attr_get_meta_plugin :: "'w plugin \<Rightarrow> addr \<Rightarrow> obj_t \<Rightarrow> int \<Rightarrow> int \<Rightarrow> 'w \<Rightarrow> 'w meta_result" where
  "obj_attr_get_meta_plugin P a ob attr meta w =
     (if has_ops ob then p_get_meta P a attr meta w else (PWR_RET_BAD_VALUE, None, w))"

definition obj_attr_set_meta_plugin ::
  "'w plugin \<Rightarrow> addr \<Rightarrow> obj_t \<Rightarrow> addr \<Rightarrow> int \<Rightarrow> int \<Rightarrow> 64 word \<Rightarrow> 'w \<Rightarrow> int \<times> 'w" where
  "obj_attr_set_meta_plugin P a ob c attr meta v w =
     (if has_ops ob then p_set_meta P a c attr meta v w else (PWR_RET_BAD_VALUE, w))"

definition meta_len :: "nat \<Rightarrow> meta_value" where
  "meta_len n = MetaWord (word_of_nat n)"

definition obj_get_meta :: "'w plugin \<Rightarrow> addr \<Rightarrow> obj_t \<Rightarrow> int \<Rightarrow> 'w \<Rightarrow> 'w meta_result option" where
  "obj_get_meta P a ob meta w =
     (if meta \<in> {PWR_MD_NUM, PWR_MD_MIN, PWR_MD_MAX, PWR_MD_PRECISION, PWR_MD_ACCURACY, PWR_MD_UPDATE_RATE,
                 PWR_MD_SAMPLE_RATE, PWR_MD_TIME_WINDOW, PWR_MD_TS_LATENCY, PWR_MD_TS_ACCURACY}
      then Some (PWR_RET_NO_META, None, w)
      else if meta = PWR_MD_NAME_LEN then
        do { nm \<leftarrow> table_at obj_names (obj_type ob); Some (PWR_RET_SUCCESS, Some (meta_len (length nm + 1)), w) }
      else if meta = PWR_MD_NAME then
        do { nm \<leftarrow> table_at obj_names (obj_type ob); Some (PWR_RET_SUCCESS, Some (MetaString nm), w) }
      else if meta = PWR_MD_DESC_LEN then
        do { d \<leftarrow> table_at obj_desc (obj_type ob); Some (PWR_RET_SUCCESS, Some (meta_len (length d + 1)), w) }
      else if meta = PWR_MD_DESC then
        do { d \<leftarrow> table_at obj_desc (obj_type ob); Some (PWR_RET_SUCCESS, Some (MetaString d), w) }
      else if meta = PWR_MD_VALUE_LEN then Some (PWR_RET_NO_META, None, w)
      else if meta = PWR_MD_VENDOR_INFO_LEN \<or> meta = PWR_MD_VENDOR_INFO then
        Some (obj_attr_get_meta_plugin P a ob PWR_ATTR_NOT_SPECIFIED meta w)
      else if meta = PWR_MD_MEASURE_METHOD then Some (PWR_RET_NO_META, None, w)
      else Some (PWR_RET_FAILURE, None, w))"

text \<open>
  The description of an attribute is made by \<^verbatim>\<open>sprintf\<close>, which cannot fail on these
  formats; \<open>None\<close> is a format that the C code may not pass.
\<close>

definition obj_attr_get_meta ::
  "'w plugin \<Rightarrow> addr \<Rightarrow> obj_t \<Rightarrow> int \<Rightarrow> int \<Rightarrow> 'w \<Rightarrow> 'w meta_result option" where
  "obj_attr_get_meta P a ob attr meta w =
     (if meta \<in> {PWR_MD_NUM, PWR_MD_MIN, PWR_MD_MAX, PWR_MD_PRECISION, PWR_MD_ACCURACY, PWR_MD_UPDATE_RATE,
                 PWR_MD_SAMPLE_RATE, PWR_MD_TIME_WINDOW, PWR_MD_TS_LATENCY, PWR_MD_TS_ACCURACY}
      then Some (obj_attr_get_meta_plugin P a ob attr meta w)
      else if meta = PWR_MD_NAME_LEN then
        do { nm \<leftarrow> table_at attr_name attr; Some (PWR_RET_SUCCESS, Some (meta_len (length nm + 1)), w) }
      else if meta = PWR_MD_NAME then
        do { nm \<leftarrow> table_at attr_name attr; Some (PWR_RET_SUCCESS, Some (MetaString nm), w) }
      else if meta = PWR_MD_DESC_LEN then
        do {
          d \<leftarrow> table_at attr_desc attr;
          nm \<leftarrow> table_at obj_names (obj_type ob);
          Some (PWR_RET_SUCCESS, Some (meta_len (length d - 2 + length nm + 1)), w)
        }
      else if meta = PWR_MD_DESC then
        do {
          d \<leftarrow> table_at attr_desc attr;
          nm \<leftarrow> table_at obj_names (obj_type ob);
          txt \<leftarrow> sprintf_s d (Some nm);
          Some (PWR_RET_SUCCESS, Some (MetaString txt), w)
        }
      else if meta = PWR_MD_VALUE_LEN \<or> meta = PWR_MD_MEASURE_METHOD then
        Some (obj_attr_get_meta_plugin P a ob attr meta w)
      else if meta = PWR_MD_VENDOR_INFO_LEN \<or> meta = PWR_MD_VENDOR_INFO then
        Some (obj_attr_get_meta_plugin P a ob PWR_ATTR_NOT_SPECIFIED meta w)
      else Some (PWR_RET_FAILURE, None, w))"

definition PWR_ObjAttrGetMeta ::
  "'w plugin \<Rightarrow> key \<Rightarrow> int \<Rightarrow> int \<Rightarrow> lib \<Rightarrow> 'w \<Rightarrow> 'w meta_result option" where
  "PWR_ObjAttrGetMeta P object attr meta s w =
     do {
       ctx \<leftarrow> lookup_context s (OPAQUE_GET_CONTEXT_KEY object);
       case ctx of
         None \<Rightarrow> Some (PWR_RET_BAD_VALUE, None, w)
       | Some c \<Rightarrow>
           do {
             obj \<leftarrow> lookup_object s (OPAQUE_GET_DATA_KEY object);
             case obj of
               None \<Rightarrow> Some (PWR_RET_BAD_VALUE, None, w)
             | Some a \<Rightarrow>
                 do {
                   ob \<leftarrow> objs s a;
                   if meta < 0 \<or> meta \<ge> PWR_NUM_META_NAMES then Some (PWR_RET_OUT_OF_RANGE, None, w)
                   else do {
                     status \<leftarrow> (if attr \<noteq> PWR_ATTR_NOT_SPECIFIED then validate_attr (obj_type ob) attr
                                 else Some PWR_RET_SUCCESS);
                     if status \<noteq> 0 then Some (status, None, w)
                     else if meta = PWR_MD_MAX_LEN
                     then Some (PWR_RET_SUCCESS, Some (meta_len CRAY_PWR_MAX_STRING_SIZE), w)
                     else if attr = PWR_ATTR_NOT_SPECIFIED then obj_get_meta P a ob meta w
                     else obj_attr_get_meta P a ob attr meta w
                   }
                 }
           }
     }"

definition PWR_ObjAttrSetMeta ::
  "'w plugin \<Rightarrow> key \<Rightarrow> int \<Rightarrow> int \<Rightarrow> 64 word \<Rightarrow> lib \<Rightarrow> 'w \<Rightarrow> (int \<times> 'w) option" where
  "PWR_ObjAttrSetMeta P object attr meta v s w =
     do {
       ctx \<leftarrow> lookup_context s (OPAQUE_GET_CONTEXT_KEY object);
       case ctx of
         None \<Rightarrow> Some (PWR_RET_BAD_VALUE, w)
       | Some c \<Rightarrow>
           do {
             obj \<leftarrow> lookup_object s (OPAQUE_GET_DATA_KEY object);
             case obj of
               None \<Rightarrow> Some (PWR_RET_BAD_VALUE, w)
             | Some a \<Rightarrow>
                 do {
                   ob \<leftarrow> objs s a;
                   if meta < 0 \<or> meta \<ge> PWR_NUM_META_NAMES then Some (PWR_RET_OUT_OF_RANGE, w)
                   else do {
                     status \<leftarrow> validate_attr (obj_type ob) attr;
                     if status \<noteq> 0 then Some (status, w)
                     else if meta < PWR_MD_UPDATE_RATE \<or> meta > PWR_MD_TIME_WINDOW then Some (PWR_RET_READ_ONLY, w)
                     else Some (obj_attr_set_meta_plugin P a ob c attr meta v w)
                   }
                 }
           }
     }"

definition PWR_MetaValueAtIndex ::
  "'w plugin \<Rightarrow> key \<Rightarrow> int \<Rightarrow> nat \<Rightarrow> lib \<Rightarrow> 'w \<Rightarrow> (int \<times> 64 word option \<times> string option \<times> 'w) option" where
  "PWR_MetaValueAtIndex P object attr index s w =
     do {
       ctx \<leftarrow> lookup_context s (OPAQUE_GET_CONTEXT_KEY object);
       case ctx of
         None \<Rightarrow> Some (PWR_RET_BAD_VALUE, None, None, w)
       | Some c \<Rightarrow>
           do {
             obj \<leftarrow> lookup_object s (OPAQUE_GET_DATA_KEY object);
             case obj of
               None \<Rightarrow> Some (PWR_RET_BAD_VALUE, None, None, w)
             | Some a \<Rightarrow>
                 do {
                   ob \<leftarrow> objs s a;
                   status \<leftarrow> validate_attr (obj_type ob) attr;
                   if status \<noteq> 0 then Some (status, None, None, w)
                   else if has_ops ob then Some (p_get_meta_at_index P a attr index w)
                   else Some (PWR_RET_FAILURE, None, None, w)
                 }
           }
     }"

subsection \<open>Describing an object\<close>

definition PWR_ObjGetType :: "key \<Rightarrow> lib \<Rightarrow> (int \<times> int) option" where
  "PWR_ObjGetType object s =
     do {
       obj \<leftarrow> lookup_object s (OPAQUE_GET_DATA_KEY object);
       case obj of
         None \<Rightarrow> Some (PWR_RET_FAILURE, PWR_OBJ_INVALID)
       | Some a \<Rightarrow> do { ob \<leftarrow> objs s a; Some (PWR_RET_SUCCESS, obj_type ob) }
     }"

definition PWR_ObjGetName :: "key \<Rightarrow> nat \<Rightarrow> lib \<Rightarrow> (int \<times> string option) option" where
  "PWR_ObjGetName object len s =
     do {
       obj \<leftarrow> lookup_object s (OPAQUE_GET_DATA_KEY object);
       case obj of
         None \<Rightarrow> Some (PWR_RET_FAILURE, None)
       | Some a \<Rightarrow>
           do {
             ob \<leftarrow> objs s a;
             Some (if length (obj_name ob) \<ge> len then PWR_RET_WARN_TRUNC else PWR_RET_SUCCESS,
                   copy_bounded (obj_name ob) len)
           }
     }"

text \<open>The C code reads the context key with the macro for the data key.\<close>

definition PWR_ObjGetParent :: "key \<Rightarrow> lib \<Rightarrow> (int \<times> key option) option" where
  "PWR_ObjGetParent object s =
     (let ctx_key = OPAQUE_GET_DATA_KEY object; obj_key = OPAQUE_GET_DATA_KEY object in
      do {
        obj \<leftarrow> lookup_object s obj_key;
        case obj of
          None \<Rightarrow> Some (PWR_RET_FAILURE, None)
        | Some a \<Rightarrow>
            do {
              ob \<leftarrow> objs s a;
              case obj_gnode ob of
                None \<Rightarrow> Some (PWR_RET_FAILURE, None)
              | Some gn \<Rightarrow>
                  do {
                    node \<leftarrow> gnodes s gn;
                    case gn_parent node of
                      None \<Rightarrow> Some (PWR_RET_WARN_NO_PARENT, Some (OPAQUE_GENERATE 0 0))
                    | Some pn \<Rightarrow>
                        do {
                          pnode \<leftarrow> gnodes s pn;
                          r \<leftarrow> refs s (gn_data pnode);
                          Some (PWR_RET_SUCCESS, Some (OPAQUE_GENERATE ctx_key (ref_key r)))
                        }
                  }
            }
      })"

definition group_insert_callback :: "addr \<Rightarrow> addr \<Rightarrow> lib \<Rightarrow> lib option" where
  "group_insert_callback gn grp s =
     do { node \<leftarrow> gnodes s gn; (_, s) \<leftarrow> group_insert_obj grp (gn_data node) s; Some s }"

fun children_foreach :: "addr list \<Rightarrow> addr \<Rightarrow> lib \<Rightarrow> lib option" where
  "children_foreach [] grp s = Some s"
| "children_foreach (gn # rest) grp s = do { s \<leftarrow> group_insert_callback gn grp s; children_foreach rest grp s }"

definition PWR_ObjGetChildren :: "key \<Rightarrow> lib \<Rightarrow> (int \<times> key option \<times> lib) option" where
  "PWR_ObjGetChildren object s =
     (let ctx_key = OPAQUE_GET_CONTEXT_KEY object in
      do {
        ctx \<leftarrow> lookup_context s ctx_key;
        case ctx of
          None \<Rightarrow> Some (PWR_RET_FAILURE, None, s)
        | Some c \<Rightarrow>
            do {
              obj \<leftarrow> lookup_object s (OPAQUE_GET_DATA_KEY object);
              case obj of
                None \<Rightarrow> Some (PWR_RET_FAILURE, None, s)
              | Some a \<Rightarrow>
                  do {
                    ob \<leftarrow> objs s a;
                    children \<leftarrow> node_children s ob;
                    if children = [] then Some (PWR_RET_WARN_NO_CHILDREN, None, s)
                    else do {
                      (grp, s) \<leftarrow> context_new_group c s;
                      case grp of
                        None \<Rightarrow> Some (PWR_RET_FAILURE, None, s)
                      | Some ga \<Rightarrow>
                          do {
                            s \<leftarrow> children_foreach children ga s;
                            r \<leftarrow> refs s ga;
                            Some (PWR_RET_SUCCESS, Some (OPAQUE_GENERATE ctx_key (ref_key r)), s)
                          }
                    }
                  }
            }
      })"

definition PWR_ObjAttrIsValid :: "key \<Rightarrow> int \<Rightarrow> lib \<Rightarrow> int option" where
  "PWR_ObjAttrIsValid object attr s =
     do {
       obj \<leftarrow> lookup_object s (OPAQUE_GET_DATA_KEY object);
       case obj of
         None \<Rightarrow> Some PWR_RET_BAD_VALUE
       | Some a \<Rightarrow> do { ob \<leftarrow> objs s a; validate_attr (obj_type ob) attr }
     }"

end
