(* ===== verification/Statistics.thy ===== *)
theory Statistics
  imports Attr_API Object_API
begin

text \<open>
  \<^verbatim>\<open>lib/statistics.c\<close>: statistics over the samples of an attribute. A statistic has a
  sampling thread of its own. The thread is modelled by the two things it does, its
  initialisation and one round of the sampling loop (a round updates the shared arrays
  under the statistic's lock); a run of the thread is a sequence of rounds. Values are
  doubles in the sense of \<open>Pwr_Double\<close>: every operation rounds its result.
\<close>

subsection \<open>The sampling thread\<close>

text \<open>The local variables of \<^verbatim>\<open>calculate_stat\<close> that live across rounds.\<close>

record calc_t =
  reading :: "64 word list"
  readtime :: "PWR_Time list"
  avgcnt :: fp
  roll_mean :: "fp list"
  roll_sum :: "fp list"

definition supported_stat :: "int \<Rightarrow> bool" where
  "supported_stat k \<longleftrightarrow> k \<in> {PWR_ATTR_STAT_MIN, PWR_ATTR_STAT_MAX, PWR_ATTR_STAT_AVG, PWR_ATTR_STAT_STDEV}"

definition initial_value :: "int \<Rightarrow> fp" where
  "initial_value k = (if k = PWR_ATTR_STAT_MIN then PInf else if k = PWR_ATTR_STAT_MAX then MInf else Fin 0)"

text \<open>
  The part before the loop. The inner \<open>None\<close> is a thread that ends at once because the
  kind of statistic is not supported.
\<close>

definition calculate_stat_init :: "addr \<Rightarrow> lib \<Rightarrow> (calc_t option \<times> lib) option" where
  "calculate_stat_init a s =
     do {
       st \<leftarrow> stats s a;
       let n = stat_objcount st;
       if n = 0 \<or> supported_stat (stat_stat st) then
         if length (stat_values st) = n then
           Some (Some \<lparr>reading = replicate n 0, readtime = replicate n 0, avgcnt = Fin 0,
                       roll_mean = replicate n (Fin 0), roll_sum = replicate n (Fin 0)\<rparr>,
                 s\<lparr>stats := (stats s)(a \<mapsto> st\<lparr>stat_values := replicate n (initial_value (stat_stat st))\<rparr>)\<rparr>)
         else None
       else Some (None, s)
     }"

text \<open>One index of one round: the value, its instant, the rolling mean and sum.\<close>

type_synonym cell = "fp \<times> PWR_Time \<times> fp \<times> fp"

definition calc_cell :: "int \<Rightarrow> fp \<Rightarrow> fp \<Rightarrow> PWR_Time \<Rightarrow> cell \<Rightarrow> cell" where
  "calc_cell k cnt r t =
     (\<lambda>(v, inst, mean, sum).
        if k = PWR_ATTR_STAT_MIN then if r < v then (r, t, mean, sum) else (v, inst, mean, sum)
        else if k = PWR_ATTR_STAT_MAX then if v < r then (r, t, mean, sum) else (v, inst, mean, sum)
        else if k = PWR_ATTR_STAT_AVG then (v + (r - v) / cnt, inst, mean, sum)
        else
          let prev_mean = mean; mean = mean + (r - mean) / cnt; sum = sum + (r - mean) * (r - prev_mean) in
          (fp_sqrt (sum / (cnt - Fin 1)), inst, mean, sum))"

text \<open>What a read leaves in a buffer: old contents where nothing was stored.\<close>

definition overlay :: "'a list \<Rightarrow> 'a option list \<Rightarrow> 'a list option" where
  "overlay buf new =
     (if length new \<le> length buf
      then Some (map (\<lambda>i. if i < length new then case new ! i of None \<Rightarrow> buf ! i | Some x \<Rightarrow> x else buf ! i) [0..<length buf])
      else None)"

definition stat_sample :: "'w plugin \<Rightarrow> stat_t \<Rightarrow> lib \<Rightarrow> 'w \<Rightarrow> (int \<times> stored list \<times> lib \<times> 'w) option" where
  "stat_sample P st s w =
     (if stat_obj st \<noteq> 0 then
        do { (retval, v, t, w) \<leftarrow> PWR_ObjAttrGetValue P (stat_obj st) (stat_attr st) True s w; Some (retval, [(v, t)], s, w) }
      else PWR_GrpAttrGetValue P (stat_grp st) (stat_attr st) True True 0 s w)"

definition update_cells :: "stat_t \<Rightarrow> calc_t \<Rightarrow> cell list" where
  "update_cells st th =
     map (\<lambda>i. calc_cell (stat_stat st) (avgcnt th) (double_of_bits (reading th ! i)) (readtime th ! i)
            (stat_values st ! i, stat_instants st ! i, roll_mean th ! i, roll_sum th ! i)) [0..<stat_objcount st]"

definition cells_fit :: "stat_t \<Rightarrow> calc_t \<Rightarrow> bool" where
  "cells_fit st th \<longleftrightarrow> (let n = stat_objcount st in
     length (reading th) = n \<and> length (readtime th) = n \<and> length (roll_mean th) = n \<and> length (roll_sum th) = n \<and>
     length (stat_values st) = n \<and> length (stat_instants st) = n)"

text \<open>One round of the loop; a failed read only sleeps.\<close>

definition calculate_stat_round :: "'w plugin \<Rightarrow> addr \<Rightarrow> calc_t \<Rightarrow> lib \<Rightarrow> 'w \<Rightarrow> (calc_t \<times> lib \<times> 'w) option" where
  "calculate_stat_round P a th s w =
     do {
       st \<leftarrow> stats s a;
       (retval, out, s, w) \<leftarrow> stat_sample P st s w;
       buf \<leftarrow> overlay (reading th) (map fst out);
       tbuf \<leftarrow> overlay (readtime th) (map snd out);
       let th = th\<lparr>reading := buf, readtime := tbuf\<rparr>;
       if retval \<noteq> PWR_RET_SUCCESS then Some (th, s, w)
       else do {
         let th = th\<lparr>avgcnt := avgcnt th + Fin 1\<rparr>;
         st \<leftarrow> stats s a;
         if cells_fit st th then
           let cs = update_cells st th in
           Some (th\<lparr>roll_mean := map (\<lambda>(v, t, m, q). m) cs, roll_sum := map (\<lambda>(v, t, m, q). q) cs\<rparr>,
                 s\<lparr>stats := (stats s)(a \<mapsto> st\<lparr>stat_values := map (\<lambda>(v, t, m, q). v) cs,
                                              stat_instants := map (\<lambda>(v, t, m, q). t) cs\<rparr>)\<rparr>, w)
         else None
       }
     }"

text \<open>\<open>spawn\<close> is whether the thread can be created.\<close>

definition start_thread :: "bool \<Rightarrow> addr \<Rightarrow> lib \<Rightarrow> (int \<times> lib) option" where
  "start_thread spawn a s =
     do {
       st \<leftarrow> stats s a;
       s \<leftarrow> (if stat_thread st then stop_thread a s else Some s);
       st \<leftarrow> stats s a;
       Some (if spawn then PWR_RET_SUCCESS else PWR_RET_FAILURE,
             s\<lparr>stats := (stats s)(a \<mapsto> st\<lparr>stat_thread := spawn\<rparr>)\<rparr>)
     }"

subsection \<open>Checks\<close>

definition validate_attribute :: "int \<Rightarrow> int" where
  "validate_attribute name =
     (if name = PWR_ATTR_POWER \<or> name = PWR_ATTR_ENERGY \<or> name = PWR_ATTR_TEMP then PWR_RET_SUCCESS
      else if name = PWR_NUM_ATTR_NAMES \<or> name = PWR_ATTR_INVALID \<or> name = PWR_ATTR_NOT_SPECIFIED then PWR_RET_FAILURE
      else PWR_RET_NOT_IMPLEMENTED)"

definition validate_statistic :: "int \<Rightarrow> int" where
  "validate_statistic statistic =
     (if statistic = PWR_ATTR_STAT_MIN \<or> statistic = PWR_ATTR_STAT_MAX \<or> statistic = PWR_ATTR_STAT_AVG \<or>
         statistic = PWR_ATTR_STAT_STDEV then PWR_RET_SUCCESS
      else if statistic = PWR_NUM_ATTR_STATS \<or> statistic = PWR_ATTR_STAT_INVALID \<or>
              statistic = PWR_ATTR_STAT_NOT_SPECIFIED then PWR_RET_FAILURE
      else PWR_RET_NOT_IMPLEMENTED)"

definition is_invalid :: "stat_t \<Rightarrow> bool" where
  "is_invalid st \<longleftrightarrow> stat_obj st = 0 \<and> stat_grp st = 0"

definition get_current_time :: "'w plugin \<Rightarrow> 'w \<Rightarrow> PWR_Time \<times> 'w" where
  "get_current_time P w =
     (case p_clock P w of (None, w) \<Rightarrow> (0, w) | (Some ts, w) \<Rightarrow> (pwr_tspec_to_nsec ts, w))"

subsection \<open>Creating and destroying\<close>

text \<open>
  The sample rate: the update rate that the plugin reports, 10 Hz if it reports none;
  \<open>None\<close> is an error.
\<close>

definition sample_rate_of :: "int \<Rightarrow> meta_value option \<Rightarrow> fp option" where
  "sample_rate_of status meta =
     (if status = PWR_RET_NO_META then Some (Fin 10)
      else
        let rate = (case meta of Some (MetaWord v) \<Rightarrow> double_of_bits v | _ \<Rightarrow> Fin 0) in
        if status \<noteq> PWR_RET_SUCCESS \<or> rate \<le> Fin 0 then None else Some rate)"

definition init_stat :: "key \<Rightarrow> key \<Rightarrow> int \<Rightarrow> int \<Rightarrow> nat \<Rightarrow> addr \<Rightarrow> lib \<Rightarrow> lib option" where
  "init_stat obj gh name statistic n a s =
     do {
       st \<leftarrow> stats s a;
       Some (s\<lparr>stats := (stats s)(a \<mapsto> st\<lparr>stat_obj := obj, stat_grp := gh, stat_attr := name, stat_stat := statistic,
         stat_objcount := n, stat_values := replicate n (Fin 0), stat_instants := replicate n 0\<rparr>)\<rparr>)
     }"

definition finish_stat :: "fp \<Rightarrow> addr \<Rightarrow> addr \<Rightarrow> lib \<Rightarrow> (key \<times> lib) option" where
  "finish_stat rate c a s =
     do {
       st \<leftarrow> stats s a;
       rc \<leftarrow> refs s c;
       ra \<leftarrow> refs s a;
       Some (OPAQUE_GENERATE (ref_key rc) (ref_key ra), s\<lparr>stats := (stats s)(a \<mapsto> st\<lparr>stat_sample_rate := rate\<rparr>)\<rparr>)
     }"

text \<open>
  In the next two, \<open>statObj\<close> is whether the pointer is not NULL. A NULL pointer is
  rejected with an error, but the exit trace then reads through it.
\<close>

definition PWR_ObjCreateStat ::
  "'w plugin \<Rightarrow> key \<Rightarrow> int \<Rightarrow> int \<Rightarrow> bool \<Rightarrow> lib \<Rightarrow> 'w \<Rightarrow> (int \<times> key option \<times> lib \<times> 'w) option" where
  "PWR_ObjCreateStat P object name statistic statObj s w =
     (if \<not> statObj then None
      else if validate_attribute name \<noteq> 0 then Some (validate_attribute name, None, s, w)
      else if validate_statistic statistic \<noteq> 0 then Some (validate_statistic statistic, None, s, w)
      else do {
        obj \<leftarrow> lookup_object s (OPAQUE_GET_DATA_KEY object);
        ctx \<leftarrow> (if obj = None then Some None else lookup_context s (OPAQUE_GET_CONTEXT_KEY object));
        case ctx of
          None \<Rightarrow> Some (PWR_RET_FAILURE, None, s, w)
        | Some c \<Rightarrow>
            do {
              (retval, _, _, w) \<leftarrow> PWR_ObjAttrGetValue P object name True s w;
              if retval \<noteq> PWR_RET_SUCCESS then Some (retval, None, s, w)
              else do {
                (sta, s) \<leftarrow> context_new_statistic c s;
                case sta of
                  None \<Rightarrow> Some (PWR_RET_FAILURE, None, s, w)
                | Some a \<Rightarrow>
                    do {
                      s \<leftarrow> init_stat object 0 name statistic 1 a s;
                      (status, meta, w) \<leftarrow> PWR_ObjAttrGetMeta P object name PWR_MD_UPDATE_RATE s w;
                      case sample_rate_of status meta of
                        None \<Rightarrow> do { s \<leftarrow> context_del_statistic c a s; Some (PWR_RET_FAILURE, None, s, w) }
                      | Some rate \<Rightarrow> do { (h, s) \<leftarrow> finish_stat rate c a s; Some (PWR_RET_SUCCESS, Some h, s, w) }
                    }
              }
            }
      })"

definition PWR_GrpCreateStat ::
  "'w plugin \<Rightarrow> key \<Rightarrow> int \<Rightarrow> int \<Rightarrow> bool \<Rightarrow> lib \<Rightarrow> 'w \<Rightarrow> (int \<times> key option \<times> lib \<times> 'w) option" where
  "PWR_GrpCreateStat P gh name statistic statObj s w =
     (if \<not> statObj then None
      else if validate_attribute name \<noteq> 0 then Some (validate_attribute name, None, s, w)
      else if validate_statistic statistic \<noteq> 0 then Some (validate_statistic statistic, None, s, w)
      else do {
        grp \<leftarrow> lookup_group s (OPAQUE_GET_DATA_KEY gh);
        case grp of
          None \<Rightarrow> Some (PWR_RET_FAILURE, None, s, w)
        | Some ga \<Rightarrow>
            do {
              grplen \<leftarrow> PWR_GrpGetNumObjs gh s;
              ctx \<leftarrow> (if grplen \<le> 0 then Some None else lookup_context s (OPAQUE_GET_CONTEXT_KEY gh));
              case ctx of
                None \<Rightarrow> Some (PWR_RET_FAILURE, None, s, w)
              | Some c \<Rightarrow>
                  do {
                    (retval, _, s, w) \<leftarrow> PWR_GrpAttrGetValue P gh name True True 0 s w;
                    if retval \<noteq> PWR_RET_SUCCESS then Some (retval, None, s, w)
                    else do {
                      (sta, s) \<leftarrow> group_new_statistic ga s;
                      case sta of
                        None \<Rightarrow> Some (PWR_RET_FAILURE, None, s, w)
                      | Some a \<Rightarrow>
                          do {
                            s \<leftarrow> init_stat 0 gh name statistic (nat grplen) a s;
                            (r, obj) \<leftarrow> PWR_GrpGetObjByIndx gh 0 s;
                            (rate, w) \<leftarrow>
                              (if r \<noteq> PWR_RET_SUCCESS then Some (None, w)
                               else do {
                                 object \<leftarrow> obj;
                                 (status, meta, w) \<leftarrow> PWR_ObjAttrGetMeta P object name PWR_MD_UPDATE_RATE s w;
                                 Some (sample_rate_of status meta, w)
                               });
                            case rate of
                              None \<Rightarrow> do { s \<leftarrow> group_del_statistic ga a s; Some (PWR_RET_FAILURE, None, s, w) }
                            | Some rate \<Rightarrow> do { (h, s) \<leftarrow> finish_stat rate c a s; Some (PWR_RET_SUCCESS, Some h, s, w) }
                          }
                    }
                  }
            }
      })"

definition PWR_StatDestroy :: "key \<Rightarrow> lib \<Rightarrow> (int \<times> lib) option" where
  "PWR_StatDestroy statObj s =
     do {
       sta \<leftarrow> lookup_stat s (OPAQUE_GET_DATA_KEY statObj);
       case sta of
         None \<Rightarrow> Some (PWR_RET_FAILURE, s)
       | Some a \<Rightarrow>
           do {
             ctx \<leftarrow> lookup_context s (OPAQUE_GET_CONTEXT_KEY statObj);
             case ctx of
               None \<Rightarrow> Some (PWR_RET_FAILURE, s)
             | Some c \<Rightarrow>
                 do {
                   st \<leftarrow> stats s a;
                   if stat_grp st \<noteq> 0 then
                     do {
                       grp \<leftarrow> lookup_group s (OPAQUE_GET_DATA_KEY (stat_grp st));
                       case grp of
                         None \<Rightarrow> Some (PWR_RET_FAILURE, s)
                       | Some ga \<Rightarrow> do { s \<leftarrow> group_del_statistic ga a s; Some (PWR_RET_SUCCESS, s) }
                     }
                   else do { s \<leftarrow> context_del_statistic c a s; Some (PWR_RET_SUCCESS, s) }
                 }
           }
     }"

subsection \<open>Control\<close>

text \<open>What the control functions have in common: find the statistic, reject one that was invalidated.\<close>

definition with_stat :: "key \<Rightarrow> lib \<Rightarrow> (addr \<Rightarrow> stat_t \<Rightarrow> 'r option) \<Rightarrow> (int \<Rightarrow> 'r) \<Rightarrow> 'r option" where
  "with_stat statObj s body fail =
     do {
       sta \<leftarrow> lookup_stat s (OPAQUE_GET_DATA_KEY statObj);
       case sta of
         None \<Rightarrow> Some (fail PWR_RET_FAILURE)
       | Some a \<Rightarrow> do { st \<leftarrow> stats s a; if is_invalid st then Some (fail PWR_RET_INVALID) else body a st }
     }"

definition PWR_StatStart :: "'w plugin \<Rightarrow> bool \<Rightarrow> key \<Rightarrow> lib \<Rightarrow> 'w \<Rightarrow> (int \<times> lib \<times> 'w) option" where
  "PWR_StatStart P spawn statObj s w =
     with_stat statObj s
       (\<lambda>a st.
          let (now, w) = get_current_time P w; st = st\<lparr>stat_start := now\<rparr> in
          if now = 0 then Some (PWR_RET_FAILURE, s\<lparr>stats := (stats s)(a \<mapsto> st)\<rparr>, w)
          else do {
            (_, s) \<leftarrow> start_thread spawn a (s\<lparr>stats := (stats s)(a \<mapsto> st\<lparr>stat_stop := 0\<rparr>)\<rparr>);
            Some (PWR_RET_SUCCESS, s, w)
          }) (\<lambda>r. (r, s, w))"

definition PWR_StatStop :: "'w plugin \<Rightarrow> key \<Rightarrow> lib \<Rightarrow> 'w \<Rightarrow> (int \<times> lib \<times> 'w) option" where
  "PWR_StatStop P statObj s w =
     with_stat statObj s
       (\<lambda>a st.
          let (now, w) = get_current_time P w; s = s\<lparr>stats := (stats s)(a \<mapsto> st\<lparr>stat_stop := now\<rparr>)\<rparr> in
          if now = 0 then Some (PWR_RET_FAILURE, s, w)
          else do { s \<leftarrow> stop_thread a s; Some (PWR_RET_SUCCESS, s, w) }) (\<lambda>r. (r, s, w))"

definition PWR_StatClear :: "'w plugin \<Rightarrow> bool \<Rightarrow> key \<Rightarrow> lib \<Rightarrow> 'w \<Rightarrow> (int \<times> lib \<times> 'w) option" where
  "PWR_StatClear P spawn statObj s w =
     with_stat statObj s
       (\<lambda>a st. do {
          s \<leftarrow> (if stat_thread st then stop_thread a s else Some s);
          st \<leftarrow> stats s a;
          let (now, w) = get_current_time P w;
          let st = st\<lparr>stat_start := now\<rparr>;
          if now = 0 then Some (PWR_RET_FAILURE, s\<lparr>stats := (stats s)(a \<mapsto> st)\<rparr>, w)
          else do {
            (_, s) \<leftarrow> start_thread spawn a (s\<lparr>stats := (stats s)(a \<mapsto> st\<lparr>stat_stop := 0\<rparr>)\<rparr>);
            Some (PWR_RET_SUCCESS, s, w)
          }
        }) (\<lambda>r. (r, s, w))"

subsection \<open>Results\<close>

record PWR_TimePeriod =
  tp_start :: PWR_Time
  tp_stop :: PWR_Time
  tp_instant :: PWR_Time

definition stop_time :: "'w plugin \<Rightarrow> stat_t \<Rightarrow> 'w \<Rightarrow> PWR_Time \<times> 'w" where
  "stop_time P st w = (if stat_stop st = 0 then get_current_time P w else (stat_stop st, w))"

definition PWR_StatGetValue ::
  "'w plugin \<Rightarrow> key \<Rightarrow> lib \<Rightarrow> 'w \<Rightarrow> (int \<times> (fp \<times> PWR_TimePeriod) option \<times> 'w) option" where
  "PWR_StatGetValue P statObj s w =
     with_stat statObj s
       (\<lambda>a st.
          case (stat_values st, stat_instants st) of
            (v # _, i # _) \<Rightarrow>
              let (stop, w) = stop_time P st w in
              Some (PWR_RET_SUCCESS, Some (v, \<lparr>tp_start = stat_start st, tp_stop = stop, tp_instant = i\<rparr>), w)
          | _ \<Rightarrow> None) (\<lambda>r. (r, None, w))"

definition PWR_StatGetValues ::
  "'w plugin \<Rightarrow> key \<Rightarrow> lib \<Rightarrow> 'w \<Rightarrow> (int \<times> (fp \<times> PWR_TimePeriod) list option \<times> 'w) option" where
  "PWR_StatGetValues P statObj s w =
     with_stat statObj s
       (\<lambda>a st.
          let n = stat_objcount st in
          if n \<le> length (stat_values st) \<and> n \<le> length (stat_instants st) then
            let (stop, w) = stop_time P st w in
            Some (PWR_RET_SUCCESS,
                  Some (map (\<lambda>i. (stat_values st ! i,
                                  \<lparr>tp_start = stat_start st, tp_stop = stop, tp_instant = stat_instants st ! i\<rparr>)) [0..<n]), w)
          else None) (\<lambda>r. (r, None, w))"

text \<open>The variables of the reduction; the second is what the code stores in \<open>*index\<close> and \<open>*instant\<close>.\<close>

record reduce_t =
  red_result :: fp
  red_at :: "(nat \<times> PWR_Time) option"
  red_avgcnt :: fp
  red_mean :: fp
  red_sum :: fp

definition reduce_step :: "int \<Rightarrow> nat \<Rightarrow> fp \<Rightarrow> PWR_Time \<Rightarrow> reduce_t \<Rightarrow> reduce_t" where
  "reduce_step reduceOp i v t r =
     (if reduceOp = PWR_ATTR_STAT_MIN then
        if v < red_result r then r\<lparr>red_result := v, red_at := Some (i, t)\<rparr> else r
      else if reduceOp = PWR_ATTR_STAT_MAX then
        if red_result r < v then r\<lparr>red_result := v, red_at := Some (i, t)\<rparr> else r
      else if reduceOp = PWR_ATTR_STAT_AVG then
        let avgcnt = Fin (real i) + Fin 1 in
        r\<lparr>red_avgcnt := avgcnt, red_result := red_result r + (v - red_result r) / avgcnt\<rparr>
      else
        let avgcnt = Fin (real i) + Fin 1; mean = red_mean r + (v - red_mean r) / avgcnt in
        r\<lparr>red_avgcnt := avgcnt, red_mean := mean, red_sum := red_sum r + (v - mean) * (v - red_mean r)\<rparr>)"

definition reduce_init :: "int \<Rightarrow> reduce_t" where
  "reduce_init reduceOp =
     \<lparr>red_result = initial_value reduceOp, red_at = None, red_avgcnt = Fin 0, red_mean = Fin 0, red_sum = Fin 0\<rparr>"

definition reduce_loop :: "int \<Rightarrow> stat_t \<Rightarrow> reduce_t" where
  "reduce_loop reduceOp st =
     fold (\<lambda>i. reduce_step reduceOp i (stat_values st ! i) (stat_instants st ! i)) [0..<stat_objcount st] (reduce_init reduceOp)"

definition reduce_final :: "stat_t \<Rightarrow> reduce_t \<Rightarrow> fp" where
  "reduce_final st r =
     (if stat_stat st = PWR_ATTR_STAT_STDEV then fp_sqrt (red_sum r / (red_avgcnt r - Fin 1)) else red_result r)"

definition PWR_StatGetReduce ::
  "key \<Rightarrow> int \<Rightarrow> lib \<Rightarrow> (int \<times> (fp \<times> (nat \<times> PWR_Time) option) option) option" where
  "PWR_StatGetReduce statObj reduceOp s =
     with_stat statObj s
       (\<lambda>a st.
          if \<not> supported_stat reduceOp then Some (PWR_RET_FAILURE, None)
          else if stat_objcount st \<le> length (stat_values st) \<and> stat_objcount st \<le> length (stat_instants st) then
            let r = reduce_loop reduceOp st in
            Some (PWR_RET_SUCCESS, Some (reduce_final st r, red_at r))
          else None) (\<lambda>r. (r, None))"

text \<open>Historic statistics are not supported.\<close>

definition PWR_ObjGetStat :: "key \<Rightarrow> int \<Rightarrow> int \<Rightarrow> int" where
  "PWR_ObjGetStat object name statistic = PWR_RET_NOT_IMPLEMENTED"

definition PWR_GrpGetStats :: "key \<Rightarrow> int \<Rightarrow> int \<Rightarrow> int" where
  "PWR_GrpGetStats gh name statistic = PWR_RET_NOT_IMPLEMENTED"

definition PWR_GrpGetReduce :: "key \<Rightarrow> int \<Rightarrow> int \<Rightarrow> int \<Rightarrow> int" where
  "PWR_GrpGetReduce gh name statistic reduceOp = PWR_RET_NOT_IMPLEMENTED"

end
