(* ===== verification/Object_Properties.thy ===== *)
theory Object_Properties
  imports Object_API Example_Lib
begin

text \<open>
  The properties of the attribute tables, of the attribute dispatch and of the functions
  that describe objects.
\<close>

subsection \<open>Tables\<close>

text \<open>
  C24. For every object type with attributes, the count, the list and the validity test of
  attributes agree: the count is the number of attributes that the test accepts, and a
  list of that length holds exactly these, in increasing order, with their names.
\<close>

theorem attr_count_list_valid_agree:
  assumes "type_mask t = Some m"
  shows "\<exists>n ret vals. CRAYPWR_AttrGetCount t = Some (PWR_RET_SUCCESS, Some n) \<and>
    n = card {a. validate_attr t a = Some PWR_RET_SUCCESS} \<and>
    CRAYPWR_AttrGetList t n = Some (ret, vals, map (\<lambda>v. attr_name ! v) vals) \<and>
    strict_sorted_list vals \<and> int ` set vals = {a. validate_attr t a = Some PWR_RET_SUCCESS}"
proof -
  note wf = type_mask_wf [OF assms]
  have valid: "{a. validate_attr t a = Some PWR_RET_SUCCESS} = attrs_of m" using validate_attr_iff [OF assms] by blast
  have t: "\<not> t \<ge> PWR_NUM_OBJ_TYPES" "\<not> t < 0" using assms by (auto simp: type_mask_def split: if_splits)
  let ?n = "card (bits_of m)"
  have "CRAYPWR_AttrGetCount t = Some (PWR_RET_SUCCESS, Some ?n)"
    using t assms wf by (simp add: CRAYPWR_AttrGetCount_def bitmask_num_set_card)
  moreover obtain ret where "get_attr_list m ?n = Some (ret, sorted_list_of_set (bits_of m),
      map (\<lambda>v. attr_name ! v) (sorted_list_of_set (bits_of m)))"
    using get_attr_list_result [of m ?n] wf by auto
  then have "CRAYPWR_AttrGetList t ?n = Some (ret, sorted_list_of_set (bits_of m),
      map (\<lambda>v. attr_name ! v) (sorted_list_of_set (bits_of m)))"
    using t assms by (simp add: CRAYPWR_AttrGetList_def)
  ultimately show ?thesis using valid card_attrs_of [of m] by (auto simp: attrs_of_def)
qed

theorem attr_count_list_valid_agree_witness:
  "\<exists>n. CRAYPWR_AttrGetCount PWR_OBJ_HT = Some (PWR_RET_SUCCESS, Some n) \<and>
     n = card {a. validate_attr PWR_OBJ_HT a = Some PWR_RET_SUCCESS}"
proof -
  have "type_mask PWR_OBJ_HT = Some ht_attr_bitmask" by (simp add: type_mask_def)
  from attr_count_list_valid_agree [OF this] show ?thesis by blast
qed

text \<open>
  Asking for the attributes of a node with a buffer of exactly the size that
  \<^verbatim>\<open>CRAYPWR_AttrGetCount\<close> reports stores all of them and still answers that the list
  was truncated.
\<close>

theorem exact_list_reported_truncated:
  "CRAYPWR_AttrGetCount PWR_OBJ_NODE = Some (PWR_RET_SUCCESS, Some 4) \<and>
   map_option (\<lambda>(ret, vals, _). (ret, vals)) (CRAYPWR_AttrGetList PWR_OBJ_NODE 4) =
     Some (PWR_RET_WARN_TRUNC, [6, 8, 13, 15])"
proof
  show "CRAYPWR_AttrGetCount PWR_OBJ_NODE = Some (PWR_RET_SUCCESS, Some 4)" by code_simp
  show "map_option (\<lambda>(ret, vals, _). (ret, vals)) (CRAYPWR_AttrGetList PWR_OBJ_NODE 4) =
     Some (PWR_RET_WARN_TRUNC, [6, 8, 13, 15])" by code_simp
qed

lemma attr_enum_loop_nth:
  "distinct xs \<Longrightarrow> k < length xs \<Longrightarrow> attr_enum_loop (xs ! k) xs i = i + int k"
proof (induction xs arbitrary: k i)
  case (Cons x xs)
  then show ?case by (cases k) (auto dest: nth_mem)
qed simp

lemma attr_name_distinct: "distinct attr_name" "length attr_name = 19" "\<forall>nm \<in> set attr_name. length nm < CRAY_PWR_MAX_STRING_SIZE"
  by code_simp+

text \<open>
  The name of an attribute, copied into a buffer of the library's maximal string size,
  is translated back to the same attribute.
\<close>

theorem attr_name_roundtrip:
  assumes "0 \<le> attr" "attr < PWR_NUM_ATTR_NAMES"
  shows "\<exists>nm. CRAYPWR_AttrGetName attr True CRAY_PWR_MAX_STRING_SIZE = Some (PWR_RET_SUCCESS, Some nm) \<and>
    CRAYPWR_AttrGetEnum nm = attr"
proof -
  let ?nm = "attr_name ! nat attr"
  have k: "nat attr < length attr_name" using assms by (simp add: attr_name_distinct)
  have "length ?nm < CRAY_PWR_MAX_STRING_SIZE" using attr_name_distinct(3) nth_mem [OF k] by blast
  then have "CRAYPWR_AttrGetName attr True CRAY_PWR_MAX_STRING_SIZE = Some (PWR_RET_SUCCESS, Some ?nm)"
    using assms k by (simp add: CRAYPWR_AttrGetName_def table_at_def copy_bounded_def)
  moreover have "CRAYPWR_AttrGetEnum ?nm = attr"
    using attr_enum_loop_nth [OF attr_name_distinct(1) k, of 0] assms by (simp add: CRAYPWR_AttrGetEnum_def)
  ultimately show ?thesis by blast
qed

theorem attr_name_roundtrip_witness:
  "\<exists>nm. CRAYPWR_AttrGetName PWR_ATTR_GOV True CRAY_PWR_MAX_STRING_SIZE = Some (PWR_RET_SUCCESS, Some nm) \<and>
     CRAYPWR_AttrGetEnum nm = PWR_ATTR_GOV"
  by (rule attr_name_roundtrip) simp_all

subsection \<open>Reading attributes\<close>

text \<open>
  C23. The attributes that the validity test accepts for an object are exactly those that can
  be read: reading one of them is a call of the plugin (or of the clock, for the identifier),
  reading any other answers \<^verbatim>\<open>PWR_RET_NOT_IMPLEMENTED\<close>, stores nothing and does not
  touch the plugin.
\<close>

theorem readable_iff_valid:
  assumes "type_mask (obj_type ob) = Some m"
  shows "if validate_attr (obj_type ob) attr = Some PWR_RET_SUCCESS then served P a ob attr w
    else obj_attr_get_value P a ob attr w = (PWR_RET_NOT_IMPLEMENTED, None, None, w)"
  using supported_served [OF assms] unsupported_rejected [OF assms] validate_attr_iff [OF assms] by auto

definition example_plugin :: "((set_op \<times> addr \<times> 64 word) list) plugin" where
  "example_plugin =
     \<lparr>p_get = (\<lambda>op a w. (PWR_RET_SUCCESS, Some 100, Some \<lparr>tv_sec = 1, tv_nsec = 5\<rparr>, w)),
      p_set = (\<lambda>op a c v w. (PWR_RET_SUCCESS, w @ [(op, a, v)])),
      p_get_meta = (\<lambda>a attr meta w. (PWR_RET_NO_META, None, w)),
      p_set_meta = (\<lambda>a c attr meta v w. (PWR_RET_READ_ONLY, w)),
      p_get_meta_at_index = (\<lambda>a attr i w. (PWR_RET_NO_META, None, None, w)),
      p_clock = (\<lambda>w. (Some \<lparr>tv_sec = 2, tv_nsec = 0\<rparr>, w))\<rparr>"

definition example_node_obj :: obj_t where
  "example_node_obj = \<lparr>obj_type = PWR_OBJ_NODE, obj_os_id = 0, obj_name = ''node'', obj_gnode = Some 6\<rparr>"

theorem readable_iff_valid_witness:
  "served example_plugin 2 example_node_obj PWR_ATTR_POWER [] \<and>
   obj_attr_get_value example_plugin 2 example_node_obj PWR_ATTR_TEMP [] = (PWR_RET_NOT_IMPLEMENTED, None, None, [])"
proof -
  have m: "type_mask (obj_type example_node_obj) = Some node_attr_bitmask"
    by (simp add: example_node_obj_def type_mask_def)
  have "validate_attr (obj_type example_node_obj) PWR_ATTR_POWER = Some PWR_RET_SUCCESS"
    "validate_attr (obj_type example_node_obj) PWR_ATTR_TEMP = Some PWR_RET_NO_ATTRIB" by code_simp+
  with readable_iff_valid [OF m, of PWR_ATTR_POWER example_plugin 2 "[]"]
    readable_iff_valid [OF m, of PWR_ATTR_TEMP example_plugin 2 "[]"] show ?thesis by simp
qed

subsection \<open>Setting attributes\<close>

text \<open>
  C7. Setting an attribute of an object in a well-formed hierarchy always ends, and changes
  the plugin's state exactly by calling the plugin once, in tree order, for the first object
  on each downward path that has a function for the attribute; read-only attributes cause
  no call at all.
\<close>

theorem set_value_calls:
  assumes "tree_ok s" "objs s a = Some ob"
  shows "\<exists>r w'. obj_attr_set_value P s c attr v a ob w = Some (r, w') \<and>
    w' = run_calls P c v (set_calls (Suc (attr_set_fuel s)) s attr a ob) w"
proof -
  obtain r w' where r: "obj_attr_set_value P s c attr v a ob w = Some (r, w')"
    using obj_attr_set_value_returns [OF assms, of P c attr v w] by auto
  then have "w' = run_calls P c v (set_calls (Suc (attr_set_fuel s)) s attr a ob) w"
    unfolding obj_attr_set_value_def by (rule set_switch_calls) (rule assms(2))
  with r show ?thesis by blast
qed

lemma example_tree: "tree_ok example_lib"
  by (auto simp: tree_ok_def node_obj_def example_lib_def split: if_splits)

theorem set_value_calls_witness:
  "\<exists>r. obj_attr_set_value example_plugin example_lib 1 PWR_ATTR_POWER_LIMIT_MAX 90 2 example_node_obj [] =
     Some (r, [(set_power_limit_max, 3, 90)])"
proof -
  have "objs example_lib 2 = Some example_node_obj" by (simp add: example_lib_def example_node_obj_def)
  from set_value_calls [OF example_tree this, of example_plugin 1 PWR_ATTR_POWER_LIMIT_MAX 90 "[]"] obtain r where
    "obj_attr_set_value example_plugin example_lib 1 PWR_ATTR_POWER_LIMIT_MAX 90 2 example_node_obj [] =
      Some (r, run_calls example_plugin 1 90
        (set_calls (Suc (attr_set_fuel example_lib)) example_lib PWR_ATTR_POWER_LIMIT_MAX 2 example_node_obj) [])" by blast
  moreover have "run_calls example_plugin 1 90
      (set_calls (Suc (attr_set_fuel example_lib)) example_lib PWR_ATTR_POWER_LIMIT_MAX 2 example_node_obj) [] =
      [(set_power_limit_max, 3, 90)]" by code_simp
  ultimately show ?thesis by simp
qed

text \<open>
  The status of a forwarded request depends on the children that implement the
  attribute only: it is \<^verbatim>\<open>PWR_RET_NOT_IMPLEMENTED\<close> if there are none, else the first
  status that is not success (success if there is none), turned into
  \<^verbatim>\<open>PWR_RET_FAILURE\<close> if a later child reports a different error.
\<close>

theorem forwarded_status_spec:
  "forward_attr_set_value (Suc n) P s c attr v a w =
     do {
       ob \<leftarrow> objs s a;
       children \<leftarrow> node_children s ob;
       (sts, w) \<leftarrow> child_run (child_set n P s c attr v) children w;
       Some (if implemented_only sts = [] then PWR_RET_NOT_IMPLEMENTED
             else case dropWhile (\<lambda>x. x = PWR_RET_SUCCESS) (implemented_only sts) of
                    [] \<Rightarrow> PWR_RET_SUCCESS
                  | x # rest \<Rightarrow> if list_all (\<lambda>y. 0 \<le> y \<or> y = x) rest then x else PWR_RET_FAILURE, w)
     }"
  unfolding forward_Suc forwarded_status_def merged_def ..

text \<open>
  A warning of one child is not ignored: it becomes the status of the request when no
  child fails, and it hides the error code of a child that fails after it.
\<close>

theorem warning_not_ignored:
  "fold (\<lambda>st r. merge_status r st) [PWR_RET_WARN_TRUNC, PWR_RET_SUCCESS] PWR_RET_SUCCESS = PWR_RET_WARN_TRUNC \<and>
   fold (\<lambda>st r. merge_status r st) [PWR_RET_WARN_TRUNC, PWR_RET_BAD_VALUE] PWR_RET_SUCCESS = PWR_RET_FAILURE \<and>
   fold (\<lambda>st r. merge_status r st) [PWR_RET_BAD_VALUE, PWR_RET_WARN_TRUNC] PWR_RET_SUCCESS = PWR_RET_BAD_VALUE"
  by (simp add: merge_status_eq)

subsection \<open>Metadata\<close>

lemma sprintf_None: "sprintf_s d None = (if CHR ''%'' \<in> set d then None else Some d)"
  by (induction d) (simp_all split: list.split)

text \<open>A format with exactly one conversion, split at it.\<close>

lemma sprintf_parts:
  "CHR ''%'' \<notin> set pre \<Longrightarrow> CHR ''%'' \<notin> set post \<Longrightarrow>
    sprintf_s (pre @ CHR ''%'' # CHR ''s'' # post) (Some nm) = Some (pre @ nm @ post)"
  by (induction pre) (auto simp: sprintf_None)

definition one_conversion :: "string \<Rightarrow> bool" where
  "one_conversion d \<longleftrightarrow>
     (let pre = takeWhile (\<lambda>c. c \<noteq> CHR ''%'') d; rest = dropWhile (\<lambda>c. c \<noteq> CHR ''%'') d in
      take 2 rest = ''%s'' \<and> CHR ''%'' \<notin> set (drop 2 rest))"

lemma sprintf_one_conversion:
  assumes "one_conversion d"
  shows "\<exists>str. sprintf_s d (Some nm) = Some str \<and> length d - 2 + length nm = length str"
proof -
  let ?pre = "takeWhile (\<lambda>c. c \<noteq> CHR ''%'') d" and ?rest = "dropWhile (\<lambda>c. c \<noteq> CHR ''%'') d"
  from assms have rest: "take 2 ?rest = ''%s''" "CHR ''%'' \<notin> set (drop 2 ?rest)" by (simp_all add: one_conversion_def Let_def)
  have d: "d = ?pre @ CHR ''%'' # CHR ''s'' # drop 2 ?rest"
    using rest(1) by (metis append_Cons append_Nil append_take_drop_id takeWhile_dropWhile_id)
  have pre: "CHR ''%'' \<notin> set ?pre" by (auto dest: set_takeWhileD)
  have "sprintf_s d (Some nm) = Some (?pre @ nm @ drop 2 ?rest)"
    by (subst d) (rule sprintf_parts [OF pre rest(2)])
  moreover have "length d = length ?pre + 2 + length (drop 2 ?rest)" by (subst d) simp
  ultimately show ?thesis by simp
qed

lemma attr_desc_formats: "length attr_desc = 19" "\<forall>d \<in> set attr_desc. one_conversion d"
  by code_simp+

lemma desc_and_len:
  assumes "0 \<le> attr" "attr < PWR_NUM_ATTR_NAMES" "0 \<le> obj_type ob" "obj_type ob < PWR_NUM_OBJ_TYPES"
  obtains str where "obj_attr_get_meta P a ob attr PWR_MD_DESC w = Some (PWR_RET_SUCCESS, Some (MetaString str), w)"
    "obj_attr_get_meta P a ob attr PWR_MD_DESC_LEN w = Some (PWR_RET_SUCCESS, Some (meta_len (length str + 1)), w)"
proof -
  let ?d = "attr_desc ! nat attr" and ?nm = "obj_names ! nat (obj_type ob)"
  have k: "nat attr < length attr_desc" using assms by (simp add: attr_desc_formats)
  have j: "nat (obj_type ob) < length obj_names" using assms by (simp add: obj_names_def)
  from attr_desc_formats(2) nth_mem [OF k] have "one_conversion ?d" by blast
  then obtain str where str: "sprintf_s ?d (Some ?nm) = Some str" "length ?d - 2 + length ?nm = length str"
    using sprintf_one_conversion by blast
  have tab: "table_at attr_desc attr = Some ?d" "table_at obj_names (obj_type ob) = Some ?nm"
    using assms k j by (simp_all add: table_at_def)
  show ?thesis by (rule that [of str]) (simp_all add: obj_attr_get_meta_def tab str)
qed

text \<open>
  The length that the library reports for the description of an attribute is the size of
  the description it then stores, including the terminating null.
\<close>

theorem desc_len_exact:
  assumes "0 \<le> attr" "attr < PWR_NUM_ATTR_NAMES" "0 \<le> obj_type ob" "obj_type ob < PWR_NUM_OBJ_TYPES"
  shows "\<exists>str. obj_attr_get_meta P a ob attr PWR_MD_DESC w = Some (PWR_RET_SUCCESS, Some (MetaString str), w) \<and>
    obj_attr_get_meta P a ob attr PWR_MD_DESC_LEN w = Some (PWR_RET_SUCCESS, Some (meta_len (length str + 1)), w)"
  using desc_and_len [OF assms] by metis

theorem desc_len_exact_witness:
  "\<exists>str. obj_attr_get_meta example_plugin 2 example_node_obj PWR_ATTR_POWER PWR_MD_DESC [] =
       Some (PWR_RET_SUCCESS, Some (MetaString str), []) \<and>
     obj_attr_get_meta example_plugin 2 example_node_obj PWR_ATTR_POWER PWR_MD_DESC_LEN [] =
       Some (PWR_RET_SUCCESS, Some (meta_len (length str + 1)), [])"
  by (rule desc_len_exact) (simp_all add: example_node_obj_def)

text \<open>
  The maximal string length that the library announces is exceeded: the description of
  the throttled time of a socket, an attribute that sockets support, is longer.
\<close>

lemma desc_exceeds_max_len:
  "validate_attr PWR_OBJ_SOCKET PWR_ATTR_THROTTLED_TIME = Some PWR_RET_SUCCESS \<and>
   (\<exists>str. obj_attr_get_meta P a \<lparr>obj_type = PWR_OBJ_SOCKET, obj_os_id = i, obj_name = nm, obj_gnode = gn\<rparr>
        PWR_ATTR_THROTTLED_TIME PWR_MD_DESC w = Some (PWR_RET_SUCCESS, Some (MetaString str), w) \<and>
      length str > 2 * CRAY_PWR_MAX_STRING_SIZE)"
proof
  show "validate_attr PWR_OBJ_SOCKET PWR_ATTR_THROTTLED_TIME = Some PWR_RET_SUCCESS" by code_simp
  have "map_option (\<lambda>t. length t > 2 * CRAY_PWR_MAX_STRING_SIZE) (sprintf_s (attr_desc ! 16) (Some (obj_names ! 5))) = Some True"
    by code_simp
  then obtain str where "sprintf_s (attr_desc ! 16) (Some (obj_names ! 5)) = Some str" "length str > 2 * CRAY_PWR_MAX_STRING_SIZE"
    by auto
  then show "\<exists>str. obj_attr_get_meta P a \<lparr>obj_type = PWR_OBJ_SOCKET, obj_os_id = i, obj_name = nm, obj_gnode = gn\<rparr>
        PWR_ATTR_THROTTLED_TIME PWR_MD_DESC w = Some (PWR_RET_SUCCESS, Some (MetaString str), w) \<and>
      length str > 2 * CRAY_PWR_MAX_STRING_SIZE"
    by (simp add: obj_attr_get_meta_def table_at_def attr_desc_formats(1)) (simp add: obj_names_def)
qed

subsection \<open>The hierarchy\<close>

lemma object_key_not_context:
  assumes inv: "group_inv s" and ob: "has_type s a OPAQUE_OBJECT" "key_at s a = ck gh" and gk: "dkey_ok s gh"
  shows "find_group_by_opaque gh s = Some None"
proof -
  obtain res where res: "find_group_by_opaque gh s = Some res" using find_group_total [OF inv gk] by blast
  moreover have "res \<noteq> Some b" for b
  proof
    assume "res = Some b"
    with res have b: "find_group_by_opaque gh s = Some (Some b)" by simp
    from inv b gk obtain c ctx where c: "ctxs s c = Some ctx" "key_at s c = ck gh" by (rule group_contextE)
    have "has_type s c OPAQUE_CONTEXT" using group_invD(5) [OF inv c(1)] by (simp add: ctx_ok_def)
    with ob c(2) key_at_inj [OF group_invD(1) [OF inv] ob(1)] has_type_fun show False by fastforce
  qed
  ultimately show ?thesis by (cases res) auto
qed

text \<open>
  The handle that \<^verbatim>\<open>PWR_ObjGetParent\<close> returns for the parent carries the key of the
  child in the place of the context key. It cannot be used where a context is needed: no
  group accepts it.
\<close>

theorem parent_handle_unusable:
  assumes inv: "group_inv s" and par: "PWR_ObjGetParent object s = Some (PWR_RET_SUCCESS, Some h)"
    and keys: "dkey_ok s object" "dkey_ok s gh"
  shows "OPAQUE_GET_CONTEXT_KEY h = OPAQUE_GET_DATA_KEY object \<and> PWR_GrpAddObj gh h s = Some (PWR_RET_FAILURE, s)"
proof -
  from par obtain a k where a: "lookup_object s (dk object) = Some (Some a)" and h: "h = OPAQUE_GENERATE (dk object) k"
    by (auto simp: PWR_ObjGetParent_def Let_def split: option.splits)
  have t: "has_type s a OPAQUE_OBJECT" "key_at s a = dk object"
    using lookup_has_type [OF group_invD(1) [OF inv] _ keys(1) [unfolded dkey_ok_def]] a by (auto simp: lookup_object_def)
  have ck: "ck h = dk object" by (simp add: h key_simps)
  have "PWR_GrpAddObj gh h s = Some (PWR_RET_FAILURE, s)"
    using object_key_not_context [OF inv t(1) _ keys(2)] t(2) ck
    by (auto simp: PWR_GrpAddObj_def grp_member_op_def Let_def)
  with ck show ?thesis by simp
qed

theorem parent_handle_unusable_witness:
  "PWR_ObjGetParent example_socket example_lib = Some (PWR_RET_SUCCESS, Some (OPAQUE_GENERATE 3 2)) \<and>
   PWR_GrpAddObj example_ctx (OPAQUE_GENERATE 3 2) example_lib = Some (PWR_RET_FAILURE, example_lib)"
proof -
  have "PWR_ObjGetParent example_socket example_lib = Some (PWR_RET_SUCCESS, Some (OPAQUE_GENERATE 3 2))" by code_simp
  from parent_handle_unusable [OF example_inv this, of example_ctx] this show ?thesis by simp
qed

lemma children_foreach_ok:
  assumes "group_inv s" "grps s ga = Some g"
    and "\<forall>d \<in> set ds. \<exists>node. gnodes s d = Some node \<and> has_type s (gn_data node) OPAQUE_OBJECT"
  shows "\<exists>xs. children_foreach ds ga s = Some (s\<lparr>grps := (grps s)(ga \<mapsto> g\<lparr>grp_list := xs\<rparr>)\<rparr>) \<and>
    group_inv (s\<lparr>grps := (grps s)(ga \<mapsto> g\<lparr>grp_list := xs\<rparr>)\<rparr>) \<and>
    set xs = set (grp_list g) \<union> (\<lambda>d. gn_data (the (gnodes s d))) ` set ds"
  using assms
proof (induction ds arbitrary: s g)
  case Nil
  have same: "s\<lparr>grps := (grps s)(ga \<mapsto> g\<lparr>grp_list := grp_list g\<rparr>)\<rparr> = s" using Nil by (simp add: map_upd_triv)
  show ?case by (rule exI [of _ "grp_list g"], unfold same) (use Nil in simp)
next
  case (Cons d ds)
  then obtain node where node: "gnodes s d = Some node" "has_type s (gn_data node) OPAQUE_OBJECT" by auto
  obtain ys where ys: "group_insert_obj ga (gn_data node) s = Some (True, s\<lparr>grps := (grps s)(ga \<mapsto> g\<lparr>grp_list := ys\<rparr>)\<rparr>)"
    "set ys = insert (gn_data node) (set (grp_list g))" "group_inv (s\<lparr>grps := (grps s)(ga \<mapsto> g\<lparr>grp_list := ys\<rparr>)\<rparr>)"
    using group_insert_obj_ok [OF Cons.prems(1,2) node(2)] by metis
  let ?s = "s\<lparr>grps := (grps s)(ga \<mapsto> g\<lparr>grp_list := ys\<rparr>)\<rparr>" and ?g = "g\<lparr>grp_list := ys\<rparr>"
  have g: "grps ?s ga = Some ?g" by simp
  have t: "\<forall>d \<in> set ds. \<exists>node. gnodes ?s d = Some node \<and> has_type ?s (gn_data node) OPAQUE_OBJECT"
    using Cons.prems(3) by (simp add: has_type_def)
  have two: "?s\<lparr>grps := (grps ?s)(ga \<mapsto> ?g\<lparr>grp_list := xs\<rparr>)\<rparr> = s\<lparr>grps := (grps s)(ga \<mapsto> g\<lparr>grp_list := xs\<rparr>)\<rparr>" for xs
    by simp
  from Cons.IH [OF ys(3) g t, unfolded two] obtain xs where
    xs: "children_foreach ds ga ?s = Some (s\<lparr>grps := (grps s)(ga \<mapsto> g\<lparr>grp_list := xs\<rparr>)\<rparr>)"
    "group_inv (s\<lparr>grps := (grps s)(ga \<mapsto> g\<lparr>grp_list := xs\<rparr>)\<rparr>)"
    "set xs = set (grp_list ?g) \<union> (\<lambda>d. gn_data (the (gnodes ?s d))) ` set ds" by blast
  from xs(1) node(1) ys(1) have "children_foreach (d # ds) ga s = Some (s\<lparr>grps := (grps s)(ga \<mapsto> g\<lparr>grp_list := xs\<rparr>)\<rparr>)"
    by (simp add: group_insert_callback_def)
  moreover have "set xs = set (grp_list g) \<union> (\<lambda>d. gn_data (the (gnodes s d))) ` set (d # ds)"
    using xs(3) ys(2) node(1) by simp
  ultimately show ?case using xs(2) by blast
qed

lemma insert_gnodes: "opaque_map_insert t a s = Some (k, s') \<Longrightarrow> gnodes s' = gnodes s"
  by (auto simp: opaque_map_insert_def split: option.splits prod.splits)

lemma context_new_group_gnodes:
  assumes "context_new_group c s = Some (Some a, s')" shows "gnodes s' = gnodes s"
  using assms
  by (auto simp: context_new_group_def new_group_def alloc_group_def alloc_ref_def g_list_prepend_def Let_def
      dest!: insert_gnodes split: if_splits option.splits prod.splits)

text \<open>
  The children of an object in the hierarchy are returned as a new group in the object's
  context whose members are exactly the objects of the child nodes; nothing else changes.
\<close>

theorem children_group:
  assumes inv: "group_inv s" and draw: "has_draw s" and keys: "ckey_ok s object"
    and ctx: "lookup_context s (OPAQUE_GET_CONTEXT_KEY object) = Some (Some c)"
    and obj: "lookup_object s (OPAQUE_GET_DATA_KEY object) = Some (Some a)" "objs s a = Some ob"
    and children: "node_children s ob = Some ds" "ds \<noteq> []"
      "\<forall>d \<in> set ds. \<exists>node. gnodes s d = Some node \<and> has_type s (gn_data node) OPAQUE_OBJECT"
  shows "\<exists>h s'. PWR_ObjGetChildren object s = Some (PWR_RET_SUCCESS, Some h, s') \<and> group_inv s' \<and>
    adds_group object ((\<lambda>d. gn_data (the (gnodes s d))) ` set ds) (abs_lib s) h (abs_lib s')"
proof -
  let ?ga = "next_addr s" and ?A = "(\<lambda>d. gn_data (the (gnodes s d))) ` set ds"
  from inv ctx keys [unfolded ckey_ok_def] obtain cx where
    cx: "ctxs s c = Some cx" "key_at s c = ck object" by (rule lookup_contextD)
  obtain k s1 where new: "context_new_group c s = Some (Some ?ga, s1)" and post: "after_new_group c cx k s s1"
    using context_new_group_result [OF inv cx(1) draw] by blast
  note inv1 = group_inv_new_group [OF inv cx(1) post] and view = abs_new_group [OF inv cx(1) post]
  from post obtain g where g: "grps s1 ?ga = Some g" "grp_list g = []" and r: "refs s1 ?ga = Some \<lparr>ref_type = OPAQUE_GROUP, ref_key = k\<rparr>"
    and refs1: "refs s1 = (refs s)(?ga \<mapsto> \<lparr>ref_type = OPAQUE_GROUP, ref_key = k\<rparr>)"
    by (simp add: after_new_group_def Let_def)
  have nodes: "gnodes s1 = gnodes s" using context_new_group_gnodes [OF new] .
  have "\<forall>d \<in> set ds. \<exists>node. gnodes s1 d = Some node \<and> has_type s1 (gn_data node) OPAQUE_OBJECT"
    using children(3) new_group_lookups(2) [OF inv cx(1) post] by (fastforce simp: nodes refs1 has_type_def)
  from children_foreach_ok [OF inv1 g(1) this] obtain xs where
    each: "children_foreach ds ?ga s1 = Some (s1\<lparr>grps := (grps s1)(?ga \<mapsto> g\<lparr>grp_list := xs\<rparr>)\<rparr>)"
    "group_inv (s1\<lparr>grps := (grps s1)(?ga \<mapsto> g\<lparr>grp_list := xs\<rparr>)\<rparr>)" "set xs = ?A" using g(2) nodes by auto
  let ?s' = "s1\<lparr>grps := (grps s1)(?ga \<mapsto> g\<lparr>grp_list := xs\<rparr>)\<rparr>" and ?h = "OPAQUE_GENERATE (key_at s c) k"
  have "PWR_ObjGetChildren object s = Some (PWR_RET_SUCCESS, Some ?h, ?s')"
    using ctx obj children(1,2) new each(1) r cx(2) by (simp add: PWR_ObjGetChildren_def Let_def)
  moreover have "abs_lib ?s' = (abs_lib s1)\<lparr>sp_groups := (group_view s1)(?h \<mapsto> set xs)\<rparr>"
    by (rule abs_set_list [OF inv1 view(3) _ g(1)]) (simp add: dkey_ok_def view(5))
  then have "adds_group object ?A (abs_lib s) ?h (abs_lib ?s')"
    using view each(3) cx(2) by (simp add: adds_group_def abs_lib_def)
  ultimately show ?thesis using each(2) by blast
qed

theorem children_group_witness:
  "\<exists>h s'. PWR_ObjGetChildren example_node example_lib = Some (PWR_RET_SUCCESS, Some h, s') \<and> group_inv s' \<and>
     adds_group example_node {3} (abs_lib example_lib) h (abs_lib s')"
proof -
  have look: "lookup_context example_lib (ck example_node) = Some (Some 1)"
    "lookup_object example_lib (dk example_node) = Some (Some 2)" by code_simp+
  have "objs example_lib 2 = Some example_node_obj" "node_children example_lib example_node_obj = Some [7]"
    "\<forall>d \<in> set [7]. \<exists>node. gnodes example_lib d = Some node \<and> has_type example_lib (gn_data node) OPAQUE_OBJECT"
    "gn_data (the (gnodes example_lib 7)) = 3"
    by (simp_all add: example_lib_def example_node_obj_def node_children_def has_type_def)
  with children_group [OF example_inv example_handles(2) example_keys(3) look, of example_node_obj "[7]"] show ?thesis by simp
qed

end
