(* ===== verification/Attr_Properties.thy ===== *)
theory Attr_Properties
  imports Attr_API Object_Properties
begin

text \<open>
  What the functions of \<^verbatim>\<open>lib/attributes.c\<close> that access several attributes do, in
  terms of the function that accesses one: they perform the accesses one after the other,
  whatever the outcome of each, return what each of them stored, and record the failures.
\<close>

subsection \<open>A sequence of accesses\<close>

type_synonym access = "int \<times> 64 word option \<times> PWR_Time option"

fun get_run :: "'w plugin \<Rightarrow> bool \<Rightarrow> (key \<times> int) list \<Rightarrow> lib \<Rightarrow> 'w \<Rightarrow> (access list \<times> 'w) option" where
  "get_run P ts [] s w = Some ([], w)"
| "get_run P ts ((object, attr) # rest) s w =
     do {
       (e, v, t, w) \<leftarrow> PWR_ObjAttrGetValue P object attr ts s w;
       (rs, w) \<leftarrow> get_run P ts rest s w;
       Some ((e, v, t) # rs, w)
     }"

fun access_errors :: "int \<Rightarrow> (key \<times> int) list \<Rightarrow> access list \<Rightarrow> PWR_AttrAccessError list" where
  "access_errors i ((object, attr) # ps) ((e, _) # rs) =
     (if e \<noteq> PWR_RET_SUCCESS then [\<lparr>err_obj = object, err_name = attr, err_index = i, err_error = e\<rparr>] else []) @
     access_errors (i + 1) ps rs"
| "access_errors i _ _ = []"

definition all_ok :: "access list \<Rightarrow> bool" where
  "all_ok = list_all (\<lambda>r. fst r = PWR_RET_SUCCESS)"

definition overall :: "int \<Rightarrow> access list \<Rightarrow> int" where
  "overall retval rs = (if all_ok rs then retval else PWR_RET_FAILURE)"

definition record_errors :: "addr option \<Rightarrow> PWR_AttrAccessError list \<Rightarrow> lib \<Rightarrow> lib" where
  "record_errors stat es s =
     (case stat of
        None \<Rightarrow> s
      | Some a \<Rightarrow> s\<lparr>statuses := (statuses s)(a := map_option (\<lambda>st. st\<lparr>sts_list := sts_list st @ es\<rparr>) (statuses s a))\<rparr>)"

definition stat_live :: "addr option \<Rightarrow> lib \<Rightarrow> bool" where
  "stat_live stat s \<longleftrightarrow> (case stat of None \<Rightarrow> True | Some a \<Rightarrow> statuses s a \<noteq> None)"

lemma record_nil [simp]: "record_errors stat [] s = s"
  by (cases stat) (simp_all add: record_errors_def option.map_ident)

lemma record_append [simp]: "record_errors stat es' (record_errors stat es s) = record_errors stat (es @ es') s"
  by (cases stat) (simp_all add: record_errors_def option.map_comp comp_def)

lemma stat_live_record [simp]: "stat_live stat (record_errors stat es s) = stat_live stat s"
  by (cases stat) (simp_all add: record_errors_def stat_live_def)

lemma record_other:
  "refs (record_errors stat es s) = refs s" "opaque_map (record_errors stat es s) = opaque_map s"
  "objs (record_errors stat es s) = objs s" "grps (record_errors stat es s) = grps s"
  "gnodes (record_errors stat es s) = gnodes s" "next_addr (record_errors stat es s) = next_addr s"
  by (cases stat; simp add: record_errors_def)+

lemma push_record:
  "stat_live stat s \<Longrightarrow> push_status_error stat object attr i e s =
     Some (record_errors stat [\<lparr>err_obj = object, err_name = attr, err_index = i, err_error = e\<rparr>] s)"
  by (auto simp: push_status_error_def record_errors_def stat_live_def split: option.splits)

lemma lookup_type_record [simp]:
  "opaque_map_lookup_type (record_errors stat es s) k t = opaque_map_lookup_type s k t"
  unfolding opaque_map_lookup_type_def opaque_map_lookup_def record_other ..

lemma get_value_record [simp]:
  "PWR_ObjAttrGetValue P object attr ts (record_errors stat es s) w = PWR_ObjAttrGetValue P object attr ts s w"
  unfolding PWR_ObjAttrGetValue_def lookup_object_def lookup_type_record record_other ..

lemma find_group_record [simp]: "find_group_by_opaque gh (record_errors stat es s) = find_group_by_opaque gh s"
  unfolding find_group_by_opaque_def lookup_group_def lookup_type_record record_other ..

lemma get_obj_record [simp]: "PWR_GrpGetObjByIndx gh i (record_errors stat es s) = PWR_GrpGetObjByIndx gh i s"
  unfolding PWR_GrpGetObjByIndx_def find_group_record record_other ..

lemma overall_simps [simp]:
  "overall r [] = r" "overall r ((e, v, t) # rs) = overall (if e = PWR_RET_SUCCESS then r else PWR_RET_FAILURE) rs"
  by (simp_all add: overall_def all_ok_def)

lemma all_ok_errors: "length ps = length rs \<Longrightarrow> access_errors i ps rs = [] \<longleftrightarrow> all_ok rs"
  by (induction i ps rs rule: access_errors.induct) (auto simp: all_ok_def)

lemma get_run_length: "get_run P ts ps s w = Some (rs, w') \<Longrightarrow> length rs = length ps"
  by (induction P ts ps s w arbitrary: rs w' rule: get_run.induct) (auto split: prod.splits)

lemma get_run_append:
  "get_run P ts (ps @ qs) s w =
     do { (rs, w) \<leftarrow> get_run P ts ps s w; (rs', w) \<leftarrow> get_run P ts qs s w; Some (rs @ rs', w) }"
proof (induction P ts ps s w rule: get_run.induct)
  case (1 P ts s w)
  then show ?case by (cases "get_run P ts qs s w") auto
next
  case (2 P ts object attr rest s w)
  show ?case
  proof (cases "PWR_ObjAttrGetValue P object attr ts s w")
    case (Some res)
    obtain e v t w1 where res: "res = (e, v, t, w1)" by (cases res)
    show ?thesis
    proof (cases "get_run P ts rest s w1")
      case None
      with 2 Some res show ?thesis by simp
    next
      case (Some res1)
      obtain rs w2 where "res1 = (rs, w2)" by (cases res1)
      with 2 Some \<open>PWR_ObjAttrGetValue P object attr ts s w = Some res\<close> res show ?thesis
        by (cases "get_run P ts qs s w2") auto
    qed
  qed simp
qed

lemma get_run_record [simp]: "get_run P ts ps (record_errors stat es s) w = get_run P ts ps s w"
  by (induction ps arbitrary: w) auto

lemma access_errors_append:
  "length ps = length rs \<Longrightarrow>
   access_errors i (ps @ qs) (rs @ rs') = access_errors i ps rs @ access_errors (i + int (length ps)) qs rs'"
  by (induction i ps rs rule: access_errors.induct) (auto simp: algebra_simps)

lemma overall_append: "overall r (rs @ rs') = overall (overall r rs) rs'"
  by (simp add: overall_def all_ok_def)

subsection \<open>The loops\<close>

definition stored_of :: "access list \<Rightarrow> stored list" where
  "stored_of = map snd"

lemma obj_get_values_loop_run:
  assumes "stat_live stat s"
  shows "obj_get_values_loop P object ts stat attrs i retval s w =
    map_option (\<lambda>(rs, w). (overall retval rs, stored_of rs,
        record_errors stat (access_errors i (map (Pair object) attrs) rs) s, w))
      (get_run P ts (map (Pair object) attrs) s w)"
  using assms
proof (induction attrs arbitrary: i retval s w)
  case (Cons attr attrs)
  show ?case
  proof (cases "PWR_ObjAttrGetValue P object attr ts s w")
    case (Some res)
    obtain e v t w1 where res: "res = (e, v, t, w1)" by (cases res)
    show ?thesis
      using Some res Cons.prems Cons.IH
      by (cases "get_run P ts (map (Pair object) attrs) s w1")
        (auto simp: push_record stored_of_def)
  qed simp
qed (simp add: stored_of_def)

lemma grp_inner_obj_loop:
  "grp_get_values_inner P PWR_RET_SUCCESS (Some h) ts stat attrs offset retval s w =
   obj_get_values_loop P h ts stat attrs offset retval s w"
  by (induction attrs arbitrary: offset retval s w) simp_all

lemma grp_get_values_loop_run:
  assumes "stat_live stat s" "list_all2 (\<lambda>i h. PWR_GrpGetObjByIndx gh i s = Some (PWR_RET_SUCCESS, Some h)) is hs"
  shows "grp_get_values_loop P gh attrs ts stat is offset retval (record_errors stat es s) w =
    map_option (\<lambda>(rs, w). (overall retval rs, stored_of rs,
        record_errors stat (es @ access_errors offset (List.product hs attrs) rs) s, w))
      (get_run P ts (List.product hs attrs) s w)"
  using assms(2)
proof (induction "is" hs arbitrary: offset retval es w rule: list_all2_induct)
  case (Cons i "is" h hs)
  let ?ps = "map (Pair h) attrs"
  have i: "PWR_GrpGetObjByIndx gh i (record_errors stat es s) = Some (PWR_RET_SUCCESS, Some h)" using Cons(1) by simp
  note inner = grp_inner_obj_loop obj_get_values_loop_run [of stat "record_errors stat es s"]
  show ?case
  proof (cases "get_run P ts ?ps s w")
    case None
    with i assms(1) show ?thesis by (simp add: inner get_run_append)
  next
    case (Some res)
    obtain rs w1 where res: "res = (rs, w1)" by (cases res)
    have len: "length ?ps = length rs" using get_run_length Some res by fastforce
    show ?thesis
      using i assms(1) Some res len
      by (cases "get_run P ts (List.product hs attrs) s w1")
        (auto simp: inner Cons.IH get_run_append access_errors_append overall_append stored_of_def split: prod.splits)
  qed
qed (simp add: stored_of_def)

lemma grp_get_value_loop_run:
  assumes "stat_live stat s"
    and "\<forall>j < length hs. PWR_GrpGetObjByIndx gh (int (k + j)) s = Some (PWR_RET_SUCCESS, Some (hs ! j))"
  shows "grp_get_value_loop P gh attr ts stat (map int [k..<k + length hs]) retval s w =
    map_option (\<lambda>(rs, w). (overall retval rs, stored_of rs,
        record_errors stat (access_errors (int k) (map (\<lambda>h. (h, attr)) hs) rs) s, w))
      (get_run P ts (map (\<lambda>h. (h, attr)) hs) s w)"
  using assms
proof (induction hs arbitrary: k retval s w)
  case (Cons h hs)
  have up: "map int [k..<k + length (h # hs)] = int k # map int [Suc k..<Suc k + length hs]"
    by (simp add: upt_conv_Cons del: upt_Suc)
  have h: "PWR_GrpGetObjByIndx gh (int k) s = Some (PWR_RET_SUCCESS, Some h)" using Cons.prems(2) by force
  have rest: "\<forall>j < length hs. PWR_GrpGetObjByIndx gh (int (Suc k + j)) s = Some (PWR_RET_SUCCESS, Some (hs ! j))"
    using Cons.prems(2) by (metis add_Suc_shift length_Cons nat_add_left_cancel_less not_less_eq nth_Cons_Suc plus_1_eq_Suc add.commute)
  have ih: "grp_get_value_loop P gh attr ts stat (map int [Suc k..<Suc k + length hs]) r (record_errors stat es s) w' =
    map_option (\<lambda>(rs, w). (overall r rs, stored_of rs,
        record_errors stat (access_errors (int (Suc k)) (map (\<lambda>h. (h, attr)) hs) rs) (record_errors stat es s), w))
      (get_run P ts (map (\<lambda>h. (h, attr)) hs) (record_errors stat es s) w')" for r es w'
    by (rule Cons.IH) (use Cons.prems(1) rest in simp_all)
  from ih [where es = "[]"] have ih0: "grp_get_value_loop P gh attr ts stat (map int [Suc k..<Suc k + length hs]) r s w' =
    map_option (\<lambda>(rs, w). (overall r rs, stored_of rs,
        record_errors stat (access_errors (int (Suc k)) (map (\<lambda>h. (h, attr)) hs) rs) s, w))
      (get_run P ts (map (\<lambda>h. (h, attr)) hs) s w')" for r w' by simp
  show ?case
  proof (cases "PWR_ObjAttrGetValue P h attr ts s w")
    case (Some res)
    obtain e v t w1 where res: "res = (e, v, t, w1)" by (cases res)
    show ?thesis unfolding up
      using Some res h Cons.prems(1) ih ih0
      by (cases "get_run P ts (map (\<lambda>h. (h, attr)) hs) s w1")
        (auto simp: push_record stored_of_def add.commute simp del: upt_Suc)
  next
    case None
    with h show ?thesis unfolding up by simp
  qed
qed (simp add: stored_of_def)

subsection \<open>The members of a group\<close>

definition member_handles :: "lib \<Rightarrow> key \<Rightarrow> group_t \<Rightarrow> key list" where
  "member_handles s gh g = map (\<lambda>x. OPAQUE_GENERATE (ck gh) (key_at s x)) (grp_list g)"

lemma member_at:
  assumes inv: "group_inv s" and g: "find_group_by_opaque gh s = Some (Some a)" "grps s a = Some g"
    and i: "0 \<le> i" "nat i < length (grp_list g)"
  shows "PWR_GrpGetObjByIndx gh i s = Some (PWR_RET_SUCCESS, Some (member_handles s gh g ! nat i))"
proof -
  have "has_type s (grp_list g ! nat i) OPAQUE_OBJECT"
    using group_invD(6) [OF inv g(2)] i(2) by (auto simp: grp_ok_def)
  then obtain r where "refs s (grp_list g ! nat i) = Some r" "ref_key r = key_at s (grp_list g ! nat i)"
    by (auto simp: has_type_def key_at_def)
  with g i show ?thesis by (simp add: PWR_GrpGetObjByIndx_def Let_def member_handles_def)
qed

lemma members_all:
  assumes "group_inv s" "find_group_by_opaque gh s = Some (Some a)" "grps s a = Some g"
  shows "list_all2 (\<lambda>i h. PWR_GrpGetObjByIndx gh i s = Some (PWR_RET_SUCCESS, Some h))
    (map int [0..<length (grp_list g)]) (member_handles s gh g)"
  using member_at [OF assms] by (auto simp: list_all2_conv_all_nth member_handles_def)

lemma upto_map_int: "[0..int n - 1] = map int [0..<n]"
proof (induction n)
  case (Suc n)
  have "[0..int (Suc n) - 1] = [0..int n - 1] @ [int n]" using upto_rec2 [of 0 "int n"] by simp
  with Suc show ?case by simp
qed simp

text \<open>The status object of a call: none, or one of the same context.\<close>

definition usable_status :: "key \<Rightarrow> key \<Rightarrow> addr option \<Rightarrow> lib \<Rightarrow> bool" where
  "usable_status status target stat s \<longleftrightarrow>
     find_status_by_opaque status s = Some stat \<and> stat_live stat s \<and> (stat = None \<or> check_status_context status target)"

definition cleared :: "addr option \<Rightarrow> lib \<Rightarrow> lib" where
  "cleared stat s =
     (case stat of
        None \<Rightarrow> s
      | Some a \<Rightarrow> s\<lparr>statuses := (statuses s)(a := map_option (\<lambda>st. st\<lparr>sts_list := []\<rparr>) (statuses s a))\<rparr>)"

lemma with_status_usable:
  assumes "usable_status status target stat s"
  shows "with_status status target s body failed = body stat (cleared stat s)" "stat_live stat (cleared stat s)"
  using assms
  by (auto simp: usable_status_def with_status_def clear_status_def cleared_def stat_live_def split: option.splits)

lemma cleared_other:
  "refs (cleared stat s) = refs s" "opaque_map (cleared stat s) = opaque_map s" "objs (cleared stat s) = objs s"
  "grps (cleared stat s) = grps s" "gnodes (cleared stat s) = gnodes s" "next_addr (cleared stat s) = next_addr s"
  by (cases stat; simp add: cleared_def)+

lemma lookup_type_cleared [simp]: "opaque_map_lookup_type (cleared stat s) k t = opaque_map_lookup_type s k t"
  unfolding opaque_map_lookup_type_def opaque_map_lookup_def cleared_other ..

lemma get_value_cleared [simp]:
  "PWR_ObjAttrGetValue P object attr ts (cleared stat s) w = PWR_ObjAttrGetValue P object attr ts s w"
  unfolding PWR_ObjAttrGetValue_def lookup_object_def lookup_type_cleared cleared_other ..

lemma get_run_cleared [simp]: "get_run P ts ps (cleared stat s) w = get_run P ts ps s w"
  by (induction ps arbitrary: w) auto

lemma find_group_cleared [simp]: "find_group_by_opaque gh (cleared stat s) = find_group_by_opaque gh s"
  unfolding find_group_by_opaque_def lookup_group_def lookup_type_cleared cleared_other ..

lemma get_obj_cleared [simp]: "PWR_GrpGetObjByIndx gh i (cleared stat s) = PWR_GrpGetObjByIndx gh i s"
  unfolding PWR_GrpGetObjByIndx_def find_group_cleared cleared_other ..

text \<open>The answer that a sequence of accesses leads to.\<close>

definition access_answer :: "'w plugin \<Rightarrow> bool \<Rightarrow> addr option \<Rightarrow> (key \<times> int) list \<Rightarrow> lib \<Rightarrow> 'w
    \<Rightarrow> (int \<times> stored list \<times> lib \<times> 'w) option" where
  "access_answer P ts stat ps s w =
     map_option (\<lambda>(rs, w). (if all_ok rs then PWR_RET_SUCCESS else PWR_RET_FAILURE, map snd rs,
         record_errors stat (access_errors 0 ps rs) (cleared stat s), w)) (get_run P ts ps s w)"

text \<open>
  C18. Reading several attributes of one object reads every one of them in order, whatever
  happens to the others, stores each value at the index of its attribute, succeeds exactly
  if every read succeeds, and leaves in the status object, cleared before, one error per
  failed read with the object, the attribute, the index and the error code.
\<close>

theorem obj_get_values_spec:
  assumes "usable_status status object stat s"
  shows "PWR_ObjAttrGetValues P object (int (length attrs)) (Some attrs) True ts status s w =
    access_answer P ts stat (map (Pair object) attrs) s w"
  using with_status_usable(2) [OF assms]
  by (simp add: PWR_ObjAttrGetValues_def with_status_usable(1) [OF assms] array_prefix_def obj_get_values_loop_run
      access_answer_def overall_def [abs_def] stored_of_def)

lemma example_no_status: "usable_status 0 target None example_lib"
proof -
  have "find_status_by_opaque 0 example_lib = Some None" by code_simp
  then show ?thesis by (simp add: usable_status_def stat_live_def)
qed

theorem obj_get_values_spec_witness:
  "PWR_ObjAttrGetValues example_plugin example_node 2 (Some [PWR_ATTR_POWER, PWR_ATTR_TEMP]) True True 0 example_lib [] =
     access_answer example_plugin True None [(example_node, PWR_ATTR_POWER), (example_node, PWR_ATTR_TEMP)] example_lib []"
  using obj_get_values_spec [OF example_no_status, of example_plugin example_node "[PWR_ATTR_POWER, PWR_ATTR_TEMP]" True "[]"]
  by simp

text \<open>The example state with a group of its two objects.\<close>

definition example_group :: "lib option" where
  "example_group =
     do {
       (_, _, s) \<leftarrow> exec_call (GrpCreate example_ctx) example_lib;
       (_, _, s) \<leftarrow> exec_call (GrpAddObj (OPAQUE_GENERATE 1 4) example_socket) s;
       (_, _, s) \<leftarrow> exec_call (GrpAddObj (OPAQUE_GENERATE 1 4) example_node) s;
       Some s
     }"

lemma example_group_inv:
  assumes "example_group = Some s" shows "group_inv s"
proof -
  from assms obtain r1 h1 s1 r2 h2 s2 r3 h3 where
    "exec_call (GrpCreate example_ctx) example_lib = Some (r1, h1, s1)"
    "exec_call (GrpAddObj (OPAQUE_GENERATE 1 4) example_socket) s1 = Some (r2, h2, s2)"
    "exec_call (GrpAddObj (OPAQUE_GENERATE 1 4) example_node) s2 = Some (r3, h3, s)"
    unfolding example_group_def by (auto simp del: exec_call.simps)
  moreover have "ck (OPAQUE_GENERATE 1 4) \<noteq> 0" "dk (OPAQUE_GENERATE 1 4) \<noteq> 0" "ck example_socket \<noteq> 0"
    "dk example_socket \<noteq> 0" "ck example_node \<noteq> 0" "dk example_node \<noteq> 0" by code_simp+
  then have "call_ok s' (GrpAddObj (OPAQUE_GENERATE 1 4) example_socket)"
    "call_ok s' (GrpAddObj (OPAQUE_GENERATE 1 4) example_node)" for s'
    by (simp_all add: call_ok_def dkey_ok_def ckey_ok_def)
  ultimately show ?thesis using example_inv example_keys(4) by (metis call_sound)
qed

lemma example_group_facts:
  "\<exists>s g. example_group = Some s \<and> group_inv s \<and> find_group_by_opaque (OPAQUE_GENERATE 1 4) s = Some (Some 8) \<and>
     grps s 8 = Some g \<and> member_handles s (OPAQUE_GENERATE 1 4) g = [example_node, example_socket] \<and>
     usable_status 0 (OPAQUE_GENERATE 1 4) None s"
proof -
  have "map_option (\<lambda>s. (find_group_by_opaque (OPAQUE_GENERATE 1 4) s, find_status_by_opaque 0 s,
      map_option (member_handles s (OPAQUE_GENERATE 1 4)) (grps s 8))) example_group =
    Some (Some (Some 8), Some None, Some [example_node, example_socket])" by code_simp
  then show ?thesis using example_group_inv by (force simp: usable_status_def stat_live_def)
qed

text \<open>
  C17. Reading several attributes of all objects of a group reads every attribute of every
  member, members in index order and attributes in the given order within each; the value of
  attribute \<open>j\<close> of member \<open>i\<close> is stored at index \<open>i * count + j\<close>, and the errors in
  the status object carry these indices. The comment above the function in
  \<^verbatim>\<open>lib/attributes.c\<close> gives the address \<open>count * i + 8 * j\<close> in bytes from the base, which
  would let the values of different members overlap; the code counts one value of 8 bytes per
  index. The invariant says that no group has a statistic attached.
\<close>

theorem grp_get_values_spec:
  assumes inv: "group_inv s" and g: "find_group_by_opaque gh s = Some (Some a)" "grps s a = Some g"
    and stat: "usable_status status gh stat s"
  shows "PWR_GrpAttrGetValues P gh (int (length attrs)) (Some attrs) True ts status s w =
    access_answer P ts stat (List.product (member_handles s gh g) attrs) s w"
proof -
  let ?s = "cleared stat s" and ?n = "length (grp_list g)"
  note live = with_status_usable(2) [OF stat]
  have n: "PWR_GrpGetNumObjs gh ?s = Some (int ?n)"
    using g by (simp add: PWR_GrpGetNumObjs_def group_get_length_def cleared_other)
  have loop: "grp_get_values_loop P gh xs ts stat (map int [0..<?n]) 0 PWR_RET_SUCCESS ?s w =
    access_answer P ts stat (List.product (member_handles s gh g) xs) s w" for xs
    using grp_get_values_loop_run [of stat ?s gh "map int [0..<?n]" "member_handles s gh g" P xs ts 0 PWR_RET_SUCCESS "[]"]
      live members_all [OF inv g] by (simp add: access_answer_def overall_def [abs_def] stored_of_def)
  show ?thesis
  proof (cases "?n = 0")
    case True
    then have "member_handles s gh g = []" by (simp add: member_handles_def)
    with True n loop [of "[]"] show ?thesis
      by (simp add: PWR_GrpAttrGetValues_def with_status_usable(1) [OF stat] access_answer_def)
  next
    case False
    with n loop [of attrs] show ?thesis
      by (simp add: PWR_GrpAttrGetValues_def with_status_usable(1) [OF stat] array_prefix_def upto_map_int)
  qed
qed

theorem grp_get_values_spec_witness:
  "\<exists>s. example_group = Some s \<and>
     PWR_GrpAttrGetValues example_plugin (OPAQUE_GENERATE 1 4) 2 (Some [PWR_ATTR_OS_ID, PWR_ATTR_POWER]) True True 0 s [] =
     access_answer example_plugin True None [(example_node, PWR_ATTR_OS_ID), (example_node, PWR_ATTR_POWER),
       (example_socket, PWR_ATTR_OS_ID), (example_socket, PWR_ATTR_POWER)] s []"
proof -
  from example_group_facts obtain s g where s: "example_group = Some s" "group_inv s"
    "find_group_by_opaque (OPAQUE_GENERATE 1 4) s = Some (Some 8)" "grps s 8 = Some g"
    "member_handles s (OPAQUE_GENERATE 1 4) g = [example_node, example_socket]"
    "usable_status 0 (OPAQUE_GENERATE 1 4) None s" by blast
  from grp_get_values_spec [OF s(2,3,4,6), of example_plugin "[PWR_ATTR_OS_ID, PWR_ATTR_POWER]" True "[]"] s(1,5)
  show ?thesis by auto
qed

text \<open>
  Reading one attribute of all objects of a group reads it once from every member, in
  index order, and stores the value of member \<open>i\<close> at index \<open>i\<close>.
\<close>

theorem grp_get_value_spec:
  assumes inv: "group_inv s" and g: "find_group_by_opaque gh s = Some (Some a)" "grps s a = Some g"
    and stat: "usable_status status gh stat s"
  shows "PWR_GrpAttrGetValue P gh attr True ts status s w =
    access_answer P ts stat (map (\<lambda>h. (h, attr)) (member_handles s gh g)) s w"
proof -
  let ?s = "cleared stat s" and ?n = "length (grp_list g)" and ?hs = "member_handles s gh g"
  have n: "PWR_GrpGetNumObjs gh ?s = Some (int ?n)" "length ?hs = ?n"
    using g by (simp_all add: PWR_GrpGetNumObjs_def group_get_length_def cleared_other member_handles_def)
  have "\<forall>j < length ?hs. PWR_GrpGetObjByIndx gh (int (0 + j)) ?s = Some (PWR_RET_SUCCESS, Some (?hs ! j))"
    using member_at [OF inv g] n(2) by simp
  from grp_get_value_loop_run [OF with_status_usable(2) [OF stat] this] n show ?thesis
    by (simp add: PWR_GrpAttrGetValue_def with_status_usable(1) [OF stat] upto_map_int access_answer_def
        overall_def [abs_def] stored_of_def)
qed

theorem grp_get_value_spec_witness:
  "\<exists>s. example_group = Some s \<and> PWR_GrpAttrGetValue example_plugin (OPAQUE_GENERATE 1 4) PWR_ATTR_POWER True False 0 s [] =
     access_answer example_plugin False None [(example_node, PWR_ATTR_POWER), (example_socket, PWR_ATTR_POWER)] s []"
proof -
  from example_group_facts obtain s g where s: "example_group = Some s" "group_inv s"
    "find_group_by_opaque (OPAQUE_GENERATE 1 4) s = Some (Some 8)" "grps s 8 = Some g"
    "member_handles s (OPAQUE_GENERATE 1 4) g = [example_node, example_socket]"
    "usable_status 0 (OPAQUE_GENERATE 1 4) None s" by blast
  from grp_get_value_spec [OF s(2,3,4,6), of example_plugin PWR_ATTR_POWER False "[]"] s(1,5) show ?thesis by auto
qed

subsection \<open>Setting several attributes\<close>

lemma forward_cong:
  assumes "objs s' = objs s" "gnodes s' = gnodes s"
  shows "forward_attr_set_value n P s' c attr v a w = forward_attr_set_value n P s c attr v a w"
proof (induction n arbitrary: a w)
  case (Suc n)
  have obj: "node_obj s' = node_obj s" "node_children s' = node_children s"
    unfolding node_obj_def [abs_def] node_children_def [abs_def] assms by (rule refl)+
  have "forward_attr_set_value n P s' c attr v = forward_attr_set_value n P s c attr v" using Suc by blast
  then have "child_set n P s' c attr v = child_set n P s c attr v" using obj by (simp add: child_set_def [abs_def])
  with assms(1) obj show ?case by (simp add: forward_Suc)
qed simp

lemma set_value_cong:
  assumes "refs s' = refs s" "opaque_map s' = opaque_map s" "objs s' = objs s" "gnodes s' = gnodes s" "next_addr s' = next_addr s"
  shows "PWR_ObjAttrSetValue P object attr v s' w = PWR_ObjAttrSetValue P object attr v s w"
proof -
  have look: "opaque_map_lookup_type s' = opaque_map_lookup_type s"
    unfolding opaque_map_lookup_type_def [abs_def] opaque_map_lookup_def [abs_def] assms(1,2) ..
  have fwd: "forward_attr_set_value n P s' = forward_attr_set_value n P s" for n by (intro ext forward_cong assms)
  have "obj_attr_set_value P s' = obj_attr_set_value P s"
    unfolding obj_attr_set_value_def [abs_def] attr_set_fuel_def assms(5) fwd ..
  then show ?thesis unfolding PWR_ObjAttrSetValue_def lookup_context_def lookup_object_def look assms(3) by simp
qed

lemma set_value_record [simp]:
  "PWR_ObjAttrSetValue P object attr v (record_errors stat es s) w = PWR_ObjAttrSetValue P object attr v s w"
  "PWR_ObjAttrSetValue P object attr v (cleared stat s) w = PWR_ObjAttrSetValue P object attr v s w"
  by (rule set_value_cong; simp add: record_other cleared_other)+

fun set_run :: "'w plugin \<Rightarrow> key \<Rightarrow> (int \<times> 64 word) list \<Rightarrow> lib \<Rightarrow> 'w \<Rightarrow> (int list \<times> 'w) option" where
  "set_run P object [] s w = Some ([], w)"
| "set_run P object ((attr, v) # rest) s w =
     do {
       (e, w) \<leftarrow> PWR_ObjAttrSetValue P object attr v s w;
       (es, w) \<leftarrow> set_run P object rest s w;
       Some (e # es, w)
     }"

definition set_errors :: "key \<Rightarrow> (int \<times> 64 word) list \<Rightarrow> int list \<Rightarrow> PWR_AttrAccessError list" where
  "set_errors object avs es =
     map (\<lambda>((attr, _), e). \<lparr>err_obj = object, err_name = attr, err_index = 0, err_error = e\<rparr>)
       (filter (\<lambda>(_, e). e \<noteq> PWR_RET_SUCCESS) (zip avs es))"

lemma set_run_record [simp]:
  "set_run P object avs (record_errors stat es s) w = set_run P object avs s w"
  "set_run P object avs (cleared stat s) w = set_run P object avs s w"
  by (induction avs arbitrary: w) auto

lemma obj_set_values_loop_run:
  assumes "stat_live stat s"
  shows "obj_set_values_loop P object stat avs retval s w =
    map_option (\<lambda>(es, w). (if list_all (\<lambda>e. e = PWR_RET_SUCCESS) es then retval else PWR_RET_FAILURE,
        record_errors stat (set_errors object avs es) s, w)) (set_run P object avs s w)"
  using assms
proof (induction avs arbitrary: retval s w)
  case (Cons av avs)
  obtain attr v where av: "av = (attr, v)" by (cases av)
  show ?case
  proof (cases "PWR_ObjAttrSetValue P object attr v s w")
    case (Some res)
    obtain e w1 where res: "res = (e, w1)" by (cases res)
    show ?thesis
      using Some res av Cons.prems Cons.IH
      by (cases "set_run P object avs s w1") (auto simp: push_record set_errors_def)
  qed (simp add: av)
qed (simp add: set_errors_def)

text \<open>
  Setting several attributes of one object attempts every one of them in order, whatever
  happens to the others, succeeds exactly if every one succeeds, and leaves one error per
  failure in the status object, cleared before. Every one of these errors carries the index
  zero, wherever in the array the failure happened.
\<close>

theorem obj_set_values_spec:
  assumes "usable_status status object stat s" "length values = length attrs"
  shows "PWR_ObjAttrSetValues P object (int (length attrs)) (Some attrs) (Some values) status s w =
    map_option (\<lambda>(es, w). (if list_all (\<lambda>e. e = PWR_RET_SUCCESS) es then PWR_RET_SUCCESS else PWR_RET_FAILURE,
        record_errors stat (set_errors object (zip attrs values) es) (cleared stat s), w))
      (set_run P object (zip attrs values) s w)"
  using with_status_usable(2) [OF assms(1)] assms(2)
  by (simp add: PWR_ObjAttrSetValues_def with_status_usable(1) [OF assms(1)] array_prefix_def obj_set_values_loop_run)

theorem obj_set_values_spec_witness:
  "PWR_ObjAttrSetValues example_plugin example_node 2 (Some [PWR_ATTR_POWER, PWR_ATTR_POWER_LIMIT_MAX]) (Some [7, 90]) 0 example_lib [] =
     Some (PWR_RET_FAILURE, example_lib, [(set_power_limit_max, 3, 90)])"
proof -
  have "set_run example_plugin example_node [(PWR_ATTR_POWER, 7), (PWR_ATTR_POWER_LIMIT_MAX, 90)] example_lib [] =
    Some ([PWR_RET_READ_ONLY, PWR_RET_SUCCESS], [(set_power_limit_max, 3, 90)])" by code_simp
  with obj_set_values_spec [OF example_no_status, of "[7, 90]" "[PWR_ATTR_POWER, PWR_ATTR_POWER_LIMIT_MAX]" example_plugin example_node "[]"]
  show ?thesis by (simp add: record_errors_def cleared_def del: set_run.simps)
qed

subsection \<open>Taking the errors out of a status object\<close>

fun drain :: "nat \<Rightarrow> key \<Rightarrow> lib \<Rightarrow> (PWR_AttrAccessError list \<times> lib) option" where
  "drain 0 status s = Some ([], s)"
| "drain (Suc n) status s =
     do {
       (r, e, s) \<leftarrow> PWR_StatusPopError status s;
       e \<leftarrow> (if r = PWR_RET_SUCCESS then e else None);
       (es, s) \<leftarrow> drain n status s;
       Some (e # es, s)
     }"

lemma find_status_update [simp]:
  "find_status_by_opaque status (s\<lparr>statuses := x\<rparr>) = find_status_by_opaque status s"
  unfolding find_status_by_opaque_def lookup_status_def
  by (rule lookup_type_cong) (simp_all add: opaque_map_lookup_def)

text \<open>
  C33. The errors of a status object come out in the order in which they were recorded, each
  exactly once; after the last of them the status object reports that it is empty, and
  keeps doing so.
\<close>

theorem errors_popped_in_order:
  assumes "find_status_by_opaque status s = Some (Some a)" "statuses s a = Some st"
  shows "\<exists>s'. drain (length (sts_list st)) status s = Some (sts_list st, s') \<and>
    PWR_StatusPopError status s' = Some (PWR_RET_EMPTY, None, s')"
  using assms
proof (induction "sts_list st" arbitrary: s st)
  case Nil
  then show ?case by (simp add: PWR_StatusPopError_def)
next
  case (Cons e es)
  let ?s = "s\<lparr>statuses := (statuses s)(a \<mapsto> st\<lparr>sts_list := es\<rparr>)\<rparr>"
  have "PWR_StatusPopError status s = Some (PWR_RET_SUCCESS, Some e, ?s)"
    using Cons.prems Cons.hyps(2) [symmetric] by (simp add: PWR_StatusPopError_def)
  moreover obtain s' where "drain (length es) status ?s = Some (es, s')" "PWR_StatusPopError status s' = Some (PWR_RET_EMPTY, None, s')"
    using Cons.hyps(1) [of "st\<lparr>sts_list := es\<rparr>" ?s] Cons.prems by auto
  ultimately show ?case by (simp add: Cons.hyps(2) [symmetric])
qed

definition example_errors :: "(key \<times> lib) option" where
  "example_errors =
     do {
       (_, h, s) \<leftarrow> PWR_StatusCreate example_ctx True example_lib;
       status \<leftarrow> h;
       (_, _, s, _) \<leftarrow> PWR_ObjAttrGetValues example_plugin example_node 3
          (Some [PWR_ATTR_TEMP, PWR_ATTR_POWER, PWR_ATTR_GOV]) True True status s [];
       Some (status, s)
     }"

theorem errors_popped_in_order_witness:
  "\<exists>status s s'. example_errors = Some (status, s) \<and>
     drain 2 status s = Some ([\<lparr>err_obj = example_node, err_name = PWR_ATTR_TEMP, err_index = 0, err_error = PWR_RET_NOT_IMPLEMENTED\<rparr>,
        \<lparr>err_obj = example_node, err_name = PWR_ATTR_GOV, err_index = 2, err_error = PWR_RET_NOT_IMPLEMENTED\<rparr>], s') \<and>
     PWR_StatusPopError status s' = Some (PWR_RET_EMPTY, None, s')"
proof -
  have "map_option (\<lambda>(status, s). (find_status_by_opaque status s, map_option sts_list (statuses s 8))) example_errors =
    Some (Some (Some 8), Some [\<lparr>err_obj = example_node, err_name = PWR_ATTR_TEMP, err_index = 0, err_error = PWR_RET_NOT_IMPLEMENTED\<rparr>,
        \<lparr>err_obj = example_node, err_name = PWR_ATTR_GOV, err_index = 2, err_error = PWR_RET_NOT_IMPLEMENTED\<rparr>])"
    by code_simp
  then obtain status s st where s: "example_errors = Some (status, s)" "find_status_by_opaque status s = Some (Some 8)"
    "statuses s 8 = Some st" "sts_list st = [\<lparr>err_obj = example_node, err_name = PWR_ATTR_TEMP, err_index = 0, err_error = PWR_RET_NOT_IMPLEMENTED\<rparr>,
        \<lparr>err_obj = example_node, err_name = PWR_ATTR_GOV, err_index = 2, err_error = PWR_RET_NOT_IMPLEMENTED\<rparr>]" by auto
  from errors_popped_in_order [OF s(2,3)] s show ?thesis by (auto simp: numeral_2_eq_2 simp del: drain.simps)
qed

subsection \<open>Destroying a status object\<close>

text \<open>
  \<^verbatim>\<open>PWR_StatusDestroy\<close> does not check that the status object belongs to the context
  named in the handle. A handle made of the key of a live status object and the key of
  another live context passes its checks, and the list node of the status object is then
  deleted from the list of the wrong context, which the list functions do not allow.
\<close>

theorem foreign_status_destroy:
  assumes "lookup_status s (OPAQUE_GET_DATA_KEY status) = Some (Some a)"
    and "lookup_context s (OPAQUE_GET_CONTEXT_KEY status) = Some (Some c)"
    and "statuses s a = Some st" "sts_link st = Some n" "ctxs s c = Some ctx" "n \<notin> fst ` set (ctx_status_list ctx)"
  shows "PWR_StatusDestroy status s = None"
  using assms
  by (simp add: PWR_StatusDestroy_def find_status_by_opaque_def context_del_status_def g_list_delete_link_def)

text \<open>The example with a second context, whose key is 9, and a status object of the first.\<close>

definition example_two :: "(key \<times> lib) option" where
  "example_two =
     do {
       m \<leftarrow> opaque_map example_lib;
       ctx \<leftarrow> ctxs example_lib 1;
       (_, h, s) \<leftarrow> PWR_StatusCreate example_ctx True
         (example_lib\<lparr>opaque_map := Some (m\<lparr>table := (table m)(9 \<mapsto> 4)\<rparr>),
            refs := (refs example_lib)(4 \<mapsto> \<lparr>ref_type = OPAQUE_CONTEXT, ref_key = 9\<rparr>),
            ctxs := (ctxs example_lib)(4 \<mapsto> ctx)\<rparr>);
       status \<leftarrow> h;
       Some (status, s)
     }"

theorem foreign_status_destroy_witness:
  "\<exists>status s. example_two = Some (status, s) \<and>
     PWR_StatusDestroy (OPAQUE_GENERATE 9 (OPAQUE_GET_DATA_KEY status)) s = None"
proof -
  have "map_option (\<lambda>(status, s). (lookup_status s (dk (OPAQUE_GENERATE 9 (dk status))),
      lookup_context s (ck (OPAQUE_GENERATE 9 (dk status))), map_option sts_link (statuses s 8),
      map_option ctx_status_list (ctxs s 4))) example_two =
    Some (Some (Some 8), Some (Some 4), Some (Some 9), Some [])" by code_simp
  then obtain status s st ctx where s: "example_two = Some (status, s)"
    "lookup_status s (dk (OPAQUE_GENERATE 9 (dk status))) = Some (Some 8)"
    "lookup_context s (ck (OPAQUE_GENERATE 9 (dk status))) = Some (Some 4)" "statuses s 8 = Some st" "sts_link st = Some 9"
    "ctxs s 4 = Some ctx" "ctx_status_list ctx = []" by auto
  from foreign_status_destroy [OF s(2-6)] s(1,7) show ?thesis by auto
qed

end
