(* ===== verification/Fp_Rounding.thy ===== *)
theory Fp_Rounding
  imports Pwr_Double
begin

text \<open>
  Facts about the rounding of doubles: a representable value is not changed, rounding never
  passes a representable value, and the error is at most half of the last place.
\<close>

subsection \<open>Rounding to an integer\<close>

lemma floor_real: "of_int \<lfloor>y\<rfloor> \<le> y" "y < of_int \<lfloor>y\<rfloor> + 1" for y :: real
  by linarith+

lemma round_even_err: "\<bar>of_int (round_even y) - y\<bar> \<le> 1 / 2"
proof -
  let ?q = "\<lfloor>y\<rfloor>"
  consider "round_even y = ?q" "y - of_int ?q \<le> 1 / 2" | "round_even y = ?q + 1" "1 / 2 \<le> y - of_int ?q"
    unfolding round_even_def Let_def
    by (cases "y - of_int ?q > 1 / 2 \<or> (y - of_int ?q = 1 / 2 \<and> odd ?q)") (simp only: if_True, argo, simp only: if_False, argo)
  then show ?thesis
  proof cases
    case 1
    then show ?thesis using floor_real [of y] by (simp only: abs_le_iff) linarith
  next
    case 2
    then have "real_of_int (round_even y) = of_int ?q + 1" by simp
    with 2(2) show ?thesis using floor_real [of y] by (simp only: abs_le_iff) linarith
  qed
qed

lemma round_even_int [simp]: "round_even (of_int k) = k"
  by (simp add: round_even_def)

lemma round_even_le: "y \<le> of_int k \<Longrightarrow> round_even y \<le> k"
  using round_even_err [of y] by linarith

lemma round_even_minus: "round_even (- y) = - round_even y"
proof (cases "y = of_int \<lfloor>y\<rfloor>")
  case True
  then show ?thesis using round_even_int by (metis of_int_minus)
next
  case False
  then have "\<lfloor>- y\<rfloor> = - \<lfloor>y\<rfloor> - 1" using floor_real [of y] by (intro floor_unique) (simp_all, linarith+)
  then have "- y - of_int \<lfloor>- y\<rfloor> = 1 - (y - of_int \<lfloor>y\<rfloor>)" "odd \<lfloor>- y\<rfloor> = even \<lfloor>y\<rfloor>" by simp_all
  moreover have "1 - r > 1 / 2 \<longleftrightarrow> r < 1 / 2" "1 - r = 1 / 2 \<longleftrightarrow> r = 1 / 2" for r :: real by argo+
  ultimately show ?thesis unfolding round_even_def Let_def \<open>\<lfloor>- y\<rfloor> = - \<lfloor>y\<rfloor> - 1\<close> by auto
qed

lemma round_even_ge: "of_int k \<le> y \<Longrightarrow> k \<le> round_even y"
  using round_even_le [of "- y" "- k"] by (simp add: round_even_minus)

subsection \<open>Representable values\<close>

definition dbl :: "real \<Rightarrow> bool" where
  "dbl x \<longleftrightarrow> (\<exists>m e. x = of_int m * 2 powr of_int e \<and> \<bar>m\<bar> < 2 ^ 53 \<and> - 1074 \<le> e)"

lemma dblI: "x = of_int m * 2 powr of_int e \<Longrightarrow> \<bar>m\<bar> < 2 ^ 53 \<Longrightarrow> - 1074 \<le> e \<Longrightarrow> dbl x"
  unfolding dbl_def by blast

lemma dbl_minusI: "dbl x \<Longrightarrow> dbl (- x)"
  unfolding dbl_def
proof (elim exE conjE)
  fix m e assume "x = of_int m * 2 powr real_of_int e" "\<bar>m\<bar> < 2 ^ 53" "- 1074 \<le> e"
  then show "\<exists>m e. - x = of_int m * 2 powr real_of_int e \<and> \<bar>m\<bar> < 2 ^ 53 \<and> - 1074 \<le> e"
    by (intro exI [of _ "- m"] exI [of _ e]) simp
qed

lemma dbl_minus [simp]: "dbl (- x) = dbl x"
  using dbl_minusI [of x] dbl_minusI [of "- x"] by auto

lemma dbl_int: "\<bar>k\<bar> < 2 ^ 53 \<Longrightarrow> dbl (of_int k)"
  by (rule dblI [of _ k 0]) simp_all

lemma dbl_0 [simp]: "dbl 0"
  using dbl_int [of 0] by simp

lemma dbl_nat: "n < 2 ^ 53 \<Longrightarrow> dbl (real n)"
  using dbl_int [of "int n"] by simp

lemma dbl_pow2: "dbl (2 ^ n)"
  by (rule dblI [of _ 1 "int n"]) (simp_all add: powr_realpow)

lemma less_two_53: "\<bar>m\<bar> < 2 ^ 53 \<Longrightarrow> real_of_int \<bar>m\<bar> < 2 ^ 53"
  using of_int_less_iff [of "\<bar>m\<bar>" "2 ^ 53", where 'a = real] by simp

lemma last_place_ge: "- 1074 \<le> last_place x"
  by (simp add: last_place_def)

lemma last_place_minus: "last_place (- x) = last_place x"
  by (simp add: last_place_def)

lemma scaled_bound:
  assumes "x \<noteq> 0" shows "\<bar>x\<bar> < 2 ^ 53 * 2 powr of_int (last_place x)"
proof -
  have "log 2 \<bar>x\<bar> < of_int (last_place x) + 53"
    unfolding last_place_def using floor_correct [of "log 2 \<bar>x\<bar>"] by linarith
  then have "\<bar>x\<bar> < 2 powr (real_of_int (last_place x) + 53)" using assms by (simp add: log_less_iff)
  also have "\<dots> = 2 ^ 53 * 2 powr of_int (last_place x)"
    using powr_realpow [of "2 :: real" 53] by (simp add: powr_add)
  finally show ?thesis .
qed

lemma normal_bound:
  assumes "x \<noteq> 0" "last_place x \<noteq> - 1074"
  shows "2 ^ 52 * 2 powr of_int (last_place x) \<le> \<bar>x\<bar>"
proof -
  have "of_int (last_place x) + 52 \<le> log 2 \<bar>x\<bar>"
    using assms(2) floor_correct [of "log 2 \<bar>x\<bar>"] unfolding last_place_def by linarith
  then have "2 powr (of_int (last_place x) + 52) \<le> \<bar>x\<bar>" using assms(1) by (simp add: le_log_iff)
  moreover have "2 powr (real_of_int (last_place x) + 52) = 2 ^ 52 * 2 powr of_int (last_place x)"
    using powr_realpow [of "2 :: real" 52] by (simp add: powr_add)
  ultimately show ?thesis by simp
qed

lemma last_place_le:
  assumes x: "x = of_int m * 2 powr of_int e" and m: "\<bar>m\<bar> < 2 ^ 53" and e: "- 1074 \<le> e" and nz: "x \<noteq> 0"
  shows "last_place x \<le> e"
proof (rule ccontr)
  assume "\<not> last_place x \<le> e"
  with e have gt: "e + 1 \<le> last_place x" and "last_place x \<noteq> - 1074" by auto
  with nz have "2 ^ 52 * 2 powr of_int (last_place x) \<le> \<bar>x\<bar>" by (intro normal_bound)
  moreover have "2 powr (of_int e + 1) \<le> (2 :: real) powr of_int (last_place x)"
    using gt by (intro powr_mono) linarith+
  moreover have "\<bar>x\<bar> < 2 ^ 53 * 2 powr of_int e"
  proof -
    have "real_of_int \<bar>m\<bar> < 2 ^ 53" using m by (rule less_two_53)
    then show ?thesis by (simp add: x abs_mult)
  qed
  ultimately show False by (simp add: powr_add)
qed

lemma multiple_of_place:
  assumes "e \<le> e'" shows "\<exists>k :: int. of_int m * (2 :: real) powr of_int e' = of_int k * 2 powr of_int e"
proof -
  have "(2 :: real) powr of_int e' = 2 ^ nat (e' - e) * 2 powr of_int e"
    using assms by (simp flip: powr_realpow powr_add)
  then have "of_int m * (2 :: real) powr of_int e' = of_int (m * 2 ^ nat (e' - e)) * 2 powr of_int e" by simp
  then show ?thesis by blast
qed

lemma rounded_multiple:
  assumes "x = of_int k * 2 powr of_int (last_place x)"
  shows "rounded x = x"
proof (cases "x = 0")
  case False
  have "x / 2 powr of_int (last_place x) = of_int k" by (subst assms) simp
  then show ?thesis using assms False by (simp add: rounded_def)
qed (simp add: rounded_def)

lemma rounded_dbl: assumes "dbl x" shows "rounded x = x"
proof (cases "x = 0")
  case False
  from assms obtain m e where x: "x = of_int m * 2 powr of_int e" "\<bar>m\<bar> < 2 ^ 53" "- 1074 \<le> e"
    unfolding dbl_def by blast
  from multiple_of_place [OF last_place_le [OF this False], of m] show ?thesis
    using rounded_multiple x(1) by metis
qed (simp add: rounded_def)

lemma rounded_0 [simp]: "rounded 0 = 0"
  by (simp add: rounded_def)

lemma rounded_minus: "rounded (- x) = - rounded x"
  by (simp add: rounded_def last_place_minus round_even_minus)

lemma dbl_rounded: "dbl (rounded x)"
proof (cases "x = 0")
  case False
  let ?E = "last_place x"
  define m where "m = round_even (x / 2 powr of_int ?E)"
  have r: "rounded x = of_int m * 2 powr of_int ?E" using False by (simp add: rounded_def m_def)
  have "\<bar>x / 2 powr of_int ?E\<bar> < of_int (2 ^ 53)"
    using scaled_bound [OF False] by (simp add: abs_div field_simps)
  then have b: "x / 2 powr of_int ?E \<le> of_int (2 ^ 53)" "of_int (- (2 ^ 53)) \<le> x / 2 powr of_int ?E" by (simp_all only: abs_less_iff of_int_minus) linarith+
  have "\<bar>m\<bar> \<le> 2 ^ 53" using round_even_le [OF b(1)] round_even_ge [OF b(2)] unfolding m_def by simp
  then consider "\<bar>m\<bar> < 2 ^ 53" | "m = 2 ^ 53" | "m = - (2 ^ 53)" by linarith
  then show ?thesis
  proof cases
    case 1
    then show ?thesis using dblI [OF r _ last_place_ge] by simp
  next
    case 2
    then have "rounded x = of_int (2 ^ 52) * 2 powr of_int (?E + 1)" unfolding r by (simp add: powr_add)
    then show ?thesis by (rule dblI) (use last_place_ge [of x] in simp_all)
  next
    case 3
    then have "rounded x = of_int (- (2 ^ 52)) * 2 powr of_int (?E + 1)" unfolding r by (simp add: powr_add)
    then show ?thesis by (rule dblI) (use last_place_ge [of x] in simp_all)
  qed
qed simp

text \<open>Rounding does not pass a representable value.\<close>

lemma rounded_le_same_grid:
  assumes "x \<noteq> 0" "x \<le> of_int k * 2 powr of_int (last_place x)"
  shows "rounded x \<le> of_int k * 2 powr of_int (last_place x)"
proof -
  have "x / 2 powr of_int (last_place x) \<le> of_int k" using assms(2) by (simp add: field_simps)
  then show ?thesis using round_even_le [of "x / 2 powr of_int (last_place x)" k] assms(1) by (simp add: rounded_def)
qed

lemma rounded_le:
  assumes "x \<le> y" "dbl y"
  shows "rounded x \<le> y"
proof (cases "x = 0")
  case False
  let ?E = "last_place x"
  from assms(2) obtain m e where y: "y = of_int m * 2 powr of_int e" and m: "\<bar>m\<bar> < 2 ^ 53" and e: "- 1074 \<le> e"
    unfolding dbl_def by blast
  show ?thesis
  proof (cases "?E \<le> e")
    case True
    from multiple_of_place [OF this, of m] obtain k where "y = of_int k * 2 powr of_int ?E" using y by metis
    with rounded_le_same_grid [OF False, of k] assms(1) show ?thesis by simp
  next
    case less: False
    have big: "2 ^ 52 * 2 powr of_int ?E \<le> \<bar>x\<bar>" using less e by (intro normal_bound False) auto
    have "\<bar>y\<bar> < 2 ^ 52 * 2 powr of_int ?E"
    proof -
      have "real_of_int \<bar>m\<bar> < 2 ^ 53" using m by (rule less_two_53)
      then have "\<bar>y\<bar> < 2 ^ 53 * 2 powr of_int e" by (simp add: y abs_mult)
      also have "\<dots> = 2 ^ 52 * 2 powr (of_int e + 1)" by (simp add: powr_add)
      also have "\<dots> \<le> 2 ^ 52 * 2 powr of_int ?E" using less by (intro mult_left_mono powr_mono) auto
      finally show ?thesis .
    qed
    moreover from this big assms(1) have "x \<le> of_int (- (2 ^ 52)) * 2 powr of_int ?E" by (simp add: abs_if split: if_splits)
    from rounded_le_same_grid [OF False this] have "rounded x \<le> - (2 ^ 52 * 2 powr of_int ?E)" by simp
    ultimately show ?thesis by linarith
  qed
qed (use assms in simp)

lemma rounded_ge: "y \<le> x \<Longrightarrow> dbl y \<Longrightarrow> y \<le> rounded x"
  using rounded_le [of "- x" "- y"] by (simp add: rounded_minus)

subsection \<open>The error of rounding\<close>

lemma rounded_err_place: "\<bar>rounded x - x\<bar> \<le> 2 powr of_int (last_place x) / 2"
proof (cases "x = 0")
  case False
  let ?p = "2 powr real_of_int (last_place x)"
  have "\<bar>rounded x - x\<bar> = \<bar>of_int (round_even (x / ?p)) - x / ?p\<bar> * ?p"
  proof -
    have "rounded x - x = (of_int (round_even (x / ?p)) - x / ?p) * ?p"
      using False by (simp add: rounded_def left_diff_distrib)
    then show ?thesis by (simp only: abs_mult) simp
  qed
  also have "\<dots> \<le> 1 / 2 * ?p" by (intro mult_right_mono round_even_err) simp
  finally show ?thesis by simp
qed simp

definition tiny :: real where "tiny = 2 powr - 1000"

lemma tiny_half_place: "2 powr (- 1074) / 2 \<le> tiny / 2 ^ 52"
proof -
  have "2 powr (- 1074) / 2 \<le> (2 :: real) powr (- 1074)" by (rule order_trans [of _ "2 powr (- 1074) / 1"]) (intro divide_left_mono, simp_all only:, simp_all)
  also have "\<dots> \<le> 2 powr (- 1000 - 52)" by (intro powr_mono) simp_all
  also have "(2 :: real) powr (- 1000 - 52) = 2 powr - 1000 / 2 powr 52" by (rule powr_diff)
  also have "(2 :: real) powr 52 = 2 ^ 52" using powr_realpow [of "2 :: real" 52] by simp
  finally show ?thesis unfolding tiny_def .
qed

lemma rounded_err:
  assumes "\<bar>x\<bar> \<le> M" "tiny \<le> M"
  shows "\<bar>rounded x - x\<bar> \<le> M / 2 ^ 52"
proof (cases "x = 0 \<or> last_place x \<noteq> - 1074")
  case True
  have "0 \<le> M" using assms(1) by simp
  with True show ?thesis
    using rounded_err_place [of x] normal_bound [of x] assms(1) by (cases "x = 0") auto
next
  case False
  then have "\<bar>rounded x - x\<bar> \<le> 2 powr (- 1074) / 2" using rounded_err_place [of x] by simp
  also note tiny_half_place
  also have "tiny / 2 ^ 52 \<le> M / 2 ^ 52" using assms(2) by (intro divide_right_mono) simp_all
  finally show ?thesis .
qed

lemma rounded_bound:
  assumes "\<bar>x\<bar> \<le> y" "dbl y" shows "\<bar>rounded x\<bar> \<le> y"
  using assms rounded_le [of x y] rounded_ge [of "- y" x] by (simp add: abs_le_iff)

lemma fp_round_finite:
  assumes "\<bar>x\<bar> \<le> 2 ^ 1023" shows "fp_round x = Fin (rounded x)"
proof -
  have "\<bar>rounded x\<bar> \<le> 2 ^ 1023" using assms dbl_pow2 by (rule rounded_bound)
  then show ?thesis by (simp add: fp_round_def abs_le_iff)
qed

text \<open>A difference of representable values, rounded and then divided, stays below the exact difference.\<close>

lemma dbl_grid: "dbl x \<Longrightarrow> \<exists>k :: int. x = of_int k * 2 powr - 1074"
  unfolding dbl_def using multiple_of_place [of "- 1074"] by force

lemma dbl_half:
  assumes "dbl x" "dbl y" "rounded (x - y) \<noteq> x - y"
  shows "dbl (rounded (x - y) / 2)"
proof -
  let ?d = "x - y"
  have nz: "?d \<noteq> 0" using assms(3) by (metis rounded_0)
  from dbl_grid [OF assms(1)] dbl_grid [OF assms(2)] obtain k l :: int
    where kl: "x = of_int k * 2 powr - 1074" "y = of_int l * 2 powr - 1074" by blast
  then have d: "?d = of_int (k - l) * 2 powr - 1074" by (simp add: left_diff_distrib)
  have place: "last_place ?d \<noteq> - 1074"
  proof
    assume "last_place ?d = - 1074"
    with rounded_multiple [of ?d "k - l"] d assms(3) show False by simp
  qed
  have "dbl (rounded (?d / 2))" by (rule dbl_rounded)
  moreover have "rounded (?d / 2) = rounded ?d / 2"
  proof -
    have "log 2 \<bar>?d / 2\<bar> = log 2 \<bar>?d\<bar> - 1" using nz by (simp add: log_divide)
    then have "\<lfloor>log 2 \<bar>?d / 2\<bar>\<rfloor> = \<lfloor>log 2 \<bar>?d\<bar>\<rfloor> - 1" by simp
    then have "last_place (?d / 2) = last_place ?d - 1" using place by (simp add: last_place_def max_def split: if_splits)
    moreover have "?d / 2 / 2 powr real_of_int (last_place ?d - 1) = ?d / 2 powr real_of_int (last_place ?d)"
      by (simp only: of_int_diff of_int_1 powr_diff) (simp add: field_simps)
    moreover have "(2 :: real) powr real_of_int (last_place ?d - 1) = 2 powr real_of_int (last_place ?d) / 2"
      by (simp add: powr_diff)
    ultimately show ?thesis using nz by (simp add: rounded_def)
  qed
  ultimately show ?thesis by simp
qed

lemma rounded_step:
  assumes x: "dbl x" and y: "dbl y" and le: "y \<le> x" and n: "n = 1 \<and> rounded (x - y) \<le> x - y \<or> 2 \<le> n"
  shows "0 \<le> rounded (rounded (x - y) / n)" "rounded (rounded (x - y) / n) \<le> x - y"
proof -
  let ?d = "rounded (x - y)"
  have d0: "0 \<le> ?d" using rounded_ge [of 0 "x - y"] le by simp
  then show "0 \<le> rounded (?d / n)" using rounded_ge [of 0 "?d / n"] n by auto
  show "rounded (?d / n) \<le> x - y"
  proof (cases "?d \<le> x - y")
    case True
    have "?d / n \<le> ?d" using d0 n by (auto simp: divide_le_eq mult_le_cancel_left1)
    then have "rounded (?d / n) \<le> ?d" using dbl_rounded by (rule rounded_le)
    with True show ?thesis by simp
  next
    case False
    with n have two: "2 \<le> n" by auto
    have h: "dbl (?d / 2)" using False by (intro dbl_half x y) auto
    have "?d / n \<le> ?d / 2" using two d0 by (intro divide_left_mono) auto
    then have "rounded (?d / n) \<le> ?d / 2" using h by (rule rounded_le)
    also have "?d / 2 \<le> x - y"
    proof -
      from le False have pos: "0 < x - y" by (metis diff_ge_0_iff_ge le_less rounded_0 order_refl)
      have place: "last_place (x - y) \<noteq> - 1074 \<or> ?d = x - y"
        using rounded_multiple [of "x - y"] dbl_grid [OF x] dbl_grid [OF y] by (metis left_diff_distrib of_int_diff of_int_minus of_int_numeral)
      have "2 powr of_int (last_place (x - y)) \<le> x - y"
      proof -
        have "1 * 2 powr real_of_int (last_place (x - y)) \<le> 2 ^ 52 * 2 powr real_of_int (last_place (x - y))"
          by (intro mult_right_mono) simp_all
        then show ?thesis using normal_bound [of "x - y"] pos place False by auto
      qed
      then show ?thesis using rounded_err_place [of "x - y"] pos by linarith
    qed
    finally show ?thesis .
  qed
qed

end
