(* ===== verification/Rounded_Stats.thy ===== *)
theory Rounded_Stats
  imports Fp_Rounding
begin

text \<open>
  Rolling mean and sum of squared deviations (Welford's method), as they are computed in
  doubles, against their exact values: the computed mean stays between the least and the
  greatest sample, and both stay within an error that grows with the number of samples.
\<close>

subsection \<open>The exact values\<close>

text \<open>The mean, the sum of the squared deviations and the sample standard deviation.\<close>

definition mean :: "real list \<Rightarrow> real" where
  "mean xs = sum_list xs / real (length xs)"

definition sq_dev :: "real list \<Rightarrow> real" where
  "sq_dev xs = (\<Sum>x\<leftarrow>xs. (x - mean xs)\<^sup>2)"

definition stdev :: "real list \<Rightarrow> real" where
  "stdev xs = sqrt (sq_dev xs / (real (length xs) - 1))"

lemma mean_Nil [simp]: "mean [] = 0"
  by (simp add: mean_def)

lemma sum_list_mean: "sum_list xs = real (length xs) * mean xs"
  by (cases xs) (simp_all add: mean_def)

lemma mean_snoc: "mean (xs @ [x]) = mean xs + (x - mean xs) / (real (length xs) + 1)"
proof -
  have "real (length xs) + 1 \<noteq> 0" by linarith
  moreover have "mean (xs @ [x]) = (real (length xs) * mean xs + x) / (real (length xs) + 1)"
    unfolding mean_def [of "xs @ [x]"] by (simp add: sum_list_mean [of xs])
  ultimately show ?thesis by (simp add: field_simps)
qed

lemma sq_dev_moments: "sq_dev xs = (\<Sum>x\<leftarrow>xs. x\<^sup>2) - real (length xs) * (mean xs)\<^sup>2"
proof -
  have "(\<Sum>x\<leftarrow>xs. (x - m)\<^sup>2) = (\<Sum>x\<leftarrow>xs. x\<^sup>2) - 2 * m * sum_list xs + real (length xs) * m\<^sup>2" for m
    by (induction xs) (simp_all add: power2_eq_square algebra_simps)
  from this [of "mean xs"] show ?thesis by (simp add: sq_dev_def sum_list_mean power2_eq_square)
qed

lemma sq_dev_snoc: "sq_dev (xs @ [x]) = sq_dev xs + (x - mean (xs @ [x])) * (x - mean xs)"
proof -
  define n where "n = real (length xs) + 1"
  define m where "m = mean xs"
  define d where "d = (x - m) / n"
  have n: "n \<noteq> 0" by (simp add: n_def)
  have x: "x = m + n * d" using n by (simp add: d_def)
  have "mean (xs @ [x]) = m + d" by (simp add: mean_snoc m_def d_def n_def)
  then show ?thesis
    by (simp add: sq_dev_moments flip: m_def) (simp add: x n_def power2_eq_square algebra_simps)
qed

lemma sq_dev_nonneg: "0 \<le> sq_dev xs"
  unfolding sq_dev_def by (rule sum_list_nonneg) auto

lemma mean_abs_le:
  assumes "\<forall>x \<in> set xs. \<bar>x\<bar> \<le> B" "0 \<le> B" shows "\<bar>mean xs\<bar> \<le> B"
proof (cases "xs = []")
  case False
  have "\<bar>sum_list xs\<bar> \<le> real (length xs) * B"
    using assms(1) by (induction xs) (auto simp: algebra_simps intro: order_trans [OF abs_triangle_ineq] add_mono)
  with False show ?thesis by (simp add: mean_def field_simps)
qed (use assms in simp)

subsection \<open>The rolling mean\<close>

definition next_mean :: "nat \<Rightarrow> real \<Rightarrow> real \<Rightarrow> real" where
  "next_mean n m x = rounded (m + rounded (rounded (x - m) / real n))"

text \<open>\<open>m\<close> is what doubles make of the mean of \<open>xs\<close>.\<close>

definition near_mean :: "real \<Rightarrow> real list \<Rightarrow> real \<Rightarrow> bool" where
  "near_mean B xs m \<longleftrightarrow> dbl m \<and> \<bar>m - mean xs\<bar> \<le> real (length xs) * B / 2 ^ 49 \<and>
     (if xs = [] then m = 0 else Min (set xs) \<le> m \<and> m \<le> Max (set xs))"

text \<open>The scale of the samples: a bound on them for which no operation overflows.\<close>

definition samples_within :: "real \<Rightarrow> real list \<Rightarrow> bool" where
  "samples_within B xs \<longleftrightarrow> 1 \<le> B \<and> B \<le> 2 ^ 400 \<and> length xs \<le> 2 ^ 48 \<and> (\<forall>x \<in> set xs. dbl x \<and> \<bar>x\<bar> \<le> B)"

lemma samples_within_Nil: "1 \<le> B \<Longrightarrow> B \<le> 2 ^ 400 \<Longrightarrow> samples_within B []"
  by (simp add: samples_within_def)

lemma samples_within_snoc:
  "samples_within B (xs @ [x]) \<Longrightarrow> samples_within B xs \<and> dbl x \<and> \<bar>x\<bar> \<le> B"
  by (simp add: samples_within_def)

lemma near_mean_abs:
  assumes "near_mean B xs m" "samples_within B xs" shows "\<bar>m\<bar> \<le> B"
proof (cases "xs = []")
  case False
  with assms have m: "Min (set xs) \<le> m" "m \<le> Max (set xs)" by (simp_all add: near_mean_def)
  have "\<bar>Min (set xs)\<bar> \<le> B" "\<bar>Max (set xs)\<bar> \<le> B" using False assms(2) by (simp_all add: samples_within_def)
  with m show ?thesis by linarith
qed (use assms in \<open>simp add: near_mean_def samples_within_def\<close>)

lemma tiny_le_1: "tiny \<le> 1"
proof -
  have "tiny \<le> 2 powr 0" unfolding tiny_def by (intro powr_mono) simp_all
  then show ?thesis by simp
qed

lemma rounded_err_1: "\<bar>x\<bar> \<le> M \<Longrightarrow> 1 \<le> M \<Longrightarrow> \<bar>rounded x - x\<bar> \<le> M / 2 ^ 52"
  using rounded_err [of x M] tiny_le_1 by linarith

lemma next_mean_between:
  assumes "dbl m" "dbl x" "2 \<le> n"
  shows "min m x \<le> m + rounded (rounded (x - m) / real n) \<and> m + rounded (rounded (x - m) / real n) \<le> max m x"
proof (cases "m \<le> x")
  case True
  with rounded_step [of x m "real n"] assms show ?thesis by simp
next
  case False
  have "rounded (x - m) = - rounded (m - x)" using rounded_minus [of "m - x"] by simp
  then have "rounded (rounded (x - m) / real n) = - rounded (rounded (m - x) / real n)" using rounded_minus [of "rounded (m - x) / real n"] by simp
  with False rounded_step [of m x "real n"] assms show ?thesis by simp
qed

lemma next_mean_first: "dbl x \<Longrightarrow> next_mean 1 0 x = x"
  by (simp add: next_mean_def rounded_dbl)

lemma next_mean_hull:
  assumes "dbl m" "dbl x" "2 \<le> n"
  shows "min m x \<le> next_mean n m x \<and> next_mean n m x \<le> max m x"
proof -
  have "dbl (min m x)" "dbl (max m x)" using assms by (simp_all add: min_def max_def)
  with next_mean_between [OF assms] show ?thesis unfolding next_mean_def by (simp add: rounded_le rounded_ge)
qed

text \<open>One step of the rolling mean keeps the hull and adds at most \<open>B / 2 ^ 49\<close> to the error.\<close>

lemma rounding_chain:
  assumes "\<bar>m\<bar> \<le> B" "\<bar>x\<bar> \<le> B" "1 \<le> B" "1 \<le> n" "\<bar>m + rounded (rounded (x - m) / n)\<bar> \<le> B"
  shows "\<bar>rounded (m + rounded (rounded (x - m) / n)) - (m + (x - m) / n)\<bar> \<le> B / 2 ^ 49"
proof -
  let ?d = "rounded (x - m)" and ?q = "rounded (rounded (x - m) / n)"
  have 1: "\<bar>?d - (x - m)\<bar> \<le> 2 * B / 2 ^ 52" using assms(1-3) by (intro rounded_err_1) linarith+
  have "2 * B / 2 ^ 52 \<le> 2 * B" using assms(3) by simp
  with 1 assms(1,2) have d: "\<bar>?d\<bar> \<le> 4 * B" by linarith
  have "\<bar>?d / n\<bar> \<le> \<bar>?d\<bar>" using assms(4) by (simp add: abs_div divide_le_eq mult_le_cancel_left1)
  with d have 2: "\<bar>?q - ?d / n\<bar> \<le> 4 * B / 2 ^ 52" using assms(3) by (intro rounded_err_1) linarith+
  have 3: "\<bar>rounded (m + ?q) - (m + ?q)\<bar> \<le> B / 2 ^ 52" using assms(3,5) by (intro rounded_err_1)
  have "\<bar>?d / n - (x - m) / n\<bar> = \<bar>?d - (x - m)\<bar> / n" using assms(4) by (simp add: abs_div flip: diff_divide_distrib)
  also have "\<dots> \<le> \<bar>?d - (x - m)\<bar>" using assms(4) by (simp add: divide_le_eq mult_le_cancel_left1)
  finally have "\<bar>?d / n - (x - m) / n\<bar> \<le> 2 * B / 2 ^ 52" using 1 by linarith
  then have "\<bar>rounded (m + ?q) - (m + (x - m) / n)\<bar> \<le> 7 * B / 2 ^ 52" using 2 3 by linarith
  also have "\<dots> \<le> B / 2 ^ 49" using assms(3) by simp
  finally show ?thesis .
qed

lemma Min_Max_snoc:
  assumes "xs \<noteq> []"
  shows "Min (set (xs @ [x])) = min (Min (set xs)) x" "Max (set (xs @ [x])) = max (Max (set xs)) x"
  using assms by (simp_all add: min.commute max.commute)

lemma near_mean_snoc:
  assumes within: "samples_within B (xs @ [x])" and near: "near_mean B xs m"
  defines "n \<equiv> Suc (length xs)"
  shows "near_mean B (xs @ [x]) (next_mean n m x)"
    "min m x \<le> next_mean n m x \<or> xs = []" "next_mean n m x \<le> max m x \<or> xs = []" "xs = [] \<Longrightarrow> next_mean n m x = x"
proof -
  have B: "1 \<le> B" using within by (simp add: samples_within_def)
  have x: "dbl x" "\<bar>x\<bar> \<le> B" and xs: "samples_within B xs" using samples_within_snoc [OF within] by simp_all
  have m: "dbl m" "\<bar>m\<bar> \<le> B" "\<bar>m - mean xs\<bar> \<le> real (length xs) * B / 2 ^ 49"
    using near near_mean_abs [OF near xs] by (simp_all add: near_mean_def)
  show first: "next_mean n m x = x" if "xs = []"
    using that near next_mean_first [OF x(1)] by (simp add: near_mean_def n_def)
  have hull: "min m x \<le> next_mean n m x" "next_mean n m x \<le> max m x"
    "\<bar>m + rounded (rounded (x - m) / real n)\<bar> \<le> B" if "xs \<noteq> []"
  proof -
    have "2 \<le> n" using that by (cases xs) (simp_all add: n_def)
    from next_mean_hull [OF m(1) x(1) this] next_mean_between [OF m(1) x(1) this] m(2) x(2)
    show "min m x \<le> next_mean n m x" "next_mean n m x \<le> max m x" "\<bar>m + rounded (rounded (x - m) / real n)\<bar> \<le> B"
      by (auto simp: min_def max_def split: if_splits)
  qed
  then show "min m x \<le> next_mean n m x \<or> xs = []" "next_mean n m x \<le> max m x \<or> xs = []" by blast+
  have dbl: "dbl (next_mean n m x)" unfolding next_mean_def by (rule dbl_rounded)
  show "near_mean B (xs @ [x]) (next_mean n m x)"
  proof (cases "xs = []")
    case True
    with first [OF True] x B show ?thesis by (simp add: near_mean_def mean_def)
  next
    case False
    have n: "1 \<le> real n" "real n = real (length xs) + 1" by (simp_all add: n_def)
    have "\<bar>next_mean n m x - (m + (x - m) / real n)\<bar> \<le> B / 2 ^ 49"
      unfolding next_mean_def by (rule rounding_chain [OF m(2) x(2) B n(1) hull(3) [OF False]])
    moreover have "(m + (x - m) / real n) - mean (xs @ [x]) = (m - mean xs) * (1 - 1 / real n)"
      unfolding mean_snoc n(2) [symmetric] using n(1) by (simp add: field_simps)
    moreover have "\<bar>(m - mean xs) * (1 - 1 / real n)\<bar> \<le> \<bar>m - mean xs\<bar>"
      using n(1) by (simp only: abs_mult) (intro mult_left_le, simp_all add: abs_if field_simps)
    ultimately have "\<bar>next_mean n m x - mean (xs @ [x])\<bar> \<le> real (length xs) * B / 2 ^ 49 + B / 2 ^ 49"
      using m(3) by linarith
    then have "\<bar>next_mean n m x - mean (xs @ [x])\<bar> \<le> real (length (xs @ [x])) * B / 2 ^ 49" by (simp add: field_simps)
    moreover have "Min (set (xs @ [x])) \<le> next_mean n m x \<and> next_mean n m x \<le> Max (set (xs @ [x]))"
    proof -
      have "Min (set xs) \<le> m" "m \<le> Max (set xs)" using near False by (simp_all add: near_mean_def)
      from order_trans [OF min.mono [OF this(1) order_refl] hull(1) [OF False]]
        order_trans [OF hull(2) [OF False] max.mono [OF this(2) order_refl]]
      show ?thesis unfolding Min_Max_snoc [OF False] by blast
    qed
    ultimately show ?thesis using dbl by (simp add: near_mean_def)
  qed
qed

subsection \<open>The rolling sum\<close>

definition next_sum :: "real \<Rightarrow> real \<Rightarrow> real \<Rightarrow> real \<Rightarrow> real" where
  "next_sum q m' m x = rounded (q + rounded (rounded (x - m') * rounded (x - m)))"

definition near_sum :: "real \<Rightarrow> real list \<Rightarrow> real \<Rightarrow> bool" where
  "near_sum B xs q \<longleftrightarrow> dbl q \<and> 0 \<le> q \<and> q \<le> 11 * real (length xs) * B\<^sup>2 \<and>
     \<bar>q - sq_dev xs\<bar> \<le> 11 * (real (length xs))\<^sup>2 * B\<^sup>2 / 2 ^ 49 \<and> (length xs \<le> 1 \<longrightarrow> q = 0)"

lemma rounded_nonneg: "0 \<le> x \<Longrightarrow> 0 \<le> rounded x" and rounded_nonpos: "x \<le> 0 \<Longrightarrow> rounded x \<le> 0"
  using rounded_ge [of 0 x] rounded_le [of x 0] by simp_all

lemma difference_rounded:
  assumes "\<bar>x\<bar> \<le> B" "\<bar>m\<bar> \<le> B" "1 \<le> B" "\<bar>m - u\<bar> \<le> k * B / 2 ^ 49" "\<bar>u\<bar> \<le> B"
  shows "\<bar>rounded (x - m)\<bar> \<le> 3 * B" "\<bar>rounded (x - m) - (x - u)\<bar> \<le> (k + 1) * B / 2 ^ 49" "\<bar>x - u\<bar> \<le> 2 * B"
proof -
  have e: "\<bar>rounded (x - m) - (x - m)\<bar> \<le> 2 * B / 2 ^ 52" using assms(1-3) by (intro rounded_err_1) linarith+
  moreover have "2 * B / 2 ^ 52 \<le> B" "2 * B / 2 ^ 52 \<le> B / 2 ^ 49" using assms(3) by simp_all
  ultimately show "\<bar>rounded (x - m)\<bar> \<le> 3 * B" using assms(1,2) by linarith
  have "\<bar>rounded (x - m) - (x - u)\<bar> \<le> B / 2 ^ 49 + k * B / 2 ^ 49" using e assms(4) \<open>_ \<le> B / 2 ^ 49\<close> by linarith
  then show "\<bar>rounded (x - m) - (x - u)\<bar> \<le> (k + 1) * B / 2 ^ 49" by (simp add: field_simps)
  show "\<bar>x - u\<bar> \<le> 2 * B" using assms(1,5) by linarith
qed

lemma product_rounded:
  fixes n B :: real
  assumes "1 \<le> B" "1 \<le> n" "\<bar>a\<bar> \<le> 3 * B" "\<bar>b\<bar> \<le> 3 * B" "\<bar>u\<bar> \<le> 2 * B" "\<bar>v\<bar> \<le> 2 * B"
    and "\<bar>a - u\<bar> \<le> (n + 1) * B / 2 ^ 49" "\<bar>b - v\<bar> \<le> n * B / 2 ^ 49"
  shows "\<bar>rounded (a * b)\<bar> \<le> 10 * B\<^sup>2" "\<bar>rounded (a * b) - u * v\<bar> \<le> (5 * n + 4) * B\<^sup>2 / 2 ^ 49"
proof -
  have "\<bar>a * b\<bar> \<le> 3 * B * (3 * B)" unfolding abs_mult using assms by (intro mult_mono) simp_all
  then have ab: "\<bar>a * b\<bar> \<le> 9 * B\<^sup>2" by (simp add: power2_eq_square)
  have B2: "1 \<le> B\<^sup>2" using assms(1) by simp
  from rounded_err_1 [OF ab] B2 have e: "\<bar>rounded (a * b) - a * b\<bar> \<le> 9 * B\<^sup>2 / 2 ^ 52" by simp
  moreover have "9 * B\<^sup>2 / 2 ^ 52 \<le> B\<^sup>2" "9 * B\<^sup>2 / 2 ^ 52 \<le> 2 * B\<^sup>2 / 2 ^ 49" using B2 by simp_all
  ultimately show "\<bar>rounded (a * b)\<bar> \<le> 10 * B\<^sup>2" using ab by linarith
  have "a * b - u * v = a * (b - v) + v * (a - u)" by (simp add: algebra_simps)
  then have "\<bar>a * b - u * v\<bar> \<le> \<bar>a\<bar> * \<bar>b - v\<bar> + \<bar>v\<bar> * \<bar>a - u\<bar>" by (metis abs_mult abs_triangle_ineq)
  also have "\<dots> \<le> 3 * B * (n * B / 2 ^ 49) + 2 * B * ((n + 1) * B / 2 ^ 49)"
    using assms by (intro add_mono mult_mono) simp_all
  also have "\<dots> = (5 * n + 2) * B\<^sup>2 / 2 ^ 49" by (simp add: power2_eq_square field_simps)
  finally have "\<bar>rounded (a * b) - u * v\<bar> \<le> (5 * n + 2) * B\<^sup>2 / 2 ^ 49 + 2 * B\<^sup>2 / 2 ^ 49"
    using e \<open>_ \<le> 2 * B\<^sup>2 / 2 ^ 49\<close> by linarith
  then show "\<bar>rounded (a * b) - u * v\<bar> \<le> (5 * n + 4) * B\<^sup>2 / 2 ^ 49" by (simp add: field_simps)
qed

lemma near_sum_snoc:
  assumes within: "samples_within B (xs @ [x])" and near: "near_mean B xs m" and sum: "near_sum B xs q"
  defines "n \<equiv> Suc (length xs)"
  shows "near_sum B (xs @ [x]) (next_sum q (next_mean n m x) m x)"
    "\<bar>rounded (x - next_mean n m x)\<bar> \<le> 3 * B" "\<bar>rounded (x - m)\<bar> \<le> 3 * B"
    "\<bar>rounded (rounded (x - next_mean n m x) * rounded (x - m))\<bar> \<le> 10 * B\<^sup>2"
proof -
  let ?m = "next_mean n m x" and ?n = "real n"
  let ?a = "rounded (x - ?m)" and ?b = "rounded (x - m)"
  let ?P = "rounded (?a * ?b)"
  have B: "1 \<le> B" and len: "n \<le> 2 ^ 48" using within by (simp_all add: samples_within_def n_def)
  have x: "dbl x" "\<bar>x\<bar> \<le> B" and xs: "samples_within B xs" using samples_within_snoc [OF within] by simp_all
  note step = near_mean_snoc [OF within near, folded n_def]
  have n: "1 \<le> ?n" "?n = real (length xs) + 1" "real (length (xs @ [x])) = ?n" by (simp_all add: n_def)
  have bound: "\<bar>mean ys\<bar> \<le> B" if "samples_within B ys" for ys
    using that B by (intro mean_abs_le) (auto simp: samples_within_def)
  have m: "\<bar>m\<bar> \<le> B" "\<bar>m - mean xs\<bar> \<le> real (length xs) * B / 2 ^ 49" "\<bar>mean xs\<bar> \<le> B"
    and m': "\<bar>?m\<bar> \<le> B" "\<bar>?m - mean (xs @ [x])\<bar> \<le> ?n * B / 2 ^ 49" "\<bar>mean (xs @ [x])\<bar> \<le> B"
    using near near_mean_abs [OF near xs] bound [OF xs] step(1) near_mean_abs [OF step(1) within] bound [OF within] n(3)
    by (simp_all add: near_mean_def)
  note b = difference_rounded [OF x(2) m(1) B m(2,3), folded n(2)]
  note a = difference_rounded [OF x(2) m'(1) B m'(2,3)]
  note P = product_rounded [OF B n(1) a(1) b(1) a(3) b(3) a(2) b(2)]
  show "\<bar>?a\<bar> \<le> 3 * B" "\<bar>?b\<bar> \<le> 3 * B" "\<bar>?P\<bar> \<le> 10 * B\<^sup>2" by (rule a(1), rule b(1), rule P(1))
  have P0: "0 \<le> ?P"
  proof -
    have "0 \<le> x - ?m \<and> 0 \<le> x - m \<or> x - ?m \<le> 0 \<and> x - m \<le> 0" using step(2-4) by (auto simp: min_def max_def split: if_splits)
    then have "0 \<le> ?a \<and> 0 \<le> ?b \<or> ?a \<le> 0 \<and> ?b \<le> 0" using rounded_nonneg rounded_nonpos by blast
    then show ?thesis by (intro rounded_nonneg) (auto simp: zero_le_mult_iff)
  qed
  have q: "0 \<le> q" "q \<le> 11 * (?n - 1) * B\<^sup>2" "\<bar>q - sq_dev xs\<bar> \<le> 11 * (?n - 1)\<^sup>2 * B\<^sup>2 / 2 ^ 49"
    using sum unfolding near_sum_def n(2) by simp_all
  have up: "q + ?P \<le> 11 * (?n - 1) * B\<^sup>2 + 10 * B\<^sup>2" using q(2) P(1) by linarith
  have B2: "1 \<le> B\<^sup>2" using B by simp
  have "11 * (?n - 1) * B\<^sup>2 + 10 * B\<^sup>2 \<le> 11 * ?n * B\<^sup>2" using B2 by (simp add: algebra_simps)
  with up P0 q(1) have "\<bar>q + ?P\<bar> \<le> 11 * ?n * B\<^sup>2" by linarith
  moreover have "1 * 1 \<le> 11 * ?n * B\<^sup>2" using B2 n(1) by (intro mult_mono) simp_all
  ultimately have err: "\<bar>rounded (q + ?P) - (q + ?P)\<bar> \<le> 11 * ?n * B\<^sup>2 / 2 ^ 52" by (intro rounded_err_1) simp_all
  have "?n \<le> 2 ^ 48" using len by (metis of_nat_le_iff of_nat_numeral of_nat_power)
  then have "?n * B\<^sup>2 \<le> 2 ^ 48 * B\<^sup>2" using B2 by (intro mult_right_mono) simp_all
  then have small: "11 * ?n * B\<^sup>2 / 2 ^ 52 \<le> B\<^sup>2" using B2 by (simp add: mult.assoc)
  show "near_sum B (xs @ [x]) (next_sum q ?m m x)"
    unfolding near_sum_def n(3)
  proof (intro conjI impI)
    show "dbl (next_sum q ?m m x)" unfolding next_sum_def by (rule dbl_rounded)
    show "0 \<le> next_sum q ?m m x" unfolding next_sum_def using q(1) P0 by (intro rounded_nonneg) simp
    have "next_sum q ?m m x \<le> 11 * (?n - 1) * B\<^sup>2 + 10 * B\<^sup>2 + B\<^sup>2" unfolding next_sum_def using err small up by linarith
    then show "next_sum q ?m m x \<le> 11 * ?n * B\<^sup>2" by (simp add: algebra_simps)
    have "\<bar>next_sum q ?m m x - sq_dev (xs @ [x])\<bar> \<le>
        11 * ?n * B\<^sup>2 / 2 ^ 52 + 11 * (?n - 1)\<^sup>2 * B\<^sup>2 / 2 ^ 49 + (5 * ?n + 4) * B\<^sup>2 / 2 ^ 49"
      unfolding next_sum_def sq_dev_snoc using err q(3) P(2) by linarith
    also have "\<dots> = (11 / 8 * ?n + 11 * (?n - 1)\<^sup>2 + (5 * ?n + 4)) * (B\<^sup>2 / 2 ^ 49)" by (simp add: field_simps)
    also have "\<dots> \<le> 11 * ?n\<^sup>2 * (B\<^sup>2 / 2 ^ 49)"
    proof (rule mult_right_mono)
      have "11 * (?n - 1)\<^sup>2 = 11 * ?n\<^sup>2 - 22 * ?n + 11" by (simp add: power2_eq_square algebra_simps)
      with n(1) show "11 / 8 * ?n + 11 * (?n - 1)\<^sup>2 + (5 * ?n + 4) \<le> 11 * ?n\<^sup>2" by linarith
    qed simp
    finally show "\<bar>next_sum q ?m m x - sq_dev (xs @ [x])\<bar> \<le> 11 * ?n\<^sup>2 * B\<^sup>2 / 2 ^ 49" by simp
    show "next_sum q ?m m x = 0" if "length (xs @ [x]) \<le> 1"
    proof -
      have "xs = []" using that by simp
      moreover from this have "q = 0" using sum by (simp add: near_sum_def)
      ultimately show ?thesis using step(4) by (simp add: next_sum_def)
    qed
  qed
qed

subsection \<open>The computed standard deviation\<close>

text \<open>\<open>v\<close> is close to the standard deviation of \<open>xs\<close>: its square is close to the variance.\<close>

definition near_stdev :: "real \<Rightarrow> real list \<Rightarrow> real \<Rightarrow> bool" where
  "near_stdev B xs v \<longleftrightarrow> 0 \<le> v \<and> \<bar>v\<^sup>2 - (stdev xs)\<^sup>2\<bar> \<le> real (length xs) * B\<^sup>2 / 2 ^ 44 \<and>
     \<bar>v - stdev xs\<bar> \<le> sqrt (real (length xs)) * B / 2 ^ 22"

lemma near_squares:
  fixes v u :: real
  assumes "0 \<le> v" "0 \<le> u" "\<bar>v\<^sup>2 - u\<^sup>2\<bar> \<le> e\<^sup>2" "0 \<le> e"
  shows "\<bar>v - u\<bar> \<le> e"
proof -
  have "(v - u)\<^sup>2 = \<bar>v - u\<bar> * \<bar>v - u\<bar>" by (simp add: power2_eq_square)
  also have "\<dots> \<le> \<bar>v - u\<bar> * \<bar>v + u\<bar>" using assms(1,2) by (intro mult_left_mono) linarith+
  also have "\<dots> = \<bar>v\<^sup>2 - u\<^sup>2\<bar>" by (simp add: abs_mult [symmetric] power2_eq_square algebra_simps)
  finally have "(v - u)\<^sup>2 \<le> e\<^sup>2" using assms(3) by simp
  then show ?thesis using assms(4) by (simp add: abs_le_square_iff [symmetric])
qed

lemma stdev_square: "2 \<le> length xs \<Longrightarrow> (stdev xs)\<^sup>2 = sq_dev xs / (real (length xs) - 1)"
  using sq_dev_nonneg [of xs] by (simp add: stdev_def)

lemma near_stdev_computed:
  assumes within: "samples_within B xs" and sum: "near_sum B xs q" and len: "2 \<le> length xs"
  defines "s \<equiv> rounded (q / (real (length xs) - 1))"
  shows "0 \<le> s" "s \<le> 23 * B\<^sup>2" "near_stdev B xs (rounded (sqrt s))"
proof -
  let ?n = "real (length xs)"
  have B: "1 \<le> B" using within by (simp add: samples_within_def)
  then have B2: "1 \<le> B\<^sup>2" by simp
  have n: "2 \<le> ?n" using len by simp
  have q: "0 \<le> q" "q \<le> 11 * ?n * B\<^sup>2" "\<bar>q - sq_dev xs\<bar> \<le> 11 * ?n\<^sup>2 * B\<^sup>2 / 2 ^ 49" using sum by (simp_all add: near_sum_def)
  show s0: "0 \<le> s" unfolding s_def using q(1) n by (intro rounded_nonneg) simp
  have "q \<le> 22 * B\<^sup>2 * (?n - 1)"
  proof -
    have "11 * ?n * B\<^sup>2 \<le> 22 * (?n - 1) * B\<^sup>2" using n B2 by (intro mult_right_mono) simp_all
    with q(2) show ?thesis by (simp add: algebra_simps)
  qed
  then have "q / (?n - 1) \<le> 22 * B\<^sup>2" using n by (simp add: divide_le_eq)
  moreover have "0 \<le> q / (?n - 1)" using q(1) n by simp
  ultimately have "\<bar>q / (?n - 1)\<bar> \<le> 22 * B\<^sup>2" by linarith
  moreover from this have s: "\<bar>s - q / (?n - 1)\<bar> \<le> 22 * B\<^sup>2 / 2 ^ 52"
    unfolding s_def using B2 by (intro rounded_err_1) simp_all
  moreover have "22 * B\<^sup>2 / 2 ^ 52 \<le> B\<^sup>2" using B2 by simp
  ultimately show s23: "s \<le> 23 * B\<^sup>2" by linarith
  let ?v = "rounded (sqrt s)"
  have r0: "0 \<le> sqrt s" "sqrt s \<le> 5 * B"
  proof -
    have "s \<le> (5 * B)\<^sup>2" using s23 B2 by (simp add: power_mult_distrib)
    then show "sqrt s \<le> 5 * B" using B by (intro real_le_lsqrt) simp_all
    show "0 \<le> sqrt s" using s0 by simp
  qed
  then have v: "\<bar>?v - sqrt s\<bar> \<le> 5 * B / 2 ^ 52" using B by (intro rounded_err_1) simp_all
  have v0: "0 \<le> ?v" using r0(1) by (rule rounded_nonneg)
  have v_sq: "\<bar>?v\<^sup>2 - s\<bar> \<le> 55 * B\<^sup>2 / 2 ^ 52"
  proof -
    have "?v\<^sup>2 - s = (?v - sqrt s) * (?v + sqrt s)" using s0 by (simp add: power2_eq_square algebra_simps)
    then have "\<bar>?v\<^sup>2 - s\<bar> = \<bar>?v - sqrt s\<bar> * \<bar>?v + sqrt s\<bar>" by (simp add: abs_mult)
    also have "\<dots> \<le> (5 * B / 2 ^ 52) * (11 * B)"
    proof (intro mult_mono v)
      have "5 * B / 2 ^ 52 \<le> B" using B by simp
      with v r0 show "\<bar>?v + sqrt s\<bar> \<le> 11 * B" by linarith
    qed (use B in simp_all)
    finally show ?thesis by (simp add: power2_eq_square)
  qed
  have "\<bar>q / (?n - 1) - (stdev xs)\<^sup>2\<bar> \<le> 22 * ?n * B\<^sup>2 / 2 ^ 49"
  proof -
    have "\<bar>q / (?n - 1) - (stdev xs)\<^sup>2\<bar> = \<bar>q - sq_dev xs\<bar> / (?n - 1)"
      using n by (simp add: stdev_square [OF len] abs_div flip: diff_divide_distrib)
    also have "\<dots> \<le> (11 * ?n\<^sup>2 * B\<^sup>2 / 2 ^ 49) / (?n - 1)" using q(3) n by (intro divide_right_mono) simp_all
    also have "\<dots> \<le> 22 * ?n * B\<^sup>2 / 2 ^ 49"
    proof -
      have "11 * ?n\<^sup>2 \<le> 22 * ?n * (?n - 1)" using n mult_right_mono [OF n, of ?n] by (simp add: power2_eq_square algebra_simps)
      then have "11 * ?n\<^sup>2 / (?n - 1) \<le> 22 * ?n" using n by (simp add: divide_le_eq)
      then have "11 * ?n\<^sup>2 / (?n - 1) * (B\<^sup>2 / 2 ^ 49) \<le> 22 * ?n * (B\<^sup>2 / 2 ^ 49)" by (rule mult_right_mono) simp
      then show ?thesis by (simp add: field_simps)
    qed
    finally show ?thesis .
  qed
  then have "\<bar>?v\<^sup>2 - (stdev xs)\<^sup>2\<bar> \<le> 55 * B\<^sup>2 / 2 ^ 52 + 22 * B\<^sup>2 / 2 ^ 52 + 22 * ?n * B\<^sup>2 / 2 ^ 49" using v_sq s by linarith
  also have "\<dots> = (77 / 8 + 22 * ?n) * (B\<^sup>2 / 2 ^ 49)" by (simp add: algebra_simps)
  also have "\<dots> \<le> (32 * ?n) * (B\<^sup>2 / 2 ^ 49)" using n by (intro mult_right_mono) simp_all
  finally have sq: "\<bar>?v\<^sup>2 - (stdev xs)\<^sup>2\<bar> \<le> ?n * B\<^sup>2 / 2 ^ 44" by simp
  have "?n * B\<^sup>2 / 2 ^ 44 = (sqrt ?n * B / 2 ^ 22)\<^sup>2" by (simp add: power_divide power_mult_distrib)
  from sq [unfolded this] have e: "\<bar>?v\<^sup>2 - (stdev xs)\<^sup>2\<bar> \<le> (sqrt ?n * B / 2 ^ 22)\<^sup>2" .
  have "0 \<le> stdev xs" using sq_dev_nonneg [of xs] n by (simp add: stdev_def)
  moreover have "0 \<le> sqrt ?n * B / 2 ^ 22" using B by simp
  ultimately have "\<bar>?v - stdev xs\<bar> \<le> sqrt ?n * B / 2 ^ 22" using near_squares [OF v0 _ e] by blast
  with sq v0 show "near_stdev B xs ?v" by (simp add: near_stdev_def)
qed

subsection \<open>The operations on doubles\<close>

text \<open>At this scale nothing overflows, so that every operation gives its rounded result.\<close>

lemma fp_round_scale:
  assumes "1 \<le> B" "B \<le> 2 ^ 400" "\<bar>x\<bar> \<le> 2 ^ 56 * B\<^sup>2"
  shows "fp_round x = Fin (rounded x)"
proof (rule fp_round_finite)
  have "B\<^sup>2 \<le> (2 ^ 400)\<^sup>2" using assms(1,2) by (intro power_mono) linarith+
  also have "((2 :: real) ^ 400)\<^sup>2 = 2 ^ (400 * 2)" by (rule power_mult [symmetric])
  finally have "2 ^ 56 * B\<^sup>2 \<le> 2 ^ 56 * 2 ^ (400 * 2)" by (intro mult_left_mono) (simp_all only: zero_le_power zero_le_numeral)
  also have "(2 :: real) ^ 56 * 2 ^ (400 * 2) = 2 ^ (56 + 400 * 2)" by (rule power_add [symmetric])
  also have "\<dots> \<le> (2 :: real) ^ 1023" by (rule power_increasing) simp_all
  finally show "\<bar>x\<bar> \<le> 2 ^ 1023" using assms(3) by (rule order_trans [rotated])
qed

lemma scale_le: "1 \<le> B \<Longrightarrow> B \<le> B\<^sup>2" for B :: real
  by (simp add: power2_eq_square)

lemma fp_round_int:
  assumes "\<bar>k\<bar> < 2 ^ 53" shows "fp_round (of_int k) = Fin (of_int k)"
proof -
  have "\<bar>real_of_int k\<bar> < 2 ^ 53" using less_two_53 [OF assms] by simp
  then have "fp_round (of_int k) = Fin (rounded (of_int k))" by (intro fp_round_scale [of 1]) simp_all
  then show ?thesis by (simp only: rounded_dbl [OF dbl_int [OF assms]])
qed

lemma fp_round_small [simp]: "fp_round 0 = Fin 0" "fp_round 1 = Fin 1" "fp_round (- 1) = Fin (- 1)"
  using fp_round_int [of 0] fp_round_int [of 1] fp_round_int [of "- 1"] by simp_all

lemma fp_count [simp]: "n < 2 ^ 52 \<Longrightarrow> Fin (real n) + Fin 1 = Fin (real n + 1)"
  and fp_count_pred [simp]: "n < 2 ^ 52 \<Longrightarrow> Fin (real n + 1) - Fin 1 = Fin (real n)"
proof -
  assume n: "n < 2 ^ 52"
  have small: "fp_round (real k) = Fin (real k)" if "k < 2 ^ 53" for k
  proof -
    have "real k \<le> 2 ^ 53" using that by (metis less_imp_le of_nat_le_iff of_nat_numeral of_nat_power)
    then have "fp_round (real k) = Fin (rounded (real k))" by (intro fp_round_scale [of 1]) simp_all
    then show ?thesis by (simp only: rounded_dbl [OF dbl_nat [OF that]])
  qed
  from n small [of "Suc n"] small [of n] show "Fin (real n) + Fin 1 = Fin (real n + 1)" "Fin (real n + 1) - Fin 1 = Fin (real n)"
    by (simp_all add: add.commute)
qed

lemma fp_mean_step:
  assumes within: "samples_within B (xs @ [x])" and near: "near_mean B xs m"
  shows "Fin m + (Fin x - Fin m) / Fin (real (length xs) + 1) = Fin (next_mean (Suc (length xs)) m x)"
proof -
  let ?n = "real (length xs) + 1" and ?d = "rounded (x - m)"
  let ?q = "rounded (?d / ?n)"
  have B: "1 \<le> B" "B \<le> 2 ^ 400" using within by (simp_all add: samples_within_def)
  note fin = fp_round_scale [OF B]
  have x: "dbl x" "\<bar>x\<bar> \<le> B" and xs: "samples_within B xs" using samples_within_snoc [OF within] by simp_all
  have m: "\<bar>m\<bar> \<le> B" by (rule near_mean_abs [OF near xs])
  have B2: "B \<le> B\<^sup>2" by (rule scale_le [OF B(1)])
  then have scale: "4 * B \<le> 2 ^ 56 * B\<^sup>2" using B(1) by simp
  have d: "\<bar>?d\<bar> \<le> 3 * B"
  proof -
    have "\<bar>?d - (x - m)\<bar> \<le> 2 * B / 2 ^ 52" using B(1) x(2) m by (intro rounded_err_1) linarith+
    moreover have "2 * B / 2 ^ 52 \<le> B" using B(1) by simp
    ultimately show ?thesis using x(2) m by linarith
  qed
  have "\<bar>?d / ?n\<bar> \<le> \<bar>?d\<bar>" by (simp add: abs_div divide_le_eq mult_le_cancel_left1)
  with d have q: "\<bar>?d / ?n\<bar> \<le> 3 * B" by linarith
  have "\<bar>?q - ?d / ?n\<bar> \<le> 3 * B / 2 ^ 52" using q B(1) by (intro rounded_err_1) linarith+
  moreover have "3 * B / 2 ^ 52 \<le> B" using B(1) by simp
  ultimately have mq: "\<bar>m + ?q\<bar> \<le> 5 * B" using q m by linarith
  have "fp_round (x - m) = Fin ?d" "fp_round (?d / ?n) = Fin ?q" "fp_round (m + ?q) = Fin (rounded (m + ?q))"
    using x(2) m q mq scale B2 B(1) by (intro fin; simp; fail)+
  moreover have "?n \<noteq> 0" by linarith
  ultimately show ?thesis by (simp add: next_mean_def add.commute)
qed

lemma fp_sum_step:
  assumes within: "samples_within B (xs @ [x])" and near: "near_mean B xs m" and sum: "near_sum B xs q"
  defines "m' \<equiv> next_mean (Suc (length xs)) m x"
  shows "Fin q + (Fin x - Fin m') * (Fin x - Fin m) = Fin (next_sum q m' m x)"
proof -
  let ?a = "rounded (x - m')" and ?b = "rounded (x - m)"
  let ?P = "rounded (?a * ?b)"
  have B: "1 \<le> B" "B \<le> 2 ^ 400" and len: "length xs \<le> 2 ^ 48" using within by (simp_all add: samples_within_def)
  note fin = fp_round_scale [OF B]
  have x: "\<bar>x\<bar> \<le> B" and xs: "samples_within B xs" using samples_within_snoc [OF within] by simp_all
  have m: "\<bar>m\<bar> \<le> B" "\<bar>m'\<bar> \<le> B"
    using near_mean_abs [OF near xs] near_mean_abs [OF near_mean_snoc(1) [OF within near] within] by (simp_all add: m'_def)
  note b = near_sum_snoc(2-4) [OF within near sum, folded m'_def]
  have B2: "B \<le> B\<^sup>2" by (rule scale_le [OF B(1)])
  then have scale: "4 * B \<le> 2 ^ 56 * B\<^sup>2" using B(1) by simp
  have "\<bar>?a * ?b\<bar> \<le> 3 * B * (3 * B)" unfolding abs_mult using b B(1) by (intro mult_mono) simp_all
  then have ab: "\<bar>?a * ?b\<bar> \<le> 9 * B\<^sup>2" by (simp add: power2_eq_square)
  have q: "0 \<le> q" "q \<le> 11 * real (length xs) * B\<^sup>2" using sum by (simp_all add: near_sum_def)
  have "real (length xs) \<le> 2 ^ 48" using len by (metis of_nat_le_iff of_nat_numeral of_nat_power)
  then have "11 * real (length xs) * B\<^sup>2 \<le> 11 * 2 ^ 48 * B\<^sup>2" by (intro mult_right_mono) simp_all
  with q b(3) have "\<bar>q + ?P\<bar> \<le> 11 * 2 ^ 48 * B\<^sup>2 + 10 * B\<^sup>2" by linarith
  moreover have "11 * 2 ^ 48 * B\<^sup>2 + 10 * B\<^sup>2 \<le> 2 ^ 56 * B\<^sup>2" using B2 B(1) by simp
  ultimately have qP: "\<bar>q + ?P\<bar> \<le> 2 ^ 56 * B\<^sup>2" by linarith
  have "fp_round (x - m') = Fin ?a" "fp_round (x - m) = Fin ?b" using x m scale B(1) by (intro fin; linarith)+
  moreover have "9 * B\<^sup>2 \<le> 2 ^ 56 * B\<^sup>2" by (intro mult_right_mono) simp_all
  with ab have "fp_round (?a * ?b) = Fin ?P" by (intro fin) (rule order_trans)
  moreover have "fp_round (q + ?P) = Fin (rounded (q + ?P))" by (rule fin [OF qP])
  ultimately show ?thesis by (simp add: next_sum_def)
qed

definition near_stdev_value :: "real \<Rightarrow> real list \<Rightarrow> fp \<Rightarrow> bool" where
  "near_stdev_value B xs v \<longleftrightarrow>
     (if xs = [] then v = Fin 0 else if length xs = 1 then v = NaN else \<exists>r. v = Fin r \<and> near_stdev B xs r)"

lemma fp_stdev:
  assumes within: "samples_within B xs" and sum: "near_sum B xs q" and ne: "xs \<noteq> []"
  shows "near_stdev_value B xs (fp_sqrt (Fin q / (Fin (real (length xs)) - Fin 1)))"
proof -
  have B: "1 \<le> B" "B \<le> 2 ^ 400" and len: "length xs \<le> 2 ^ 48" using within by (simp_all add: samples_within_def)
  note fin = fp_round_scale [OF B]
  obtain n where n: "length xs = Suc n" using ne by (cases xs) auto
  with len have "n < 2 ^ 52" by simp
  then have count: "Fin (real (length xs)) - Fin 1 = Fin (real n)" unfolding n using fp_count_pred [of n] by (simp add: add.commute)
  show ?thesis
  proof (cases "n = 0")
    case True
    then have "q = 0" using sum n by (simp add: near_sum_def)
    with True n show ?thesis unfolding count near_stdev_value_def by (auto simp: signed_inf_def)
  next
    case False
    then have two: "2 \<le> length xs" and n0: "1 \<le> real n" using n by simp_all
    let ?s = "rounded (q / real n)"
    have n': "real (length xs) - 1 = real n" using n by simp
    note s = near_stdev_computed [OF within sum two, unfolded n']
    have q: "0 \<le> q" "q \<le> 11 * real (length xs) * B\<^sup>2" using sum by (simp_all add: near_sum_def)
    have B2: "B \<le> B\<^sup>2" by (rule scale_le [OF B(1)])
    have "real (length xs) \<le> 2 ^ 48" using len by (metis of_nat_le_iff of_nat_numeral of_nat_power)
    then have "11 * real (length xs) * B\<^sup>2 \<le> 11 * 2 ^ 48 * B\<^sup>2" by (intro mult_right_mono) simp_all
    moreover have "11 * 2 ^ 48 * B\<^sup>2 \<le> 2 ^ 56 * B\<^sup>2" by (intro mult_right_mono) simp_all
    moreover have "q / real n \<le> q" "0 \<le> q / real n" using q(1) n0 by (simp_all add: divide_le_eq mult_le_cancel_left1)
    ultimately have 1: "fp_round (q / real n) = Fin ?s" using q by (intro fin) linarith
    have "sqrt ?s \<le> 5 * B"
    proof (rule real_le_lsqrt)
      show "?s \<le> (5 * B)\<^sup>2" using s(2) B2 B(1) by (simp add: power_mult_distrib)
    qed (use B in simp_all)
    moreover have "0 \<le> sqrt ?s" using s(1) by simp
    moreover have "5 * B \<le> 2 ^ 56 * B\<^sup>2" using B2 B(1) by simp
    ultimately have "fp_round (sqrt ?s) = Fin (rounded (sqrt ?s))" by (intro fin) simp
    then have "fp_sqrt (Fin q / Fin (real n)) = Fin (rounded (sqrt ?s))" using 1 s(1) n0 by simp
    with s(3) n False ne show ?thesis unfolding count near_stdev_value_def by auto
  qed
qed

subsection \<open>Values in memory\<close>

text \<open>Whatever the bytes are, a finite value is representable.\<close>

lemma dbl_scaled:
  assumes "m < 2 ^ 53" "1 \<le> e" shows "dbl (real m * 2 ^ e / 2 ^ 1075)"
proof (rule dblI [of _ "int m" "int e - 1075"])
  have "2 powr real_of_int (int e - 1075) = 2 powr real e / (2 :: real) powr 1075" by (simp add: powr_diff)
  then have "2 powr real_of_int (int e - 1075) = (2 :: real) ^ e / 2 ^ 1075" using powr_realpow [of "2 :: real"] by (metis of_nat_numeral zero_less_numeral)
  then show "real m * 2 ^ e / 2 ^ 1075 = of_int (int m) * 2 powr real_of_int (int e - 1075)" by simp
  show "\<bar>int m\<bar> < 2 ^ 53" using assms(1) by simp
  show "- 1074 \<le> int e - 1075" using assms(2) by simp
qed

lemma double_of_bits_dbl:
  assumes "double_of_bits b = Fin r" shows "dbl r"
proof -
  define e where "e = unat (take_bit 11 (drop_bit 52 b))"
  define m where "m = unat (take_bit 52 b)"
  define sg :: real where "sg = (if bit b 63 then - 1 else 1)"
  have "m < 2 ^ 52" unfolding m_def unsigned_take_bit_eq by (rule take_bit_nat_less_exp)
  then have m: "m < 2 ^ 53" "2 ^ 52 + m < 2 ^ 53" by simp_all
  have sg: "dbl (sg * x) = dbl x" for x by (simp add: sg_def)
  have cases: "r = (if e = 0 then sg * (real m * 2 ^ 1 / 2 ^ 1075) else sg * (real (2 ^ 52 + m) * 2 ^ e / 2 ^ 1075))"
    using assms unfolding double_of_bits_def Let_def e_def [symmetric] m_def [symmetric] sg_def [symmetric]
    by (simp split: if_splits)
  show ?thesis
  proof (cases "e = 0")
    case True
    then show ?thesis unfolding cases if_P [OF True] sg by (intro dbl_scaled m order_refl)
  next
    case False
    then show ?thesis unfolding cases if_not_P [OF False] sg by (intro dbl_scaled m) simp
  qed
qed

end
