(* ===== verification/Stat_Properties.thy ===== *)
theory Stat_Properties
  imports Statistics Attr_Properties Rounded_Stats
begin

text \<open>
  What the sampling threads compute from the values that the plugin gives them, and what the
  reductions of their results compute. Arithmetic is rounded as in the code; averages and
  standard deviations are compared with the exact ones by the bounds of \<open>Rounded_Stats\<close>.
\<close>

subsection \<open>One index over the accepted samples\<close>

text \<open>
  The value, instant, mean and sum at one index, after the thread has accepted the samples
  \<open>xs\<close> (reading and time stamp).
\<close>

definition cell_fold :: "int \<Rightarrow> cell \<Rightarrow> (fp \<times> PWR_Time) list \<Rightarrow> cell" where
  "cell_fold k c xs = fold (\<lambda>(j, r, t). calc_cell k (Fin (real j + 1)) r t) (enumerate 0 xs) c"

lemma cell_fold_Nil [simp]: "cell_fold k c [] = c"
  by (simp add: cell_fold_def)

lemma cell_fold_snoc [simp]:
  "cell_fold k c (xs @ [(r, t)]) = calc_cell k (Fin (real (length xs) + 1)) r t (cell_fold k c xs)"
  by (simp add: cell_fold_def enumerate_append_eq)

lemma cell_fold_avg:
  assumes "samples_within B (map fst xs)"
  shows "\<exists>m'. cell_fold PWR_ATTR_STAT_AVG (Fin 0, i, m, q) (map (\<lambda>(x, t). (Fin x, t)) xs) = (Fin m', i, m, q) \<and>
    near_mean B (map fst xs) m'"
  using assms
proof (induction xs rule: rev_induct)
  case (snoc x xs)
  obtain r t where x: "x = (r, t)" by (cases x)
  have within: "samples_within B (map fst xs @ [r])" using snoc.prems by (simp add: x)
  with snoc.IH samples_within_snoc obtain m' where
    m': "cell_fold PWR_ATTR_STAT_AVG (Fin 0, i, m, q) (map (\<lambda>(x, t). (Fin x, t)) xs) = (Fin m', i, m, q)" "near_mean B (map fst xs) m'"
    by blast
  show ?case using m'(1) near_mean_snoc(1) [OF within m'(2)] fp_mean_step [OF within m'(2)]
    by (simp add: x calc_cell_def del: plus_fp.simps divide_fp.simps fp_minus_Fin)
qed (simp add: near_mean_def)

lemma cell_fold_stdev:
  assumes "samples_within B (map fst xs)"
  shows "\<exists>v m q. cell_fold PWR_ATTR_STAT_STDEV (Fin 0, i, Fin 0, Fin 0) (map (\<lambda>(x, t). (Fin x, t)) xs) = (v, i, Fin m, Fin q) \<and>
    near_mean B (map fst xs) m \<and> near_sum B (map fst xs) q \<and> near_stdev_value B (map fst xs) v"
  using assms
proof (induction xs rule: rev_induct)
  case (snoc x xs)
  obtain r t where x: "x = (r, t)" by (cases x)
  have within: "samples_within B (map fst xs @ [r])" using snoc.prems by (simp add: x)
  with snoc.IH samples_within_snoc obtain v m q where
    c: "cell_fold PWR_ATTR_STAT_STDEV (Fin 0, i, Fin 0, Fin 0) (map (\<lambda>(x, t). (Fin x, t)) xs) = (v, i, Fin m, Fin q)"
    and near: "near_mean B (map fst xs) m" "near_sum B (map fst xs) q"
    by blast
  let ?m = "next_mean (Suc (length xs)) m r"
  note mean = near_mean_snoc(1) [OF within near(1)] fp_mean_step [OF within near(1)]
    and sum = near_sum_snoc(1) [OF within near] fp_sum_step [OF within near]
  have "calc_cell PWR_ATTR_STAT_STDEV (Fin (real (length xs) + 1)) (Fin r) t (v, i, Fin m, Fin q) =
      (fp_sqrt (Fin (next_sum q ?m m r) / (Fin (real (length (map fst xs @ [r]))) - Fin 1)), i, Fin ?m, Fin (next_sum q ?m m r))"
    using mean(2) sum(2) by (simp add: calc_cell_def Let_def add.commute del: plus_fp.simps times_fp.simps divide_fp.simps fp_minus_Fin fp_sqrt.simps)
  then show ?case using c mean(1) sum(1) fp_stdev [OF within sum(1)]
    by (simp add: x del: plus_fp.simps times_fp.simps divide_fp.simps fp_minus_Fin fp_sqrt.simps)
qed (simp add: near_mean_def near_sum_def near_stdev_value_def sq_dev_def)

text \<open>
  \<open>extremal lt ini xs vi\<close>: the reading of \<open>vi\<close> is the best among \<open>xs\<close> in the order
  \<open>lt\<close> and \<open>vi\<close> is the first sample that has it; or no reading beats the initial value,
  and nothing was stored.
\<close>

definition extremal :: "(fp \<Rightarrow> fp \<Rightarrow> bool) \<Rightarrow> fp \<times> 'p \<Rightarrow> (fp \<times> 'p) list \<Rightarrow> fp \<times> 'p \<Rightarrow> bool" where
  "extremal lt ini xs vi \<longleftrightarrow>
     (\<forall>x \<in> set xs. \<not> lt (fst x) (fst vi)) \<and>
     (vi = ini \<or> lt (fst vi) (fst ini) \<and> (\<exists>j < length xs. xs ! j = vi \<and> (\<forall>m < j. fst (xs ! m) \<noteq> fst vi)))"

text \<open>A search for an extremum replaces the candidate by every sample that beats it.\<close>

locale extremum_search =
  fixes lt :: "fp \<Rightarrow> fp \<Rightarrow> bool" and step :: "fp \<times> 'p \<Rightarrow> fp \<times> 'p \<Rightarrow> fp \<times> 'p"
  assumes lt_trans: "lt x y \<Longrightarrow> lt y z \<Longrightarrow> lt x z" and lt_irrefl: "\<not> lt x x"
    and step: "step vi p = (if lt (fst p) (fst vi) then p else vi)"
begin

lemma extremal_Nil: "extremal lt ini [] ini"
  by (simp add: extremal_def)

lemma extremal_snoc:
  assumes "extremal lt ini xs vi"
  shows "extremal lt ini (xs @ [x]) (step vi x)"
proof (cases "lt (fst x) (fst vi)")
  case True
  have best: "\<not> lt (fst y) (fst x)" if "y \<in> set xs" for y
    using assms that True lt_trans [of "fst y" "fst x" "fst vi"] by (auto simp: extremal_def)
  have first: "fst (xs ! m) \<noteq> fst x" if "m < length xs" for m
    using assms that True nth_mem [of m xs] by (metis extremal_def)
  have "lt (fst x) (fst ini)" using assms True lt_trans by (auto simp: extremal_def)
  with True best first show ?thesis
    by (auto simp: extremal_def step lt_irrefl nth_append intro!: exI [of _ "length xs"])
next
  case False
  moreover have "(xs @ [x]) ! j = vi \<and> (\<forall>m < j. fst ((xs @ [x]) ! m) \<noteq> fst vi)"
    if "j < length xs" "xs ! j = vi" "\<forall>m < j. fst (xs ! m) \<noteq> fst vi" for j
    using that by (auto simp: nth_append)
  ultimately show ?thesis using assms unfolding extremal_def step
    by (auto 4 4 simp: less_Suc_eq)
qed

lemma extremal_foldl: "extremal lt ini xs (foldl step ini xs)"
  by (induction xs rule: rev_induct) (simp_all add: extremal_Nil extremal_snoc)

end

text \<open>The first two components of a cell form such a search, for the minimum and the maximum.\<close>

definition cell_search :: "int \<Rightarrow> fp \<times> PWR_Time \<Rightarrow> fp \<times> PWR_Time \<Rightarrow> fp \<times> PWR_Time" where
  "cell_search k vi x =
     (case calc_cell k (Fin 1) (fst x) (snd x) (fst vi, snd vi, Fin 0, Fin 0) of (v, i, _, _) \<Rightarrow> (v, i))"

lemma fp_less_irrefl [simp]: "\<not> x < x" for x :: fp
  by (cases x) simp_all

interpretation least: extremum_search "(<)" "cell_search PWR_ATTR_STAT_MIN"
  by unfold_locales (auto simp: cell_search_def calc_cell_def intro: fp_less_trans)

interpretation greatest: extremum_search "(>)" "cell_search PWR_ATTR_STAT_MAX"
  by unfold_locales (auto simp: cell_search_def calc_cell_def intro: fp_less_trans)

lemma cell_fold_search:
  assumes "k = PWR_ATTR_STAT_MIN \<or> k = PWR_ATTR_STAT_MAX"
  shows "cell_fold k (v, i, m, q) xs = (case foldl (cell_search k) (v, i) xs of (v, i) \<Rightarrow> (v, i, m, q))"
proof (induction xs rule: rev_induct)
  case (snoc x xs)
  with assms show ?case by (cases x) (auto simp: cell_search_def calc_cell_def split: prod.splits)
qed simp

text \<open>
  What a statistic of kind \<open>k\<close> shows for one index, after the samples \<open>xs\<close>. An average or a standard
  deviation is compared with the exact one when the samples are finite, at most \<open>B\<close> in magnitude.
\<close>

definition shows_statistic :: "int \<Rightarrow> PWR_Time \<Rightarrow> (fp \<times> PWR_Time) list \<Rightarrow> fp \<times> PWR_Time \<Rightarrow> bool" where
  "shows_statistic k i0 xs vi \<longleftrightarrow>
     (k = PWR_ATTR_STAT_MIN \<longrightarrow> extremal (<) (PInf, i0) xs vi) \<and>
     (k = PWR_ATTR_STAT_MAX \<longrightarrow> extremal (>) (MInf, i0) xs vi) \<and>
     (\<forall>rs B. map fst xs = map Fin rs \<and> 1 \<le> B \<and> B \<le> 2 ^ 400 \<and> (\<forall>r \<in> set rs. \<bar>r\<bar> \<le> B) \<longrightarrow>
        (k = PWR_ATTR_STAT_AVG \<longrightarrow> (\<exists>m. vi = (Fin m, i0) \<and> near_mean B rs m)) \<and>
        (k = PWR_ATTR_STAT_STDEV \<longrightarrow> (\<exists>v. vi = (v, i0) \<and> near_stdev_value B rs v)))"

lemma finite_samples:
  assumes "map fst xs = map Fin rs"
  obtains ys where "xs = map (\<lambda>(x, t). (Fin x, t)) ys" "map fst ys = rs"
proof
  have "length xs = length rs" using assms by (metis length_map)
  then show "map fst (zip rs (map snd xs)) = rs" by simp
  from assms \<open>length xs = length rs\<close> show "xs = map (\<lambda>(x, t). (Fin x, t)) (zip rs (map snd xs))"
    by (intro nth_equalityI) (auto simp: prod_eq_iff list_eq_iff_nth_eq)
qed

text \<open>Samples are doubles in memory.\<close>

definition in_memory :: "fp \<Rightarrow> bool" where
  "in_memory v \<longleftrightarrow> (\<exists>b. v = double_of_bits b)"

lemma samples_in_memory:
  assumes "map fst xs = map Fin rs" "\<forall>x \<in> set xs. in_memory (fst x)" "length xs \<le> 2 ^ 48"
    and "1 \<le> B" "B \<le> 2 ^ 400" "\<forall>r \<in> set rs. \<bar>r\<bar> \<le> B"
  shows "samples_within B rs"
proof -
  have "dbl r" if "r \<in> set rs" for r
  proof -
    from that have "Fin r \<in> set (map fst xs)" unfolding assms(1) by simp
    then obtain b where "double_of_bits b = Fin r" using assms(2) unfolding in_memory_def by (metis image_iff set_map)
    then show ?thesis by (rule double_of_bits_dbl)
  qed
  moreover have "length rs = length xs" using assms(1) by (metis length_map)
  ultimately show ?thesis using assms(3-6) by (simp add: samples_within_def)
qed

lemma cell_fold_shows:
  assumes "cell_fold k (initial_value k, i0, Fin 0, Fin 0) xs = (v, i, m, q)"
    and "\<forall>x \<in> set xs. in_memory (fst x)" "length xs \<le> 2 ^ 48"
  shows "shows_statistic k i0 xs (v, i)"
  unfolding shows_statistic_def
proof (intro conjI impI allI)
  assume k: "k = PWR_ATTR_STAT_MIN"
  from assms show "extremal (<) (PInf, i0) xs (v, i)"
    using least.extremal_foldl [of "(PInf, i0)" xs] unfolding k
    by (auto simp: cell_fold_search initial_value_def split: prod.splits)
next
  assume k: "k = PWR_ATTR_STAT_MAX"
  from assms show "extremal (>) (MInf, i0) xs (v, i)"
    using greatest.extremal_foldl [of "(MInf, i0)" xs] unfolding k
    by (auto simp: cell_fold_search initial_value_def split: prod.splits)
next
  fix rs B assume k: "k = PWR_ATTR_STAT_AVG"
    and s: "map fst xs = map Fin rs \<and> 1 \<le> B \<and> B \<le> 2 ^ 400 \<and> (\<forall>r \<in> set rs. \<bar>r\<bar> \<le> B)"
  then have within: "samples_within B rs" using assms(2,3) by (intro samples_in_memory) simp_all
  from s obtain ys where ys: "xs = map (\<lambda>(x, t). (Fin x, t)) ys" "map fst ys = rs" by (blast elim: finite_samples)
  with cell_fold_avg [of B ys i0 "Fin 0" "Fin 0"] within assms(1) k
  show "\<exists>m. (v, i) = (Fin m, i0) \<and> near_mean B rs m" by (auto simp: initial_value_def)
next
  fix rs B assume k: "k = PWR_ATTR_STAT_STDEV"
    and s: "map fst xs = map Fin rs \<and> 1 \<le> B \<and> B \<le> 2 ^ 400 \<and> (\<forall>r \<in> set rs. \<bar>r\<bar> \<le> B)"
  then have within: "samples_within B rs" using assms(2,3) by (intro samples_in_memory) simp_all
  from s obtain ys where ys: "xs = map (\<lambda>(x, t). (Fin x, t)) ys" "map fst ys = rs" by (blast elim: finite_samples)
  with cell_fold_stdev [of B ys i0] within assms(1) k
  show "\<exists>v'. (v, i) = (v', i0) \<and> near_stdev_value B rs v'" by (auto simp: initial_value_def)
qed

subsection \<open>Runs of the thread\<close>

text \<open>
  \<open>n\<close> rounds of the loop. The first result is what the reads of the rounds gave: the return value
  of the call that reads the attribute through the plugin, and what it stored.
\<close>

type_synonym reading = "int \<times> stored list"

fun thread_run :: "'w plugin \<Rightarrow> addr \<Rightarrow> nat \<Rightarrow> calc_t \<Rightarrow> lib \<Rightarrow> 'w \<Rightarrow> (reading list \<times> calc_t \<times> lib \<times> 'w) option" where
  "thread_run P a 0 th s w = Some ([], th, s, w)"
| "thread_run P a (Suc n) th s w =
     do {
       (rs, th, s, w) \<leftarrow> thread_run P a n th s w;
       st \<leftarrow> stats s a;
       (retval, out, _, _) \<leftarrow> stat_sample P st s w;
       (th, s, w) \<leftarrow> calculate_stat_round P a th s w;
       Some (rs @ [(retval, out)], th, s, w)
     }"

text \<open>
  The samples at one index: the value and the time stamp of every read that succeeded. Where a
  read stored nothing, the variables still have what an earlier read stored there, at first zero.
\<close>

definition store_at :: "nat \<Rightarrow> 64 word \<times> PWR_Time \<Rightarrow> stored list \<Rightarrow> 64 word \<times> PWR_Time" where
  "store_at i c out =
     (if i < length out
      then (case fst (out ! i) of None \<Rightarrow> fst c | Some v \<Rightarrow> v, case snd (out ! i) of None \<Rightarrow> snd c | Some t \<Rightarrow> t)
      else c)"

definition left_at :: "nat \<Rightarrow> reading list \<Rightarrow> 64 word \<times> PWR_Time" where
  "left_at i rs = foldl (\<lambda>c r. store_at i c (snd r)) (0, 0) rs"

definition sample_of :: "64 word \<times> PWR_Time \<Rightarrow> fp \<times> PWR_Time" where
  "sample_of c = (double_of_bits (fst c), snd c)"

definition column :: "nat \<Rightarrow> reading list \<Rightarrow> (fp \<times> PWR_Time) list" where
  "column i rs =
     map (\<lambda>j. sample_of (left_at i (take (Suc j) rs))) (filter (\<lambda>j. fst (rs ! j) = PWR_RET_SUCCESS) [0..<length rs])"

definition accepted :: "reading list \<Rightarrow> nat" where
  "accepted rs = length (filter (\<lambda>r. fst r = PWR_RET_SUCCESS) rs)"

lemma column_Nil [simp]: "column i [] = []" and accepted_Nil [simp]: "accepted [] = 0" and left_at_Nil [simp]: "left_at i [] = (0, 0)"
  by (simp_all add: column_def accepted_def left_at_def)

lemma left_at_snoc [simp]: "left_at i (rs @ [(r, out)]) = store_at i (left_at i rs) out"
  by (simp add: left_at_def)

lemma accepted_snoc [simp]: "accepted (rs @ [(r, out)]) = (if r = PWR_RET_SUCCESS then Suc (accepted rs) else accepted rs)"
  by (simp add: accepted_def)

lemma accepted_le: "accepted rs \<le> length rs"
  by (simp add: accepted_def)

lemma column_snoc [simp]:
  "column i (rs @ [(r, out)]) = (if r = PWR_RET_SUCCESS then column i rs @ [sample_of (store_at i (left_at i rs) out)] else column i rs)"
proof -
  have "map (\<lambda>j. sample_of (left_at i (take (Suc j) (rs @ [(r, out)])))) (filter (\<lambda>j. fst ((rs @ [(r, out)]) ! j) = PWR_RET_SUCCESS) [0..<length rs]) =
      column i rs"
  proof -
    have "filter (\<lambda>j. fst ((rs @ [(r, out)]) ! j) = PWR_RET_SUCCESS) [0..<length rs] = filter (\<lambda>j. fst (rs ! j) = PWR_RET_SUCCESS) [0..<length rs]"
      by (rule filter_cong) (simp_all add: nth_append)
    then show ?thesis unfolding column_def by (simp cong: map_cong)
  qed
  then show ?thesis by (simp add: column_def [of i "rs @ [(r, out)]"])
qed

lemma length_column: "length (column i rs) = accepted rs"
  by (induction rs rule: rev_induct) auto

lemma column_in_memory: "x \<in> set (column i rs) \<Longrightarrow> in_memory (fst x)"
  by (auto simp: column_def sample_of_def in_memory_def)

text \<open>When every successful read stores a value and a time stamp at the index, the samples are those.\<close>

lemma column_stored:
  assumes "\<forall>(r, out) \<in> set rs. r = PWR_RET_SUCCESS \<longrightarrow> (\<exists>v t. i < length out \<and> out ! i = (Some v, Some t))"
  shows "column i rs = map (\<lambda>(r, out). sample_of (the (fst (out ! i)), the (snd (out ! i)))) (filter (\<lambda>r. fst r = PWR_RET_SUCCESS) rs)"
  using assms
proof (induction rs rule: rev_induct)
  case (snoc x rs)
  obtain r out where x: "x = (r, out)" by (cases x)
  from snoc.prems have "r = PWR_RET_SUCCESS \<Longrightarrow> store_at i c out = (the (fst (out ! i)), the (snd (out ! i)))" for c
    by (auto simp: x store_at_def)
  with snoc show ?case by (simp add: x)
qed simp

text \<open>
  The target of the statistic can be read: whatever the statistics contain, the read ends,
  changes nothing in the library and stores at most one value per monitored object.
\<close>

definition can_sample :: "'w plugin \<Rightarrow> stat_t \<Rightarrow> lib \<Rightarrow> bool" where
  "can_sample P st s \<longleftrightarrow>
     (\<forall>m w. \<exists>r out w'. stat_sample P st (s\<lparr>stats := m\<rparr>) w = Some (r, out, s\<lparr>stats := m\<rparr>, w') \<and>
        length out \<le> stat_objcount st)"

definition reads_succeed :: "'w plugin \<Rightarrow> stat_t \<Rightarrow> lib \<Rightarrow> bool" where
  "reads_succeed P st s \<longleftrightarrow> (\<forall>m w. fst (the (stat_sample P st (s\<lparr>stats := m\<rparr>) w)) = PWR_RET_SUCCESS)"

definition read_of :: "'w plugin \<Rightarrow> stat_t \<Rightarrow> lib \<Rightarrow> reading \<Rightarrow> bool" where
  "read_of P st s r \<longleftrightarrow> (\<exists>m w w'. stat_sample P st (s\<lparr>stats := m\<rparr>) w = Some (fst r, snd r, s\<lparr>stats := m\<rparr>, w'))"

lemma read_of_success: "reads_succeed P st s \<Longrightarrow> read_of P st s r \<Longrightarrow> fst r = PWR_RET_SUCCESS"
  unfolding reads_succeed_def read_of_def by (metis fst_conv option.sel)

definition thread_inv :: "addr \<Rightarrow> stat_t \<Rightarrow> lib \<Rightarrow> reading list \<Rightarrow> calc_t \<Rightarrow> lib \<Rightarrow> bool" where
  "thread_inv a st0 s0 rs th s \<longleftrightarrow>
     (\<exists>vs is. let st = st0\<lparr>stat_values := vs, stat_instants := is\<rparr> in
        s = s0\<lparr>stats := (stats s0)(a \<mapsto> st)\<rparr> \<and> cells_fit st th \<and> avgcnt th = Fin (real (accepted rs)) \<and>
        (\<forall>i < stat_objcount st0. (reading th ! i, readtime th ! i) = left_at i rs \<and>
           (vs ! i, is ! i, roll_mean th ! i, roll_sum th ! i) =
           cell_fold (stat_stat st0) (initial_value (stat_stat st0), stat_instants st0 ! i, Fin 0, Fin 0) (column i rs)))"

lemma thread_invE:
  assumes "thread_inv a st0 s0 rs th s"
  obtains vs "is" where "s = s0\<lparr>stats := (stats s0)(a \<mapsto> st0\<lparr>stat_values := vs, stat_instants := is\<rparr>)\<rparr>"
    "cells_fit (st0\<lparr>stat_values := vs, stat_instants := is\<rparr>) th" "avgcnt th = Fin (real (accepted rs))"
    "\<forall>i < stat_objcount st0. (reading th ! i, readtime th ! i) = left_at i rs"
    "\<forall>i < stat_objcount st0. (vs ! i, is ! i, roll_mean th ! i, roll_sum th ! i) =
       cell_fold (stat_stat st0) (initial_value (stat_stat st0), stat_instants st0 ! i, Fin 0, Fin 0) (column i rs)"
  using assms unfolding thread_inv_def Let_def by blast

lemma overlay_at:
  assumes "length out \<le> length buf" "length tbuf = length buf"
  obtains b t where "overlay buf (map fst out) = Some b" "overlay tbuf (map snd out) = Some t" "length b = length buf" "length t = length buf"
    "\<And>i. i < length buf \<Longrightarrow> (b ! i, t ! i) = store_at i (buf ! i, tbuf ! i) out"
proof -
  from assms show ?thesis
    by (intro that [of "the (overlay buf (map fst out))" "the (overlay tbuf (map snd out))"]) (use order_less_le_trans in \<open>auto simp: overlay_def store_at_def split: option.splits\<close>)
qed

lemma stat_sample_cong:
  "stat_obj st' = stat_obj st \<Longrightarrow> stat_grp st' = stat_grp st \<Longrightarrow> stat_attr st' = stat_attr st \<Longrightarrow>
    stat_sample P st' s w = stat_sample P st s w"
  by (simp add: stat_sample_def)

lemma round_inv:
  assumes can: "can_sample P st0 s0" and inv: "thread_inv a st0 s0 rs th s" and few: "accepted rs < 2 ^ 52"
  shows "\<exists>st r out w1 th' s' w'. stats s a = Some st \<and> stat_sample P st s w = Some (r, out, s, w1) \<and>
    calculate_stat_round P a th s w = Some (th', s', w') \<and> read_of P st0 s0 (r, out) \<and> thread_inv a st0 s0 (rs @ [(r, out)]) th' s'"
proof -
  from inv obtain vs "is" where s: "s = s0\<lparr>stats := (stats s0)(a \<mapsto> st0\<lparr>stat_values := vs, stat_instants := is\<rparr>)\<rparr>"
    and fit: "cells_fit (st0\<lparr>stat_values := vs, stat_instants := is\<rparr>) th"
    and cnt: "avgcnt th = Fin (real (accepted rs))"
    and bufs: "\<forall>i < stat_objcount st0. (reading th ! i, readtime th ! i) = left_at i rs"
    and cells: "\<forall>i < stat_objcount st0. (vs ! i, is ! i, roll_mean th ! i, roll_sum th ! i) =
       cell_fold (stat_stat st0) (initial_value (stat_stat st0), stat_instants st0 ! i, Fin 0, Fin 0) (column i rs)"
    by (rule thread_invE)
  let ?st = "st0\<lparr>stat_values := vs, stat_instants := is\<rparr>"
  from can obtain r out w' where smp: "stat_sample P ?st s w = Some (r, out, s, w')" and len: "length out \<le> stat_objcount st0"
    unfolding can_sample_def s stat_sample_cong [of ?st st0, simplified] by blast
  have n: "length (reading th) = stat_objcount st0" "length (readtime th) = stat_objcount st0" using fit by (simp_all add: cells_fit_def Let_def)
  from overlay_at [of out "reading th" "readtime th"] len n obtain b t where
    buf: "overlay (reading th) (map fst out) = Some b" "overlay (readtime th) (map snd out) = Some t"
    and lens: "length b = stat_objcount st0" "length t = stat_objcount st0"
    and at: "\<And>i. i < stat_objcount st0 \<Longrightarrow> (b ! i, t ! i) = store_at i (left_at i rs) out" using bufs by metis
  have look: "stats s a = Some ?st" by (simp add: s)
  have rd: "read_of P st0 s0 (r, out)"
    using smp unfolding read_of_def s stat_sample_cong [of ?st st0, simplified] fst_conv snd_conv by blast
  let ?th = "th\<lparr>reading := b, readtime := t\<rparr>"
  show ?thesis
  proof (cases "r = PWR_RET_SUCCESS")
    case False
    then have "calculate_stat_round P a th s w = Some (?th, s, w')"
      by (simp add: calculate_stat_round_def look smp buf)
    moreover have "thread_inv a st0 s0 (rs @ [(r, out)]) ?th s"
      using s fit cnt cells lens at False unfolding thread_inv_def by (auto simp: cells_fit_def Let_def)
    ultimately show ?thesis using look smp rd by blast
  next
    case True
    let ?th1 = "?th\<lparr>avgcnt := avgcnt th + Fin 1\<rparr>"
    let ?cs = "update_cells ?st ?th1"
    let ?vs = "map (\<lambda>(v, t, m, q). v) ?cs" and ?is = "map (\<lambda>(v, t, m, q). t) ?cs"
    let ?th2 = "?th1\<lparr>roll_mean := map (\<lambda>(v, t, m, q). m) ?cs, roll_sum := map (\<lambda>(v, t, m, q). q) ?cs\<rparr>"
    have round: "calculate_stat_round P a th s w =
        Some (?th2, s0\<lparr>stats := (stats s0)(a \<mapsto> st0\<lparr>stat_values := ?vs, stat_instants := ?is\<rparr>)\<rparr>, w')"
      using True fit lens by (simp add: calculate_stat_round_def look smp buf cells_fit_def Let_def) (simp add: s)
    have count: "avgcnt th + Fin 1 = Fin (real (accepted rs) + 1)" using cnt fp_count [OF few] by simp
    have "(?vs ! i, ?is ! i, roll_mean ?th2 ! i, roll_sum ?th2 ! i) =
        cell_fold (stat_stat st0) (initial_value (stat_stat st0), stat_instants st0 ! i, Fin 0, Fin 0) (column i (rs @ [(r, out)]))"
      if "i < stat_objcount st0" for i
    proof -
      have "sample_of (store_at i (left_at i rs) out) = (double_of_bits (b ! i), t ! i)"
        using at [OF that] by (simp add: sample_of_def flip: at [OF that])
      then show ?thesis using cells that True by (simp add: update_cells_def count length_column split: prod.splits)
    qed
    moreover have "length ?cs = stat_objcount st0" by (simp add: update_cells_def)
    ultimately have "thread_inv a st0 s0 (rs @ [(r, out)]) ?th2 (s0\<lparr>stats := (stats s0)(a \<mapsto> st0\<lparr>stat_values := ?vs, stat_instants := ?is\<rparr>)\<rparr>)"
      using fit lens count True at unfolding thread_inv_def Let_def
      by (intro exI [of _ ?vs] exI [of _ ?is]) (auto simp: cells_fit_def Let_def add.commute)
    with round look smp rd show ?thesis by blast
  qed
qed

lemma thread_run_inv:
  assumes "can_sample P st0 s0" "thread_inv a st0 s0 [] th s" "n \<le> 2 ^ 48"
  shows "\<exists>rs th' s' w'. thread_run P a n th s w = Some (rs, th', s', w') \<and> thread_inv a st0 s0 rs th' s' \<and>
    length rs = n \<and> (\<forall>r \<in> set rs. read_of P st0 s0 r)"
  using assms(3)
proof (induction n)
  case (Suc n)
  then obtain rs th' s' w' where run: "thread_run P a n th s w = Some (rs, th', s', w')" "thread_inv a st0 s0 rs th' s'"
    "length rs = n" "\<forall>r \<in> set rs. read_of P st0 s0 r"
    by auto
  have "accepted rs < 2 ^ 52" using accepted_le [of rs] run(3) Suc.prems by simp
  from round_inv [OF assms(1) run(2) this, of w'] obtain st r out w1 th1 s1 w2 where
    step: "stats s' a = Some st" "stat_sample P st s' w' = Some (r, out, s', w1)" "calculate_stat_round P a th' s' w' = Some (th1, s1, w2)"
      "read_of P st0 s0 (r, out)" "thread_inv a st0 s0 (rs @ [(r, out)]) th1 s1" by blast
  have "thread_run P a (Suc n) th s w = Some (rs @ [(r, out)], th1, s1, w2)" using run(1) step(1-3) by simp
  with run(3,4) step(4,5) show ?case by auto
qed (use assms(2) in simp)

lemma init_inv:
  assumes "stats s a = Some st" "supported_stat (stat_stat st)"
    and "length (stat_values st) = stat_objcount st" "length (stat_instants st) = stat_objcount st"
  shows "\<exists>th s'. calculate_stat_init a s = Some (Some th, s') \<and> thread_inv a st s [] th s'"
proof -
  let ?vs = "replicate (stat_objcount st) (initial_value (stat_stat st))"
  have "st\<lparr>stat_values := ?vs\<rparr> = st\<lparr>stat_values := ?vs, stat_instants := stat_instants st\<rparr>" by simp
  then show ?thesis using assms
    by (auto simp: calculate_stat_init_def thread_inv_def cells_fit_def Let_def
        intro!: exI [of _ ?vs] exI [of _ "stat_instants st"])
qed

text \<open>
  C6. The sampling thread computes its statistic: for every kind that can be created, and
  after any number of rounds up to \<open>2 ^ 48\<close>, every index shows the statistic of the values that the
  plugin gave for that index in the reads that succeeded. There is one read for each round, a call that reads
  the attribute of the object or group (\<open>read_of\<close>). A minimum
  or maximum is exact whatever the readings are (NaN readings are passed over, infinities count) and comes
  with the time stamp of the first sample that reached it. For finite readings of a magnitude up to \<open>B\<close>,
  where \<open>1 \<le> B \<le> 2 ^ 400\<close>, an average lies between the least and the greatest of the \<open>k\<close> readings and differs
  from their arithmetic mean by at most \<open>k * B / 2 ^ 49\<close>, and the square of a standard deviation differs from the
  sample variance by at most \<open>k * B\<^sup>2 / 2 ^ 44\<close>; it is NaN after a single sample.
\<close>

theorem thread_computes_statistic:
  assumes "stats s a = Some st" "supported_stat (stat_stat st)"
    and "length (stat_values st) = stat_objcount st" "length (stat_instants st) = stat_objcount st"
    and "can_sample P st s" "n \<le> 2 ^ 48"
  shows "\<exists>th0 s0 rs th' s' w' st'.
    calculate_stat_init a s = Some (Some th0, s0) \<and> thread_run P a n th0 s0 w = Some (rs, th', s', w') \<and>
    stats s' a = Some st' \<and> length rs = n \<and> (\<forall>r \<in> set rs. read_of P st s r) \<and>
    (reads_succeed P st s \<longrightarrow> (\<forall>r \<in> set rs. fst r = PWR_RET_SUCCESS)) \<and>
    (\<forall>i < stat_objcount st. shows_statistic (stat_stat st) (stat_instants st ! i) (column i rs)
       (stat_values st' ! i, stat_instants st' ! i))"
proof -
  from init_inv [OF assms(1-4)] obtain th0 s0 where i: "calculate_stat_init a s = Some (Some th0, s0)" "thread_inv a st s [] th0 s0"
    by blast
  from thread_run_inv [OF assms(5) this(2) assms(6)] obtain rs th' s' w' where
    run: "thread_run P a n th0 s0 w = Some (rs, th', s', w')" "thread_inv a st s rs th' s'"
      "length rs = n" "\<forall>r \<in> set rs. read_of P st s r" by blast
  from run(2) obtain vs "is" where st: "stats s' a = Some (st\<lparr>stat_values := vs, stat_instants := is\<rparr>)"
    "\<forall>i < stat_objcount st. (vs ! i, is ! i, roll_mean th' ! i, roll_sum th' ! i) =
       cell_fold (stat_stat st) (initial_value (stat_stat st), stat_instants st ! i, Fin 0, Fin 0) (column i rs)"
    by (auto elim: thread_invE)
  have "length (column i rs) \<le> 2 ^ 48" for i using accepted_le [of rs] run(3) assms(6) by (simp add: length_column)
  then have "shows_statistic (stat_stat st) (stat_instants st ! i) (column i rs) (vs ! i, is ! i)"
    if "i < stat_objcount st" for i
    using st(2) that column_in_memory
    by (intro cell_fold_shows [of _ _ _ _ _ "roll_mean th' ! i" "roll_sum th' ! i"]) auto
  then show ?thesis using i(1) run(1,3,4) st(1) read_of_success by fastforce
qed

text \<open>A single object can be sampled if it exists and the plugin sets time stamps with its values.\<close>

lemma lookup_object_stats [simp]: "lookup_object (s\<lparr>stats := m\<rparr>) = lookup_object s"
proof -
  have "refs (s\<lparr>stats := m\<rparr>) = refs s" "opaque_map (s\<lparr>stats := m\<rparr>) = opaque_map s" by simp_all
  then show ?thesis unfolding lookup_object_def [abs_def] opaque_map_lookup_type_def opaque_map_lookup_def by presburger
qed

lemma can_sample_object:
  assumes "stat_obj st \<noteq> 0" "0 < stat_objcount st"
    and "lookup_object s (OPAQUE_GET_DATA_KEY (stat_obj st)) = Some (Some oa)" "objs s oa = Some ob"
    and ts: "\<And>w r v t w'. obj_attr_get_value P oa ob (stat_attr st) w = (r, v, t, w') \<Longrightarrow> r = PWR_RET_SUCCESS \<Longrightarrow> t \<noteq> None"
  shows "can_sample P st s"
proof -
  have "\<exists>r v t w'. PWR_ObjAttrGetValue P (stat_obj st) (stat_attr st) True s w = Some (r, v, t, w')" for w
    using assms(3,4) ts [of w] by (auto simp: PWR_ObjAttrGetValue_def split: prod.splits)
  then show ?thesis using assms(1,2)
    unfolding can_sample_def stat_sample_def PWR_ObjAttrGetValue_def by fastforce
qed

text \<open>A statistic of the power of the example's node.\<close>

definition example_stat :: "int \<Rightarrow> stat_t" where
  "example_stat k = zero_stat\<lparr>stat_obj := example_node, stat_attr := PWR_ATTR_POWER, stat_stat := k, stat_objcount := 1,
     stat_values := [Fin 0], stat_instants := [0]\<rparr>"

definition example_stat_lib :: "int \<Rightarrow> lib" where
  "example_stat_lib k = example_lib\<lparr>stats := [9 \<mapsto> example_stat k]\<rparr>"

lemma example_read:
  "stat_sample example_plugin (example_stat k) (example_stat_lib j\<lparr>stats := m\<rparr>) w =
    Some (PWR_RET_SUCCESS, [(Some 100, Some 1000000005)], example_stat_lib j\<lparr>stats := m\<rparr>, w)"
proof -
  have "OPAQUE_GET_DATA_KEY example_node = 2" "example_node \<noteq> 0" "lookup_object example_lib 2 = Some (Some 2)"
    "pwr_tspec_to_nsec \<lparr>tv_sec = 1, tv_nsec = 5\<rparr> = 1000000005" by code_simp+
  moreover have "objs (example_stat_lib j\<lparr>stats := m\<rparr>) 2 = Some example_node_obj"
    by (simp add: example_stat_lib_def example_lib_def example_node_obj_def)
  ultimately show ?thesis
    by (simp add: stat_sample_def PWR_ObjAttrGetValue_def example_stat_def example_stat_lib_def obj_attr_get_value_def
        node_attr_get_value_def example_plugin_def example_node_obj_def)
qed

text \<open>Three reads of the power: the average is exactly the value that is read each time.\<close>

theorem thread_computes_statistic_witness:
  "\<exists>th0 s0 rs th' s' w' st'.
    calculate_stat_init 9 (example_stat_lib PWR_ATTR_STAT_AVG) = Some (Some th0, s0) \<and>
    thread_run example_plugin 9 3 th0 s0 [] = Some (rs, th', s', w') \<and>
    rs = replicate 3 (PWR_RET_SUCCESS, [(Some 100, Some 1000000005)]) \<and>
    stats s' 9 = Some st' \<and> stat_values st' ! 0 = double_of_bits 100"
proof -
  let ?st = "example_stat PWR_ATTR_STAT_AVG" and ?s = "example_stat_lib PWR_ATTR_STAT_AVG"
    and ?r = "(PWR_RET_SUCCESS, [(Some 100, Some 1000000005)]) :: reading"
  have st: "stats ?s 9 = Some ?st" "supported_stat (stat_stat ?st)" "length (stat_values ?st) = stat_objcount ?st"
    "length (stat_instants ?st) = stat_objcount ?st" "stat_stat ?st = PWR_ATTR_STAT_AVG" "stat_objcount ?st = 1"
    by (simp_all add: example_stat_lib_def example_stat_def supported_stat_def)
  have "can_sample example_plugin ?st ?s"
    by (simp add: can_sample_def example_read) (simp add: example_stat_def)
  from thread_computes_statistic [OF st(1-4) this, of 3 "[]"] obtain th0 s0 rs th' s' w' st' where
    run: "calculate_stat_init 9 ?s = Some (Some th0, s0)" "thread_run example_plugin 9 3 th0 s0 [] = Some (rs, th', s', w')"
      "stats s' 9 = Some st'" "length rs = 3" "\<forall>r \<in> set rs. read_of example_plugin ?st ?s r"
    and stat: "shows_statistic PWR_ATTR_STAT_AVG (stat_instants ?st ! 0) (column 0 rs) (stat_values st' ! 0, stat_instants st' ! 0)"
    unfolding st(5,6) by auto
  have "r = ?r" if "read_of example_plugin ?st ?s r" for r
    using that unfolding read_of_def example_read by (cases r) simp
  with run(4,5) have rs: "rs = replicate 3 ?r" by (intro replicate_eqI) auto
  obtain x where x: "double_of_bits 100 = Fin x" "0 \<le> x" "x \<le> 1"
  proof
    show "double_of_bits 100 = Fin (100 * 2 / 2 ^ 1075)" by (simp add: double_of_bits_def take_bit_eq_mod drop_bit_eq_div bit_iff_odd)
  qed simp_all
  have "column 0 rs = map sample_of (replicate 3 (100, 1000000005))"
    unfolding rs by (subst column_stored) auto
  then have "map fst (column 0 rs) = map Fin [x, x, x]" by (simp add: sample_of_def x(1) numeral_3_eq_3)
  moreover have "1 \<le> (1 :: real) \<and> 1 \<le> (2 :: real) ^ 400 \<and> (\<forall>r \<in> set [x, x, x]. \<bar>r\<bar> \<le> 1)" using x(2,3) by simp
  ultimately obtain m where m: "stat_values st' ! 0 = Fin m" "near_mean 1 [x, x, x] m"
    using stat unfolding shows_statistic_def by blast
  then have "m = x" by (simp add: near_mean_def)
  with m(1) x(1) run(1-3) rs show ?thesis by auto
qed

subsection \<open>Reductions\<close>

text \<open>The reduction of the first \<open>n\<close> values, and its first two variables as a search for an extremum.\<close>

definition reduce_fold :: "int \<Rightarrow> stat_t \<Rightarrow> nat \<Rightarrow> reduce_t" where
  "reduce_fold k st n =
     fold (\<lambda>i. reduce_step k i (stat_values st ! i) (stat_instants st ! i)) [0..<n] (reduce_init k)"

lemma reduce_fold_0 [simp]: "reduce_fold k st 0 = reduce_init k"
  by (simp add: reduce_fold_def)

lemma reduce_fold_Suc [simp]:
  "reduce_fold k st (Suc n) = reduce_step k n (stat_values st ! n) (stat_instants st ! n) (reduce_fold k st n)"
  by (simp add: reduce_fold_def)

lemma reduce_loop_fold: "reduce_loop k st = reduce_fold k st (stat_objcount st)"
  by (simp add: reduce_loop_def reduce_fold_def)

type_synonym place = "(nat \<times> PWR_Time) option"

definition reduce_search :: "int \<Rightarrow> fp \<times> place \<Rightarrow> fp \<times> place \<Rightarrow> fp \<times> place" where
  "reduce_search k vi x =
     (if (if k = PWR_ATTR_STAT_MIN then fst x < fst vi else fst vi < fst x) then x else vi)"

lemma reduce_step_search:
  assumes "k = PWR_ATTR_STAT_MIN \<or> k = PWR_ATTR_STAT_MAX"
  shows "(red_result (reduce_step k i v t r), red_at (reduce_step k i v t r)) =
      reduce_search k (red_result r, red_at r) (v, Some (i, t))"
    "red_avgcnt (reduce_step k i v t r) = red_avgcnt r" "red_sum (reduce_step k i v t r) = red_sum r"
  using assms by (auto simp: reduce_step_def reduce_search_def)

interpretation least_value: extremum_search "(<)" "reduce_search PWR_ATTR_STAT_MIN"
  by unfold_locales (auto simp: reduce_search_def intro: fp_less_trans)

interpretation greatest_value: extremum_search "(>)" "reduce_search PWR_ATTR_STAT_MAX"
  by unfold_locales (auto simp: reduce_search_def intro: fp_less_trans)

text \<open>The values that a reduction combines, each with its index and instant.\<close>

definition placed :: "stat_t \<Rightarrow> nat \<Rightarrow> (fp \<times> place) list" where
  "placed st n = map (\<lambda>i. (stat_values st ! i, Some (i, stat_instants st ! i))) [0..<n]"

lemma placed_Suc: "placed st (Suc n) = placed st n @ [(stat_values st ! n, Some (n, stat_instants st ! n))]"
  by (simp add: placed_def)

lemma reduce_fold_search:
  assumes "k = PWR_ATTR_STAT_MIN \<or> k = PWR_ATTR_STAT_MAX"
  shows "(red_result (reduce_fold k st n), red_at (reduce_fold k st n)) =
      foldl (reduce_search k) (initial_value k, None) (placed st n) \<and>
    red_avgcnt (reduce_fold k st n) = Fin 0 \<and> red_sum (reduce_fold k st n) = Fin 0"
proof (induction n)
  case (Suc n)
  then show ?case using reduce_step_search [OF assms] by (simp add: placed_Suc)
qed (simp add: reduce_init_def placed_def)

lemma placed_prefix:
  assumes "\<forall>i < Suc n. stat_values st ! i = Fin (rs ! i)" "Suc n \<le> length rs" "samples_within B rs"
  shows "stat_values st ! n = Fin (rs ! n)" "take (Suc n) rs = take n rs @ [rs ! n]" "samples_within B (take n rs @ [rs ! n])"
    "length (take n rs) = n"
proof -
  show t: "take (Suc n) rs = take n rs @ [rs ! n]" using assms(2) by (simp add: take_Suc_conv_app_nth)
  have "samples_within B (take (Suc n) rs)" using assms(3) set_take_subset [of "Suc n" rs] by (auto simp: samples_within_def)
  then show "samples_within B (take n rs @ [rs ! n])" unfolding t .
qed (use assms(1,2) in simp_all)

lemmas fp_folded = plus_fp.simps times_fp.simps divide_fp.simps fp_minus_Fin fp_sqrt.simps

lemma reduce_fold_avg:
  assumes "\<forall>i < n. stat_values st ! i = Fin (rs ! i)" "n \<le> length rs" "samples_within B rs"
  shows "\<exists>m. red_result (reduce_fold PWR_ATTR_STAT_AVG st n) = Fin m \<and> near_mean B (take n rs) m \<and>
    red_at (reduce_fold PWR_ATTR_STAT_AVG st n) = None"
  using assms
proof (induction n)
  case (Suc n)
  note p = placed_prefix [OF Suc.prems]
  from Suc obtain m where m: "red_result (reduce_fold PWR_ATTR_STAT_AVG st n) = Fin m" "near_mean B (take n rs) m"
    "red_at (reduce_fold PWR_ATTR_STAT_AVG st n) = None" by auto
  have "n < 2 ^ 52" using Suc.prems(2,3) by (simp add: samples_within_def)
  then have "red_result (reduce_fold PWR_ATTR_STAT_AVG st (Suc n)) = Fin m + (Fin (rs ! n) - Fin m) / Fin (real (length (take n rs)) + 1)"
    using m p(1,4) by (simp add: reduce_step_def Let_def del: fp_folded)
  also have "\<dots> = Fin (next_mean (Suc (length (take n rs))) m (rs ! n))" by (rule fp_mean_step [OF p(3) m(2)])
  finally show ?case using near_mean_snoc(1) [OF p(3) m(2)] m(3) p(2) by (simp add: reduce_step_def Let_def del: fp_folded)
qed (simp add: reduce_init_def initial_value_def near_mean_def)

lemma reduce_fold_stdev:
  assumes "\<forall>i < n. stat_values st ! i = Fin (rs ! i)" "n \<le> length rs" "samples_within B rs"
  shows "\<exists>m q. reduce_fold PWR_ATTR_STAT_STDEV st n =
      \<lparr>red_result = Fin 0, red_at = None, red_avgcnt = Fin (real n), red_mean = Fin m, red_sum = Fin q\<rparr> \<and>
    near_mean B (take n rs) m \<and> near_sum B (take n rs) q"
  using assms
proof (induction n)
  case (Suc n)
  note p = placed_prefix [OF Suc.prems]
  from Suc obtain m q where r: "reduce_fold PWR_ATTR_STAT_STDEV st n =
      \<lparr>red_result = Fin 0, red_at = None, red_avgcnt = Fin (real n), red_mean = Fin m, red_sum = Fin q\<rparr>"
    and near: "near_mean B (take n rs) m" "near_sum B (take n rs) q" by auto
  have "n < 2 ^ 52" using Suc.prems(2,3) by (simp add: samples_within_def)
  moreover have "Fin m + (Fin (rs ! n) - Fin m) / Fin (real n + 1) = Fin (next_mean (Suc n) m (rs ! n))"
    using fp_mean_step [OF p(3) near(1)] unfolding p(4) .
  moreover have "Fin q + (Fin (rs ! n) - Fin (next_mean (Suc n) m (rs ! n))) * (Fin (rs ! n) - Fin m) = Fin (next_sum q (next_mean (Suc n) m (rs ! n)) m (rs ! n))"
    using fp_sum_step [OF p(3) near] unfolding p(4) .
  ultimately have "reduce_fold PWR_ATTR_STAT_STDEV st (Suc n) =
      \<lparr>red_result = Fin 0, red_at = None, red_avgcnt = Fin (real (Suc n)), red_mean = Fin (next_mean (Suc n) m (rs ! n)),
       red_sum = Fin (next_sum q (next_mean (Suc n) m (rs ! n)) m (rs ! n))\<rparr>"
    using p(1) by (simp add: r reduce_step_def Let_def add.commute del: fp_folded)
  then show ?case
    using near_mean_snoc(1) [OF p(3) near(1), unfolded p(4)] near_sum_snoc(1) [OF p(3) near, unfolded p(4)] p(2) by simp
qed (simp add: reduce_init_def initial_value_def near_mean_def near_sum_def sq_dev_def)

text \<open>What the reduction is meant to give: the reduction \<open>k\<close> of the values.\<close>

definition reduces :: "int \<Rightarrow> stat_t \<Rightarrow> fp \<times> place \<Rightarrow> bool" where
  "reduces k st vi \<longleftrightarrow>
     (k = PWR_ATTR_STAT_MIN \<longrightarrow> extremal (<) (PInf, None) (placed st (stat_objcount st)) vi) \<and>
     (k = PWR_ATTR_STAT_MAX \<longrightarrow> extremal (>) (MInf, None) (placed st (stat_objcount st)) vi) \<and>
     (\<forall>rs B. stat_values st = map Fin rs \<and> samples_within B rs \<longrightarrow>
        (k = PWR_ATTR_STAT_AVG \<longrightarrow> (\<exists>m. vi = (Fin m, None) \<and> near_mean B rs m)) \<and>
        (k = PWR_ATTR_STAT_STDEV \<longrightarrow> (\<exists>v. vi = (v, None) \<and> near_stdev_value B rs v)))"

lemma final_stdev:
  assumes "samples_within B rs" "near_sum B rs q"
  shows "near_stdev_value B rs (fp_sqrt (Fin q / (Fin (real (length rs)) - Fin 1)))"
proof (cases "rs = []")
  case True
  then have "q = 0" using assms(2) by (simp add: near_sum_def)
  with True show ?thesis by (simp add: near_stdev_value_def)
qed (rule fp_stdev [OF assms])

lemma reduce_loop_reduces:
  assumes "length (stat_values st) = stat_objcount st" "supported_stat k" "(k = PWR_ATTR_STAT_STDEV) = (stat_stat st = PWR_ATTR_STAT_STDEV)"
  shows "reduces k st (reduce_final st (reduce_loop k st), red_at (reduce_loop k st))"
  unfolding reduces_def
proof (intro conjI impI allI)
  assume "k = PWR_ATTR_STAT_MIN"
  with assms(3) show "extremal (<) (PInf, None) (placed st (stat_objcount st)) (reduce_final st (reduce_loop k st), red_at (reduce_loop k st))"
    using least_value.extremal_foldl [of "(PInf, None)" "placed st (stat_objcount st)"] reduce_fold_search [of k st "stat_objcount st"]
    by (simp add: reduce_final_def reduce_loop_fold initial_value_def)
next
  assume "k = PWR_ATTR_STAT_MAX"
  with assms(3) show "extremal (>) (MInf, None) (placed st (stat_objcount st)) (reduce_final st (reduce_loop k st), red_at (reduce_loop k st))"
    using greatest_value.extremal_foldl [of "(MInf, None)" "placed st (stat_objcount st)"] reduce_fold_search [of k st "stat_objcount st"]
    by (simp add: reduce_final_def reduce_loop_fold initial_value_def)
next
  fix rs B assume "k = PWR_ATTR_STAT_AVG" "stat_values st = map Fin rs \<and> samples_within B rs"
  with assms show "\<exists>m. (reduce_final st (reduce_loop k st), red_at (reduce_loop k st)) = (Fin m, None) \<and> near_mean B rs m"
    using reduce_fold_avg [of "stat_objcount st" st rs B] by (auto simp: reduce_final_def reduce_loop_fold)
next
  fix rs B assume k: "k = PWR_ATTR_STAT_STDEV" and v: "stat_values st = map Fin rs \<and> samples_within B rs"
  have "length rs = stat_objcount st" using v assms(1) by (metis length_map)
  with v k obtain m q where r: "reduce_loop k st =
      \<lparr>red_result = Fin 0, red_at = None, red_avgcnt = Fin (real (length rs)), red_mean = Fin m, red_sum = Fin q\<rparr>" "near_sum B rs q"
    using reduce_fold_stdev [of "stat_objcount st" st rs B] by (auto simp: reduce_loop_fold)
  with final_stdev [of B rs q] v k assms(3)
  show "\<exists>v. (reduce_final st (reduce_loop k st), red_at (reduce_loop k st)) = (v, None) \<and> near_stdev_value B rs v"
    by (simp add: reduce_final_def del: fp_folded)
qed

text \<open>When exactly one of the two kinds is a standard deviation, the result has nothing to do with the values.\<close>

lemma reduce_loop_mixed:
  assumes "length (stat_values st) = stat_objcount st" "supported_stat k" "(k = PWR_ATTR_STAT_STDEV) \<noteq> (stat_stat st = PWR_ATTR_STAT_STDEV)"
    and n: "stat_objcount st < 2 ^ 31"
  shows "reduce_final st (reduce_loop k st) =
    (if k = PWR_ATTR_STAT_AVG \<and> stat_objcount st = 1 then NaN else Fin 0)"
proof -
  have avg: "red_avgcnt (reduce_fold PWR_ATTR_STAT_AVG st n) = Fin (real n) \<and> red_sum (reduce_fold PWR_ATTR_STAT_AVG st n) = Fin 0"
    if "n < 2 ^ 31" for n
    using that by (induction n) (simp_all add: reduce_init_def reduce_step_def Let_def add.commute del: plus_fp.simps)
  have dev: "red_result (reduce_fold PWR_ATTR_STAT_STDEV st n) = Fin 0" for n
    by (induction n) (simp_all add: reduce_init_def initial_value_def reduce_step_def Let_def)
  from assms(2) consider "k = PWR_ATTR_STAT_STDEV" | "k = PWR_ATTR_STAT_MIN \<or> k = PWR_ATTR_STAT_MAX" | "k = PWR_ATTR_STAT_AVG"
    by (auto simp: supported_stat_def)
  then show ?thesis
  proof cases
    case 1
    with assms(3) dev show ?thesis by (simp add: reduce_final_def reduce_loop_fold)
  next
    case 2
    with assms(3) reduce_fold_search [OF 2, of st "stat_objcount st"] show ?thesis
      by (auto simp: reduce_final_def reduce_loop_fold)
  next
    case 3
    have r: "reduce_final st (reduce_loop k st) = fp_sqrt (Fin 0 / (Fin (real (stat_objcount st)) - Fin 1))"
      using 3 assms(3) avg [OF n] by (simp add: reduce_final_def reduce_loop_fold)
    show ?thesis
    proof (cases "stat_objcount st")
      case 0
      with 3 show ?thesis unfolding r by simp
    next
      case (Suc l)
      with n have "Fin (real (stat_objcount st)) - Fin 1 = Fin (real l)" using fp_count_pred [of l] by (simp add: add.commute)
      with 3 Suc show ?thesis unfolding r by (simp add: signed_inf_def)
    qed
  qed
qed

text \<open>
  C25. The result of \<^verbatim>\<open>PWR_StatGetReduce\<close>. When the reduction and the statistic are both
  standard deviations or neither is, the result is the requested reduction of the values:
  the least or greatest one, with index and instant of the first value that is extremal, or for \<open>n\<close> values
  that are finite doubles of a magnitude up to \<open>B\<close>, \<open>1 \<le> B \<le> 2 ^ 400\<close>, an average that lies between the least
  and the greatest and is off by at most \<open>n * B / 2 ^ 49\<close>, or a standard deviation whose square is off by at
  most \<open>n * B\<^sup>2 / 2 ^ 44\<close> (NaN for one value). Otherwise the final step of the code, which tests the kind of the statistic and not the kind of the reduction, makes
  the result independent of the values: zero, or NaN for the average of one value.
\<close>

theorem reduce_result:
  assumes "lookup_stat s (OPAQUE_GET_DATA_KEY h) = Some (Some a)" "stats s a = Some st" "\<not> is_invalid st"
    and len: "length (stat_values st) = stat_objcount st" "length (stat_instants st) = stat_objcount st"
    and k: "supported_stat k" and n: "stat_objcount st < 2 ^ 31"
  shows "\<exists>v p. PWR_StatGetReduce h k s = Some (PWR_RET_SUCCESS, Some (v, p)) \<and>
    (if (k = PWR_ATTR_STAT_STDEV) = (stat_stat st = PWR_ATTR_STAT_STDEV) then reduces k st (v, p)
     else v = (if k = PWR_ATTR_STAT_AVG \<and> stat_objcount st = 1 then NaN else Fin 0))"
proof -
  have "PWR_StatGetReduce h k s = Some (PWR_RET_SUCCESS, Some (reduce_final st (reduce_loop k st), red_at (reduce_loop k st)))"
    using assms by (simp add: PWR_StatGetReduce_def with_stat_def Let_def)
  then show ?thesis using reduce_loop_reduces [OF len(1) k] reduce_loop_mixed [OF len(1) k _ n] by auto
qed

text \<open>A standard deviation over two objects, with its handle; and its minimum, which is lost.\<close>

definition example_reduce_stat :: stat_t where
  "example_reduce_stat = zero_stat\<lparr>stat_grp := 1, stat_stat := PWR_ATTR_STAT_STDEV, stat_objcount := 2,
     stat_values := [Fin 3, Fin 7], stat_instants := [10, 20]\<rparr>"

definition example_reduce_lib :: lib where
  "example_reduce_lib = example_lib\<lparr>opaque_map := Some \<lparr>rand_seq = example_seq, table = [9 \<mapsto> 9]\<rparr>,
     refs := [9 \<mapsto> \<lparr>ref_type = OPAQUE_STAT, ref_key = 9\<rparr>], stats := [9 \<mapsto> example_reduce_stat]\<rparr>"

theorem reduce_result_witness:
  "(\<exists>p. PWR_StatGetReduce (OPAQUE_GENERATE 1 9) PWR_ATTR_STAT_MIN example_reduce_lib =
     Some (PWR_RET_SUCCESS, Some (Fin 0, p))) \<and>
   (\<exists>r p. PWR_StatGetReduce (OPAQUE_GENERATE 1 9) PWR_ATTR_STAT_STDEV example_reduce_lib =
     Some (PWR_RET_SUCCESS, Some (Fin r, p)) \<and> \<bar>r - stdev [3, 7]\<bar> \<le> sqrt 2 * 7 / 2 ^ 22)"
proof -
  let ?h = "OPAQUE_GENERATE 1 9" and ?s = example_reduce_lib and ?st = example_reduce_stat
  have key: "OPAQUE_GET_DATA_KEY ?h = 9" by code_simp
  have look: "lookup_stat ?s (OPAQUE_GET_DATA_KEY ?h) = Some (Some 9)" "stats ?s 9 = Some ?st"
    unfolding key by (simp_all add: lookup_stat_def opaque_map_lookup_type_def opaque_map_lookup_def example_reduce_lib_def)
  have st: "\<not> is_invalid ?st" "length (stat_values ?st) = stat_objcount ?st" "length (stat_instants ?st) = stat_objcount ?st"
    "stat_objcount ?st < 2 ^ 31" "stat_stat ?st = PWR_ATTR_STAT_STDEV" "stat_values ?st = map Fin [3, 7]"
    by (simp_all add: is_invalid_def example_reduce_stat_def)
  have "supported_stat PWR_ATTR_STAT_MIN" "supported_stat PWR_ATTR_STAT_STDEV" by (simp_all add: supported_stat_def)
  note r = reduce_result [OF look st(1-3) this(1) st(4)] reduce_result [OF look st(1-3) this(2) st(4)]
  from r(2) obtain v p where vp: "PWR_StatGetReduce ?h PWR_ATTR_STAT_STDEV ?s = Some (PWR_RET_SUCCESS, Some (v, p))"
    "reduces PWR_ATTR_STAT_STDEV ?st (v, p)" using st(5) by auto
  have "samples_within 7 [3, 7]" using dbl_nat [of 3] dbl_nat [of 7] by (simp add: samples_within_def)
  with vp(2) have "near_stdev_value 7 [3, 7] v" using st(6) unfolding reduces_def by blast
  then obtain x where "v = Fin x" "\<bar>x - stdev [3, 7]\<bar> \<le> sqrt 2 * 7 / 2 ^ 22"
    by (auto simp: near_stdev_value_def near_stdev_def)
  with vp(1) r(1) st(5) show ?thesis by auto
qed

end
