(* ===== verification/Text_Numbers.thy ===== *)
theory Text_Numbers
  imports Pwr_Prelude
begin

text \<open>
  Decimal text, as the C library prints and scans it: \<^verbatim>\<open>printf\<close> of unsigned and signed
  integers, the integer conversions of \<^verbatim>\<open>scanf\<close>, and \<^verbatim>\<open>strtoull\<close>. A number that
  does not fit is replaced by the nearest bound, as \<^verbatim>\<open>strtoul\<close> and \<^verbatim>\<open>strtol\<close> do.
\<close>

subsection \<open>Printing\<close>

definition digit_char :: "nat \<Rightarrow> char" where
  "digit_char n = char_of (48 + n)"

fun show_nat :: "nat \<Rightarrow> string" where
  "show_nat n = (if n < 10 then [digit_char n] else show_nat (n div 10) @ [digit_char (n mod 10)])"

declare show_nat.simps [simp del]

definition show_int :: "int \<Rightarrow> string" where
  "show_int i = (if i < 0 then ''-'' @ show_nat (nat (- i)) else show_nat (nat i))"

subsection \<open>Scanning\<close>

definition is_space :: "char \<Rightarrow> bool" where
  "is_space c \<longleftrightarrow> of_char c \<in> {32, 9, 10, 11, 12, 13 :: nat}"

definition is_digit :: "char \<Rightarrow> bool" where
  "is_digit c \<longleftrightarrow> 48 \<le> (of_char c :: nat) \<and> (of_char c :: nat) \<le> 57"

definition digit_value :: "char \<Rightarrow> nat" where
  "digit_value c = of_char c - 48"

definition digits_value :: "string \<Rightarrow> nat" where
  "digits_value ds = foldl (\<lambda>n c. 10 * n + digit_value c) 0 ds"

definition scan_sign :: "string \<Rightarrow> bool \<times> string" where
  "scan_sign s = (case s of c # r \<Rightarrow> if c = CHR ''-'' then (True, r) else if c = CHR ''+'' then (False, r) else (False, s) | [] \<Rightarrow> (False, s))"

text \<open>White space, a sign, digits; the sign, the value and what follows.\<close>

definition scan_decimal :: "string \<Rightarrow> (bool \<times> nat \<times> string) option" where
  "scan_decimal s =
     (let (neg, r) = scan_sign (dropWhile is_space s); ds = takeWhile is_digit r in
      if ds = [] then None else Some (neg, digits_value ds, dropWhile is_digit r))"

definition to_ulong :: "bool \<Rightarrow> nat \<Rightarrow> 64 word" where
  "to_ulong neg n = (if n \<ge> 2 ^ 64 then - 1 else if neg then - of_nat n else of_nat n)"

definition to_long :: "bool \<Rightarrow> nat \<Rightarrow> 64 word" where
  "to_long neg n =
     (if neg then if n \<ge> 2 ^ 63 then of_nat (2 ^ 63) else - of_nat n
      else if n \<ge> 2 ^ 63 then of_nat (2 ^ 63 - 1) else of_nat n)"

text \<open>\<^verbatim>\<open>%u\<close> into an unsigned int, \<^verbatim>\<open>%ld\<close> into 64 bits.\<close>

definition scan_uint :: "string \<Rightarrow> (32 word \<times> string) option" where
  "scan_uint s = map_option (\<lambda>(neg, n, r). (ucast (to_ulong neg n), r)) (scan_decimal s)"

definition scan_long :: "string \<Rightarrow> (64 word \<times> string) option" where
  "scan_long s = map_option (\<lambda>(neg, n, r). (to_long neg n, r)) (scan_decimal s)"

subsection \<open>Round trip\<close>

lemma digit_char_code: "n < 10 \<Longrightarrow> of_char (digit_char n) = 48 + n"
  by (simp add: digit_char_def char_of_nat take_bit_nat_eq_self)

lemma digit_char [simp]:
  assumes "n < 10"
  shows "is_digit (digit_char n)" "digit_value (digit_char n) = n"
  using assms by (simp_all add: is_digit_def digit_value_def digit_char_code)

lemma digits_value_snoc: "digits_value (ds @ [c]) = 10 * digits_value ds + digit_value c"
  by (simp add: digits_value_def)

lemma show_nat_digits: "show_nat n \<noteq> [] \<and> list_all is_digit (show_nat n) \<and> digits_value (show_nat n) = n"
proof (induction n rule: show_nat.induct)
  case (1 n)
  show ?case
  proof (cases "n < 10")
    case True
    then show ?thesis by (simp add: show_nat.simps [of n] digits_value_def)
  next
    case False
    with 1 show ?thesis by (simp add: show_nat.simps [of n] digits_value_snoc)
  qed
qed

lemma digit_not_space: "is_digit c \<Longrightarrow> \<not> is_space c" and digit_not_sign: "is_digit c \<Longrightarrow> c \<noteq> CHR ''-'' \<and> c \<noteq> CHR ''+''"
  by (auto simp: is_digit_def is_space_def)

text \<open>A list that ends where a digit cannot continue it.\<close>

definition ends_number :: "string \<Rightarrow> bool" where
  "ends_number s \<longleftrightarrow> (case s of [] \<Rightarrow> True | c # _ \<Rightarrow> \<not> is_digit c)"

lemma scan_show:
  assumes "ends_number rest" "list_all is_space sp"
  shows "scan_decimal (sp @ show_nat n @ rest) = Some (False, n, rest)"
proof -
  obtain c ds where ds: "show_nat n = c # ds" "is_digit c" "list_all is_digit ds"
    using show_nat_digits [of n] by (cases "show_nat n") auto
  have sp: "dropWhile is_space (sp @ show_nat n @ rest) = show_nat n @ rest"
    using assms(2) ds digit_not_space [OF ds(2)] by (induction sp) auto
  have tk: "takeWhile is_digit (show_nat n @ rest) = show_nat n" "dropWhile is_digit (show_nat n @ rest) = rest"
    using assms(1) ds by (auto simp: takeWhile_append dropWhile_append list_all_iff ends_number_def split: list.splits)
  have "scan_sign (show_nat n @ rest) = (False, show_nat n @ rest)"
    using digit_not_sign [OF ds(2)] by (simp add: scan_sign_def ds(1))
  then show ?thesis unfolding scan_decimal_def sp using tk show_nat_digits [of n] by simp
qed

lemma scan_decimal_shorter:
  assumes "scan_decimal s = Some (neg, n, r)"
  shows "length r < length s"
proof -
  let ?t = "snd (scan_sign (dropWhile is_space s))"
  from assms have r: "takeWhile is_digit ?t \<noteq> []" "r = dropWhile is_digit ?t"
    by (auto simp: scan_decimal_def Let_def split: prod.splits if_splits)
  have "length (takeWhile is_digit ?t @ dropWhile is_digit ?t) = length ?t" by (simp del: length_append)
  with r have "length r < length ?t" by (cases "takeWhile is_digit ?t") auto
  also have "\<dots> \<le> length (dropWhile is_space s)" by (simp add: scan_sign_def split: list.splits)
  also have "\<dots> \<le> length s" by (rule length_dropWhile_le)
  finally show ?thesis .
qed

lemma scan_uint_shorter: "scan_uint s = Some (n, r) \<Longrightarrow> length r < length s"
  by (auto simp: scan_uint_def dest: scan_decimal_shorter)

lemma scan_decimal_spaces: "list_all is_space s \<Longrightarrow> scan_decimal s = None"
  by (simp add: scan_decimal_def scan_sign_def dropWhile_eq_Nil_conv [THEN iffD2] list_all_iff)

lemma to_ulong_small: "n < 2 ^ 64 \<Longrightarrow> to_ulong False n = of_nat n"
  by (simp add: to_ulong_def)

lemma scan_uint_show:
  fixes u :: "32 word"
  assumes "ends_number rest" "list_all is_space sp"
  shows "scan_uint (sp @ show_nat (unat u) @ rest) = Some (u, rest)"
proof -
  have u: "unat u < 2 ^ 32" using unsigned_less [of u] by simp
  then have "unat u < 2 ^ 64" by simp
  moreover have "ucast (ucast u :: 64 word) = u" by (rule bit_word_eqI) (auto simp: bit_unsigned_iff)
  ultimately have "ucast (to_ulong False (unat u)) = u"
    by (simp add: to_ulong_small unsigned_of_nat take_bit_nat_eq_self)
  then show ?thesis by (simp add: scan_uint_def scan_show [OF assms])
qed

text \<open>A signed number is scanned as it was printed, also the smallest one.\<close>

lemma scan_show_neg:
  assumes "ends_number rest"
  shows "scan_decimal (CHR ''-'' # show_nat n @ rest) = Some (True, n, rest)"
proof -
  have "dropWhile is_space (CHR ''-'' # show_nat n @ rest) = CHR ''-'' # show_nat n @ rest"
    by (simp add: is_space_def)
  moreover have "takeWhile is_digit (show_nat n @ rest) = show_nat n" "dropWhile is_digit (show_nat n @ rest) = rest"
    using assms show_nat_digits [of n]
    by (auto simp: takeWhile_append dropWhile_append list_all_iff ends_number_def split: list.splits)
  ultimately show ?thesis using show_nat_digits [of n] by (simp add: scan_decimal_def scan_sign_def)
qed

lemma scan_long_show:
  fixes v :: "64 word"
  assumes "ends_number rest"
  shows "scan_long (show_int (sint v) @ rest) = Some (v, rest)"
proof -
  have range: "- (2 ^ 63) \<le> sint v" "sint v < 2 ^ 63" using sint_greater_eq [of v] sint_less [of v] by simp_all
  have v: "word_of_int (sint v) = v" by simp
  show ?thesis
  proof (cases "sint v < 0")
    case True
    have "to_long True (nat (- sint v)) = v"
    proof (cases "sint v = - (2 ^ 63)")
      case True
      then have "v = word_of_int (- (2 ^ 63))" using v by metis
      then show ?thesis using True by (simp add: to_long_def)
    next
      case False
      then have "nat (- sint v) < 2 ^ 63" using range(1) by (simp add: nat_less_iff)
      then have "to_long True (nat (- sint v)) = - of_nat (nat (- sint v))" by (simp add: to_long_def)
      also have "\<dots> = word_of_int (sint v)" using True by simp
      finally show ?thesis by simp
    qed
    then show ?thesis using True scan_show_neg [OF assms, of "nat (- sint v)"] by (simp add: scan_long_def show_int_def)
  next
    case False
    then have "nat (sint v) < 2 ^ 63" using range(2) by (simp add: nat_less_iff)
    then have "to_long False (nat (sint v)) = of_nat (nat (sint v))" by (simp add: to_long_def)
    also have "\<dots> = v" using False by simp
    finally show ?thesis using False scan_show [OF assms, of "[]" "nat (sint v)"] by (simp add: scan_long_def show_int_def)
  qed
qed

end
