(* ===== verification/Files.thy ===== *)
theory Files
  imports Text_Numbers
begin

text \<open>
  The files that the daemon and its helpers use. A file is its text. Whether an open for
  reading or writing succeeds, and whether a control file accepts a text (the kernel
  rejects values it does not support when the text is flushed), is decided outside of the
  program and part of the state. A rejected text leaves a control file as it was. The
  entries of a directory come with a flag for subdirectories.
\<close>

record filesystem =
  files :: "string \<rightharpoonup> string"
  readable :: "string \<Rightarrow> bool"
  writable :: "string \<Rightarrow> bool"
  accepts :: "string \<Rightarrow> string \<Rightarrow> bool"
  dirents :: "string \<Rightarrow> (string \<times> bool) list option"

definition fopen_r :: "string \<Rightarrow> filesystem \<Rightarrow> string option" where
  "fopen_r p f = (if readable f p then files f p else None)"

text \<open>Opening an ordinary file for writing truncates it; for appending creates it if needed.\<close>

definition fopen_w :: "string \<Rightarrow> filesystem \<Rightarrow> filesystem option" where
  "fopen_w p f = (if writable f p then Some (f\<lparr>files := (files f)(p \<mapsto> [])\<rparr>) else None)"

definition fopen_a :: "string \<Rightarrow> filesystem \<Rightarrow> filesystem option" where
  "fopen_a p f =
     (if writable f p then Some (case files f p of None \<Rightarrow> f\<lparr>files := (files f)(p \<mapsto> [])\<rparr> | Some _ \<Rightarrow> f) else None)"

definition fputs :: "string \<Rightarrow> string \<Rightarrow> filesystem \<Rightarrow> filesystem" where
  "fputs txt p f = f\<lparr>files := (files f)(p \<mapsto> (case files f p of None \<Rightarrow> [] | Some t \<Rightarrow> t) @ txt)\<rparr>"

definition remove_file :: "string \<Rightarrow> filesystem \<Rightarrow> filesystem option" where
  "remove_file p f = (if writable f p \<and> files f p \<noteq> None then Some (f\<lparr>files := (files f)(p := None)\<rparr>) else None)"

definition rename_file :: "string \<Rightarrow> string \<Rightarrow> filesystem \<Rightarrow> filesystem option" where
  "rename_file p q f =
     (if writable f p \<and> writable f q \<and> files f p \<noteq> None
      then Some (f\<lparr>files := (files f)(p := None, q := files f p)\<rparr>) else None)"

text \<open>Writing a control file: open, print, flush.\<close>

definition write_control :: "string \<Rightarrow> string \<Rightarrow> filesystem \<Rightarrow> bool \<times> filesystem" where
  "write_control p txt f =
     (if writable f p \<and> accepts f p txt then (True, f\<lparr>files := (files f)(p \<mapsto> txt)\<rparr>) else (False, f))"

lemma files_fopen_r: "fopen_r p f = Some t \<Longrightarrow> files f p = Some t"
  by (simp add: fopen_r_def split: if_splits)

lemma write_control_ok: "write_control p txt f = (True, f') \<Longrightarrow> f' = f\<lparr>files := (files f)(p \<mapsto> txt)\<rparr>"
  by (simp add: write_control_def split: if_splits)

lemma write_control_other: "write_control p txt f = (b, f') \<Longrightarrow> q \<noteq> p \<Longrightarrow> files f' q = files f q"
  by (auto simp: write_control_def split: if_splits)

end
