(* ===== verification/Gov.thy ===== *)
theory Gov
  imports Pwr_Prelude
begin

text \<open>\<^verbatim>\<open>common/gov.c\<close>: names of the frequency governors.\<close>

abbreviation PWR_GOV_LINUX_ONDEMAND :: int where "PWR_GOV_LINUX_ONDEMAND \<equiv> 0"
abbreviation PWR_GOV_LINUX_PERFORMANCE :: int where "PWR_GOV_LINUX_PERFORMANCE \<equiv> 1"
abbreviation PWR_GOV_LINUX_CONSERVATIVE :: int where "PWR_GOV_LINUX_CONSERVATIVE \<equiv> 2"
abbreviation PWR_GOV_LINUX_POWERSAVE :: int where "PWR_GOV_LINUX_POWERSAVE \<equiv> 3"
abbreviation PWR_GOV_LINUX_USERSPACE :: int where "PWR_GOV_LINUX_USERSPACE \<equiv> 4"
abbreviation PWR_NUM_GOV_NAMES :: int where "PWR_NUM_GOV_NAMES \<equiv> 5"
abbreviation PWR_GOV_INVALID :: int where "PWR_GOV_INVALID \<equiv> - 1"

definition pwr_string_to_gov :: "string \<Rightarrow> int" where
  "pwr_string_to_gov str =
     (if str = ''ondemand'' then PWR_GOV_LINUX_ONDEMAND
      else if str = ''performance'' then PWR_GOV_LINUX_PERFORMANCE
      else if str = ''conservative'' then PWR_GOV_LINUX_CONSERVATIVE
      else if str = ''powersave'' then PWR_GOV_LINUX_POWERSAVE
      else if str = ''userspace'' then PWR_GOV_LINUX_USERSPACE
      else PWR_GOV_INVALID)"

definition pwr_gov_to_string :: "int \<Rightarrow> string" where
  "pwr_gov_to_string gov =
     (if gov = PWR_GOV_LINUX_ONDEMAND then ''ondemand''
      else if gov = PWR_GOV_LINUX_PERFORMANCE then ''performance''
      else if gov = PWR_GOV_LINUX_CONSERVATIVE then ''conservative''
      else if gov = PWR_GOV_LINUX_POWERSAVE then ''powersave''
      else if gov = PWR_GOV_LINUX_USERSPACE then ''userspace''
      else ''INVALID'')"

lemma gov_roundtrip: "0 \<le> g \<Longrightarrow> g < PWR_NUM_GOV_NAMES \<Longrightarrow> pwr_string_to_gov (pwr_gov_to_string g) = g"
  by (auto simp: pwr_string_to_gov_def pwr_gov_to_string_def)

lemma gov_name_roundtrip: "pwr_string_to_gov str \<noteq> PWR_GOV_INVALID \<Longrightarrow> pwr_gov_to_string (pwr_string_to_gov str) = str"
  by (auto simp: pwr_string_to_gov_def pwr_gov_to_string_def split: if_splits)

end
