(* ===== verification/Daemon_Values.thy ===== *)
theory Daemon_Values
  imports Files Gov Pwr_Double
begin

text \<open>
  The part of \<^verbatim>\<open>daemon/pwrapi_worker.c\<close> that reads and writes control files. The text of
  a double is left to the C library: \<open>print_lf\<close> and \<open>scan_lf\<close> stand for the
  conversions \<^verbatim>\<open>%lf\<close> of \<^verbatim>\<open>fprintf\<close> and \<^verbatim>\<open>fscanf\<close>.
\<close>

record libc_double =
  print_lf :: "64 word \<Rightarrow> string"
  scan_lf :: "string \<Rightarrow> 64 word option"

abbreviation PWR_ATTR_DATA_DOUBLE :: int where "PWR_ATTR_DATA_DOUBLE \<equiv> 0"
abbreviation PWR_ATTR_DATA_UINT64 :: int where "PWR_ATTR_DATA_UINT64 \<equiv> 1"

text \<open>A request to set an attribute; the value is a union of an integer and a double.\<close>

record powerapi_setreq_t =
  sr_object :: int
  sr_attribute :: int
  sr_data_type :: int
  sr_metadata :: int
  sr_value :: "64 word"
  sr_path :: string

subsection \<open>Files\<close>

definition file_read_uint64 :: "string \<Rightarrow> filesystem \<Rightarrow> 64 word option" where
  "file_read_uint64 filepath f = do { t \<leftarrow> fopen_r filepath f; (v, _) \<leftarrow> scan_long t; Some v }"

definition file_read_double :: "libc_double \<Rightarrow> string \<Rightarrow> filesystem \<Rightarrow> 64 word option" where
  "file_read_double D filepath f = do { t \<leftarrow> fopen_r filepath f; scan_lf D t }"

text \<open>The first line, without its newline; an empty file gives an error.\<close>

definition file_read_string :: "string \<Rightarrow> filesystem \<Rightarrow> string option" where
  "file_read_string filepath f =
     do { t \<leftarrow> fopen_r filepath f; if t = [] then None else Some (takeWhile (\<lambda>c. c \<noteq> char_of (10 :: nat)) t) }"

definition file_write_uint64 :: "string \<Rightarrow> 64 word \<Rightarrow> filesystem \<Rightarrow> bool \<times> filesystem" where
  "file_write_uint64 filepath v f = write_control filepath (show_int (sint v)) f"

definition file_write_double :: "libc_double \<Rightarrow> string \<Rightarrow> 64 word \<Rightarrow> filesystem \<Rightarrow> bool \<times> filesystem" where
  "file_write_double D filepath v f = write_control filepath (print_lf D v) f"

definition file_write_string :: "string \<Rightarrow> string \<Rightarrow> filesystem \<Rightarrow> bool \<times> filesystem" where
  "file_write_string filepath v f = write_control filepath v f"

definition get_cstates_count :: "string \<Rightarrow> filesystem \<Rightarrow> nat" where
  "get_cstates_count path f =
     (case dirents f path of None \<Rightarrow> 0 | Some es \<Rightarrow> length (filter (\<lambda>(nm, dir). dir \<and> take 5 nm = ''state'') es))"

subsection \<open>Reading a value\<close>

definition cstate_file :: "string \<Rightarrow> nat \<Rightarrow> string" where
  "cstate_file path i = path @ ''/state'' @ show_nat i @ ''/disable''"

text \<open>The loop from \<open>i\<close> with \<open>k\<close> states left; the result is the value of \<open>i\<close> at its end.\<close>

fun read_cstate_loop :: "string \<Rightarrow> nat \<Rightarrow> nat \<Rightarrow> filesystem \<Rightarrow> nat option" where
  "read_cstate_loop path i 0 f = Some i"
| "read_cstate_loop path i (Suc k) f =
     do {
       disable_value \<leftarrow> file_read_uint64 (cstate_file path i) f;
       if disable_value > 0 then Some i else read_cstate_loop path (Suc i) k f
     }"

definition read_cstate_limit :: "string \<Rightarrow> filesystem \<Rightarrow> 64 word option" where
  "read_cstate_limit path f =
     map_option (\<lambda>i. of_nat (i - 1)) (read_cstate_loop path 1 (get_cstates_count path f - 1) f)"

definition read_governor :: "string \<Rightarrow> filesystem \<Rightarrow> 64 word option" where
  "read_governor path f = map_option (\<lambda>buf. word_of_int (pwr_string_to_gov buf)) (file_read_string path f)"

definition read_value_by_type :: "libc_double \<Rightarrow> string \<Rightarrow> int \<Rightarrow> filesystem \<Rightarrow> 64 word option" where
  "read_value_by_type D path data_type f =
     (if data_type = PWR_ATTR_DATA_UINT64 then file_read_uint64 path f
      else if data_type = PWR_ATTR_DATA_DOUBLE then file_read_double D path f
      else None)"

definition read_attr_value :: "libc_double \<Rightarrow> powerapi_setreq_t \<Rightarrow> filesystem \<Rightarrow> 64 word option" where
  "read_attr_value D r f =
     (if sr_attribute r = PWR_ATTR_CSTATE_LIMIT then read_cstate_limit (sr_path r) f
      else if sr_attribute r = PWR_ATTR_GOV then read_governor (sr_path r) f
      else read_value_by_type D (sr_path r) (sr_data_type r) f)"

subsection \<open>Writing a value\<close>

fun write_cstate_loop :: "string \<Rightarrow> nat \<Rightarrow> nat \<Rightarrow> nat \<Rightarrow> filesystem \<Rightarrow> bool \<times> filesystem" where
  "write_cstate_loop path v i 0 f = (True, f)"
| "write_cstate_loop path v i (Suc k) f =
     (case file_write_uint64 (cstate_file path i) (if i > v then 1 else 0) f of
        (False, f) \<Rightarrow> (False, f)
      | (True, f) \<Rightarrow> write_cstate_loop path v (Suc i) k f)"

definition write_cstate_limit :: "string \<Rightarrow> 64 word \<Rightarrow> filesystem \<Rightarrow> bool \<times> filesystem" where
  "write_cstate_limit path v f =
     (let num_cstates = get_cstates_count path f in
      if unat v \<ge> num_cstates then (False, f) else write_cstate_loop path (unat v) 1 (num_cstates - 1) f)"

text \<open>The integer is converted to the enumeration, that is, to 32 bits.\<close>

definition write_governor :: "string \<Rightarrow> 64 word \<Rightarrow> filesystem \<Rightarrow> bool \<times> filesystem" where
  "write_governor path v f = file_write_string path (pwr_gov_to_string (sint (ucast v :: 32 word))) f"

definition write_value_by_type :: "libc_double \<Rightarrow> string \<Rightarrow> int \<Rightarrow> 64 word \<Rightarrow> filesystem \<Rightarrow> bool \<times> filesystem" where
  "write_value_by_type D path data_type v f =
     (if data_type = PWR_ATTR_DATA_UINT64 then file_write_uint64 path v f
      else if data_type = PWR_ATTR_DATA_DOUBLE then file_write_double D path v f
      else (False, f))"

definition write_attr_value :: "libc_double \<Rightarrow> powerapi_setreq_t \<Rightarrow> filesystem \<Rightarrow> bool \<times> filesystem" where
  "write_attr_value D r f =
     (if sr_attribute r = PWR_ATTR_CSTATE_LIMIT then write_cstate_limit (sr_path r) (sr_value r) f
      else if sr_attribute r = PWR_ATTR_GOV then write_governor (sr_path r) (sr_value r) f
      else write_value_by_type D (sr_path r) (sr_data_type r) (sr_value r) f)"

end
