(* ===== verification/Permissions.thy ===== *)
theory Permissions
  imports Files
begin

text \<open>
  \<^verbatim>\<open>common/permissions.c\<close>: the file of the user identifiers that may connect to the
  daemon. It is a text file of decimal numbers; every operation scans it from the start
  and stops at the first text that is not a number.
\<close>

definition BOOT_PERMISSIONS_FILE :: string where "BOOT_PERMISSIONS_FILE = ''/etc/opt/cray/powerapi/perm.boot''"
definition CURR_PERMISSIONS_FILE :: string where "CURR_PERMISSIONS_FILE = ''/etc/opt/cray/powerapi/perm.curr''"
definition TEMP_PERMISSIONS_FILE :: string where "TEMP_PERMISSIONS_FILE = ''/etc/opt/cray/powerapi/perm.tmp''"

text \<open>A user identifier is an unsigned int; \<open>uid_line\<close> is what the code prints for it.\<close>

type_synonym uid = "32 word"

definition uid_line :: "uid \<Rightarrow> string" where
  "uid_line u = show_nat (unat u) @ [char_of (10 :: nat)]"

definition file_copy :: "string \<Rightarrow> string \<Rightarrow> filesystem \<Rightarrow> int \<times> filesystem" where
  "file_copy frompath topath f =
     (case fopen_r frompath f of
        None \<Rightarrow> (1, f)
      | Some t \<Rightarrow> (case fopen_w topath f of None \<Rightarrow> (2, f) | Some f \<Rightarrow> (0, fputs t topath f)))"

function search_loop :: "uid \<Rightarrow> string \<Rightarrow> int" where
  "search_loop k t =
     (case scan_uint t of None \<Rightarrow> 1 | Some (current, rest) \<Rightarrow> if k = current then 0 else search_loop k rest)"
  by pat_completeness auto
termination by (relation "measure (\<lambda>(k, t). length t)") (auto dest: scan_uint_shorter)

declare search_loop.simps [simp del]

definition file_search_uint :: "string \<Rightarrow> uid \<Rightarrow> filesystem \<Rightarrow> int" where
  "file_search_uint filepath k f = (case fopen_r filepath f of None \<Rightarrow> 2 | Some t \<Rightarrow> search_loop k t)"

definition clear_permissions_file :: "filesystem \<Rightarrow> int \<times> filesystem" where
  "clear_permissions_file f = (case fopen_w CURR_PERMISSIONS_FILE f of None \<Rightarrow> (1, f) | Some f \<Rightarrow> (0, f))"

definition restore_permissions_file :: "filesystem \<Rightarrow> int \<times> filesystem" where
  "restore_permissions_file f = file_copy BOOT_PERMISSIONS_FILE CURR_PERMISSIONS_FILE f"

definition check_permissions_file :: "uid \<Rightarrow> filesystem \<Rightarrow> int" where
  "check_permissions_file u f = file_search_uint CURR_PERMISSIONS_FILE u f"

definition add_uid_permissions_file :: "uid \<Rightarrow> filesystem \<Rightarrow> int \<times> filesystem" where
  "add_uid_permissions_file u f =
     (if file_search_uint CURR_PERMISSIONS_FILE u f = 0 then (0, f)
      else case fopen_a CURR_PERMISSIONS_FILE f of
             None \<Rightarrow> (1, f)
           | Some f \<Rightarrow> (0, fputs (uid_line u) CURR_PERMISSIONS_FILE f))"

text \<open>The copying loop of the deletion: from the rest of the old text to the new file.\<close>

function filter_loop :: "uid \<Rightarrow> string \<Rightarrow> filesystem \<Rightarrow> filesystem" where
  "filter_loop u t f =
     (case scan_uint t of
        None \<Rightarrow> f
      | Some (current, rest) \<Rightarrow>
          filter_loop u rest (if u = current then f else fputs (uid_line current) TEMP_PERMISSIONS_FILE f))"
  by pat_completeness auto
termination by (relation "measure (\<lambda>(u, t, f). length t)") (auto dest: scan_uint_shorter)

declare filter_loop.simps [simp del]

definition del_uid_permissions_file :: "uid \<Rightarrow> filesystem \<Rightarrow> int \<times> filesystem" where
  "del_uid_permissions_file u f =
     (if file_search_uint CURR_PERMISSIONS_FILE u f \<noteq> 0 then (0, f)
      else case fopen_r CURR_PERMISSIONS_FILE f of
             None \<Rightarrow> (1, f)
           | Some t \<Rightarrow>
               (case fopen_w TEMP_PERMISSIONS_FILE f of
                  None \<Rightarrow> (1, f)
                | Some f \<Rightarrow>
                    let f = filter_loop u t f in
                    (case remove_file CURR_PERMISSIONS_FILE f of
                       None \<Rightarrow> (1, f)
                     | Some f \<Rightarrow>
                         (case rename_file TEMP_PERMISSIONS_FILE CURR_PERMISSIONS_FILE f of
                            None \<Rightarrow> (1, f)
                          | Some f \<Rightarrow> (0, f)))))"

subsection \<open>The identifiers in a text\<close>

function scanned :: "string \<Rightarrow> uid list" where
  "scanned t = (case scan_uint t of None \<Rightarrow> [] | Some (u, rest) \<Rightarrow> u # scanned rest)"
  by pat_completeness auto
termination by (relation "measure length") (auto dest: scan_uint_shorter)

declare scanned.simps [simp del]

lemma search_loop_scanned: "search_loop u t = (if u \<in> set (scanned t) then 0 else 1)"
proof (induction t rule: scanned.induct)
  case (1 t)
  then show ?case
    by (subst search_loop.simps, subst scanned.simps) (auto split: option.splits)
qed

lemma check_iff:
  "check_permissions_file u f = 0 \<longleftrightarrow> (\<exists>t. fopen_r CURR_PERMISSIONS_FILE f = Some t \<and> u \<in> set (scanned t))"
  by (auto simp: check_permissions_file_def file_search_uint_def search_loop_scanned split: option.splits)

text \<open>The text that holds a list of identifiers, one per line, as the code itself writes it.\<close>

definition uid_text :: "uid list \<Rightarrow> string" where
  "uid_text us = concat (map uid_line us)"

lemma newline: "is_space (char_of (10 :: nat))" "\<not> is_digit (char_of (10 :: nat))"
  by (simp_all add: is_space_def is_digit_def)

lemma scanned_lines: "list_all is_space sp \<Longrightarrow> scanned (sp @ uid_text us) = us"
proof (induction us arbitrary: sp)
  case Nil
  then have "scan_uint (sp @ uid_text []) = None" by (simp add: uid_text_def scan_uint_def scan_decimal_spaces)
  then show ?case by (subst scanned.simps) simp
next
  case (Cons u us)
  have "scan_uint (sp @ uid_text (u # us)) = Some (u, [char_of (10 :: nat)] @ uid_text us)"
    using scan_uint_show [of "char_of (10 :: nat) # uid_text us" sp u] Cons.prems newline
    by (simp add: uid_text_def uid_line_def ends_number_def)
  moreover have "scanned ([char_of (10 :: nat)] @ uid_text us) = us" using newline by (intro Cons.IH) simp
  ultimately show ?case by (subst scanned.simps) simp
qed

lemma scanned_uid_text [simp]: "scanned (uid_text us) = us"
  using scanned_lines [of "[]"] by simp

lemma filter_loop_text:
  "files f TEMP_PERMISSIONS_FILE = Some t0 \<Longrightarrow>
    filter_loop u t f = f\<lparr>files := (files f)(TEMP_PERMISSIONS_FILE \<mapsto> t0 @ uid_text (filter (\<lambda>v. v \<noteq> u) (scanned t)))\<rparr>"
proof (induction u t f arbitrary: t0 rule: filter_loop.induct)
  case (1 u t f)
  show ?case
  proof (cases "scan_uint t")
    case None
    then show ?thesis using 1(2) by (subst filter_loop.simps, subst scanned.simps) (simp add: uid_text_def fun_upd_idem)
  next
    case (Some cr)
    then obtain c r where cr: "scan_uint t = Some (c, r)" by (cases cr) simp
    show ?thesis
    proof (cases "u = c")
      case True
      have "filter_loop u r f = f\<lparr>files := (files f)(TEMP_PERMISSIONS_FILE \<mapsto> t0 @ uid_text (filter (\<lambda>v. v \<noteq> u) (scanned r)))\<rparr>"
        using 1(1) [OF cr refl, of t0] 1(2) True by (simp add: fun_upd_def)
      then show ?thesis using True by (subst filter_loop.simps, subst scanned.simps) (simp add: cr)
    next
      case False
      let ?f = "fputs (uid_line c) TEMP_PERMISSIONS_FILE f"
      have f: "?f = f\<lparr>files := (files f)(TEMP_PERMISSIONS_FILE \<mapsto> t0 @ uid_line c)\<rparr>" using 1(2) by (simp add: fputs_def)
      have "filter_loop u r ?f = ?f\<lparr>files := (files ?f)(TEMP_PERMISSIONS_FILE \<mapsto>
          (t0 @ uid_line c) @ uid_text (filter (\<lambda>v. v \<noteq> u) (scanned r)))\<rparr>"
        using 1(1) [OF cr refl, of "t0 @ uid_line c"] False f by (simp add: fun_upd_def)
      then show ?thesis using False
        by (subst filter_loop.simps, subst scanned.simps) (simp add: cr f uid_text_def)
    qed
  qed
qed

subsection \<open>The file as a list of identifiers\<close>

text \<open>The current file holds the identifiers \<open>us\<close> and can be used.\<close>

definition perm_rep :: "uid list \<Rightarrow> filesystem \<Rightarrow> bool" where
  "perm_rep us f \<longleftrightarrow> files f CURR_PERMISSIONS_FILE = Some (uid_text us) \<and>
     (\<forall>p \<in> {BOOT_PERMISSIONS_FILE, CURR_PERMISSIONS_FILE, TEMP_PERMISSIONS_FILE}. readable f p \<and> writable f p)"

lemma perm_paths: "CURR_PERMISSIONS_FILE \<noteq> TEMP_PERMISSIONS_FILE" "BOOT_PERMISSIONS_FILE \<noteq> CURR_PERMISSIONS_FILE"
  by (simp_all add: BOOT_PERMISSIONS_FILE_def CURR_PERMISSIONS_FILE_def TEMP_PERMISSIONS_FILE_def)

lemma perm_search: "perm_rep us f \<Longrightarrow> file_search_uint CURR_PERMISSIONS_FILE u f = (if u \<in> set us then 0 else 1)"
  by (simp add: perm_rep_def file_search_uint_def fopen_r_def search_loop_scanned)

lemma perm_add:
  assumes "perm_rep us f"
  shows "\<exists>f'. add_uid_permissions_file u f = (0, f') \<and> perm_rep (if u \<in> set us then us else us @ [u]) f'"
  using assms perm_search [OF assms, of u]
  by (simp add: add_uid_permissions_file_def perm_rep_def fopen_a_def fputs_def uid_text_def)

lemma perm_del:
  assumes "perm_rep us f"
  shows "\<exists>f'. del_uid_permissions_file u f = (0, f') \<and> perm_rep (filter (\<lambda>v. v \<noteq> u) us) f'"
proof (cases "u \<in> set us")
  case False
  then have "filter (\<lambda>v. v \<noteq> u) us = us" by (auto intro: filter_True)
  with False assms perm_search [OF assms, of u] show ?thesis by (simp add: del_uid_permissions_file_def)
next
  case True
  let ?f = "f\<lparr>files := (files f)(TEMP_PERMISSIONS_FILE \<mapsto> [])\<rparr>"
  have "filter_loop u (uid_text us) ?f =
      ?f\<lparr>files := (files ?f)(TEMP_PERMISSIONS_FILE \<mapsto> [] @ uid_text (filter (\<lambda>v. v \<noteq> u) (scanned (uid_text us))))\<rparr>"
    by (rule filter_loop_text) simp
  with True assms perm_search [OF assms, of u] perm_paths show ?thesis
    by (simp add: del_uid_permissions_file_def perm_rep_def fopen_r_def fopen_w_def remove_file_def rename_file_def Let_def)
qed

text \<open>
  C20. The permissions file behaves like a list of user identifiers: a check succeeds exactly
  for the identifiers in it, adding one puts it at the end unless it is present, deleting
  one removes every occurrence and no other identifier, clearing empties it, and restoring
  gives the identifiers of the boot file.
\<close>

theorem permissions_refine_list:
  assumes "perm_rep us f"
  shows "(check_permissions_file u f = 0) = (u \<in> set us) \<and>
    (\<exists>f'. add_uid_permissions_file u f = (0, f') \<and> perm_rep (if u \<in> set us then us else us @ [u]) f') \<and>
    (\<exists>f'. del_uid_permissions_file u f = (0, f') \<and> perm_rep (filter (\<lambda>v. v \<noteq> u) us) f') \<and>
    (\<exists>f'. clear_permissions_file f = (0, f') \<and> perm_rep [] f') \<and>
    (files f BOOT_PERMISSIONS_FILE = Some (uid_text bs) \<longrightarrow>
      (\<exists>f'. restore_permissions_file f = (0, f') \<and> perm_rep bs f'))"
proof -
  have "(check_permissions_file u f = 0) = (u \<in> set us)"
    using perm_search [OF assms, of u] by (simp add: check_permissions_file_def)
  moreover have "\<exists>f'. clear_permissions_file f = (0, f') \<and> perm_rep [] f'"
    using assms by (simp add: clear_permissions_file_def fopen_w_def perm_rep_def uid_text_def)
  moreover have "\<exists>f'. restore_permissions_file f = (0, f') \<and> perm_rep bs f'"
    if "files f BOOT_PERMISSIONS_FILE = Some (uid_text bs)"
    using assms that
    by (simp add: restore_permissions_file_def file_copy_def fopen_r_def fopen_w_def perm_rep_def fputs_def)
  ultimately show ?thesis using perm_add [OF assms] perm_del [OF assms] by blast
qed

definition example_perm :: filesystem where
  "example_perm = \<lparr>files = [CURR_PERMISSIONS_FILE \<mapsto> uid_text [0, 1000]], readable = (\<lambda>_. True), writable = (\<lambda>_. True),
     accepts = (\<lambda>_ _. True), dirents = (\<lambda>_. None)\<rparr>"

theorem permissions_refine_list_witness:
  "check_permissions_file 1000 example_perm = 0 \<and>
   (\<exists>f'. del_uid_permissions_file 1000 example_perm = (0, f') \<and> perm_rep [0] f')"
proof -
  have "perm_rep [0, 1000] example_perm" by (simp add: perm_rep_def example_perm_def)
  from permissions_refine_list [OF this, of 1000 "[]"] show ?thesis by simp
qed

text \<open>
  Adding relies on the newline at the end of the file: without it the new identifier is
  joined to the last one. Here user 34 is added to a file with the text ``12'', and the
  users that may connect afterwards are not 12 and 34 but user 1234.
\<close>

lemma add_needs_newline:
  assumes f: "files f CURR_PERMISSIONS_FILE = Some ''12''" "readable f CURR_PERMISSIONS_FILE" "writable f CURR_PERMISSIONS_FILE"
  shows "\<exists>f'. add_uid_permissions_file 34 f = (0, f') \<and> (\<forall>u. check_permissions_file u f' = 0 \<longleftrightarrow> u = 1234)"
proof -
  have txt12: "''12'' = [] @ show_nat (unat (12 :: uid)) @ []" and joined: "''12'' @ uid_line 34 = uid_text [1234]"
    by (simp_all add: uid_line_def uid_text_def show_nat.simps digit_char_def char_of_def bit_0)
  have "scan_uint ''12'' = Some (12, [])" unfolding txt12 by (rule scan_uint_show) (simp_all add: ends_number_def)
  moreover have "scan_uint [] = None" by (simp add: scan_uint_def scan_decimal_spaces)
  ultimately have "scanned ''12'' = [12]" by (subst scanned.simps) (simp, subst scanned.simps, simp)
  then have "add_uid_permissions_file 34 f = (0, f\<lparr>files := (files f)(CURR_PERMISSIONS_FILE \<mapsto> uid_text [1234])\<rparr>)"
    using f joined by (simp add: add_uid_permissions_file_def file_search_uint_def fopen_r_def fopen_a_def fputs_def
        search_loop_scanned)
  moreover have "check_permissions_file u (f\<lparr>files := (files f)(CURR_PERMISSIONS_FILE \<mapsto> uid_text [1234])\<rparr>) = 0 \<longleftrightarrow> u = 1234" for u
    using f(2) by (simp add: check_iff fopen_r_def)
  ultimately show ?thesis by auto
qed

end
