(* ===== verification/Daemon_Sets.thy ===== *)
theory Daemon_Sets
  imports Daemon_Values Permissions
begin

text \<open>
  \<^verbatim>\<open>daemon/pwrapi_set.c\<close>, \<^verbatim>\<open>daemon/pwrapi_socket.c\<close> and the rest of
  \<^verbatim>\<open>daemon/pwrapi_worker.c\<close>: how the daemon arbitrates between the clients that set the
  same attribute. For every control file (path) it keeps the list of the requested values,
  the most restrictive one first; the first value is the one that should be in the file.
  The first request for a path saves the value found in the file as the default, which
  takes part in the list for good. When a client disconnects, its values are taken back.

  Requests and sockets live at addresses; \<open>None\<close> is an access to a released one. The
  hash tables are maps from the path: their keys point into requests that stay allocated as
  long as the entry exists.
\<close>

abbreviation PWR_ROLE_RM :: int where "PWR_ROLE_RM \<equiv> 4"
abbreviation PWR_ROLE_NOT_SPECIFIED :: int where "PWR_ROLE_NOT_SPECIFIED \<equiv> - 2"

record set_info_t =
  si_setreq :: powerapi_setreq_t
  si_skinfo :: "addr option"
  si_timestamp :: "64 word"

record ucred =
  cr_pid :: int
  cr_uid :: uid
  cr_gid :: "32 word"

record socket_info_t =
  sk_sockid :: int
  sk_cred :: ucred
  sk_role :: int
  sk_context_name :: "string option"
  sk_my_changes :: "string \<rightharpoonup> addr"
  sk_seqnum :: "64 word"

text \<open>A response on a socket: return value, sequence number, log levels.\<close>

record powerapi_response_t =
  resp_retval :: int
  resp_sequence :: "64 word"
  resp_loglvl :: "(int \<times> int) option"

text \<open>
  The state of the daemon. \<open>ticks\<close> are the future readings of the clock, \<open>sent\<close> the
  responses written so far with the socket they went to.
\<close>

record daemon =
  d_next :: addr
  sets :: "addr \<rightharpoonup> set_info_t"
  socks :: "addr \<rightharpoonup> socket_info_t"
  open_sockets :: "int \<rightharpoonup> addr"
  def_values :: "string \<rightharpoonup> addr"
  all_changes :: "string \<rightharpoonup> addr list"
  work_queue :: "addr list"
  ticks :: "nat \<Rightarrow> 64 word"
  sent :: "(int \<times> powerapi_response_t) list"
  fsys :: filesystem

definition g_get_real_time :: "'a daemon_scheme \<Rightarrow> 64 word \<times> 'a daemon_scheme" where
  "g_get_real_time d = (ticks d 0, d\<lparr>ticks := (\<lambda>n. ticks d (Suc n))\<rparr>)"

subsection \<open>Priority of requests\<close>

text \<open>C comparison of doubles: NaN is not equal to itself.\<close>

definition fp_eq :: "fp \<Rightarrow> fp \<Rightarrow> bool" where
  "fp_eq x y \<longleftrightarrow> x = y \<and> x \<noteq> NaN"

definition value_compare :: "int \<Rightarrow> 64 word \<Rightarrow> 64 word \<Rightarrow> int" where
  "value_compare data_type v1 v2 =
     (if data_type = PWR_ATTR_DATA_UINT64 then if v1 = v2 then 0 else if v1 < v2 then - 1 else 1
      else if data_type = PWR_ATTR_DATA_DOUBLE then
        let f1 = double_of_bits v1; f2 = double_of_bits v2 in
        if fp_eq f1 f2 then 0 else if f1 < f2 then - 1 else 1
      else 0)"

definition gov_compare :: "set_info_t \<Rightarrow> set_info_t \<Rightarrow> int" where
  "gov_compare s1 s2 =
     (let g1 = sr_value (si_setreq s1); g2 = sr_value (si_setreq s2); userspace = word_of_int PWR_GOV_LINUX_USERSPACE in
      if g1 = g2 then 0
      else if g1 = userspace then - 1
      else if g2 = userspace then 1
      else if si_timestamp s1 > si_timestamp s2 then - 1 else 1)"

definition attr_value_comp :: "set_info_t \<Rightarrow> set_info_t \<Rightarrow> int" where
  "attr_value_comp s1 s2 =
     (let sr1 = si_setreq s1; sr2 = si_setreq s2; attribute = sr_attribute sr1 in
      if attribute = PWR_ATTR_CSTATE_LIMIT \<or> attribute = PWR_ATTR_FREQ_REQ \<or>
         attribute = PWR_ATTR_FREQ_LIMIT_MAX \<or> attribute = PWR_ATTR_POWER_LIMIT_MAX
      then value_compare (sr_data_type sr1) (sr_value sr1) (sr_value sr2)
      else if attribute = PWR_ATTR_FREQ_LIMIT_MIN \<or> attribute = PWR_ATTR_POWER_LIMIT_MIN
      then value_compare (sr_data_type sr1) (sr_value sr2) (sr_value sr1)
      else if attribute = PWR_ATTR_GOV then gov_compare s1 s2
      else 0)"

text \<open>\<^verbatim>\<open>g_slist_insert_sorted\<close>: before the first element that the new one does not exceed.\<close>

fun g_slist_insert_sorted :: "(addr \<Rightarrow> addr \<Rightarrow> int option) \<Rightarrow> addr \<Rightarrow> addr list \<Rightarrow> addr list option" where
  "g_slist_insert_sorted cmp x [] = Some [x]"
| "g_slist_insert_sorted cmp x (y # ys) =
     do {
       c \<leftarrow> cmp x y;
       if c > 0 then do { zs \<leftarrow> g_slist_insert_sorted cmp x ys; Some (y # zs) } else Some (x # y # ys)
     }"

definition set_comp :: "'a daemon_scheme \<Rightarrow> addr \<Rightarrow> addr \<Rightarrow> int option" where
  "set_comp d a b = do { s1 \<leftarrow> sets d a; s2 \<leftarrow> sets d b; Some (attr_value_comp s1 s2) }"

subsection \<open>The tables\<close>

text \<open>The hash table that \<^verbatim>\<open>set_insert\<close> and \<^verbatim>\<open>set_remove\<close> are told to update.\<close>

datatype table_ref = NoTable | DefValues | MyChanges addr

definition table_update :: "table_ref \<Rightarrow> string \<Rightarrow> addr option \<Rightarrow> 'a daemon_scheme \<Rightarrow> 'a daemon_scheme option" where
  "table_update t path v d =
     (case t of
        NoTable \<Rightarrow> Some d
      | DefValues \<Rightarrow> Some (d\<lparr>def_values := (def_values d)(path := v)\<rparr>)
      | MyChanges k \<Rightarrow>
          do {
            sk \<leftarrow> socks d k;
            Some (d\<lparr>socks := (socks d)(k \<mapsto> sk\<lparr>sk_my_changes := (sk_my_changes sk)(path := v)\<rparr>)\<rparr>)
          })"

definition changes :: "'a daemon_scheme \<Rightarrow> string \<Rightarrow> addr list" where
  "changes d path = (case all_changes d path of None \<Rightarrow> [] | Some l \<Rightarrow> l)"

definition set_insert :: "addr \<Rightarrow> table_ref \<Rightarrow> 'a daemon_scheme \<Rightarrow> 'a daemon_scheme option" where
  "set_insert a t d =
     do {
       st \<leftarrow> sets d a;
       let path = sr_path (si_setreq st);
       d \<leftarrow> table_update t path (Some a) d;
       slist \<leftarrow> g_slist_insert_sorted (set_comp d) a (changes d path);
       Some (d\<lparr>all_changes := (all_changes d)(path \<mapsto> slist)\<rparr>)
     }"

definition set_remove :: "addr \<Rightarrow> table_ref \<Rightarrow> 'a daemon_scheme \<Rightarrow> 'a daemon_scheme option" where
  "set_remove a t d =
     do {
       st \<leftarrow> sets d a;
       let path = sr_path (si_setreq st);
       d \<leftarrow> table_update t path None d;
       Some (d\<lparr>all_changes := (all_changes d)(path \<mapsto> remove1 a (changes d path))\<rparr>)
     }"

definition set_destroy :: "addr \<Rightarrow> 'a daemon_scheme \<Rightarrow> 'a daemon_scheme option" where
  "set_destroy a d = do { _ \<leftarrow> sets d a; Some (d\<lparr>sets := (sets d)(a := None)\<rparr>) }"

definition set_create_item :: "powerapi_setreq_t \<Rightarrow> addr option \<Rightarrow> 'a daemon_scheme \<Rightarrow> addr \<times> 'a daemon_scheme" where
  "set_create_item setreq skinfo d =
     (d_next d, d\<lparr>d_next := Suc (d_next d),
        sets := (sets d)(d_next d \<mapsto> \<lparr>si_setreq = setreq, si_skinfo = skinfo, si_timestamp = 0\<rparr>)\<rparr>)"

definition top_set :: "'a daemon_scheme \<Rightarrow> string \<Rightarrow> set_info_t option" where
  "top_set d path = (case changes d path of [] \<Rightarrow> None | a # _ \<Rightarrow> sets d a)"

definition apply_set :: "libc_double \<Rightarrow> powerapi_setreq_t \<Rightarrow> 'a daemon_scheme \<Rightarrow> bool \<times> 'a daemon_scheme" where
  "apply_set D r d = (let (ok, f) = write_attr_value D r (fsys d) in (ok, d\<lparr>fsys := f\<rparr>))"

text \<open>The request is printed first, with the number of its socket.\<close>

definition set_rollback :: "libc_double \<Rightarrow> addr \<Rightarrow> 'a daemon_scheme \<Rightarrow> 'a daemon_scheme option" where
  "set_rollback D a d =
     do {
       st \<leftarrow> sets d a;
       _ \<leftarrow> (case si_skinfo st of None \<Rightarrow> Some () | Some k \<Rightarrow> map_option (\<lambda>_. ()) (socks d k));
       d \<leftarrow> set_remove a NoTable d;
       top \<leftarrow> top_set d (sr_path (si_setreq st));
       set_destroy a (if attr_value_comp st top < 0 then snd (apply_set D (si_setreq top) d) else d)
     }"

subsection \<open>Sockets\<close>

definition is_persistent :: "addr option \<Rightarrow> 'a daemon_scheme \<Rightarrow> bool option" where
  "is_persistent skinfo d =
     (case skinfo of
        None \<Rightarrow> Some True
      | Some k \<Rightarrow> do { sk \<leftarrow> socks d k; Some (cr_uid (sk_cred sk) = 0 \<and> sk_role sk = PWR_ROLE_RM) })"

definition socket_construct :: "int \<Rightarrow> ucred \<Rightarrow> 'a daemon_scheme \<Rightarrow> 'a daemon_scheme" where
  "socket_construct client_socket cred d =
     (let k = d_next d in
      d\<lparr>d_next := Suc k,
        socks := (socks d)(k \<mapsto> \<lparr>sk_sockid = client_socket, sk_cred = cred, sk_role = PWR_ROLE_NOT_SPECIFIED,
                               sk_context_name = None, sk_my_changes = Map.empty, sk_seqnum = 0\<rparr>),
        open_sockets := (open_sockets d)(client_socket \<mapsto> k)\<rparr>)"

text \<open>
  \<^verbatim>\<open>g_hash_table_foreach_remove\<close> visits the entries in an order of its own: \<open>order\<close> is
  that order, and has to list the paths of the table.
\<close>

fun rollback_all :: "libc_double \<Rightarrow> (string \<rightharpoonup> addr) \<Rightarrow> string list \<Rightarrow> 'a daemon_scheme \<Rightarrow> 'a daemon_scheme option" where
  "rollback_all D tbl [] d = Some d"
| "rollback_all D tbl (path # paths) d =
     do { a \<leftarrow> tbl path; d \<leftarrow> set_rollback D a d; rollback_all D tbl paths d }"

definition table_order :: "(string \<rightharpoonup> addr) \<Rightarrow> string list \<Rightarrow> bool" where
  "table_order tbl order \<longleftrightarrow> distinct order \<and> dom tbl = set order"

definition socket_destruct :: "libc_double \<Rightarrow> int \<Rightarrow> string list \<Rightarrow> 'a daemon_scheme \<Rightarrow> 'a daemon_scheme option" where
  "socket_destruct D client_socket order d =
     (case open_sockets d client_socket of
        None \<Rightarrow> Some d
      | Some k \<Rightarrow>
          do {
            let d = d\<lparr>open_sockets := (open_sockets d)(client_socket := None)\<rparr>;
            sk \<leftarrow> socks d k;
            d \<leftarrow> rollback_all D (sk_my_changes sk) order d;
            Some (d\<lparr>socks := (socks d)(k := None)\<rparr>)
          })"

definition socket_lookup :: "int \<Rightarrow> 'a daemon_scheme \<Rightarrow> addr option" where
  "socket_lookup client_socket d = open_sockets d client_socket"

definition send_response :: "addr \<Rightarrow> powerapi_response_t \<Rightarrow> 'a daemon_scheme \<Rightarrow> 'a daemon_scheme option" where
  "send_response k resp d =
     do {
       sk \<leftarrow> socks d k;
       Some (d\<lparr>socks := (socks d)(k \<mapsto> sk\<lparr>sk_seqnum := sk_seqnum sk + 1\<rparr>),
               sent := sent d @ [(sk_sockid sk, resp\<lparr>resp_sequence := sk_seqnum sk\<rparr>)]\<rparr>)
     }"

definition send_ret_code_response :: "addr \<Rightarrow> int \<Rightarrow> 'a daemon_scheme \<Rightarrow> 'a daemon_scheme option" where
  "send_ret_code_response k ret_code d =
     send_response k \<lparr>resp_retval = ret_code, resp_sequence = 0, resp_loglvl = None\<rparr> d"

subsection \<open>The worker\<close>

definition set_value :: "addr \<Rightarrow> 64 word \<Rightarrow> 'a daemon_scheme \<Rightarrow> 'a daemon_scheme option" where
  "set_value a v d =
     do { st \<leftarrow> sets d a; Some (d\<lparr>sets := (sets d)(a \<mapsto> st\<lparr>si_setreq := (si_setreq st)\<lparr>sr_value := v\<rparr>\<rparr>)\<rparr>) }"

definition stamp :: "addr \<Rightarrow> 'a daemon_scheme \<Rightarrow> 'a daemon_scheme option" where
  "stamp a d =
     do {
       let (now, d) = g_get_real_time d;
       st \<leftarrow> sets d a;
       Some (d\<lparr>sets := (sets d)(a \<mapsto> st\<lparr>si_timestamp := now\<rparr>)\<rparr>)
     }"

text \<open>
  The first part of \<^verbatim>\<open>worker_process_item\<close>: create or replace the default. The result
  says whether the item is processed further.
\<close>

definition update_default :: "libc_double \<Rightarrow> addr \<Rightarrow> addr \<Rightarrow> bool \<Rightarrow> 'a daemon_scheme \<Rightarrow> (bool \<times> 'a daemon_scheme) option" where
  "update_default D newset k persist d =
     do {
       new \<leftarrow> sets d newset;
       (defset, d) \<leftarrow>
         (case def_values d (sr_path (si_setreq new)) of
            None \<Rightarrow> Some (set_create_item (si_setreq new) None d)
          | Some defset \<Rightarrow> do { d \<leftarrow> set_remove defset DefValues d; Some (defset, d) });
       def \<leftarrow> sets d defset;
       case (if persist then Some (sr_value (si_setreq new)) else read_attr_value D (si_setreq def) (fsys d)) of
         None \<Rightarrow>
           do {
             d \<leftarrow> send_ret_code_response k PWR_RET_FAILURE d;
             d \<leftarrow> set_destroy defset d;
             d \<leftarrow> set_destroy newset d;
             Some (False, d)
           }
       | Some v \<Rightarrow>
           do {
             d \<leftarrow> set_value defset v d;
             d \<leftarrow> stamp defset d;
             d \<leftarrow> set_insert defset DefValues d;
             Some (True, d)
           }
     }"

text \<open>
  The second part: an earlier request of the same client for the path is dropped, the new
  one is entered, and goes to the file if it compares equal to the first of the list.
\<close>

definition serve_request :: "libc_double \<Rightarrow> addr \<Rightarrow> addr \<Rightarrow> string \<Rightarrow> 'a daemon_scheme \<Rightarrow> 'a daemon_scheme option" where
  "serve_request D newset k path d =
     do {
       sk \<leftarrow> socks d k;
       d \<leftarrow> (case sk_my_changes sk path of
                None \<Rightarrow> Some d
              | Some oldset \<Rightarrow> do { d \<leftarrow> set_remove oldset (MyChanges k) d; set_destroy oldset d });
       d \<leftarrow> stamp newset d;
       d \<leftarrow> set_insert newset (MyChanges k) d;
       new \<leftarrow> sets d newset;
       topset \<leftarrow> top_set d path;
       let (ok, d) = (if attr_value_comp new topset = 0 then apply_set D (si_setreq new) d else (True, d));
       send_ret_code_response k (if ok then PWR_RET_SUCCESS else PWR_RET_FAILURE) d
     }"

definition worker_process_item :: "libc_double \<Rightarrow> addr \<Rightarrow> 'a daemon_scheme \<Rightarrow> 'a daemon_scheme option" where
  "worker_process_item D newset d =
     do {
       new \<leftarrow> sets d newset;
       let path = sr_path (si_setreq new);
       k \<leftarrow> si_skinfo new;
       persist \<leftarrow> is_persistent (Some k) d;
       (go, d) \<leftarrow> (if def_values d path = None \<or> persist then update_default D newset k persist d else Some (True, d));
       if go then serve_request D newset k path d else Some d
     }"

text \<open>One iteration of the worker thread; an empty queue blocks it. An item without a socket only wakes it up.\<close>

definition worker_step :: "libc_double \<Rightarrow> 'a daemon_scheme \<Rightarrow> 'a daemon_scheme option" where
  "worker_step D d =
     (case work_queue d of
        [] \<Rightarrow> Some d
      | a # q \<Rightarrow>
          do {
            st \<leftarrow> sets d a;
            let d = d\<lparr>work_queue := q\<rparr>;
            if si_skinfo st = None then Some d else worker_process_item D a d
          })"

end
