(* ===== verification/Log_Levels.thy ===== *)
theory Log_Levels
  imports Pwr_Prelude
begin

text \<open>
  The levels of \<^verbatim>\<open>lib/log.c\<close>: which messages go to the standard error stream. The mask
  has one bit per message type; debug and trace levels are translated to bits and back.
\<close>

abbreviation LOG_TYPE_TRACE1 :: nat where "LOG_TYPE_TRACE1 \<equiv> 6"
abbreviation LOG_TYPE_TRACE2 :: nat where "LOG_TYPE_TRACE2 \<equiv> 7"
abbreviation LOG_TYPE_TRACE3 :: nat where "LOG_TYPE_TRACE3 \<equiv> 8"
abbreviation LOG_TYPE_DEBUG1 :: nat where "LOG_TYPE_DEBUG1 \<equiv> 9"
abbreviation LOG_TYPE_DEBUG2 :: nat where "LOG_TYPE_DEBUG2 \<equiv> 10"

definition LOG_MASK_TRACE :: "64 word" where
  "LOG_MASK_TRACE = push_bit LOG_TYPE_TRACE1 1 OR push_bit LOG_TYPE_TRACE2 1 OR push_bit LOG_TYPE_TRACE3 1"

definition LOG_MASK_DEBUG :: "64 word" where
  "LOG_MASK_DEBUG = push_bit LOG_TYPE_DEBUG1 1 OR push_bit LOG_TYPE_DEBUG2 1"

definition level_to_mask :: "64 word \<Rightarrow> int \<Rightarrow> int \<Rightarrow> 64 word" where
  "level_to_mask msk D_level T_level =
     (if D_level = 0 \<and> T_level = 0 then 0
      else
        let msk = msk OR NOT (LOG_MASK_TRACE OR LOG_MASK_DEBUG);
            msk = (if D_level \<ge> 0 then msk AND NOT LOG_MASK_DEBUG else msk);
            msk = (if T_level \<ge> 0 then msk AND NOT LOG_MASK_TRACE else msk);
            msk = (if D_level \<ge> 2 then msk OR push_bit LOG_TYPE_DEBUG2 1 else msk);
            msk = (if D_level \<ge> 1 then msk OR push_bit LOG_TYPE_DEBUG1 1 else msk);
            msk = (if T_level \<ge> 3 then msk OR push_bit LOG_TYPE_TRACE3 1 else msk);
            msk = (if T_level \<ge> 2 then msk OR push_bit LOG_TYPE_TRACE2 1 else msk);
            msk = (if T_level \<ge> 1 then msk OR push_bit LOG_TYPE_TRACE1 1 else msk)
        in msk)"

text \<open>The default context: whether logging is enabled at all, whether the write thread runs, the mask.\<close>

record log_context =
  log_enabled :: bool
  log_running :: bool
  stderr_mask :: "64 word"

definition pmlog_stderr_set_level :: "int \<Rightarrow> int \<Rightarrow> log_context \<Rightarrow> int \<times> log_context" where
  "pmlog_stderr_set_level D_level T_level c =
     (if log_enabled c then (0, c\<lparr>stderr_mask := level_to_mask (stderr_mask c) D_level T_level\<rparr>) else (- 1, c))"

definition pmlog_stderr_get_level :: "log_context \<Rightarrow> (int \<times> int) option" where
  "pmlog_stderr_get_level c =
     (if log_enabled c \<and> log_running c then
        let msk = stderr_mask c in
        Some (if bit msk LOG_TYPE_DEBUG2 then 2 else if bit msk LOG_TYPE_DEBUG1 then 1 else 0,
              if bit msk LOG_TYPE_TRACE3 then 3 else if bit msk LOG_TYPE_TRACE2 then 2
              else if bit msk LOG_TYPE_TRACE1 then 1 else 0)
      else None)"

definition clip :: "int \<Rightarrow> int \<Rightarrow> int \<Rightarrow> int" where
  "clip level bound old = (if level < 0 then old else if level > bound then bound else level)"

lemma level_to_mask_bits:
  assumes "\<not> (d = 0 \<and> t = 0)"
  shows "bit (level_to_mask m d t) LOG_TYPE_DEBUG2 = (if d < 0 then bit m LOG_TYPE_DEBUG2 else d \<ge> 2)"
    "bit (level_to_mask m d t) LOG_TYPE_DEBUG1 = (if d < 0 then bit m LOG_TYPE_DEBUG1 else d \<ge> 1)"
    "bit (level_to_mask m d t) LOG_TYPE_TRACE3 = (if t < 0 then bit m LOG_TYPE_TRACE3 else t \<ge> 3)"
    "bit (level_to_mask m d t) LOG_TYPE_TRACE2 = (if t < 0 then bit m LOG_TYPE_TRACE2 else t \<ge> 2)"
    "bit (level_to_mask m d t) LOG_TYPE_TRACE1 = (if t < 0 then bit m LOG_TYPE_TRACE1 else t \<ge> 1)"
  using assms
  by (auto simp: level_to_mask_def Let_def LOG_MASK_TRACE_def LOG_MASK_DEBUG_def bit_or_iff bit_and_iff bit_not_iff)

text \<open>
  The levels that are set are the levels that are reported: a debug level is capped at 2
  and a trace level at 3, and a negative level leaves the old one as it is.
\<close>

theorem log_levels_roundtrip:
  assumes "log_enabled c" "pmlog_stderr_get_level c = Some (d0, t0)"
  shows "\<exists>c'. pmlog_stderr_set_level d t c = (0, c') \<and> pmlog_stderr_get_level c' = Some (clip d 2 d0, clip t 3 t0)"
proof (cases "d = 0 \<and> t = 0")
  case True
  with assms show ?thesis
    by (simp add: pmlog_stderr_set_level_def pmlog_stderr_get_level_def level_to_mask_def clip_def split: if_splits)
next
  case False
  with assms level_to_mask_bits [OF False, of "stderr_mask c"] show ?thesis
    by (auto simp: pmlog_stderr_set_level_def pmlog_stderr_get_level_def clip_def Let_def split: if_splits)
qed

theorem log_levels_roundtrip_witness:
  "\<exists>c'. pmlog_stderr_set_level 7 (- 1) \<lparr>log_enabled = True, log_running = True, stderr_mask = 0\<rparr> = (0, c') \<and>
     pmlog_stderr_get_level c' = Some (2, 0)"
  using log_levels_roundtrip [of "\<lparr>log_enabled = True, log_running = True, stderr_mask = 0\<rparr>" 0 0 7 "- 1"]
  by (simp add: pmlog_stderr_get_level_def clip_def)

end
