(* ===== verification/Daemon_Server.thy ===== *)
theory Daemon_Server
  imports Daemon_Sets Log_Levels
begin

text \<open>
  \<^verbatim>\<open>daemon/powerapid.c\<close>: the main thread of the daemon. It accepts connections, answers
  or queues the requests of the clients, and takes a client's values back when its
  connection ends. A marker file exists while clients are connected; a daemon that finds it
  at its start concludes that its predecessor crashed.

  What the system calls deliver (accepted socket, credentials, bytes read) is the argument
  of the events. The worker thread runs between the events of the main thread; that the two
  threads share their tables without a lock is not modelled.
\<close>

definition POWERAPID_STATE_DIRTY_PATH :: string where
  "POWERAPID_STATE_DIRTY_PATH = ''/var/opt/cray/powerapi/run/powerapid/dirty''"

definition POWERAPID_ALLOW_RESTART_PATH :: string where
  "POWERAPID_ALLOW_RESTART_PATH = ''/tmp/powerapid-allow-restart''"

definition MAX_CLIENT_SOCKETS :: nat where "MAX_CLIENT_SOCKETS = 300"

datatype powerapi_request_t =
    PwrAUTH (auth_role: int) (auth_name: string)
  | PwrSET powerapi_setreq_t
  | PwrLOGLVL (loglvl_dbg: int) (loglvl_trc: int)
  | PwrDUMP
  | PwrUnknown int

record server = daemon +
  num_client_sockets :: nat
  incoming :: "int set"
  logctx :: log_context
  exited :: bool

subsection \<open>Requests\<close>

definition ret_response :: "int \<Rightarrow> powerapi_response_t" where
  "ret_response r = \<lparr>resp_retval = r, resp_sequence = 0, resp_loglvl = None\<rparr>"

definition request_auth :: "addr \<Rightarrow> socket_info_t \<Rightarrow> int \<Rightarrow> string \<Rightarrow> server \<Rightarrow> powerapi_response_t \<times> server" where
  "request_auth k sk role name s =
     (if sk_role sk \<noteq> PWR_ROLE_NOT_SPECIFIED then (ret_response PWR_RET_INVALID, s)
      else (ret_response PWR_RET_SUCCESS,
            s\<lparr>socks := (socks s)(k \<mapsto> sk\<lparr>sk_role := role, sk_context_name := Some name\<rparr>)\<rparr>))"

definition request_loglvl :: "int \<Rightarrow> int \<Rightarrow> server \<Rightarrow> powerapi_response_t \<times> server" where
  "request_loglvl dbg trc s =
     (case pmlog_stderr_set_level dbg trc (logctx s) of
        (r, c) \<Rightarrow>
          if r = - 1 then (ret_response PWR_RET_INVALID, s)
          else case pmlog_stderr_get_level c of
                 None \<Rightarrow> (ret_response PWR_RET_INVALID, s\<lparr>logctx := c\<rparr>)
               | Some l \<Rightarrow> ((ret_response PWR_RET_SUCCESS)\<lparr>resp_loglvl := Some l\<rparr>, s\<lparr>logctx := c\<rparr>))"

text \<open>
  \<open>req\<close> is \<open>None\<close> when the read does not deliver a whole request: the connection was
  closed, or an error. The result is zero unless the connection has to be closed.
\<close>

definition process_client_req :: "int \<Rightarrow> powerapi_request_t option \<Rightarrow> server \<Rightarrow> (int \<times> server) option" where
  "process_client_req client_socket req s =
     (case req of
        None \<Rightarrow> Some (1, s)
      | Some r \<Rightarrow>
          (case socket_lookup client_socket s of
             None \<Rightarrow> Some (1, s)
           | Some k \<Rightarrow>
               do {
                 sk \<leftarrow> socks s k;
                 s \<leftarrow>
                   (case r of
                      PwrAUTH role name \<Rightarrow> (let (resp, s) = request_auth k sk role name s in send_response k resp s)
                    | PwrSET setreq \<Rightarrow>
                        if sk_role sk = PWR_ROLE_NOT_SPECIFIED then send_response k (ret_response PWR_RET_INVALID) s
                        else
                          let (a, s) = set_create_item setreq (Some k) s in
                          Some (s\<lparr>work_queue := work_queue s @ [a]\<rparr>)
                    | PwrLOGLVL dbg trc \<Rightarrow> (let (resp, s) = request_loglvl dbg trc s in send_response k resp s)
                    | PwrDUMP \<Rightarrow>
                        send_response k (ret_response (if cr_uid (sk_cred sk) \<noteq> 0 then PWR_RET_OP_NO_PERM else PWR_RET_SUCCESS)) s
                    | PwrUnknown _ \<Rightarrow> send_response k (ret_response PWR_RET_INVALID) s);
                 Some (0, s)
               }))"

subsection \<open>Connections\<close>

definition abort_connect_req :: "int \<Rightarrow> int \<Rightarrow> server \<Rightarrow> server" where
  "abort_connect_req client_socket ret_code s = s\<lparr>sent := sent s @ [(client_socket, ret_response ret_code)]\<rparr>"

text \<open>The accepted socket, if any, and the credentials of its peer, if they can be found out.\<close>

definition process_connect_req :: "int option \<Rightarrow> ucred option \<Rightarrow> server \<Rightarrow> int option \<times> server" where
  "process_connect_req accepted peer s =
     (case accepted of
        None \<Rightarrow> (None, s)
      | Some client_socket \<Rightarrow>
          if num_client_sockets s \<ge> MAX_CLIENT_SOCKETS then (None, abort_connect_req client_socket PWR_RET_FAILURE s)
          else case peer of
                 None \<Rightarrow> (None, abort_connect_req client_socket PWR_RET_INVALID s)
               | Some cred \<Rightarrow>
                   if check_permissions_file (cr_uid cred) (fsys s) \<noteq> 0
                   then (None, abort_connect_req client_socket PWR_RET_OP_NO_PERM s)
                   else (Some client_socket, s))"

text \<open>Creates the marker if it does not exist; the daemon exits if it cannot.\<close>

definition set_state_dirty :: "server \<Rightarrow> server" where
  "set_state_dirty s =
     (let p = POWERAPID_STATE_DIRTY_PATH; f = fsys s in
      if \<not> writable f p then s\<lparr>exited := True\<rparr>
      else if files f p \<noteq> None then s
      else s\<lparr>fsys := f\<lparr>files := (files f)(p \<mapsto> [])\<rparr>\<rparr>)"

definition set_state_clean :: "'a daemon_scheme \<Rightarrow> 'a daemon_scheme" where
  "set_state_clean s =
     (case remove_file POWERAPID_STATE_DIRTY_PATH (fsys s) of None \<Rightarrow> s | Some f \<Rightarrow> s\<lparr>fsys := f\<rparr>)"

definition connect_event :: "int option \<Rightarrow> ucred option \<Rightarrow> server \<Rightarrow> server" where
  "connect_event accepted peer s =
     (case process_connect_req accepted peer s of
        (None, s) \<Rightarrow> s
      | (Some client_socket, s) \<Rightarrow>
          let s = set_state_dirty s in
          if exited s then s
          else socket_construct client_socket (the peer)
                 (s\<lparr>num_client_sockets := num_client_sockets s + 1, incoming := insert client_socket (incoming s)\<rparr>))"

definition client_event ::
  "libc_double \<Rightarrow> int \<Rightarrow> powerapi_request_t option \<Rightarrow> string list \<Rightarrow> server \<Rightarrow> server option" where
  "client_event D client_socket req order s =
     do {
       (r, s) \<leftarrow> process_client_req client_socket req s;
       if r = 0 then Some s
       else do {
         s \<leftarrow> socket_destruct D client_socket order s;
         let s = s\<lparr>incoming := incoming s - {client_socket}, num_client_sockets := num_client_sockets s - 1\<rparr>;
         Some (if num_client_sockets s = 0 then set_state_clean s else s)
       }
     }"

subsection \<open>Start and end of the daemon\<close>

datatype startup = Running filesystem | AdminDown | StartFailure

text \<open>\<open>restart\<close> is the command line option that allows a restart.\<close>

definition check_state_dirty :: "bool \<Rightarrow> filesystem \<Rightarrow> startup" where
  "check_state_dirty restart f =
     (if files f POWERAPID_STATE_DIRTY_PATH = None then Running f
      else if \<not> (restart \<or> files f POWERAPID_ALLOW_RESTART_PATH \<noteq> None) then AdminDown
      else Running (case remove_file POWERAPID_STATE_DIRTY_PATH f of None \<Rightarrow> f | Some f \<Rightarrow> f))"

definition daemon_start :: "bool \<Rightarrow> filesystem \<Rightarrow> startup" where
  "daemon_start restart f =
     (case check_state_dirty restart f of
        Running f \<Rightarrow> (case restore_permissions_file f of (r, f) \<Rightarrow> if r \<noteq> 0 then StartFailure else Running f)
      | x \<Rightarrow> x)"

definition server_init :: "filesystem \<Rightarrow> (nat \<Rightarrow> 64 word) \<Rightarrow> log_context \<Rightarrow> server" where
  "server_init f clock c =
     \<lparr>d_next = 1, sets = Map.empty, socks = Map.empty, open_sockets = Map.empty, def_values = Map.empty,
      all_changes = Map.empty, work_queue = [], ticks = clock, sent = [], fsys = f,
      num_client_sockets = 0, incoming = {}, logctx = c, exited = False\<rparr>"

text \<open>
  The end of \<^verbatim>\<open>main\<close>. \<^verbatim>\<open>worker_stop\<close> queues an item to wake the worker, which handles at
  most one more item because the flag that keeps it running is already cleared. Then every
  client's values are taken back; \<open>order\<close> is again the order of the entries.
\<close>

definition worker_stop :: "libc_double \<Rightarrow> server \<Rightarrow> server option" where
  "worker_stop D s = worker_step D s"

fun destruct_all :: "libc_double \<Rightarrow> (int \<Rightarrow> string list) \<Rightarrow> int list \<Rightarrow> server \<Rightarrow> server option" where
  "destruct_all D order [] s = Some s"
| "destruct_all D order (fd # fds) s =
     do { s \<leftarrow> socket_destruct D fd (order fd) s; destruct_all D order fds s }"

definition daemon_shutdown :: "libc_double \<Rightarrow> (int \<Rightarrow> string list) \<Rightarrow> server \<Rightarrow> server option" where
  "daemon_shutdown D order s = do { s \<leftarrow> worker_stop D s; destruct_all D order (sorted_list_of_set (incoming s)) s }"

subsection \<open>Steps\<close>

datatype event =
    Connect "int option" "ucred option"
  | Client int "powerapi_request_t option" "string list"
  | Work

fun server_step :: "libc_double \<Rightarrow> event \<Rightarrow> server \<Rightarrow> server option" where
  "server_step D (Connect accepted peer) s = Some (connect_event accepted peer s)"
| "server_step D (Client fd req order) s = client_event D fd req order s"
| "server_step D Work s = worker_step D s"

end
