(* ===== verification/Daemon_Inv.thy ===== *)
theory Daemon_Inv
  imports Daemon_Server "HOL-Library.Multiset"
begin

text \<open>
  The invariant of the daemon's tables, and that every operation keeps it. The tables of
  the sockets are taken as one function \<open>my\<close> from socket and path; \<open>E\<close> is the set of
  paths whose default is being replaced.
\<close>

definition set_at :: "'a daemon_scheme \<Rightarrow> addr \<Rightarrow> string \<Rightarrow> addr option \<Rightarrow> bool" where
  "set_at d a p k \<longleftrightarrow> (\<exists>st. sets d a = Some st \<and> sr_path (si_setreq st) = p \<and> si_skinfo st = k)"

text \<open>A request that is allocated and in no list.\<close>

definition in_flight :: "'a daemon_scheme \<Rightarrow> addr \<Rightarrow> string \<Rightarrow> addr option \<Rightarrow> bool" where
  "in_flight d a p k \<longleftrightarrow> set_at d a p k \<and> (\<forall>q. a \<notin> set (changes d q))"

definition tables_inv :: "string set \<Rightarrow> (addr \<Rightarrow> string \<rightharpoonup> addr) \<Rightarrow> 'a daemon_scheme \<Rightarrow> bool" where
  "tables_inv E my d \<longleftrightarrow>
     (\<forall>a. sets d a \<noteq> None \<longrightarrow> a < d_next d) \<and>
     (\<forall>p a. def_values d p = Some a \<longrightarrow> set_at d a p None \<and> a \<in> set (changes d p)) \<and>
     (\<forall>k p a. my k p = Some a \<longrightarrow> set_at d a p (Some k) \<and> a \<in> set (changes d p)) \<and>
     (\<forall>p. distinct (changes d p) \<and> (p \<notin> E \<longrightarrow> changes d p \<noteq> [] \<longrightarrow> def_values d p \<noteq> None) \<and>
          (\<forall>a \<in> set (changes d p). def_values d p = Some a \<or> (\<exists>k. my k p = Some a)))"

lemma tables_invD:
  assumes "tables_inv E my d"
  shows "sets d a \<noteq> None \<Longrightarrow> a < d_next d"
    and "def_values d p = Some a \<Longrightarrow> set_at d a p None \<and> a \<in> set (changes d p)"
    and "my k p = Some a \<Longrightarrow> set_at d a p (Some k) \<and> a \<in> set (changes d p)"
    and "distinct (changes d p)"
    and "p \<notin> E \<Longrightarrow> changes d p \<noteq> [] \<Longrightarrow> def_values d p \<noteq> None"
    and "a \<in> set (changes d p) \<Longrightarrow> def_values d p = Some a \<or> (\<exists>k. my k p = Some a)"
  using assms unfolding tables_inv_def by blast+

lemma changes_path: "tables_inv E my d \<Longrightarrow> a \<in> set (changes d p) \<Longrightarrow> \<exists>k. set_at d a p k"
  by (meson tables_invD(2,3,6))

lemma changes_unique: "tables_inv E my d \<Longrightarrow> a \<in> set (changes d p) \<Longrightarrow> a \<in> set (changes d q) \<Longrightarrow> p = q"
  using changes_path [of E my d a p] changes_path [of E my d a q] by (auto simp: set_at_def)

lemma tables_inv_cong:
  assumes "sets d' = sets d" "d_next d' = d_next d" "def_values d' = def_values d" "all_changes d' = all_changes d"
  shows "tables_inv E my d' = tables_inv E my d" "in_flight d' = in_flight d" "set_at d' = set_at d" "changes d' = changes d"
proof -
  have c: "changes d' = changes d" unfolding changes_def [abs_def] assms(4) ..
  have s: "set_at d' = set_at d" unfolding set_at_def [abs_def] assms(1) ..
  show "changes d' = changes d" "set_at d' = set_at d" by fact+
  show "in_flight d' = in_flight d" unfolding in_flight_def [abs_def] c s ..
  show "tables_inv E my d' = tables_inv E my d" unfolding tables_inv_def c s assms ..
qed

subsection \<open>Lists\<close>

lemma insert_sorted_mset:
  assumes "\<And>b. b \<in> set l \<Longrightarrow> cmp a b \<noteq> None"
  shows "\<exists>l'. g_slist_insert_sorted cmp a l = Some l' \<and> mset l' = add_mset a (mset l)"
  using assms
proof (induction l)
  case (Cons b l)
  then obtain c where "cmp a b = Some c" by auto
  with Cons show ?case by auto
qed simp

lemma set_comp_Some: "sets d a \<noteq> None \<Longrightarrow> sets d b \<noteq> None \<Longrightarrow> set_comp d a b \<noteq> None"
  by (auto simp: set_comp_def)

lemma changes_upd [simp]: "changes (d\<lparr>all_changes := (all_changes e)(p \<mapsto> l)\<rparr>) q = (if q = p then l else changes e q)"
  by (simp add: changes_def)

lemma set_at_upd [simp]: "set_at (d\<lparr>all_changes := x\<rparr>) = set_at d" "set_at (d\<lparr>def_values := y\<rparr>) = set_at d"
  "set_at (d\<lparr>socks := z\<rparr>) = set_at d"
  by (simp_all add: set_at_def [abs_def])

lemma changes_upd_other [simp]: "changes (d\<lparr>def_values := y\<rparr>) = changes d" "changes (d\<lparr>socks := z\<rparr>) = changes d"
  "changes (d\<lparr>sets := v\<rparr>) = changes d"
  by (simp_all add: changes_def [abs_def])

subsection \<open>Operations on the tables\<close>

lemma insert_list:
  assumes inv: "tables_inv E my d" and fl: "in_flight d a p k" and d1: "changes d1 = changes d" "sets d1 = sets d"
  shows "\<exists>l. g_slist_insert_sorted (set_comp d1) a (changes d1 p) = Some l \<and> set l = insert a (set (changes d p)) \<and> distinct l"
proof -
  have "set_comp d1 a b \<noteq> None" if "b \<in> set (changes d p)" for b
  proof (rule set_comp_Some)
    show "sets d1 a \<noteq> None" using fl d1(2) by (auto simp: in_flight_def set_at_def)
    show "sets d1 b \<noteq> None" using changes_path [OF inv that] d1(2) by (auto simp: set_at_def)
  qed
  then obtain l where l: "g_slist_insert_sorted (set_comp d1) a (changes d1 p) = Some l" "mset l = add_mset a (mset (changes d p))"
    using insert_sorted_mset [of "changes d1 p" "set_comp d1" a] d1(1) by auto
  then have "set l = insert a (set (changes d p))" by (metis set_mset_add_mset_insert set_mset_mset)
  moreover have "distinct l"
  proof -
    have "distinct (a # changes d p)" using fl tables_invD(4) [OF inv, of p] by (auto simp: in_flight_def)
    with l(2) show ?thesis by (metis distinct_count_atmost_1 mset.simps(2) set_mset_mset)
  qed
  ultimately show ?thesis using l(1) by blast
qed

lemma insert_default:
  assumes inv: "tables_inv E my d" and fl: "in_flight d a p None" and no: "def_values d p = None"
  shows "\<exists>l. set_insert a DefValues d = Some (d\<lparr>def_values := (def_values d)(p \<mapsto> a), all_changes := (all_changes d)(p \<mapsto> l)\<rparr>) \<and>
    set l = insert a (set (changes d p)) \<and>
    tables_inv (E - {p}) my (d\<lparr>def_values := (def_values d)(p \<mapsto> a), all_changes := (all_changes d)(p \<mapsto> l)\<rparr>)"
proof -
  let ?d1 = "d\<lparr>def_values := (def_values d)(p \<mapsto> a)\<rparr>"
  from insert_list [OF inv fl, of ?d1] obtain l where
    l: "g_slist_insert_sorted (set_comp ?d1) a (changes ?d1 p) = Some l" "set l = insert a (set (changes d p))" "distinct l" by auto
  from fl obtain st where st: "sets d a = Some st" "sr_path (si_setreq st) = p" by (auto simp: in_flight_def set_at_def)
  have "set_insert a DefValues d = Some (?d1\<lparr>all_changes := (all_changes d)(p \<mapsto> l)\<rparr>)"
    using st l(1) by (simp add: set_insert_def table_update_def)
  moreover have "tables_inv (E - {p}) my (?d1\<lparr>all_changes := (all_changes ?d1)(p \<mapsto> l)\<rparr>)"
    unfolding tables_inv_def using tables_invD [OF inv] fl no l(2,3)
    by (auto simp: in_flight_def) (metis option.distinct(1))
  ultimately show ?thesis using l(2) by auto
qed

lemma insert_request:
  assumes inv: "tables_inv E my d" and fl: "in_flight d a p (Some k)" and no: "my k p = None"
    and df: "def_values d p \<noteq> None" and sk: "socks d k = Some sk"
  shows "\<exists>l. set_insert a (MyChanges k) d =
      Some (d\<lparr>socks := (socks d)(k \<mapsto> sk\<lparr>sk_my_changes := (sk_my_changes sk)(p \<mapsto> a)\<rparr>), all_changes := (all_changes d)(p \<mapsto> l)\<rparr>) \<and>
    g_slist_insert_sorted (set_comp d) a (changes d p) = Some l \<and> set l = insert a (set (changes d p)) \<and>
    tables_inv E (my(k := (my k)(p \<mapsto> a))) (d\<lparr>all_changes := (all_changes d)(p \<mapsto> l)\<rparr>)"
proof -
  let ?d1 = "d\<lparr>socks := (socks d)(k \<mapsto> sk\<lparr>sk_my_changes := (sk_my_changes sk)(p \<mapsto> a)\<rparr>)\<rparr>"
  have cmp: "set_comp ?d1 = set_comp d" by (simp add: set_comp_def [abs_def])
  from insert_list [OF inv fl, of ?d1] obtain l where
    l: "g_slist_insert_sorted (set_comp ?d1) a (changes ?d1 p) = Some l" "set l = insert a (set (changes d p))" "distinct l" by auto
  from fl obtain st where st: "sets d a = Some st" "sr_path (si_setreq st) = p" by (auto simp: in_flight_def set_at_def)
  have "set_insert a (MyChanges k) d = Some (?d1\<lparr>all_changes := (all_changes d)(p \<mapsto> l)\<rparr>)"
    using st l(1) sk by (simp add: set_insert_def table_update_def)
  moreover have "tables_inv E (my(k := (my k)(p \<mapsto> a))) (d\<lparr>all_changes := (all_changes d)(p \<mapsto> l)\<rparr>)" (is "tables_inv E ?my ?d")
  proof -
    have c2: "set_at d b q (Some j) \<and> b \<in> set (changes ?d q)" if "?my j q = Some b" for j q b
      using tables_invD(3) [OF inv, of j q b] that fl l(2) by (auto simp: in_flight_def split: if_splits)
    have c3: "def_values d q = Some b \<or> (\<exists>j. ?my j q = Some b)" if "b \<in> set (changes ?d q)" for q b
    proof (cases "b = a \<and> q = p")
      case False
      with that l(2) have "b \<in> set (changes d q)" by (auto split: if_splits)
      from tables_invD(6) [OF inv this] show ?thesis
      proof
        assume "\<exists>j. my j q = Some b"
        then obtain j where "my j q = Some b" ..
        with no have "?my j q = Some b" by auto
        then show ?thesis by blast
      qed simp
    qed auto
    show ?thesis unfolding tables_inv_def using c2 c3 tables_invD(1,2,4,5) [OF inv] df l(2,3) by auto
  qed
  ultimately show ?thesis using l(1,2) cmp by auto
qed

lemma removed_list:
  assumes "tables_inv E my d" "a \<in> set (changes d p)"
  shows "set (remove1 a (changes d p)) = set (changes d p) - {a}" "distinct (remove1 a (changes d p))"
  using tables_invD(4) [OF assms(1), of p] by simp_all

lemma remove_default:
  assumes inv: "tables_inv E my d" and df: "def_values d p = Some a"
  defines "d' \<equiv> d\<lparr>def_values := (def_values d)(p := None), all_changes := (all_changes d)(p \<mapsto> remove1 a (changes d p))\<rparr>"
  shows "set_remove a DefValues d = Some d'" "tables_inv (insert p E) my d'" "in_flight d' a p None"
proof -
  have a: "set_at d a p None" "a \<in> set (changes d p)" using tables_invD(2) [OF inv df] by simp_all
  then show "set_remove a DefValues d = Some d'"
    by (auto simp: set_remove_def table_update_def set_at_def d'_def Let_def)
  note l = removed_list [OF inv a(2)]
  have other: "my k q = Some b \<Longrightarrow> b \<noteq> a" for k q b
    using a(1) tables_invD(3) [OF inv, of k q b] by (auto simp: set_at_def)
  have only: "a \<notin> set (changes d q)" if "q \<noteq> p" for q using changes_unique [OF inv a(2), of q] that by auto
  show "in_flight d' a p None" using a(1) l only by (auto simp: in_flight_def d'_def)
  have c1: "set_at d b q None \<and> b \<in> set (changes d' q)" if "(if q = p then None else def_values d q) = Some b" for q b
    using tables_invD(2) [OF inv, of q b] that l by (auto simp: d'_def split: if_splits)
  have c2: "set_at d b q (Some k) \<and> b \<in> set (changes d' q)" if "my k q = Some b" for k q b
    using tables_invD(3) [OF inv that] other [OF that] l by (auto simp: d'_def)
  have c3: "(if q = p then None else def_values d q) = Some b \<or> (\<exists>k. my k q = Some b)" if "b \<in> set (changes d' q)" for q b
    using tables_invD(6) [OF inv, of b q] that l df by (auto simp: d'_def split: if_splits)
  have "tables_inv (insert p E) my d' =
    ((\<forall>a. sets d a \<noteq> None \<longrightarrow> a < d_next d) \<and>
     (\<forall>q. distinct (changes d' q) \<and> (q \<notin> insert p E \<longrightarrow> changes d' q \<noteq> [] \<longrightarrow> def_values d q \<noteq> None)))"
    unfolding tables_inv_def using c1 c2 c3 by (auto simp: d'_def split: if_splits)
  also have "\<dots>" using tables_invD(1,4,5) [OF inv] l by (auto simp: d'_def)
  finally show "tables_inv (insert p E) my d'" .
qed

lemma remove_request:
  assumes inv: "tables_inv E my d" and mine: "my k p = Some a"
  defines "d' \<equiv> d\<lparr>all_changes := (all_changes d)(p \<mapsto> remove1 a (changes d p))\<rparr>"
  shows "set_remove a NoTable d = Some d'"
    "socks d k = Some sk \<Longrightarrow> set_remove a (MyChanges k) d =
      Some (d'\<lparr>socks := (socks d)(k \<mapsto> sk\<lparr>sk_my_changes := (sk_my_changes sk)(p := None)\<rparr>)\<rparr>)"
    "tables_inv E (my(k := (my k)(p := None))) d'" "in_flight d' a p (Some k)"
proof -
  have a: "set_at d a p (Some k)" "a \<in> set (changes d p)" using tables_invD(3) [OF inv mine] by simp_all
  then show "set_remove a NoTable d = Some d'"
    "socks d k = Some sk \<Longrightarrow> set_remove a (MyChanges k) d =
      Some (d'\<lparr>socks := (socks d)(k \<mapsto> sk\<lparr>sk_my_changes := (sk_my_changes sk)(p := None)\<rparr>)\<rparr>)"
    by (auto simp: set_remove_def table_update_def set_at_def d'_def Let_def)
  note l = removed_list [OF inv a(2)]
  have other: "my j q = Some a \<Longrightarrow> j = k \<and> q = p" for j q
    using a(1) tables_invD(3) [OF inv, of j q a] by (auto simp: set_at_def)
  have df: "def_values d q \<noteq> Some a" for q using a(1) tables_invD(2) [OF inv, of q a] by (auto simp: set_at_def)
  have only: "a \<notin> set (changes d q)" if "q \<noteq> p" for q using changes_unique [OF inv a(2), of q] that by auto
  show "in_flight d' a p (Some k)" using a(1) l only by (auto simp: in_flight_def d'_def)
  have c1: "set_at d b q None \<and> b \<in> set (changes d' q)" if "def_values d q = Some b" for q b
    using tables_invD(2) [OF inv that] df [of q] that l by (auto simp: d'_def)
  have c2: "set_at d b q (Some j) \<and> b \<in> set (changes d' q)" if "(my(k := (my k)(p := None))) j q = Some b" for j q b
    using tables_invD(3) [OF inv, of j q b] other [of j q] that l by (auto simp: d'_def split: if_splits)
  have c3: "def_values d q = Some b \<or> (\<exists>j. (my(k := (my k)(p := None))) j q = Some b)" if "b \<in> set (changes d' q)" for q b
  proof -
    have b: "b \<in> set (changes d q)" "q = p \<Longrightarrow> b \<noteq> a" using that l by (auto simp: d'_def split: if_splits)
    from tables_invD(6) [OF inv b(1)] show ?thesis
    proof
      assume "\<exists>j. my j q = Some b"
      then obtain j where "my j q = Some b" ..
      with mine b(2) have "(my(k := (my k)(p := None))) j q = Some b" by auto
      then show ?thesis by blast
    qed simp
  qed
  have "tables_inv E (my(k := (my k)(p := None))) d' =
    ((\<forall>a. sets d a \<noteq> None \<longrightarrow> a < d_next d) \<and>
     (\<forall>q. distinct (changes d' q) \<and> (q \<notin> E \<longrightarrow> changes d' q \<noteq> [] \<longrightarrow> def_values d q \<noteq> None)))"
    unfolding tables_inv_def using c1 c2 c3 by (auto simp: d'_def)
  also have "\<dots>"
  proof -
    have "changes d p \<noteq> []" using a(2) by auto
    then show ?thesis using tables_invD(1,4,5) [OF inv] l by (auto simp: d'_def)
  qed
  finally show "tables_inv E (my(k := (my k)(p := None))) d'" .
qed

lemma set_at_sets [simp]:
  "set_at (d\<lparr>sets := (sets e)(a := x)\<rparr>) b p k =
    (if b = a then \<exists>st. x = Some st \<and> sr_path (si_setreq st) = p \<and> si_skinfo st = k else set_at e b p k)"
  by (auto simp: set_at_def)

text \<open>Changing a request without changing its path or socket; releasing a request that is in no list; a new request.\<close>

lemma modify_set:
  assumes "sets d a = Some st" "sr_path (si_setreq st') = sr_path (si_setreq st)" "si_skinfo st' = si_skinfo st"
  shows "tables_inv E my d \<Longrightarrow> tables_inv E my (d\<lparr>sets := (sets d)(a \<mapsto> st')\<rparr>)"
    "in_flight (d\<lparr>sets := (sets d)(a \<mapsto> st')\<rparr>) = in_flight d"
proof -
  have eq: "set_at (d\<lparr>sets := (sets d)(a \<mapsto> st')\<rparr>) = set_at d"
    using assms by (intro ext) (auto simp: set_at_def)
  then show "in_flight (d\<lparr>sets := (sets d)(a \<mapsto> st')\<rparr>) = in_flight d" by (simp add: in_flight_def [abs_def])
  show "tables_inv E my d \<Longrightarrow> tables_inv E my (d\<lparr>sets := (sets d)(a \<mapsto> st')\<rparr>)"
    unfolding tables_inv_def eq using assms(1) by auto
qed

lemma destroy_set:
  assumes "in_flight d a p k"
  shows "set_destroy a d = Some (d\<lparr>sets := (sets d)(a := None)\<rparr>)"
    "tables_inv E my d \<Longrightarrow> tables_inv E my (d\<lparr>sets := (sets d)(a := None)\<rparr>)"
    "in_flight d b q j \<Longrightarrow> b \<noteq> a \<Longrightarrow> in_flight (d\<lparr>sets := (sets d)(a := None)\<rparr>) b q j"
proof -
  show "set_destroy a d = Some (d\<lparr>sets := (sets d)(a := None)\<rparr>)"
    using assms by (auto simp: set_destroy_def in_flight_def set_at_def)
  show "in_flight d b q j \<Longrightarrow> b \<noteq> a \<Longrightarrow> in_flight (d\<lparr>sets := (sets d)(a := None)\<rparr>) b q j"
    by (simp add: in_flight_def)
  assume inv: "tables_inv E my d"
  have other: "b \<noteq> a" if "b \<in> set (changes d q)" for b q using assms that by (auto simp: in_flight_def)
  then have "def_values d q \<noteq> Some a" "my j q \<noteq> Some a" for j q
    using tables_invD(2) [OF inv, of q a] tables_invD(3) [OF inv, of j q a] by blast+
  with inv show "tables_inv E my (d\<lparr>sets := (sets d)(a := None)\<rparr>)"
    unfolding tables_inv_def by (auto split: if_splits)
qed

lemma create_set:
  assumes inv: "tables_inv E my d" and cr: "set_create_item r k d = (a, d')"
  shows "a = d_next d" "d' = d\<lparr>d_next := Suc (d_next d), sets := (sets d)(a \<mapsto> \<lparr>si_setreq = r, si_skinfo = k, si_timestamp = 0\<rparr>)\<rparr>"
    "tables_inv E my d'" "in_flight d' a (sr_path r) k" "in_flight d b q j \<Longrightarrow> in_flight d' b q j \<and> b \<noteq> a"
proof -
  show a: "a = d_next d" and d': "d' = d\<lparr>d_next := Suc (d_next d), sets := (sets d)(a \<mapsto> \<lparr>si_setreq = r, si_skinfo = k, si_timestamp = 0\<rparr>)\<rparr>"
    using cr by (auto simp: set_create_item_def)
  have new: "sets d a = None" using tables_invD(1) [OF inv, of a] a by (cases "sets d a") auto
  then have nochange: "a \<notin> set (changes d q)" for q using changes_path [OF inv, of a q] by (auto simp: set_at_def)
  have eq: "set_at d b q j \<Longrightarrow> set_at d' b q j \<and> b \<noteq> a" for b q j using new by (auto simp: set_at_def d')
  have ch: "changes d' = changes d" by (simp add: d' changes_def [abs_def])
  show "in_flight d' a (sr_path r) k" using nochange ch by (simp add: in_flight_def) (simp add: d' set_at_def)
  show "in_flight d b q j \<Longrightarrow> in_flight d' b q j \<and> b \<noteq> a" using eq ch by (auto simp: in_flight_def)
  have "sets d' b \<noteq> None \<Longrightarrow> b < d_next d'" for b using tables_invD(1) [OF inv, of b] a by (auto simp: d' split: if_splits)
  moreover have "def_values d' = def_values d" by (simp add: d')
  ultimately show "tables_inv E my d'" unfolding tables_inv_def ch using eq tables_invD(2-6) [OF inv] by (simp add: Ball_def)
qed

subsection \<open>The invariant\<close>

definition my_of :: "'a daemon_scheme \<Rightarrow> addr \<Rightarrow> string \<rightharpoonup> addr" where
  "my_of d k = (case socks d k of None \<Rightarrow> Map.empty | Some sk \<Rightarrow> sk_my_changes sk)"

definition socks_ok :: "'a daemon_scheme \<Rightarrow> bool" where
  "socks_ok d \<longleftrightarrow>
     (\<forall>fd k. open_sockets d fd = Some k \<longrightarrow> (\<exists>sk. socks d k = Some sk \<and> sk_sockid sk = fd)) \<and>
     (\<forall>k sk. socks d k = Some sk \<longrightarrow> open_sockets d (sk_sockid sk) = Some k \<and> k < d_next d)"

text \<open>Every queued request belongs to a client that is still connected and is in no list yet.\<close>

definition pending_ok :: "'a daemon_scheme \<Rightarrow> bool" where
  "pending_ok d \<longleftrightarrow> distinct (work_queue d) \<and>
     (\<forall>a \<in> set (work_queue d). \<exists>p k. in_flight d a p (Some k) \<and> socks d k \<noteq> None)"

definition daemon_inv :: "'a daemon_scheme \<Rightarrow> bool" where
  "daemon_inv d \<longleftrightarrow> tables_inv {} (my_of d) d \<and> socks_ok d \<and> pending_ok d"

text \<open>No file disappears.\<close>

definition files_kept :: "filesystem \<Rightarrow> filesystem \<Rightarrow> bool" where
  "files_kept f f' \<longleftrightarrow> dom (files f) \<subseteq> dom (files f') \<and> writable f' = writable f"

lemma files_kept_refl [simp]: "files_kept f f"
  by (simp add: files_kept_def)

lemma files_kept_trans: "files_kept f g \<Longrightarrow> files_kept g h \<Longrightarrow> files_kept f h"
  unfolding files_kept_def by (metis subset_trans)

lemma write_control_kept: "files_kept f (snd (write_control p t f))"
  by (auto simp: write_control_def files_kept_def)

lemma write_cstate_loop_kept: "files_kept f (snd (write_cstate_loop p v i n f))"
proof (induction p v i n f rule: write_cstate_loop.induct)
  case (2 path v i k f)
  obtain b f1 where f1: "file_write_uint64 (cstate_file path i) (if i > v then 1 else 0) f = (b, f1)" by (cases "file_write_uint64 (cstate_file path i) (if i > v then 1 else 0) f")
  have "files_kept f f1" using write_control_kept f1 unfolding file_write_uint64_def by (metis snd_conv)
  moreover have "files_kept f1 (snd (write_cstate_loop path v (Suc i) k f1))" if b
    using 2 [of b f1] that f1 by simp
  ultimately show ?case using f1 by (cases b) (auto dest: files_kept_trans)
qed simp

lemma write_attr_value_kept: "files_kept f (snd (write_attr_value D r f))"
  unfolding write_attr_value_def write_cstate_limit_def write_governor_def write_value_by_type_def
    file_write_uint64_def file_write_double_def file_write_string_def Let_def
  using write_cstate_loop_kept write_control_kept by simp

text \<open>What the handling of a request leaves alone; \<open>X\<close> are the requests it may consume.\<close>

definition keeps :: "addr set \<Rightarrow> 'a daemon_scheme \<Rightarrow> 'a daemon_scheme \<Rightarrow> bool" where
  "keeps X d d' \<longleftrightarrow>
     work_queue d' = work_queue d \<and> open_sockets d' = open_sockets d \<and> d_next d \<le> d_next d' \<and>
     (\<forall>b q j. b \<notin> X \<longrightarrow> in_flight d b q (Some j) \<longrightarrow> in_flight d' b q (Some j)) \<and>
     (\<forall>k. map_option (\<lambda>sk. (sk_sockid sk, sk_cred sk, sk_role sk)) (socks d' k) =
          map_option (\<lambda>sk. (sk_sockid sk, sk_cred sk, sk_role sk)) (socks d k)) \<and>
     files_kept (fsys d) (fsys d') \<and> daemon.more d' = daemon.more d"

lemma keeps_refl [simp]: "keeps X d d"
  by (simp add: keeps_def)

lemma keeps_trans: "keeps X d1 d2 \<Longrightarrow> keeps Y d2 d3 \<Longrightarrow> keeps (X \<union> Y) d1 d3"
  unfolding keeps_def by (auto intro: files_kept_trans)

lemma keeps_socks:
  assumes "keeps X d d'"
  shows "socks_ok d \<Longrightarrow> socks_ok d'" "(socks d' k = None) = (socks d k = None)"
proof -
  have eq: "map_option (\<lambda>sk. (sk_sockid sk, sk_cred sk, sk_role sk)) (socks d' k) =
      map_option (\<lambda>sk. (sk_sockid sk, sk_cred sk, sk_role sk)) (socks d k)" for k
    using assms by (simp add: keeps_def)
  show "(socks d' k = None) = (socks d k = None)" using eq [of k] by (cases "socks d' k"; cases "socks d k") simp_all
  have fwd: "\<exists>sk'. socks d' k = Some sk' \<and> sk_sockid sk' = sk_sockid sk" if "socks d k = Some sk" for k sk
    using eq [of k] that by (cases "socks d' k") simp_all
  have bwd: "\<exists>sk. socks d k = Some sk \<and> sk_sockid sk = sk_sockid sk'" if "socks d' k = Some sk'" for k sk'
    using eq [of k] that by (cases "socks d k") simp_all
  have "open_sockets d' = open_sockets d" "d_next d \<le> d_next d'" using assms by (simp_all add: keeps_def)
  then show "socks_ok d \<Longrightarrow> socks_ok d'"
    unfolding socks_ok_def by (intro conjI allI impI) (use fwd bwd in \<open>fastforce\<close>)+
qed

lemma my_of_upd:
  "socks d' = (socks d)(k \<mapsto> sk') \<Longrightarrow> my_of d' = (my_of d)(k := sk_my_changes sk')"
  by (auto simp: my_of_def fun_eq_iff)

lemma send_response_ok:
  assumes "socks d k \<noteq> None"
  shows "\<exists>d'. send_response k r d = Some d' \<and> keeps {} d d' \<and> my_of d' = my_of d \<and> fsys d' = fsys d \<and>
    tables_inv E my d' = tables_inv E my d \<and> in_flight d' = in_flight d \<and> def_values d' = def_values d \<and>
    all_changes d' = all_changes d \<and> sets d' = sets d"
proof -
  from assms obtain sk where sk: "socks d k = Some sk" by auto
  let ?d = "d\<lparr>socks := (socks d)(k \<mapsto> sk\<lparr>sk_seqnum := sk_seqnum sk + 1\<rparr>),
    sent := sent d @ [(sk_sockid sk, r\<lparr>resp_sequence := sk_seqnum sk\<rparr>)]\<rparr>"
  have cong: "tables_inv E my ?d = tables_inv E my d" "in_flight ?d = in_flight d" by (rule tables_inv_cong; simp)+
  have "my_of ?d = my_of d" using sk by (auto simp: my_of_def fun_eq_iff)
  moreover have "keeps {} d ?d" using sk unfolding keeps_def cong(2) by auto
  ultimately show ?thesis using sk cong by (simp add: send_response_def)
qed

subsection \<open>Handling a request\<close>

lemma stamp_eq: "sets d a = Some st \<Longrightarrow>
  stamp a d = Some (d\<lparr>ticks := (\<lambda>n. ticks d (Suc n)), sets := (sets d)(a \<mapsto> st\<lparr>si_timestamp := ticks d 0\<rparr>)\<rparr>)"
  by (simp add: stamp_def g_get_real_time_def)

text \<open>States that differ in the sockets, the clock, the responses and the files only.\<close>

definition same_tables :: "'a daemon_scheme \<Rightarrow> 'a daemon_scheme \<Rightarrow> bool" where
  "same_tables d d' \<longleftrightarrow> sets d' = sets d \<and> d_next d' = d_next d \<and> def_values d' = def_values d \<and> all_changes d' = all_changes d"

lemma same_tables_cong:
  assumes "same_tables d d'"
  shows "tables_inv E my d' = tables_inv E my d" "in_flight d' = in_flight d" "changes d' = changes d" "def_values d' = def_values d"
  using assms tables_inv_cong(1) [of d' d E my] tables_inv_cong(2,4) [of d' d] by (simp_all add: same_tables_def)

lemma keepsI:
  assumes "work_queue d' = work_queue d" "open_sockets d' = open_sockets d" "d_next d \<le> d_next d'"
    and "\<And>b q j. b \<notin> X \<Longrightarrow> in_flight d b q (Some j) \<Longrightarrow> in_flight d' b q (Some j)" "socks d' = socks d" "files_kept (fsys d) (fsys d')"
    and "daemon.more d' = daemon.more d"
  shows "keeps X d d'"
  using assms by (simp add: keeps_def)

text \<open>The value and the time stamp of a request that is in no list.\<close>

lemma refresh_ok:
  assumes inv: "tables_inv E my d" and fl: "in_flight d a p k"
  shows "\<exists>d1 d2. set_value a v d = Some d1 \<and> stamp a d1 = Some d2 \<and> tables_inv E my d2 \<and> in_flight d2 = in_flight d \<and>
    def_values d2 = def_values d \<and> keeps {} d d2 \<and> socks d2 = socks d \<and> fsys d2 = fsys d"
proof -
  from fl obtain st where st: "sets d a = Some st" by (auto simp: in_flight_def set_at_def)
  let ?st1 = "st\<lparr>si_setreq := (si_setreq st)\<lparr>sr_value := v\<rparr>\<rparr>" and ?tk = "\<lambda>n. ticks d (Suc n)"
  let ?st2 = "?st1\<lparr>si_timestamp := ticks d 0\<rparr>"
  let ?d1 = "d\<lparr>sets := (sets d)(a \<mapsto> ?st1)\<rparr>" and ?d0 = "d\<lparr>sets := (sets d)(a \<mapsto> ?st2)\<rparr>"
  let ?d2 = "?d0\<lparr>ticks := ?tk\<rparr>"
  have eq: "set_value a v d = Some ?d1" "stamp a ?d1 = Some ?d2"
    using st by (simp_all add: set_value_def stamp_def g_get_real_time_def)
  have mod: "tables_inv E my ?d0" "in_flight ?d0 = in_flight d"
    using modify_set [OF st, of ?st2] inv by simp_all
  have "same_tables ?d0 ?d2" by (simp add: same_tables_def)
  note cong = same_tables_cong [OF this]
  have "keeps {} d ?d2" by (rule keepsI) (simp_all add: cong mod)
  with mod cong eq show ?thesis by (intro exI [of _ ?d1] exI [of _ ?d2]) simp
qed

lemma insert_default_ok:
  assumes inv: "tables_inv E my d" and fl: "in_flight d a p None" and no: "def_values d p = None"
  shows "\<exists>d'. set_insert a DefValues d = Some d' \<and> tables_inv (E - {p}) my d' \<and> def_values d' p \<noteq> None \<and>
    keeps {} d d' \<and> socks d' = socks d \<and> fsys d' = fsys d"
proof -
  from insert_default [OF assms] obtain l where
    l: "set_insert a DefValues d = Some (d\<lparr>def_values := (def_values d)(p \<mapsto> a), all_changes := (all_changes d)(p \<mapsto> l)\<rparr>)"
      "set l = insert a (set (changes d p))"
      "tables_inv (E - {p}) my (d\<lparr>def_values := (def_values d)(p \<mapsto> a), all_changes := (all_changes d)(p \<mapsto> l)\<rparr>)" (is "tables_inv _ _ ?d")
    by blast
  have "in_flight ?d b q (Some j)" if "in_flight d b q (Some j)" for b q j
    using that fl l(2) by (auto simp: in_flight_def set_at_def)
  then have "keeps {} d ?d" by (intro keepsI) simp_all
  with l(1,3) show ?thesis by auto
qed

lemma default_item_ok:
  assumes inv: "tables_inv {} my d" and fl: "in_flight d new p (Some k)" and st: "sets d new = Some st" "sr_path (si_setreq st) = p"
  shows "\<exists>defset d'. (case def_values d p of
            None \<Rightarrow> Some (set_create_item (si_setreq st) None d)
          | Some defset \<Rightarrow> do { d \<leftarrow> set_remove defset DefValues d; Some (defset, d) }) = Some (defset, d') \<and>
    tables_inv {p} my d' \<and> in_flight d' defset p None \<and> def_values d' p = None \<and> in_flight d' new p (Some k) \<and>
    (def_values d p = None \<longrightarrow> tables_inv {} my d' \<and> defset \<noteq> new) \<and> keeps {} d d' \<and> socks d' = socks d \<and> fsys d' = fsys d"
proof (cases "def_values d p")
  case None
  obtain a d' where cr: "set_create_item (si_setreq st) None d = (a, d')" by (cases "set_create_item (si_setreq st) None d") auto
  note c = create_set [OF inv cr]
  have "tables_inv {p} my d'" using c(3) by (auto simp: tables_inv_def)
  moreover have "keeps {} d d'" using c(5) by (intro keepsI) (simp_all add: c(2))
  ultimately show ?thesis using None cr c(3,4) c(5) [OF fl] st(2) by (auto simp: c(2))
next
  case (Some a)
  note r = remove_default [OF inv Some]
  let ?d = "d\<lparr>def_values := (def_values d)(p := None), all_changes := (all_changes d)(p \<mapsto> remove1 a (changes d p))\<rparr>"
  have fl': "in_flight ?d b q (Some j)" if "in_flight d b q (Some j)" for b q j
    using that set_remove1_subset [of a "changes d p"] by (auto simp: in_flight_def)
  then have "keeps {} d ?d" by (intro keepsI) simp_all
  with r Some fl' [OF fl] show ?thesis by simp
qed

lemma update_default_ok:
  assumes inv: "tables_inv {} (my_of d) d" and fl: "in_flight d new p (Some k)" and sk: "socks d k \<noteq> None"
    and pre: "persist \<or> def_values d p = None"
  shows "\<exists>go d'. update_default D new k persist d = Some (go, d') \<and> tables_inv {} (my_of d) d' \<and> my_of d' = my_of d \<and>
    keeps {new} d d' \<and> fsys d' = fsys d \<and> (\<not> go \<longrightarrow> sets d' new = None) \<and>
    (go \<longrightarrow> in_flight d' new p (Some k) \<and> def_values d' p \<noteq> None)"
proof -
  from fl obtain st where st: "sets d new = Some st" "sr_path (si_setreq st) = p" by (auto simp: in_flight_def set_at_def)
  from default_item_ok [OF inv fl st] obtain a d1 where
    d1: "(case def_values d p of
            None \<Rightarrow> Some (set_create_item (si_setreq st) None d)
          | Some defset \<Rightarrow> do { d \<leftarrow> set_remove defset DefValues d; Some (defset, d) }) = Some (a, d1)"
      "tables_inv {p} (my_of d) d1" "in_flight d1 a p None" "def_values d1 p = None" "in_flight d1 new p (Some k)"
      "def_values d p = None \<longrightarrow> tables_inv {} (my_of d) d1 \<and> a \<noteq> new" "keeps {} d d1" "socks d1 = socks d" "fsys d1 = fsys d"
    by (elim exE conjE) (rule that; assumption)
  from d1(3) obtain def where def: "sets d1 a = Some def" by (auto simp: in_flight_def set_at_def)
  let ?v = "if persist then Some (sr_value (si_setreq st)) else read_attr_value D (si_setreq def) (fsys d1)"
  show ?thesis
  proof (cases ?v)
    case (Some v)
    from refresh_ok [OF d1(2,3), of v] obtain d2 d3 where
      d3: "set_value a v d1 = Some d2" "stamp a d2 = Some d3" "tables_inv {p} (my_of d) d3" "in_flight d3 = in_flight d1"
        "def_values d3 = def_values d1" "keeps {} d1 d3" "socks d3 = socks d1" "fsys d3 = fsys d1" by blast
    from insert_default_ok [OF d3(3), of a p] d1(3,4) d3(4,5) obtain d4 where
      d4: "set_insert a DefValues d3 = Some d4" "tables_inv {} (my_of d) d4" "def_values d4 p \<noteq> None" "keeps {} d3 d4"
        "socks d4 = socks d3" "fsys d4 = fsys d3" by auto
    have "update_default D new k persist d = Some (True, d4)"
      using Some d1(1) d3(1,2) d4(1) st def by (simp add: update_default_def)
    moreover have keep: "keeps {} d d4" using keeps_trans [OF keeps_trans [OF d1(7) d3(6)] d4(4)] by simp
    moreover have "my_of d4 = my_of d" using d1(8) d3(7) d4(5) by (simp add: my_of_def [abs_def])
    moreover have "in_flight d4 new p (Some k)" using keep fl by (simp add: keeps_def)
    ultimately show ?thesis using d4(2,3,6) d3(8) d1(9) keeps_trans [of "{}" d d4 "{new}" d4] by auto
  next
    case None
    then have "\<not> persist" by (auto split: if_splits)
    with pre d1(6) have inv1: "tables_inv {} (my_of d) d1" and ne: "a \<noteq> new" by auto
    have "socks d1 k \<noteq> None" using sk d1(8) by simp
    from send_response_ok [OF this, of "\<lparr>resp_retval = PWR_RET_FAILURE, resp_sequence = 0, resp_loglvl = None\<rparr>" "{}" "my_of d"]
    obtain d2 where d2: "send_ret_code_response k PWR_RET_FAILURE d1 = Some d2" "keeps {} d1 d2" "my_of d2 = my_of d1" "fsys d2 = fsys d1"
      "tables_inv {} (my_of d) d2" "in_flight d2 = in_flight d1" using inv1 by (auto simp: send_ret_code_response_def)
    have fl2: "in_flight d2 a p None" "in_flight d2 new p (Some k)" using d1(3,5) d2(6) by simp_all
    note x = destroy_set [OF fl2(1)]
    let ?d3 = "d2\<lparr>sets := (sets d2)(a := None)\<rparr>"
    note y = destroy_set [OF x(3) [OF fl2(2) ne [symmetric]]]
    let ?d4 = "?d3\<lparr>sets := (sets ?d3)(new := None)\<rparr>"
    have "update_default D new k persist d = Some (False, ?d4)"
      using None d1(1) d2(1) st def x(1) y(1) by (simp add: update_default_def)
    moreover have "keeps {new} d2 ?d4"
    proof (rule keepsI)
      fix b q j assume b: "b \<notin> {new}" "in_flight d2 b q (Some j)"
      with fl2(1) have "b \<noteq> a" by (auto simp: in_flight_def set_at_def)
      from y(3) [OF x(3) [OF b(2) this]] b(1) show "in_flight ?d4 b q (Some j)" by simp
    qed simp_all
    then have "keeps {new} d ?d4" using keeps_trans [OF keeps_trans [OF d1(7) d2(2)]] by simp
    moreover have "tables_inv {} (my_of d) ?d4" using y(2) x(2) d2(5) by blast
    moreover have "my_of ?d4 = my_of d" using d2(3) d1(8) by (simp add: my_of_def [abs_def])
    ultimately show ?thesis using d2(4) d1(9) by (intro exI [of _ False] exI [of _ ?d4]) simp
  qed
qed

lemma in_flight_not_mine: "tables_inv E my d \<Longrightarrow> in_flight d a p k \<Longrightarrow> my j q \<noteq> Some a"
  using tables_invD(3) [of E my d j q a] by (auto simp: in_flight_def)

text \<open>An earlier request of the same client for the same path is taken out and released.\<close>

lemma replace_old_ok:
  assumes inv: "tables_inv {} (my_of d) d" and sk: "socks d k = Some sk"
  shows "\<exists>d'. (case sk_my_changes sk p of
            None \<Rightarrow> Some d
          | Some oldset \<Rightarrow> do { d \<leftarrow> set_remove oldset (MyChanges k) d; set_destroy oldset d }) = Some d' \<and>
    tables_inv {} (my_of d') d' \<and> my_of d' k p = None \<and> keeps {} d d' \<and> def_values d' = def_values d \<and> fsys d' = fsys d \<and>
    changes d' p = (case sk_my_changes sk p of None \<Rightarrow> changes d p | Some oldset \<Rightarrow> remove1 oldset (changes d p)) \<and>
    sets d' = sets d |` (- set_option (sk_my_changes sk p)) \<and> ticks d' = ticks d"
proof (cases "sk_my_changes sk p")
  case None
  then show ?thesis using inv sk by (simp add: my_of_def restrict_map_def)
next
  case (Some old)
  then have mine: "my_of d k p = Some old" using sk by (simp add: my_of_def)
  note r = remove_request [OF inv mine]
  let ?d1 = "d\<lparr>all_changes := (all_changes d)(p \<mapsto> remove1 old (changes d p))\<rparr>"
  let ?sk = "sk\<lparr>sk_my_changes := (sk_my_changes sk)(p := None)\<rparr>"
  let ?d2 = "?d1\<lparr>socks := (socks d)(k \<mapsto> ?sk)\<rparr>"
  have "same_tables ?d1 ?d2" by (simp add: same_tables_def)
  note cong = same_tables_cong [OF this]
  have my2: "my_of ?d2 = (my_of d)(k := (my_of d k)(p := None))" using sk by (auto simp: my_of_def fun_eq_iff)
  have fl2: "in_flight ?d2 old p (Some k)" using r(4) cong by simp
  note x = destroy_set [OF fl2]
  let ?d3 = "?d2\<lparr>sets := (sets ?d2)(old := None)\<rparr>"
  have my3: "my_of ?d3 = my_of ?d2" by (simp add: my_of_def [abs_def])
  have "tables_inv {} (my_of ?d3) ?d3" unfolding my3 my2 by (rule x(2)) (use r(3) cong in simp)
  moreover have "in_flight ?d3 b q (Some j)" if b: "in_flight d b q (Some j)" for b q j
  proof (rule x(3))
    show "b \<noteq> old" using in_flight_not_mine [OF inv b, of k p] mine by auto
    show "in_flight ?d2 b q (Some j)"
      unfolding cong(2) using b set_remove1_subset [of old "changes d p"] by (auto simp: in_flight_def)
  qed
  then have "keeps {} d ?d3" using sk by (auto simp: keeps_def)
  moreover have "changes ?d3 p = remove1 old (changes d p)" by (simp add: changes_def)
  moreover have "(sets d)(old := None) = sets d |` (- {old})" by (auto simp: restrict_map_def)
  ultimately show ?thesis using Some r(2) [OF sk] x(1) my2 my3 by (intro exI [of _ ?d3]) simp
qed

text \<open>The new request is stamped and entered.\<close>

lemma store_request_ok:
  assumes inv: "tables_inv {} (my_of d) d" and fl: "in_flight d a p (Some k)" and no: "my_of d k p = None"
    and df: "def_values d p \<noteq> None" and sk: "socks d k \<noteq> None" and st: "sets d a = Some st"
  shows "\<exists>d1 d2 l. stamp a d = Some d1 \<and> set_insert a (MyChanges k) d1 = Some d2 \<and> tables_inv {} (my_of d2) d2 \<and>
    keeps {a} d d2 \<and> fsys d2 = fsys d \<and> def_values d2 = def_values d \<and> sets d2 = (sets d)(a \<mapsto> st\<lparr>si_timestamp := ticks d 0\<rparr>) \<and>
    g_slist_insert_sorted (set_comp d2) a (changes d p) = Some l \<and> changes d2 p = l \<and> l \<noteq> [] \<and> a \<in> set l"
proof -
  let ?st = "st\<lparr>si_timestamp := ticks d 0\<rparr>" and ?tk = "\<lambda>n. ticks d (Suc n)"
  let ?d0 = "d\<lparr>sets := (sets d)(a \<mapsto> ?st)\<rparr>" and ?d1 = "d\<lparr>ticks := ?tk, sets := (sets d)(a \<mapsto> ?st)\<rparr>"
  have mod: "tables_inv {} (my_of d) ?d0" "in_flight ?d0 = in_flight d" using modify_set [OF st, of ?st] inv by simp_all
  have "same_tables ?d0 ?d1" by (simp add: same_tables_def)
  note cong = same_tables_cong [OF this]
  from sk obtain s where s: "socks ?d1 k = Some s" by auto
  have "tables_inv {} (my_of d) ?d1" "in_flight ?d1 a p (Some k)" using mod cong fl by simp_all
  from insert_request [OF this no _ s] df obtain l where
    l: "set_insert a (MyChanges k) ?d1 =
        Some (?d1\<lparr>socks := (socks ?d1)(k \<mapsto> s\<lparr>sk_my_changes := (sk_my_changes s)(p \<mapsto> a)\<rparr>), all_changes := (all_changes ?d1)(p \<mapsto> l)\<rparr>)"
      "g_slist_insert_sorted (set_comp ?d1) a (changes ?d1 p) = Some l" "set l = insert a (set (changes ?d1 p))"
      "tables_inv {} ((my_of d)(k := (my_of d k)(p \<mapsto> a))) (?d1\<lparr>all_changes := (all_changes ?d1)(p \<mapsto> l)\<rparr>)"
    by auto
  let ?d2 = "?d1\<lparr>socks := (socks ?d1)(k \<mapsto> s\<lparr>sk_my_changes := (sk_my_changes s)(p \<mapsto> a)\<rparr>), all_changes := (all_changes ?d1)(p \<mapsto> l)\<rparr>"
  have my2: "my_of ?d2 = (my_of d)(k := (my_of d k)(p \<mapsto> a))" using s by (auto simp: my_of_def fun_eq_iff)
  have "same_tables (?d1\<lparr>all_changes := (all_changes ?d1)(p \<mapsto> l)\<rparr>) ?d2" by (simp add: same_tables_def)
  from same_tables_cong(1) [OF this] l(4) my2 have "tables_inv {} (my_of ?d2) ?d2" by simp
  moreover have ch: "changes ?d1 = changes d" by (simp add: changes_def [abs_def])
  moreover have "in_flight ?d2 b q (Some j)" if b: "in_flight d b q (Some j)" "b \<noteq> a" for b q j
    using b l(3) ch by (auto simp: in_flight_def set_at_def changes_def)
  then have "keeps {a} d ?d2" using s by (auto simp: keeps_def)
  moreover have "set_comp ?d2 = set_comp ?d1" by (simp add: set_comp_def [abs_def])
  moreover have "l \<noteq> []" "a \<in> set l" using l(3) by auto
  ultimately show ?thesis using stamp_eq [OF st] l(1,2)
    by (intro exI [of _ ?d1] exI [of _ ?d2] exI [of _ l]) (simp add: changes_def)
qed

lemma top_set_Some: "tables_inv E my d \<Longrightarrow> changes d p \<noteq> [] \<Longrightarrow> \<exists>st. top_set d p = Some st"
  using changes_path [of E my d "hd (changes d p)" p] by (cases "changes d p") (auto simp: top_set_def set_at_def)

lemma apply_set_same: "same_tables d (snd (apply_set D r d)) \<and> keeps {} d (snd (apply_set D r d)) \<and>
    my_of (snd (apply_set D r d)) = my_of d \<and> socks (snd (apply_set D r d)) = socks d"
proof -
  have "snd (apply_set D r d) = d\<lparr>fsys := snd (write_attr_value D r (fsys d))\<rparr>" by (simp add: apply_set_def split: prod.splits)
  moreover have "same_tables d (d\<lparr>fsys := f\<rparr>)" for f by (simp add: same_tables_def)
  moreover have "keeps {} d (d\<lparr>fsys := f\<rparr>)"
    if "files_kept (fsys d) f" for f
    using that same_tables_cong(2) [of d "d\<lparr>fsys := f\<rparr>"] by (intro keepsI) (simp_all add: same_tables_def)
  ultimately show ?thesis using write_attr_value_kept [of "fsys d" D r] by (simp add: my_of_def [abs_def])
qed

text \<open>The requests for a path without the client's own.\<close>

definition others :: "'a daemon_scheme \<Rightarrow> addr \<Rightarrow> string \<Rightarrow> addr list" where
  "others d k p = (case my_of d k p of None \<Rightarrow> changes d p | Some old \<Rightarrow> remove1 old (changes d p))"

text \<open>The value goes to the file exactly when the request compares equal to the first of the list.\<close>

definition worker_files :: "libc_double \<Rightarrow> addr \<Rightarrow> string \<Rightarrow> 'a daemon_scheme \<Rightarrow> 'a daemon_scheme \<Rightarrow> bool" where
  "worker_files D a p d d' \<longleftrightarrow>
     (case (sets d' a, top_set d' p) of
        (Some new, Some topset) \<Rightarrow>
          a \<in> set (changes d' p) \<and>
          fsys d' = (if attr_value_comp new topset = 0 then snd (write_attr_value D (si_setreq new) (fsys d)) else fsys d)
      | _ \<Rightarrow> fsys d' = fsys d)"

lemma apply_set_fsys: "fsys (snd (apply_set D r d)) = snd (write_attr_value D r (fsys d))"
  by (simp add: apply_set_def split: prod.splits)

lemma serve_request_ok:
  assumes inv: "tables_inv {} (my_of d) d" and fl: "in_flight d new p (Some k)" and sk: "socks d k \<noteq> None"
    and df: "def_values d p \<noteq> None" and st: "sets d new = Some st"
  shows "\<exists>d'. serve_request D new k p d = Some d' \<and> tables_inv {} (my_of d') d' \<and> keeps {new} d d' \<and> worker_files D new p d d' \<and>
    sets d' = (sets d)(new \<mapsto> st\<lparr>si_timestamp := ticks d 0\<rparr>) |` (- set_option (my_of d k p)) \<and>
    g_slist_insert_sorted (set_comp d') new (others d k p) = Some (changes d' p) \<and> def_values d' = def_values d"
proof -
  from sk obtain sk1 where sk1: "socks d k = Some sk1" by auto
  then have old: "sk_my_changes sk1 p = my_of d k p" by (simp add: my_of_def)
  from replace_old_ok [OF inv sk1, of p, unfolded old, folded others_def] obtain d2 where
    d2: "(case my_of d k p of
          None \<Rightarrow> Some d
        | Some oldset \<Rightarrow> do { d \<leftarrow> set_remove oldset (MyChanges k) d; set_destroy oldset d }) = Some d2"
      "tables_inv {} (my_of d2) d2" "my_of d2 k p = None" "keeps {} d d2" "def_values d2 = def_values d" "fsys d2 = fsys d"
      "changes d2 p = others d k p" "sets d2 = sets d |` (- set_option (my_of d k p))" "ticks d2 = ticks d"
    by (elim exE conjE) (rule that; assumption)
  have fl2: "in_flight d2 new p (Some k)" using d2(4) fl by (simp add: keeps_def)
  then obtain st2 where "sets d2 new = Some st2" by (auto simp: in_flight_def set_at_def)
  then have st2: "sets d2 new = Some st" "new \<notin> set_option (my_of d k p)" using d2(8) st by (auto simp: restrict_map_def split: if_splits)
  have sk2: "socks d2 k \<noteq> None" using keeps_socks(2) [OF d2(4), of k] sk1 by simp
  from store_request_ok [OF d2(2) fl2 d2(3) _ sk2 st2(1)] df d2(5) obtain d3 d4 l where
    d4: "stamp new d2 = Some d3" "set_insert new (MyChanges k) d3 = Some d4" "tables_inv {} (my_of d4) d4" "keeps {new} d2 d4"
      "sets d4 = (sets d2)(new \<mapsto> st\<lparr>si_timestamp := ticks d2 0\<rparr>)" "changes d4 p = l" "l \<noteq> []" "fsys d4 = fsys d2"
      "g_slist_insert_sorted (set_comp d4) new (changes d2 p) = Some l" "new \<in> set l" "def_values d4 = def_values d2" by auto
  from top_set_Some [OF d4(3), of p] d4(6,7) obtain topset where topset: "top_set d4 p = Some topset" by auto
  let ?new = "st\<lparr>si_timestamp := ticks d 0\<rparr>"
  have n4: "sets d4 new = Some ?new" using d4(5) d2(9) by simp
  let ?app = "if attr_value_comp ?new topset = 0 then apply_set D (si_setreq ?new) d4 else (True, d4)"
  have app: "same_tables d4 (snd ?app)" "keeps {} d4 (snd ?app)" "my_of (snd ?app) = my_of d4" "socks (snd ?app) = socks d4"
    using apply_set_same [of d4 D "si_setreq ?new"] by (auto simp: same_tables_def)
  have fs: "fsys (snd ?app) = (if attr_value_comp ?new topset = 0 then snd (write_attr_value D (si_setreq ?new) (fsys d)) else fsys d)"
    using apply_set_fsys [of D "si_setreq ?new" d4] d4(8) d2(6) by simp
  have "socks (snd ?app) k \<noteq> None" using keeps_socks(2) [OF d4(4), of k] sk2 app(4) by simp
  from send_response_ok [OF this, of "\<lparr>resp_retval = if fst ?app then PWR_RET_SUCCESS else PWR_RET_FAILURE, resp_sequence = 0, resp_loglvl = None\<rparr>" "{}" "my_of d4"]
  obtain d5 where d5: "send_ret_code_response k (if fst ?app then PWR_RET_SUCCESS else PWR_RET_FAILURE) (snd ?app) = Some d5"
    "keeps {} (snd ?app) d5" "my_of d5 = my_of (snd ?app)" "tables_inv {} (my_of d4) d5 = tables_inv {} (my_of d4) (snd ?app)"
    "fsys d5 = fsys (snd ?app)" "def_values d5 = def_values (snd ?app)" "all_changes d5 = all_changes (snd ?app)" "sets d5 = sets (snd ?app)"
    unfolding send_ret_code_response_def by blast
  have same: "sets d5 = sets d4" "all_changes d5 = all_changes d4" "def_values d5 = def_values d4" using app(1) d5(6-8) by (simp_all add: same_tables_def)
  have ch: "changes d5 p = l" using same(2) d4(6) by (simp add: changes_def)
  have "serve_request D new k p d = Some d5"
    using sk1 old d2(1) d4(1,2) topset d5(1) n4 by (simp add: serve_request_def case_prod_beta Let_def)
  moreover have "tables_inv {} (my_of d5) d5"
    using d5(3,4) app(3) same_tables_cong(1) [OF app(1), of "{}" "my_of d4"] d4(3) by simp
  moreover have "keeps {new} d d5" using keeps_trans [OF keeps_trans [OF keeps_trans [OF d2(4) d4(4)] app(2)] d5(2)] by simp
  moreover have "worker_files D new p d d5"
  proof -
    have "top_set d5 p = Some topset" using topset unfolding top_set_def ch d4(6) same(1) .
    moreover have "sets d5 new = Some ?new" using same(1) n4 by simp
    moreover have "fsys d5 = (if attr_value_comp ?new topset = 0 then snd (write_attr_value D (si_setreq ?new) (fsys d)) else fsys d)"
      using fs d5(5) by (simp only:)
    ultimately show ?thesis unfolding worker_files_def ch using d4(10) by simp
  qed
  moreover have "sets d5 = (sets d)(new \<mapsto> ?new) |` (- set_option (my_of d k p))"
    using same(1) d4(5) d2(8,9) st2(2) by (auto simp: fun_eq_iff restrict_map_def)
  moreover have "set_comp d5 = set_comp d4" using same(1) by (simp add: set_comp_def [abs_def])
  ultimately show ?thesis using d4(9,11) d2(5,7) same(3) ch by (intro exI [of _ d5]) simp
qed

lemma worker_item_ok:
  assumes inv: "tables_inv {} (my_of d) d" and fl: "in_flight d new p (Some k)" and sk: "socks d k \<noteq> None"
  shows "\<exists>d'. worker_process_item D new d = Some d' \<and> tables_inv {} (my_of d') d' \<and> keeps {new} d d' \<and> worker_files D new p d d'"
proof -
  from fl obtain st where st: "sets d new = Some st" "sr_path (si_setreq st) = p" "si_skinfo st = Some k"
    by (auto simp: in_flight_def set_at_def)
  from sk obtain persist where per: "is_persistent (Some k) d = Some persist" by (auto simp: is_persistent_def)
  let ?upd = "if def_values d p = None \<or> persist then update_default D new k persist d else Some (True, d)"
  have "\<exists>go d1. ?upd = Some (go, d1) \<and> tables_inv {} (my_of d1) d1 \<and> keeps {new} d d1 \<and> fsys d1 = fsys d \<and>
    (\<not> go \<longrightarrow> sets d1 new = None) \<and> (go \<longrightarrow> in_flight d1 new p (Some k) \<and> def_values d1 p \<noteq> None)"
  proof (cases "def_values d p = None \<or> persist")
    case True
    then have "persist \<or> def_values d p = None" by auto
    from update_default_ok [OF inv fl sk this, of D] True show ?thesis by auto
  next
    case False
    with inv fl show ?thesis by auto
  qed
  then obtain go d1 where d1: "?upd = Some (go, d1)" "tables_inv {} (my_of d1) d1" "keeps {new} d d1" "fsys d1 = fsys d"
    "\<not> go \<longrightarrow> sets d1 new = None" "go \<longrightarrow> in_flight d1 new p (Some k) \<and> def_values d1 p \<noteq> None" by blast
  show ?thesis
  proof (cases go)
    case False
    then have "worker_process_item D new d = Some d1" using st per d1(1) by (simp add: worker_process_item_def)
    with d1 False show ?thesis by (auto simp: worker_files_def)
  next
    case True
    with d1(6) have fl1: "in_flight d1 new p (Some k)" "def_values d1 p \<noteq> None" by auto
    have sk1: "socks d1 k \<noteq> None" using keeps_socks(2) [OF d1(3), of k] sk by simp
    from fl1(1) obtain st1 where "sets d1 new = Some st1" by (auto simp: in_flight_def set_at_def)
    from serve_request_ok [OF d1(2) fl1(1) sk1 fl1(2) this, of D] obtain d2 where
      d2: "serve_request D new k p d1 = Some d2" "tables_inv {} (my_of d2) d2" "keeps {new} d1 d2" "worker_files D new p d1 d2" by blast
    have "worker_process_item D new d = Some d2" using st per d1(1) d2(1) True by (simp add: worker_process_item_def)
    moreover have "keeps {new} d d2" using keeps_trans [OF d1(3) d2(3)] by simp
    moreover have "worker_files D new p d d2" using d2(4) unfolding worker_files_def d1(4) .
    ultimately show ?thesis using d2(2) by blast
  qed
qed

lemma worker_step_inv:
  assumes "daemon_inv d"
  shows "\<exists>d'. worker_step D d = Some d' \<and> daemon_inv d' \<and> open_sockets d' = open_sockets d \<and> files_kept (fsys d) (fsys d') \<and>
    daemon.more d' = daemon.more d"
proof (cases "work_queue d")
  case Nil
  with assms show ?thesis by (simp add: worker_step_def)
next
  case (Cons a q)
  let ?d = "d\<lparr>work_queue := q\<rparr>"
  have st: "same_tables d ?d" by (simp add: same_tables_def)
  note cong = same_tables_cong [OF st]
  from assms Cons obtain p k where fl: "in_flight d a p (Some k)" "socks d k \<noteq> None"
    by (auto simp: daemon_inv_def pending_ok_def)
  have my: "my_of ?d = my_of d" by (simp add: my_of_def [abs_def])
  have "tables_inv {} (my_of ?d) ?d" using assms cong(1) my by (simp add: daemon_inv_def)
  from worker_item_ok [OF this, of a p k D] fl cong(2) obtain d' where
    d': "worker_process_item D a ?d = Some d'" "tables_inv {} (my_of d') d'" "keeps {a} ?d d'" by auto
  have "worker_step D d = Some d'" using Cons fl(1) d'(1) by (auto simp: worker_step_def in_flight_def set_at_def)
  moreover have "socks_ok d'" using keeps_socks(1) [OF d'(3)] assms by (simp add: daemon_inv_def socks_ok_def)
  moreover have "pending_ok d'"
  proof -
    have q: "work_queue d' = q" "distinct (a # q)" using d'(3) assms Cons by (simp_all add: keeps_def daemon_inv_def pending_ok_def)
    have "\<exists>p k. in_flight d' b p (Some k) \<and> socks d' k \<noteq> None" if "b \<in> set q" for b
    proof -
      from assms that Cons obtain p k where "in_flight d b p (Some k)" "socks d k \<noteq> None" by (auto simp: daemon_inv_def pending_ok_def)
      moreover have "b \<notin> {a}" using q(2) that by auto
      ultimately show ?thesis using d'(3) cong(2) keeps_socks(2) [OF d'(3), of k]
        by (intro exI [of _ p] exI [of _ k]) (auto simp: keeps_def)
    qed
    with q show ?thesis by (simp add: pending_ok_def)
  qed
  moreover have "open_sockets d' = open_sockets d" "files_kept (fsys d) (fsys d')" "daemon.more d' = daemon.more d"
    using d'(3) by (simp_all add: keeps_def)
  ultimately show ?thesis using d'(2) by (auto simp: daemon_inv_def)
qed

subsection \<open>Disconnection\<close>

text \<open>The default stays when a client's request goes.\<close>

lemma rest_nonempty:
  assumes inv: "tables_inv {} my d" and mine: "my k p = Some a"
  shows "def_values d p \<noteq> None" "remove1 a (changes d p) \<noteq> []"
proof -
  have a: "set_at d a p (Some k)" "a \<in> set (changes d p)" using tables_invD(3) [OF inv mine] by simp_all
  then show "def_values d p \<noteq> None" using tables_invD(5) [OF inv, of p] by fastforce
  then obtain b where b: "def_values d p = Some b" by auto
  then have "b \<in> set (changes d p)" "b \<noteq> a" using tables_invD(2) [OF inv b] a(1) by (auto simp: set_at_def)
  then have "b \<in> set (remove1 a (changes d p))" by simp
  then show "remove1 a (changes d p) \<noteq> []" by (auto simp del: in_set_remove1)
qed

lemma rollback_ok:
  assumes inv: "tables_inv {} my d" and mine: "my k p = Some a" and sk: "socks d k \<noteq> None"
  shows "\<exists>d'. set_rollback D a d = Some d' \<and> tables_inv {} (my(k := (my k)(p := None))) d' \<and> keeps {} d d' \<and> socks d' = socks d"
proof -
  have a: "set_at d a p (Some k)" "a \<in> set (changes d p)" using tables_invD(3) [OF inv mine] by simp_all
  then obtain st where st: "sets d a = Some st" "sr_path (si_setreq st) = p" "si_skinfo st = Some k" by (auto simp: set_at_def)
  note r = remove_request [OF inv mine]
  let ?d1 = "d\<lparr>all_changes := (all_changes d)(p \<mapsto> remove1 a (changes d p))\<rparr>"
  have "changes ?d1 p \<noteq> []" using rest_nonempty [OF inv mine] by simp
  from top_set_Some [OF r(3) this] obtain top where top: "top_set ?d1 p = Some top" ..
  let ?d2 = "if attr_value_comp st top < 0 then snd (apply_set D (si_setreq top) ?d1) else ?d1"
  have d2: "same_tables ?d1 ?d2" "keeps {} ?d1 ?d2" "socks ?d2 = socks ?d1"
    using apply_set_same [of ?d1 D "si_setreq top"] by (auto simp: same_tables_def)
  have fl: "in_flight ?d2 a p (Some k)" using r(4) same_tables_cong(2) [OF d2(1)] by simp
  note x = destroy_set [OF fl]
  let ?d3 = "?d2\<lparr>sets := (sets ?d2)(a := None)\<rparr>"
  have "set_rollback D a d = Some ?d3" using st sk r(1) top x(1) by (auto simp: set_rollback_def)
  moreover have "tables_inv {} (my(k := (my k)(p := None))) ?d3"
    by (rule x(2)) (use r(3) same_tables_cong(1) [OF d2(1)] in simp)
  moreover have "keeps {} d ?d3"
  proof (rule keepsI)
    fix b q j assume b: "b \<notin> {}" "in_flight d b q (Some j)"
    have "in_flight ?d1 b q (Some j)" using b(2) set_remove1_subset [of a "changes d p"] by (auto simp: in_flight_def)
    moreover have "b \<noteq> a" using b(2) a(2) by (auto simp: in_flight_def)
    ultimately show "in_flight ?d3 b q (Some j)" using x(3) same_tables_cong(2) [OF d2(1)] by simp
  qed (use d2 in \<open>simp_all add: keeps_def\<close>)
  moreover have "socks ?d3 = socks d" using d2(3) by simp
  ultimately show ?thesis by blast
qed

lemma rollback_all_ok:
  assumes "tables_inv {} my d" "socks d k \<noteq> None" "distinct paths" "\<And>p. p \<in> set paths \<Longrightarrow> tbl p \<noteq> None \<and> my k p = tbl p"
  shows "\<exists>d'. rollback_all D tbl paths d = Some d' \<and> tables_inv {} (my(k := my k |` (- set paths))) d' \<and> keeps {} d d' \<and> socks d' = socks d"
  using assms
proof (induction paths arbitrary: my d)
  case Nil
  then show ?case by (simp add: restrict_map_def)
next
  case (Cons p paths)
  from Cons.prems(4) [of p] obtain a where a: "tbl p = Some a" "my k p = Some a" by auto
  from rollback_ok [OF Cons.prems(1) a(2) Cons.prems(2)] obtain d1 where
    d1: "set_rollback D a d = Some d1" "tables_inv {} (my(k := (my k)(p := None))) d1" "keeps {} d d1" "socks d1 = socks d" by blast
  let ?my = "my(k := (my k)(p := None))"
  have "tbl q \<noteq> None \<and> ?my k q = tbl q" if "q \<in> set paths" for q using Cons.prems(3,4) that by auto
  moreover have "socks d1 k \<noteq> None" "distinct paths" using Cons.prems(2,3) d1(4) by simp_all
  ultimately obtain d2 where
    d2: "rollback_all D tbl paths d1 = Some d2" "tables_inv {} (?my(k := ?my k |` (- set paths))) d2" "keeps {} d1 d2" "socks d2 = socks d1"
    using Cons.IH [OF d1(2)] by blast
  have "?my(k := ?my k |` (- set paths)) = my(k := my k |` (- set (p # paths)))"
    by (auto simp: fun_eq_iff restrict_map_def)
  with d2(2) have "tables_inv {} (my(k := my k |` (- set (p # paths)))) d2" by (simp only:)
  moreover have "rollback_all D tbl (p # paths) d = Some d2" using a d1(1) d2(1) by simp
  moreover have "keeps {} d d2" using keeps_trans [OF d1(3) d2(3)] by simp
  moreover have "socks d2 = socks d" using d1(4) d2(4) by simp
  ultimately show ?case by blast
qed

text \<open>A client with a request in the queue.\<close>

definition busy :: "'a daemon_scheme \<Rightarrow> addr \<Rightarrow> bool" where
  "busy d k \<longleftrightarrow> (\<exists>a \<in> set (work_queue d). \<exists>p. set_at d a p (Some k))"

lemma tables_inv_my_cong: "tables_inv E my d \<Longrightarrow> my = my' \<Longrightarrow> tables_inv E my' d"
  by simp

lemma socket_destruct_ok:
  assumes inv: "tables_inv {} (my_of d) d" "socks_ok d" and fd: "open_sockets d fd = Some k"
    and order: "table_order (my_of d k) order"
  shows "\<exists>d'. socket_destruct D fd order d = Some d' \<and> tables_inv {} (my_of d') d' \<and> socks_ok d' \<and>
    (\<forall>a p j. in_flight d a p (Some j) \<longrightarrow> in_flight d' a p (Some j)) \<and> socks d' = (socks d)(k := None) \<and> work_queue d' = work_queue d \<and>
    open_sockets d' = (open_sockets d)(fd := None) \<and> my_of d' = (my_of d)(k := Map.empty) \<and>
    files_kept (fsys d) (fsys d') \<and> daemon.more d' = daemon.more d"
proof -
  from inv fd obtain sk where sk: "socks d k = Some sk" "sk_sockid sk = fd" by (auto simp: socks_ok_def)
  let ?d0 = "d\<lparr>open_sockets := (open_sockets d)(fd := None)\<rparr>"
  have st: "same_tables d ?d0" by (simp add: same_tables_def)
  note cong = same_tables_cong [OF st]
  have my: "my_of d k = sk_my_changes sk" using sk by (simp add: my_of_def)
  have "tables_inv {} (my_of d) ?d0" using inv cong by simp
  from rollback_all_ok [OF this, of k order "sk_my_changes sk" D] sk order my obtain d1 where
    d1: "rollback_all D (sk_my_changes sk) order ?d0 = Some d1" "tables_inv {} ((my_of d)(k := my_of d k |` (- set order))) d1"
      "keeps {} ?d0 d1" "socks d1 = socks d"
    by (auto simp: table_order_def)
  let ?d2 = "d1\<lparr>socks := (socks d1)(k := None)\<rparr>"
  have my2: "my_of ?d2 = (my_of d)(k := my_of d k |` (- set order))"
  proof
    fix j
    have "my_of d k |` (- set order) = Map.empty" using order by (auto simp: table_order_def restrict_map_def fun_eq_iff)
    then show "my_of ?d2 j = ((my_of d)(k := my_of d k |` (- set order))) j" using d1(4) by (simp add: my_of_def)
  qed
  have st2: "same_tables d1 ?d2" by (simp add: same_tables_def)
  have os: "open_sockets ?d2 = (open_sockets d)(fd := None)" "work_queue ?d2 = work_queue d" "d_next d \<le> d_next ?d2"
    "files_kept (fsys d) (fsys ?d2)" "daemon.more ?d2 = daemon.more d"
    using d1(3) by (simp_all add: keeps_def)
  have "tables_inv {} (my_of ?d2) ?d2" unfolding my2 using d1(2) same_tables_cong(1) [OF st2] by simp
  moreover have "socks_ok ?d2"
  proof -
    have so: "socks_ok d" using inv by simp
    have fk: "f = fd" if "open_sockets d f = Some k" for f using so that sk unfolding socks_ok_def by force
    have jk: "j = k" if "socks d j = Some sj" "sk_sockid sj = fd" for j sj using so that fd unfolding socks_ok_def by force
    show ?thesis unfolding socks_ok_def
    proof (intro conjI allI impI)
      fix f j assume f: "open_sockets ?d2 f = Some j"
      then have "open_sockets d f = Some j" "f \<noteq> fd" using os(1) by (auto split: if_splits)
      moreover from this have "j \<noteq> k" using fk by auto
      ultimately show "\<exists>sj. socks ?d2 j = Some sj \<and> sk_sockid sj = f" using so d1(4) by (auto simp: socks_ok_def)
    next
      fix j sj assume "socks ?d2 j = Some sj"
      then have j: "socks d j = Some sj" "j \<noteq> k" using d1(4) by (auto split: if_splits)
      then have "open_sockets d (sk_sockid sj) = Some j" "j < d_next d" "sk_sockid sj \<noteq> fd"
        using so jk unfolding socks_ok_def by auto
      with os show "open_sockets ?d2 (sk_sockid sj) = Some j" "j < d_next ?d2" by auto
    qed
  qed
  moreover have "in_flight ?d2 a p (Some j)" if "in_flight d a p (Some j)" for a p j
    using d1(3) that cong(2) same_tables_cong(2) [OF st2] by (simp add: keeps_def)
  moreover have "socket_destruct D fd order d = Some ?d2" using fd sk d1(1) by (simp add: socket_destruct_def)
  moreover have "my_of ?d2 = (my_of d)(k := Map.empty)" unfolding my2 using order
    by (auto simp: table_order_def restrict_map_def fun_eq_iff)
  moreover have "socks ?d2 = (socks d)(k := None)" using d1(4) by simp
  ultimately show ?thesis using os by (intro exI [of _ ?d2]) simp
qed

lemma socket_destruct_inv:
  assumes inv: "daemon_inv d" and fd: "open_sockets d fd = Some k" and idle: "\<not> busy d k"
    and order: "table_order (my_of d k) order"
  shows "\<exists>d'. socket_destruct D fd order d = Some d' \<and> daemon_inv d' \<and>
    open_sockets d' = (open_sockets d)(fd := None) \<and> files_kept (fsys d) (fsys d') \<and> daemon.more d' = daemon.more d"
proof -
  from socket_destruct_ok [OF _ _ fd order, of D] inv obtain d' where
    d': "socket_destruct D fd order d = Some d'" "tables_inv {} (my_of d') d'" "socks_ok d'"
      "\<forall>a p j. in_flight d a p (Some j) \<longrightarrow> in_flight d' a p (Some j)" "socks d' = (socks d)(k := None)" "work_queue d' = work_queue d"
      "open_sockets d' = (open_sockets d)(fd := None)" "files_kept (fsys d) (fsys d')" "daemon.more d' = daemon.more d"
    unfolding daemon_inv_def by blast
  have "\<exists>p j. in_flight d' a p (Some j) \<and> socks d' j \<noteq> None" if "a \<in> set (work_queue d)" for a
  proof -
    from inv that obtain p j where pj: "in_flight d a p (Some j)" "socks d j \<noteq> None" by (auto simp: daemon_inv_def pending_ok_def)
    then have "j \<noteq> k" using idle that by (auto simp: busy_def in_flight_def)
    then have "in_flight d' a p (Some j) \<and> socks d' j \<noteq> None" using pj d'(4,5) by simp
    then show ?thesis by blast
  qed
  then have "pending_ok d'" using inv d'(6) by (simp add: pending_ok_def daemon_inv_def)
  with d' show ?thesis by (simp add: daemon_inv_def)
qed

end
