(* ===== verification/Daemon_Run.thy ===== *)
theory Daemon_Run
  imports Daemon_Inv
begin

text \<open>
  The invariant of the whole daemon: the tables, the sockets it watches, their number, and
  the marker file. Every event keeps it, except the end of a connection whose client still
  has a request in the queue.
\<close>

definition marked :: "filesystem \<Rightarrow> bool" where
  "marked f \<longleftrightarrow> files f POWERAPID_STATE_DIRTY_PATH \<noteq> None"

definition server_inv :: "server \<Rightarrow> bool" where
  "server_inv s \<longleftrightarrow> daemon_inv s \<and> finite (incoming s) \<and> dom (open_sockets s) = incoming s \<and>
     num_client_sockets s = card (incoming s) \<and> num_client_sockets s \<le> MAX_CLIENT_SOCKETS \<and>
     (incoming s \<noteq> {} \<longrightarrow> marked (fsys s))"

text \<open>
  What the system guarantees of an event: an accepted socket is not one that is open, and
  the entries of a table are visited once each.
\<close>

fun event_ok :: "event \<Rightarrow> server \<Rightarrow> bool" where
  "event_ok (Connect accepted peer) s = (\<forall>fd. accepted = Some fd \<longrightarrow> open_sockets s fd = None)"
| "event_ok (Client fd req order) s =
     (\<exists>k. open_sockets s fd = Some k \<and> (req = None \<longrightarrow> table_order (my_of s k) order \<and> \<not> busy s k))"
| "event_ok Work s = True"

lemma more_eq:
  assumes "daemon.more s' = daemon.more (s :: server)"
  shows "num_client_sockets s' = num_client_sockets s" "incoming s' = incoming s" "logctx s' = logctx s" "exited s' = exited s"
  using assms by (cases s; cases s'; simp)+

lemma same_state_inv:
  assumes "same_tables d d'" "socks d' = socks d" "open_sockets d' = open_sockets d" "work_queue d' = work_queue d"
  shows "daemon_inv d' = daemon_inv d"
proof -
  have "my_of d' = my_of d" "d_next d' = d_next d" using assms by (simp_all add: my_of_def [abs_def] same_tables_def)
  then show ?thesis using same_tables_cong [OF assms(1)] assms(2-4) by (simp add: daemon_inv_def socks_ok_def pending_ok_def)
qed

lemma send_response_inv:
  assumes "daemon_inv d" "socks d k \<noteq> None"
  shows "\<exists>d'. send_response k r d = Some d' \<and> daemon_inv d' \<and> keeps {} d d'"
proof -
  from send_response_ok [OF assms(2), of r "{}" "my_of d"] obtain d' where
    d': "send_response k r d = Some d'" "keeps {} d d'" "my_of d' = my_of d" "tables_inv {} (my_of d) d' = tables_inv {} (my_of d) d"
      "in_flight d' = in_flight d" by blast
  have "pending_ok d'" using assms(1) d'(2,5) keeps_socks(2) [OF d'(2)] by (simp add: daemon_inv_def pending_ok_def keeps_def)
  then show ?thesis using assms(1) d' keeps_socks(1) [OF d'(2)] by (auto simp: daemon_inv_def)
qed

lemma server_init_inv: "server_inv (server_init f clock c)"
  by (simp add: server_inv_def server_init_def daemon_inv_def tables_inv_def my_of_def socks_ok_def pending_ok_def changes_def)

text \<open>The marker is not touched by a state change that keeps the files.\<close>

lemma server_inv_keeps:
  assumes "server_inv s" "daemon_inv s'" "open_sockets s' = open_sockets s" "files_kept (fsys s) (fsys s')" "daemon.more s' = daemon.more s"
  shows "server_inv s'"
proof -
  have "marked (fsys s) \<Longrightarrow> marked (fsys s')" using assms(4) by (auto simp: marked_def files_kept_def)
  then show ?thesis using assms(1-3) more_eq [OF assms(5)] by (simp add: server_inv_def)
qed

lemma keeps_server_inv: "server_inv s \<Longrightarrow> daemon_inv s' \<Longrightarrow> keeps X s s' \<Longrightarrow> server_inv s'"
  by (rule server_inv_keeps) (simp_all add: keeps_def)

subsection \<open>Connections\<close>

lemma construct_inv:
  assumes "daemon_inv d" "open_sockets d fd = None"
  shows "daemon_inv (socket_construct fd cred d)"
proof -
  let ?d = "socket_construct fd cred d" and ?k = "d_next d"
  have new: "socks d ?k = None" using assms(1) by (cases "socks d ?k") (auto simp: daemon_inv_def socks_ok_def)
  have my: "my_of ?d = my_of d" using new by (auto simp: my_of_def fun_eq_iff socket_construct_def Let_def)
  have eq: "set_at ?d = set_at d" "changes ?d = changes d" "def_values ?d = def_values d" "sets ?d = sets d"
    by (simp_all add: set_at_def [abs_def] changes_def [abs_def] socket_construct_def Let_def)
  have next_d: "d_next ?d = Suc ?k" by (simp add: socket_construct_def Let_def)
  have fl: "in_flight ?d = in_flight d" unfolding in_flight_def [abs_def] eq ..
  have "tables_inv {} (my_of ?d) ?d"
  proof -
    have t: "tables_inv {} (my_of d) d" using assms(1) by (simp add: daemon_inv_def)
    then have "a < d_next ?d" if "sets ?d a \<noteq> None" for a
      using tables_invD(1) [OF t, of a] that eq(4) next_d by simp
    then show ?thesis using t unfolding tables_inv_def my eq by blast
  qed
  moreover have "socks_ok ?d" using assms new by (auto simp: daemon_inv_def socks_ok_def socket_construct_def Let_def less_SucI)
  moreover have "pending_ok ?d"
  proof -
    have "socks d k \<noteq> None \<Longrightarrow> socks ?d k \<noteq> None" for k by (simp add: socket_construct_def Let_def)
    then show ?thesis using assms(1) fl unfolding daemon_inv_def pending_ok_def by (fastforce simp: socket_construct_def Let_def)
  qed
  ultimately show ?thesis by (simp add: daemon_inv_def)
qed

lemma connect_inv:
  assumes inv: "server_inv s" and ok: "event_ok (Connect accepted peer) s"
  shows "server_inv (connect_event accepted peer s)"
proof (cases "process_connect_req accepted peer s")
  case (Pair r s')
  show ?thesis
  proof (cases r)
    case None
    have "same_tables s s'" "socks s' = socks s" "open_sockets s' = open_sockets s" "work_queue s' = work_queue s"
      "fsys s' = fsys s" "daemon.more s' = daemon.more s"
      using Pair None by (auto simp: process_connect_req_def abort_connect_req_def same_tables_def split: option.splits if_splits)
    then have "server_inv s'" using inv same_state_inv [of s s'] by (intro server_inv_keeps [OF inv]) (simp_all add: server_inv_def)
    then show ?thesis using Pair None by (simp add: connect_event_def)
  next
    case (Some fd)
    then have s': "s' = s" "accepted = Some fd" "num_client_sockets s < MAX_CLIENT_SOCKETS"
      using Pair by (auto simp: process_connect_req_def abort_connect_req_def split: option.splits if_splits)
    with ok have fresh: "open_sockets s fd = None" by simp
    let ?s1 = "set_state_dirty s"
    have st: "same_tables s ?s1" "socks ?s1 = socks s" "open_sockets ?s1 = open_sockets s" "work_queue ?s1 = work_queue s"
      "num_client_sockets ?s1 = num_client_sockets s" "incoming ?s1 = incoming s"
      "marked (fsys s) \<longrightarrow> marked (fsys ?s1)" "\<not> exited ?s1 \<longrightarrow> marked (fsys ?s1)"
      by (auto simp: set_state_dirty_def Let_def same_tables_def marked_def)
    then have inv1: "server_inv ?s1" using inv same_state_inv [OF st(1-4)] by (simp add: server_inv_def)
    show ?thesis
    proof (cases "exited ?s1")
      case True
      then show ?thesis using Pair Some s' inv1 by (simp add: connect_event_def Let_def)
    next
      case False
      let ?s2 = "?s1\<lparr>num_client_sockets := num_client_sockets ?s1 + 1, incoming := insert fd (incoming ?s1)\<rparr>"
      have "same_tables ?s1 ?s2" by (simp add: same_tables_def)
      from same_state_inv [OF this] inv1 have "daemon_inv ?s2" by (simp add: server_inv_def)
      moreover have "open_sockets ?s2 fd = None" using fresh st(3) by simp
      ultimately have "daemon_inv (socket_construct fd (the peer) ?s2)" by (rule construct_inv)
      moreover have "connect_event accepted peer s = socket_construct fd (the peer) ?s2"
        using Pair Some s' False by (simp add: connect_event_def Let_def)
      moreover have "fd \<notin> incoming s" using fresh inv by (auto simp: server_inv_def)
      ultimately show ?thesis using inv1 st s'(3) False by (simp add: server_inv_def socket_construct_def Let_def)
    qed
  qed
qed

subsection \<open>Requests\<close>

text \<open>A role or a context name of a socket is no part of the tables.\<close>

lemma sock_field_inv:
  assumes inv: "daemon_inv d" and sk: "socks d k = Some sk" "sk_sockid sk' = sk_sockid sk" "sk_my_changes sk' = sk_my_changes sk"
  shows "daemon_inv (d\<lparr>socks := (socks d)(k \<mapsto> sk')\<rparr>)"
proof -
  let ?d = "d\<lparr>socks := (socks d)(k \<mapsto> sk')\<rparr>"
  have "same_tables d ?d" by (simp add: same_tables_def)
  note cong = same_tables_cong [OF this]
  have "my_of ?d = my_of d" using sk by (auto simp: my_of_def fun_eq_iff)
  moreover have "socks_ok ?d" using inv sk by (fastforce simp: daemon_inv_def socks_ok_def)
  moreover have "pending_ok ?d" using inv cong(2) by (fastforce simp: daemon_inv_def pending_ok_def)
  ultimately show ?thesis using inv cong(1) by (simp add: daemon_inv_def)
qed

lemma queue_inv:
  assumes inv: "daemon_inv d" and sk: "socks d k \<noteq> None" and cr: "set_create_item r (Some k) d = (a, d1)"
  shows "daemon_inv (d1\<lparr>work_queue := work_queue d1 @ [a]\<rparr>)"
proof -
  let ?d = "d1\<lparr>work_queue := work_queue d1 @ [a]\<rparr>"
  have t: "tables_inv {} (my_of d) d" using inv by (simp add: daemon_inv_def)
  note c = create_set [OF t cr]
  have same: "socks d1 = socks d" "open_sockets d1 = open_sockets d" "work_queue d1 = work_queue d" "d_next d1 = Suc (d_next d)"
    by (simp_all add: c(2))
  have my: "my_of ?d = my_of d" using same(1) by (simp add: my_of_def [abs_def])
  have "same_tables d1 ?d" by (simp add: same_tables_def)
  note cong = same_tables_cong [OF this]
  have "socks_ok ?d" using inv same by (auto simp: daemon_inv_def socks_ok_def less_SucI)
  moreover have "pending_ok ?d"
  proof -
    have old: "\<exists>p j. in_flight d b p (Some j) \<and> socks d j \<noteq> None" if "b \<in> set (work_queue d)" for b
      using inv that by (simp add: daemon_inv_def pending_ok_def)
    have "in_flight d b p j \<Longrightarrow> in_flight ?d b p j \<and> b \<noteq> a" for b p j using c(5) cong(2) by simp
    with old have "(\<exists>p j. in_flight ?d b p (Some j) \<and> socks ?d j \<noteq> None) \<and> b \<noteq> a" if "b \<in> set (work_queue d)" for b
      using that same(1) by fastforce
    moreover have "in_flight ?d a (sr_path r) (Some k) \<and> socks ?d k \<noteq> None" using c(4) cong(2) sk same(1) by simp
    moreover have "distinct (work_queue d)" using inv by (simp add: daemon_inv_def pending_ok_def)
    ultimately show ?thesis using same(3) unfolding pending_ok_def by auto
  qed
  ultimately show ?thesis using c(3) cong(1) my by (simp add: daemon_inv_def)
qed

lemma respond_inv:
  assumes "server_inv s" "server_inv s1" "socks s1 k \<noteq> None"
  shows "\<exists>s2. send_response k r s1 = Some s2 \<and> server_inv s2"
proof -
  from send_response_inv [of s1 k r] assms(2,3) obtain s2 where "send_response k r s1 = Some s2" "daemon_inv s2" "keeps {} s1 s2"
    by (auto simp: server_inv_def)
  then show ?thesis using keeps_server_inv [OF assms(2)] by blast
qed

lemma request_inv:
  assumes inv: "server_inv s" and fd: "open_sockets s fd = Some k"
  shows "\<exists>s'. process_client_req fd (Some r) s = Some (0, s') \<and> server_inv s'"
proof -
  from inv fd obtain sk where sk: "socks s k = Some sk" unfolding server_inv_def daemon_inv_def socks_ok_def by blast
  note resp = respond_inv [OF inv _, of _ k]
  have plain: "\<exists>s2. send_response k x s = Some s2 \<and> server_inv s2" for x using resp [OF inv] sk by simp
  show ?thesis
  proof (cases r)
    case (PwrAUTH role name)
    obtain x s1 where x: "request_auth k sk role name s = (x, s1)" by (cases "request_auth k sk role name s")
    have "server_inv s1 \<and> socks s1 k \<noteq> None"
    proof (cases "sk_role sk = PWR_ROLE_NOT_SPECIFIED")
      case True
      let ?sk = "sk\<lparr>sk_role := role, sk_context_name := Some name\<rparr>"
      have "s1 = s\<lparr>socks := (socks s)(k \<mapsto> ?sk)\<rparr>" using x True by (simp add: request_auth_def)
      moreover have "daemon_inv (s\<lparr>socks := (socks s)(k \<mapsto> ?sk)\<rparr>)"
        using inv by (intro sock_field_inv [OF _ sk]) (simp_all add: server_inv_def)
      ultimately show ?thesis using inv by (simp add: server_inv_def)
    qed (use x inv sk in \<open>simp add: request_auth_def\<close>)
    from resp [of s1 x] this PwrAUTH x fd sk show ?thesis by (auto simp: process_client_req_def socket_lookup_def)
  next
    case (PwrSET q)
    show ?thesis
    proof (cases "sk_role sk = PWR_ROLE_NOT_SPECIFIED")
      case True
      then show ?thesis using plain PwrSET fd sk by (auto simp: process_client_req_def socket_lookup_def)
    next
      case False
      obtain a s1 where a: "set_create_item q (Some k) s = (a, s1)" by (cases "set_create_item q (Some k) s")
      let ?s = "s1\<lparr>work_queue := work_queue s1 @ [a]\<rparr>"
      have "daemon_inv ?s" using queue_inv [OF _ _ a] inv sk by (simp add: server_inv_def)
      moreover have "open_sockets ?s = open_sockets s" "fsys ?s = fsys s" "daemon.more ?s = daemon.more s"
        using a by (auto simp: set_create_item_def)
      ultimately have "server_inv ?s" using server_inv_keeps [OF inv, of ?s] by simp
      then show ?thesis using PwrSET fd sk False a by (simp add: process_client_req_def socket_lookup_def)
    qed
  next
    case (PwrLOGLVL dbg trc)
    obtain x s1 where x: "request_loglvl dbg trc s = (x, s1)" by (cases "request_loglvl dbg trc s")
    then obtain c where s1: "s1 = s\<lparr>logctx := c\<rparr>"
      by (auto simp: request_loglvl_def split: prod.splits if_splits option.splits) (metis server.surjective server.update_convs(3))
    have "same_tables s (s\<lparr>logctx := c\<rparr>)" by (simp add: same_tables_def)
    from same_state_inv [OF this] inv have "server_inv s1" by (simp add: server_inv_def s1)
    from resp [OF this, of x] PwrLOGLVL x fd sk s1 show ?thesis by (auto simp: process_client_req_def socket_lookup_def)
  qed (use plain fd sk in \<open>auto simp: process_client_req_def socket_lookup_def\<close>)
qed

lemma disconnect_inv:
  assumes inv: "server_inv s" and fd: "open_sockets s fd = Some k" and ok: "table_order (my_of s k) order" "\<not> busy s k"
  shows "\<exists>s'. client_event D fd None order s = Some s' \<and> server_inv s' \<and> incoming s' = incoming s - {fd}"
proof -
  from socket_destruct_inv [OF _ fd ok(2,1), of D] inv obtain s1 where
    s1: "socket_destruct D fd order s = Some s1" "daemon_inv s1" "open_sockets s1 = (open_sockets s)(fd := None)"
      "files_kept (fsys s) (fsys s1)" "daemon.more s1 = daemon.more s"
    by (auto simp: server_inv_def)
  note more = more_eq [OF s1(5)]
  let ?s2 = "s1\<lparr>incoming := incoming s1 - {fd}, num_client_sockets := num_client_sockets s1 - 1\<rparr>"
  let ?s3 = "if num_client_sockets ?s2 = 0 then set_state_clean ?s2 else ?s2"
  have ev: "client_event D fd None order s = Some ?s3" using s1(1) by (simp add: client_event_def process_client_req_def)
  have fd_in: "fd \<in> incoming s" "finite (incoming s)" using inv fd by (auto simp: server_inv_def)
  then have num: "num_client_sockets ?s2 = card (incoming s - {fd})" using more inv by (simp add: server_inv_def)
  have "same_tables s1 ?s3" "socks ?s3 = socks s1" "open_sockets ?s3 = open_sockets s1" "work_queue ?s3 = work_queue s1"
    "incoming ?s3 = incoming s - {fd}" "num_client_sockets ?s3 = card (incoming s - {fd})"
    using num more by (auto simp: same_tables_def set_state_clean_def split: option.splits)
  moreover have "incoming s - {fd} \<noteq> {} \<Longrightarrow> fsys ?s3 = fsys s1" using num fd_in(2) by (simp add: card_gt_0_iff)
  moreover have "dom (open_sockets s1) = incoming s - {fd}" using s1(3) inv by (auto simp: server_inv_def)
  moreover have "incoming s - {fd} \<noteq> {} \<Longrightarrow> marked (fsys s1)"
    using inv s1(4) by (auto simp: server_inv_def marked_def files_kept_def)
  moreover have "card (incoming s - {fd}) \<le> MAX_CLIENT_SOCKETS"
    using inv card_mono [of "incoming s" "incoming s - {fd}"] by (auto simp: server_inv_def)
  ultimately have "server_inv ?s3" using s1(2) same_state_inv [of s1 ?s3] fd_in(2) by (auto simp: server_inv_def)
  with ev \<open>incoming ?s3 = incoming s - {fd}\<close> show ?thesis by blast
qed

lemma server_step_inv:
  assumes inv: "server_inv s" and ok: "event_ok e s"
  shows "\<exists>s'. server_step D e s = Some s' \<and> server_inv s'"
proof (cases e)
  case (Connect accepted peer)
  then show ?thesis using connect_inv [OF inv] ok by simp
next
  case (Client fd req order)
  with ok obtain k where k: "open_sockets s fd = Some k" "req = None \<Longrightarrow> table_order (my_of s k) order \<and> \<not> busy s k" by auto
  show ?thesis
  proof (cases req)
    case None
    then show ?thesis using disconnect_inv [OF inv k(1), of order D] k(2) Client by auto
  next
    case (Some r)
    from request_inv [OF inv k(1), of r] Client Some show ?thesis by (auto simp: client_event_def)
  qed
next
  case Work
  from worker_step_inv [of s D] inv obtain s' where
    "worker_step D s = Some s'" "daemon_inv s'" "open_sockets s' = open_sockets s" "files_kept (fsys s) (fsys s')" "daemon.more s' = daemon.more s"
    by (auto simp: server_inv_def)
  then show ?thesis using Work server_inv_keeps [OF inv] by auto
qed

end
