(* ===== verification/Daemon_Arbitration.thy ===== *)
theory Daemon_Arbitration
  imports Daemon_Run
begin

text \<open>
  The purpose of the daemon's lists: the control file holds the most restrictive of the
  default and the values that the clients request. Shown for the integer attributes; a
  governor is compared by time stamps as well, and NaN is not comparable.
\<close>

subsection \<open>Insertion into a list ordered by a key\<close>

locale priority_list =
  fixes cmp :: "addr \<Rightarrow> addr \<Rightarrow> int option" and key :: "addr \<Rightarrow> 'k :: linorder" and A :: "addr set"
  assumes compares: "a \<in> A \<Longrightarrow> b \<in> A \<Longrightarrow> \<exists>c. cmp a b = Some c \<and> (c > 0 \<longleftrightarrow> key b < key a) \<and> (c = 0 \<longleftrightarrow> key a = key b)"
begin

lemma insert_ordered:
  assumes "a \<in> A" "set l \<subseteq> A" "sorted (map key l)"
  shows "\<exists>l'. g_slist_insert_sorted cmp a l = Some l' \<and> sorted (map key l') \<and> set l' = insert a (set l) \<and>
    (hd l' = a \<and> (\<forall>b \<in> set l. key a \<le> key b) \<or> l \<noteq> [] \<and> hd l' = hd l \<and> key (hd l) < key a)"
  using assms(2,3)
proof (induction l)
  case (Cons b l)
  from compares [OF assms(1), of b] Cons.prems(1) obtain c where
    c: "cmp a b = Some c" "c > 0 \<longleftrightarrow> key b < key a" by auto
  show ?case
  proof (cases "key b < key a")
    case True
    with Cons c obtain l' where "g_slist_insert_sorted cmp a l = Some l'" "sorted (map key l')" "set l' = insert a (set l)" by auto
    with True c Cons.prems show ?thesis by auto
  next
    case False
    with c Cons.prems show ?thesis by auto
  qed
qed simp

end

text \<open>The attributes whose requests are compared by value: a lower, or a higher, value restricts more.\<close>

definition lower_wins :: "int \<Rightarrow> bool" where
  "lower_wins att \<longleftrightarrow> att = PWR_ATTR_FREQ_REQ \<or> att = PWR_ATTR_FREQ_LIMIT_MAX \<or> att = PWR_ATTR_POWER_LIMIT_MAX"

definition higher_wins :: "int \<Rightarrow> bool" where
  "higher_wins att \<longleftrightarrow> att = PWR_ATTR_FREQ_LIMIT_MIN \<or> att = PWR_ATTR_POWER_LIMIT_MIN"

definition rank :: "int \<Rightarrow> 64 word \<Rightarrow> int" where
  "rank att v = (if higher_wins att then - uint v else uint v)"

definition uint_req :: "int \<Rightarrow> 'a daemon_scheme \<Rightarrow> addr \<Rightarrow> bool" where
  "uint_req att d a \<longleftrightarrow> (lower_wins att \<or> higher_wins att) \<and>
     (case sets d a of None \<Rightarrow> False | Some st \<Rightarrow> sr_attribute (si_setreq st) = att \<and> sr_data_type (si_setreq st) = PWR_ATTR_DATA_UINT64)"

definition req_value :: "'a daemon_scheme \<Rightarrow> addr \<Rightarrow> 64 word" where
  "req_value d a = (case sets d a of None \<Rightarrow> 0 | Some st \<Rightarrow> sr_value (si_setreq st))"

lemma rank_inj: "rank att v = rank att w \<longleftrightarrow> v = w"
  by (auto simp: rank_def intro: unsigned_word_eqI)

lemma comp_rank:
  assumes "lower_wins att \<or> higher_wins att" "sr_attribute (si_setreq s1) = att" "sr_data_type (si_setreq s1) = PWR_ATTR_DATA_UINT64"
  shows "attr_value_comp s1 s2 > 0 \<longleftrightarrow> rank att (sr_value (si_setreq s2)) < rank att (sr_value (si_setreq s1))"
    "attr_value_comp s1 s2 = 0 \<longleftrightarrow> sr_value (si_setreq s1) = sr_value (si_setreq s2)"
    "attr_value_comp s1 s2 < 0 \<longleftrightarrow> rank att (sr_value (si_setreq s1)) < rank att (sr_value (si_setreq s2))"
  using assms unfolding attr_value_comp_def Let_def lower_wins_def higher_wins_def rank_def value_compare_def word_less_def
  by (auto simp: word_less_def word_uint_eq_iff)

interpretation uint_order: priority_list "set_comp d" "\<lambda>a. rank att (req_value d a)" "{a. uint_req att d a}" for d :: "'a daemon_scheme" and att
proof
  fix a b assume "a \<in> {a. uint_req att d a}" "b \<in> {a. uint_req att d a}"
  then obtain s1 s2 where s: "sets d a = Some s1" "sets d b = Some s2" "lower_wins att \<or> higher_wins att"
    "sr_attribute (si_setreq s1) = att" "sr_data_type (si_setreq s1) = PWR_ATTR_DATA_UINT64"
    by (auto simp: uint_req_def split: option.splits)
  with comp_rank [OF s(3-5), of s2]
  show "\<exists>c. set_comp d a b = Some c \<and> (c > 0 \<longleftrightarrow> rank att (req_value d b) < rank att (req_value d a)) \<and>
      (c = 0 \<longleftrightarrow> rank att (req_value d a) = rank att (req_value d b))"
    by (simp add: set_comp_def req_value_def rank_inj)
qed

subsection \<open>The file and the list\<close>

definition applied :: "int \<Rightarrow> string \<Rightarrow> 'a daemon_scheme \<Rightarrow> bool" where
  "applied att p d \<longleftrightarrow>
     (\<forall>a \<in> set (changes d p). uint_req att d a) \<and> sorted (map (\<lambda>a. rank att (req_value d a)) (changes d p)) \<and>
     (changes d p \<noteq> [] \<longrightarrow> file_read_uint64 p (fsys d) = Some (req_value d (hd (changes d p))))"

definition usable :: "string \<Rightarrow> filesystem \<Rightarrow> bool" where
  "usable p f \<longleftrightarrow> readable f p \<and> writable f p \<and> accepts f p = (\<lambda>_. True)"

lemma write_back:
  assumes "lower_wins (sr_attribute r) \<or> higher_wins (sr_attribute r)" "sr_data_type r = PWR_ATTR_DATA_UINT64" "sr_path r = p" "usable p f"
  shows "file_read_uint64 p (snd (write_attr_value D r f)) = Some (sr_value r)"
proof -
  have "write_attr_value D r f = (True, f\<lparr>files := (files f)(p \<mapsto> show_int (sint (sr_value r)))\<rparr>)"
    using assms by (auto simp: write_attr_value_def write_value_by_type_def file_write_uint64_def write_control_def usable_def
        lower_wins_def higher_wins_def)
  then show ?thesis using assms(4) scan_long_show [of "[]" "sr_value r"]
    by (simp add: file_read_uint64_def fopen_r_def usable_def ends_number_def)
qed

lemma serve_applied:
  assumes inv: "tables_inv {} (my_of d) d" and fl: "in_flight d new p (Some k)" and sk: "socks d k \<noteq> None"
    and df: "def_values d p \<noteq> None" and no: "my_of d k p = None"
    and ap: "applied att p d" and new: "uint_req att d new" and fs: "usable p (fsys d)"
  shows "\<exists>d'. serve_request D new k p d = Some d' \<and> applied att p d' \<and> set (changes d' p) = insert new (set (changes d p)) \<and>
    req_value d' = req_value d"
proof -
  from fl obtain st where st: "sets d new = Some st" "sr_path (si_setreq st) = p" by (auto simp: in_flight_def set_at_def)
  from serve_request_ok [OF inv fl sk df st(1), of D] obtain d' where
    d': "serve_request D new k p d = Some d'" "tables_inv {} (my_of d') d'" "worker_files D new p d d'"
      "sets d' = (sets d)(new \<mapsto> st\<lparr>si_timestamp := ticks d 0\<rparr>) |` (- set_option (my_of d k p))"
      "g_slist_insert_sorted (set_comp d') new (others d k p) = Some (changes d' p)" by blast
  have sets': "sets d' = (sets d)(new \<mapsto> st\<lparr>si_timestamp := ticks d 0\<rparr>)" using d'(4) no by (simp add: restrict_map_def fun_eq_iff)
  have val: "req_value d' = req_value d" and req: "uint_req att d' = uint_req att d"
    unfolding sets' req_value_def [abs_def] uint_req_def [abs_def] using st(1) by (auto simp: fun_eq_iff)
  have ne: "changes d p \<noteq> []" using df tables_invD(2) [OF inv, of p] by fastforce
  from uint_order.insert_ordered [of new att d' "changes d p"] ap new d'(5) no
  have l': "sorted (map (\<lambda>a. rank att (req_value d a)) (changes d' p))" "set (changes d' p) = insert new (set (changes d p))"
    "hd (changes d' p) = new \<or> hd (changes d' p) = hd (changes d p) \<and> rank att (req_value d (hd (changes d p))) < rank att (req_value d new)"
    unfolding val req by (auto simp: applied_def others_def)
  then have ne': "changes d' p \<noteq> []" by auto
  from top_set_Some [OF d'(2) ne'] obtain topset where topset: "top_set d' p = Some topset" ..
  then have hd_val: "req_value d' (hd (changes d' p)) = sr_value (si_setreq topset)"
    using ne' by (cases "changes d' p") (auto simp: top_set_def req_value_def)
  let ?new = "st\<lparr>si_timestamp := ticks d 0\<rparr>"
  have new': "sets d' new = Some ?new" "req_value d new = sr_value (si_setreq ?new)" using sets' st(1) by (simp_all add: req_value_def)
  have u: "lower_wins att \<or> higher_wins att" "sr_attribute (si_setreq ?new) = att" "sr_data_type (si_setreq ?new) = PWR_ATTR_DATA_UINT64"
    using new st(1) by (simp_all add: uint_req_def)
  have "file_read_uint64 p (fsys d') = Some (req_value d' (hd (changes d' p)))"
  proof (cases "attr_value_comp ?new topset = 0")
    case True
    then have "fsys d' = snd (write_attr_value D (si_setreq ?new) (fsys d))" using d'(3) topset new' by (simp add: worker_files_def)
    then show ?thesis using write_back [OF _ _ _ fs] u st(2) comp_rank(2) [OF u] True hd_val by simp
  next
    case False
    then have "fsys d' = fsys d" using d'(3) topset new' by (simp add: worker_files_def)
    moreover have "hd (changes d' p) \<noteq> new"
    proof
      assume "hd (changes d' p) = new"
      with hd_val new'(2) val have "sr_value (si_setreq ?new) = sr_value (si_setreq topset)" by simp
      with False comp_rank(2) [OF u, of topset] show False by simp
    qed
    ultimately show ?thesis using l'(3) ap ne val by (simp add: applied_def)
  qed
  then have "applied att p d'" using l' ap new unfolding applied_def val req by auto
  then show ?thesis using d'(1) l'(2) val by blast
qed

text \<open>The first request for a path: the value of the file becomes the default.\<close>

lemma fresh_default:
  assumes inv: "tables_inv {} (my_of d) d" and fl: "in_flight d new p (Some k)" and df: "def_values d p = None"
    and new: "uint_req att d new" and v: "file_read_uint64 p (fsys d) = Some v"
  shows "\<exists>d'. update_default D new k False d = Some (True, d') \<and> applied att p d' \<and> uint_req att d' new \<and> req_value d' new = req_value d new"
proof -
  from fl obtain st where st: "sets d new = Some st" "sr_path (si_setreq st) = p" by (auto simp: in_flight_def set_at_def)
  have u: "lower_wins att \<or> higher_wins att" "sr_attribute (si_setreq st) = att" "sr_data_type (si_setreq st) = PWR_ATTR_DATA_UINT64"
    using new st(1) by (simp_all add: uint_req_def)
  have none: "changes d p = []" using tables_invD(5) [OF inv, of p] df by auto
  have ne: "new \<noteq> d_next d" using tables_invD(1) [OF inv, of new] st(1) by auto
  have read: "read_attr_value D (si_setreq st) (fsys d) = Some v"
    using u v st(2) by (auto simp: read_attr_value_def read_value_by_type_def lower_wins_def higher_wins_def)
  let ?def = "\<lparr>si_setreq = (si_setreq st)\<lparr>sr_value := v\<rparr>, si_skinfo = None, si_timestamp = ticks d 0\<rparr>"
  let ?d' = "d\<lparr>d_next := Suc (d_next d), sets := (sets d)(d_next d \<mapsto> ?def), ticks := (\<lambda>n. ticks d (Suc n)),
    def_values := (def_values d)(p \<mapsto> d_next d), all_changes := (all_changes d)(p \<mapsto> [d_next d])\<rparr>"
  have "update_default D new k False d = Some (True, ?d')"
    using st df read none by (simp add: update_default_def set_create_item_def set_value_def stamp_def g_get_real_time_def
        set_insert_def table_update_def changes_def)
  moreover have "applied att p ?d'"
    using u v by (simp add: applied_def changes_def uint_req_def req_value_def)
  moreover have "uint_req att ?d' new" "req_value ?d' new = req_value d new" using new ne by (simp_all add: uint_req_def req_value_def)
  ultimately show ?thesis by blast
qed

lemma process_applied:
  assumes inv: "tables_inv {} (my_of d) d" and fl: "in_flight d new p (Some k)" and sk: "socks d k \<noteq> None"
    and np: "is_persistent (Some k) d = Some False" and no: "my_of d k p = None"
    and ap: "applied att p d" and new: "uint_req att d new" and fs: "usable p (fsys d)" and v: "file_read_uint64 p (fsys d) \<noteq> None"
  shows "\<exists>d'. worker_process_item D new d = Some d' \<and> applied att p d' \<and> insert new (set (changes d p)) \<subseteq> set (changes d' p) \<and>
    req_value d' new = req_value d new"
proof -
  from fl obtain st where st: "sets d new = Some st" "sr_path (si_setreq st) = p" "si_skinfo st = Some k"
    by (auto simp: in_flight_def set_at_def)
  show ?thesis
  proof (cases "def_values d p")
    case None
    from v obtain w where "file_read_uint64 p (fsys d) = Some w" by auto
    from fresh_default [OF inv fl None new this, of D] obtain d1 where
      d1: "update_default D new k False d = Some (True, d1)" "applied att p d1" "uint_req att d1 new" "req_value d1 new = req_value d new" by blast
    from update_default_ok [OF inv fl sk, of False D] None d1(1) have
      i: "tables_inv {} (my_of d1) d1" "my_of d1 = my_of d" "keeps {new} d d1" "fsys d1 = fsys d" "in_flight d1 new p (Some k)" "def_values d1 p \<noteq> None"
      by auto
    have "socks d1 k \<noteq> None" using keeps_socks(2) [OF i(3), of k] sk by simp
    from serve_applied [OF i(1,5) this i(6) _ d1(2,3), of D] i(2,4) no fs obtain d2 where
      d2: "serve_request D new k p d1 = Some d2" "applied att p d2" "set (changes d2 p) = insert new (set (changes d1 p))" "req_value d2 = req_value d1"
      by auto
    have "worker_process_item D new d = Some d2" using st np None d1(1) d2(1) by (simp add: worker_process_item_def)
    moreover have "changes d p = []" using tables_invD(5) [OF inv, of p] None by auto
    ultimately show ?thesis using d2(2-4) d1(4) by auto
  next
    case (Some a)
    then have "def_values d p \<noteq> None" by simp
    from serve_applied [OF inv fl sk this no ap new fs, of D] obtain d2 where
      d2: "serve_request D new k p d = Some d2" "applied att p d2" "set (changes d2 p) = insert new (set (changes d p))" "req_value d2 = req_value d"
      by blast
    have "worker_process_item D new d = Some d2" using st np Some d2(1) by (simp add: worker_process_item_def)
    with d2(2-4) show ?thesis by auto
  qed
qed

lemma applied_first:
  assumes "applied att p d" "b \<in> set (changes d p)"
  shows "\<exists>v. file_read_uint64 p (fsys d) = Some v \<and> (\<exists>a \<in> set (changes d p). v = req_value d a) \<and>
    (\<forall>a \<in> set (changes d p). rank att v \<le> rank att (req_value d a))"
  using assms by (cases "changes d p") (auto simp: applied_def)

text \<open>
  A client relaxes its own request, which is in force, beyond another one: the worker drops
  the old request, and writes nothing.
\<close>

lemma serve_relaxed:
  assumes inv: "tables_inv {} (my_of d) d" and fl: "in_flight d a p (Some k)" and sk: "socks d k \<noteq> None"
    and ap: "applied att p d" and new: "uint_req att d a" and old: "my_of d k p = Some old"
    and c: "c = hd (remove1 old (changes d p))" "rank att (req_value d c) < rank att (req_value d a)" and ao: "a \<noteq> old"
  shows "\<exists>d'. serve_request D a k p d = Some d' \<and> fsys d' = fsys d \<and> set (changes d' p) = insert a (set (changes d p) - {old}) \<and>
    hd (changes d' p) = c \<and> changes d' p \<noteq> [] \<and> req_value d' c = req_value d c"
proof -
  from fl obtain st where st: "sets d a = Some st" "sr_path (si_setreq st) = p" by (auto simp: in_flight_def set_at_def)
  note ne = rest_nonempty [OF inv old]
  from serve_request_ok [OF inv fl sk ne(1) st(1), of D] obtain d' where
    d': "serve_request D a k p d = Some d'" "tables_inv {} (my_of d') d'" "worker_files D a p d d'"
      "sets d' = (sets d)(a \<mapsto> st\<lparr>si_timestamp := ticks d 0\<rparr>) |` (- set_option (my_of d k p))"
      "g_slist_insert_sorted (set_comp d') a (others d k p) = Some (changes d' p)" by blast
  let ?l = "remove1 old (changes d p)" and ?new = "st\<lparr>si_timestamp := ticks d 0\<rparr>"
  have set_l: "set ?l = set (changes d p) - {old}" using tables_invD(4) [OF inv, of p] by simp
  have val: "req_value d' b = req_value d b" "uint_req att d' b = uint_req att d b" if "b \<noteq> old" for b
    using that d'(4) old st(1) by (auto simp: req_value_def uint_req_def restrict_map_def)
  have c_in: "c \<in> set ?l" using c(1) ne(2) by simp
  then have co: "c \<noteq> old" "uint_req att d c" using set_l ap by (auto simp: applied_def)
  have l: "a \<in> {b. uint_req att d' b}" "set ?l \<subseteq> {b. uint_req att d' b}" "sorted (map (\<lambda>b. rank att (req_value d' b)) ?l)"
  proof -
    show "a \<in> {b. uint_req att d' b}" using new val(2) [OF ao] by simp
    show "set ?l \<subseteq> {b. uint_req att d' b}" using ap val(2) set_l by (auto simp: applied_def)
    have "sorted (map (\<lambda>b. rank att (req_value d b)) ?l)" using ap by (simp add: applied_def sorted_map_remove1)
    moreover have "map (\<lambda>b. rank att (req_value d' b)) ?l = map (\<lambda>b. rank att (req_value d b)) ?l"
      using val(1) set_l by (intro map_cong) auto
    ultimately show "sorted (map (\<lambda>b. rank att (req_value d' b)) ?l)" by (simp only:)
  qed
  have "others d k p = ?l" using old by (simp add: others_def)
  with uint_order.insert_ordered [OF l] d'(5) obtain
    "set (changes d' p) = insert a (set ?l)"
    "hd (changes d' p) = a \<and> (\<forall>b \<in> set ?l. rank att (req_value d' a) \<le> rank att (req_value d' b)) \<or> hd (changes d' p) = c"
    using c(1) by auto
  moreover have "\<not> rank att (req_value d' a) \<le> rank att (req_value d' c)" using c(2) val(1) [OF ao] val(1) [OF co(1)] by simp
  ultimately have l': "set (changes d' p) = insert a (set ?l)" "hd (changes d' p) = c" using c_in by blast+
  then have ne': "changes d' p \<noteq> []" by auto
  from co(2) obtain topset where top: "sets d c = Some topset" by (auto simp: uint_req_def split: option.splits)
  have "top_set d' p = sets d' c" using l'(2) ne' by (cases "changes d' p") (auto simp: top_set_def)
  also have "\<dots> = Some topset" using d'(4) old co(1) top c(2) by (auto simp: restrict_map_def)
  finally have topset: "top_set d' p = Some topset" .
  have new': "sets d' a = Some ?new" using d'(4) old ao by (simp add: restrict_map_def)
  have u: "lower_wins att \<or> higher_wins att" "sr_attribute (si_setreq ?new) = att" "sr_data_type (si_setreq ?new) = PWR_ATTR_DATA_UINT64"
    using new st(1) by (simp_all add: uint_req_def)
  have "attr_value_comp ?new topset \<noteq> 0" using comp_rank(2) [OF u, of topset] c(2) st(1) top by (auto simp: req_value_def)
  then have "fsys d' = fsys d" using d'(3) topset new' by (simp add: worker_files_def)
  then show ?thesis using d'(1) l' ne' set_l val(1) [OF co(1)] by auto
qed

text \<open>The worker takes an item from the queue.\<close>

lemma dequeue:
  assumes inv: "server_inv s" and q: "work_queue s = a # q" and own: "set_at s a p (Some k)"
  defines "s1 \<equiv> s\<lparr>work_queue := q\<rparr>"
  shows "worker_step D s = worker_process_item D a s1" "tables_inv {} (my_of s1) s1" "in_flight s1 a p (Some k)" "socks s1 k \<noteq> None"
    "my_of s1 = my_of s" "is_persistent x s1 = is_persistent x s" "changes s1 = changes s" "req_value s1 = req_value s"
    "uint_req att s1 = uint_req att s" "applied att p s1 = applied att p s" "fsys s1 = fsys s" "sets s1 = sets s"
proof -
  have d: "daemon_inv s" using inv by (simp add: server_inv_def)
  have "same_tables s s1" by (simp add: same_tables_def s1_def)
  note cong = same_tables_cong [OF this]
  show my: "my_of s1 = my_of s" and val: "req_value s1 = req_value s" "uint_req att s1 = uint_req att s" and ch: "changes s1 = changes s"
    and fs: "fsys s1 = fsys s" "sets s1 = sets s" and "is_persistent x s1 = is_persistent x s"
    using cong(3) by (simp_all add: s1_def my_of_def [abs_def] req_value_def [abs_def] uint_req_def [abs_def] is_persistent_def split: option.splits)
  show "applied att p s1 = applied att p s" by (simp add: applied_def val ch fs)
  show "tables_inv {} (my_of s1) s1" using d cong(1) my by (simp add: daemon_inv_def)
  show "in_flight s1 a p (Some k)" "socks s1 k \<noteq> None"
    unfolding cong(2) using d q own by (auto simp: s1_def daemon_inv_def pending_ok_def in_flight_def set_at_def)
  show "worker_step D s = worker_process_item D a s1" using q own by (auto simp: worker_step_def set_at_def s1_def)
qed


text \<open>What taking a request back leaves: the rest of the list, and the file written if the request was in front.\<close>

lemma rollback_result:
  assumes t: "tables_inv {} (my_of d) d" and mine: "my_of d k p = Some a"
  shows "\<exists>d' st topset. set_rollback D a d = Some d' \<and> sets d a = Some st \<and> changes d' p = remove1 a (changes d p) \<and>
    changes d' p \<noteq> [] \<and> sets d' = (sets d)(a := None) \<and> sets d (hd (changes d' p)) = Some topset \<and> sr_path (si_setreq topset) = p \<and>
    fsys d' = (if attr_value_comp st topset < 0 then snd (write_attr_value D (si_setreq topset) (fsys d)) else fsys d)"
proof -
  have sk: "socks d k \<noteq> None" using mine by (auto simp: my_of_def split: option.splits)
  have a: "set_at d a p (Some k)" "a \<in> set (changes d p)" using tables_invD(3) [OF t mine] by simp_all
  then obtain st where st: "sets d a = Some st" "sr_path (si_setreq st) = p" "si_skinfo st = Some k" by (auto simp: set_at_def)
  note r = remove_request [OF t mine]
  let ?l = "remove1 a (changes d p)"
  let ?d1 = "d\<lparr>all_changes := (all_changes d)(p \<mapsto> ?l)\<rparr>"
  have ne: "?l \<noteq> []" using rest_nonempty(2) [OF t mine] .
  then obtain topset where topset: "top_set ?d1 p = Some topset" using top_set_Some [OF r(3), of p] by auto
  then have top: "sets d (hd ?l) = Some topset" using ne by (cases ?l) (auto simp: top_set_def)
  have "hd ?l \<in> set (changes d p)" using ne set_remove1_subset [of a "changes d p"] by (meson hd_in_set subsetD)
  then have path: "sr_path (si_setreq topset) = p" using changes_path [OF t, of "hd ?l" p] top by (auto simp: set_at_def)
  let ?d2 = "if attr_value_comp st topset < 0 then snd (apply_set D (si_setreq topset) ?d1) else ?d1"
  let ?d3 = "?d2\<lparr>sets := (sets ?d2)(a := None)\<rparr>"
  have d2: "sets ?d2 = sets d" "all_changes ?d2 = all_changes ?d1"
    using apply_set_same [of ?d1 D "si_setreq topset"] by (auto simp: same_tables_def)
  have "set_rollback D a d = Some ?d3" using st sk r(1) topset d2(1) by (auto simp: set_rollback_def set_destroy_def)
  moreover have "changes ?d3 p = ?l" using d2(2) by (simp add: changes_def)
  moreover have "fsys ?d3 = (if attr_value_comp st topset < 0 then snd (write_attr_value D (si_setreq topset) (fsys d)) else fsys d)"
    by (simp add: apply_set_fsys)
  ultimately show ?thesis using st(1) ne d2(1) top path by (intro exI [of _ ?d3] exI [of _ st] exI [of _ topset]) simp
qed

lemma first_of_rest:
  assumes "applied att p d" "a \<in> set (changes d p)" "remove1 a (changes d p) \<noteq> []"
    and "rank att (req_value d (hd (remove1 a (changes d p)))) \<le> rank att (req_value d a)"
  shows "req_value d (hd (changes d p)) = req_value d (hd (remove1 a (changes d p)))"
proof (cases "changes d p")
  case (Cons b l)
  show ?thesis
  proof (cases "b = a")
    case True
    then have "rank att (req_value d a) \<le> rank att (req_value d (hd l))" using Cons assms(1,3) by (cases l) (auto simp: applied_def)
    then show ?thesis using Cons True assms(4) rank_inj [of att] by fastforce
  qed (use Cons in simp)
qed (use assms in simp)


end
