(* ===== verification/Daemon_Example.thy ===== *)
theory Daemon_Example
  imports Daemon_Run
begin

text \<open>
  A short run of the daemon on concrete data: a client connects, authenticates, sets a
  frequency, and sets it again. The properties of the daemon are applied to its states.
\<close>

definition example_libc :: libc_double where
  "example_libc = \<lparr>print_lf = (\<lambda>_. []), scan_lf = (\<lambda>_. None)\<rparr>"

definition example_fs :: filesystem where
  "example_fs = \<lparr>files = [CURR_PERMISSIONS_FILE \<mapsto> uid_text [1000, 1001], ''freq'' \<mapsto> show_int 2000],
     readable = (\<lambda>_. True), writable = (\<lambda>_. True), accepts = (\<lambda>_ _. True), dirents = (\<lambda>_. None)\<rparr>"

definition example_log :: log_context where
  "example_log = \<lparr>log_enabled = True, log_running = True, stderr_mask = 0\<rparr>"

definition example_server :: server where
  "example_server = server_init example_fs (\<lambda>n. of_nat n) example_log"

definition example_set :: "64 word \<Rightarrow> powerapi_setreq_t" where
  "example_set v = \<lparr>sr_object = 4, sr_attribute = PWR_ATTR_FREQ_REQ, sr_data_type = PWR_ATTR_DATA_UINT64,
     sr_metadata = 0, sr_value = v, sr_path = ''freq''\<rparr>"

definition example_cred :: ucred where
  "example_cred = \<lparr>cr_pid = 7, cr_uid = 1000, cr_gid = 100\<rparr>"

definition example_sock :: "int \<Rightarrow> int \<Rightarrow> socket_info_t" where
  "example_sock fd role = \<lparr>sk_sockid = fd, sk_cred = example_cred, sk_role = role, sk_context_name = None,
     sk_my_changes = Map.empty, sk_seqnum = 0\<rparr>"

text \<open>After the connection of a client, its authentication, and its first request.\<close>

definition example_connected :: server where
  "example_connected = example_server\<lparr>d_next := 2, socks := [1 \<mapsto> example_sock 5 PWR_ROLE_NOT_SPECIFIED], open_sockets := [5 \<mapsto> 1],
     num_client_sockets := 1, incoming := {5}, fsys := example_fs\<lparr>files := (files example_fs)(POWERAPID_STATE_DIRTY_PATH \<mapsto> [])\<rparr>\<rparr>"

definition example_ready :: server where
  "example_ready = example_connected\<lparr>
     socks := [1 \<mapsto> (example_sock 5 0)\<lparr>sk_context_name := Some ''app'', sk_seqnum := 1\<rparr>],
     sent := [(5, ret_response PWR_RET_SUCCESS)]\<rparr>"

definition example_queued :: server where
  "example_queued = example_ready\<lparr>d_next := 3, work_queue := [2],
     sets := [2 \<mapsto> \<lparr>si_setreq = example_set 1000, si_skinfo = Some 1, si_timestamp = 0\<rparr>]\<rparr>"

lemma example_permission: "check_permissions_file 1000 example_fs = 0"
  using scanned_lines [of "[]" "[1000, 1001]"]
  by (simp add: check_iff fopen_r_def example_fs_def CURR_PERMISSIONS_FILE_def)

lemma paths_differ [simp]: "CURR_PERMISSIONS_FILE \<noteq> POWERAPID_STATE_DIRTY_PATH" "POWERAPID_STATE_DIRTY_PATH \<noteq> CURR_PERMISSIONS_FILE"
  by (simp_all add: CURR_PERMISSIONS_FILE_def POWERAPID_STATE_DIRTY_PATH_def)

lemma example_connect: "server_step D (Connect (Some 5) (Some example_cred)) example_server = Some example_connected"
proof -
  have fs: "fsys example_server = example_fs" by (simp add: example_server_def server_init_def)
  have "check_permissions_file (cr_uid example_cred) (fsys example_server) = 0"
    unfolding fs example_cred_def using example_permission by simp
  then have "process_connect_req (Some 5) (Some example_cred) example_server = (Some 5, example_server)"
    by (simp add: process_connect_req_def example_server_def server_init_def MAX_CLIENT_SOCKETS_def)
  moreover have "set_state_dirty example_server =
      example_server\<lparr>fsys := example_fs\<lparr>files := (files example_fs)(POWERAPID_STATE_DIRTY_PATH \<mapsto> [])\<rparr>\<rparr>"
    unfolding set_state_dirty_def fs by (simp add: example_fs_def POWERAPID_STATE_DIRTY_PATH_def CURR_PERMISSIONS_FILE_def)
  ultimately show ?thesis
    by (simp add: connect_event_def Let_def socket_construct_def example_connected_def example_sock_def example_server_def
        server_init_def)
qed

lemma example_auth: "server_step D (Client 5 (Some (PwrAUTH 0 ''app'')) []) example_connected = Some example_ready"
  by (simp add: client_event_def process_client_req_def socket_lookup_def request_auth_def send_response_def ret_response_def
      example_connected_def example_ready_def example_sock_def example_server_def server_init_def)

lemma example_request: "server_step D (Client 5 (Some (PwrSET (example_set 1000))) []) example_ready = Some example_queued"
  by (simp add: client_event_def process_client_req_def socket_lookup_def set_create_item_def example_queued_def
      example_connected_def example_ready_def example_sock_def example_server_def server_init_def)

lemma example_states_inv: "server_inv example_server" "server_inv example_connected" "server_inv example_ready" "server_inv example_queued"
proof -
  show s0: "server_inv example_server" unfolding example_server_def by (rule server_init_inv)
  have "event_ok (Connect (Some 5) (Some example_cred)) example_server" by (simp add: example_server_def server_init_def)
  from server_step_inv [OF s0 this] show s1: "server_inv example_connected" by (simp only: example_connect) simp
  have "event_ok (Client 5 (Some (PwrAUTH 0 ''app'')) []) example_connected" by (simp add: example_connected_def)
  from server_step_inv [OF s1 this] show s2: "server_inv example_ready" by (simp only: example_auth) simp
  have "event_ok (Client 5 (Some (PwrSET (example_set 1000))) []) example_ready" by (simp add: example_ready_def example_connected_def)
  from server_step_inv [OF s2 this] show "server_inv example_queued" by (simp only: example_request) simp
qed

text \<open>The request served: the value of the file has become the default, and the requested value is in the file.\<close>

definition example_served :: server where
  "example_served = example_queued\<lparr>d_next := 4, work_queue := [],
     sets := [3 \<mapsto> \<lparr>si_setreq = example_set 2000, si_skinfo = None, si_timestamp = 0\<rparr>,
              2 \<mapsto> \<lparr>si_setreq = example_set 1000, si_skinfo = Some 1, si_timestamp = 1\<rparr>],
     socks := [1 \<mapsto> (example_sock 5 0)\<lparr>sk_context_name := Some ''app'', sk_seqnum := 2, sk_my_changes := [''freq'' \<mapsto> 2]\<rparr>],
     def_values := [''freq'' \<mapsto> 3], all_changes := [''freq'' \<mapsto> [2, 3]], ticks := (\<lambda>n. of_nat (Suc (Suc n))),
     sent := [(5, ret_response PWR_RET_SUCCESS), (5, (ret_response PWR_RET_SUCCESS)\<lparr>resp_sequence := 1\<rparr>)],
     fsys := example_fs\<lparr>files := (files example_fs)(POWERAPID_STATE_DIRTY_PATH \<mapsto> [], ''freq'' \<mapsto> show_int 1000)\<rparr>\<rparr>"

text \<open>The same client then asks for more than the default.\<close>

definition example_relaxed :: server where
  "example_relaxed = example_served\<lparr>d_next := 5, work_queue := [4],
     sets := (sets example_served)(4 \<mapsto> \<lparr>si_setreq = example_set 3000, si_skinfo = Some 1, si_timestamp = 0\<rparr>)\<rparr>"

lemmas example_defs = example_fs_def example_server_def server_init_def example_log_def example_connected_def example_ready_def
  example_queued_def example_served_def example_relaxed_def example_sock_def example_set_def example_cred_def

lemma example_file:
  "file_read_uint64 ''freq'' (fsys example_queued) = Some 2000" "file_read_uint64 ''freq'' (fsys example_served) = Some 1000"
proof -
  have "sint (2000 :: 64 word) = 2000" "sint (1000 :: 64 word) = 1000" by simp_all
  then show "file_read_uint64 ''freq'' (fsys example_queued) = Some 2000" "file_read_uint64 ''freq'' (fsys example_served) = Some 1000"
    using scan_long_show [of "[]" 2000] scan_long_show [of "[]" 1000]
    by (simp_all add: file_read_uint64_def fopen_r_def example_defs ends_number_def CURR_PERMISSIONS_FILE_def POWERAPID_STATE_DIRTY_PATH_def)
qed

lemma example_work: "server_step D Work example_queued = Some example_served"
proof -
  let ?q = "example_queued\<lparr>work_queue := []\<rparr>"
  have read: "file_read_uint64 ''freq'' (fsys ?q) = Some 2000" using example_file(1) by simp
  let ?def = "\<lparr>si_setreq = example_set 2000, si_skinfo = None, si_timestamp = 0\<rparr>"
  let ?d = "?q\<lparr>d_next := 4, sets := (sets ?q)(3 \<mapsto> ?def), ticks := (\<lambda>n. of_nat (Suc n)), def_values := [''freq'' \<mapsto> 3],
    all_changes := [''freq'' \<mapsto> [3]]\<rparr>"
  have upd: "update_default D 2 1 False ?q = Some (True, ?d)"
    using read by (simp add: update_default_def set_create_item_def set_value_def stamp_def g_get_real_time_def set_insert_def
        table_update_def changes_def read_attr_value_def read_value_by_type_def example_defs Let_def)
  have srv: "serve_request D 2 1 ''freq'' ?d = Some example_served"
    by (simp add: serve_request_def stamp_def g_get_real_time_def set_insert_def table_update_def changes_def set_comp_def
        attr_value_comp_def value_compare_def top_set_def apply_set_def write_attr_value_def write_value_by_type_def
        file_write_uint64_def write_control_def send_ret_code_response_def send_response_def ret_response_def example_defs Let_def)
  have "sets ?q 2 = Some \<lparr>si_setreq = example_set 1000, si_skinfo = Some 1, si_timestamp = 0\<rparr>" "def_values ?q ''freq'' = None"
    "is_persistent (Some 1) ?q = Some False" "sr_path (example_set 1000) = ''freq''"
    by (simp_all add: is_persistent_def example_defs)
  then have "worker_process_item D 2 ?q = Some example_served" using upd srv by (simp add: worker_process_item_def)
  moreover have "work_queue example_queued = [2]" "sets example_queued 2 = Some \<lparr>si_setreq = example_set 1000, si_skinfo = Some 1, si_timestamp = 0\<rparr>"
    by (simp_all add: example_queued_def)
  ultimately show ?thesis by (simp add: worker_step_def)
qed

lemma example_relax: "server_step D (Client 5 (Some (PwrSET (example_set 3000))) []) example_served = Some example_relaxed"
  by (simp add: client_event_def process_client_req_def socket_lookup_def set_create_item_def example_defs)

lemma example_later_inv: "server_inv example_served" "server_inv example_relaxed"
proof -
  from server_step_inv [OF example_states_inv(4), of Work] show s1: "server_inv example_served" by (simp only: example_work) simp
  have "event_ok (Client 5 (Some (PwrSET (example_set 3000))) []) example_served" by (simp add: example_defs)
  from server_step_inv [OF s1 this] show "server_inv example_relaxed" by (simp only: example_relax) simp
qed

end
