(* ===== verification/Daemon_Properties.thy ===== *)
theory Daemon_Properties
  imports Daemon_Arbitration Daemon_Example
begin

text \<open>
  The properties of the daemon as a whole, and the examples of the properties of
  \<^verbatim>\<open>Daemon_Arbitration\<close>.
\<close>

subsection \<open>Runs\<close>

inductive server_reach :: "libc_double \<Rightarrow> server \<Rightarrow> server \<Rightarrow> bool" for D s0 where
  start: "server_reach D s0 s0"
| step: "server_reach D s0 s \<Longrightarrow> event_ok e s \<Longrightarrow> server_step D e s = Some s' \<Longrightarrow> server_reach D s0 s'"

lemma reach_inv: "server_reach D (server_init f clock c) s \<Longrightarrow> server_inv s"
proof (induction rule: server_reach.induct)
  case start
  show ?case by (rule server_init_inv)
next
  case (step s e s')
  then show ?case using server_step_inv [of s e D] by simp
qed

text \<open>
  C3. In every run of the daemon that starts with empty tables and in which no client hangs
  up with a request still queued, the tables stay consistent: at most 300 clients, exactly
  the open sockets are watched, the marker file exists while there are clients, every path
  with requests has a default, each request is in the list of its path once and is the
  default or the current request of a connected client. And every event of such a run
  is handled without touching a released request or socket.
\<close>

theorem daemon_stays_consistent:
  assumes "server_reach D (server_init f clock c) s"
  shows "num_client_sockets s \<le> MAX_CLIENT_SOCKETS \<and> incoming s = dom (open_sockets s) \<and>
    (incoming s \<noteq> {} \<longrightarrow> files (fsys s) POWERAPID_STATE_DIRTY_PATH \<noteq> None) \<and>
    (\<forall>p. changes s p \<noteq> [] \<longrightarrow> def_values s p \<noteq> None) \<and>
    (\<forall>p. distinct (changes s p) \<and>
      (\<forall>a \<in> set (changes s p). def_values s p = Some a \<or> (\<exists>fd k. open_sockets s fd = Some k \<and> my_of s k p = Some a))) \<and>
    (event_ok e s \<longrightarrow> server_step D e s \<noteq> None)"
proof -
  have inv: "server_inv s" using assms by (rule reach_inv)
  then have t: "tables_inv {} (my_of s) s" and so: "socks_ok s" by (simp_all add: server_inv_def daemon_inv_def)
  have "\<exists>fd. open_sockets s fd = Some k" if "my_of s k p = Some a" for k p a
    using that so unfolding my_of_def socks_ok_def by (cases "socks s k") (simp, fastforce)
  then have "def_values s p = Some a \<or> (\<exists>fd k. open_sockets s fd = Some k \<and> my_of s k p = Some a)" if "a \<in> set (changes s p)" for p a
    using tables_invD(6) [OF t that] by blast
  moreover have "event_ok e s \<Longrightarrow> server_step D e s \<noteq> None" using server_step_inv [OF inv, of e D] by auto
  ultimately show ?thesis using inv tables_invD(4,5) [OF t] by (auto simp: server_inv_def marked_def)
qed

theorem daemon_stays_consistent_witness:
  "server_step example_libc Work example_queued \<noteq> None \<and> files (fsys example_queued) POWERAPID_STATE_DIRTY_PATH \<noteq> None"
proof -
  let ?R = "server_reach example_libc (server_init example_fs of_nat example_log)"
  have "?R example_server" unfolding example_server_def by (rule server_reach.start)
  from server_reach.step [OF this _ example_connect] have "?R example_connected" by (simp add: example_server_def server_init_def)
  from server_reach.step [OF this _ example_auth] have "?R example_ready" by (simp add: example_connected_def)
  from server_reach.step [OF this _ example_request] have "?R example_queued" by (simp add: example_ready_def example_connected_def)
  from daemon_stays_consistent [OF this, of Work] show ?thesis by (simp add: example_queued_def example_ready_def example_connected_def)
qed

text \<open>
  C38. A client that hangs up while its request is next in the queue brings the daemon down:
  the connection is torn down without an error, and the worker then reads the released
  socket of the request.
\<close>

theorem hangup_with_queued_request:
  assumes inv: "server_inv s" and fd: "open_sockets s fd = Some k" and order: "table_order (my_of s k) order"
    and q: "work_queue s = a # q" and own: "set_at s a p (Some k)"
  shows "\<exists>s'. client_event D fd None order s = Some s' \<and> worker_step D s' = None"
proof -
  have d: "daemon_inv s" using inv by (simp add: server_inv_def)
  from socket_destruct_ok [OF _ _ fd order, of D] d obtain s1 where
    s1: "socket_destruct D fd order s = Some s1" "\<forall>a p j. in_flight s a p (Some j) \<longrightarrow> in_flight s1 a p (Some j)"
      "socks s1 = (socks s)(k := None)" "work_queue s1 = work_queue s"
    unfolding daemon_inv_def by blast
  have "in_flight s a p (Some k)" using d q own by (auto simp: daemon_inv_def pending_ok_def in_flight_def set_at_def)
  with s1(2) have "in_flight s1 a p (Some k)" by blast
  then obtain st where st: "sets s1 a = Some st" "si_skinfo st = Some k" by (auto simp: in_flight_def set_at_def)
  let ?s2 = "s1\<lparr>incoming := incoming s1 - {fd}, num_client_sockets := num_client_sockets s1 - 1\<rparr>"
  let ?s3 = "if num_client_sockets ?s2 = 0 then set_state_clean ?s2 else ?s2"
  have "client_event D fd None order s = Some ?s3" using s1(1) by (simp add: client_event_def process_client_req_def)
  moreover have "sets ?s3 = sets s1" "socks ?s3 = socks s1" "work_queue ?s3 = work_queue s1"
    by (simp_all add: set_state_clean_def split: option.splits)
  then have "worker_step D ?s3 = None" using s1(3,4) q st by (simp add: worker_step_def worker_process_item_def is_persistent_def)
  ultimately show ?thesis by blast
qed

theorem hangup_with_queued_request_witness:
  "\<exists>s'. client_event example_libc 5 None [] example_queued = Some s' \<and> worker_step example_libc s' = None"
  by (rule hangup_with_queued_request [OF example_states_inv(4), of _ 1 _ 2 "[]" "''freq''"])
    (simp_all add: example_defs set_at_def my_of_def table_order_def)

subsection \<open>Arbitration\<close>

lemma example_usable: "usable p (fsys example_queued)" "usable p (fsys example_served)"
  by (simp_all add: usable_def example_defs)

lemma example_applied: "applied PWR_ATTR_FREQ_REQ ''freq'' example_served"
  using example_file(2) by (simp add: applied_def) (simp add: example_defs changes_def uint_req_def req_value_def lower_wins_def rank_def higher_wins_def)



text \<open>
  C39. A client that relaxes its own request beyond another one is not served correctly. If
  its old value is in the file, and the best of the other values lies strictly between the
  old and the new one, then the worker drops the old request but leaves the file as it is:
  the file then holds a value that nobody requests any more, and not the most restrictive one.
\<close>

theorem relaxed_request_not_applied:
  assumes inv: "server_inv s" and q: "work_queue s = a # q" and own: "set_at s a p (Some k)" and np: "is_persistent (Some k) s = Some False"
    and ap: "applied att p s" and new: "uint_req att s a" and old: "my_of s k p = Some old" "hd (changes s p) = old"
    and c: "c = hd (remove1 old (changes s p))" "rank att (req_value s old) < rank att (req_value s c)"
      "rank att (req_value s c) < rank att (req_value s a)"
  shows "\<exists>s'. worker_step D s = Some s' \<and> fsys s' = fsys s \<and> old \<notin> set (changes s' p) \<and>
    file_read_uint64 p (fsys s') = Some (req_value s old) \<and> hd (changes s' p) = c \<and> req_value s' c = req_value s c \<and> \<not> applied att p s'"
proof -
  let ?s = "s\<lparr>work_queue := q\<rparr>"
  note u = dequeue [OF inv q own]
  have ao: "a \<noteq> old" using c by auto
  have in_changes: "changes s p \<noteq> []" using rest_nonempty(2) [OF u(2), of k p old] old(1) u(5,7) by auto
  have eq: "applied att p ?s" "uint_req att ?s a" "my_of ?s k p = Some old" "c = hd (remove1 old (changes ?s p))"
    "rank att (req_value ?s c) < rank att (req_value ?s a)" using u ap new old c by simp_all
  from serve_relaxed [OF u(2-4) eq(1-5) ao, of D] obtain s' where
    s': "serve_request D a k p ?s = Some s'" "fsys s' = fsys s" "set (changes s' p) = insert a (set (changes s p) - {old})"
      "hd (changes s' p) = c" "changes s' p \<noteq> []" "req_value s' c = req_value s c" using u(7,8,11) by auto
  have "def_values s p \<noteq> None" using rest_nonempty(1) [OF u(2) eq(3)] by simp
  then have "worker_step D s = Some s'"
    using own np s'(1) u(1) by (auto simp: worker_process_item_def set_at_def is_persistent_def)
  moreover have "file_read_uint64 p (fsys s') = Some (req_value s old)" using ap old s'(2) in_changes by (auto simp: applied_def)
  moreover from this have "\<not> applied att p s'" using s'(4-6) c(2) by (auto simp: applied_def)
  ultimately show ?thesis using s' ao by auto
qed

theorem relaxed_request_not_applied_witness:
  "\<exists>s'. worker_step example_libc example_relaxed = Some s' \<and> file_read_uint64 ''freq'' (fsys s') = Some 1000 \<and>
     2 \<notin> set (changes s' ''freq'') \<and> hd (changes s' ''freq'') = 3 \<and> req_value s' 3 = 2000"
proof -
  have e: "work_queue example_relaxed = 4 # []" "set_at example_relaxed 4 ''freq'' (Some 1)" "is_persistent (Some 1) example_relaxed = Some False"
    "uint_req PWR_ATTR_FREQ_REQ example_relaxed 4" "my_of example_relaxed 1 ''freq'' = Some 2" "hd (changes example_relaxed ''freq'') = 2"
    "3 = hd (remove1 2 (changes example_relaxed ''freq''))"
    by (simp_all add: set_at_def is_persistent_def uint_req_def lower_wins_def my_of_def changes_def example_defs)
  have v: "req_value example_relaxed 2 = 1000" "req_value example_relaxed 3 = 2000" "req_value example_relaxed 4 = 3000"
    by (simp_all add: req_value_def example_defs)
  have "changes example_relaxed = changes example_served" "fsys example_relaxed = fsys example_served"
    by (simp_all add: changes_def [abs_def] example_relaxed_def)
  then have ap: "applied PWR_ATTR_FREQ_REQ ''freq'' example_relaxed"
    using example_applied by (simp add: applied_def) (simp add: example_defs changes_def uint_req_def req_value_def rank_def higher_wins_def)
  have r: "rank PWR_ATTR_FREQ_REQ (req_value example_relaxed 2) < rank PWR_ATTR_FREQ_REQ (req_value example_relaxed 3)"
    "rank PWR_ATTR_FREQ_REQ (req_value example_relaxed 3) < rank PWR_ATTR_FREQ_REQ (req_value example_relaxed 4)"
    unfolding v by (simp_all add: rank_def higher_wins_def)
  from relaxed_request_not_applied [OF example_later_inv(2) e(1-3) ap e(4-7) r, of example_libc] v show ?thesis by auto
qed

subsection \<open>Access control\<close>

text \<open>
  C19. Only a user that the permissions file lists gets a connection, and only as long as
  fewer than 300 clients are connected; every other attempt changes nothing but the
  responses sent. A client that has not authenticated cannot set anything: its request is
  answered with an error, and neither the queue, the requests nor the files change.
\<close>

theorem access_control:
  assumes "perm_rep us (fsys s)"
  shows "(let s' = connect_event accepted peer s in
      open_sockets s' = open_sockets s \<and> socks s' = socks s \<and> incoming s' = incoming s \<or>
      (\<exists>fd cred. accepted = Some fd \<and> peer = Some cred \<and> cr_uid cred \<in> set us \<and> num_client_sockets s < MAX_CLIENT_SOCKETS \<and>
         open_sockets s' = (open_sockets s)(fd \<mapsto> d_next s) \<and> incoming s' = insert fd (incoming s))) \<and>
    (open_sockets s fd = Some k \<longrightarrow> socks s k = Some sk \<longrightarrow> sk_role sk = PWR_ROLE_NOT_SPECIFIED \<longrightarrow>
      (\<exists>s'. client_event D fd (Some (PwrSET r)) order s = Some s' \<and> work_queue s' = work_queue s \<and> sets s' = sets s \<and> fsys s' = fsys s \<and>
         sent s' = sent s @ [(sk_sockid sk, \<lparr>resp_retval = PWR_RET_INVALID, resp_sequence = sk_seqnum sk, resp_loglvl = None\<rparr>)]))"
proof -
  have perm: "check_permissions_file u (fsys s) = 0 \<longleftrightarrow> u \<in> set us" for u
    using perm_search [OF assms, of u] by (simp add: check_permissions_file_def)
  have "open_sockets (set_state_dirty s) = open_sockets s" "socks (set_state_dirty s) = socks s" "incoming (set_state_dirty s) = incoming s"
    "d_next (set_state_dirty s) = d_next s"
    by (simp_all add: set_state_dirty_def Let_def)
  then show ?thesis using perm
    by (auto simp: connect_event_def process_connect_req_def abort_connect_req_def socket_construct_def Let_def
        client_event_def process_client_req_def socket_lookup_def send_response_def ret_response_def split: option.splits)
qed

theorem access_control_witness:
  "\<exists>s'. client_event example_libc 5 (Some (PwrSET (example_set 1000))) [] example_connected = Some s' \<and> work_queue s' = []"
proof -
  have "perm_rep [1000, 1001] (fsys example_connected)"
    by (simp add: perm_rep_def example_defs CURR_PERMISSIONS_FILE_def POWERAPID_STATE_DIRTY_PATH_def)
  from access_control [OF this, where fd = 5 and k = 1 and sk = "example_sock 5 PWR_ROLE_NOT_SPECIFIED" and r = "example_set 1000"
      and D = example_libc and order = "[]"]
  show ?thesis by (auto simp: example_connected_def example_server_def server_init_def example_sock_def)
qed

subsection \<open>Shutdown and restart\<close>

lemma destruct_all_ok:
  assumes "tables_inv {} (my_of s) s" "socks_ok s" "distinct fds"
    and "\<And>fd. fd \<in> set fds \<Longrightarrow> \<exists>k. open_sockets s fd = Some k \<and> table_order (my_of s k) (order fd)"
  shows "\<exists>s'. destruct_all D order fds s = Some s' \<and> open_sockets s' = open_sockets s |` (- set fds) \<and> files_kept (fsys s) (fsys s')"
  using assms
proof (induction fds arbitrary: s)
  case Nil
  then show ?case by (simp add: restrict_map_def)
next
  case (Cons fd fds)
  from Cons.prems(4) [of fd] obtain k where k: "open_sockets s fd = Some k" "table_order (my_of s k) (order fd)" by auto
  from socket_destruct_ok [OF Cons.prems(1,2) k, of D] obtain s1 where
    s1: "socket_destruct D fd (order fd) s = Some s1" "tables_inv {} (my_of s1) s1" "socks_ok s1"
      "open_sockets s1 = (open_sockets s)(fd := None)" "my_of s1 = (my_of s)(k := Map.empty)" "files_kept (fsys s) (fsys s1)" by blast
  have "\<exists>j. open_sockets s1 g = Some j \<and> table_order (my_of s1 j) (order g)" if "g \<in> set fds" for g
  proof -
    have g: "g \<noteq> fd" using Cons.prems(3) that by auto
    from Cons.prems(4) [of g] that obtain j where j: "open_sockets s g = Some j" "table_order (my_of s j) (order g)" by auto
    have "j \<noteq> k" using Cons.prems(2) j(1) k(1) g unfolding socks_ok_def by (metis option.inject)
    with j g s1(4,5) show ?thesis by auto
  qed
  from Cons.IH [OF s1(2,3) _ this] Cons.prems(3) obtain s2 where
    s2: "destruct_all D order fds s1 = Some s2" "open_sockets s2 = open_sockets s1 |` (- set fds)" "files_kept (fsys s1) (fsys s2)" by auto
  have "open_sockets s2 = open_sockets s |` (- set (fd # fds))" using s2(2) s1(4) by (auto simp: restrict_map_def fun_eq_iff)
  with s1(1,6) s2(1,3) show ?case by (auto dest: files_kept_trans)
qed

text \<open>
  C40. A daemon that is told to stop always finishes its shutdown, with every connection
  closed. But if clients were connected, the marker file is left behind, so that a daemon
  started without permission to restart takes the orderly shutdown for a crash and puts the
  node into the administrative down state.
\<close>

theorem shutdown_leaves_marker:
  assumes inv: "server_inv s" and s1: "worker_step D s = Some s1" and clients: "incoming s \<noteq> {}"
    and order: "\<forall>fd k. open_sockets s1 fd = Some k \<longrightarrow> table_order (my_of s1 k) (order fd)"
  shows "\<exists>s'. daemon_shutdown D order s = Some s' \<and> open_sockets s' = Map.empty \<and>
    (files (fsys s') POWERAPID_ALLOW_RESTART_PATH = None \<longrightarrow> daemon_start False (fsys s') = AdminDown)"
proof -
  from worker_step_inv [of s D] inv s1 have w: "daemon_inv s1" "open_sockets s1 = open_sockets s" "files_kept (fsys s) (fsys s1)" "incoming s1 = incoming s"
    using more_eq(2) [of s1 s] by (auto simp: server_inv_def)
  have fin: "finite (incoming s)" "dom (open_sockets s1) = incoming s1" using inv w(2,4) by (auto simp: server_inv_def)
  let ?fds = "sorted_list_of_set (incoming s1)"
  have fds: "distinct ?fds" "set ?fds = incoming s1" using fin(1) w(4) by simp_all
  have "\<exists>k. open_sockets s1 fd = Some k \<and> table_order (my_of s1 k) (order fd)" if "fd \<in> set ?fds" for fd
    using that fds(2) fin(2) order by blast
  from destruct_all_ok [OF _ _ fds(1) this, of D] w(1) obtain s' where
    s': "destruct_all D order ?fds s1 = Some s'" "open_sockets s' = open_sockets s1 |` (- incoming s1)" "files_kept (fsys s1) (fsys s')"
    using fds(2) by (auto simp: daemon_inv_def)
  have "daemon_shutdown D order s = Some s'" using s1 s'(1) by (simp add: daemon_shutdown_def worker_stop_def)
  moreover have "open_sockets s' = Map.empty" using s'(2) fin(2) by (auto simp: restrict_map_def fun_eq_iff dom_def)
  moreover have "marked (fsys s')"
    using inv clients files_kept_trans [OF w(3) s'(3)] by (auto simp: server_inv_def marked_def files_kept_def)
  ultimately show ?thesis by (auto simp: daemon_start_def check_state_dirty_def marked_def)
qed

theorem shutdown_leaves_marker_witness:
  "\<exists>s'. daemon_shutdown example_libc (\<lambda>_. [''freq'']) example_queued = Some s' \<and> open_sockets s' = Map.empty"
proof -
  have w: "worker_step example_libc example_queued = Some example_served" using example_work [of example_libc] by simp
  have i: "incoming example_queued \<noteq> {}" by (simp add: example_defs)
  have "\<forall>fd k. open_sockets example_served fd = Some k \<longrightarrow> table_order (my_of example_served k) [''freq'']"
    by (auto simp: example_defs my_of_def table_order_def split: if_splits)
  from shutdown_leaves_marker [OF example_states_inv(4) w i this] show ?thesis by auto
qed

end
