(* ===== verification/Log_Ring.thy ===== *)
theory Log_Ring
  imports Pwr_Prelude "HOL-Library.Word"
begin

text \<open>
  The ring buffers of \<^verbatim>\<open>lib/log.c\<close>, in which messages wait for the thread that writes the
  log file. A ring is an array of bytes with 32-bit read and write positions. A message
  starts with its length; it may wrap around the end of the array. A new message displaces
  the oldest ones. Access outside the array is \<open>None\<close>, and so is a loop that does not end.
\<close>

unbundle bit_operations_syntax

type_synonym byte = "8 word"

abbreviation STATE_IDLE :: "32 word" where "STATE_IDLE \<equiv> 0"

record ringbuf_t =
  rb_size :: "32 word"
  rb_state :: "32 word"
  rb_wridx :: "32 word"
  rb_rdidx :: "32 word"
  rb_buf :: "byte list"

subsection \<open>Memory\<close>

definition copy_out :: "byte list \<Rightarrow> nat \<Rightarrow> nat \<Rightarrow> byte list option" where
  "copy_out buf i n = (if i + n \<le> length buf then Some (take n (drop i buf)) else None)"

definition copy_in :: "byte list \<Rightarrow> nat \<Rightarrow> byte list \<Rightarrow> byte list option" where
  "copy_in buf i src = (if i + length src \<le> length buf then Some (take i buf @ src @ drop (i + length src) buf) else None)"

text \<open>A 32-bit number, least significant byte first.\<close>

definition le32 :: "byte list \<Rightarrow> 32 word" where
  "le32 bs = foldr (\<lambda>b w. ucast b OR push_bit 8 w) bs 0"

definition to_le32 :: "32 word \<Rightarrow> byte list" where
  "to_le32 w = [ucast w, ucast (drop_bit 8 w), ucast (drop_bit 16 w), ucast (drop_bit 24 w)]"

subsection \<open>Operations\<close>

text \<open>\<open>mem\<close> is the memory that \<^verbatim>\<open>malloc\<close> returns, of \<open>n\<close> bytes; the size field has only 32 bits.\<close>

definition mtx_init_ring :: "64 word \<Rightarrow> byte list \<Rightarrow> ringbuf_t" where
  "mtx_init_ring n mem = \<lparr>rb_size = ucast n, rb_state = STATE_IDLE, rb_wridx = 0, rb_rdidx = 0, rb_buf = mem\<rparr>"

definition mtx_ringspace :: "ringbuf_t \<Rightarrow> 32 word" where
  "mtx_ringspace r =
     (let w = (if rb_wridx r < rb_rdidx r then rb_wridx r + rb_size r else rb_wridx r) in rb_size r - (w - rb_rdidx r))"

text \<open>\<open>keep\<close> is false when the message is to be discarded (a NULL pointer in the code); then nothing is copied.\<close>

definition mtx_getmessage :: "bool \<Rightarrow> ringbuf_t \<Rightarrow> (byte list option \<times> ringbuf_t) option" where
  "mtx_getmessage keep r =
     (if rb_wridx r \<noteq> rb_rdidx r then
        do {
          hdr \<leftarrow> copy_out (rb_buf r) (unat (rb_rdidx r)) 4;
          let msglen = le32 hdr;
          (front, msglen, rdidx) \<leftarrow>
            (if rb_rdidx r + msglen \<ge> rb_size r then
               do {
                 let len = rb_size r - rb_rdidx r;
                 front \<leftarrow> (if keep then copy_out (rb_buf r) (unat (rb_rdidx r)) (unat len) else Some []);
                 Some (front, msglen - len, 0)
               }
             else Some ([], msglen, rb_rdidx r));
          back \<leftarrow> (if keep then copy_out (rb_buf r) (unat rdidx) (unat msglen) else Some []);
          Some (Some (front @ back), r\<lparr>rb_rdidx := rdidx + msglen\<rparr>)
        }
      else Some (None, r))"

text \<open>The loop that discards messages until there is space.\<close>

partial_function (option) make_room :: "32 word \<Rightarrow> ringbuf_t \<Rightarrow> ringbuf_t option" where
  "make_room msglen r =
     (if mtx_ringspace r \<le> msglen then do { (_, r) \<leftarrow> mtx_getmessage False r; make_room msglen r } else Some r)"

text \<open>A message block is put into a ring; the code makes this a no-op when there is no ring at all.\<close>

definition mtx_putmessage :: "byte list \<Rightarrow> ringbuf_t \<Rightarrow> ringbuf_t option" where
  "mtx_putmessage msg r =
     do {
       hdr \<leftarrow> copy_out msg 0 4;
       let msglen = le32 hdr;
       r \<leftarrow> make_room msglen r;
       (off, msglen, r) \<leftarrow>
         (if rb_wridx r + msglen \<ge> rb_size r then
            do {
              let len = rb_size r - rb_wridx r;
              front \<leftarrow> copy_out msg 0 (unat len);
              buf \<leftarrow> copy_in (rb_buf r) (unat (rb_wridx r)) front;
              Some (unat len, msglen - len, r\<lparr>rb_buf := buf, rb_wridx := 0\<rparr>)
            }
          else Some (0, msglen, r));
       back \<leftarrow> copy_out msg off (unat msglen);
       buf \<leftarrow> copy_in (rb_buf r) (unat (rb_wridx r)) back;
       Some (r\<lparr>rb_buf := buf, rb_wridx := rb_wridx r + msglen\<rparr>)
     }"

definition mtx_clearring :: "ringbuf_t \<Rightarrow> ringbuf_t" where
  "mtx_clearring r = r\<lparr>rb_wridx := 0, rb_rdidx := 0\<rparr>"

subsection \<open>Circular access\<close>

definition circ :: "byte list \<Rightarrow> nat \<Rightarrow> nat \<Rightarrow> byte list" where
  "circ buf i n = map (\<lambda>j. buf ! ((i + j) mod length buf)) [0..<n]"

lemma length_circ [simp]: "length (circ buf i n) = n"
  by (simp add: circ_def)

lemma circ_add: "circ buf i (n + k) = circ buf i n @ circ buf ((i + n) mod length buf) k"
proof (rule nth_equalityI)
  fix j assume "j < length (circ buf i (n + k))"
  moreover from this have "j - n < k" if "\<not> j < n" using that by simp
  ultimately show "circ buf i (n + k) ! j = (circ buf i n @ circ buf ((i + n) mod length buf) k) ! j"
    by (cases "j < n") (simp_all add: circ_def nth_append mod_add_left_eq)
qed simp

lemma circ_straight: "i + n \<le> length buf \<Longrightarrow> circ buf i n = take n (drop i buf)"
  by (rule nth_equalityI) (auto simp: circ_def)

lemma circ_wrap:
  assumes "i < length buf" "length buf \<le> i + n" "n \<le> length buf"
  shows "circ buf i n = drop i buf @ take (n - (length buf - i)) buf"
proof -
  have n: "n = (length buf - i) + (n - (length buf - i))" using assms by simp
  have "circ buf i n = circ buf i (length buf - i) @ circ buf ((i + (length buf - i)) mod length buf) (n - (length buf - i))"
    by (subst n) (rule circ_add)
  then show ?thesis using assms by (simp add: circ_straight)
qed

text \<open>Writing a block that may wrap.\<close>

definition write_circ :: "byte list \<Rightarrow> nat \<Rightarrow> byte list \<Rightarrow> byte list" where
  "write_circ buf w m = map (\<lambda>p. let j = (p + length buf - w) mod length buf in if j < length m then m ! j else buf ! p) [0..<length buf]"

lemma length_write_circ [simp]: "length (write_circ buf w m) = length buf"
  by (simp add: write_circ_def)

lemma mod_lt2: "(a :: nat) < 2 * n \<Longrightarrow> a mod n = (if a < n then a else a - n)"
  by (auto simp: mod_if)

lemma circ_write_same:
  assumes "w < length buf" "length m \<le> length buf"
  shows "circ (write_circ buf w m) w (length m) = m"
proof (rule nth_equalityI)
  fix j assume "j < length (circ (write_circ buf w m) w (length m))"
  then have j: "j < length m" by simp
  let ?N = "length buf" and ?p = "(w + j) mod length buf"
  have p: "?p < ?N" using assms by (intro mod_less_divisor) linarith
  have "(?p + ?N - w) mod ?N = j" using assms j by (auto simp: mod_lt2)
  then show "circ (write_circ buf w m) w (length m) ! j = m ! j"
    using j p by (simp add: circ_def write_circ_def)
qed simp

lemma circ_write_other:
  assumes "i < length buf" "n + length m < length buf" "w = (i + n) mod length buf"
  shows "circ (write_circ buf w m) i n = circ buf i n"
proof (rule nth_equalityI)
  fix j assume "j < length (circ (write_circ buf w m) i n)"
  then have j: "j < n" by simp
  let ?N = "length buf" and ?p = "(i + j) mod length buf"
  have p: "?p < ?N" using assms by (intro mod_less_divisor) linarith
  have "\<not> (?p + ?N - w) mod ?N < length m" using assms j by (auto simp: mod_lt2 split: if_splits)
  then show "circ (write_circ buf w m) i n ! j = circ buf i n ! j"
    using j p by (simp add: circ_def write_circ_def)
qed simp

subsection \<open>The ring as a queue of messages\<close>

text \<open>A message: its first four bytes are its length, and that is a multiple of eight.\<close>

definition msg_ok :: "byte list \<Rightarrow> bool" where
  "msg_ok m \<longleftrightarrow> 8 dvd length m \<and> m \<noteq> [] \<and> le32 (take 4 m) = of_nat (length m)"

definition ring_rep :: "nat \<Rightarrow> ringbuf_t \<Rightarrow> byte list list \<Rightarrow> bool" where
  "ring_rep N r ms \<longleftrightarrow>
     unat (rb_size r) = N \<and> length (rb_buf r) = N \<and> 8 dvd N \<and> N \<le> 2 ^ 31 \<and>
     unat (rb_rdidx r) < N \<and> 8 dvd unat (rb_rdidx r) \<and> list_all msg_ok ms \<and> length (concat ms) < N \<and>
     unat (rb_wridx r) = (unat (rb_rdidx r) + length (concat ms)) mod N \<and>
     circ (rb_buf r) (unat (rb_rdidx r)) (length (concat ms)) = concat ms"

lemma ring_repD:
  assumes "ring_rep N r ms"
  shows "unat (rb_size r) = N" "length (rb_buf r) = N" "8 dvd N" "N \<le> 2 ^ 31" "unat (rb_rdidx r) < N" "8 dvd unat (rb_rdidx r)"
    "list_all msg_ok ms" "length (concat ms) < N" "unat (rb_wridx r) = (unat (rb_rdidx r) + length (concat ms)) mod N"
    "circ (rb_buf r) (unat (rb_rdidx r)) (length (concat ms)) = concat ms"
  using assms by (simp_all add: ring_rep_def)

lemma unat_add32: "unat a + unat b < 2 ^ 32 \<Longrightarrow> unat (a + b :: 32 word) = unat a + unat b"
  by (simp add: unat_plus_if')

lemma unat_diff32: "unat b \<le> unat a \<Longrightarrow> unat (a - b :: 32 word) = unat a - unat b"
  by (simp add: unat_sub_if')

lemma ringspace_rep:
  assumes "ring_rep N r ms"
  shows "unat (mtx_ringspace r) = N - length (concat ms)"
proof -
  note d = ring_repD [OF assms]
  let ?n = "length (concat ms)"
  have w: "unat (rb_wridx r) = (if unat (rb_rdidx r) + ?n < N then unat (rb_rdidx r) + ?n else unat (rb_rdidx r) + ?n - N)"
    using d(9) mod_lt2 [of "unat (rb_rdidx r) + ?n" N] d(5,8) by simp
  show ?thesis
  proof (cases "unat (rb_rdidx r) + ?n < N")
    case True
    then have le: "unat (rb_rdidx r) \<le> unat (rb_wridx r)" "unat (rb_wridx r) = unat (rb_rdidx r) + ?n" using w by simp_all
    then have "unat (rb_wridx r - rb_rdidx r) = ?n" by (simp add: unat_diff32)
    then show ?thesis using le d(1,8) by (simp add: mtx_ringspace_def Let_def word_less_nat_alt unat_diff32)
  next
    case False
    then have lt: "unat (rb_wridx r) < unat (rb_rdidx r)" "unat (rb_wridx r) + N = unat (rb_rdidx r) + ?n" using w d(5,8) by simp_all
    then have "unat (rb_wridx r + rb_size r) = unat (rb_rdidx r) + ?n" using d(1,4,5) by (simp add: unat_add32)
    then have "unat (rb_wridx r + rb_size r - rb_rdidx r) = ?n" by (simp add: unat_diff32)
    then show ?thesis using lt d(1,8) by (simp add: mtx_ringspace_def Let_def word_less_nat_alt unat_diff32)
  qed
qed

lemma empty_rep: "ring_rep N r ms \<Longrightarrow> rb_wridx r = rb_rdidx r \<longleftrightarrow> ms = []"
proof -
  assume r: "ring_rep N r ms"
  note d = ring_repD [OF r]
  have "length (concat ms) = 0 \<longleftrightarrow> ms = []" using d(7) by (cases ms) (auto simp: msg_ok_def)
  moreover have "unat (rb_wridx r) = unat (rb_rdidx r) \<longleftrightarrow> length (concat ms) = 0"
  proof -
    define n where "n = length (concat ms)"
    define i where "i = unat (rb_rdidx r)"
    have "i < N" "n < N" "unat (rb_wridx r) = (i + n) mod N" using d(5,8,9) by (simp_all add: n_def i_def)
    then have "unat (rb_wridx r) = (if i + n < N then i + n else i + n - N)" using mod_lt2 [of "i + n" N] by simp
    with \<open>i < N\<close> \<open>n < N\<close> show ?thesis unfolding n_def [symmetric] i_def [symmetric] by (auto split: if_splits)
  qed
  ultimately show ?thesis by (simp add: word_unat_eq_iff)
qed

lemma dvd_next: "8 dvd (a :: nat) \<Longrightarrow> 8 dvd b \<Longrightarrow> a < b \<Longrightarrow> a + 8 \<le> b"
  by (elim dvdE) simp

lemma header_rep:
  assumes r: "ring_rep N r (m # ms)"
  shows "copy_out (rb_buf r) (unat (rb_rdidx r)) 4 = Some (take 4 m)" "unat (le32 (take 4 m)) = length m" "length m < N"
    "circ (rb_buf r) (unat (rb_rdidx r)) (length m) = m"
    "circ (rb_buf r) ((unat (rb_rdidx r) + length m) mod N) (length (concat ms)) = concat ms"
proof -
  note d = ring_repD [OF r]
  let ?i = "unat (rb_rdidx r)"
  have "circ (rb_buf r) ?i (length m) @ circ (rb_buf r) ((?i + length m) mod N) (length (concat ms)) = m @ concat ms"
    using d(10) circ_add [of "rb_buf r" ?i "length m" "length (concat ms)"] d(2) by simp
  then show m: "circ (rb_buf r) ?i (length m) = m"
    and "circ (rb_buf r) ((?i + length m) mod N) (length (concat ms)) = concat ms" by simp_all
  show len: "length m < N" using d(8) by simp
  have ok: "8 dvd length m" "m \<noteq> []" "le32 (take 4 m) = of_nat (length m)" using d(7) by (simp_all add: msg_ok_def)
  then have m8: "8 \<le> length m" by (auto intro: dvd_imp_le)
  have i8: "?i + 8 \<le> N" using d(3,5,6) by (simp add: dvd_next)
  have "take 4 m = take 4 (circ (rb_buf r) ?i (length m))" using m by simp
  also have "circ (rb_buf r) ?i (length m) = circ (rb_buf r) ?i (4 + (length m - 4))" using m8 by simp
  also have "take 4 \<dots> = circ (rb_buf r) ?i 4" unfolding circ_add by simp
  also have "\<dots> = take 4 (drop ?i (rb_buf r))" using i8 d(2) by (simp add: circ_straight)
  finally show "copy_out (rb_buf r) ?i 4 = Some (take 4 m)" using i8 d(2) by (simp add: copy_out_def)
  have "length m < 2 ^ 32" using len d(4) by simp
  then show "unat (le32 (take 4 m)) = length m" by (simp add: ok(3) unat_of_nat take_bit_nat_eq_self)
qed

lemma get_empty: "ring_rep N r [] \<Longrightarrow> mtx_getmessage keep r = Some (None, r)"
  using empty_rep [of N r "[]"] by (simp add: mtx_getmessage_def)

lemma get_rep:
  assumes r: "ring_rep N r (m # ms)"
  shows "\<exists>r'. mtx_getmessage keep r = Some (Some (if keep then m else []), r') \<and> ring_rep N r' ms"
proof -
  note d = ring_repD [OF r] and h = header_rep [OF r]
  let ?i = "unat (rb_rdidx r)" and ?L = "le32 (take 4 m)"
  have ne: "rb_wridx r \<noteq> rb_rdidx r" using empty_rep [OF r] by simp
  have sum: "unat (rb_rdidx r + ?L) = ?i + length m" using h(2,3) d(4,5) by (simp add: unat_add32)
  let ?i' = "(?i + length m) mod N"
  have rep: "ring_rep N (r\<lparr>rb_rdidx := x\<rparr>) ms" if x: "unat x = ?i'" for x
  proof -
    have "8 dvd ?i'" using d(3,6,7) by (simp add: msg_ok_def dvd_mod)
    moreover have "(?i' + length (concat ms)) mod N = (?i + length (concat (m # ms))) mod N" by (simp add: mod_add_left_eq add.assoc)
    moreover have "?i' < N" using d(5) by (intro mod_less_divisor) linarith
    ultimately show ?thesis using x d h(5) by (simp add: ring_rep_def)
  qed
  show ?thesis
  proof (cases "N \<le> ?i + length m")
    case True
    then have cond: "rb_rdidx r + ?L \<ge> rb_size r" using sum d(1) by (simp add: word_le_nat_alt)
    have len: "unat (rb_size r - rb_rdidx r) = N - ?i" using d(1,5) by (simp add: unat_diff32)
    have rest: "unat (?L - (rb_size r - rb_rdidx r)) = length m - (N - ?i)" using len h(2) True by (simp add: unat_diff32)
    have "?i' = length m - (N - ?i)" using True h(3) d(5) mod_lt2 [of "?i + length m" N] by simp
    then have "ring_rep N (r\<lparr>rb_rdidx := 0 + (?L - (rb_size r - rb_rdidx r))\<rparr>) ms" using rest by (intro rep) simp
    moreover have "drop ?i (rb_buf r) @ take (length m - (N - ?i)) (rb_buf r) = m"
      using circ_wrap [of ?i "rb_buf r" "length m"] h(3,4) d(2,5) True by simp
    ultimately show ?thesis using ne h(1,3) cond len rest d(2,5) by (auto simp: mtx_getmessage_def copy_out_def Let_def)
  next
    case False
    then have cond: "\<not> rb_rdidx r + ?L \<ge> rb_size r" using sum d(1) by (simp add: word_le_nat_alt)
    have "ring_rep N (r\<lparr>rb_rdidx := rb_rdidx r + ?L\<rparr>) ms" using False sum by (intro rep) simp
    moreover have "take (length m) (drop ?i (rb_buf r)) = m" using circ_straight [of ?i "length m" "rb_buf r"] h(4) d(2) False by simp
    ultimately show ?thesis using ne h(1,2) cond d(2) False by (simp add: mtx_getmessage_def copy_out_def Let_def)
  qed
qed

text \<open>What the loop leaves: the oldest messages go until the new one fits.\<close>

fun room :: "nat \<Rightarrow> nat \<Rightarrow> byte list list \<Rightarrow> byte list list" where
  "room N n [] = []"
| "room N n (m # ms) = (if N \<le> n + length (concat (m # ms)) then room N n ms else m # ms)"

lemma room_fits: "n < N \<Longrightarrow> n + length (concat (room N n ms)) < N"
  by (induction ms) auto

lemma room_suffix: "\<exists>k. room N n ms = drop k ms"
proof (induction ms)
  case (Cons m ms)
  then obtain k where "room N n ms = drop k ms" ..
  then have "room N n (m # ms) = drop (if N \<le> n + length (concat (m # ms)) then Suc k else 0) (m # ms)" by simp
  then show ?case by blast
qed simp

lemma make_room_rep:
  assumes "ring_rep N r ms" "unat L < N"
  shows "\<exists>r'. make_room L r = Some r' \<and> ring_rep N r' (room N (unat L) ms)"
  using assms(1)
proof (induction ms arbitrary: r)
  case Nil
  then have "unat (mtx_ringspace r) = N" using ringspace_rep [of N r "[]"] by simp
  then have "\<not> mtx_ringspace r \<le> L" using assms(2) by (simp add: word_le_nat_alt)
  then show ?case using Nil by (subst make_room.simps) simp
next
  case (Cons m ms)
  have sp: "mtx_ringspace r \<le> L \<longleftrightarrow> N \<le> unat L + length (concat (m # ms))"
    using ringspace_rep [OF Cons.prems] by (auto simp: word_le_nat_alt)
  show ?case
  proof (cases "mtx_ringspace r \<le> L")
    case True
    from get_rep [OF Cons.prems, of False] obtain r1 where r1: "mtx_getmessage False r = Some (Some [], r1)" "ring_rep N r1 ms" by auto
    from Cons.IH [OF r1(2)] obtain r2 where "make_room L r1 = Some r2" "ring_rep N r2 (room N (unat L) ms)" by blast
    then show ?thesis using True sp r1(1) by (subst make_room.simps) simp
  next
    case False
    then show ?thesis using sp Cons.prems by (subst make_room.simps) simp
  qed
qed

text \<open>A message as long as the ring is never accommodated: the loop does not end.\<close>

lemma make_room_stuck:
  assumes "ring_rep N r []" "N \<le> unat L"
  shows "make_room L r = None"
proof -
  have "make_room L r \<noteq> Some r'" for r'
  proof
    assume "make_room L r = Some r'"
    then show False using assms
    proof (induction rule: make_room.raw_induct [rotated 1, consumes 1])
      case (1 mr L r r')
      have "mtx_ringspace r \<le> L" using ringspace_rep [OF 1(3)] 1(4) by (simp add: word_le_nat_alt)
      then show False using 1 get_empty [OF 1(3), of False] by simp
    qed
  qed
  then show ?thesis by (cases "make_room L r") auto
qed

lemma copy_in_write:
  assumes "w + length m < length buf"
  shows "copy_in buf w m = Some (write_circ buf w m)"
proof -
  have "take w buf @ m @ drop (w + length m) buf = write_circ buf w m"
  proof (rule nth_equalityI)
    fix p assume "p < length (take w buf @ m @ drop (w + length m) buf)"
    then have p: "p < length buf" using assms by simp
    have "(p + length buf - w) mod length buf = (if w \<le> p then p - w else p + length buf - w)"
      using assms p mod_lt2 [of "p + length buf - w" "length buf"] by auto
    then show "(take w buf @ m @ drop (w + length m) buf) ! p = write_circ buf w m ! p"
      using assms p by (auto simp: write_circ_def nth_append Let_def)
  qed (use assms in simp)
  then show ?thesis using assms by (simp add: copy_in_def)
qed

lemma copy_in_wrap:
  assumes "w < length buf" "length m < length buf" "length buf \<le> w + length m"
  defines "k \<equiv> length buf - w"
  shows "\<exists>b. copy_in buf w (take k m) = Some b \<and> copy_in b 0 (drop k m) = Some (write_circ buf w m)"
proof -
  let ?b = "take w buf @ take k m"
  have b: "copy_in buf w (take k m) = Some ?b" "length ?b = length buf" using assms by (auto simp: copy_in_def k_def)
  have "drop k m @ drop (length m - k) ?b = write_circ buf w m"
  proof (rule nth_equalityI)
    show len: "length (drop k m @ drop (length m - k) ?b) = length (write_circ buf w m)" using assms b(2) by (auto simp: k_def)
    fix p assume "p < length (drop k m @ drop (length m - k) ?b)"
    then have p: "p < length buf" using len by simp
    have j: "(p + length buf - w) mod length buf = (if w \<le> p then p - w else p + k)"
      using assms(1) p mod_lt2 [of "p + length buf - w" "length buf"] by (auto simp: k_def)
    show "(drop k m @ drop (length m - k) ?b) ! p = write_circ buf w m ! p"
      using assms p j by (auto simp: write_circ_def nth_append Let_def k_def add.commute [of p])
  qed
  then show ?thesis using b assms(2) by (auto simp: copy_in_def k_def)
qed

text \<open>The block may be longer than the message it holds: only the message is copied.\<close>

lemma put_rep:
  assumes r: "ring_rep N r ms" and m: "msg_ok m" "length m < N"
  shows "\<exists>r'. mtx_putmessage (m @ rest) r = Some r' \<and> ring_rep N r' (room N (length m) ms @ [m])"
proof -
  let ?L = "le32 (take 4 m)" and ?ms = "room N (length m) ms"
  have m8: "8 \<le> length m" using m(1) by (auto simp: msg_ok_def intro: dvd_imp_le)
  have L: "unat ?L = length m" using m ring_repD(4) [OF r] by (simp add: msg_ok_def unat_of_nat take_bit_nat_eq_self)
  from make_room_rep [OF r, of ?L] L m(2) obtain r1 where r1: "make_room ?L r = Some r1" "ring_rep N r1 ?ms" by auto
  note d = ring_repD [OF r1(2)]
  let ?w = "unat (rb_wridx r1)" and ?i = "unat (rb_rdidx r1)" and ?n = "length (concat ?ms)"
  have fits: "length m + ?n < N" using m(2) by (rule room_fits)
  have w: "?w < N" using d(5,9) by simp
  have sum: "unat (rb_wridx r1 + ?L) = ?w + length m" using L w m(2) d(4) by (simp add: unat_add32)
  let ?buf = "write_circ (rb_buf r1) ?w m"
  have rep: "ring_rep N (r1\<lparr>rb_buf := ?buf, rb_wridx := x\<rparr>) (?ms @ [m])" if x: "unat x = (?w + length m) mod N" for x
  proof -
    have "(?i + (?n + length m)) mod N = (?w + length m) mod N" using d(9) by (simp add: mod_add_left_eq add.assoc)
    moreover have "circ ?buf ?i (?n + length m) = concat ?ms @ m"
      unfolding circ_add using circ_write_other [of ?i "rb_buf r1" ?n m ?w] circ_write_same [of ?w "rb_buf r1" m] d fits w m(2) by simp
    ultimately show ?thesis using d m(1) x fits by (simp add: ring_rep_def add.commute)
  qed
  show ?thesis
  proof (cases "N \<le> ?w + length m")
    case True
    then have cond: "rb_wridx r1 + ?L \<ge> rb_size r1" using sum d(1) by (simp add: word_le_nat_alt)
    have len: "unat (rb_size r1 - rb_wridx r1) = N - ?w" using d(1) w by (simp add: unat_diff32)
    have bk: "unat (?L - (rb_size r1 - rb_wridx r1)) = length m - (N - ?w)" using len L True by (simp add: unat_diff32)
    from copy_in_wrap [of ?w "rb_buf r1" m] w m(2) d(2) True obtain b where
      b: "copy_in (rb_buf r1) ?w (take (N - ?w) m) = Some b" "copy_in b 0 (drop (N - ?w) m) = Some ?buf" by auto
    have "(?w + length m) mod N = length m - (N - ?w)" using True w m(2) mod_lt2 [of "?w + length m" N] by simp
    then have "ring_rep N (r1\<lparr>rb_buf := ?buf, rb_wridx := 0 + (?L - (rb_size r1 - rb_wridx r1))\<rparr>) (?ms @ [m])"
      using bk by (intro rep) simp
    moreover have "mtx_putmessage (m @ rest) r = Some (r1\<lparr>rb_buf := ?buf, rb_wridx := 0 + (?L - (rb_size r1 - rb_wridx r1))\<rparr>)"
      using m8 r1(1) cond len bk b True w by (simp add: mtx_putmessage_def copy_out_def Let_def)
    ultimately show ?thesis by blast
  next
    case False
    then have cond: "\<not> rb_wridx r1 + ?L \<ge> rb_size r1" using sum d(1) by (simp add: word_le_nat_alt)
    have "ring_rep N (r1\<lparr>rb_buf := ?buf, rb_wridx := rb_wridx r1 + ?L\<rparr>) (?ms @ [m])" using False sum by (intro rep) simp
    moreover have "mtx_putmessage (m @ rest) r = Some (r1\<lparr>rb_buf := ?buf, rb_wridx := rb_wridx r1 + ?L\<rparr>)"
      using m8 r1(1) cond L copy_in_write [of ?w m "rb_buf r1"] d(2) False by (simp add: mtx_putmessage_def copy_out_def Let_def)
    ultimately show ?thesis by blast
  qed
qed

lemma init_rep:
  assumes "8 dvd unat n" "0 < unat n" "unat n \<le> 2 ^ 31" "length mem = unat n"
  shows "ring_rep (unat n) (mtx_init_ring n mem) []"
proof -
  have "unat (ucast n :: 32 word) = unat n" using assms(3) by (simp add: unsigned_ucast_eq take_bit_nat_eq_self)
  then show ?thesis using assms by (simp add: ring_rep_def mtx_init_ring_def circ_def)
qed

lemma clear_rep: "ring_rep N r ms \<Longrightarrow> ring_rep N (mtx_clearring r) []"
  by (auto simp: ring_rep_def mtx_clearring_def circ_def)

subsection \<open>Sequences of operations\<close>

datatype 'm queue_op = Put 'm | Get

fun op_run :: "('m \<Rightarrow> 'r \<Rightarrow> 'r option) \<Rightarrow> ('r \<Rightarrow> ('m option \<times> 'r) option) \<Rightarrow> 'm queue_op list \<Rightarrow> 'r \<Rightarrow> ('m option list \<times> 'r) option" where
  "op_run put get [] r = Some ([], r)"
| "op_run put get (Put m # ops) r = do { r \<leftarrow> put m r; op_run put get ops r }"
| "op_run put get (Get # ops) r = do { (x, r) \<leftarrow> get r; (xs, r) \<leftarrow> op_run put get ops r; Some (x # xs, r) }"

text \<open>The specification: a queue from which \<open>trim\<close> drops messages before one is appended.\<close>

fun queue_run :: "('m \<Rightarrow> 'm list \<Rightarrow> 'm list) \<Rightarrow> 'm queue_op list \<Rightarrow> 'm list \<Rightarrow> 'm option list \<times> 'm list" where
  "queue_run trim [] ms = ([], ms)"
| "queue_run trim (Put m # ops) ms = queue_run trim ops (trim m ms @ [m])"
| "queue_run trim (Get # ops) [] = (let (xs, ms) = queue_run trim ops [] in (None # xs, ms))"
| "queue_run trim (Get # ops) (m # ms) = (let (xs, ms) = queue_run trim ops ms in (Some m # xs, ms))"

locale bounded_queue =
  fixes put :: "'m \<Rightarrow> 'r \<Rightarrow> 'r option" and get :: "'r \<Rightarrow> ('m option \<times> 'r) option" and rep :: "'r \<Rightarrow> 'm list \<Rightarrow> bool"
    and fits :: "'m \<Rightarrow> bool" and trim :: "'m \<Rightarrow> 'm list \<Rightarrow> 'm list"
  assumes put_law: "rep r ms \<Longrightarrow> fits m \<Longrightarrow> \<exists>r'. put m r = Some r' \<and> rep r' (trim m ms @ [m])"
    and get_law: "rep r (m # ms) \<Longrightarrow> \<exists>r'. get r = Some (Some m, r') \<and> rep r' ms"
    and empty_law: "rep r [] \<Longrightarrow> get r = Some (None, r)"
begin

lemma run_refines:
  assumes "rep r ms" "\<forall>m. Put m \<in> set ops \<longrightarrow> fits m"
  shows "\<exists>r'. op_run put get ops r = Some (fst (queue_run trim ops ms), r') \<and> rep r' (snd (queue_run trim ops ms))"
  using assms
proof (induction ops arbitrary: r ms)
  case (Cons op ops)
  have rest: "\<forall>m. Put m \<in> set ops \<longrightarrow> fits m" using Cons.prems(2) by simp
  show ?case
  proof (cases op)
    case (Put m)
    then have "fits m" using Cons.prems(2) by simp
    from put_law [OF Cons.prems(1) this] obtain r1 where "put m r = Some r1" "rep r1 (trim m ms @ [m])" by blast
    with Cons.IH [OF _ rest] Put show ?thesis by fastforce
  next
    case Get
    show ?thesis
    proof (cases ms)
      case Nil
      then have "get r = Some (None, r)" using Cons.prems(1) empty_law by simp
      with Cons.IH [OF _ rest, of r "[]"] Cons.prems(1) Nil Get show ?thesis by (auto simp: case_prod_beta Let_def)
    next
      case (Cons m ms')
      with Cons.prems(1) get_law obtain r1 where "get r = Some (Some m, r1)" "rep r1 ms'" by blast
      with Cons.IH [OF _ rest, of r1 ms'] Cons Get show ?thesis by (auto simp: case_prod_beta Let_def)
    qed
  qed
qed simp

end

interpretation log_ring: bounded_queue mtx_putmessage "mtx_getmessage True" "ring_rep N" "\<lambda>m. msg_ok m \<and> length m < N" "\<lambda>m. room N (length m)" for N
proof
  fix r ms m assume "ring_rep N r ms" "msg_ok m \<and> length m < N"
  with put_rep [of N r ms m "[]"] show "\<exists>r'. mtx_putmessage m r = Some r' \<and> ring_rep N r' (room N (length m) ms @ [m])" by auto
next
  fix r m ms assume "ring_rep N r (m # ms)"
  from get_rep [OF this, of True] show "\<exists>r'. mtx_getmessage True r = Some (Some m, r') \<and> ring_rep N r' ms" by simp
qed (rule get_empty)

text \<open>
  C21. A ring of \<open>N\<close> bytes, freshly initialised over any memory, behaves as a queue of
  messages under any sequence of operations: every operation returns, a read gives the
  oldest message byte for byte, also when it wraps around the end of the memory, or reports
  that there is none, and a write drops the oldest messages, as few as possible, until the
  contents and the new message together are shorter than \<open>N\<close>.
\<close>

theorem log_ring_refines_queue:
  assumes "8 dvd unat n" "0 < unat n" "unat n \<le> 2 ^ 31" "length mem = unat n"
    and "\<forall>m. Put m \<in> set ops \<longrightarrow> msg_ok m \<and> length m < unat n"
  shows "\<exists>r'. op_run mtx_putmessage (mtx_getmessage True) ops (mtx_init_ring n mem) =
    Some (fst (queue_run (\<lambda>m. room (unat n) (length m)) ops []), r')"
  using log_ring.run_refines [OF init_rep [OF assms(1-4)] assms(5)] by blast

definition example_msg :: "byte \<Rightarrow> byte list" where
  "example_msg b = [8, 0, 0, 0, b, b, b, b]"

lemma example_msg_ok: "msg_ok (example_msg b)" "length (example_msg b) = 8"
proof -
  show l: "length (example_msg b) = 8" by (simp add: example_msg_def eval_nat_numeral)
  have "le32 (take 4 (example_msg b)) = 8" "example_msg b \<noteq> []" by (simp_all add: example_msg_def le32_def)
  with l show "msg_ok (example_msg b)" by (simp add: msg_ok_def)
qed

theorem log_ring_refines_queue_witness:
  "\<exists>r'. op_run mtx_putmessage (mtx_getmessage True)
      [Put (example_msg 1), Put (example_msg 2), Get, Put (example_msg 3), Put (example_msg 4), Get, Get, Get]
      (mtx_init_ring 24 (replicate 24 0)) =
    Some ([Some (example_msg 1), Some (example_msg 3), Some (example_msg 4), None], r')"
proof -
  let ?ops = "[Put (example_msg 1), Put (example_msg 2), Get, Put (example_msg 3), Put (example_msg 4), Get, Get, Get]"
  have "\<forall>m. Put m \<in> set ?ops \<longrightarrow> msg_ok m \<and> length m < unat (24 :: 64 word)"
    by (auto simp: example_msg_ok)
  from log_ring_refines_queue [OF _ _ _ _ this, of "replicate 24 0"] show ?thesis by (simp add: example_msg_ok)
qed

end
