(* ===== verification/Log_Message.thy ===== *)
theory Log_Message
  imports Log_Ring
begin

text \<open>
  The message blocks of \<^verbatim>\<open>lib/log.c\<close> and how they are filled. The text is what
  \<^verbatim>\<open>vsnprintf\<close> would print without a limit, or nothing when there is no format. A write
  outside the text buffer of the block is \<open>None\<close>.
\<close>

definition MAX_MSG_SIZE :: nat where "MAX_MSG_SIZE = 4096 - 128"

definition MSG_HDR_SIZE :: nat where "MSG_HDR_SIZE = 32"

record msgblk_t =
  mb_msglen :: "32 word"
  mb_txtlen :: "32 word"
  mb_msgtype :: "32 word"
  mb_tid :: "32 word"
  mb_tv :: "byte list"
  mb_message :: "byte list"

text \<open>The block in memory.\<close>

definition msg_bytes :: "msgblk_t \<Rightarrow> byte list" where
  "msg_bytes m = to_le32 (mb_msglen m) @ to_le32 (mb_txtlen m) @ to_le32 (mb_msgtype m) @ to_le32 (mb_tid m) @ mb_tv m @ mb_message m"

definition blk_ok :: "msgblk_t \<Rightarrow> bool" where
  "blk_ok m \<longleftrightarrow> length (mb_tv m) = 16 \<and> length (mb_message m) = MAX_MSG_SIZE"

text \<open>\<^verbatim>\<open>vsnprintf\<close> into a buffer of the given size: the text that fits, and a NUL.\<close>

definition vsnprintf :: "byte list \<Rightarrow> nat \<Rightarrow> byte list \<Rightarrow> byte list" where
  "vsnprintf buf siz t = (let t = take (siz - 1) t @ [0] in t @ drop (length t) buf)"

function pad_loop :: "nat \<Rightarrow> byte list \<Rightarrow> (nat \<times> byte list) option" where
  "pad_loop n message =
     (if n mod 8 = 0 then Some (n, message)
      else if n < length message then pad_loop (Suc n) (message[n := 0]) else None)"
  by pat_completeness auto
termination by (relation "measure (\<lambda>(n, message). length message - n)") auto

declare pad_loop.simps [simp del]

definition vmsgformat :: "byte list \<Rightarrow> 32 word \<Rightarrow> 32 word \<Rightarrow> byte list option \<Rightarrow> msgblk_t \<Rightarrow> (nat \<times> msgblk_t) option" where
  "vmsgformat now tid msgtype txt m =
     do {
       let (len, message) =
         (case txt of
            None \<Rightarrow> (0, mb_message m)
          | Some t \<Rightarrow> (min (length t) (MAX_MSG_SIZE - 1), vsnprintf (mb_message m) MAX_MSG_SIZE t));
       (msglen, message) \<leftarrow> pad_loop (1 + len + MSG_HDR_SIZE) message;
       Some (len, m\<lparr>mb_msglen := of_nat msglen, mb_txtlen := of_nat len, mb_msgtype := msgtype, mb_tid := tid, mb_tv := now,
                    mb_message := message\<rparr>)
     }"

subsection \<open>Padding\<close>

definition round8 :: "nat \<Rightarrow> nat" where
  "round8 n = (n + 7) div 8 * 8"

lemma round8_props: "8 dvd round8 n" "n \<le> round8 n" "round8 n < n + 8" "n mod 8 = 0 \<Longrightarrow> round8 n = n"
  "n mod 8 \<noteq> 0 \<Longrightarrow> round8 (Suc n) = round8 n"
  unfolding round8_def by (simp_all, presburger+)

lemma pad_loop_fits:
  "round8 n \<le> length b \<Longrightarrow> \<exists>b'. pad_loop n b = Some (round8 n, b') \<and> length b' = length b \<and> take n b' = take n b"
proof (induction n b rule: pad_loop.induct)
  case (1 n b)
  show ?case
  proof (cases "n mod 8 = 0")
    case True
    then show ?thesis by (subst pad_loop.simps) (simp add: round8_props)
  next
    case False
    then have "n \<noteq> round8 n" using round8_props(1) [of n] by (metis dvd_imp_mod_0)
    then have r: "round8 (Suc n) = round8 n" "n < round8 n" using False round8_props(2) [of n] round8_props(5) [of n] by simp_all
    then have lt: "n < length b" using 1(2) by simp
    from 1(1) [OF False lt] 1(2) r obtain b' where
      b': "pad_loop (Suc n) (b[n := 0]) = Some (round8 n, b')" "length b' = length b" "take (Suc n) b' = take (Suc n) (b[n := 0])" by auto
    then have "take n b' = take n (b[n := 0])" by (metis lessI take_take min.strict_order_iff min.commute)
    then show ?thesis using False lt b' by (subst pad_loop.simps) simp
  qed
qed

lemma pad_loop_beyond: "length b \<le> n \<Longrightarrow> n mod 8 \<noteq> 0 \<Longrightarrow> pad_loop n b = None"
  by (subst pad_loop.simps) simp

lemma le32_to_le32: "le32 (to_le32 w) = w"
proof (rule bit_word_eqI)
  fix n assume "n < LENGTH(32)"
  then show "bit (le32 (to_le32 w)) n = bit w n"
    by (cases "24 \<le> n"; cases "16 \<le> n") (auto simp: le32_def to_le32_def bit_or_iff bit_push_bit_iff bit_unsigned_iff bit_drop_bit_eq not_less)
qed

lemma vsnprintf_props:
  assumes "length buf = siz" "0 < siz" "len = min (length t) (siz - 1)"
  shows "length (vsnprintf buf siz t) = siz" "take (Suc len) (vsnprintf buf siz t) = take len t @ [0]"
proof -
  have "length (take (siz - 1) t) = len" "take (siz - 1) t = take len t" using assms(3) by (simp_all add: min_def)
  then have "vsnprintf buf siz t = (take len t @ [0]) @ drop (Suc len) buf" by (simp add: vsnprintf_def Let_def)
  moreover have "length (take len t @ [0]) = Suc len" using assms(3) by simp
  moreover have "len < siz" using assms(2,3) by linarith
  ultimately show "length (vsnprintf buf siz t) = siz" "take (Suc len) (vsnprintf buf siz t) = take len t @ [0]"
    using assms(1) by simp_all
qed

lemma pad_result:
  assumes "length b = MAX_MSG_SIZE" "len \<le> MAX_MSG_SIZE - 1" "len < 3936 \<or> (len + 1) mod 8 = 0"
  shows "\<exists>b'. pad_loop (1 + len + MSG_HDR_SIZE) b = Some (round8 (1 + len + MSG_HDR_SIZE), b') \<and> length b' = MAX_MSG_SIZE \<and>
    take (Suc len) b' = take (Suc len) b"
proof (cases "(len + 1) mod 8 = 0")
  case True
  then have "(1 + len + MSG_HDR_SIZE) mod 8 = 0" unfolding MSG_HDR_SIZE_def by presburger
  then show ?thesis using assms(1) round8_props(4) [of "1 + len + MSG_HDR_SIZE"] by (subst pad_loop.simps) simp
next
  case False
  with assms(3) have l: "len < 3936" by simp
  have "round8 (1 + len + MSG_HDR_SIZE) \<le> length b"
  proof -
    have "len \<le> 3935" using l by simp
    then show ?thesis unfolding assms(1) round8_def MSG_HDR_SIZE_def MAX_MSG_SIZE_def by presburger
  qed
  from pad_loop_fits [OF this] obtain b' where
    b': "pad_loop (1 + len + MSG_HDR_SIZE) b = Some (round8 (1 + len + MSG_HDR_SIZE), b')" "length b' = length b"
      "take (1 + len + MSG_HDR_SIZE) b' = take (1 + len + MSG_HDR_SIZE) b" by blast
  have "take (Suc len) (take (1 + len + MSG_HDR_SIZE) b') = take (Suc len) (take (1 + len + MSG_HDR_SIZE) b)" using b'(3) by simp
  then have "take (Suc len) b' = take (Suc len) b" by (simp add: min_def)
  then show ?thesis using b'(1,2) assms(1) by auto
qed

lemma length_msg_bytes: "blk_ok m \<Longrightarrow> length (msg_bytes m) = 4000"
  by (simp add: msg_bytes_def blk_ok_def to_le32_def MAX_MSG_SIZE_def)

text \<open>
  C34. Formatting a message of any text cuts the text to 3967 bytes, and succeeds exactly if
  that length is below 3936 or one less than a multiple of eight. Then the block holds the
  text and a NUL, its length is a multiple of eight, at most the size of the block, and a
  ring that has room for it takes it as the newest message. In the other cases the padding
  is written past the end of the block: the index counts from the start of the block, but is
  applied to the text, which starts 32 bytes later.
\<close>

theorem message_format:
  assumes m: "blk_ok m" "length now = 16" and len: "len = min (length t) (MAX_MSG_SIZE - 1)" and r: "ring_rep N r ms" "4096 \<le> N"
  shows "(vmsgformat now tid ty (Some t) m = None \<longleftrightarrow> 3936 \<le> len \<and> (len + 1) mod 8 \<noteq> 0) \<and>
    (\<forall>x m'. vmsgformat now tid ty (Some t) m = Some (x, m') \<longrightarrow>
      x = len \<and> blk_ok m' \<and> unat (mb_txtlen m') = len \<and> take (Suc len) (mb_message m') = take len t @ [0] \<and>
      unat (mb_msglen m') = round8 (len + 33) \<and> round8 (len + 33) \<le> 4000 \<and>
      (\<exists>r'. mtx_putmessage (msg_bytes m') r = Some r' \<and>
         ring_rep N r' (room N (round8 (len + 33)) ms @ [take (round8 (len + 33)) (msg_bytes m')])))"
proof -
  let ?b = "vsnprintf (mb_message m) MAX_MSG_SIZE t" and ?n = "1 + len + MSG_HDR_SIZE"
  have b: "length ?b = MAX_MSG_SIZE" "take (Suc len) ?b = take len t @ [0]"
    using vsnprintf_props [of "mb_message m" MAX_MSG_SIZE len t] m(1) len by (simp_all add: blk_ok_def MAX_MSG_SIZE_def)
  have n: "?n = len + 33" "len \<le> MAX_MSG_SIZE - 1" "len \<le> 3967" using len by (simp_all add: MSG_HDR_SIZE_def MAX_MSG_SIZE_def)
  have small: "unat (of_nat k :: 32 word) = k" if "k \<le> 4000" for k using that by (simp add: unat_of_nat take_bit_nat_eq_self)
  have fmt: "vmsgformat now tid ty (Some t) m = (case pad_loop ?n ?b of None \<Rightarrow> None | Some (k, b) \<Rightarrow>
      Some (len, m\<lparr>mb_msglen := of_nat k, mb_txtlen := of_nat len, mb_msgtype := ty, mb_tid := tid, mb_tv := now, mb_message := b\<rparr>))"
    using len by (simp add: vmsgformat_def split: option.splits)
  show ?thesis
  proof (cases "3936 \<le> len \<and> (len + 1) mod 8 \<noteq> 0")
    case True
    have "?n mod 8 \<noteq> 0" using True unfolding n(1) by presburger
    moreover have "length ?b \<le> ?n" using True b(1) unfolding n(1) by (simp add: MAX_MSG_SIZE_def)
    ultimately show ?thesis using True fmt pad_loop_beyond [of ?b ?n] by simp
  next
    case False
    then have "len < 3936 \<or> (len + 1) mod 8 = 0" by auto
    from pad_result [OF b(1) n(2) this] obtain b' where
      b': "pad_loop ?n ?b = Some (round8 ?n, b')" "length b' = MAX_MSG_SIZE" "take (Suc len) b' = take (Suc len) ?b" by blast
    have pad: "pad_loop ?n ?b = Some (round8 (len + 33), b')" using b'(1) by (simp only: n(1))
    let ?m = "m\<lparr>mb_msglen := of_nat (round8 (len + 33)), mb_txtlen := of_nat len, mb_msgtype := ty, mb_tid := tid, mb_tv := now, mb_message := b'\<rparr>"
    have f: "vmsgformat now tid ty (Some t) m = Some (len, ?m)" using fmt pad by simp
    have r8: "round8 (len + 33) \<le> 4000" "round8 (len + 33) \<ge> 33" using n(3) unfolding round8_def by presburger+
    have ok: "blk_ok ?m" using m b'(2) by (simp add: blk_ok_def)
    have ml: "unat (mb_msglen ?m) = round8 (len + 33)" "unat (mb_txtlen ?m) = len"
      using small [OF r8(1)] small [of len] n(3) by simp_all
    let ?k = "take (round8 (len + 33)) (msg_bytes ?m)"
    have lk: "length ?k = round8 (len + 33)" using r8(1) length_msg_bytes [OF ok] by simp
    have "take 4 ?k = to_le32 (mb_msglen ?m)" using r8(2) by (simp add: msg_bytes_def to_le32_def min_def)
    then have "msg_ok ?k" using lk r8(2) round8_props(1) [of "len + 33"] by (auto simp: msg_ok_def le32_to_le32)
    from put_rep [OF r(1) this, of "drop (round8 (len + 33)) (msg_bytes ?m)"] lk r8(1) r(2)
    have "\<exists>r'. mtx_putmessage (msg_bytes ?m) r = Some r' \<and> ring_rep N r' (room N (round8 (len + 33)) ms @ [?k])" by simp
    then show ?thesis using False f ok ml b'(3) b(2) r8(1) by auto
  qed
qed

definition example_blk :: msgblk_t where
  "example_blk = \<lparr>mb_msglen = 0, mb_txtlen = 0, mb_msgtype = 0, mb_tid = 0, mb_tv = replicate 16 0, mb_message = replicate MAX_MSG_SIZE 0\<rparr>"

theorem message_format_witness:
  "vmsgformat (replicate 16 0) 1 2 (Some (replicate 3940 65)) example_blk = None \<and>
   vmsgformat (replicate 16 0) 1 2 (Some [72, 105]) example_blk \<noteq> None"
proof -
  have b: "blk_ok example_blk" "length (replicate 16 (0 :: byte)) = 16" unfolding blk_ok_def example_blk_def by (simp_all only: length_replicate msgblk_t.simps)
  obtain mem :: "byte list" where mem: "length mem = 4096" using Ex_list_of_length by blast
  have "unat (4096 :: 64 word) = 4096" by simp
  then have r: "ring_rep 4096 (mtx_init_ring 4096 mem) []" using init_rep [of 4096 mem] mem by simp
  have l: "(3940 :: nat) = min (length (replicate 3940 (65 :: byte))) (MAX_MSG_SIZE - 1)" "(2 :: nat) = min (length [72, 105 :: byte]) (MAX_MSG_SIZE - 1)"
    unfolding length_replicate MAX_MSG_SIZE_def by simp_all
  show ?thesis
  proof
    show "vmsgformat (replicate 16 0) 1 2 (Some (replicate 3940 65)) example_blk = None"
      by (rule iffD2 [OF conjunct1 [OF message_format [OF b l(1) r order_refl]]]) simp
    show "vmsgformat (replicate 16 0) 1 2 (Some [72, 105]) example_blk \<noteq> None"
      unfolding conjunct1 [OF message_format [OF b l(2) r order_refl]] by simp
  qed
qed

end
