(* ===== verification/Pwr_List.thy ===== *)
theory Pwr_List
  imports Text_Numbers Pwr_Double
begin

text \<open>
  \<^verbatim>\<open>lib/pwr_list.c\<close>: the growing arrays of integers, doubles and strings in which the
  plugins collect the values that an attribute can take. A cell that has been allocated and
  not written is \<open>None\<close>; a write outside the array makes the result \<open>None\<close>. A double is
  its bit pattern; its text is a parameter \<open>print_lf\<close>, and \<open>strtod\<close> stands for the
  conversion of the C library: value, rest of the text, and whether \<^verbatim>\<open>errno\<close> is set.
\<close>

record pwr_list_uint64_t =
  lu_alloc :: nat
  lu_num :: nat
  lu_list :: "64 word option list"
  lu_value_len :: nat
  lu_min :: "64 word"
  lu_max :: "64 word"

record pwr_list_double_t =
  ld_alloc :: nat
  ld_num :: nat
  ld_list :: "64 word option list"
  ld_value_len :: nat
  ld_min :: "64 word"
  ld_max :: "64 word"

record pwr_list_string_t =
  ls_alloc :: nat
  ls_num :: nat
  ls_list :: "string option list"
  ls_value_len :: nat

subsection \<open>Memory\<close>

definition g_realloc_n :: "'a option list \<Rightarrow> nat \<Rightarrow> 'a option list" where
  "g_realloc_n l n = take n l @ replicate (n - length l) None"

definition put_cell :: "'a option list \<Rightarrow> nat \<Rightarrow> 'a \<Rightarrow> 'a option list option" where
  "put_cell l i v = (if i < length l then Some (l[i := Some v]) else None)"

definition get_cell :: "'a option list \<Rightarrow> nat \<Rightarrow> 'a option" where
  "get_cell l i = (if i < length l then l ! i else None)"

subsection \<open>Creation and release\<close>

definition pwr_list_init_uint64 :: pwr_list_uint64_t where
  "pwr_list_init_uint64 = \<lparr>lu_alloc = 0, lu_num = 0, lu_list = [], lu_value_len = 0, lu_min = 0, lu_max = 0\<rparr>"

definition pwr_list_init_double :: pwr_list_double_t where
  "pwr_list_init_double = \<lparr>ld_alloc = 0, ld_num = 0, ld_list = [], ld_value_len = 0, ld_min = 0, ld_max = 0\<rparr>"

definition pwr_list_init_string :: pwr_list_string_t where
  "pwr_list_init_string = \<lparr>ls_alloc = 0, ls_num = 0, ls_list = [], ls_value_len = 0\<rparr>"

definition pwr_list_free_uint64 :: "pwr_list_uint64_t \<Rightarrow> pwr_list_uint64_t" where
  "pwr_list_free_uint64 l = pwr_list_init_uint64"

definition pwr_list_free_double :: "pwr_list_double_t \<Rightarrow> pwr_list_double_t" where
  "pwr_list_free_double l = pwr_list_init_double"

text \<open>Every string in use is released first, so it has to be there.\<close>

definition pwr_list_free_string :: "pwr_list_string_t \<Rightarrow> pwr_list_string_t option" where
  "pwr_list_free_string l =
     (if \<forall>idx < ls_num l. get_cell (ls_list l) idx \<noteq> None then Some pwr_list_init_string else None)"

subsection \<open>Adding a value\<close>

definition pwr_list_add_uint64 :: "pwr_list_uint64_t \<Rightarrow> 64 word \<Rightarrow> pwr_list_uint64_t option" where
  "pwr_list_add_uint64 l val =
     do {
       let l = (if lu_num l \<ge> lu_alloc l then
                  let num = lu_alloc l + 20 in l\<lparr>lu_alloc := num, lu_list := g_realloc_n (lu_list l) num\<rparr>
                else l);
       let l = (if lu_num l = 0 then l\<lparr>lu_min := val, lu_max := val\<rparr>
                else if val < lu_min l then l\<lparr>lu_min := val\<rparr>
                else if val > lu_max l then l\<lparr>lu_max := val\<rparr> else l);
       let len = length (show_nat (unat val));
       let l = (if len \<ge> lu_value_len l then l\<lparr>lu_value_len := len + 1\<rparr> else l);
       cells \<leftarrow> put_cell (lu_list l) (lu_num l) val;
       Some (l\<lparr>lu_list := cells, lu_num := lu_num l + 1\<rparr>)
     }"

definition pwr_list_add_double :: "(64 word \<Rightarrow> string) \<Rightarrow> pwr_list_double_t \<Rightarrow> 64 word \<Rightarrow> pwr_list_double_t option" where
  "pwr_list_add_double print_lf l val =
     do {
       let l = (if ld_num l \<ge> ld_alloc l then
                  let num = ld_alloc l + 20 in l\<lparr>ld_alloc := num, ld_list := g_realloc_n (ld_list l) num\<rparr>
                else l);
       let l = (if ld_num l = 0 then l\<lparr>ld_min := val, ld_max := val\<rparr>
                else if double_of_bits val < double_of_bits (ld_min l) then l\<lparr>ld_min := val\<rparr>
                else if double_of_bits (ld_max l) < double_of_bits val then l\<lparr>ld_max := val\<rparr> else l);
       let len = length (print_lf val);
       let l = (if len \<ge> ld_value_len l then l\<lparr>ld_value_len := len + 1\<rparr> else l);
       cells \<leftarrow> put_cell (ld_list l) (ld_num l) val;
       Some (l\<lparr>ld_list := cells, ld_num := ld_num l + 1\<rparr>)
     }"

definition pwr_list_add_string :: "pwr_list_string_t \<Rightarrow> string \<Rightarrow> pwr_list_string_t option" where
  "pwr_list_add_string l str =
     do {
       let l = (if ls_num l \<ge> ls_alloc l then
                  let num = ls_alloc l + 20 in l\<lparr>ls_alloc := num, ls_list := g_realloc_n (ls_list l) num\<rparr>
                else l);
       let len = length str;
       let l = (if len \<ge> ls_value_len l then l\<lparr>ls_value_len := len + 1\<rparr> else l);
       cells \<leftarrow> put_cell (ls_list l) (ls_num l) str;
       Some (l\<lparr>ls_list := cells, ls_num := ls_num l + 1\<rparr>)
     }"

text \<open>\<^verbatim>\<open>g_ascii_strtoull\<close> in base ten: value, rest of the text, and whether the value is out of range.\<close>

definition g_ascii_strtoull :: "string \<Rightarrow> 64 word \<times> string \<times> bool" where
  "g_ascii_strtoull str =
     (case scan_decimal str of
        None \<Rightarrow> (0, str, False)
      | Some (neg, n, rest) \<Rightarrow> (to_ulong neg n, rest, n \<ge> 2 ^ 64))"

definition pwr_list_add_str_uint64 :: "pwr_list_uint64_t \<Rightarrow> string \<Rightarrow> (int \<times> pwr_list_uint64_t) option" where
  "pwr_list_add_str_uint64 l str =
     (case g_ascii_strtoull str of
        (val, ep, err) \<Rightarrow>
          if ep = str \<or> ep \<noteq> [] \<or> err then Some (PWR_RET_FAILURE, l)
          else do { l \<leftarrow> pwr_list_add_uint64 l val; Some (PWR_RET_SUCCESS, l) })"

definition pwr_list_add_str_double ::
  "(64 word \<Rightarrow> string) \<Rightarrow> (string \<Rightarrow> 64 word \<times> string \<times> bool) \<Rightarrow> pwr_list_double_t \<Rightarrow> string \<Rightarrow> (int \<times> pwr_list_double_t) option" where
  "pwr_list_add_str_double print_lf strtod l str =
     (case strtod str of
        (val, ep, err) \<Rightarrow>
          if ep = str \<or> ep \<noteq> [] \<or> err then Some (PWR_RET_FAILURE, l)
          else do { l \<leftarrow> pwr_list_add_double print_lf l val; Some (PWR_RET_SUCCESS, l) })"

subsection \<open>Sorting\<close>

definition pwr_compare_uint64 :: "64 word \<Rightarrow> 64 word \<Rightarrow> int" where
  "pwr_compare_uint64 a b = (if a < b then - 1 else if a > b then 1 else 0)"

definition pwr_compare_double :: "64 word \<Rightarrow> 64 word \<Rightarrow> int" where
  "pwr_compare_double a b =
     (let a = double_of_bits a; b = double_of_bits b in if a < b then - 1 else if b < a then 1 else 0)"

text \<open>
  \<^verbatim>\<open>qsort\<close>. The order of elements that compare equal is left open in C; for integers they are
  the same, for doubles this concerns the two zeros and NaN.
\<close>

fun qsort_insert :: "('a \<Rightarrow> 'a \<Rightarrow> int) \<Rightarrow> 'a \<Rightarrow> 'a list \<Rightarrow> 'a list" where
  "qsort_insert cmp x [] = [x]"
| "qsort_insert cmp x (y # ys) = (if cmp x y \<le> 0 then x # y # ys else y # qsort_insert cmp x ys)"

definition qsort :: "('a \<Rightarrow> 'a \<Rightarrow> int) \<Rightarrow> 'a list \<Rightarrow> 'a list" where
  "qsort cmp xs = foldr (qsort_insert cmp) xs []"

definition sort_cells :: "('a \<Rightarrow> 'a \<Rightarrow> int) \<Rightarrow> nat \<Rightarrow> 'a option list \<Rightarrow> 'a option list option" where
  "sort_cells cmp n cells =
     (if n \<le> length cells then do { xs \<leftarrow> those (take n cells); Some (map Some (qsort cmp xs) @ drop n cells) } else None)"

definition pwr_list_sort_uint64 :: "pwr_list_uint64_t \<Rightarrow> pwr_list_uint64_t option" where
  "pwr_list_sort_uint64 l = do { cells \<leftarrow> sort_cells pwr_compare_uint64 (lu_num l) (lu_list l); Some (l\<lparr>lu_list := cells\<rparr>) }"

definition pwr_list_sort_double :: "pwr_list_double_t \<Rightarrow> pwr_list_double_t option" where
  "pwr_list_sort_double l = do { cells \<leftarrow> sort_cells pwr_compare_double (ld_num l) (ld_list l); Some (l\<lparr>ld_list := cells\<rparr>) }"

subsection \<open>Access\<close>

text \<open>
  The status, and what is stored through the two pointers; \<open>want\<close> and \<open>want_str\<close> say
  whether they are not NULL. The text is stored with a final NUL, which is not shown.
\<close>

definition pwr_list_value_at_index_uint64 ::
  "pwr_list_uint64_t \<Rightarrow> nat \<Rightarrow> bool \<Rightarrow> bool \<Rightarrow> (int \<times> 64 word option \<times> string option) option" where
  "pwr_list_value_at_index_uint64 l index want want_str =
     (if index \<ge> lu_num l then Some (PWR_RET_BAD_INDEX, None, None)
      else do {
        ival \<leftarrow> get_cell (lu_list l) index;
        Some (PWR_RET_SUCCESS, if want then Some ival else None, if want_str then Some (show_nat (unat ival)) else None)
      })"

definition pwr_list_value_at_index_double ::
  "(64 word \<Rightarrow> string) \<Rightarrow> pwr_list_double_t \<Rightarrow> nat \<Rightarrow> bool \<Rightarrow> bool \<Rightarrow> (int \<times> 64 word option \<times> string option) option" where
  "pwr_list_value_at_index_double print_lf l index want want_str =
     (if index \<ge> ld_num l then Some (PWR_RET_BAD_INDEX, None, None)
      else do {
        fval \<leftarrow> get_cell (ld_list l) index;
        Some (PWR_RET_SUCCESS, if want then Some fval else None, if want_str then Some (print_lf fval) else None)
      })"

text \<open>The conversion function may be missing. Its result, an int, is stored in 64 bits.\<close>

definition pwr_list_value_at_index_string ::
  "pwr_list_string_t \<Rightarrow> nat \<Rightarrow> bool \<Rightarrow> bool \<Rightarrow> (string \<Rightarrow> int) option \<Rightarrow> (int \<times> 64 word option \<times> string option) option" where
  "pwr_list_value_at_index_string l index want want_str string_to_value =
     (if index \<ge> ls_num l then Some (PWR_RET_BAD_INDEX, None, None)
      else do {
        str \<leftarrow> get_cell (ls_list l) index;
        case (want, string_to_value) of
          (True, None) \<Rightarrow> Some (PWR_RET_FAILURE, None, None)
        | (True, Some f) \<Rightarrow> Some (PWR_RET_SUCCESS, Some (word_of_int (f str)), if want_str then Some str else None)
        | (False, _) \<Rightarrow> Some (PWR_RET_SUCCESS, None, if want_str then Some str else None)
      })"

subsection \<open>The values of a list\<close>

text \<open>What the three kinds have in common; \<open>text\<close> is how a value is printed.\<close>

definition cells_hold :: "nat \<Rightarrow> nat \<Rightarrow> 'a option list \<Rightarrow> nat \<Rightarrow> ('a \<Rightarrow> string) \<Rightarrow> 'a list \<Rightarrow> bool" where
  "cells_hold alloc num cells value_len show_value vs \<longleftrightarrow>
     num = length vs \<and> alloc = length cells \<and> num \<le> alloc \<and> take num cells = map Some vs \<and>
     (\<forall>v \<in> set vs. length (show_value v) < value_len)"

lemma cells_holdD:
  assumes "cells_hold alloc num cells value_len show_value vs"
  shows "num = length vs" "take num cells = map Some vs" "alloc = length cells" "num \<le> alloc"
    "\<forall>v \<in> set vs. length (show_value v) < value_len"
  using assms unfolding cells_hold_def by blast+

lemma get_cell_hold:
  assumes "cells_hold alloc num cells value_len show_value vs" "i < num"
  shows "get_cell cells i = Some (vs ! i)"
proof -
  note h = cells_holdD [OF assms(1)]
  from arg_cong [OF h(2), of "\<lambda>l. l ! i"] assms(2) have "cells ! i = map Some vs ! i" by (simp only: nth_take)
  then show ?thesis using h(1,3,4) assms(2) by (simp add: get_cell_def)
qed

text \<open>The growing of the array and the storing of the value, as all three functions do it.\<close>

lemma grow_put:
  fixes v :: 'a
  assumes h: "cells_hold alloc num cells value_len show_value vs"
  defines "big \<equiv> if num \<ge> alloc then g_realloc_n cells (alloc + 20) else cells"
    and "len \<equiv> if length (show_value v) \<ge> value_len then length (show_value v) + 1 else value_len"
  shows "\<exists>c. put_cell big num v = Some c \<and>
    cells_hold (if num \<ge> alloc then alloc + 20 else alloc) (num + 1) c len show_value (vs @ [v])"
proof -
  note held = cells_holdD [OF h]
  have len_big: "length big = (if num \<ge> alloc then alloc + 20 else alloc)" "num < length big" "take num big = take num cells"
    using held(3,4) by (auto simp: big_def g_realloc_n_def)
  have "take (num + 1) (big[num := Some v]) = take num big @ [Some v]"
    using len_big(2) by (simp add: take_Suc_conv_app_nth)
  then have "take (num + 1) (big[num := Some v]) = map Some (vs @ [v])" using len_big(3) held(2) by simp
  moreover have "\<forall>w \<in> set (vs @ [v]). length (show_value w) < len" using held(5) by (auto simp: len_def)
  ultimately show ?thesis using len_big(1,2) held(1,4) by (simp add: put_cell_def cells_hold_def)
qed

fun add_all :: "('l \<Rightarrow> 'v \<Rightarrow> 'l option) \<Rightarrow> 'v list \<Rightarrow> 'l \<Rightarrow> 'l option" where
  "add_all add [] l = Some l"
| "add_all add (v # vs) l = do { l \<leftarrow> add l v; add_all add vs l }"

locale value_list =
  fixes add :: "'l \<Rightarrow> 'v \<Rightarrow> 'l option" and init :: 'l and holds :: "'l \<Rightarrow> 'v list \<Rightarrow> bool"
  assumes init_law: "holds init []"
    and add_law: "holds l vs \<Longrightarrow> \<exists>l'. add l v = Some l' \<and> holds l' (vs @ [v])"
begin

lemma add_all_holds: "holds l vs \<Longrightarrow> \<exists>l'. add_all add ws l = Some l' \<and> holds l' (vs @ ws)"
proof (induction ws arbitrary: l vs)
  case (Cons w ws)
  from add_law [OF Cons.prems, of w] obtain l1 where l1: "add l w = Some l1" "holds l1 (vs @ [w])" by blast
  from Cons.IH [OF l1(2)] l1(1) show ?case by auto
qed simp

lemma filled: "\<exists>l. add_all add vs init = Some l \<and> holds l vs"
  using add_all_holds [OF init_law] by simp

end

definition uint64_holds :: "pwr_list_uint64_t \<Rightarrow> 64 word list \<Rightarrow> bool" where
  "uint64_holds l vs \<longleftrightarrow>
     cells_hold (lu_alloc l) (lu_num l) (lu_list l) (lu_value_len l) (\<lambda>v. show_nat (unat v)) vs \<and>
     (vs \<noteq> [] \<longrightarrow> lu_min l = Min (set vs) \<and> lu_max l = Max (set vs))"

definition double_holds :: "(64 word \<Rightarrow> string) \<Rightarrow> pwr_list_double_t \<Rightarrow> 64 word list \<Rightarrow> bool" where
  "double_holds print_lf l vs \<longleftrightarrow> cells_hold (ld_alloc l) (ld_num l) (ld_list l) (ld_value_len l) print_lf vs"

definition string_holds :: "pwr_list_string_t \<Rightarrow> string list \<Rightarrow> bool" where
  "string_holds l vs \<longleftrightarrow> cells_hold (ls_alloc l) (ls_num l) (ls_list l) (ls_value_len l) (\<lambda>v. v) vs"

interpretation string_list: value_list pwr_list_add_string pwr_list_init_string string_holds
proof
  show "string_holds pwr_list_init_string []" by (simp add: string_holds_def cells_hold_def pwr_list_init_string_def)
  fix l vs v assume "string_holds l vs"
  from grow_put [OF this [unfolded string_holds_def], of v] show "\<exists>l'. pwr_list_add_string l v = Some l' \<and> string_holds l' (vs @ [v])"
    by (auto simp: pwr_list_add_string_def string_holds_def Let_def)
qed

interpretation double_list: value_list "pwr_list_add_double print_lf" pwr_list_init_double "double_holds print_lf" for print_lf
proof
  show "double_holds print_lf pwr_list_init_double []" by (simp add: double_holds_def cells_hold_def pwr_list_init_double_def)
  fix l vs v assume "double_holds print_lf l vs"
  from grow_put [OF this [unfolded double_holds_def], of v]
  show "\<exists>l'. pwr_list_add_double print_lf l v = Some l' \<and> double_holds print_lf l' (vs @ [v])"
    by (auto simp: pwr_list_add_double_def double_holds_def Let_def)
qed

lemma min_max_snoc:
  fixes v :: "'a :: linorder"
  assumes "vs \<noteq> []"
  shows "Min (set (vs @ [v])) = (if v < Min (set vs) then v else Min (set vs))" "Max (set (vs @ [v])) = (if v > Max (set vs) then v else Max (set vs))"
proof -
  have "Min (set (vs @ [v])) = min v (Min (set vs))" "Max (set (vs @ [v])) = max v (Max (set vs))"
    using Min_insert [of "set vs" v] Max_insert [of "set vs" v] assms by simp_all
  then show "Min (set (vs @ [v])) = (if v < Min (set vs) then v else Min (set vs))"
    "Max (set (vs @ [v])) = (if v > Max (set vs) then v else Max (set vs))"
    unfolding min_def max_def by (metis order.strict_iff_order linorder_not_less)+
qed

lemma min_max_add:
  fixes v :: "'a :: linorder"
  assumes "vs \<noteq> [] \<Longrightarrow> mn = Min (set vs) \<and> mx = Max (set vs)"
  shows "(if vs = [] then v else if v < mn then v else mn) = Min (set (vs @ [v]))"
    "(if vs = [] then v else if v < mn then mx else if v > mx then v else mx) = Max (set (vs @ [v]))"
proof -
  have "\<not> mx < v" if "vs \<noteq> []" "v < mn"
  proof -
    have "Min (set vs) \<le> Max (set vs)" using that(1) by simp
    with assms [OF that(1)] have "mn \<le> mx" by simp
    with that(2) show ?thesis by (simp only: not_less less_imp_le order.strict_trans2)
  qed
  then show "(if vs = [] then v else if v < mn then mx else if v > mx then v else mx) = Max (set (vs @ [v]))"
    using min_max_snoc(2) [of vs v] assms by (cases "vs = []"; cases "v < mn"; simp only: if_True if_False not_False_eq_True; simp)
  show "(if vs = [] then v else if v < mn then v else mn) = Min (set (vs @ [v]))"
    using min_max_snoc(1) [of vs v] assms by (cases "vs = []"; simp only: if_True if_False not_False_eq_True; simp)
qed

interpretation uint64_list: value_list pwr_list_add_uint64 pwr_list_init_uint64 uint64_holds
proof
  show "uint64_holds pwr_list_init_uint64 []" by (simp add: uint64_holds_def cells_hold_def pwr_list_init_uint64_def)
  fix l vs v assume h: "uint64_holds l vs"
  then have c: "cells_hold (lu_alloc l) (lu_num l) (lu_list l) (lu_value_len l) (\<lambda>v. show_nat (unat v)) vs"
    and m: "vs \<noteq> [] \<Longrightarrow> lu_min l = Min (set vs) \<and> lu_max l = Max (set vs)" by (simp_all add: uint64_holds_def)
  have n: "lu_num l = 0 \<longleftrightarrow> vs = []" using c by (auto simp: cells_hold_def)
  have mm: "(if vs = [] then v else if v < lu_min l then v else lu_min l) = Min (set (vs @ [v]))"
    "(if vs = [] then v else if v < lu_min l then lu_max l else if v > lu_max l then v else lu_max l) = Max (set (vs @ [v]))"
    using min_max_add [of vs "lu_min l" "lu_max l" v] m by blast+
  from grow_put [OF c, of v] obtain cells where cells:
    "put_cell (if lu_num l \<ge> lu_alloc l then g_realloc_n (lu_list l) (lu_alloc l + 20) else lu_list l) (lu_num l) v = Some cells"
    "cells_hold (if lu_num l \<ge> lu_alloc l then lu_alloc l + 20 else lu_alloc l) (lu_num l + 1) cells
       (if length (show_nat (unat v)) \<ge> lu_value_len l then length (show_nat (unat v)) + 1 else lu_value_len l)
       (\<lambda>v. show_nat (unat v)) (vs @ [v])" by blast
  define l' where "l' = l\<lparr>lu_alloc := if lu_num l \<ge> lu_alloc l then lu_alloc l + 20 else lu_alloc l, lu_list := cells,
    lu_min := Min (set (vs @ [v])), lu_max := Max (set (vs @ [v])), lu_num := lu_num l + 1,
    lu_value_len := if length (show_nat (unat v)) \<ge> lu_value_len l then length (show_nat (unat v)) + 1 else lu_value_len l\<rparr>"
  have "pwr_list_add_uint64 l v = Some l'"
    using cells(1) unfolding pwr_list_add_uint64_def Let_def l'_def mm [symmetric, folded n]
    by (cases l) (simp split del: if_split cong: if_cong, auto split: if_splits)
  moreover have "uint64_holds l' (vs @ [v])" using cells(2) by (simp add: uint64_holds_def l'_def)
  ultimately show "\<exists>l'. pwr_list_add_uint64 l v = Some l' \<and> uint64_holds l' (vs @ [v])" by blast
qed

subsection \<open>Sorted integer lists\<close>

lemma qsort_insert_insort: "qsort_insert pwr_compare_uint64 x xs = insort x xs"
  by (induction xs) (auto simp: pwr_compare_uint64_def)

lemma qsort_uint64: "qsort pwr_compare_uint64 xs = sort xs"
  unfolding qsort_def sort_key_def by (simp add: qsort_insert_insort [abs_def])

lemma sort_eq_Nil: "sort vs = [] \<longleftrightarrow> vs = []"
  by (metis length_0_conv length_sort)

lemma sort_cells_hold:
  assumes "cells_hold alloc num cells value_len show_value vs" and "length (qsort cmp vs) = length vs" "set (qsort cmp vs) = set vs"
  shows "\<exists>c. sort_cells cmp num cells = Some c \<and> cells_hold alloc num c value_len show_value (qsort cmp vs)"
proof -
  note h = cells_holdD [OF assms(1)]
  have "those (take num cells) = Some vs" unfolding h(2) by (induction vs) simp_all
  then show ?thesis using h(1,3,4,5) assms(2,3) by (simp add: sort_cells_def cells_hold_def)
qed

lemma sort_uint64_holds:
  assumes "uint64_holds l vs"
  shows "\<exists>l'. pwr_list_sort_uint64 l = Some l' \<and> uint64_holds l' (sort vs)"
proof -
  from assms have c: "cells_hold (lu_alloc l) (lu_num l) (lu_list l) (lu_value_len l) (\<lambda>v. show_nat (unat v)) vs"
    and m: "vs \<noteq> [] \<longrightarrow> lu_min l = Min (set vs) \<and> lu_max l = Max (set vs)" unfolding uint64_holds_def by blast+
  from sort_cells_hold [OF c, where cmp = pwr_compare_uint64] obtain cells
    where "sort_cells pwr_compare_uint64 (lu_num l) (lu_list l) = Some cells"
      "cells_hold (lu_alloc l) (lu_num l) cells (lu_value_len l) (\<lambda>v. show_nat (unat v)) (sort vs)"
    unfolding qsort_uint64 by auto
  then show ?thesis using m unfolding pwr_list_sort_uint64_def uint64_holds_def by (cases "vs = []") simp_all
qed

lemma value_at_uint64:
  assumes "uint64_holds l vs"
  shows "pwr_list_value_at_index_uint64 l i True True =
    Some (if i < length vs then (PWR_RET_SUCCESS, Some (vs ! i), Some (show_nat (unat (vs ! i))))
          else (PWR_RET_BAD_INDEX, None, None))"
proof -
  from assms have c: "cells_hold (lu_alloc l) (lu_num l) (lu_list l) (lu_value_len l) (\<lambda>v. show_nat (unat v)) vs"
    unfolding uint64_holds_def by blast
  show ?thesis
    using get_cell_hold [OF c, of i] cells_holdD(1) [OF c] by (auto simp: pwr_list_value_at_index_uint64_def)
qed

text \<open>
  A list of integers filled value by value and then sorted holds exactly these values in
  ascending order: the number of values, the smallest and the largest are recorded, index \<open>i\<close>
  yields the value at this position of the sorted list with its decimal text, an index past
  the end is rejected, and \<^verbatim>\<open>value_len\<close> leaves room for each text with its final NUL.
\<close>

theorem list_of_values:
  "\<exists>l l'. add_all pwr_list_add_uint64 vs pwr_list_init_uint64 = Some l \<and> pwr_list_sort_uint64 l = Some l' \<and>
     lu_num l' = length vs \<and> (vs \<noteq> [] \<longrightarrow> lu_min l' = Min (set vs) \<and> lu_max l' = Max (set vs)) \<and>
     (\<forall>i. pwr_list_value_at_index_uint64 l' i True True =
        Some (if i < length vs then (PWR_RET_SUCCESS, Some (sort vs ! i), Some (show_nat (unat (sort vs ! i))))
              else (PWR_RET_BAD_INDEX, None, None))) \<and>
     (\<forall>v \<in> set vs. length (show_nat (unat v)) + 1 \<le> lu_value_len l')"
proof -
  from uint64_list.filled [of vs] obtain l
    where l: "add_all pwr_list_add_uint64 vs pwr_list_init_uint64 = Some l" "uint64_holds l vs" by blast
  from sort_uint64_holds [OF l(2)] obtain l' where l': "pwr_list_sort_uint64 l = Some l'" "uint64_holds l' (sort vs)" by blast
  from l'(2) have c: "cells_hold (lu_alloc l') (lu_num l') (lu_list l') (lu_value_len l') (\<lambda>v. show_nat (unat v)) (sort vs)"
    and m: "vs \<noteq> [] \<longrightarrow> lu_min l' = Min (set vs) \<and> lu_max l' = Max (set vs)" by (auto simp: uint64_holds_def sort_eq_Nil)
  have "lu_num l' = length vs" "\<forall>v \<in> set vs. length (show_nat (unat v)) + 1 \<le> lu_value_len l'"
    "\<forall>i. pwr_list_value_at_index_uint64 l' i True True =
        Some (if i < length vs then (PWR_RET_SUCCESS, Some (sort vs ! i), Some (show_nat (unat (sort vs ! i))))
              else (PWR_RET_BAD_INDEX, None, None))"
    using value_at_uint64 [OF l'(2)] cells_holdD(1,5) [OF c] by (simp_all add: Suc_le_eq)
  with l(1) l'(1) m show ?thesis by blast
qed

theorem list_of_values_witness:
  "\<exists>l l'. add_all pwr_list_add_uint64 [30, 7, 12] pwr_list_init_uint64 = Some l \<and> pwr_list_sort_uint64 l = Some l' \<and>
     lu_min l' = 7 \<and> lu_max l' = 30 \<and>
     pwr_list_value_at_index_uint64 l' 1 True True = Some (PWR_RET_SUCCESS, Some 12, Some ''12'') \<and>
     pwr_list_value_at_index_uint64 l' 3 True True = Some (PWR_RET_BAD_INDEX, None, None)"
proof -
  have "sort [30, 7, 12 :: 64 word] = [7, 12, 30]" "Min (set [30, 7, 12 :: 64 word]) = 7" "Max (set [30, 7, 12 :: 64 word]) = 30"
    by (simp_all add: min_def max_def)
  moreover have "show_nat (unat (12 :: 64 word)) = ''12''" by code_simp
  moreover from list_of_values [of "[30, 7, 12]"] obtain l l' where
    "add_all pwr_list_add_uint64 [30, 7, 12] pwr_list_init_uint64 = Some l" "pwr_list_sort_uint64 l = Some l'"
    "[30, 7, 12 :: 64 word] \<noteq> [] \<longrightarrow> lu_min l' = Min (set [30, 7, 12]) \<and> lu_max l' = Max (set [30, 7, 12])"
    "\<forall>i. pwr_list_value_at_index_uint64 l' i True True =
        Some (if i < length [30, 7, 12 :: 64 word] then (PWR_RET_SUCCESS, Some (sort [30, 7, 12] ! i), Some (show_nat (unat (sort [30, 7, 12 :: 64 word] ! i))))
              else (PWR_RET_BAD_INDEX, None, None))" by (elim exE conjE) (rule that; assumption)
  ultimately have "add_all pwr_list_add_uint64 [30, 7, 12] pwr_list_init_uint64 = Some l \<and> pwr_list_sort_uint64 l = Some l' \<and>
    lu_min l' = 7 \<and> lu_max l' = 30 \<and>
    pwr_list_value_at_index_uint64 l' 1 True True = Some (PWR_RET_SUCCESS, Some 12, Some ''12'') \<and>
    pwr_list_value_at_index_uint64 l' 3 True True = Some (PWR_RET_BAD_INDEX, None, None)" by simp
  then show ?thesis by blast
qed

end
