(* ===== verification/Ieee.thy ===== *)
theory Ieee
  imports Pwr_Double "HOL-Library.Log_Nat"
begin

text \<open>
  Arithmetic of C doubles on their 64-bit representation: IEEE 754 binary64, rounding to
  nearest with ties to even, as the x86-64 compilers use it. Every operation computes the exact
  result as a fraction of natural numbers and rounds it once. The payload of a NaN is not
  modelled, every NaN result is the same quiet one. Converting a double that does not fit into
  an unsigned 64-bit integer is undefined in C; the value that results is the parameter
  \<open>oor\<close> of the conversion.
\<close>

subsection \<open>Fields\<close>

type_synonym double = "64 word"

definition dbl_neg :: "double \<Rightarrow> bool" where
  "dbl_neg b \<longleftrightarrow> bit b 63"

definition dbl_exp :: "double \<Rightarrow> nat" where
  "dbl_exp b = unat b div 2 ^ 52 mod 2 ^ 11"

definition dbl_frac :: "double \<Rightarrow> nat" where
  "dbl_frac b = unat b mod 2 ^ 52"

definition dbl_is_nan :: "double \<Rightarrow> bool" where
  "dbl_is_nan b \<longleftrightarrow> dbl_exp b = 2047 \<and> dbl_frac b \<noteq> 0"

definition dbl_is_inf :: "double \<Rightarrow> bool" where
  "dbl_is_inf b \<longleftrightarrow> dbl_exp b = 2047 \<and> dbl_frac b = 0"

text \<open>The magnitude of a finite double in units of \<open>2 ^ (- 1074)\<close>.\<close>

definition dbl_units :: "double \<Rightarrow> nat" where
  "dbl_units b = (if dbl_exp b = 0 then dbl_frac b else (2 ^ 52 + dbl_frac b) * 2 ^ (dbl_exp b - 1))"

abbreviation unit_den :: nat where "unit_den \<equiv> 2 ^ 1074"

definition sign_bit :: "bool \<Rightarrow> double" where
  "sign_bit neg = (if neg then 2 ^ 63 else 0)"

definition dbl_nan :: double where "dbl_nan = of_nat (2047 * 2 ^ 52 + 2 ^ 51)"

definition dbl_inf :: "bool \<Rightarrow> double" where "dbl_inf neg = sign_bit neg + of_nat (2047 * 2 ^ 52)"

abbreviation HUGE_VAL :: double where "HUGE_VAL \<equiv> dbl_inf False"

subsection \<open>Rounding\<close>

definition half_even :: "nat \<Rightarrow> nat \<Rightarrow> nat" where
  "half_even n d =
     (let q = n div d; r = n mod d in
      if 2 * r > d \<or> (2 * r = d \<and> odd q) then q + 1 else q)"

text \<open>
  \<open>n / d\<close> for positive \<open>n\<close> and \<open>d\<close>. \<open>ulp\<close> is the exponent of the last place plus 1074, so
  that it is not negative; the representation is \<open>ulp * 2 ^ 52\<close> plus the rounded mantissa, and a
  carry out of the mantissa increases the exponent as it should.
\<close>

definition round_ulp :: "nat \<Rightarrow> nat \<Rightarrow> nat" where
  "round_ulp n d =
     (let g = int (floorlog 2 n) - int (floorlog 2 d);
          e = (if n * 2 ^ nat (- g) \<ge> d * 2 ^ nat g then g else g - 1) in
      nat (e - 52 + 1074))"

definition round_pos :: "nat \<Rightarrow> nat \<Rightarrow> nat" where
  "round_pos n d =
     (let u = round_ulp n d;
          mant = (if u \<ge> 1074 then half_even n (d * 2 ^ (u - 1074)) else half_even (n * 2 ^ (1074 - u)) d) in
      min (u * 2 ^ 52 + mant) (2047 * 2 ^ 52))"

definition round_to_double :: "bool \<Rightarrow> nat \<Rightarrow> nat \<Rightarrow> double" where
  "round_to_double neg n d = sign_bit neg + of_nat (if n = 0 then 0 else round_pos n d)"

subsection \<open>Operations\<close>

definition dbl_of_uint64 :: "64 word \<Rightarrow> double" where
  "dbl_of_uint64 v = round_to_double False (unat v) 1"

definition dbl_of_int :: "int \<Rightarrow> double" where
  "dbl_of_int i = round_to_double (i < 0) (nat \<bar>i\<bar>) 1"

text \<open>Truncation. A value strictly between -1 and 0 becomes 0.\<close>

definition uint64_of_dbl :: "(double \<Rightarrow> 64 word) \<Rightarrow> double \<Rightarrow> 64 word" where
  "uint64_of_dbl oor b =
     (let n = dbl_units b div unit_den in
      if dbl_exp b = 2047 \<or> n \<ge> 2 ^ 64 \<or> (dbl_neg b \<and> n > 0) then oor b else of_nat n)"

definition dbl_eq :: "double \<Rightarrow> double \<Rightarrow> bool" where
  "dbl_eq a b \<longleftrightarrow>
     \<not> dbl_is_nan a \<and> \<not> dbl_is_nan b \<and>
     (a = b \<or> (dbl_exp a \<noteq> 2047 \<and> dbl_exp b \<noteq> 2047 \<and> dbl_units a = 0 \<and> dbl_units b = 0))"

definition dbl_mul :: "double \<Rightarrow> double \<Rightarrow> double" where
  "dbl_mul a b =
     (let neg = (dbl_neg a \<noteq> dbl_neg b) in
      if dbl_is_nan a \<or> dbl_is_nan b then dbl_nan
      else if dbl_is_inf a \<or> dbl_is_inf b then
        if (dbl_exp a \<noteq> 2047 \<and> dbl_units a = 0) \<or> (dbl_exp b \<noteq> 2047 \<and> dbl_units b = 0) then dbl_nan else dbl_inf neg
      else round_to_double neg (dbl_units a * dbl_units b) (unit_den * unit_den))"

definition dbl_div :: "double \<Rightarrow> double \<Rightarrow> double" where
  "dbl_div a b =
     (let neg = (dbl_neg a \<noteq> dbl_neg b) in
      if dbl_is_nan a \<or> dbl_is_nan b \<or> (dbl_is_inf a \<and> dbl_is_inf b) then dbl_nan
      else if dbl_is_inf a then dbl_inf neg
      else if dbl_is_inf b then sign_bit neg
      else if dbl_units b = 0 then if dbl_units a = 0 then dbl_nan else dbl_inf neg
      else round_to_double neg (dbl_units a) (dbl_units b))"

definition dbl_signed_units :: "double \<Rightarrow> int" where
  "dbl_signed_units b = (if dbl_neg b then - int (dbl_units b) else int (dbl_units b))"

text \<open>A sum that is zero is positive, unless both operands are negative zeros.\<close>

definition dbl_add :: "double \<Rightarrow> double \<Rightarrow> double" where
  "dbl_add a b =
     (if dbl_is_nan a \<or> dbl_is_nan b \<or> (dbl_is_inf a \<and> dbl_is_inf b \<and> dbl_neg a \<noteq> dbl_neg b) then dbl_nan
      else if dbl_is_inf a then a
      else if dbl_is_inf b then b
      else
        let s = dbl_signed_units a + dbl_signed_units b in
        round_to_double (if s = 0 then dbl_neg a \<and> dbl_neg b else s < 0) (nat \<bar>s\<bar>) unit_den)"

text \<open>A constant of the source, \<open>n / d\<close>.\<close>

definition dbl_const :: "nat \<Rightarrow> nat \<Rightarrow> double" where
  "dbl_const n d = round_to_double False n d"

subsection \<open>Integers of at most 53 bits are represented exactly\<close>

lemma half_even_1: "half_even n 1 = n"
  by (simp add: half_even_def)

text \<open>The fields of a representation with mantissa \<open>m\<close> and last place \<open>u\<close>.\<close>

lemma fields_of_mantissa:
  assumes "2 ^ 52 \<le> m" "m < 2 ^ 53" "u < 2000"
  shows "dbl_units (of_nat (u * 2 ^ 52 + m)) = m * 2 ^ u" "dbl_exp (of_nat (u * 2 ^ 52 + m)) = u + 1"
    "\<not> dbl_neg (of_nat (u * 2 ^ 52 + m))"
proof -
  define b :: nat where "b = u * 2 ^ 52 + m"
  have b: "b div 2 ^ 52 = u + 1" "b mod 2 ^ 52 = m - 2 ^ 52"
  proof -
    have "b = (m - 2 ^ 52) + (u + 1) * 2 ^ 52" using assms(1) by (simp add: b_def)
    moreover have "m - 2 ^ 52 < 2 ^ 52" using assms(2) by simp
    ultimately show "b mod 2 ^ 52 = m - 2 ^ 52" by (metis mod_less mod_mult_self1)
    show "b div 2 ^ 52 = u + 1" using assms(1,2) by (simp add: b_def div_nat_eqI)
  qed
  have small: "b < 2 ^ 63" using assms(2,3) by (simp add: b_def)
  then have u: "unat (of_nat b :: double) = b" by (simp add: unsigned_of_nat take_bit_nat_eq_self)
  show e: "dbl_exp (of_nat (u * 2 ^ 52 + m)) = u + 1"
    unfolding dbl_exp_def b_def [symmetric] u b(1) using assms(3) by simp
  show "dbl_units (of_nat (u * 2 ^ 52 + m)) = m * 2 ^ u"
    unfolding dbl_units_def e unfolding dbl_frac_def b_def [symmetric] u b(2) using assms(1) by simp
  have "\<not> bit b 63" using small by (metis bit_nat_iff take_bit_nat_eq_self_iff bit_take_bit_iff less_irrefl)
  then show "\<not> dbl_neg (of_nat (u * 2 ^ 52 + m))"
    unfolding dbl_neg_def b_def [symmetric] by (simp add: bit_of_nat_iff)
qed

lemma dbl_of_nat_units:
  assumes "n < 2 ^ 53"
  shows "dbl_units (round_to_double False n 1) = n * unit_den" "dbl_exp (round_to_double False n 1) < 2047"
    "\<not> dbl_neg (round_to_double False n 1)"
proof -
  show "dbl_units (round_to_double False n 1) = n * unit_den" "dbl_exp (round_to_double False n 1) < 2047"
    "\<not> dbl_neg (round_to_double False n 1)"
  proof (atomize (full), cases "n = 0")
    case True
    then show "dbl_units (round_to_double False n 1) = n * unit_den \<and> dbl_exp (round_to_double False n 1) < 2047 \<and>
      \<not> dbl_neg (round_to_double False n 1)"
      by (simp add: round_to_double_def sign_bit_def dbl_units_def dbl_exp_def dbl_frac_def dbl_neg_def)
  next
    case False
    define L where "L = floorlog 2 n"
    from False have L: "2 ^ (L - 1) \<le> n" "n < 2 ^ L" "0 < L"
      using floorlog_bounds [of n 2] by (auto simp: L_def intro!: gr0I)
    have L53: "L \<le> 53"
    proof (rule ccontr)
      assume "\<not> L \<le> 53"
      then have "(2 :: nat) ^ 53 \<le> 2 ^ (L - 1)" by (intro power_increasing) simp_all
      with L(1) assms show False by simp
    qed
    have one: "floorlog 2 (1 :: nat) = 1" by (simp add: floorlog_def)
    have u: "round_ulp n 1 = L + 1021"
      unfolding round_ulp_def Let_def one L_def [symmetric] using L(1,3) by (simp add: nat_diff_distrib)
    define m where "m = n * 2 ^ (53 - L)"
    have m: "2 ^ 52 \<le> m" "m < 2 ^ 53"
    proof -
      have "(2 :: nat) ^ (L - 1) * 2 ^ (53 - L) \<le> m" using L(1) by (simp add: m_def)
      moreover have "(2 :: nat) ^ (L - 1) * 2 ^ (53 - L) = 2 ^ 52" using L(3) L53 by (simp flip: power_add)
      ultimately show "2 ^ 52 \<le> m" by simp
      have "m < 2 ^ L * 2 ^ (53 - L)" using L(2) by (simp add: m_def)
      also have "(2 :: nat) ^ L * 2 ^ (53 - L) = 2 ^ 53" using L53 by (simp flip: power_add)
      finally show "m < 2 ^ 53" .
    qed
    have "round_pos n 1 = (L + 1021) * 2 ^ 52 + m"
    proof -
      have "(if L + 1021 \<ge> 1074 then half_even n (1 * 2 ^ (L + 1021 - 1074)) else half_even (n * 2 ^ (1074 - (L + 1021))) 1) = m"
      proof (cases "L = 53")
        case True
        then show ?thesis using half_even_1 [of n] by (simp add: m_def)
      next
        case False
        then show ?thesis using L53 by (simp add: half_even_1 [unfolded One_nat_def] m_def)
      qed
      moreover have "(L + 1021) * 2 ^ 52 + m \<le> 2047 * 2 ^ 52" using m(2) L53 by simp
      ultimately show ?thesis unfolding round_pos_def Let_def u by (simp only: min_def if_True)
    qed
    then have r: "round_to_double False n 1 = of_nat ((L + 1021) * 2 ^ 52 + m)"
      using False by (simp add: round_to_double_def sign_bit_def)
    have "m * 2 ^ (L + 1021) = n * unit_den" using L53 by (simp add: m_def flip: power_add)
    with fields_of_mantissa [OF m, of "L + 1021"] L53
    show "dbl_units (round_to_double False n 1) = n * unit_den \<and> dbl_exp (round_to_double False n 1) < 2047 \<and>
      \<not> dbl_neg (round_to_double False n 1)" unfolding r by simp
  qed
qed

lemma uint64_of_dbl_of_uint64:
  assumes "unat v < 2 ^ 53"
  shows "uint64_of_dbl oor (dbl_of_uint64 v) = v"
proof -
  note u = dbl_of_nat_units [OF assms]
  have "dbl_units (dbl_of_uint64 v) div unit_den = unat v" unfolding dbl_of_uint64_def u(1) by simp
  then show ?thesis using u(2,3) assms unfolding uint64_of_dbl_def dbl_of_uint64_def Let_def by simp
qed

end
