(* ===== verification/Plugin_Common.thy ===== *)
theory Plugin_Common
  imports Files Timer Ieee
begin

text \<open>
  \<^verbatim>\<open>lib/plugins/common\<close>, \<^verbatim>\<open>lib/timer.c\<close> and the floating-point part of
  \<^verbatim>\<open>lib/timer.h\<close>: reading values from files and commands.

  The kernel changes the files of \<^verbatim>\<open>/sys\<close> on its own. The world outside of the process is
  therefore a sequence of file systems and clock readings, one for each system call: a call
  sees the entry at the current position and advances it. The text conversions of doubles
  are those of the C library, as in the other theories: \<open>strtod\<close> gives the value, the rest of the
  text and whether \<^verbatim>\<open>errno\<close> is set.
\<close>

record clib =
  c_strtod :: "string \<Rightarrow> double \<times> string \<times> bool"
  c_print_lf :: "double \<Rightarrow> string"
  c_oor :: "double \<Rightarrow> 64 word"

record sysworld =
  sw_tick :: nat
  sw_fs :: "nat \<Rightarrow> filesystem"
  sw_clock :: "nat \<Rightarrow> timespec option"
  sw_sleep :: "nat \<Rightarrow> timespec \<Rightarrow> bool list"
  sw_spawn :: "nat \<Rightarrow> string \<Rightarrow> (string \<times> int) option"

definition tick :: "'a sysworld_scheme \<Rightarrow> 'a sysworld_scheme" where
  "tick w = w\<lparr>sw_tick := Suc (sw_tick w)\<rparr>"

abbreviation now_fs :: "'a sysworld_scheme \<Rightarrow> filesystem" where
  "now_fs w \<equiv> sw_fs w (sw_tick w)"

definition clock_gettime :: "'a sysworld_scheme \<Rightarrow> timespec option \<times> 'a sysworld_scheme" where
  "clock_gettime w = (sw_clock w (sw_tick w), tick w)"

text \<open>A C string ends at its first NUL.\<close>

definition c_string :: "string \<Rightarrow> string" where
  "c_string = takeWhile (\<lambda>c. c \<noteq> char_of (0 :: nat))"

text \<open>\<^verbatim>\<open>g_file_get_contents\<close>; a NULL path is an error.\<close>

definition g_file_get_contents :: "string option \<Rightarrow> 'a sysworld_scheme \<Rightarrow> string option \<times> 'a sysworld_scheme" where
  "g_file_get_contents path w =
     (case path of None \<Rightarrow> (None, w) | Some p \<Rightarrow> (fopen_r p (now_fs w), tick w))"

definition g_file_test :: "string \<Rightarrow> 'a sysworld_scheme \<Rightarrow> bool \<times> 'a sysworld_scheme" where
  "g_file_test p w = (files (now_fs w) p \<noteq> None, tick w)"

definition opendir :: "string \<Rightarrow> 'a sysworld_scheme \<Rightarrow> (string \<times> bool) list option \<times> 'a sysworld_scheme" where
  "opendir p w = (dirents (now_fs w) p, tick w)"

subsection \<open>Time (timer.h, timer.c)\<close>

definition pwr_tspec_to_sec :: "timespec \<Rightarrow> double" where
  "pwr_tspec_to_sec ts = dbl_add (dbl_of_int (tv_sec ts)) (dbl_div (dbl_of_int (tv_nsec ts)) (dbl_of_int NSEC_PER_SEC))"

definition pwr_tspec_diff :: "timespec \<Rightarrow> timespec \<Rightarrow> double" where
  "pwr_tspec_diff a b = pwr_tspec_to_sec (pwr_tspec_sub a b)"

text \<open>
  \<open>sw_sleep\<close> lists the failing returns of \<^verbatim>\<open>clock_nanosleep\<close> before it completes: whether
  \<^verbatim>\<open>errno\<close> reads \<^verbatim>\<open>EINTR\<close> after each of them.
\<close>

fun nanosleep_loop :: "bool list \<Rightarrow> int" where
  "nanosleep_loop [] = PWR_RET_SUCCESS"
| "nanosleep_loop (eintr # rest) = (if eintr then nanosleep_loop rest else PWR_RET_FAILURE)"

definition sleep_deadline :: "timespec \<Rightarrow> PWR_Time \<Rightarrow> timespec" where
  "sleep_deadline period sleep_time =
     (let nsec = to_signed (to_unsigned (tv_nsec period) + uint sleep_time) in
      \<lparr>tv_sec = to_signed (to_unsigned (tv_sec period) + to_unsigned nsec div NSEC_PER_SEC),
       tv_nsec = to_unsigned nsec mod NSEC_PER_SEC\<rparr>)"

definition pwr_nanosleep :: "PWR_Time \<Rightarrow> 'a sysworld_scheme \<Rightarrow> int \<times> 'a sysworld_scheme" where
  "pwr_nanosleep sleep_time w =
     (case clock_gettime w of
        (None, w) \<Rightarrow> (PWR_RET_FAILURE, w)
      | (Some period, w) \<Rightarrow> (nanosleep_loop (sw_sleep w (sw_tick w) (sleep_deadline period sleep_time)), tick w))"

subsection \<open>Values in texts (common.c)\<close>

datatype val_type_t = TYPE_INVALID | TYPE_UINT64 | TYPE_DOUBLE | TYPE_STRING

datatype val = VUint64 "64 word" | VDouble double | VString string

definition g_ascii_isspace :: "char \<Rightarrow> bool" where
  "g_ascii_isspace c \<longleftrightarrow> of_char c \<in> {32, 9, 10, 12, 13 :: nat}"

definition g_strstrip :: "string \<Rightarrow> string" where
  "g_strstrip s = rev (dropWhile g_ascii_isspace (rev (dropWhile g_ascii_isspace s)))"

text \<open>\<^verbatim>\<open>strtoul\<close> with base 0: hexadecimal after \<^verbatim>\<open>0x\<close>, octal after \<^verbatim>\<open>0\<close>, decimal otherwise.\<close>

definition hex_value :: "char \<Rightarrow> nat option" where
  "hex_value c =
     (let n = of_char c :: nat in
      if 48 \<le> n \<and> n \<le> 57 then Some (n - 48)
      else if 97 \<le> n \<and> n \<le> 102 then Some (n - 87)
      else if 65 \<le> n \<and> n \<le> 70 then Some (n - 55)
      else None)"

definition in_base :: "nat \<Rightarrow> char \<Rightarrow> bool" where
  "in_base b c \<longleftrightarrow> (case hex_value c of None \<Rightarrow> False | Some v \<Rightarrow> v < b)"

definition base_value :: "nat \<Rightarrow> string \<Rightarrow> nat" where
  "base_value b ds = foldl (\<lambda>n c. b * n + the (hex_value c)) 0 (takeWhile (in_base b) ds)"

definition strtoul_0 :: "string \<Rightarrow> 64 word" where
  "strtoul_0 s =
     (let (neg, r) = scan_sign (dropWhile is_space s) in
      to_ulong neg
        (case r of
           c # x # h # _ \<Rightarrow>
             if c = CHR ''0'' then
               if (x = CHR ''x'' \<or> x = CHR ''X'') \<and> in_base 16 h then base_value 16 (drop 2 r) else base_value 8 r
             else base_value 10 r
         | c # _ \<Rightarrow> if c = CHR ''0'' then base_value 8 r else base_value 10 r
         | [] \<Rightarrow> 0))"

abbreviation LLONG_MIN_BITS :: "64 word" where "LLONG_MIN_BITS \<equiv> 2 ^ 63"
abbreviation LLONG_MAX_BITS :: "64 word" where "LLONG_MAX_BITS \<equiv> 2 ^ 63 - 1"

text \<open>
  Status, the value stored (also when it is then reported as out of range), and the time
  stamp if one is wanted.
\<close>

definition convert_buf :: "clib \<Rightarrow> string \<Rightarrow> val_type_t \<Rightarrow> int \<times> val option" where
  "convert_buf L buf type =
     (let tmp_buf = g_strstrip buf in
      case type of
        TYPE_UINT64 \<Rightarrow>
          (let v = strtoul_0 tmp_buf in
           (if v = LLONG_MIN_BITS \<or> v = LLONG_MAX_BITS then PWR_RET_FAILURE else PWR_RET_SUCCESS, Some (VUint64 v)))
      | TYPE_DOUBLE \<Rightarrow>
          (let d = fst (c_strtod L tmp_buf) in
           (if d = dbl_inf False \<or> d = dbl_inf True then PWR_RET_FAILURE else PWR_RET_SUCCESS, Some (VDouble d)))
      | TYPE_STRING \<Rightarrow> (PWR_RET_SUCCESS, Some (VString tmp_buf))
      | TYPE_INVALID \<Rightarrow> (PWR_RET_FAILURE, None))"

definition read_val_from_buf ::
  "clib \<Rightarrow> string \<Rightarrow> val_type_t \<Rightarrow> bool \<Rightarrow> 'a sysworld_scheme \<Rightarrow> int \<times> val option \<times> timespec option \<times> 'a sysworld_scheme" where
  "read_val_from_buf L buf type want_ts w =
     (if want_ts then
        case clock_gettime w of
          (None, w) \<Rightarrow> (PWR_RET_FAILURE, None, None, w)
        | (Some ts, w) \<Rightarrow> (case convert_buf L buf type of (r, v) \<Rightarrow> (r, v, Some ts, w))
      else (case convert_buf L buf type of (r, v) \<Rightarrow> (r, v, None, w)))"

definition convert_double_to_uint64 :: "clib \<Rightarrow> double \<Rightarrow> int \<times> 64 word option" where
  "convert_double_to_uint64 L dval =
     (let ival = uint64_of_dbl (c_oor L) dval in
      if dbl_eq (dbl_of_uint64 ival) dval then (PWR_RET_SUCCESS, Some ival) else (PWR_RET_FAILURE, None))"

subsection \<open>Values in files and from commands (file.c, command.c)\<close>

definition read_val_from_file ::
  "clib \<Rightarrow> string option \<Rightarrow> val_type_t \<Rightarrow> bool \<Rightarrow> 'a sysworld_scheme \<Rightarrow> int \<times> val option \<times> timespec option \<times> 'a sysworld_scheme" where
  "read_val_from_file L path type want_ts w =
     (case g_file_get_contents path w of
        (None, w) \<Rightarrow> (PWR_RET_FAILURE, None, None, w)
      | (Some buf, w) \<Rightarrow> read_val_from_buf L (c_string buf) type want_ts w)"

text \<open>The two wrappers of file.h that the plugin uses; an integer that is not stored keeps its initial value 0.\<close>

definition read_uint64_from_file ::
  "clib \<Rightarrow> string option \<Rightarrow> bool \<Rightarrow> 'a sysworld_scheme \<Rightarrow> int \<times> 64 word \<times> timespec option \<times> 'a sysworld_scheme" where
  "read_uint64_from_file L path want_ts w =
     (case read_val_from_file L path TYPE_UINT64 want_ts w of
        (r, v, ts, w) \<Rightarrow> (r, case v of Some (VUint64 n) \<Rightarrow> n | _ \<Rightarrow> 0, ts, w))"

definition read_string_from_file ::
  "clib \<Rightarrow> string option \<Rightarrow> bool \<Rightarrow> 'a sysworld_scheme \<Rightarrow> int \<times> string option \<times> timespec option \<times> 'a sysworld_scheme" where
  "read_string_from_file L path want_ts w =
     (case read_val_from_file L path TYPE_STRING want_ts w of
        (r, v, ts, w) \<Rightarrow> (r, case v of Some (VString s) \<Rightarrow> Some s | _ \<Rightarrow> None, ts, w))"

text \<open>\<^verbatim>\<open>g_strsplit\<close> at a single character; the empty string has no parts.\<close>

fun split_on :: "char \<Rightarrow> string \<Rightarrow> string list" where
  "split_on c [] = [[]]"
| "split_on c (x # xs) =
     (if x = c then [] # split_on c xs
      else case split_on c xs of [] \<Rightarrow> [[x]] | p # ps \<Rightarrow> (x # p) # ps)"

definition g_strsplit :: "char \<Rightarrow> string \<Rightarrow> string list" where
  "g_strsplit c s = (if s = [] then [] else split_on c s)"

definition read_line_from_file ::
  "string \<Rightarrow> nat \<Rightarrow> bool \<Rightarrow> 'a sysworld_scheme \<Rightarrow> int \<times> string option \<times> timespec option \<times> 'a sysworld_scheme" where
  "read_line_from_file path num want_ts w =
     (case g_file_get_contents (Some path) w of
        (None, w) \<Rightarrow> (PWR_RET_FAILURE, None, None, w)
      | (Some buf, w) \<Rightarrow>
          let (clock_ok, ts, w) =
                (if want_ts then case clock_gettime w of (t, w) \<Rightarrow> (t \<noteq> None, t, w) else (True, None, w)) in
          if \<not> clock_ok then (PWR_RET_FAILURE, None, None, w)
          else
            let lines = g_strsplit (char_of (10 :: nat)) (c_string buf) in
            if num < length lines then (PWR_RET_SUCCESS, Some (lines ! num), ts, w)
            else (PWR_RET_FAILURE, None, ts, w))"

text \<open>The second byte of a wait status.\<close>

definition WEXITSTATUS :: "int \<Rightarrow> int" where
  "WEXITSTATUS status = status div 256 mod 256"

definition read_val_from_command ::
  "clib \<Rightarrow> string option \<Rightarrow> val_type_t \<Rightarrow> bool \<Rightarrow> 'a sysworld_scheme \<Rightarrow> int \<times> val option \<times> timespec option \<times> 'a sysworld_scheme" where
  "read_val_from_command L command type want_ts w =
     (case command of
        None \<Rightarrow> (PWR_RET_FAILURE, None, None, w)
      | Some cmd \<Rightarrow>
          (case sw_spawn w (sw_tick w) cmd of
             None \<Rightarrow> (PWR_RET_FAILURE, None, None, tick w)
           | Some (buf, exit_status) \<Rightarrow>
               if WEXITSTATUS exit_status \<noteq> 0 then (PWR_RET_FAILURE, None, None, tick w)
               else read_val_from_buf L (c_string buf) type want_ts (tick w)))"

end
