(* ===== verification/Sysfiles.thy ===== *)
theory Sysfiles
  imports Plugin_Common
begin

text \<open>
  \<^verbatim>\<open>lib/utility.c\<close>: the catalog of paths of the plugin, and the optional configuration file that
  replaces them. A path may contain conversions of \<^verbatim>\<open>printf\<close> for the number of a processor
  and the like. The catalog is an array of keys with values; the values with which the plugin
  was built are string literals and are kept in a backup by the first call, so they are an
  argument here (\<open>defaults\<close>) and the current values a list beside it, in which \<open>None\<close> is NULL.
\<close>

subsection \<open>Formatted texts\<close>

text \<open>
  The conversions that occur in paths. \<open>None\<close> is a format that does not fit its arguments, for
  which the behaviour of \<^verbatim>\<open>printf\<close> is undefined; arguments that are left over are ignored.
\<close>

datatype fmt_arg = ArgLu "64 word" | ArgD int | ArgX nat | ArgS string

fun show_hex :: "nat \<Rightarrow> string" where
  "show_hex n =
     (let d = n mod 16; c = (if d < 10 then char_of (48 + d) else char_of (87 + d)) in
      if n < 16 then [c] else show_hex (n div 16) @ [c])"

declare show_hex.simps [simp del]

fun printf :: "string \<Rightarrow> fmt_arg list \<Rightarrow> string option" where
  "printf [] args = Some []"
| "printf (c # fmt) args =
     (if c \<noteq> CHR ''%'' then map_option (Cons c) (printf fmt args)
      else case args of
        ArgLu n # args' \<Rightarrow>
          (case fmt of
             d # e # fmt' \<Rightarrow>
               if d = CHR ''l'' \<and> e = CHR ''u'' then map_option (append (show_nat (unat n))) (printf fmt' args') else None
           | _ \<Rightarrow> None)
      | ArgD i # args' \<Rightarrow>
          (case fmt of d # fmt' \<Rightarrow> if d = CHR ''d'' then map_option (append (show_int i)) (printf fmt' args') else None | [] \<Rightarrow> None)
      | ArgX n # args' \<Rightarrow>
          (case fmt of d # fmt' \<Rightarrow> if d = CHR ''x'' then map_option (append (show_hex n)) (printf fmt' args') else None | [] \<Rightarrow> None)
      | ArgS s # args' \<Rightarrow>
          (case fmt of d # fmt' \<Rightarrow> if d = CHR ''s'' then map_option (append s) (printf fmt' args') else None | [] \<Rightarrow> None)
      | [] \<Rightarrow> None)"

text \<open>\<^verbatim>\<open>g_strdup_printf\<close> answers NULL for a NULL format.\<close>

definition g_strdup_printf :: "string option \<Rightarrow> fmt_arg list \<Rightarrow> string option" where
  "g_strdup_printf fmt args = Option.bind fmt (\<lambda>f. printf f args)"

subsection \<open>Comparison of formats\<close>

definition to_percent :: "string \<Rightarrow> string" where
  "to_percent = dropWhile (\<lambda>c. c \<noteq> CHR ''%'')"

text \<open>The inner loop: \<open>None\<close> for a mismatch.\<close>

fun fmt_compare :: "string \<Rightarrow> string \<Rightarrow> (string \<times> string) option" where
  "fmt_compare (r # ref) (s # str) =
     (if r \<noteq> s then None
      else if r \<in> {CHR ''d'', CHR ''u'', CHR ''x'', CHR ''f'', CHR ''s''} then Some (r # ref, s # str)
      else fmt_compare ref str)"
| "fmt_compare ref str = Some (ref, str)"

lemma fmt_compare_length:
  "fmt_compare ref str = Some (r, s) \<Longrightarrow> length r \<le> length ref \<and> length s \<le> length str"
  by (induction ref str rule: fmt_compare.induct) (auto split: if_splits)

lemma to_percent_cases:
  obtains "to_percent s = []" | t where "to_percent s = CHR ''%'' # t"
  by (cases "to_percent s") (auto simp: to_percent_def dropWhile_eq_Cons_conv)

lemma length_to_percent: "length (to_percent s) \<le> length s"
  by (simp add: to_percent_def length_dropWhile_le)

lemma fmt_step_decreases:
  assumes "fmt_compare (to_percent ref) (to_percent str) = Some (r, s)" "ref \<noteq> []" "str \<noteq> []"
  shows "length r + length s < length ref + length str"
proof (cases ref rule: to_percent_cases)
  case 1
  with assms have "r = []" "s = to_percent str" by (cases "to_percent str"; simp)+
  with assms(2) length_to_percent [of str] show ?thesis by (cases ref) auto
next
  case r: (2 t)
  show ?thesis
  proof (cases str rule: to_percent_cases)
    case 1
    with assms r have "s = []" "r = to_percent ref" by simp_all
    with assms(3) length_to_percent [of ref] show ?thesis by (cases str) auto
  next
    case s: (2 u)
    with assms(1) r have "fmt_compare t u = Some (r, s)" by simp
    then have "length r \<le> length t" "length s \<le> length u" by (auto dest: fmt_compare_length)
    moreover have "Suc (length t) \<le> length ref" "Suc (length u) \<le> length str"
      using length_to_percent [of ref] length_to_percent [of str] r s by simp_all
    ultimately show ?thesis by simp
  qed
qed

function fmtmatch :: "string \<Rightarrow> string \<Rightarrow> bool" where
  "fmtmatch ref str =
     (if ref \<noteq> [] \<and> str \<noteq> [] then
        case fmt_compare (to_percent ref) (to_percent str) of
          None \<Rightarrow> False
        | Some (r, s) \<Rightarrow> fmtmatch r s
      else ref = [] \<and> str = [])"
  by pat_completeness auto
termination
  by (relation "measure (\<lambda>(r, s). length r + length s)") (auto dest: fmt_step_decreases)

declare fmtmatch.simps [simp del]

subsection \<open>The configuration file\<close>

definition POWERAPI_SYSFILE_CFG_PATH :: string where
  "POWERAPI_SYSFILE_CFG_PATH = ''/opt/cray/powerapi/default/bin/test/sysfiles.cfg''"

definition whitespace :: "char \<Rightarrow> bool" where
  "whitespace c \<longleftrightarrow> c = CHR '' '' \<or> c = char_of (9 :: nat) \<or> c = char_of (10 :: nat)"

definition skipspace :: "string \<Rightarrow> string" where
  "skipspace = dropWhile whitespace"

text \<open>The lines that \<^verbatim>\<open>getline\<close> returns, without the newline, which is trimmed anyway.\<close>

definition file_lines :: "string \<Rightarrow> string list" where
  "file_lines txt =
     (let ls = split_on (char_of (10 :: nat)) txt in if last ls = [] then butlast ls else ls)"

datatype config_line = Ignored | Malformed | Entry string string

definition parse_config_line :: "string \<Rightarrow> config_line" where
  "parse_config_line line =
     (let buf = rev (dropWhile whitespace (rev (c_string line)));
          p = skipspace buf in
      if p = [] \<or> hd p = CHR ''#'' then Ignored
      else
        let in_key = (\<lambda>c. c \<noteq> CHR ''='' \<and> \<not> whitespace c);
            key = takeWhile in_key p;
            p = skipspace (dropWhile in_key p) in
        if p = [] \<or> hd p \<noteq> CHR ''='' then Malformed
        else
          let val = skipspace (tl p) in
          if val = [] \<or> hd val \<noteq> CHR ''/'' then Malformed else Entry key val)"

text \<open>
  The search for a key and the assignment of a value. \<open>None\<close> is an error: the key is not in the
  catalog, it has a value already, or the formats are not compatible.
\<close>

fun set_sysfile :: "string \<Rightarrow> string \<Rightarrow> (string \<times> string) list \<Rightarrow> string option list \<Rightarrow> string option list option" where
  "set_sysfile key val ((k, t) # bs) (v # vs) =
     (if k = key then
        if v \<noteq> None then None
        else if \<not> fmtmatch t val then None
        else Some (Some val # vs)
      else map_option (Cons v) (set_sysfile key val bs vs))"
| "set_sysfile key val bs vs = None"

definition trim_slashes :: "string \<Rightarrow> string" where
  "trim_slashes val = rev (dropWhile (\<lambda>c. c = CHR ''/'') (rev val))"

fun config_loop ::
  "(string \<times> string) list \<Rightarrow> string list \<Rightarrow> string option \<Rightarrow> string option list \<Rightarrow> (string option \<times> string option list) option" where
  "config_loop backup [] rt vals = Some (rt, vals)"
| "config_loop backup (line # lines) rt vals =
     (case parse_config_line line of
        Ignored \<Rightarrow> config_loop backup lines rt vals
      | Malformed \<Rightarrow> None
      | Entry key val \<Rightarrow>
          if key = ''chroot'' then config_loop backup lines (Some (trim_slashes val)) vals
          else
            (case set_sysfile key val backup vals of
               None \<Rightarrow> None
             | Some vals \<Rightarrow> config_loop backup lines rt vals))"

text \<open>Filling in the values that are still NULL, from a default \<open>f\<close>.\<close>

definition fill_sysfiles :: "(string \<Rightarrow> string) \<Rightarrow> (string \<times> string) list \<Rightarrow> string option list \<Rightarrow> string option list" where
  "fill_sysfiles f backup vals = map2 (\<lambda>(k, t) v. case v of None \<Rightarrow> Some (f t) | Some x \<Rightarrow> Some x) backup vals"

definition configure_sysfiles :: "(string \<times> string) list \<Rightarrow> filesystem \<Rightarrow> string option list" where
  "configure_sysfiles backup fs =
     (let cleared = map (\<lambda>_. None) backup;
          result =
            (case fopen_r POWERAPI_SYSFILE_CFG_PATH fs of
               None \<Rightarrow> Some cleared
             | Some txt \<Rightarrow>
                 (case config_loop backup (file_lines txt) None cleared of
                    None \<Rightarrow> None
                  | Some (None, vals) \<Rightarrow> Some vals
                  | Some (Some rt, vals) \<Rightarrow> Some (fill_sysfiles (append rt) backup vals)));
          vals = (case result of None \<Rightarrow> cleared | Some vals \<Rightarrow> vals) in
      fill_sysfiles id backup vals)"

text \<open>The value of a field of the catalog.\<close>

definition sysfile :: "(string \<times> string) list \<Rightarrow> string option list \<Rightarrow> string \<Rightarrow> string option" where
  "sysfile backup vals key = Option.bind (map_of (zip (map fst backup) vals) key) id"


subsection \<open>Formats that match take the same arguments\<close>

definition fits :: "string \<Rightarrow> fmt_arg list \<Rightarrow> bool" where
  "fits fmt args \<longleftrightarrow> printf fmt args \<noteq> None"

lemma fits_Nil [simp]: "fits [] args"
  by (simp add: fits_def)

lemma fits_Cons [simp]: "c \<noteq> CHR ''%'' \<Longrightarrow> fits (c # fmt) args = fits fmt args"
  by (simp add: fits_def)

lemma fits_to_percent: "fits (to_percent s) args = fits s args"
  by (induction s) (auto simp: to_percent_def)

lemma fits_append: "CHR ''%'' \<notin> set p \<Longrightarrow> fits (p @ s) args = fits s args"
  by (induction p) auto

text \<open>The conversions of one character, by their argument.\<close>

fun conv_char :: "fmt_arg \<Rightarrow> char option" where
  "conv_char (ArgLu n) = None"
| "conv_char (ArgD i) = Some CHR ''d''"
| "conv_char (ArgX n) = Some CHR ''x''"
| "conv_char (ArgS s) = Some CHR ''s''"

lemma fits_one: "conv_char a = Some c \<Longrightarrow> fits (CHR ''%'' # t) (a # as) \<longleftrightarrow> (\<exists>u. t = c # u \<and> fits u as)"
  by (cases a; cases t) (auto simp: fits_def)

lemma fits_lu: "fits (CHR ''%'' # t) (ArgLu n # as) \<longleftrightarrow> (\<exists>u. t = CHR ''l'' # CHR ''u'' # u \<and> fits u as)"
  by (auto simp: fits_def split: list.splits)

lemma conv_char_cases: "conv_char a = Some c \<Longrightarrow> c = CHR ''d'' \<or> c = CHR ''x'' \<or> c = CHR ''s''"
  by (cases a) auto

lemma fmtmatch_ends: "fmtmatch [] s \<longleftrightarrow> s = []" "fmtmatch r [] \<longleftrightarrow> r = []"
  by (simp_all add: fmtmatch.simps [of "[]"] fmtmatch.simps [of r "[]"])

lemma fmt_compare_lu:
  assumes "fmt_compare (CHR ''l'' # CHR ''u'' # t) u = Some (r, s)" "fmtmatch r s"
  obtains v where "u = CHR ''l'' # CHR ''u'' # v" "r = CHR ''u'' # t" "s = CHR ''u'' # v"
proof (cases u)
  case Nil
  with assms show ?thesis by (auto simp: fmtmatch_ends)
next
  case (Cons c u')
  then show ?thesis using assms that by (cases u') (auto simp: fmtmatch_ends split: if_splits)
qed

lemma fmt_compare_one:
  assumes "fmt_compare (c # t) u = Some (r, s)" "fmtmatch r s" "c = CHR ''d'' \<or> c = CHR ''x'' \<or> c = CHR ''s''"
  obtains v where "u = c # v" "r = c # t" "s = c # v"
  using assms that by (cases u) (auto simp: fmtmatch_ends split: if_splits)

lemma fmtmatch_fits: "fmtmatch ref str \<Longrightarrow> fits ref args \<Longrightarrow> fits str args"
proof (induction ref str arbitrary: args rule: fmtmatch.induct)
  case (1 ref str)
  show ?case
  proof (cases "ref \<noteq> [] \<and> str \<noteq> []")
    case False
    with 1(2) show ?thesis by (simp add: fmtmatch.simps [of ref])
  next
    case True
    with 1(2) obtain r s where rs: "fmt_compare (to_percent ref) (to_percent str) = Some (r, s)" "fmtmatch r s"
      by (auto simp: fmtmatch.simps [of ref] split: option.splits)
    have IH: "fits r as \<Longrightarrow> fits s as" for as using 1(1) [OF True rs(1) refl rs(2)] .
    have ref: "fits (to_percent ref) args" using 1(3) by (simp add: fits_to_percent)
    have "fits (to_percent str) args"
    proof (cases ref rule: to_percent_cases)
      case 1
      with rs have "to_percent str = []" by (cases "to_percent str") (auto simp: fmtmatch_ends)
      then show ?thesis by simp
    next
      case r: (2 t)
      show ?thesis
      proof (cases str rule: to_percent_cases)
        case s: (2 u)
        with rs(1) r have cmp: "fmt_compare t u = Some (r, s)" by simp
        obtain a as where args: "args = a # as" using ref r by (cases args) (auto simp: fits_def)
        show ?thesis
        proof (cases "conv_char a")
          case None
          then obtain n where a: "a = ArgLu n" by (cases a) auto
          then obtain t' where t': "t = CHR ''l'' # CHR ''u'' # t'" "fits t' as" using ref r args by (auto simp: fits_lu)
          then obtain v where "u = CHR ''l'' # CHR ''u'' # v" "r = CHR ''u'' # t'" "s = CHR ''u'' # v"
            using cmp rs(2) by (auto elim: fmt_compare_lu)
          with t' IH [of as] s args a show ?thesis by (simp add: fits_lu)
        next
          case (Some c)
          then obtain t' where t': "t = c # t'" "fits t' as" using ref r args by (auto simp: fits_one)
          then obtain v where v: "u = c # v" "r = c # t'" "s = c # v"
            using cmp rs(2) conv_char_cases [OF Some] by (auto elim: fmt_compare_one)
          moreover have "c \<noteq> CHR ''%''" using conv_char_cases [OF Some] by auto
          ultimately show ?thesis using t' IH [of as] s args Some by (simp add: fits_one)
        qed
      qed simp
    qed
    then show ?thesis by (simp add: fits_to_percent)
  qed
qed

subsection \<open>The configured catalog\<close>

text \<open>A value of the catalog takes every list of arguments that the default takes.\<close>

definition safe_value :: "string \<Rightarrow> string \<Rightarrow> bool" where
  "safe_value t x \<longleftrightarrow> (\<forall>args. fits t args \<longrightarrow> fits x args)"

definition safe_entry :: "string \<times> string \<Rightarrow> string option \<Rightarrow> bool" where
  "safe_entry kt v \<longleftrightarrow> (case v of None \<Rightarrow> True | Some x \<Rightarrow> safe_value (snd kt) x)"

lemma safe_entry_simps [simp]: "safe_entry (k, t) None" "safe_entry (k, t) (Some x) = safe_value t x"
  by (simp_all add: safe_entry_def)

lemma set_sysfile_safe:
  "set_sysfile key val bs vs = Some vs' \<Longrightarrow> list_all2 safe_entry bs vs \<Longrightarrow> list_all2 safe_entry bs vs'"
proof (induction key val bs vs arbitrary: vs' rule: set_sysfile.induct)
  case (1 key val k t bs v vs)
  then show ?case
    by (auto simp: safe_value_def split: if_splits intro: fmtmatch_fits)
qed auto

text \<open>No directive sets a root directory with a percent sign.\<close>

definition plain_roots :: "string list \<Rightarrow> bool" where
  "plain_roots lines \<longleftrightarrow>
     list_all (\<lambda>l. case parse_config_line l of Entry key val \<Rightarrow> key = ''chroot'' \<longrightarrow> CHR ''%'' \<notin> set val | _ \<Rightarrow> True) lines"

lemma set_trim_slashes: "set (trim_slashes val) \<subseteq> set val"
  by (auto simp: trim_slashes_def dest: set_dropWhileD)

lemma config_loop_safe:
  assumes "config_loop bs lines rt vals = Some (rt', vals')" "list_all2 safe_entry bs vals" "plain_roots lines"
    "case rt of None \<Rightarrow> True | Some r \<Rightarrow> CHR ''%'' \<notin> set r"
  shows "list_all2 safe_entry bs vals' \<and> (case rt' of None \<Rightarrow> True | Some r \<Rightarrow> CHR ''%'' \<notin> set r)"
  using assms
proof (induction bs lines rt vals rule: config_loop.induct)
  case (2 bs line lines rt vals)
  show ?case
  proof (cases "parse_config_line line")
    case (Entry key val)
    show ?thesis
    proof (cases "key = ''chroot''")
      case True
      with 2(6) Entry have "CHR ''%'' \<notin> set (trim_slashes val)"
        using set_trim_slashes [of val] by (auto simp: plain_roots_def)
      with 2(2) [OF Entry True] 2(4-7) Entry True show ?thesis by (simp add: plain_roots_def)
    next
      case False
      with 2(4) Entry obtain vs where vs: "set_sysfile key val bs vals = Some vs" by (auto split: option.splits)
      with 2(3) [OF Entry False vs] 2(4-7) Entry False set_sysfile_safe [OF vs]
      show ?thesis by (simp add: plain_roots_def)
    qed
  qed (use 2 in \<open>simp_all add: plain_roots_def\<close>)
qed simp

lemma fill_safe:
  assumes "list_all2 safe_entry bs vals" "\<And>t. safe_value t (f t)"
  shows "list_all2 (\<lambda>kt v. \<exists>x. v = Some x \<and> safe_value (snd kt) x) bs (fill_sysfiles f bs vals)"
  using assms(1)
  by (induction rule: list_all2_induct) (auto simp: fill_sysfiles_def safe_entry_def assms(2) split: option.splits)

lemma filled_safe_entry:
  "list_all2 (\<lambda>kt v. \<exists>x. v = Some x \<and> safe_value (snd kt) x) bs vs \<Longrightarrow> list_all2 safe_entry bs vs"
  by (erule list_all2_mono) (auto simp: safe_entry_def)

lemma configured_safe:
  assumes "\<And>body. fopen_r POWERAPI_SYSFILE_CFG_PATH fs = Some body \<Longrightarrow> plain_roots (file_lines body)"
  shows "list_all2 (\<lambda>kt v. \<exists>x. v = Some x \<and> safe_value (snd kt) x) bs (configure_sysfiles bs fs)"
proof -
  have cleared: "list_all2 safe_entry bs (map (\<lambda>_. None) bs)"
    by (induction bs) (auto simp: safe_entry_def)
  let ?loop = "\<lambda>body. config_loop bs (file_lines body) None (map (\<lambda>_. None) bs)"
  have id: "safe_value t (id t)" for t by (simp add: safe_value_def)
  consider "fopen_r POWERAPI_SYSFILE_CFG_PATH fs = None"
    | body where "fopen_r POWERAPI_SYSFILE_CFG_PATH fs = Some body" "?loop body = None"
    | body rt vs where "fopen_r POWERAPI_SYSFILE_CFG_PATH fs = Some body" "?loop body = Some (rt, vs)"
    by (cases "fopen_r POWERAPI_SYSFILE_CFG_PATH fs"; fastforce)
  then show ?thesis
  proof cases
    case (3 body rt vals)
    from config_loop_safe [OF 3(2) cleared assms [OF 3(1)]]
    have safe: "list_all2 safe_entry bs vals" and rt: "case rt of None \<Rightarrow> True | Some r \<Rightarrow> CHR ''%'' \<notin> set r" by simp_all
    show ?thesis
    proof (cases rt)
      case None
      with 3 fill_safe [OF safe id] show ?thesis by (simp add: configure_sysfiles_def id_def)
    next
      case (Some r)
      with rt have "safe_value t (r @ t)" for t by (simp add: safe_value_def fits_append)
      from fill_safe [OF filled_safe_entry [OF fill_safe [OF safe this]] id] 3 Some
      show ?thesis by (simp add: configure_sysfiles_def id_def)
    qed
  qed (use fill_safe [OF cleared id] in \<open>simp_all add: configure_sysfiles_def id_def\<close>)
qed

lemma map_of_zip_list_all2:
  "list_all2 R bs vs \<Longrightarrow> map_of bs key = Some t \<Longrightarrow> \<exists>v. map_of (zip (map fst bs) vs) key = Some v \<and> R (key, t) v"
  by (induction rule: list_all2_induct) (auto split: if_splits)

text \<open>
  C30. Whatever the configuration file holds, as long as no root directory with a percent sign is
  set, every path of the catalog has a value afterwards, and this value can be formatted with
  every list of arguments that fits the built-in one.
\<close>

theorem configured_paths_fit:
  assumes "\<And>txt. fopen_r POWERAPI_SYSFILE_CFG_PATH fs = Some txt \<Longrightarrow> plain_roots (file_lines txt)"
    and "map_of backup key = Some t" "printf t args \<noteq> None"
  shows "g_strdup_printf (sysfile backup (configure_sysfiles backup fs) key) args \<noteq> None"
proof -
  from map_of_zip_list_all2 [OF configured_safe [OF assms(1)] assms(2)]
  obtain x where "map_of (zip (map fst backup) (configure_sysfiles backup fs)) key = Some (Some x)" "safe_value t x" by auto
  with assms(3) show ?thesis by (auto simp: sysfile_def g_strdup_printf_def safe_value_def fits_def)
qed

definition example_config :: filesystem where
  "example_config =
     \<lparr>files = [POWERAPI_SYSFILE_CFG_PATH \<mapsto> ''path_cpu = /tmp/cpu/%lu/x''], readable = (\<lambda>_. True),
      writable = (\<lambda>_. True), accepts = (\<lambda>_ _. True), dirents = (\<lambda>_. None)\<rparr>"

theorem configured_paths_fit_witness:
  "g_strdup_printf (sysfile [(''path_cpu'', ''/sys/cpu%lu'')]
     (configure_sysfiles [(''path_cpu'', ''/sys/cpu%lu'')] example_config) ''path_cpu'') [ArgLu 3] \<noteq> None"
proof (rule configured_paths_fit)
  show "plain_roots (file_lines body)" if "fopen_r POWERAPI_SYSFILE_CFG_PATH example_config = Some body" for body
  proof -
    have "plain_roots (file_lines ''path_cpu = /tmp/cpu/%lu/x'')" by code_simp
    with that show ?thesis by (auto simp: fopen_r_def example_config_def)
  qed
  show "printf ''/sys/cpu%lu'' [ArgLu 3] \<noteq> None" by (simp add: numeral_eq_Suc)
qed simp

text \<open>A root directory with a conversion is not compared with anything, and breaks every path.\<close>

lemma chroot_with_conversion:
  assumes "fopen_r POWERAPI_SYSFILE_CFG_PATH fs = Some ''chroot=/tmp/%s''" "map_of backup key = Some t"
  shows "g_strdup_printf (sysfile backup (configure_sysfiles backup fs) key) [] = None"
proof -
  have "parse_config_line ''chroot=/tmp/%s'' = Entry ''chroot'' ''/tmp/%s''" by code_simp
  moreover have "file_lines ''chroot=/tmp/%s'' = [''chroot=/tmp/%s'']" by code_simp
  moreover have "trim_slashes ''/tmp/%s'' = ''/tmp/%s''" by code_simp
  ultimately have "configure_sysfiles backup fs = map (\<lambda>(k, t). Some (''/tmp/%s'' @ t)) backup"
    using assms(1) by (induction backup) (auto simp: configure_sysfiles_def fill_sysfiles_def)
  moreover have "map_of (zip (map fst bs) (map (\<lambda>(k, t). Some (''/tmp/%s'' @ t)) bs)) key =
      map_option (\<lambda>t. Some (''/tmp/%s'' @ t)) (map_of bs key)" for bs by (induction bs) auto
  ultimately show ?thesis using assms(2) by (simp add: sysfile_def g_strdup_printf_def)
qed

end
