(* ===== verification/Ipc_Socket.thy ===== *)
theory Ipc_Socket
  imports Plugin_Common Daemon_Server
begin

text \<open>
  \<^verbatim>\<open>lib/ipc.c\<close> and \<^verbatim>\<open>lib/plugins/ipc_socket/ipc_socket.c\<close>: the connection of a context to the
  daemon. The world now also has the open sockets of the process, what was written to them, and
  what the system calls deliver: the number of a new socket, whether the connection is accepted,
  whether a request is written as a whole, and the response that is read (\<open>None\<close> for a short
  read). Writing to a descriptor that is not open fails; that its number may have been given to
  another file of the process in the meantime is not modelled.
\<close>

record ipcworld = sysworld +
  w_open :: "int set"
  w_sent :: "(int \<times> powerapi_request_t) list"
  w_socket :: "nat \<Rightarrow> int"
  w_connect :: "nat \<Rightarrow> bool"
  w_write :: "nat \<Rightarrow> bool"
  w_read :: "nat \<Rightarrow> powerapi_response_t option"

abbreviation IPC_SOCKET :: int where "IPC_SOCKET \<equiv> 0"
abbreviation PATH_MAX :: nat where "PATH_MAX \<equiv> 4096"
abbreviation CONTEXT_NAME_SIZE :: nat where "CONTEXT_NAME_SIZE \<equiv> 64"
abbreviation SUN_PATH_SIZE :: nat where "SUN_PATH_SIZE \<equiv> 108"

definition POWERAPID_SOCKET_PATH :: string where
  "POWERAPID_SOCKET_PATH = ''/var/opt/cray/powerapi/run/powerapid.sock''"

text \<open>The file descriptor, private data of the plugin, is \<open>None\<close> if that data is not allocated.\<close>

record ipc_t =
  ipc_type :: int
  ipc_context_name :: string
  ipc_context_role :: int
  ipc_fd :: "int option"
  ipc_ops :: bool

subsection \<open>Requests\<close>

definition sock_write :: "int \<Rightarrow> powerapi_request_t \<Rightarrow> 'a ipcworld_scheme \<Rightarrow> bool \<times> 'a ipcworld_scheme" where
  "sock_write fd req w =
     (if fd \<in> w_open w \<and> w_write w (sw_tick w) then (True, tick (w\<lparr>w_sent := w_sent w @ [(fd, req)]\<rparr>))
      else (False, tick w))"

definition sock_read :: "int \<Rightarrow> 'a ipcworld_scheme \<Rightarrow> powerapi_response_t option \<times> 'a ipcworld_scheme" where
  "sock_read fd w = (if fd \<in> w_open w then w_read w (sw_tick w) else None, tick w)"

definition ipc_socket_req :: "int \<Rightarrow> powerapi_request_t \<Rightarrow> 'a ipcworld_scheme \<Rightarrow> int \<times> 'a ipcworld_scheme" where
  "ipc_socket_req fd req w =
     (case sock_write fd req w of
        (False, w) \<Rightarrow> (PWR_RET_FAILURE, w)
      | (True, w) \<Rightarrow>
          (case sock_read fd w of
             (None, w) \<Rightarrow> (PWR_RET_FAILURE, w)
           | (Some resp, w) \<Rightarrow> (resp_retval resp, w)))"

definition ipc_socket_auth :: "ipc_t \<Rightarrow> int \<Rightarrow> 'a ipcworld_scheme \<Rightarrow> int \<times> 'a ipcworld_scheme" where
  "ipc_socket_auth ipc fd w =
     (if length (ipc_context_name ipc) \<ge> CONTEXT_NAME_SIZE then (PWR_RET_FAILURE, w)
      else ipc_socket_req fd (PwrAUTH (ipc_context_role ipc) (ipc_context_name ipc)) w)"

text \<open>
  A result of \<open>None\<close> means a NULL pointer to the private data. When the authentication fails the
  socket is closed, but the number of its descriptor stays in the private data.
\<close>

definition ipc_socket_connect :: "ipc_t \<Rightarrow> 'a ipcworld_scheme \<Rightarrow> (int \<times> ipc_t \<times> 'a ipcworld_scheme) option" where
  "ipc_socket_connect ipc w =
     do {
       old \<leftarrow> ipc_fd ipc;
       if old \<ge> 0 then Some (PWR_RET_SUCCESS, ipc, w)
       else
         let fd = w_socket w (sw_tick w); w = tick w in
         if fd < 0 then Some (PWR_RET_FAILURE, ipc, w)
         else if length POWERAPID_SOCKET_PATH \<ge> SUN_PATH_SIZE then Some (PWR_RET_FAILURE, ipc, w)
         else
           let ok = w_connect w (sw_tick w); w = tick w in
           if \<not> ok then Some (PWR_RET_FAILURE, ipc, w)
           else
             let ipc = ipc\<lparr>ipc_fd := Some fd\<rparr>; (status, w) = ipc_socket_auth ipc fd (w\<lparr>w_open := insert fd (w_open w)\<rparr>) in
             if status \<noteq> PWR_RET_SUCCESS then Some (status, ipc, w\<lparr>w_open := w_open w - {fd}\<rparr>)
             else Some (status, ipc, w)
     }"

text \<open>The value is the 64 bits of the union, for both types.\<close>

definition ipc_socket_set ::
  "ipc_t \<Rightarrow> int \<Rightarrow> int \<Rightarrow> int \<Rightarrow> int \<Rightarrow> 64 word \<Rightarrow> string \<Rightarrow> 'a ipcworld_scheme \<Rightarrow> (int \<times> ipc_t \<times> 'a ipcworld_scheme) option" where
  "ipc_socket_set ipc obj_type attr_name meta_name attr_type v path w =
     do {
       (status, ipc, w) \<leftarrow> ipc_socket_connect ipc w;
       if status \<noteq> PWR_RET_SUCCESS then Some (status, ipc, w)
       else if attr_type \<noteq> PWR_ATTR_DATA_DOUBLE \<and> attr_type \<noteq> PWR_ATTR_DATA_UINT64 then Some (PWR_RET_INVALID, ipc, w)
       else if length path \<ge> PATH_MAX then Some (PWR_RET_FAILURE, ipc, w)
       else do {
         fd \<leftarrow> ipc_fd ipc;
         let (status, w) =
           ipc_socket_req fd
             (PwrSET \<lparr>sr_object = obj_type, sr_attribute = attr_name, sr_data_type = attr_type, sr_metadata = meta_name,
                sr_value = v, sr_path = path\<rparr>) w;
         Some (status, ipc, w)
       }
     }"

definition ipc_socket_set_uint64 ::
  "ipc_t \<Rightarrow> int \<Rightarrow> int \<Rightarrow> int \<Rightarrow> 64 word \<Rightarrow> string \<Rightarrow> 'a ipcworld_scheme \<Rightarrow> (int \<times> ipc_t \<times> 'a ipcworld_scheme) option" where
  "ipc_socket_set_uint64 ipc obj_type attr_name meta_name v path w =
     ipc_socket_set ipc obj_type attr_name meta_name PWR_ATTR_DATA_UINT64 v path w"

definition ipc_socket_set_double ::
  "ipc_t \<Rightarrow> int \<Rightarrow> int \<Rightarrow> int \<Rightarrow> double \<Rightarrow> string \<Rightarrow> 'a ipcworld_scheme \<Rightarrow> (int \<times> ipc_t \<times> 'a ipcworld_scheme) option" where
  "ipc_socket_set_double ipc obj_type attr_name meta_name v path w =
     ipc_socket_set ipc obj_type attr_name meta_name PWR_ATTR_DATA_DOUBLE v path w"

subsection \<open>Creation and release\<close>

definition ipc_socket_construct :: "ipc_t \<Rightarrow> int \<times> ipc_t" where
  "ipc_socket_construct ipc = (PWR_RET_SUCCESS, ipc\<lparr>ipc_fd := Some (- 1), ipc_ops := True\<rparr>)"

definition ipc_socket_destruct :: "ipc_t option \<Rightarrow> 'a ipcworld_scheme \<Rightarrow> int \<times> ipc_t option \<times> 'a ipcworld_scheme" where
  "ipc_socket_destruct ipc w =
     (case ipc of
        None \<Rightarrow> (PWR_RET_FAILURE, None, w)
      | Some i \<Rightarrow>
          (case ipc_fd i of
             None \<Rightarrow> (PWR_RET_FAILURE, Some i, w)
           | Some fd \<Rightarrow>
               (PWR_RET_SUCCESS, Some (i\<lparr>ipc_fd := None, ipc_ops := False\<rparr>),
                if fd \<ge> 0 then w\<lparr>w_open := w_open w - {fd}\<rparr> else w)))"

definition del_ipc :: "ipc_t option \<Rightarrow> 'a ipcworld_scheme \<Rightarrow> 'a ipcworld_scheme" where
  "del_ipc ipc w =
     (case ipc of
        None \<Rightarrow> w
      | Some i \<Rightarrow> if ipc_ops i then (case ipc_socket_destruct (Some i) w of (_, _, w) \<Rightarrow> w) else w)"

definition new_ipc :: "int \<Rightarrow> string \<Rightarrow> int \<Rightarrow> 'a ipcworld_scheme \<Rightarrow> ipc_t option \<times> 'a ipcworld_scheme" where
  "new_ipc type context_name context_role w =
     (let ipc = \<lparr>ipc_type = type, ipc_context_name = context_name, ipc_context_role = context_role,
                 ipc_fd = None, ipc_ops = False\<rparr>;
          (status, ipc) = (if type = IPC_SOCKET then ipc_socket_construct ipc else (PWR_RET_FAILURE, ipc)) in
      if status \<noteq> PWR_RET_SUCCESS then (None, del_ipc (Some ipc) w) else (Some ipc, w))"

subsection \<open>Properties\<close>

lemma tick_sel [simp]:
  "sw_tick (tick w) = Suc (sw_tick w)" "sw_fs (tick w) = sw_fs w" "sw_clock (tick w) = sw_clock w"
  "sw_sleep (tick w) = sw_sleep w" "sw_spawn (tick w) = sw_spawn w"
  by (simp_all add: tick_def)

lemma tick_ipc_sel [simp]:
  "w_open (tick w) = w_open w" "w_sent (tick w) = w_sent w" "w_socket (tick w) = w_socket w"
  "w_connect (tick w) = w_connect w" "w_write (tick w) = w_write w" "w_read (tick w) = w_read w"
  by (simp_all add: tick_def)

definition set_request :: "int \<Rightarrow> int \<Rightarrow> int \<Rightarrow> int \<Rightarrow> 64 word \<Rightarrow> string \<Rightarrow> powerapi_request_t" where
  "set_request obj_type attr meta type v path =
     PwrSET \<lparr>sr_object = obj_type, sr_attribute = attr, sr_data_type = type, sr_metadata = meta, sr_value = v, sr_path = path\<rparr>"

text \<open>
  C28. Setting a value over a fresh connection sends the role and the name of the context first
  and then the request with exactly the given type, attribute, value and path, and returns the
  status that the daemon answered; the connection is kept, so that a further request is sent alone.
\<close>

theorem ipc_set_sends_request:
  fixes w :: "'a ipcworld_scheme"
  defines "t \<equiv> sw_tick w"
  assumes "ipc_fd ipc = Some (- 1)" "length (ipc_context_name ipc) < CONTEXT_NAME_SIZE" "length path < PATH_MAX"
    and "type \<in> {PWR_ATTR_DATA_DOUBLE, PWR_ATTR_DATA_UINT64}"
    and "w_socket w t = fd" "0 \<le> fd" "w_connect w (t + 1)" "\<forall>k. w_write w k"
    and "w_read w (t + 3) = Some auth" "resp_retval auth = PWR_RET_SUCCESS" "w_read w (t + 5) = Some resp"
    and "w_read w (t + 7) = Some resp2"
  shows "\<exists>ipc' w'. ipc_socket_set ipc ob attr meta type v path w = Some (resp_retval resp, ipc', w') \<and>
    w_sent w' = w_sent w @ [(fd, PwrAUTH (ipc_context_role ipc) (ipc_context_name ipc)), (fd, set_request ob attr meta type v path)] \<and>
    (\<exists>w''. ipc_socket_set ipc' ob attr meta type v2 path w' = Some (resp_retval resp2, ipc', w'') \<and>
       w_sent w'' = w_sent w' @ [(fd, set_request ob attr meta type v2 path)])"
proof -
  have k: "sw_tick w = t" "t + 3 = Suc (Suc (Suc t))" "t + 5 = Suc (Suc (Suc (Suc (Suc t))))"
    "t + 7 = Suc (Suc (Suc (Suc (Suc (Suc (Suc t))))))" by (simp_all add: t_def)
  show ?thesis
    using assms(2-) unfolding k
    by (auto simp: ipc_socket_set_def ipc_socket_connect_def ipc_socket_auth_def ipc_socket_req_def sock_write_def sock_read_def
        Let_def POWERAPID_SOCKET_PATH_def set_request_def k(1))
qed

text \<open>
  C29. When the daemon refuses the authentication the socket is closed but its descriptor is
  kept as if it were connected: every later request of this context fails without being sent, also
  when the daemon would accept the client by then.
\<close>

theorem refused_connection_is_not_retried:
  fixes w :: "'a ipcworld_scheme"
  defines "t \<equiv> sw_tick w"
  assumes "ipc_fd ipc = Some (- 1)" "length (ipc_context_name ipc) < CONTEXT_NAME_SIZE"
    and "w_socket w t = fd" "0 \<le> fd" "w_connect w (t + 1)" "\<forall>k. w_write w k"
    and "w_read w (t + 3) = Some auth" "resp_retval auth \<noteq> PWR_RET_SUCCESS"
  shows "\<exists>ipc' w'. ipc_socket_set ipc ob attr meta type v path w = Some (resp_retval auth, ipc', w') \<and> fd \<notin> w_open w' \<and>
    (\<forall>w2 :: 'a ipcworld_scheme. fd \<notin> w_open w2 \<longrightarrow> length path2 < PATH_MAX \<longrightarrow>
       (\<exists>w3. ipc_socket_set_uint64 ipc' ob2 attr2 meta2 v2 path2 w2 = Some (PWR_RET_FAILURE, ipc', w3) \<and> w_sent w3 = w_sent w2))"
proof -
  have k: "sw_tick w = t" "t + 3 = Suc (Suc (Suc t))" by (simp_all add: t_def)
  show ?thesis
    using assms(2-) unfolding k
    by (auto simp: ipc_socket_set_def ipc_socket_set_uint64_def ipc_socket_connect_def ipc_socket_auth_def ipc_socket_req_def
        sock_write_def sock_read_def Let_def POWERAPID_SOCKET_PATH_def k(1))
qed

subsection \<open>Examples\<close>

definition example_ipc :: ipc_t where
  "example_ipc = \<lparr>ipc_type = IPC_SOCKET, ipc_context_name = ''app'', ipc_context_role = 0, ipc_fd = Some (- 1), ipc_ops = True\<rparr>"

definition example_files :: filesystem where
  "example_files =
     \<lparr>files = Map.empty, readable = (\<lambda>_. True), writable = (\<lambda>_. True), accepts = (\<lambda>_ _. True), dirents = (\<lambda>_. None)\<rparr>"

definition example_ipcworld :: "int \<Rightarrow> ipcworld" where
  "example_ipcworld answer =
     \<lparr>sw_tick = 0, sw_fs = (\<lambda>_. example_files), sw_clock = (\<lambda>_. None), sw_sleep = (\<lambda>_ _. []), sw_spawn = (\<lambda>_ _. None),
      w_open = {}, w_sent = [], w_socket = (\<lambda>_. 5), w_connect = (\<lambda>_. True), w_write = (\<lambda>_. True),
      w_read = (\<lambda>_. Some (ret_response answer))\<rparr>"

lemma example_ipcworld_sel:
  "ipc_fd example_ipc = Some (- 1)" "ipc_context_name example_ipc = ''app''" "ipc_context_role example_ipc = 0"
  "w_socket (example_ipcworld r) k = 5" "w_connect (example_ipcworld r) k" "\<forall>k. w_write (example_ipcworld r) k"
  "w_read (example_ipcworld r) k = Some (ret_response r)" "resp_retval (ret_response r) = r" "w_sent (example_ipcworld r) = []"
  "w_open (example_ipcworld r) = {}"
  by (simp_all add: example_ipc_def example_ipcworld_def ret_response_def)

theorem ipc_set_sends_request_witness:
  "\<exists>ipc' w'. ipc_socket_set example_ipc PWR_OBJ_HT PWR_ATTR_FREQ_REQ 0 PWR_ATTR_DATA_UINT64 2000 ''f'' (example_ipcworld 0) =
      Some (PWR_RET_SUCCESS, ipc', w') \<and>
     w_sent w' = [(5, PwrAUTH 0 ''app''), (5, set_request PWR_OBJ_HT PWR_ATTR_FREQ_REQ 0 PWR_ATTR_DATA_UINT64 2000 ''f'')]"
proof -
  have "length (ipc_context_name example_ipc) < CONTEXT_NAME_SIZE" "length ''f'' < PATH_MAX"
    "PWR_ATTR_DATA_UINT64 \<in> {PWR_ATTR_DATA_DOUBLE, PWR_ATTR_DATA_UINT64}" by (simp_all add: example_ipcworld_sel)
  note r = ipc_set_sends_request [OF example_ipcworld_sel(1) this example_ipcworld_sel(4) _ example_ipcworld_sel(5,6,7,8,7,7),
      where ob = PWR_OBJ_HT and attr = PWR_ATTR_FREQ_REQ and meta = 0 and v = 2000 and ?v2.0 = 0]
  show ?thesis using r by (auto simp: example_ipcworld_sel)
qed

theorem refused_connection_is_not_retried_witness:
  "\<exists>ipc' w'. ipc_socket_set example_ipc PWR_OBJ_HT PWR_ATTR_FREQ_REQ 0 PWR_ATTR_DATA_UINT64 2000 ''f'' (example_ipcworld PWR_RET_OP_NO_PERM) =
      Some (PWR_RET_OP_NO_PERM, ipc', w') \<and>
     (\<exists>w3. ipc_socket_set_uint64 ipc' PWR_OBJ_HT PWR_ATTR_FREQ_REQ 0 2000 ''f'' (example_ipcworld 0) = Some (PWR_RET_FAILURE, ipc', w3))"
proof -
  have n: "length (ipc_context_name example_ipc) < CONTEXT_NAME_SIZE" by (simp add: example_ipcworld_sel)
  have refused: "resp_retval (ret_response PWR_RET_OP_NO_PERM) \<noteq> PWR_RET_SUCCESS" by (simp add: ret_response_def)
  from refused_connection_is_not_retried [OF example_ipcworld_sel(1) n example_ipcworld_sel(4) _ example_ipcworld_sel(5,6,7) refused,
      of PWR_OBJ_HT PWR_ATTR_FREQ_REQ 0 PWR_ATTR_DATA_UINT64 2000 "''f''" "''f''" PWR_OBJ_HT PWR_ATTR_FREQ_REQ 0 2000]
  obtain ipc' w' where "ipc_socket_set example_ipc PWR_OBJ_HT PWR_ATTR_FREQ_REQ 0 PWR_ATTR_DATA_UINT64 2000 ''f''
      (example_ipcworld PWR_RET_OP_NO_PERM) = Some (PWR_RET_OP_NO_PERM, ipc', w')"
    "\<forall>w2 :: ipcworld. 5 \<notin> w_open w2 \<longrightarrow> length ''f'' < PATH_MAX \<longrightarrow>
       (\<exists>w3. ipc_socket_set_uint64 ipc' PWR_OBJ_HT PWR_ATTR_FREQ_REQ 0 2000 ''f'' w2 = Some (PWR_RET_FAILURE, ipc', w3) \<and> w_sent w3 = w_sent w2)"
    by (auto simp: example_ipcworld_sel)
  moreover have "(5 :: int) \<notin> w_open (example_ipcworld 0)" "length ''f'' < PATH_MAX" by (simp_all add: example_ipcworld_sel)
  ultimately show ?thesis by blast
qed

end
