(* ===== verification/X86_Common.thy ===== *)
theory X86_Common
  imports Sysfiles Ipc_Socket Pwr_List Objects
begin

text \<open>
  The x86 plugin (\<^verbatim>\<open>lib/plugins/x86\<close>): the catalog of paths, the metadata that all objects share,
  and the functions of \<^verbatim>\<open>x86_obj.c\<close>. The functions of the plugin get the text conversions of the
  C library, the configured catalog and the answer of the processor's identification instruction
  in the record \<open>penv\<close>. Where the code would dereference NULL or divide by zero the
  result is \<open>None\<close>. The variant of the code without \<^verbatim>\<open>USE_RDMSR\<close> is modelled.
\<close>

subsection \<open>The catalog (x86_plugin.c)\<close>

definition x86_sysfile_catalog :: "(string \<times> string) list" where
  "x86_sysfile_catalog =
    (let sysfs_kernel = ''/sys/kernel/pm_api''; sysfs_cpu = ''/sys/devices/system/cpu'';
         sysfs_pm_cntrs = ''/sys/cray/pm_counters''; sysfs_rapl = ''/sys/class/powercap/intel-rapl'';
         sysfs_hwmon = ''/sys/class/hwmon''; procfs = ''/proc'' in
     [(''num_cstates_path'', sysfs_kernel @ ''/num_cstates''),
      (''cstate_limit_path'', sysfs_kernel @ ''/cstate_limit''),
      (''cstate_latency_path'', sysfs_cpu @ ''/cpu0/cpuidle/state%d/latency''),
      (''avail_freqs_path'', sysfs_cpu @ ''/cpu0/cpufreq/scaling_available_frequencies''),
      (''curr_freq_path'', sysfs_cpu @ ''/cpu0/cpufreq/scaling_cur_freq''),
      (''max_freq_path'', sysfs_cpu @ ''/cpu0/cpufreq/scaling_max_freq''),
      (''min_freq_path'', sysfs_cpu @ ''/cpu0/cpufreq/scaling_min_freq''),
      (''kernel_max_path'', sysfs_cpu @ ''/kernel_max''),
      (''cpu_possible_path'', sysfs_cpu @ ''/possible''),
      (''cpu_present_path'', sysfs_cpu @ ''/present''),
      (''cpu_online_path'', sysfs_cpu @ ''/online''),
      (''procfs_cpuinfo'', procfs @ ''/cpuinfo''),
      (''procfs_cname'', procfs @ ''/cray_xt/cname''),
      (''procfs_nid'', procfs @ ''/cray_xt/nid''),
      (''sysfs_kernel'', sysfs_kernel),
      (''sysfs_cpu'', sysfs_cpu),
      (''sysfs_pm_cntrs'', sysfs_pm_cntrs),
      (''sysfs_rapl'', sysfs_rapl),
      (''sysfs_hwmon'', sysfs_hwmon),
      (''node_power_path'', sysfs_pm_cntrs @ ''/power''),
      (''node_power_cap_path'', sysfs_pm_cntrs @ ''/power_cap''),
      (''node_energy_path'', sysfs_pm_cntrs @ ''/energy''),
      (''node_cpu_power_path'', sysfs_pm_cntrs @ ''/cpu_power''),
      (''node_cpu_energy_path'', sysfs_pm_cntrs @ ''/cpu_energy''),
      (''node_mem_power_path'', sysfs_pm_cntrs @ ''/memory_power''),
      (''node_mem_energy_path'', sysfs_pm_cntrs @ ''/memory_energy''),
      (''node_update_rate_path'', sysfs_pm_cntrs @ ''/raw_scan_hz''),
      (''topology_path'', sysfs_cpu @ ''/cpu%lu/topology/%s''),
      (''ht_freq_path'', sysfs_cpu @ ''/cpu%lu/cpufreq/scaling_cur_freq''),
      (''ht_freq_req_path'', sysfs_cpu @ ''/cpu%lu/cpufreq/scaling_setspeed''),
      (''ht_freq_limit_min_path'', sysfs_cpu @ ''/cpu%lu/cpufreq/scaling_min_freq''),
      (''ht_freq_limit_max_path'', sysfs_cpu @ ''/cpu%lu/cpufreq/scaling_max_freq''),
      (''ht_freq_limit_list_path'', sysfs_cpu @ ''/cpu%lu/cpufreq/scaling_available_frequencies''),
      (''ht_cstate_path'', sysfs_cpu @ ''/cpu%lu/cpuidle''),
      (''ht_cstate_limit_path'', sysfs_cpu @ ''/cpu%lu/cpuidle/state%lu/disable''),
      (''ht_governor_path'', sysfs_cpu @ ''/cpu%lu/cpufreq/scaling_governor''),
      (''ht_governor_list_path'', sysfs_cpu @ ''/cpu%lu/cpufreq/scaling_available_governors''),
      (''msr_path'', sysfs_cpu @ ''/cpu%lu/msr/%xr''),
      (''msr_pkg_power_sku_unit_path'', sysfs_cpu @ ''/cpu%lu/msr/606r''),
      (''msr_pkg_rapl_perf_status_path'', sysfs_cpu @ ''/cpu%lu/msr/613r''),
      (''msr_ddr_rapl_perf_status_path'', sysfs_cpu @ ''/cpu%lu/msr/61br''),
      (''rapl_pkg_name_path'', sysfs_rapl @ ''/intel-rapl:%lu/name''),
      (''rapl_sub_name_path'', sysfs_rapl @ ''/intel-rapl:%lu/intel-rapl:%lu:%lu/name''),
      (''rapl_pkg_energy_path'', sysfs_rapl @ ''/intel-rapl:%lu/energy_uj''),
      (''rapl_pkg_energy_max_path'', sysfs_rapl @ ''/intel-rapl:%lu/max_energy_range_uj''),
      (''rapl_sub_energy_path'', sysfs_rapl @ ''/intel-rapl:%lu/intel-rapl:%lu:%lu/energy_uj''),
      (''rapl_sub_energy_max_path'', sysfs_rapl @ ''/intel-rapl:%lu/intel-rapl:%lu:%lu/max_energy_range_uj''),
      (''rapl_pkg_power_limit_path'', sysfs_rapl @ ''/intel-rapl:%lu/constraint_0_power_limit_uw''),
      (''rapl_pkg_power_limit_max_path'', sysfs_rapl @ ''/intel-rapl:%lu/constraint_0_max_power_uw''),
      (''rapl_sub_power_limit_path'', sysfs_rapl @ ''/intel-rapl:%lu/intel-rapl:%lu:%lu/constraint_0_power_limit_uw''),
      (''rapl_sub_power_limit_max_path'', sysfs_rapl @ ''/intel-rapl:%lu/intel-rapl:%lu:%lu/constraint_0_max_power_uw''),
      (''rapl_pkg_time_window_path'', sysfs_rapl @ ''/intel-rapl:%lu/constraint_0_time_window_us''),
      (''rapl_sub_time_window_path'', sysfs_rapl @ ''/intel-rapl:%lu/intel-rapl:%lu:%lu/constraint_0_time_window_us'')])"

record penv =
  pe_lib :: clib
  pe_sys :: "string \<Rightarrow> string option"
  pe_cpuid :: "32 word"

abbreviation path0 :: "penv \<Rightarrow> string \<Rightarrow> string option" where
  "path0 E key \<equiv> pe_sys E key"

abbreviation path_fmt :: "penv \<Rightarrow> string \<Rightarrow> fmt_arg list \<Rightarrow> string option" where
  "path_fmt E key args \<equiv> g_strdup_printf (pe_sys E key) args"

subsection \<open>Shared data (x86_obj.h)\<close>

abbreviation PWR_MD_NOT_SPECIFIED :: int where "PWR_MD_NOT_SPECIFIED \<equiv> - 2"
abbreviation MSR_PKG_POWER_SKU_UNIT :: nat where "MSR_PKG_POWER_SKU_UNIT \<equiv> 0x606"
abbreviation MSR_PKG_RAPL_PERF_STATUS :: nat where "MSR_PKG_RAPL_PERF_STATUS \<equiv> 0x613"
abbreviation MSR_DDR_RAPL_PERF_STATUS :: nat where "MSR_DDR_RAPL_PERF_STATUS \<equiv> 0x61b"
abbreviation MD_TIME_WINDOW_MULTIPLE_MAX :: "64 word" where "MD_TIME_WINDOW_MULTIPLE_MAX \<equiv> 10"
abbreviation NSEC_MAX :: "64 word" where "NSEC_MAX \<equiv> - 1"
abbreviation USEC_MAX :: "64 word" where "USEC_MAX \<equiv> - 1 div 1000"

record x86_metadata_t =
  md_update_rate :: double
  md_time_window :: PWR_Time
  md_ht_cstate :: pwr_list_uint64_t
  md_ht_freq :: pwr_list_double_t
  md_ht_gov :: pwr_list_string_t
  md_node_vendor_info :: "string option"
  md_socket_vendor_info :: "string option"

definition x86_metadata_zero :: x86_metadata_t where
  "x86_metadata_zero =
     \<lparr>md_update_rate = 0, md_time_window = 0, md_ht_cstate = pwr_list_init_uint64, md_ht_freq = pwr_list_init_double,
      md_ht_gov = pwr_list_init_string, md_node_vendor_info = None, md_socket_vendor_info = None\<rparr>"

type_synonym 'w x86_get = "(int \<times> 64 word option \<times> timespec option \<times> 'w) option"
type_synonym 'w x86_meta = "(int \<times> meta_value option \<times> 'w) option"

text \<open>Reading an integer, and what is stored of it (the whole double, or nothing on failure).\<close>

definition read_scaled ::
  "penv \<Rightarrow> string option \<Rightarrow> (64 word \<Rightarrow> 64 word) \<Rightarrow> bool \<Rightarrow> 'a sysworld_scheme \<Rightarrow> int \<times> 64 word option \<times> timespec option \<times> 'a sysworld_scheme" where
  "read_scaled E path f want_ts w =
     (case read_uint64_from_file (pe_lib E) path want_ts w of
        (retval, ivalue, ts, w) \<Rightarrow> (retval, if retval = PWR_RET_SUCCESS then Some (f ivalue) else None, ts, w))"

definition micro :: "64 word \<Rightarrow> double" where
  "micro ivalue = dbl_mul (dbl_of_uint64 ivalue) (dbl_const 1 1000000)"

definition milli :: "64 word \<Rightarrow> double" where
  "milli ivalue = dbl_mul (dbl_of_uint64 ivalue) (dbl_const 1 1000)"

subsection \<open>Common functions (x86_obj.c)\<close>

definition bit_val :: "32 word \<Rightarrow> nat \<Rightarrow> nat \<Rightarrow> 32 word" where
  "bit_val reg fbit nbits = and (drop_bit fbit reg) (push_bit nbits 1 - 1)"

definition x86_cpu_power_factor :: "penv \<Rightarrow> double" where
  "x86_cpu_power_factor E =
     (let eax = pe_cpuid E;
          family = bit_val eax 20 4 + bit_val eax 8 4;
          model = or (push_bit 4 (bit_val eax 16 4)) (bit_val eax 4 4) in
      if family = 0x6 \<and> model = 0x57 then dbl_const 9 10 else dbl_const 1 1)"

definition x86_get_power ::
  "penv \<Rightarrow> string option \<Rightarrow> PWR_Time \<Rightarrow> bool \<Rightarrow> 'a sysworld_scheme \<Rightarrow> int \<times> double option \<times> timespec option \<times> 'a sysworld_scheme" where
  "x86_get_power E path window want_ts w =
     (case read_uint64_from_file (pe_lib E) path True w of
        (retval, energy1, ts1, w) \<Rightarrow>
          if retval \<noteq> PWR_RET_SUCCESS then (retval, None, None, w)
          else
            (case pwr_nanosleep window w of
               (retval, w) \<Rightarrow>
                 if retval \<noteq> PWR_RET_SUCCESS then (retval, None, None, w)
                 else
                   (case read_uint64_from_file (pe_lib E) path True w of
                      (retval, energy2, ts2, w) \<Rightarrow>
                        if retval \<noteq> PWR_RET_SUCCESS then (retval, None, None, w)
                        else
                          let energy2 = (if energy2 < energy1 then energy2 + push_bit 32 1 else energy2);
                              energy = micro (energy2 - energy1) in
                          (retval, Some (dbl_div energy (pwr_tspec_diff (the ts2) (the ts1))),
                           if want_ts then ts2 else None, w))))"

definition x86_get_time_unit ::
  "penv \<Rightarrow> 64 word \<Rightarrow> bool \<Rightarrow> 'a sysworld_scheme \<Rightarrow> int \<times> 64 word option \<times> timespec option \<times> 'a sysworld_scheme" where
  "x86_get_time_unit E ht_id want_ts w =
     (case path_fmt E ''msr_path'' [ArgLu ht_id, ArgX MSR_PKG_POWER_SKU_UNIT] of
        None \<Rightarrow> (PWR_RET_FAILURE, None, None, w)
      | Some path \<Rightarrow>
          (case read_uint64_from_file (pe_lib E) (Some path) want_ts w of
             (status, time_unit, ts, w) \<Rightarrow>
               if status \<noteq> 0 then (status, None, ts, w)
               else (status, Some (and (drop_bit 16 time_unit) 0xf), ts, w)))"

text \<open>The time stamp of the second read replaces the one of the first, if it gets that far.\<close>

definition x86_get_throttled_time ::
  "penv \<Rightarrow> nat \<Rightarrow> 64 word \<Rightarrow> bool \<Rightarrow> 'a sysworld_scheme \<Rightarrow> int \<times> 64 word option \<times> timespec option \<times> 'a sysworld_scheme" where
  "x86_get_throttled_time E msr ht_id want_ts w =
     (case path_fmt E ''msr_path'' [ArgLu ht_id, ArgX msr] of
        None \<Rightarrow> (PWR_RET_FAILURE, None, None, w)
      | Some path \<Rightarrow>
          (case read_uint64_from_file (pe_lib E) (Some path) want_ts w of
             (retval, counter, ts, w) \<Rightarrow>
               if retval \<noteq> PWR_RET_SUCCESS then (retval, None, ts, w)
               else
                 let counter = and (drop_bit 0 counter) 0xffffffff in
                 (case x86_get_time_unit E ht_id want_ts w of
                    (retval, time_unit, ts2, w) \<Rightarrow>
                      let ts = (case ts2 of None \<Rightarrow> ts | Some t \<Rightarrow> Some t) in
                      if retval \<noteq> PWR_RET_SUCCESS then (retval, None, ts, w)
                      else (retval, map_option (\<lambda>u. counter div push_bit (unat u) 1) time_unit, ts, w))))"

subsection \<open>RAPL domains\<close>

text \<open>
  The two searches go on until a file does not exist or cannot be read, or its text is \<open>name\<close>; the result is
  \<^verbatim>\<open>error\<close> and the identifier found.
\<close>

partial_function (option) find_rapl_loop ::
  "(64 word \<Rightarrow> string option) \<Rightarrow> string \<Rightarrow> 64 word \<Rightarrow> 'a sysworld_scheme \<Rightarrow> (int \<times> 64 word option \<times> 'a sysworld_scheme) option" where
  "find_rapl_loop path_of name i w =
     (case path_of i of
        None \<Rightarrow> Some (1, None, w)
      | Some path \<Rightarrow>
          let (exists, w) = g_file_test path w in
          if \<not> exists then Some (1, None, w)
          else
            let (contents, w) = g_file_get_contents (Some path) w in
            (case contents of
               None \<Rightarrow> Some (1, None, w)
             | Some str \<Rightarrow>
                 if c_string str = name then Some (0, Some i, w) else find_rapl_loop path_of name (i + 1) w))"

definition x86_find_rapl_pkg_id :: "penv \<Rightarrow> 64 word \<Rightarrow> 'a sysworld_scheme \<Rightarrow> (int \<times> 64 word option \<times> 'a sysworld_scheme) option" where
  "x86_find_rapl_pkg_id E socket_id w =
     find_rapl_loop (\<lambda>i. path_fmt E ''rapl_pkg_name_path'' [ArgLu i])
       (''package-'' @ show_nat (unat socket_id) @ [char_of (10 :: nat)]) 0 w"

definition x86_find_rapl_mem_id :: "penv \<Rightarrow> 64 word \<Rightarrow> 'a sysworld_scheme \<Rightarrow> (int \<times> 64 word option \<times> 'a sysworld_scheme) option" where
  "x86_find_rapl_mem_id E rapl_pkg_id w =
     find_rapl_loop (\<lambda>i. path_fmt E ''rapl_sub_name_path'' [ArgLu rapl_pkg_id, ArgLu rapl_pkg_id, ArgLu i])
       (''dram'' @ [char_of (10 :: nat)]) 0 w"

text \<open>The identifiers stay as they were (\<open>pkg0\<close>, \<open>mem0\<close>) if they are not found.\<close>

definition x86_find_rapl_id ::
  "penv \<Rightarrow> 64 word \<Rightarrow> 64 word \<Rightarrow> 64 word \<Rightarrow> 'a sysworld_scheme \<Rightarrow> (int \<times> 64 word \<times> 64 word \<times> 'a sysworld_scheme) option" where
  "x86_find_rapl_id E socket_id pkg0 mem0 w =
     do {
       (error, p, w) \<leftarrow> x86_find_rapl_pkg_id E socket_id w;
       let pkg = (case p of None \<Rightarrow> pkg0 | Some i \<Rightarrow> i);
       if error \<noteq> 0 then Some (error, pkg, mem0, w)
       else do {
         (error, m, w) \<leftarrow> x86_find_rapl_mem_id E pkg w;
         Some (error, pkg, case m of None \<Rightarrow> mem0 | Some i \<Rightarrow> i, w)
       }
     }"

subsection \<open>Metadata of all objects\<close>

definition x86_os_id_get_meta :: "'o obj_t_scheme \<Rightarrow> int \<Rightarrow> int \<times> meta_value option" where
  "x86_os_id_get_meta ob meta =
     (if meta = PWR_MD_NUM then (PWR_RET_SUCCESS, Some (MetaWord 0))
      else if meta = PWR_MD_MIN \<or> meta = PWR_MD_MAX then (PWR_RET_SUCCESS, Some (MetaWord (obj_os_id ob)))
      else if meta \<in> {PWR_MD_PRECISION, PWR_MD_ACCURACY, PWR_MD_UPDATE_RATE, PWR_MD_SAMPLE_RATE, PWR_MD_TIME_WINDOW,
                      PWR_MD_TS_LATENCY, PWR_MD_TS_ACCURACY, PWR_MD_VALUE_LEN, PWR_MD_MEASURE_METHOD}
      then (PWR_RET_NO_META, None)
      else (PWR_RET_FAILURE, None))"

definition x86_obj_vendor_info :: "x86_metadata_t \<Rightarrow> 'o obj_t_scheme \<Rightarrow> string option" where
  "x86_obj_vendor_info md ob =
     (if obj_type ob = PWR_OBJ_NODE \<or> obj_type ob = PWR_OBJ_POWER_PLANE then md_node_vendor_info md
      else if obj_type ob = PWR_OBJ_SOCKET \<or> obj_type ob = PWR_OBJ_MEM \<or> obj_type ob = PWR_OBJ_CORE \<or> obj_type ob = PWR_OBJ_HT
      then md_socket_vendor_info md
      else Some ''<invalid object type>'')"

definition x86_get_meta :: "x86_metadata_t \<Rightarrow> 'o obj_t_scheme \<Rightarrow> int \<Rightarrow> (int \<times> meta_value option) option" where
  "x86_get_meta md ob meta =
     (if meta = PWR_MD_VENDOR_INFO_LEN then
        map_option (\<lambda>v. (PWR_RET_SUCCESS, Some (MetaWord (of_nat (length v + 1))))) (x86_obj_vendor_info md ob)
      else if meta = PWR_MD_VENDOR_INFO then
        map_option (\<lambda>v. (PWR_RET_SUCCESS, Some (MetaString v))) (x86_obj_vendor_info md ob)
      else Some (PWR_RET_NO_META, None))"

definition x86_obj_get_meta :: "x86_metadata_t \<Rightarrow> 'o obj_t_scheme \<Rightarrow> int \<Rightarrow> int \<Rightarrow> 'w \<Rightarrow> 'w x86_meta" where
  "x86_obj_get_meta md ob attr meta w =
     map_option (\<lambda>(status, v). (status, v, w))
       (if attr = PWR_ATTR_NOT_SPECIFIED then x86_get_meta md ob meta
        else if attr = PWR_ATTR_OS_ID then Some (x86_os_id_get_meta ob meta)
        else Some (PWR_RET_NO_ATTRIB, None))"

definition x86_obj_get_meta_at_index :: "'o obj_t_scheme \<Rightarrow> int \<Rightarrow> nat \<Rightarrow> (int \<times> 64 word option \<times> string option) option" where
  "x86_obj_get_meta_at_index ob attr index = Some (PWR_RET_NO_ATTRIB, None, None)"

text \<open>
  The time that one read takes, in nanoseconds; the files of the six object types repeat this
  function for each of the two types of values.
\<close>

definition time_get_op :: "(bool \<Rightarrow> 'a sysworld_scheme \<Rightarrow> 'a sysworld_scheme x86_get) \<Rightarrow> 'a sysworld_scheme \<Rightarrow> 'a sysworld_scheme x86_meta" where
  "time_get_op get_op w =
     (case clock_gettime w of
        (None, w) \<Rightarrow> Some (PWR_RET_FAILURE, None, w)
      | (Some ts, w) \<Rightarrow>
          do {
            let beg = pwr_tspec_to_nsec ts;
            (status, dummy, _, w) \<leftarrow> get_op False w;
            if status \<noteq> 0 then Some (status, None, w)
            else
              (case clock_gettime w of
                 (None, w) \<Rightarrow> Some (PWR_RET_FAILURE, None, w)
               | (Some ts, w) \<Rightarrow> Some (status, Some (MetaWord (pwr_tspec_to_nsec ts - beg)), w))
          })"

text \<open>The metadata of a limit that is the power of ten of a number read from a file.\<close>

definition meta_from_file :: "penv \<Rightarrow> string option \<Rightarrow> (64 word \<Rightarrow> 64 word) \<Rightarrow> 'a sysworld_scheme \<Rightarrow> 'a sysworld_scheme x86_meta" where
  "meta_from_file E path f w =
     (case read_uint64_from_file (pe_lib E) path False w of
        (status, ivalue, _, w) \<Rightarrow> Some (status, if status = PWR_RET_SUCCESS then Some (MetaWord (f ivalue)) else None, w))"

definition usec_to_nsec_guarded :: "64 word \<Rightarrow> PWR_Time" where
  "usec_to_nsec_guarded ival = (if ival > USEC_MAX then NSEC_MAX else pwr_usec_to_nsec ival)"

end
