(* ===== verification/Cpu_States.thy ===== *)
theory Cpu_States
  imports X86_Common Object_API Attr_API Gov Example_Lib
begin

text \<open>
  \<^verbatim>\<open>lib/plugins/cpudev/cstate.c\<close>, \<^verbatim>\<open>lib/plugins/cpudev/freq.c\<close> and the second half of
  \<^verbatim>\<open>lib/rolesys/app_os.c\<close>: sleep and performance states, five of each, mapped to the idle
  states and frequencies that the processor has. The static variables of the two files are the
  record \<open>cpudev\<close>; \<open>None\<close> is a NULL pointer. A read outside of an array or through NULL makes the
  result \<open>None\<close>. The plugin \<open>P\<close> acts on a world that extends \<open>sysworld\<close>; \<open>E\<close> has the paths that the
  plugin's catalogue holds, after its configuration file was read.
\<close>

abbreviation PWR_SLEEP_NO :: int where "PWR_SLEEP_NO \<equiv> 0"
abbreviation PWR_SLEEP_SHALLOW :: int where "PWR_SLEEP_SHALLOW \<equiv> 1"
abbreviation PWR_SLEEP_MEDIUM :: int where "PWR_SLEEP_MEDIUM \<equiv> 2"
abbreviation PWR_SLEEP_DEEP :: int where "PWR_SLEEP_DEEP \<equiv> 3"
abbreviation PWR_SLEEP_DEEPEST :: int where "PWR_SLEEP_DEEPEST \<equiv> 4"
abbreviation PWR_NUM_SLEEP_STATES :: nat where "PWR_NUM_SLEEP_STATES \<equiv> 5"
abbreviation PWR_SLEEP_INVALID :: int where "PWR_SLEEP_INVALID \<equiv> - 1"
abbreviation PWR_PERF_FASTEST :: int where "PWR_PERF_FASTEST \<equiv> 0"
abbreviation PWR_NUM_PERF_STATES :: nat where "PWR_NUM_PERF_STATES \<equiv> 5"

record cpudev =
  ss_to_cs :: "int list"
  latencies :: "int list option"
  num_cstates :: int
  ps_to_freq :: "int list"
  freqs :: "double list option"
  num_freqs :: int

definition cpudev_init :: cpudev where
  "cpudev_init =
     \<lparr>ss_to_cs = replicate PWR_NUM_SLEEP_STATES 0, latencies = None, num_cstates = 0,
      ps_to_freq = replicate PWR_NUM_PERF_STATES 0, freqs = None, num_freqs = 0\<rparr>"

definition array_at :: "'a list \<Rightarrow> int \<Rightarrow> 'a option" where
  "array_at xs i = (if 0 \<le> i \<and> nat i < length xs then Some (xs ! nat i) else None)"

text \<open>An unsigned 64-bit value stored in an int.\<close>

definition int_of_uint64 :: "64 word \<Rightarrow> int" where
  "int_of_uint64 v = sint (ucast v :: 32 word)"

subsection \<open>Idle states (cstate.c)\<close>

definition init_ss_to_cs :: "int \<Rightarrow> int list" where
  "init_ss_to_cs num =
     (let t = replicate PWR_NUM_SLEEP_STATES 0 in
      if num > 1 then
        let t = t[4 := num - 1]; jump = (num - 2) div 3 in
        if jump < 1 then
          let t = t[1 := 1, 2 := 1, 3 := 1] in
          if num = 4 then t[3 := 2] else t
        else t[1 := jump, 2 := jump * 2, 3 := jump * 3]
      else t)"

definition map_ss_to_cs :: "cpudev \<Rightarrow> int \<Rightarrow> int option" where
  "map_ss_to_cs d sstate = array_at (ss_to_cs d) sstate"

text \<open>The first index from \<open>i\<close> on whose entry is not below \<open>x\<close>, -1 if there is none.\<close>

fun first_at_least :: "int list \<Rightarrow> int \<Rightarrow> int \<Rightarrow> int" where
  "first_at_least [] x i = - 1"
| "first_at_least (t # ts) x i = (if t \<ge> x then i else first_at_least ts x (i + 1))"

definition map_cs_to_ss :: "cpudev \<Rightarrow> int \<Rightarrow> int" where
  "map_cs_to_ss d cstate = first_at_least (ss_to_cs d) cstate 0"

text \<open>The format is the one of the catalogue, \<^verbatim>\<open>SYSFILES->cstate_latency_path.val\<close>.\<close>

definition cstate_latency_path :: "penv \<Rightarrow> nat \<Rightarrow> string option" where
  "cstate_latency_path E i = Option.bind (pe_sys E ''cstate_latency_path'') (\<lambda>fmt. printf fmt [ArgD (int i)])"

text \<open>The loop over the states from \<open>i\<close> on; the path is cut to the 80 bytes of its buffer.\<close>

fun read_latencies :: "penv \<Rightarrow> nat \<Rightarrow> nat \<Rightarrow> 'a sysworld_scheme \<Rightarrow> (int \<times> int list \<times> 'a sysworld_scheme) option" where
  "read_latencies E i 0 w = Some (PWR_RET_SUCCESS, [], w)"
| "read_latencies E i (Suc k) w =
     do {
       path \<leftarrow> cstate_latency_path E i;
       case read_val_from_file (pe_lib E) (Some (take 79 path)) TYPE_UINT64 False w of
         (r, v, _, w) \<Rightarrow>
           if r \<noteq> PWR_RET_SUCCESS then Some (r, [], w)
           else do {
             (r, vs, w) \<leftarrow> read_latencies E (Suc i) k w;
             Some (r, (case v of Some (VUint64 n) \<Rightarrow> sint n | _ \<Rightarrow> 0) # vs, w)
           }
     }"

definition init_cstate_limits ::
  "penv \<Rightarrow> 'a sysworld_scheme plugin \<Rightarrow> key \<Rightarrow> lib \<Rightarrow> cpudev \<Rightarrow> 'a sysworld_scheme \<Rightarrow>
     (int \<times> (int \<times> int list) option \<times> cpudev \<times> 'a sysworld_scheme) option" where
  "init_cstate_limits E P obj s d w =
     (case latencies d of
        Some lats \<Rightarrow> Some (PWR_RET_SUCCESS, Some (num_cstates d, lats), d, w)
      | None \<Rightarrow>
          do {
            (retval, m, w) \<leftarrow> PWR_ObjAttrGetMeta P obj PWR_ATTR_CSTATE_LIMIT PWR_MD_NUM s w;
            if retval \<noteq> PWR_RET_SUCCESS then Some (retval, None, d\<lparr>num_cstates := 0\<rparr>, w)
            else
              let n = int_of_uint64 (case m of Some (MetaWord v) \<Rightarrow> v | _ \<Rightarrow> 0) in
              if n \<le> 0 then Some (retval, None, d\<lparr>num_cstates := n\<rparr>, w)
              else
                let d = d\<lparr>num_cstates := n, ss_to_cs := init_ss_to_cs n\<rparr> in
                do {
                  (r, lats, w) \<leftarrow> read_latencies E 0 (nat n) w;
                  if r \<noteq> PWR_RET_SUCCESS then Some (r, None, d\<lparr>latencies := None, num_cstates := 0\<rparr>, w)
                  else Some (PWR_RET_SUCCESS, Some (n, lats), d\<lparr>latencies := Some lats\<rparr>, w)
                }
          })"

subsection \<open>Frequencies (freq.c)\<close>

definition init_ps_to_freq :: "int \<Rightarrow> int list" where
  "init_ps_to_freq num =
     (let t = replicate PWR_NUM_PERF_STATES 0 in
      if num > 1 then
        let t = t[4 := num - 1]; jump = (num - 2) div 3 in
        if jump < 1 then
          let t = t[1 := 1, 2 := 1, 3 := 1] in
          if num = 4 then t[3 := 2] else t
        else t[1 := jump, 2 := jump * 2, 3 := jump * 3]
      else t)"

definition map_ps_to_freq :: "cpudev \<Rightarrow> int \<Rightarrow> int option" where
  "map_ps_to_freq d pstate = array_at (ps_to_freq d) pstate"

definition map_freq_to_ps :: "cpudev \<Rightarrow> int \<Rightarrow> int" where
  "map_freq_to_ps d freq_idx = first_at_least (ps_to_freq d) freq_idx 0"

text \<open>The values at the indices \<open>k - 1\<close> down to 0: the largest frequency first.\<close>

fun read_freqs ::
  "'w plugin \<Rightarrow> key \<Rightarrow> nat \<Rightarrow> lib \<Rightarrow> 'w \<Rightarrow> (int \<times> double list \<times> 'w) option" where
  "read_freqs P obj 0 s w = Some (PWR_RET_SUCCESS, [], w)"
| "read_freqs P obj (Suc k) s w =
     do {
       (r, v, _, w) \<leftarrow> PWR_MetaValueAtIndex P obj PWR_ATTR_FREQ_REQ k s w;
       if r \<noteq> PWR_RET_SUCCESS then Some (r, [], w)
       else do {
         (r, vs, w) \<leftarrow> read_freqs P obj k s w;
         Some (r, (case v of Some x \<Rightarrow> x | None \<Rightarrow> 0) # vs, w)
       }
     }"

definition init_freqs ::
  "'w plugin \<Rightarrow> key \<Rightarrow> lib \<Rightarrow> cpudev \<Rightarrow> 'w \<Rightarrow> (int \<times> (int \<times> double list) option \<times> cpudev \<times> 'w) option" where
  "init_freqs P obj s d w =
     (case freqs d of
        Some fs \<Rightarrow> Some (PWR_RET_SUCCESS, Some (num_freqs d, fs), d, w)
      | None \<Rightarrow>
          do {
            (retval, m, w) \<leftarrow> PWR_ObjAttrGetMeta P obj PWR_ATTR_FREQ_REQ PWR_MD_NUM s w;
            if retval \<noteq> PWR_RET_SUCCESS then Some (retval, None, d\<lparr>num_freqs := 0\<rparr>, w)
            else
              let n = int_of_uint64 (case m of Some (MetaWord v) \<Rightarrow> v | _ \<Rightarrow> 0) in
              if n \<le> 0 then Some (retval, None, d\<lparr>num_freqs := n\<rparr>, w)
              else
                let d = d\<lparr>num_freqs := n, ps_to_freq := init_ps_to_freq n\<rparr> in
                do {
                  (r, fs, w) \<leftarrow> read_freqs P obj (nat n) s w;
                  if r \<noteq> PWR_RET_SUCCESS then Some (r, None, d\<lparr>freqs := None, num_freqs := 0\<rparr>, w)
                  else Some (PWR_RET_SUCCESS, Some (n, fs), d\<lparr>freqs := Some fs\<rparr>, w)
                }
          })"

subsection \<open>The interface (app_os.c)\<close>

text \<open>
  The results are the status, the state stored through the pointer (\<open>None\<close> if nothing is stored),
  and the new states. The value of a failed read stays 0, as it is initialised.
\<close>

definition PWR_GetSleepState ::
  "penv \<Rightarrow> 'a sysworld_scheme plugin \<Rightarrow> key \<Rightarrow> lib \<Rightarrow> cpudev \<Rightarrow> 'a sysworld_scheme \<Rightarrow>
     (int \<times> int option \<times> cpudev \<times> 'a sysworld_scheme) option" where
  "PWR_GetSleepState E P obj s d w =
     do {
       (tmpret, _, d, w) \<leftarrow> init_cstate_limits E P obj s d w;
       if tmpret \<noteq> PWR_RET_SUCCESS then Some (PWR_RET_FAILURE, None, d, w)
       else do {
         (status, v, _, w) \<leftarrow> PWR_ObjAttrGetValue P obj PWR_ATTR_CSTATE_LIMIT False s w;
         if status \<noteq> PWR_RET_SUCCESS then Some (status, None, d, w)
         else
           let tmpret = map_cs_to_ss d (int_of_uint64 (case v of Some x \<Rightarrow> x | None \<Rightarrow> 0)) in
           if tmpret = - 1 then Some (status, None, d, w)
           else Some (PWR_RET_SUCCESS, Some tmpret, d, w)
       }
     }"

definition PWR_SetSleepStateLimit ::
  "penv \<Rightarrow> 'a sysworld_scheme plugin \<Rightarrow> key \<Rightarrow> int \<Rightarrow> lib \<Rightarrow> cpudev \<Rightarrow> 'a sysworld_scheme \<Rightarrow>
     (int \<times> cpudev \<times> 'a sysworld_scheme) option" where
  "PWR_SetSleepStateLimit E P obj sstate s d w =
     do {
       (tmpret, _, d, w) \<leftarrow> init_cstate_limits E P obj s d w;
       if tmpret \<noteq> PWR_RET_SUCCESS then Some (PWR_RET_FAILURE, d, w)
       else do {
         cstate \<leftarrow> map_ss_to_cs d sstate;
         if cstate = - 1 then Some (PWR_RET_FAILURE, d, w)
         else do {
           (status, w) \<leftarrow> PWR_ObjAttrSetValue P obj PWR_ATTR_CSTATE_LIMIT (word_of_int cstate) s w;
           Some (status, d, w)
         }
       }
     }"

definition PWR_WakeUpLatency ::
  "penv \<Rightarrow> 'a sysworld_scheme plugin \<Rightarrow> key \<Rightarrow> int \<Rightarrow> lib \<Rightarrow> cpudev \<Rightarrow> 'a sysworld_scheme \<Rightarrow>
     (int \<times> PWR_Time option \<times> cpudev \<times> 'a sysworld_scheme) option" where
  "PWR_WakeUpLatency E P obj sstate s d w =
     do {
       (tmpret, vals, d, w) \<leftarrow> init_cstate_limits E P obj s d w;
       if tmpret \<noteq> PWR_RET_SUCCESS then Some (PWR_RET_FAILURE, None, d, w)
       else do {
         cstate \<leftarrow> map_ss_to_cs d sstate;
         if cstate = - 1 then Some (PWR_RET_FAILURE, None, d, w)
         else do {
           (_, lats) \<leftarrow> vals;
           l \<leftarrow> array_at lats cstate;
           Some (PWR_RET_SUCCESS, Some (word_of_int l), d, w)
         }
       }
     }"

text \<open>
  The loop from sleep state \<open>i\<close> downwards. The comparison is unsigned. -1 when no state is left.
\<close>

fun recommend_loop :: "cpudev \<Rightarrow> int list option \<Rightarrow> PWR_Time \<Rightarrow> nat \<Rightarrow> int option" where
  "recommend_loop d lats latency 0 = Some (- 1)"
| "recommend_loop d lats latency (Suc i) =
     do {
       cstate \<leftarrow> map_ss_to_cs d (int i);
       if cstate = - 1 then recommend_loop d lats latency i
       else do {
         ls \<leftarrow> lats;
         l \<leftarrow> array_at ls cstate;
         if word_of_int l \<le> latency then Some (int i) else recommend_loop d lats latency i
       }
     }"

definition PWR_RecommendSleepState ::
  "penv \<Rightarrow> 'a sysworld_scheme plugin \<Rightarrow> key \<Rightarrow> PWR_Time \<Rightarrow> lib \<Rightarrow> cpudev \<Rightarrow> 'a sysworld_scheme \<Rightarrow>
     (int \<times> int option \<times> cpudev \<times> 'a sysworld_scheme) option" where
  "PWR_RecommendSleepState E P obj latency s d w =
     do {
       (tmpret, vals, d, w) \<leftarrow> init_cstate_limits E P obj s d w;
       if tmpret \<noteq> PWR_RET_SUCCESS then Some (PWR_RET_FAILURE, None, d, w)
       else do {
         i \<leftarrow> recommend_loop d (map_option snd vals) latency PWR_NUM_SLEEP_STATES;
         Some (PWR_RET_SUCCESS, Some i, d, w)
       }
     }"

text \<open>The index of the first frequency that equals \<open>freq\<close>, -1 if there is none.\<close>

fun find_freq :: "double list \<Rightarrow> double \<Rightarrow> int \<Rightarrow> int" where
  "find_freq [] freq i = - 1"
| "find_freq (f # fs) freq i = (if dbl_eq freq f then i else find_freq fs freq (i + 1))"

definition PWR_GetPerfState ::
  "'w plugin \<Rightarrow> key \<Rightarrow> lib \<Rightarrow> cpudev \<Rightarrow> 'w \<Rightarrow> (int \<times> int option \<times> cpudev \<times> 'w) option" where
  "PWR_GetPerfState P obj s d w =
     do {
       (tmpret, vals, d, w) \<leftarrow> init_freqs P obj s d w;
       if tmpret \<noteq> PWR_RET_SUCCESS then Some (PWR_RET_FAILURE, None, d, w)
       else do {
         (status, v, _, w) \<leftarrow> PWR_ObjAttrGetValue P obj PWR_ATTR_FREQ False s w;
         if status \<noteq> PWR_RET_SUCCESS then Some (status, None, d, w)
         else
           let freq = (case v of Some x \<Rightarrow> x | None \<Rightarrow> 0);
               freq_idx = (case vals of None \<Rightarrow> - 1 | Some (n, fs) \<Rightarrow> find_freq (take (nat n) fs) freq 0);
               tmpret = map_freq_to_ps d freq_idx in
           if tmpret = - 1 then Some (status, None, d, w)
           else Some (PWR_RET_SUCCESS, Some tmpret, d, w)
       }
     }"

definition PWR_SetPerfState ::
  "'w plugin \<Rightarrow> key \<Rightarrow> int \<Rightarrow> lib \<Rightarrow> cpudev \<Rightarrow> 'w \<Rightarrow> (int \<times> cpudev \<times> 'w) option" where
  "PWR_SetPerfState P obj pstate s d w =
     do {
       (tmpret, vals, d, w) \<leftarrow> init_freqs P obj s d w;
       if tmpret \<noteq> PWR_RET_SUCCESS then Some (PWR_RET_FAILURE, d, w)
       else do {
         freq_idx \<leftarrow> map_ps_to_freq d pstate;
         if freq_idx = - 1 then Some (PWR_RET_FAILURE, d, w)
         else do {
           (status, w) \<leftarrow> PWR_ObjAttrSetValue P obj PWR_ATTR_GOV (word_of_int PWR_GOV_LINUX_USERSPACE) s w;
           if status \<noteq> PWR_RET_SUCCESS then Some (status, d, w)
           else do {
             (_, fs) \<leftarrow> vals;
             freq \<leftarrow> array_at fs freq_idx;
             (status, w) \<leftarrow> PWR_ObjAttrSetValue P obj PWR_ATTR_FREQ_REQ freq s w;
             Some (status, d, w)
           }
         }
       }
     }"

subsection \<open>The tables\<close>

text \<open>Both tables are the same function of the number of values: five increasing indices.\<close>

lemma init_ps_to_freq_eq: "init_ps_to_freq n = init_ss_to_cs n"
  by (simp only: init_ps_to_freq_def init_ss_to_cs_def)

lemma spread_table:
  assumes "1 \<le> n"
  obtains a b c where "init_ss_to_cs n = [0, a, b, c, n - 1]" "0 \<le> a" "a \<le> b" "b \<le> c" "c \<le> n - 1"
proof (cases "n > 1")
  case False
  with assms have "init_ss_to_cs n = [0, 0, 0, 0, n - 1]" by (simp add: init_ss_to_cs_def numeral_eq_Suc)
  then show ?thesis by (rule that) (use assms in simp_all)
next
  case True
  define jump where "jump = (n - 2) div 3"
  have jump: "3 * jump \<le> n - 2" unfolding jump_def by simp
  show ?thesis
  proof (cases "jump < 1")
    case False
    then have "init_ss_to_cs n = [0, jump, jump * 2, jump * 3, n - 1]"
      using True by (simp add: init_ss_to_cs_def jump_def [symmetric] Let_def numeral_eq_Suc)
    then show ?thesis by (rule that) (use False jump in simp_all)
  next
    case small: True
    have "init_ss_to_cs n = [0, 1, 1, if n = 4 then 2 else 1, n - 1]"
      using True small by (simp add: init_ss_to_cs_def jump_def [symmetric] Let_def numeral_eq_Suc)
    then show ?thesis by (rule that) (use True in auto)
  qed
qed

definition state_table :: "int \<Rightarrow> int list \<Rightarrow> bool" where
  "state_table n t \<longleftrightarrow> length t = 5 \<and> sorted t \<and> t ! 0 = 0 \<and> t ! 4 = n - 1"

lemma init_state_table: "1 \<le> n \<Longrightarrow> state_table n (init_ss_to_cs n)"
  by (erule spread_table) (simp add: state_table_def numeral_eq_Suc)

lemma first_at_least_spec:
  assumes "0 \<le> i"
  shows "first_at_least ts x i = - 1 \<and> (\<forall>t \<in> set ts. t < x) \<or>
    (\<exists>j < length ts. first_at_least ts x i = i + int j \<and> x \<le> ts ! j \<and> (\<forall>k < j. ts ! k < x))"
  using assms
proof (induction ts arbitrary: i)
  case (Cons t ts)
  show ?case
  proof (cases "x \<le> t")
    case True
    then show ?thesis by (intro disjI2 exI [of _ 0]) simp
  next
    case False
    from Cons.IH [of "i + 1"] Cons.prems consider
        "first_at_least ts x (i + 1) = - 1" "\<forall>t \<in> set ts. t < x"
      | j where "j < length ts" "first_at_least ts x (i + 1) = i + 1 + int j" "x \<le> ts ! j" "\<forall>k < j. ts ! k < x" by auto
    then show ?thesis
    proof cases
      case 2
      have "\<forall>k < Suc j. (t # ts) ! k < x" using 2(4) False by (auto simp: less_Suc_eq_0_disj)
      then show ?thesis using 2 False by (intro disjI2 exI [of _ "Suc j"]) simp
    qed (use False in simp)
  qed
qed simp

text \<open>Searching a table from the bottom is the lower adjoint of reading it.\<close>

lemma first_at_least_table:
  assumes "state_table n t" "x < n"
  obtains j where "first_at_least t x 0 = int j" "j < 5" "x \<le> t ! j" "\<forall>k < j. t ! k < x"
proof -
  from assms(1) have t: "length t = 5" "t ! 4 = n - 1" by (simp_all add: state_table_def)
  then have "n - 1 \<in> set t" using nth_mem [of 4 t] by simp
  with assms(2) have "\<not> (\<forall>y \<in> set t. y < x)" by (auto intro!: bexI [of _ "n - 1"])
  with first_at_least_spec [of 0 t x] t(1) show ?thesis by (auto intro: that)
qed

lemma table_adjoint:
  assumes "state_table n t" "x < n"
  obtains j where "first_at_least t x 0 = int j" "j < 5" "\<And>k. k < 5 \<Longrightarrow> j \<le> k \<longleftrightarrow> x \<le> t ! k"
proof -
  from assms(1) have t: "length t = 5" "sorted t" by (simp_all add: state_table_def)
  from first_at_least_table [OF assms] obtain j where
    j: "first_at_least t x 0 = int j" "j < 5" "x \<le> t ! j" "\<forall>k < j. t ! k < x" .
  have "j \<le> k \<longleftrightarrow> x \<le> t ! k" if "k < 5" for k
    using sorted_nth_mono [OF t(2), of j k] j(3,4) that t(1) by (cases "j \<le> k") (simp, simp add: not_le)
  with j(1,2) show ?thesis by (rule that)
qed

definition cpudev_ok :: "cpudev \<Rightarrow> bool" where
  "cpudev_ok d \<longleftrightarrow>
     (\<forall>lats. latencies d = Some lats \<longrightarrow>
        1 \<le> num_cstates d \<and> int (length lats) = num_cstates d \<and> state_table (num_cstates d) (ss_to_cs d)) \<and>
     (\<forall>fs. freqs d = Some fs \<longrightarrow>
        1 \<le> num_freqs d \<and> int (length fs) = num_freqs d \<and> state_table (num_freqs d) (ps_to_freq d))"

lemma read_latencies_length: "read_latencies E i k w = Some (PWR_RET_SUCCESS, lats, w') \<Longrightarrow> length lats = k"
proof (induction k arbitrary: i w lats w')
  case (Suc k)
  from Suc.prems obtain path where p: "cstate_latency_path E i = Some path" by (auto split: bind_splits)
  obtain r v t w1 where "read_val_from_file (pe_lib E) (Some (take 79 path)) TYPE_UINT64 False w = (r, v, t, w1)"
    by (metis prod_cases4)
  with Suc.prems p show ?case by (auto dest: Suc.IH split: prod.splits if_splits bind_splits)
qed simp

lemma read_freqs_length: "read_freqs P obj k s w = Some (PWR_RET_SUCCESS, fs, w') \<Longrightarrow> length fs = k"
  by (induction k arbitrary: w fs w') (auto split: prod.splits if_splits)

lemma cpudev_init_ok: "cpudev_ok cpudev_init"
  by (simp add: cpudev_ok_def cpudev_init_def)

lemma init_cstate_limits_ok:
  assumes "cpudev_ok d" "init_cstate_limits E P obj s d w = Some (r, vals, d', w')"
  shows "cpudev_ok d'"
  using assms
  by (auto simp: init_cstate_limits_def cpudev_ok_def Let_def init_state_table
      dest!: read_latencies_length split: option.splits prod.splits if_splits bind_splits)

lemma init_freqs_ok:
  assumes "cpudev_ok d" "init_freqs P obj s d w = Some (r, vals, d', w')"
  shows "cpudev_ok d'"
  using assms
  by (auto simp: init_freqs_def cpudev_ok_def Let_def init_state_table init_ps_to_freq_eq
      dest!: read_freqs_length split: option.splits prod.splits if_splits)

subsection \<open>Sleep states\<close>

lemma array_at_nth: "i < length xs \<Longrightarrow> array_at xs (int i) = Some (xs ! i)"
  by (simp add: array_at_def)

text \<open>
  C27. Once the idle states are known, sleep states and idle states are mapped to each other
  as an adjoint pair: \<^verbatim>\<open>PWR_SLEEP_NO\<close> is idle state 0 and \<^verbatim>\<open>PWR_SLEEP_DEEPEST\<close> the deepest one, a
  deeper sleep state is never mapped to a shallower idle state, and an idle state is reported
  as the first sleep state that is at least as deep.
\<close>

theorem sleep_states_adjoint:
  assumes "cpudev_ok d" "latencies d = Some lats" "0 \<le> cs" "cs < num_cstates d"
  shows "map_ss_to_cs d PWR_SLEEP_NO = Some 0 \<and> map_ss_to_cs d PWR_SLEEP_DEEPEST = Some (num_cstates d - 1) \<and>
    map_cs_to_ss d cs \<in> {PWR_SLEEP_NO .. PWR_SLEEP_DEEPEST} \<and>
    (\<forall>ss \<in> {PWR_SLEEP_NO .. PWR_SLEEP_DEEPEST}. \<exists>c. map_ss_to_cs d ss = Some c \<and> 0 \<le> c \<and> c < num_cstates d \<and>
       (map_cs_to_ss d cs \<le> ss \<longleftrightarrow> cs \<le> c))"
proof -
  from assms(1,2) have t: "state_table (num_cstates d) (ss_to_cs d)" by (simp add: cpudev_ok_def)
  then have t5: "length (ss_to_cs d) = 5" "sorted (ss_to_cs d)" "ss_to_cs d ! 0 = 0" "ss_to_cs d ! 4 = num_cstates d - 1"
    by (simp_all add: state_table_def)
  from table_adjoint [OF t assms(4)] obtain j where
    j: "map_cs_to_ss d cs = int j" "j < 5" "\<And>k. k < 5 \<Longrightarrow> j \<le> k \<longleftrightarrow> cs \<le> ss_to_cs d ! k"
    by (auto simp: map_cs_to_ss_def)
  have "\<exists>c. map_ss_to_cs d ss = Some c \<and> 0 \<le> c \<and> c < num_cstates d \<and> (map_cs_to_ss d cs \<le> ss \<longleftrightarrow> cs \<le> c)"
    if "ss \<in> {0 .. 4}" for ss
  proof -
    define k where "k = nat ss"
    have k: "ss = int k" "k < 5" using that by (auto simp: k_def)
    have "ss_to_cs d ! 0 \<le> ss_to_cs d ! k" "ss_to_cs d ! k \<le> ss_to_cs d ! 4"
      using sorted_nth_mono [OF t5(2), of 0 k] sorted_nth_mono [OF t5(2), of k 4] k(2) t5(1) by simp_all
    then show ?thesis using k t5 j(1) j(3) [OF k(2)] by (simp add: map_ss_to_cs_def array_at_nth)
  qed
  then show ?thesis using t5 j(1,2) by (auto simp: map_ss_to_cs_def array_at_def)
qed

text \<open>
  C26. Once the idle states are known, the recommended sleep state is the deepest one whose wake-up latency
  does not exceed the given one; if all of them take longer, the call succeeds with the invalid state. The
  comment in the code promises the state with the largest latency that does not exceed the given one: that is what
  the call gives when the latencies do not decrease from sleep state to sleep state, but not otherwise.
\<close>

theorem recommended_sleep_state:
  assumes "cpudev_ok d" "latencies d = Some lats"
  defines "lat \<equiv> \<lambda>ss :: nat. word_of_int (lats ! nat (ss_to_cs d ! ss)) :: PWR_Time"
  shows "\<exists>i. PWR_RecommendSleepState E P obj latency s d w = Some (PWR_RET_SUCCESS, Some i, d, w) \<and>
    (i = PWR_SLEEP_INVALID \<and> (\<forall>ss < PWR_NUM_SLEEP_STATES. latency < lat ss) \<or>
     (\<exists>ss < PWR_NUM_SLEEP_STATES. i = int ss \<and> lat ss \<le> latency \<and> (\<forall>k < PWR_NUM_SLEEP_STATES. ss < k \<longrightarrow> latency < lat k) \<and>
        ((\<forall>j k. j \<le> k \<and> k < PWR_NUM_SLEEP_STATES \<longrightarrow> lat j \<le> lat k) \<longrightarrow>
           (\<forall>k < PWR_NUM_SLEEP_STATES. lat k \<le> latency \<longrightarrow> lat k \<le> lat ss))))"
proof -
  from assms(1,2) have t: "length (ss_to_cs d) = 5" "sorted (ss_to_cs d)" "ss_to_cs d ! 0 = 0"
    "ss_to_cs d ! 4 = num_cstates d - 1" "int (length lats) = num_cstates d" by (simp_all add: cpudev_ok_def state_table_def)
  have entry: "map_ss_to_cs d (int k) = Some (ss_to_cs d ! k) \<and> ss_to_cs d ! k \<noteq> - 1 \<and>
    array_at lats (ss_to_cs d ! k) = Some (lats ! nat (ss_to_cs d ! k))" if "k < 5" for k
  proof -
    have "ss_to_cs d ! 0 \<le> ss_to_cs d ! k" "ss_to_cs d ! k \<le> ss_to_cs d ! 4"
      using sorted_nth_mono [OF t(2), of 0 k] sorted_nth_mono [OF t(2), of k 4] that t(1) by simp_all
    then show ?thesis using t that by (simp add: map_ss_to_cs_def array_at_nth array_at_def)
  qed
  have "\<exists>i. recommend_loop d (Some lats) latency n = Some i \<and>
    (i = - 1 \<and> (\<forall>ss < n. latency < lat ss) \<or> (\<exists>ss < n. i = int ss \<and> lat ss \<le> latency \<and> (\<forall>k < n. ss < k \<longrightarrow> latency < lat k)))"
    if "n \<le> 5" for n
    using that
  proof (induction n)
    case (Suc n)
    then have e: "map_ss_to_cs d (int n) = Some (ss_to_cs d ! n)" "ss_to_cs d ! n \<noteq> - 1"
      "array_at lats (ss_to_cs d ! n) = Some (lats ! nat (ss_to_cs d ! n))" using entry [of n] by simp_all
    show ?case
    proof (cases "lat n \<le> latency")
      case True
      then show ?thesis using e by (auto simp: lat_def)
    next
      case False
      then have step: "recommend_loop d (Some lats) latency (Suc n) = recommend_loop d (Some lats) latency n"
        using e by (simp add: lat_def)
      from Suc obtain i where "recommend_loop d (Some lats) latency n = Some i"
        "i = - 1 \<and> (\<forall>ss < n. latency < lat ss) \<or> (\<exists>ss < n. i = int ss \<and> lat ss \<le> latency \<and> (\<forall>k < n. ss < k \<longrightarrow> latency < lat k))"
        by auto
      with False show ?thesis unfolding step by (auto simp: less_Suc_eq not_le)
    qed
  qed simp
  from this [of 5] obtain i where i: "recommend_loop d (Some lats) latency 5 = Some i"
    "i = - 1 \<and> (\<forall>ss < 5. latency < lat ss) \<or> (\<exists>ss < 5. i = int ss \<and> lat ss \<le> latency \<and> (\<forall>k < 5. ss < k \<longrightarrow> latency < lat k))"
    by auto
  have "PWR_RecommendSleepState E P obj latency s d w = Some (PWR_RET_SUCCESS, Some i, d, w)"
    using i(1) assms(2) by (simp add: PWR_RecommendSleepState_def init_cstate_limits_def del: recommend_loop.simps)
  moreover have "lat k \<le> lat ss" if "\<forall>j k. j \<le> k \<and> k < 5 \<longrightarrow> lat j \<le> lat k" "k < 5" "lat k \<le> latency"
    "\<forall>k < 5. ss < k \<longrightarrow> latency < lat k" "ss < 5" for k ss
  proof (cases "k \<le> ss")
    case True
    with that(1,5) show ?thesis by blast
  next
    case False
    with that(2,4) have "latency < lat k" by simp
    with that(3) show ?thesis by simp
  qed
  then have "\<exists>ss < 5. i = int ss \<and> lat ss \<le> latency \<and> (\<forall>k < 5. ss < k \<longrightarrow> latency < lat k) \<and>
      ((\<forall>j k. j \<le> k \<and> k < 5 \<longrightarrow> lat j \<le> lat k) \<longrightarrow> (\<forall>k < 5. lat k \<le> latency \<longrightarrow> lat k \<le> lat ss))"
    if "ss < 5" "i = int ss" "lat ss \<le> latency" "\<forall>k < 5. ss < k \<longrightarrow> latency < lat k" for ss
    using that by (intro exI [of _ ss]) simp
  ultimately show ?thesis using i(2) by auto
qed

text \<open>Idle states whose latencies decrease: the deepest state is recommended, although state 1 has a larger latency that is not above 60.\<close>

lemma recommended_state_not_largest:
  "recommend_loop (cpudev_init\<lparr>ss_to_cs := init_ss_to_cs 5\<rparr>) (Some [0, 50, 10, 20, 30]) 60 PWR_NUM_SLEEP_STATES =
     Some PWR_SLEEP_DEEPEST"
  by code_simp

subsection \<open>Performance states\<close>

lemma find_freq_spec:
  assumes "0 \<le> i"
  shows "find_freq fs f i = - 1 \<and> (\<forall>x \<in> set fs. \<not> dbl_eq f x) \<or>
    (\<exists>j < length fs. find_freq fs f i = i + int j \<and> dbl_eq f (fs ! j) \<and> (\<forall>k < j. \<not> dbl_eq f (fs ! k)))"
  using assms
proof (induction fs arbitrary: i)
  case (Cons g fs)
  show ?case
  proof (cases "dbl_eq f g")
    case True
    then show ?thesis by (intro disjI2 exI [of _ 0]) simp
  next
    case False
    from Cons.IH [of "i + 1"] Cons.prems consider
        "find_freq fs f (i + 1) = - 1" "\<forall>x \<in> set fs. \<not> dbl_eq f x"
      | j where "j < length fs" "find_freq fs f (i + 1) = i + 1 + int j" "dbl_eq f (fs ! j)" "\<forall>k < j. \<not> dbl_eq f (fs ! k)" by auto
    then show ?thesis
    proof cases
      case 2
      have "\<forall>k < Suc j. \<not> dbl_eq f ((g # fs) ! k)" using 2(4) False by (auto simp: less_Suc_eq_0_disj)
      then show ?thesis using 2 False by (intro disjI2 exI [of _ "Suc j"]) simp
    qed (use False in simp)
  qed
qed simp

text \<open>
  The performance state that is reported for the current frequency is the first one whose
  frequency is not higher, if the current frequency is one of the list. A frequency that is not
  in the list, however low, is reported as \<^verbatim>\<open>PWR_PERF_FASTEST\<close>.
\<close>

theorem perf_state_of_frequency:
  assumes "cpudev_ok d" "freqs d = Some fs"
    and "PWR_ObjAttrGetValue P obj PWR_ATTR_FREQ False s w = Some (PWR_RET_SUCCESS, Some f, ts, w')"
  shows "\<exists>ps. PWR_GetPerfState P obj s d w = Some (PWR_RET_SUCCESS, Some ps, d, w') \<and>
    ((\<forall>x \<in> set fs. \<not> dbl_eq f x) \<and> ps = PWR_PERF_FASTEST \<or>
     (\<exists>i < length fs. dbl_eq f (fs ! i) \<and> (\<forall>k < i. \<not> dbl_eq f (fs ! k)) \<and>
        (\<forall>p < PWR_NUM_PERF_STATES. \<exists>c. map_ps_to_freq d (int p) = Some c \<and> (ps \<le> int p \<longleftrightarrow> int i \<le> c))))"
proof -
  from assms(1,2) have t: "state_table (num_freqs d) (ps_to_freq d)" and n: "int (length fs) = num_freqs d" "1 \<le> num_freqs d"
    by (simp_all add: cpudev_ok_def)
  from t have t5: "length (ps_to_freq d) = 5" by (simp add: state_table_def)
  define idx where "idx = find_freq fs f 0"
  have "take (nat (num_freqs d)) fs = fs" using n(1) by simp
  then have call: "PWR_GetPerfState P obj s d w =
      (if map_freq_to_ps d idx = - 1 then Some (PWR_RET_SUCCESS, None, d, w')
       else Some (PWR_RET_SUCCESS, Some (map_freq_to_ps d idx), d, w'))"
    using assms(2,3) by (simp add: PWR_GetPerfState_def init_freqs_def idx_def Let_def)
  from find_freq_spec [of 0 fs f] consider
      "idx = - 1" "\<forall>x \<in> set fs. \<not> dbl_eq f x"
    | i where "i < length fs" "idx = int i" "dbl_eq f (fs ! i)" "\<forall>k < i. \<not> dbl_eq f (fs ! k)" by (auto simp: idx_def)
  then show ?thesis
  proof cases
    case 1
    from t have "map_freq_to_ps d idx = 0" using 1(1)
      by (cases "ps_to_freq d") (auto simp: map_freq_to_ps_def state_table_def)
    with 1(2) call show ?thesis by simp
  next
    case 2
    with n have "idx < num_freqs d" by simp
    from table_adjoint [OF t this] obtain j where
      j: "map_freq_to_ps d idx = int j" "\<And>k. k < 5 \<Longrightarrow> j \<le> k \<longleftrightarrow> idx \<le> ps_to_freq d ! k"
      by (auto simp: map_freq_to_ps_def)
    have "\<forall>p < PWR_NUM_PERF_STATES. \<exists>c. map_ps_to_freq d (int p) = Some c \<and> (int j \<le> int p \<longleftrightarrow> int i \<le> c)"
      using j(2) t5 2(2) by (simp add: map_ps_to_freq_def array_at_nth)
    with 2 j(1) call show ?thesis by auto
  qed
qed

subsection \<open>Examples\<close>

definition example_cpudev :: cpudev where
  "example_cpudev =
     \<lparr>ss_to_cs = init_ss_to_cs 6, latencies = Some [0, 2, 10, 40, 133, 600], num_cstates = 6,
      ps_to_freq = init_ps_to_freq 3, freqs = Some [dbl_of_uint64 3000, dbl_of_uint64 2000, dbl_of_uint64 1000], num_freqs = 3\<rparr>"

lemma example_cpudev_ok: "cpudev_ok example_cpudev"
  using init_state_table [of 6] init_state_table [of 3]
  by (simp add: cpudev_ok_def example_cpudev_def init_ps_to_freq_eq)

theorem sleep_states_adjoint_witness:
  "map_ss_to_cs example_cpudev PWR_SLEEP_NO = Some 0 \<and> map_ss_to_cs example_cpudev PWR_SLEEP_DEEPEST = Some 5 \<and>
   map_cs_to_ss example_cpudev 4 \<in> {PWR_SLEEP_NO .. PWR_SLEEP_DEEPEST}"
  using sleep_states_adjoint [OF example_cpudev_ok, of "[0, 2, 10, 40, 133, 600]" 4] by (simp add: example_cpudev_def)

theorem recommended_sleep_state_witness:
  "\<forall>E P obj s w. \<exists>i. PWR_RecommendSleepState E (P :: sysworld plugin) obj 50 s example_cpudev w =
     Some (PWR_RET_SUCCESS, Some i, example_cpudev, w) \<and> i \<noteq> PWR_SLEEP_INVALID"
proof (intro allI)
  fix E :: penv and P :: "sysworld plugin" and obj s w
  have lats: "latencies example_cpudev = Some [0, 2, 10, 40, 133, 600]" by (simp add: example_cpudev_def)
  have zero: "word_of_int ([0, 2, 10, 40, 133, 600] ! nat (ss_to_cs example_cpudev ! 0)) = (0 :: PWR_Time)"
    by (simp add: example_cpudev_def init_ss_to_cs_def Let_def)
  from recommended_sleep_state [OF example_cpudev_ok lats, of E P obj 50 s w] obtain i where
    i: "PWR_RecommendSleepState E P obj 50 s example_cpudev w = Some (PWR_RET_SUCCESS, Some i, example_cpudev, w)"
    and "i = PWR_SLEEP_INVALID \<longrightarrow> 50 < (word_of_int ([0, 2, 10, 40, 133, 600] ! nat (ss_to_cs example_cpudev ! 0)) :: PWR_Time)"
    by fastforce
  then have "i \<noteq> PWR_SLEEP_INVALID" unfolding zero by auto
  with i show "\<exists>i. PWR_RecommendSleepState E P obj 50 s example_cpudev w = Some (PWR_RET_SUCCESS, Some i, example_cpudev, w) \<and>
    i \<noteq> PWR_SLEEP_INVALID" by blast
qed

definition example_ht_lib :: lib where
  "example_ht_lib = example_lib\<lparr>objs := (objs example_lib)(2 \<mapsto>
     \<lparr>obj_type = PWR_OBJ_HT, obj_os_id = 0, obj_name = ''ht.0'', obj_gnode = None\<rparr>)\<rparr>"

definition example_freq_plugin :: "unit plugin" where
  "example_freq_plugin =
     \<lparr>p_get = (\<lambda>_ _ w. (PWR_RET_SUCCESS, Some (dbl_of_uint64 1500), None, w)), p_set = (\<lambda>_ _ _ _ w. (PWR_RET_SUCCESS, w)),
      p_get_meta = (\<lambda>_ _ _ w. (PWR_RET_NO_META, None, w)), p_set_meta = (\<lambda>_ _ _ _ _ w. (PWR_RET_READ_ONLY, w)),
      p_get_meta_at_index = (\<lambda>_ _ _ w. (PWR_RET_NO_ATTRIB, None, None, w)), p_clock = (\<lambda>w. (None, w))\<rparr>"

text \<open>A processor that runs at 1500 while the list has 3000, 2000 and 1000.\<close>

lemma dbl_of_uint64_neq:
  assumes "unat a < 2 ^ 53" "unat b < 2 ^ 53" "a \<noteq> b" "a \<noteq> 0"
  shows "\<not> dbl_eq (dbl_of_uint64 a) (dbl_of_uint64 b)"
proof -
  have "dbl_units (dbl_of_uint64 a) \<noteq> 0"
    using dbl_of_nat_units(1) [OF assms(1)] assms(4) by (simp add: dbl_of_uint64_def unat_eq_0)
  moreover have "dbl_of_uint64 a \<noteq> dbl_of_uint64 b"
    using uint64_of_dbl_of_uint64 [OF assms(1)] uint64_of_dbl_of_uint64 [OF assms(2)] assms(3) by metis
  ultimately show ?thesis by (simp add: dbl_eq_def)
qed

theorem perf_state_of_frequency_witness:
  "PWR_GetPerfState example_freq_plugin example_node example_ht_lib example_cpudev () =
     Some (PWR_RET_SUCCESS, Some PWR_PERF_FASTEST, example_cpudev, ())"
proof -
  let ?fs = "[dbl_of_uint64 3000, dbl_of_uint64 2000, dbl_of_uint64 1000]"
  have key: "OPAQUE_GET_DATA_KEY example_node = 2" by code_simp
  have "lookup_object example_ht_lib 2 = Some (Some 2)" by code_simp
  then have read: "PWR_ObjAttrGetValue example_freq_plugin example_node PWR_ATTR_FREQ False example_ht_lib () =
      Some (PWR_RET_SUCCESS, Some (dbl_of_uint64 1500), None, ())"
    using key by (simp add: PWR_ObjAttrGetValue_def example_ht_lib_def example_freq_plugin_def obj_attr_get_value_def ht_attr_get_value_def)
  have fs: "freqs example_cpudev = Some ?fs" by (simp add: example_cpudev_def)
  have neq: "\<forall>x \<in> set ?fs. \<not> dbl_eq (dbl_of_uint64 1500) x" by (simp add: dbl_of_uint64_neq)
  then have "\<not> dbl_eq (dbl_of_uint64 1500) (?fs ! i)" if "i < length ?fs" for i using that nth_mem by blast
  with perf_state_of_frequency [OF example_cpudev_ok fs read] show ?thesis by blast
qed

end
