(* ===== verification/X86_Objects.thy ===== *)
theory X86_Objects
  imports X86_Common
begin

text \<open>
  The objects of the x86 plugin: reading and setting their attributes and metadata
  (\<^verbatim>\<open>x86_obj_ht.c\<close>, \<^verbatim>\<open>_core\<close>, \<^verbatim>\<open>_node\<close>, \<^verbatim>\<open>_pplane\<close>, \<^verbatim>\<open>_socket\<close>, \<^verbatim>\<open>_mem\<close>). The structures of
  \<^verbatim>\<open>lib/object.h\<close> embed \<^verbatim>\<open>obj_t\<close> as their first member, so they are extensions of that record.
\<close>

subsection \<open>Structures (object.h, x86_obj.h)\<close>

record x86_socket_t =
  xs_rapl_pkg_id :: "64 word"
  xs_temp_id :: "64 word"
  xs_temp_input :: "string option"
  xs_temp_max :: "string option"
  xs_power_time_window_meta :: PWR_Time

record x86_mem_t =
  xm_rapl_pkg_id :: "64 word"
  xm_rapl_mem_id :: "64 word"
  xm_power_time_window_meta :: PWR_Time

record x86_core_t =
  xc_temp_id :: "64 word"
  xc_temp_input :: "string option"
  xc_temp_max :: "string option"

text \<open>The last field says whether the table of functions has been set.\<close>

record node_t = obj_t +
  node_plugin_data :: "unit option"
  node_ops :: bool

record socket_t = obj_t +
  socket_ht_id :: "64 word"
  socket_plugin_data :: "x86_socket_t option"
  socket_ops :: bool

record mem_t = obj_t +
  mem_ht_id :: "64 word"
  mem_plugin_data :: "x86_mem_t option"
  mem_ops :: bool

record pplane_t = obj_t +
  pplane_sub_type :: int
  pplane_ops :: bool

record core_t = obj_t +
  core_socket_id :: "64 word"
  core_plugin_data :: "x86_core_t option"
  core_ops :: bool

record ht_t = obj_t +
  ht_ops :: bool

text \<open>A request to the daemon, through the table of functions of the connection.\<close>

type_synonym 'w x86_set = "(int \<times> ipc_t \<times> 'w) option"

definition ipc_set_uint64 ::
  "ipc_t \<Rightarrow> int \<Rightarrow> int \<Rightarrow> int \<Rightarrow> 64 word \<Rightarrow> string \<Rightarrow> 'a ipcworld_scheme \<Rightarrow> 'a ipcworld_scheme x86_set" where
  "ipc_set_uint64 ipc otype attr meta v path w =
     (if ipc_ops ipc then ipc_socket_set_uint64 ipc otype attr meta v path w else None)"

subsection \<open>Hardware threads (x86_obj_ht.c)\<close>

text \<open>A frequency is stored as an integer in its file and handed out as a double.\<close>

definition x86_ht_get_freq :: "penv \<Rightarrow> ht_t \<Rightarrow> bool \<Rightarrow> 'a sysworld_scheme \<Rightarrow> 'a sysworld_scheme x86_get" where
  "x86_ht_get_freq E ht want_ts w =
     (case path_fmt E ''ht_freq_path'' [ArgLu (obj_os_id ht)] of
        None \<Rightarrow> Some (PWR_RET_FAILURE, None, None, w)
      | Some path \<Rightarrow> Some (read_scaled E (Some path) dbl_of_uint64 want_ts w))"

definition x86_ht_get_freq_req :: "penv \<Rightarrow> ht_t \<Rightarrow> bool \<Rightarrow> 'a sysworld_scheme \<Rightarrow> 'a sysworld_scheme x86_get" where
  "x86_ht_get_freq_req E ht want_ts w =
     (case path_fmt E ''ht_freq_req_path'' [ArgLu (obj_os_id ht)] of
        None \<Rightarrow> Some (PWR_RET_FAILURE, None, None, w)
      | Some path \<Rightarrow> Some (read_scaled E (Some path) dbl_of_uint64 want_ts w))"

definition x86_ht_get_freq_limit_min :: "penv \<Rightarrow> ht_t \<Rightarrow> bool \<Rightarrow> 'a sysworld_scheme \<Rightarrow> 'a sysworld_scheme x86_get" where
  "x86_ht_get_freq_limit_min E ht want_ts w =
     (case path_fmt E ''ht_freq_limit_min_path'' [ArgLu (obj_os_id ht)] of
        None \<Rightarrow> Some (PWR_RET_FAILURE, None, None, w)
      | Some path \<Rightarrow> Some (read_scaled E (Some path) dbl_of_uint64 want_ts w))"

definition x86_ht_get_freq_limit_max :: "penv \<Rightarrow> ht_t \<Rightarrow> bool \<Rightarrow> 'a sysworld_scheme \<Rightarrow> 'a sysworld_scheme x86_get" where
  "x86_ht_get_freq_limit_max E ht want_ts w =
     (case path_fmt E ''ht_freq_limit_max_path'' [ArgLu (obj_os_id ht)] of
        None \<Rightarrow> Some (PWR_RET_FAILURE, None, None, w)
      | Some path \<Rightarrow> Some (read_scaled E (Some path) dbl_of_uint64 want_ts w))"

definition x86_ht_set_freq_req :: "penv \<Rightarrow> ht_t \<Rightarrow> ipc_t \<Rightarrow> double \<Rightarrow> 'a ipcworld_scheme \<Rightarrow> 'a ipcworld_scheme x86_set" where
  "x86_ht_set_freq_req E ht ipc v w =
     (case path_fmt E ''ht_freq_req_path'' [ArgLu (obj_os_id ht)] of
        None \<Rightarrow> Some (PWR_RET_FAILURE, ipc, w)
      | Some path \<Rightarrow>
          (case convert_double_to_uint64 (pe_lib E) v of
             (retval, None) \<Rightarrow> Some (retval, ipc, w)
           | (retval, Some ivalue) \<Rightarrow>
               ipc_set_uint64 ipc PWR_OBJ_HT PWR_ATTR_FREQ_REQ PWR_MD_NOT_SPECIFIED ivalue path w))"

definition x86_ht_set_freq_limit_min :: "penv \<Rightarrow> ht_t \<Rightarrow> ipc_t \<Rightarrow> double \<Rightarrow> 'a ipcworld_scheme \<Rightarrow> 'a ipcworld_scheme x86_set" where
  "x86_ht_set_freq_limit_min E ht ipc v w =
     (case path_fmt E ''ht_freq_limit_min_path'' [ArgLu (obj_os_id ht)] of
        None \<Rightarrow> Some (PWR_RET_FAILURE, ipc, w)
      | Some path \<Rightarrow>
          (case convert_double_to_uint64 (pe_lib E) v of
             (retval, None) \<Rightarrow> Some (retval, ipc, w)
           | (retval, Some ivalue) \<Rightarrow>
               ipc_set_uint64 ipc PWR_OBJ_HT PWR_ATTR_FREQ_LIMIT_MIN PWR_MD_NOT_SPECIFIED ivalue path w))"

definition x86_ht_set_freq_limit_max :: "penv \<Rightarrow> ht_t \<Rightarrow> ipc_t \<Rightarrow> double \<Rightarrow> 'a ipcworld_scheme \<Rightarrow> 'a ipcworld_scheme x86_set" where
  "x86_ht_set_freq_limit_max E ht ipc v w =
     (case path_fmt E ''ht_freq_limit_max_path'' [ArgLu (obj_os_id ht)] of
        None \<Rightarrow> Some (PWR_RET_FAILURE, ipc, w)
      | Some path \<Rightarrow>
          (case convert_double_to_uint64 (pe_lib E) v of
             (retval, None) \<Rightarrow> Some (retval, ipc, w)
           | (retval, Some ivalue) \<Rightarrow>
               ipc_set_uint64 ipc PWR_OBJ_HT PWR_ATTR_FREQ_LIMIT_MAX PWR_MD_NOT_SPECIFIED ivalue path w))"

definition x86_ht_get_governor :: "penv \<Rightarrow> ht_t \<Rightarrow> bool \<Rightarrow> 'a sysworld_scheme \<Rightarrow> 'a sysworld_scheme x86_get" where
  "x86_ht_get_governor E ht want_ts w =
     (case path_fmt E ''ht_governor_path'' [ArgLu (obj_os_id ht)] of
        None \<Rightarrow> Some (PWR_RET_FAILURE, None, None, w)
      | Some path \<Rightarrow>
          (case read_string_from_file (pe_lib E) (Some path) want_ts w of
             (retval, buf, ts, w) \<Rightarrow>
               Some (retval, if retval = PWR_RET_SUCCESS then map_option (\<lambda>b. word_of_int (pwr_string_to_gov b)) buf else None, ts, w)))"

definition x86_ht_set_governor :: "penv \<Rightarrow> ht_t \<Rightarrow> ipc_t \<Rightarrow> 64 word \<Rightarrow> 'a ipcworld_scheme \<Rightarrow> 'a ipcworld_scheme x86_set" where
  "x86_ht_set_governor E ht ipc v w =
     (case path_fmt E ''ht_governor_path'' [ArgLu (obj_os_id ht)] of
        None \<Rightarrow> Some (PWR_RET_FAILURE, ipc, w)
      | Some path \<Rightarrow> ipc_set_uint64 ipc PWR_OBJ_HT PWR_ATTR_GOV PWR_MD_NOT_SPECIFIED v path w)"

text \<open>The loop over the states from \<open>i\<close> on, with \<open>k\<close> states left: the status, the value of \<open>i\<close> at the end, and the last time stamp.\<close>

fun cstate_limit_loop ::
  "penv \<Rightarrow> ht_t \<Rightarrow> bool \<Rightarrow> 64 word \<Rightarrow> nat \<Rightarrow> timespec option \<Rightarrow> 'a sysworld_scheme \<Rightarrow> int \<times> 64 word \<times> timespec option \<times> 'a sysworld_scheme" where
  "cstate_limit_loop E ht want_ts i 0 ts w = (PWR_RET_SUCCESS, i, ts, w)"
| "cstate_limit_loop E ht want_ts i (Suc k) ts w =
     (case path_fmt E ''ht_cstate_limit_path'' [ArgLu (obj_os_id ht), ArgLu i] of
        None \<Rightarrow> (PWR_RET_FAILURE, i, ts, w)
      | Some path \<Rightarrow>
          (case read_uint64_from_file (pe_lib E) (Some path) want_ts w of
             (retval, disable, ts2, w) \<Rightarrow>
               let ts = (case ts2 of None \<Rightarrow> ts | Some t \<Rightarrow> Some t) in
               if retval \<noteq> PWR_RET_SUCCESS then (retval, i, ts, w)
               else if disable \<noteq> 0 then (PWR_RET_SUCCESS, i, ts, w)
               else cstate_limit_loop E ht want_ts (i + 1) k ts w))"

definition x86_ht_get_cstate_limit :: "penv \<Rightarrow> ht_t \<Rightarrow> bool \<Rightarrow> 'a sysworld_scheme \<Rightarrow> 'a sysworld_scheme x86_get" where
  "x86_ht_get_cstate_limit E ht want_ts w =
     (case path_fmt E ''ht_cstate_path'' [ArgLu (obj_os_id ht)] of
        None \<Rightarrow> Some (PWR_RET_FAILURE, None, None, w)
      | Some path \<Rightarrow>
          (case opendir path w of
             (None, w) \<Rightarrow> Some (PWR_RET_FAILURE, None, None, w)
           | (Some entries, w) \<Rightarrow>
               let num_cstates = length (filter (\<lambda>(d_name, is_dir). is_dir \<and> take 5 d_name = ''state'') entries) in
               (case cstate_limit_loop E ht want_ts 1 (num_cstates - 1) None w of
                  (retval, i, ts, w) \<Rightarrow>
                    Some (retval, if retval = PWR_RET_SUCCESS then Some (i - 1) else None, ts, w))))"

definition x86_ht_set_cstate_limit :: "penv \<Rightarrow> ht_t \<Rightarrow> ipc_t \<Rightarrow> 64 word \<Rightarrow> 'a ipcworld_scheme \<Rightarrow> 'a ipcworld_scheme x86_set" where
  "x86_ht_set_cstate_limit E ht ipc v w =
     (case path_fmt E ''ht_cstate_path'' [ArgLu (obj_os_id ht)] of
        None \<Rightarrow> Some (PWR_RET_FAILURE, ipc, w)
      | Some path \<Rightarrow> ipc_set_uint64 ipc PWR_OBJ_HT PWR_ATTR_CSTATE_LIMIT PWR_MD_NOT_SPECIFIED v path w)"

definition time_ht_get_u64_op ::
  "ht_t \<Rightarrow> (ht_t \<Rightarrow> bool \<Rightarrow> 'a sysworld_scheme \<Rightarrow> 'a sysworld_scheme x86_get) \<Rightarrow> 'a sysworld_scheme \<Rightarrow> 'a sysworld_scheme x86_meta" where
  "time_ht_get_u64_op ht get_u64_op w = time_get_op (get_u64_op ht) w"

definition time_ht_get_dbl_op ::
  "ht_t \<Rightarrow> (ht_t \<Rightarrow> bool \<Rightarrow> 'a sysworld_scheme \<Rightarrow> 'a sysworld_scheme x86_get) \<Rightarrow> 'a sysworld_scheme \<Rightarrow> 'a sysworld_scheme x86_meta" where
  "time_ht_get_dbl_op ht get_dbl_op w = time_get_op (get_dbl_op ht) w"

definition x86_ht_cstate_limit_get_meta :: "penv \<Rightarrow> x86_metadata_t \<Rightarrow> ht_t \<Rightarrow> int \<Rightarrow> 'a sysworld_scheme \<Rightarrow> 'a sysworld_scheme x86_meta" where
  "x86_ht_cstate_limit_get_meta E md ht meta w =
     (if meta = PWR_MD_NUM then Some (PWR_RET_SUCCESS, Some (MetaWord (of_nat (lu_num (md_ht_cstate md)))), w)
      else if meta = PWR_MD_MIN then Some (PWR_RET_SUCCESS, Some (MetaWord (lu_min (md_ht_cstate md))), w)
      else if meta = PWR_MD_MAX then Some (PWR_RET_SUCCESS, Some (MetaWord (lu_max (md_ht_cstate md))), w)
      else if meta = PWR_MD_UPDATE_RATE then Some (PWR_RET_SUCCESS, Some (MetaWord 0), w)
      else if meta = PWR_MD_TS_LATENCY then Some (PWR_RET_SUCCESS, Some (MetaWord 0), w)
      else if meta = PWR_MD_TS_ACCURACY then time_ht_get_u64_op ht (x86_ht_get_cstate_limit E) w
      else if meta = PWR_MD_VALUE_LEN then Some (PWR_RET_SUCCESS, Some (MetaWord (of_nat (lu_value_len (md_ht_cstate md)))), w)
      else if meta = PWR_MD_MEASURE_METHOD then Some (PWR_RET_SUCCESS, Some (MetaWord 0), w)
      else Some (PWR_RET_NO_META, None, w))"

definition x86_ht_freq_get_meta :: "penv \<Rightarrow> x86_metadata_t \<Rightarrow> ht_t \<Rightarrow> int \<Rightarrow> 'a sysworld_scheme \<Rightarrow> 'a sysworld_scheme x86_meta" where
  "x86_ht_freq_get_meta E md ht meta w =
     (if meta = PWR_MD_NUM then Some (PWR_RET_SUCCESS, Some (MetaWord (of_nat (ld_num (md_ht_freq md)))), w)
      else if meta = PWR_MD_MIN then Some (PWR_RET_SUCCESS, Some (MetaWord (ld_min (md_ht_freq md))), w)
      else if meta = PWR_MD_MAX then Some (PWR_RET_SUCCESS, Some (MetaWord (ld_max (md_ht_freq md))), w)
      else if meta = PWR_MD_UPDATE_RATE then Some (PWR_RET_SUCCESS, Some (MetaWord 0), w)
      else if meta = PWR_MD_TS_LATENCY then Some (PWR_RET_SUCCESS, Some (MetaWord 0), w)
      else if meta = PWR_MD_TS_ACCURACY then time_ht_get_dbl_op ht (x86_ht_get_freq E) w
      else if meta = PWR_MD_VALUE_LEN then Some (PWR_RET_SUCCESS, Some (MetaWord (of_nat (ld_value_len (md_ht_freq md)))), w)
      else if meta = PWR_MD_MEASURE_METHOD then Some (PWR_RET_SUCCESS, Some (MetaWord 0), w)
      else Some (PWR_RET_NO_META, None, w))"

definition x86_ht_freq_req_get_meta :: "penv \<Rightarrow> x86_metadata_t \<Rightarrow> ht_t \<Rightarrow> int \<Rightarrow> 'a sysworld_scheme \<Rightarrow> 'a sysworld_scheme x86_meta" where
  "x86_ht_freq_req_get_meta E md ht meta w =
     (if meta = PWR_MD_NUM then Some (PWR_RET_SUCCESS, Some (MetaWord (of_nat (ld_num (md_ht_freq md)))), w)
      else if meta = PWR_MD_MIN then Some (PWR_RET_SUCCESS, Some (MetaWord (ld_min (md_ht_freq md))), w)
      else if meta = PWR_MD_MAX then Some (PWR_RET_SUCCESS, Some (MetaWord (ld_max (md_ht_freq md))), w)
      else if meta = PWR_MD_UPDATE_RATE then Some (PWR_RET_SUCCESS, Some (MetaWord 0), w)
      else if meta = PWR_MD_TS_LATENCY then Some (PWR_RET_SUCCESS, Some (MetaWord 0), w)
      else if meta = PWR_MD_TS_ACCURACY then time_ht_get_dbl_op ht (x86_ht_get_freq_req E) w
      else if meta = PWR_MD_VALUE_LEN then Some (PWR_RET_SUCCESS, Some (MetaWord (of_nat (ld_value_len (md_ht_freq md)))), w)
      else if meta = PWR_MD_MEASURE_METHOD then Some (PWR_RET_SUCCESS, Some (MetaWord 0), w)
      else Some (PWR_RET_NO_META, None, w))"

definition x86_ht_freq_limit_min_get_meta :: "penv \<Rightarrow> x86_metadata_t \<Rightarrow> ht_t \<Rightarrow> int \<Rightarrow> 'a sysworld_scheme \<Rightarrow> 'a sysworld_scheme x86_meta" where
  "x86_ht_freq_limit_min_get_meta E md ht meta w =
     (if meta = PWR_MD_NUM then Some (PWR_RET_SUCCESS, Some (MetaWord (of_nat (ld_num (md_ht_freq md)))), w)
      else if meta = PWR_MD_MIN then Some (PWR_RET_SUCCESS, Some (MetaWord (ld_min (md_ht_freq md))), w)
      else if meta = PWR_MD_MAX then Some (PWR_RET_SUCCESS, Some (MetaWord (ld_max (md_ht_freq md))), w)
      else if meta = PWR_MD_UPDATE_RATE then Some (PWR_RET_SUCCESS, Some (MetaWord 0), w)
      else if meta = PWR_MD_TS_LATENCY then Some (PWR_RET_SUCCESS, Some (MetaWord 0), w)
      else if meta = PWR_MD_TS_ACCURACY then time_ht_get_dbl_op ht (x86_ht_get_freq_limit_min E) w
      else if meta = PWR_MD_VALUE_LEN then Some (PWR_RET_SUCCESS, Some (MetaWord (of_nat (ld_value_len (md_ht_freq md)))), w)
      else if meta = PWR_MD_MEASURE_METHOD then Some (PWR_RET_SUCCESS, Some (MetaWord 0), w)
      else Some (PWR_RET_NO_META, None, w))"

definition x86_ht_freq_limit_max_get_meta :: "penv \<Rightarrow> x86_metadata_t \<Rightarrow> ht_t \<Rightarrow> int \<Rightarrow> 'a sysworld_scheme \<Rightarrow> 'a sysworld_scheme x86_meta" where
  "x86_ht_freq_limit_max_get_meta E md ht meta w =
     (if meta = PWR_MD_NUM then Some (PWR_RET_SUCCESS, Some (MetaWord (of_nat (ld_num (md_ht_freq md)))), w)
      else if meta = PWR_MD_MIN then Some (PWR_RET_SUCCESS, Some (MetaWord (ld_min (md_ht_freq md))), w)
      else if meta = PWR_MD_MAX then Some (PWR_RET_SUCCESS, Some (MetaWord (ld_max (md_ht_freq md))), w)
      else if meta = PWR_MD_UPDATE_RATE then Some (PWR_RET_SUCCESS, Some (MetaWord 0), w)
      else if meta = PWR_MD_TS_LATENCY then Some (PWR_RET_SUCCESS, Some (MetaWord 0), w)
      else if meta = PWR_MD_TS_ACCURACY then time_ht_get_dbl_op ht (x86_ht_get_freq_limit_max E) w
      else if meta = PWR_MD_VALUE_LEN then Some (PWR_RET_SUCCESS, Some (MetaWord (of_nat (ld_value_len (md_ht_freq md)))), w)
      else if meta = PWR_MD_MEASURE_METHOD then Some (PWR_RET_SUCCESS, Some (MetaWord 0), w)
      else Some (PWR_RET_NO_META, None, w))"

definition x86_ht_gov_get_meta :: "penv \<Rightarrow> x86_metadata_t \<Rightarrow> ht_t \<Rightarrow> int \<Rightarrow> 'a sysworld_scheme \<Rightarrow> 'a sysworld_scheme x86_meta" where
  "x86_ht_gov_get_meta E md ht meta w =
     (if meta = PWR_MD_NUM then Some (PWR_RET_SUCCESS, Some (MetaWord (of_nat (ls_num (md_ht_gov md)))), w)
      else if meta = PWR_MD_TS_LATENCY then Some (PWR_RET_SUCCESS, Some (MetaWord 0), w)
      else if meta = PWR_MD_TS_ACCURACY then time_ht_get_u64_op ht (x86_ht_get_governor E) w
      else if meta = PWR_MD_VALUE_LEN then Some (PWR_RET_SUCCESS, Some (MetaWord (of_nat (ls_value_len (md_ht_gov md)))), w)
      else if meta = PWR_MD_MEASURE_METHOD then Some (PWR_RET_SUCCESS, Some (MetaWord 0), w)
      else Some (PWR_RET_NO_META, None, w))"

definition x86_ht_get_meta :: "penv \<Rightarrow> x86_metadata_t \<Rightarrow> ht_t \<Rightarrow> int \<Rightarrow> int \<Rightarrow> 'a sysworld_scheme \<Rightarrow> 'a sysworld_scheme x86_meta" where
  "x86_ht_get_meta E md ht attr meta w =
     (if attr = PWR_ATTR_NOT_SPECIFIED \<or> attr = PWR_ATTR_OS_ID then x86_obj_get_meta md ht attr meta w
      else if attr = PWR_ATTR_CSTATE_LIMIT then x86_ht_cstate_limit_get_meta E md ht meta w
      else if attr = PWR_ATTR_FREQ then x86_ht_freq_get_meta E md ht meta w
      else if attr = PWR_ATTR_FREQ_REQ then x86_ht_freq_req_get_meta E md ht meta w
      else if attr = PWR_ATTR_FREQ_LIMIT_MIN then x86_ht_freq_limit_min_get_meta E md ht meta w
      else if attr = PWR_ATTR_FREQ_LIMIT_MAX then x86_ht_freq_limit_max_get_meta E md ht meta w
      else if attr = PWR_ATTR_GOV then x86_ht_gov_get_meta E md ht meta w
      else Some (PWR_RET_NO_ATTRIB, None, w))"

definition x86_ht_set_meta :: "ht_t \<Rightarrow> ipc_t \<Rightarrow> int \<Rightarrow> int \<Rightarrow> 64 word \<Rightarrow> 'w \<Rightarrow> 'w x86_set" where
  "x86_ht_set_meta ht ipc attr meta v w = Some (PWR_RET_READ_ONLY, ipc, w)"

definition x86_ht_get_meta_at_index ::
  "penv \<Rightarrow> x86_metadata_t \<Rightarrow> ht_t \<Rightarrow> int \<Rightarrow> nat \<Rightarrow> (int \<times> 64 word option \<times> string option) option" where
  "x86_ht_get_meta_at_index E md ht attr index =
     (if attr = PWR_ATTR_CSTATE_LIMIT then pwr_list_value_at_index_uint64 (md_ht_cstate md) index True True
      else if attr = PWR_ATTR_FREQ \<or> attr = PWR_ATTR_FREQ_REQ \<or> attr = PWR_ATTR_FREQ_LIMIT_MIN \<or> attr = PWR_ATTR_FREQ_LIMIT_MAX
      then pwr_list_value_at_index_double (c_print_lf (pe_lib E)) (md_ht_freq md) index True True
      else if attr = PWR_ATTR_GOV then pwr_list_value_at_index_string (md_ht_gov md) index True True (Some pwr_string_to_gov)
      else x86_obj_get_meta_at_index ht attr index)"

subsection \<open>Cores (x86_obj_core.c)\<close>

definition x86_new_core :: "core_t \<Rightarrow> int \<times> core_t" where
  "x86_new_core core =
     (PWR_RET_SUCCESS, core\<lparr>core_plugin_data := Some \<lparr>xc_temp_id = 0, xc_temp_input = None, xc_temp_max = None\<rparr>\<rparr>)"

definition x86_del_core :: "core_t \<Rightarrow> core_t" where
  "x86_del_core core = core\<lparr>core_plugin_data := None\<rparr>"

text \<open>Thousandths of a degree, divided by 1000.\<close>

definition degrees :: "64 word \<Rightarrow> double" where
  "degrees millidegree = dbl_div (dbl_of_uint64 millidegree) (dbl_const 1000 1)"

definition x86_core_get_temp :: "penv \<Rightarrow> core_t \<Rightarrow> bool \<Rightarrow> 'a sysworld_scheme \<Rightarrow> 'a sysworld_scheme x86_get" where
  "x86_core_get_temp E core want_ts w =
     do { x \<leftarrow> core_plugin_data core; Some (read_scaled E (xc_temp_input x) degrees want_ts w) }"

definition time_core_get_dbl_op ::
  "core_t \<Rightarrow> (core_t \<Rightarrow> bool \<Rightarrow> 'a sysworld_scheme \<Rightarrow> 'a sysworld_scheme x86_get) \<Rightarrow> 'a sysworld_scheme \<Rightarrow> 'a sysworld_scheme x86_meta" where
  "time_core_get_dbl_op core get_dbl_op w = time_get_op (get_dbl_op core) w"

definition x86_core_temp_get_meta :: "penv \<Rightarrow> x86_metadata_t \<Rightarrow> core_t \<Rightarrow> int \<Rightarrow> 'a sysworld_scheme \<Rightarrow> 'a sysworld_scheme x86_meta" where
  "x86_core_temp_get_meta E md core meta w =
     (if meta = PWR_MD_NUM then Some (PWR_RET_SUCCESS, Some (MetaWord 0), w)
      else if meta = PWR_MD_MIN then Some (PWR_RET_SUCCESS, Some (MetaWord 0), w)
      else if meta = PWR_MD_MAX then do { x \<leftarrow> core_plugin_data core; meta_from_file E (xc_temp_max x) milli w }
      else if meta = PWR_MD_TS_LATENCY then Some (PWR_RET_SUCCESS, Some (MetaWord 0), w)
      else if meta = PWR_MD_TS_ACCURACY then time_core_get_dbl_op core (x86_core_get_temp E) w
      else if meta = PWR_MD_MEASURE_METHOD then Some (PWR_RET_SUCCESS, Some (MetaWord 0), w)
      else Some (PWR_RET_NO_META, None, w))"

definition x86_core_get_meta :: "penv \<Rightarrow> x86_metadata_t \<Rightarrow> core_t \<Rightarrow> int \<Rightarrow> int \<Rightarrow> 'a sysworld_scheme \<Rightarrow> 'a sysworld_scheme x86_meta" where
  "x86_core_get_meta E md core attr meta w =
     (if attr = PWR_ATTR_NOT_SPECIFIED \<or> attr = PWR_ATTR_OS_ID then x86_obj_get_meta md core attr meta w
      else if attr = PWR_ATTR_TEMP then x86_core_temp_get_meta E md core meta w
      else Some (PWR_RET_NO_ATTRIB, None, w))"

definition x86_core_set_meta :: "core_t \<Rightarrow> ipc_t \<Rightarrow> int \<Rightarrow> int \<Rightarrow> 64 word \<Rightarrow> 'w \<Rightarrow> 'w x86_set" where
  "x86_core_set_meta core ipc attr meta v w = Some (PWR_RET_READ_ONLY, ipc, w)"

definition x86_core_get_meta_at_index :: "core_t \<Rightarrow> int \<Rightarrow> nat \<Rightarrow> (int \<times> 64 word option \<times> string option) option" where
  "x86_core_get_meta_at_index core attr index = x86_obj_get_meta_at_index core attr index"

subsection \<open>Nodes (x86_obj_node.c)\<close>

definition x86_new_node :: "node_t \<Rightarrow> int \<times> node_t" where
  "x86_new_node node = (PWR_RET_SUCCESS, node\<lparr>node_plugin_data := Some ()\<rparr>)"

definition x86_del_node :: "node_t \<Rightarrow> node_t" where
  "x86_del_node node = node\<lparr>node_plugin_data := None\<rparr>"

text \<open>The value is stored whether or not the file could be read.\<close>

definition read_always ::
  "penv \<Rightarrow> string option \<Rightarrow> (64 word \<Rightarrow> 64 word) \<Rightarrow> bool \<Rightarrow> 'a sysworld_scheme \<Rightarrow> int \<times> 64 word option \<times> timespec option \<times> 'a sysworld_scheme" where
  "read_always E path f want_ts w =
     (case read_uint64_from_file (pe_lib E) path want_ts w of (retval, ivalue, ts, w) \<Rightarrow> (retval, Some (f ivalue), ts, w))"

definition x86_node_get_power :: "penv \<Rightarrow> node_t \<Rightarrow> bool \<Rightarrow> 'a sysworld_scheme \<Rightarrow> 'a sysworld_scheme x86_get" where
  "x86_node_get_power E node want_ts w = Some (read_always E (path0 E ''node_power_path'') dbl_of_uint64 want_ts w)"

definition x86_node_get_power_limit_max :: "penv \<Rightarrow> node_t \<Rightarrow> bool \<Rightarrow> 'a sysworld_scheme \<Rightarrow> 'a sysworld_scheme x86_get" where
  "x86_node_get_power_limit_max E node want_ts w = Some (read_always E (path0 E ''node_power_cap_path'') dbl_of_uint64 want_ts w)"

definition x86_node_get_energy :: "penv \<Rightarrow> node_t \<Rightarrow> bool \<Rightarrow> 'a sysworld_scheme \<Rightarrow> 'a sysworld_scheme x86_get" where
  "x86_node_get_energy E node want_ts w = Some (read_always E (path0 E ''node_energy_path'') dbl_of_uint64 want_ts w)"

definition time_node_get_dbl_op ::
  "node_t \<Rightarrow> (node_t \<Rightarrow> bool \<Rightarrow> 'a sysworld_scheme \<Rightarrow> 'a sysworld_scheme x86_get) \<Rightarrow> 'a sysworld_scheme \<Rightarrow> 'a sysworld_scheme x86_meta" where
  "time_node_get_dbl_op node get_dbl_op w = time_get_op (get_dbl_op node) w"

definition x86_node_power_get_meta :: "penv \<Rightarrow> x86_metadata_t \<Rightarrow> node_t \<Rightarrow> int \<Rightarrow> 'a sysworld_scheme \<Rightarrow> 'a sysworld_scheme x86_meta" where
  "x86_node_power_get_meta E md node meta w =
     (if meta = PWR_MD_NUM then Some (PWR_RET_SUCCESS, Some (MetaWord 0), w)
      else if meta = PWR_MD_UPDATE_RATE then Some (PWR_RET_SUCCESS, Some (MetaWord (md_update_rate md)), w)
      else if meta = PWR_MD_TS_LATENCY then Some (PWR_RET_SUCCESS, Some (MetaWord 0), w)
      else if meta = PWR_MD_TS_ACCURACY then time_node_get_dbl_op node (x86_node_get_power E) w
      else if meta = PWR_MD_MEASURE_METHOD then Some (PWR_RET_SUCCESS, Some (MetaWord 0), w)
      else Some (PWR_RET_NO_META, None, w))"

definition x86_node_power_limit_max_get_meta :: "penv \<Rightarrow> x86_metadata_t \<Rightarrow> node_t \<Rightarrow> int \<Rightarrow> 'a sysworld_scheme \<Rightarrow> 'a sysworld_scheme x86_meta" where
  "x86_node_power_limit_max_get_meta E md node meta w =
     (if meta = PWR_MD_NUM then Some (PWR_RET_SUCCESS, Some (MetaWord 0), w)
      else if meta = PWR_MD_UPDATE_RATE then Some (PWR_RET_SUCCESS, Some (MetaWord (md_update_rate md)), w)
      else if meta = PWR_MD_TS_LATENCY then Some (PWR_RET_SUCCESS, Some (MetaWord 0), w)
      else if meta = PWR_MD_TS_ACCURACY then time_node_get_dbl_op node (x86_node_get_power_limit_max E) w
      else if meta = PWR_MD_MEASURE_METHOD then Some (PWR_RET_SUCCESS, Some (MetaWord 0), w)
      else Some (PWR_RET_NO_META, None, w))"

definition x86_node_energy_get_meta :: "penv \<Rightarrow> x86_metadata_t \<Rightarrow> node_t \<Rightarrow> int \<Rightarrow> 'a sysworld_scheme \<Rightarrow> 'a sysworld_scheme x86_meta" where
  "x86_node_energy_get_meta E md node meta w =
     (if meta = PWR_MD_NUM then Some (PWR_RET_SUCCESS, Some (MetaWord 0), w)
      else if meta = PWR_MD_UPDATE_RATE then Some (PWR_RET_SUCCESS, Some (MetaWord (md_update_rate md)), w)
      else if meta = PWR_MD_TS_LATENCY then Some (PWR_RET_SUCCESS, Some (MetaWord 0), w)
      else if meta = PWR_MD_TS_ACCURACY then time_node_get_dbl_op node (x86_node_get_energy E) w
      else if meta = PWR_MD_MEASURE_METHOD then Some (PWR_RET_SUCCESS, Some (MetaWord 0), w)
      else Some (PWR_RET_NO_META, None, w))"

definition x86_node_get_meta :: "penv \<Rightarrow> x86_metadata_t \<Rightarrow> node_t \<Rightarrow> int \<Rightarrow> int \<Rightarrow> 'a sysworld_scheme \<Rightarrow> 'a sysworld_scheme x86_meta" where
  "x86_node_get_meta E md node attr meta w =
     (if attr = PWR_ATTR_NOT_SPECIFIED \<or> attr = PWR_ATTR_OS_ID then x86_obj_get_meta md node attr meta w
      else if attr = PWR_ATTR_POWER then x86_node_power_get_meta E md node meta w
      else if attr = PWR_ATTR_POWER_LIMIT_MAX then x86_node_power_limit_max_get_meta E md node meta w
      else if attr = PWR_ATTR_ENERGY then x86_node_energy_get_meta E md node meta w
      else Some (PWR_RET_NO_ATTRIB, None, w))"

definition x86_node_set_meta :: "node_t \<Rightarrow> ipc_t \<Rightarrow> int \<Rightarrow> int \<Rightarrow> 64 word \<Rightarrow> 'w \<Rightarrow> 'w x86_set" where
  "x86_node_set_meta node ipc attr meta v w = Some (PWR_RET_READ_ONLY, ipc, w)"

definition x86_node_get_meta_at_index :: "node_t \<Rightarrow> int \<Rightarrow> nat \<Rightarrow> (int \<times> 64 word option \<times> string option) option" where
  "x86_node_get_meta_at_index node attr index = x86_obj_get_meta_at_index node attr index"

subsection \<open>Power planes (x86_obj_pplane.c)\<close>

definition x86_pplane_get_power :: "penv \<Rightarrow> pplane_t \<Rightarrow> bool \<Rightarrow> 'a sysworld_scheme \<Rightarrow> 'a sysworld_scheme x86_get" where
  "x86_pplane_get_power E pplane want_ts w =
     (let path =
        (if pplane_sub_type pplane = PWR_OBJ_SOCKET then path0 E ''node_cpu_power_path''
         else if pplane_sub_type pplane = PWR_OBJ_MEM then path0 E ''node_mem_power_path''
         else None) in
      case path of
        None \<Rightarrow> Some (PWR_RET_NOT_IMPLEMENTED, None, None, w)
      | Some p \<Rightarrow>
          (case g_file_test p w of
             (False, w) \<Rightarrow> Some (PWR_RET_NOT_IMPLEMENTED, None, None, w)
           | (True, w) \<Rightarrow> Some (read_always E (Some p) dbl_of_uint64 want_ts w)))"

definition x86_pplane_get_energy :: "penv \<Rightarrow> pplane_t \<Rightarrow> bool \<Rightarrow> 'a sysworld_scheme \<Rightarrow> 'a sysworld_scheme x86_get" where
  "x86_pplane_get_energy E pplane want_ts w =
     (let path =
        (if pplane_sub_type pplane = PWR_OBJ_SOCKET then path0 E ''node_cpu_energy_path''
         else if pplane_sub_type pplane = PWR_OBJ_MEM then path0 E ''node_mem_energy_path''
         else None) in
      case path of
        None \<Rightarrow> Some (PWR_RET_NOT_IMPLEMENTED, None, None, w)
      | Some p \<Rightarrow>
          (case g_file_test p w of
             (False, w) \<Rightarrow> Some (PWR_RET_NOT_IMPLEMENTED, None, None, w)
           | (True, w) \<Rightarrow> Some (read_always E (Some p) dbl_of_uint64 want_ts w)))"

definition time_pplane_get_dbl_op ::
  "pplane_t \<Rightarrow> (pplane_t \<Rightarrow> bool \<Rightarrow> 'a sysworld_scheme \<Rightarrow> 'a sysworld_scheme x86_get) \<Rightarrow> 'a sysworld_scheme \<Rightarrow> 'a sysworld_scheme x86_meta" where
  "time_pplane_get_dbl_op pplane get_dbl_op w = time_get_op (get_dbl_op pplane) w"

definition x86_pplane_power_get_meta :: "penv \<Rightarrow> x86_metadata_t \<Rightarrow> pplane_t \<Rightarrow> int \<Rightarrow> 'a sysworld_scheme \<Rightarrow> 'a sysworld_scheme x86_meta" where
  "x86_pplane_power_get_meta E md pplane meta w =
     (if meta = PWR_MD_NUM then Some (PWR_RET_SUCCESS, Some (MetaWord 0), w)
      else if meta = PWR_MD_UPDATE_RATE then Some (PWR_RET_SUCCESS, Some (MetaWord (md_update_rate md)), w)
      else if meta = PWR_MD_TS_LATENCY then Some (PWR_RET_SUCCESS, Some (MetaWord 0), w)
      else if meta = PWR_MD_TS_ACCURACY then time_pplane_get_dbl_op pplane (x86_pplane_get_power E) w
      else if meta = PWR_MD_MEASURE_METHOD then Some (PWR_RET_SUCCESS, Some (MetaWord 0), w)
      else Some (PWR_RET_NO_META, None, w))"

definition x86_pplane_energy_get_meta :: "penv \<Rightarrow> x86_metadata_t \<Rightarrow> pplane_t \<Rightarrow> int \<Rightarrow> 'a sysworld_scheme \<Rightarrow> 'a sysworld_scheme x86_meta" where
  "x86_pplane_energy_get_meta E md pplane meta w =
     (if meta = PWR_MD_NUM then Some (PWR_RET_SUCCESS, Some (MetaWord 0), w)
      else if meta = PWR_MD_UPDATE_RATE then Some (PWR_RET_SUCCESS, Some (MetaWord (md_update_rate md)), w)
      else if meta = PWR_MD_TS_LATENCY then Some (PWR_RET_SUCCESS, Some (MetaWord 0), w)
      else if meta = PWR_MD_TS_ACCURACY then time_pplane_get_dbl_op pplane (x86_pplane_get_power E) w
      else if meta = PWR_MD_MEASURE_METHOD then Some (PWR_RET_SUCCESS, Some (MetaWord 0), w)
      else Some (PWR_RET_NO_META, None, w))"

definition x86_pplane_get_meta :: "penv \<Rightarrow> x86_metadata_t \<Rightarrow> pplane_t \<Rightarrow> int \<Rightarrow> int \<Rightarrow> 'a sysworld_scheme \<Rightarrow> 'a sysworld_scheme x86_meta" where
  "x86_pplane_get_meta E md pplane attr meta w =
     (if attr = PWR_ATTR_NOT_SPECIFIED \<or> attr = PWR_ATTR_OS_ID then x86_obj_get_meta md pplane attr meta w
      else if attr = PWR_ATTR_POWER then x86_pplane_power_get_meta E md pplane meta w
      else if attr = PWR_ATTR_ENERGY then x86_pplane_energy_get_meta E md pplane meta w
      else Some (PWR_RET_NO_ATTRIB, None, w))"

definition x86_pplane_set_meta :: "pplane_t \<Rightarrow> ipc_t \<Rightarrow> int \<Rightarrow> int \<Rightarrow> 64 word \<Rightarrow> 'w \<Rightarrow> 'w x86_set" where
  "x86_pplane_set_meta pplane ipc attr meta v w = Some (PWR_RET_READ_ONLY, ipc, w)"

definition x86_pplane_get_meta_at_index :: "pplane_t \<Rightarrow> int \<Rightarrow> nat \<Rightarrow> (int \<times> 64 word option \<times> string option) option" where
  "x86_pplane_get_meta_at_index pplane attr index = x86_obj_get_meta_at_index pplane attr index"

end
