(* ===== verification/X86_Rapl.thy ===== *)
theory X86_Rapl
  imports X86_Objects
begin

text \<open>
  Sockets and memory of the x86 plugin (\<^verbatim>\<open>x86_obj_socket.c\<close>, \<^verbatim>\<open>x86_obj_mem.c\<close>), whose values come from
  the RAPL files of the kernel and from model specific registers.
\<close>

text \<open>
  The time window of a power reading: a request is rounded to a multiple of the time between two
  updates of the counters and has to be within ten such times. Without a known time between
  updates the code divides by zero.
\<close>

definition round_window :: "PWR_Time \<Rightarrow> PWR_Time \<Rightarrow> PWR_Time option" where
  "round_window min_val tval = (if min_val = 0 then None else Some (((tval + min_val div 2) div min_val) * min_val))"

subsection \<open>Sockets (x86_obj_socket.c)\<close>

definition x86_new_socket :: "x86_metadata_t \<Rightarrow> socket_t \<Rightarrow> int \<times> socket_t" where
  "x86_new_socket md socket =
     (PWR_RET_SUCCESS, socket\<lparr>socket_plugin_data := Some
        \<lparr>xs_rapl_pkg_id = 0, xs_temp_id = 0, xs_temp_input = None, xs_temp_max = None, xs_power_time_window_meta = md_time_window md\<rparr>\<rparr>)"

definition x86_del_socket :: "socket_t \<Rightarrow> socket_t" where
  "x86_del_socket socket = socket\<lparr>socket_plugin_data := None\<rparr>"

definition x86_socket_get_temp :: "penv \<Rightarrow> socket_t \<Rightarrow> bool \<Rightarrow> 'a sysworld_scheme \<Rightarrow> 'a sysworld_scheme x86_get" where
  "x86_socket_get_temp E socket want_ts w =
     do { x \<leftarrow> socket_plugin_data socket; Some (read_scaled E (xs_temp_input x) degrees want_ts w) }"

definition x86_socket_get_throttled_time :: "penv \<Rightarrow> socket_t \<Rightarrow> bool \<Rightarrow> 'a sysworld_scheme \<Rightarrow> 'a sysworld_scheme x86_get" where
  "x86_socket_get_throttled_time E socket want_ts w =
     Some (x86_get_throttled_time E MSR_PKG_RAPL_PERF_STATUS (socket_ht_id socket) want_ts w)"

definition x86_socket_get_power :: "penv \<Rightarrow> socket_t \<Rightarrow> bool \<Rightarrow> 'a sysworld_scheme \<Rightarrow> 'a sysworld_scheme x86_get" where
  "x86_socket_get_power E socket want_ts w =
     do {
       x \<leftarrow> socket_plugin_data socket;
       case path_fmt E ''rapl_pkg_energy_path'' [ArgLu (xs_rapl_pkg_id x)] of
         None \<Rightarrow> Some (PWR_RET_FAILURE, None, None, w)
       | Some path \<Rightarrow> Some (x86_get_power E (Some path) (xs_power_time_window_meta x) want_ts w)
     }"

definition x86_socket_get_power_limit_max :: "penv \<Rightarrow> socket_t \<Rightarrow> bool \<Rightarrow> 'a sysworld_scheme \<Rightarrow> 'a sysworld_scheme x86_get" where
  "x86_socket_get_power_limit_max E socket want_ts w =
     do {
       x \<leftarrow> socket_plugin_data socket;
       case path_fmt E ''rapl_pkg_power_limit_path'' [ArgLu (xs_rapl_pkg_id x)] of
         None \<Rightarrow> Some (PWR_RET_FAILURE, None, None, w)
       | Some path \<Rightarrow> Some (read_scaled E (Some path) (\<lambda>i. micro (uint64_of_dbl (c_oor (pe_lib E)) (dbl_div (dbl_of_uint64 i) (x86_cpu_power_factor E)))) want_ts w)
     }"

definition x86_socket_set_power_limit_max ::
  "penv \<Rightarrow> socket_t \<Rightarrow> ipc_t \<Rightarrow> double \<Rightarrow> 'a ipcworld_scheme \<Rightarrow> 'a ipcworld_scheme x86_set" where
  "x86_socket_set_power_limit_max E socket ipc v w =
     do {
       x \<leftarrow> socket_plugin_data socket;
       case path_fmt E ''rapl_pkg_power_limit_path'' [ArgLu (xs_rapl_pkg_id x)] of
         None \<Rightarrow> Some (PWR_RET_FAILURE, ipc, w)
       | Some path \<Rightarrow>
           let ivalue = uint64_of_dbl (c_oor (pe_lib E)) (dbl_mul v (dbl_const 1000000 1));
               ivalue = uint64_of_dbl (c_oor (pe_lib E)) (dbl_mul (dbl_of_uint64 ivalue) (x86_cpu_power_factor E)) in
           ipc_set_uint64 ipc PWR_OBJ_SOCKET PWR_ATTR_POWER_LIMIT_MAX PWR_MD_NOT_SPECIFIED ivalue path w
     }"

definition x86_socket_get_energy :: "penv \<Rightarrow> socket_t \<Rightarrow> bool \<Rightarrow> 'a sysworld_scheme \<Rightarrow> 'a sysworld_scheme x86_get" where
  "x86_socket_get_energy E socket want_ts w =
     do {
       x \<leftarrow> socket_plugin_data socket;
       case path_fmt E ''rapl_pkg_energy_path'' [ArgLu (xs_rapl_pkg_id x)] of
         None \<Rightarrow> Some (PWR_RET_FAILURE, None, None, w)
       | Some path \<Rightarrow> Some (read_always E (Some path) micro want_ts w)
     }"

definition time_socket_get_u64_op ::
  "socket_t \<Rightarrow> (socket_t \<Rightarrow> bool \<Rightarrow> 'a sysworld_scheme \<Rightarrow> 'a sysworld_scheme x86_get) \<Rightarrow> 'a sysworld_scheme \<Rightarrow> 'a sysworld_scheme x86_meta" where
  "time_socket_get_u64_op socket get_u64_op w = time_get_op (get_u64_op socket) w"

definition time_socket_get_dbl_op ::
  "socket_t \<Rightarrow> (socket_t \<Rightarrow> bool \<Rightarrow> 'a sysworld_scheme \<Rightarrow> 'a sysworld_scheme x86_get) \<Rightarrow> 'a sysworld_scheme \<Rightarrow> 'a sysworld_scheme x86_meta" where
  "time_socket_get_dbl_op socket get_dbl_op w = time_get_op (get_dbl_op socket) w"

definition x86_socket_power_get_meta :: "penv \<Rightarrow> x86_metadata_t \<Rightarrow> socket_t \<Rightarrow> int \<Rightarrow> 'a sysworld_scheme \<Rightarrow> 'a sysworld_scheme x86_meta" where
  "x86_socket_power_get_meta E md socket meta w =
     (if meta = PWR_MD_NUM then Some (PWR_RET_SUCCESS, Some (MetaWord 0), w)
      else if meta = PWR_MD_UPDATE_RATE then Some (PWR_RET_SUCCESS, Some (MetaWord (md_update_rate md)), w)
      else if meta = PWR_MD_TIME_WINDOW then do { x \<leftarrow> socket_plugin_data socket; Some (PWR_RET_SUCCESS, Some (MetaWord (xs_power_time_window_meta x)), w) }
      else if meta = PWR_MD_TS_LATENCY then Some (PWR_RET_SUCCESS, Some (MetaWord 0), w)
      else if meta = PWR_MD_TS_ACCURACY then time_socket_get_dbl_op socket (x86_socket_get_power E) w
      else if meta = PWR_MD_MEASURE_METHOD then Some (PWR_RET_SUCCESS, Some (MetaWord 0), w)
      else Some (PWR_RET_NO_META, None, w))"

definition x86_socket_power_limit_max_get_meta :: "penv \<Rightarrow> x86_metadata_t \<Rightarrow> socket_t \<Rightarrow> int \<Rightarrow> 'a sysworld_scheme \<Rightarrow> 'a sysworld_scheme x86_meta" where
  "x86_socket_power_limit_max_get_meta E md socket meta w =
     (if meta = PWR_MD_NUM then Some (PWR_RET_SUCCESS, Some (MetaWord 0), w)
      else if meta = PWR_MD_MIN then Some (PWR_RET_SUCCESS, Some (MetaWord 0), w)
      else if meta = PWR_MD_MAX then do { x \<leftarrow> socket_plugin_data socket; meta_from_file E (path_fmt E ''rapl_pkg_power_limit_max_path'' [ArgLu (xs_rapl_pkg_id x)]) micro w }
      else if meta = PWR_MD_TIME_WINDOW then do { x \<leftarrow> socket_plugin_data socket; meta_from_file E (path_fmt E ''rapl_pkg_time_window_path'' [ArgLu (xs_rapl_pkg_id x)]) usec_to_nsec_guarded w }
      else if meta = PWR_MD_TS_LATENCY then Some (PWR_RET_SUCCESS, Some (MetaWord 0), w)
      else if meta = PWR_MD_TS_ACCURACY then time_socket_get_dbl_op socket (x86_socket_get_power_limit_max E) w
      else if meta = PWR_MD_MEASURE_METHOD then Some (PWR_RET_SUCCESS, Some (MetaWord 0), w)
      else Some (PWR_RET_NO_META, None, w))"

definition x86_socket_energy_get_meta :: "penv \<Rightarrow> x86_metadata_t \<Rightarrow> socket_t \<Rightarrow> int \<Rightarrow> 'a sysworld_scheme \<Rightarrow> 'a sysworld_scheme x86_meta" where
  "x86_socket_energy_get_meta E md socket meta w =
     (if meta = PWR_MD_NUM then Some (PWR_RET_SUCCESS, Some (MetaWord 0), w)
      else if meta = PWR_MD_MIN then Some (PWR_RET_SUCCESS, Some (MetaWord 0), w)
      else if meta = PWR_MD_MAX then do { x \<leftarrow> socket_plugin_data socket; meta_from_file E (path_fmt E ''rapl_pkg_energy_max_path'' [ArgLu (xs_rapl_pkg_id x)]) micro w }
      else if meta = PWR_MD_TS_LATENCY then Some (PWR_RET_SUCCESS, Some (MetaWord 0), w)
      else if meta = PWR_MD_TS_ACCURACY then time_socket_get_dbl_op socket (x86_socket_get_energy E) w
      else if meta = PWR_MD_MEASURE_METHOD then Some (PWR_RET_SUCCESS, Some (MetaWord 0), w)
      else Some (PWR_RET_NO_META, None, w))"

definition x86_socket_temp_get_meta :: "penv \<Rightarrow> x86_metadata_t \<Rightarrow> socket_t \<Rightarrow> int \<Rightarrow> 'a sysworld_scheme \<Rightarrow> 'a sysworld_scheme x86_meta" where
  "x86_socket_temp_get_meta E md socket meta w =
     (if meta = PWR_MD_NUM then Some (PWR_RET_SUCCESS, Some (MetaWord 0), w)
      else if meta = PWR_MD_MIN then Some (PWR_RET_SUCCESS, Some (MetaWord 0), w)
      else if meta = PWR_MD_MAX then do { x \<leftarrow> socket_plugin_data socket; meta_from_file E (xs_temp_max x) milli w }
      else if meta = PWR_MD_TS_LATENCY then Some (PWR_RET_SUCCESS, Some (MetaWord 0), w)
      else if meta = PWR_MD_TS_ACCURACY then time_socket_get_dbl_op socket (x86_socket_get_temp E) w
      else if meta = PWR_MD_MEASURE_METHOD then Some (PWR_RET_SUCCESS, Some (MetaWord 0), w)
      else Some (PWR_RET_NO_META, None, w))"

text \<open>\<^verbatim>\<open>1.0 / (1 << time_unit)\<close>; the field has four bits.\<close>

definition time_unit_rate :: "64 word \<Rightarrow> double" where
  "time_unit_rate time_unit = dbl_div (dbl_const 1 1) (dbl_of_int (2 ^ unat time_unit))"

definition x86_socket_throttled_time_get_meta :: "penv \<Rightarrow> x86_metadata_t \<Rightarrow> socket_t \<Rightarrow> int \<Rightarrow> 'a sysworld_scheme \<Rightarrow> 'a sysworld_scheme x86_meta" where
  "x86_socket_throttled_time_get_meta E md socket meta w =
     (if meta = PWR_MD_NUM then Some (PWR_RET_SUCCESS, Some (MetaWord 0), w)
      else if meta = PWR_MD_MIN then Some (PWR_RET_SUCCESS, Some (MetaWord 0), w)
      else if meta = PWR_MD_MAX then Some (PWR_RET_SUCCESS, Some (MetaWord (pwr_usec_to_nsec (push_bit 32 1))), w)
      else if meta = PWR_MD_UPDATE_RATE then (case x86_get_time_unit E (socket_ht_id socket) False w of (status, u, _, w) \<Rightarrow> Some (status, if status = PWR_RET_SUCCESS then map_option (\<lambda>u. MetaWord (time_unit_rate u)) u else None, w))
      else if meta = PWR_MD_TS_LATENCY then Some (PWR_RET_SUCCESS, Some (MetaWord 0), w)
      else if meta = PWR_MD_TS_ACCURACY then time_socket_get_u64_op socket (x86_socket_get_throttled_time E) w
      else if meta = PWR_MD_MEASURE_METHOD then Some (PWR_RET_SUCCESS, Some (MetaWord 0), w)
      else Some (PWR_RET_NO_META, None, w))"

definition x86_socket_get_meta :: "penv \<Rightarrow> x86_metadata_t \<Rightarrow> socket_t \<Rightarrow> int \<Rightarrow> int \<Rightarrow> 'a sysworld_scheme \<Rightarrow> 'a sysworld_scheme x86_meta" where
  "x86_socket_get_meta E md socket attr meta w =
     (if attr = PWR_ATTR_NOT_SPECIFIED \<or> attr = PWR_ATTR_OS_ID then x86_obj_get_meta md socket attr meta w
      else if attr = PWR_ATTR_POWER then x86_socket_power_get_meta E md socket meta w
      else if attr = PWR_ATTR_POWER_LIMIT_MAX then x86_socket_power_limit_max_get_meta E md socket meta w
      else if attr = PWR_ATTR_ENERGY then x86_socket_energy_get_meta E md socket meta w
      else if attr = PWR_ATTR_TEMP then x86_socket_temp_get_meta E md socket meta w
      else if attr = PWR_ATTR_THROTTLED_TIME then x86_socket_throttled_time_get_meta E md socket meta w
      else Some (PWR_RET_NO_ATTRIB, None, w))"

definition x86_socket_power_set_meta ::
  "x86_metadata_t \<Rightarrow> socket_t \<Rightarrow> int \<Rightarrow> 64 word \<Rightarrow> (int \<times> socket_t) option" where
  "x86_socket_power_set_meta md socket meta v =
     (if meta \<in> {PWR_MD_NUM, PWR_MD_MIN, PWR_MD_MAX} then Some (PWR_RET_READ_ONLY, socket)
      else if meta = PWR_MD_TIME_WINDOW then
        do {
          let min_val = md_time_window md;
          let max_val = min_val * MD_TIME_WINDOW_MULTIPLE_MAX;
          rval \<leftarrow> round_window min_val v;
          if rval < min_val \<or> rval > max_val then Some (PWR_RET_OUT_OF_RANGE, socket)
          else do {
            x \<leftarrow> socket_plugin_data socket;
            Some (PWR_RET_SUCCESS, socket\<lparr>socket_plugin_data := Some (x\<lparr>xs_power_time_window_meta := rval\<rparr>)\<rparr>)
          }
        }
      else if meta \<in> {PWR_MD_TS_LATENCY, PWR_MD_TS_ACCURACY, PWR_MD_VENDOR_INFO_LEN, PWR_MD_VENDOR_INFO, PWR_MD_MEASURE_METHOD}
      then Some (PWR_RET_READ_ONLY, socket)
      else Some (PWR_RET_NO_META, socket))"

definition x86_socket_power_limit_max_set_meta ::
  "penv \<Rightarrow> socket_t \<Rightarrow> ipc_t \<Rightarrow> int \<Rightarrow> 64 word \<Rightarrow> 'a ipcworld_scheme \<Rightarrow> 'a ipcworld_scheme x86_set" where
  "x86_socket_power_limit_max_set_meta E socket ipc meta v w =
     (if meta \<in> {PWR_MD_NUM, PWR_MD_MIN, PWR_MD_MAX} then Some (PWR_RET_READ_ONLY, ipc, w)
      else if meta = PWR_MD_TIME_WINDOW then
        do {
          let ival = pwr_nsec_to_usec v;
          x \<leftarrow> socket_plugin_data socket;
          case path_fmt E ''rapl_pkg_time_window_path'' [ArgLu (xs_rapl_pkg_id x)] of
            None \<Rightarrow> Some (PWR_RET_FAILURE, ipc, w)
          | Some path \<Rightarrow> ipc_set_uint64 ipc PWR_OBJ_SOCKET PWR_ATTR_POWER_LIMIT_MAX meta ival path w
        }
      else if meta \<in> {PWR_MD_TS_LATENCY, PWR_MD_TS_ACCURACY, PWR_MD_VENDOR_INFO_LEN, PWR_MD_VENDOR_INFO, PWR_MD_MEASURE_METHOD}
      then Some (PWR_RET_READ_ONLY, ipc, w)
      else Some (PWR_RET_NO_META, ipc, w))"

definition x86_socket_set_meta ::
  "penv \<Rightarrow> x86_metadata_t \<Rightarrow> socket_t \<Rightarrow> ipc_t \<Rightarrow> int \<Rightarrow> int \<Rightarrow> 64 word \<Rightarrow> 'a ipcworld_scheme \<Rightarrow>
   (int \<times> socket_t \<times> ipc_t \<times> 'a ipcworld_scheme) option" where
  "x86_socket_set_meta E md socket ipc attr meta v w =
     (if attr = PWR_ATTR_POWER then do { (status, socket) \<leftarrow> x86_socket_power_set_meta md socket meta v; Some (status, socket, ipc, w) }
      else if attr = PWR_ATTR_POWER_LIMIT_MAX then
        do { (status, ipc, w) \<leftarrow> x86_socket_power_limit_max_set_meta E socket ipc meta v w; Some (status, socket, ipc, w) }
      else Some (PWR_RET_READ_ONLY, socket, ipc, w))"

definition x86_socket_get_meta_at_index :: "socket_t \<Rightarrow> int \<Rightarrow> nat \<Rightarrow> (int \<times> 64 word option \<times> string option) option" where
  "x86_socket_get_meta_at_index socket attr index = x86_obj_get_meta_at_index socket attr index"

subsection \<open>Memory (x86_obj_mem.c)\<close>

definition x86_new_mem :: "x86_metadata_t \<Rightarrow> mem_t \<Rightarrow> int \<times> mem_t" where
  "x86_new_mem md mem =
     (PWR_RET_SUCCESS, mem\<lparr>mem_plugin_data := Some
        \<lparr>xm_rapl_pkg_id = 0, xm_rapl_mem_id = 0, xm_power_time_window_meta = md_time_window md\<rparr>\<rparr>)"

definition x86_del_mem :: "mem_t \<Rightarrow> mem_t" where
  "x86_del_mem mem = mem\<lparr>mem_plugin_data := None\<rparr>"

definition x86_mem_get_throttled_time :: "penv \<Rightarrow> mem_t \<Rightarrow> bool \<Rightarrow> 'a sysworld_scheme \<Rightarrow> 'a sysworld_scheme x86_get" where
  "x86_mem_get_throttled_time E mem want_ts w =
     Some (x86_get_throttled_time E MSR_DDR_RAPL_PERF_STATUS (mem_ht_id mem) want_ts w)"

definition x86_mem_get_power :: "penv \<Rightarrow> mem_t \<Rightarrow> bool \<Rightarrow> 'a sysworld_scheme \<Rightarrow> 'a sysworld_scheme x86_get" where
  "x86_mem_get_power E mem want_ts w =
     do {
       x \<leftarrow> mem_plugin_data mem;
       case path_fmt E ''rapl_sub_energy_path'' [ArgLu (xm_rapl_pkg_id x), ArgLu (xm_rapl_pkg_id x), ArgLu (xm_rapl_mem_id x)] of
         None \<Rightarrow> Some (PWR_RET_FAILURE, None, None, w)
       | Some path \<Rightarrow> Some (x86_get_power E (Some path) (xm_power_time_window_meta x) want_ts w)
     }"

definition x86_mem_get_power_limit_max :: "penv \<Rightarrow> mem_t \<Rightarrow> bool \<Rightarrow> 'a sysworld_scheme \<Rightarrow> 'a sysworld_scheme x86_get" where
  "x86_mem_get_power_limit_max E mem want_ts w =
     do {
       x \<leftarrow> mem_plugin_data mem;
       case path_fmt E ''rapl_sub_power_limit_path'' [ArgLu (xm_rapl_pkg_id x), ArgLu (xm_rapl_pkg_id x), ArgLu (xm_rapl_mem_id x)] of
         None \<Rightarrow> Some (PWR_RET_FAILURE, None, None, w)
       | Some path \<Rightarrow> Some (read_scaled E (Some path) micro want_ts w)
     }"

definition x86_mem_set_power_limit_max ::
  "penv \<Rightarrow> mem_t \<Rightarrow> ipc_t \<Rightarrow> double \<Rightarrow> 'a ipcworld_scheme \<Rightarrow> 'a ipcworld_scheme x86_set" where
  "x86_mem_set_power_limit_max E mem ipc v w =
     do {
       x \<leftarrow> mem_plugin_data mem;
       case path_fmt E ''rapl_sub_power_limit_path'' [ArgLu (xm_rapl_pkg_id x), ArgLu (xm_rapl_pkg_id x), ArgLu (xm_rapl_mem_id x)] of
         None \<Rightarrow> Some (PWR_RET_FAILURE, ipc, w)
       | Some path \<Rightarrow>
           let ivalue = uint64_of_dbl (c_oor (pe_lib E)) (dbl_mul v (dbl_const 1000000 1)) in
           ipc_set_uint64 ipc PWR_OBJ_MEM PWR_ATTR_POWER_LIMIT_MAX PWR_MD_NOT_SPECIFIED ivalue path w
     }"

definition x86_mem_get_energy :: "penv \<Rightarrow> mem_t \<Rightarrow> bool \<Rightarrow> 'a sysworld_scheme \<Rightarrow> 'a sysworld_scheme x86_get" where
  "x86_mem_get_energy E mem want_ts w =
     do {
       x \<leftarrow> mem_plugin_data mem;
       case path_fmt E ''rapl_sub_energy_path'' [ArgLu (xm_rapl_pkg_id x), ArgLu (xm_rapl_pkg_id x), ArgLu (xm_rapl_mem_id x)] of
         None \<Rightarrow> Some (PWR_RET_FAILURE, None, None, w)
       | Some path \<Rightarrow> Some (read_always E (Some path) micro want_ts w)
     }"

definition time_mem_get_u64_op ::
  "mem_t \<Rightarrow> (mem_t \<Rightarrow> bool \<Rightarrow> 'a sysworld_scheme \<Rightarrow> 'a sysworld_scheme x86_get) \<Rightarrow> 'a sysworld_scheme \<Rightarrow> 'a sysworld_scheme x86_meta" where
  "time_mem_get_u64_op mem get_u64_op w = time_get_op (get_u64_op mem) w"

definition time_mem_get_dbl_op ::
  "mem_t \<Rightarrow> (mem_t \<Rightarrow> bool \<Rightarrow> 'a sysworld_scheme \<Rightarrow> 'a sysworld_scheme x86_get) \<Rightarrow> 'a sysworld_scheme \<Rightarrow> 'a sysworld_scheme x86_meta" where
  "time_mem_get_dbl_op mem get_dbl_op w = time_get_op (get_dbl_op mem) w"

definition x86_mem_power_get_meta :: "penv \<Rightarrow> x86_metadata_t \<Rightarrow> mem_t \<Rightarrow> int \<Rightarrow> 'a sysworld_scheme \<Rightarrow> 'a sysworld_scheme x86_meta" where
  "x86_mem_power_get_meta E md mem meta w =
     (if meta = PWR_MD_NUM then Some (PWR_RET_SUCCESS, Some (MetaWord 0), w)
      else if meta = PWR_MD_UPDATE_RATE then Some (PWR_RET_SUCCESS, Some (MetaWord (md_update_rate md)), w)
      else if meta = PWR_MD_TIME_WINDOW then do { x \<leftarrow> mem_plugin_data mem; Some (PWR_RET_SUCCESS, Some (MetaWord (xm_power_time_window_meta x)), w) }
      else if meta = PWR_MD_TS_LATENCY then Some (PWR_RET_SUCCESS, Some (MetaWord 0), w)
      else if meta = PWR_MD_TS_ACCURACY then time_mem_get_dbl_op mem (x86_mem_get_power E) w
      else if meta = PWR_MD_MEASURE_METHOD then Some (PWR_RET_SUCCESS, Some (MetaWord 0), w)
      else Some (PWR_RET_NO_META, None, w))"

definition x86_mem_power_limit_max_get_meta :: "penv \<Rightarrow> x86_metadata_t \<Rightarrow> mem_t \<Rightarrow> int \<Rightarrow> 'a sysworld_scheme \<Rightarrow> 'a sysworld_scheme x86_meta" where
  "x86_mem_power_limit_max_get_meta E md mem meta w =
     (if meta = PWR_MD_NUM then Some (PWR_RET_SUCCESS, Some (MetaWord 0), w)
      else if meta = PWR_MD_MIN then Some (PWR_RET_SUCCESS, Some (MetaWord 0), w)
      else if meta = PWR_MD_MAX then do { x \<leftarrow> mem_plugin_data mem; meta_from_file E (path_fmt E ''rapl_sub_power_limit_max_path'' [ArgLu (xm_rapl_pkg_id x), ArgLu (xm_rapl_pkg_id x), ArgLu (xm_rapl_mem_id x)]) micro w }
      else if meta = PWR_MD_TIME_WINDOW then do { x \<leftarrow> mem_plugin_data mem; meta_from_file E (path_fmt E ''rapl_sub_time_window_path'' [ArgLu (xm_rapl_pkg_id x), ArgLu (xm_rapl_pkg_id x), ArgLu (xm_rapl_mem_id x)]) usec_to_nsec_guarded w }
      else if meta = PWR_MD_TS_LATENCY then Some (PWR_RET_SUCCESS, Some (MetaWord 0), w)
      else if meta = PWR_MD_TS_ACCURACY then time_mem_get_dbl_op mem (x86_mem_get_power_limit_max E) w
      else if meta = PWR_MD_MEASURE_METHOD then Some (PWR_RET_SUCCESS, Some (MetaWord 0), w)
      else Some (PWR_RET_NO_META, None, w))"

definition x86_mem_energy_get_meta :: "penv \<Rightarrow> x86_metadata_t \<Rightarrow> mem_t \<Rightarrow> int \<Rightarrow> 'a sysworld_scheme \<Rightarrow> 'a sysworld_scheme x86_meta" where
  "x86_mem_energy_get_meta E md mem meta w =
     (if meta = PWR_MD_NUM then Some (PWR_RET_SUCCESS, Some (MetaWord 0), w)
      else if meta = PWR_MD_MIN then Some (PWR_RET_SUCCESS, Some (MetaWord 0), w)
      else if meta = PWR_MD_MAX then do { x \<leftarrow> mem_plugin_data mem; meta_from_file E (path_fmt E ''rapl_sub_energy_max_path'' [ArgLu (xm_rapl_pkg_id x), ArgLu (xm_rapl_pkg_id x), ArgLu (xm_rapl_mem_id x)]) micro w }
      else if meta = PWR_MD_TS_LATENCY then Some (PWR_RET_SUCCESS, Some (MetaWord 0), w)
      else if meta = PWR_MD_TS_ACCURACY then time_mem_get_dbl_op mem (x86_mem_get_energy E) w
      else if meta = PWR_MD_MEASURE_METHOD then Some (PWR_RET_SUCCESS, Some (MetaWord 0), w)
      else Some (PWR_RET_NO_META, None, w))"

text \<open>The status is initialised with \<^verbatim>\<open>PWR_RET_NOT_IMPLEMENTED\<close> and not set where a value is stored.\<close>

definition x86_mem_throttled_time_get_meta :: "penv \<Rightarrow> x86_metadata_t \<Rightarrow> mem_t \<Rightarrow> int \<Rightarrow> 'a sysworld_scheme \<Rightarrow> 'a sysworld_scheme x86_meta" where
  "x86_mem_throttled_time_get_meta E md mem meta w =
     (if meta = PWR_MD_NUM then Some (PWR_RET_NOT_IMPLEMENTED, Some (MetaWord 0), w)
      else if meta = PWR_MD_MIN then Some (PWR_RET_NOT_IMPLEMENTED, Some (MetaWord 0), w)
      else if meta = PWR_MD_MAX then Some (PWR_RET_NOT_IMPLEMENTED, Some (MetaWord (pwr_usec_to_nsec (push_bit 32 1))), w)
      else if meta = PWR_MD_UPDATE_RATE then (case x86_get_time_unit E (mem_ht_id mem) False w of (status, u, _, w) \<Rightarrow> Some (status, if status = PWR_RET_SUCCESS then map_option (\<lambda>u. MetaWord (time_unit_rate u)) u else None, w))
      else if meta = PWR_MD_TS_LATENCY then Some (PWR_RET_NOT_IMPLEMENTED, Some (MetaWord 0), w)
      else if meta = PWR_MD_TS_ACCURACY then time_mem_get_u64_op mem (x86_mem_get_throttled_time E) w
      else if meta = PWR_MD_MEASURE_METHOD then Some (PWR_RET_NOT_IMPLEMENTED, Some (MetaWord 0), w)
      else Some (PWR_RET_NO_META, None, w))"

definition x86_mem_get_meta :: "penv \<Rightarrow> x86_metadata_t \<Rightarrow> mem_t \<Rightarrow> int \<Rightarrow> int \<Rightarrow> 'a sysworld_scheme \<Rightarrow> 'a sysworld_scheme x86_meta" where
  "x86_mem_get_meta E md mem attr meta w =
     (if attr = PWR_ATTR_NOT_SPECIFIED \<or> attr = PWR_ATTR_OS_ID then x86_obj_get_meta md mem attr meta w
      else if attr = PWR_ATTR_POWER then x86_mem_power_get_meta E md mem meta w
      else if attr = PWR_ATTR_POWER_LIMIT_MAX then x86_mem_power_limit_max_get_meta E md mem meta w
      else if attr = PWR_ATTR_ENERGY then x86_mem_energy_get_meta E md mem meta w
      else if attr = PWR_ATTR_THROTTLED_TIME then x86_mem_throttled_time_get_meta E md mem meta w
      else Some (PWR_RET_NO_ATTRIB, None, w))"

definition x86_mem_power_set_meta ::
  "x86_metadata_t \<Rightarrow> mem_t \<Rightarrow> int \<Rightarrow> 64 word \<Rightarrow> (int \<times> mem_t) option" where
  "x86_mem_power_set_meta md mem meta v =
     (if meta \<in> {PWR_MD_NUM, PWR_MD_MIN, PWR_MD_MAX} then Some (PWR_RET_READ_ONLY, mem)
      else if meta = PWR_MD_TIME_WINDOW then
        do {
          let min_val = md_time_window md;
          let max_val = min_val * MD_TIME_WINDOW_MULTIPLE_MAX;
          rval \<leftarrow> round_window min_val v;
          if rval < min_val \<or> rval > max_val then Some (PWR_RET_OUT_OF_RANGE, mem)
          else do {
            x \<leftarrow> mem_plugin_data mem;
            Some (PWR_RET_SUCCESS, mem\<lparr>mem_plugin_data := Some (x\<lparr>xm_power_time_window_meta := rval\<rparr>)\<rparr>)
          }
        }
      else if meta \<in> {PWR_MD_TS_LATENCY, PWR_MD_TS_ACCURACY, PWR_MD_VENDOR_INFO_LEN, PWR_MD_VENDOR_INFO, PWR_MD_MEASURE_METHOD}
      then Some (PWR_RET_READ_ONLY, mem)
      else Some (PWR_RET_NO_META, mem))"

definition x86_mem_power_limit_max_set_meta ::
  "penv \<Rightarrow> mem_t \<Rightarrow> ipc_t \<Rightarrow> int \<Rightarrow> 64 word \<Rightarrow> 'a ipcworld_scheme \<Rightarrow> 'a ipcworld_scheme x86_set" where
  "x86_mem_power_limit_max_set_meta E mem ipc meta v w =
     (if meta \<in> {PWR_MD_NUM, PWR_MD_MIN, PWR_MD_MAX} then Some (PWR_RET_READ_ONLY, ipc, w)
      else if meta = PWR_MD_TIME_WINDOW then
        do {
          let ival = pwr_nsec_to_usec v;
          x \<leftarrow> mem_plugin_data mem;
          case path_fmt E ''rapl_sub_time_window_path'' [ArgLu (xm_rapl_pkg_id x), ArgLu (xm_rapl_pkg_id x), ArgLu (xm_rapl_mem_id x)] of
            None \<Rightarrow> Some (PWR_RET_FAILURE, ipc, w)
          | Some path \<Rightarrow> ipc_set_uint64 ipc PWR_OBJ_MEM PWR_ATTR_POWER_LIMIT_MAX meta ival path w
        }
      else if meta \<in> {PWR_MD_TS_LATENCY, PWR_MD_TS_ACCURACY, PWR_MD_VENDOR_INFO_LEN, PWR_MD_VENDOR_INFO, PWR_MD_MEASURE_METHOD}
      then Some (PWR_RET_READ_ONLY, ipc, w)
      else Some (PWR_RET_NO_META, ipc, w))"

definition x86_mem_set_meta ::
  "penv \<Rightarrow> x86_metadata_t \<Rightarrow> mem_t \<Rightarrow> ipc_t \<Rightarrow> int \<Rightarrow> int \<Rightarrow> 64 word \<Rightarrow> 'a ipcworld_scheme \<Rightarrow>
   (int \<times> mem_t \<times> ipc_t \<times> 'a ipcworld_scheme) option" where
  "x86_mem_set_meta E md mem ipc attr meta v w =
     (if attr = PWR_ATTR_POWER then do { (status, mem) \<leftarrow> x86_mem_power_set_meta md mem meta v; Some (status, mem, ipc, w) }
      else if attr = PWR_ATTR_POWER_LIMIT_MAX then
        do { (status, ipc, w) \<leftarrow> x86_mem_power_limit_max_set_meta E mem ipc meta v w; Some (status, mem, ipc, w) }
      else Some (PWR_RET_READ_ONLY, mem, ipc, w))"

definition x86_mem_get_meta_at_index :: "mem_t \<Rightarrow> int \<Rightarrow> nat \<Rightarrow> (int \<times> 64 word option \<times> string option) option" where
  "x86_mem_get_meta_at_index mem attr index = x86_obj_get_meta_at_index mem attr index"

end
