(* ===== verification/X86_Plugin.thy ===== *)
theory X86_Plugin
  imports X86_Rapl
begin

text \<open>
  \<^verbatim>\<open>x86_plugin.c\<close>: the tables of functions, the construction of objects, and the instance of the
  plugin interface of \<open>Objects\<close>. The state of the plugin extends the world of the connection to the
  daemon with the structures of the objects, the shared metadata and the connection of each
  context. When a call would use a missing function, structure or connection, or divide by zero, the
  process is killed; the field \<open>xw_fault\<close> records that.
\<close>

datatype hw_object = HwNode node_t | HwSocket socket_t | HwMem mem_t | HwPplane pplane_t | HwCore core_t | HwHt ht_t

record xworld = ipcworld +
  xw_objs :: "addr \<rightharpoonup> hw_object"
  xw_md :: x86_metadata_t
  xw_ipc :: "addr \<rightharpoonup> ipc_t"
  xw_fault :: bool

subsection \<open>The tables of functions\<close>

text \<open>A member that the table of a type does not have is \<open>None\<close>.\<close>

definition x86_node_ops :: "penv \<Rightarrow> get_op \<Rightarrow> (node_t \<Rightarrow> bool \<Rightarrow> 'a sysworld_scheme \<Rightarrow> 'a sysworld_scheme x86_get) option" where
  "x86_node_ops E op =
     (case op of
        get_power \<Rightarrow> Some (x86_node_get_power E)
      | get_power_limit_max \<Rightarrow> Some (x86_node_get_power_limit_max E)
      | get_energy \<Rightarrow> Some (x86_node_get_energy E)
      | _ \<Rightarrow> None)"

definition x86_socket_ops :: "penv \<Rightarrow> get_op \<Rightarrow> (socket_t \<Rightarrow> bool \<Rightarrow> 'a sysworld_scheme \<Rightarrow> 'a sysworld_scheme x86_get) option" where
  "x86_socket_ops E op =
     (case op of
        get_power \<Rightarrow> Some (x86_socket_get_power E)
      | get_power_limit_max \<Rightarrow> Some (x86_socket_get_power_limit_max E)
      | get_energy \<Rightarrow> Some (x86_socket_get_energy E)
      | get_throttled_time \<Rightarrow> Some (x86_socket_get_throttled_time E)
      | get_temp \<Rightarrow> Some (x86_socket_get_temp E)
      | _ \<Rightarrow> None)"

definition x86_mem_ops :: "penv \<Rightarrow> get_op \<Rightarrow> (mem_t \<Rightarrow> bool \<Rightarrow> 'a sysworld_scheme \<Rightarrow> 'a sysworld_scheme x86_get) option" where
  "x86_mem_ops E op =
     (case op of
        get_power \<Rightarrow> Some (x86_mem_get_power E)
      | get_power_limit_max \<Rightarrow> Some (x86_mem_get_power_limit_max E)
      | get_energy \<Rightarrow> Some (x86_mem_get_energy E)
      | get_throttled_time \<Rightarrow> Some (x86_mem_get_throttled_time E)
      | _ \<Rightarrow> None)"

definition x86_pplane_ops :: "penv \<Rightarrow> get_op \<Rightarrow> (pplane_t \<Rightarrow> bool \<Rightarrow> 'a sysworld_scheme \<Rightarrow> 'a sysworld_scheme x86_get) option" where
  "x86_pplane_ops E op =
     (case op of
        get_power \<Rightarrow> Some (x86_pplane_get_power E)
      | get_energy \<Rightarrow> Some (x86_pplane_get_energy E)
      | _ \<Rightarrow> None)"

definition x86_core_ops :: "penv \<Rightarrow> get_op \<Rightarrow> (core_t \<Rightarrow> bool \<Rightarrow> 'a sysworld_scheme \<Rightarrow> 'a sysworld_scheme x86_get) option" where
  "x86_core_ops E op = (case op of get_temp \<Rightarrow> Some (x86_core_get_temp E) | _ \<Rightarrow> None)"

definition x86_ht_ops :: "penv \<Rightarrow> get_op \<Rightarrow> (ht_t \<Rightarrow> bool \<Rightarrow> 'a sysworld_scheme \<Rightarrow> 'a sysworld_scheme x86_get) option" where
  "x86_ht_ops E op =
     (case op of
        get_cstate_limit \<Rightarrow> Some (x86_ht_get_cstate_limit E)
      | get_freq \<Rightarrow> Some (x86_ht_get_freq E)
      | get_freq_req \<Rightarrow> Some (x86_ht_get_freq_req E)
      | get_freq_limit_min \<Rightarrow> Some (x86_ht_get_freq_limit_min E)
      | get_freq_limit_max \<Rightarrow> Some (x86_ht_get_freq_limit_max E)
      | get_governor \<Rightarrow> Some (x86_ht_get_governor E)
      | _ \<Rightarrow> None)"

text \<open>The functions of the same tables that set a value.\<close>

definition x86_socket_set_ops ::
  "penv \<Rightarrow> set_op \<Rightarrow> (socket_t \<Rightarrow> ipc_t \<Rightarrow> 64 word \<Rightarrow> 'a ipcworld_scheme \<Rightarrow> 'a ipcworld_scheme x86_set) option" where
  "x86_socket_set_ops E op = (case op of set_power_limit_max \<Rightarrow> Some (x86_socket_set_power_limit_max E) | _ \<Rightarrow> None)"

definition x86_mem_set_ops ::
  "penv \<Rightarrow> set_op \<Rightarrow> (mem_t \<Rightarrow> ipc_t \<Rightarrow> 64 word \<Rightarrow> 'a ipcworld_scheme \<Rightarrow> 'a ipcworld_scheme x86_set) option" where
  "x86_mem_set_ops E op = (case op of set_power_limit_max \<Rightarrow> Some (x86_mem_set_power_limit_max E) | _ \<Rightarrow> None)"

definition x86_ht_set_ops ::
  "penv \<Rightarrow> set_op \<Rightarrow> (ht_t \<Rightarrow> ipc_t \<Rightarrow> 64 word \<Rightarrow> 'a ipcworld_scheme \<Rightarrow> 'a ipcworld_scheme x86_set) option" where
  "x86_ht_set_ops E op =
     (case op of
        set_cstate_limit \<Rightarrow> Some (x86_ht_set_cstate_limit E)
      | set_freq_req \<Rightarrow> Some (x86_ht_set_freq_req E)
      | set_freq_limit_min \<Rightarrow> Some (x86_ht_set_freq_limit_min E)
      | set_freq_limit_max \<Rightarrow> Some (x86_ht_set_freq_limit_max E)
      | set_governor \<Rightarrow> Some (x86_ht_set_governor E)
      | _ \<Rightarrow> None)"

subsection \<open>Construction and destruction of objects\<close>

definition x86_construct_node :: "node_t \<Rightarrow> int \<times> node_t" where
  "x86_construct_node node =
     (case x86_new_node node of (r, node) \<Rightarrow> if r \<noteq> 0 then (1, node) else (0, node\<lparr>node_ops := True\<rparr>))"

definition x86_destruct_node :: "node_t \<Rightarrow> int \<times> node_t" where
  "x86_destruct_node node = (0, (x86_del_node node)\<lparr>node_ops := False\<rparr>)"

definition x86_destruct_socket :: "socket_t \<Rightarrow> int \<times> socket_t" where
  "x86_destruct_socket socket = (0, (x86_del_socket socket)\<lparr>socket_ops := False\<rparr>)"

definition x86_construct_socket :: "x86_metadata_t \<Rightarrow> socket_t \<Rightarrow> int \<times> socket_t" where
  "x86_construct_socket md socket =
     (case x86_new_socket md socket of
        (r, socket) \<Rightarrow>
          if r \<noteq> 0 then (PWR_RET_FAILURE, snd (x86_destruct_socket socket)) else (PWR_RET_SUCCESS, socket\<lparr>socket_ops := True\<rparr>))"

definition x86_destruct_mem :: "mem_t \<Rightarrow> int \<times> mem_t" where
  "x86_destruct_mem mem = (0, (x86_del_mem mem)\<lparr>mem_ops := False\<rparr>)"

definition x86_construct_mem :: "x86_metadata_t \<Rightarrow> mem_t \<Rightarrow> int \<times> mem_t" where
  "x86_construct_mem md mem =
     (case x86_new_mem md mem of
        (r, mem) \<Rightarrow>
          if r \<noteq> 0 then (PWR_RET_FAILURE, snd (x86_destruct_mem mem)) else (PWR_RET_SUCCESS, mem\<lparr>mem_ops := True\<rparr>))"

definition x86_construct_pplane :: "pplane_t \<Rightarrow> int \<times> pplane_t" where
  "x86_construct_pplane pplane = (0, pplane\<lparr>pplane_ops := True\<rparr>)"

definition x86_destruct_pplane :: "pplane_t \<Rightarrow> int \<times> pplane_t" where
  "x86_destruct_pplane pplane = (0, pplane\<lparr>pplane_ops := False\<rparr>)"

definition x86_construct_core :: "core_t \<Rightarrow> int \<times> core_t" where
  "x86_construct_core core =
     (case x86_new_core core of (r, core) \<Rightarrow> if r \<noteq> 0 then (1, core) else (0, core\<lparr>core_ops := True\<rparr>))"

definition x86_destruct_core :: "core_t \<Rightarrow> int \<times> core_t" where
  "x86_destruct_core core = (0, (x86_del_core core)\<lparr>core_ops := False\<rparr>)"

definition x86_construct_ht :: "ht_t \<Rightarrow> int \<times> ht_t" where
  "x86_construct_ht ht = (0, ht\<lparr>ht_ops := True\<rparr>)"

definition x86_destruct_ht :: "ht_t \<Rightarrow> int \<times> ht_t" where
  "x86_destruct_ht ht = (0, ht\<lparr>ht_ops := False\<rparr>)"

subsection \<open>The plugin\<close>

definition x86_read :: "penv \<Rightarrow> get_op \<Rightarrow> hw_object \<Rightarrow> xworld \<Rightarrow> xworld x86_get" where
  "x86_read E op h w =
     (case h of
        HwNode n \<Rightarrow> if node_ops n then do { f \<leftarrow> x86_node_ops E op; f n True w } else None
      | HwSocket n \<Rightarrow> if socket_ops n then do { f \<leftarrow> x86_socket_ops E op; f n True w } else None
      | HwMem n \<Rightarrow> if mem_ops n then do { f \<leftarrow> x86_mem_ops E op; f n True w } else None
      | HwPplane n \<Rightarrow> if pplane_ops n then do { f \<leftarrow> x86_pplane_ops E op; f n True w } else None
      | HwCore n \<Rightarrow> if core_ops n then do { f \<leftarrow> x86_core_ops E op; f n True w } else None
      | HwHt n \<Rightarrow> if ht_ops n then do { f \<leftarrow> x86_ht_ops E op; f n True w } else None)"

definition x86_write :: "penv \<Rightarrow> set_op \<Rightarrow> hw_object \<Rightarrow> ipc_t \<Rightarrow> 64 word \<Rightarrow> xworld \<Rightarrow> xworld x86_set" where
  "x86_write E op h ipc v w =
     (case h of
        HwSocket n \<Rightarrow> if socket_ops n then do { f \<leftarrow> x86_socket_set_ops E op; f n ipc v w } else None
      | HwMem n \<Rightarrow> if mem_ops n then do { f \<leftarrow> x86_mem_set_ops E op; f n ipc v w } else None
      | HwHt n \<Rightarrow> if ht_ops n then do { f \<leftarrow> x86_ht_set_ops E op; f n ipc v w } else None
      | _ \<Rightarrow> None)"

definition x86_read_meta :: "penv \<Rightarrow> hw_object \<Rightarrow> int \<Rightarrow> int \<Rightarrow> xworld \<Rightarrow> xworld x86_meta" where
  "x86_read_meta E h attr meta w =
     (case h of
        HwNode n \<Rightarrow> if node_ops n then x86_node_get_meta E (xw_md w) n attr meta w else None
      | HwSocket n \<Rightarrow> if socket_ops n then x86_socket_get_meta E (xw_md w) n attr meta w else None
      | HwMem n \<Rightarrow> if mem_ops n then x86_mem_get_meta E (xw_md w) n attr meta w else None
      | HwPplane n \<Rightarrow> if pplane_ops n then x86_pplane_get_meta E (xw_md w) n attr meta w else None
      | HwCore n \<Rightarrow> if core_ops n then x86_core_get_meta E (xw_md w) n attr meta w else None
      | HwHt n \<Rightarrow> if ht_ops n then x86_ht_get_meta E (xw_md w) n attr meta w else None)"

text \<open>Setting metadata may change the structure of the object.\<close>

definition x86_write_meta ::
  "penv \<Rightarrow> hw_object \<Rightarrow> ipc_t \<Rightarrow> int \<Rightarrow> int \<Rightarrow> 64 word \<Rightarrow> xworld \<Rightarrow> (int \<times> hw_object \<times> ipc_t \<times> xworld) option" where
  "x86_write_meta E h ipc attr meta v w =
     (case h of
        HwNode n \<Rightarrow> if node_ops n then do { (r, ipc, w) \<leftarrow> x86_node_set_meta n ipc attr meta v w; Some (r, h, ipc, w) } else None
      | HwSocket n \<Rightarrow>
          if socket_ops n then do { (r, n, ipc, w) \<leftarrow> x86_socket_set_meta E (xw_md w) n ipc attr meta v w; Some (r, HwSocket n, ipc, w) } else None
      | HwMem n \<Rightarrow>
          if mem_ops n then do { (r, n, ipc, w) \<leftarrow> x86_mem_set_meta E (xw_md w) n ipc attr meta v w; Some (r, HwMem n, ipc, w) } else None
      | HwPplane n \<Rightarrow> if pplane_ops n then do { (r, ipc, w) \<leftarrow> x86_pplane_set_meta n ipc attr meta v w; Some (r, h, ipc, w) } else None
      | HwCore n \<Rightarrow> if core_ops n then do { (r, ipc, w) \<leftarrow> x86_core_set_meta n ipc attr meta v w; Some (r, h, ipc, w) } else None
      | HwHt n \<Rightarrow> if ht_ops n then do { (r, ipc, w) \<leftarrow> x86_ht_set_meta n ipc attr meta v w; Some (r, h, ipc, w) } else None)"

definition x86_meta_at_index :: "penv \<Rightarrow> hw_object \<Rightarrow> int \<Rightarrow> nat \<Rightarrow> xworld \<Rightarrow> (int \<times> 64 word option \<times> string option) option" where
  "x86_meta_at_index E h attr index w =
     (case h of
        HwNode n \<Rightarrow> if node_ops n then x86_node_get_meta_at_index n attr index else None
      | HwSocket n \<Rightarrow> if socket_ops n then x86_socket_get_meta_at_index n attr index else None
      | HwMem n \<Rightarrow> if mem_ops n then x86_mem_get_meta_at_index n attr index else None
      | HwPplane n \<Rightarrow> if pplane_ops n then x86_pplane_get_meta_at_index n attr index else None
      | HwCore n \<Rightarrow> if core_ops n then x86_core_get_meta_at_index n attr index else None
      | HwHt n \<Rightarrow> if ht_ops n then x86_ht_get_meta_at_index E (xw_md w) n attr index else None)"

definition fault :: "xworld \<Rightarrow> xworld" where
  "fault w = w\<lparr>xw_fault := True\<rparr>"

definition x86_plugin :: "penv \<Rightarrow> xworld plugin" where
  "x86_plugin E =
     \<lparr>p_get = (\<lambda>op a w.
        case Option.bind (xw_objs w a) (\<lambda>h. x86_read E op h w) of
          None \<Rightarrow> (PWR_RET_FAILURE, None, None, fault w) | Some r \<Rightarrow> r),
      p_set = (\<lambda>op a c v w.
        case do { h \<leftarrow> xw_objs w a; ipc \<leftarrow> xw_ipc w c; x86_write E op h ipc v w } of
          None \<Rightarrow> (PWR_RET_FAILURE, fault w)
        | Some (r, ipc, w) \<Rightarrow> (r, w\<lparr>xw_ipc := (xw_ipc w)(c \<mapsto> ipc)\<rparr>)),
      p_get_meta = (\<lambda>a attr meta w.
        case Option.bind (xw_objs w a) (\<lambda>h. x86_read_meta E h attr meta w) of
          None \<Rightarrow> (PWR_RET_FAILURE, None, fault w) | Some r \<Rightarrow> r),
      p_set_meta = (\<lambda>a c attr meta v w.
        case do { h \<leftarrow> xw_objs w a; ipc \<leftarrow> xw_ipc w c; x86_write_meta E h ipc attr meta v w } of
          None \<Rightarrow> (PWR_RET_FAILURE, fault w)
        | Some (r, h, ipc, w) \<Rightarrow> (r, w\<lparr>xw_objs := (xw_objs w)(a \<mapsto> h), xw_ipc := (xw_ipc w)(c \<mapsto> ipc)\<rparr>)),
      p_get_meta_at_index = (\<lambda>a attr index w.
        case Option.bind (xw_objs w a) (\<lambda>h. x86_meta_at_index E h attr index w) of
          None \<Rightarrow> (PWR_RET_FAILURE, None, None, fault w) | Some (r, v, str) \<Rightarrow> (r, v, str, w)),
      p_clock = clock_gettime\<rparr>"

end
