(* ===== verification/X86_Properties.thy ===== *)
theory X86_Properties
  imports X86_Plugin Attr_API Object_API Group_Inv Object_Properties
begin

text \<open>
  Properties of the x86 plugin. The first group is about the interface between the library and the
  plugin: the library never asks the plugin for a function that the object's table does
  not have, and no structure is missing.
\<close>

subsection \<open>Reading changes nothing but the position in time\<close>

definition ticked :: "'a sysworld_scheme \<Rightarrow> 'a sysworld_scheme \<Rightarrow> bool" where
  "ticked w w' \<longleftrightarrow> (\<exists>n. w' = w\<lparr>sw_tick := n\<rparr>)"

named_theorems ticked_rules

lemma ticked_refl [ticked_rules]: "ticked w w"
  unfolding ticked_def by (rule exI [of _ "sw_tick w"]) simp

lemma ticked_trans [trans]: "ticked w w' \<Longrightarrow> ticked w' w'' \<Longrightarrow> ticked w w''"
  by (auto simp: ticked_def)

lemma ticked_tick [ticked_rules]: "ticked w (tick w)"
  by (auto simp: ticked_def tick_def)

lemma ticked_clock [ticked_rules]: "clock_gettime w = (t, w') \<Longrightarrow> ticked w w'"
  by (auto simp: clock_gettime_def intro: ticked_rules)

lemma ticked_contents [ticked_rules]: "g_file_get_contents p w = (t, w') \<Longrightarrow> ticked w w'"
  by (auto simp: g_file_get_contents_def intro: ticked_rules split: option.splits)

lemma ticked_test [ticked_rules]: "g_file_test p w = (t, w') \<Longrightarrow> ticked w w'"
  by (auto simp: g_file_test_def intro: ticked_rules)

lemma ticked_opendir [ticked_rules]: "opendir p w = (t, w') \<Longrightarrow> ticked w w'"
  by (auto simp: opendir_def intro: ticked_rules)

lemma ticked_buf [ticked_rules]: "read_val_from_buf L buf type t w = (r, v, ts, w') \<Longrightarrow> ticked w w'"
  by (auto simp: read_val_from_buf_def intro: ticked_rules split: if_splits prod.splits option.splits)

lemma ticked_val [ticked_rules]: "read_val_from_file L p type t w = (r, v, ts, w') \<Longrightarrow> ticked w w'"
  by (auto simp: read_val_from_file_def intro: ticked_rules ticked_trans [OF ticked_contents ticked_buf]
      split: prod.splits option.splits)

lemma ticked_uint64 [ticked_rules]: "read_uint64_from_file L p t w = (r, v, ts, w') \<Longrightarrow> ticked w w'"
  by (auto simp: read_uint64_from_file_def intro: ticked_rules split: prod.splits)

lemma ticked_string [ticked_rules]: "read_string_from_file L p t w = (r, v, ts, w') \<Longrightarrow> ticked w w'"
  by (auto simp: read_string_from_file_def intro: ticked_rules split: prod.splits)

lemma ticked_sleep [ticked_rules]: "pwr_nanosleep d w = (r, w') \<Longrightarrow> ticked w w'"
  by (auto simp: pwr_nanosleep_def intro: ticked_rules ticked_trans [OF ticked_clock ticked_tick]
      split: prod.splits option.splits)

lemma ticked_scaled [ticked_rules]: "read_scaled E p f t w = (r, v, ts, w') \<Longrightarrow> ticked w w'"
  by (auto simp: read_scaled_def intro: ticked_rules split: prod.splits)

lemma ticked_always [ticked_rules]: "read_always E p f t w = (r, v, ts, w') \<Longrightarrow> ticked w w'"
  by (auto simp: read_always_def intro: ticked_rules split: prod.splits)

lemma ticked_unit [ticked_rules]: "x86_get_time_unit E ht t w = (r, v, ts, w') \<Longrightarrow> ticked w w'"
  by (auto simp: x86_get_time_unit_def intro: ticked_rules split: option.splits prod.splits if_splits)

lemma ticked_throttled [ticked_rules]: "x86_get_throttled_time E msr ht t w = (r, v, ts, w') \<Longrightarrow> ticked w w'"
  by (auto simp: x86_get_throttled_time_def Let_def intro: ticked_rules ticked_trans [OF ticked_uint64 ticked_unit]
      split: option.splits prod.splits if_splits)

lemma ticked_power [ticked_rules]: "x86_get_power E p d t w = (r, v, ts, w') \<Longrightarrow> ticked w w'"
  by (auto simp: x86_get_power_def Let_def
      intro: ticked_rules ticked_trans [OF ticked_uint64 ticked_sleep]
        ticked_trans [OF ticked_trans [OF ticked_uint64 ticked_sleep] ticked_uint64]
      split: prod.splits if_splits)

lemma ticked_cstates [ticked_rules]: "cstate_limit_loop E ht t i k ts w = (r, j, ts', w') \<Longrightarrow> ticked w w'"
proof (induction k arbitrary: i ts w)
  case (Suc k)
  show ?case
  proof (cases "path_fmt E ''ht_cstate_limit_path'' [ArgLu (obj_os_id ht), ArgLu i]")
    case (Some p)
    obtain st d ts2 w2 where rd: "read_uint64_from_file (pe_lib E) (Some p) t w = (st, d, ts2, w2)"
      by (metis prod_cases4)
    from ticked_uint64 [OF this] Suc.prems Some rd Suc.IH show ?thesis
      by (auto simp: Let_def intro: ticked_trans split: if_splits)
  qed (use Suc.prems in \<open>auto intro: ticked_rules\<close>)
qed (auto intro: ticked_rules)

subsection \<open>Objects that are ready for use\<close>

fun hw_ready :: "obj_t \<Rightarrow> hw_object \<Rightarrow> bool" where
  "hw_ready ob (HwNode n) \<longleftrightarrow> obj_type ob = PWR_OBJ_NODE \<and> obj_os_id n = obj_os_id ob \<and> node_ops n"
| "hw_ready ob (HwSocket n) \<longleftrightarrow> obj_type ob = PWR_OBJ_SOCKET \<and> obj_os_id n = obj_os_id ob \<and> socket_ops n \<and> socket_plugin_data n \<noteq> None"
| "hw_ready ob (HwMem n) \<longleftrightarrow> obj_type ob = PWR_OBJ_MEM \<and> obj_os_id n = obj_os_id ob \<and> mem_ops n \<and> mem_plugin_data n \<noteq> None"
| "hw_ready ob (HwPplane n) \<longleftrightarrow> obj_type ob = PWR_OBJ_POWER_PLANE \<and> obj_os_id n = obj_os_id ob \<and> pplane_ops n"
| "hw_ready ob (HwCore n) \<longleftrightarrow> obj_type ob = PWR_OBJ_CORE \<and> obj_os_id n = obj_os_id ob \<and> core_ops n \<and> core_plugin_data n \<noteq> None"
| "hw_ready ob (HwHt n) \<longleftrightarrow> obj_type ob = PWR_OBJ_HT \<and> obj_os_id n = obj_os_id ob \<and> ht_ops n"

definition ipc_ready :: "ipc_t \<Rightarrow> bool" where
  "ipc_ready ipc \<longleftrightarrow> ipc_ops ipc \<and> ipc_fd ipc \<noteq> None"

definition hw_types :: "int set" where
  "hw_types = {PWR_OBJ_NODE, PWR_OBJ_SOCKET, PWR_OBJ_MEM, PWR_OBJ_POWER_PLANE, PWR_OBJ_CORE, PWR_OBJ_HT}"

text \<open>Every object of the library has its structure, every context its connection, and nothing has gone wrong.\<close>

definition plugin_ready :: "lib \<Rightarrow> xworld \<Rightarrow> bool" where
  "plugin_ready s w \<longleftrightarrow>
     (\<forall>a ob. objs s a = Some ob \<longrightarrow> obj_type ob \<in> hw_types \<longrightarrow> (\<exists>h. xw_objs w a = Some h \<and> hw_ready ob h)) \<and>
     (\<forall>c. ctxs s c \<noteq> None \<longrightarrow> (\<exists>ipc. xw_ipc w c = Some ipc \<and> ipc_ready ipc)) \<and> \<not> xw_fault w"

lemma plugin_ready_obj:
  assumes "plugin_ready s w" "objs s a = Some ob" "obj_type ob \<in> hw_types"
  obtains h where "xw_objs w a = Some h" "hw_ready ob h"
  using assms unfolding plugin_ready_def by blast

lemma plugin_ready_ticked: "plugin_ready s w \<Longrightarrow> ticked w w' \<Longrightarrow> plugin_ready s w'"
  by (auto simp: plugin_ready_def ticked_def)

text \<open>Of each type, the functions that the library calls.\<close>

definition type_get_ops :: "int \<Rightarrow> get_op set" where
  "type_get_ops t =
     (if t = PWR_OBJ_NODE then {get_power, get_power_limit_max, get_energy}
      else if t = PWR_OBJ_SOCKET then {get_power, get_power_limit_max, get_energy, get_throttled_time, get_temp}
      else if t = PWR_OBJ_MEM then {get_power, get_power_limit_max, get_energy, get_throttled_time}
      else if t = PWR_OBJ_POWER_PLANE then {get_power, get_energy}
      else if t = PWR_OBJ_CORE then {get_temp}
      else if t = PWR_OBJ_HT then {get_cstate_limit, get_freq, get_freq_req, get_freq_limit_min, get_freq_limit_max, get_governor}
      else {})"

definition type_set_ops :: "int \<Rightarrow> set_op set" where
  "type_set_ops t =
     (if t = PWR_OBJ_SOCKET \<or> t = PWR_OBJ_MEM then {set_power_limit_max}
      else if t = PWR_OBJ_HT then {set_cstate_limit, set_freq_req, set_freq_limit_min, set_freq_limit_max, set_governor}
      else {})"

definition read_ok :: "'a sysworld_scheme \<Rightarrow> 'a sysworld_scheme x86_get \<Rightarrow> bool" where
  "read_ok w r \<longleftrightarrow> (\<exists>st v ts w'. r = Some (st, v, ts, w') \<and> ticked w w')"

lemma read_okI: "ticked w w' \<Longrightarrow> read_ok w (Some (st, v, ts, w'))"
  by (auto simp: read_ok_def)

lemma read_ok_triple: "(\<And>st v ts w'. x = (st, v, ts, w') \<Longrightarrow> ticked w w') \<Longrightarrow> read_ok w (Some x)"
  by (cases x) (auto simp: read_ok_def)

lemma read_ok_scaled: "read_ok w (Some (read_scaled E p f t w))"
  by (rule read_ok_triple) (rule ticked_scaled)

lemma read_ok_always: "read_ok w (Some (read_always E p f t w))"
  by (rule read_ok_triple) (rule ticked_always)

lemmas read_ok_rules = read_okI [OF ticked_refl] read_ok_scaled read_ok_always

lemma read_ok_ht:
  "read_ok w (x86_ht_get_freq E n t w)" "read_ok w (x86_ht_get_freq_req E n t w)"
  "read_ok w (x86_ht_get_freq_limit_min E n t w)" "read_ok w (x86_ht_get_freq_limit_max E n t w)"
  by (auto simp: x86_ht_get_freq_def x86_ht_get_freq_req_def x86_ht_get_freq_limit_min_def x86_ht_get_freq_limit_max_def
      intro: read_ok_rules split: option.splits)

lemma read_ok_governor: "read_ok w (x86_ht_get_governor E n t w)"
  by (auto simp: x86_ht_get_governor_def intro: read_ok_rules read_okI ticked_string split: option.splits prod.splits)

lemma read_ok_cstate: "read_ok w (x86_ht_get_cstate_limit E n t w)"
  by (auto simp: x86_ht_get_cstate_limit_def Let_def intro: read_ok_rules read_okI ticked_opendir
      ticked_trans [OF ticked_opendir ticked_cstates] split: option.splits prod.splits)

lemma read_ok_node:
  "read_ok w (x86_node_get_power E n t w)" "read_ok w (x86_node_get_power_limit_max E n t w)"
  "read_ok w (x86_node_get_energy E n t w)"
  by (simp_all add: x86_node_get_power_def x86_node_get_power_limit_max_def x86_node_get_energy_def read_ok_rules)

lemma read_ok_test:
  assumes "g_file_test p w = (b, w')"
  shows "read_ok w (Some (read_always E q f t w'))" "read_ok w (Some (st, v, ts, w'))"
  by (rule read_ok_triple, rule ticked_trans [OF ticked_test [OF assms] ticked_always], assumption)
    (rule read_okI [OF ticked_test [OF assms]])

lemma read_ok_pplane:
  "read_ok w (x86_pplane_get_power E n t w)" "read_ok w (x86_pplane_get_energy E n t w)"
  by (auto simp: x86_pplane_get_power_def x86_pplane_get_energy_def Let_def intro: read_ok_rules read_ok_test
      split: option.splits prod.splits bool.splits)

lemma read_ok_core: "core_plugin_data n \<noteq> None \<Longrightarrow> read_ok w (x86_core_get_temp E n t w)"
  by (auto simp: x86_core_get_temp_def intro: read_ok_rules)

lemma read_ok_power: "read_ok w (Some (x86_get_power E p d t w))"
  by (rule read_ok_triple) (rule ticked_power)

lemma read_ok_throttled: "read_ok w (Some (x86_get_throttled_time E m h t w))"
  by (rule read_ok_triple) (rule ticked_throttled)

lemma read_ok_socket:
  assumes "socket_plugin_data n \<noteq> None"
  shows "read_ok w (x86_socket_get_temp E n t w)" "read_ok w (x86_socket_get_throttled_time E n t w)"
    "read_ok w (x86_socket_get_power E n t w)" "read_ok w (x86_socket_get_power_limit_max E n t w)"
    "read_ok w (x86_socket_get_energy E n t w)"
  using assms by (auto simp: x86_socket_get_temp_def x86_socket_get_throttled_time_def x86_socket_get_power_def
      x86_socket_get_power_limit_max_def x86_socket_get_energy_def
      intro: read_ok_rules read_ok_power read_ok_throttled split: option.splits)

lemma read_ok_mem:
  assumes "mem_plugin_data n \<noteq> None"
  shows "read_ok w (x86_mem_get_throttled_time E n t w)"
    "read_ok w (x86_mem_get_power E n t w)" "read_ok w (x86_mem_get_power_limit_max E n t w)"
    "read_ok w (x86_mem_get_energy E n t w)"
  using assms by (auto simp: x86_mem_get_throttled_time_def x86_mem_get_power_def
      x86_mem_get_power_limit_max_def x86_mem_get_energy_def
      intro: read_ok_rules read_ok_power read_ok_throttled split: option.splits)

lemmas x86_ops_defs = x86_node_ops_def x86_socket_ops_def x86_mem_ops_def x86_pplane_ops_def x86_core_ops_def x86_ht_ops_def

lemma x86_read_ready:
  assumes "hw_ready ob h" "op \<in> type_get_ops (obj_type ob)"
  shows "read_ok w (x86_read E op h w)"
  using assms
  by (cases h) (auto simp: type_get_ops_def x86_read_def x86_ops_defs read_ok_node read_ok_pplane read_ok_core
      read_ok_ht read_ok_governor read_ok_cstate read_ok_socket read_ok_mem)

lemma plugin_get_ready:
  assumes "plugin_ready s w" "objs s a = Some ob" "op \<in> type_get_ops (obj_type ob)"
    and "p_get (x86_plugin E) op a w = (st, v, ts, w')"
  shows "plugin_ready s w'"
proof -
  have "obj_type ob \<in> hw_types" using assms(3) by (auto simp: type_get_ops_def hw_types_def split: if_splits)
  then obtain h where "xw_objs w a = Some h" "hw_ready ob h" using plugin_ready_obj [OF assms(1,2)] by blast
  with x86_read_ready [OF this(2) assms(3), of w E] assms(4) have "ticked w w'"
    by (auto simp: x86_plugin_def read_ok_def)
  then show ?thesis by (rule plugin_ready_ticked [OF assms(1)])
qed

subsection \<open>Time stamps\<close>

text \<open>
  The plugin is always asked for a time stamp, and the library reads the stamp after a
  success. Every function but the one for the idle state limit stores a stamp whenever it
  succeeds.
\<close>

definition stamped :: "'w x86_get \<Rightarrow> bool" where
  "stamped r \<longleftrightarrow> (\<forall>st v ts w. r = Some (st, v, ts, w) \<longrightarrow> st = PWR_RET_SUCCESS \<longrightarrow> ts \<noteq> None)"

lemma stamped_fail: "st \<noteq> PWR_RET_SUCCESS \<Longrightarrow> stamped (Some (st, v, ts, w))"
  and stamped_None: "stamped None"
  by (simp_all add: stamped_def)

lemma val_stamped:
  assumes "read_val_from_file L p type True w = (st, v, ts, w')" "st = PWR_RET_SUCCESS"
  shows "ts \<noteq> None"
  using assms by (auto simp: read_val_from_file_def read_val_from_buf_def split: prod.splits option.splits)

lemma uint64_stamped:
  assumes "read_uint64_from_file L p True w = (st, v, ts, w')" "st = PWR_RET_SUCCESS"
  shows "ts \<noteq> None"
  using assms by (auto simp: read_uint64_from_file_def dest: val_stamped split: prod.splits)

lemma string_stamped:
  assumes "read_string_from_file L p True w = (st, v, ts, w')" "st = PWR_RET_SUCCESS"
  shows "ts \<noteq> None"
  using assms by (auto simp: read_string_from_file_def dest: val_stamped split: prod.splits)

lemma stamped_scaled: "stamped (Some (read_scaled E p f True w))"
  by (auto simp: stamped_def read_scaled_def dest: uint64_stamped split: prod.splits)

lemma stamped_always: "stamped (Some (read_always E p f True w))"
  by (auto simp: stamped_def read_always_def dest: uint64_stamped split: prod.splits)

lemma stamped_power: "stamped (Some (x86_get_power E p d True w))"
  by (auto simp: stamped_def x86_get_power_def Let_def dest: uint64_stamped split: prod.splits if_splits)

lemma stamped_throttled: "stamped (Some (x86_get_throttled_time E m h True w))"
  by (auto simp: stamped_def x86_get_throttled_time_def Let_def dest: uint64_stamped
      split: prod.splits if_splits option.splits)

lemma stamped_governor: "stamped (x86_ht_get_governor E n True w)"
  by (auto simp: stamped_def x86_ht_get_governor_def dest: string_stamped split: prod.splits option.splits)

lemmas stamped_rules = stamped_fail stamped_None stamped_scaled stamped_always stamped_power stamped_throttled stamped_governor

lemma stamped_node: "x86_node_ops E op = Some f \<Longrightarrow> stamped (f n True w)"
  by (auto simp: x86_node_ops_def x86_node_get_power_def x86_node_get_power_limit_max_def x86_node_get_energy_def
      stamped_rules split: get_op.splits)

lemma stamped_socket: "x86_socket_ops E op = Some f \<Longrightarrow> stamped (f n True w)"
  by (cases op) (auto simp: x86_socket_ops_def x86_socket_get_temp_def x86_socket_get_throttled_time_def x86_socket_get_power_def
      x86_socket_get_power_limit_max_def x86_socket_get_energy_def stamped_rules split: option.splits bind_splits)

lemma stamped_mem: "x86_mem_ops E op = Some f \<Longrightarrow> stamped (f n True w)"
  by (cases op) (auto simp: x86_mem_ops_def x86_mem_get_throttled_time_def x86_mem_get_power_def
      x86_mem_get_power_limit_max_def x86_mem_get_energy_def stamped_rules split: option.splits bind_splits)

lemma stamped_pplane: "x86_pplane_ops E op = Some f \<Longrightarrow> stamped (f n True w)"
  by (cases op) (auto simp: x86_pplane_ops_def x86_pplane_get_power_def x86_pplane_get_energy_def Let_def
      stamped_rules split: option.splits prod.splits bool.splits)

lemma stamped_core: "x86_core_ops E op = Some f \<Longrightarrow> stamped (f n True w)"
  by (cases op) (auto simp: x86_core_ops_def x86_core_get_temp_def stamped_rules split: bind_splits)

lemma stamped_ht: "x86_ht_ops E op = Some f \<Longrightarrow> op \<noteq> get_cstate_limit \<Longrightarrow> stamped (f n True w)"
  by (cases op) (auto simp: x86_ht_ops_def x86_ht_get_freq_def x86_ht_get_freq_req_def x86_ht_get_freq_limit_min_def
      x86_ht_get_freq_limit_max_def stamped_rules split: option.splits)

lemma stamped_read:
  assumes "op \<noteq> get_cstate_limit" shows "stamped (x86_read E op h w)"
  using assms
  by (auto simp: x86_read_def stamped_node stamped_socket stamped_mem stamped_pplane stamped_core stamped_ht stamped_None
      split: hw_object.splits bind_splits)

lemma get_value_stamped:
  assumes "obj_attr_get_value (x86_plugin E) a ob attr w = (st, v, ts, w')" "attr \<noteq> PWR_ATTR_CSTATE_LIMIT" "st = PWR_RET_SUCCESS"
  shows "ts \<noteq> None"
proof -
  have "ts \<noteq> None" if "get_os_id (x86_plugin E) i w = (st, v, ts, w')" for i
    using that assms(3) by (auto simp: get_os_id_def split: prod.splits option.splits)
  moreover have "ts \<noteq> None" if "p_get (x86_plugin E) op a w = (st, v, ts, w')" "op \<noteq> get_cstate_limit" for op
    using that(1) assms(3) stamped_read [OF that(2), of E "the (xw_objs w a)" w]
    by (cases "xw_objs w a") (auto simp: x86_plugin_def stamped_def split: option.splits)
  ultimately show ?thesis
    using assms by (auto simp: get_value_defs split: if_splits)
qed

subsection \<open>Requests to the daemon\<close>

definition same_plugin :: "xworld \<Rightarrow> xworld \<Rightarrow> bool" where
  "same_plugin w w' \<longleftrightarrow> xw_objs w' = xw_objs w \<and> xw_md w' = xw_md w \<and> xw_ipc w' = xw_ipc w \<and> xw_fault w' = xw_fault w"

lemma same_plugin_refl [simp]: "same_plugin w w"
  by (simp add: same_plugin_def)

lemma same_plugin_trans: "same_plugin w w' \<Longrightarrow> same_plugin w' w'' \<Longrightarrow> same_plugin w w''"
  by (simp add: same_plugin_def)

lemma tick_x_sel [simp]:
  "xw_objs (tick w) = xw_objs w" "xw_md (tick w) = xw_md w" "xw_ipc (tick w) = xw_ipc w" "xw_fault (tick w) = xw_fault w"
  by (simp_all add: tick_def)

lemma same_plugin_req: "ipc_socket_req fd req w = (st, w') \<Longrightarrow> same_plugin w w'"
  by (auto simp: ipc_socket_req_def sock_write_def sock_read_def same_plugin_def split: if_splits option.splits)

lemma connect_ready:
  assumes "ipc_fd ipc \<noteq> None" "ipc_ops ipc"
  obtains st ipc' w' where "ipc_socket_connect ipc w = Some (st, ipc', w')" "ipc_ready ipc'" "same_plugin w w'"
proof -
  obtain old where old: "ipc_fd ipc = Some old" using assms by auto
  let ?fd = "w_socket w (sw_tick w)" and ?w2 = "tick (tick w)"
  let ?ipc = "ipc\<lparr>ipc_fd := Some ?fd\<rparr>"
  obtain st w3 where auth: "ipc_socket_auth ?ipc ?fd (?w2\<lparr>w_open := insert ?fd (w_open ?w2)\<rparr>) = (st, w3)" by fastforce
  then have w3: "same_plugin w w3"
    by (auto simp: ipc_socket_auth_def same_plugin_def split: if_splits dest!: same_plugin_req [unfolded same_plugin_def])
  show ?thesis
    using that old auth w3 assms
    by (fastforce simp: ipc_socket_connect_def ipc_ready_def same_plugin_def Let_def split: if_splits)
qed

definition write_ok :: "xworld \<Rightarrow> xworld x86_set \<Rightarrow> bool" where
  "write_ok w r \<longleftrightarrow> (\<exists>st ipc w'. r = Some (st, ipc, w') \<and> ipc_ready ipc \<and> same_plugin w w')"

lemma write_ok_none: "ipc_ready ipc \<Longrightarrow> write_ok w (Some (st, ipc, w))"
  by (simp add: write_ok_def)

lemma write_ok_ipc:
  assumes "ipc_ready ipc"
  shows "write_ok w (ipc_set_uint64 ipc ot attr meta v path w)"
proof -
  obtain st ipc' w' where c: "ipc_socket_connect ipc w = Some (st, ipc', w')" "ipc_ready ipc'" "same_plugin w w'"
    using connect_ready [of ipc w] assms by (auto simp: ipc_ready_def)
  obtain fd where fd: "ipc_fd ipc' = Some fd" using c(2) by (auto simp: ipc_ready_def)
  define req where "req = PwrSET \<lparr>sr_object = ot, sr_attribute = attr, sr_data_type = PWR_ATTR_DATA_UINT64,
    sr_metadata = meta, sr_value = v, sr_path = path\<rparr>"
  obtain st2 w2 where r: "ipc_socket_req fd req w' = (st2, w2)" by fastforce
  have "same_plugin w w2" by (rule same_plugin_trans [OF c(3) same_plugin_req [OF r]])
  then show ?thesis using assms c fd r
    by (auto simp: write_ok_def ipc_set_uint64_def ipc_socket_set_uint64_def ipc_socket_set_def req_def ipc_ready_def)
qed

lemma write_ok_ht:
  assumes "ipc_ready ipc"
  shows "write_ok w (x86_ht_set_cstate_limit E n ipc v w)" "write_ok w (x86_ht_set_governor E n ipc v w)"
    "write_ok w (x86_ht_set_freq_req E n ipc v w)" "write_ok w (x86_ht_set_freq_limit_min E n ipc v w)"
    "write_ok w (x86_ht_set_freq_limit_max E n ipc v w)"
  by (auto simp: x86_ht_set_cstate_limit_def x86_ht_set_governor_def x86_ht_set_freq_req_def x86_ht_set_freq_limit_min_def
      x86_ht_set_freq_limit_max_def intro: write_ok_none [OF assms] write_ok_ipc [OF assms] split: option.splits prod.splits)

lemma write_ok_limits:
  assumes "ipc_ready ipc"
  shows "socket_plugin_data n \<noteq> None \<Longrightarrow> write_ok w (x86_socket_set_power_limit_max E n ipc v w)"
    "mem_plugin_data m \<noteq> None \<Longrightarrow> write_ok w (x86_mem_set_power_limit_max E m ipc v w)"
  by (auto simp: x86_socket_set_power_limit_max_def x86_mem_set_power_limit_max_def Let_def
      intro: write_ok_none [OF assms] write_ok_ipc [OF assms] split: option.splits)

lemma x86_write_ready:
  assumes "hw_ready ob h" "op \<in> type_set_ops (obj_type ob)" "ipc_ready ipc"
  shows "write_ok w (x86_write E op h ipc v w)"
  using assms
  by (cases h) (auto simp: type_set_ops_def x86_write_def x86_socket_set_ops_def x86_mem_set_ops_def x86_ht_set_ops_def
      write_ok_ht write_ok_limits)

lemma plugin_ready_same: "plugin_ready s w \<Longrightarrow> same_plugin w w' \<Longrightarrow> ipc_ready ipc \<Longrightarrow> plugin_ready s (w'\<lparr>xw_ipc := (xw_ipc w')(c \<mapsto> ipc)\<rparr>)"
  by (auto simp: plugin_ready_def same_plugin_def)

lemma plugin_set_ready:
  assumes "plugin_ready s w" "objs s a = Some ob" "op \<in> type_set_ops (obj_type ob)" "ctxs s c \<noteq> None"
    and "p_set (x86_plugin E) op a c v w = (st, w')"
  shows "plugin_ready s w'"
proof -
  have "obj_type ob \<in> hw_types" using assms(3) by (auto simp: type_set_ops_def hw_types_def split: if_splits)
  then obtain h where h: "xw_objs w a = Some h" "hw_ready ob h" using plugin_ready_obj [OF assms(1,2)] by blast
  obtain ipc where ipc: "xw_ipc w c = Some ipc" "ipc_ready ipc" using assms(1,4) unfolding plugin_ready_def by blast
  from x86_write_ready [OF h(2) assms(3) ipc(2), of w E v] obtain r ipc' w2
    where "x86_write E op h ipc v w = Some (r, ipc', w2)" "ipc_ready ipc'" "same_plugin w w2" by (auto simp: write_ok_def)
  with assms(5) h(1) ipc(1) plugin_ready_same [OF assms(1)] show ?thesis by (auto simp: x86_plugin_def)
qed

subsection \<open>The library on top of the plugin\<close>

lemma get_value_ready:
  assumes "plugin_ready s w" "objs s a = Some ob" "obj_attr_get_value (x86_plugin E) a ob attr w = (st, v, ts, w')"
  shows "plugin_ready s w'"
proof -
  have clock: "p_clock (x86_plugin E) = clock_gettime" by (simp add: x86_plugin_def)
  have "get_os_id (x86_plugin E) i w = (st, v, ts, w') \<Longrightarrow> plugin_ready s w'" for i
    by (auto simp: get_os_id_def clock intro: plugin_ready_ticked [OF assms(1) ticked_clock] split: prod.splits option.splits)
  moreover have "op \<in> type_get_ops (obj_type ob) \<Longrightarrow> p_get (x86_plugin E) op a w = (st, v, ts, w') \<Longrightarrow> plugin_ready s w'" for op
    by (rule plugin_get_ready [OF assms(1,2)])
  ultimately show ?thesis
    using assms(1,3) by (auto simp: get_value_defs type_get_ops_def split: if_splits)
qed

lemma set_action_ops: "set_action_of t attr = Call op \<Longrightarrow> op \<in> type_set_ops t"
  by (auto simp: set_action_of_def type_set_ops_def split: if_splits)

lemma set_calls_ops:
  "(op, b) \<in> set (set_calls n s attr a ob) \<Longrightarrow> objs s a = Some ob \<Longrightarrow>
     \<exists>ob'. objs s b = Some ob' \<and> op \<in> type_set_ops (obj_type ob')"
proof (induction n arbitrary: a ob)
  case (Suc n)
  show ?case
  proof (cases "set_action_of (obj_type ob) attr")
    case Forward
    with Suc.prems(1) obtain gn where
      "(op, b) \<in> set (case node_obj s gn of None \<Rightarrow> [] | Some (c, child) \<Rightarrow> set_calls n s attr c child)"
      by (cases "node_children s ob") auto
    then obtain c child where "node_obj s gn = Some (c, child)" "(op, b) \<in> set (set_calls n s attr c child)"
      by (cases "node_obj s gn") auto
    moreover from this have "objs s c = Some child" by (auto simp: node_obj_def)
    ultimately show ?thesis using Suc.IH by blast
  qed (use Suc.prems in \<open>auto dest: set_action_ops\<close>)
qed simp

lemma run_calls_ready:
  assumes "ctxs s c \<noteq> None" "\<And>op b. (op, b) \<in> set calls \<Longrightarrow> \<exists>ob. objs s b = Some ob \<and> op \<in> type_set_ops (obj_type ob)"
    and "plugin_ready s w"
  shows "plugin_ready s (run_calls (x86_plugin E) c v calls w)"
  using assms(2,3)
proof (induction calls arbitrary: w)
  case (Cons call calls)
  obtain op b where call: "call = (op, b)" by (cases call)
  with Cons.prems(1) obtain ob where "objs s b = Some ob" "op \<in> type_set_ops (obj_type ob)" by auto
  then have "plugin_ready s (snd (p_set (x86_plugin E) op b c v w))"
    using plugin_set_ready [OF Cons.prems(2) _ _ assms(1)] by (metis prod.collapse)
  with Cons call show ?case by (auto simp: run_calls_def)
qed (simp add: run_calls_def)

text \<open>
  Reads and writes of attributes by an application, in any order; a read says whether the
  application asks for the time stamp.
\<close>

datatype access = Read key int bool | Write key int "64 word"

fun run_accesses :: "penv \<Rightarrow> lib \<Rightarrow> access list \<Rightarrow> xworld \<Rightarrow> xworld option" where
  "run_accesses E s [] w = Some w"
| "run_accesses E s (Read h attr ts # as) w =
     do { (_, _, _, w) \<leftarrow> PWR_ObjAttrGetValue (x86_plugin E) h attr ts s w; run_accesses E s as w }"
| "run_accesses E s (Write h attr v # as) w =
     do { (_, w) \<leftarrow> PWR_ObjAttrSetValue (x86_plugin E) h attr v s w; run_accesses E s as w }"

text \<open>
  The accesses that are covered: the keys of the handle can be looked up (they may be invalid,
  but see \<open>key_ok\<close> for zero keys), and the idle state limit is read without its time stamp.
\<close>

fun access_ok :: "lib \<Rightarrow> access \<Rightarrow> bool" where
  "access_ok s (Read h attr ts) \<longleftrightarrow> dkey_ok s h \<and> \<not> (attr = PWR_ATTR_CSTATE_LIMIT \<and> ts)"
| "access_ok s (Write h attr v) \<longleftrightarrow> dkey_ok s h \<and> ckey_ok s h"

definition objects_typed :: "lib \<Rightarrow> bool" where
  "objects_typed s \<longleftrightarrow> (\<forall>a. has_type s a OPAQUE_OBJECT \<longrightarrow> objs s a \<noteq> None)"

lemma lookup_objectD:
  assumes "group_inv s" "objects_typed s" "lookup_object s k = Some (Some a)" "key_ok s k"
  obtains ob where "objs s a = Some ob"
  using lookup_has_type(1) [of s k OPAQUE_OBJECT a] group_invD(1) [OF assms(1)] assms(2,3,4)
  by (auto simp: lookup_object_def objects_typed_def)

lemma read_returns:
  assumes "group_inv s" "objects_typed s" "plugin_ready s w" "access_ok s (Read h attr ts)"
  shows "\<exists>st v t w'. PWR_ObjAttrGetValue (x86_plugin E) h attr ts s w = Some (st, v, t, w') \<and> plugin_ready s w'"
proof -
  from assms(4) have h: "key_ok s (OPAQUE_GET_DATA_KEY h)" "ts \<Longrightarrow> attr \<noteq> PWR_ATTR_CSTATE_LIMIT" by (auto simp: dkey_ok_def)
  obtain res where res: "lookup_object s (OPAQUE_GET_DATA_KEY h) = Some res"
    using lookup_total [OF group_invD(1) [OF assms(1)] h(1)] unfolding lookup_object_def by blast
  show ?thesis
  proof (cases res)
    case (Some a)
    with res obtain ob where ob: "objs s a = Some ob" using lookup_objectD [OF assms(1,2) _ h(1)] by blast
    obtain st v t w' where get: "obj_attr_get_value (x86_plugin E) a ob attr w = (st, v, t, w')" by (metis prod_cases4)
    from get_value_stamped [OF get] h(2) have "ts \<Longrightarrow> st = PWR_RET_SUCCESS \<Longrightarrow> t \<noteq> None" by blast
    with res Some ob get get_value_ready [OF assms(3) ob get] show ?thesis
      by (cases "ts \<and> st = PWR_RET_SUCCESS") (auto simp: PWR_ObjAttrGetValue_def)
  qed (use res assms(3) in \<open>simp add: PWR_ObjAttrGetValue_def\<close>)
qed

lemma write_returns:
  assumes "group_inv s" "objects_typed s" "tree_ok s" "plugin_ready s w" "dkey_ok s h" "ckey_ok s h"
  shows "\<exists>st w'. PWR_ObjAttrSetValue (x86_plugin E) h attr v s w = Some (st, w') \<and> plugin_ready s w'"
proof -
  obtain res ctx where res: "lookup_object s (OPAQUE_GET_DATA_KEY h) = Some res"
    and ctx: "lookup_context s (OPAQUE_GET_CONTEXT_KEY h) = Some ctx"
    using lookup_total [OF group_invD(1) [OF assms(1)]] assms(5,6)
    unfolding lookup_object_def lookup_context_def dkey_ok_def ckey_ok_def by blast
  show ?thesis
  proof (cases "\<exists>a c. res = Some a \<and> ctx = Some c")
    case True
    then obtain a c where ac: "res = Some a" "ctx = Some c" by blast
    with res obtain ob where ob: "objs s a = Some ob" using lookup_objectD [OF assms(1,2)] assms(5) unfolding dkey_ok_def by blast
    from ctx ac obtain x where "ctxs s c = Some x" using lookup_contextD [OF assms(1)] assms(6) unfolding ckey_ok_def by blast
    then have c: "ctxs s c \<noteq> None" by simp
    obtain r w' where r: "obj_attr_set_value (x86_plugin E) s c attr v a ob w = Some (r, w')"
      using obj_attr_set_value_returns [OF assms(3) ob, of "x86_plugin E" c attr v w] by auto
    then have "w' = run_calls (x86_plugin E) c v (set_calls (Suc (attr_set_fuel s)) s attr a ob) w"
      unfolding obj_attr_set_value_def by (rule set_switch_calls) (rule ob)
    moreover have "plugin_ready s (run_calls (x86_plugin E) c v (set_calls (Suc (attr_set_fuel s)) s attr a ob) w)"
      by (rule run_calls_ready [OF c set_calls_ops [OF _ ob] assms(4)])
    ultimately show ?thesis using res ctx ac ob r by (simp add: PWR_ObjAttrSetValue_def)
  qed (use res ctx assms(4) in \<open>cases res; cases ctx; simp add: PWR_ObjAttrSetValue_def\<close>)
qed

lemma accesses_return:
  assumes "group_inv s" "objects_typed s" "tree_ok s" "plugin_ready s w" "\<forall>x \<in> set accesses. access_ok s x"
  shows "\<exists>w'. run_accesses E s accesses w = Some w' \<and> plugin_ready s w'"
  using assms(4,5)
proof (induction accesses arbitrary: w)
  case (Cons x xs)
  show ?case
  proof (cases x)
    case (Read h attr ts)
    with Cons.prems(2) have ok: "access_ok s (Read h attr ts)" by simp
    from read_returns [OF assms(1,2) Cons.prems(1) this, of E] Read Cons.IH Cons.prems(2) show ?thesis by auto
  next
    case (Write h attr v)
    with write_returns [OF assms(1-3) Cons.prems(1), of h E attr v] Cons.IH Cons.prems(2) show ?thesis by auto
  qed
qed simp


subsection \<open>An example with a node and a socket\<close>

definition example_hw_node :: node_t where
  "example_hw_node = \<lparr>obj_type = PWR_OBJ_NODE, obj_os_id = 0, obj_name = ''node'', obj_gnode = Some 6,
     node_plugin_data = None, node_ops = False\<rparr>"

definition example_hw_socket :: socket_t where
  "example_hw_socket = \<lparr>obj_type = PWR_OBJ_SOCKET, obj_os_id = 0, obj_name = ''socket.0'', obj_gnode = Some 7,
     socket_ht_id = 0, socket_plugin_data = None, socket_ops = False\<rparr>"

definition example_hw :: xworld where
  "example_hw = ipcworld.extend (example_ipcworld 0)
     \<lparr>xw_objs = [2 \<mapsto> HwNode (snd (x86_construct_node example_hw_node)),
                 3 \<mapsto> HwSocket (snd (x86_construct_socket x86_metadata_zero example_hw_socket))],
      xw_md = x86_metadata_zero, xw_ipc = [1 \<mapsto> example_ipc], xw_fault = False\<rparr>"

lemma example_hw_ready: "plugin_ready example_lib example_hw"
  unfolding plugin_ready_def
  by (auto simp: example_lib_def example_hw_def ipcworld.extend_def hw_types_def x86_construct_node_def x86_new_node_def
      x86_construct_socket_def x86_new_socket_def example_hw_node_def example_hw_socket_def ipc_ready_def example_ipc_def split: if_splits)

lemma example_objects_typed: "objects_typed example_lib"
  by (auto simp: objects_typed_def has_type_def example_lib_def split: if_splits)


subsection \<open>The time window of power readings\<close>

lemma div_mult_word:
  fixes a m :: "64 word"
  shows "unat (a div m * m) = unat a div unat m * unat m"
proof -
  have "unat a div unat m * unat m \<le> unat a" by simp
  also have "\<dots> < 2 ^ 64" using unsigned_less [of a] by simp
  finally show ?thesis using unat_mult_lem [of "a div m" m] by (simp add: unat_div)
qed

lemma round_window_value:
  fixes m v :: "64 word"
  assumes "0 < m" "unat m \<le> 10 ^ 9"
  defines "k \<equiv> (unat v + unat m div 2) div unat m"
  shows "\<exists>rval. round_window m v = Some rval \<and>
    (if 1 \<le> k \<and> k \<le> 10 then \<not> (rval < m \<or> rval > m * MD_TIME_WINDOW_MULTIPLE_MAX) \<and> unat rval = k * unat m
     else rval < m \<or> rval > m * MD_TIME_WINDOW_MULTIPLE_MAX)"
proof -
  have m: "0 < unat m" using assms(1) by (simp add: unat_gt_0)
  have half: "unat (m div 2) = unat m div 2" by (simp add: unat_div)
  have ten: "unat (m * 10) = unat m * 10"
    using assms(2) by (subst unat_mult_lem [THEN iffD1]) simp_all
  define s where "s = v + m div 2"
  have r: "round_window m v = Some (s div m * m)" using assms(1) by (auto simp: round_window_def s_def)
  have val: "unat (s div m * m) = unat s div unat m * unat m" by (rule div_mult_word)
  show ?thesis
  proof (cases "unat v + unat m div 2 < 2 ^ 64")
    case True
    then have "unat s = unat v + unat m div 2" unfolding s_def half [symmetric] by (subst unat_add_lem [THEN iffD1]) simp_all
    then have "unat (s div m * m) = k * unat m" using val by (simp add: k_def)
    then show ?thesis using r m ten
      by (auto simp: word_less_nat_alt not_less Suc_le_eq intro!: exI [of _ "s div m * m"])
  next
    case False
    have "unat s = unat v + unat m div 2 - 2 ^ 64" unfolding s_def half [symmetric]
      using False half by (subst unat_plus_if') simp
    moreover have "unat v < 2 ^ 64" using unsigned_less [of v] by simp
    ultimately have "unat s < unat m" using m by linarith
    then have "s div m * m < m" using val m by (simp add: word_less_nat_alt)
    moreover have "10 < k"
    proof -
      have "11 * unat m \<le> unat v + unat m div 2" using False assms(2) by simp
      then show ?thesis using m by (simp add: k_def less_eq_div_iff_mult_less_eq Suc_le_eq [symmetric])
    qed
    ultimately show ?thesis using r by auto
  qed
qed

text \<open>
  C31. A time window that is requested for the power of a socket is rounded to the nearest multiple of
  the time between two updates of the counters. From one to ten such times it is stored, differs
  from the request by at most half of that time, and is what a later query reports; any other request is
  rejected and changes nothing, also when the sum in the rounding wraps around.
\<close>

theorem power_time_window_rounded:
  assumes "0 < md_time_window md" "unat (md_time_window md) \<le> 10 ^ 9" "socket_plugin_data socket = Some x"
  shows "let m = unat (md_time_window md); k = (unat v + m div 2) div m in
    if 1 \<le> k \<and> k \<le> 10 then
      \<exists>rval socket'. x86_socket_power_set_meta md socket PWR_MD_TIME_WINDOW v = Some (PWR_RET_SUCCESS, socket') \<and>
        unat rval = k * m \<and> \<bar>int (unat rval) - int (unat v)\<bar> \<le> int (m div 2) \<and>
        socket_plugin_data socket' = Some (x\<lparr>xs_power_time_window_meta := rval\<rparr>) \<and>
        (\<forall>E (w :: xworld). x86_socket_power_get_meta E md socket' PWR_MD_TIME_WINDOW w = Some (PWR_RET_SUCCESS, Some (MetaWord rval), w))
    else x86_socket_power_set_meta md socket PWR_MD_TIME_WINDOW v = Some (PWR_RET_OUT_OF_RANGE, socket)"
proof -
  define m k where "m = unat (md_time_window md)" and "k = (unat v + m div 2) div m"
  have m: "0 < m" using assms(1) by (simp add: m_def unat_gt_0)
  have "k * m + (unat v + m div 2) mod m = unat v + m div 2" unfolding k_def by (rule div_mult_mod_eq)
  moreover have "(unat v + m div 2) mod m < m" using m by simp
  ultimately have near: "\<bar>int (k * m) - int (unat v)\<bar> \<le> int (m div 2)" by linarith
  obtain rval where r: "round_window (md_time_window md) v = Some rval"
    "if 1 \<le> k \<and> k \<le> 10 then \<not> (rval < md_time_window md \<or> rval > md_time_window md * MD_TIME_WINDOW_MULTIPLE_MAX) \<and> unat rval = k * m
     else rval < md_time_window md \<or> rval > md_time_window md * MD_TIME_WINDOW_MULTIPLE_MAX"
    using round_window_value [OF assms(1,2), of v] unfolding m_def k_def by blast
  show ?thesis
  proof (cases "1 \<le> k \<and> k \<le> 10")
    case True
    let ?s = "socket\<lparr>socket_plugin_data := Some (x\<lparr>xs_power_time_window_meta := rval\<rparr>)\<rparr>"
    have rng: "\<not> (rval < md_time_window md \<or> rval > md_time_window md * MD_TIME_WINDOW_MULTIPLE_MAX)" "unat rval = k * m"
      using r(2) True by simp_all
    then have "x86_socket_power_set_meta md socket PWR_MD_TIME_WINDOW v = Some (PWR_RET_SUCCESS, ?s)"
      using r(1) assms(3) by (simp add: x86_socket_power_set_meta_def)
    moreover have "x86_socket_power_get_meta E md ?s PWR_MD_TIME_WINDOW w = Some (PWR_RET_SUCCESS, Some (MetaWord rval), w)"
      for E and w :: xworld by (simp add: x86_socket_power_get_meta_def)
    moreover have "\<bar>int (unat rval) - int (unat v)\<bar> \<le> int (m div 2)" using near by (simp only: rng(2))
    moreover have "socket_plugin_data ?s = Some (x\<lparr>xs_power_time_window_meta := rval\<rparr>)" by simp
    ultimately show ?thesis using rng(2) unfolding Let_def m_def [symmetric] k_def [symmetric] if_P [OF True] by blast
  next
    case False
    then have "x86_socket_power_set_meta md socket PWR_MD_TIME_WINDOW v = Some (PWR_RET_OUT_OF_RANGE, socket)"
      using r by (simp add: x86_socket_power_set_meta_def)
    with False show ?thesis unfolding Let_def m_def [symmetric] k_def [symmetric] by auto
  qed
qed

theorem power_time_window_rounded_witness:
  "\<exists>rval socket'. x86_socket_power_set_meta (x86_metadata_zero\<lparr>md_time_window := 100000000\<rparr>)
       (snd (x86_construct_socket x86_metadata_zero example_hw_socket)) PWR_MD_TIME_WINDOW 240000000 = Some (PWR_RET_SUCCESS, socket') \<and>
     unat rval = 200000000 \<and> (\<exists>x. socket_plugin_data socket' = Some (x\<lparr>xs_power_time_window_meta := rval\<rparr>))"
proof -
  let ?md = "x86_metadata_zero\<lparr>md_time_window := 100000000\<rparr>" and ?s = "snd (x86_construct_socket x86_metadata_zero example_hw_socket)"
  have m: "0 < md_time_window ?md" "unat (md_time_window ?md) \<le> 10 ^ 9" by simp_all
  obtain x where "socket_plugin_data ?s = Some x" by (simp add: x86_construct_socket_def x86_new_socket_def)
  from power_time_window_rounded [OF m this, of 240000000] show ?thesis by (auto simp: Let_def)
qed

text \<open>With a counter that reports more than \<open>10 ^ 9\<close> updates per second, that is, a time of zero, the rounding divides by zero.\<close>

lemma zero_time_window_kills:
  "md_time_window md = 0 \<Longrightarrow> x86_socket_power_set_meta md socket PWR_MD_TIME_WINDOW v = None"
  by (simp add: x86_socket_power_set_meta_def round_window_def)

lemma all_ones: "unat (- 1 :: 64 word) = 2 ^ 64 - 1"
  by (simp add: unsigned_minus_1_eq_mask mask_eq_exp_minus_1)

lemma usec_to_nsec_guarded_value: "unat (usec_to_nsec_guarded x) = min (unat x * 1000) (2 ^ 64 - 1)"
proof (cases "x > USEC_MAX")
  case True
  then have "unat x > (2 ^ 64 - 1) div 1000" by (simp add: word_less_nat_alt unat_div all_ones)
  then have "2 ^ 64 - 1 \<le> unat x * 1000" by simp
  with True show ?thesis by (simp add: usec_to_nsec_guarded_def all_ones)
next
  case False
  then have "unat x \<le> (2 ^ 64 - 1) div 1000" by (simp add: word_less_nat_alt unat_div all_ones not_less)
  then have "unat x * 1000 < 2 ^ 64" by simp
  then have "unat (x * 1000) = unat x * 1000" by (subst unat_mult_lem [THEN iffD1]) simp_all
  with False \<open>unat x * 1000 < 2 ^ 64\<close> show ?thesis by (simp add: usec_to_nsec_guarded_def pwr_usec_to_nsec_def)
qed

subsection \<open>A time stamp that is never set\<close>

text \<open>
  Where a hardware thread has at most one idle state no file is read and no time stamp is taken; a
  call that wants one then reads an uninitialised variable.
\<close>

lemma cstate_limit_without_time_stamp:
  assumes "lookup_object s (OPAQUE_GET_DATA_KEY h) = Some (Some a)" "objs s a = Some ob" "obj_type ob = PWR_OBJ_HT"
    and "xw_objs w a = Some (HwHt ht)" "ht_ops ht"
    and "path_fmt E ''ht_cstate_path'' [ArgLu (obj_os_id ht)] = Some path" "dirents (now_fs w) path = Some entries"
    and "length (filter (\<lambda>(nm, dir). dir \<and> take 5 nm = ''state'') entries) \<le> 1"
  shows "PWR_ObjAttrGetValue (x86_plugin E) h PWR_ATTR_CSTATE_LIMIT True s w = None"
proof -
  have "x86_ht_get_cstate_limit E ht True w = Some (PWR_RET_SUCCESS, Some 0, None, tick w)"
    using assms(6-8) by (simp add: x86_ht_get_cstate_limit_def opendir_def Let_def)
  then have "obj_attr_get_value (x86_plugin E) a ob PWR_ATTR_CSTATE_LIMIT w = (PWR_RET_SUCCESS, Some 0, None, tick w)"
    using assms(3-5) by (simp add: obj_attr_get_value_def ht_attr_get_value_def x86_plugin_def x86_read_def x86_ht_ops_def)
  with assms(1,2) show ?thesis by (simp add: PWR_ObjAttrGetValue_def)
qed

end
