(* ===== verification/X86_Roundtrip.thy ===== *)
theory X86_Roundtrip
  imports X86_Plugin
begin

text \<open>
  A value that is set goes from the plugin over the socket to the daemon, which writes a control
  file; the plugin reads it back from there. This theory puts the parts together: the request
  that the client sends (\<open>Ipc_Socket\<close>), the file that the daemon writes for it (\<open>Daemon_Values\<close>) and what the
  plugin then reads (\<open>X86_Objects\<close>).
\<close>

subsection \<open>Decimal texts\<close>

lemma hex_value_digit: "is_digit c \<Longrightarrow> hex_value c = Some (digit_value c)"
  by (auto simp: hex_value_def is_digit_def digit_value_def Let_def)

lemma digit_value_less: "is_digit c \<Longrightarrow> digit_value c < 10"
  by (auto simp: is_digit_def digit_value_def)

lemma in_base_digit: "is_digit c \<Longrightarrow> in_base 10 c"
  by (simp add: in_base_def hex_value_digit digit_value_less)

lemma base_value_digits: "list_all is_digit ds \<Longrightarrow> base_value 10 ds = digits_value ds"
proof -
  assume ds: "list_all is_digit ds"
  then have "takeWhile (in_base 10) ds = ds" by (simp add: list_all_iff in_base_digit)
  moreover have "foldl (\<lambda>n c. 10 * n + the (hex_value c)) a ds = foldl (\<lambda>n c. 10 * n + digit_value c) a ds" for a
    using ds by (induction ds arbitrary: a) (auto simp: hex_value_digit)
  ultimately show ?thesis by (simp only: base_value_def digits_value_def)
qed

lemma show_nat_lead: "n > 0 \<Longrightarrow> hd (show_nat n) \<noteq> CHR ''0''"
proof (induction n rule: show_nat.induct)
  case (1 n)
  show ?case
  proof (cases "n < 10")
    case True
    have "of_char (digit_char n) \<noteq> (of_char (CHR ''0'') :: nat)" using True 1 by (simp add: digit_char_code)
    then have "digit_char n \<noteq> CHR ''0''" by metis
    with True show ?thesis by (simp add: show_nat.simps [of n])
  next
    case False
    with 1 have "hd (show_nat (n div 10)) \<noteq> CHR ''0''" by simp
    with False show_nat_digits [of "n div 10"] show ?thesis by (simp add: show_nat.simps [of n])
  qed
qed

lemma strtoul_decimal:
  assumes "s = c # ds" "c \<noteq> CHR ''0''" "scan_sign (dropWhile is_space s) = (False, s)"
  shows "strtoul_0 s = to_ulong False (base_value 10 s)"
proof -
  have "strtoul_0 s = to_ulong False (case s of
           c # x # h # _ \<Rightarrow>
             if c = CHR ''0'' then
               if (x = CHR ''x'' \<or> x = CHR ''X'') \<and> in_base 16 h then base_value 16 (drop 2 s) else base_value 8 s
             else base_value 10 s
         | c # _ \<Rightarrow> if c = CHR ''0'' then base_value 8 s else base_value 10 s
         | [] \<Rightarrow> 0)" unfolding strtoul_0_def assms(3) Let_def by (simp only: prod.case)
  also have "\<dots> = to_ulong False (base_value 10 s)"
    unfolding assms(1) using assms(2) by (cases ds; cases "tl ds") (simp_all only: list.case list.sel if_False)
  finally show ?thesis .
qed

lemma strtoul_0_show: "n < 2 ^ 64 \<Longrightarrow> strtoul_0 (show_nat n) = of_nat n"
proof -
  assume n: "n < 2 ^ 64"
  obtain c ds where s: "show_nat n = c # ds" "is_digit c" "list_all is_digit ds" "digits_value (c # ds) = n"
    using show_nat_digits [of n] by (cases "show_nat n") auto
  then have skip: "scan_sign (dropWhile is_space (show_nat n)) = (False, show_nat n)"
    using digit_not_space digit_not_sign by (auto simp: scan_sign_def)
  have dec: "base_value 10 (show_nat n) = n" using s by (simp add: base_value_digits)
  show ?thesis
  proof (cases "n = 0")
    case True
    have "show_nat 0 = ''0''" by code_simp
    moreover have "scan_sign (dropWhile is_space ''0'') = (False, ''0'')" by code_simp
    moreover have "base_value 8 ''0'' = 0" by code_simp
    ultimately have "strtoul_0 (show_nat 0) = 0" by (simp add: strtoul_0_def to_ulong_def)
    with True show ?thesis by simp
  next
    case False
    with show_nat_lead [of n] s(1) have "c \<noteq> CHR ''0''" by simp
    from strtoul_decimal [OF s(1) this skip] dec n show ?thesis by (simp add: to_ulong_small)
  qed
qed

lemma strip_id: "list_all (\<lambda>c. \<not> g_ascii_isspace c) s \<Longrightarrow> g_strstrip s = s"
proof -
  assume s: "list_all (\<lambda>c. \<not> g_ascii_isspace c) s"
  then have "dropWhile g_ascii_isspace s = s" by (cases s) auto
  moreover have "dropWhile g_ascii_isspace (rev s) = rev s" using s by (cases "rev s") (auto simp: list_all_iff dest: arg_cong [of _ _ set])
  ultimately show ?thesis by (simp add: g_strstrip_def)
qed

lemma c_string_id: "list_all (\<lambda>c. c \<noteq> char_of (0 :: nat)) s \<Longrightarrow> c_string s = s"
  by (simp add: c_string_def list_all_iff)

lemma digits_plain: "list_all is_digit s \<Longrightarrow> list_all (\<lambda>c. \<not> g_ascii_isspace c) s \<and> list_all (\<lambda>c. c \<noteq> char_of (0 :: nat)) s"
  by (auto simp: list_all_iff is_digit_def g_ascii_isspace_def)

lemma read_shown:
  assumes "fopen_r p (now_fs w) = Some (show_nat (unat v))" "v \<noteq> 2 ^ 63" "v \<noteq> 2 ^ 63 - 1"
  shows "read_uint64_from_file L (Some p) False w = (PWR_RET_SUCCESS, v, None, tick w)"
proof -
  have v: "unat v < 2 ^ 64" using unsigned_less [of v] by simp
  have "c_string (show_nat (unat v)) = show_nat (unat v)" "g_strstrip (show_nat (unat v)) = show_nat (unat v)"
    using show_nat_digits [of "unat v"] digits_plain c_string_id strip_id by blast+
  then show ?thesis using assms strtoul_0_show [OF v]
    by (simp add: read_uint64_from_file_def read_val_from_file_def g_file_get_contents_def read_val_from_buf_def convert_buf_def)
qed

subsection \<open>Requests that succeed\<close>

lemma set_success_sent:
  assumes "ipc_set_uint64 ipc ot attr meta v path w = Some (PWR_RET_SUCCESS, ipc', w')"
  obtains fd where "last (w_sent w') = (fd, set_request ot attr meta PWR_ATTR_DATA_UINT64 v path)"
proof -
  from assms have set: "ipc_socket_set ipc ot attr meta PWR_ATTR_DATA_UINT64 v path w = Some (PWR_RET_SUCCESS, ipc', w')"
    by (simp add: ipc_set_uint64_def ipc_socket_set_uint64_def split: if_splits)
  then obtain st ipc1 w1 where c: "ipc_socket_connect ipc w = Some (st, ipc1, w1)"
    by (cases "ipc_socket_connect ipc w") (auto simp: ipc_socket_set_def)
  moreover have "st = PWR_RET_SUCCESS" "length path < PATH_MAX" using set c by (auto simp: ipc_socket_set_def split: if_splits)
  ultimately obtain fd where fd: "ipc_fd ipc1 = Some fd"
    using set by (cases "ipc_fd ipc1") (auto simp: ipc_socket_set_def)
  obtain st2 w2 where r: "ipc_socket_req fd (set_request ot attr meta PWR_ATTR_DATA_UINT64 v path) w1 = (st2, w2)" by fastforce
  then have "st2 = PWR_RET_SUCCESS" "w2 = w'"
    using set c fd \<open>st = _\<close> \<open>length path < _\<close> by (auto simp: ipc_socket_set_def set_request_def)
  with r have "ipc_socket_req fd (set_request ot attr meta PWR_ATTR_DATA_UINT64 v path) w1 = (PWR_RET_SUCCESS, w')" by simp
  then have "last (w_sent w') = (fd, set_request ot attr meta PWR_ATTR_DATA_UINT64 v path)"
    by (auto simp: ipc_socket_req_def sock_write_def sock_read_def split: if_splits option.splits)
  then show ?thesis by (rule that)
qed

text \<open>
  The daemon has written the value of a request, the files can be read, and nothing else changes
  them: then the plugin reads \<open>v\<close>. The number of idle states is an \<^verbatim>\<open>int\<close>.
\<close>

definition reads_back :: "powerapi_setreq_t \<Rightarrow> (bool \<Rightarrow> xworld \<Rightarrow> xworld x86_get) \<Rightarrow> 64 word \<Rightarrow> bool" where
  "reads_back r get v \<longleftrightarrow>
     (\<forall>D f f' w. write_attr_value D r f = (True, f') \<and> (\<forall>p. readable f' p) \<and> (\<forall>n. sw_fs w n = f') \<and>
        (\<forall>p. get_cstates_count p f < 2 ^ 31) \<longrightarrow>
        (\<exists>w'. get False w = Some (PWR_RET_SUCCESS, Some v, None, w')))"

text \<open>A request for \<open>v\<close> succeeds only if it has been sent with data from which \<open>v\<close> is read back.\<close>

definition set_then_get :: "xworld x86_set \<Rightarrow> (bool \<Rightarrow> xworld \<Rightarrow> xworld x86_get) \<Rightarrow> 64 word \<Rightarrow> bool" where
  "set_then_get res get v \<longleftrightarrow>
     (\<forall>ipc' w'. res = Some (PWR_RET_SUCCESS, ipc', w') \<longrightarrow>
        (\<exists>fd r. last (w_sent w') = (fd, PwrSET r) \<and> reads_back r get v))"

lemma set_then_getI:
  assumes "res = ipc_set_uint64 ipc ot attr meta i path w"
    and "reads_back \<lparr>sr_object = ot, sr_attribute = attr, sr_data_type = PWR_ATTR_DATA_UINT64, sr_metadata = meta, sr_value = i, sr_path = path\<rparr> get v"
  shows "set_then_get res get v"
  unfolding set_then_get_def
proof (intro allI impI)
  fix ipc' w'
  assume "res = Some (PWR_RET_SUCCESS, ipc', w')"
  then obtain fd where "last (w_sent w') = (fd, set_request ot attr meta PWR_ATTR_DATA_UINT64 i path)"
    using set_success_sent assms(1) by metis
  then show "\<exists>fd r. last (w_sent w') = (fd, PwrSET r) \<and> reads_back r get v"
    using assms(2) unfolding set_request_def by blast
qed

subsection \<open>Frequencies\<close>

lemma small_frequency:
  assumes "unat i < 2 ^ 53"
  shows "i \<noteq> 2 ^ 63" "i \<noteq> 2 ^ 63 - 1" "show_int (sint i) = show_nat (unat i)"
    "convert_double_to_uint64 L (dbl_of_uint64 i) = (PWR_RET_SUCCESS, Some i)"
proof -
  have "unat (2 ^ 63 :: 64 word) = 2 ^ 63" "unat (2 ^ 63 - 1 :: 64 word) = 2 ^ 63 - 1" by simp_all
  with assms show "i \<noteq> 2 ^ 63" "i \<noteq> 2 ^ 63 - 1" by auto
  have u: "uint i = int (unat i)" by (rule uint_nat)
  have "int (unat i) < int (2 ^ 53)" using assms by (simp only: of_nat_less_iff)
  then have "uint i < 2 ^ 63" unfolding u by simp
  moreover have "- (2 ^ 63) \<le> uint i" by (rule order_trans [OF _ uint_ge_0]) simp
  ultimately have "sint i = uint i" by (simp add: sint_uint signed_take_bit_int_eq_self_iff)
  then have "sint i = int (unat i)" unfolding u .
  then show "show_int (sint i) = show_nat (unat i)" by (simp add: show_int_def)
  have "dbl_eq (dbl_of_uint64 i) (dbl_of_uint64 i)"
    using less_imp_neq [OF dbl_of_nat_units(2) [OF assms]] unfolding dbl_eq_def dbl_is_nan_def dbl_of_uint64_def by blast
  then show "convert_double_to_uint64 L (dbl_of_uint64 i) = (PWR_RET_SUCCESS, Some i)"
    unfolding convert_double_to_uint64_def Let_def uint64_of_dbl_of_uint64 [OF assms] by (simp only: if_True)
qed

lemma reads_back_file:
  assumes "sr_attribute r \<notin> {PWR_ATTR_CSTATE_LIMIT, PWR_ATTR_GOV}" "sr_data_type r = PWR_ATTR_DATA_UINT64"
    and "unat (sr_value r) < 2 ^ 53"
    and "\<And>w. get False w = Some (read_scaled E (Some (sr_path r)) g False w)"
  shows "reads_back r get (g (sr_value r))"
  unfolding reads_back_def
proof (intro allI impI, elim conjE)
  fix D f f' and w :: xworld
  assume wr: "write_attr_value D r f = (True, f')" and rd: "\<forall>p. readable f' p" and fs: "\<forall>n. sw_fs w n = f'"
  from wr assms(1,2) have "write_control (sr_path r) (show_int (sint (sr_value r))) f = (True, f')"
    by (simp add: write_attr_value_def write_value_by_type_def file_write_uint64_def)
  then have "files f' (sr_path r) = Some (show_nat (unat (sr_value r)))"
    by (auto dest!: write_control_ok simp: small_frequency(3) [OF assms(3)])
  with rd fs have "fopen_r (sr_path r) (now_fs w) = Some (show_nat (unat (sr_value r)))" by (simp add: fopen_r_def)
  from read_shown [OF this small_frequency(1,2) [OF assms(3)]] assms(4)
  show "\<exists>w'. get False w = Some (PWR_RET_SUCCESS, Some (g (sr_value r)), None, w')"
    by (simp add: read_scaled_def)
qed

lemma frequency_set_then_get:
  assumes "unat i < 2 ^ 53" "attr \<notin> {PWR_ATTR_CSTATE_LIMIT, PWR_ATTR_GOV}"
    and "\<And>w. get False w = Some (read_scaled E (Some path) dbl_of_uint64 False w)"
    and "res = ipc_set_uint64 ipc ot attr meta i path w"
  shows "set_then_get res get (dbl_of_uint64 i)"
proof -
  let ?r = "\<lparr>sr_object = ot, sr_attribute = attr, sr_data_type = PWR_ATTR_DATA_UINT64, sr_metadata = meta, sr_value = i, sr_path = path\<rparr>"
  have "reads_back ?r get (dbl_of_uint64 (sr_value ?r))" by (rule reads_back_file) (use assms(1-3) in simp_all)
  then show ?thesis using set_then_getI [OF assms(4)] by simp
qed

subsection \<open>Governors\<close>

lemma gov_name_plain:
  assumes "0 \<le> g" "g < PWR_NUM_GOV_NAMES"
  shows "c_string (pwr_gov_to_string g) = pwr_gov_to_string g" "g_strstrip (pwr_gov_to_string g) = pwr_gov_to_string g"
proof -
  from assms consider "g = 0" | "g = 1" | "g = 2" | "g = 3" | "g = 4" by linarith
  then show "c_string (pwr_gov_to_string g) = pwr_gov_to_string g" "g_strstrip (pwr_gov_to_string g) = pwr_gov_to_string g"
    by (cases; simp; code_simp)+
qed

lemma reads_back_governor:
  assumes "sr_attribute r = PWR_ATTR_GOV" "unat (sr_value r) < 5"
    and "path_fmt E ''ht_governor_path'' [ArgLu (obj_os_id ht)] = Some (sr_path r)"
    and "v = sr_value r"
  shows "reads_back r (x86_ht_get_governor E ht) v"
  unfolding reads_back_def \<open>v = sr_value r\<close>
proof (intro allI impI, elim conjE)
  fix D f f' and w :: xworld
  assume wr: "write_attr_value D r f = (True, f')" and rd: "\<forall>p. readable f' p" and fs: "\<forall>n. sw_fs w n = f'"
  define g where "g = sint (ucast (sr_value r) :: 32 word)"
  obtain n where n: "sr_value r = word_of_nat n" "n < 5" by (rule that [of "unat (sr_value r)"]) (use assms(2) in simp_all)
  then have "n \<in> {0, 1, 2, 3, 4}" by auto
  then have g: "g = int n" by (auto simp: g_def n(1))
  then have range: "0 \<le> g" "g < PWR_NUM_GOV_NAMES" using n(2) by auto
  from wr assms(1) have "write_control (sr_path r) (pwr_gov_to_string g) f = (True, f')"
    by (simp add: write_attr_value_def write_governor_def file_write_string_def g_def)
  then have "files f' (sr_path r) = Some (pwr_gov_to_string g)" by (auto dest!: write_control_ok)
  with rd fs have "read_string_from_file (pe_lib E) (Some (sr_path r)) False w = (PWR_RET_SUCCESS, Some (pwr_gov_to_string g), None, tick w)"
    using gov_name_plain [OF range]
    by (simp add: read_string_from_file_def read_val_from_file_def g_file_get_contents_def fopen_r_def read_val_from_buf_def convert_buf_def)
  with assms(3) gov_roundtrip [OF range] n g
  show "\<exists>w'. x86_ht_get_governor E ht False w = Some (PWR_RET_SUCCESS, Some (sr_value r), None, w')"
    by (simp add: x86_ht_get_governor_def)
qed

subsection \<open>Idle states\<close>

lemma show_nat_inj: "show_nat m = show_nat n \<longleftrightarrow> m = n"
  using show_nat_digits by metis

lemma cstate_file_inj: "cstate_file p i = cstate_file p j \<longleftrightarrow> i = j"
  by (simp add: cstate_file_def show_nat_inj)

lemma show_bits: "show_int 1 = ''1''" "show_int 0 = ''0''" "show_nat (Suc 0) = ''1''" "show_nat 0 = ''0''"
  by code_simp+

lemma write_cstate_loop_files:
  assumes "write_cstate_loop p v i k f = (True, f')"
  shows "dirents f' = dirents f \<and> readable f' = readable f \<and>
    (\<forall>j. files f' (cstate_file p j) =
       (if i \<le> j \<and> j < i + k then Some (if j > v then ''1'' else ''0'') else files f (cstate_file p j)))"
  using assms
proof (induction k arbitrary: i f)
  case (Suc k)
  from Suc.prems obtain f1 where f1: "write_control (cstate_file p i) (if i > v then ''1'' else ''0'') f = (True, f1)"
    "write_cstate_loop p v (Suc i) k f1 = (True, f')"
    by (auto simp: file_write_uint64_def show_bits split: prod.splits bool.splits if_splits)
  from write_control_ok [OF f1(1)] Suc.IH [OF f1(2)] show ?case
    by (auto simp: cstate_file_inj not_less_eq_eq le_Suc_eq)
qed auto

lemma cstate_loop_reads:
  fixes w :: xworld
  assumes "\<And>i. path_fmt E ''ht_cstate_limit_path'' [ArgLu (obj_os_id ht), ArgLu i] = Some (cstate_file p (unat i))"
    and "\<forall>n. sw_fs w n = f" "\<forall>q. readable f q"
    and "\<forall>j. 1 \<le> j \<and> j < n \<longrightarrow> files f (cstate_file p j) = Some (if j > v then ''1'' else ''0'')"
    and "1 \<le> i" "i \<le> Suc v" "i + k = n" "v < n" "n < 2 ^ 64"
  shows "\<exists>w'. cstate_limit_loop E ht False (word_of_nat i) k None w = (PWR_RET_SUCCESS, word_of_nat (Suc v), None, w')"
  using assms(2,5-)
proof (induction k arbitrary: i w)
  case 0
  then have "i = Suc v" by simp
  then show ?case by simp
next
  case (Suc k)
  have u: "unat (word_of_nat i :: 64 word) = i" using Suc.prems by (simp add: unat_of_nat take_bit_nat_eq_self)
  define d :: "64 word" where "d = (if i > v then 1 else 0)"
  have "fopen_r (cstate_file p i) (now_fs w) = Some (show_nat (unat d))"
    using Suc.prems assms(3,4) by (simp add: fopen_r_def d_def show_bits)
  then have rd: "read_uint64_from_file (pe_lib E) (Some (cstate_file p i)) False w = (PWR_RET_SUCCESS, d, None, tick w)"
    by (rule read_shown) (simp_all add: d_def)
  have path: "path_fmt E ''ht_cstate_limit_path'' [ArgLu (obj_os_id ht), ArgLu (word_of_nat i)] = Some (cstate_file p i)"
    by (simp only: assms(1) u)
  show ?case
  proof (cases "i > v")
    case True
    then have "cstate_limit_loop E ht False (word_of_nat i) (Suc k) None w = (PWR_RET_SUCCESS, word_of_nat i, None, tick w)"
      using rd path by (simp add: d_def)
    moreover have "i = Suc v" using True Suc.prems by simp
    ultimately show ?thesis by blast
  next
    case False
    have "\<exists>w'. cstate_limit_loop E ht False (word_of_nat (Suc i)) k None (tick w) = (PWR_RET_SUCCESS, word_of_nat (Suc v), None, w')"
      using Suc.prems False by (intro Suc.IH) auto
    with False rd path show ?thesis by (simp add: d_def add.commute)
  qed
qed

lemma reads_back_cstate:
  assumes "sr_attribute r = PWR_ATTR_CSTATE_LIMIT"
    and "path_fmt E ''ht_cstate_path'' [ArgLu (obj_os_id ht)] = Some (sr_path r)"
    and "\<And>i. path_fmt E ''ht_cstate_limit_path'' [ArgLu (obj_os_id ht), ArgLu i] = Some (cstate_file (sr_path r) (unat i))"
    and "v = sr_value r"
  shows "reads_back r (x86_ht_get_cstate_limit E ht) v"
  unfolding reads_back_def \<open>v = sr_value r\<close>
proof (intro allI impI, elim conjE)
  fix D f f' and w :: xworld
  assume wr: "write_attr_value D r f = (True, f')" and rd: "\<forall>p. readable f' p" and fs: "\<forall>n. sw_fs w n = f'"
    and int: "\<forall>p. get_cstates_count p f < 2 ^ 31"
  let ?p = "sr_path r" and ?v = "unat (sr_value r)"
  define n where "n = get_cstates_count ?p f"
  from wr assms(1) have v: "?v < n" and loop: "write_cstate_loop ?p ?v 1 (n - 1) f = (True, f')"
    by (auto simp: write_attr_value_def write_cstate_limit_def n_def Let_def split: if_splits)
  note w1 = write_cstate_loop_files [OF loop]
  then have "get_cstates_count ?p f' = n" by (simp add: get_cstates_count_def n_def)
  with v obtain es where es: "dirents f' ?p = Some es" "length (filter (\<lambda>(nm, dir). dir \<and> take 5 nm = ''state'') es) = n"
    by (auto simp: get_cstates_count_def split: option.splits)
  have "n < 2 ^ 64" using spec [OF int, of ?p] by (simp add: n_def)
  then obtain w' where "cstate_limit_loop E ht False (word_of_nat 1) (n - 1) None (tick w) = (PWR_RET_SUCCESS, word_of_nat (Suc ?v), None, w')"
    using cstate_loop_reads [OF assms(3), of "tick w" f' n ?v 1 "n - 1"] w1 fs rd v by auto
  with es fs assms(2) show "\<exists>w'. x86_ht_get_cstate_limit E ht False w = Some (PWR_RET_SUCCESS, Some (sr_value r), None, w')"
    by (simp add: x86_ht_get_cstate_limit_def opendir_def)
qed

subsection \<open>The built-in paths\<close>

lemma unconfigured_catalog:
  assumes "fopen_r POWERAPI_SYSFILE_CFG_PATH fs = None"
  shows "sysfile backup (configure_sysfiles backup fs) = map_of backup"
proof
  fix key
  have "configure_sysfiles backup fs = map (\<lambda>(k, t). Some t) backup"
    using assms by (induction backup) (auto simp: configure_sysfiles_def fill_sysfiles_def)
  moreover have "Option.bind (map_of (zip (map fst bs) (map (\<lambda>(k, t). Some t) bs)) key) id = map_of bs key"
    for bs :: "(string \<times> string) list" by (induction bs) auto
  ultimately show "sysfile backup (configure_sysfiles backup fs) key = map_of backup key" by (simp add: sysfile_def)
qed

lemma catalog_formats:
  "map_of x86_sysfile_catalog ''ht_freq_req_path'' = Some (''/sys/devices/system/cpu/cpu'' @ ''%lu'' @ ''/cpufreq/scaling_setspeed'')"
  "map_of x86_sysfile_catalog ''ht_freq_limit_min_path'' = Some (''/sys/devices/system/cpu/cpu'' @ ''%lu'' @ ''/cpufreq/scaling_min_freq'')"
  "map_of x86_sysfile_catalog ''ht_freq_limit_max_path'' = Some (''/sys/devices/system/cpu/cpu'' @ ''%lu'' @ ''/cpufreq/scaling_max_freq'')"
  "map_of x86_sysfile_catalog ''ht_governor_path'' = Some (''/sys/devices/system/cpu/cpu'' @ ''%lu'' @ ''/cpufreq/scaling_governor'')"
  "map_of x86_sysfile_catalog ''ht_cstate_path'' = Some (''/sys/devices/system/cpu/cpu'' @ ''%lu'' @ ''/cpuidle'')"
  "map_of x86_sysfile_catalog ''ht_cstate_limit_path'' =
     Some (''/sys/devices/system/cpu/cpu'' @ ''%lu'' @ ''/cpuidle/state'' @ ''%lu'' @ ''/disable'')"
  by code_simp+

lemma printf_plain: "CHR ''%'' \<notin> set s \<Longrightarrow> printf (s @ fmt) args = map_option (append s) (printf fmt args)"
  by (induction s) (cases "printf fmt args"; auto)+

lemma printf_lu: "printf (''%lu'' @ fmt) (ArgLu n # args) = map_option (append (show_nat (unat n))) (printf fmt args)"
  by simp


lemma builtin_paths:
  assumes "pe_sys E = map_of x86_sysfile_catalog"
  defines "cpu \<equiv> \<lambda>i. ''/sys/devices/system/cpu/cpu'' @ show_nat (unat (i :: 64 word))"
  shows "path_fmt E ''ht_freq_req_path'' [ArgLu i] = Some (cpu i @ ''/cpufreq/scaling_setspeed'')"
    "path_fmt E ''ht_freq_limit_min_path'' [ArgLu i] = Some (cpu i @ ''/cpufreq/scaling_min_freq'')"
    "path_fmt E ''ht_freq_limit_max_path'' [ArgLu i] = Some (cpu i @ ''/cpufreq/scaling_max_freq'')"
    "path_fmt E ''ht_governor_path'' [ArgLu i] = Some (cpu i @ ''/cpufreq/scaling_governor'')"
    "path_fmt E ''ht_cstate_path'' [ArgLu i] = Some (cpu i @ ''/cpuidle'')"
    "path_fmt E ''ht_cstate_limit_path'' [ArgLu i, ArgLu j] = Some (cstate_file (cpu i @ ''/cpuidle'') (unat j))"
  by (simp_all only: g_strdup_printf_def assms(1) catalog_formats bind.bind_lunit printf_plain set_simps list.set printf_lu)
    (simp_all add: cpu_def cstate_file_def)


subsection \<open>An example\<close>

definition example_env :: penv where
  "example_env =
     \<lparr>pe_lib = \<lparr>c_strtod = (\<lambda>s. (0, s, False)), c_print_lf = (\<lambda>_. ''0''), c_oor = (\<lambda>_. 0)\<rparr>,
      pe_sys = sysfile x86_sysfile_catalog (configure_sysfiles x86_sysfile_catalog example_files), pe_cpuid = 0x306f2\<rparr>"

definition example_ht :: ht_t where
  "example_ht = \<lparr>obj_type = PWR_OBJ_HT, obj_os_id = 3, obj_name = ''ht.3'', obj_gnode = None, ht_ops = True\<rparr>"

definition example_xworld :: xworld where
  "example_xworld = ipcworld.extend (example_ipcworld 0)
     \<lparr>xw_objs = Map.empty, xw_md = x86_metadata_zero, xw_ipc = Map.empty, xw_fault = False\<rparr>"


end
