(* ===== verification/Hints.thy ===== *)
theory Hints
  imports Group_Inv Text_Numbers
begin

text \<open>
  Hint regions of applications: \<^verbatim>\<open>lib/hints/hint.c\<close> and the first part of
  \<^verbatim>\<open>lib/rolesys/app_os.c\<close>. A hint lives at an address like the other structures of the library and has
  three references to it: its key in the handle map, its name in the sequence of names of its
  context, and its entry in the sequence of hints of its object. The state \<open>hints\<close> has the members
  of contexts and objects that only this component uses (\<^verbatim>\<open>hintnames\<close>, \<^verbatim>\<open>hintunique\<close>,
  \<^verbatim>\<open>obj.hints\<close>), and the log to which the implementation reports hints.
\<close>

record hint_t =
  hint_ctxptr :: "addr option"
  hint_objptr :: "addr option"
  hint_object :: key
  hint_name :: "string option"
  hint_hint :: int
  hint_level :: int

definition zero_hint :: hint_t where
  "zero_hint = \<lparr>hint_ctxptr = None, hint_objptr = None, hint_object = 0, hint_name = None, hint_hint = 0, hint_level = 0\<rparr>"

datatype hint_event = Destroyed string | Started string int int | Stopped string | Progressed string fp

record hints =
  hs_hints :: "addr \<rightharpoonup> hint_t"
  hs_obj :: "addr \<rightharpoonup> addr list"
  hs_names :: "addr \<rightharpoonup> string list"
  hs_unique :: "addr \<Rightarrow> 64 word"
  hs_logctx :: bool
  hs_initcount :: int
  hs_log :: "hint_event list"

abbreviation PWR_NUM_REGION_HINTS :: int where "PWR_NUM_REGION_HINTS \<equiv> 8"
abbreviation PWR_NUM_REGION_INTENSITIES :: int where "PWR_NUM_REGION_INTENSITIES \<equiv> 6"

subsection \<open>The log of hints (hint.c)\<close>

definition app_hint_term :: "hints \<Rightarrow> hints" where
  "app_hint_term H =
     (if hs_initcount H = 0 then H
      else
        let n = hs_initcount H - 1; H = H\<lparr>hs_initcount := n\<rparr> in
        if n > 0 then H else H\<lparr>hs_logctx := False\<rparr>)"

text \<open>\<open>opens\<close>: a path for the log is set in the environment and the log can be started.\<close>

definition app_hint_init :: "bool \<Rightarrow> hints \<Rightarrow> hints" where
  "app_hint_init opens H =
     (let H = H\<lparr>hs_initcount := hs_initcount H + 1\<rparr> in
      if hs_logctx H then H else H\<lparr>hs_logctx := opens\<rparr>)"

definition hint_message :: "hint_event \<Rightarrow> hints \<Rightarrow> hints" where
  "hint_message e H = (if hs_logctx H then H\<lparr>hs_log := hs_log H @ [e]\<rparr> else H)"

definition app_hint_destroy :: "string \<Rightarrow> hints \<Rightarrow> int \<times> hints" where
  "app_hint_destroy name H = (PWR_RET_SUCCESS, hint_message (Destroyed name) H)"

definition app_hint_start :: "string \<Rightarrow> int \<Rightarrow> int \<Rightarrow> hints \<Rightarrow> int \<times> hints" where
  "app_hint_start name h level H = (PWR_RET_SUCCESS, hint_message (Started name h level) H)"

definition app_hint_stop :: "string \<Rightarrow> hints \<Rightarrow> int \<times> hints" where
  "app_hint_stop name H = (PWR_RET_SUCCESS, hint_message (Stopped name) H)"

definition app_hint_progress :: "string \<Rightarrow> fp \<Rightarrow> hints \<Rightarrow> int \<times> hints" where
  "app_hint_progress name fraction H = (PWR_RET_SUCCESS, hint_message (Progressed name fraction) H)"

subsection \<open>Sorted sequences\<close>

fun strcmp :: "string \<Rightarrow> string \<Rightarrow> int" where
  "strcmp [] [] = 0"
| "strcmp [] (b # bs) = - 1"
| "strcmp (a # as) [] = 1"
| "strcmp (a # as) (b # bs) = (if a = b then strcmp as bs else if (of_char a :: nat) < of_char b then - 1 else 1)"

definition sortnames :: "string \<Rightarrow> string \<Rightarrow> int" where
  "sortnames s1 s2 = strcmp s1 s2"

definition name_at :: "hints \<Rightarrow> addr \<Rightarrow> string" where
  "name_at H h = (case Option.bind (hs_hints H h) hint_name of None \<Rightarrow> [] | Some n \<Rightarrow> n)"

definition sorthints :: "hints \<Rightarrow> addr \<Rightarrow> addr \<Rightarrow> int" where
  "sorthints H h1 h2 = strcmp (name_at H h1) (name_at H h2)"

definition seq_insert_sorted :: "('a \<Rightarrow> 'a \<Rightarrow> int) \<Rightarrow> 'a \<Rightarrow> 'a list \<Rightarrow> 'a list" where
  "seq_insert_sorted cmp x xs = takeWhile (\<lambda>y. cmp y x \<le> 0) xs @ x # dropWhile (\<lambda>y. cmp y x \<le> 0) xs"

definition seq_lookup :: "('a \<Rightarrow> 'a \<Rightarrow> int) \<Rightarrow> 'a \<Rightarrow> 'a list \<Rightarrow> 'a option" where
  "seq_lookup cmp x xs = find (\<lambda>y. cmp y x = 0) xs"

text \<open>The comparison of hints reads the names of all of them.\<close>

definition all_named :: "hints \<Rightarrow> addr list \<Rightarrow> bool" where
  "all_named H hs = list_all (\<lambda>h. Option.bind (hs_hints H h) hint_name \<noteq> None) hs"

subsection \<open>Creation and destruction (app_os.c)\<close>

definition del_hint :: "addr \<Rightarrow> lib \<Rightarrow> hints \<Rightarrow> (lib \<times> hints) option" where
  "del_hint h s H =
     do {
       x \<leftarrow> hs_hints H h;
       c \<leftarrow> hint_ctxptr x;
       names \<leftarrow> hs_names H c;
       name \<leftarrow> hint_name x;
       let H = (case seq_lookup sortnames name names of
                  None \<Rightarrow> H | Some n \<Rightarrow> H\<lparr>hs_names := (hs_names H)(c \<mapsto> remove1 n names)\<rparr>);
       r \<leftarrow> refs s h;
       s \<leftarrow> (if ref_key r \<noteq> 0 then map_option snd (opaque_map_remove (ref_key r) s) else Some s);
       Some (s\<lparr>refs := (refs s)(h := None)\<rparr>, H\<lparr>hs_hints := (hs_hints H)(h := None)\<rparr>)
     }"

text \<open>A hint that cannot get a key is destroyed before it has a context, which reads a NULL pointer.\<close>

definition new_hint :: "lib \<Rightarrow> hints \<Rightarrow> (addr option \<times> lib \<times> hints) option" where
  "new_hint s H =
     (let (h, s) = alloc_ref s; H = H\<lparr>hs_hints := (hs_hints H)(h \<mapsto> zero_hint)\<rparr> in
      do {
        (k, s) \<leftarrow> opaque_map_insert OPAQUE_HINT h s;
        if k = 0 then do { (s, H) \<leftarrow> del_hint h s H; Some (None, s, H) } else Some (Some h, s, H)
      })"

definition init_hints :: "addr list" where
  "init_hints = []"

fun destroy_hints :: "addr list \<Rightarrow> lib \<Rightarrow> hints \<Rightarrow> (lib \<times> hints) option" where
  "destroy_hints [] s H = Some (s, H)"
| "destroy_hints (h # hs) s H = do { (s, H) \<leftarrow> del_hint h s H; destroy_hints hs s H }"

text \<open>The buffer for a generated name has 128 bytes.\<close>

definition hint_localname :: "string \<Rightarrow> 64 word \<Rightarrow> string" where
  "hint_localname oname u = take 127 (''hint.'' @ oname @ ''.'' @ show_nat (unat u))"

partial_function (option) unique_name :: "string \<Rightarrow> string list \<Rightarrow> 64 word \<Rightarrow> (string \<times> 64 word) option" where
  "unique_name oname names u =
     (let u = u + 1; localname = hint_localname oname u in
      if seq_lookup sortnames localname names \<noteq> None then unique_name oname names u else Some (localname, u))"

text \<open>
  The checks and the choice of the name; \<open>Some None\<close> is a failure. \<open>want_id\<close> says whether a place
  for the identifier was given.
\<close>

definition hint_region :: "key \<Rightarrow> string option \<Rightarrow> bool \<Rightarrow> int \<Rightarrow> int \<Rightarrow> lib \<Rightarrow> hints \<Rightarrow> (addr \<times> addr \<times> string \<times> hints) option option" where
  "hint_region obj name want_id h level s H =
     (if \<not> want_id then Some None
      else if h < 0 \<or> h \<ge> PWR_NUM_REGION_HINTS then Some None
      else if level < 0 \<or> level \<ge> PWR_NUM_REGION_INTENSITIES then Some None
      else do {
        objptr \<leftarrow> lookup_object s (OPAQUE_GET_DATA_KEY obj);
        case objptr of
          None \<Rightarrow> Some None
        | Some oa \<Rightarrow>
            do {
              ctxptr \<leftarrow> lookup_context s (OPAQUE_GET_CONTEXT_KEY obj);
              case ctxptr of
                None \<Rightarrow> Some None
              | Some c \<Rightarrow>
                  do {
                    ob \<leftarrow> objs s oa;
                    names \<leftarrow> hs_names H c;
                    case name of
                      None \<Rightarrow>
                        do {
                          (localname, u) \<leftarrow> unique_name (obj_name ob) names (hs_unique H c);
                          Some (Some (oa, c, localname, H\<lparr>hs_unique := (hs_unique H)(c := u)\<rparr>))
                        }
                    | Some n \<Rightarrow> if seq_lookup sortnames n names \<noteq> None then Some None else Some (Some (oa, c, n, H))
                  }
            }
      })"

definition PWR_AppHintCreate ::
  "key \<Rightarrow> string option \<Rightarrow> bool \<Rightarrow> int \<Rightarrow> int \<Rightarrow> lib \<Rightarrow> hints \<Rightarrow> (int \<times> key option \<times> lib \<times> hints) option" where
  "PWR_AppHintCreate obj name want_id h level s H =
     do {
       region \<leftarrow> hint_region obj name want_id h level s H;
       case region of
         None \<Rightarrow> Some (PWR_RET_FAILURE, None, s, H)
       | Some (oa, c, n, H) \<Rightarrow>
           do {
             (ha, s, H) \<leftarrow> new_hint s H;
             case ha of
               None \<Rightarrow> Some (PWR_RET_FAILURE, None, s, H)
             | Some ha \<Rightarrow>
                 do {
                   names \<leftarrow> hs_names H c;
                   hs \<leftarrow> hs_obj H oa;
                   let H = H\<lparr>hs_hints := (hs_hints H)(ha \<mapsto>
                               \<lparr>hint_ctxptr = Some c, hint_objptr = Some oa, hint_object = obj, hint_name = Some n,
                                hint_hint = h, hint_level = level\<rparr>),
                             hs_names := (hs_names H)(c \<mapsto> seq_insert_sorted sortnames n names)\<rparr>;
                   _ \<leftarrow> (if all_named H hs then Some () else None);
                   let H = H\<lparr>hs_obj := (hs_obj H)(oa \<mapsto> seq_insert_sorted (sorthints H) ha hs)\<rparr>;
                   rc \<leftarrow> refs s c;
                   rh \<leftarrow> refs s ha;
                   Some (PWR_RET_SUCCESS, Some (OPAQUE_GENERATE (ref_key rc) (ref_key rh)), s, H)
                 }
           }
     }"

definition lookup_hint :: "lib \<Rightarrow> key \<Rightarrow> addr option option" where
  "lookup_hint s k = opaque_map_lookup_type s k OPAQUE_HINT"

definition PWR_AppHintDestroy :: "key \<Rightarrow> lib \<Rightarrow> hints \<Rightarrow> (int \<times> lib \<times> hints) option" where
  "PWR_AppHintDestroy rid s H =
     do {
       hintptr \<leftarrow> lookup_hint s (OPAQUE_GET_DATA_KEY rid);
       case hintptr of
         None \<Rightarrow> Some (PWR_RET_FAILURE, s, H)
       | Some ha \<Rightarrow>
           do {
             x \<leftarrow> hs_hints H ha;
             name \<leftarrow> hint_name x;
             let (r, H) = app_hint_destroy name H;
             if r \<noteq> PWR_RET_SUCCESS then Some (PWR_RET_FAILURE, s, H)
             else do {
               oa \<leftarrow> hint_objptr x;
               hs \<leftarrow> hs_obj H oa;
               _ \<leftarrow> (if all_named H hs then Some () else None);
               case seq_lookup (sorthints H) ha hs of
                 None \<Rightarrow> do { (s, H) \<leftarrow> del_hint ha s H; Some (PWR_RET_FAILURE, s, H) }
               | Some found \<Rightarrow>
                   do {
                     let H = H\<lparr>hs_obj := (hs_obj H)(oa \<mapsto> remove1 found hs)\<rparr>;
                     (s, H) \<leftarrow> del_hint found s H;
                     Some (PWR_RET_SUCCESS, s, H)
                   }
             }
           }
     }"

text \<open>The three calls that report about a region have the same body.\<close>

definition on_hint :: "(string \<Rightarrow> int \<Rightarrow> int \<Rightarrow> hints \<Rightarrow> int \<times> hints) \<Rightarrow> key \<Rightarrow> lib \<Rightarrow> hints \<Rightarrow> (int \<times> hints) option" where
  "on_hint f rid s H =
     do {
       hintptr \<leftarrow> lookup_hint s (OPAQUE_GET_DATA_KEY rid);
       case hintptr of
         None \<Rightarrow> Some (PWR_RET_FAILURE, H)
       | Some ha \<Rightarrow>
           do { x \<leftarrow> hs_hints H ha; name \<leftarrow> hint_name x; Some (f name (hint_hint x) (hint_level x) H) }
     }"

definition PWR_AppHintStart :: "key \<Rightarrow> lib \<Rightarrow> hints \<Rightarrow> (int \<times> hints) option" where
  "PWR_AppHintStart rid = on_hint app_hint_start rid"

definition PWR_AppHintStop :: "key \<Rightarrow> lib \<Rightarrow> hints \<Rightarrow> (int \<times> hints) option" where
  "PWR_AppHintStop rid = on_hint (\<lambda>name _ _. app_hint_stop name) rid"

definition PWR_AppHintProgress :: "key \<Rightarrow> fp \<Rightarrow> lib \<Rightarrow> hints \<Rightarrow> (int \<times> hints) option" where
  "PWR_AppHintProgress rid fraction = on_hint (\<lambda>name _ _. app_hint_progress name fraction) rid"

end
