(* ===== verification/Frames.thy ===== *)
theory Frames
  imports Group_Inv
begin

text \<open>
  What creating and releasing one structure does to the handle map and the rest of the state, in
  the form in which the components use it that manage structures of their own: objects,
  contexts and hints.
\<close>

definition refs_fresh :: "lib \<Rightarrow> bool" where
  "refs_fresh s \<longleftrightarrow> (\<forall>a\<ge>next_addr s. refs s a = None)"

text \<open>The state differs from another only in the handles.\<close>

definition same_but_handles :: "lib \<Rightarrow> lib \<Rightarrow> bool" where
  "same_but_handles s s' \<longleftrightarrow>
     next_addr s' = next_addr s \<and> links s' = links s \<and> ctxs s' = ctxs s \<and> grps s' = grps s \<and> objs s' = objs s \<and>
     statuses s' = statuses s \<and> stats s' = stats s \<and> gnodes s' = gnodes s"

lemma insert_frame: "opaque_map_insert t a s = Some (k, s') \<Longrightarrow> same_but_handles s s'"
  by (auto simp: opaque_map_insert_def same_but_handles_def split: option.splits bind_splits)

lemma remove_frame: "opaque_map_remove k s = Some (b, s') \<Longrightarrow> same_but_handles s s'"
  by (auto simp: opaque_map_remove_def same_but_handles_def split: option.splits bind_splits)

text \<open>A new structure at address \<open>a\<close> has been entered under key \<open>k\<close>.\<close>

definition entered :: "lib \<Rightarrow> addr \<Rightarrow> opaque_type_t \<Rightarrow> key \<Rightarrow> lib \<Rightarrow> bool" where
  "entered s a t k s' \<longleftrightarrow>
     k \<noteq> 0 \<and> key32 k \<and> opaque_map_lookup s k = None \<and> opaque_inv s' \<and> opaque_map s' \<noteq> None \<and>
     refs s' = (refs s)(a \<mapsto> \<lparr>ref_type = t, ref_key = k\<rparr>) \<and>
     (\<forall>k'. k' \<noteq> 0 \<longrightarrow> opaque_map_lookup s' k' = (if k' = k then Some a else opaque_map_lookup s k'))"

lemma enter_new:
  assumes "opaque_inv s" "has_draw s" "t \<noteq> OPAQUE_INVALID" "refs s a = None"
    and s0: "opaque_map s0 = opaque_map s" "refs s0 = (refs s)(a \<mapsto> zero_ref)"
  shows "\<exists>k s'. opaque_map_insert t a s0 = Some (k, s') \<and> entered s a t k s' \<and> same_but_handles s0 s'"
proof -
  obtain m n where m: "opaque_map s = Some m" "fresh_draw (rand_seq m) (table m) n" using assms(2) by (auto simp: has_draw_def)
  have inv0: "opaque_inv s0" by (rule opaque_inv_alloc [OF assms(1,4) s0])
  have look0: "opaque_map_lookup s0 k' = opaque_map_lookup s k'" for k' using s0(1) by (simp add: opaque_map_lookup_def)
  from insert_returns [of s0 m n a zero_ref t] m s0 obtain k s' where
    ins: "opaque_map_insert t a s0 = Some (k, s')" "k \<noteq> 0" by auto
  have un: "unkeyed s0 a" using s0 by (simp add: unkeyed_def zero_ref_def)
  obtain r where r: "refs s0 a = Some r" "refs s' = (refs s0)(a \<mapsto> r\<lparr>ref_type := t, ref_key := k\<rparr>)"
    by (rule insert_refs [OF ins])
  have "opaque_map s' \<noteq> None"
    using ins m s0(1) by (auto simp: opaque_map_insert_def split: bind_splits)
  moreover have "opaque_map_lookup s' k' = (if k' = k then Some a else opaque_map_lookup s k')" if "k' \<noteq> 0" for k'
    using lookup_after_insert [OF ins that] look0 by simp
  moreover have "refs s' = (refs s)(a \<mapsto> \<lparr>ref_type = t, ref_key = k\<rparr>)" using r s0(2) by (auto simp: zero_ref_def)
  ultimately have "entered s a t k s'"
    unfolding entered_def using ins insert_key_fresh [OF ins] look0 insert_inv [OF ins inv0 un assms(3)] by simp
  with ins insert_frame [OF ins(1)] show ?thesis by blast
qed

text \<open>The structure at address \<open>a\<close> has been taken out of the handle map and released.\<close>

definition released :: "lib \<Rightarrow> addr \<Rightarrow> lib \<Rightarrow> bool" where
  "released s a s' \<longleftrightarrow>
     opaque_inv s' \<and> (opaque_map s \<noteq> None \<longrightarrow> opaque_map s' \<noteq> None) \<and> refs s' = (refs s)(a := None) \<and>
     (\<forall>k'. opaque_map_lookup s' k' = (if k' = key_at s a \<and> k' \<noteq> 0 then None else opaque_map_lookup s k'))"

lemma release_keyed:
  assumes "opaque_inv s" "has_type s a t"
  obtains s1 where "opaque_map_remove (key_at s a) s = Some (True, s1)" "same_but_handles s s1"
    "released s a (s1\<lparr>refs := (refs s1)(a := None)\<rparr>)"
proof -
  from assms(2) obtain r where r: "refs s a = Some r" "ref_key r \<noteq> 0" "key_at s a = ref_key r"
    by (auto simp: has_type_def key_at_def)
  have look: "opaque_map_lookup s (key_at s a) = Some a" using opaque_inv_keyed [OF assms(1) r(1,2)] r(3) by simp
  have k: "key_at s a \<noteq> 0" using r by simp
  from look remove_returns [OF assms(1) k] obtain s1 where
    rem: "opaque_map_remove (key_at s a) s = Some (True, s1)" by auto
  have refs1: "refs s1 = (refs s)(a \<mapsto> r\<lparr>ref_type := OPAQUE_INVALID, ref_key := 0\<rparr>)"
    using remove_refs [OF rem] look r(1) by simp
  let ?s = "s1\<lparr>refs := (refs s1)(a := None)\<rparr>"
  have "opaque_inv ?s"
    by (rule opaque_inv_free [OF remove_inv [OF rem assms(1) k], of a]) (simp_all add: refs1 unkeyed_def)
  moreover have "opaque_map_lookup ?s k' = (if k' = key_at s a \<and> k' \<noteq> 0 then None else opaque_map_lookup s k')" for k'
    using lookup_after_remove [OF rem, of k'] r by (simp add: opaque_map_lookup_def)
  moreover have "opaque_map s \<noteq> None \<longrightarrow> opaque_map ?s \<noteq> None"
    using rem by (auto simp: opaque_map_remove_def split: option.splits bind_splits)
  ultimately have "released s a ?s" using refs1 by (simp add: released_def)
  with that rem remove_frame [OF rem] show ?thesis by blast
qed

lemma entered_types:
  assumes "entered s a t k s'" "refs s a = None"
  shows "has_type s' b u \<longleftrightarrow> (if b = a then u = t else has_type s b u)" "key_at s' b = (if b = a then k else key_at s b)"
  using assms by (auto simp: entered_def has_type_def key_at_def)

lemma released_types:
  assumes "released s a s'"
  shows "has_type s' b u \<longleftrightarrow> b \<noteq> a \<and> has_type s b u" "b \<noteq> a \<Longrightarrow> key_at s' b = key_at s b"
  using assms by (auto simp: released_def has_type_def key_at_def)

lemma entered_lookup_type:
  assumes "entered s a t k s'" "refs s a = None" "opaque_inv s" "k' \<noteq> 0"
  shows "opaque_map_lookup_type s' k' u = (if k' = k then Some (if u = t then Some a else None) else opaque_map_lookup_type s k' u)"
proof (cases "opaque_map_lookup s k'")
  case (Some b)
  with assms(2,3,4) have "b \<noteq> a" by (metis opaque_invD key_ok_nonzero option.distinct(1))
  with Some assms(1,4) show ?thesis by (auto simp: entered_def opaque_map_lookup_type_def)
qed (use assms(1,4) in \<open>auto simp: entered_def opaque_map_lookup_type_def\<close>)

lemma released_lookup_type:
  assumes "released s a s'" "opaque_inv s" "has_type s a t" "k' \<noteq> 0"
  shows "opaque_map_lookup_type s' k' u = (if k' = key_at s a then Some None else opaque_map_lookup_type s k' u)"
proof -
  have k: "key_at s a \<noteq> 0" using assms(3) by (auto simp: has_type_def key_at_def)
  show ?thesis
  proof (cases "k' = key_at s a")
    case False
    have "b \<noteq> a" if "opaque_map_lookup s k' = Some b" for b
    proof
      assume "b = a"
      with that assms(2,4) obtain r where "refs s a = Some r" "ref_key r = k'" by (metis opaque_invD key_ok_nonzero)
      then show False using False by (simp add: key_at_def)
    qed
    with assms(1) False show ?thesis by (auto simp: released_def opaque_map_lookup_type_def split: option.splits)
  qed (use assms(1) k in \<open>simp add: released_def opaque_map_lookup_type_def\<close>)
qed

end
