(* ===== verification/Hint_Properties.thy ===== *)
theory Hint_Properties
  imports Hints Frames Example_Lib "HOL-Library.List_Lexorder"
begin

text \<open>
  The hint regions of an application refine a map from identifiers to regions. The invariant ties
  together the three references to each hint: its handle, its name in the context and its entry
  in the object.
\<close>

subsection \<open>Names in order\<close>

definition nkey :: "string \<Rightarrow> nat list" where
  "nkey = map of_char"

lemma nkey_inj [simp]: "nkey a = nkey b \<longleftrightarrow> a = b"
  by (simp add: nkey_def inj_map_eq_map inj_def)

lemma strcmp_order: "strcmp a b = 0 \<longleftrightarrow> a = b" "strcmp a b \<le> 0 \<longleftrightarrow> nkey a \<le> nkey b"
  by (induction a b rule: strcmp.induct) (auto simp: nkey_def)

definition ordered_by :: "('a \<Rightarrow> string) \<Rightarrow> 'a list \<Rightarrow> bool" where
  "ordered_by f xs \<longleftrightarrow> sorted_wrt (\<lambda>a b. nkey (f a) < nkey (f b)) xs"

lemma ordered_by_distinct: "ordered_by f xs \<Longrightarrow> distinct xs"
  by (induction xs) (auto simp: ordered_by_def)

lemma ordered_by_inj: "ordered_by f xs \<Longrightarrow> a \<in> set xs \<Longrightarrow> b \<in> set xs \<Longrightarrow> f a = f b \<Longrightarrow> a = b"
  by (induction xs) (auto simp: ordered_by_def)

lemma ordered_by_remove1: "ordered_by f xs \<Longrightarrow> ordered_by f (remove1 x xs)"
  by (induction xs) (auto simp: ordered_by_def dest: set_remove1_subset [THEN subsetD])

lemma ordered_by_cong: "(\<And>a. a \<in> set xs \<Longrightarrow> f a = g a) \<Longrightarrow> ordered_by f xs = ordered_by g xs"
  by (induction xs) (auto simp: ordered_by_def)

lemma set_seq_insert: "set (seq_insert_sorted cmp x xs) = insert x (set xs)"
proof -
  have "set (takeWhile P xs) \<union> set (dropWhile P xs) = set xs" for P
    by (metis set_append takeWhile_dropWhile_id)
  then show ?thesis by (auto simp: seq_insert_sorted_def)
qed

lemma ordered_by_insert:
  assumes "ordered_by f xs" "f x \<notin> f ` set xs" "\<And>y. cmp y x \<le> 0 \<longleftrightarrow> nkey (f y) \<le> nkey (f x)"
  shows "ordered_by f (seq_insert_sorted cmp x xs)"
  using assms(1,2)
proof (induction xs)
  case (Cons y ys)
  show ?case
  proof (cases "cmp y x \<le> 0")
    case True
    then have "nkey (f y) < nkey (f x)" using Cons.prems(2) assms(3) by (auto simp: order.strict_iff_order)
    moreover have "ordered_by f (seq_insert_sorted cmp x ys)" using Cons by (auto simp: ordered_by_def)
    ultimately show ?thesis using True Cons.prems(1) set_seq_insert [of cmp x ys]
      by (auto simp: seq_insert_sorted_def ordered_by_def)
  next
    case False
    then have "nkey (f x) < nkey (f y)" using assms(3) by auto
    with Cons.prems(1) False show ?thesis by (auto simp: seq_insert_sorted_def ordered_by_def)
  qed
qed (simp add: seq_insert_sorted_def ordered_by_def)

lemma lookup_name: "seq_lookup sortnames n names = (if n \<in> set names then Some n else None)"
proof (cases "n \<in> set names")
  case True
  then show ?thesis unfolding seq_lookup_def sortnames_def
    by (induction names) (auto simp: strcmp_order)
next
  case False
  then show ?thesis unfolding seq_lookup_def sortnames_def by (auto simp: find_None_iff strcmp_order)
qed

lemma lookup_hint_entry:
  assumes "ordered_by (name_at H) hs" "h \<in> set hs"
  shows "seq_lookup (sorthints H) h hs = Some h"
proof -
  have "(\<exists>y. y \<in> set hs \<and> sorthints H y h = 0)" using assms(2) by (auto simp: sorthints_def strcmp_order)
  then obtain g where g: "find (\<lambda>y. sorthints H y h = 0) hs = Some g"
    by (cases "find (\<lambda>y. sorthints H y h = 0) hs") (auto simp: find_None_iff)
  then have "g \<in> set hs" "name_at H g = name_at H h"
    by (auto simp: find_Some_iff sorthints_def strcmp_order)
  with ordered_by_inj [OF assms(1) this(1) assms(2) this(2)] g show ?thesis by (simp add: seq_lookup_def)
qed

subsection \<open>Generated names\<close>

lemma unique_name_returns:
  assumes "hint_localname oname (u + of_nat (Suc k)) \<notin> set names"
  shows "\<exists>n u'. unique_name oname names u = Some (n, u') \<and> n \<notin> set names"
  using assms
proof (induction k arbitrary: u)
  case 0
  then show ?case by (subst unique_name.simps) (simp add: Let_def lookup_name)
next
  case (Suc k)
  show ?case
  proof (cases "hint_localname oname (u + 1) \<in> set names")
    case True
    have "hint_localname oname (u + 1 + of_nat (Suc k)) \<notin> set names" using Suc.prems by (simp add: algebra_simps)
    from Suc.IH [OF this] True show ?thesis by (subst unique_name.simps) (simp add: Let_def lookup_name)
  qed (subst unique_name.simps, simp add: Let_def lookup_name)
qed

lemma digits_bound: "length (show_nat n) \<le> k" if "n < 10 ^ k" "0 < k"
  using that
proof (induction n arbitrary: k rule: show_nat.induct)
  case (1 n)
  show ?case
  proof (cases "n < 10")
    case False
    with 1(2) have "1 < k" by (cases k; cases "k - 1") auto
    then obtain j where k: "k = Suc j" "0 < j" by (cases k) auto
    with 1(2) have "n div 10 < 10 ^ j" by auto
    from 1(1) [OF False this k(2)] k show ?thesis by (simp add: show_nat.simps [of n] False)
  qed (use 1 in \<open>simp add: show_nat.simps [of n]\<close>)
qed

lemma show_nat_eq: "show_nat a = show_nat b \<longleftrightarrow> a = b"
  using show_nat_digits [of a] show_nat_digits [of b] by metis

lemma localname_whole:
  assumes "length oname \<le> 100"
  shows "hint_localname oname u = ''hint.'' @ oname @ ''.'' @ show_nat (unat u)"
proof -
  have "unat u < 2 ^ 64" using unsigned_less [of u] by simp
  then have "unat u < 10 ^ 20" by simp
  then have "length (show_nat (unat u)) \<le> 20" by (intro digits_bound) auto
  with assms show ?thesis by (simp add: hint_localname_def)
qed

lemma generated_name:
  assumes "length oname \<le> 100" "length names < 2 ^ 64 - 1"
  shows "\<exists>n u'. unique_name oname names u = Some (n, u') \<and> n \<notin> set names"
proof -
  let ?f = "\<lambda>k. hint_localname oname (u + of_nat (Suc k))"
  have "inj_on ?f {..length names}"
  proof (rule inj_onI)
    fix i j assume ij: "i \<in> {..length names}" "j \<in> {..length names}" "?f i = ?f j"
    then have "unat (u + of_nat (Suc i)) = unat (u + of_nat (Suc j))"
      by (simp add: localname_whole [OF assms(1)] show_nat_eq del: of_nat_Suc)
    then have "u + of_nat (Suc i) = u + of_nat (Suc j)" by (rule word_unat_eq_iff [THEN iffD2])
    then have "(of_nat i :: 64 word) = of_nat j" by simp
    then have "unat (of_nat i :: 64 word) = unat (of_nat j :: 64 word)" by simp
    with ij assms(2) show "i = j" by (simp add: unsigned_of_nat take_bit_nat_eq_self)
  qed
  then have "card (?f ` {..length names}) = Suc (length names)" by (simp add: card_image)
  moreover have "card (set names) \<le> length names" by (rule card_length)
  ultimately have "\<not> ?f ` {..length names} \<subseteq> set names" using card_mono [of "set names" "?f ` {..length names}"] by auto
  then obtain k where "?f k \<notin> set names" by auto
  then show ?thesis by (rule unique_name_returns)
qed

subsection \<open>The invariant\<close>

text \<open>
  \<open>own\<close> is the context to which an object belongs. A hint that is created through a handle that names
  another context breaks the invariant; see the end of this theory.
\<close>

definition hint_ok :: "(addr \<Rightarrow> addr) \<Rightarrow> hints \<Rightarrow> addr \<Rightarrow> hint_t \<Rightarrow> bool" where
  "hint_ok own H h x \<longleftrightarrow>
     (\<exists>oa n names hs. hint_objptr x = Some oa \<and> hint_ctxptr x = Some (own oa) \<and> hint_name x = Some n \<and>
        hs_names H (own oa) = Some names \<and> n \<in> set names \<and> hs_obj H oa = Some hs \<and> h \<in> set hs)"

definition hint_inv :: "(addr \<Rightarrow> addr) \<Rightarrow> lib \<Rightarrow> hints \<Rightarrow> bool" where
  "hint_inv own s H \<longleftrightarrow>
     opaque_inv s \<and> opaque_map s \<noteq> None \<and> refs_fresh s \<and>
     (\<forall>h. has_type s h OPAQUE_HINT \<longleftrightarrow> hs_hints H h \<noteq> None) \<and>
     (\<forall>h x. hs_hints H h = Some x \<longrightarrow> hint_ok own H h x) \<and>
     (\<forall>h g x y. hs_hints H h = Some x \<longrightarrow> hs_hints H g = Some y \<longrightarrow> hint_ctxptr x = hint_ctxptr y \<longrightarrow>
        hint_name x = hint_name y \<longrightarrow> h = g) \<and>
     (\<forall>oa hs. hs_obj H oa = Some hs \<longrightarrow> ordered_by (name_at H) hs \<and>
        (\<forall>h \<in> set hs. \<exists>x. hs_hints H h = Some x \<and> hint_objptr x = Some oa)) \<and>
     (\<forall>c names. hs_names H c = Some names \<longrightarrow> ordered_by (\<lambda>n. n) names \<and>
        (\<forall>n \<in> set names. \<exists>h x. hs_hints H h = Some x \<and> hint_ctxptr x = Some c \<and> hint_name x = Some n)) \<and>
     (\<forall>c. has_type s c OPAQUE_CONTEXT \<longrightarrow> hs_names H c \<noteq> None) \<and>
     (\<forall>a. has_type s a OPAQUE_OBJECT \<longrightarrow> objs s a \<noteq> None \<and> hs_obj H a \<noteq> None)"

lemma hint_invD:
  assumes "hint_inv own s H"
  shows "opaque_inv s" "opaque_map s \<noteq> None" "refs_fresh s"
    "has_type s h OPAQUE_HINT \<longleftrightarrow> hs_hints H h \<noteq> None"
    "hs_hints H h = Some x \<Longrightarrow> hint_ok own H h x"
    "hs_hints H h = Some x \<Longrightarrow> hs_hints H g = Some y \<Longrightarrow> hint_ctxptr x = hint_ctxptr y \<Longrightarrow> hint_name x = hint_name y \<Longrightarrow> h = g"
    "hs_obj H oa = Some hs \<Longrightarrow> ordered_by (name_at H) hs"
    "hs_obj H oa = Some hs \<Longrightarrow> h \<in> set hs \<Longrightarrow> \<exists>x. hs_hints H h = Some x \<and> hint_objptr x = Some oa"
    "hs_names H c = Some names \<Longrightarrow> ordered_by (\<lambda>n. n) names"
    "hs_names H c = Some names \<Longrightarrow> n \<in> set names \<Longrightarrow> \<exists>h x. hs_hints H h = Some x \<and> hint_ctxptr x = Some c \<and> hint_name x = Some n"
    "has_type s c OPAQUE_CONTEXT \<Longrightarrow> hs_names H c \<noteq> None"
    "has_type s a OPAQUE_OBJECT \<Longrightarrow> objs s a \<noteq> None \<and> hs_obj H a \<noteq> None"
  using assms unfolding hint_inv_def by blast+

lemma hint_okE:
  assumes "hint_ok own H h x"
  obtains oa n names hs where "hint_objptr x = Some oa" "hint_ctxptr x = Some (own oa)" "hint_name x = Some n"
    "hs_names H (own oa) = Some names" "n \<in> set names" "hs_obj H oa = Some hs" "h \<in> set hs"
  using assms unfolding hint_ok_def by blast

lemma name_at_eq: "hs_hints H h = Some x \<Longrightarrow> hint_name x = Some n \<Longrightarrow> name_at H h = n"
  by (simp add: name_at_def)

lemma all_named_ok:
  assumes "hint_inv own s H" "hs_obj H oa = Some hs"
  shows "all_named H hs"
  unfolding all_named_def list_all_iff
proof
  fix h assume "h \<in> set hs"
  then obtain x where x: "hs_hints H h = Some x" using hint_invD(8) [OF assms] by blast
  from hint_invD(5) [OF assms(1) this] obtain n where "hint_name x = Some n" by (rule hint_okE)
  with x show "Option.bind (hs_hints H h) hint_name \<noteq> None" by simp
qed

lemma all_named_cong: "hs_hints H' = hs_hints H \<Longrightarrow> all_named H' hs = all_named H hs"
  and name_at_cong: "hs_hints H' h = hs_hints H h \<Longrightarrow> name_at H' h = name_at H h"
  by (simp_all add: all_named_def name_at_def)

text \<open>Counters and the log have no part in the invariant.\<close>

lemma hint_inv_cong:
  assumes "hs_hints H' = hs_hints H" "hs_obj H' = hs_obj H" "hs_names H' = hs_names H"
  shows "hint_inv own s H' = hint_inv own s H"
proof -
  have "name_at H' = name_at H" using assms(1) by (intro ext) (simp add: name_at_def)
  with assms show ?thesis by (simp add: hint_inv_def hint_ok_def)
qed

lemma message_sel [simp]:
  "hs_hints (hint_message e H) = hs_hints H" "hs_obj (hint_message e H) = hs_obj H" "hs_names (hint_message e H) = hs_names H"
  by (simp_all add: hint_message_def)

subsection \<open>Destroying a hint\<close>

lemma removed_hint_inv:
  assumes inv: "hint_inv own s H" and h: "hs_hints H h = Some x"
    and x: "hint_objptr x = Some oa" "hint_ctxptr x = Some c" "hint_name x = Some n"
    and names: "hs_names H c = Some names" and hs: "hs_obj H oa = Some hs"
    and s': "released s h s'" "objs s' = objs s" "next_addr s' = next_addr s"
    and H': "hs_hints H' = (hs_hints H)(h := None)" "hs_names H' = (hs_names H)(c \<mapsto> remove1 n names)"
      "hs_obj H' = (hs_obj H)(oa \<mapsto> remove1 h hs)"
  shows "hint_inv own s' H'"
proof -
  note I = hint_invD [OF inv]
  have "hint_ctxptr x = Some (own oa)" using I(5) [OF h] x(1) unfolding hint_ok_def by (metis option.inject)
  then have c: "c = own oa" using x(2) by simp
  have dh: "distinct hs" "distinct names" using I(7) [OF hs] I(9) [OF names] by (auto dest: ordered_by_distinct)
  have nm: "name_at H' g = name_at H g" if "g \<noteq> h" for g by (rule name_at_cong) (simp add: that H'(1))
  have ok: "hint_ok own H' g y" if "hs_hints H g = Some y" "g \<noteq> h" for g y
  proof -
    from I(5) [OF that(1)] obtain oa' n' names' hs' where
      y: "hint_objptr y = Some oa'" "hint_ctxptr y = Some (own oa')" "hint_name y = Some n'"
      "hs_names H (own oa') = Some names'" "n' \<in> set names'" "hs_obj H oa' = Some hs'" "g \<in> set hs'" by (rule hint_okE)
    have "own oa' \<noteq> c \<or> n' \<noteq> n" using I(6) [OF that(1) h] y x that(2) by auto
    then show ?thesis unfolding hint_ok_def using y H' names hs that(2) by (auto simp: in_set_remove1)
  qed
  show ?thesis
    unfolding hint_inv_def
  proof (intro conjI allI impI)
    show "opaque_inv s'" "opaque_map s' \<noteq> None" using s'(1) I(2) by (simp_all add: released_def)
    show "refs_fresh s'" using I(3) s' by (auto simp: refs_fresh_def released_def)
    fix g
    show "has_type s' g OPAQUE_HINT \<longleftrightarrow> hs_hints H' g \<noteq> None"
      using I(4) [of g] H'(1) by (simp add: released_types [OF s'(1)])
    { fix y assume "hs_hints H' g = Some y"
      then show "hint_ok own H' g y" using ok H'(1) by (simp split: if_splits) }
    { fix g' y y'
      assume "hs_hints H' g = Some y" "hs_hints H' g' = Some y'" "hint_ctxptr y = hint_ctxptr y'" "hint_name y = hint_name y'"
      then show "g = g'" using I(6) [of g y g' y'] H'(1) by (simp split: if_splits) }
    { fix hs' assume "hs_obj H' g = Some hs'"
      then obtain hs0 where hs0: "hs_obj H g = Some hs0" "hs' = (if g = oa then remove1 h hs0 else hs0)"
        using H'(3) hs by (auto split: if_splits)
      have sub: "\<forall>b \<in> set hs'. b \<in> set hs0 \<and> b \<noteq> h"
      proof
        fix b assume b: "b \<in> set hs'"
        show "b \<in> set hs0 \<and> b \<noteq> h"
        proof (cases "g = oa")
          case True
          with b hs0 hs dh show ?thesis by simp
        next
          case False
          with I(8) [OF hs0(1), of h] h x(1) b hs0(2) show ?thesis by auto
        qed
      qed
      have "ordered_by (name_at H) hs'" using I(7) [OF hs0(1)] hs0(2) by (simp add: ordered_by_remove1)
      then show "ordered_by (name_at H') hs'" using sub nm by (subst ordered_by_cong [where g = "name_at H"]) auto
      show "\<forall>b \<in> set hs'. \<exists>y. hs_hints H' b = Some y \<and> hint_objptr y = Some g"
        using sub I(8) [OF hs0(1)] H'(1) by simp }
    { fix ns assume "hs_names H' g = Some ns"
      then obtain ns0 where ns0: "hs_names H g = Some ns0" "ns = (if g = c then remove1 n ns0 else ns0)"
        using H'(2) names by (auto split: if_splits)
      show "ordered_by (\<lambda>n. n) ns" using I(9) [OF ns0(1)] ns0(2) by (simp add: ordered_by_remove1)
      show "\<forall>m \<in> set ns. \<exists>b y. hs_hints H' b = Some y \<and> hint_ctxptr y = Some g \<and> hint_name y = Some m"
      proof
        fix m assume m: "m \<in> set ns"
        then have m0: "m \<in> set ns0" and mn: "g = c \<Longrightarrow> m \<noteq> n"
          using ns0 names dh(2) by (auto split: if_splits dest: notin_set_remove1)
        obtain b y where bb: "hs_hints H b = Some y" "hint_ctxptr y = Some g" "hint_name y = Some m"
          using I(10) [OF ns0(1) m0] by blast
        moreover have "b \<noteq> h" using bb h x mn by auto
        ultimately show "\<exists>b y. hs_hints H' b = Some y \<and> hint_ctxptr y = Some g \<and> hint_name y = Some m"
          using H'(1) by auto
      qed }
    show "hs_names H' g \<noteq> None" if "has_type s' g OPAQUE_CONTEXT"
      using that I(11) H'(2) by (simp add: released_types [OF s'(1)])
    show "objs s' g \<noteq> None" if "has_type s' g OPAQUE_OBJECT"
      using that I(12) s'(2) by (simp add: released_types [OF s'(1)])
    show "hs_obj H' g \<noteq> None" if "has_type s' g OPAQUE_OBJECT"
      using that I(12) H'(3) by (simp add: released_types [OF s'(1)])
  qed
qed

text \<open>The abstract view: the regions by the keys of their handles; zero is not the key of a region.\<close>

record region =
  rg_context :: addr
  rg_name :: string
  rg_object :: key
  rg_hint :: int
  rg_level :: int

definition region_of :: "hint_t \<Rightarrow> region option" where
  "region_of x =
     (case (hint_ctxptr x, hint_name x) of
        (Some c, Some n) \<Rightarrow> Some \<lparr>rg_context = c, rg_name = n, rg_object = hint_object x, rg_hint = hint_hint x, rg_level = hint_level x\<rparr>
      | _ \<Rightarrow> None)"

definition regions :: "lib \<Rightarrow> hints \<Rightarrow> key \<Rightarrow> region option" where
  "regions s H k = (if k = 0 then None else case lookup_hint s k of Some (Some h) \<Rightarrow> Option.bind (hs_hints H h) region_of | _ \<Rightarrow> None)"

lemma hint_found:
  assumes "hint_inv own s H" "lookup_hint s k = Some (Some h)" "key_ok s k"
  obtains x oa n names hs where "hs_hints H h = Some x" "hint_objptr x = Some oa" "hint_ctxptr x = Some (own oa)"
    "hint_name x = Some n" "hs_names H (own oa) = Some names" "n \<in> set names" "hs_obj H oa = Some hs" "h \<in> set hs"
    "has_type s h OPAQUE_HINT" "key_at s h = k" "k \<noteq> 0"
    "regions s H k = Some \<lparr>rg_context = own oa, rg_name = n, rg_object = hint_object x, rg_hint = hint_hint x, rg_level = hint_level x\<rparr>"
proof -
  note I = hint_invD [OF assms(1)]
  have t: "has_type s h OPAQUE_HINT" "key_at s h = k"
    using lookup_has_type [OF I(1) _ assms(3)] assms(2) by (auto simp: lookup_hint_def)
  then obtain x where x: "hs_hints H h = Some x" using I(4) by blast
  from t have k: "k \<noteq> 0" by (auto simp: has_type_def key_at_def)
  from I(5) [OF x] obtain oa n names hs where y: "hint_objptr x = Some oa" "hint_ctxptr x = Some (own oa)" "hint_name x = Some n"
    "hs_names H (own oa) = Some names" "n \<in> set names" "hs_obj H oa = Some hs" "h \<in> set hs" by (rule hint_okE)
  with that [OF x y t k] assms(2) x k show ?thesis by (simp add: regions_def region_of_def)
qed

lemma hint_not_found:
  assumes "lookup_hint s k = Some None" shows "regions s H k = None"
  using assms by (simp add: regions_def)

lemma regions_cong:
  assumes "\<And>k. lookup_hint s' k = lookup_hint s k" "hs_hints H' = hs_hints H"
  shows "regions s' H' = regions s H"
  using assms by (intro ext) (simp add: regions_def split: option.split)

lemma hint_destroy_refines:
  assumes inv: "hint_inv own s H" and found: "lookup_hint s (OPAQUE_GET_DATA_KEY rid) = Some (Some h)"
    and key: "key_ok s (OPAQUE_GET_DATA_KEY rid)"
  shows "\<exists>s' H'. PWR_AppHintDestroy rid s H = Some (PWR_RET_SUCCESS, s', H') \<and> hint_inv own s' H' \<and>
    regions s' H' = (regions s H)(OPAQUE_GET_DATA_KEY rid := None) \<and>
    (\<exists>r. regions s H (OPAQUE_GET_DATA_KEY rid) = Some r \<and> hs_logctx H' = hs_logctx H \<and>
       hs_log H' = (if hs_logctx H then hs_log H @ [Destroyed (rg_name r)] else hs_log H))"
proof -
  note I = hint_invD [OF inv]
  from inv found key obtain x oa n names hs where x: "hs_hints H h = Some x" "hint_objptr x = Some oa" "hint_ctxptr x = Some (own oa)"
    "hint_name x = Some n" and seqs: "hs_names H (own oa) = Some names" "n \<in> set names" "hs_obj H oa = Some hs" "h \<in> set hs"
    and t: "has_type s h OPAQUE_HINT" "key_at s h = OPAQUE_GET_DATA_KEY rid" and nz: "OPAQUE_GET_DATA_KEY rid \<noteq> 0"
    and rg: "regions s H (OPAQUE_GET_DATA_KEY rid) =
      Some \<lparr>rg_context = own oa, rg_name = n, rg_object = hint_object x, rg_hint = hint_hint x, rg_level = hint_level x\<rparr>"
    by (rule hint_found)
  let ?H1 = "hint_message (Destroyed n) H"
  have o1: "ordered_by (name_at ?H1) hs"
    using I(7) [OF seqs(3)] by (subst ordered_by_cong [where g = "name_at H"]) (simp_all add: name_at_def)
  have named: "all_named ?H1 hs" using all_named_ok [OF inv seqs(3)] all_named_cong [of ?H1 H hs] by simp
  from t obtain r where r: "refs s h = Some r" "ref_key r \<noteq> 0" "key_at s h = ref_key r"
    by (auto simp: has_type_def key_at_def)
  obtain s1 where s1: "opaque_map_remove (key_at s h) s = Some (True, s1)" "same_but_handles s s1"
    and rel: "released s h (s1\<lparr>refs := (refs s1)(h := None)\<rparr>)" (is "released s h ?s")
    by (rule release_keyed [OF I(1) t(1)])
  have same: "same_but_handles s ?s" using s1(2) by (simp add: same_but_handles_def)
  define H2 where "H2 = ?H1\<lparr>hs_obj := (hs_obj ?H1)(oa \<mapsto> remove1 h hs), hs_names := (hs_names ?H1)(own oa \<mapsto> remove1 n names),
     hs_hints := (hs_hints ?H1)(h := None)\<rparr>"
  have call: "PWR_AppHintDestroy rid s H = Some (PWR_RET_SUCCESS, ?s, H2)"
    using found x seqs named lookup_hint_entry [OF o1 seqs(4)] r s1
    by (simp add: PWR_AppHintDestroy_def app_hint_destroy_def del_hint_def lookup_name H2_def Let_def)
  have H2: "hs_hints H2 = (hs_hints H)(h := None)" "hs_names H2 = (hs_names H)(own oa \<mapsto> remove1 n names)"
    "hs_obj H2 = (hs_obj H)(oa \<mapsto> remove1 h hs)" by (simp_all add: H2_def)
  have inv': "hint_inv own ?s H2"
    by (rule removed_hint_inv [OF inv x seqs(1,3) rel _ _ H2]) (use same in \<open>simp_all add: same_but_handles_def\<close>)
  have look: "opaque_map_lookup_type ?s k u = (if k = key_at s h then Some None else opaque_map_lookup_type s k u)" if "k \<noteq> 0" for k u
    by (rule released_lookup_type [OF rel I(1) t(1) that])
  have "regions ?s H2 k = ((regions s H)(OPAQUE_GET_DATA_KEY rid := None)) k" for k
  proof (cases "k = key_at s h \<or> k = 0")
    case False
    have "g \<noteq> h" if "lookup_hint s k = Some (Some g)" for g
      using lookup_has_type(2) [OF I(1), of k] that False by (auto simp: lookup_hint_def)
    with False t(2) H2(1) show ?thesis by (auto simp: regions_def lookup_hint_def look split: option.splits)
  qed (use t(2) nz in \<open>auto simp: regions_def lookup_hint_def look\<close>)
  then have "regions ?s H2 = (regions s H)(OPAQUE_GET_DATA_KEY rid := None)" by (rule ext)
  moreover have "hs_logctx H2 = hs_logctx H" "hs_log H2 = (if hs_logctx H then hs_log H @ [Destroyed n] else hs_log H)"
    by (simp_all add: H2_def hint_message_def)
  ultimately show ?thesis using call inv' rg by auto
qed

subsection \<open>Creating a hint\<close>

lemma added_hint_inv:
  assumes inv: "hint_inv own s H" and ent: "entered s h OPAQUE_HINT k s'" and h: "h = next_addr s"
    and s': "objs s' = objs s" "next_addr s' = Suc (next_addr s)"
    and names: "hs_names H (own oa) = Some names" "n \<notin> set names" and hs: "hs_obj H oa = Some hs"
    and x: "hint_objptr x = Some oa" "hint_ctxptr x = Some (own oa)" "hint_name x = Some n"
    and H': "hs_hints H' = (hs_hints H)(h \<mapsto> x)" "hs_names H' = (hs_names H)(own oa \<mapsto> seq_insert_sorted sortnames n names)"
      "hs_obj H' = (hs_obj H)(oa \<mapsto> seq_insert_sorted (sorthints H') h hs)"
  shows "hint_inv own s' H'"
proof -
  note I = hint_invD [OF inv]
  have fresh: "refs s h = None" using I(3) h by (simp add: refs_fresh_def)
  then have new: "hs_hints H h = None" using I(4) [of h] by (simp add: has_type_def)
  note types = entered_types [OF ent fresh]
  have nm: "name_at H' g = (if g = h then n else name_at H g)" for g using H'(1) x(3) by (simp add: name_at_def)
  have old: "g \<noteq> h" if "hs_hints H g = Some y" for g y using that new by auto
  have used: "m \<in> set names" if "hs_hints H g = Some y" "hint_ctxptr y = Some (own oa)" "hint_name y = Some m" for g y m
    using I(5) [OF that(1)] that(2,3) names(1) by (auto elim!: hint_okE)
  have hs_old: "g \<in> set hs \<Longrightarrow> g \<noteq> h \<and> name_at H g \<noteq> n" for g
  proof -
    assume g: "g \<in> set hs"
    then obtain y where y: "hs_hints H g = Some y" "hint_objptr y = Some oa" using I(8) [OF hs] by blast
    from I(5) [OF y(1)] obtain m where "hint_ctxptr y = Some (own oa)" "hint_name y = Some m"
      using y(2) by (auto elim!: hint_okE)
    with used [OF y(1) this] names(2) old [OF y(1)] y(1) show ?thesis by (auto simp: name_at_def)
  qed
  show ?thesis
    unfolding hint_inv_def
  proof (intro conjI allI impI)
    show "opaque_inv s'" "opaque_map s' \<noteq> None" using ent by (simp_all add: entered_def)
    show "refs_fresh s'" using I(3) ent s'(2) h by (auto simp: refs_fresh_def entered_def)
    fix g
    show "has_type s' g OPAQUE_HINT \<longleftrightarrow> hs_hints H' g \<noteq> None" using I(4) [of g] H'(1) by (simp add: types)
    { fix y assume y: "hs_hints H' g = Some y"
      show "hint_ok own H' g y"
      proof (cases "g = h")
        case True
        with y x H' show ?thesis by (simp add: hint_ok_def set_seq_insert)
      next
        case False
        with y H'(1) have "hs_hints H g = Some y" by simp
        from I(5) [OF this] show ?thesis
          using H'(2,3) names(1) hs by (auto simp: hint_ok_def set_seq_insert elim!: hint_okE)
      qed }
    { fix g' y y'
      assume a: "hs_hints H' g = Some y" "hs_hints H' g' = Some y'" "hint_ctxptr y = hint_ctxptr y'" "hint_name y = hint_name y'"
      have "y = x \<and> g = h \<or> hs_hints H g = Some y" "y' = x \<and> g' = h \<or> hs_hints H g' = Some y'"
        using a(1,2) H'(1) by (auto split: if_splits)
      then show "g = g'" using I(6) [of g y g' y'] used [of g y n] used [of g' y' n] a(3,4) x names(2) by auto }
    { fix hs' assume b: "hs_obj H' g = Some hs'"
      show "ordered_by (name_at H') hs'"
      proof (cases "g = oa")
        case True
        have "ordered_by (name_at H') hs"
          using I(7) [OF hs] hs_old by (subst ordered_by_cong [where g = "name_at H"]) (auto simp: nm)
        then have "ordered_by (name_at H') (seq_insert_sorted (sorthints H') h hs)"
          by (rule ordered_by_insert) (use hs_old in \<open>auto simp: nm sorthints_def strcmp_order\<close>)
        with True b H'(3) show ?thesis by simp
      next
        case False
        with b H'(3) have c: "hs_obj H g = Some hs'" by simp
        have "d \<noteq> h" if "d \<in> set hs'" for d using I(8) [OF c that] new by auto
        with I(7) [OF c] show ?thesis by (subst ordered_by_cong [where g = "name_at H"]) (auto simp: nm)
      qed
      show "\<forall>d \<in> set hs'. \<exists>y. hs_hints H' d = Some y \<and> hint_objptr y = Some g"
      proof
        fix d assume d: "d \<in> set hs'"
        show "\<exists>y. hs_hints H' d = Some y \<and> hint_objptr y = Some g"
        proof (cases "g = oa \<and> d = h")
          case False
          with b d H'(3) hs have "\<exists>hs0. hs_obj H g = Some hs0 \<and> d \<in> set hs0"
            by (auto simp: set_seq_insert split: if_splits)
          with I(8) [of g] old H'(1) show ?thesis by fastforce
        qed (use H'(1) x(1) in simp)
      qed }
    { fix ns assume b: "hs_names H' g = Some ns"
      show "ordered_by (\<lambda>n. n) ns"
      proof (cases "g = own oa")
        case True
        have "ordered_by (\<lambda>n. n) (seq_insert_sorted sortnames n names)"
          by (rule ordered_by_insert [OF I(9) [OF names(1)]]) (use names(2) in \<open>auto simp: sortnames_def strcmp_order\<close>)
        with True b H'(2) show ?thesis by simp
      qed (use b H'(2) I(9) in simp)
      show "\<forall>m \<in> set ns. \<exists>d y. hs_hints H' d = Some y \<and> hint_ctxptr y = Some g \<and> hint_name y = Some m"
      proof
        fix m assume m: "m \<in> set ns"
        show "\<exists>d y. hs_hints H' d = Some y \<and> hint_ctxptr y = Some g \<and> hint_name y = Some m"
        proof (cases "g = own oa \<and> m = n")
          case True
          with H'(1) x show ?thesis by (intro exI [of _ h]) simp
        next
          case False
          with b m H'(2) names(1) have "\<exists>ns0. hs_names H g = Some ns0 \<and> m \<in> set ns0"
            by (auto simp: set_seq_insert split: if_splits)
          then obtain d y where "hs_hints H d = Some y" "hint_ctxptr y = Some g" "hint_name y = Some m"
            using I(10) [of g] by blast
          with old [OF this(1)] H'(1) show ?thesis by (intro exI [of _ d]) simp
        qed
      qed }
    show "hs_names H' g \<noteq> None" if "has_type s' g OPAQUE_CONTEXT" using that I(11) H'(2) by (simp add: types split: if_splits)
    show "objs s' g \<noteq> None" if "has_type s' g OPAQUE_OBJECT" using that I(12) s'(1) by (simp add: types split: if_splits)
    show "hs_obj H' g \<noteq> None" if "has_type s' g OPAQUE_OBJECT" using that I(12) H'(3) by (simp add: types split: if_splits)
  qed
qed

subsection \<open>The specification\<close>

record hspec =
  hsp_regions :: "key \<Rightarrow> region option"
  hsp_on :: bool
  hsp_log :: "hint_event list"

definition reports :: "hint_event \<Rightarrow> hspec \<Rightarrow> hspec" where
  "reports e S = (if hsp_on S then S\<lparr>hsp_log := hsp_log S @ [e]\<rparr> else S)"

datatype hint_call = HintCreate key "string option" bool int int | HintDestroy key | HintStart key | HintStop key | HintProgress key fp

definition name_used :: "hspec \<Rightarrow> addr \<Rightarrow> string \<Rightarrow> bool" where
  "name_used S c n \<longleftrightarrow> (\<exists>k r. hsp_regions S k = Some r \<and> rg_context r = c \<and> rg_name r = n)"

definition valid_create :: "(key \<Rightarrow> addr option) \<Rightarrow> (key \<Rightarrow> addr option) \<Rightarrow> key \<Rightarrow> bool \<Rightarrow> int \<Rightarrow> int \<Rightarrow> bool" where
  "valid_create ctx ob obj want_id h level \<longleftrightarrow>
     want_id \<and> 0 \<le> h \<and> h < PWR_NUM_REGION_HINTS \<and> 0 \<le> level \<and> level < PWR_NUM_REGION_INTENSITIES \<and>
     ob (OPAQUE_GET_DATA_KEY obj) \<noteq> None \<and> ctx (OPAQUE_GET_CONTEXT_KEY obj) \<noteq> None"

inductive hint_spec :: "(key \<Rightarrow> addr option) \<Rightarrow> (key \<Rightarrow> addr option) \<Rightarrow> hspec \<Rightarrow> hint_call \<Rightarrow> int \<Rightarrow> key option \<Rightarrow> hspec \<Rightarrow> bool"
  for ctx ob where
  create: "valid_create ctx ob obj want_id h level \<Longrightarrow> ctx (OPAQUE_GET_CONTEXT_KEY obj) = Some c \<Longrightarrow> \<not> name_used S c n \<Longrightarrow>
    (case name of None \<Rightarrow> True | Some m \<Rightarrow> n = m) \<Longrightarrow> hsp_regions S (OPAQUE_GET_DATA_KEY rid) = None \<Longrightarrow>
    OPAQUE_GET_CONTEXT_KEY rid = OPAQUE_GET_CONTEXT_KEY obj \<Longrightarrow>
    hint_spec ctx ob S (HintCreate obj name want_id h level) PWR_RET_SUCCESS (Some rid)
      (S\<lparr>hsp_regions := (hsp_regions S)(OPAQUE_GET_DATA_KEY rid \<mapsto>
          \<lparr>rg_context = c, rg_name = n, rg_object = obj, rg_hint = h, rg_level = level\<rparr>)\<rparr>)"
| create_bad: "\<not> valid_create ctx ob obj want_id h level \<or>
      (\<exists>c m. ctx (OPAQUE_GET_CONTEXT_KEY obj) = Some c \<and> name = Some m \<and> name_used S c m) \<Longrightarrow>
    hint_spec ctx ob S (HintCreate obj name want_id h level) PWR_RET_FAILURE None S"
| destroy: "hsp_regions S (OPAQUE_GET_DATA_KEY rid) = Some r \<Longrightarrow>
    hint_spec ctx ob S (HintDestroy rid) PWR_RET_SUCCESS None
      (reports (Destroyed (rg_name r)) (S\<lparr>hsp_regions := (hsp_regions S)(OPAQUE_GET_DATA_KEY rid := None)\<rparr>))"
| start: "hsp_regions S (OPAQUE_GET_DATA_KEY rid) = Some r \<Longrightarrow>
    hint_spec ctx ob S (HintStart rid) PWR_RET_SUCCESS None (reports (Started (rg_name r) (rg_hint r) (rg_level r)) S)"
| stop: "hsp_regions S (OPAQUE_GET_DATA_KEY rid) = Some r \<Longrightarrow>
    hint_spec ctx ob S (HintStop rid) PWR_RET_SUCCESS None (reports (Stopped (rg_name r)) S)"
| progress: "hsp_regions S (OPAQUE_GET_DATA_KEY rid) = Some r \<Longrightarrow>
    hint_spec ctx ob S (HintProgress rid fraction) PWR_RET_SUCCESS None (reports (Progressed (rg_name r) fraction) S)"
| unknown: "hsp_regions S (OPAQUE_GET_DATA_KEY rid) = None \<Longrightarrow>
    call = HintDestroy rid \<or> call = HintStart rid \<or> call = HintStop rid \<or> call = HintProgress rid fraction \<Longrightarrow>
    hint_spec ctx ob S call PWR_RET_FAILURE None S"

fun exec_hint :: "hint_call \<Rightarrow> lib \<Rightarrow> hints \<Rightarrow> (int \<times> key option \<times> lib \<times> hints) option" where
  "exec_hint (HintCreate obj name want_id h level) s H = PWR_AppHintCreate obj name want_id h level s H"
| "exec_hint (HintDestroy rid) s H = do { (r, s, H) \<leftarrow> PWR_AppHintDestroy rid s H; Some (r, None, s, H) }"
| "exec_hint (HintStart rid) s H = do { (r, H) \<leftarrow> PWR_AppHintStart rid s H; Some (r, None, s, H) }"
| "exec_hint (HintStop rid) s H = do { (r, H) \<leftarrow> PWR_AppHintStop rid s H; Some (r, None, s, H) }"
| "exec_hint (HintProgress rid fraction) s H = do { (r, H) \<leftarrow> PWR_AppHintProgress rid fraction s H; Some (r, None, s, H) }"

definition habs :: "lib \<Rightarrow> hints \<Rightarrow> hspec" where
  "habs s H = \<lparr>hsp_regions = regions s H, hsp_on = hs_logctx H, hsp_log = hs_log H\<rparr>"

definition found_at :: "lib \<Rightarrow> opaque_type_t \<Rightarrow> key \<Rightarrow> addr option" where
  "found_at s t k = (if k = 0 then None else case opaque_map_lookup_type s k t of Some r \<Rightarrow> r | None \<Rightarrow> None)"

lemma found_atD:
  assumes "opaque_inv s" "key_ok s k" shows "opaque_map_lookup_type s k t = Some (found_at s t k)"
  using lookup_total [OF assms, of t] assms(2) by (auto simp: found_at_def key_ok_def opaque_map_lookup_type_def)

text \<open>The names of a context are those of its regions.\<close>

lemma names_are_regions:
  assumes "hint_inv own s H" "hs_names H c = Some names"
  shows "n \<in> set names \<longleftrightarrow> name_used (habs s H) c n"
proof
  assume "n \<in> set names"
  then obtain h x where x: "hs_hints H h = Some x" "hint_ctxptr x = Some c" "hint_name x = Some n"
    using hint_invD(10) [OF assms] by blast
  then have "has_type s h OPAQUE_HINT" using hint_invD(4) [OF assms(1)] by blast
  moreover from this have "key_at s h \<noteq> 0" by (auto simp: has_type_def key_at_def)
  ultimately show "name_used (habs s H) c n"
    using has_type_lookup [OF hint_invD(1) [OF assms(1)]] x
    unfolding name_used_def by (intro exI [of _ "key_at s h"]) (simp add: habs_def regions_def lookup_hint_def region_of_def)
next
  assume "name_used (habs s H) c n"
  then obtain k r where r: "regions s H k = Some r" "rg_context r = c" "rg_name r = n" by (auto simp: name_used_def habs_def)
  then obtain h where h: "lookup_hint s k = Some (Some h)" "k \<noteq> 0" by (auto simp: regions_def split: option.splits if_splits)
  show "n \<in> set names" by (rule hint_found [OF assms(1) h(1) key_ok_nonzero [OF h(2)]]) (use r assms(2) in auto)
qed

lemma hint_create_refines:
  assumes inv: "hint_inv own s H" and draw: "has_draw s"
    and region: "hint_region obj name want_id h level s H = Some (Some (oa, own oa, n, H1))"
    and oa: "lookup_object s (OPAQUE_GET_DATA_KEY obj) = Some (Some oa)"
    and c: "lookup_context s (OPAQUE_GET_CONTEXT_KEY obj) = Some (Some (own oa))"
    and keys: "key_ok s (OPAQUE_GET_DATA_KEY obj)" "key_ok s (OPAQUE_GET_CONTEXT_KEY obj)"
    and H1: "hs_hints H1 = hs_hints H" "hs_names H1 = hs_names H" "hs_obj H1 = hs_obj H" "hs_logctx H1 = hs_logctx H" "hs_log H1 = hs_log H"
    and n: "\<not> name_used (habs s H) (own oa) n"
  shows "\<exists>k s' H'. PWR_AppHintCreate obj name want_id h level s H =
      Some (PWR_RET_SUCCESS, Some (OPAQUE_GENERATE (OPAQUE_GET_CONTEXT_KEY obj) k), s', H') \<and> key32 k \<and> hint_inv own s' H' \<and>
    regions s H k = None \<and> habs s' H' = (habs s H)\<lparr>hsp_regions := (regions s H)(k \<mapsto>
      \<lparr>rg_context = own oa, rg_name = n, rg_object = obj, rg_hint = h, rg_level = level\<rparr>)\<rparr> \<and>
    (\<forall>k t. t \<noteq> OPAQUE_HINT \<longrightarrow> found_at s' t k = found_at s t k)"
proof -
  note I = hint_invD [OF inv]
  have tc: "has_type s (own oa) OPAQUE_CONTEXT" "key_at s (own oa) = OPAQUE_GET_CONTEXT_KEY obj"
    using lookup_has_type [OF I(1) _ keys(2)] c by (auto simp: lookup_context_def)
  have to: "has_type s oa OPAQUE_OBJECT" using lookup_has_type [OF I(1) _ keys(1)] oa by (auto simp: lookup_object_def)
  obtain names where names: "hs_names H (own oa) = Some names" using I(11) [OF tc(1)] by blast
  obtain hs where hs: "hs_obj H oa = Some hs" using I(12) [OF to] by blast
  have fresh: "n \<notin> set names" using n names_are_regions [OF inv names] by blast
  let ?h = "next_addr s"
  have new: "refs s ?h = None" using I(3) by (simp add: refs_fresh_def)
  let ?s0 = "s\<lparr>next_addr := Suc ?h, refs := (refs s)(?h \<mapsto> zero_ref)\<rparr>"
  obtain k s' where ins: "opaque_map_insert OPAQUE_HINT ?h ?s0 = Some (k, s')" "entered s ?h OPAQUE_HINT k s'"
    and same: "same_but_handles ?s0 s'"
    using enter_new [OF I(1) draw _ new, of OPAQUE_HINT ?s0] by auto
  have k: "k \<noteq> 0" "key32 k" "opaque_map_lookup s k = None" using ins(2) by (simp_all add: entered_def)
  define x where "x = \<lparr>hint_ctxptr = Some (own oa), hint_objptr = Some oa, hint_object = obj, hint_name = Some n, hint_hint = h, hint_level = level\<rparr>"
  define H2 where "H2 = H1\<lparr>hs_hints := (hs_hints H1)(?h \<mapsto> x), hs_names := (hs_names H1)(own oa \<mapsto> seq_insert_sorted sortnames n names)\<rparr>"
  define H3 where "H3 = H2\<lparr>hs_obj := (hs_obj H1)(oa \<mapsto> seq_insert_sorted (sorthints H2) ?h hs)\<rparr>"
  have named: "all_named H2 hs" using all_named_ok [OF inv hs] by (auto simp: all_named_def H2_def H1 x_def list_all_iff)
  have ne: "own oa \<noteq> ?h" using tc(1) new by (auto simp: has_type_def)
  obtain rc where rc: "refs s (own oa) = Some rc" "ref_key rc = OPAQUE_GET_CONTEXT_KEY obj"
    using tc by (auto simp: has_type_def key_at_def)
  have call: "PWR_AppHintCreate obj name want_id h level s H =
      Some (PWR_RET_SUCCESS, Some (OPAQUE_GENERATE (OPAQUE_GET_CONTEXT_KEY obj) k), s', H3)"
    using region ins k(1) names hs named ne rc
    by (simp add: PWR_AppHintCreate_def new_hint_def alloc_ref_def Let_def H1 H3_def entered_def) (simp add: H2_def H1 x_def fun_upd_def [symmetric])
  have srt: "sorthints H3 = sorthints H2" by (intro ext) (simp add: sorthints_def name_at_def H3_def)
  have inv': "hint_inv own s' H3"
    by (rule added_hint_inv [OF inv ins(2) refl _ _ names fresh hs, where x = x])
      (use same in \<open>simp_all add: same_but_handles_def x_def srt\<close>, simp_all add: H3_def H2_def H1 x_def)
  note look = entered_lookup_type [OF ins(2) new I(1)]
  have "found_at s' t k' = found_at s t k'" if "t \<noteq> OPAQUE_HINT" for k' t
  proof -
    have "opaque_map_lookup_type s k t = Some None" using k(3) by (simp add: opaque_map_lookup_type_def)
    with that show ?thesis by (simp add: found_at_def look)
  qed
  moreover have "regions s' H3 k' = ((regions s H)(k \<mapsto>
      \<lparr>rg_context = own oa, rg_name = n, rg_object = obj, rg_hint = h, rg_level = level\<rparr>)) k'" for k'
  proof (cases "k' = k \<or> k' = 0")
    case False
    then have nz: "k' \<noteq> 0" by simp
    have "g \<noteq> ?h" if "lookup_hint s k' = Some (Some g)" for g
      using lookup_has_type(1) [OF I(1), of k' OPAQUE_HINT g] that new nz by (auto simp: lookup_hint_def has_type_def)
    with False nz show ?thesis by (auto simp: regions_def lookup_hint_def look H3_def H2_def H1 split: option.splits)
  qed (use k(1) in \<open>auto simp: regions_def lookup_hint_def look H3_def H2_def region_of_def x_def\<close>)
  moreover have "regions s H k = None" using k(3) by (simp add: regions_def lookup_hint_def opaque_map_lookup_type_def)
  moreover have "hs_logctx H3 = hs_logctx H" "hs_log H3 = hs_log H" by (simp_all add: H3_def H2_def H1)
  ultimately show ?thesis using call k(2) inv' by (intro exI [of _ k] exI [of _ s'] exI [of _ H3]) (auto simp: habs_def)
qed

text \<open>What \<open>hint_region\<close> decides.\<close>

lemma region_cases:
  assumes inv: "hint_inv own s H" and keys: "key_ok s (OPAQUE_GET_DATA_KEY obj)" "key_ok s (OPAQUE_GET_CONTEXT_KEY obj)"
    and short: "\<And>a ob. objs s a = Some ob \<Longrightarrow> length (obj_name ob) \<le> 100"
    and few: "\<And>c ns. hs_names H c = Some ns \<Longrightarrow> length ns < 2 ^ 64 - 1"
    and honest: "\<And>a c. found_at s OPAQUE_OBJECT (OPAQUE_GET_DATA_KEY obj) = Some a \<Longrightarrow>
      found_at s OPAQUE_CONTEXT (OPAQUE_GET_CONTEXT_KEY obj) = Some c \<Longrightarrow> c = own a"
  obtains
    (bad) "hint_region obj name want_id h level s H = Some None"
      "\<not> valid_create (found_at s OPAQUE_CONTEXT) (found_at s OPAQUE_OBJECT) obj want_id h level \<or>
        (\<exists>c m. found_at s OPAQUE_CONTEXT (OPAQUE_GET_CONTEXT_KEY obj) = Some c \<and> name = Some m \<and> name_used (habs s H) c m)"
  | (good) oa n H1 where "hint_region obj name want_id h level s H = Some (Some (oa, own oa, n, H1))"
      "valid_create (found_at s OPAQUE_CONTEXT) (found_at s OPAQUE_OBJECT) obj want_id h level"
      "lookup_object s (OPAQUE_GET_DATA_KEY obj) = Some (Some oa)"
      "lookup_context s (OPAQUE_GET_CONTEXT_KEY obj) = Some (Some (own oa))"
      "hs_hints H1 = hs_hints H" "hs_names H1 = hs_names H" "hs_obj H1 = hs_obj H" "hs_logctx H1 = hs_logctx H" "hs_log H1 = hs_log H"
      "\<not> name_used (habs s H) (own oa) n" "case name of None \<Rightarrow> True | Some m \<Rightarrow> n = m"
proof (cases "valid_create (found_at s OPAQUE_CONTEXT) (found_at s OPAQUE_OBJECT) obj want_id h level")
  case False
  note I = hint_invD [OF inv]
  have "hint_region obj name want_id h level s H = Some None"
    using False found_atD [OF I(1) keys(1), of OPAQUE_OBJECT] found_atD [OF I(1) keys(2), of OPAQUE_CONTEXT]
    by (auto simp: hint_region_def valid_create_def lookup_object_def lookup_context_def split: option.split)
  with False show ?thesis by (intro bad) blast+
next
  case True
  note I = hint_invD [OF inv]
  from True obtain oa c where f: "found_at s OPAQUE_OBJECT (OPAQUE_GET_DATA_KEY obj) = Some oa"
    "found_at s OPAQUE_CONTEXT (OPAQUE_GET_CONTEXT_KEY obj) = Some c" by (auto simp: valid_create_def)
  have look: "lookup_object s (OPAQUE_GET_DATA_KEY obj) = Some (Some oa)" "lookup_context s (OPAQUE_GET_CONTEXT_KEY obj) = Some (Some c)"
    using found_atD [OF I(1) keys(1)] found_atD [OF I(1) keys(2)] f by (simp_all add: lookup_object_def lookup_context_def)
  have c: "c = own oa" by (rule honest [OF f])
  have "has_type s oa OPAQUE_OBJECT" "has_type s c OPAQUE_CONTEXT"
    using lookup_has_type(1) [OF I(1) _ keys(1)] lookup_has_type(1) [OF I(1) _ keys(2)] look by (auto simp: lookup_object_def lookup_context_def)
  then obtain ob names where ob: "objs s oa = Some ob" "hs_names H c = Some names" using I(11,12) by blast
  note used = names_are_regions [OF inv ob(2)]
  have valid: "want_id" "\<not> (h < 0 \<or> h \<ge> PWR_NUM_REGION_HINTS)" "\<not> (level < 0 \<or> level \<ge> PWR_NUM_REGION_INTENSITIES)"
    using True by (auto simp: valid_create_def)
  show ?thesis
  proof (cases name)
    case None
    from generated_name [OF short [OF ob(1)] few [OF ob(2)]] obtain n u where
      n: "unique_name (obj_name ob) names (hs_unique H c) = Some (n, u)" "n \<notin> set names" by blast
    with valid look ob None have "hint_region obj name want_id h level s H = Some (Some (oa, own oa, n, H\<lparr>hs_unique := (hs_unique H)(c := u)\<rparr>))"
      by (simp add: hint_region_def c)
    then show ?thesis by (rule good) (use True look c n(2) used None in simp_all)
  next
    case (Some m)
    show ?thesis
    proof (cases "m \<in> set names")
      case in_use: True
      with valid look ob Some have "hint_region obj name want_id h level s H = Some None"
        by (simp add: hint_region_def lookup_name)
      then show ?thesis by (rule bad) (use in_use used f Some in blast)
    next
      case False
      with valid look ob Some have "hint_region obj name want_id h level s H = Some (Some (oa, own oa, m, H))"
        by (simp add: hint_region_def c lookup_name)
      then show ?thesis by (rule good) (use True look c False used Some in simp_all)
    qed
  qed
qed

lemma reports_habs: "habs s (hint_message e H) = reports e (habs s H)"
proof -
  have "regions s (hint_message e H) = regions s H" by (rule regions_cong) simp_all
  then show ?thesis by (simp add: habs_def reports_def hint_message_def)
qed

lemma lookup_hint_found: "hint_inv own s H \<Longrightarrow> key_ok s k \<Longrightarrow> lookup_hint s k = Some (found_at s OPAQUE_HINT k)"
  by (simp add: lookup_hint_def found_atD hint_invD(1))

text \<open>A call that only reports about a region.\<close>

lemma report_call_refines:
  assumes inv: "hint_inv own s H"
    and call: "exec_hint call s H =
      do { (r, H) \<leftarrow> on_hint (\<lambda>n h l H. (PWR_RET_SUCCESS, hint_message (e n h l) H)) rid s H; Some (r, None, s, H) }"
    and known: "\<And>S r. hsp_regions S (OPAQUE_GET_DATA_KEY rid) = Some r \<Longrightarrow>
      hint_spec ctx ob S call PWR_RET_SUCCESS None (reports (e (rg_name r) (rg_hint r) (rg_level r)) S)"
    and unknown: "call = HintStart rid \<or> call = HintStop rid \<or> call = HintProgress rid fraction"
    and key: "dkey_ok s rid"
  shows "\<exists>r rid' s' H'. exec_hint call s H = Some (r, rid', s', H') \<and> hint_inv own s' H' \<and>
    hint_spec ctx ob (habs s H) call r rid' (habs s' H')"
proof (cases "found_at s OPAQUE_HINT (OPAQUE_GET_DATA_KEY rid)")
  case None
  then have l: "lookup_hint s (OPAQUE_GET_DATA_KEY rid) = Some None" by (simp add: lookup_hint_found [OF inv key [unfolded dkey_ok_def]])
  have "hint_spec ctx ob (habs s H) call PWR_RET_FAILURE None (habs s H)"
    by (rule hint_spec.unknown [of _ rid _ fraction]) (use unknown in \<open>auto simp: habs_def hint_not_found [OF l]\<close>)
  with l inv call show ?thesis by (simp add: on_hint_def)
next
  case (Some h)
  then have l: "lookup_hint s (OPAQUE_GET_DATA_KEY rid) = Some (Some h)" by (simp add: lookup_hint_found [OF inv key [unfolded dkey_ok_def]])
  from inv l key [unfolded dkey_ok_def] obtain x oa n names hs where x: "hs_hints H h = Some x" "hint_name x = Some n" and
    r: "regions s H (OPAQUE_GET_DATA_KEY rid) =
      Some \<lparr>rg_context = own oa, rg_name = n, rg_object = hint_object x, rg_hint = hint_hint x, rg_level = hint_level x\<rparr>"
    by (rule hint_found)
  let ?H = "hint_message (e n (hint_hint x) (hint_level x)) H"
  have "hint_inv own s ?H" using inv by (simp add: hint_inv_cong [of ?H H])
  moreover have "hint_spec ctx ob (habs s H) call PWR_RET_SUCCESS None (habs s ?H)"
    using known [of "habs s H"] r reports_habs [of s _ H] by (simp add: habs_def [of s H])
  ultimately show ?thesis using call l x by (simp add: on_hint_def)
qed

lemma destroy_call_refines:
  assumes inv: "hint_inv own s H" and key: "dkey_ok s rid"
  shows "\<exists>r rid' s' H'. exec_hint (HintDestroy rid) s H = Some (r, rid', s', H') \<and> hint_inv own s' H' \<and>
    hint_spec ctx ob (habs s H) (HintDestroy rid) r rid' (habs s' H')"
proof (cases "found_at s OPAQUE_HINT (OPAQUE_GET_DATA_KEY rid)")
  case None
  then have l: "lookup_hint s (OPAQUE_GET_DATA_KEY rid) = Some None" by (simp add: lookup_hint_found [OF inv key [unfolded dkey_ok_def]])
  have "hint_spec ctx ob (habs s H) (HintDestroy rid) PWR_RET_FAILURE None (habs s H)"
    by (rule hint_spec.unknown [of _ rid]) (simp_all add: habs_def hint_not_found [OF l])
  with l inv show ?thesis by (simp add: PWR_AppHintDestroy_def)
next
  case (Some h)
  then have l: "lookup_hint s (OPAQUE_GET_DATA_KEY rid) = Some (Some h)" by (simp add: lookup_hint_found [OF inv key [unfolded dkey_ok_def]])
  from hint_destroy_refines [OF inv l key [unfolded dkey_ok_def]] obtain s' H' r where d: "PWR_AppHintDestroy rid s H = Some (PWR_RET_SUCCESS, s', H')" "hint_inv own s' H'"
    "regions s' H' = (regions s H)(OPAQUE_GET_DATA_KEY rid := None)" "regions s H (OPAQUE_GET_DATA_KEY rid) = Some r"
    "hs_logctx H' = hs_logctx H" "hs_log H' = (if hs_logctx H then hs_log H @ [Destroyed (rg_name r)] else hs_log H)"
    by blast
  have "habs s' H' = reports (Destroyed (rg_name r)) ((habs s H)\<lparr>hsp_regions := (regions s H)(OPAQUE_GET_DATA_KEY rid := None)\<rparr>)"
    using d(3-6) by (simp add: habs_def reports_def)
  with hint_spec.destroy [of "habs s H" rid r ctx ob] d(1,2,4) show ?thesis by (auto simp: habs_def)
qed

text \<open>A call of \<^verbatim>\<open>PWR_AppHintCreate\<close> whose handle names the context of its object.\<close>

fun honest :: "(addr \<Rightarrow> addr) \<Rightarrow> lib \<Rightarrow> hint_call \<Rightarrow> bool" where
  "honest own s (HintCreate obj name want_id h level) \<longleftrightarrow>
     (\<forall>a c. found_at s OPAQUE_OBJECT (OPAQUE_GET_DATA_KEY obj) = Some a \<longrightarrow>
        found_at s OPAQUE_CONTEXT (OPAQUE_GET_CONTEXT_KEY obj) = Some c \<longrightarrow> c = own a)"
| "honest own s call \<longleftrightarrow> True"

text \<open>The keys that a call looks up; see \<open>key_ok\<close> for zero keys.\<close>

fun hint_keys_ok :: "lib \<Rightarrow> hint_call \<Rightarrow> bool" where
  "hint_keys_ok s (HintCreate obj name want_id h level) \<longleftrightarrow> dkey_ok s obj \<and> ckey_ok s obj"
| "hint_keys_ok s (HintDestroy rid) \<longleftrightarrow> dkey_ok s rid"
| "hint_keys_ok s (HintStart rid) \<longleftrightarrow> dkey_ok s rid"
| "hint_keys_ok s (HintStop rid) \<longleftrightarrow> dkey_ok s rid"
| "hint_keys_ok s (HintProgress rid fraction) \<longleftrightarrow> dkey_ok s rid"


definition example_hints :: hints where
  "example_hints = \<lparr>hs_hints = Map.empty, hs_obj = [2 \<mapsto> [], 3 \<mapsto> []], hs_names = [1 \<mapsto> []], hs_unique = (\<lambda>_. 0),
     hs_logctx = True, hs_initcount = 1, hs_log = []\<rparr>"

lemma example_hint_inv: "hint_inv (\<lambda>_. 1) example_lib example_hints"
proof -
  have "has_type example_lib a t \<longleftrightarrow> a = 1 \<and> t = OPAQUE_CONTEXT \<or> (a = 2 \<or> a = 3) \<and> t = OPAQUE_OBJECT" for a t
    by (auto simp: has_type_def example_lib_def)
  moreover have "refs_fresh example_lib" by (auto simp: refs_fresh_def example_lib_def)
  moreover have "objs example_lib 2 \<noteq> None" "objs example_lib 3 \<noteq> None" by (simp_all add: example_lib_def)
  ultimately show ?thesis unfolding hint_inv_def using example_handles(1)
    by (auto simp: example_hints_def ordered_by_def example_lib_def [THEN arg_cong [where f = opaque_map]])
qed


text \<open>
  A handle with the key of an object and the key of another context makes a hint of the object in
  that context. Names are unique only within a context, so the object then can have two hints with one
  name, and the call that destroys the second one removes the first.
\<close>

definition two_named :: hints where
  "two_named = \<lparr>hs_hints = [8 \<mapsto> \<lparr>hint_ctxptr = Some 1, hint_objptr = Some 2, hint_object = 0, hint_name = Some ''loop'', hint_hint = 0, hint_level = 0\<rparr>,
      9 \<mapsto> \<lparr>hint_ctxptr = Some 7, hint_objptr = Some 2, hint_object = 0, hint_name = Some ''loop'', hint_hint = 0, hint_level = 0\<rparr>],
     hs_obj = [2 \<mapsto> [8, 9]], hs_names = [1 \<mapsto> [''loop''], 7 \<mapsto> [''loop'']], hs_unique = (\<lambda>_. 0), hs_logctx = False, hs_initcount = 1, hs_log = []\<rparr>"

lemma wrong_hint_destroyed:
  assumes "lookup_hint s (OPAQUE_GET_DATA_KEY rid) = Some (Some 9)" "opaque_inv s" "has_type s 8 OPAQUE_HINT"
  shows "\<exists>s' H'. PWR_AppHintDestroy rid s two_named = Some (PWR_RET_SUCCESS, s', H') \<and> hs_hints H' 8 = None \<and> hs_hints H' 9 \<noteq> None"
proof -
  from assms(3) obtain r where r: "refs s 8 = Some r" "ref_key r \<noteq> 0" "key_at s 8 = ref_key r"
    by (auto simp: has_type_def key_at_def)
  obtain s1 where "opaque_map_remove (key_at s 8) s = Some (True, s1)" by (rule release_keyed [OF assms(2,3)])
  with assms(1) r show ?thesis
    by (simp add: PWR_AppHintDestroy_def app_hint_destroy_def hint_message_def two_named_def all_named_def seq_lookup_def
        sorthints_def name_at_def strcmp_order del_hint_def lookup_name Let_def)
qed

end
