(* ===== verification/Hierarchy.thy ===== *)
theory Hierarchy
  imports X86_Plugin Hints
begin

text \<open>
  The construction of objects and of a hierarchy: the macros \<^verbatim>\<open>NEW_OBJ\<close> and \<^verbatim>\<open>DEL_OBJ\<close> of
  \<^verbatim>\<open>lib/object.c\<close>, and \<^verbatim>\<open>hierarchy_insert\<close> of \<^verbatim>\<open>lib/hierarchy.c\<close>. The state puts the library, its hints and
  the plugin together; \<open>pw_h\<close> is the hierarchy that is being built. As everywhere, \<open>None\<close> is an access to
  memory that is not allocated (or a loop that does not end).
\<close>

record pwr =
  pw_lib :: lib
  pw_hints :: hints
  pw_w :: xworld
  pw_h :: hierarchy_t
  pw_names :: "(string \<rightharpoonup> addr) option"
  pw_plugin :: bool

definition empty_hierarchy :: hierarchy_t where
  "empty_hierarchy = \<lparr>h_tree = None, h_map = Map.empty\<rparr>"

subsection \<open>Objects\<close>

text \<open>The zeroed structure of each type, constructed by the plugin.\<close>

definition construct_node :: "x86_metadata_t \<Rightarrow> obj_t \<Rightarrow> int \<times> hw_object" where
  "construct_node md ob = map_prod id HwNode (x86_construct_node (obj_t.extend ob \<lparr>node_plugin_data = None, node_ops = False\<rparr>))"

definition construct_socket :: "x86_metadata_t \<Rightarrow> obj_t \<Rightarrow> int \<times> hw_object" where
  "construct_socket md ob =
     map_prod id HwSocket (x86_construct_socket md (obj_t.extend ob \<lparr>socket_ht_id = 0, socket_plugin_data = None, socket_ops = False\<rparr>))"

definition construct_mem :: "x86_metadata_t \<Rightarrow> obj_t \<Rightarrow> int \<times> hw_object" where
  "construct_mem md ob =
     map_prod id HwMem (x86_construct_mem md (obj_t.extend ob \<lparr>mem_ht_id = 0, mem_plugin_data = None, mem_ops = False\<rparr>))"

definition construct_pplane :: "x86_metadata_t \<Rightarrow> obj_t \<Rightarrow> int \<times> hw_object" where
  "construct_pplane md ob = map_prod id HwPplane (x86_construct_pplane (obj_t.extend ob \<lparr>pplane_sub_type = 0, pplane_ops = False\<rparr>))"

definition construct_core :: "x86_metadata_t \<Rightarrow> obj_t \<Rightarrow> int \<times> hw_object" where
  "construct_core md ob =
     map_prod id HwCore (x86_construct_core (obj_t.extend ob \<lparr>core_socket_id = 0, core_plugin_data = None, core_ops = False\<rparr>))"

definition construct_ht :: "x86_metadata_t \<Rightarrow> obj_t \<Rightarrow> int \<times> hw_object" where
  "construct_ht md ob = map_prod id HwHt (x86_construct_ht (obj_t.extend ob \<lparr>ht_ops = False\<rparr>))"

definition plugin_destruct :: "hw_object \<Rightarrow> hw_object" where
  "plugin_destruct h =
     (case h of
        HwNode n \<Rightarrow> HwNode (snd (x86_destruct_node n))
      | HwSocket n \<Rightarrow> HwSocket (snd (x86_destruct_socket n))
      | HwMem n \<Rightarrow> HwMem (snd (x86_destruct_mem n))
      | HwPplane n \<Rightarrow> HwPplane (snd (x86_destruct_pplane n))
      | HwCore n \<Rightarrow> HwCore (snd (x86_destruct_core n))
      | HwHt n \<Rightarrow> HwHt (snd (x86_destruct_ht n)))"

text \<open>The structure is released at the end, with what the plugin left of it. A NULL sequence of hints is skipped.\<close>

definition DEL_OBJ :: "addr \<Rightarrow> pwr \<Rightarrow> pwr option" where
  "DEL_OBJ a p =
     do {
       _ \<leftarrow> objs (pw_lib p) a;
       (s, H) \<leftarrow> (case hs_obj (pw_hints p) a of
                    None \<Rightarrow> Some (pw_lib p, pw_hints p)
                  | Some hs \<Rightarrow> destroy_hints hs (pw_lib p) (pw_hints p));
       r \<leftarrow> refs s a;
       (_, s) \<leftarrow> opaque_map_remove (ref_key r) s;
       w \<leftarrow> (if pw_plugin p then map_option (\<lambda>h. (pw_w p)\<lparr>xw_objs := (xw_objs (pw_w p))(a \<mapsto> plugin_destruct h)\<rparr>) (xw_objs (pw_w p) a)
             else Some (pw_w p));
       Some (p\<lparr>pw_lib := s\<lparr>refs := (refs s)(a := None), objs := (objs s)(a := None)\<rparr>,
               pw_hints := H\<lparr>hs_obj := (hs_obj H)(a := None)\<rparr>,
               pw_w := w\<lparr>xw_objs := (xw_objs w)(a := None)\<rparr>\<rparr>)
     }"

text \<open>The name is the text that the format and its arguments give.\<close>

definition NEW_OBJ ::
  "int \<Rightarrow> (x86_metadata_t \<Rightarrow> obj_t \<Rightarrow> int \<times> hw_object) \<Rightarrow> 64 word \<Rightarrow> string \<Rightarrow> pwr \<Rightarrow> (addr option \<times> pwr) option" where
  "NEW_OBJ pwr_type constr os_id name p =
     (let (a, s) = alloc_ref (pw_lib p);
          ob = \<lparr>obj_type = pwr_type, obj_os_id = os_id, obj_name = name, obj_gnode = None\<rparr>;
          s = s\<lparr>objs := (objs s)(a \<mapsto> ob)\<rparr>;
          (r, h) = constr (xw_md (pw_w p)) ob;
          p = p\<lparr>pw_lib := s, pw_w := (pw_w p)\<lparr>xw_objs := (xw_objs (pw_w p))(a \<mapsto> h)\<rparr>\<rparr> in
      if \<not> pw_plugin p \<or> r \<noteq> 0 then do { p \<leftarrow> DEL_OBJ a p; Some (None, p) }
      else
        let H = pw_hints p; p = p\<lparr>pw_hints := H\<lparr>hs_obj := (hs_obj H)(a \<mapsto> init_hints)\<rparr>\<rparr> in
        do {
          (k, s) \<leftarrow> opaque_map_insert OPAQUE_OBJECT a (pw_lib p);
          let p = p\<lparr>pw_lib := s\<rparr>;
          if k = 0 then do { p \<leftarrow> DEL_OBJ a p; Some (None, p) } else Some (Some a, p)
        })"

definition new_node :: "64 word \<Rightarrow> string \<Rightarrow> pwr \<Rightarrow> (addr option \<times> pwr) option" where
  "new_node = NEW_OBJ PWR_OBJ_NODE construct_node"

definition new_socket :: "64 word \<Rightarrow> string \<Rightarrow> pwr \<Rightarrow> (addr option \<times> pwr) option" where
  "new_socket = NEW_OBJ PWR_OBJ_SOCKET construct_socket"

definition new_mem :: "64 word \<Rightarrow> string \<Rightarrow> pwr \<Rightarrow> (addr option \<times> pwr) option" where
  "new_mem = NEW_OBJ PWR_OBJ_MEM construct_mem"

definition new_pplane :: "64 word \<Rightarrow> string \<Rightarrow> pwr \<Rightarrow> (addr option \<times> pwr) option" where
  "new_pplane = NEW_OBJ PWR_OBJ_POWER_PLANE construct_pplane"

definition new_core :: "64 word \<Rightarrow> string \<Rightarrow> pwr \<Rightarrow> (addr option \<times> pwr) option" where
  "new_core = NEW_OBJ PWR_OBJ_CORE construct_core"

definition new_ht :: "64 word \<Rightarrow> string \<Rightarrow> pwr \<Rightarrow> (addr option \<times> pwr) option" where
  "new_ht = NEW_OBJ PWR_OBJ_HT construct_ht"

definition obj_del_container :: "addr \<Rightarrow> pwr \<Rightarrow> pwr option" where
  "obj_del_container a p =
     do {
       ob \<leftarrow> objs (pw_lib p) a;
       if obj_type ob \<in> {PWR_OBJ_NODE, PWR_OBJ_SOCKET, PWR_OBJ_CORE, PWR_OBJ_POWER_PLANE, PWR_OBJ_MEM, PWR_OBJ_HT}
       then DEL_OBJ a p else Some p
     }"

definition obj_destroy_callback :: "addr \<Rightarrow> pwr \<Rightarrow> pwr option" where
  "obj_destroy_callback a p = obj_del_container a p"

subsection \<open>The tree and the map of names\<close>

text \<open>\<^verbatim>\<open>g_node_new\<close> and \<^verbatim>\<open>g_node_append\<close>\<close>

definition g_node_new :: "addr \<Rightarrow> lib \<Rightarrow> addr \<times> lib" where
  "g_node_new a s = (next_addr s, s\<lparr>next_addr := Suc (next_addr s),
     gnodes := (gnodes s)(next_addr s \<mapsto> \<lparr>gn_data = a, gn_parent = None, gn_children = []\<rparr>)\<rparr>)"

definition g_node_append :: "addr \<Rightarrow> addr \<Rightarrow> lib \<Rightarrow> lib option" where
  "g_node_append parent g s =
     do {
       pn \<leftarrow> gnodes s parent;
       n \<leftarrow> gnodes s g;
       Some (s\<lparr>gnodes := (gnodes s)(g \<mapsto> n\<lparr>gn_parent := Some parent\<rparr>, parent \<mapsto> pn\<lparr>gn_children := gn_children pn @ [g]\<rparr>)\<rparr>)
     }"

text \<open>
  Inserting an object under a name that is in the map already makes the table release the old object,
  and with it the name that the table keeps as its key; that is the second \<open>None\<close>.
\<close>

definition hierarchy_insert :: "addr option \<Rightarrow> addr option \<Rightarrow> pwr \<Rightarrow> (int \<times> pwr) option" where
  "hierarchy_insert parent obj p =
     (case obj of
        None \<Rightarrow> Some (PWR_RET_FAILURE, p)
      | Some a \<Rightarrow>
          do {
            ob \<leftarrow> objs (pw_lib p) a;
            let (g, s) = g_node_new a (pw_lib p);
            let s = s\<lparr>objs := (objs s)(a \<mapsto> ob\<lparr>obj_gnode := Some g\<rparr>)\<rparr>;
            (s, h) \<leftarrow> (case parent of
                         Some pg \<Rightarrow> do { s \<leftarrow> g_node_append pg g s; Some (s, pw_h p) }
                       | None \<Rightarrow> Some (s, (pw_h p)\<lparr>h_tree := Some g\<rparr>));
            if h_map h (obj_name ob) \<noteq> None then None
            else Some (PWR_RET_SUCCESS, p\<lparr>pw_lib := s, pw_h := h\<lparr>h_map := (h_map h)(obj_name ob \<mapsto> a)\<rparr>\<rparr>)
          })"

text \<open>Changing a structure of the plugin.\<close>

definition set_hw :: "addr \<Rightarrow> hw_object \<Rightarrow> pwr \<Rightarrow> pwr" where
  "set_hw a h p = p\<lparr>pw_w := (pw_w p)\<lparr>xw_objs := (xw_objs (pw_w p))(a \<mapsto> h)\<rparr>\<rparr>"

text \<open>The gnode of an object.\<close>

definition obj_node :: "addr \<Rightarrow> pwr \<Rightarrow> addr option option" where
  "obj_node a p = map_option obj_gnode (objs (pw_lib p) a)"

end
