(* ===== verification/Cpu_List.thy ===== *)
theory Cpu_List
  imports Bitmask Plugin_Common
begin

text \<open>
  The first part of \<^verbatim>\<open>lib/plugins/x86/x86_hierarchy.c\<close>: the lists of processors that the kernel
  prints, as in \<^verbatim>\<open>0-3,8,16-30:2\<close>, and the reading of single lines and numbers. A position in a
  text is the text from there on, so an earlier position is a longer text. The loop over a range
  adds 32-bit numbers that may wrap around and is a partial function.
\<close>

definition x86_string_parse_token :: "string option \<Rightarrow> char \<Rightarrow> string option" where
  "x86_string_parse_token str sep =
     (case str of
        None \<Rightarrow> None
      | Some s \<Rightarrow> (case dropWhile (\<lambda>c. c \<noteq> sep) s of [] \<Rightarrow> None | _ # r \<Rightarrow> Some r))"

text \<open>\<^verbatim>\<open>sscanf(s, "%u%c", ...)\<close>: the number and how many of the two conversions were done.\<close>

definition scan_uint_stop :: "string \<Rightarrow> (32 word \<times> int) option" where
  "scan_uint_stop s = map_option (\<lambda>(n, r). (n, if r = [] then 1 else 2)) (scan_uint s)"

text \<open>One range: the number of conversions of the last scan, first and last number, increment.\<close>

definition parse_range :: "string \<Rightarrow> (int \<times> 32 word \<times> 32 word \<times> 32 word) option" where
  "parse_range rng =
     (case scan_uint_stop rng of
        None \<Rightarrow> None
      | Some (beg, r) \<Rightarrow>
          let tok1 = x86_string_parse_token (Some rng) CHR ''-'';
              tok2 = x86_string_parse_token (Some rng) CHR '','';
              inside = (\<lambda>t. case tok2 of None \<Rightarrow> True | Some t2 \<Rightarrow> length t2 < length t) in
          (case tok1 of
             None \<Rightarrow> Some (r, beg, beg, 1)
           | Some t1 \<Rightarrow>
               if \<not> inside t1 then Some (r, beg, beg, 1)
               else
                 (case scan_uint_stop t1 of
                    None \<Rightarrow> None
                  | Some (fin, r) \<Rightarrow>
                      (case x86_string_parse_token (Some t1) CHR '':'' of
                         None \<Rightarrow> Some (r, beg, fin, 1)
                       | Some t3 \<Rightarrow>
                           if \<not> inside t3 then Some (r, beg, fin, 1)
                           else
                             (case scan_uint_stop t3 of
                                None \<Rightarrow> None
                              | Some (inc, r) \<Rightarrow> if inc = 0 then None else Some (r, beg, fin, inc))))))"

text \<open>The loop over the numbers of a range; \<open>False\<close> if one is not in the mask.\<close>

partial_function (option) set_range :: "bitmask_t \<Rightarrow> 32 word \<Rightarrow> 32 word \<Rightarrow> 32 word \<Rightarrow> (bool \<times> bitmask_t) option" where
  "set_range m beg fin inc =
     (if beg \<le> fin then
        if unat beg \<ge> used m then Some (False, m)
        else do { m \<leftarrow> BITMASK_SET m (unat beg); set_range m (beg + inc) fin inc }
      else Some (True, m))"

lemma parse_token_shorter: "x86_string_parse_token (Some s) sep = Some r \<Longrightarrow> length r < length s"
proof -
  assume "x86_string_parse_token (Some s) sep = Some r"
  then obtain c where "dropWhile (\<lambda>c. c \<noteq> sep) s = c # r"
    by (auto simp: x86_string_parse_token_def split: list.splits)
  with length_dropWhile_le [of "\<lambda>c. c \<noteq> sep" s] show ?thesis by simp
qed

function list_loop :: "string option \<Rightarrow> int \<Rightarrow> bitmask_t \<Rightarrow> (int \<times> bitmask_t) option" where
  "list_loop None r m = Some (if r = 2 then 1 else 0, m)"
| "list_loop (Some rng) r m =
     (case parse_range rng of
        None \<Rightarrow> Some (1, m)
      | Some (r, beg, fin, inc) \<Rightarrow>
          if \<not> beg \<le> fin then Some (1, m)
          else
            (case set_range m beg fin inc of
               None \<Rightarrow> None
             | Some (ok, m) \<Rightarrow>
                 if ok then list_loop (x86_string_parse_token (Some rng) CHR '','') r m else Some (1, m)))"
  by pat_completeness auto
termination
proof (relation "measure (\<lambda>(s, r, m). case s of None \<Rightarrow> 0 | Some t \<Rightarrow> Suc (length t))")
  show "((x86_string_parse_token (Some rng) CHR '','', r', m'), Some rng, r, m)
      \<in> measure (\<lambda>(s, r, m). case s of None \<Rightarrow> 0 | Some t \<Rightarrow> Suc (length t))" for rng r r' m m'
    by (cases "x86_string_parse_token (Some rng) CHR '',''") (simp_all add: parse_token_shorter)
qed simp

definition x86_list_parse_bitmask :: "string option \<Rightarrow> bitmask_t \<Rightarrow> (int \<times> bitmask_t) option" where
  "x86_list_parse_bitmask list m = do { m \<leftarrow> BITMASK_CLEARALL m; list_loop list 0 m }"

subsection \<open>Lines and numbers\<close>

text \<open>\<^verbatim>\<open>getline\<close> fails at the end of the file; the newline is removed.\<close>

definition x86_read_line :: "string option \<Rightarrow> 'a sysworld_scheme \<Rightarrow> string option \<times> 'a sysworld_scheme" where
  "x86_read_line path w =
     (case g_file_get_contents path w of
        (None, w) \<Rightarrow> (None, w)
      | (Some body, w) \<Rightarrow>
          (if body = [] then None else Some (c_string (takeWhile (\<lambda>c. c \<noteq> char_of (10 :: nat)) body)), w))"

text \<open>The value stays as it was (\<open>None\<close>) if the function fails.\<close>

definition x86_read_uint32 :: "string option \<Rightarrow> 'a sysworld_scheme \<Rightarrow> int \<times> 32 word option \<times> 'a sysworld_scheme" where
  "x86_read_uint32 path w =
     (case x86_read_line path w of
        (None, w) \<Rightarrow> (- 1, None, w)
      | (Some buf, w) \<Rightarrow> (case scan_uint buf of None \<Rightarrow> (- 1, None, w) | Some (v, _) \<Rightarrow> (0, Some v, w)))"

definition x86_read_uint64 :: "string option \<Rightarrow> 'a sysworld_scheme \<Rightarrow> int \<times> 64 word option \<times> 'a sysworld_scheme" where
  "x86_read_uint64 path w =
     (case x86_read_line path w of
        (None, w) \<Rightarrow> (- 1, None, w)
      | (Some buf, w) \<Rightarrow>
          (case scan_decimal buf of None \<Rightarrow> (- 1, None, w) | Some (neg, n, _) \<Rightarrow> (0, Some (to_ulong neg n), w)))"

text \<open>A number between two texts. The number may be stored although the function then fails.\<close>

definition x86_str_to_val :: "string \<Rightarrow> string \<Rightarrow> string \<Rightarrow> int \<times> 64 word option" where
  "x86_str_to_val str prefix suffix =
     (if take (length prefix) str \<noteq> prefix then (1, None)
      else
        (case scan_decimal (drop (length prefix) str) of
           None \<Rightarrow> (1, Some 0)
         | Some (neg, n, ep) \<Rightarrow> (if ep \<noteq> suffix then 1 else 0, Some (to_ulong neg n))))"

subsection \<open>The loop over a range ends\<close>

text \<open>An upper bound for the steps that are left: the numbers go up, or down if the increment is so large that it wraps around.\<close>

definition steps_left :: "32 word \<Rightarrow> 32 word \<Rightarrow> nat" where
  "steps_left inc beg =
     (if unat inc < 2 ^ 31 then 2 ^ 32 - unat beg else if unat beg < 2 ^ 31 then Suc (unat beg) else 0)"

lemma unat_add_32:
  fixes a b :: "32 word"
  shows "unat (a + b) = (if unat a + unat b < 2 ^ 32 then unat a + unat b else unat a + unat b - 2 ^ 32)"
proof -
  have "unat a < 2 ^ 32" "unat b < 2 ^ 32" using unsigned_less [of a] unsigned_less [of b] by simp_all
  then show ?thesis
    by (simp add: unat_word_ariths(1) mod_if)
qed

lemma steps_left_decreases:
  assumes "unat beg < 2 ^ 31" "inc \<noteq> 0"
  shows "steps_left inc (beg + inc) < steps_left inc beg"
proof -
  have "0 < unat inc" "unat inc < 2 ^ 32" using assms(2) unsigned_less [of inc] by (simp_all add: unat_gt_0)
  with assms(1) show ?thesis unfolding steps_left_def unat_add_32 by auto
qed

definition same_shape :: "bitmask_t \<Rightarrow> bitmask_t \<Rightarrow> bool" where
  "same_shape m m' \<longleftrightarrow> used m' = used m \<and> length (bitblock m') = length (bitblock m)"

lemma same_shape_wf: "same_shape m m' \<Longrightarrow> bitmask_wf m \<Longrightarrow> bitmask_wf m'"
  by (simp add: same_shape_def bitmask_wf_def)

lemma set_range_returns:
  assumes "bitmask_wf m" "used m \<le> 2 ^ 31" "inc \<noteq> 0"
  shows "\<exists>ok m'. set_range m beg fin inc = Some (ok, m') \<and> same_shape m m'"
  using assms
proof (induction "steps_left inc beg" arbitrary: beg m rule: less_induct)
  case less
  show ?case
  proof (cases "beg \<le> fin \<and> unat beg < used m")
    case True
    then obtain m1 where m1: "BITMASK_SET m (unat beg) = Some m1" "same_shape m m1"
      using SET_shape [OF less.prems(1), of "unat beg"] unfolding same_shape_def by metis
    from True less.prems(2) have "steps_left inc (beg + inc) < steps_left inc beg"
      by (intro steps_left_decreases) (use less.prems(3) in auto)
    moreover have "used m1 \<le> 2 ^ 31" using m1(2) less.prems(2) by (simp add: same_shape_def)
    ultimately obtain ok m' where "set_range m1 (beg + inc) fin inc = Some (ok, m')" "same_shape m1 m'"
      using less.hyps [of "beg + inc" m1] same_shape_wf [OF m1(2) less.prems(1)] less.prems(3) by blast
    with True m1 show ?thesis by (subst set_range.simps) (simp add: same_shape_def)
  qed (subst set_range.simps, auto simp: same_shape_def)
qed

lemma parse_range_inc: "parse_range rng = Some (r, beg, fin, inc) \<Longrightarrow> inc \<noteq> 0"
  by (auto simp: parse_range_def Let_def split: option.splits if_splits)

lemma list_loop_returns:
  assumes "bitmask_wf m" "used m \<le> 2 ^ 31"
  shows "\<exists>r' m'. list_loop list r m = Some (r', m') \<and> same_shape m m'"
  using assms
proof (induction list r m rule: list_loop.induct)
  case (2 rng r m)
  show ?case
  proof (cases "parse_range rng")
    case None
    then show ?thesis by (simp add: same_shape_def)
  next
    case (Some x)
    then obtain r1 beg fin inc where x: "parse_range rng = Some (r1, beg, fin, inc)" by (metis prod_cases4)
    show ?thesis
    proof (cases "beg \<le> fin")
      case True
      obtain ok m1 where m1: "set_range m beg fin inc = Some (ok, m1)" "same_shape m m1"
        using set_range_returns [OF 2(2,3) parse_range_inc [OF x]] by blast
      show ?thesis
      proof (cases ok)
        case ok: True
        have "used m1 \<le> 2 ^ 31" using m1(2) 2(3) by (simp add: same_shape_def)
        with 2(1) [OF x refl refl refl _ m1(1) refl] True ok same_shape_wf [OF m1(2) 2(2)]
        obtain r' m' where "list_loop (x86_string_parse_token (Some rng) CHR '','') r1 m1 = Some (r', m')" "same_shape m1 m'"
          by blast
        with x True m1 ok show ?thesis by (simp add: same_shape_def)
      qed (use x True m1 in simp)
    qed (use x in \<open>simp add: same_shape_def\<close>)
  qed
qed (simp add: same_shape_def)

text \<open>
  C14. Whatever text the kernel or a replacement of its file gives, the list of processors is parsed
  in finitely many steps without leaving the mask, as long as the mask has at most \<open>2 ^ 31\<close> bits.
\<close>

theorem list_parse_returns:
  assumes "bitmask_full m" "used m \<le> 2 ^ 31"
  shows "\<exists>r m'. x86_list_parse_bitmask list m = Some (r, m') \<and> bitmask_full m' \<and> used m' = used m"
proof -
  obtain m0 where m0: "BITMASK_CLEARALL m = Some m0" "bitmask_full m0" "used m0 = used m"
    using bits_of_CLEARALL [OF assms(1)] by blast
  with list_loop_returns [OF bitmask_full_wf [OF m0(2)], of list 0] assms(2)
  obtain r m' where "list_loop list 0 m0 = Some (r, m')" "same_shape m0 m'" by auto
  with m0 show ?thesis by (simp add: x86_list_parse_bitmask_def same_shape_def bitmask_full_def)
qed

theorem list_parse_returns_witness:
  "\<exists>r m'. x86_list_parse_bitmask (Some ''5-7:4294967295,,'') \<lparr>used = 8, bitblock = [0]\<rparr> = Some (r, m') \<and>
     bitmask_full m' \<and> used m' = used \<lparr>used = 8, bitblock = [0]\<rparr>"
  by (rule list_parse_returns) (simp_all add: bitmask_full_def block_defs)

subsection \<open>Lists as the kernel prints them\<close>

datatype cpu_range = Cpu "32 word" | Span "32 word" "32 word" | Stride "32 word" "32 word" "32 word"

fun show_range :: "cpu_range \<Rightarrow> string" where
  "show_range (Cpu n) = show_nat (unat n)"
| "show_range (Span lo hi) = show_nat (unat lo) @ ''-'' @ show_nat (unat hi)"
| "show_range (Stride lo hi inc) = show_nat (unat lo) @ ''-'' @ show_nat (unat hi) @ '':'' @ show_nat (unat inc)"

fun show_ranges :: "cpu_range list \<Rightarrow> string" where
  "show_ranges [] = []"
| "show_ranges [r] = show_range r"
| "show_ranges (r # rs) = show_range r @ '','' @ show_ranges rs"

fun range_bounds :: "cpu_range \<Rightarrow> 32 word \<times> 32 word \<times> 32 word" where
  "range_bounds (Cpu n) = (n, n, 1)"
| "range_bounds (Span lo hi) = (lo, hi, 1)"
| "range_bounds (Stride lo hi inc) = (lo, hi, inc)"

definition strided :: "nat \<Rightarrow> nat \<Rightarrow> nat \<Rightarrow> nat set" where
  "strided lo hi inc = {n. lo \<le> n \<and> n \<le> hi \<and> inc dvd (n - lo)}"

definition range_cpus :: "cpu_range \<Rightarrow> nat set" where
  "range_cpus r = (case range_bounds r of (lo, hi, inc) \<Rightarrow> strided (unat lo) (unat hi) (unat inc))"

text \<open>A range that fits a mask of \<open>n\<close> bits, and whose increment does not wrap around.\<close>

definition range_ok :: "nat \<Rightarrow> cpu_range \<Rightarrow> bool" where
  "range_ok n r \<longleftrightarrow>
     (case range_bounds r of (lo, hi, inc) \<Rightarrow> lo \<le> hi \<and> unat hi < n \<and> inc \<noteq> 0 \<and> unat hi + unat inc < 2 ^ 32)"

lemma strided_empty: "hi < lo \<Longrightarrow> strided lo hi inc = {}"
  by (auto simp: strided_def)

lemma strided_step:
  assumes "lo \<le> hi" "0 < inc"
  shows "strided lo hi inc = insert lo (strided (lo + inc) hi inc)"
proof (rule set_eqI)
  fix n
  have "inc dvd (n - lo) \<longleftrightarrow> n = lo \<or> (lo + inc \<le> n \<and> inc dvd (n - (lo + inc)))" if "lo \<le> n"
  proof
    assume d: "inc dvd (n - lo)"
    then obtain k where k: "n - lo = inc * k" by (auto simp: dvd_def)
    show "n = lo \<or> (lo + inc \<le> n \<and> inc dvd (n - (lo + inc)))"
    proof (cases k)
      case (Suc j)
      with k that have "n = lo + inc + inc * j" by simp
      then show ?thesis by simp
    qed (use k that in simp)
  next
    assume "n = lo \<or> (lo + inc \<le> n \<and> inc dvd (n - (lo + inc)))"
    then show "inc dvd (n - lo)"
    proof
      assume h: "lo + inc \<le> n \<and> inc dvd (n - (lo + inc))"
      then have "n - lo = (n - (lo + inc)) + inc" by simp
      with h show ?thesis by (metis dvd_add dvd_refl)
    qed simp
  qed
  with assms show "n \<in> strided lo hi inc \<longleftrightarrow> n \<in> insert lo (strided (lo + inc) hi inc)"
    by (auto simp: strided_def)
qed

lemma set_range_bits:
  assumes "bitmask_wf m" "unat fin < used m" "inc \<noteq> 0" "unat fin + unat inc < 2 ^ 32"
  shows "\<exists>m'. set_range m beg fin inc = Some (True, m') \<and> same_shape m m' \<and>
    bits_of m' = bits_of m \<union> strided (unat beg) (unat fin) (unat inc)"
  using assms
proof (induction "2 ^ 32 - unat beg" arbitrary: beg m rule: less_induct)
  case less
  have inc: "0 < unat inc" using less.prems(3) by (simp add: unat_gt_0)
  show ?case
  proof (cases "beg \<le> fin")
    case True
    then have le: "unat beg \<le> unat fin" by (simp add: word_le_nat_alt)
    with less.prems(2) have b: "unat beg < used m" by simp
    then obtain m1 where m1: "BITMASK_SET m (unat beg) = Some m1" "same_shape m m1"
      using SET_shape [OF less.prems(1), of "unat beg"] unfolding same_shape_def by metis
    have add: "unat (beg + inc) = unat beg + unat inc" using le less.prems(4) by (simp add: unat_add_32)
    moreover have "unat beg < 2 ^ 32" using le unsigned_less [of fin] less.prems(4) by linarith
    ultimately have "2 ^ 32 - unat (beg + inc) < 2 ^ 32 - unat beg" using inc by simp
    then obtain m' where "set_range m1 (beg + inc) fin inc = Some (True, m')" "same_shape m1 m'"
      "bits_of m' = bits_of m1 \<union> strided (unat (beg + inc)) (unat fin) (unat inc)"
      using less.hyps [of "beg + inc" m1] same_shape_wf [OF m1(2) less.prems(1)] less.prems(2-4) m1(2)
      by (auto simp: same_shape_def)
    moreover have "bits_of m1 = insert (unat beg) (bits_of m)" by (rule bits_of_SET [OF m1(1) b])
    ultimately show ?thesis using True b m1 strided_step [OF le inc] add
      by (subst set_range.simps) (auto simp: same_shape_def)
  next
    case False
    then have "unat fin < unat beg" by (simp add: word_le_nat_alt)
    with False show ?thesis by (subst set_range.simps) (simp add: same_shape_def strided_empty)
  qed
qed

text \<open>What follows a range: nothing, or a comma.\<close>

definition range_end :: "string \<Rightarrow> bool" where
  "range_end rest \<longleftrightarrow> rest = [] \<or> hd rest = CHR '',''"

lemma token_skip: "sep \<notin> set p \<Longrightarrow> x86_string_parse_token (Some (p @ s)) sep = x86_string_parse_token (Some s) sep"
  by (induction p) (auto simp: x86_string_parse_token_def)

lemma token_simps [simp]:
  "x86_string_parse_token (Some []) sep = None"
  "x86_string_parse_token (Some (c # s)) sep = (if c = sep then Some s else x86_string_parse_token (Some s) sep)"
  by (simp_all add: x86_string_parse_token_def)

lemma show_nat_chars: "c \<in> set (show_nat n) \<Longrightarrow> is_digit c"
  using show_nat_digits [of n] by (simp add: list_all_iff)

lemma separators: "CHR '','' \<notin> set (show_nat n)" "CHR ''-'' \<notin> set (show_nat n)" "CHR '':'' \<notin> set (show_nat n)"
  by (auto dest!: show_nat_chars simp: is_digit_def)

lemmas skip_number = token_skip [OF separators(1)] token_skip [OF separators(2)] token_skip [OF separators(3)]

lemma ends_numbers:
  "range_end rest \<Longrightarrow> ends_number rest" "ends_number (CHR ''-'' # s)" "ends_number (CHR '':'' # s)"
  by (cases rest; auto simp: range_end_def ends_number_def is_digit_def) (simp_all add: ends_number_def is_digit_def)

lemma scan_stop_show:
  "ends_number rest \<Longrightarrow> scan_uint_stop (show_nat (unat u) @ rest) = Some (u, if rest = [] then 1 else 2)" for u :: "32 word"
  using scan_uint_show [of rest "[]" u] by (simp add: scan_uint_stop_def)

text \<open>A separator that is found only behind the comma does not belong to the range.\<close>

lemma separator_behind:
  assumes "range_end rest" "sep \<noteq> CHR '',''" "x86_string_parse_token (Some rest) sep = Some t"
  shows "rest \<noteq> [] \<and> length t \<le> length (tl rest)"
proof (cases rest)
  case (Cons c r)
  with assms have "x86_string_parse_token (Some r) sep = Some t" by (simp add: range_end_def)
  then show ?thesis using parse_token_shorter [of r sep t] Cons by simp
qed (use assms in simp)

lemma comma_of_rest: "range_end rest \<Longrightarrow> x86_string_parse_token (Some rest) CHR '','' = (if rest = [] then None else Some (tl rest))"
  by (cases rest) (simp_all add: range_end_def)

lemma parse_range_show:
  assumes "range_end rest" "range_bounds r = (lo, hi, inc)" "inc \<noteq> 0"
  shows "parse_range (show_range r @ rest) = Some (if rest = [] then 1 else 2, lo, hi, inc)"
proof -
  note facts = parse_range_def Let_def skip_number scan_stop_show ends_numbers(2,3) ends_numbers(1) [OF assms(1)] comma_of_rest [OF assms(1)]
  note behind = separator_behind [OF assms(1)]
  have before: "rest \<noteq> [] \<Longrightarrow> length rest - Suc 0 < n + length rest" for n by (cases rest) simp_all
  show ?thesis
  proof (cases r)
    case (Cpu n)
    with assms show ?thesis
      by (auto simp: facts before split: option.splits dest: behind [rotated])
  next
    case (Span a b)
    with assms show ?thesis
      by (auto simp: facts before split: option.splits dest: behind [rotated])
  next
    case (Stride a b c)
    with assms show ?thesis
      by (auto simp: facts before split: option.splits dest: behind [rotated])
  qed
qed

lemma show_range_comma:
  "range_end rest \<Longrightarrow> x86_string_parse_token (Some (show_range r @ rest)) CHR '','' = (if rest = [] then None else Some (tl rest))"
  by (cases r) (simp_all add: skip_number comma_of_rest)

lemma list_loop_show:
  assumes "bitmask_wf m" "list_all (range_ok (used m)) (r # rs)"
  shows "\<exists>m'. list_loop (Some (show_ranges (r # rs))) x m = Some (0, m') \<and> same_shape m m' \<and>
    bits_of m' = bits_of m \<union> (\<Union>q \<in> set (r # rs). range_cpus q)"
  using assms
proof (induction rs arbitrary: r x m)
  case Nil
  obtain lo hi inc where b: "range_bounds r = (lo, hi, inc)" by (metis prod_cases3)
  with Nil have ok: "lo \<le> hi" "unat hi < used m" "inc \<noteq> 0" "unat hi + unat inc < 2 ^ 32" by (simp_all add: range_ok_def)
  from set_range_bits [OF Nil(1) ok(2-4), of lo] obtain m' where
    "set_range m lo hi inc = Some (True, m')" "same_shape m m'" "bits_of m' = bits_of m \<union> strided (unat lo) (unat hi) (unat inc)"
    by blast
  with parse_range_show [of "[]", OF _ b ok(3)] show_range_comma [of "[]" r] b ok show ?case
    by (simp add: range_end_def range_cpus_def)
next
  case (Cons q rs)
  obtain lo hi inc where b: "range_bounds r = (lo, hi, inc)" by (metis prod_cases3)
  with Cons.prems have ok: "lo \<le> hi" "unat hi < used m" "inc \<noteq> 0" "unat hi + unat inc < 2 ^ 32" by (simp_all add: range_ok_def)
  from set_range_bits [OF Cons.prems(1) ok(2-4), of lo] obtain m1 where
    m1: "set_range m lo hi inc = Some (True, m1)" "same_shape m m1" "bits_of m1 = bits_of m \<union> strided (unat lo) (unat hi) (unat inc)"
    by blast
  let ?rest = "CHR '','' # show_ranges (q # rs)"
  have rest: "range_end ?rest" by (simp add: range_end_def)
  have "list_all (range_ok (used m1)) (q # rs)" using Cons.prems(2) m1(2) by (simp add: same_shape_def)
  from Cons.IH [OF same_shape_wf [OF m1(2) Cons.prems(1)] this] obtain m' where
    "list_loop (Some (show_ranges (q # rs))) 2 m1 = Some (0, m')" "same_shape m1 m'"
    "bits_of m' = bits_of m1 \<union> (\<Union>q \<in> set (q # rs). range_cpus q)" by blast
  with m1 parse_range_show [OF rest b ok(3)] show_range_comma [OF rest, of r] b ok show ?case
    by (auto simp: range_cpus_def same_shape_def)
qed

text \<open>
  C13. A list of processors in the form in which the kernel prints it (single numbers, ranges, ranges
  with an increment) is accepted, and exactly the bits of its processors are set.
\<close>

theorem printed_list_is_parsed:
  assumes "bitmask_full m" "rs \<noteq> []" "list_all (range_ok (used m)) rs"
  shows "\<exists>m'. x86_list_parse_bitmask (Some (show_ranges rs)) m = Some (0, m') \<and> bits_of m' = (\<Union>r \<in> set rs. range_cpus r)"
proof -
  obtain r rest where rs: "rs = r # rest" using assms(2) by (cases rs) auto
  obtain m0 where m0: "BITMASK_CLEARALL m = Some m0" "bitmask_full m0" "used m0 = used m" "bits_of m0 = {}"
    using bits_of_CLEARALL [OF assms(1)] by blast
  from list_loop_show [OF bitmask_full_wf [OF m0(2)], of r rest 0] m0 assms(3) rs
  show ?thesis by (auto simp: x86_list_parse_bitmask_def)
qed

theorem printed_list_is_parsed_witness:
  "\<exists>m'. x86_list_parse_bitmask (Some (show_ranges [Span 0 3, Cpu 8, Stride 16 30 2])) \<lparr>used = 40, bitblock = [0]\<rparr> = Some (0, m') \<and>
     bits_of m' = (\<Union>r \<in> set [Span 0 3, Cpu 8, Stride 16 30 2]. range_cpus r)"
  by (rule printed_list_is_parsed) (simp_all add: bitmask_full_def block_defs range_ok_def)

text \<open>
  The mask is made with as many bits as the greatest processor number, so this processor has
  none: its list ends there with an error, which the caller ignores.
\<close>

lemma greatest_cpu_is_lost:
  assumes "new_bitmask (unat kernel_max) = Some m" "unat kernel_max + 1 < 2 ^ 32"
  shows "\<exists>m'. x86_list_parse_bitmask (Some (show_ranges [Cpu kernel_max])) m = Some (1, m') \<and> bits_of m' = {}"
proof -
  from bits_of_new [OF assms(1)] have m: "bitmask_full m" "used m = unat kernel_max" by simp_all
  obtain m0 where m0: "BITMASK_CLEARALL m = Some m0" "bitmask_full m0" "used m0 = used m" "bits_of m0 = {}"
    using bits_of_CLEARALL [OF m(1)] by blast
  have "parse_range (show_range (Cpu kernel_max) @ []) = Some (1, kernel_max, kernel_max, 1)"
    using parse_range_show [of "[]" "Cpu kernel_max" kernel_max kernel_max 1] by (simp add: range_end_def)
  with m0 m show ?thesis by (auto simp: x86_list_parse_bitmask_def set_range.simps)
qed

end
