(* ===== verification/X86_Hierarchy.thy ===== *)
theory X86_Hierarchy
  imports Hierarchy Cpu_List
begin

text \<open>
  The discovery of the hardware: the rest of \<^verbatim>\<open>lib/plugins/x86/x86_hierarchy.c\<close> and
  \<^verbatim>\<open>x86_construct_hierarchy\<close> of \<^verbatim>\<open>x86_plugin.c\<close>. The processors are read from the kernel's lists, the
  sockets, cores and threads from the topology files of each processor, and the temperature files
  from the directories of the monitoring chips.
\<close>

subsection \<open>Texts\<close>

text \<open>\<^verbatim>\<open>g_strstr_len\<close>: from the first occurrence on.\<close>

fun g_strstr :: "string \<Rightarrow> string \<Rightarrow> string option" where
  "g_strstr [] needle = (if needle = [] then Some [] else None)"
| "g_strstr (c # s) needle = (if take (length needle) (c # s) = needle then Some (c # s) else g_strstr s needle)"

definition CPU_MODEL_KEY :: string where "CPU_MODEL_KEY = ''model name''"
definition CPU_MODEL_UNK :: string where "CPU_MODEL_UNK = ''CPU vendor/model unknown''"

text \<open>
  The start of the value behind the separator: \<open>Some None\<close> if there is none. A newline directly behind
  the separator is skipped like other white space. At the end of the text the code goes on
  behind it.
\<close>

fun skip_to_value :: "string \<Rightarrow> string option option" where
  "skip_to_value [] = None"
| "skip_to_value (c # s) =
     (if is_space c then
        (case s of
           [] \<Rightarrow> Some None
         | d # _ \<Rightarrow> if d = char_of (10 :: nat) then Some None else skip_to_value s)
      else Some (Some (c # s)))"

definition cpu_model :: "string \<Rightarrow> string option option" where
  "cpu_model buf =
     (case Option.bind (g_strstr buf CPU_MODEL_KEY) (\<lambda>t. g_strstr t '':'') of
        None \<Rightarrow> Some None
      | Some sep \<Rightarrow>
          do {
            v \<leftarrow> skip_to_value (tl sep);
            Some (map_option (\<lambda>v. hd v # takeWhile (\<lambda>c. c \<noteq> char_of (10 :: nat)) (tl v)) v)
          })"

definition set_md :: "(x86_metadata_t \<Rightarrow> x86_metadata_t) \<Rightarrow> xworld \<Rightarrow> xworld" where
  "set_md f w = w\<lparr>xw_md := f (xw_md w)\<rparr>"

definition x86_read_socket_metadata :: "penv \<Rightarrow> xworld \<Rightarrow> (int \<times> xworld) option" where
  "x86_read_socket_metadata E w =
     (case g_file_get_contents (path0 E ''procfs_cpuinfo'') w of
        (None, w) \<Rightarrow> Some (PWR_RET_FAILURE, set_md (\<lambda>md. md\<lparr>md_socket_vendor_info := Some CPU_MODEL_UNK\<rparr>) w)
      | (Some buf, w) \<Rightarrow>
          do {
            v \<leftarrow> cpu_model (c_string buf);
            case v of
              None \<Rightarrow> Some (PWR_RET_FAILURE, set_md (\<lambda>md. md\<lparr>md_socket_vendor_info := Some CPU_MODEL_UNK\<rparr>) w)
            | Some m \<Rightarrow> Some (PWR_RET_SUCCESS, set_md (\<lambda>md. md\<lparr>md_socket_vendor_info := Some m\<rparr>) w)
          })"

subsection \<open>Sockets, cores and hardware threads\<close>

text \<open>Assignments to members of the structures of the plugin.\<close>

definition upd_socket :: "(socket_t \<Rightarrow> socket_t option) \<Rightarrow> addr \<Rightarrow> pwr \<Rightarrow> pwr option" where
  "upd_socket f a p =
     (case xw_objs (pw_w p) a of Some (HwSocket n) \<Rightarrow> map_option (\<lambda>n. set_hw a (HwSocket n) p) (f n) | _ \<Rightarrow> None)"

definition upd_mem :: "(mem_t \<Rightarrow> mem_t option) \<Rightarrow> addr \<Rightarrow> pwr \<Rightarrow> pwr option" where
  "upd_mem f a p =
     (case xw_objs (pw_w p) a of Some (HwMem n) \<Rightarrow> map_option (\<lambda>n. set_hw a (HwMem n) p) (f n) | _ \<Rightarrow> None)"

definition upd_core :: "(core_t \<Rightarrow> core_t option) \<Rightarrow> addr \<Rightarrow> pwr \<Rightarrow> pwr option" where
  "upd_core f a p =
     (case xw_objs (pw_w p) a of Some (HwCore n) \<Rightarrow> map_option (\<lambda>n. set_hw a (HwCore n) p) (f n) | _ \<Rightarrow> None)"

definition upd_pplane :: "(pplane_t \<Rightarrow> pplane_t) \<Rightarrow> addr \<Rightarrow> pwr \<Rightarrow> pwr option" where
  "upd_pplane f a p = (case xw_objs (pw_w p) a of Some (HwPplane n) \<Rightarrow> Some (set_hw a (HwPplane (f n)) p) | _ \<Rightarrow> None)"

definition set_rapl_socket :: "64 word \<Rightarrow> socket_t \<Rightarrow> socket_t option" where
  "set_rapl_socket pkg n = map_option (\<lambda>x. n\<lparr>socket_plugin_data := Some (x\<lparr>xs_rapl_pkg_id := pkg\<rparr>)\<rparr>) (socket_plugin_data n)"

definition set_rapl_mem :: "64 word \<Rightarrow> 64 word \<Rightarrow> mem_t \<Rightarrow> mem_t option" where
  "set_rapl_mem pkg mem n =
     map_option (\<lambda>x. n\<lparr>mem_plugin_data := Some (x\<lparr>xm_rapl_pkg_id := pkg, xm_rapl_mem_id := mem\<rparr>)\<rparr>) (mem_plugin_data n)"

definition socket_name_of :: "64 word \<Rightarrow> string" where
  "socket_name_of socket_id = ''socket.'' @ show_nat (unat socket_id)"

text \<open>The new socket and its memory, from the search for the RAPL domain on.\<close>

definition link_socket :: "penv \<Rightarrow> 64 word \<Rightarrow> addr \<Rightarrow> addr \<Rightarrow> pwr \<Rightarrow> (addr option \<times> pwr) option" where
  "link_socket E socket_id sa ma p =
     do {
       (error, pkg, mem, w) \<leftarrow> x86_find_rapl_id E socket_id 0 0 (pw_w p);
       let p = p\<lparr>pw_w := w\<rparr>;
       if error \<noteq> 0 then do { p \<leftarrow> DEL_OBJ sa p; p \<leftarrow> DEL_OBJ ma p; Some (None, p) }
       else do {
         p \<leftarrow> upd_socket (set_rapl_socket pkg) sa p;
         p \<leftarrow> upd_mem (set_rapl_mem pkg mem) ma p;
         (error, p) \<leftarrow> hierarchy_insert (h_tree (pw_h p)) (Some sa) p;
         if error \<noteq> 0 then do { p \<leftarrow> DEL_OBJ sa p; p \<leftarrow> DEL_OBJ ma p; Some (None, p) }
         else do {
           g \<leftarrow> obj_node sa p;
           (error, p) \<leftarrow> hierarchy_insert g (Some ma) p;
           if error \<noteq> 0 then do { p \<leftarrow> DEL_OBJ ma p; Some (Some sa, p) }
           else if socket_id = 0 then
             do { (_, w) \<leftarrow> x86_read_socket_metadata E (pw_w p); Some (Some sa, p\<lparr>pw_w := w\<rparr>) }
           else Some (Some sa, p)
         }
       }
     }"

definition x86_find_socket :: "penv \<Rightarrow> 64 word \<Rightarrow> 64 word \<Rightarrow> pwr \<Rightarrow> (addr option \<times> pwr) option" where
  "x86_find_socket E socket_id ht_id p =
     (let socket_name = socket_name_of socket_id in
      case h_map (pw_h p) socket_name of
        Some found \<Rightarrow> Some (Some found, p)
      | None \<Rightarrow>
          do {
            (socket, p) \<leftarrow> new_socket socket_id socket_name p;
            case socket of
              None \<Rightarrow> Some (None, p)
            | Some sa \<Rightarrow>
                do {
                  (mem, p) \<leftarrow> new_mem socket_id (''mem.'' @ show_nat (unat socket_id)) p;
                  case mem of
                    None \<Rightarrow> do { p \<leftarrow> DEL_OBJ sa p; Some (None, p) }
                  | Some ma \<Rightarrow>
                      do {
                        p \<leftarrow> upd_socket (\<lambda>n. Some (n\<lparr>socket_ht_id := ht_id\<rparr>)) sa p;
                        p \<leftarrow> upd_mem (\<lambda>n. Some (n\<lparr>mem_ht_id := ht_id\<rparr>)) ma p;
                        link_socket E socket_id sa ma p
                      }
                }
          })"

definition core_name_of :: "64 word \<Rightarrow> 64 word \<Rightarrow> string" where
  "core_name_of socket_id core_id = ''core.'' @ show_nat (unat socket_id) @ ''.'' @ show_nat (unat core_id)"

definition x86_find_core :: "penv \<Rightarrow> 64 word \<Rightarrow> 64 word \<Rightarrow> 64 word \<Rightarrow> pwr \<Rightarrow> (addr option \<times> pwr) option" where
  "x86_find_core E core_id socket_id ht_id p =
     (let core_name = core_name_of socket_id core_id in
      case h_map (pw_h p) core_name of
        Some found \<Rightarrow> Some (Some found, p)
      | None \<Rightarrow>
          do {
            (socket, p) \<leftarrow> x86_find_socket E socket_id ht_id p;
            case socket of
              None \<Rightarrow> Some (None, p)
            | Some sa \<Rightarrow>
                do {
                  (core, p) \<leftarrow> new_core core_id core_name p;
                  case core of
                    None \<Rightarrow> Some (None, p)
                  | Some ca \<Rightarrow>
                      do {
                        p \<leftarrow> upd_core (\<lambda>n. Some (n\<lparr>core_socket_id := socket_id\<rparr>)) ca p;
                        g \<leftarrow> obj_node sa p;
                        (error, p) \<leftarrow> hierarchy_insert g (Some ca) p;
                        if error \<noteq> 0 then do { p \<leftarrow> DEL_OBJ ca p; Some (None, p) } else Some (Some ca, p)
                      }
                }
          })"

text \<open>A number that cannot be read stays zero.\<close>

definition read_topology_id :: "penv \<Rightarrow> 64 word \<Rightarrow> string \<Rightarrow> pwr \<Rightarrow> 64 word \<times> pwr" where
  "read_topology_id E ht_id file p =
     (case x86_read_uint64 (path_fmt E ''topology_path'' [ArgLu ht_id, ArgS file]) (pw_w p) of
        (_, v, w) \<Rightarrow> (case v of None \<Rightarrow> 0 | Some n \<Rightarrow> n, p\<lparr>pw_w := w\<rparr>))"

definition x86_find_ht :: "penv \<Rightarrow> 64 word \<Rightarrow> pwr \<Rightarrow> (addr option \<times> pwr) option" where
  "x86_find_ht E ht_id p =
     (let (socket_id, p) = read_topology_id E ht_id ''physical_package_id'' p;
          (core_id, p) = read_topology_id E ht_id ''core_id'' p in
      do {
        (core, p) \<leftarrow> x86_find_core E core_id socket_id ht_id p;
        case core of
          None \<Rightarrow> Some (None, p)
        | Some ca \<Rightarrow>
            do {
              (ht, p) \<leftarrow> new_ht ht_id (''ht.'' @ show_nat (unat ht_id)) p;
              case ht of
                None \<Rightarrow> Some (None, p)
              | Some ha \<Rightarrow>
                  do {
                    g \<leftarrow> obj_node ca p;
                    (error, p) \<leftarrow> hierarchy_insert g (Some ha) p;
                    if error \<noteq> 0 then do { p \<leftarrow> DEL_OBJ ha p; Some (None, p) } else Some (Some ha, p)
                  }
            }
      })"

subsection \<open>Metadata of the hardware threads\<close>

text \<open>Adding texts to a list until one is not accepted: the status and the list.\<close>

fun add_texts :: "('l \<Rightarrow> string \<Rightarrow> (int \<times> 'l) option) \<Rightarrow> string list \<Rightarrow> 'l \<Rightarrow> (int \<times> 'l) option" where
  "add_texts add [] l = Some (PWR_RET_SUCCESS, l)"
| "add_texts add (t # ts) l = do { (status, l) \<leftarrow> add l t; if status \<noteq> 0 then Some (status, l) else add_texts add ts l }"

definition x86_read_ht_cstate_metadata :: "penv \<Rightarrow> 64 word \<Rightarrow> xworld \<Rightarrow> (int \<times> xworld) option" where
  "x86_read_ht_cstate_metadata E ht_id w =
     (case path_fmt E ''ht_cstate_path'' [ArgLu ht_id] of
        None \<Rightarrow> Some (PWR_RET_FAILURE, w)
      | Some path \<Rightarrow>
          (case opendir path w of
             (None, w) \<Rightarrow> Some (PWR_RET_FAILURE, w)
           | (Some entries, w) \<Rightarrow>
               do {
                 (status, l) \<leftarrow> add_texts pwr_list_add_str_uint64
                     (map (\<lambda>e. drop 5 (fst e)) (filter (\<lambda>(d_name, is_dir). is_dir \<and> take 5 d_name = ''state'') entries)) pwr_list_init_uint64;
                 if status \<noteq> 0 then Some (status, w)
                 else do { l \<leftarrow> pwr_list_sort_uint64 l; Some (status, set_md (\<lambda>md. md\<lparr>md_ht_cstate := l\<rparr>) w) }
               }))"

definition x86_read_ht_freq_metadata :: "penv \<Rightarrow> 64 word \<Rightarrow> xworld \<Rightarrow> (int \<times> xworld) option" where
  "x86_read_ht_freq_metadata E ht_id w =
     (case path_fmt E ''ht_freq_limit_list_path'' [ArgLu ht_id] of
        None \<Rightarrow> Some (PWR_RET_FAILURE, w)
      | Some path \<Rightarrow>
          (case read_line_from_file path 0 False w of
             (status, line, _, w) \<Rightarrow>
               if status \<noteq> 0 then Some (PWR_RET_FAILURE, w)
               else
                 do {
                   line \<leftarrow> line;
                   (status, l) \<leftarrow> add_texts (pwr_list_add_str_double (c_print_lf (pe_lib E)) (c_strtod (pe_lib E)))
                       (g_strsplit CHR '' '' (g_strstrip line)) pwr_list_init_double;
                   if status \<noteq> 0 then Some (status, w)
                   else do { l \<leftarrow> pwr_list_sort_double l; Some (status, set_md (\<lambda>md. md\<lparr>md_ht_freq := l\<rparr>) w) }
                 }))"

definition x86_read_ht_gov_metadata :: "penv \<Rightarrow> 64 word \<Rightarrow> xworld \<Rightarrow> (int \<times> xworld) option" where
  "x86_read_ht_gov_metadata E ht_id w =
     (case path_fmt E ''ht_governor_list_path'' [ArgLu ht_id] of
        None \<Rightarrow> Some (PWR_RET_FAILURE, w)
      | Some path \<Rightarrow>
          (case read_line_from_file path 0 False w of
             (status, line, _, w) \<Rightarrow>
               if status \<noteq> 0 then Some (PWR_RET_FAILURE, w)
               else
                 do {
                   line \<leftarrow> line;
                   (status, l) \<leftarrow> add_texts (\<lambda>l t. map_option (Pair PWR_RET_SUCCESS) (pwr_list_add_string l t))
                       (g_strsplit CHR '' '' (g_strstrip line)) pwr_list_init_string;
                   if status \<noteq> 0 then Some (status, w)
                   else Some (status, set_md (\<lambda>md. md\<lparr>md_ht_gov := l\<rparr>) w)
                 }))"

definition x86_read_ht_metadata :: "penv \<Rightarrow> 64 word \<Rightarrow> xworld \<Rightarrow> (int \<times> xworld) option" where
  "x86_read_ht_metadata E ht_id w =
     do {
       (status, w) \<leftarrow> x86_read_ht_cstate_metadata E ht_id w;
       if status \<noteq> 0 then Some (status, w)
       else do {
         (status, w) \<leftarrow> x86_read_ht_freq_metadata E ht_id w;
         if status \<noteq> 0 then Some (status, w) else x86_read_ht_gov_metadata E ht_id w
       }
     }"

subsection \<open>The processors\<close>

record info_t =
  cpus_max :: "32 word"
  cpu_mask_possible :: bitmask_t
  cpu_mask_present :: bitmask_t
  cpu_mask_online :: bitmask_t

text \<open>
  One of the three lists. For a greatest processor number of zero \<^verbatim>\<open>new_bitmask\<close> returns NULL, which
  is then read. The result of the parser is not used.
\<close>

definition read_cpu_mask :: "penv \<Rightarrow> string \<Rightarrow> 32 word \<Rightarrow> xworld \<Rightarrow> (bitmask_t option \<times> xworld) option" where
  "read_cpu_mask E key cpus w =
     (case x86_read_line (path0 E key) w of
        (None, w) \<Rightarrow> Some (None, w)
      | (Some cpu_list, w) \<Rightarrow>
          do {
            m \<leftarrow> new_bitmask (unat cpus);
            (_, m) \<leftarrow> x86_list_parse_bitmask (Some cpu_list) m;
            Some (Some m, w)
          })"

text \<open>\<open>None\<close> inside is the result -1.\<close>

definition x86_read_info :: "penv \<Rightarrow> xworld \<Rightarrow> (info_t option \<times> xworld) option" where
  "x86_read_info E w =
     (case x86_read_uint32 (path0 E ''kernel_max_path'') w of
        (ret, cpus, w) \<Rightarrow>
          if ret < 0 then Some (None, w)
          else do {
            cpus \<leftarrow> cpus;
            (possible, w) \<leftarrow> read_cpu_mask E ''cpu_possible_path'' cpus w;
            case possible of
              None \<Rightarrow> Some (None, w)
            | Some possible \<Rightarrow>
                do {
                  (present, w) \<leftarrow> read_cpu_mask E ''cpu_present_path'' cpus w;
                  case present of
                    None \<Rightarrow> Some (None, w)
                  | Some present \<Rightarrow>
                      do {
                        (online, w) \<leftarrow> read_cpu_mask E ''cpu_online_path'' cpus w;
                        case online of
                          None \<Rightarrow> Some (None, w)
                        | Some online \<Rightarrow>
                            Some (Some \<lparr>cpus_max = cpus, cpu_mask_possible = possible, cpu_mask_present = present, cpu_mask_online = online\<rparr>, w)
                      }
                }
          })"

text \<open>The loop over the possible processors; \<open>ht_id\<close> counts them. The result is the status.\<close>

fun topology_loop :: "penv \<Rightarrow> info_t \<Rightarrow> nat list \<Rightarrow> 64 word \<Rightarrow> int \<Rightarrow> pwr \<Rightarrow> (int \<times> pwr) option" where
  "topology_loop E info [] ht_id status p = Some (status, p)"
| "topology_loop E info (i # is') ht_id status p =
     do {
       possible \<leftarrow> BITMASK_TEST (cpu_mask_possible info) i;
       if \<not> possible then topology_loop E info is' ht_id status p
       else do {
         online \<leftarrow> BITMASK_TEST (cpu_mask_online info) i;
         if online then
           do {
             (ht, p) \<leftarrow> x86_find_ht E ht_id p;
             case ht of
               None \<Rightarrow> Some (PWR_RET_FAILURE, p)
             | Some _ \<Rightarrow> topology_loop E info is' (ht_id + 1) status p
           }
         else topology_loop E info is' (ht_id + 1) status p
       }
     }"

text \<open>\<open>cpu\<close> is the answer of \<^verbatim>\<open>sched_getcpu\<close>.\<close>

definition x86_read_topology :: "penv \<Rightarrow> int \<Rightarrow> info_t \<Rightarrow> pwr \<Rightarrow> (int \<times> pwr) option" where
  "x86_read_topology E cpu info p =
     do {
       (status, p) \<leftarrow> (if cpu < 0 then Some (PWR_RET_FAILURE, p)
                       else do { (st, w) \<leftarrow> x86_read_ht_metadata E (word_of_int cpu) (pw_w p); Some (st, p\<lparr>pw_w := w\<rparr>) });
       topology_loop E info [0..<used (cpu_mask_possible info)] 0 status p
     }"

subsection \<open>Temperatures\<close>

definition show_ld :: "64 word \<Rightarrow> string" where
  "show_ld v = show_int (sint v)"

definition set_temp_core :: "64 word \<Rightarrow> string \<Rightarrow> string \<Rightarrow> core_t \<Rightarrow> core_t option" where
  "set_temp_core temp_id input mx n =
     map_option (\<lambda>x. n\<lparr>core_plugin_data := Some (x\<lparr>xc_temp_id := temp_id, xc_temp_input := Some input, xc_temp_max := Some mx\<rparr>)\<rparr>)
       (core_plugin_data n)"

definition set_temp_socket :: "64 word \<Rightarrow> string \<Rightarrow> string \<Rightarrow> socket_t \<Rightarrow> socket_t option" where
  "set_temp_socket temp_id input mx n =
     map_option (\<lambda>x. n\<lparr>socket_plugin_data := Some (x\<lparr>xs_temp_id := temp_id, xs_temp_input := Some input, xs_temp_max := Some mx\<rparr>)\<rparr>)
       (socket_plugin_data n)"

text \<open>One entry of the directory of a chip: whether it is a label, and the new state.\<close>

definition scan_temp_entry :: "addr \<Rightarrow> string \<Rightarrow> string \<Rightarrow> pwr \<Rightarrow> (bool \<times> pwr) option" where
  "scan_temp_entry sa dir name p =
     (case x86_str_to_val name ''temp'' ''_label'' of
        (r, v) \<Rightarrow>
          if r \<noteq> 0 then Some (False, p)
          else do {
            temp_id \<leftarrow> v;
            let label = dir @ ''/'' @ name;
            let input = dir @ ''/temp'' @ show_nat (unat temp_id) @ ''_input'';
            let mx = dir @ ''/temp'' @ show_nat (unat temp_id) @ ''_crit'';
            let (buf, w) = x86_read_line (Some label) (pw_w p);
            let p = p\<lparr>pw_w := w\<rparr>;
            case buf of
              None \<Rightarrow> Some (True, p)
            | Some buf \<Rightarrow>
                do {
                  ob \<leftarrow> objs (pw_lib p) sa;
                  case x86_str_to_val buf ''Core '' [] of
                    (r, v) \<Rightarrow>
                      if r = 0 then
                        do {
                          core_id \<leftarrow> v;
                          case h_map (pw_h p) (''core.'' @ show_ld (obj_os_id ob) @ ''.'' @ show_ld core_id) of
                            None \<Rightarrow> Some (True, p)
                          | Some ca \<Rightarrow> map_option (Pair True) (upd_core (set_temp_core temp_id input mx) ca p)
                        }
                      else
                        (case x86_str_to_val buf ''Physical id '' [] of
                           (r, v) \<Rightarrow>
                             if r = 0 \<and> v = Some (obj_os_id ob) then map_option (Pair True) (upd_socket (set_temp_socket temp_id input mx) sa p)
                             else Some (True, p))
                }
          })"

fun scan_temp_loop :: "addr \<Rightarrow> string \<Rightarrow> string list \<Rightarrow> nat \<Rightarrow> pwr \<Rightarrow> (nat \<times> pwr) option" where
  "scan_temp_loop sa dir [] found p = Some (found, p)"
| "scan_temp_loop sa dir (name # names) found p =
     do { (label, p) \<leftarrow> scan_temp_entry sa dir name p; scan_temp_loop sa dir names (if label then Suc found else found) p }"

definition x86_scan_temp_dir :: "addr \<Rightarrow> string \<Rightarrow> pwr \<Rightarrow> (nat \<times> pwr) option" where
  "x86_scan_temp_dir sa dir p =
     (case opendir dir (pw_w p) of
        (None, w) \<Rightarrow> Some (0, p\<lparr>pw_w := w\<rparr>)
      | (Some entries, w) \<Rightarrow> scan_temp_loop sa dir (map fst entries) 0 (p\<lparr>pw_w := w\<rparr>))"

fun temp_ids_loop :: "string \<Rightarrow> string list \<Rightarrow> int \<Rightarrow> pwr \<Rightarrow> (int \<times> pwr) option" where
  "temp_ids_loop dir [] error p = Some (error, p)"
| "temp_ids_loop dir (name # names) error p =
     (case x86_str_to_val name ''hwmon'' [] of
        (r, v) \<Rightarrow>
          if r \<noteq> 0 then temp_ids_loop dir names error p
          else do {
            socket_id \<leftarrow> v;
            case h_map (pw_h p) (''socket.'' @ show_ld socket_id) of
              None \<Rightarrow> temp_ids_loop dir names error p
            | Some sa \<Rightarrow>
                do {
                  (found, p) \<leftarrow> x86_scan_temp_dir sa (dir @ ''/'' @ name @ ''/device'') p;
                  if found \<noteq> 0 then temp_ids_loop dir names error p
                  else do {
                    (found, p) \<leftarrow> x86_scan_temp_dir sa (dir @ ''/'' @ name) p;
                    temp_ids_loop dir names (if found \<noteq> 0 then error else 1) p
                  }
                }
          })"

text \<open>
  The nodes below a node of a tree. The recursion is bounded by fuel: a child is allocated after its
  parent, so the number of addresses used so far is enough.
\<close>

fun tree_nodes :: "nat \<Rightarrow> lib \<Rightarrow> addr \<Rightarrow> addr list option" where
  "tree_nodes 0 s g = None"
| "tree_nodes (Suc n) s g =
     do { node \<leftarrow> gnodes s g; rs \<leftarrow> those (map (tree_nodes n s) (gn_children node)); Some (g # concat rs) }"

text \<open>Whether a node lacks a temperature file.\<close>

definition x86_check_temp_id :: "pwr \<Rightarrow> addr \<Rightarrow> bool option" where
  "x86_check_temp_id p g =
     do {
       node \<leftarrow> gnodes (pw_lib p) g;
       ob \<leftarrow> objs (pw_lib p) (gn_data node);
       if obj_type ob = PWR_OBJ_SOCKET then
         (case xw_objs (pw_w p) (gn_data node) of
            Some (HwSocket n) \<Rightarrow> map_option (\<lambda>x. xs_temp_input x = None) (socket_plugin_data n) | _ \<Rightarrow> None)
       else if obj_type ob = PWR_OBJ_CORE then
         (case xw_objs (pw_w p) (gn_data node) of
            Some (HwCore n) \<Rightarrow> map_option (\<lambda>x. xc_temp_input x = None) (core_plugin_data n) | _ \<Rightarrow> None)
       else Some False
     }"

definition x86_read_temp_ids :: "penv \<Rightarrow> pwr \<Rightarrow> (int \<times> pwr) option" where
  "x86_read_temp_ids E p =
     (case path0 E ''sysfs_hwmon'' of
        None \<Rightarrow> Some (1, p)
      | Some dir \<Rightarrow>
          (case opendir dir (pw_w p) of
             (None, w) \<Rightarrow> Some (1, p\<lparr>pw_w := w\<rparr>)
           | (Some entries, w) \<Rightarrow>
               do {
                 (error, p) \<leftarrow> temp_ids_loop dir (map fst entries) 0 (p\<lparr>pw_w := w\<rparr>);
                 if error \<noteq> 0 then Some (error, p)
                 else
                   (case h_tree (pw_h p) of
                      None \<Rightarrow> Some (error, p)
                    | Some g \<Rightarrow>
                        do {
                          ns \<leftarrow> tree_nodes (next_addr (pw_lib p)) (pw_lib p) g;
                          missing \<leftarrow> those (map (x86_check_temp_id p) ns);
                          Some (if True \<in> set missing then 1 else error, p)
                        })
               }))"

definition x86_read_hierarchy :: "penv \<Rightarrow> int \<Rightarrow> pwr \<Rightarrow> (int \<times> pwr) option" where
  "x86_read_hierarchy E cpu p =
     do {
       (info, w) \<leftarrow> x86_read_info E (pw_w p);
       let p = p\<lparr>pw_w := w\<rparr>;
       case info of
         None \<Rightarrow> Some (PWR_RET_FAILURE, p)
       | Some info \<Rightarrow>
           do {
             (status, p) \<leftarrow> x86_read_topology E cpu info p;
             if status \<noteq> 0 then Some (PWR_RET_FAILURE, p)
             else do {
               (error, p) \<leftarrow> x86_read_temp_ids E p;
               Some (if error \<noteq> 0 then PWR_RET_FAILURE else PWR_RET_SUCCESS, p)
             }
           }
     }"

end
