(* ===== verification/Contexts.thy ===== *)
theory Contexts
  imports X86_Hierarchy
begin

text \<open>
  Contexts: \<^verbatim>\<open>x86_construct_hierarchy\<close> and \<^verbatim>\<open>x86_destruct_hierarchy\<close> of \<^verbatim>\<open>x86_plugin.c\<close>,
  \<^verbatim>\<open>lib/hierarchy.c\<close>, the global initialisation of \<^verbatim>\<open>lib/utility.c\<close>, and the creation, destruction and
  navigation of contexts in \<^verbatim>\<open>lib/context.c\<close>. What the system decides is in the record \<open>env\<close>.
\<close>

record env =
  e_penv :: penv
  e_cpu :: int
  e_hint_log :: bool
  e_rand :: "(nat \<Rightarrow> 32 word) option"

abbreviation PWR_CNTXT_DEFAULT :: int where "PWR_CNTXT_DEFAULT \<equiv> 0"
abbreviation PWR_ROLE_APP :: int where "PWR_ROLE_APP \<equiv> 0"
abbreviation PWR_ROLE_RM :: int where "PWR_ROLE_RM \<equiv> 4"

subsection \<open>Metadata of the node (x86_plugin.c)\<close>

text \<open>\<^verbatim>\<open>%05lu\<close>\<close>

definition show_pad5 :: "64 word \<Rightarrow> string" where
  "show_pad5 v = (let d = show_nat (unat v) in replicate (5 - length d) CHR ''0'' @ d)"

definition x86_read_node_metadata :: "penv \<Rightarrow> xworld \<Rightarrow> int \<times> xworld" where
  "x86_read_node_metadata E w =
     (case read_string_from_file (pe_lib E) (path0 E ''procfs_cname'') False w of
        (status, cname, _, w) \<Rightarrow>
          if status \<noteq> PWR_RET_SUCCESS then (status, w)
          else
            (case read_uint64_from_file (pe_lib E) (path0 E ''procfs_nid'') False w of
               (status, nid, _, w) \<Rightarrow>
                 if status \<noteq> PWR_RET_SUCCESS then (status, w)
                 else
                   (status, set_md (\<lambda>md. md\<lparr>md_node_vendor_info :=
                      Some (''Cray Inc. node '' @ (case cname of None \<Rightarrow> ''(null)'' | Some c \<Rightarrow> c) @ '', nid'' @ show_pad5 nid)\<rparr>) w)))"

text \<open>The division by a rate of zero ends the process: \<open>None\<close>.\<close>

definition x86_read_pm_counters_metadata :: "penv \<Rightarrow> xworld \<Rightarrow> (int \<times> xworld) option" where
  "x86_read_pm_counters_metadata E w =
     (case read_uint64_from_file (pe_lib E) (path0 E ''node_update_rate_path'') False w of
        (status, ival, _, w) \<Rightarrow>
          if status \<noteq> 0 then Some (status, w)
          else if ival = 0 then None
          else Some (status, set_md (\<lambda>md. md\<lparr>md_update_rate := dbl_of_uint64 ival, md_time_window := 1000000000 div ival\<rparr>) w))"

subsection \<open>The hierarchy of a context\<close>

text \<open>The objects that are entered in the map of names.\<close>

definition hierarchy_objs :: "hierarchy_t \<Rightarrow> lib \<Rightarrow> addr list" where
  "hierarchy_objs h s =
     filter (\<lambda>a. case objs s a of None \<Rightarrow> False | Some ob \<Rightarrow> h_map h (obj_name ob) = Some a) [0..<next_addr s]"

text \<open>A new power plane below the root; the status and the state.\<close>

definition add_pplane :: "64 word \<Rightarrow> string \<Rightarrow> int \<Rightarrow> addr option \<Rightarrow> pwr \<Rightarrow> (int \<times> pwr) option" where
  "add_pplane pplane_id name sub_type tree_root p =
     do {
       (pplane, p) \<leftarrow> new_pplane pplane_id name p;
       case pplane of
         None \<Rightarrow> Some (PWR_RET_FAILURE, p)
       | Some pa \<Rightarrow>
           do {
             p \<leftarrow> upd_pplane (\<lambda>n. n\<lparr>pplane_sub_type := sub_type\<rparr>) pa p;
             (status, p) \<leftarrow> hierarchy_insert tree_root (Some pa) p;
             if status \<noteq> 0 then do { p \<leftarrow> DEL_OBJ pa p; Some (status, p) } else Some (status, p)
           }
     }"

definition x86_construct_hierarchy :: "env \<Rightarrow> pwr \<Rightarrow> (int \<times> pwr) option" where
  "x86_construct_hierarchy V p =
     (let E = e_penv V in
      if h_tree (pw_h p) \<noteq> None \<or> hierarchy_objs (pw_h p) (pw_lib p) \<noteq> [] then Some (PWR_RET_FAILURE, p)
      else do {
        (status, w) \<leftarrow> x86_read_pm_counters_metadata E (set_md (\<lambda>_. x86_metadata_zero) (pw_w p));
        let p = p\<lparr>pw_w := w\<rparr>;
        if status \<noteq> 0 then Some (PWR_RET_FAILURE, p)
        else do {
          (node, p) \<leftarrow> new_node 0 ''node.0'' p;
          case node of
            None \<Rightarrow> Some (PWR_RET_FAILURE, p)
          | Some na \<Rightarrow>
              do {
                (status, p) \<leftarrow> hierarchy_insert None (Some na) p;
                if status \<noteq> 0 then do { p \<leftarrow> DEL_OBJ na p; Some (status, p) }
                else do {
                  let p = p\<lparr>pw_w := snd (x86_read_node_metadata E (pw_w p))\<rparr>;
                  tree_root \<leftarrow> obj_node na p;
                  (status, p) \<leftarrow> add_pplane 0 ''pm_counters.cpu.0'' PWR_OBJ_SOCKET tree_root p;
                  if status \<noteq> 0 then Some (status, p)
                  else do {
                    (status, p) \<leftarrow> add_pplane 1 ''pm_counters.mem.0'' PWR_OBJ_MEM tree_root p;
                    if status \<noteq> 0 then Some (status, p) else x86_read_hierarchy E (e_cpu V) p
                  }
                }
              }
        }
      })"

text \<open>The metadata are those of all contexts.\<close>

definition x86_destruct_hierarchy :: "xworld \<Rightarrow> (int \<times> xworld) option" where
  "x86_destruct_hierarchy w =
     do {
       let md = xw_md w;
       let _ = pwr_list_free_uint64 (md_ht_cstate md);
       let _ = pwr_list_free_double (md_ht_freq md);
       _ \<leftarrow> pwr_list_free_string (md_ht_gov md);
       Some (0, set_md (\<lambda>_. x86_metadata_zero) w)
     }"

definition g_node_destroy :: "addr \<Rightarrow> lib \<Rightarrow> lib option" where
  "g_node_destroy g s =
     do { ns \<leftarrow> tree_nodes (next_addr s) s g; Some (s\<lparr>gnodes := gnodes s |` (- set ns)\<rparr>) }"

fun destroy_all :: "addr list \<Rightarrow> pwr \<Rightarrow> pwr option" where
  "destroy_all [] p = Some p"
| "destroy_all (a # as) p = do { p \<leftarrow> obj_destroy_callback a p; destroy_all as p }"

text \<open>The table destroys its values in an order that is not specified; here it is that of the addresses.\<close>

definition del_hierarchy :: "hierarchy_t option \<Rightarrow> pwr \<Rightarrow> pwr option" where
  "del_hierarchy hierarchy p =
     (case hierarchy of
        None \<Rightarrow> Some p
      | Some h \<Rightarrow>
          do {
            (_, w) \<leftarrow> x86_destruct_hierarchy (pw_w p);
            let p = p\<lparr>pw_w := w\<rparr>;
            s \<leftarrow> (case h_tree h of None \<Rightarrow> Some (pw_lib p) | Some g \<Rightarrow> g_node_destroy g (pw_lib p));
            destroy_all (hierarchy_objs h s) (p\<lparr>pw_lib := s\<rparr>)
          })"

definition new_hierarchy :: "env \<Rightarrow> pwr \<Rightarrow> (hierarchy_t option \<times> pwr) option" where
  "new_hierarchy V p =
     do {
       (status, p) \<leftarrow> x86_construct_hierarchy V (p\<lparr>pw_h := empty_hierarchy\<rparr>);
       if status \<noteq> 0 then do { p \<leftarrow> del_hierarchy (Some (pw_h p)) p; Some (None, p) }
       else Some (Some (pw_h p), p)
     }"

subsection \<open>Global initialisation\<close>

text \<open>
  The catalog of paths is configured here once (\<open>Sysfiles\<close>); its result is part of the environment.
  The plugin is always constructed.
\<close>

definition global_init :: "env \<Rightarrow> pwr \<Rightarrow> bool \<times> pwr" where
  "global_init V p =
     (if pw_plugin p then (True, p)
      else
        (case opaque_map_new (e_rand V) True of
           None \<Rightarrow> (False, p)
         | Some m \<Rightarrow> (True, p\<lparr>pw_lib := (pw_lib p)\<lparr>opaque_map := Some m\<rparr>, pw_plugin := True\<rparr>)))"

subsection \<open>Contexts (context.c)\<close>

definition on_lib :: "(lib \<Rightarrow> lib option) \<Rightarrow> pwr \<Rightarrow> pwr option" where
  "on_lib f p = map_option (\<lambda>s. p\<lparr>pw_lib := s\<rparr>) (f (pw_lib p))"

text \<open>
  \<open>ctx\<close> is the structure as far as it has been filled in: with \<open>hier\<close> and \<open>ipc\<close> for the pointers that may
  still be NULL.
\<close>

definition del_context :: "addr \<Rightarrow> context_t \<Rightarrow> hierarchy_t option \<Rightarrow> pwr \<Rightarrow> pwr option" where
  "del_context c ctx hier p =
     do {
       let p = p\<lparr>pw_hints := app_hint_term (pw_hints p)\<rparr>;
       r \<leftarrow> refs (pw_lib p) c;
       p \<leftarrow> (if ref_key r \<noteq> 0 then on_lib (\<lambda>s. map_option snd (opaque_map_remove (ref_key r) s)) p else Some p);
       names \<leftarrow> pw_names p;
       let p = p\<lparr>pw_names := Some (names(ctx_name ctx := None)), pw_w := del_ipc (xw_ipc (pw_w p) c) (pw_w p)\<rparr>;
       let p = p\<lparr>pw_w := (pw_w p)\<lparr>xw_ipc := (xw_ipc (pw_w p))(c := None)\<rparr>\<rparr>;
       p \<leftarrow> del_hierarchy hier p;
       p \<leftarrow> on_lib (g_list_free_full group_destroy_callback (ctx_group_list ctx)) p;
       p \<leftarrow> on_lib (g_list_free_full status_destroy_callback (ctx_status_list ctx)) p;
       p \<leftarrow> on_lib (g_list_free_full stat_destroy_callback (ctx_stat_list ctx)) p;
       let s = pw_lib p;
       let H = pw_hints p;
       Some (p\<lparr>pw_lib := s\<lparr>refs := (refs s)(c := None), ctxs := (ctxs s)(c := None)\<rparr>,
               pw_hints := H\<lparr>hs_names := (hs_names H)(c := None)\<rparr>\<rparr>)
     }"

definition zero_context :: "int \<Rightarrow> int \<Rightarrow> string \<Rightarrow> context_t" where
  "zero_context type role name =
     \<lparr>ctx_type = type, ctx_role = role, ctx_name = name, ctx_entry_point = None, ctx_hierarchy = empty_hierarchy,
      ctx_group_list = [], ctx_status_list = [], ctx_stat_list = []\<rparr>"

definition new_context :: "env \<Rightarrow> int \<Rightarrow> int \<Rightarrow> string \<Rightarrow> pwr \<Rightarrow> (addr option \<times> pwr) option" where
  "new_context V type role name p =
     (let (c, s) = alloc_ref (pw_lib p);
          ctx = zero_context type role name;
          H = pw_hints p;
          p = p\<lparr>pw_lib := s, pw_hints := H\<lparr>hs_names := (hs_names H)(c \<mapsto> []), hs_unique := (hs_unique H)(c := 0)\<rparr>\<rparr> in
      do {
        (hier, p) \<leftarrow> new_hierarchy V p;
        case hier of
          None \<Rightarrow> do { p \<leftarrow> del_context c ctx None p; Some (None, p) }
        | Some h \<Rightarrow>
            do {
              let ctx = ctx\<lparr>ctx_hierarchy := h, ctx_entry_point := h_tree h\<rparr>;
              let (ipc, w) = new_ipc IPC_SOCKET name role (pw_w p);
              case ipc of
                None \<Rightarrow> do { p \<leftarrow> del_context c ctx (Some h) (p\<lparr>pw_w := w\<rparr>); Some (None, p) }
              | Some ipc \<Rightarrow>
                  do {
                    names \<leftarrow> pw_names p;
                    let s = pw_lib p;
                    let p = p\<lparr>pw_w := w\<lparr>xw_ipc := (xw_ipc w)(c \<mapsto> ipc)\<rparr>, pw_names := Some (names(name \<mapsto> c)),
                              pw_lib := s\<lparr>ctxs := (ctxs s)(c \<mapsto> ctx)\<rparr>\<rparr>;
                    (k, s) \<leftarrow> opaque_map_insert OPAQUE_CONTEXT c (pw_lib p);
                    let p = p\<lparr>pw_lib := s\<rparr>;
                    if k = 0 then do { p \<leftarrow> del_context c ctx (Some h) p; Some (None, p) }
                    else Some (Some c, p\<lparr>pw_hints := app_hint_init (e_hint_log V) (pw_hints p)\<rparr>)
                  }
            }
      })"

definition PWR_CntxtInit :: "env \<Rightarrow> int \<Rightarrow> int \<Rightarrow> string \<Rightarrow> pwr \<Rightarrow> (int \<times> key option \<times> pwr) option" where
  "PWR_CntxtInit V type role name p =
     (case global_init V p of
        (init, p) \<Rightarrow>
          if \<not> init then Some (PWR_RET_FAILURE, None, p)
          else
            let p = (case pw_names p of None \<Rightarrow> p\<lparr>pw_names := Some Map.empty\<rparr> | Some _ \<Rightarrow> p) in
            if type \<noteq> PWR_CNTXT_DEFAULT then Some (PWR_RET_NOT_IMPLEMENTED, None, p)
            else if role \<noteq> PWR_ROLE_RM \<and> role \<noteq> PWR_ROLE_APP then Some (PWR_RET_NOT_IMPLEMENTED, None, p)
            else do {
              (ctx_ptr, p) \<leftarrow> new_context V type role name p;
              case ctx_ptr of
                None \<Rightarrow> Some (PWR_RET_FAILURE, None, p)
              | Some c \<Rightarrow> do { r \<leftarrow> refs (pw_lib p) c; Some (PWR_RET_SUCCESS, Some (OPAQUE_GENERATE (ref_key r) (ref_key r)), p) }
            })"

text \<open>The test that a handle is one of a context, and the context.\<close>

definition context_by_handle :: "key \<Rightarrow> pwr \<Rightarrow> addr option option" where
  "context_by_handle h p =
     (if OPAQUE_GET_CONTEXT_KEY h \<noteq> OPAQUE_GET_DATA_KEY h then Some None else lookup_context (pw_lib p) (OPAQUE_GET_DATA_KEY h))"

definition PWR_CntxtDestroy :: "key \<Rightarrow> pwr \<Rightarrow> (int \<times> pwr) option" where
  "PWR_CntxtDestroy h p =
     do {
       ctx_ptr \<leftarrow> context_by_handle h p;
       case ctx_ptr of
         None \<Rightarrow> Some (PWR_RET_FAILURE, p)
       | Some c \<Rightarrow>
           do {
             ctx \<leftarrow> ctxs (pw_lib p) c;
             p \<leftarrow> del_context c ctx (Some (ctx_hierarchy ctx)) p;
             Some (PWR_RET_SUCCESS, p)
           }
     }"

definition PWR_CntxtGetEntryPoint :: "key \<Rightarrow> pwr \<Rightarrow> (int \<times> key option) option" where
  "PWR_CntxtGetEntryPoint h p =
     do {
       ctx_ptr \<leftarrow> context_by_handle h p;
       case ctx_ptr of
         None \<Rightarrow> Some (PWR_RET_FAILURE, None)
       | Some c \<Rightarrow>
           do {
             ctx \<leftarrow> ctxs (pw_lib p) c;
             case ctx_entry_point ctx of
               None \<Rightarrow> Some (PWR_RET_FAILURE, None)
             | Some g \<Rightarrow>
                 do {
                   node \<leftarrow> gnodes (pw_lib p) g;
                   rc \<leftarrow> refs (pw_lib p) c;
                   ro \<leftarrow> refs (pw_lib p) (gn_data node);
                   Some (PWR_RET_SUCCESS, Some (OPAQUE_GENERATE (ref_key rc) (ref_key ro)))
                 }
           }
     }"

definition PWR_CntxtGetObjByName :: "key \<Rightarrow> string \<Rightarrow> pwr \<Rightarrow> (int \<times> key option) option" where
  "PWR_CntxtGetObjByName h name p =
     do {
       ctx_ptr \<leftarrow> context_by_handle h p;
       case ctx_ptr of
         None \<Rightarrow> Some (PWR_RET_FAILURE, None)
       | Some c \<Rightarrow>
           do {
             ctx \<leftarrow> ctxs (pw_lib p) c;
             case h_map (ctx_hierarchy ctx) name of
               None \<Rightarrow> Some (PWR_RET_WARN_NO_OBJ_BY_NAME, None)
             | Some a \<Rightarrow>
                 do {
                   rc \<leftarrow> refs (pw_lib p) c;
                   ro \<leftarrow> refs (pw_lib p) a;
                   Some (PWR_RET_SUCCESS, Some (OPAQUE_GENERATE (ref_key rc) (ref_key ro)))
                 }
           }
     }"

end
