(* ===== verification/Building.thy ===== *)
theory Building
  imports Contexts X86_Properties Frames
begin

text \<open>
  The invariant of a hierarchy under construction, and that creating, releasing and inserting objects
  preserves it. Everything that was allocated before the construction began is left alone; what has been
  allocated since is either an object that is not yet part of the hierarchy, or hangs in the tree and is
  in the map of names.
\<close>

subsection \<open>Enough keys\<close>

text \<open>However far the generator has got, and whatever \<open>N\<close> further keys are taken, it will produce another one that is usable.\<close>

definition ample :: "nat \<Rightarrow> 'a opq_scheme \<Rightarrow> bool" where
  "ample N s \<longleftrightarrow>
     (\<exists>m. opaque_map s = Some m \<and>
        (\<forall>i K. finite K \<longrightarrow> card K \<le> N \<longrightarrow> (\<exists>n\<ge>i. rand_seq m n \<notin> K \<and> fresh_draw (rand_seq m) (table m) n)))"

lemma ample_mono: "ample N s \<Longrightarrow> M \<le> N \<Longrightarrow> ample M s"
  unfolding ample_def by (meson le_trans)

lemma ample_cong: "opaque_map s' = opaque_map s \<Longrightarrow> ample N s' \<longleftrightarrow> ample N s"
  by (simp add: ample_def)

lemma ample_has_draw: "ample N s \<Longrightarrow> has_draw s"
  unfolding ample_def has_draw_def by (metis card.empty finite.emptyI le0)

lemma ample_map: "ample N s \<Longrightarrow> opaque_map s \<noteq> None"
  by (auto simp: ample_def)

lemma GUINT_TO_POINTER_inject: "GUINT_TO_POINTER m = GUINT_TO_POINTER n \<longleftrightarrow> m = n"
proof -
  have "(ucast (ucast n :: 64 word) :: 32 word) = n" for n :: "32 word" by (intro bit_word_eqI) (simp add: bit_simps)
  then show ?thesis unfolding GUINT_TO_POINTER_def by metis
qed

lemma insert_ample:
  assumes "opaque_map_insert t a s = Some (k, s')" "ample (Suc N) s"
  shows "ample N s'"
proof -
  from assms(2) obtain m where m: "opaque_map s = Some m"
    and more: "\<And>i K. finite K \<Longrightarrow> card K \<le> Suc N \<Longrightarrow> \<exists>n\<ge>i. rand_seq m n \<notin> K \<and> fresh_draw (rand_seq m) (table m) n"
    by (auto simp: ample_def)
  from assms(1) m obtain r seq' tbl' r' where
    loop: "opaque_map_insert_loop (rand_seq m) (table m) r t a = Some (k, seq', tbl', r')"
    and s': "opaque_map s' = Some \<lparr>rand_seq = seq', table = tbl'\<rparr>"
    by (auto simp: opaque_map_insert_def split: bind_splits option.splits)
  from insert_loop_sound [OF loop] obtain n0 where
    k: "k = GUINT_TO_POINTER (rand_seq m n0)" and seq': "seq' = (\<lambda>i. rand_seq m (Suc n0 + i))" and tbl': "\<And>k'. k' \<noteq> 0 \<Longrightarrow> tbl' k' = ((table m)(k \<mapsto> a)) k'"
    by (auto simp: insert_loop_post_def)
  have "\<exists>n\<ge>i. seq' n \<notin> K \<and> fresh_draw seq' tbl' n" if K: "finite K" "card K \<le> N" for i K
  proof -
    have "card (insert (rand_seq m n0) K) \<le> Suc N" using K by (simp add: card_insert_if)
    with more [of "insert (rand_seq m n0) K" "Suc n0 + i"] K obtain n where
      n: "n \<ge> Suc n0 + i" "rand_seq m n \<notin> insert (rand_seq m n0) K" "fresh_draw (rand_seq m) (table m) n" by auto
    then have "n - Suc n0 \<ge> i" "seq' (n - Suc n0) \<notin> K" "fresh_draw seq' tbl' (n - Suc n0)"
      by (auto simp: seq' tbl' k fresh_draw_def GUINT_TO_POINTER_inject GUINT_TO_POINTER_0_iff)
    then show ?thesis by blast
  qed
  with s' show ?thesis by (simp add: ample_def)
qed

lemma remove_ample:
  assumes "opaque_map_remove k s = Some (b, s')" "ample N s"
  shows "ample N s'"
proof -
  from assms(2) obtain m where m: "opaque_map s = Some m"
    and more: "\<And>i K. finite K \<Longrightarrow> card K \<le> N \<Longrightarrow> \<exists>n\<ge>i. rand_seq m n \<notin> K \<and> fresh_draw (rand_seq m) (table m) n"
    by (auto simp: ample_def)
  from assms(1) m obtain m' where m': "opaque_map s' = Some m'" "rand_seq m' = rand_seq m" "\<And>k. table m k = None \<Longrightarrow> table m' k = None"
    by (auto simp: opaque_map_remove_def split: bind_splits option.splits)
  then have "fresh_draw (rand_seq m) (table m) n \<Longrightarrow> fresh_draw (rand_seq m') (table m') n" for n by (simp add: fresh_draw_def)
  with more m' show ?thesis unfolding ample_def by metis
qed

subsection \<open>The world\<close>

text \<open>The list of governors can be released.\<close>

definition md_ok :: "x86_metadata_t \<Rightarrow> bool" where
  "md_ok md \<longleftrightarrow> (\<exists>vs. string_holds (md_ht_gov md) vs)"

lemma md_ok_zero [simp]: "md_ok x86_metadata_zero"
  using string_list.init_law by (auto simp: md_ok_def x86_metadata_zero_def)

text \<open>Reading files and storing metadata.\<close>

definition calm :: "xworld \<Rightarrow> xworld \<Rightarrow> bool" where
  "calm w w' \<longleftrightarrow> sw_fs w' = sw_fs w \<and> xw_objs w' = xw_objs w \<and> xw_ipc w' = xw_ipc w \<and> xw_fault w' = xw_fault w \<and>
     (md_ok (xw_md w) \<longrightarrow> md_ok (xw_md w'))"

lemma calm_refl [simp]: "calm w w"
  by (simp add: calm_def)

lemma calm_trans [trans]: "calm w w' \<Longrightarrow> calm w' w'' \<Longrightarrow> calm w w''"
  by (simp add: calm_def)

lemma calm_ticked: "ticked w w' \<Longrightarrow> calm w w'"
  by (auto simp: calm_def ticked_def)

lemma calm_set_md: "(\<And>md. md_ok md \<Longrightarrow> md_ok (f md)) \<Longrightarrow> calm w (set_md f w)"
  by (simp add: calm_def set_md_def)

subsection \<open>The invariant\<close>

text \<open>What was there before the construction is left alone.\<close>

definition same_hints :: "hints \<Rightarrow> hints \<Rightarrow> bool" where
  "same_hints H0 H \<longleftrightarrow> H = H0\<lparr>hs_obj := hs_obj H\<rparr>"

definition kept :: "pwr \<Rightarrow> pwr \<Rightarrow> bool" where
  "kept p0 p \<longleftrightarrow>
     next_addr (pw_lib p0) \<le> next_addr (pw_lib p) \<and> links (pw_lib p) = links (pw_lib p0) \<and> ctxs (pw_lib p) = ctxs (pw_lib p0) \<and>
     grps (pw_lib p) = grps (pw_lib p0) \<and> statuses (pw_lib p) = statuses (pw_lib p0) \<and> stats (pw_lib p) = stats (pw_lib p0) \<and>
     (\<forall>a<next_addr (pw_lib p0). refs (pw_lib p) a = refs (pw_lib p0) a \<and> objs (pw_lib p) a = objs (pw_lib p0) a \<and>
        gnodes (pw_lib p) a = gnodes (pw_lib p0) a \<and> xw_objs (pw_w p) a = xw_objs (pw_w p0) a \<and>
        hs_obj (pw_hints p) a = hs_obj (pw_hints p0) a) \<and>
     sw_fs (pw_w p) = sw_fs (pw_w p0) \<and> xw_ipc (pw_w p) = xw_ipc (pw_w p0) \<and> xw_fault (pw_w p) = xw_fault (pw_w p0) \<and>
     same_hints (pw_hints p0) (pw_hints p) \<and> pw_names p = pw_names p0 \<and> pw_plugin p"

text \<open>The first letters of the names tell the types apart.\<close>

definition type_letter :: "int \<Rightarrow> char" where
  "type_letter t =
     (if t = PWR_OBJ_NODE then CHR ''n'' else if t = PWR_OBJ_SOCKET then CHR ''s'' else if t = PWR_OBJ_MEM then CHR ''m''
      else if t = PWR_OBJ_POWER_PLANE then CHR ''p'' else if t = PWR_OBJ_CORE then CHR ''c'' else CHR ''h'')"

text \<open>
  An object made during the construction: not yet in the hierarchy (in \<open>L\<close>), or with a node of
  the tree and in the map of names.
\<close>

definition new_obj_ok :: "nat \<Rightarrow> addr set \<Rightarrow> pwr \<Rightarrow> addr \<Rightarrow> obj_t \<Rightarrow> bool" where
  "new_obj_ok B L p a ob \<longleftrightarrow>
     has_type (pw_lib p) a OPAQUE_OBJECT \<and> hs_obj (pw_hints p) a = Some [] \<and> obj_type ob \<in> hw_types \<and>
     (\<exists>h. xw_objs (pw_w p) a = Some h \<and> hw_ready ob h) \<and>
     (obj_gnode ob = None \<longrightarrow> a \<in> L) \<and>
     (\<forall>g. obj_gnode ob = Some g \<longrightarrow> a \<notin> L \<and> B \<le> g \<and> (\<exists>node. gnodes (pw_lib p) g = Some node \<and> gn_data node = a) \<and>
        h_map (pw_h p) (obj_name ob) = Some a)"

definition new_node_ok :: "nat \<Rightarrow> pwr \<Rightarrow> addr \<Rightarrow> gnode_t \<Rightarrow> bool" where
  "new_node_ok B p g node \<longleftrightarrow>
     B \<le> gn_data node \<and> (\<exists>ob. objs (pw_lib p) (gn_data node) = Some ob \<and> obj_gnode ob = Some g) \<and>
     (\<forall>d \<in> set (gn_children node). g < d \<and> gnodes (pw_lib p) d \<noteq> None) \<and>
     (h_tree (pw_h p) = Some g \<or>
        (\<exists>pg pn. B \<le> pg \<and> pg < g \<and> gnodes (pw_lib p) pg = Some pn \<and> g \<in> set (gn_children pn)))"

definition name_ok :: "nat \<Rightarrow> pwr \<Rightarrow> string \<Rightarrow> addr \<Rightarrow> bool" where
  "name_ok B p n a \<longleftrightarrow>
     B \<le> a \<and> (\<exists>ob. objs (pw_lib p) a = Some ob \<and> obj_name ob = n \<and> obj_gnode ob \<noteq> None \<and> n \<noteq> [] \<and> hd n = type_letter (obj_type ob))"

definition root_ok :: "nat \<Rightarrow> pwr \<Rightarrow> addr \<Rightarrow> bool" where
  "root_ok B p r \<longleftrightarrow>
     B \<le> r \<and> (\<exists>node ob. gnodes (pw_lib p) r = Some node \<and> objs (pw_lib p) (gn_data node) = Some ob \<and> obj_type ob = PWR_OBJ_NODE)"

definition grown :: "nat \<Rightarrow> addr set \<Rightarrow> pwr \<Rightarrow> bool" where
  "grown B L p \<longleftrightarrow>
     opaque_inv (pw_lib p) \<and> opaque_map (pw_lib p) \<noteq> None \<and>
     (\<forall>a\<ge>next_addr (pw_lib p). refs (pw_lib p) a = None \<and> objs (pw_lib p) a = None \<and> gnodes (pw_lib p) a = None) \<and>
     (\<forall>a\<ge>B. refs (pw_lib p) a \<noteq> None \<longrightarrow> objs (pw_lib p) a \<noteq> None) \<and>
     (\<forall>a\<ge>B. \<forall>ob. objs (pw_lib p) a = Some ob \<longrightarrow> new_obj_ok B L p a ob) \<and>
     (\<forall>n a. h_map (pw_h p) n = Some a \<longrightarrow> name_ok B p n a) \<and>
     (\<forall>g\<ge>B. \<forall>node. gnodes (pw_lib p) g = Some node \<longrightarrow> new_node_ok B p g node) \<and>
     (\<forall>r. h_tree (pw_h p) = Some r \<longrightarrow> root_ok B p r)"

definition building :: "pwr \<Rightarrow> nat \<Rightarrow> addr set \<Rightarrow> pwr \<Rightarrow> bool" where
  "building p0 N L p \<longleftrightarrow> kept p0 p \<and> grown (next_addr (pw_lib p0)) L p \<and> ample N (pw_lib p) \<and>
     md_ok (xw_md (pw_w p))"

lemma buildingD:
  assumes "building p0 N L p"
  shows "kept p0 p" "grown (next_addr (pw_lib p0)) L p" "ample N (pw_lib p)" "md_ok (xw_md (pw_w p))"
  using assms by (auto simp: building_def)

lemma grownD:
  assumes "grown B L p"
  shows "opaque_inv (pw_lib p)" "opaque_map (pw_lib p) \<noteq> None"
    "\<And>a. next_addr (pw_lib p) \<le> a \<Longrightarrow> refs (pw_lib p) a = None \<and> objs (pw_lib p) a = None \<and> gnodes (pw_lib p) a = None"
    "\<And>a. B \<le> a \<Longrightarrow> refs (pw_lib p) a \<noteq> None \<Longrightarrow> objs (pw_lib p) a \<noteq> None"
    "\<And>a ob. B \<le> a \<Longrightarrow> objs (pw_lib p) a = Some ob \<Longrightarrow> new_obj_ok B L p a ob"
    "\<And>n a. h_map (pw_h p) n = Some a \<Longrightarrow> name_ok B p n a"
    "\<And>g node. B \<le> g \<Longrightarrow> gnodes (pw_lib p) g = Some node \<Longrightarrow> new_node_ok B p g node"
    "\<And>r. h_tree (pw_h p) = Some r \<Longrightarrow> root_ok B p r"
  using assms unfolding grown_def by auto

lemma grownI:
  assumes "opaque_inv (pw_lib p)" "opaque_map (pw_lib p) \<noteq> None"
    "\<And>a. next_addr (pw_lib p) \<le> a \<Longrightarrow> refs (pw_lib p) a = None \<and> objs (pw_lib p) a = None \<and> gnodes (pw_lib p) a = None"
    "\<And>a. B \<le> a \<Longrightarrow> refs (pw_lib p) a \<noteq> None \<Longrightarrow> objs (pw_lib p) a \<noteq> None"
    "\<And>a ob. B \<le> a \<Longrightarrow> objs (pw_lib p) a = Some ob \<Longrightarrow> new_obj_ok B L p a ob"
    "\<And>n a. h_map (pw_h p) n = Some a \<Longrightarrow> name_ok B p n a"
    "\<And>g node. B \<le> g \<Longrightarrow> gnodes (pw_lib p) g = Some node \<Longrightarrow> new_node_ok B p g node"
    "\<And>r. h_tree (pw_h p) = Some r \<Longrightarrow> root_ok B p r"
  shows "grown B L p"
  using assms unfolding grown_def by blast

lemma same_hints_upd [simp]: "same_hints H0 (H\<lparr>hs_obj := f\<rparr>) = same_hints H0 H"
  by (cases H0; cases H) (simp add: same_hints_def)

lemma name_ok_w [simp]: "name_ok B (p\<lparr>pw_w := w\<rparr>) = name_ok B p"
  by (simp add: name_ok_def fun_eq_iff)

lemma root_ok_w [simp]: "root_ok B (p\<lparr>pw_w := w\<rparr>) = root_ok B p"
  by (simp add: root_ok_def fun_eq_iff)

lemma new_node_ok_w [simp]: "new_node_ok B (p\<lparr>pw_w := w\<rparr>) = new_node_ok B p"
  by (simp add: new_node_ok_def fun_eq_iff)

lemma building_calm:
  assumes "building p0 N L p" "calm (pw_w p) w"
  shows "building p0 N L (p\<lparr>pw_w := w\<rparr>)"
proof -
  have "new_obj_ok B L (p\<lparr>pw_w := w\<rparr>) = new_obj_ok B L p" for B
    using assms(2) by (intro ext) (simp add: new_obj_ok_def calm_def)
  with assms show ?thesis unfolding building_def kept_def grown_def calm_def by simp
qed

lemma building_mono: "building p0 N L p \<Longrightarrow> M \<le> N \<Longrightarrow> building p0 M L p"
  using ample_mono by (auto simp: building_def)

subsection \<open>Releasing an object\<close>

definition freed :: "lib \<Rightarrow> addr \<Rightarrow> lib \<Rightarrow> bool" where
  "freed s a s' \<longleftrightarrow>
     opaque_inv s' \<and> (opaque_map s \<noteq> None \<longrightarrow> opaque_map s' \<noteq> None) \<and> (\<forall>N. ample N s \<longrightarrow> ample N s') \<and>
     refs s' = (refs s)(a := None) \<and> objs s' = (objs s)(a := None) \<and> next_addr s' = next_addr s \<and> links s' = links s \<and>
     ctxs s' = ctxs s \<and> grps s' = grps s \<and> statuses s' = statuses s \<and> stats s' = stats s \<and> gnodes s' = gnodes s"

lemma DEL_OBJ_freed:
  assumes "opaque_inv (pw_lib p)" "has_type (pw_lib p) a OPAQUE_OBJECT" "objs (pw_lib p) a \<noteq> None"
    and "hs_obj (pw_hints p) a = Some []" "xw_objs (pw_w p) a \<noteq> None" "pw_plugin p"
  obtains s' where "freed (pw_lib p) a s'"
    "DEL_OBJ a p = Some (p\<lparr>pw_lib := s', pw_hints := (pw_hints p)\<lparr>hs_obj := (hs_obj (pw_hints p))(a := None)\<rparr>,
       pw_w := (pw_w p)\<lparr>xw_objs := (xw_objs (pw_w p))(a := None)\<rparr>\<rparr>)"
proof -
  let ?s = "pw_lib p"
  from release_keyed [OF assms(1,2)] obtain s1 where s1: "opaque_map_remove (key_at ?s a) ?s = Some (True, s1)"
    "same_but_handles ?s s1" "released ?s a (s1\<lparr>refs := (refs s1)(a := None)\<rparr>)" .
  let ?s' = "s1\<lparr>refs := (refs s1)(a := None), objs := (objs s1)(a := None)\<rparr>"
  obtain r where r: "refs ?s a = Some r" "key_at ?s a = ref_key r" using assms(2) by (auto simp: has_type_def key_at_def)
  have "opaque_inv ?s' \<longleftrightarrow> opaque_inv (s1\<lparr>refs := (refs s1)(a := None)\<rparr>)"
    by (rule opaque_inv_cong) simp_all
  moreover have "ample N ?s' = ample N s1" for N by (rule ample_cong) simp
  moreover have "refs ?s' = (refs ?s)(a := None)" using s1(3) by (simp add: released_def)
  ultimately have "freed ?s a ?s'"
    using s1(2,3) remove_ample [OF s1(1)] unfolding freed_def released_def same_but_handles_def by simp
  moreover have "DEL_OBJ a p = Some (p\<lparr>pw_lib := ?s', pw_hints := (pw_hints p)\<lparr>hs_obj := (hs_obj (pw_hints p))(a := None)\<rparr>,
       pw_w := (pw_w p)\<lparr>xw_objs := (xw_objs (pw_w p))(a := None)\<rparr>\<rparr>)"
    using assms(3-6) r s1(1) by (auto simp: DEL_OBJ_def)
  ultimately show ?thesis using that by blast
qed

lemma has_type_freed: "freed s a s' \<Longrightarrow> has_type s' b t \<longleftrightarrow> b \<noteq> a \<and> has_type s b t"
  by (simp add: freed_def has_type_def)

text \<open>An object that is not yet in the hierarchy can be released.\<close>

lemma DEL_OBJ_building:
  assumes b: "building p0 N L p" and a: "next_addr (pw_lib p0) \<le> a" "objs (pw_lib p) a = Some ob" "obj_gnode ob = None"
  obtains p' where "DEL_OBJ a p = Some p'" "building p0 N (L - {a}) p'" "pw_h p' = pw_h p" "objs (pw_lib p') = (objs (pw_lib p))(a := None)"
proof -
  note K = buildingD [OF b] and G = grownD [OF buildingD(2) [OF b]]
  let ?B = "next_addr (pw_lib p0)"
  from G(5) [OF a(1,2)] have ok: "has_type (pw_lib p) a OPAQUE_OBJECT" "hs_obj (pw_hints p) a = Some []" "xw_objs (pw_w p) a \<noteq> None"
    by (auto simp: new_obj_ok_def)
  obtain s' where f: "freed (pw_lib p) a s'" and del: "DEL_OBJ a p = Some (p\<lparr>pw_lib := s',
      pw_hints := (pw_hints p)\<lparr>hs_obj := (hs_obj (pw_hints p))(a := None)\<rparr>, pw_w := (pw_w p)\<lparr>xw_objs := (xw_objs (pw_w p))(a := None)\<rparr>\<rparr>)"
    by (rule DEL_OBJ_freed [OF G(1) ok(1) _ ok(2,3)]) (use a K(1) in \<open>auto simp: kept_def\<close>)
  let ?p = "p\<lparr>pw_lib := s', pw_hints := (pw_hints p)\<lparr>hs_obj := (hs_obj (pw_hints p))(a := None)\<rparr>,
      pw_w := (pw_w p)\<lparr>xw_objs := (xw_objs (pw_w p))(a := None)\<rparr>\<rparr>"
  have "kept p0 ?p" using K(1) f a(1) by (simp add: kept_def freed_def)
  moreover have "ample N s'" using K(3) f by (simp add: freed_def)
  moreover have "grown ?B (L - {a}) ?p"
  proof (rule grownI)
    show "opaque_inv (pw_lib ?p)" "opaque_map (pw_lib ?p) \<noteq> None" using f G(2) by (simp_all add: freed_def)
    show "refs (pw_lib ?p) b = None \<and> objs (pw_lib ?p) b = None \<and> gnodes (pw_lib ?p) b = None" if "next_addr (pw_lib ?p) \<le> b" for b
      using G(3) [of b] that f by (simp add: freed_def)
    show "objs (pw_lib ?p) b \<noteq> None" if "?B \<le> b" "refs (pw_lib ?p) b \<noteq> None" for b
      using G(4) [OF that(1)] that(2) f by (auto simp: freed_def split: if_splits)
    show "new_obj_ok ?B (L - {a}) ?p b ob'" if "?B \<le> b" "objs (pw_lib ?p) b = Some ob'" for b ob'
    proof -
      from that(2) f have "b \<noteq> a" "objs (pw_lib p) b = Some ob'" by (auto simp: freed_def split: if_splits)
      with G(5) [OF that(1)] f show ?thesis by (simp add: new_obj_ok_def has_type_freed [OF f]) (simp add: freed_def)
    qed
    show "name_ok ?B ?p n b" if "h_map (pw_h ?p) n = Some b" for n b
      using G(6) [of n b] that f a(2,3) by (auto simp: name_ok_def freed_def)
    show "new_node_ok ?B ?p g node" if "?B \<le> g" "gnodes (pw_lib ?p) g = Some node" for g node
    proof -
      have "new_node_ok ?B p g node" using G(7) [OF that(1)] that(2) f by (simp add: freed_def)
      with f a(2,3) show ?thesis by (auto simp: new_node_ok_def freed_def)
    qed
    show "root_ok ?B ?p r" if "h_tree (pw_h ?p) = Some r" for r
    proof -
      have "root_ok ?B p r" using G(8) that by simp
      then obtain node ob1 where r: "gnodes (pw_lib p) r = Some node" "?B \<le> r" "objs (pw_lib p) (gn_data node) = Some ob1" "obj_type ob1 = PWR_OBJ_NODE"
        by (auto simp: root_ok_def)
      have "gn_data node \<noteq> a" using G(7) [OF r(2,1)] a(2,3) by (auto simp: new_node_ok_def)
      with r f show ?thesis by (simp add: root_ok_def freed_def)
    qed
  qed
  ultimately have "building p0 N (L - {a}) ?p" using K(4) by (simp add: building_def)
  with that [OF del] f show ?thesis by (simp add: freed_def)
qed

subsection \<open>Making an object\<close>

lemma NEW_OBJ_building:
  fixes t os_id name
  defines "ob \<equiv> \<lparr>obj_type = t, obj_os_id = os_id, obj_name = name, obj_gnode = None\<rparr>"
  assumes b: "building p0 (Suc N) L p" and c: "constr (xw_md (pw_w p)) ob = (0, h)" "hw_ready ob h" "t \<in> hw_types"
  obtains p' where "NEW_OBJ t constr os_id name p = Some (Some (next_addr (pw_lib p)), p')"
    "building p0 N (insert (next_addr (pw_lib p)) L) p'" "pw_h p' = pw_h p"
    "objs (pw_lib p') = (objs (pw_lib p))(next_addr (pw_lib p) \<mapsto> ob)" "gnodes (pw_lib p') = gnodes (pw_lib p)"
    "xw_objs (pw_w p') = (xw_objs (pw_w p))(next_addr (pw_lib p) \<mapsto> h)" "next_addr (pw_lib p') = Suc (next_addr (pw_lib p))"
proof -
  note K = buildingD [OF b] and G = grownD [OF buildingD(2) [OF b]]
  let ?s = "pw_lib p" and ?a = "next_addr (pw_lib p)" and ?B = "next_addr (pw_lib p0)"
  let ?sz = "?s\<lparr>next_addr := Suc ?a, refs := (refs ?s)(?a \<mapsto> zero_ref), objs := (objs ?s)(?a \<mapsto> ob)\<rparr>"
  have free: "refs ?s ?a = None" "objs ?s ?a = None" "gnodes ?s ?a = None" using G(3) [OF order_refl] by blast+
  obtain k s' where ins: "opaque_map_insert OPAQUE_OBJECT ?a ?sz = Some (k, s')" and ent: "entered ?s ?a OPAQUE_OBJECT k s'"
    and same: "same_but_handles ?sz s'"
    using enter_new [OF G(1) ample_has_draw [OF K(3)] _ free(1), of OPAQUE_OBJECT ?sz] by auto
  let ?w = "(pw_w p)\<lparr>xw_objs := (xw_objs (pw_w p))(?a \<mapsto> h)\<rparr>"
  let ?p = "p\<lparr>pw_lib := s', pw_hints := (pw_hints p)\<lparr>hs_obj := (hs_obj (pw_hints p))(?a \<mapsto> [])\<rparr>, pw_w := ?w\<rparr>"
  have new: "NEW_OBJ t constr os_id name p = Some (Some ?a, ?p)"
    using c(1) K(1) ins ent by (simp add: NEW_OBJ_def alloc_ref_def kept_def init_hints_def entered_def ob_def Let_def)
  have f: "objs s' = (objs ?s)(?a \<mapsto> ob)" "gnodes s' = gnodes ?s" "next_addr s' = Suc ?a" "refs s' = (refs ?s)(?a \<mapsto> \<lparr>ref_type = OPAQUE_OBJECT, ref_key = k\<rparr>)"
    "links s' = links ?s" "ctxs s' = ctxs ?s" "grps s' = grps ?s" "statuses s' = statuses ?s" "stats s' = stats ?s"
    using same ent by (simp_all add: same_but_handles_def entered_def)
  have le: "?B \<le> ?a" using K(1) by (simp add: kept_def)
  have types: "has_type s' b u \<longleftrightarrow> (if b = ?a then u = OPAQUE_OBJECT else has_type ?s b u)" for b u
    using entered_types(1) [OF ent free(1)] .
  have "ample N s'"
    by (rule insert_ample [OF ins]) (use K(3) in \<open>simp add: ample_def\<close>)
  moreover have "kept p0 ?p" using K(1) f le by (simp add: kept_def)
  moreover have "grown ?B (insert ?a L) ?p"
  proof (rule grownI)
    show "opaque_inv (pw_lib ?p)" "opaque_map (pw_lib ?p) \<noteq> None" using ent by (simp_all add: entered_def)
    show "refs (pw_lib ?p) b = None \<and> objs (pw_lib ?p) b = None \<and> gnodes (pw_lib ?p) b = None" if "next_addr (pw_lib ?p) \<le> b" for b
      using G(3) [of b] that f by simp
    show "objs (pw_lib ?p) b \<noteq> None" if "?B \<le> b" "refs (pw_lib ?p) b \<noteq> None" for b
      using G(4) [OF that(1)] that(2) f by (auto split: if_splits)
    show "new_obj_ok ?B (insert ?a L) ?p b ob'" if "?B \<le> b" "objs (pw_lib ?p) b = Some ob'" for b ob'
    proof (cases "b = ?a")
      case True
      with that f(1) have "ob' = ob" by simp
      with True c(2,3) show ?thesis by (simp add: new_obj_ok_def types) (simp add: ob_def)
    next
      case False
      with that f have "objs ?s b = Some ob'" by simp
      from G(5) [OF that(1) this] False f show ?thesis by (simp add: new_obj_ok_def types)
    qed
    show "name_ok ?B ?p n b" if "h_map (pw_h ?p) n = Some b" for n b
      using G(6) [of n b] that f free(2) by (auto simp: name_ok_def)
    show "new_node_ok ?B ?p g node" if "?B \<le> g" "gnodes (pw_lib ?p) g = Some node" for g node
    proof -
      have "new_node_ok ?B p g node" using G(7) [OF that(1)] that(2) f by simp
      with f free(2) show ?thesis by (auto simp: new_node_ok_def)
    qed
    show "root_ok ?B ?p r" if "h_tree (pw_h ?p) = Some r" for r
      using G(8) [of r] that f free(2) by (auto simp: root_ok_def)
  qed
  ultimately have "building p0 N (insert ?a L) ?p" using K(4) by (simp add: building_def)
  with that [OF new] f show ?thesis by simp
qed

lemma hw_ready_gnode [simp]: "hw_ready (ob\<lparr>obj_gnode := g\<rparr>) h = hw_ready ob h"
  by (cases h) simp_all

text \<open>The new node of an object, below a node of the hierarchy or as its root.\<close>

definition parent_ok :: "nat \<Rightarrow> pwr \<Rightarrow> addr option \<Rightarrow> bool" where
  "parent_ok B p parent \<longleftrightarrow> (case parent of None \<Rightarrow> h_tree (pw_h p) = None | Some pg \<Rightarrow> B \<le> pg \<and> gnodes (pw_lib p) pg \<noteq> None)"

definition inserted :: "pwr \<Rightarrow> addr option \<Rightarrow> addr \<Rightarrow> obj_t \<Rightarrow> pwr \<Rightarrow> bool" where
  "inserted p parent a ob p' \<longleftrightarrow>
     pw_w p' = pw_w p \<and> h_map (pw_h p') = (h_map (pw_h p))(obj_name ob \<mapsto> a) \<and>
     h_tree (pw_h p') = (if parent = None then Some (next_addr (pw_lib p)) else h_tree (pw_h p)) \<and>
     objs (pw_lib p') = (objs (pw_lib p))(a \<mapsto> ob\<lparr>obj_gnode := Some (next_addr (pw_lib p))\<rparr>) \<and>
     (\<forall>g. gnodes (pw_lib p) g \<noteq> None \<longrightarrow> gnodes (pw_lib p') g \<noteq> None)"

lemma hierarchy_insert_building:
  assumes b: "building p0 N L p" and a: "next_addr (pw_lib p0) \<le> a" "objs (pw_lib p) a = Some ob" "obj_gnode ob = None"
    and n: "h_map (pw_h p) (obj_name ob) = None" "obj_name ob \<noteq> []" "hd (obj_name ob) = type_letter (obj_type ob)"
    and par: "parent_ok (next_addr (pw_lib p0)) p parent" "parent = None \<Longrightarrow> obj_type ob = PWR_OBJ_NODE"
  obtains p' where "hierarchy_insert parent (Some a) p = Some (PWR_RET_SUCCESS, p')" "building p0 N (L - {a}) p'" "inserted p parent a ob p'"
proof -
  note K = buildingD [OF b] and G = grownD [OF buildingD(2) [OF b]]
  let ?s = "pw_lib p" and ?g = "next_addr (pw_lib p)" and ?B = "next_addr (pw_lib p0)" and ?ob = "ob\<lparr>obj_gnode := Some (next_addr (pw_lib p))\<rparr>"
  have free: "gnodes ?s ?g = None" "refs ?s ?g = None" "objs ?s ?g = None" using G(3) [OF order_refl] by blast+
  have le: "?B \<le> ?g" using K(1) by (simp add: kept_def)
  have alt: "a < ?g" using G(3) [of a] a(2) by (metis linorder_not_less option.distinct(1))
  define gs where "gs = (case parent of
      None \<Rightarrow> (gnodes ?s)(?g \<mapsto> \<lparr>gn_data = a, gn_parent = None, gn_children = []\<rparr>)
    | Some pg \<Rightarrow> (gnodes ?s)(?g \<mapsto> \<lparr>gn_data = a, gn_parent = Some pg, gn_children = []\<rparr>,
                    pg \<mapsto> (the (gnodes ?s pg))\<lparr>gn_children := gn_children (the (gnodes ?s pg)) @ [?g]\<rparr>))"
  define s' where "s' = ?s\<lparr>next_addr := Suc ?g, objs := (objs ?s)(a \<mapsto> ?ob), gnodes := gs\<rparr>"
  define h' where "h' = (pw_h p)\<lparr>h_map := (h_map (pw_h p))(obj_name ob \<mapsto> a), h_tree := if parent = None then Some ?g else h_tree (pw_h p)\<rparr>"
  let ?p = "p\<lparr>pw_lib := s', pw_h := h'\<rparr>"
  have ins: "hierarchy_insert parent (Some a) p = Some (PWR_RET_SUCCESS, ?p)"
    using a n(1) par(1) free(1)
    by (cases parent) (auto simp: hierarchy_insert_def g_node_new_def g_node_append_def parent_ok_def s'_def h'_def gs_def)
  have gsD: "gs g = Some node \<Longrightarrow> (g = ?g \<and> gn_data node = a \<and> gn_children node = []) \<or>
      (\<exists>nd. gnodes ?s g = Some nd \<and> gn_data node = gn_data nd \<and> set (gn_children node) \<subseteq> insert ?g (set (gn_children nd)) \<and> g \<noteq> ?g)" for g node
    using par(1) free(1) by (cases parent) (auto simp: gs_def parent_ok_def split: if_splits)
  have gsI: "gnodes ?s g = Some nd \<Longrightarrow> \<exists>node. gs g = Some node \<and> gn_data node = gn_data nd \<and> set (gn_children nd) \<subseteq> set (gn_children node)" for g nd
    using par(1) free(1) by (cases parent) (auto simp: gs_def parent_ok_def split: if_splits)
  have new: "\<exists>node. gs ?g = Some node \<and> gn_data node = a" using par(1) free(1) by (cases parent) (auto simp: gs_def parent_ok_def)
  have above: "parent = Some pg \<Longrightarrow> pg < ?g \<and> ?B \<le> pg \<and> (\<exists>pn. gs pg = Some pn \<and> ?g \<in> set (gn_children pn))" for pg
    using par(1) G(3) [of pg] by (auto simp: gs_def parent_ok_def not_le [symmetric])
  have gs_none: "gs g = None" if "Suc ?g \<le> g" for g
    using G(3) [of g] that above by (cases parent) (auto simp: gs_def)
  have types: "has_type s' b u = has_type ?s b u" for b u by (simp add: has_type_def s'_def)
  have "ample N s'" using K(3) by (simp add: ample_def s'_def)
  moreover have "kept p0 ?p"
    using K(1) a(1) le above by (cases parent) (auto simp: kept_def s'_def gs_def)
  moreover have "grown ?B (L - {a}) ?p"
  proof (rule grownI)
    show "opaque_inv (pw_lib ?p)" "opaque_map (pw_lib ?p) \<noteq> None"
      using G(1,2) opaque_inv_cong(1) [of s' ?s] by (simp_all add: s'_def)
    show "refs (pw_lib ?p) b = None \<and> objs (pw_lib ?p) b = None \<and> gnodes (pw_lib ?p) b = None" if "next_addr (pw_lib ?p) \<le> b" for b
      using G(3) [of b] that alt gs_none [of b] by (auto simp: s'_def)
    show "objs (pw_lib ?p) b \<noteq> None" if "?B \<le> b" "refs (pw_lib ?p) b \<noteq> None" for b
      using G(4) [OF that(1)] that(2) by (auto simp: s'_def)
    show "new_obj_ok ?B (L - {a}) ?p b ob'" if "?B \<le> b" "objs (pw_lib ?p) b = Some ob'" for b ob'
    proof (cases "b = a")
      case True
      with that have "ob' = ?ob" by (simp add: s'_def)
      with G(5) [OF a(1,2)] True new le show ?thesis by (auto simp: new_obj_ok_def types h'_def) (auto simp: s'_def)
    next
      case False
      with that have old: "objs ?s b = Some ob'" by (simp add: s'_def)
      from G(5) [OF that(1) this] have ok: "new_obj_ok ?B L p b ob'" .
      have "h_map h' (obj_name ob') = Some b" if "obj_gnode ob' \<noteq> None"
        using ok that n(1) by (auto simp: new_obj_ok_def h'_def)
      moreover have "\<exists>node. gs g = Some node \<and> gn_data node = b" if "obj_gnode ob' = Some g" for g
        using ok that gsI by (fastforce simp: new_obj_ok_def)
      ultimately show ?thesis using ok False by (auto simp: new_obj_ok_def types) (auto simp: s'_def)
    qed
    show "name_ok ?B ?p m b" if "h_map (pw_h ?p) m = Some b" for m b
    proof (cases "m = obj_name ob")
      case True
      with that a n show ?thesis by (simp add: name_ok_def h'_def s'_def)
    next
      case False
      with that have "name_ok ?B p m b" using G(6) by (simp add: h'_def)
      with a(2,3) show ?thesis by (auto simp: name_ok_def s'_def)
    qed
    show "new_node_ok ?B ?p g node" if g: "?B \<le> g" "gnodes (pw_lib ?p) g = Some node" for g node
      using gsD [of g node] g(2)
    proof (auto simp: s'_def, goal_cases)
      case 1
      with a(1) above show ?case by (cases parent) (auto simp: new_node_ok_def s'_def h'_def)
    next
      case (2 nd)
      with G(7) [OF g(1)] have ok: "new_node_ok ?B p g nd" by simp
      have kids: "g < d \<and> gs d \<noteq> None" if d: "d \<in> set (gn_children node)" for d
      proof (cases "d = ?g")
        case True
        have "g < ?g" using G(3) [of g] 2(2) by (metis linorder_not_less option.distinct(1))
        with True new show ?thesis by auto
      next
        case False
        with d 2(4) have "d \<in> set (gn_children nd)" by auto
        with ok obtain nd' where "g < d" "gnodes ?s d = Some nd'" by (auto simp: new_node_ok_def)
        with gsI [of d nd'] show ?thesis by auto
      qed
      have root: "h_tree h' = Some g \<or> (\<exists>pg pn. ?B \<le> pg \<and> pg < g \<and> gs pg = Some pn \<and> g \<in> set (gn_children pn))"
        using ok par(1) gsI by (cases parent) (fastforce simp: new_node_ok_def h'_def parent_ok_def)+
      have "\<exists>ob1. objs s' (gn_data node) = Some ob1 \<and> obj_gnode ob1 = Some g"
        using ok 2(3) a(2,3) by (auto simp: new_node_ok_def s'_def)
      then show ?case using ok kids root 2(3) by (simp add: new_node_ok_def) (auto simp: s'_def)
    qed
    show "root_ok ?B ?p r" if r: "h_tree (pw_h ?p) = Some r" for r
    proof (cases "parent = None")
      case True
      with r new le par(2) show ?thesis by (auto simp: root_ok_def h'_def s'_def)
    next
      case False
      with r G(8) [of r] have "root_ok ?B p r" by (simp add: h'_def)
      then obtain nd ob1 where nd: "gnodes ?s r = Some nd" "objs ?s (gn_data nd) = Some ob1" "obj_type ob1 = PWR_OBJ_NODE" "?B \<le> r"
        by (auto simp: root_ok_def)
      from gsI [OF nd(1)] nd a(2) show ?thesis by (auto simp: root_ok_def s'_def)
    qed
  qed
  ultimately have "building p0 N (L - {a}) ?p" using K(4) by (simp add: building_def)
  moreover have "inserted p parent a ob ?p"
    using gsI by (fastforce simp: inserted_def s'_def h'_def)
  ultimately show ?thesis using that [OF ins] by blast
qed

end
