(* ===== verification/Discovery.thy ===== *)
theory Discovery
  imports Building
begin

text \<open>
  The discovery of the hardware under the invariant of \<open>Building\<close>: on a system whose files are in order
  every function of \<^verbatim>\<open>x86_hierarchy.c\<close> returns and leaves a well-formed hierarchy.
\<close>

subsection \<open>A system in order\<close>

text \<open>
  What the discovery relies on: the scan rate of the counters is not zero, the RAPL domains do not go on
  for ever, the description of the processors does not end with the separator that the search for the model name
  looks for, and the greatest processor number is positive and at most \<open>M\<close>.
\<close>

definition healthy :: "penv \<Rightarrow> nat \<Rightarrow> (nat \<Rightarrow> filesystem) \<Rightarrow> bool" where
  "healthy E M fs \<longleftrightarrow>
     (\<forall>w :: xworld. sw_fs w = fs \<longrightarrow>
        (case read_uint64_from_file (pe_lib E) (path0 E ''node_update_rate_path'') False w of (st, v, _, _) \<Rightarrow> st = 0 \<longrightarrow> v \<noteq> 0)) \<and>
     (\<exists>n. \<forall>t path. path_fmt E ''rapl_pkg_name_path'' [ArgLu n] = Some path \<longrightarrow> files (fs t) path = None) \<and>
     (\<exists>n. \<forall>t pkg path. path_fmt E ''rapl_sub_name_path'' [ArgLu pkg, ArgLu pkg, ArgLu n] = Some path \<longrightarrow> files (fs t) path = None) \<and>
     (\<forall>t path buf. path0 E ''procfs_cpuinfo'' = Some path \<longrightarrow> fopen_r path (fs t) = Some buf \<longrightarrow>
        c_string buf = [] \<or> last (c_string buf) \<noteq> CHR '':'') \<and>
     (\<forall>w :: xworld. sw_fs w = fs \<longrightarrow>
        (case x86_read_uint32 (path0 E ''kernel_max_path'') w of (ret, v, _) \<Rightarrow> ret \<ge> 0 \<longrightarrow> (\<exists>n. v = Some n \<and> n \<noteq> 0 \<and> unat n \<le> M)))"

subsection \<open>Reading\<close>

lemma ticked_line [ticked_rules]: "x86_read_line path w = (l, w') \<Longrightarrow> ticked w w'"
  by (auto simp: x86_read_line_def split: prod.splits option.splits intro: ticked_rules)

lemma ticked_read32 [ticked_rules]: "x86_read_uint32 path w = (r, v, w') \<Longrightarrow> ticked w w'"
  by (auto simp: x86_read_uint32_def split: prod.splits option.splits intro: ticked_rules)

lemma ticked_read64 [ticked_rules]: "x86_read_uint64 path w = (r, v, w') \<Longrightarrow> ticked w w'"
  by (auto simp: x86_read_uint64_def split: prod.splits option.splits intro: ticked_rules)

lemma ticked_read_line [ticked_rules]: "read_line_from_file path n t w = (r, l, ts, w') \<Longrightarrow> ticked w w'"
  by (auto simp: read_line_from_file_def Let_def split: prod.splits option.splits if_splits
      intro: ticked_rules ticked_trans)

lemma ticked_fs: "ticked w w' \<Longrightarrow> sw_fs w' = sw_fs w"
  by (auto simp: ticked_def)

lemma find_rapl_loop_returns:
  assumes "\<And>t path. path_of j = Some path \<Longrightarrow> files (sw_fs w t) path = None"
  shows "\<exists>e r w'. find_rapl_loop path_of name i w = Some (e, r, w') \<and> ticked w w'"
  using assms
proof (induction "unat (j - i)" arbitrary: i w rule: less_induct)
  case less
  show ?case
  proof (cases "path_of i")
    case None
    then show ?thesis by (subst find_rapl_loop.simps) (simp add: ticked_refl)
  next
    case (Some path)
    obtain ex w1 where t: "g_file_test path w = (ex, w1)" by (cases "g_file_test path w")
    obtain c w2 where c: "g_file_get_contents (Some path) w1 = (c, w2)" by (cases "g_file_get_contents (Some path) w1")
    have tk: "ticked w w1" "ticked w w2" using t c by (auto intro: ticked_rules ticked_trans)
    show ?thesis
    proof (cases "ex \<and> (\<exists>str. c = Some str \<and> c_string str \<noteq> name)")
      case False
      then show ?thesis using Some t c tk by (subst find_rapl_loop.simps) (auto split: option.split)
    next
      case True
      then obtain str where str: "c = Some str" "c_string str \<noteq> name" "ex" by blast
      have "i \<noteq> j" using less.prems Some t str(3) by (auto simp: g_file_test_def)
      then have "unat (j - i - 1) < unat (j - i)" by (intro measure_unat) simp
      then have "unat (j - (i + 1)) < unat (j - i)" by (simp add: diff_diff_eq)
      from less.hyps [OF this, of w2] less.prems ticked_fs [OF tk(2)] obtain e r w' where
        "find_rapl_loop path_of name (i + 1) w2 = Some (e, r, w')" "ticked w2 w'" by auto
      then show ?thesis using Some t c str ticked_trans [OF tk(2)] by (subst find_rapl_loop.simps) auto
    qed
  qed
qed

lemma find_rapl_id_returns:
  assumes "healthy E M (sw_fs w)"
  shows "\<exists>e pkg mem w'. x86_find_rapl_id E socket_id pkg0 mem0 w = Some (e, pkg, mem, w') \<and> ticked w w'"
proof -
  from assms obtain n m where
    n: "\<And>t path. path_fmt E ''rapl_pkg_name_path'' [ArgLu n] = Some path \<Longrightarrow> files (sw_fs w t) path = None"
    and m: "\<And>t pkg path. path_fmt E ''rapl_sub_name_path'' [ArgLu pkg, ArgLu pkg, ArgLu m] = Some path \<Longrightarrow> files (sw_fs w t) path = None"
    unfolding healthy_def by blast
  from find_rapl_loop_returns [where path_of = "\<lambda>i. path_fmt E ''rapl_pkg_name_path'' [ArgLu i]", OF n] obtain e r w1 where
    1: "x86_find_rapl_pkg_id E socket_id w = Some (e, r, w1)" "ticked w w1" unfolding x86_find_rapl_pkg_id_def by blast
  have fs: "sw_fs w1 = sw_fs w" using 1(2) by (rule ticked_fs)
  have mem: "\<exists>e r w'. x86_find_rapl_mem_id E pkg w1 = Some (e, r, w') \<and> ticked w1 w'" for pkg
    unfolding x86_find_rapl_mem_id_def by (rule find_rapl_loop_returns [where j = m]) (simp add: m fs)
  let ?pkg = "case r of None \<Rightarrow> pkg0 | Some i \<Rightarrow> i"
  from mem [of ?pkg] obtain e2 r2 w2 where "x86_find_rapl_mem_id E ?pkg w1 = Some (e2, r2, w2)" "ticked w1 w2" by blast
  then show ?thesis using 1 ticked_trans [OF 1(2)] by (simp add: x86_find_rapl_id_def Let_def)
qed

lemma skip_to_value_returns: "s \<noteq> [] \<Longrightarrow> skip_to_value s \<noteq> None"
  by (induction s rule: skip_to_value.induct) (auto split: list.split)

lemma g_strstr_suffix: "g_strstr s needle = Some t \<Longrightarrow> \<exists>pre. s = pre @ t"
proof (induction s)
  case (Cons c s)
  show ?case
  proof (cases "take (length needle) (c # s) = needle")
    case True
    with Cons.prems have "t = c # s" by simp
    then show ?thesis by simp
  next
    case False
    with Cons obtain pre where "s = pre @ t" by auto
    then have "c # s = (c # pre) @ t" by simp
    then show ?thesis by blast
  qed
qed (auto split: if_splits)

lemma g_strstr_take: "g_strstr s needle = Some t \<Longrightarrow> take (length needle) t = needle"
  by (induction s) (auto split: if_splits)

lemma cpu_model_returns:
  assumes "buf = [] \<or> last buf \<noteq> CHR '':''"
  shows "cpu_model buf \<noteq> None"
proof (cases "Option.bind (g_strstr buf CPU_MODEL_KEY) (\<lambda>t. g_strstr t '':'')")
  case (Some sep)
  then obtain t where t: "g_strstr buf CPU_MODEL_KEY = Some t" "g_strstr t '':'' = Some sep" by (auto simp: bind_eq_Some_conv)
  from g_strstr_suffix [OF t(1)] g_strstr_suffix [OF t(2)] obtain pre where pre: "buf = pre @ sep" by auto
  from g_strstr_take [OF t(2)] obtain rest where sep: "sep = CHR '':'' # rest" by (cases sep) auto
  have "rest \<noteq> []" using assms pre sep by auto
  with skip_to_value_returns [of rest] Some sep show ?thesis by (auto simp: cpu_model_def)
qed (simp add: cpu_model_def)

lemma md_ok_vendor [simp]: "md_ok (md\<lparr>md_socket_vendor_info := v\<rparr>) = md_ok md" "md_ok (md\<lparr>md_node_vendor_info := v\<rparr>) = md_ok md"
  "md_ok (md\<lparr>md_ht_cstate := l\<rparr>) = md_ok md" "md_ok (md\<lparr>md_ht_freq := l'\<rparr>) = md_ok md"
  "md_ok (md\<lparr>md_update_rate := r, md_time_window := t\<rparr>) = md_ok md"
  by (simp_all add: md_ok_def)

lemma calm_ticked_md: "ticked w w' \<Longrightarrow> (\<And>md. md_ok md \<Longrightarrow> md_ok (f md)) \<Longrightarrow> calm w (set_md f w')"
  using calm_trans [OF calm_ticked calm_set_md] by blast

lemma read_socket_metadata_returns:
  assumes "healthy E M (sw_fs w)"
  shows "\<exists>r w'. x86_read_socket_metadata E w = Some (r, w') \<and> calm w w'"
proof -
  obtain c w1 where c: "g_file_get_contents (path0 E ''procfs_cpuinfo'') w = (c, w1)"
    by (cases "g_file_get_contents (path0 E ''procfs_cpuinfo'') w")
  have t: "ticked w w1" using c by (rule ticked_contents)
  show ?thesis
  proof (cases c)
    case None
    with c t show ?thesis by (simp add: x86_read_socket_metadata_def calm_ticked_md)
  next
    case (Some buf)
    with c obtain path where "path0 E ''procfs_cpuinfo'' = Some path" "fopen_r path (now_fs w) = Some buf"
      by (auto simp: g_file_get_contents_def split: option.splits)
    with assms have "c_string buf = [] \<or> last (c_string buf) \<noteq> CHR '':''" unfolding healthy_def by blast
    with cpu_model_returns obtain v where "cpu_model (c_string buf) = Some v" by blast
    with c Some t show ?thesis by (cases v) (simp_all add: x86_read_socket_metadata_def calm_ticked_md)
  qed
qed

subsection \<open>Lists of values\<close>

text \<open>Adding texts to a list that holds values.\<close>

lemma add_texts_holds:
  assumes "\<forall>l vs t. holds l vs \<longrightarrow> (\<exists>r l' vs'. add l t = Some (r, l') \<and> holds l' vs')" "holds l vs"
  shows "\<exists>r l' vs'. add_texts add ts l = Some (r, l') \<and> holds l' vs'"
  using assms(2)
proof (induction ts arbitrary: l vs)
  case (Cons t ts)
  from assms(1) Cons.prems obtain r l' vs' where "add l t = Some (r, l')" "holds l' vs'" by blast
  with Cons.IH [of l' vs'] show ?case by auto
qed auto

lemma add_str_uint64_holds: "uint64_holds l vs \<Longrightarrow> \<exists>r l' vs'. pwr_list_add_str_uint64 l t = Some (r, l') \<and> uint64_holds l' vs'"
proof -
  assume h: "uint64_holds l vs"
  obtain v ep err where g: "g_ascii_strtoull t = (v, ep, err)" by (cases "g_ascii_strtoull t") auto
  from uint64_list.add_law [OF h, of v] obtain l' where "pwr_list_add_uint64 l v = Some l'" "uint64_holds l' (vs @ [v])" by blast
  with h g show ?thesis by (auto simp: pwr_list_add_str_uint64_def)
qed

lemma add_str_double_holds: "double_holds pr l vs \<Longrightarrow> \<exists>r l' vs'. pwr_list_add_str_double pr sd l t = Some (r, l') \<and> double_holds pr l' vs'"
proof -
  assume h: "double_holds pr l vs"
  obtain v ep err where g: "sd t = (v, ep, err)" by (cases "sd t") auto
  from double_list.add_law [OF h, of v] obtain l' where "pwr_list_add_double pr l v = Some l'" "double_holds pr l' (vs @ [v])" by blast
  with h g show ?thesis by (auto simp: pwr_list_add_str_double_def)
qed

lemma qsort_elements: "length (qsort cmp vs) = length vs \<and> set (qsort cmp vs) = set vs"
proof -
  have "length (qsort_insert cmp x xs) = Suc (length xs) \<and> set (qsort_insert cmp x xs) = insert x (set xs)" for x xs
    by (induction xs) auto
  then show ?thesis by (induction vs) (simp_all add: qsort_def)
qed

lemma sort_double_returns: "double_holds pr l vs \<Longrightarrow> \<exists>l'. pwr_list_sort_double l = Some l'"
  using sort_cells_hold [of "ld_alloc l" "ld_num l" "ld_list l" "ld_value_len l" pr vs pwr_compare_double] qsort_elements
  by (fastforce simp: double_holds_def pwr_list_sort_double_def)

lemma read_ht_cstate_returns: "\<exists>r w'. x86_read_ht_cstate_metadata E ht w = Some (r, w') \<and> calm w w'"
proof (cases "path_fmt E ''ht_cstate_path'' [ArgLu ht]")
  case (Some path)
  obtain es w1 where o: "opendir path w = (es, w1)" by (cases "opendir path w")
  have t: "ticked w w1" using o by (rule ticked_opendir)
  show ?thesis
  proof (cases es)
    case (Some entries)
    let ?ts = "map (\<lambda>e. drop 5 (fst e)) (filter (\<lambda>(d_name, is_dir). is_dir \<and> take 5 d_name = ''state'') entries)"
    have "\<forall>l vs t. uint64_holds l vs \<longrightarrow> (\<exists>r l' vs'. pwr_list_add_str_uint64 l t = Some (r, l') \<and> uint64_holds l' vs')"
      using add_str_uint64_holds by blast
    from add_texts_holds [OF this uint64_list.init_law, of ?ts]
    obtain r l vs where l: "add_texts pwr_list_add_str_uint64 ?ts pwr_list_init_uint64 = Some (r, l)" "uint64_holds l vs" by blast
    from sort_uint64_holds [OF l(2)] obtain l' where "pwr_list_sort_uint64 l = Some l'" by blast
    with Some o t l(1) \<open>path_fmt _ _ _ = _\<close> show ?thesis
      by (simp add: x86_read_ht_cstate_metadata_def calm_ticked calm_ticked_md)
  qed (use Some o t in \<open>simp add: x86_read_ht_cstate_metadata_def calm_ticked\<close>)
qed (simp add: x86_read_ht_cstate_metadata_def)

lemma read_line_value: "read_line_from_file path n b w = (0, l, ts, w') \<Longrightarrow> l \<noteq> None"
  by (auto simp: read_line_from_file_def Let_def split: prod.splits option.splits if_splits)

lemma read_ht_freq_returns: "\<exists>r w'. x86_read_ht_freq_metadata E ht w = Some (r, w') \<and> calm w w'"
proof (cases "path_fmt E ''ht_freq_limit_list_path'' [ArgLu ht]")
  case (Some path)
  obtain st line ts w1 where o: "read_line_from_file path 0 False w = (st, line, ts, w1)" by (cases "read_line_from_file path 0 False w")
  have t: "ticked w w1" using o by (rule ticked_read_line)
  show ?thesis
  proof (cases "st = 0")
    case True
    with read_line_value o obtain ln where ln: "line = Some ln" by blast
    let ?add = "pwr_list_add_str_double (c_print_lf (pe_lib E)) (c_strtod (pe_lib E))"
    have "\<forall>l vs t. double_holds (c_print_lf (pe_lib E)) l vs \<longrightarrow> (\<exists>r l' vs'. ?add l t = Some (r, l') \<and> double_holds (c_print_lf (pe_lib E)) l' vs')"
      using add_str_double_holds by blast
    from add_texts_holds [OF this double_list.init_law, of "g_strsplit CHR '' '' (g_strstrip ln)"]
    obtain r l vs where l: "add_texts ?add (g_strsplit CHR '' '' (g_strstrip ln)) pwr_list_init_double = Some (r, l)"
      "double_holds (c_print_lf (pe_lib E)) l vs" by blast
    from sort_double_returns [OF l(2)] obtain l' where "pwr_list_sort_double l = Some l'" by blast
    with Some o t True ln l(1) show ?thesis
      by (simp add: x86_read_ht_freq_metadata_def calm_ticked calm_ticked_md)
  qed (use Some o t in \<open>simp add: x86_read_ht_freq_metadata_def calm_ticked\<close>)
qed (simp add: x86_read_ht_freq_metadata_def)

lemma read_ht_gov_returns: "\<exists>r w'. x86_read_ht_gov_metadata E ht w = Some (r, w') \<and> calm w w'"
proof (cases "path_fmt E ''ht_governor_list_path'' [ArgLu ht]")
  case (Some path)
  obtain st line ts w1 where o: "read_line_from_file path 0 False w = (st, line, ts, w1)" by (cases "read_line_from_file path 0 False w")
  have t: "ticked w w1" using o by (rule ticked_read_line)
  show ?thesis
  proof (cases "st = 0")
    case True
    with read_line_value o obtain ln where ln: "line = Some ln" by blast
    let ?add = "\<lambda>l t. map_option (Pair PWR_RET_SUCCESS) (pwr_list_add_string l t)"
    have "\<forall>l vs t. string_holds l vs \<longrightarrow> (\<exists>r l' vs'. ?add l t = Some (r, l') \<and> string_holds l' vs')"
      using string_list.add_law by fastforce
    from add_texts_holds [OF this string_list.init_law, of "g_strsplit CHR '' '' (g_strstrip ln)"]
    obtain r l vs where l: "add_texts ?add (g_strsplit CHR '' '' (g_strstrip ln)) pwr_list_init_string = Some (r, l)" "string_holds l vs" by blast
    have "md_ok (md\<lparr>md_ht_gov := l\<rparr>)" for md using l(2) by (auto simp: md_ok_def)
    with Some o t True ln l(1) show ?thesis
      by (simp add: x86_read_ht_gov_metadata_def calm_ticked calm_ticked_md)
  qed (use Some o t in \<open>simp add: x86_read_ht_gov_metadata_def calm_ticked\<close>)
qed (simp add: x86_read_ht_gov_metadata_def)

lemma read_ht_metadata_returns: "\<exists>r w'. x86_read_ht_metadata E ht w = Some (r, w') \<and> calm w w'"
proof -
  from read_ht_cstate_returns obtain r w1 where 1: "x86_read_ht_cstate_metadata E ht w = Some (r, w1)" "calm w w1" by blast
  from read_ht_freq_returns obtain r2 w2 where 2: "x86_read_ht_freq_metadata E ht w1 = Some (r2, w2)" "calm w1 w2" by blast
  from read_ht_gov_returns obtain r3 w3 where 3: "x86_read_ht_gov_metadata E ht w2 = Some (r3, w3)" "calm w2 w3" by blast
  from 1 2 3 calm_trans [OF 1(2) 2(2)] show ?thesis by (auto simp: x86_read_ht_metadata_def intro: calm_trans)
qed

subsection \<open>The processors\<close>

lemma read_cpu_mask_returns:
  assumes "cpus \<noteq> 0" "unat cpus \<le> 2 ^ 31"
  shows "\<exists>m w'. read_cpu_mask E key cpus w = Some (m, w') \<and> calm w w' \<and> (\<forall>x. m = Some x \<longrightarrow> bitmask_full x \<and> used x = unat cpus)"
proof -
  obtain l w1 where l: "x86_read_line (path0 E key) w = (l, w1)" by (cases "x86_read_line (path0 E key) w")
  have t: "calm w w1" using l by (intro calm_ticked) (rule ticked_line)
  obtain m where m: "new_bitmask (unat cpus) = Some m" using assms(1) by (auto simp: new_bitmask_def unat_gt_0)
  with bits_of_new have b: "bitmask_full m" "used m = unat cpus" by blast+
  obtain m0 where m0: "BITMASK_CLEARALL m = Some m0" "bitmask_full m0" "used m0 = used m" using bits_of_CLEARALL [OF b(1)] by blast
  obtain r m' where "list_loop l 0 m0 = Some (r, m')" "same_shape m0 m'"
    using list_loop_returns [OF bitmask_full_wf [OF m0(2)], of l 0] m0 b(2) assms(2) by auto
  with m0 b have "x86_list_parse_bitmask l m = Some (r, m')" "bitmask_full m'" "used m' = unat cpus"
    by (simp_all add: x86_list_parse_bitmask_def same_shape_def bitmask_full_def)
  with l t m show ?thesis by (cases l) (simp_all add: read_cpu_mask_def)
qed

text \<open>What the masks of a system with at most \<open>M\<close> processors look like.\<close>

definition info_ok :: "nat \<Rightarrow> info_t \<Rightarrow> bool" where
  "info_ok M info \<longleftrightarrow>
     bitmask_full (cpu_mask_possible info) \<and> bitmask_full (cpu_mask_online info) \<and>
     used (cpu_mask_online info) = used (cpu_mask_possible info) \<and> used (cpu_mask_possible info) \<le> M"

lemma read_info_returns:
  assumes "healthy E M (sw_fs w)" "M \<le> 2 ^ 31"
  shows "\<exists>i w'. x86_read_info E w = Some (i, w') \<and> calm w w' \<and> (\<forall>x. i = Some x \<longrightarrow> info_ok M x)"
proof -
  obtain r v w1 where r: "x86_read_uint32 (path0 E ''kernel_max_path'') w = (r, v, w1)" by (cases "x86_read_uint32 (path0 E ''kernel_max_path'') w")
  have c1: "calm w w1" using r by (intro calm_ticked) (rule ticked_read32)
  show ?thesis
  proof (cases "r < 0")
    case False
    note assms(1) [unfolded healthy_def, THEN conjunct2, THEN conjunct2, THEN conjunct2, THEN conjunct2, THEN spec, THEN mp, OF refl]
    with r False obtain n where n: "v = Some n" "n \<noteq> 0" "unat n \<le> M" by (auto simp: not_less)
    note mask = read_cpu_mask_returns [OF n(2) order_trans [OF n(3) assms(2)]]
    from mask obtain m2 w2 where 2: "read_cpu_mask E ''cpu_possible_path'' n w1 = Some (m2, w2)" "calm w1 w2"
      "\<forall>x. m2 = Some x \<longrightarrow> bitmask_full x \<and> used x = unat n" by blast
    from mask obtain m3 w3 where 3: "read_cpu_mask E ''cpu_present_path'' n w2 = Some (m3, w3)" "calm w2 w3" by blast
    from mask obtain m4 w4 where 4: "read_cpu_mask E ''cpu_online_path'' n w3 = Some (m4, w4)" "calm w3 w4"
      "\<forall>x. m4 = Some x \<longrightarrow> bitmask_full x \<and> used x = unat n" by blast
    note c2 = calm_trans [OF c1 2(2)] note c3 = calm_trans [OF c2 3(2)] note c4 = calm_trans [OF c3 4(2)]
    let ?res = "case m2 of None \<Rightarrow> (None, w2) | Some a \<Rightarrow> (case m3 of None \<Rightarrow> (None, w3) | Some b \<Rightarrow> (case m4 of None \<Rightarrow> (None, w4)
      | Some c \<Rightarrow> (Some \<lparr>cpus_max = n, cpu_mask_possible = a, cpu_mask_present = b, cpu_mask_online = c\<rparr>, w4)))"
    have res: "x86_read_info E w = Some ?res"
      unfolding x86_read_info_def r n(1) by (simp add: False 2(1) 3(1) 4(1) split: option.split)
    have "calm w (snd ?res)" using c2 c3 c4 by (simp split: option.split)
    moreover have "info_ok M x" if "fst ?res = Some x" for x
      using that 2(3) 4(3) n(3) by (auto simp: info_ok_def split: option.splits)
    ultimately show ?thesis using res by (intro exI [of _ "fst ?res"] exI [of _ "snd ?res"]) simp
  qed (use r c1 in \<open>simp add: x86_read_info_def\<close>)
qed

end
