(* ===== verification/Topology.thy ===== *)
theory Topology
  imports Discovery Hint_Properties
begin

text \<open>
  Sockets, cores and hardware threads are found or made, and the invariant of \<open>Building\<close> is kept. Nothing
  stays outside of the hierarchy, and a name is never used twice.
\<close>

subsection \<open>Objects fresh from the plugin\<close>

lemmas construct_defs = construct_node_def construct_socket_def construct_mem_def construct_pplane_def construct_core_def construct_ht_def
  x86_construct_node_def x86_construct_socket_def x86_construct_mem_def x86_construct_pplane_def x86_construct_core_def x86_construct_ht_def
  x86_new_node_def x86_new_socket_def x86_new_mem_def x86_new_core_def

lemma construct_ready:
  fixes id' name
  defines "ob \<equiv> \<lambda>t. \<lparr>obj_type = t, obj_os_id = id', obj_name = name, obj_gnode = None\<rparr>"
  shows "\<exists>h. construct_node md (ob PWR_OBJ_NODE) = (0, h) \<and> hw_ready (ob PWR_OBJ_NODE) h"
    "\<exists>n. construct_socket md (ob PWR_OBJ_SOCKET) = (0, HwSocket n) \<and> hw_ready (ob PWR_OBJ_SOCKET) (HwSocket n)"
    "\<exists>n. construct_mem md (ob PWR_OBJ_MEM) = (0, HwMem n) \<and> hw_ready (ob PWR_OBJ_MEM) (HwMem n)"
    "\<exists>n. construct_pplane md (ob PWR_OBJ_POWER_PLANE) = (0, HwPplane n) \<and> hw_ready (ob PWR_OBJ_POWER_PLANE) (HwPplane n)"
    "\<exists>n. construct_core md (ob PWR_OBJ_CORE) = (0, HwCore n) \<and> hw_ready (ob PWR_OBJ_CORE) (HwCore n)"
    "\<exists>h. construct_ht md (ob PWR_OBJ_HT) = (0, h) \<and> hw_ready (ob PWR_OBJ_HT) h"
  by (simp_all add: construct_defs ob_def obj_t.defs)

lemma hw_types_simps [simp]:
  "PWR_OBJ_NODE \<in> hw_types" "PWR_OBJ_SOCKET \<in> hw_types" "PWR_OBJ_MEM \<in> hw_types" "PWR_OBJ_POWER_PLANE \<in> hw_types"
  "PWR_OBJ_CORE \<in> hw_types" "PWR_OBJ_HT \<in> hw_types"
  by (simp_all add: hw_types_def)

text \<open>Assignments to the structures of the plugin.\<close>

lemma set_hw_building:
  assumes b: "building p0 N L p" and a: "next_addr (pw_lib p0) \<le> a" "objs (pw_lib p) a = Some ob" "hw_ready ob h"
  shows "building p0 N L (set_hw a h p)"
proof -
  let ?B = "next_addr (pw_lib p0)" and ?p = "set_hw a h p"
  note K = buildingD [OF b] and G = grownD [OF buildingD(2) [OF b]]
  have lib: "pw_lib ?p = pw_lib p" "pw_h ?p = pw_h p" "pw_hints ?p = pw_hints p" by (simp_all add: set_hw_def)
  have "kept p0 ?p" using K(1) a(1) by (simp add: kept_def set_hw_def)
  moreover have "grown ?B L ?p"
  proof (rule grownI)
    show "new_obj_ok ?B L ?p b ob'" if "?B \<le> b" "objs (pw_lib ?p) b = Some ob'" for b ob'
      using G(5) [OF that(1)] that(2) a(2,3) by (auto simp: new_obj_ok_def lib) (auto simp: set_hw_def)
    show "name_ok ?B ?p n b" if "h_map (pw_h ?p) n = Some b" for n b
      using G(6) [of n b] that by (simp add: name_ok_def lib)
    show "new_node_ok ?B ?p g node" if "?B \<le> g" "gnodes (pw_lib ?p) g = Some node" for g node
      using G(7) [OF that(1)] that(2) by (simp add: new_node_ok_def lib)
  qed (use G(1-4,8) in \<open>simp_all add: lib root_ok_def\<close>)
  ultimately show ?thesis using K(3,4) by (simp add: building_def lib) (simp add: set_hw_def)
qed

lemma set_hw_sel [simp]:
  "pw_lib (set_hw a h p) = pw_lib p" "pw_h (set_hw a h p) = pw_h p" "xw_objs (pw_w (set_hw a h p)) = (xw_objs (pw_w p))(a \<mapsto> h)"
  "sw_fs (pw_w (set_hw a h p)) = sw_fs (pw_w p)"
  by (simp_all add: set_hw_def)

lemma building_obj:
  assumes "building p0 N L p" "next_addr (pw_lib p0) \<le> a" "objs (pw_lib p) a = Some ob"
  obtains h where "xw_objs (pw_w p) a = Some h" "hw_ready ob h" "obj_type ob \<in> hw_types" "a < next_addr (pw_lib p)"
proof -
  have "new_obj_ok (next_addr (pw_lib p0)) L p a ob" using grownD(5) [OF buildingD(2) [OF assms(1)] assms(2,3)] .
  moreover have "a < next_addr (pw_lib p)"
    using grownD(3) [OF buildingD(2) [OF assms(1)], of a] assms(3) by (metis linorder_not_less option.distinct(1))
  ultimately show ?thesis using that by (auto simp: new_obj_ok_def)
qed

text \<open>A member of a socket, a memory or a core is set; the structure stays ready.\<close>

lemma upd_socket_building:
  assumes b: "building p0 N L p" and a: "next_addr (pw_lib p0) \<le> a" "objs (pw_lib p) a = Some ob" "obj_type ob = PWR_OBJ_SOCKET"
    and f: "\<And>n. hw_ready ob (HwSocket n) \<Longrightarrow> \<exists>n'. f n = Some n' \<and> hw_ready ob (HwSocket n')"
  obtains p' where "upd_socket f a p = Some p'" "building p0 N L p'" "pw_lib p' = pw_lib p" "pw_h p' = pw_h p"
proof -
  obtain h where h: "xw_objs (pw_w p) a = Some h" "hw_ready ob h" by (rule building_obj [OF b a(1,2)])
  with a(3) obtain n where n: "h = HwSocket n" by (cases h) auto
  with h(2) f obtain n' where "f n = Some n'" "hw_ready ob (HwSocket n')" by blast
  with h(1) n set_hw_building [OF b a(1,2)] that [of "set_hw a (HwSocket n') p"] show ?thesis by (simp add: upd_socket_def)
qed

lemma upd_mem_building:
  assumes b: "building p0 N L p" and a: "next_addr (pw_lib p0) \<le> a" "objs (pw_lib p) a = Some ob" "obj_type ob = PWR_OBJ_MEM"
    and f: "\<And>n. hw_ready ob (HwMem n) \<Longrightarrow> \<exists>n'. f n = Some n' \<and> hw_ready ob (HwMem n')"
  obtains p' where "upd_mem f a p = Some p'" "building p0 N L p'" "pw_lib p' = pw_lib p" "pw_h p' = pw_h p"
proof -
  obtain h where h: "xw_objs (pw_w p) a = Some h" "hw_ready ob h" by (rule building_obj [OF b a(1,2)])
  with a(3) obtain n where n: "h = HwMem n" by (cases h) auto
  with h(2) f obtain n' where "f n = Some n'" "hw_ready ob (HwMem n')" by blast
  with h(1) n set_hw_building [OF b a(1,2)] that [of "set_hw a (HwMem n') p"] show ?thesis by (simp add: upd_mem_def)
qed

lemma upd_core_building:
  assumes b: "building p0 N L p" and a: "next_addr (pw_lib p0) \<le> a" "objs (pw_lib p) a = Some ob" "obj_type ob = PWR_OBJ_CORE"
    and f: "\<And>n. hw_ready ob (HwCore n) \<Longrightarrow> \<exists>n'. f n = Some n' \<and> hw_ready ob (HwCore n')"
  obtains p' where "upd_core f a p = Some p'" "building p0 N L p'" "pw_lib p' = pw_lib p" "pw_h p' = pw_h p"
proof -
  obtain h where h: "xw_objs (pw_w p) a = Some h" "hw_ready ob h" by (rule building_obj [OF b a(1,2)])
  with a(3) obtain n where n: "h = HwCore n" by (cases h) auto
  with h(2) f obtain n' where "f n = Some n'" "hw_ready ob (HwCore n')" by blast
  with h(1) n set_hw_building [OF b a(1,2)] that [of "set_hw a (HwCore n') p"] show ?thesis by (simp add: upd_core_def)
qed

subsection \<open>Names\<close>

text \<open>
  A memory is made together with its socket, and the threads are numbered from zero: \<open>k\<close> is the number of
  the next one.
\<close>

definition names_ok :: "nat \<Rightarrow> hierarchy_t \<Rightarrow> bool" where
  "names_ok k h \<longleftrightarrow>
     (\<forall>x. h_map h (''mem.'' @ show_nat x) \<noteq> None \<longrightarrow> h_map h (''socket.'' @ show_nat x) \<noteq> None) \<and>
     (\<forall>x. h_map h (''ht.'' @ show_nat x) \<noteq> None \<longrightarrow> x < k) \<and> h_tree h \<noteq> None"

text \<open>The map has grown by names that begin with one of the letters.\<close>

definition grows :: "char set \<Rightarrow> hierarchy_t \<Rightarrow> hierarchy_t \<Rightarrow> bool" where
  "grows cs h h' \<longleftrightarrow> h_tree h' = h_tree h \<and> (\<forall>n. h_map h' n \<noteq> None \<longrightarrow> h_map h n \<noteq> None \<or> hd n \<in> cs)"

lemma grows_refl [simp]: "grows cs h h"
  by (simp add: grows_def)

lemma grows_trans: "grows cs h h' \<Longrightarrow> grows ds h' h'' \<Longrightarrow> grows (cs \<union> ds) h h''"
  by (simp add: grows_def) blast

lemma grows_fresh: "grows cs h h' \<Longrightarrow> hd n \<notin> cs \<Longrightarrow> h_map h n = None \<Longrightarrow> h_map h' n = None"
  unfolding grows_def by blast

text \<open>An object of a given type that is part of the hierarchy.\<close>

definition hooked :: "nat \<Rightarrow> pwr \<Rightarrow> int \<Rightarrow> addr \<Rightarrow> bool" where
  "hooked B p t a \<longleftrightarrow> B \<le> a \<and> (\<exists>ob. objs (pw_lib p) a = Some ob \<and> obj_type ob = t \<and> obj_gnode ob \<noteq> None)"

lemma type_letter_inj: "t \<in> hw_types \<Longrightarrow> u \<in> hw_types \<Longrightarrow> type_letter t = type_letter u \<longleftrightarrow> t = u"
  by (auto simp: type_letter_def hw_types_def)

lemma type_letter_simps [simp]:
  "type_letter PWR_OBJ_NODE = CHR ''n''" "type_letter PWR_OBJ_SOCKET = CHR ''s''" "type_letter PWR_OBJ_MEM = CHR ''m''"
  "type_letter PWR_OBJ_POWER_PLANE = CHR ''p''" "type_letter PWR_OBJ_CORE = CHR ''c''" "type_letter PWR_OBJ_HT = CHR ''h''"
  by (simp_all add: type_letter_def)

lemma named_hooked:
  assumes "building p0 N L p" "h_map (pw_h p) n = Some a" "hd n = type_letter t" "t \<in> hw_types"
  shows "hooked (next_addr (pw_lib p0)) p t a"
proof -
  have "name_ok (next_addr (pw_lib p0)) p n a" using grownD(6) [OF buildingD(2) [OF assms(1)] assms(2)] .
  then obtain ob where ob: "next_addr (pw_lib p0) \<le> a" "objs (pw_lib p) a = Some ob" "obj_gnode ob \<noteq> None" "hd n = type_letter (obj_type ob)"
    by (auto simp: name_ok_def)
  have "obj_type ob \<in> hw_types" by (rule building_obj [OF assms(1) ob(1,2)])
  with ob(4) assms(3,4) have "obj_type ob = t" using type_letter_inj by metis
  with ob show ?thesis by (auto simp: hooked_def)
qed

lemma hooked_parent:
  assumes "building p0 N L p" "hooked (next_addr (pw_lib p0)) p t a"
  obtains g where "obj_node a p = Some (Some g)" "parent_ok (next_addr (pw_lib p0)) p (Some g)"
proof -
  from assms(2) obtain ob g where ob: "next_addr (pw_lib p0) \<le> a" "objs (pw_lib p) a = Some ob" "obj_gnode ob = Some g"
    by (auto simp: hooked_def)
  have "new_obj_ok (next_addr (pw_lib p0)) L p a ob" using grownD(5) [OF buildingD(2) [OF assms(1)] ob(1,2)] .
  with ob that [of g] show ?thesis by (auto simp: obj_node_def parent_ok_def new_obj_ok_def)
qed

lemma root_parent:
  assumes "building p0 N L p" "names_ok k (pw_h p)"
  shows "parent_ok (next_addr (pw_lib p0)) p (h_tree (pw_h p))"
  using grownD(8) [OF buildingD(2) [OF assms(1)]] assms(2) by (auto simp: names_ok_def parent_ok_def root_ok_def split: option.split)

lemma inserted_hooked:
  assumes "inserted p parent a ob p'" "hooked B p t b" "objs (pw_lib p) a = Some ob"
  shows "hooked B p' t b"
  using assms by (auto simp: inserted_def hooked_def)

lemma building_fs: "building p0 N L p \<Longrightarrow> sw_fs (pw_w p) = sw_fs (pw_w p0)"
  by (simp add: building_def kept_def)

subsection \<open>Sockets\<close>

lemma link_socket_building:
  assumes h: "healthy E M (sw_fs (pw_w p0))" and b: "building p0 N {sa, ma} p" and n: "names_ok k (pw_h p)"
    and sa: "next_addr (pw_lib p0) \<le> sa" "objs (pw_lib p) sa = Some \<lparr>obj_type = PWR_OBJ_SOCKET, obj_os_id = sid, obj_name = socket_name_of sid, obj_gnode = None\<rparr>"
    and ma: "next_addr (pw_lib p0) \<le> ma" "objs (pw_lib p) ma = Some \<lparr>obj_type = PWR_OBJ_MEM, obj_os_id = sid, obj_name = ''mem.'' @ show_nat (unat sid), obj_gnode = None\<rparr>"
    and new: "h_map (pw_h p) (socket_name_of sid) = None" "sa \<noteq> ma"
  shows "\<exists>r p'. link_socket E sid sa ma p = Some (r, p') \<and> building p0 N {} p' \<and> names_ok k (pw_h p') \<and>
    grows {CHR ''s'', CHR ''m''} (pw_h p) (pw_h p') \<and> (\<forall>a. r = Some a \<longrightarrow> hooked (next_addr (pw_lib p0)) p' PWR_OBJ_SOCKET a)"
proof -
  let ?B = "next_addr (pw_lib p0)" and ?mem = "''mem.'' @ show_nat (unat sid)"
  from find_rapl_id_returns [of E M "pw_w p" sid 0 0] h building_fs [OF b] obtain e pkg mem w1 where
    r: "x86_find_rapl_id E sid 0 0 (pw_w p) = Some (e, pkg, mem, w1)" "ticked (pw_w p) w1" by auto
  let ?p = "p\<lparr>pw_w := w1\<rparr>"
  have b1: "building p0 N {sa, ma} ?p" using building_calm [OF b calm_ticked [OF r(2)]] .
  show ?thesis
  proof (cases "e = 0")
    case False
    have sa1: "objs (pw_lib ?p) sa = Some \<lparr>obj_type = PWR_OBJ_SOCKET, obj_os_id = sid, obj_name = socket_name_of sid, obj_gnode = None\<rparr>" using sa(2) by simp
    obtain p2 where p2: "DEL_OBJ sa ?p = Some p2" "building p0 N ({sa, ma} - {sa}) p2" "pw_h p2 = pw_h ?p" "objs (pw_lib p2) = (objs (pw_lib ?p))(sa := None)"
      by (rule DEL_OBJ_building [OF b1 sa(1) sa1]) simp
    have ma1: "objs (pw_lib p2) ma = Some \<lparr>obj_type = PWR_OBJ_MEM, obj_os_id = sid, obj_name = ?mem, obj_gnode = None\<rparr>" using ma(2) new(2) p2(4) by simp
    obtain p3 where p3: "DEL_OBJ ma p2 = Some p3" "building p0 N ({sa, ma} - {sa} - {ma}) p3" "pw_h p3 = pw_h p2"
      by (rule DEL_OBJ_building [OF p2(2) ma(1) ma1]) simp
    have "{sa, ma} - {sa} - {ma} = {}" by blast
    then have "building p0 N {} p3" using p3(2) by metis
    with p3(1,3) p2(1,3) r False n show ?thesis by (simp add: link_socket_def)
  next
    case True
    obtain p2 where p2: "upd_socket (set_rapl_socket pkg) sa ?p = Some p2" "building p0 N {sa, ma} p2" "pw_lib p2 = pw_lib ?p" "pw_h p2 = pw_h ?p"
      by (rule upd_socket_building [where f = "set_rapl_socket pkg", OF b1 sa(1)]) (use sa(2) in \<open>auto simp: set_rapl_socket_def\<close>)
    obtain p3 where p3: "upd_mem (set_rapl_mem pkg mem) ma p2 = Some p3" "building p0 N {sa, ma} p3" "pw_lib p3 = pw_lib p2" "pw_h p3 = pw_h p2"
      by (rule upd_mem_building [where f = "set_rapl_mem pkg mem", OF p2(2) ma(1)]) (use ma(2) p2(3) in \<open>auto simp: set_rapl_mem_def\<close>)
    have n3: "names_ok k (pw_h p3)" and h3: "pw_h p3 = pw_h p" using n p2(4) p3(4) by simp_all
    have sa3: "objs (pw_lib p3) sa = Some \<lparr>obj_type = PWR_OBJ_SOCKET, obj_os_id = sid, obj_name = socket_name_of sid, obj_gnode = None\<rparr>" using sa(2) p3(3) p2(3) by simp
    obtain p4 where p4: "hierarchy_insert (h_tree (pw_h p3)) (Some sa) p3 = Some (PWR_RET_SUCCESS, p4)" "building p0 N ({sa, ma} - {sa}) p4"
      "inserted p3 (h_tree (pw_h p3)) sa \<lparr>obj_type = PWR_OBJ_SOCKET, obj_os_id = sid, obj_name = socket_name_of sid, obj_gnode = None\<rparr> p4"
      by (rule hierarchy_insert_building [OF p3(2) sa(1) sa3 _ _ _ _ root_parent [OF p3(2) n3]])
        (use new(1) h3 n3 in \<open>simp_all add: socket_name_of_def names_ok_def\<close>)
    have tree4: "h_tree (pw_h p4) = h_tree (pw_h p)" using p4(3) n h3 by (auto simp: inserted_def names_ok_def)
    have hk: "hooked ?B p4 PWR_OBJ_SOCKET sa" using p4(3) sa(1) by (simp add: inserted_def hooked_def)
    obtain g where g: "obj_node sa p4 = Some (Some g)" "parent_ok ?B p4 (Some g)" by (rule hooked_parent [OF p4(2) hk])
    have freshm: "h_map (pw_h p) ?mem = None" using n new(1) unfolding names_ok_def socket_name_of_def by blast
    have obm: "objs (pw_lib p4) ma = Some \<lparr>obj_type = PWR_OBJ_MEM, obj_os_id = sid, obj_name = ?mem, obj_gnode = None\<rparr>"
      using p4(3) ma(2) new(2) p3(3) p2(3) by (simp add: inserted_def)
    obtain p5 where p5: "hierarchy_insert (Some g) (Some ma) p4 = Some (PWR_RET_SUCCESS, p5)" "building p0 N ({sa, ma} - {sa} - {ma}) p5"
      "inserted p4 (Some g) ma \<lparr>obj_type = PWR_OBJ_MEM, obj_os_id = sid, obj_name = ?mem, obj_gnode = None\<rparr> p5"
      by (rule hierarchy_insert_building [OF p4(2) ma(1) obm _ _ _ _ g(2)])
        (use freshm p4(3) h3 in \<open>simp_all add: inserted_def socket_name_of_def\<close>)
    have L: "{sa, ma} - {sa} - {ma} = {}" by blast
    have b5: "building p0 N {} p5" using p5(2) L by metis
    have map5: "h_map (pw_h p5) = (h_map (pw_h p))(socket_name_of sid \<mapsto> sa, ?mem \<mapsto> ma)" and tree5: "h_tree (pw_h p5) = h_tree (pw_h p)"
      using p4(3) p5(3) h3 tree4 by (simp_all add: inserted_def)
    have n5: "names_ok k (pw_h p5)"
      using n by (auto simp: names_ok_def map5 tree5 socket_name_of_def)
    have gr: "grows {CHR ''s'', CHR ''m''} (pw_h p) (pw_h p5)"
      by (auto simp: grows_def map5 tree5 socket_name_of_def)
    have hk5: "hooked ?B p5 PWR_OBJ_SOCKET sa" by (rule inserted_hooked [OF p5(3) hk obm])
    from read_socket_metadata_returns [of E M "pw_w p5"] h building_fs [OF p5(2)] obtain r2 w2 where
      md: "x86_read_socket_metadata E (pw_w p5) = Some (r2, w2)" "calm (pw_w p5) w2" by auto
    have b6: "building p0 N {} (p5\<lparr>pw_w := w2\<rparr>)" by (rule building_calm [OF b5 md(2)])
    have hk6: "hooked ?B (p5\<lparr>pw_w := w2\<rparr>) PWR_OBJ_SOCKET sa" using hk5 by (simp add: hooked_def)
    have "link_socket E sid sa ma p = Some (Some sa, if sid = 0 then p5\<lparr>pw_w := w2\<rparr> else p5)"
      using r(1) True p2(1) p3(1) p4(1) g(1) p5(1) md(1) by (simp add: link_socket_def)
    then show ?thesis using b6 hk6 hk5 gr n5 b5 by auto
  qed
qed

lemma find_socket_building:
  assumes h: "healthy E M (sw_fs (pw_w p0))" and b: "building p0 (Suc (Suc N)) {} p" and n: "names_ok k (pw_h p)"
  shows "\<exists>r p'. x86_find_socket E sid ht p = Some (r, p') \<and> building p0 N {} p' \<and> names_ok k (pw_h p') \<and>
    grows {CHR ''s'', CHR ''m''} (pw_h p) (pw_h p') \<and> (\<forall>a. r = Some a \<longrightarrow> hooked (next_addr (pw_lib p0)) p' PWR_OBJ_SOCKET a)"
proof (cases "h_map (pw_h p) (socket_name_of sid)")
  case (Some a)
  have "hooked (next_addr (pw_lib p0)) p PWR_OBJ_SOCKET a"
    by (rule named_hooked [OF b Some]) (simp_all add: socket_name_of_def)
  with Some b n building_mono [OF b, of N] show ?thesis by (simp add: x86_find_socket_def)
next
  case None
  let ?B = "next_addr (pw_lib p0)" and ?sa = "next_addr (pw_lib p)" and ?mem = "''mem.'' @ show_nat (unat sid)"
  obtain hs where hs: "construct_socket (xw_md (pw_w p)) \<lparr>obj_type = PWR_OBJ_SOCKET, obj_os_id = sid, obj_name = socket_name_of sid, obj_gnode = None\<rparr> = (0, HwSocket hs)"
    "hw_ready \<lparr>obj_type = PWR_OBJ_SOCKET, obj_os_id = sid, obj_name = socket_name_of sid, obj_gnode = None\<rparr> (HwSocket hs)"
    using construct_ready(2) by blast
  obtain p1 where p1: "NEW_OBJ PWR_OBJ_SOCKET construct_socket sid (socket_name_of sid) p = Some (Some ?sa, p1)"
    "building p0 (Suc N) (insert ?sa {}) p1" "pw_h p1 = pw_h p"
    "objs (pw_lib p1) = (objs (pw_lib p))(?sa \<mapsto> \<lparr>obj_type = PWR_OBJ_SOCKET, obj_os_id = sid, obj_name = socket_name_of sid, obj_gnode = None\<rparr>)"
    "next_addr (pw_lib p1) = Suc ?sa"
    by (rule NEW_OBJ_building [where constr = construct_socket and t = PWR_OBJ_SOCKET, OF b hs]) auto
  obtain hm where hm: "construct_mem (xw_md (pw_w p1)) \<lparr>obj_type = PWR_OBJ_MEM, obj_os_id = sid, obj_name = ?mem, obj_gnode = None\<rparr> = (0, HwMem hm)"
    "hw_ready \<lparr>obj_type = PWR_OBJ_MEM, obj_os_id = sid, obj_name = ?mem, obj_gnode = None\<rparr> (HwMem hm)"
    using construct_ready(3) by blast
  let ?ma = "next_addr (pw_lib p1)"
  obtain p2 where p2: "NEW_OBJ PWR_OBJ_MEM construct_mem sid ?mem p1 = Some (Some ?ma, p2)"
    "building p0 N (insert ?ma (insert ?sa {})) p2" "pw_h p2 = pw_h p1"
    "objs (pw_lib p2) = (objs (pw_lib p1))(?ma \<mapsto> \<lparr>obj_type = PWR_OBJ_MEM, obj_os_id = sid, obj_name = ?mem, obj_gnode = None\<rparr>)"
    by (rule NEW_OBJ_building [where constr = construct_mem and t = PWR_OBJ_MEM, OF p1(2) hm]) auto
  have le: "?B \<le> ?sa" using buildingD(1) [OF b] by (simp add: kept_def)
  have ob: "objs (pw_lib p2) ?sa = Some \<lparr>obj_type = PWR_OBJ_SOCKET, obj_os_id = sid, obj_name = socket_name_of sid, obj_gnode = None\<rparr>"
    "objs (pw_lib p2) ?ma = Some \<lparr>obj_type = PWR_OBJ_MEM, obj_os_id = sid, obj_name = ?mem, obj_gnode = None\<rparr>"
    using p2(4) p1(4,5) by simp_all
  obtain p3 where p3: "upd_socket (\<lambda>n. Some (n\<lparr>socket_ht_id := ht\<rparr>)) ?sa p2 = Some p3" "building p0 N (insert ?ma (insert ?sa {})) p3"
    "pw_lib p3 = pw_lib p2" "pw_h p3 = pw_h p2"
    by (rule upd_socket_building [where f = "\<lambda>n. Some (n\<lparr>socket_ht_id := ht\<rparr>)", OF p2(2) le ob(1)]) auto
  have le2: "?B \<le> ?ma" using le p1(5) by simp
  obtain p4 where p4: "upd_mem (\<lambda>n. Some (n\<lparr>mem_ht_id := ht\<rparr>)) ?ma p3 = Some p4" "building p0 N (insert ?ma (insert ?sa {})) p4"
    "pw_lib p4 = pw_lib p3" "pw_h p4 = pw_h p3"
    by (rule upd_mem_building [where f = "\<lambda>n. Some (n\<lparr>mem_ht_id := ht\<rparr>)", OF p3(2) le2]) (use ob(2) p3(3) in auto)
  have eq: "insert ?ma (insert ?sa {}) = {?sa, ?ma}" by blast
  have hh: "pw_h p4 = pw_h p" using p1(3) p2(3) p3(4) p4(4) by simp
  have "\<exists>r p'. link_socket E sid ?sa ?ma p4 = Some (r, p') \<and> building p0 N {} p' \<and> names_ok k (pw_h p') \<and>
    grows {CHR ''s'', CHR ''m''} (pw_h p4) (pw_h p') \<and> (\<forall>a. r = Some a \<longrightarrow> hooked ?B p' PWR_OBJ_SOCKET a)"
    by (rule link_socket_building [OF h p4(2) [unfolded eq] _ le _ le2]) (use n hh None ob p3(3) p4(3) p1(5) in simp_all)
  moreover have "x86_find_socket E sid ht p = link_socket E sid ?sa ?ma p4"
    using None p1(1) p2(1) p3(1) p4(1) by (simp add: x86_find_socket_def new_socket_def new_mem_def)
  ultimately show ?thesis using hh by simp
qed

subsection \<open>Cores and hardware threads\<close>

lemma hooked_lib [simp]: "hooked B (p\<lparr>pw_w := w\<rparr>) = hooked B p"
  by (simp add: hooked_def fun_eq_iff)

lemma hooked_same: "pw_lib p' = pw_lib p \<Longrightarrow> hooked B p' = hooked B p"
  by (simp add: hooked_def fun_eq_iff)

lemma hooked_new:
  assumes "building p0 N L p" "hooked B p t a" "objs (pw_lib p') = (objs (pw_lib p))(next_addr (pw_lib p) \<mapsto> ob)"
  shows "hooked B p' t a"
proof -
  have "a \<noteq> next_addr (pw_lib p)" using grownD(3) [OF buildingD(2) [OF assms(1)] order_refl] assms(2) by (auto simp: hooked_def)
  with assms(2,3) show ?thesis by (simp add: hooked_def)
qed

lemma names_grow:
  assumes "names_ok k h" "h_map h' = (h_map h)(n \<mapsto> a)" "h_tree h' = h_tree h" "hd n \<notin> {CHR ''m'', CHR ''h''}" "n \<noteq> []"
  shows "names_ok k h'" "grows {hd n} h h'"
  using assms by (auto simp: names_ok_def grows_def)

lemma find_core_building:
  assumes h: "healthy E M (sw_fs (pw_w p0))" and b: "building p0 (Suc (Suc (Suc N))) {} p" and n: "names_ok k (pw_h p)"
  shows "\<exists>r p'. x86_find_core E cid sid ht p = Some (r, p') \<and> building p0 N {} p' \<and> names_ok k (pw_h p') \<and>
    grows {CHR ''s'', CHR ''m'', CHR ''c''} (pw_h p) (pw_h p') \<and> (\<forall>a. r = Some a \<longrightarrow> hooked (next_addr (pw_lib p0)) p' PWR_OBJ_CORE a)"
proof (cases "h_map (pw_h p) (core_name_of sid cid)")
  case (Some a)
  have "hooked (next_addr (pw_lib p0)) p PWR_OBJ_CORE a"
    by (rule named_hooked [OF b Some]) (simp_all add: core_name_of_def)
  with Some n building_mono [OF b, of N] show ?thesis by (simp add: x86_find_core_def)
next
  case None
  let ?B = "next_addr (pw_lib p0)" and ?ob = "\<lparr>obj_type = PWR_OBJ_CORE, obj_os_id = cid, obj_name = core_name_of sid cid, obj_gnode = None\<rparr>"
  from find_socket_building [OF h b n, of sid ht] obtain r p1 where p1: "x86_find_socket E sid ht p = Some (r, p1)"
    "building p0 (Suc N) {} p1" "names_ok k (pw_h p1)" "grows {CHR ''s'', CHR ''m''} (pw_h p) (pw_h p1)"
    "\<forall>a. r = Some a \<longrightarrow> hooked ?B p1 PWR_OBJ_SOCKET a" by blast
  show ?thesis
  proof (cases r)
    case None
    have "grows {CHR ''s'', CHR ''m'', CHR ''c''} (pw_h p) (pw_h p1)" using p1(4) unfolding grows_def by blast
    with None p1(1,3) building_mono [OF p1(2), of N] \<open>h_map (pw_h p) _ = None\<close> show ?thesis by (simp add: x86_find_core_def)
  next
    case (Some sa)
    with p1(5) have sa: "hooked ?B p1 PWR_OBJ_SOCKET sa" by blast
    obtain hc where hc: "construct_core (xw_md (pw_w p1)) ?ob = (0, HwCore hc)" "hw_ready ?ob (HwCore hc)"
      using construct_ready(5) by blast
    let ?ca = "next_addr (pw_lib p1)"
    have le: "?B \<le> ?ca" using buildingD(1) [OF p1(2)] by (simp add: kept_def)
    obtain p2 where p2: "NEW_OBJ PWR_OBJ_CORE construct_core cid (core_name_of sid cid) p1 = Some (Some ?ca, p2)"
      "building p0 N (insert ?ca {}) p2" "pw_h p2 = pw_h p1" "objs (pw_lib p2) = (objs (pw_lib p1))(?ca \<mapsto> ?ob)"
      by (rule NEW_OBJ_building [where constr = construct_core and t = PWR_OBJ_CORE, OF p1(2) hc]) auto
    have ob2: "objs (pw_lib p2) ?ca = Some ?ob" using p2(4) by simp
    obtain p3 where p3: "upd_core (\<lambda>n. Some (n\<lparr>core_socket_id := sid\<rparr>)) ?ca p2 = Some p3" "building p0 N (insert ?ca {}) p3"
      "pw_lib p3 = pw_lib p2" "pw_h p3 = pw_h p2"
      by (rule upd_core_building [where f = "\<lambda>n. Some (n\<lparr>core_socket_id := sid\<rparr>)", OF p2(2) le ob2]) auto
    have sa3: "hooked ?B p3 PWR_OBJ_SOCKET sa"
      using hooked_new [OF p1(2) sa p2(4)] by (simp add: hooked_same [OF p3(3)])
    obtain g where g: "obj_node sa p3 = Some (Some g)" "parent_ok ?B p3 (Some g)" by (rule hooked_parent [OF p3(2) sa3])
    have ob3: "objs (pw_lib p3) ?ca = Some ?ob" using ob2 p3(3) by simp
    have fresh: "h_map (pw_h p3) (core_name_of sid cid) = None"
      using grows_fresh [OF p1(4) _ None] p2(3) p3(4) by (simp add: core_name_of_def)
    obtain p4 where p4: "hierarchy_insert (Some g) (Some ?ca) p3 = Some (PWR_RET_SUCCESS, p4)" "building p0 N (insert ?ca {} - {?ca}) p4"
      "inserted p3 (Some g) ?ca ?ob p4"
      by (rule hierarchy_insert_building [OF p3(2) le ob3 _ _ _ _ g(2)]) (use fresh in \<open>simp_all add: core_name_of_def\<close>)
    have map4: "h_map (pw_h p4) = (h_map (pw_h p1))(core_name_of sid cid \<mapsto> ?ca)" "h_tree (pw_h p4) = h_tree (pw_h p1)"
      using p4(3) p2(3) p3(4) by (simp_all add: inserted_def)
    have n4: "names_ok k (pw_h p4)" and gr: "grows {CHR ''c''} (pw_h p1) (pw_h p4)"
      using names_grow [OF p1(3) map4] by (simp_all add: core_name_of_def)
    have "hooked ?B p4 PWR_OBJ_CORE ?ca" using p4(3) le by (simp add: inserted_def hooked_def)
    moreover have "{CHR ''s'', CHR ''m''} \<union> {CHR ''c''} = {CHR ''s'', CHR ''m'', CHR ''c''}" by blast
    with grows_trans [OF p1(4) gr] have "grows {CHR ''s'', CHR ''m'', CHR ''c''} (pw_h p) (pw_h p4)" by metis
    moreover have "x86_find_core E cid sid ht p = Some (Some ?ca, p4)"
      using None p1(1) Some p2(1) p3(1) g(1) p4(1) by (simp add: x86_find_core_def new_core_def)
    ultimately show ?thesis using p4(2) n4 by simp
  qed
qed

lemma read_topology_id_building:
  assumes "building p0 N L p"
  obtains v p' where "read_topology_id E ht file p = (v, p')" "building p0 N L p'" "pw_h p' = pw_h p"
proof -
  obtain r v w where r: "x86_read_uint64 (path_fmt E ''topology_path'' [ArgLu ht, ArgS file]) (pw_w p) = (r, v, w)"
    by (cases "x86_read_uint64 (path_fmt E ''topology_path'' [ArgLu ht, ArgS file]) (pw_w p)")
  from building_calm [OF assms calm_ticked [OF ticked_read64 [OF r]]] r that show ?thesis by (simp add: read_topology_id_def)
qed

lemma find_ht_building:
  assumes h: "healthy E M (sw_fs (pw_w p0))" and b: "building p0 (N + 4) {} p" and n: "names_ok (unat ht) (pw_h p)"
  shows "\<exists>r p'. x86_find_ht E ht p = Some (r, p') \<and> building p0 N {} p' \<and> names_ok (Suc (unat ht)) (pw_h p')"
proof -
  let ?B = "next_addr (pw_lib p0)" and ?name = "''ht.'' @ show_nat (unat ht)"
  let ?ob = "\<lparr>obj_type = PWR_OBJ_HT, obj_os_id = ht, obj_name = ?name, obj_gnode = None\<rparr>"
  obtain sid p1 where p1: "read_topology_id E ht ''physical_package_id'' p = (sid, p1)" "building p0 (N + 4) {} p1" "pw_h p1 = pw_h p"
    by (rule read_topology_id_building [OF b])
  obtain cid p2 where p2: "read_topology_id E ht ''core_id'' p1 = (cid, p2)" "building p0 (N + 4) {} p2" "pw_h p2 = pw_h p1"
    by (rule read_topology_id_building [OF p1(2)])
  have b2: "building p0 (Suc (Suc (Suc (Suc N)))) {} p2" using p2(2) by (simp add: numeral_eq_Suc)
  have n2: "names_ok (unat ht) (pw_h p2)" using n p1(3) p2(3) by simp
  from find_core_building [OF h b2 n2, of cid sid ht] obtain r p3 where
    p3: "x86_find_core E cid sid ht p2 = Some (r, p3)" "building p0 (Suc N) {} p3" "names_ok (unat ht) (pw_h p3)"
    "\<forall>a. r = Some a \<longrightarrow> hooked ?B p3 PWR_OBJ_CORE a" by blast
  show ?thesis
  proof (cases r)
    case None
    have "names_ok (Suc (unat ht)) (pw_h p3)" using p3(3) by (auto simp: names_ok_def less_Suc_eq)
    with None p1(1) p2(1) p3(1) building_mono [OF p3(2), of N] show ?thesis by (simp add: x86_find_ht_def)
  next
    case (Some ca)
    with p3(4) have ca: "hooked ?B p3 PWR_OBJ_CORE ca" by blast
    obtain hh where hh: "construct_ht (xw_md (pw_w p3)) ?ob = (0, hh)" "hw_ready ?ob hh" using construct_ready(6) by blast
    let ?ha = "next_addr (pw_lib p3)"
    have le: "?B \<le> ?ha" using buildingD(1) [OF p3(2)] by (simp add: kept_def)
    obtain p4 where p4: "NEW_OBJ PWR_OBJ_HT construct_ht ht ?name p3 = Some (Some ?ha, p4)"
      "building p0 N (insert ?ha {}) p4" "pw_h p4 = pw_h p3" "objs (pw_lib p4) = (objs (pw_lib p3))(?ha \<mapsto> ?ob)"
      by (rule NEW_OBJ_building [where constr = construct_ht and t = PWR_OBJ_HT, OF p3(2) hh]) auto
    have ob4: "objs (pw_lib p4) ?ha = Some ?ob" using p4(4) by simp
    obtain g where g: "obj_node ca p4 = Some (Some g)" "parent_ok ?B p4 (Some g)"
      by (rule hooked_parent [OF p4(2) hooked_new [OF p3(2) ca p4(4)]])
    have fresh: "h_map (pw_h p3) ?name = None" using p3(3) by (metis less_irrefl names_ok_def)
    obtain p5 where p5: "hierarchy_insert (Some g) (Some ?ha) p4 = Some (PWR_RET_SUCCESS, p5)" "building p0 N (insert ?ha {} - {?ha}) p5"
      "inserted p4 (Some g) ?ha ?ob p5"
      by (rule hierarchy_insert_building [OF p4(2) le ob4 _ _ _ _ g(2)]) (use fresh p4(3) in simp_all)
    have "names_ok (Suc (unat ht)) (pw_h p5)"
      using p3(3) p5(3) p4(3) by (auto simp: names_ok_def inserted_def less_Suc_eq show_nat_eq)
    moreover have "x86_find_ht E ht p = Some (Some ?ha, p5)"
      using p1(1) p2(1) p3(1) Some p4(1) g(1) p5(1) by (simp add: x86_find_ht_def new_ht_def)
    ultimately show ?thesis using p5(2) by simp
  qed
qed

text \<open>The loop over the processors takes at most four keys for each.\<close>

lemma topology_loop_building:
  assumes h: "healthy E M (sw_fs (pw_w p0))"
    and masks: "info_ok M' info" "\<forall>i \<in> set is'. i < used (cpu_mask_possible info)"
    and b: "building p0 (N + 4 * length is') {} p" and n: "names_ok (unat ht) (pw_h p)" and small: "unat ht + length is' < 2 ^ 64"
  shows "\<exists>r k p'. topology_loop E info is' ht st p = Some (r, p') \<and> building p0 N {} p' \<and> names_ok k (pw_h p')"
  using masks(2) b n small
proof (induction is' arbitrary: ht p)
  case (Cons i is')
  have "i div 64 < BITBLOCK_NUM (used (cpu_mask_possible info))" using Cons.prems(1) by (auto simp: block_defs)
  with masks(1) obtain pb ob where t: "BITMASK_TEST (cpu_mask_possible info) i = Some pb" "BITMASK_TEST (cpu_mask_online info) i = Some ob"
    by (auto simp: info_ok_def bitmask_full_def BITMASK_TEST_bit)
  have b1: "building p0 (N + 4 * length is') {} p" by (rule building_mono [OF Cons.prems(2)]) simp
  have s1: "unat ht + length is' < 2 ^ 64" using Cons.prems(4) by simp
  have suc: "unat (ht + 1) = Suc (unat ht)" using Cons.prems(4) by (simp add: unat_word_ariths)
  have n1: "names_ok (unat (ht + 1)) (pw_h p)" using Cons.prems(3) by (auto simp: names_ok_def suc less_Suc_eq)
  show ?case
  proof (cases "pb \<and> ob")
    case False
    with t Cons.IH [OF _ b1 Cons.prems(3) s1] Cons.IH [OF _ b1 n1] Cons.prems(1,4) show ?thesis by (auto simp: suc)
  next
    case True
    have "building p0 (N + 4 * length is' + 4) {} p" using Cons.prems(2) by (simp add: add.commute add.left_commute)
    from find_ht_building [OF h this Cons.prems(3)] obtain r p1 where
      p1: "x86_find_ht E ht p = Some (r, p1)" "building p0 (N + 4 * length is') {} p1" "names_ok (Suc (unat ht)) (pw_h p1)" by blast
    show ?thesis
    proof (cases r)
      case None
      with True t p1(1,3) building_mono [OF p1(2), of N] show ?thesis by auto
    next
      case (Some ha)
      with True t p1 Cons.IH [OF _ p1(2), of "ht + 1"] Cons.prems(1,4) show ?thesis by (auto simp: suc)
    qed
  qed
qed auto

end
