(* ===== verification/Construction.thy ===== *)
theory Construction
  imports Topology
begin

text \<open>
  The rest of the construction of a hierarchy: the temperature files, \<^verbatim>\<open>x86_construct_hierarchy\<close>, and the
  release of a hierarchy whose construction has failed.
\<close>

subsection \<open>Topology\<close>

lemma read_topology_building:
  assumes h: "healthy E M (sw_fs (pw_w p0))" and info: "info_ok M info" "M \<le> 2 ^ 31"
    and b: "building p0 (N + 4 * M) {} p" and n: "names_ok 0 (pw_h p)"
  shows "\<exists>r k p'. x86_read_topology E cpu info p = Some (r, p') \<and> building p0 N {} p' \<and> names_ok k (pw_h p')"
proof -
  from read_ht_metadata_returns obtain r w where r: "x86_read_ht_metadata E (word_of_int cpu) (pw_w p) = Some (r, w)" "calm (pw_w p) w" by blast
  let ?p = "if cpu < 0 then p else p\<lparr>pw_w := w\<rparr>" and ?is = "[0..<used (cpu_mask_possible info)]"
  have "building p0 (N + 4 * M) {} ?p" using b building_calm [OF b r(2)] by simp
  then have b1: "building p0 (N + 4 * length ?is) {} ?p" by (rule building_mono) (use info(1) in \<open>simp add: info_ok_def\<close>)
  have n1: "names_ok (unat (0 :: 64 word)) (pw_h ?p)" using n by simp
  have "unat (0 :: 64 word) + length ?is < 2 ^ 64" "\<forall>i \<in> set ?is. i < used (cpu_mask_possible info)"
    using info by (simp_all add: info_ok_def)
  with topology_loop_building [OF h info(1) _ b1 n1] obtain r' k p' where
    "topology_loop E info ?is 0 (if cpu < 0 then PWR_RET_FAILURE else r) ?p = Some (r', p')" "building p0 N {} p'" "names_ok k (pw_h p')"
    by blast
  with r(1) show ?thesis by (auto simp: x86_read_topology_def split: if_splits)
qed

subsection \<open>Temperatures\<close>

lemma str_to_val_value: "x86_str_to_val s pre suf = (0, v) \<Longrightarrow> \<exists>n. v = Some n"
  by (auto simp: x86_str_to_val_def split: if_splits option.splits)

lemma set_temp_ready:
  "hw_ready ob (HwCore n) \<Longrightarrow> \<exists>n'. set_temp_core t i m n = Some n' \<and> hw_ready ob (HwCore n')"
  "hw_ready ob (HwSocket k) \<Longrightarrow> \<exists>n'. set_temp_socket t i m k = Some n' \<and> hw_ready ob (HwSocket n')"
  by (auto simp: set_temp_core_def set_temp_socket_def)

text \<open>What reading the temperature files keeps.\<close>

definition warmed :: "pwr \<Rightarrow> nat \<Rightarrow> pwr \<Rightarrow> pwr \<Rightarrow> bool" where
  "warmed p0 N p p' \<longleftrightarrow> building p0 N {} p' \<and> pw_lib p' = pw_lib p \<and> pw_h p' = pw_h p"

lemma warmed_trans: "warmed p0 N p p' \<Longrightarrow> warmed p0 N p' p'' \<Longrightarrow> warmed p0 N p p''"
  by (simp add: warmed_def)

lemma warmed_calm: "building p0 N {} p \<Longrightarrow> calm (pw_w p) w \<Longrightarrow> warmed p0 N p (p\<lparr>pw_w := w\<rparr>)"
  using building_calm by (simp add: warmed_def)

lemma upd_core_warmed:
  assumes "building p0 N {} p" "hooked (next_addr (pw_lib p0)) p PWR_OBJ_CORE a"
  obtains p' where "upd_core (set_temp_core t i m) a p = Some p'" "warmed p0 N p p'"
proof -
  from assms(2) obtain ob where ob: "next_addr (pw_lib p0) \<le> a" "objs (pw_lib p) a = Some ob" "obj_type ob = PWR_OBJ_CORE"
    by (auto simp: hooked_def)
  show ?thesis
    by (rule upd_core_building [where f = "set_temp_core t i m", OF assms(1) ob set_temp_ready(1)]) (use that in \<open>auto simp: warmed_def\<close>)
qed

lemma upd_socket_warmed:
  assumes "building p0 N {} p" "hooked (next_addr (pw_lib p0)) p PWR_OBJ_SOCKET a"
  obtains p' where "upd_socket (set_temp_socket t i m) a p = Some p'" "warmed p0 N p p'"
proof -
  from assms(2) obtain ob where ob: "next_addr (pw_lib p0) \<le> a" "objs (pw_lib p) a = Some ob" "obj_type ob = PWR_OBJ_SOCKET"
    by (auto simp: hooked_def)
  show ?thesis
    by (rule upd_socket_building [where f = "set_temp_socket t i m", OF assms(1) ob set_temp_ready(2)]) (use that in \<open>auto simp: warmed_def\<close>)
qed

lemma scan_temp_entry_warmed:
  assumes b: "building p0 N {} p" and sa: "hooked (next_addr (pw_lib p0)) p PWR_OBJ_SOCKET sa"
  shows "\<exists>f p'. scan_temp_entry sa dir name p = Some (f, p') \<and> warmed p0 N p p'"
proof -
  obtain r v where r: "x86_str_to_val name ''temp'' ''_label'' = (r, v)" by fastforce
  show ?thesis
  proof (cases "r = 0")
    case False
    with r have "scan_temp_entry sa dir name p = Some (False, p)" by (simp add: scan_temp_entry_def)
    then show ?thesis using b by (auto simp: warmed_def)
  next
    case True
    with r str_to_val_value obtain id' where v: "v = Some id'" by blast
    let ?label = "dir @ ''/'' @ name"
    obtain buf w where buf: "x86_read_line (Some ?label) (pw_w p) = (buf, w)" by fastforce
    let ?p = "p\<lparr>pw_w := w\<rparr>"
    have b1: "building p0 N {} ?p" and w1: "warmed p0 N p ?p"
      using building_calm [OF b calm_ticked [OF ticked_line [OF buf]]] by (simp_all add: warmed_def)
    have sa1: "hooked (next_addr (pw_lib p0)) ?p PWR_OBJ_SOCKET sa" using sa by simp
    from sa obtain ob where ob: "objs (pw_lib p) sa = Some ob" by (auto simp: hooked_def)
    show ?thesis
    proof (cases buf)
      case None
      with r True v buf have "scan_temp_entry sa dir name p = Some (True, ?p)" by (simp add: scan_temp_entry_def Let_def)
      with w1 show ?thesis by blast
    next
      case (Some line)
      obtain r2 v2 where r2: "x86_str_to_val line ''Core '' [] = (r2, v2)" by fastforce
      obtain r3 v3 where r3: "x86_str_to_val line ''Physical id '' [] = (r3, v3)" by fastforce
      let ?in = "dir @ ''/temp'' @ show_nat (unat id') @ ''_input''" and ?mx = "dir @ ''/temp'' @ show_nat (unat id') @ ''_crit''"
      show ?thesis
      proof (cases "r2 = 0")
        case True2: True
        with r2 str_to_val_value obtain cid where v2: "v2 = Some cid" by blast
        let ?name = "''core.'' @ show_ld (obj_os_id ob) @ ''.'' @ show_ld cid"
        show ?thesis
        proof (cases "h_map (pw_h p) ?name")
          case None
          with r True v buf Some r2 True2 v2 ob have "scan_temp_entry sa dir name p = Some (True, ?p)" by (simp add: scan_temp_entry_def Let_def)
          with w1 show ?thesis by blast
        next
          case found: (Some ca)
          have "hooked (next_addr (pw_lib p0)) ?p PWR_OBJ_CORE ca" by (rule named_hooked [OF b1, where n = ?name]) (use found in simp_all)
          with upd_core_warmed [OF b1] obtain p2 where p2: "upd_core (set_temp_core id' ?in ?mx) ca ?p = Some p2" "warmed p0 N ?p p2" by metis
          with r True v buf Some r2 True2 v2 ob found have "scan_temp_entry sa dir name p = Some (True, p2)" by (simp add: scan_temp_entry_def Let_def)
          with warmed_trans [OF w1 p2(2)] show ?thesis by blast
        qed
      next
        case False
        from upd_socket_warmed [OF b1 sa1] obtain p2 where p2: "upd_socket (set_temp_socket id' ?in ?mx) sa ?p = Some p2" "warmed p0 N ?p p2" by metis
        with r True v buf Some r2 False r3 ob have
          "scan_temp_entry sa dir name p = Some (True, if r3 = 0 \<and> v3 = Some (obj_os_id ob) then p2 else ?p)"
          by (simp add: scan_temp_entry_def Let_def)
        moreover have "warmed p0 N p (if r3 = 0 \<and> v3 = Some (obj_os_id ob) then p2 else ?p)"
          using w1 warmed_trans [OF w1 p2(2)] by simp
        ultimately show ?thesis by blast
      qed
    qed
  qed
qed

lemma warmed_hooked: "warmed p0 N p p' \<Longrightarrow> hooked B p' = hooked B p"
  by (rule hooked_same) (simp add: warmed_def)

lemma warmed_building: "warmed p0 N p p' \<Longrightarrow> building p0 N {} p'"
  by (simp add: warmed_def)

lemma warmed_refl: "building p0 N {} p \<Longrightarrow> warmed p0 N p p"
  by (simp add: warmed_def)

lemma scan_temp_loop_warmed:
  assumes "building p0 N {} p" "hooked (next_addr (pw_lib p0)) p PWR_OBJ_SOCKET sa"
  shows "\<exists>f p'. scan_temp_loop sa dir names n p = Some (f, p') \<and> warmed p0 N p p'"
  using assms
proof (induction names arbitrary: n p)
  case (Cons name names)
  from scan_temp_entry_warmed [OF Cons.prems] obtain f p1 where 1: "scan_temp_entry sa dir name p = Some (f, p1)" "warmed p0 N p p1" by blast
  from Cons.IH [OF warmed_building [OF 1(2)]] Cons.prems(2) warmed_hooked [OF 1(2)] obtain f2 p2 where
    "scan_temp_loop sa dir names (if f then Suc n else n) p1 = Some (f2, p2)" "warmed p0 N p1 p2" by metis
  with 1 warmed_trans [OF 1(2)] show ?case by simp
qed (simp add: warmed_refl)

lemma scan_temp_dir_warmed:
  assumes b: "building p0 N {} p" and sa: "hooked (next_addr (pw_lib p0)) p PWR_OBJ_SOCKET sa"
  shows "\<exists>f p'. x86_scan_temp_dir sa dir p = Some (f, p') \<and> warmed p0 N p p'"
proof -
  obtain es w where o: "opendir dir (pw_w p) = (es, w)" by fastforce
  have w1: "warmed p0 N p (p\<lparr>pw_w := w\<rparr>)" using warmed_calm [OF b calm_ticked [OF ticked_opendir [OF o]]] .
  show ?thesis
  proof (cases es)
    case (Some entries)
    from scan_temp_loop_warmed [OF warmed_building [OF w1], of sa dir "map fst entries" 0] sa obtain f p' where
      "scan_temp_loop sa dir (map fst entries) 0 (p\<lparr>pw_w := w\<rparr>) = Some (f, p')" "warmed p0 N (p\<lparr>pw_w := w\<rparr>) p'" by auto
    with o Some warmed_trans [OF w1] show ?thesis by (simp add: x86_scan_temp_dir_def)
  qed (use o w1 in \<open>simp add: x86_scan_temp_dir_def\<close>)
qed

lemma temp_ids_loop_warmed:
  assumes "building p0 N {} p"
  shows "\<exists>e p'. temp_ids_loop dir names err p = Some (e, p') \<and> warmed p0 N p p'"
  using assms
proof (induction names arbitrary: err p)
  case (Cons name names)
  obtain r v where r: "x86_str_to_val name ''hwmon'' [] = (r, v)" by fastforce
  show ?case
  proof (cases "r = 0")
    case False
    with Cons.IH [OF Cons.prems] r show ?thesis by simp
  next
    case True
    with r str_to_val_value obtain sid where v: "v = Some sid" by blast
    show ?thesis
    proof (cases "h_map (pw_h p) (''socket.'' @ show_ld sid)")
      case None
      with Cons.IH [OF Cons.prems] r True v show ?thesis by simp
    next
      case (Some sa)
      have sa: "hooked (next_addr (pw_lib p0)) p PWR_OBJ_SOCKET sa" by (rule named_hooked [OF Cons.prems Some]) simp_all
      from scan_temp_dir_warmed [OF Cons.prems sa] obtain f p1 where
        1: "x86_scan_temp_dir sa (dir @ ''/'' @ name @ ''/device'') p = Some (f, p1)" "warmed p0 N p p1" by blast
      have sa1: "hooked (next_addr (pw_lib p0)) p1 PWR_OBJ_SOCKET sa" using sa warmed_hooked [OF 1(2)] by metis
      from scan_temp_dir_warmed [OF warmed_building [OF 1(2)] sa1] obtain f2 p2 where
        2: "x86_scan_temp_dir sa (dir @ ''/'' @ name) p1 = Some (f2, p2)" "warmed p0 N p1 p2" by blast
      show ?thesis
      proof (cases "f = 0")
        case False
        with Cons.IH [OF warmed_building [OF 1(2)], of err] 1 r True v Some warmed_trans [OF 1(2)] show ?thesis by auto
      next
        case zero: True
        from Cons.IH [OF warmed_building [OF 2(2)], of "if f2 \<noteq> 0 then err else 1"] obtain e p3 where
          "temp_ids_loop dir names (if f2 \<noteq> 0 then err else 1) p2 = Some (e, p3)" "warmed p0 N p2 p3" by blast
        with 1 2 zero r True v Some warmed_trans [OF warmed_trans [OF 1(2) 2(2)]] show ?thesis by simp
      qed
    qed
  qed
qed (simp add: warmed_refl)

subsection \<open>Walks over the tree\<close>

lemma those_the: "(\<forall>x \<in> set xs. f x \<noteq> None) \<Longrightarrow> those (map f xs) = Some (map (\<lambda>x. the (f x)) xs)"
  by (induction xs) auto

text \<open>A walk reaches only nodes, and with a node its children.\<close>

lemma tree_nodes_walk:
  assumes G: "\<And>g node d. B \<le> g \<Longrightarrow> gnodes s g = Some node \<Longrightarrow> d \<in> set (gn_children node) \<Longrightarrow> g < d \<and> gnodes s d \<noteq> None"
    and top: "\<And>g. gnodes s g \<noteq> None \<Longrightarrow> g < next_addr s"
    and g: "B \<le> g" "gnodes s g \<noteq> None" "next_addr s - g \<le> n"
  shows "\<exists>ns. tree_nodes n s g = Some ns \<and> g \<in> set ns \<and> (\<forall>x \<in> set ns. B \<le> x \<and> gnodes s x \<noteq> None \<and>
    (\<forall>node. gnodes s x = Some node \<longrightarrow> set (gn_children node) \<subseteq> set ns))"
  using g
proof (induction n arbitrary: g)
  case 0
  with top [of g] show ?case by simp
next
  case (Suc n)
  from Suc.prems(2) obtain node where node: "gnodes s g = Some node" by blast
  let ?f = "tree_nodes n s" and ?ok = "\<lambda>ns. \<forall>x \<in> set ns. B \<le> x \<and> gnodes s x \<noteq> None \<and> (\<forall>node. gnodes s x = Some node \<longrightarrow> set (gn_children node) \<subseteq> set ns)"
  have kid: "\<exists>ns. ?f d = Some ns \<and> d \<in> set ns \<and> ?ok ns" if "d \<in> set (gn_children node)" for d
  proof (rule Suc.IH)
    from G [OF Suc.prems(1) node that] have d: "g < d" "gnodes s d \<noteq> None" by blast+
    with Suc.prems show "B \<le> d" "gnodes s d \<noteq> None" "next_addr s - d \<le> n" by simp_all
  qed
  then have "\<forall>d \<in> set (gn_children node). ?f d \<noteq> None" by blast
  then have all: "tree_nodes (Suc n) s g = Some (g # concat (map (\<lambda>d. the (?f d)) (gn_children node)))"
    by (simp add: node those_the)
  let ?ns = "g # concat (map (\<lambda>d. the (?f d)) (gn_children node))"
  have kids: "set (gn_children node) \<subseteq> set ?ns" using kid by fastforce
  have "B \<le> x \<and> gnodes s x \<noteq> None \<and> (\<forall>nd. gnodes s x = Some nd \<longrightarrow> set (gn_children nd) \<subseteq> set ?ns)" if x: "x \<in> set ?ns" for x
  proof (cases "x = g")
    case True
    with Suc.prems(1) node kids show ?thesis by simp
  next
    case False
    with x obtain d where d: "d \<in> set (gn_children node)" "x \<in> set (the (?f d))" by auto
    from kid [OF d(1)] obtain ns where ns: "?f d = Some ns" "?ok ns" by blast
    have sub: "set ns \<subseteq> set ?ns" using d(1) ns(1) by auto
    from ns d(2) have "B \<le> x" "gnodes s x \<noteq> None" "\<forall>nd. gnodes s x = Some nd \<longrightarrow> set (gn_children nd) \<subseteq> set ns" by auto
    with sub show ?thesis by blast
  qed
  with all show ?case by auto
qed

lemma grown_walk:
  assumes "grown B L p" "B \<le> g" "gnodes (pw_lib p) g \<noteq> None"
  shows "\<exists>ns. tree_nodes (next_addr (pw_lib p)) (pw_lib p) g = Some ns \<and> g \<in> set ns \<and> (\<forall>x \<in> set ns. B \<le> x \<and> gnodes (pw_lib p) x \<noteq> None \<and>
    (\<forall>node. gnodes (pw_lib p) x = Some node \<longrightarrow> set (gn_children node) \<subseteq> set ns))"
proof (rule tree_nodes_walk [OF _ _ assms(2,3)])
  show "x < d \<and> gnodes (pw_lib p) d \<noteq> None" if "B \<le> x" "gnodes (pw_lib p) x = Some node" "d \<in> set (gn_children node)" for x node d
    using grownD(7) [OF assms(1) that(1,2)] that(3) by (auto simp: new_node_ok_def)
  show "x < next_addr (pw_lib p)" if "gnodes (pw_lib p) x \<noteq> None" for x
    using grownD(3) [OF assms(1), of x] that by (meson linorder_not_less)
qed simp

text \<open>Every node of the new tree is reached from its root.\<close>

lemma grown_walk_all:
  assumes G: "grown B L p" and r: "h_tree (pw_h p) = Some r" and ns: "r \<in> set ns"
    "\<forall>x \<in> set ns. \<forall>node. gnodes (pw_lib p) x = Some node \<longrightarrow> set (gn_children node) \<subseteq> set ns"
  shows "B \<le> g \<Longrightarrow> gnodes (pw_lib p) g \<noteq> None \<Longrightarrow> g \<in> set ns"
proof (induction g rule: less_induct)
  case (less g)
  then obtain node where "gnodes (pw_lib p) g = Some node" by blast
  with grownD(7) [OF G less.prems(1)] have "new_node_ok B p g node" by blast
  then consider "h_tree (pw_h p) = Some g" | pg pn where "B \<le> pg" "pg < g" "gnodes (pw_lib p) pg = Some pn" "g \<in> set (gn_children pn)"
    unfolding new_node_ok_def by blast
  then show ?case
  proof cases
    case 1
    with r ns(1) show ?thesis by simp
  next
    case 2
    from less.IH [OF 2(2,1)] 2(3) have "pg \<in> set ns" by simp
    with ns(2) 2(3,4) show ?thesis by blast
  qed
qed

lemma check_temp_id_returns:
  assumes b: "building p0 N {} p" and g: "next_addr (pw_lib p0) \<le> g" "gnodes (pw_lib p) g \<noteq> None"
  shows "x86_check_temp_id p g \<noteq> None"
proof -
  from g(2) obtain node where node: "gnodes (pw_lib p) g = Some node" by blast
  from grownD(7) [OF buildingD(2) [OF b] g(1) node] obtain ob where
    ob: "next_addr (pw_lib p0) \<le> gn_data node" "objs (pw_lib p) (gn_data node) = Some ob" by (auto simp: new_node_ok_def)
  obtain h where h: "xw_objs (pw_w p) (gn_data node) = Some h" "hw_ready ob h" by (rule building_obj [OF b ob])
  show ?thesis
    using node ob(2) h by (cases h) (auto simp: x86_check_temp_id_def)
qed

lemma read_temp_ids_warmed:
  assumes b: "building p0 N {} p"
  shows "\<exists>e p'. x86_read_temp_ids E p = Some (e, p') \<and> warmed p0 N p p'"
proof (cases "path0 E ''sysfs_hwmon''")
  case (Some dir)
  obtain es w where o: "opendir dir (pw_w p) = (es, w)" by fastforce
  have w1: "warmed p0 N p (p\<lparr>pw_w := w\<rparr>)" using warmed_calm [OF b calm_ticked [OF ticked_opendir [OF o]]] .
  show ?thesis
  proof (cases es)
    case None
    with Some o w1 show ?thesis by (simp add: x86_read_temp_ids_def)
  next
    case entries: (Some entries)
    from temp_ids_loop_warmed [OF warmed_building [OF w1], of dir "map fst entries" 0] obtain e p1 where
      l: "temp_ids_loop dir (map fst entries) 0 (p\<lparr>pw_w := w\<rparr>) = Some (e, p1)" "warmed p0 N (p\<lparr>pw_w := w\<rparr>) p1" by blast
    have w2: "warmed p0 N p p1" using warmed_trans [OF w1 l(2)] .
    note b1 = warmed_building [OF w2]
    show ?thesis
    proof (cases "e = 0 \<and> h_tree (pw_h p1) \<noteq> None")
      case False
      with Some o entries l(1) w2 show ?thesis by (auto simp: x86_read_temp_ids_def split: option.split)
    next
      case True
      then obtain r where r: "h_tree (pw_h p1) = Some r" by blast
      with grownD(8) [OF buildingD(2) [OF b1]] have ok: "next_addr (pw_lib p0) \<le> r" "gnodes (pw_lib p1) r \<noteq> None" by (auto simp: root_ok_def)
      from grown_walk [OF buildingD(2) [OF b1] ok] obtain ns where
        ns: "tree_nodes (next_addr (pw_lib p1)) (pw_lib p1) r = Some ns" "\<forall>x \<in> set ns. next_addr (pw_lib p0) \<le> x \<and> gnodes (pw_lib p1) x \<noteq> None"
        by blast
      have "\<forall>x \<in> set ns. x86_check_temp_id p1 x \<noteq> None" using check_temp_id_returns [OF b1] ns(2) by blast
      note those_the [OF this]
      with Some o entries l(1) True r ns(1) w2 show ?thesis by (auto simp: x86_read_temp_ids_def)
    qed
  qed
qed (use warmed_refl [OF b] in \<open>simp add: x86_read_temp_ids_def\<close>)

lemma read_hierarchy_building:
  assumes h: "healthy E M (sw_fs (pw_w p0))" "M \<le> 2 ^ 31" and b: "building p0 (N + 4 * M) {} p" and n: "names_ok 0 (pw_h p)"
  shows "\<exists>r p'. x86_read_hierarchy E cpu p = Some (r, p') \<and> building p0 N {} p' \<and> h_tree (pw_h p') \<noteq> None"
proof -
  from read_info_returns [of E M "pw_w p"] h building_fs [OF b] obtain i w where
    i: "x86_read_info E (pw_w p) = Some (i, w)" "calm (pw_w p) w" "\<forall>x. i = Some x \<longrightarrow> info_ok M x" by auto
  let ?p = "p\<lparr>pw_w := w\<rparr>"
  have b1: "building p0 (N + 4 * M) {} ?p" by (rule building_calm [OF b i(2)])
  show ?thesis
  proof (cases i)
    case None
    with i(1) building_mono [OF b1, of N] n show ?thesis by (auto simp: x86_read_hierarchy_def names_ok_def)
  next
    case (Some info)
    with i(3) have "info_ok M info" by blast
    from read_topology_building [OF h(1) this h(2) b1, of cpu] n obtain r k p1 where
      t: "x86_read_topology E cpu info ?p = Some (r, p1)" "building p0 N {} p1" "names_ok k (pw_h p1)" by auto
    from read_temp_ids_warmed [OF t(2), of E] obtain e p2 where 2: "x86_read_temp_ids E p1 = Some (e, p2)" "warmed p0 N p1 p2" by blast
    from i(1) Some t(1) 2(1) have "x86_read_hierarchy E cpu p =
        (if r \<noteq> 0 then Some (PWR_RET_FAILURE, p1) else Some (if e \<noteq> 0 then PWR_RET_FAILURE else PWR_RET_SUCCESS, p2))"
      by (simp add: x86_read_hierarchy_def)
    with t(2,3) 2(2) show ?thesis by (auto simp: warmed_def names_ok_def)
  qed
qed

subsection \<open>The construction\<close>

lemma add_pplane_building:
  assumes b: "building p0 (Suc N) {} p" and n: "names_ok k (pw_h p)" "h_map (pw_h p) name = None" "name \<noteq> []" "hd name = CHR ''p''"
    and g: "parent_ok (next_addr (pw_lib p0)) p (Some g)"
  shows "\<exists>a p'. add_pplane id' name sub (Some g) p = Some (0, p') \<and> building p0 N {} p' \<and> names_ok k (pw_h p') \<and>
    h_map (pw_h p') = (h_map (pw_h p))(name \<mapsto> a) \<and> parent_ok (next_addr (pw_lib p0)) p' (Some g)"
proof -
  let ?B = "next_addr (pw_lib p0)" and ?ob = "\<lparr>obj_type = PWR_OBJ_POWER_PLANE, obj_os_id = id', obj_name = name, obj_gnode = None\<rparr>"
  let ?a = "next_addr (pw_lib p)"
  obtain hp where hp: "construct_pplane (xw_md (pw_w p)) ?ob = (0, HwPplane hp)" "hw_ready ?ob (HwPplane hp)"
    using construct_ready(4) by blast
  have le: "?B \<le> ?a" using buildingD(1) [OF b] by (simp add: kept_def)
  obtain p2 where p2: "NEW_OBJ PWR_OBJ_POWER_PLANE construct_pplane id' name p = Some (Some ?a, p2)"
    "building p0 N (insert ?a {}) p2" "pw_h p2 = pw_h p" "objs (pw_lib p2) = (objs (pw_lib p))(?a \<mapsto> ?ob)"
    "gnodes (pw_lib p2) = gnodes (pw_lib p)" "xw_objs (pw_w p2) = (xw_objs (pw_w p))(?a \<mapsto> HwPplane hp)"
    by (rule NEW_OBJ_building [where constr = construct_pplane and t = PWR_OBJ_POWER_PLANE, OF b hp]) auto
  have ob2: "objs (pw_lib p2) ?a = Some ?ob" using p2(4) by simp
  let ?hw = "HwPplane (hp\<lparr>pplane_sub_type := sub\<rparr>)"
  let ?p3 = "set_hw ?a ?hw p2"
  have p3: "building p0 N (insert ?a {}) ?p3" by (rule set_hw_building [OF p2(2) le ob2]) (use hp(2) in simp)
  have g3: "parent_ok ?B ?p3 (Some g)" using g p2(5) by (simp add: parent_ok_def)
  have ob3: "objs (pw_lib ?p3) ?a = Some ?ob" using ob2 by simp
  obtain p4 where p4: "hierarchy_insert (Some g) (Some ?a) ?p3 = Some (PWR_RET_SUCCESS, p4)" "building p0 N (insert ?a {} - {?a}) p4"
    "inserted ?p3 (Some g) ?a ?ob p4"
    by (rule hierarchy_insert_building [OF p3 le ob3 _ _ _ _ g3]) (use n p2(3) in simp_all)
  have map4: "h_map (pw_h p4) = (h_map (pw_h p))(name \<mapsto> ?a)" "h_tree (pw_h p4) = h_tree (pw_h p)"
    using p4(3) p2(3) by (simp_all add: inserted_def)
  have "names_ok k (pw_h p4)" using names_grow(1) [OF n(1) map4] n(3,4) by simp
  moreover have "gnodes (pw_lib p4) g \<noteq> None"
    using p4(3) g3 by (simp add: inserted_def parent_ok_def)
  moreover have "add_pplane id' name sub (Some g) p = Some (0, p4)"
    using p2(1,6) p4(1) by (simp add: add_pplane_def new_pplane_def upd_pplane_def)
  ultimately show ?thesis using p4(2) map4(1) g by (auto simp: parent_ok_def)
qed

lemma pm_counters_returns:
  assumes "healthy E M (sw_fs w)"
  shows "\<exists>r w'. x86_read_pm_counters_metadata E w = Some (r, w') \<and> calm w w'"
proof -
  obtain st v ts w1 where r: "read_uint64_from_file (pe_lib E) (path0 E ''node_update_rate_path'') False w = (st, v, ts, w1)"
    by (cases "read_uint64_from_file (pe_lib E) (path0 E ''node_update_rate_path'') False w")
  note assms [unfolded healthy_def, THEN conjunct1, THEN spec, THEN mp, OF refl]
  with r have "st = 0 \<longrightarrow> v \<noteq> 0" by simp
  with r show ?thesis
    using calm_ticked [OF ticked_uint64 [OF r]] calm_ticked_md [OF ticked_uint64 [OF r]] by (simp add: x86_read_pm_counters_metadata_def)
qed

lemma node_metadata_calm: "calm w (snd (x86_read_node_metadata E w))"
proof -
  obtain st c ts w1 where r: "read_string_from_file (pe_lib E) (path0 E ''procfs_cname'') False w = (st, c, ts, w1)"
    by (cases "read_string_from_file (pe_lib E) (path0 E ''procfs_cname'') False w")
  obtain st2 v ts2 w2 where r2: "read_uint64_from_file (pe_lib E) (path0 E ''procfs_nid'') False w1 = (st2, v, ts2, w2)"
    by (cases "read_uint64_from_file (pe_lib E) (path0 E ''procfs_nid'') False w1")
  note t = ticked_string [OF r] ticked_trans [OF ticked_string [OF r] ticked_uint64 [OF r2]]
  show ?thesis using r r2 t calm_ticked calm_ticked_md by (simp add: x86_read_node_metadata_def Let_def split: if_splits)
qed

lemma construct_hierarchy_building:
  assumes h: "healthy (e_penv V) M (sw_fs (pw_w p))" "M \<le> 2 ^ 31" and b: "building p (N + 4 * M + 3) {} p" and e: "pw_h p = empty_hierarchy"
  shows "\<exists>st p'. x86_construct_hierarchy V p = Some (st, p') \<and> building p N {} p' \<and> (st = 0 \<longrightarrow> h_tree (pw_h p') \<noteq> None)"
proof -
  let ?E = "e_penv V" and ?B = "next_addr (pw_lib p)"
  have start: "h_tree (pw_h p) = None" "h_map (pw_h p) = Map.empty" using e by (simp_all add: empty_hierarchy_def)
  have objs0: "hierarchy_objs (pw_h p) (pw_lib p) = []"
    unfolding hierarchy_objs_def by (simp add: start(2) filter_empty_conv split: option.split)
  let ?w0 = "set_md (\<lambda>_. x86_metadata_zero) (pw_w p)"
  have c0: "calm (pw_w p) ?w0" by (rule calm_set_md) simp
  have "sw_fs ?w0 = sw_fs (pw_w p)" using c0 by (simp add: calm_def)
  with h(1) pm_counters_returns [of ?E M ?w0] obtain r w1 where
    r: "x86_read_pm_counters_metadata ?E ?w0 = Some (r, w1)" "calm ?w0 w1" by auto
  let ?p1 = "p\<lparr>pw_w := w1\<rparr>"
  have b1: "building p (N + 4 * M + 3) {} ?p1" by (rule building_calm [OF b calm_trans [OF c0 r(2)]])
  show ?thesis
  proof (cases "r = 0")
    case False
    have "x86_construct_hierarchy V p = Some (PWR_RET_FAILURE, ?p1)"
      using start(1) objs0 r(1) False by (simp add: x86_construct_hierarchy_def Let_def)
    with building_mono [OF b1, of N] show ?thesis by simp
  next
    case True
    let ?ob = "\<lparr>obj_type = PWR_OBJ_NODE, obj_os_id = 0, obj_name = ''node.0'', obj_gnode = None\<rparr>" and ?na = "next_addr (pw_lib ?p1)"
    obtain hn where hn: "construct_node (xw_md (pw_w ?p1)) ?ob = (0, hn)" "hw_ready ?ob hn" using construct_ready(1) by blast
    have b1': "building p (Suc (N + 4 * M + 2)) {} ?p1" using b1 by (simp add: numeral_eq_Suc)
    obtain p2 where p2: "NEW_OBJ PWR_OBJ_NODE construct_node 0 ''node.0'' ?p1 = Some (Some ?na, p2)"
      "building p (N + 4 * M + 2) (insert ?na {}) p2" "pw_h p2 = pw_h ?p1" "objs (pw_lib p2) = (objs (pw_lib ?p1))(?na \<mapsto> ?ob)"
      by (rule NEW_OBJ_building [where constr = construct_node and t = PWR_OBJ_NODE, OF b1' hn]) auto
    have le: "?B \<le> ?na" by simp
    have ob2: "objs (pw_lib p2) ?na = Some ?ob" using p2(4) by simp
    have par: "parent_ok ?B p2 None" using p2(3) start(1) by (simp add: parent_ok_def)
    obtain p3 where p3: "hierarchy_insert None (Some ?na) p2 = Some (PWR_RET_SUCCESS, p3)" "building p (N + 4 * M + 2) (insert ?na {} - {?na}) p3"
      "inserted p2 None ?na ?ob p3"
      by (rule hierarchy_insert_building [OF p2(2) le ob2 _ _ _ _ par]) (use start(2) p2(3) in simp_all)
    let ?p4 = "p3\<lparr>pw_w := snd (x86_read_node_metadata ?E (pw_w p3))\<rparr>"
    have b4: "building p (N + 4 * M + 2) {} ?p4" by (rule building_calm [OF _ node_metadata_calm]) (use p3(2) in simp)
    have map4: "h_map (pw_h ?p4) = [''node.0'' \<mapsto> ?na]" "h_tree (pw_h ?p4) \<noteq> None" using p3(3) p2(3) start(2) by (simp_all add: inserted_def)
    have n4: "names_ok 0 (pw_h ?p4)" using map4 by (simp add: names_ok_def)
    have hk: "hooked ?B ?p4 PWR_OBJ_NODE ?na" using p3(3) by (simp add: inserted_def hooked_def)
    obtain g where g: "obj_node ?na ?p4 = Some (Some g)" "parent_ok ?B ?p4 (Some g)" by (rule hooked_parent [OF b4 hk])
    have b4': "building p (Suc (N + 4 * M + 1)) {} ?p4" using b4 by (simp add: numeral_eq_Suc)
    have "h_map (pw_h ?p4) ''pm_counters.cpu.0'' = None" by (simp only: map4) simp
    from add_pplane_building [OF b4' n4 this _ _ g(2), of 0 PWR_OBJ_SOCKET] obtain a5 p5 where
      p5: "add_pplane 0 ''pm_counters.cpu.0'' PWR_OBJ_SOCKET (Some g) ?p4 = Some (0, p5)" "building p (N + 4 * M + 1) {} p5" "names_ok 0 (pw_h p5)"
      "h_map (pw_h p5) = (h_map (pw_h ?p4))(''pm_counters.cpu.0'' \<mapsto> a5)" "parent_ok ?B p5 (Some g)" by auto
    have b5: "building p (Suc (N + 4 * M)) {} p5" using p5(2) by simp
    have "h_map (pw_h p5) ''pm_counters.mem.0'' = None" by (simp only: p5(4) map4) simp
    from add_pplane_building [OF b5 p5(3) this _ _ p5(5), of 1 PWR_OBJ_MEM] obtain p6 where
      p6: "add_pplane 1 ''pm_counters.mem.0'' PWR_OBJ_MEM (Some g) p5 = Some (0, p6)" "building p (N + 4 * M) {} p6" "names_ok 0 (pw_h p6)" by auto
    from read_hierarchy_building [OF h p6(2,3), of "e_cpu V"] obtain st p7 where
      p7: "x86_read_hierarchy ?E (e_cpu V) p6 = Some (st, p7)" "building p N {} p7" "h_tree (pw_h p7) \<noteq> None" by blast
    have "x86_construct_hierarchy V p = Some (st, p7)"
      using start(1) objs0 r(1) True p2(1) p3(1) g(1) p5(1) p6(1) p7(1)
      by (simp add: x86_construct_hierarchy_def new_node_def Let_def)
    with p7 show ?thesis by simp
  qed
qed

subsection \<open>Releasing what has been constructed\<close>

definition undone :: "pwr \<Rightarrow> nat \<Rightarrow> pwr \<Rightarrow> bool" where
  "undone p0 N p \<longleftrightarrow>
     kept p0 p \<and> opaque_inv (pw_lib p) \<and> opaque_map (pw_lib p) \<noteq> None \<and> ample N (pw_lib p) \<and> md_ok (xw_md (pw_w p)) \<and>
     (\<forall>a\<ge>next_addr (pw_lib p0). refs (pw_lib p) a = None \<and> objs (pw_lib p) a = None \<and> gnodes (pw_lib p) a = None)"

lemma destruct_hierarchy_returns:
  assumes "md_ok (xw_md w)"
  shows "x86_destruct_hierarchy w = Some (0, set_md (\<lambda>_. x86_metadata_zero) w)"
proof -
  from assms obtain vs where vs: "string_holds (md_ht_gov (xw_md w)) vs" by (auto simp: md_ok_def)
  then have "get_cell (ls_list (md_ht_gov (xw_md w))) i \<noteq> None" if "i < ls_num (md_ht_gov (xw_md w))" for i
    using get_cell_hold [OF vs [unfolded string_holds_def] that] by simp
  then show ?thesis by (simp add: x86_destruct_hierarchy_def pwr_list_free_string_def Let_def)
qed

text \<open>The objects made are released one after the other; the set of those that are left is \<open>A\<close>.\<close>

definition releasing :: "pwr \<Rightarrow> nat \<Rightarrow> addr set \<Rightarrow> pwr \<Rightarrow> bool" where
  "releasing p0 N A p \<longleftrightarrow>
     kept p0 p \<and> opaque_inv (pw_lib p) \<and> opaque_map (pw_lib p) \<noteq> None \<and> ample N (pw_lib p) \<and> md_ok (xw_md (pw_w p)) \<and>
     (\<forall>a\<ge>next_addr (pw_lib p0). gnodes (pw_lib p) a = None \<and> (objs (pw_lib p) a \<noteq> None \<longrightarrow> a \<in> A) \<and> (refs (pw_lib p) a \<noteq> None \<longrightarrow> a \<in> A)) \<and>
     (\<forall>a \<in> A. next_addr (pw_lib p0) \<le> a \<and> has_type (pw_lib p) a OPAQUE_OBJECT \<and> hs_obj (pw_hints p) a = Some [] \<and> xw_objs (pw_w p) a \<noteq> None \<and>
        (\<exists>ob. objs (pw_lib p) a = Some ob \<and> obj_type ob \<in> hw_types))"

lemma destroy_all_releasing:
  assumes "releasing p0 N (set as) p" "distinct as"
  shows "\<exists>p'. destroy_all as p = Some p' \<and> undone p0 N p'"
  using assms
proof (induction as arbitrary: p)
  case Nil
  then show ?case by (auto simp: releasing_def undone_def)
next
  case (Cons a as)
  let ?B = "next_addr (pw_lib p0)"
  have a: "?B \<le> a" "has_type (pw_lib p) a OPAQUE_OBJECT" "hs_obj (pw_hints p) a = Some []" "xw_objs (pw_w p) a \<noteq> None"
    and K: "kept p0 p" "opaque_inv (pw_lib p)" "opaque_map (pw_lib p) \<noteq> None" "ample N (pw_lib p)"
    using Cons.prems(1) by (simp_all add: releasing_def)
  from Cons.prems(1) obtain ob where ob: "objs (pw_lib p) a = Some ob" "obj_type ob \<in> hw_types" by (auto simp: releasing_def)
  obtain s' where f: "freed (pw_lib p) a s'" and del: "DEL_OBJ a p = Some (p\<lparr>pw_lib := s',
      pw_hints := (pw_hints p)\<lparr>hs_obj := (hs_obj (pw_hints p))(a := None)\<rparr>, pw_w := (pw_w p)\<lparr>xw_objs := (xw_objs (pw_w p))(a := None)\<rparr>\<rparr>)"
    by (rule DEL_OBJ_freed [OF K(2) a(2) _ a(3,4)]) (use ob(1) K(1) in \<open>auto simp: kept_def\<close>)
  let ?p = "p\<lparr>pw_lib := s', pw_hints := (pw_hints p)\<lparr>hs_obj := (hs_obj (pw_hints p))(a := None)\<rparr>,
      pw_w := (pw_w p)\<lparr>xw_objs := (xw_objs (pw_w p))(a := None)\<rparr>\<rparr>"
  have "kept p0 ?p" using K(1) f a(1) by (simp add: kept_def freed_def)
  then have "releasing p0 N (set as) ?p"
    using Cons.prems f K by (simp add: releasing_def has_type_freed [OF f]) (auto simp: freed_def)
  with Cons.IH Cons.prems(2) obtain p' where "destroy_all as ?p = Some p'" "undone p0 N p'" by auto
  with ob del show ?case by (auto simp: obj_destroy_callback_def obj_del_container_def hw_types_def)
qed

lemma no_nodes_without_root:
  assumes "grown B L p" "h_tree (pw_h p) = None"
  shows "B \<le> g \<Longrightarrow> gnodes (pw_lib p) g = None"
proof (induction g rule: less_induct)
  case (less g)
  show ?case
  proof (rule ccontr)
    assume "gnodes (pw_lib p) g \<noteq> None"
    then obtain node where "gnodes (pw_lib p) g = Some node" by blast
    with grownD(7) [OF assms(1) less.prems] have "new_node_ok B p g node" by blast
    then obtain pg pn where "B \<le> pg" "pg < g" "gnodes (pw_lib p) pg = Some pn"
      unfolding new_node_ok_def assms(2) by blast
    with less.IH [of pg] show False by simp
  qed
qed

lemma del_hierarchy_undone:
  assumes b: "building p0 N {} p"
  shows "\<exists>p'. del_hierarchy (Some (pw_h p)) p = Some p' \<and> undone p0 N p'"
proof -
  let ?B = "next_addr (pw_lib p0)" and ?w = "set_md (\<lambda>_. x86_metadata_zero) (pw_w p)" and ?s = "pw_lib p"
  note K = buildingD [OF b] and G = grownD [OF buildingD(2) [OF b]]
  have "\<exists>gs. (case h_tree (pw_h p) of None \<Rightarrow> Some ?s | Some g \<Rightarrow> g_node_destroy g ?s) = Some (?s\<lparr>gnodes := gs\<rparr>) \<and>
    (\<forall>g. gs g = (if ?B \<le> g then None else gnodes ?s g))"
  proof (cases "h_tree (pw_h p)")
    case None
    have "gnodes ?s g = (if ?B \<le> g then None else gnodes ?s g)" for g using no_nodes_without_root [OF K(2) None, of g] by simp
    with None show ?thesis by (intro exI [of _ "gnodes ?s"]) simp
  next
    case (Some r)
    with G(8) have r: "?B \<le> r" "gnodes ?s r \<noteq> None" by (auto simp: root_ok_def)
    from grown_walk [OF K(2) r] obtain ns where ns: "tree_nodes (next_addr ?s) ?s r = Some ns" "r \<in> set ns"
      "\<forall>x \<in> set ns. ?B \<le> x \<and> gnodes ?s x \<noteq> None \<and> (\<forall>node. gnodes ?s x = Some node \<longrightarrow> set (gn_children node) \<subseteq> set ns)" by blast
    have all: "g \<in> set ns" if "?B \<le> g" "gnodes ?s g \<noteq> None" for g
      by (rule grown_walk_all [OF K(2) Some ns(2) _ that]) (use ns(3) in blast)
    have "(gnodes ?s |` (- set ns)) g = (if ?B \<le> g then None else gnodes ?s g)" for g
    proof (cases "?B \<le> g")
      case True
      with all [of g] show ?thesis by (cases "gnodes ?s g") (auto simp: restrict_map_def)
    next
      case False
      with ns(3) have "g \<notin> set ns" by blast
      with False show ?thesis by (simp add: restrict_map_def)
    qed
    with Some ns(1) show ?thesis by (intro exI [of _ "gnodes ?s |` (- set ns)"]) (simp add: g_node_destroy_def)
  qed
  then obtain gs where gs: "(case h_tree (pw_h p) of None \<Rightarrow> Some ?s | Some g \<Rightarrow> g_node_destroy g ?s) = Some (?s\<lparr>gnodes := gs\<rparr>)"
    "\<forall>g. gs g = (if ?B \<le> g then None else gnodes ?s g)" by blast
  let ?p = "p\<lparr>pw_w := ?w, pw_lib := ?s\<lparr>gnodes := gs\<rparr>\<rparr>" and ?as = "hierarchy_objs (pw_h p) (?s\<lparr>gnodes := gs\<rparr>)"
  have mem: "a \<in> set ?as \<longleftrightarrow> ?B \<le> a \<and> objs ?s a \<noteq> None" for a
  proof
    assume "a \<in> set ?as"
    then obtain ob where "objs ?s a = Some ob" "h_map (pw_h p) (obj_name ob) = Some a" by (auto simp: hierarchy_objs_def split: option.splits)
    with G(6) [of "obj_name ob" a] show "?B \<le> a \<and> objs ?s a \<noteq> None" by (simp add: name_ok_def)
  next
    assume a: "?B \<le> a \<and> objs ?s a \<noteq> None"
    then obtain ob where ob: "objs ?s a = Some ob" by blast
    with a G(5) [of a ob] have "h_map (pw_h p) (obj_name ob) = Some a" by (auto simp: new_obj_ok_def)
    moreover have "a < next_addr ?s" by (rule building_obj [OF b _ ob]) (use a in blast)+
    ultimately show "a \<in> set ?as" using ob by (simp add: hierarchy_objs_def)
  qed
  have dist: "distinct ?as" by (simp add: hierarchy_objs_def)
  have "opaque_inv (pw_lib ?p)" "opaque_map (pw_lib ?p) \<noteq> None"
    using G(1,2) opaque_inv_cong(1) [of "?s\<lparr>gnodes := gs\<rparr>" ?s] by simp_all
  moreover have "kept p0 ?p" using K(1) gs(2) by (simp add: kept_def set_md_def)
  moreover have "ample N (pw_lib ?p)" using K(3) by (simp add: ample_def)
  moreover have "\<forall>a \<in> set ?as. ?B \<le> a \<and> has_type (pw_lib ?p) a OPAQUE_OBJECT \<and> hs_obj (pw_hints ?p) a = Some [] \<and> xw_objs (pw_w ?p) a \<noteq> None \<and>
        (\<exists>ob. objs (pw_lib ?p) a = Some ob \<and> obj_type ob \<in> hw_types)"
  proof
    fix a assume "a \<in> set ?as"
    with mem obtain ob where ob: "?B \<le> a" "objs ?s a = Some ob" by blast
    have "new_obj_ok ?B {} p a ob" using G(5) [OF ob] .
    then have ok: "has_type ?s a OPAQUE_OBJECT" "hs_obj (pw_hints p) a = Some []" "obj_type ob \<in> hw_types" "xw_objs (pw_w p) a \<noteq> None"
      unfolding new_obj_ok_def by blast+
    have "has_type (pw_lib ?p) a OPAQUE_OBJECT = has_type ?s a OPAQUE_OBJECT" "xw_objs (pw_w ?p) a = xw_objs (pw_w p) a"
      by (simp_all add: has_type_def set_md_def)
    with ok ob show "?B \<le> a \<and> has_type (pw_lib ?p) a OPAQUE_OBJECT \<and> hs_obj (pw_hints ?p) a = Some [] \<and> xw_objs (pw_w ?p) a \<noteq> None \<and>
        (\<exists>ob. objs (pw_lib ?p) a = Some ob \<and> obj_type ob \<in> hw_types)" by simp
  qed
  moreover have "\<forall>a\<ge>?B. gnodes (pw_lib ?p) a = None \<and> (objs (pw_lib ?p) a \<noteq> None \<longrightarrow> a \<in> set ?as) \<and> (refs (pw_lib ?p) a \<noteq> None \<longrightarrow> a \<in> set ?as)"
  proof (intro allI impI)
    fix a assume a: "?B \<le> a"
    have "gs a = None" using gs(2) a by simp
    moreover have "refs ?s a \<noteq> None \<longrightarrow> objs ?s a \<noteq> None" using G(4) [OF a] by blast
    ultimately show "gnodes (pw_lib ?p) a = None \<and> (objs (pw_lib ?p) a \<noteq> None \<longrightarrow> a \<in> set ?as) \<and> (refs (pw_lib ?p) a \<noteq> None \<longrightarrow> a \<in> set ?as)"
      using mem [of a] a by simp
  qed
  moreover have "md_ok (xw_md (pw_w ?p))" by (simp add: set_md_def)
  ultimately have "releasing p0 N (set ?as) ?p" unfolding releasing_def by (intro conjI)
  from destroy_all_releasing [OF this dist] obtain p' where "destroy_all ?as ?p = Some p'" "undone p0 N p'" by blast
  with gs(1) destruct_hierarchy_returns [OF K(4)] show ?thesis by (simp add: del_hierarchy_def Let_def cong: option.case_cong)
qed

text \<open>Either the hierarchy is there, or nothing of it is left.\<close>

lemma new_hierarchy_returns:
  assumes h: "healthy (e_penv V) M (sw_fs (pw_w p))" "M \<le> 2 ^ 31" and b: "building (p\<lparr>pw_h := empty_hierarchy\<rparr>) (N + 4 * M + 3) {} (p\<lparr>pw_h := empty_hierarchy\<rparr>)"
  obtains p' where "new_hierarchy V p = Some (Some (pw_h p'), p')" "building (p\<lparr>pw_h := empty_hierarchy\<rparr>) N {} p'" "h_tree (pw_h p') \<noteq> None"
  | p' where "new_hierarchy V p = Some (None, p')" "undone (p\<lparr>pw_h := empty_hierarchy\<rparr>) N p'"
proof -
  let ?p0 = "p\<lparr>pw_h := empty_hierarchy\<rparr>"
  from construct_hierarchy_building [of V M ?p0 N] h b obtain st p1 where
    1: "x86_construct_hierarchy V ?p0 = Some (st, p1)" "building ?p0 N {} p1" "st = 0 \<longrightarrow> h_tree (pw_h p1) \<noteq> None" by auto
  show ?thesis
  proof (cases "st = 0")
    case True
    with 1 that(1) show ?thesis by (simp add: new_hierarchy_def)
  next
    case False
    from del_hierarchy_undone [OF 1(2)] obtain p2 where "del_hierarchy (Some (pw_h p1)) p1 = Some p2" "undone ?p0 N p2" by blast
    with 1 False that(2) show ?thesis by (simp add: new_hierarchy_def)
  qed
qed

end
