(* ===== verification/Context_Properties.thy ===== *)
theory Context_Properties
  imports Construction X86_Roundtrip
begin

text \<open>
  The invariant of the whole library, and that the creation of a context returns and keeps it.
\<close>

subsection \<open>The invariant\<close>

text \<open>Every object has a handle, and the entry point of a context is the node of an object.\<close>

definition linked :: "lib \<Rightarrow> bool" where
  "linked s \<longleftrightarrow> (\<forall>a ob. objs s a = Some ob \<longrightarrow> has_type s a OPAQUE_OBJECT) \<and>
     (\<forall>c ctx g. ctxs s c = Some ctx \<longrightarrow> ctx_entry_point ctx = Some g \<longrightarrow> node_obj s g \<noteq> None)"

lemma linkedD:
  assumes "linked s"
  shows "objs s a = Some ob \<Longrightarrow> has_type s a OPAQUE_OBJECT"
    "ctxs s c = Some ctx \<Longrightarrow> ctx_entry_point ctx = Some g \<Longrightarrow> node_obj s g \<noteq> None"
  using assms unfolding linked_def by blast+

lemma node_obj_cong: "objs s' = objs s \<Longrightarrow> gnodes s' = gnodes s \<Longrightarrow> node_obj s' = node_obj s"
  by (simp add: node_obj_def fun_eq_iff)

definition sys_inv :: "nat \<Rightarrow> pwr \<Rightarrow> bool" where
  "sys_inv N p \<longleftrightarrow>
     group_inv (pw_lib p) \<and> objects_typed (pw_lib p) \<and> tree_ok (pw_lib p) \<and> plugin_ready (pw_lib p) (pw_w p) \<and>
     ample N (pw_lib p) \<and> md_ok (xw_md (pw_w p)) \<and> pw_plugin p \<and> linked (pw_lib p) \<and>
     (\<forall>a\<ge>next_addr (pw_lib p). objs (pw_lib p) a = None \<and> gnodes (pw_lib p) a = None \<and> ctxs (pw_lib p) a = None \<and> xw_ipc (pw_w p) a = None)"

lemma sys_invD:
  assumes "sys_inv N p"
  shows "group_inv (pw_lib p)" "objects_typed (pw_lib p)" "tree_ok (pw_lib p)" "plugin_ready (pw_lib p) (pw_w p)" "ample N (pw_lib p)"
    "md_ok (xw_md (pw_w p))" "pw_plugin p"
    "\<And>a. next_addr (pw_lib p) \<le> a \<Longrightarrow> objs (pw_lib p) a = None \<and> gnodes (pw_lib p) a = None \<and> ctxs (pw_lib p) a = None \<and> xw_ipc (pw_w p) a = None"
    "linked (pw_lib p)"
  using assms by (simp_all add: sys_inv_def)

text \<open>More structures, all of them objects or without a key, leave the groups alone.\<close>

lemma group_inv_extend:
  assumes inv: "group_inv s" and h: "opaque_inv s'" "opaque_map s' \<noteq> None"
    and same: "links s' = links s" "ctxs s' = ctxs s" "grps s' = grps s" "\<And>a. a < next_addr s \<Longrightarrow> refs s' a = refs s a"
    and new: "\<And>a t. next_addr s \<le> a \<Longrightarrow> has_type s' a t \<Longrightarrow> t = OPAQUE_OBJECT"
    and le: "next_addr s \<le> next_addr s'" and free: "\<And>a. next_addr s' \<le> a \<Longrightarrow> refs s' a = None"
  shows "group_inv s'"
proof -
  have fr: "refs s a = None \<and> links s a = None" if "next_addr s \<le> a" for a using group_invD(3) [OF inv] that by (simp add: fresh_ok_def)
  have old: "has_type s' a t = has_type s a t" "key_at s' a = key_at s a" if "a < next_addr s" for a t
    using same(4) [OF that] by (simp_all add: has_type_def key_at_def)
  have lt: "a < next_addr s" if "has_type s a t" for a t
    using that fr [of a] by (cases "next_addr s \<le> a") (auto simp: has_type_def)
  have up: "has_type s' a t" if "has_type s a t" for a t using old(1) [OF lt [OF that]] that by simp
  have other: "has_type s' a t \<Longrightarrow> t \<noteq> OPAQUE_OBJECT \<Longrightarrow> has_type s a t" for a t
    using new [of a t] old(1) [of a t] by (cases "a < next_addr s") auto
  have "fresh_ok s'" using fr free le same(1) by (simp add: fresh_ok_def)
  moreover have "typed_ok s'"
    using group_invD(4) [OF inv] other [of _ OPAQUE_CONTEXT] other [of _ OPAQUE_GROUP] unfolding typed_ok_def same by blast
  moreover have "ctx_ok s' c ctx" if "ctxs s' c = Some ctx" for c ctx
  proof -
    have ok: "ctx_ok s c ctx" using group_invD(5) [OF inv] that same(2) by simp
    then have "c < next_addr s" using lt unfolding ctx_ok_def by blast
    with ok up show ?thesis unfolding ctx_ok_def same by (simp add: old(2))
  qed
  moreover have "grp_ok s' a g" if "grps s' a = Some g" for a g
  proof -
    have ok: "grp_ok s a g" using group_invD(6) [OF inv] that same(3) by simp
    then obtain c ctx n where c: "ctxs s c = Some ctx" "key_at s c = grp_context_key g" "grp_link g = Some n" "(n, a) \<in> set (ctx_group_list ctx)"
      unfolding grp_ok_def by blast
    have "has_type s c OPAQUE_CONTEXT" using group_invD(5) [OF inv c(1)] by (simp add: ctx_ok_def)
    then have "key_at s' c = key_at s c" using old(2) lt by blast
    with ok up c show ?thesis unfolding grp_ok_def same by (metis (no_types, lifting))
  qed
  ultimately show ?thesis using h by (simp add: group_inv_def)
qed

subsection \<open>Before and after the construction\<close>

text \<open>The structure of the new context has been allocated, and nothing of its hierarchy is there.\<close>

definition allocated :: "pwr \<Rightarrow> pwr \<Rightarrow> bool" where
  "allocated p p0 \<longleftrightarrow> pw_lib p0 = snd (alloc_ref (pw_lib p)) \<and> pw_w p0 = pw_w p \<and> pw_plugin p0 = pw_plugin p \<and> pw_h p0 = empty_hierarchy"

lemma alloc_ref_sel [simp]:
  "next_addr (snd (alloc_ref s)) = Suc (next_addr s)" "refs (snd (alloc_ref s)) = (refs s)(next_addr s \<mapsto> zero_ref)"
  "opaque_map (snd (alloc_ref s)) = opaque_map s" "links (snd (alloc_ref s)) = links s" "ctxs (snd (alloc_ref s)) = ctxs s"
  "grps (snd (alloc_ref s)) = grps s" "objs (snd (alloc_ref s)) = objs s" "gnodes (snd (alloc_ref s)) = gnodes s"
  "fst (alloc_ref s) = next_addr s"
  by (simp_all add: alloc_ref_def)

lemma same_hints_refl [simp]: "same_hints H H"
  by (simp add: same_hints_def)

lemma sys_inv_fresh: "sys_inv N p \<Longrightarrow> next_addr (pw_lib p) \<le> a \<Longrightarrow> refs (pw_lib p) a = None"
  using group_invD(3) [OF sys_invD(1)] by (auto simp: fresh_ok_def)

lemma alloc_building:
  assumes inv: "sys_inv N p" and p0: "allocated p p0"
  shows "building p0 N {} p0"
proof -
  note S = sys_invD [OF inv]
  have lib: "pw_lib p0 = snd (alloc_ref (pw_lib p))" using p0 by (simp add: allocated_def)
  have "opaque_inv (pw_lib p0)"
    by (rule opaque_inv_alloc [OF group_invD(1) [OF S(1)] sys_inv_fresh [OF inv order_refl]]) (simp_all add: lib)
  moreover have "opaque_map (pw_lib p0) \<noteq> None" using group_invD(2) [OF S(1)] by (simp add: lib)
  moreover have "refs (pw_lib p0) a = None \<and> objs (pw_lib p0) a = None \<and> gnodes (pw_lib p0) a = None" if "next_addr (pw_lib p0) \<le> a" for a
    using S(8) [of a] sys_inv_fresh [OF inv, of a] that by (simp add: lib)
  ultimately have "grown (next_addr (pw_lib p0)) {} p0"
    using p0 by (intro grownI) (auto simp: allocated_def empty_hierarchy_def)
  moreover have "ample N (pw_lib p0)" using S(5) by (simp add: lib ample_def)
  ultimately show ?thesis using p0 S(6,7) by (simp add: building_def kept_def allocated_def)
qed

lemma building_tree_ok:
  assumes inv: "sys_inv M p" and p0: "allocated p p0" and b: "building p0 N {} q"
  shows "tree_ok (pw_lib q)"
proof -
  note S = sys_invD [OF inv] and K = buildingD [OF b] and G = grownD [OF buildingD(2) [OF b]]
  let ?B = "next_addr (pw_lib p0)" and ?s = "pw_lib p" and ?t = "pw_lib q"
  have lib: "?B = Suc (next_addr ?s)" "objs (pw_lib p0) = objs ?s" "gnodes (pw_lib p0) = gnodes ?s" using p0 by (simp_all add: allocated_def)
  have old: "objs ?t a = objs ?s a" "gnodes ?t a = gnodes ?s a" if "a < ?B" for a
    using K(1) that lib by (simp_all add: kept_def)
  have le: "?B \<le> next_addr ?t" using K(1) by (simp add: kept_def)
  have obD: "a < ?B" if "objs ?s a = Some ob" for a ob using S(8) [of a] that lib(1) by (cases "next_addr ?s \<le> a") auto
  have gnD: "g < ?B" if "gnodes ?s g \<noteq> None" for g using S(8) [of g] that lib(1) by (cases "next_addr ?s \<le> g") auto
  have "gnodes ?t gn \<noteq> None \<and> gn < next_addr ?t" if ob: "objs ?t a = Some ob" "obj_gnode ob = Some gn" for a ob gn
  proof -
    have "gnodes ?t gn \<noteq> None"
    proof (cases "a < ?B")
      case True
      with ob old have "objs ?s a = Some ob" by simp
      with S(3) ob(2) have "gnodes ?s gn \<noteq> None" unfolding tree_ok_def by blast
      with old(2) gnD show ?thesis by metis
    next
      case False
      with G(5) [of a ob] ob show ?thesis by (auto simp: new_obj_ok_def)
    qed
    moreover from this have "gn < next_addr ?t" using G(3) [of gn] by (cases "next_addr ?t \<le> gn") auto
    ultimately show ?thesis by blast
  qed
  moreover have "gn < d \<and> (\<exists>b child. node_obj ?t d = Some (b, child) \<and> objs ?t b = Some child \<and> obj_gnode child = Some d)"
    if gn: "gnodes ?t gn = Some node" and d: "d \<in> set (gn_children node)" for gn node d
  proof (cases "gn < ?B")
    case True
    with gn old have "gnodes ?s gn = Some node" by simp
    with S(3) d obtain b child where c: "gn < d" "node_obj ?s d = Some (b, child)" "objs ?s b = Some child" "obj_gnode child = Some d"
      unfolding tree_ok_def by blast
    then obtain nd where nd: "gnodes ?s d = Some nd" "gn_data nd = b" by (auto simp: node_obj_def)
    then have "gnodes ?t d = Some nd" using old(2) [of d] gnD [of d] by simp
    moreover have "objs ?t b = Some child" using old(1) [OF obD [OF c(3)]] c(3) by simp
    ultimately show ?thesis using c(1,4) nd(2) by (auto simp: node_obj_def)
  next
    case False
    with G(7) [of gn node] gn d have up: "gn < d" "gnodes ?t d \<noteq> None" by (auto simp: new_node_ok_def)
    then obtain nd where nd: "gnodes ?t d = Some nd" by blast
    with G(7) [of d nd] up False obtain ob where "objs ?t (gn_data nd) = Some ob" "obj_gnode ob = Some d" by (auto simp: new_node_ok_def)
    with nd up(1) show ?thesis by (auto simp: node_obj_def)
  qed
  ultimately show ?thesis unfolding tree_ok_def by blast
qed

text \<open>The invariant holds again as soon as nothing is outside of the hierarchy.\<close>

lemma building_sys_inv:
  assumes inv: "sys_inv M p" and p0: "allocated p p0" and b: "building p0 N {} q"
  shows "sys_inv N q" "refs (pw_lib q) (next_addr (pw_lib p)) = Some zero_ref" "ctxs (pw_lib q) (next_addr (pw_lib p)) = None"
    "xw_ipc (pw_w q) (next_addr (pw_lib p)) = None" "next_addr (pw_lib p) < next_addr (pw_lib q)"
proof -
  note S = sys_invD [OF inv] and K = buildingD [OF b] and G = grownD [OF buildingD(2) [OF b]]
  let ?B = "next_addr (pw_lib p0)" and ?s = "pw_lib p" and ?t = "pw_lib q" and ?c = "next_addr (pw_lib p)"
  have lib: "?B = Suc ?c" "objs (pw_lib p0) = objs ?s" "ctxs (pw_lib p0) = ctxs ?s" "refs (pw_lib p0) = (refs ?s)(?c \<mapsto> zero_ref)"
    "links (pw_lib p0) = links ?s" "grps (pw_lib p0) = grps ?s" "pw_w p0 = pw_w p" using p0 by (simp_all add: allocated_def)
  have lib_gnodes: "gnodes (pw_lib p0) = gnodes ?s" using p0 by (simp add: allocated_def)
  have ctx: "ctxs ?t = ctxs ?s" "grps ?t = grps ?s" "links ?t = links ?s" "xw_ipc (pw_w q) = xw_ipc (pw_w p)" "xw_fault (pw_w q) = xw_fault (pw_w p)"
    "?B \<le> next_addr ?t" "pw_plugin q"
    using K(1) lib by (simp_all add: kept_def)
  have old: "refs ?t a = ((refs ?s)(?c \<mapsto> zero_ref)) a" "objs ?t a = objs ?s a" "xw_objs (pw_w q) a = xw_objs (pw_w p) a" if "a < ?B" for a
    using K(1) that lib by (simp_all add: kept_def)
  show c: "refs ?t ?c = Some zero_ref" "ctxs ?t ?c = None" "xw_ipc (pw_w q) ?c = None" "?c < next_addr ?t"
    using old(1) [of ?c] lib(1) S(8) [of ?c] ctx by simp_all
  have new_type: "t = OPAQUE_OBJECT" if "?c \<le> a" "has_type ?t a t" for a t
  proof (cases "a = ?c")
    case True
    with that c(1) show ?thesis by (simp add: has_type_def zero_ref_def)
  next
    case False
    with that(1) lib(1) have a: "?B \<le> a" by simp
    from that(2) have "refs ?t a \<noteq> None" by (auto simp: has_type_def)
    with G(4) [OF a] obtain ob where "objs ?t a = Some ob" by blast
    with G(5) [OF a] have "has_type ?t a OPAQUE_OBJECT" by (auto simp: new_obj_ok_def)
    with that(2) has_type_fun show ?thesis by metis
  qed
  have "group_inv ?t"
  proof (rule group_inv_extend [OF S(1)])
    show "refs ?t a = refs ?s a" if "a < ?c" for a using old(1) [of a] that lib(1) by simp
  qed (use G(1-3) ample_map [OF K(3)] ctx lib(1) new_type in auto)
  moreover have "objects_typed ?t"
    unfolding objects_typed_def
  proof (intro allI impI)
    fix a assume t: "has_type ?t a OPAQUE_OBJECT"
    show "objs ?t a \<noteq> None"
    proof (cases "a < ?B")
      case True
      have "a \<noteq> ?c" using t c(1) by (auto simp: has_type_def zero_ref_def)
      with t True old(1) have "has_type ?s a OPAQUE_OBJECT" by (simp add: has_type_def)
      with S(2) old(2) [OF True] show ?thesis by (simp add: objects_typed_def)
    next
      case False
      with t G(4) [of a] show ?thesis by (auto simp: has_type_def)
    qed
  qed
  moreover have "plugin_ready ?t (pw_w q)"
  proof -
    have "\<exists>h. xw_objs (pw_w q) a = Some h \<and> hw_ready ob h" if "objs ?t a = Some ob" "obj_type ob \<in> hw_types" for a ob
    proof (cases "a < ?B")
      case True
      with that old S(4) show ?thesis by (auto simp: plugin_ready_def)
    next
      case False
      with that(1) G(5) [of a ob] show ?thesis by (auto simp: new_obj_ok_def)
    qed
    with S(4) ctx show ?thesis by (simp add: plugin_ready_def)
  qed
  moreover have "objs ?t a = None \<and> gnodes ?t a = None \<and> ctxs ?t a = None \<and> xw_ipc (pw_w q) a = None" if "next_addr ?t \<le> a" for a
    using G(3) [OF that] S(8) [of a] ctx that lib(1) by simp
  moreover have "linked ?t"
    unfolding linked_def
  proof (intro conjI allI impI)
    fix a ob assume ob: "objs ?t a = Some ob"
    show "has_type ?t a OPAQUE_OBJECT"
    proof (cases "a < ?B")
      case True
      with ob old(2) have "objs ?s a = Some ob" by simp
      then have t: "has_type ?s a OPAQUE_OBJECT" by (rule linkedD(1) [OF S(9)])
      then have "a \<noteq> ?c" using sys_inv_fresh [OF inv, of ?c] by (auto simp: has_type_def)
      with t True old(1) show ?thesis by (simp add: has_type_def)
    next
      case False
      with ob G(5) [of a ob] show ?thesis by (simp add: new_obj_ok_def)
    qed
  next
    fix b x g assume "ctxs ?t b = Some x" "ctx_entry_point x = Some g"
    with ctx(1) linkedD(2) [OF S(9), of b x g] obtain nd ob where n: "gnodes ?s g = Some nd" "objs ?s (gn_data nd) = Some ob"
      by (fastforce simp: node_obj_def split: bind_splits)
    have lt: "g < ?B" "gn_data nd < ?B" using n S(8) [of g] S(8) [of "gn_data nd"] lib(1)
      by (metis linorder_not_less not_less_eq option.distinct(1) order_less_imp_le)+
    then have "gnodes ?t g = Some nd" using K(1) n(1) lib_gnodes by (simp add: kept_def)
    then show "node_obj ?t g \<noteq> None" using old(2) [OF lt(2)] n(2) by (simp add: node_obj_def)
  qed
  ultimately show "sys_inv N q" using building_tree_ok [OF assms] K(3,4) ctx(7) by (simp add: sys_inv_def)
qed

subsection \<open>The context itself\<close>

lemma tree_ok_cong:
  assumes "objs s' = objs s" "gnodes s' = gnodes s" "next_addr s' = next_addr s"
  shows "tree_ok s' = tree_ok s"
  by (simp add: tree_ok_def node_obj_def assms)

text \<open>A structure that never got a key is released.\<close>

lemma forget_context:
  assumes inv: "sys_inv N q" and c: "refs (pw_lib q) c = Some zero_ref" "ctxs (pw_lib q) c = None"
    and q': "pw_lib q' = (pw_lib q)\<lparr>refs := (refs (pw_lib q))(c := None), ctxs := (ctxs (pw_lib q))(c := None)\<rparr>"
      "plugin_ready (pw_lib q) (pw_w q')" "pw_plugin q'" "xw_md (pw_w q') = xw_md (pw_w q)" "\<And>a. xw_ipc (pw_w q) a = None \<Longrightarrow> xw_ipc (pw_w q') a = None"
  shows "sys_inv N q'"
proof -
  note S = sys_invD [OF inv]
  let ?s = "pw_lib q" and ?t = "pw_lib q'"
  have ctx: "ctxs ?t = ctxs ?s" using c(2) q'(1) by auto
  have sel: "links ?t = links ?s" "grps ?t = grps ?s" "objs ?t = objs ?s" "gnodes ?t = gnodes ?s" "next_addr ?t = next_addr ?s"
    "opaque_map ?t = opaque_map ?s" using q'(1) by simp_all
  have types: "has_type ?t = has_type ?s" "key_at ?t = key_at ?s"
    using c(1) by (auto simp: fun_eq_iff has_type_def key_at_def zero_ref_def q'(1))
  have "opaque_inv ?t"
    by (rule opaque_inv_free [OF group_invD(1) [OF S(1)], of c]) (use c(1) in \<open>auto simp: unkeyed_def zero_ref_def q'(1)\<close>)
  moreover have "fresh_ok ?t" using group_invD(3) [OF S(1)] by (simp add: fresh_ok_def q'(1))
  moreover have "typed_ok ?t = typed_ok ?s" "ctx_ok ?t = ctx_ok ?s" "grp_ok ?t = grp_ok ?s"
    by (simp_all add: typed_ok_def ctx_ok_def grp_ok_def fun_eq_iff types ctx sel)
  ultimately have "group_inv ?t" using S(1) by (simp add: group_inv_def ctx sel)
  moreover have "objects_typed ?t" using S(2) by (simp add: objects_typed_def types sel)
  moreover have "tree_ok ?t" using S(3) tree_ok_cong [OF sel(3-5)] by simp
  moreover have "plugin_ready ?t (pw_w q')" using q'(2) by (simp add: plugin_ready_def ctx sel)
  moreover have "ample N ?t" using S(5) ample_cong [OF sel(6)] by blast
  moreover have "linked ?t" using S(9) node_obj_cong [OF sel(3,4)] by (simp add: linked_def types sel ctx)
  ultimately show ?thesis using S(6,8) q'(3-5) by (simp add: sys_inv_def ctx sel)
qed

text \<open>The finished context is entered in the handle map.\<close>

lemma enter_context:
  assumes inv: "sys_inv (Suc N) q" and c: "refs (pw_lib q) c = Some zero_ref" "ctxs (pw_lib q) c = None" "c < next_addr (pw_lib q)"
    and ctx: "ctx_group_list ctx = []" and ipc: "ipc_ready ipc" and entry: "\<forall>g. ctx_entry_point ctx = Some g \<longrightarrow> node_obj (pw_lib q) g \<noteq> None"
  obtains k s' where "opaque_map_insert OPAQUE_CONTEXT c ((pw_lib q)\<lparr>ctxs := (ctxs (pw_lib q))(c \<mapsto> ctx)\<rparr>) = Some (k, s')"
    "k \<noteq> 0" "refs s' c = Some \<lparr>ref_type = OPAQUE_CONTEXT, ref_key = k\<rparr>" "ctxs s' c = Some ctx" "gnodes s' = gnodes (pw_lib q)" "objs s' = objs (pw_lib q)"
    "\<And>a. a \<noteq> c \<Longrightarrow> refs s' a = refs (pw_lib q) a"
    "\<And>q'. pw_lib q' = s' \<Longrightarrow> pw_w q' = (pw_w q)\<lparr>xw_ipc := (xw_ipc (pw_w q))(c \<mapsto> ipc)\<rparr> \<Longrightarrow> pw_plugin q' \<Longrightarrow> sys_inv N q'"
proof -
  note S = sys_invD [OF inv]
  let ?s = "pw_lib q"
  let ?base = "?s\<lparr>refs := (refs ?s)(c := None)\<rparr>" and ?z = "?s\<lparr>ctxs := (ctxs ?s)(c \<mapsto> ctx)\<rparr>"
  have base: "opaque_inv ?base"
    by (rule opaque_inv_free [OF group_invD(1) [OF S(1)], of c]) (use c(1) in \<open>simp_all add: unkeyed_def zero_ref_def\<close>)
  have amp: "ample (Suc N) ?base" "ample (Suc N) ?z" using S(5) by (simp_all add: ample_def)
  have refz: "refs ?z = (refs ?base)(c \<mapsto> zero_ref)" using c(1) by (auto simp: fun_eq_iff)
  obtain k s' where ins: "opaque_map_insert OPAQUE_CONTEXT c ?z = Some (k, s')" and ent: "entered ?base c OPAQUE_CONTEXT k s'" and same: "same_but_handles ?z s'"
    using enter_new [OF base ample_has_draw [OF amp(1)] _ _ _ refz, of OPAQUE_CONTEXT] by auto
  have f: "next_addr s' = next_addr ?s" "links s' = links ?s" "ctxs s' = (ctxs ?s)(c \<mapsto> ctx)" "grps s' = grps ?s" "objs s' = objs ?s" "gnodes s' = gnodes ?s"
    using same by (simp_all add: same_but_handles_def)
  have refs': "refs s' = (refs ?s)(c \<mapsto> \<lparr>ref_type = OPAQUE_CONTEXT, ref_key = k\<rparr>)" using ent by (simp add: entered_def)
  have k: "k \<noteq> 0" using ent by (simp_all add: entered_def)
  have types: "has_type s' a t \<longleftrightarrow> (if a = c then t = OPAQUE_CONTEXT else has_type ?s a t)" for a t
    using k by (auto simp: has_type_def refs')
  have nty: "\<not> has_type ?s c t" for t using c(1) by (simp add: has_type_def zero_ref_def)
  have key: "key_at s' a = key_at ?s a" if "a \<noteq> c" for a using that by (simp add: key_at_def refs')
  have up: "has_type s' a t" if "has_type ?s a t" for a t using that nty by (auto simp: types)
  have "ctx_ok s' b x" if "ctxs s' b = Some x" for b x
  proof (cases "b = c")
    case True
    with that f ctx show ?thesis by (simp add: ctx_ok_def types)
  next
    case False
    with that f have "ctx_ok ?s b x" using group_invD(5) [OF S(1)] by simp
    with False show ?thesis by (simp add: ctx_ok_def types f key)
  qed
  moreover have "grp_ok s' a g" if "grps s' a = Some g" for a g
  proof -
    have ok: "grp_ok ?s a g" using group_invD(6) [OF S(1)] that f by simp
    then obtain b x n where b: "ctxs ?s b = Some x" "key_at ?s b = grp_context_key g" "grp_link g = Some n" "(n, a) \<in> set (ctx_group_list x)"
      unfolding grp_ok_def by blast
    then have "b \<noteq> c" using c(2) by auto
    with b have "ctxs s' b = Some x" "key_at s' b = grp_context_key g" by (simp_all add: f key)
    with ok b(3,4) up show ?thesis unfolding grp_ok_def by blast
  qed
  moreover have "typed_ok s'" using group_invD(4) [OF S(1)] by (auto simp: typed_ok_def types f)
  moreover have "fresh_ok s'" using group_invD(3) [OF S(1)] c(3) by (auto simp: fresh_ok_def refs' f)
  ultimately have "group_inv s'" using ent by (simp add: group_inv_def entered_def)
  moreover have "objects_typed s'" using S(2) by (simp add: objects_typed_def types f)
  moreover have "tree_ok s'" using S(3) tree_ok_cong [of s' ?s] f by simp
  moreover have "ample N s'" by (rule insert_ample [OF ins amp(2)])
  moreover have "plugin_ready s' ((pw_w q)\<lparr>xw_ipc := (xw_ipc (pw_w q))(c \<mapsto> ipc)\<rparr>)"
    using S(4) ipc by (auto simp: plugin_ready_def f)
  moreover have "linked s'"
    using S(9) entry up node_obj_cong [of s' ?s] f by (auto simp: linked_def split: if_splits)
  ultimately have "sys_inv N q'" if "pw_lib q' = s'" "pw_w q' = (pw_w q)\<lparr>xw_ipc := (xw_ipc (pw_w q))(c \<mapsto> ipc)\<rparr>" "pw_plugin q'" for q'
    using that S(6,8) c(3) by (simp add: sys_inv_def f)
  with that [OF ins k] refs' f show ?thesis by simp
qed

subsection \<open>Creating a context\<close>

lemma sys_inv_cong:
  assumes "pw_lib q' = pw_lib q" "pw_w q' = pw_w q" "pw_plugin q' = pw_plugin q"
  shows "sys_inv N q' = sys_inv N q"
  by (simp add: sys_inv_def assms)

lemma undone_building:
  assumes "undone p0 N q"
  shows "building p0 N {} (q\<lparr>pw_h := empty_hierarchy\<rparr>)"
proof -
  have U: "kept p0 q" "opaque_inv (pw_lib q)" "opaque_map (pw_lib q) \<noteq> None" "ample N (pw_lib q)" "md_ok (xw_md (pw_w q))"
    "\<And>a. next_addr (pw_lib p0) \<le> a \<Longrightarrow> refs (pw_lib q) a = None \<and> objs (pw_lib q) a = None \<and> gnodes (pw_lib q) a = None"
    using assms by (simp_all add: undone_def)
  have "next_addr (pw_lib p0) \<le> next_addr (pw_lib q)" using U(1) by (simp add: kept_def)
  then have "grown (next_addr (pw_lib p0)) {} (q\<lparr>pw_h := empty_hierarchy\<rparr>)"
    using U(2,3,6) by (intro grownI) (auto simp: empty_hierarchy_def)
  with U(1,4,5) show ?thesis by (simp add: building_def kept_def)
qed

text \<open>Without a hierarchy and a connection the destructor only releases the structure.\<close>

definition forgotten :: "addr \<Rightarrow> string \<Rightarrow> pwr \<Rightarrow> pwr" where
  "forgotten c name p =
     (let s = pw_lib p; H = app_hint_term (pw_hints p) in
      p\<lparr>pw_lib := s\<lparr>refs := (refs s)(c := None), ctxs := (ctxs s)(c := None)\<rparr>,
        pw_w := (pw_w p)\<lparr>xw_ipc := (xw_ipc (pw_w p))(c := None)\<rparr>,
        pw_names := map_option (\<lambda>names. names(name := None)) (pw_names p),
        pw_hints := H\<lparr>hs_names := (hs_names H)(c := None)\<rparr>\<rparr>)"

lemma free_no_list: "g_list_free_full f [] s = Some s"
proof -
  have "links s |` UNIV = links s" by (simp add: restrict_map_def fun_eq_iff)
  then show ?thesis by (simp add: g_list_free_full_def glist_live_def)
qed

lemma del_context_early:
  assumes "refs (pw_lib p) c = Some zero_ref" "pw_names p \<noteq> None" "xw_ipc (pw_w p) c = None"
  shows "del_context c (zero_context type role name) None p = Some (forgotten c name p)"
  using assms by (cases p) (auto simp: del_context_def zero_ref_def zero_context_def del_ipc_def del_hierarchy_def on_lib_def forgotten_def free_no_list Let_def)

lemma new_ipc_ready:
  obtains ipc where "new_ipc IPC_SOCKET name role w = (Some ipc, w)" "ipc_ready ipc"
  by (simp add: new_ipc_def ipc_socket_construct_def ipc_ready_def Let_def)

text \<open>What a context that has just been made looks like.\<close>

definition entered_context :: "addr \<Rightarrow> pwr \<Rightarrow> bool" where
  "entered_context c p \<longleftrightarrow> has_type (pw_lib p) c OPAQUE_CONTEXT \<and>
     (\<exists>ctx g node ob. ctxs (pw_lib p) c = Some ctx \<and> ctx_entry_point ctx = Some g \<and> gnodes (pw_lib p) g = Some node \<and>
        has_type (pw_lib p) (gn_data node) OPAQUE_OBJECT \<and> objs (pw_lib p) (gn_data node) = Some ob \<and> obj_type ob = PWR_OBJ_NODE)"

lemma new_context_returns:
  assumes inv: "sys_inv (N + 4 * M + 4) p" and h: "healthy (e_penv V) M (sw_fs (pw_w p))" "M \<le> 2 ^ 31" and names: "pw_names p \<noteq> None"
  obtains q where "new_context V type role name p = Some (None, q)" "sys_inv N q" "sw_fs (pw_w q) = sw_fs (pw_w p)" "pw_names q \<noteq> None"
  | q c where "new_context V type role name p = Some (Some c, q)" "sys_inv N q" "sw_fs (pw_w q) = sw_fs (pw_w p)" "pw_names q \<noteq> None" "entered_context c q"
proof -
  define s1 where "s1 = snd (alloc_ref (pw_lib p))"
  let ?c = "next_addr (pw_lib p)" and ?H = "pw_hints p"
  let ?p1 = "p\<lparr>pw_lib := s1, pw_hints := ?H\<lparr>hs_names := (hs_names ?H)(?c \<mapsto> []), hs_unique := (hs_unique ?H)(?c := 0)\<rparr>\<rparr>"
  let ?p0 = "?p1\<lparr>pw_h := empty_hierarchy\<rparr>"
  have ref: "alloc_ref (pw_lib p) = (?c, s1)" by (simp add: prod_eq_iff s1_def)
  have al: "allocated p ?p0" by (simp add: allocated_def s1_def)
  have b: "building ?p0 (Suc N + 4 * M + 3) {} ?p0" using alloc_building [OF inv al] by (simp add: ac_simps)
  have same: "pw_names q \<noteq> None \<and> sw_fs (pw_w q) = sw_fs (pw_w p)" if "kept ?p0 q" for q using that names by (simp add: kept_def)
  note steps = new_context_def ref Let_def prod.case option.case Option.bind.simps
  from new_hierarchy_returns [of V M ?p1 "Suc N"] h b consider
    (made) q where "new_hierarchy V ?p1 = Some (Some (pw_h q), q)" "building ?p0 (Suc N) {} q" "h_tree (pw_h q) \<noteq> None"
    | (unmade) q where "new_hierarchy V ?p1 = Some (None, q)" "undone ?p0 (Suc N) q" by auto
  then show ?thesis
  proof cases
    case unmade
    let ?q = "q\<lparr>pw_h := empty_hierarchy\<rparr>"
    have kq: "kept ?p0 q" using unmade(2) by (simp add: undone_def)
    note B = building_sys_inv [OF inv al undone_building [OF unmade(2)]]
    have si: "sys_inv (Suc N) q" using B(1) sys_inv_cong [of q ?q] by simp
    have q: "refs (pw_lib q) ?c = Some zero_ref" "ctxs (pw_lib q) ?c = None" "xw_ipc (pw_w q) ?c = None" using B(2-4) by simp_all
    have "sys_inv (Suc N) (forgotten ?c name q)"
      by (rule forget_context [OF si q(1,2)])
        (use sys_invD(4,7) [OF si] q(2) in \<open>auto simp: forgotten_def Let_def plugin_ready_def\<close>)
    then have "sys_inv N (forgotten ?c name q)" using ample_mono [of "Suc N" _ N] by (auto simp: sys_inv_def)
    moreover have "new_context V type role name p = Some (None, forgotten ?c name q)"
      using del_context_early [OF q(1) _ q(3)] same [OF kq] by (simp only: steps unmade(1)) simp
    moreover have "pw_names (forgotten ?c name q) \<noteq> None \<and> sw_fs (pw_w (forgotten ?c name q)) = sw_fs (pw_w p)"
      using same [OF kq] by (auto simp: forgotten_def Let_def)
    ultimately show ?thesis using that(1) by blast
  next
    case made
    note B = building_sys_inv [OF inv al made(2)]
    from same buildingD(1) [OF made(2)] obtain names where names: "pw_names q = Some names" "sw_fs (pw_w q) = sw_fs (pw_w p)" by blast
    from made(3) obtain g where g: "h_tree (pw_h q) = Some g" by blast
    let ?ctx = "(zero_context type role name)\<lparr>ctx_hierarchy := pw_h q, ctx_entry_point := h_tree (pw_h q)\<rparr>"
    obtain ipc where ipc: "new_ipc IPC_SOCKET name role (pw_w q) = (Some ipc, pw_w q)" "ipc_ready ipc" by (rule new_ipc_ready)
    have no_groups: "ctx_group_list ?ctx = []" by (simp add: zero_context_def)
    have entry: "\<forall>g. ctx_entry_point ?ctx = Some g \<longrightarrow> node_obj (pw_lib q) g \<noteq> None"
      using grownD(8) [OF buildingD(2) [OF made(2)] g] g by (auto simp: root_ok_def node_obj_def)
    obtain k s' where
      ins: "opaque_map_insert OPAQUE_CONTEXT ?c ((pw_lib q)\<lparr>ctxs := (ctxs (pw_lib q))(?c \<mapsto> ?ctx)\<rparr>) = Some (k, s')" and k: "k \<noteq> 0"
      and s': "refs s' ?c = Some \<lparr>ref_type = OPAQUE_CONTEXT, ref_key = k\<rparr>" "ctxs s' ?c = Some ?ctx" "gnodes s' = gnodes (pw_lib q)"
        "objs s' = objs (pw_lib q)" "\<And>a. a \<noteq> ?c \<Longrightarrow> refs s' a = refs (pw_lib q) a"
      and si: "\<And>q'. pw_lib q' = s' \<Longrightarrow> pw_w q' = (pw_w q)\<lparr>xw_ipc := (xw_ipc (pw_w q))(?c \<mapsto> ipc)\<rparr> \<Longrightarrow> pw_plugin q' \<Longrightarrow> sys_inv N q'"
      by (rule enter_context [OF B(1,2,3,5) no_groups ipc(2) entry]) (rule that)
    let ?q' = "q\<lparr>pw_lib := s', pw_w := (pw_w q)\<lparr>xw_ipc := (xw_ipc (pw_w q))(?c \<mapsto> ipc)\<rparr>, pw_names := Some (names(name \<mapsto> ?c)),
      pw_hints := app_hint_init (e_hint_log V) (pw_hints q)\<rparr>"
    have "new_context V type role name p = Some (Some ?c, ?q')"
      using k by (simp only: steps made(1) ipc(1) names) (simp add: ins)
    moreover have "sys_inv N ?q'" by (rule si) (use sys_invD(7) [OF B(1)] in simp_all)
    moreover have "entered_context ?c ?q'"
    proof -
      note G = grownD [OF buildingD(2) [OF made(2)]]
      from G(8) [OF g] obtain node ob where n: "next_addr (pw_lib ?p0) \<le> g" "gnodes (pw_lib q) g = Some node"
        "objs (pw_lib q) (gn_data node) = Some ob" "obj_type ob = PWR_OBJ_NODE" by (auto simp: root_ok_def)
      have le: "next_addr (pw_lib ?p0) \<le> gn_data node" using G(7) [OF n(1,2)] by (auto simp: new_node_ok_def)
      have "has_type (pw_lib q) (gn_data node) OPAQUE_OBJECT" using G(5) [OF le n(3)] by (simp add: new_obj_ok_def)
      then have "has_type s' (gn_data node) OPAQUE_OBJECT" using s'(5) [of "gn_data node"] le by (auto simp: has_type_def s1_def)
      with n s' g k show ?thesis by (auto simp: entered_context_def has_type_def)
    qed
    ultimately show ?thesis using that(2) [of ?c ?q'] names(2) by simp
  qed
qed

subsection \<open>The calls of a process\<close>

text \<open>
  What holds between the calls of a process: as soon as the library can be initialised, its invariant holds.
  \<open>N\<close> bounds the keys that are still to be taken.
\<close>

definition ready :: "nat \<Rightarrow> env \<Rightarrow> pwr \<Rightarrow> bool" where
  "ready N V p \<longleftrightarrow> (case global_init V p of (ok, p') \<Rightarrow> ok \<longrightarrow> sys_inv N p')"

lemma ready_sys_inv: "pw_plugin p \<Longrightarrow> ready N V p \<longleftrightarrow> sys_inv N p"
  by (simp add: ready_def global_init_def)

lemma sys_inv_mono: "sys_inv N p \<Longrightarrow> M \<le> N \<Longrightarrow> sys_inv M p"
  using ample_mono [of N "pw_lib p" M] by (simp add: sys_inv_def)

lemma ready_mono: "ready N V p \<Longrightarrow> M \<le> N \<Longrightarrow> ready M V p"
  using sys_inv_mono by (auto simp: ready_def)

lemma key32_of_type:
  assumes "opaque_inv s" "has_type s a t"
  shows "key32 (key_at s a)"
proof -
  from assms(2) obtain r where r: "refs s a = Some r" "ref_key r \<noteq> 0" by (auto simp: has_type_def)
  with assms(1) have "opaque_map_lookup s (ref_key r) = Some a" by (simp add: opaque_inv_def keyed_ok_def)
  with assms(1) r(2) have "entry_ok s (ref_key r) a" by (simp add: opaque_inv_def)
  with r show ?thesis by (simp add: entry_ok_def key_at_def)
qed

lemma entered_entry_point:
  assumes "sys_inv N p" "entered_context c p"
  obtains r ho where "refs (pw_lib p) c = Some r"
    "PWR_CntxtGetEntryPoint (OPAQUE_GENERATE (ref_key r) (ref_key r)) p = Some (PWR_RET_SUCCESS, Some ho)"
    "PWR_ObjGetType ho (pw_lib p) = Some (PWR_RET_SUCCESS, PWR_OBJ_NODE)"
proof -
  let ?s = "pw_lib p"
  have inv: "opaque_inv ?s" using group_invD(1) [OF sys_invD(1) [OF assms(1)]] .
  from assms(2) obtain ctx g node ob where e: "has_type ?s c OPAQUE_CONTEXT" "ctxs ?s c = Some ctx" "ctx_entry_point ctx = Some g"
    "gnodes ?s g = Some node" "has_type ?s (gn_data node) OPAQUE_OBJECT" "objs ?s (gn_data node) = Some ob" "obj_type ob = PWR_OBJ_NODE"
    by (auto simp: entered_context_def)
  from e(1,5) obtain r r' where r: "refs ?s c = Some r" "refs ?s (gn_data node) = Some r'" by (auto simp: has_type_def)
  then have k: "key_at ?s c = ref_key r" "key_at ?s (gn_data node) = ref_key r'" by (simp_all add: key_at_def)
  have k32: "key32 (ref_key r)" "key32 (ref_key r')" using key32_of_type [OF inv e(1)] key32_of_type [OF inv e(5)] k by simp_all
  have "context_by_handle (OPAQUE_GENERATE (ref_key r) (ref_key r)) p = Some (Some c)"
    using has_type_lookup [OF inv e(1)] k k32 by (simp add: context_by_handle_def context_key_generate data_key_generate lookup_context_def)
  moreover have "PWR_ObjGetType (OPAQUE_GENERATE (ref_key r) (ref_key r')) ?s = Some (PWR_RET_SUCCESS, PWR_OBJ_NODE)"
    using has_type_lookup [OF inv e(5)] k k32 e(6,7) by (simp add: PWR_ObjGetType_def data_key_generate lookup_object_def)
  moreover from calculation(1) have "PWR_CntxtGetEntryPoint (OPAQUE_GENERATE (ref_key r) (ref_key r)) p =
      Some (PWR_RET_SUCCESS, Some (OPAQUE_GENERATE (ref_key r) (ref_key r')))"
    using e(2-4) r by (simp add: PWR_CntxtGetEntryPoint_def)
  ultimately show ?thesis using r(1) that by blast
qed

lemma accesses_after:
  assumes "sys_inv N p" "\<forall>x \<in> set accesses. access_ok (pw_lib p) x"
  shows "run_accesses E (pw_lib p) accesses (pw_w p) \<noteq> None"
  using accesses_return [OF sys_invD(1-4) [OF assms(1)] assms(2)] by blast

text \<open>The part of the call that follows the initialisation of the library.\<close>

definition init_context :: "env \<Rightarrow> int \<Rightarrow> int \<Rightarrow> string \<Rightarrow> pwr \<Rightarrow> (int \<times> key option \<times> pwr) option" where
  "init_context V type role name p =
     (if type \<noteq> PWR_CNTXT_DEFAULT \<or> role \<noteq> Contexts.PWR_ROLE_RM \<and> role \<noteq> PWR_ROLE_APP then Some (PWR_RET_NOT_IMPLEMENTED, None, p)
      else do {
        (ctx_ptr, p) \<leftarrow> new_context V type role name p;
        case ctx_ptr of
          None \<Rightarrow> Some (PWR_RET_FAILURE, None, p)
        | Some c \<Rightarrow> do { r \<leftarrow> refs (pw_lib p) c; Some (PWR_RET_SUCCESS, Some (OPAQUE_GENERATE (ref_key r) (ref_key r)), p) }
      })"

definition with_names :: "pwr \<Rightarrow> pwr" where
  "with_names p = (case pw_names p of None \<Rightarrow> p\<lparr>pw_names := Some Map.empty\<rparr> | Some _ \<Rightarrow> p)"

lemma with_names_sel [simp]:
  "pw_lib (with_names p) = pw_lib p" "pw_w (with_names p) = pw_w p" "pw_plugin (with_names p) = pw_plugin p" "\<exists>m. pw_names (with_names p) = Some m"
  by (simp_all add: with_names_def split: option.split)

lemma PWR_CntxtInit_init_context:
  "global_init V p = (True, p1) \<Longrightarrow> PWR_CntxtInit V type role name p = init_context V type role name (with_names p1)"
  by (simp add: PWR_CntxtInit_def init_context_def with_names_def Let_def)

definition usable :: "int \<Rightarrow> int \<Rightarrow> key option \<Rightarrow> pwr \<Rightarrow> bool" where
  "usable type role h p \<longleftrightarrow> type = PWR_CNTXT_DEFAULT \<and> role \<in> {PWR_ROLE_APP, Contexts.PWR_ROLE_RM} \<and>
     (\<exists>hc ho. h = Some hc \<and> PWR_CntxtGetEntryPoint hc p = Some (PWR_RET_SUCCESS, Some ho) \<and>
        PWR_ObjGetType ho (pw_lib p) = Some (PWR_RET_SUCCESS, PWR_OBJ_NODE)) \<and>
     (\<forall>E accesses. (\<forall>x \<in> set accesses. access_ok (pw_lib p) x) \<longrightarrow> run_accesses E (pw_lib p) accesses (pw_w p) \<noteq> None)"

lemma init_context_returns:
  assumes inv: "sys_inv (N + 4 * M + 4) p" and h: "healthy (e_penv V) M (sw_fs (pw_w p))" "M \<le> 2 ^ 31" and names: "pw_names p \<noteq> None"
  obtains st h p' where "init_context V type role name p = Some (st, h, p')" "sys_inv N p'" "sw_fs (pw_w p') = sw_fs (pw_w p)"
    "st = PWR_RET_SUCCESS \<Longrightarrow> usable type role h p'"
proof (cases "type \<noteq> PWR_CNTXT_DEFAULT \<or> role \<noteq> Contexts.PWR_ROLE_RM \<and> role \<noteq> PWR_ROLE_APP")
  case True
  then have "init_context V type role name p = Some (PWR_RET_NOT_IMPLEMENTED, None, p)" unfolding init_context_def by (rule if_P)
  moreover have "sys_inv N p" using sys_inv_mono [OF inv, of N] by simp
  ultimately show ?thesis using that by simp
next
  case False
  then have start: "init_context V type role name p =
      do {
        (ctx_ptr, p) \<leftarrow> new_context V type role name p;
        case ctx_ptr of
          None \<Rightarrow> Some (PWR_RET_FAILURE, None, p)
        | Some c \<Rightarrow> do { r \<leftarrow> refs (pw_lib p) c; Some (PWR_RET_SUCCESS, Some (OPAQUE_GENERATE (ref_key r) (ref_key r)), p) }
      }"
    unfolding init_context_def by (rule if_not_P)
  from new_context_returns [OF assms, of type role name] consider
    (unmade) q where "new_context V type role name p = Some (None, q)" "sys_inv N q" "sw_fs (pw_w q) = sw_fs (pw_w p)"
    | (made) q c where "new_context V type role name p = Some (Some c, q)" "sys_inv N q" "sw_fs (pw_w q) = sw_fs (pw_w p)" "entered_context c q"
    by metis
  then show ?thesis
  proof cases
    case unmade
    then show ?thesis using that [of PWR_RET_FAILURE None q] by (simp add: start)
  next
    case made
    from entered_entry_point [OF made(2,4)] obtain r ho where r: "refs (pw_lib q) c = Some r"
      "PWR_CntxtGetEntryPoint (OPAQUE_GENERATE (ref_key r) (ref_key r)) q = Some (PWR_RET_SUCCESS, Some ho)"
      "PWR_ObjGetType ho (pw_lib q) = Some (PWR_RET_SUCCESS, PWR_OBJ_NODE)" .
    have "usable type role (Some (OPAQUE_GENERATE (ref_key r) (ref_key r))) q"
      unfolding usable_def using False r(2,3) accesses_after [OF made(2)] by auto
    then show ?thesis using that made(1-3) r(1) by (simp add: start)
  qed
qed


subsection \<open>An example\<close>

text \<open>
  A generator that draws zero and then the numbers up to \<open>K\<close>, over and over. It is good for
  fewer than \<open>K\<close> keys.
\<close>

definition cyclic :: "nat \<Rightarrow> nat \<Rightarrow> 32 word" where
  "cyclic K n = of_nat (n mod Suc K)"

lemma cyclic_fresh:
  assumes "0 < K" "K < 2 ^ 32" "finite S" "card S < K"
  shows "\<exists>n\<ge>i. cyclic K n \<notin> S \<and> cyclic K n \<noteq> 0"
proof -
  have val: "cyclic K (i * Suc K + Suc j) = of_nat (Suc j)" "unat (of_nat (Suc j) :: 32 word) = Suc j" if "j < K" for j
  proof -
    have "(i * Suc K + Suc j) mod Suc K = Suc j" using that by (metis Suc_less_eq add.commute mod_less mod_mult_self2 mult.commute)
    then show "cyclic K (i * Suc K + Suc j) = of_nat (Suc j)" by (simp only: cyclic_def)
    have "Suc j < 2 ^ 32" using that assms(2) by simp
    then show "unat (of_nat (Suc j) :: 32 word) = Suc j" by (simp add: unat_of_nat del: of_nat_Suc)
  qed
  have "inj_on (\<lambda>j. cyclic K (i * Suc K + Suc j)) {..<K}"
  proof (rule inj_onI)
    fix j l assume jl: "j \<in> {..<K}" "l \<in> {..<K}" "cyclic K (i * Suc K + Suc j) = cyclic K (i * Suc K + Suc l)"
    then have jK: "j < K" "l < K" by simp_all
    have "(of_nat (Suc j) :: 32 word) = of_nat (Suc l)" using jl(3) unfolding val(1) [OF jK(1)] val(1) [OF jK(2)] .
    then have "Suc j = Suc l" using val(2) [OF jK(1)] val(2) [OF jK(2)] by metis
    then show "j = l" by (rule Suc_inject)
  qed
  then have "card ((\<lambda>j. cyclic K (i * Suc K + Suc j)) ` {..<K}) = K" by (simp add: card_image)
  with assms(3,4) have "\<not> (\<lambda>j. cyclic K (i * Suc K + Suc j)) ` {..<K} \<subseteq> S" using card_mono [of S] by (metis not_le)
  then obtain j where j: "j < K" "cyclic K (i * Suc K + Suc j) \<notin> S" by auto
  have "cyclic K (i * Suc K + Suc j) \<noteq> 0" using val [OF j(1)] by (metis nat.distinct(1) unat_0)
  moreover have "i \<le> i * Suc K + Suc j" by simp
  ultimately show ?thesis using j(2) by blast
qed

definition machine_files :: filesystem where
  "machine_files =
     \<lparr>files = [''/sys/rate'' \<mapsto> ''10'', ''/sys/kernel_max'' \<mapsto> ''8''], readable = (\<lambda>_. True), writable = (\<lambda>_. True),
      accepts = (\<lambda>_ _. True), dirents = (\<lambda>_. None)\<rparr>"

definition machine :: env where
  "machine =
     \<lparr>e_penv = \<lparr>pe_lib = \<lparr>c_strtod = (\<lambda>s. (0, s, False)), c_print_lf = (\<lambda>_. ''0''), c_oor = (\<lambda>_. 0)\<rparr>,
                pe_sys = [''node_update_rate_path'' \<mapsto> ''/sys/rate'', ''kernel_max_path'' \<mapsto> ''/sys/kernel_max''], pe_cpuid = 0x306f2\<rparr>,
      e_cpu = 0, e_hint_log = False, e_rand = Some (cyclic 100)\<rparr>"

definition fresh_process :: pwr where
  "fresh_process =
     \<lparr>pw_lib = \<lparr>opaque_map = None, refs = Map.empty, next_addr = 0, links = Map.empty, ctxs = Map.empty, grps = Map.empty,
        objs = Map.empty, statuses = Map.empty, stats = Map.empty, gnodes = Map.empty\<rparr>,
      pw_hints = \<lparr>hs_hints = Map.empty, hs_obj = Map.empty, hs_names = Map.empty, hs_unique = (\<lambda>_. 0), hs_logctx = False,
        hs_initcount = 0, hs_log = []\<rparr>,
      pw_w = example_xworld\<lparr>sw_fs := (\<lambda>_. machine_files)\<rparr>, pw_h = empty_hierarchy, pw_names = None, pw_plugin = False\<rparr>"

lemma fresh_process_ready: "ready 99 machine fresh_process"
proof -
  let ?p = "fresh_process\<lparr>pw_lib := (pw_lib fresh_process)\<lparr>opaque_map := Some \<lparr>rand_seq = cyclic 100, table = Map.empty\<rparr>\<rparr>, pw_plugin := True\<rparr>"
  have g: "global_init machine fresh_process = (True, ?p)"
    by (simp add: global_init_def opaque_map_new_def fresh_process_def machine_def)
  have "ample 99 (pw_lib ?p)"
    using cyclic_fresh [of 100] by (simp add: ample_def fresh_draw_def Bex_def)
  moreover have "group_inv (pw_lib ?p)"
    by (simp add: group_inv_def opaque_inv_def fresh_ok_def typed_ok_def has_type_def opaque_map_lookup_def fresh_process_def)
  moreover have "sys_inv 99 ?p = (group_inv (pw_lib ?p) \<and> ample 99 (pw_lib ?p))"
    by (simp add: sys_inv_def linked_def objects_typed_def has_type_def tree_ok_def plugin_ready_def fresh_process_def example_xworld_def xworld.defs ipcworld.defs)
  ultimately show ?thesis using g by (simp add: ready_def)
qed

lemma machine_healthy: "healthy (e_penv machine) 8 (sw_fs (pw_w fresh_process))"
proof -
  let ?E = "e_penv machine" and ?fs = "sw_fs (pw_w fresh_process)"
  have fs: "?fs = (\<lambda>_. machine_files)" by (simp add: fresh_process_def)
  have contents: "g_file_get_contents (Some ''/sys/kernel_max'') w = (Some ''8'', tick w)" if "sw_fs w = ?fs" for w :: xworld
    using that by (simp add: fs machine_files_def g_file_get_contents_def fopen_r_def)
  have shown: "show_nat (unat (10 :: 64 word)) = ''10''" "show_nat (unat (8 :: 32 word)) = ''8''"
    by (simp_all add: show_nat.simps digit_char_def char_of_def bit_0)
  have line: "c_string (takeWhile (\<lambda>c. c \<noteq> char_of (10 :: nat)) ''8'') = ''8''" by code_simp
  have num: "scan_uint ''8'' = Some (8, [])"
    using scan_uint_show [of "[]" "[]" "8 :: 32 word"] unfolding shown by (simp add: ends_number_def)
  have paths: "path0 ?E ''node_update_rate_path'' = Some ''/sys/rate''" "path0 ?E ''kernel_max_path'' = Some ''/sys/kernel_max''"
    by (simp_all add: machine_def)
  have "read_uint64_from_file (pe_lib ?E) (path0 ?E ''node_update_rate_path'') False w = (PWR_RET_SUCCESS, 10, None, tick w)" if "sw_fs w = ?fs" for w :: xworld
  proof -
    have "fopen_r ''/sys/rate'' (now_fs w) = Some (show_nat (unat (10 :: 64 word)))"
      unfolding shown by (simp add: that fs machine_files_def fopen_r_def)
    then show ?thesis unfolding paths by (rule read_shown) simp_all
  qed
  moreover have "x86_read_uint32 (path0 ?E ''kernel_max_path'') w = (0, Some 8, tick w)" if "sw_fs w = ?fs" for w :: xworld
  proof -
    have "x86_read_line (Some ''/sys/kernel_max'') w = (Some ''8'', tick w)"
      unfolding x86_read_line_def contents [OF that] by (simp only: prod.case option.case line) simp
    then show ?thesis by (simp only: x86_read_uint32_def paths prod.case option.case num)
  qed
  moreover have "path_fmt ?E ''rapl_pkg_name_path'' a = None" "path_fmt ?E ''rapl_sub_name_path'' a = None" "path0 ?E ''procfs_cpuinfo'' = None" for a
    by (simp_all add: machine_def g_strdup_printf_def)
  ultimately show ?thesis by (simp add: healthy_def)
qed


end
