(* ===== verification/Named_Groups.thy ===== *)
theory Named_Groups
  imports Context_Properties
begin

text \<open>
  The groups that a context has by name: \<^verbatim>\<open>PWR_CntxtGetGrpByName\<close> of \<^verbatim>\<open>lib/group.c\<close>, which walks the
  tree of the context and collects the objects of one type.
\<close>

subsection \<open>The walk\<close>

text \<open>
  \<^verbatim>\<open>g_node_traverse\<close> in order: the nodes below the first child, the node, the nodes below the other children. The
  fuel is the number of addresses used so far, as for \<open>tree_nodes\<close>.
\<close>

fun in_order_nodes :: "nat \<Rightarrow> lib \<Rightarrow> addr \<Rightarrow> addr list option" where
  "in_order_nodes 0 s g = None"
| "in_order_nodes (Suc n) s g =
     do {
       node \<leftarrow> gnodes s g;
       rs \<leftarrow> those (map (in_order_nodes n s) (gn_children node));
       Some (case rs of [] \<Rightarrow> [g] | r # rest \<Rightarrow> r @ g # concat rest)
     }"

text \<open>The number of errors so far and the state; the visit does not change the tree.\<close>

definition populate_named_group :: "addr \<Rightarrow> int \<Rightarrow> addr \<Rightarrow> int \<Rightarrow> lib \<Rightarrow> (int \<times> lib) option" where
  "populate_named_group grp type gn errors s =
     do {
       node \<leftarrow> gnodes s gn;
       obj \<leftarrow> objs s (gn_data node);
       if obj_type obj = type then do {
         (ok, s) \<leftarrow> group_insert_obj grp (gn_data node) s;
         Some (if \<not> ok then errors + 1 else errors, s)
       }
       else Some (errors, s)
     }"

fun populate_all :: "addr \<Rightarrow> int \<Rightarrow> addr list \<Rightarrow> int \<Rightarrow> lib \<Rightarrow> (int \<times> lib) option" where
  "populate_all grp type [] errors s = Some (errors, s)"
| "populate_all grp type (gn # gns) errors s =
     do { (errors, s) \<leftarrow> populate_named_group grp type gn errors s; populate_all grp type gns errors s }"

text \<open>Without an entry point GLib only warns.\<close>

definition populate_traverse :: "addr option \<Rightarrow> addr \<Rightarrow> int \<Rightarrow> lib \<Rightarrow> (int \<times> lib) option" where
  "populate_traverse entry_point grp type s =
     (case entry_point of
        None \<Rightarrow> Some (0, s)
      | Some g \<Rightarrow> do { gns \<leftarrow> in_order_nodes (next_addr s) s g; populate_all grp type gns 0 s })"

subsection \<open>The call\<close>

abbreviation PWR_RET_WARN_NO_GRP_BY_NAME :: int where "PWR_RET_WARN_NO_GRP_BY_NAME \<equiv> 4"

definition named_groups :: "(string \<times> int) list" where
  "named_groups =
     [(''all_socket'', PWR_OBJ_SOCKET), (''all_core'', PWR_OBJ_CORE), (''all_mem'', PWR_OBJ_MEM), (''all_ht'', PWR_OBJ_HT)]"

text \<open>The name may be NULL; \<open>wanted\<close> says that the pointer for the result is not.\<close>

definition PWR_CntxtGetGrpByName :: "key \<Rightarrow> string option \<Rightarrow> bool \<Rightarrow> lib \<Rightarrow> (int \<times> key option \<times> lib) option" where
  "PWR_CntxtGetGrpByName context name wanted s =
     (let ctx_key = OPAQUE_GET_CONTEXT_KEY context in
      case name of
        None \<Rightarrow> Some (PWR_RET_FAILURE, None, s)
      | Some name \<Rightarrow>
          if \<not> wanted then Some (PWR_RET_FAILURE, None, s)
          else
            (case map_of named_groups name of
               None \<Rightarrow> Some (PWR_RET_WARN_NO_GRP_BY_NAME, None, s)
             | Some type \<Rightarrow>
                 if ctx_key \<noteq> OPAQUE_GET_DATA_KEY context then Some (PWR_RET_FAILURE, None, s)
                 else do {
                   ctx \<leftarrow> find_context_by_opaque context s;
                   case ctx of
                     None \<Rightarrow> Some (PWR_RET_FAILURE, None, s)
                   | Some c \<Rightarrow>
                       do {
                         (grp, s) \<leftarrow> context_new_group c s;
                         case grp of
                           None \<Rightarrow> Some (PWR_RET_FAILURE, None, s)
                         | Some a \<Rightarrow>
                             do {
                               cx \<leftarrow> ctxs s c;
                               (errors, s) \<leftarrow> populate_traverse (ctx_entry_point cx) a type s;
                               if errors \<noteq> 0 then do { s \<leftarrow> context_del_group c a s; Some (PWR_RET_FAILURE, None, s) }
                               else do {
                                 rc \<leftarrow> refs s c;
                                 ra \<leftarrow> refs s a;
                                 Some (PWR_RET_SUCCESS, Some (OPAQUE_GENERATE (ref_key rc) (ref_key ra)), s)
                               }
                             }
                       }
                 }))"

subsection \<open>The nodes of a tree\<close>

inductive below :: "lib \<Rightarrow> addr \<Rightarrow> addr \<Rightarrow> bool" for s where
  self: "gnodes s g \<noteq> None \<Longrightarrow> below s g g"
| child: "gnodes s g = Some node \<Longrightarrow> d \<in> set (gn_children node) \<Longrightarrow> below s d e \<Longrightarrow> below s g e"

lemma below_cong:
  assumes "gnodes s' = gnodes s"
  shows "below s' = below s"
proof -
  have "below t' g d" if "below t g d" "gnodes t' = gnodes t" for t t' g d
    using that by (induction rule: below.induct) (auto intro: below.intros)
  with assms show ?thesis by (intro ext iffI) metis+
qed

lemma in_order_below:
  assumes "tree_ok s" "\<And>g. gnodes s g \<noteq> None \<Longrightarrow> g < next_addr s" "gnodes s g \<noteq> None" "next_addr s - g \<le> n"
  shows "\<exists>ns. in_order_nodes n s g = Some ns \<and> set ns = {e. below s g e}"
  using assms(3,4)
proof (induction n arbitrary: g)
  case 0
  with assms(2) [of g] show ?case by simp
next
  case (Suc n)
  then obtain node where node: "gnodes s g = Some node" by blast
  have kids: "\<exists>ns. in_order_nodes n s d = Some ns \<and> set ns = {e. below s d e}" if d: "d \<in> set (gn_children node)" for d
  proof (rule Suc.IH)
    from assms(1) node d have up: "g < d" "node_obj s d \<noteq> None" unfolding tree_ok_def by fastforce+
    then show "gnodes s d \<noteq> None" by (auto simp: node_obj_def)
    then show "next_addr s - d \<le> n" using up(1) Suc.prems(2) by linarith
  qed
  let ?f = "\<lambda>d. the (in_order_nodes n s d)" and ?ds = "gn_children node"
  have f: "in_order_nodes n s d = Some (?f d)" "set (?f d) = {e. below s d e}" if "d \<in> set ?ds" for d
    using kids [OF that] by auto
  have "those (map (in_order_nodes n s) ?ds) = Some (map ?f ?ds)" using those_map_Some [of ?ds "in_order_nodes n s" ?f] f(1) by blast
  then have "in_order_nodes (Suc n) s g = Some (case map ?f ?ds of [] \<Rightarrow> [g] | r # rest \<Rightarrow> r @ g # concat rest)" (is "_ = Some ?ns")
    by (simp add: node)
  moreover have "set ?ns = insert g (\<Union>d \<in> set ?ds. {e. below s d e})"
    using f(2) by (cases ?ds) auto
  moreover have "insert g (\<Union>d \<in> set ?ds. {e. below s d e}) = {e. below s g e}"
    using node by (auto intro: below.intros elim: below.cases)
  ultimately show ?case by blast
qed

subsection \<open>Collecting the objects\<close>

definition nodes_of :: "lib \<Rightarrow> int \<Rightarrow> addr set \<Rightarrow> addr set" where
  "nodes_of s t G = {a. \<exists>g \<in> G. \<exists>ob. node_obj s g = Some (a, ob) \<and> obj_type ob = t}"

lemma nodes_of_insert:
  "node_obj s g = Some (a, ob) \<Longrightarrow> nodes_of s t (insert g G) = (if obj_type ob = t then insert a (nodes_of s t G) else nodes_of s t G)"
  by (auto simp: nodes_of_def)

lemma nodes_of_cong: "objs s' = objs s \<Longrightarrow> gnodes s' = gnodes s \<Longrightarrow> nodes_of s' = nodes_of s"
  using node_obj_cong [of s' s] by (simp add: nodes_of_def fun_eq_iff)

lemma populate_all_ok:
  assumes "group_inv s" "grps s ga = Some g"
    and "\<forall>d \<in> set ds. \<exists>a ob. node_obj s d = Some (a, ob) \<and> has_type s a OPAQUE_OBJECT"
  shows "\<exists>xs. populate_all ga t ds e s = Some (e, s\<lparr>grps := (grps s)(ga \<mapsto> g\<lparr>grp_list := xs\<rparr>)\<rparr>) \<and>
    group_inv (s\<lparr>grps := (grps s)(ga \<mapsto> g\<lparr>grp_list := xs\<rparr>)\<rparr>) \<and> set xs = set (grp_list g) \<union> nodes_of s t (set ds)"
  using assms
proof (induction ds arbitrary: s g)
  case Nil
  have same: "s\<lparr>grps := (grps s)(ga \<mapsto> g\<lparr>grp_list := grp_list g\<rparr>)\<rparr> = s" using Nil by (simp add: map_upd_triv)
  show ?case by (rule exI [of _ "grp_list g"], unfold same) (use Nil in \<open>simp add: nodes_of_def\<close>)
next
  case (Cons d ds)
  then obtain a ob where d: "node_obj s d = Some (a, ob)" "has_type s a OPAQUE_OBJECT" by auto
  then obtain node where node: "gnodes s d = Some node" "objs s (gn_data node) = Some ob" "gn_data node = a"
    by (auto simp: node_obj_def split: bind_splits)
  obtain ys where step: "populate_named_group ga t d e s = Some (e, s\<lparr>grps := (grps s)(ga \<mapsto> g\<lparr>grp_list := ys\<rparr>)\<rparr>)"
    and inv: "group_inv (s\<lparr>grps := (grps s)(ga \<mapsto> g\<lparr>grp_list := ys\<rparr>)\<rparr>)"
    and ys: "set ys = (if obj_type ob = t then insert a (set (grp_list g)) else set (grp_list g))"
  proof (cases "obj_type ob = t")
    case True
    obtain ys where "group_insert_obj ga a s = Some (True, s\<lparr>grps := (grps s)(ga \<mapsto> g\<lparr>grp_list := ys\<rparr>)\<rparr>)"
      "set ys = insert a (set (grp_list g))" "group_inv (s\<lparr>grps := (grps s)(ga \<mapsto> g\<lparr>grp_list := ys\<rparr>)\<rparr>)"
      using group_insert_obj_ok [OF Cons.prems(1,2) d(2)] by metis
    with True node show ?thesis by (intro that [of ys]) (simp_all add: populate_named_group_def)
  next
    case False
    have "s\<lparr>grps := (grps s)(ga \<mapsto> g\<lparr>grp_list := grp_list g\<rparr>)\<rparr> = s" using Cons.prems(2) by (simp add: map_upd_triv)
    with False node Cons.prems(1) show ?thesis by (intro that [of "grp_list g"]) (simp_all add: populate_named_group_def)
  qed
  let ?s = "s\<lparr>grps := (grps s)(ga \<mapsto> g\<lparr>grp_list := ys\<rparr>)\<rparr>" and ?g = "g\<lparr>grp_list := ys\<rparr>"
  have same: "node_obj ?s = node_obj s" "nodes_of ?s = nodes_of s" by (rule node_obj_cong nodes_of_cong; simp)+
  have t: "\<forall>d \<in> set ds. \<exists>a ob. node_obj ?s d = Some (a, ob) \<and> has_type ?s a OPAQUE_OBJECT"
    using Cons.prems(3) by (simp add: same has_type_def)
  have two: "?s\<lparr>grps := (grps ?s)(ga \<mapsto> ?g\<lparr>grp_list := xs\<rparr>)\<rparr> = s\<lparr>grps := (grps s)(ga \<mapsto> g\<lparr>grp_list := xs\<rparr>)\<rparr>" for xs
    by simp
  have g: "grps ?s ga = Some ?g" by simp
  from Cons.IH [OF inv g t, unfolded two same] obtain xs where
    xs: "populate_all ga t ds e ?s = Some (e, s\<lparr>grps := (grps s)(ga \<mapsto> g\<lparr>grp_list := xs\<rparr>)\<rparr>)"
    "group_inv (s\<lparr>grps := (grps s)(ga \<mapsto> g\<lparr>grp_list := xs\<rparr>)\<rparr>)" "set xs = set (grp_list ?g) \<union> nodes_of s t (set ds)" by blast
  from xs(1) step have "populate_all ga t (d # ds) e s = Some (e, s\<lparr>grps := (grps s)(ga \<mapsto> g\<lparr>grp_list := xs\<rparr>)\<rparr>)" by simp
  moreover have "set xs = set (grp_list g) \<union> nodes_of s t (set (d # ds))"
    using xs(3) ys nodes_of_insert [OF d(1), of t "set ds"] by simp
  ultimately show ?case using xs(2) by blast
qed

text \<open>Every node of the tree of a context belongs to an object that has a handle.\<close>

lemma below_objects:
  assumes "tree_ok s" "linked s" "below s g d" "node_obj s g \<noteq> None"
  obtains a ob where "node_obj s d = Some (a, ob)" "has_type s a OPAQUE_OBJECT"
proof -
  from assms(3,4) have "node_obj s d \<noteq> None"
  proof induction
    case (child g node d e)
    with assms(1) show ?case unfolding tree_ok_def by fastforce
  qed
  then obtain a ob where d: "node_obj s d = Some (a, ob)" by auto
  then have "objs s a = Some ob" by (auto simp: node_obj_def split: bind_splits)
  with that d linkedD(1) [OF assms(2)] show ?thesis by blast
qed

lemma populate_traverse_ok:
  assumes inv: "group_inv s" "grps s ga = Some grp" and tree: "tree_ok s" "linked s" "\<And>g. gnodes s g \<noteq> None \<Longrightarrow> g < next_addr s"
    and entry: "\<And>g. entry = Some g \<Longrightarrow> node_obj s g \<noteq> None"
  shows "\<exists>xs. populate_traverse entry ga t s = Some (0, s\<lparr>grps := (grps s)(ga \<mapsto> grp\<lparr>grp_list := xs\<rparr>)\<rparr>) \<and>
    group_inv (s\<lparr>grps := (grps s)(ga \<mapsto> grp\<lparr>grp_list := xs\<rparr>)\<rparr>) \<and>
    set xs = set (grp_list grp) \<union> nodes_of s t {d. \<exists>g. entry = Some g \<and> below s g d}"
proof (cases entry)
  case None
  then show ?thesis using populate_all_ok [OF inv, of "[]" t 0] by (simp add: populate_traverse_def nodes_of_def)
next
  case (Some g)
  note e = entry [OF Some]
  then have "gnodes s g \<noteq> None" by (auto simp: node_obj_def)
  from in_order_below [OF tree(1,3) this, of "next_addr s"] obtain ns where ns: "in_order_nodes (next_addr s) s g = Some ns" "set ns = {e. below s g e}" by auto
  have "\<forall>d \<in> set ns. \<exists>a ob. node_obj s d = Some (a, ob) \<and> has_type s a OPAQUE_OBJECT"
    using below_objects [OF tree(1,2) _ e] ns(2) by blast
  from populate_all_ok [OF inv this, of t 0] show ?thesis using ns Some by (simp add: populate_traverse_def)
qed

subsection \<open>The result\<close>

lemma context_new_group_objs:
  assumes "context_new_group c s = Some (Some a, s')" shows "objs s' = objs s"
proof -
  have "objs s' = objs s" if "opaque_map_insert t b s = Some (k, s')" for t b k and s s' :: lib
    using that by (auto simp: opaque_map_insert_def split: option.splits prod.splits)
  with assms show ?thesis
    by (auto simp: context_new_group_def new_group_def alloc_group_def alloc_ref_def g_list_prepend_def Let_def
        split: if_splits option.splits prod.splits bind_splits)
qed

lemma context_new_group_ample:
  assumes "context_new_group c s = Some (Some a, s')" "ample (Suc N) s" shows "ample N s'"
proof -
  let ?s = "snd (alloc_group s)"
  have "ample (Suc N) ?s" using assms(2) by (simp add: alloc_group_def alloc_ref_def ample_def)
  with assms(1) show ?thesis
    by (auto simp: context_new_group_def new_group_def g_list_prepend_def Let_def case_prod_beta dest!: insert_ample
        split: if_splits option.splits prod.splits bind_splits) (auto simp: ample_def)
qed

lemma tree_ok_mono:
  assumes "tree_ok s" "objs s' = objs s" "gnodes s' = gnodes s" "next_addr s \<le> next_addr s'"
  shows "tree_ok s'"
  using assms(1,4) node_obj_cong [OF assms(2,3)] unfolding tree_ok_def by (simp add: assms(2,3)) (meson less_le_trans)

text \<open>What the call promises: a status and the members of the new group, if there is one.\<close>

definition tree_objects :: "lib \<Rightarrow> key \<Rightarrow> int \<Rightarrow> addr set" where
  "tree_objects s k t =
     {a. \<exists>c ctx g. lookup_context s k = Some (Some c) \<and> ctxs s c = Some ctx \<and> ctx_entry_point ctx = Some g \<and> a \<in> nodes_of s t {d. below s g d}}"

definition by_name :: "lib \<Rightarrow> key \<Rightarrow> string option \<Rightarrow> bool \<Rightarrow> int \<times> addr set option" where
  "by_name s context name wanted =
     (case name of
        None \<Rightarrow> (PWR_RET_FAILURE, None)
      | Some n \<Rightarrow>
          if \<not> wanted then (PWR_RET_FAILURE, None)
          else
            (case map_of named_groups n of
               None \<Rightarrow> (PWR_RET_WARN_NO_GRP_BY_NAME, None)
             | Some t \<Rightarrow>
                 if ck context \<noteq> dk context \<or> ck context \<notin> context_view s then (PWR_RET_FAILURE, None)
                 else (PWR_RET_SUCCESS, Some (tree_objects s (ck context) t))))"

lemma named_group_made:
  assumes inv: "sys_inv (Suc N) p" and c: "find_context_by_opaque context (pw_lib p) = Some (Some c)" "ckey_ok (pw_lib p) context"
  obtains s1 s' hd where "context_new_group c (pw_lib p) = Some (Some (next_addr (pw_lib p)), s1)"
    "ctxs s1 c \<noteq> None" "\<And>cx1. ctxs s1 c = Some cx1 \<Longrightarrow> populate_traverse (ctx_entry_point cx1) (next_addr (pw_lib p)) t s1 = Some (0, s')"
    "\<exists>rc ra. refs s' c = Some rc \<and> refs s' (next_addr (pw_lib p)) = Some ra \<and> hd = OPAQUE_GENERATE (ref_key rc) (ref_key ra)"
    "sys_inv N (p\<lparr>pw_lib := s'\<rparr>)" "adds_group context (tree_objects (pw_lib p) (ck context) t) (abs_lib (pw_lib p)) hd (abs_lib s')"
proof -
  let ?s = "pw_lib p" and ?ga = "next_addr (pw_lib p)"
  note S = sys_invD [OF inv]
  note gi = S(1)
  obtain cx where cx: "ctxs ?s c = Some cx" "key_at ?s c = ck context" "has_type ?s c OPAQUE_CONTEXT" by (rule find_contextD [OF gi c])
  have look: "lookup_context ?s (ck context) = Some (Some c)"
    using has_type_lookup [OF group_invD(1) [OF gi] cx(3)] cx(2) by (simp add: lookup_context_def)
  obtain k s1 where new: "context_new_group c ?s = Some (Some ?ga, s1)" and post: "after_new_group c cx k ?s s1"
    using context_new_group_result [OF gi cx(1) ample_has_draw [OF S(5)]] by blast
  note inv1 = group_inv_new_group [OF gi cx(1) post] and view = abs_new_group [OF gi cx(1) post]
  let ?cx1 = "cx\<lparr>ctx_group_list := (Suc ?ga, ?ga) # ctx_group_list cx\<rparr>"
  from post obtain g where g: "grps s1 ?ga = Some g" "grp_list g = []" and cx1: "ctxs s1 = (ctxs ?s)(c \<mapsto> ?cx1)"
    and refs1: "refs s1 = (refs ?s)(?ga \<mapsto> \<lparr>ref_type = OPAQUE_GROUP, ref_key = k\<rparr>)" and next1: "next_addr s1 = Suc (Suc ?ga)"
    by (simp add: after_new_group_def Let_def)
  have gn: "gnodes s1 = gnodes ?s" "objs s1 = objs ?s" using context_new_group_gnodes [OF new] context_new_group_objs [OF new] .
  note same = node_obj_cong [OF gn(2,1)]
  have free: "refs ?s ?ga = None" by (rule sys_inv_fresh [OF inv order_refl])
  have types: "has_type s1 a OPAQUE_OBJECT = has_type ?s a OPAQUE_OBJECT" for a
    using free by (auto simp: has_type_def refs1)
  have tree1: "tree_ok s1" by (rule tree_ok_mono [OF S(3) gn(2,1)]) (simp add: next1)
  have linked1: "linked s1"
    unfolding linked_def
  proof (intro conjI allI impI)
    show "has_type s1 a OPAQUE_OBJECT" if "objs s1 a = Some ob" for a ob
      using linkedD(1) [OF S(9), of a ob] that by (simp add: types gn)
    show "node_obj s1 g \<noteq> None" if "ctxs s1 b = Some x" "ctx_entry_point x = Some g" for b x g
      using linkedD(2) [OF S(9) cx(1), of g] linkedD(2) [OF S(9), of b x g] that same by (cases "b = c") (auto simp: cx1)
  qed
  have below1: "g < next_addr s1" if "gnodes s1 g \<noteq> None" for g
    using S(8) [of g] that gn(1) next1 by (cases "?ga \<le> g") auto
  have entry: "node_obj s1 g \<noteq> None" if "ctx_entry_point cx = Some g" for g
    using linkedD(2) [OF S(9) cx(1), of g] that same by simp
  from populate_traverse_ok [where entry = "ctx_entry_point cx" and t = t, OF inv1 g(1) tree1 linked1 below1 entry] obtain xs where
    xs: "populate_traverse (ctx_entry_point cx) ?ga t s1 = Some (0, s1\<lparr>grps := (grps s1)(?ga \<mapsto> g\<lparr>grp_list := xs\<rparr>)\<rparr>)"
    "group_inv (s1\<lparr>grps := (grps s1)(?ga \<mapsto> g\<lparr>grp_list := xs\<rparr>)\<rparr>)" "set xs = nodes_of s1 t {d. \<exists>g. ctx_entry_point cx = Some g \<and> below s1 g d}"
    using g(2) by auto
  let ?s' = "s1\<lparr>grps := (grps s1)(?ga \<mapsto> g\<lparr>grp_list := xs\<rparr>)\<rparr>" and ?hd = "OPAQUE_GENERATE (key_at ?s c) k"
  have "below s1 = below ?s" by (rule below_cong [OF gn(1)])
  then have members: "set xs = tree_objects ?s (ck context) t"
    using look cx(1) by (auto simp: xs(3) tree_objects_def nodes_of_cong [OF gn(2,1)] nodes_of_def)
  have "abs_lib ?s' = (abs_lib s1)\<lparr>sp_groups := (group_view s1)(?hd \<mapsto> set xs)\<rparr>" by (rule abs_set_list [OF inv1 view(3) _ g(1)]) (simp add: dkey_ok_def view(5))
  then have "adds_group context (set xs) (abs_lib ?s) ?hd (abs_lib ?s')" using view cx(2) by (simp add: adds_group_def abs_lib_def)
  moreover have "sys_inv N (p\<lparr>pw_lib := ?s'\<rparr>)"
  proof -
    have "ample N ?s'" using context_new_group_ample [OF new S(5)] by (simp add: ample_def)
    moreover have "objects_typed ?s'" using S(2) types by (simp add: objects_typed_def gn has_type_def)
    moreover have "tree_ok ?s'" using tree1 tree_ok_cong [of ?s' s1] by simp
    moreover have "linked ?s'" using linked1 node_obj_cong [of ?s' s1] by (simp add: linked_def has_type_def)
    moreover have "plugin_ready ?s' (pw_w p)" using S(4) cx(1) by (simp add: plugin_ready_def gn cx1)
    ultimately show ?thesis using xs(2) S(6,7,8) cx(1) S(8) [of c] by (auto simp: sys_inv_def gn cx1 next1)
  qed
  moreover have "c \<noteq> ?ga" using cx(3) free by (auto simp: has_type_def)
  then have "\<exists>rc ra. refs ?s' c = Some rc \<and> refs ?s' ?ga = Some ra \<and> ?hd = OPAQUE_GENERATE (ref_key rc) (ref_key ra)"
    using cx(3) by (auto simp: refs1 has_type_def key_at_def)
  ultimately show ?thesis using that [OF new _ _ , of ?s' ?hd] xs(1) by (simp add: members cx1)
qed

lemma find_context_lookup:
  assumes "group_inv s" "ckey_ok s h"
  shows "find_context_by_opaque h s = Some (Some c) \<longleftrightarrow> lookup_context s (ck h) = Some (Some c)"
proof
  assume l: "lookup_context s (ck h) = Some (Some c)"
  obtain ctx where c: "key_at s c = ck h" "has_type s c OPAQUE_CONTEXT" by (rule lookup_contextD [OF assms(1) l assms(2) [unfolded ckey_ok_def]])
  then obtain r where r: "refs s c = Some r" "ref_key r = ck h" by (auto simp: has_type_def key_at_def)
  have "dk (ck h) = ck h" using key32_of_type [OF group_invD(1) [OF assms(1)] c(2)] c(1) by (simp add: key32_def OPAQUE_GET_DATA_KEY_def ac_simps)
  with l r show "find_context_by_opaque h s = Some (Some c)" by (simp add: find_context_by_opaque_def)
qed (auto simp: find_context_by_opaque_def Let_def split: option.splits if_splits bind_splits)

definition keeps_promise :: "key \<Rightarrow> lib \<Rightarrow> int \<times> addr set option \<Rightarrow> int \<times> key option \<times> lib \<Rightarrow> bool" where
  "keeps_promise context s promise result \<longleftrightarrow>
     (case (promise, result) of
        ((st, A), (st', h, s')) \<Rightarrow> st' = st \<and>
          (case A of
             None \<Rightarrow> h = None \<and> s' = s
           | Some members \<Rightarrow> \<exists>hd. h = Some hd \<and> adds_group context members (abs_lib s) hd (abs_lib s')))"

text \<open>
  C11. In every state of the invariant \<open>sys_inv\<close> in which the generator is good for one more key, asking for a
  group by name returns and keeps the invariant. The status is the one that is promised for the arguments. A
  failing call changes nothing; otherwise there is one more group, in the context asked for, and its members are
  exactly the objects of the type of the name at the nodes of the tree below the entry point of that context.
  The invariant is established by the creation of contexts; in its states no group has a statistic. Zeros drawn by
  the generator are allowed; once a zero has left an entry in the table, the handle must not have a zero context
  key (\<open>ckey_ok\<close>), since it would find that entry.
\<close>

theorem named_group_call:
  assumes "sys_inv (Suc N) p" and key: "ckey_ok (pw_lib p) context"
  shows "\<exists>r. PWR_CntxtGetGrpByName context name wanted (pw_lib p) = Some r \<and> sys_inv N (p\<lparr>pw_lib := snd (snd r)\<rparr>) \<and>
    keeps_promise context (pw_lib p) (by_name (pw_lib p) context name wanted) r"
proof -
  let ?s = "pw_lib p"
  note gi = sys_invD(1) [OF assms(1)]
  have stays: "sys_inv N p" using sys_inv_mono [OF assms(1)] by simp
  show ?thesis
  proof (cases "\<exists>n t c. name = Some n \<and> wanted \<and> map_of named_groups n = Some t \<and> ck context = dk context \<and> find_context_by_opaque context ?s = Some (Some c)")
    case False
    obtain res where res: "find_context_by_opaque context ?s = Some res" using find_context_total [OF gi key] by blast
    have "ck context \<notin> context_view ?s" if "res = None"
      using res that by (auto simp: context_view_def simp flip: find_context_lookup [OF gi key])
    with False res have "\<exists>st. PWR_CntxtGetGrpByName context name wanted ?s = Some (st, None, ?s) \<and> by_name ?s context name wanted = (st, None)"
      by (auto simp: PWR_CntxtGetGrpByName_def by_name_def split: option.splits)
    with stays show ?thesis by (auto simp: keeps_promise_def)
  next
    case True
    then obtain n t c where n: "name = Some n" "wanted" "map_of named_groups n = Some t" "ck context = dk context"
      and c: "find_context_by_opaque context ?s = Some (Some c)" by blast
    obtain s1 s' hd where g: "context_new_group c ?s = Some (Some (next_addr ?s), s1)" "ctxs s1 c \<noteq> None"
      "\<And>cx1. ctxs s1 c = Some cx1 \<Longrightarrow> populate_traverse (ctx_entry_point cx1) (next_addr ?s) t s1 = Some (0, s')"
      "\<exists>rc ra. refs s' c = Some rc \<and> refs s' (next_addr ?s) = Some ra \<and> hd = OPAQUE_GENERATE (ref_key rc) (ref_key ra)"
      "sys_inv N (p\<lparr>pw_lib := s'\<rparr>)" "adds_group context (tree_objects ?s (ck context) t) (abs_lib ?s) hd (abs_lib s')"
      by (rule named_group_made [where t = t, OF assms(1) c key]) (rule that)
    then have "PWR_CntxtGetGrpByName context name wanted ?s = Some (PWR_RET_SUCCESS, Some hd, s')"
      using n c by (auto simp: PWR_CntxtGetGrpByName_def)
    moreover have "ck context \<in> context_view ?s" unfolding context_view_def
    proof (intro CollectI conjI exI)
      show l: "lookup_context ?s (ck context) = Some (Some c)" using find_context_lookup [OF gi key] c by blast
      then obtain a where "opaque_map_lookup ?s (ck context) = Some a"
        by (auto simp: lookup_context_def opaque_map_lookup_type_def split: option.splits bind_splits)
      then show "ck context \<noteq> 0" using key_ok_lookup key unfolding ckey_ok_def by blast
    qed
    with n have "by_name ?s context name wanted = (PWR_RET_SUCCESS, Some (tree_objects ?s (ck context) t))" by (simp add: by_name_def)
    ultimately show ?thesis using g(5,6) by (simp add: keeps_promise_def)
  qed
qed

subsection \<open>An example\<close>

definition example_pwr :: pwr where
  "example_pwr = fresh_process\<lparr>pw_lib := example_lib\<lparr>opaque_map := Some \<lparr>rand_seq = cyclic 100, table = [1 \<mapsto> 1, 2 \<mapsto> 2, 3 \<mapsto> 3]\<rparr>\<rparr>,
     pw_w := example_hw, pw_plugin := True\<rparr>"

lemma example_pwr_inv: "sys_inv 1 example_pwr"
proof -
  let ?s = "pw_lib example_pwr"
  have s: "?s = example_lib\<lparr>opaque_map := Some \<lparr>rand_seq = cyclic 100, table = [1 \<mapsto> 1, 2 \<mapsto> 2, 3 \<mapsto> 3]\<rparr>\<rparr>" by (simp add: example_pwr_def)
  have same: "opaque_map_lookup ?s = opaque_map_lookup example_lib" "refs ?s = refs example_lib"
    by (simp_all add: s opaque_map_lookup_def example_lib_def fun_eq_iff)
  have "opaque_inv ?s" using example_handles(1) unfolding opaque_inv_def entry_ok_def keyed_ok_def same .
  moreover have "ample 1 ?s"
  proof -
    have "\<exists>n\<ge>i. cyclic 100 n \<notin> K \<and> fresh_draw (cyclic 100) [1 \<mapsto> 1, 2 \<mapsto> 2, 3 \<mapsto> 3] n" if K: "finite K" "card K \<le> 1" for i K
    proof -
      have "card (K \<union> {1, 2, 3}) \<le> card K + card {1, 2, 3 :: 32 word}" by (rule card_Un_le)
      with K have "card (K \<union> {1, 2, 3}) < 100" "finite (K \<union> {1, 2, 3})" by simp_all
      from cyclic_fresh [of 100, OF _ _ this(2,1)] obtain n where n: "n \<ge> i" "cyclic 100 n \<notin> K \<union> {1, 2, 3}" "cyclic 100 n \<noteq> 0" by auto
      have "GUINT_TO_POINTER 1 = 1" "GUINT_TO_POINTER 2 = 2" "GUINT_TO_POINTER 3 = 3" by (simp_all add: GUINT_TO_POINTER_def)
      then have "GUINT_TO_POINTER (cyclic 100 n) \<notin> {1, 2, 3}" using n(2) GUINT_TO_POINTER_inject by (metis UnI2 empty_iff insert_iff)
      with n show ?thesis by (auto simp: fresh_draw_def)
    qed
    then show ?thesis by (simp add: ample_def s)
  qed
  moreover have "group_inv ?s"
    using example_inv calculation(1,2) by (simp add: group_inv_def s fresh_ok_def typed_ok_def ctx_ok_def grp_ok_def has_type_def key_at_def)
  moreover have "objects_typed ?s" using example_objects_typed by (simp add: objects_typed_def has_type_def s)
  moreover have "tree_ok ?s" using example_tree tree_ok_cong [of ?s example_lib] by (simp add: s)
  moreover have "plugin_ready ?s (pw_w example_pwr)" using example_hw_ready by (simp add: plugin_ready_def s) (simp add: example_pwr_def)
  moreover have "linked ?s"
    unfolding linked_def s by (auto simp: example_lib_def has_type_def node_obj_def split: if_splits)
  moreover have "objs ?s a = None \<and> gnodes ?s a = None \<and> ctxs ?s a = None \<and> xw_ipc (pw_w example_pwr) a = None" if "next_addr ?s \<le> a" for a
    using that by (simp add: s example_pwr_def example_lib_def example_hw_def ipcworld.extend_def)
  moreover have "md_ok (xw_md (pw_w example_pwr)) \<and> pw_plugin example_pwr" by (simp add: example_pwr_def example_hw_def ipcworld.extend_def)
  ultimately show ?thesis by (simp add: sys_inv_def)
qed

theorem named_group_call_witness:
  "\<exists>hd s'. PWR_CntxtGetGrpByName example_ctx (Some ''all_socket'') True (pw_lib example_pwr) = Some (PWR_RET_SUCCESS, Some hd, s') \<and>
     sys_inv 0 (example_pwr\<lparr>pw_lib := s'\<rparr>)"
proof -
  have key: "ck example_ctx = 1" by code_simp
  have "sys_inv (Suc 0) example_pwr" using example_pwr_inv by simp
  moreover have "ckey_ok (pw_lib example_pwr) example_ctx" by (simp add: ckey_ok_def key)
  ultimately obtain r where
    r: "PWR_CntxtGetGrpByName example_ctx (Some ''all_socket'') True (pw_lib example_pwr) = Some r" "sys_inv 0 (example_pwr\<lparr>pw_lib := snd (snd r)\<rparr>)"
    "keeps_promise example_ctx (pw_lib example_pwr) (by_name (pw_lib example_pwr) example_ctx (Some ''all_socket'') True) r"
    using named_group_call by blast
  have "ck example_ctx = 1" "dk example_ctx = 1" by code_simp+
  moreover have "lookup_context (pw_lib example_pwr) 1 = Some (Some 1)"
    by (simp add: example_pwr_def example_lib_def lookup_context_def opaque_map_lookup_type_def opaque_map_lookup_def)
  ultimately have "fst (by_name (pw_lib example_pwr) example_ctx (Some ''all_socket'') True) = PWR_RET_SUCCESS \<and>
      snd (by_name (pw_lib example_pwr) example_ctx (Some ''all_socket'') True) \<noteq> None"
    by (simp add: by_name_def named_groups_def context_view_def)
  with r show ?thesis by (cases r) (auto simp: keeps_promise_def split: prod.splits option.splits)
qed

end
