(* ===== verification/Ctrl.thy ===== *)
theory Ctrl
  imports Ipc_Socket
begin

text \<open>
  The program that controls the daemon: \<^verbatim>\<open>daemon/ctrl/ctrl.c\<close>, \<^verbatim>\<open>ctrl_request.c\<close> and \<^verbatim>\<open>ctrl_socket.c\<close>. Its
  arguments are split into options by \<^verbatim>\<open>getopt_long\<close>; the options set flags; then the
  daemon is asked for a change of its log levels and for a dump. A call of \<^verbatim>\<open>exit\<close> is the left
  value of a sum, with the code of the process.
\<close>

subsection \<open>The options of the program\<close>

abbreviation cmdline_help :: int where "cmdline_help \<equiv> 1001"
abbreviation cmdline_clear :: int where "cmdline_clear \<equiv> 1002"
abbreviation cmdline_debug :: int where "cmdline_debug \<equiv> 1003"
abbreviation cmdline_trace :: int where "cmdline_trace \<equiv> 1004"
abbreviation cmdline_status :: int where "cmdline_status \<equiv> 1005"
abbreviation cmdline_dump :: int where "cmdline_dump \<equiv> 1006"

definition Short_Options :: string where "Short_Options = ''hd::t::suDT''"

text \<open>The name, whether the option takes an argument (which can be left out), the value.\<close>

definition Long_Options :: "(string \<times> bool \<times> int) list" where
  "Long_Options =
     [(''help'', False, cmdline_help), (''clear'', False, cmdline_clear), (''debug'', True, cmdline_debug),
      (''trace'', True, cmdline_trace), (''status'', False, cmdline_status), (''dump'', False, cmdline_dump)]"

subsection \<open>The C library\<close>

text \<open>
  \<^verbatim>\<open>getopt_long\<close> of the GNU library. An option is its value and its argument; one that is not known or misused is
  a question mark. In a group of short options the rest of the group is the argument of the first option that
  can have one. Long names may be cut as long as they are unique. Other arguments are skipped.
\<close>

type_synonym opt = "int \<times> string option"

abbreviation bad_option :: opt where "bad_option \<equiv> (63, None)"

fun short_option :: "string \<Rightarrow> char \<Rightarrow> nat option" where
  "short_option [] c = None"
| "short_option (x # xs) c = (if x = c then Some (length (takeWhile (\<lambda>k. k = CHR '':'') xs)) else short_option xs c)"

fun getopt_group :: "string \<Rightarrow> opt list" where
  "getopt_group [] = []"
| "getopt_group (c # rest) =
     (case if c = CHR '':'' then None else short_option Short_Options c of
        None \<Rightarrow> bad_option # getopt_group rest
      | Some n \<Rightarrow> if n = 0 then (of_char c, None) # getopt_group rest else [(of_char c, if rest = [] then None else Some rest)])"

definition getopt_name :: "string \<Rightarrow> opt" where
  "getopt_name arg =
     (let name = takeWhile (\<lambda>c. c \<noteq> CHR ''='') arg;
          optarg = (case dropWhile (\<lambda>c. c \<noteq> CHR ''='') arg of [] \<Rightarrow> None | _ # v \<Rightarrow> Some v);
          cut = filter (\<lambda>(n, _). take (length name) n = name) Long_Options;
          found = (case filter (\<lambda>(n, _). n = name) cut of
                     opt # _ \<Rightarrow> Some opt
                   | [] \<Rightarrow> (case cut of [opt] \<Rightarrow> Some opt | _ \<Rightarrow> None))
      in case found of
           None \<Rightarrow> bad_option
         | Some (_, has_arg, v) \<Rightarrow> if \<not> has_arg \<and> optarg \<noteq> None then bad_option else (v, optarg))"

fun getopt_long :: "string list \<Rightarrow> opt list" where
  "getopt_long [] = []"
| "getopt_long (arg # args) =
     (if arg = ''--'' then []
      else if take 2 arg = ''--'' then getopt_name (drop 2 arg) # getopt_long args
      else if take 1 arg = ''-'' \<and> arg \<noteq> ''-'' then getopt_group (tl arg) @ getopt_long args
      else getopt_long args)"

text \<open>\<^verbatim>\<open>strtol\<close> with base 0, as \<open>strtoul_0\<close>, and the conversion of its result to \<^verbatim>\<open>int\<close>.\<close>

definition number_0 :: "string \<Rightarrow> nat" where
  "number_0 r =
     (case r of
        [] \<Rightarrow> 0
      | c # rest \<Rightarrow>
          if c \<noteq> CHR ''0'' then base_value 10 r
          else
            (case rest of
               x # h # _ \<Rightarrow> if (x = CHR ''x'' \<or> x = CHR ''X'') \<and> in_base 16 h then base_value 16 (drop 2 r) else base_value 8 r
             | _ \<Rightarrow> base_value 8 r))"

definition strtol_0 :: "string \<Rightarrow> int" where
  "strtol_0 s =
     (let (neg, r) = scan_sign (dropWhile is_space s) in sint (ucast (to_long neg (number_0 r)) :: 32 word))"

subsection \<open>The flags (ctrl.c)\<close>

record ctrl_flags =
  d_flag :: int
  t_flag :: int
  s_flag :: int
  u_flag :: int
  D_flag :: int
  T_flag :: int

definition initial_flags :: ctrl_flags where
  "initial_flags = \<lparr>d_flag = - 1, t_flag = - 1, s_flag = 0, u_flag = 0, D_flag = 0, T_flag = 0\<rparr>"

definition level_option :: "string option \<Rightarrow> int \<Rightarrow> int" where
  "level_option optarg flag =
     (let flag = (if flag < 0 then 0 else flag) in
      case optarg of None \<Rightarrow> flag + 1 | Some v \<Rightarrow> strtol_0 v)"

text \<open>The usage is printed and the process exits for the help option and for one that is not known.\<close>

fun parse_cmd_line :: "opt list \<Rightarrow> ctrl_flags \<Rightarrow> int + ctrl_flags" where
  "parse_cmd_line [] f = Inr f"
| "parse_cmd_line ((c, optarg) # opts) f =
     (if c = cmdline_help \<or> c = of_char CHR ''h'' then Inl 0
      else if c = cmdline_clear \<or> c = of_char CHR ''c'' then parse_cmd_line opts (f\<lparr>d_flag := 0, t_flag := 0\<rparr>)
      else if c = cmdline_debug \<or> c = of_char CHR ''d'' then parse_cmd_line opts (f\<lparr>d_flag := level_option optarg (d_flag f)\<rparr>)
      else if c = cmdline_trace \<or> c = of_char CHR ''t'' then parse_cmd_line opts (f\<lparr>t_flag := level_option optarg (t_flag f)\<rparr>)
      else if c = cmdline_status \<or> c = of_char CHR ''s'' then parse_cmd_line opts (f\<lparr>s_flag := s_flag f + 1\<rparr>)
      else if c = cmdline_dump \<or> c = of_char CHR ''u'' then parse_cmd_line opts (f\<lparr>u_flag := u_flag f + 1\<rparr>)
      else if c = of_char CHR ''D'' then parse_cmd_line opts (f\<lparr>D_flag := D_flag f + 1\<rparr>)
      else if c = of_char CHR ''T'' then parse_cmd_line opts (f\<lparr>T_flag := T_flag f + 1\<rparr>)
      else Inl 1)"

subsection \<open>The connection (ctrl_socket.c)\<close>

text \<open>What is printed: the usage, on standard output or as an error, and the levels of the daemon.\<close>

datatype ctrl_text = UsageText bool | LevelsText int int

record ctrlworld = ipcworld +
  cw_out :: "ctrl_text list"

type_synonym 'a exits = "(int + 'a) \<times> ctrlworld"

definition send_req :: "int \<Rightarrow> powerapi_request_t \<Rightarrow> ctrlworld \<Rightarrow> unit exits" where
  "send_req named_socket req w =
     (case sock_write named_socket req w of (ok, w) \<Rightarrow> (if ok then Inr () else Inl 1, w))"

definition get_resp :: "int \<Rightarrow> ctrlworld \<Rightarrow> powerapi_response_t exits" where
  "get_resp named_socket w =
     (case sock_read named_socket w of (None, w) \<Rightarrow> (Inl 1, w) | (Some resp, w) \<Rightarrow> (Inr resp, w))"

text \<open>The result of \<^verbatim>\<open>socket\<close> is not tested; connecting an invalid socket fails.\<close>

definition daemon_connect :: "ctrlworld \<Rightarrow> int exits" where
  "daemon_connect w =
     (let named_socket = w_socket w (sw_tick w); w = tick w in
      if length POWERAPID_SOCKET_PATH \<ge> SUN_PATH_SIZE then (Inl 1, w)
      else
        let ok = named_socket \<ge> 0 \<and> w_connect w (sw_tick w); w = tick w in
        if \<not> ok then (Inl 1, w) else (Inr named_socket, w\<lparr>w_open := insert named_socket (w_open w)\<rparr>))"

definition daemon_disconnect :: "int \<Rightarrow> ctrlworld \<Rightarrow> ctrlworld" where
  "daemon_disconnect named_socket w = w\<lparr>w_open := w_open w - {named_socket}\<rparr>"

subsection \<open>The requests (ctrl_request.c)\<close>

text \<open>A request and its response; both failures end the process with code 1.\<close>

definition request_response :: "int \<Rightarrow> powerapi_request_t \<Rightarrow> ctrlworld \<Rightarrow> powerapi_response_t exits" where
  "request_response named_socket req w =
     (case send_req named_socket req w of
        (Inl code, w) \<Rightarrow> (Inl code, w)
      | (Inr _, w) \<Rightarrow>
          (case get_resp named_socket w of
             (Inl code, w) \<Rightarrow> (Inl code, w)
           | (Inr resp, w) \<Rightarrow>
               if resp_retval resp = PWR_RET_OP_NO_PERM then (Inl 1, w)
               else if resp_retval resp \<noteq> PWR_RET_SUCCESS then (Inl 1, w)
               else (Inr resp, w)))"

text \<open>A response without levels has zeros in their place.\<close>

definition do_loglvl_request :: "int \<Rightarrow> int \<Rightarrow> int \<Rightarrow> int \<Rightarrow> ctrlworld \<Rightarrow> unit exits" where
  "do_loglvl_request named_socket Dlevel Tlevel Sflag w =
     (case request_response named_socket (PwrLOGLVL Dlevel Tlevel) w of
        (Inl code, w) \<Rightarrow> (Inl code, w)
      | (Inr resp, w) \<Rightarrow>
          let (dbg, trc) = (case resp_loglvl resp of None \<Rightarrow> (0, 0) | Some l \<Rightarrow> l) in
          (Inr (), if Sflag \<noteq> 0 then w\<lparr>cw_out := cw_out w @ [LevelsText dbg trc]\<rparr> else w))"

definition do_dump_request :: "int \<Rightarrow> ctrlworld \<Rightarrow> unit exits" where
  "do_dump_request named_socket w =
     (case request_response named_socket PwrDUMP w of
        (Inl code, w) \<Rightarrow> (Inl code, w)
      | (Inr _, w) \<Rightarrow> (Inr (), w))"

subsection \<open>The program\<close>

text \<open>The levels of the program's own log have no effect. The arguments do not include the name of the program.\<close>

definition ctrl_main :: "string list \<Rightarrow> ctrlworld \<Rightarrow> int \<times> ctrlworld" where
  "ctrl_main args w =
     (case parse_cmd_line (getopt_long args) initial_flags of
        Inl code \<Rightarrow> (code, w\<lparr>cw_out := cw_out w @ [UsageText (code \<noteq> 0)]\<rparr>)
      | Inr f \<Rightarrow>
          (case daemon_connect w of
             (Inl code, w) \<Rightarrow> (code, w)
           | (Inr named_socket, w) \<Rightarrow>
               (case if d_flag f \<noteq> 0 \<or> t_flag f \<noteq> 0 \<or> s_flag f \<noteq> 0
                     then do_loglvl_request named_socket (d_flag f) (t_flag f) (s_flag f) w else (Inr (), w) of
                  (Inl code, w) \<Rightarrow> (code, w)
                | (Inr _, w) \<Rightarrow>
                    (case if u_flag f \<noteq> 0 then do_dump_request named_socket w else (Inr (), w) of
                       (Inl code, w) \<Rightarrow> (code, w)
                     | (Inr _, w) \<Rightarrow> (0, daemon_disconnect named_socket w)))))"

end
