(* ===== verification/Ctrl_Properties.thy ===== *)
theory Ctrl_Properties
  imports Ctrl X86_Roundtrip Daemon_Example
begin

text \<open>
  The control program against the daemon: the levels asked for on the command line are those of the daemon
  afterwards, and the options for which this fails.
\<close>

subsection \<open>Numbers\<close>

lemma strtol_show:
  assumes "0 < n" "n < 2 ^ 31"
  shows "strtol_0 (show_nat n) = int n"
proof -
  note D = show_nat_digits [of n] and L = show_nat_lead [OF assms(1)]
  obtain c ds where s: "show_nat n = c # ds" using D by (cases "show_nat n") auto
  with D have c: "is_digit c" "list_all is_digit (c # ds)" "digits_value (c # ds) = n" by simp_all
  then have "dropWhile is_space (c # ds) = c # ds" "scan_sign (c # ds) = (False, c # ds)"
    using digit_not_space digit_not_sign by (auto simp: scan_sign_def)
  moreover have "number_0 (c # ds) = n" using L s base_value_digits [OF c(2)] c(3) by (simp add: number_0_def)
  moreover have "sint (ucast (to_long False n) :: 32 word) = int n"
    using assms(2) by (simp add: to_long_def signed_of_nat unsigned_of_nat take_bit_nat_eq_self signed_take_bit_int_eq_self)
  ultimately show ?thesis using s by (simp add: strtol_0_def)
qed

lemma strtol_letters: "strtol_0 (replicate n CHR ''d'') = 0"
proof (cases n)
  case (Suc m)
  have "\<not> in_base 10 CHR ''d''" "\<not> is_space CHR ''d''" by code_simp+
  then show ?thesis
    by (simp add: Suc strtol_0_def scan_sign_def number_0_def base_value_def to_long_def)
qed (simp add: strtol_0_def scan_sign_def number_0_def to_long_def)

subsection \<open>The command line\<close>

abbreviation parsed :: "string list \<Rightarrow> int + ctrl_flags" where
  "parsed args \<equiv> parse_cmd_line (getopt_long args) initial_flags"

lemma debug_options: "short_option Short_Options CHR ''d'' = Some 2" "of_char CHR ''d'' = (100 :: int)" "of_char CHR ''h'' = (104 :: int)"
    "of_char CHR ''c'' = (99 :: int)"
  by code_simp+

lemma parse_debug:
  "parse_cmd_line ((100, optarg) # opts) f = parse_cmd_line opts (f\<lparr>d_flag := level_option optarg (d_flag f)\<rparr>)"
  "parse_cmd_line ((cmdline_debug, optarg) # opts) f = parse_cmd_line opts (f\<lparr>d_flag := level_option optarg (d_flag f)\<rparr>)"
  by (simp_all add: debug_options)

lemma getopt_d: "getopt_long ((CHR ''-'' # CHR ''d'' # rest) # args) = (100, if rest = [] then None else Some rest) # getopt_long args"
  by (simp add: debug_options)

lemma parse_ds:
  "d_flag f \<ge> 0 \<Longrightarrow> parse_cmd_line (getopt_long (replicate n ''-d'')) f = Inr (f\<lparr>d_flag := d_flag f + int n\<rparr>)"
proof (induction n arbitrary: f)
  case (Suc n)
  then show ?case by (simp only: replicate_Suc getopt_d parse_debug) (simp add: level_option_def)
qed simp

text \<open>
  C36. The usage says that the debug level is raised by repeating the letter in one argument. For every number of
  letters above one this sets the level to zero instead: the further letters are taken for the
  value of the first one. Repeating the argument, or giving the level behind the long option, has the effect that is documented.
\<close>

theorem repeated_letters_reset_level:
  assumes "2 \<le> n" "n < 2 ^ 31"
  shows "parsed [CHR ''-'' # replicate n CHR ''d''] = Inr (initial_flags\<lparr>d_flag := 0\<rparr>) \<and>
    parsed (replicate n ''-d'') = Inr (initial_flags\<lparr>d_flag := int n\<rparr>) \<and>
    parsed [''--debug='' @ show_nat n] = Inr (initial_flags\<lparr>d_flag := int n\<rparr>)"
proof (intro conjI)
  obtain m where m: "n = Suc m" "m \<noteq> 0" using assms(1) by (cases n) auto
  show "parsed [CHR ''-'' # replicate n CHR ''d''] = Inr (initial_flags\<lparr>d_flag := 0\<rparr>)"
    using m(2) by (simp only: m(1) replicate_Suc getopt_d parse_debug) (simp add: level_option_def strtol_letters)
  show "parsed (replicate n ''-d'') = Inr (initial_flags\<lparr>d_flag := int n\<rparr>)"
    by (simp only: m(1) replicate_Suc getopt_d parse_debug) (simp add: level_option_def initial_flags_def parse_ds)
  have "getopt_long [''--debug='' @ show_nat n] = [(cmdline_debug, Some (show_nat n))]"
    by (simp add: getopt_name_def Long_Options_def)
  then show "parsed [''--debug='' @ show_nat n] = Inr (initial_flags\<lparr>d_flag := int n\<rparr>)"
    using assms strtol_show [of n] by (simp only: parse_debug) (simp add: level_option_def)
qed

theorem repeated_letters_reset_level_witness:
  "parsed [''-dd''] = Inr (initial_flags\<lparr>d_flag := 0\<rparr>) \<and> parsed [''-d'', ''-d''] = Inr (initial_flags\<lparr>d_flag := int 2\<rparr>)"
proof -
  have two: "replicate 2 x = [x, x]" for x :: 'a by (simp add: numeral_2_eq_2)
  have "(2 :: nat) \<le> 2" "(2 :: nat) < 2 ^ 31" by simp_all
  from repeated_letters_reset_level [OF this, unfolded two] show ?thesis by blast
qed

subsection \<open>The conversation\<close>

lemma tick_out [simp]: "cw_out (tick w) = cw_out w"
  by (simp add: tick_def)

text \<open>The socket that the program gets, and that the daemon accepts it.\<close>

definition reachable_at :: "int \<Rightarrow> ctrlworld \<Rightarrow> bool" where
  "reachable_at fd w \<longleftrightarrow> w_socket w (sw_tick w) = fd \<and> 0 \<le> fd \<and> w_connect w (Suc (sw_tick w))"

lemma connects:
  assumes "reachable_at fd w"
  shows "daemon_connect w = (Inr fd, (tick (tick w))\<lparr>w_open := insert fd (w_open w)\<rparr>)"
  using assms by (simp add: daemon_connect_def reachable_at_def POWERAPID_SOCKET_PATH_def Let_def)

lemma clear_options:
  "parsed [''--clear''] = Inr (initial_flags\<lparr>d_flag := 0, t_flag := 0\<rparr>)" "parsed [''-c''] = Inl 1"
  "parsed [''--clear'', ''--status''] = Inr (initial_flags\<lparr>d_flag := 0, t_flag := 0, s_flag := 1\<rparr>)"
  by code_simp+

lemma ctrl_main_usage: "parsed args = Inl code \<Longrightarrow> fst (ctrl_main args w) = code"
  by (simp add: ctrl_main_def)

lemma ctrl_main_silent:
  assumes "parsed args = Inr f" "d_flag f = 0" "t_flag f = 0" "s_flag f = 0" "u_flag f = 0" "reachable_at fd w"
  shows "ctrl_main args w = (0, daemon_disconnect fd ((tick (tick w))\<lparr>w_open := insert fd (w_open w)\<rparr>))"
  using assms by (simp add: ctrl_main_def connects)

text \<open>
  C35. The option that is documented to set both levels to zero does not reach the daemon: the program connects, sends nothing
  and reports success, because a level of zero is taken for one that is not asked for. The short form of the option is not known
  to the parser at all.
\<close>

theorem clear_sends_nothing:
  assumes "reachable_at fd w"
  shows "\<exists>w'. ctrl_main [''--clear''] w = (0, w') \<and> w_sent w' = w_sent w \<and> cw_out w' = cw_out w \<and> fst (ctrl_main [''-c''] w) = 1"
  using ctrl_main_silent [OF clear_options(1) _ _ _ _ assms] ctrl_main_usage [OF clear_options(2)]
  by (simp add: initial_flags_def daemon_disconnect_def)

definition example_ctrl :: ctrlworld where
  "example_ctrl = ipcworld.extend ((example_ipcworld 0)\<lparr>w_socket := (\<lambda>_. 3), w_connect := (\<lambda>_. True), w_write := (\<lambda>_. True),
     w_read := (\<lambda>_. Some ((ret_response PWR_RET_SUCCESS)\<lparr>resp_loglvl := Some (2, 0)\<rparr>))\<rparr>) \<lparr>cw_out = []\<rparr>"

lemma example_ctrl_reachable: "reachable_at 3 example_ctrl"
  by (simp add: reachable_at_def example_ctrl_def ipcworld.extend_def)

theorem clear_sends_nothing_witness:
  "\<exists>w'. ctrl_main [''--clear''] example_ctrl = (0, w') \<and> w_sent w' = w_sent example_ctrl \<and> cw_out w' = cw_out example_ctrl \<and>
     fst (ctrl_main [''-c''] example_ctrl) = 1"
  by (rule clear_sends_nothing [OF example_ctrl_reachable])


text \<open>The daemon of the example with its one client.\<close>

lemma status_options: "parsed [''--debug=7'', ''--status''] = Inr (initial_flags\<lparr>d_flag := 7, s_flag := 1\<rparr>)"
proof -
  have "strtol_0 ''7'' = 7"
    using strtol_show [of 7] by (simp add: show_nat.simps digit_char_def char_of_def bit_0)
  moreover have "getopt_long [''--debug=7'', ''--status''] = [(cmdline_debug, Some ''7''), (cmdline_status, None)]" by code_simp
  ultimately show ?thesis by (simp add: initial_flags_def level_option_def)
qed


end
