(* ===== verification/Spec2Isabelle.thy ===== *)
theory Spec2Isabelle
  imports Group_Properties Stale_Statistics Stat_Properties Timer Daemon_Properties Log_Message Pwr_List
    Cpu_States Ipc_Socket X86_Properties X86_Roundtrip Hint_Properties Named_Groups Ctrl_Properties
begin

text \<open>
  A verification of the Cray implementation of the Power API.

  \<^bold>\<open>The program.\<close> The library (\<^verbatim>\<open>lib/\<close>) gives applications handles to contexts,
  objects, groups, statistics and status objects, and lets them read and set attributes of
  the objects of a node: frequencies, power limits, idle states, governors. A plugin below
  the library reads the hardware. Values are set through a daemon (\<^verbatim>\<open>daemon/\<close>) that
  runs as root, receives requests of the clients on a socket, arbitrates between them, and
  writes the control files of the kernel. A file of user identifiers (\<^verbatim>\<open>common/\<close>)
  says who may connect.

  \<^bold>\<open>The library.\<close>
  \<^item> \<open>Pwr_Prelude\<close>: return codes, attributes and object types of
    \<^verbatim>\<open>include/cray-powerapi/types.h\<close>, the generic lemmas and the collections of rules.
  \<^item> \<open>Opaque\<close>: \<^verbatim>\<open>lib/opaque.c\<close>, the table from handles to structures. Keys come from a
    random generator, which is a stream in the state; the loop that draws until a key is free
    is a partial function, and exactly the streams for which it ends are characterised.
  \<^item> \<open>Bitmask\<close>: \<^verbatim>\<open>lib/bitmask.c\<close> and \<^verbatim>\<open>.h\<close>, blocks of 64 bits.
  \<^item> \<open>Group_Set\<close>: the sorted member sequences of \<^verbatim>\<open>lib/group.c\<close> and the four merge walks.
  \<^item> \<open>Lib_State\<close>, \<open>Lifecycle\<close>: the state of the library, a record of one map per kind of
    structure, from addresses to records (\<^verbatim>\<open>group_t\<close>, \<^verbatim>\<open>obj_t\<close>, \<^verbatim>\<open>stat_t\<close>,
    \<^verbatim>\<open>status_t\<close>, \<^verbatim>\<open>context_t\<close>, \<^verbatim>\<open>hierarchy_t\<close>), and the functions that create, link
    and release structures. Access to an address that is not allocated is \<open>None\<close>: a theorem
    that a call returns \<open>Some\<close> says that it touches no released memory.
  \<^item> \<open>Group_API\<close>, \<open>Group_Inv\<close>, \<open>Group_Spec\<close>, \<open>Group_Properties\<close>: the calls
    \<^verbatim>\<open>PWR_Grp*\<close>; the invariant of the state and that each call keeps it; a specification in
    which a group is a set of objects; and the refinement of runs of calls.
  \<^item> \<open>Stale_Statistics\<close>: a dangling list after a change of a group with statistics.
  \<^item> \<open>Attr_Tables\<close>, \<open>Objects\<close>, \<open>Object_API\<close>, \<open>Object_Properties\<close>: \<^verbatim>\<open>lib/object.c\<close>. The plugin
    is a parameter: a function that answers the reads and writes of an object. Requests for
    an attribute that an object does not have are forwarded down the tree; the recursion is
    bounded by fuel, the number of addresses allocated so far: a child is allocated after its
    parent, so no downward path is longer (\<open>set_value_calls\<close> shows that the fuel is enough).
  \<^item> \<open>Attr_API\<close>, \<open>Attr_Properties\<close>: \<^verbatim>\<open>lib/attributes.c\<close>, single and multiple reads and
    writes, status objects as queues of errors.
  \<^item> \<open>Pwr_Double\<close>, \<open>Statistics\<close>, \<open>Stat_Properties\<close>: \<^verbatim>\<open>lib/statistics.c\<close>. A double is an exact
    real, an infinity or NaN: rounding is not modelled. One round of the sampling thread is a
    function from the readings to the new state.
  \<^item> \<open>Timer\<close>: the arithmetic of \<^verbatim>\<open>lib/timer.h\<close>.
  \<^item> \<open>Pwr_List\<close>: \<^verbatim>\<open>lib/pwr_list.c\<close>, the growing arrays of values. The interface \<open>value_list\<close>
    is interpreted for the lists of integers, of doubles and of strings.

  \<^item> \<open>Ieee\<close>, \<open>Plugin_Common\<close>: the bits of an IEEE double and the conversions of C between doubles
    and integers; \<^verbatim>\<open>lib/plugins/common\<close>, reading of values from files and commands, and the rest
    of \<^verbatim>\<open>lib/timer.h\<close> and \<^verbatim>\<open>lib/timer.c\<close>. The system is a record of what each system call answers
    at each instant.
  \<^item> \<open>Cpu_States\<close>: \<^verbatim>\<open>lib/plugins/cpudev\<close> and the sleep and performance states of
    \<^verbatim>\<open>lib/rolesys/app_os.c\<close>. The tables of states and that the initialisation makes them monotone.
  \<^item> \<open>Ipc_Socket\<close>: \<^verbatim>\<open>lib/ipc.c\<close> and \<^verbatim>\<open>lib/plugins/ipc_socket\<close>, the client's side of the daemon's
    protocol.
  \<^item> \<open>Sysfiles\<close>: the catalog of paths and its configuration file (\<^verbatim>\<open>lib/utility.c\<close>), with the
    comparison of formats; formats that match take the same arguments.
  \<^item> \<open>X86_Common\<close>, \<open>X86_Objects\<close>, \<open>X86_Rapl\<close>: \<^verbatim>\<open>lib/plugins/x86/x86_obj*.c\<close>, the reads, writes and
    metadata of nodes, power planes, cores and hardware threads, and of sockets and memory.
    \<open>X86_Plugin\<close> puts them together as \<^verbatim>\<open>x86_plugin.c\<close> does, as a plugin of the object model.
  \<^item> \<open>X86_Properties\<close>: accesses through the library with this plugin never go wrong.
    \<open>X86_Roundtrip\<close>: a value set by an application passes the plugin, the connection and the daemon
    into the control files, from which the plugin reads it back.
  \<^item> \<open>Cpu_List\<close>, \<open>X86_Hierarchy\<close>: \<^verbatim>\<open>x86_hierarchy.c\<close>, the lists of processors and the discovery of
    sockets, memory, cores, hardware threads and their temperature files.
  \<^item> \<open>Hints\<close>, \<open>Frames\<close>, \<open>Hint_Properties\<close>: \<^verbatim>\<open>lib/hints\<close> and the hint regions of \<^verbatim>\<open>app_os.c\<close>, which refine a
    map from identifiers to regions.
  \<^item> \<open>Hierarchy\<close>, \<open>Contexts\<close>: the construction of objects (\<^verbatim>\<open>lib/object.c\<close>), \<^verbatim>\<open>lib/hierarchy.c\<close> and
    \<^verbatim>\<open>lib/context.c\<close>. \<open>Building\<close>: the invariant of a hierarchy under construction, and that objects can be
    made, released and inserted. \<open>Discovery\<close>, \<open>Topology\<close>, \<open>Construction\<close>: the files of the machine are
    read without going wrong as long as they are sane (\<open>healthy\<close>); every step of the discovery keeps the invariant,
    and taking a hierarchy down releases what was made. The number of keys a construction takes is
    bounded by four for each possible processor.
  \<^item> \<open>Context_Properties\<close>: the invariant of the whole library between calls (\<open>sys_inv\<close>), and that the creation of
    contexts returns and keeps it. \<open>Named_Groups\<close>: \<^verbatim>\<open>PWR_CntxtGetGrpByName\<close>.

  \<^bold>\<open>The daemon.\<close>
  \<^item> \<open>Text_Numbers\<close>, \<open>Files\<close>: decimal text as \<^verbatim>\<open>printf\<close> and \<^verbatim>\<open>scanf\<close> treat it; files as texts,
    with permissions and acceptance of a value decided outside of the program.
  \<^item> \<open>Permissions\<close>, \<open>Gov\<close>: \<^verbatim>\<open>common/permissions.c\<close> and \<^verbatim>\<open>common/gov.c\<close>.
  \<^item> \<open>Daemon_Values\<close>: the first half of \<^verbatim>\<open>daemon/pwrapi_worker.c\<close>, control files.
  \<^item> \<open>Daemon_Sets\<close>: \<^verbatim>\<open>daemon/pwrapi_set.c\<close>, \<^verbatim>\<open>daemon/pwrapi_socket.c\<close> and the worker.
    Requests and sockets live at addresses, as in the library.
  \<^item> \<open>Daemon_Server\<close>, \<open>Log_Levels\<close>: \<^verbatim>\<open>daemon/powerapid.c\<close> as a step function over events
    (connection, request or hang-up of a client, turn of the worker), with the log levels of
    \<^verbatim>\<open>lib/log.c\<close> that a client can change.
  \<^item> \<open>Daemon_Inv\<close>, \<open>Daemon_Run\<close>: the invariant of the tables and of the server, and that every
    event keeps it. The one exception is the event that \<open>hangup_with_queued_request\<close> describes.
  \<^item> \<open>Daemon_Arbitration\<close>: the control file holds the most restrictive value. The order of the
    lists is an interface (\<open>priority_list\<close>), interpreted for integer requests.
  \<^item> \<open>Daemon_Example\<close>, \<open>Daemon_Properties\<close>: a concrete run, and the properties of the daemon.
  \<^item> \<open>Ctrl\<close>, \<open>Ctrl_Properties\<close>: the control program \<^verbatim>\<open>daemon/ctrl\<close>, from its command line to the requests it
    sends, and what they do to the levels of the daemon.

  \<^bold>\<open>The log.\<close>
  \<^item> \<open>Log_Ring\<close>: the ring buffers of \<^verbatim>\<open>lib/log.c\<close>, byte arrays with 32-bit positions, refine a
    queue that drops its oldest messages (interface \<open>bounded_queue\<close>). The loop that makes room
    is a partial function; it ends for messages shorter than the ring, and only for those.
  \<^item> \<open>Log_Message\<close>: the message blocks put into the rings.

  \<^bold>\<open>What is assumed.\<close> Memory allocation succeeds, as the program exits otherwise. Calls of
  one process do not interleave; the sampling threads and the daemon's worker run between
  calls and events, one round or one item at a time. Log and trace output has no effect.

  \<^bold>\<open>What is not modelled.\<close> The write thread and the files of \<^verbatim>\<open>lib/log.c\<close>: they move the messages of the rings
  to files and system logs. The command line programs under \<^verbatim>\<open>clients/\<close> and the vendored libraries they use. The signal
  handlers of the daemon and its message to another node (\<^verbatim>\<open>pwrapi_signal.c\<close>, \<^verbatim>\<open>pwrapi_down.c\<close>). Destroying one
  context while groups of another one hold its objects is modelled, but no theorem covers it.
\<close>

end
